(* ===== verification/Prelude.thy ===== *)
theory Prelude
  imports Main "HOL-Library.Word"
begin

text \<open>
  Shared vocabulary of the development: the types that stand for the C types of the
  program, the fact collections the component theories extend, and the generic lemmas
  on lists that more than one component uses.
\<close>

section \<open>Types of the C program\<close>

text \<open>
  An \<open>unsigned char\<close> is a \<open>byte\<close>; a C string is the list of its bytes without
  the terminating NUL.  Signed counters that the program never brings near \<open>INT_MAX\<close>
  (element counts, buffer lengths) are \<open>int\<close>.
\<close>

type_synonym byte = "8 word"
type_synonym cstring = "byte list"

section \<open>Fact collections\<close>

named_theorems tree_simps \<open>unfolding rules of the node operations of the 2-3-4 tree\<close>
named_theorems conf_simps \<open>unfolding rules of the configuration store\<close>
named_theorems telnet_simps \<open>unfolding rules of the telnet state machine\<close>

section \<open>Lists\<close>

definition opt_list :: "'a option \<Rightarrow> 'a list" where
  "opt_list x = (case x of None \<Rightarrow> [] | Some a \<Rightarrow> [a])"

lemma opt_list_simps [simp]:
  "opt_list None = []" "opt_list (Some a) = [a]"
  by (simp_all add: opt_list_def)

text \<open>Insertion of an element at a position, and removal of the element at a position.\<close>

definition insert_nth :: "nat \<Rightarrow> 'a \<Rightarrow> 'a list \<Rightarrow> 'a list" where
  "insert_nth i x xs = take i xs @ x # drop i xs"

definition remove_nth :: "nat \<Rightarrow> 'a list \<Rightarrow> 'a list" where
  "remove_nth i xs = take i xs @ drop (Suc i) xs"

lemma length_insert_nth [simp]: "i \<le> length xs \<Longrightarrow> length (insert_nth i x xs) = Suc (length xs)"
  by (simp add: insert_nth_def)

lemma length_remove_nth [simp]: "i < length xs \<Longrightarrow> length (remove_nth i xs) = length xs - 1"
  by (simp add: remove_nth_def)

lemma insert_nth_split [simp]: "insert_nth (length ps) x (ps @ qs) = ps @ x # qs"
  by (simp add: insert_nth_def)

lemma insert_nth_append_left:
  "i \<le> length xs \<Longrightarrow> insert_nth i x (xs @ ys) = insert_nth i x xs @ ys"
  by (simp add: insert_nth_def)

lemma insert_nth_append_right:
  "insert_nth (length ps + i) x (ps @ qs) = ps @ insert_nth i x qs"
  by (simp add: insert_nth_def)

lemma remove_nth_split [simp]: "remove_nth (length ps) (ps @ x # qs) = ps @ qs"
  by (simp add: remove_nth_def)

lemma remove_nth_append_left:
  "i < length xs \<Longrightarrow> remove_nth i (xs @ ys) = remove_nth i xs @ ys"
  by (simp add: remove_nth_def)

lemma remove_nth_append_right:
  "remove_nth (length ps + i) (ps @ qs) = ps @ remove_nth i qs"
  by (simp add: remove_nth_def Suc_diff_le)

lemma remove_insert_nth: "i \<le> length xs \<Longrightarrow> remove_nth i (insert_nth i x xs) = xs"
  by (simp add: insert_nth_def remove_nth_def min_def)

end
