(* ===== verification/Tree234.thy ===== *)
theory Tree234
  imports Prelude
begin

text \<open>
  The counted 2-3-4 tree of \<open>putty/tree234.c\<close>, the container behind the configuration
  store, the timer list, the screen and scrollback of the terminal and the SSH channel
  tables.

  A node is a value with the four \<open>kids\<close>, four \<open>counts\<close> and three \<open>elems\<close> of
  \<open>struct node234_Tag\<close>, in the order \<open>kid count elem kid count elem kid count elem
  kid count\<close>; a \<open>NULL\<close> element is \<open>None\<close>.  The nodes of a tree are not shared, so
  the \<open>parent\<close> pointer is the call stack of the recursive definitions: a loop of the C
  code that walks down and then up along \<open>parent\<close> is a recursion whose result the
  caller combines.
\<close>

section \<open>Nodes\<close>

datatype 'a node234 =
    NULL
  | Node "'a node234" int "'a option" "'a node234" int "'a option"
         "'a node234" int "'a option" "'a node234" int

record 'a tree234 =
  root :: "'a node234"
  cmp :: "('a \<Rightarrow> 'a \<Rightarrow> int) option"

fun kid :: "'a node234 \<Rightarrow> nat \<Rightarrow> 'a node234" where
  "kid NULL i = NULL"
| "kid (Node k0 n0 e0 k1 n1 e1 k2 n2 e2 k3 n3) i =
     (if i = 0 then k0 else if i = 1 then k1 else if i = 2 then k2
      else if i = 3 then k3 else NULL)"

fun cnt :: "'a node234 \<Rightarrow> nat \<Rightarrow> int" where
  "cnt NULL i = 0"
| "cnt (Node k0 n0 e0 k1 n1 e1 k2 n2 e2 k3 n3) i =
     (if i = 0 then n0 else if i = 1 then n1 else if i = 2 then n2
      else if i = 3 then n3 else 0)"

fun elm :: "'a node234 \<Rightarrow> nat \<Rightarrow> 'a option" where
  "elm NULL i = None"
| "elm (Node k0 n0 e0 k1 n1 e1 k2 n2 e2 k3 n3) i =
     (if i = 0 then e0 else if i = 1 then e1 else if i = 2 then e2 else None)"

fun set_kid :: "'a node234 \<Rightarrow> nat \<Rightarrow> 'a node234 \<Rightarrow> 'a node234" where
  "set_kid NULL i k = NULL"
| "set_kid (Node k0 n0 e0 k1 n1 e1 k2 n2 e2 k3 n3) i k =
     (if i = 0 then Node k n0 e0 k1 n1 e1 k2 n2 e2 k3 n3
      else if i = 1 then Node k0 n0 e0 k n1 e1 k2 n2 e2 k3 n3
      else if i = 2 then Node k0 n0 e0 k1 n1 e1 k n2 e2 k3 n3
      else if i = 3 then Node k0 n0 e0 k1 n1 e1 k2 n2 e2 k n3
      else Node k0 n0 e0 k1 n1 e1 k2 n2 e2 k3 n3)"

fun set_cnt :: "'a node234 \<Rightarrow> nat \<Rightarrow> int \<Rightarrow> 'a node234" where
  "set_cnt NULL i c = NULL"
| "set_cnt (Node k0 n0 e0 k1 n1 e1 k2 n2 e2 k3 n3) i c =
     (if i = 0 then Node k0 c e0 k1 n1 e1 k2 n2 e2 k3 n3
      else if i = 1 then Node k0 n0 e0 k1 c e1 k2 n2 e2 k3 n3
      else if i = 2 then Node k0 n0 e0 k1 n1 e1 k2 c e2 k3 n3
      else if i = 3 then Node k0 n0 e0 k1 n1 e1 k2 n2 e2 k3 c
      else Node k0 n0 e0 k1 n1 e1 k2 n2 e2 k3 n3)"

fun set_elm :: "'a node234 \<Rightarrow> nat \<Rightarrow> 'a option \<Rightarrow> 'a node234" where
  "set_elm NULL i e = NULL"
| "set_elm (Node k0 n0 e0 k1 n1 e1 k2 n2 e2 k3 n3) i e =
     (if i = 0 then Node k0 n0 e k1 n1 e1 k2 n2 e2 k3 n3
      else if i = 1 then Node k0 n0 e0 k1 n1 e k2 n2 e2 k3 n3
      else if i = 2 then Node k0 n0 e0 k1 n1 e1 k2 n2 e k3 n3
      else Node k0 n0 e0 k1 n1 e1 k2 n2 e2 k3 n3)"

definition newtree234 :: "('a \<Rightarrow> 'a \<Rightarrow> int) option \<Rightarrow> 'a tree234" where
  "newtree234 f = \<lparr>root = NULL, cmp = f\<rparr>"

fun countnode234 :: "'a node234 \<Rightarrow> int" where
  "countnode234 NULL = 0"
| "countnode234 (Node k0 n0 e0 k1 n1 e1 k2 n2 e2 k3 n3) =
     n0 + n1 + n2 + n3 + (if e0 \<noteq> None then 1 else 0)
     + (if e1 \<noteq> None then 1 else 0) + (if e2 \<noteq> None then 1 else 0)"

definition count234 :: "'a tree234 \<Rightarrow> int" where
  "count234 t = (if root t \<noteq> NULL then countnode234 (root t) else 0)"

lemma kid_size: "n \<noteq> NULL \<Longrightarrow> size (kid n c) < size n"
  by (cases n) auto

section \<open>Insertion\<close>

text \<open>
  One step of the descent: the child to go to with the index left in it, an element that
  compares equal, an index beyond the node, or behaviour that C leaves undefined (a read
  past the \<open>kids\<close> array of a leaf, a missing element or comparison function).
\<close>

datatype 'a descent = Go nat int | Present 'a | OutOfRange | Undefined

fun pos_child :: "int \<Rightarrow> 'a node234 \<Rightarrow> 'a descent" where
  "pos_child index NULL = Undefined"
| "pos_child index (Node k0 n0 e0 k1 n1 e1 k2 n2 e2 k3 n3) =
     (if k0 = NULL then (if index \<le> 3 then Go (nat index) index else Undefined)
      else if index \<le> n0 then Go 0 index
      else let i1 = index - (n0 + 1) in
        if i1 \<le> n1 then Go 1 i1
      else let i2 = i1 - (n1 + 1) in
        if i2 \<le> n2 then Go 2 i2
      else let i3 = i2 - (n2 + 1) in
        if i3 \<le> n3 then Go 3 i3
      else OutOfRange)"

fun cmp_child :: "('a \<Rightarrow> int) \<Rightarrow> int \<Rightarrow> 'a node234 \<Rightarrow> 'a descent" where
  "cmp_child f index NULL = Undefined"
| "cmp_child f index (Node k0 n0 e0 k1 n1 e1 k2 n2 e2 k3 n3) =
     (case e0 of None \<Rightarrow> Undefined | Some a \<Rightarrow>
        if f a < 0 then Go 0 index
        else if f a = 0 then Present a
        else (case e1 of None \<Rightarrow> Go 1 index | Some b \<Rightarrow>
          if f b < 0 then Go 1 index
          else if f b = 0 then Present b
          else (case e2 of None \<Rightarrow> Go 2 index | Some d \<Rightarrow>
            if f d < 0 then Go 2 index
            else if f d = 0 then Present d
            else Go 3 index)))"

definition add_child :: "('a \<Rightarrow> 'a \<Rightarrow> int) option \<Rightarrow> 'a \<Rightarrow> int \<Rightarrow> 'a node234 \<Rightarrow> 'a descent" where
  "add_child cf e index n =
     (if index \<ge> 0 then pos_child index n
      else case cf of None \<Rightarrow> Undefined | Some f \<Rightarrow> cmp_child (f e) index n)"

text \<open>
  What a level reports to its parent: the node took the element (and its count must be
  refreshed above), the node was split and \<open>left\<close>, \<open>e\<close>, \<open>right\<close> still have to be
  inserted, or the whole insertion stops.
\<close>

datatype 'a ins =
    Fit "'a node234"
  | Split "'a node234" int 'a "'a node234" int
  | Dup 'a
  | Fail
  | Crash

fun insert_at :: "'a node234 \<Rightarrow> nat \<Rightarrow> 'a node234 \<Rightarrow> int \<Rightarrow> 'a \<Rightarrow> 'a node234 \<Rightarrow> int \<Rightarrow> 'a ins" where
  "insert_at NULL np left lcount e right rcount = Crash"
| "insert_at (Node k0 n0 e0 k1 n1 None k2 n2 e2 k3 n3) np left lcount e right rcount =
     Fit (if np = 0 then Node left lcount (Some e) right rcount e0 k1 n1 e2 k3 n3
          else Node k0 n0 e0 left lcount (Some e) right rcount e2 k3 n3)"
| "insert_at (Node k0 n0 e0 k1 n1 (Some e1) k2 n2 None k3 n3) np left lcount e right rcount =
     Fit (if np = 0 then Node left lcount (Some e) right rcount e0 k1 n1 (Some e1) k2 n2
          else if np = 1 then Node k0 n0 e0 left lcount (Some e) right rcount (Some e1) k2 n2
          else Node k0 n0 e0 k1 n1 (Some e1) left lcount (Some e) right rcount)"
| "insert_at (Node k0 n0 e0 k1 n1 (Some e1) k2 n2 (Some e2) k3 n3) np left lcount e right rcount =
     (let (m, e', n) =
        (if np = 0 then
           (Node left lcount (Some e) right rcount e0 k1 n1 None NULL 0, e1,
            Node k2 n2 (Some e2) k3 n3 None NULL 0 None NULL 0)
         else if np = 1 then
           (Node k0 n0 e0 left lcount (Some e) right rcount None NULL 0, e1,
            Node k2 n2 (Some e2) k3 n3 None NULL 0 None NULL 0)
         else if np = 2 then
           (Node k0 n0 e0 k1 n1 (Some e1) left lcount None NULL 0, e,
            Node right rcount (Some e2) k3 n3 None NULL 0 None NULL 0)
         else
           (Node k0 n0 e0 k1 n1 (Some e1) k2 n2 None NULL 0, e2,
            Node left lcount (Some e) right rcount None NULL 0 None NULL 0))
      in Split m (countnode234 m) e' n (countnode234 n))"

function add_node :: "('a \<Rightarrow> 'a \<Rightarrow> int) option \<Rightarrow> 'a \<Rightarrow> int \<Rightarrow> 'a node234 \<Rightarrow> 'a ins" where
  "add_node cf e index n =
     (if n = NULL then Crash else
      case add_child cf e index n of
        Undefined \<Rightarrow> Crash
      | OutOfRange \<Rightarrow> Fail
      | Present x \<Rightarrow> Dup x
      | Go c i \<Rightarrow>
          (if kid n c = NULL then insert_at n c NULL 0 e NULL 0
           else case add_node cf e i (kid n c) of
               Fit k \<Rightarrow> Fit (set_cnt (set_kid n c k) c (countnode234 k))
             | Split l lc x r rc \<Rightarrow> insert_at n c l lc x r rc
             | Dup x \<Rightarrow> Dup x
             | Fail \<Rightarrow> Fail
             | Crash \<Rightarrow> Crash))"
  by pat_completeness auto
termination
  by (relation "measure (\<lambda>(cf, e, index, n). size n)") (auto simp: kid_size)

declare add_node.simps [simp del]

text \<open>
  The pointer \<open>add234_internal\<close> returns: the new element itself, the element that
  compared equal, or \<open>NULL\<close>; \<open>AddCrash\<close> is undefined behaviour.
\<close>

datatype 'a add_ret = Added | Already 'a | AddNull | AddCrash

definition add234_internal :: "'a tree234 \<Rightarrow> 'a \<Rightarrow> int \<Rightarrow> 'a add_ret \<times> 'a tree234" where
  "add234_internal t e index =
     (if root t = NULL
      then (Added, t\<lparr>root := Node NULL 0 (Some e) NULL 0 None NULL 0 None NULL 0\<rparr>)
      else case add_node (cmp t) e index (root t) of
          Fit n \<Rightarrow> (Added, t\<lparr>root := n\<rparr>)
        | Split l lc x r rc \<Rightarrow>
            (Added, t\<lparr>root := Node l lc (Some x) r rc None NULL 0 None NULL 0\<rparr>)
        | Dup x \<Rightarrow> (Already x, t)
        | Fail \<Rightarrow> (AddNull, t)
        | Crash \<Rightarrow> (AddCrash, t))"

definition add234 :: "'a tree234 \<Rightarrow> 'a \<Rightarrow> 'a add_ret \<times> 'a tree234" where
  "add234 t e = (if cmp t = None then (AddNull, t) else add234_internal t e (-1))"

definition addpos234 :: "'a tree234 \<Rightarrow> 'a \<Rightarrow> int \<Rightarrow> 'a add_ret \<times> 'a tree234" where
  "addpos234 t e index =
     (if index < 0 \<or> cmp t \<noteq> None then (AddNull, t) else add234_internal t e index)"

section \<open>Lookup\<close>

fun index_node :: "int \<Rightarrow> 'a node234 \<Rightarrow> 'a option" where
  "index_node index NULL = None"
| "index_node index (Node k0 n0 e0 k1 n1 e1 k2 n2 e2 k3 n3) =
     (if index < n0 then index_node index k0
      else let i0 = index - (n0 + 1) in if i0 < 0 then e0
      else if i0 < n1 then index_node i0 k1
      else let i1 = i0 - (n1 + 1) in if i1 < 0 then e1
      else if i1 < n2 then index_node i1 k2
      else let i2 = i1 - (n2 + 1) in if i2 < 0 then e2
      else index_node i2 k3)"

definition index234 :: "'a tree234 \<Rightarrow> int \<Rightarrow> 'a option" where
  "index234 t index =
     (if root t = NULL then None
      else if index < 0 \<or> index \<ge> countnode234 (root t) then None
      else index_node index (root t))"

datatype rel234 = REL234_EQ | REL234_LT | REL234_LE | REL234_GT | REL234_GE

text \<open>
  The \<open>for\<close> loop over \<open>kcount\<close> in one node: where it stops, the index so far, and
  whether the element \<open>kcount\<close> was found.  The function \<open>c\<close> is the comparison of the
  key sought with an element.
\<close>

function slot_loop :: "('a \<Rightarrow> int) \<Rightarrow> 'a node234 \<Rightarrow> nat \<Rightarrow> int \<Rightarrow> nat \<times> int \<times> bool" where
  "slot_loop c n kcount idx =
     (if kcount \<ge> 3 then (kcount, idx, False)
      else case elm n kcount of None \<Rightarrow> (kcount, idx, False)
      | Some x \<Rightarrow>
          if c x < 0 then (kcount, idx, False)
          else let idx' = (if kid n kcount \<noteq> NULL then idx + cnt n kcount else idx) in
            if c x = 0 then (kcount, idx', True)
            else slot_loop c n (kcount + 1) (idx' + 1))"
  by pat_completeness auto
termination
  by (relation "measure (\<lambda>(c, n, k, idx). 3 - k)") auto

declare slot_loop.simps [simp del]

function search_node :: "('a \<Rightarrow> int) \<Rightarrow> 'a node234 \<Rightarrow> int \<Rightarrow> int \<times> 'a option" where
  "search_node c n idx =
     (case slot_loop c n 0 idx of (kcount, idx', found) \<Rightarrow>
        if found then (idx', elm n kcount)
        else if kid n kcount \<noteq> NULL then search_node c (kid n kcount) idx'
        else (idx', None))"
  by pat_completeness auto
termination
proof (relation "measure (\<lambda>(c, n, idx). size n)")
  fix c :: "'a \<Rightarrow> int" and n idx x kcount y idx' found
  assume "kid n kcount \<noteq> NULL"
  then show "((c, kid n kcount, idx'), c, n, idx) \<in> measure (\<lambda>(c, n, idx). size n)"
    by (cases "n = NULL") (auto simp: kid_size)
qed simp

declare search_node.simps [simp del]

text \<open>
  A \<open>NULL\<close> key stands before or after every element; with another relation the
  code's \<open>assert\<close> fails, and so does a search without a comparison function: \<open>None\<close>.
\<close>

fun key_cmp :: "('k \<Rightarrow> 'a \<Rightarrow> int) \<Rightarrow> 'k option \<Rightarrow> rel234 \<Rightarrow> ('a \<Rightarrow> int) option" where
  "key_cmp cf (Some e) relation = Some (cf e)"
| "key_cmp cf None REL234_LT = Some (\<lambda>_. 1)"
| "key_cmp cf None REL234_GT = Some (\<lambda>_. - 1)"
| "key_cmp cf None relation = None"

definition rel_result :: "'a tree234 \<Rightarrow> rel234 \<Rightarrow> int \<times> 'a option \<Rightarrow> ('a \<times> int) option" where
  "rel_result t relation r =
     (case r of
        (idx, Some x) \<Rightarrow>
          (if relation \<noteq> REL234_LT \<and> relation \<noteq> REL234_GT then Some (x, idx)
           else let i = (if relation = REL234_LT then idx - 1 else idx + 1)
             in map_option (\<lambda>y. (y, i)) (index234 t i))
      | (idx, None) \<Rightarrow>
          (if relation = REL234_EQ then None
           else let i = (if relation = REL234_LT \<or> relation = REL234_LE then idx - 1 else idx)
             in map_option (\<lambda>y. (y, i)) (index234 t i)))"

definition findrelpos234 ::
  "'a tree234 \<Rightarrow> 'k option \<Rightarrow> ('k \<Rightarrow> 'a \<Rightarrow> int) \<Rightarrow> rel234 \<Rightarrow> ('a \<times> int) option option" where
  "findrelpos234 t e cf relation =
     (if root t = NULL then Some None
      else case key_cmp cf e relation of None \<Rightarrow> None
      | Some c \<Rightarrow> Some (rel_result t relation (search_node c (root t) 0)))"

definition findrel234 ::
  "'a tree234 \<Rightarrow> 'k option \<Rightarrow> ('k \<Rightarrow> 'a \<Rightarrow> int) \<Rightarrow> rel234 \<Rightarrow> 'a option option" where
  "findrel234 t e cf relation = map_option (map_option fst) (findrelpos234 t e cf relation)"

definition findpos234 ::
  "'a tree234 \<Rightarrow> 'k option \<Rightarrow> ('k \<Rightarrow> 'a \<Rightarrow> int) \<Rightarrow> ('a \<times> int) option option" where
  "findpos234 t e cf = findrelpos234 t e cf REL234_EQ"

definition find234 :: "'a tree234 \<Rightarrow> 'k option \<Rightarrow> ('k \<Rightarrow> 'a \<Rightarrow> int) \<Rightarrow> 'a option option" where
  "find234 t e cf = map_option (map_option fst) (findrelpos234 t e cf REL234_EQ)"

end
