(* ===== verification/Tree234_Facts.thy ===== *)
theory Tree234_Facts
  imports Tree234
begin

text \<open>
  What insertion and lookup in the 2-3-4 tree do, over the list of the elements in order.
  The invariant \<open>full234\<close> is what the consistency checker of \<open>putty/tree234.c\<close>
  (\<open>chknode\<close>) tests: the same depth everywhere, one more kid than elements in an inner
  node, no kid and no element after the first missing one, and exact counts.
\<close>

section \<open>Abstraction and invariant\<close>

fun inorder :: "'a node234 \<Rightarrow> 'a list" where
  "inorder NULL = []"
| "inorder (Node k0 n0 e0 k1 n1 e1 k2 n2 e2 k3 n3) =
     inorder k0 @ opt_list e0 @ inorder k1 @ opt_list e1 @ inorder k2 @ opt_list e2 @ inorder k3"

abbreviation len :: "'a node234 \<Rightarrow> int" where
  "len n \<equiv> int (length (inorder n))"

abbreviation elements :: "'a tree234 \<Rightarrow> 'a list" where
  "elements t \<equiv> inorder (root t)"

fun full234 :: "nat \<Rightarrow> 'a node234 \<Rightarrow> bool" where
  "full234 0 n = (n = NULL)"
| "full234 (Suc h) NULL = False"
| "full234 (Suc h) (Node k0 n0 e0 k1 n1 e1 k2 n2 e2 k3 n3) =
     (e0 \<noteq> None \<and> full234 h k0 \<and> n0 = len k0 \<and> full234 h k1 \<and> n1 = len k1 \<and>
      (case e1 of None \<Rightarrow> k2 = NULL \<and> n2 = 0 \<and> e2 = None
       | Some _ \<Rightarrow> full234 h k2 \<and> n2 = len k2) \<and>
      (case e2 of None \<Rightarrow> k3 = NULL \<and> n3 = 0
       | Some _ \<Rightarrow> full234 h k3 \<and> n3 = len k3))"

definition wf234 :: "'a tree234 \<Rightarrow> bool" where
  "wf234 t \<longleftrightarrow> (\<exists>h. full234 h (root t))"

text \<open>The three shapes of a well-formed node.\<close>

abbreviation N2 :: "'a node234 \<Rightarrow> 'a \<Rightarrow> 'a node234 \<Rightarrow> 'a node234" where
  "N2 k0 a k1 \<equiv> Node k0 (len k0) (Some a) k1 (len k1) None NULL 0 None NULL 0"

abbreviation N3 :: "'a node234 \<Rightarrow> 'a \<Rightarrow> 'a node234 \<Rightarrow> 'a \<Rightarrow> 'a node234 \<Rightarrow> 'a node234" where
  "N3 k0 a k1 b k2 \<equiv> Node k0 (len k0) (Some a) k1 (len k1) (Some b) k2 (len k2) None NULL 0"

abbreviation N4 ::
  "'a node234 \<Rightarrow> 'a \<Rightarrow> 'a node234 \<Rightarrow> 'a \<Rightarrow> 'a node234 \<Rightarrow> 'a \<Rightarrow> 'a node234 \<Rightarrow> 'a node234" where
  "N4 k0 a k1 b k2 c k3 \<equiv>
     Node k0 (len k0) (Some a) k1 (len k1) (Some b) k2 (len k2) (Some c) k3 (len k3)"

lemma full234_SucE [consumes 1, case_names N2 N3 N4]:
  assumes "full234 (Suc h) n"
  obtains (N2) k0 a k1 where "n = N2 k0 a k1" "full234 h k0" "full234 h k1"
  | (N3) k0 a k1 b k2 where "n = N3 k0 a k1 b k2" "full234 h k0" "full234 h k1" "full234 h k2"
  | (N4) k0 a k1 b k2 c k3 where "n = N4 k0 a k1 b k2 c k3"
      "full234 h k0" "full234 h k1" "full234 h k2" "full234 h k3"
proof (cases n)
  case NULL
  with assms show ?thesis by simp
next
  case (Node k0 n0 e0 k1 n1 e1 k2 n2 e2 k3 n3)
  with assms obtain a where "e0 = Some a" by auto
  with Node assms show ?thesis
    by (cases e1; cases e2) (auto intro: that)
qed

lemma full234_NULL: "full234 h NULL \<longleftrightarrow> h = 0"
  by (cases h) auto

lemma countnode234_full: "full234 h n \<Longrightarrow> countnode234 n = len n"
proof (cases h)
  case (Suc h')
  assume "full234 h n"
  with Suc have "full234 (Suc h') n" by simp
  then show ?thesis by (cases rule: full234_SucE) auto
qed simp

text \<open>
  The kid at a position splits the elements of the node into those before it, its own and
  those after it.
\<close>

fun before :: "'a node234 \<Rightarrow> nat \<Rightarrow> 'a list" where
  "before NULL c = []"
| "before (Node k0 n0 e0 k1 n1 e1 k2 n2 e2 k3 n3) c =
     (if c = 0 then []
      else if c = 1 then inorder k0 @ opt_list e0
      else if c = 2 then inorder k0 @ opt_list e0 @ inorder k1 @ opt_list e1
      else inorder k0 @ opt_list e0 @ inorder k1 @ opt_list e1 @ inorder k2 @ opt_list e2)"

fun after :: "'a node234 \<Rightarrow> nat \<Rightarrow> 'a list" where
  "after NULL c = []"
| "after (Node k0 n0 e0 k1 n1 e1 k2 n2 e2 k3 n3) c =
     (if c = 0 then opt_list e0 @ inorder k1 @ opt_list e1 @ inorder k2 @ opt_list e2 @ inorder k3
      else if c = 1 then opt_list e1 @ inorder k2 @ opt_list e2 @ inorder k3
      else if c = 2 then opt_list e2 @ inorder k3
      else [])"

definition nelems :: "'a node234 \<Rightarrow> nat" where
  "nelems n = (if elm n 1 = None then 1 else if elm n 2 = None then 2 else 3)"

lemma nat_le_3E:
  assumes "(c::nat) \<le> 3"
  obtains "c = 0" | "c = 1" | "c = 2" | "c = 3"
  using assms by (auto simp: numeral_eq_Suc le_Suc_eq)

lemma inorder_split:
  assumes "full234 (Suc h) n" and "c \<le> nelems n"
  shows "inorder n = before n c @ inorder (kid n c) @ after n c"
proof -
  from assms(2) have "c \<le> 3" by (auto simp: nelems_def split: if_splits)
  then show ?thesis using assms
    by (elim nat_le_3E full234_SucE) (auto simp: nelems_def)
qed

lemma full234_kid: "full234 (Suc h) n \<Longrightarrow> c \<le> nelems n \<Longrightarrow> full234 h (kid n c)"
  by (elim full234_SucE) (auto simp: nelems_def)

lemma cnt_len: "full234 (Suc h) n \<Longrightarrow> c \<le> nelems n \<Longrightarrow> cnt n c = len (kid n c)"
  by (elim full234_SucE) (auto simp: nelems_def)

section \<open>Insertion\<close>

text \<open>The nodes a level reports hold the elements \<open>xs\<close> and are full.\<close>

definition good_ins :: "nat \<Rightarrow> 'a ins \<Rightarrow> 'a list \<Rightarrow> bool" where
  "good_ins h r xs \<longleftrightarrow>
     (case r of
        Fit k \<Rightarrow> full234 h k \<and> inorder k = xs
      | Split l lc x r rc \<Rightarrow> full234 h l \<and> full234 h r \<and> lc = len l \<and> rc = len r
          \<and> inorder l @ x # inorder r = xs
      | _ \<Rightarrow> False)"

lemma insert_at_good:
  assumes "full234 (Suc h) n" and "c \<le> nelems n"
    and "full234 h l" "full234 h r" "lc = len l" "rc = len r"
  shows "good_ins (Suc h) (insert_at n c l lc e r rc)
           (before n c @ inorder l @ e # inorder r @ after n c)"
proof -
  from assms(2) have "c \<le> 3" by (auto simp: nelems_def split: if_splits)
  from assms(1) show ?thesis
  proof (cases rule: full234_SucE)
    case N2
    with assms show ?thesis by (auto simp: good_ins_def nelems_def)
  next
    case N3
    with assms \<open>c \<le> 3\<close> show ?thesis
      by (elim nat_le_3E) (auto simp: good_ins_def nelems_def)
  next
    case N4
    with assms \<open>c \<le> 3\<close> show ?thesis
      by (elim nat_le_3E) (auto simp: good_ins_def nelems_def)
  qed
qed

lemma replace_kid:
  assumes "full234 (Suc h) n" and "c \<le> nelems n" and "full234 h k" and "m = len k"
  shows "full234 (Suc h) (set_cnt (set_kid n c k) c m)"
    and "inorder (set_cnt (set_kid n c k) c m) = before n c @ inorder k @ after n c"
proof -
  from assms(2) have "c \<le> 3" by (auto simp: nelems_def split: if_splits)
  with assms show "full234 (Suc h) (set_cnt (set_kid n c k) c m)"
    by (elim nat_le_3E full234_SucE) (auto simp: nelems_def)
  from assms \<open>c \<le> 3\<close>
  show "inorder (set_cnt (set_kid n c k) c m) = before n c @ inorder k @ after n c"
    by (elim nat_le_3E full234_SucE) (auto simp: nelems_def)
qed

text \<open>The recursive step of an insertion, whatever chose the kid.\<close>

lemma add_node_step:
  assumes n: "full234 (Suc h) n" and c: "c \<le> nelems n"
    and go: "add_child cf e i n = Go c j"
    and rec: "h > 0 \<Longrightarrow> good_ins h (add_node cf e j (kid n c)) ys"
    and leaf: "h = 0 \<Longrightarrow> ys = [e]"
  shows "good_ins (Suc h) (add_node cf e i n) (before n c @ ys @ after n c)"
proof (cases "h = 0")
  case True
  with full234_kid [OF n c] have k: "kid n c = NULL" by simp
  have "n \<noteq> NULL" using n by auto
  with go k have "add_node cf e i n = insert_at n c NULL 0 e NULL 0"
    by (simp add: add_node.simps [of cf e i n])
  with insert_at_good [OF n c, of NULL NULL 0 0 e] True leaf show ?thesis by simp
next
  case False
  with full234_kid [OF n c] have k: "kid n c \<noteq> NULL" by (auto simp: full234_NULL)
  have "n \<noteq> NULL" using n by auto
  note unf = add_node.simps [of cf e i n]
  from rec False have "good_ins h (add_node cf e j (kid n c)) ys" by simp
  then show ?thesis
    using insert_at_good [OF n c] replace_kid [OF n c] \<open>n \<noteq> NULL\<close> go k
    by (subst unf) (auto simp: good_ins_def [of h] good_ins_def [of _ "Fit _"] countnode234_full
        simp flip: append_assoc split: ins.splits; fastforce)
qed

subsection \<open>Insertion by position\<close>

lemma pos_child_inner:
  assumes "full234 (Suc (Suc h)) n" and "0 \<le> i" and "i \<le> len n"
  obtains c j where "pos_child i n = Go c j" "c \<le> nelems n" "0 \<le> j" "j \<le> len (kid n c)"
    "i = int (length (before n c)) + j"
proof -
  have k0: "kid n 0 \<noteq> NULL"
    using full234_kid [OF assms(1), of 0] by (auto simp: nelems_def)
  have "\<exists>c j. pos_child i n = Go c j \<and> c \<le> nelems n \<and> 0 \<le> j \<and> j \<le> len (kid n c) \<and>
        i = int (length (before n c)) + j"
    using assms(1)
  proof (cases rule: full234_SucE)
    case N2
    with assms k0 show ?thesis by (auto simp: Let_def nelems_def)
  next
    case N3
    with assms k0 show ?thesis by (auto simp: Let_def nelems_def)
  next
    case N4
    with assms k0 show ?thesis by (auto simp: Let_def nelems_def)
  qed
  then show ?thesis using that by blast
qed

lemma pos_child_leaf:
  assumes "full234 (Suc 0) n" and "0 \<le> i" and "i \<le> len n"
  shows "pos_child i n = Go (nat i) i \<and> nat i \<le> nelems n \<and> length (before n (nat i)) = nat i"
  using assms(1)
proof (cases rule: full234_SucE)
  case N2
  with assms have "i = 0 \<or> i = 1" by auto
  with N2 show ?thesis by (auto simp: nelems_def)
next
  case N3
  with assms have "i = 0 \<or> i = 1 \<or> i = 2" by auto
  with N3 show ?thesis by (auto simp: nelems_def)
next
  case N4
  with assms have "i = 0 \<or> i = 1 \<or> i = 2 \<or> i = 3" by auto
  with N4 show ?thesis by (auto simp: nelems_def)
qed

lemma add_node_pos:
  "full234 (Suc h) n \<Longrightarrow> 0 \<le> i \<Longrightarrow> i \<le> len n \<Longrightarrow>
   good_ins (Suc h) (add_node cf e i n) (insert_nth (nat i) e (inorder n))"
proof (induction h arbitrary: n i)
  case 0
  from pos_child_leaf [OF 0] have leaf: "pos_child i n = Go (nat i) i" "nat i \<le> nelems n"
      "length (before n (nat i)) = nat i" by blast+
  have "good_ins (Suc 0) (add_node cf e i n) (before n (nat i) @ [e] @ after n (nat i))"
    by (rule add_node_step [OF 0(1) leaf(2)]) (use leaf(1) 0 in \<open>auto simp: add_child_def\<close>)
  moreover have "inorder n = before n (nat i) @ after n (nat i)"
    using inorder_split [OF 0(1) leaf(2)] full234_kid [OF 0(1) leaf(2)] by simp
  ultimately show ?case
    using leaf(3) insert_nth_split [of "before n (nat i)" e "after n (nat i)"] by simp
next
  case (Suc h)
  obtain c j where c: "pos_child i n = Go c j" "c \<le> nelems n" "0 \<le> j" "j \<le> len (kid n c)"
      "i = int (length (before n c)) + j"
    by (rule pos_child_inner [OF Suc.prems])
  have go: "add_child cf e i n = Go c j" using c(1) Suc.prems(2) by (simp add: add_child_def)
  have "good_ins (Suc h) (add_node cf e j (kid n c)) (insert_nth (nat j) e (inorder (kid n c)))"
    using full234_kid [OF Suc.prems(1) c(2)] c(3,4) by (rule Suc.IH)
  then have "good_ins (Suc (Suc h)) (add_node cf e i n)
      (before n c @ insert_nth (nat j) e (inorder (kid n c)) @ after n c)"
    by (intro add_node_step [OF Suc.prems(1) c(2) go]) simp_all
  moreover have "nat i = length (before n c) + nat j" using c(3,5) by simp
  ultimately show ?case
    using inorder_split [OF Suc.prems(1) c(2)] c(3,4)
    by (simp add: insert_nth_append_right insert_nth_append_left)
qed

lemma good_ins_root:
  assumes "good_ins h r xs" and "0 < h"
  shows "\<exists>n h'. full234 h' n \<and> inorder n = xs \<and> n \<noteq> NULL \<and>
    (case r of
        Fit n \<Rightarrow> (Added, t\<lparr>root := n\<rparr>)
      | Split l lc x r rc \<Rightarrow>
          (Added, t\<lparr>root := Node l lc (Some x) r rc None NULL 0 None NULL 0\<rparr>)
      | Dup x \<Rightarrow> (Already x, t)
      | Fail \<Rightarrow> (AddNull, t)
      | Crash \<Rightarrow> (AddCrash, t)) = (Added, t\<lparr>root := n\<rparr>)"
proof (cases r)
  case (Fit k)
  with assms show ?thesis
    by (intro exI [of _ k] exI [of _ h]) (auto simp: good_ins_def full234_NULL)
next
  case (Split l lc x r' rc)
  with assms show ?thesis
    by (intro exI [of _ "Node l lc (Some x) r' rc None NULL 0 None NULL 0"] exI [of _ "Suc h"])
      (auto simp: good_ins_def)
qed (use assms in \<open>auto simp: good_ins_def\<close>)

lemma full234_leaf: "full234 (Suc 0) (Node NULL 0 (Some e) NULL 0 None NULL 0 None NULL 0)"
  by simp

lemma addpos234_spec:
  assumes "wf234 t" and "cmp t = None" and "0 \<le> i" and "i \<le> len (root t)"
  shows "\<exists>t'. addpos234 t e i = (Added, t') \<and> wf234 t' \<and> cmp t' = None
    \<and> elements t' = insert_nth (nat i) e (elements t)"
proof (cases "root t = NULL")
  case True
  with assms full234_leaf [of e] show ?thesis
    by (auto simp: addpos234_def add234_internal_def wf234_def insert_nth_def simp del: full234.simps)
next
  case False
  with assms(1) obtain h where h: "full234 (Suc h) (root t)"
    unfolding wf234_def by (metis full234.simps(1) not0_implies_Suc)
  from good_ins_root [OF add_node_pos [OF h assms(3,4), where cf = "cmp t" and e = e], where t = t]
  show ?thesis
    using assms(2,3) False by (auto simp: addpos234_def add234_internal_def wf234_def)
qed

section \<open>Lookup by position\<close>

lemma nth_mid:
  assumes "0 \<le> i"
  shows "(xs @ a # ys) ! nat i =
    (if i < int (length xs) then xs ! nat i
     else if i = int (length xs) then a else ys ! nat (i - (int (length xs) + 1)))"
proof -
  have "nat i - length xs = Suc (nat (i - (int (length xs) + 1)))" if "int (length xs) < i"
    using that by linarith
  then show ?thesis using assms by (auto simp: nth_append nat_less_iff)
qed

lemma index_node_spec:
  "full234 h n \<Longrightarrow> 0 \<le> i \<Longrightarrow> i < len n \<Longrightarrow> index_node i n = Some (inorder n ! nat i)"
proof (induction h arbitrary: n i)
  case 0
  then show ?case by simp
next
  case (Suc h)
  show ?case using Suc.prems(1)
    by (cases rule: full234_SucE) (use Suc in \<open>auto simp: Let_def nth_mid\<close>)
qed

lemma index234_nth:
  assumes "wf234 t"
  shows "index234 t i = (if 0 \<le> i \<and> i < len (root t) then Some (elements t ! nat i) else None)"
proof -
  from assms obtain h where "full234 h (root t)" by (auto simp: wf234_def)
  then show ?thesis
    using index_node_spec [of h "root t" i] countnode234_full [of h "root t"]
    by (auto simp: index234_def)
qed

section \<open>Search by a comparison\<close>

text \<open>
  \<open>g x\<close> is the sign of "key compared with \<open>x\<close>".  Along the elements it is first positive,
  then zero for at most one element, then negative.  \<open>rank g xs\<close> is the number of elements
  before the key, \<open>hit g xs\<close> the element equal to it.
\<close>

definition mono_key :: "('a \<Rightarrow> int) \<Rightarrow> 'a list \<Rightarrow> bool" where
  "mono_key g xs \<longleftrightarrow> sorted_wrt (\<lambda>x y. g x \<le> 0 \<longrightarrow> g y < 0) xs"

definition rank :: "('a \<Rightarrow> int) \<Rightarrow> 'a list \<Rightarrow> nat" where
  "rank g xs = length (takeWhile (\<lambda>x. 0 < g x) xs)"

definition hit :: "('a \<Rightarrow> int) \<Rightarrow> 'a list \<Rightarrow> 'a option" where
  "hit g xs = find (\<lambda>x. g x = 0) xs"

lemma rank_Nil [simp]: "rank g [] = 0" and hit_Nil [simp]: "hit g [] = None"
  by (simp_all add: rank_def hit_def)

lemma mono_key_parts:
  assumes "mono_key g (xs @ a # ys)"
  shows "mono_key g xs" "mono_key g ys" "mono_key g (a # ys)"
  using assms by (auto simp: mono_key_def sorted_wrt_append)

lemma hit_append: "hit g (xs @ ys) = (case hit g xs of None \<Rightarrow> hit g ys | Some x \<Rightarrow> Some x)"
  by (induction xs) (auto simp: hit_def)

lemma hit_None: "(\<And>x. x \<in> set xs \<Longrightarrow> g x \<noteq> 0) \<Longrightarrow> hit g xs = None"
  by (auto simp: hit_def find_None_iff)

lemma takeWhile_all: "(\<And>x. x \<in> set xs \<Longrightarrow> P x) \<Longrightarrow> takeWhile P (xs @ ys) = xs @ takeWhile P ys"
  by (induction xs) auto

lemma search_left:
  assumes "mono_key g (xs @ a # ys)" and "g a < 0"
  shows "rank g (xs @ a # ys) = rank g xs" "hit g (xs @ a # ys) = hit g xs"
proof -
  from assms have "\<forall>y\<in>set ys. g y < 0" by (auto simp: mono_key_def sorted_wrt_append)
  with assms(2) have "hit g (a # ys) = None" by (intro hit_None) force
  then show "hit g (xs @ a # ys) = hit g xs" by (simp add: hit_append split: option.split)
  show "rank g (xs @ a # ys) = rank g xs"
    using assms(2) by (induction xs) (auto simp: rank_def)
qed

lemma search_right:
  assumes "mono_key g (xs @ a # ys)" and "0 < g a"
  shows "rank g (xs @ a # ys) = length xs + 1 + rank g ys" "hit g (xs @ a # ys) = hit g ys"
proof -
  from assms have xs: "0 < g x" if "x \<in> set xs" for x
    using that by (force simp: mono_key_def sorted_wrt_append)
  with assms(2) show "rank g (xs @ a # ys) = length xs + 1 + rank g ys"
    by (simp add: rank_def takeWhile_all)
  have "hit g xs = None" by (rule hit_None) (use xs in force)
  with assms(2) show "hit g (xs @ a # ys) = hit g ys" by (simp add: hit_append) (simp add: hit_def)
qed

lemma search_here:
  assumes "mono_key g (xs @ a # ys)" and "g a = 0"
  shows "rank g (xs @ a # ys) = length xs" "hit g (xs @ a # ys) = Some a"
proof -
  from assms have xs: "0 < g x" if "x \<in> set xs" for x
    using that by (force simp: mono_key_def sorted_wrt_append)
  with assms(2) show "rank g (xs @ a # ys) = length xs"
    by (simp add: rank_def takeWhile_all)
  have "hit g xs = None" by (rule hit_None) (use xs in force)
  with assms(2) show "hit g (xs @ a # ys) = Some a" by (simp add: hit_append) (simp add: hit_def)
qed

lemma rank_le: "rank g xs \<le> length xs"
  by (simp add: rank_def length_takeWhile_le)

text \<open>
  One level of the search.  The kid entered holds the key's place: what is before it counts
  in full, what is after it does not count.
\<close>

lemma count_kid [simp]: "(if k \<noteq> NULL then i + len k else i) = i + len k"
  by simp

lemmas slot_unfold = slot_loop.simps [of g n 0] slot_loop.simps [of g n "Suc 0"]
  slot_loop.simps [of g n "Suc (Suc 0)"] slot_loop.simps [of g n "Suc (Suc (Suc 0))"] for g n

lemmas search_simps = search_left search_right search_here

definition slot_ok ::
  "('a \<Rightarrow> int) \<Rightarrow> 'a node234 \<Rightarrow> int \<Rightarrow> nat \<times> int \<times> bool \<Rightarrow> bool" where
  "slot_ok g n idx r \<longleftrightarrow> (case r of (c, idx', found) \<Rightarrow>
     if found then hit g (inorder n) = elm n c \<and> elm n c \<noteq> None
                   \<and> idx' = idx + int (rank g (inorder n))
     else c \<le> nelems n \<and> idx' = idx + int (length (before n c))
          \<and> mono_key g (inorder (kid n c))
          \<and> rank g (inorder n) = length (before n c) + rank g (inorder (kid n c))
          \<and> hit g (inorder n) = hit g (inorder (kid n c)))"

lemma slot_loop_ok:
  assumes n: "full234 (Suc h) n" and m: "mono_key g (inorder n)"
  shows "slot_ok g n idx (slot_loop g n 0 idx)"
  using n
proof (cases rule: full234_SucE)
  case (N2 k0 a k1)
  from m N2(1) have ma: "mono_key g (inorder k0 @ a # inorder k1)" by simp
  note p = mono_key_parts [OF ma] search_simps [OF ma]
  consider "g a < 0" | "g a = 0" | "0 < g a" by linarith
  then show ?thesis
    by cases (use N2 p in \<open>simp_all add: slot_unfold slot_ok_def nelems_def Let_def\<close>)
next
  case (N3 k0 a k1 b k2)
  from m N3(1) have ma: "mono_key g (inorder k0 @ a # inorder k1 @ b # inorder k2)" by simp
  from mono_key_parts(2) [OF ma] have mb: "mono_key g (inorder k1 @ b # inorder k2)" .
  note p = mono_key_parts [OF ma] search_simps [OF ma] mono_key_parts [OF mb] search_simps [OF mb]
  consider "g a < 0" | "g a = 0" | "0 < g a" "g b < 0" | "0 < g a" "g b = 0" | "0 < g a" "0 < g b"
    by linarith
  then show ?thesis
    by cases (use N3 p in \<open>simp_all add: slot_unfold slot_ok_def nelems_def Let_def\<close>)
next
  case (N4 k0 a k1 b k2 d k3)
  from m N4(1) have ma: "mono_key g (inorder k0 @ a # inorder k1 @ b # inorder k2 @ d # inorder k3)"
    by simp
  from mono_key_parts(2) [OF ma] have mb: "mono_key g (inorder k1 @ b # inorder k2 @ d # inorder k3)" .
  from mono_key_parts(2) [OF mb] have md: "mono_key g (inorder k2 @ d # inorder k3)" .
  note p = mono_key_parts [OF ma] search_simps [OF ma] mono_key_parts [OF mb] search_simps [OF mb]
    mono_key_parts [OF md] search_simps [OF md]
  consider "g a < 0" | "g a = 0" | "0 < g a" "g b < 0" | "0 < g a" "g b = 0"
    | "0 < g a" "0 < g b" "g d < 0" | "0 < g a" "0 < g b" "g d = 0" | "0 < g a" "0 < g b" "0 < g d"
    by linarith
  then show ?thesis
    by cases (use N4 p in \<open>simp_all add: slot_unfold slot_ok_def nelems_def Let_def\<close>)
qed

lemma search_node_spec:
  "full234 (Suc h) n \<Longrightarrow> mono_key g (inorder n) \<Longrightarrow>
   search_node g n idx = (idx + int (rank g (inorder n)), hit g (inorder n))"
proof (induction h arbitrary: n idx)
  case (0 n idx)
  obtain c idx' found where s: "slot_loop g n 0 idx = (c, idx', found)" by (metis prod_cases3)
  from slot_loop_ok [OF 0, of idx] full234_kid [OF 0(1)] s show ?case
    by (subst search_node.simps) (auto simp: slot_ok_def split: if_splits)
next
  case (Suc h n idx)
  obtain c idx' found where s: "slot_loop g n 0 idx = (c, idx', found)" by (metis prod_cases3)
  note ok = slot_loop_ok [OF Suc.prems, of idx]
  show ?case
  proof (cases found)
    case True
    with ok s show ?thesis by (subst search_node.simps) (simp add: slot_ok_def)
  next
    case False
    with ok s have c: "c \<le> nelems n" and m: "mono_key g (inorder (kid n c))"
      by (simp_all add: slot_ok_def)
    from full234_kid [OF Suc.prems(1) c] have k: "full234 (Suc h) (kid n c)" .
    then have "kid n c \<noteq> NULL" by auto
    with False s Suc.IH [OF k m, of idx'] ok show ?thesis
      by (subst search_node.simps) (simp add: slot_ok_def)
  qed
qed

text \<open>What \<open>findrelpos234\<close> returns for a key, over the list of the elements.\<close>

definition nth_opt :: "'a list \<Rightarrow> int \<Rightarrow> ('a \<times> int) option" where
  "nth_opt xs i = (if 0 \<le> i \<and> i < int (length xs) then Some (xs ! nat i, i) else None)"

definition rel_spec :: "('a \<Rightarrow> int) \<Rightarrow> rel234 \<Rightarrow> 'a list \<Rightarrow> ('a \<times> int) option" where
  "rel_spec g relation xs =
     (let r = int (rank g xs) in
      case relation of
        REL234_EQ \<Rightarrow> map_option (\<lambda>x. (x, r)) (hit g xs)
      | REL234_LT \<Rightarrow> nth_opt xs (r - 1)
      | REL234_LE \<Rightarrow> (case hit g xs of Some x \<Rightarrow> Some (x, r) | None \<Rightarrow> nth_opt xs (r - 1))
      | REL234_GE \<Rightarrow> (case hit g xs of Some x \<Rightarrow> Some (x, r) | None \<Rightarrow> nth_opt xs r)
      | REL234_GT \<Rightarrow> nth_opt xs (if hit g xs = None then r else r + 1))"

lemma rel_spec_Nil [simp]: "rel_spec g relation [] = None"
  by (simp add: rel_spec_def nth_opt_def Let_def split: rel234.split)

lemma index234_nth_opt:
  "wf234 t \<Longrightarrow> map_option (\<lambda>y. (y, i)) (index234 t i) = nth_opt (elements t) i"
  by (simp add: index234_nth nth_opt_def)

lemma rel_result_spec:
  "wf234 t \<Longrightarrow> rel_result t relation (int (rank g (elements t)), hit g (elements t))
     = rel_spec g relation (elements t)"
  by (cases relation) (auto simp: rel_result_def rel_spec_def Let_def index234_nth_opt split: option.split)

lemma wf234_cases:
  assumes "wf234 t"
  obtains "root t = NULL" | h where "root t \<noteq> NULL" "full234 (Suc h) (root t)"
  using assms unfolding wf234_def by (metis full234.simps(1) full234_NULL not0_implies_Suc)

lemma findrelpos234_spec:
  assumes "wf234 t" and "key_cmp cf e relation = Some g" and "mono_key g (elements t)"
  shows "findrelpos234 t e cf relation = Some (rel_spec g relation (elements t))"
  using assms(1)
proof (cases rule: wf234_cases)
  case 1
  then show ?thesis by (simp add: findrelpos234_def)
next
  case (2 h)
  with assms search_node_spec [OF 2(2) assms(3), of 0] rel_result_spec [OF assms(1)]
  show ?thesis by (simp add: findrelpos234_def)
qed

lemma mono_key_const: "mono_key (\<lambda>_. 1) xs" "mono_key (\<lambda>_. - 1) xs"
  by (auto simp: mono_key_def sorted_wrt_iff_nth_less)

lemma hit_Some: "hit g xs = Some x \<Longrightarrow> x \<in> set xs \<and> g x = 0"
  by (auto simp: hit_def find_Some_iff)

lemma hit_NoneD: "hit g xs = None \<Longrightarrow> x \<in> set xs \<Longrightarrow> g x \<noteq> 0"
  by (auto simp: hit_def find_None_iff)

lemma rank_takes_greater: "x \<in> set (take (rank g xs) xs) \<Longrightarrow> 0 < g x"
  by (metis rank_def set_takeWhileD takeWhile_eq_take)

lemma hit_at_rank:
  assumes "mono_key g xs" and "hit g xs = Some x"
  shows "rank g xs < length xs \<and> xs ! rank g xs = x"
proof -
  from hit_Some [OF assms(2)] obtain as bs where xs: "xs = as @ x # bs" and "g x = 0"
    by (auto simp: in_set_conv_decomp)
  with search_here(1) [of g as x bs] assms(1) show ?thesis by simp
qed

lemma rank_drops_less:
  assumes "mono_key g xs" and "hit g xs = None" and "x \<in> set (drop (rank g xs) xs)"
  shows "g x < 0"
proof -
  define ys where "ys = drop (rank g xs) xs"
  have "ys = dropWhile (\<lambda>x. 0 < g x) xs" by (simp add: ys_def rank_def dropWhile_eq_drop)
  with assms(3) obtain y zs where y: "ys = y # zs" "\<not> 0 < g y"
    unfolding ys_def by (metis dropWhile_eq_Cons_conv list.set_cases)
  moreover have "mono_key g ys"
    using assms(1) unfolding ys_def mono_key_def by (rule sorted_wrt_drop)
  moreover have "g y \<noteq> 0"
    using y assms(2) hit_NoneD [of g xs y] unfolding ys_def by (metis in_set_dropD list.set_intros(1))
  ultimately show ?thesis using assms(3) by (auto simp: mono_key_def ys_def [symmetric])
qed

section \<open>Insertion in a sorted tree\<close>

text \<open>
  The contract of a comparison function (\<open>cmpfn234\<close>): reversing the arguments reverses
  the sign, and "not greater" is transitive.
\<close>

definition sorted_by :: "('a \<Rightarrow> 'a \<Rightarrow> int) \<Rightarrow> 'a list \<Rightarrow> bool" where
  "sorted_by f xs \<longleftrightarrow> sorted_wrt (\<lambda>x y. f x y < 0) xs"

locale cmp_order =
  fixes cf :: "'a \<Rightarrow> 'a \<Rightarrow> int"
  assumes cmp_swap: "cf x y < 0 \<longleftrightarrow> 0 < cf y x"
    and cmp_trans: "cf x y \<le> 0 \<Longrightarrow> cf y z \<le> 0 \<Longrightarrow> cf x z \<le> 0"
begin

lemma cmp_less_trans:
  assumes "cf x y \<le> 0" and "cf y z < 0"
  shows "cf x z < 0"
proof (rule ccontr)
  assume "\<not> cf x z < 0"
  then have "cf z x \<le> 0" using cmp_swap [of x z] cmp_swap [of z x] by linarith
  with assms(1) have "cf z y \<le> 0" by (rule cmp_trans [rotated -1])
  with assms(2) cmp_swap [of y z] show False by linarith
qed

lemma cmp_refl [simp]: "cf x x = 0"
  using cmp_swap [of x x] by linarith

lemma cmp_eq_sym: "cf x y = 0 \<longleftrightarrow> cf y x = 0"
  using cmp_swap [of x y] cmp_swap [of y x] by linarith

lemma cmp_eq_subst:
  assumes "cf x y = 0"
  shows "cf x z = 0 \<longleftrightarrow> cf y z = 0"
  using assms cmp_trans [of x y z] cmp_trans [of y x z] cmp_trans [of z x y] cmp_trans [of z y x]
    cmp_swap [of x y] cmp_swap [of x z] cmp_swap [of z x] cmp_swap [of y z] cmp_swap [of z y]
    cmp_eq_sym [of x y]
  by linarith

lemma sorted_mono_key: "sorted_by cf xs \<Longrightarrow> mono_key (cf e) xs"
  unfolding sorted_by_def mono_key_def
  by (erule sorted_wrt_mono_rel [rotated]) (auto intro: cmp_less_trans)

text \<open>The insertion of an element that is not there keeps the list sorted.\<close>

lemma insert_sorted_by:
  assumes "sorted_by cf xs" and "hit (cf e) xs = None"
  shows "sorted_by cf (insert_nth (rank (cf e) xs) e xs)"
proof -
  let ?r = "rank (cf e) xs"
  have less: "cf x e < 0" if "x \<in> set (take ?r xs)" for x
    using rank_takes_greater [OF that] cmp_swap [of x e] by simp
  have greater: "cf e x < 0" if "x \<in> set (drop ?r xs)" for x
    using sorted_mono_key [OF assms(1)] assms(2) that by (rule rank_drops_less)
  have across: "cf x y < 0" if "x \<in> set (take ?r xs)" "y \<in> set (drop ?r xs)" for x y
    using cmp_less_trans less [OF that(1)] greater [OF that(2)] by (meson less_imp_le)
  show ?thesis
    using assms(1) less greater across
    by (auto simp: sorted_by_def insert_nth_def sorted_wrt_append
        sorted_wrt_take sorted_wrt_drop)
qed

end

lemma remove_sorted_by:
  assumes "sorted_by f xs"
  shows "sorted_by f (remove_nth i xs)"
proof (cases "i < length xs")
  case True
  then have "xs = take i xs @ xs ! i # drop (Suc i) xs" by (rule id_take_nth_drop)
  with assms have "sorted_wrt (\<lambda>x y. f x y < 0) (take i xs @ xs ! i # drop (Suc i) xs)"
    by (simp add: sorted_by_def)
  then show ?thesis by (auto simp: sorted_by_def remove_nth_def sorted_wrt_append)
next
  case False
  with assms show ?thesis by (simp add: remove_nth_def)
qed

text \<open>One level of the descent of a sorted insertion.\<close>

lemma cmp_child_spec:
  assumes n: "full234 (Suc h) n" and m: "mono_key g (inorder n)"
  shows "(\<exists>x. cmp_child g i n = Present x \<and> hit g (inorder n) = Some x)
    \<or> (\<exists>c. cmp_child g i n = Go c i \<and> c \<le> nelems n \<and> mono_key g (inorder (kid n c))
          \<and> rank g (inorder n) = length (before n c) + rank g (inorder (kid n c))
          \<and> hit g (inorder n) = hit g (inorder (kid n c)))"
  using n
proof (cases rule: full234_SucE)
  case (N2 k0 a k1)
  from m N2(1) have ma: "mono_key g (inorder k0 @ a # inorder k1)" by simp
  note p = mono_key_parts [OF ma] search_simps [OF ma]
  consider "g a < 0" | "g a = 0" | "0 < g a" by linarith
  then show ?thesis
    by cases (use N2 p in \<open>simp_all add: nelems_def\<close>)
next
  case (N3 k0 a k1 b k2)
  from m N3(1) have ma: "mono_key g (inorder k0 @ a # inorder k1 @ b # inorder k2)" by simp
  from mono_key_parts(2) [OF ma] have mb: "mono_key g (inorder k1 @ b # inorder k2)" .
  note p = mono_key_parts [OF ma] search_simps [OF ma] mono_key_parts [OF mb] search_simps [OF mb]
  consider "g a < 0" | "g a = 0" | "0 < g a" "g b < 0" | "0 < g a" "g b = 0" | "0 < g a" "0 < g b"
    by linarith
  then show ?thesis
    by cases (use N3 p in \<open>simp_all add: nelems_def\<close>)
next
  case (N4 k0 a k1 b k2 d k3)
  from m N4(1) have ma: "mono_key g (inorder k0 @ a # inorder k1 @ b # inorder k2 @ d # inorder k3)"
    by simp
  from mono_key_parts(2) [OF ma] have mb: "mono_key g (inorder k1 @ b # inorder k2 @ d # inorder k3)" .
  from mono_key_parts(2) [OF mb] have md: "mono_key g (inorder k2 @ d # inorder k3)" .
  note p = mono_key_parts [OF ma] search_simps [OF ma] mono_key_parts [OF mb] search_simps [OF mb]
    mono_key_parts [OF md] search_simps [OF md]
  consider "g a < 0" | "g a = 0" | "0 < g a" "g b < 0" | "0 < g a" "g b = 0"
    | "0 < g a" "0 < g b" "g d < 0" | "0 < g a" "0 < g b" "g d = 0" | "0 < g a" "0 < g b" "0 < g d"
    by linarith
  then show ?thesis
    by cases (use N4 p in \<open>simp_all add: nelems_def\<close>)
qed

lemma add_node_cmp:
  "full234 (Suc h) n \<Longrightarrow> mono_key (f e) (inorder n) \<Longrightarrow> i < 0 \<Longrightarrow>
   (case hit (f e) (inorder n) of
      Some x \<Rightarrow> add_node (Some f) e i n = Dup x
    | None \<Rightarrow> good_ins (Suc h) (add_node (Some f) e i n)
                (insert_nth (rank (f e) (inorder n)) e (inorder n)))"
proof (induction h arbitrary: n)
  case (0 n)
  have nn: "n \<noteq> NULL" using 0 by auto
  from cmp_child_spec [OF 0(1,2), of i] show ?case
  proof (elim disjE exE conjE)
    fix x assume "cmp_child (f e) i n = Present x" "hit (f e) (inorder n) = Some x"
    with 0(3) nn show ?thesis by (simp add: add_node.simps [of "Some f" e i n] add_child_def)
  next
    fix c assume c: "cmp_child (f e) i n = Go c i" "c \<le> nelems n"
      "rank (f e) (inorder n) = length (before n c) + rank (f e) (inorder (kid n c))"
      "hit (f e) (inorder n) = hit (f e) (inorder (kid n c))"
    from full234_kid [OF 0(1) c(2)] have k: "kid n c = NULL" by simp
    have "good_ins (Suc 0) (add_node (Some f) e i n) (before n c @ [e] @ after n c)"
      by (rule add_node_step [OF 0(1) c(2)]) (use c(1) 0(3) in \<open>auto simp: add_child_def\<close>)
    with c k inorder_split [OF 0(1) c(2)] show ?thesis
      by simp
  qed
next
  case (Suc h n)
  have nn: "n \<noteq> NULL" using Suc.prems by auto
  from cmp_child_spec [OF Suc.prems(1,2), of i] show ?case
  proof (elim disjE exE conjE)
    fix x assume "cmp_child (f e) i n = Present x" "hit (f e) (inorder n) = Some x"
    with Suc.prems(3) nn show ?thesis by (simp add: add_node.simps [of "Some f" e i n] add_child_def)
  next
    fix c assume c: "cmp_child (f e) i n = Go c i" "c \<le> nelems n"
      "mono_key (f e) (inorder (kid n c))"
      "rank (f e) (inorder n) = length (before n c) + rank (f e) (inorder (kid n c))"
      "hit (f e) (inorder n) = hit (f e) (inorder (kid n c))"
    have go: "add_child (Some f) e i n = Go c i" using c(1) Suc.prems(3) by (simp add: add_child_def)
    from full234_kid [OF Suc.prems(1) c(2)] have k: "full234 (Suc h) (kid n c)" .
    then have "kid n c \<noteq> NULL" by auto
    note IH = Suc.IH [OF k c(3) Suc.prems(3)]
    show ?thesis
    proof (cases "hit (f e) (inorder n)")
      case (Some x)
      with c(5) have "hit (f e) (inorder (kid n c)) = Some x" by simp
      with IH have "add_node (Some f) e i (kid n c) = Dup x" by simp
      with Some go \<open>kid n c \<noteq> NULL\<close> nn show ?thesis
        by (simp add: add_node.simps [of "Some f" e i n])
    next
      case None
      with IH c(5) have "good_ins (Suc h) (add_node (Some f) e i (kid n c))
          (insert_nth (rank (f e) (inorder (kid n c))) e (inorder (kid n c)))" by simp
      then have "good_ins (Suc (Suc h)) (add_node (Some f) e i n)
          (before n c @ insert_nth (rank (f e) (inorder (kid n c))) e (inorder (kid n c)) @ after n c)"
        by (intro add_node_step [OF Suc.prems(1) c(2) go]) simp_all
      moreover have "insert_nth (rank (f e) (inorder n)) e (inorder n)
          = before n c @ insert_nth (rank (f e) (inorder (kid n c))) e (inorder (kid n c)) @ after n c"
        unfolding c(4) using rank_le [of "f e" "inorder (kid n c)"]
        by (subst inorder_split [OF Suc.prems(1) c(2)])
          (simp add: insert_nth_append_right insert_nth_append_left)
      ultimately show ?thesis using None by simp
    qed
  qed
qed

lemma add234_spec:
  assumes "wf234 t" and "cmp t = Some f" and "mono_key (f e) (elements t)"
  shows "case hit (f e) (elements t) of
      Some x \<Rightarrow> add234 t e = (Already x, t)
    | None \<Rightarrow> \<exists>t'. add234 t e = (Added, t') \<and> wf234 t' \<and> cmp t' = cmp t
        \<and> elements t' = insert_nth (rank (f e) (elements t)) e (elements t)"
  using assms(1)
proof (cases rule: wf234_cases)
  case 1
  with assms(2) full234_leaf [of e] show ?thesis
    by (auto simp: add234_def add234_internal_def wf234_def insert_nth_def simp del: full234.simps)
next
  case (2 h)
  note A = add_node_cmp [where f = f and e = e and i = "-1", OF 2(2) assms(3)]
  show ?thesis
  proof (cases "hit (f e) (elements t)")
    case (Some x)
    with A 2 assms(2) show ?thesis by (simp add: add234_def add234_internal_def)
  next
    case None
    with A have "good_ins (Suc h) (add_node (cmp t) e (- 1) (root t))
        (insert_nth (rank (f e) (elements t)) e (elements t))" by (simp add: assms(2))
    from good_ins_root [OF this, where t = t] None 2(1) assms(2) show ?thesis
      by (auto simp: add234_def add234_internal_def wf234_def)
  qed
qed

end
