(* ===== verification/Tree234_Del.thy ===== *)
theory Tree234_Del
  imports Tree234_Facts
begin

text \<open>
  Deletion by position from the counted 2-3-4 tree (\<open>delpos234_internal\<close> and its
  callers in \<open>putty/tree234.c\<close>): the rebalancing steps of the descent and the
  replacement of an inner element by its neighbour in a leaf.  The recursion ends because
  every transformation leaves the kid to enter strictly below the node.
\<close>

section \<open>Deletion\<close>

text \<open>The descent by index: an element of this node is hit, or a child is entered.\<close>

datatype del_step = Hit nat | Down nat int

fun del_child :: "int \<Rightarrow> 'a node234 \<Rightarrow> del_step" where
  "del_child index NULL = Hit 0"
| "del_child index (Node k0 n0 e0 k1 n1 e1 k2 n2 e2 k3 n3) =
     (if index < n0 then Down 0 index
      else let i0 = index - (n0 + 1) in if i0 < 0 then Hit 0
      else if i0 < n1 then Down 1 i0
      else let i1 = i0 - (n1 + 1) in if i1 < 0 then Hit 1
      else if i1 < n2 then Down 2 i1
      else let i2 = i1 - (n2 + 1) in if i2 < 0 then Hit 2
      else Down 3 i2)"

definition put_kid :: "'a node234 \<Rightarrow> nat \<Rightarrow> 'a node234 \<Rightarrow> int \<Rightarrow> 'a node234" where
  "put_kid n i k c = set_cnt (set_kid n i k) i c"

text \<open>
  Case 3a, left-handed: a subtree moves from the left sibling.  The definitions return
  the node, the child to enter and the index in it.
\<close>

definition borrow_left :: "'a node234 \<Rightarrow> nat \<Rightarrow> int \<Rightarrow> 'a node234 \<times> nat \<times> int" where
  "borrow_left n ki index =
     (let sub = kid n ki; sib = kid n (ki - 1);
          lastelem = (if elm sib 2 \<noteq> None then 2 else if elm sib 1 \<noteq> None then 1 else 0);
          sub = put_kid sub 2 (kid sub 1) (cnt sub 1);
          sub = set_elm sub 1 (elm sub 0);
          sub = put_kid sub 1 (kid sub 0) (cnt sub 0);
          sub = set_elm sub 0 (elm n (ki - 1));
          sub = put_kid sub 0 (kid sib (lastelem + 1)) (cnt sib (lastelem + 1));
          n = set_elm n (ki - 1) (elm sib lastelem);
          sib = put_kid sib (lastelem + 1) NULL 0;
          sib = set_elm sib lastelem None;
          n = put_kid n ki sub (countnode234 sub);
          index1 = index + cnt n (ki - 1);
          n = put_kid n (ki - 1) sib (countnode234 sib)
      in (n, ki, index1 - cnt n (ki - 1)))"

text \<open>Case 3a, right-handed: the loop closes the gap in the right sibling.\<close>

function shift_left :: "nat \<Rightarrow> 'a node234 \<Rightarrow> 'a node234" where
  "shift_left j sib =
     (if j < 2 \<and> elm sib (j + 1) \<noteq> None
      then shift_left (j + 1)
             (set_elm (put_kid sib (j + 1) (kid sib (j + 2)) (cnt sib (j + 2))) j (elm sib (j + 1)))
      else set_elm (put_kid sib (j + 1) NULL 0) j None)"
  by pat_completeness auto
termination
  by (relation "measure (\<lambda>(j, sib). 2 - j)") auto

definition borrow_right :: "'a node234 \<Rightarrow> nat \<Rightarrow> int \<Rightarrow> 'a node234 \<times> nat \<times> int" where
  "borrow_right n ki index =
     (let sub = kid n ki; sib = kid n (ki + 1);
          sub = set_elm sub 1 (elm n ki);
          sub = put_kid sub 2 (kid sib 0) (cnt sib 0);
          n = set_elm n ki (elm sib 0);
          sib = put_kid sib 0 (kid sib 1) (cnt sib 1);
          sib = shift_left 0 sib;
          n = put_kid n ki sub (countnode234 sub);
          n = put_kid n (ki + 1) sib (countnode234 sib)
      in (n, ki, index))"

text \<open>
  Case 3b: the child and a sibling with one element each become one big node; the loop
  removes the reference to the left one.
\<close>

function drop_kid :: "nat \<Rightarrow> 'a node234 \<Rightarrow> 'a node234" where
  "drop_kid j n =
     (if j < 3 \<and> kid n (j + 1) \<noteq> NULL
      then drop_kid (j + 1)
             (set_elm (put_kid n j (kid n (j + 1)) (cnt n (j + 1))) j
                (if j < 2 then elm n (j + 1) else None))
      else let n = put_kid n j NULL 0 in if j < 3 then set_elm n j None else n)"
  by pat_completeness auto
termination
  by (relation "measure (\<lambda>(j, n). 3 - j)") auto

definition merge_kids :: "'a node234 \<Rightarrow> nat \<Rightarrow> int \<Rightarrow> 'a node234 \<times> nat \<times> int" where
  "merge_kids n ki index =
     (let (ki, index) = (if ki > 0 then (ki - 1, index + (cnt n (ki - 1) + 1)) else (ki, index));
          sib = kid n ki; sub = kid n (ki + 1);
          sub = put_kid sub 3 (kid sub 1) (cnt sub 1);
          sub = set_elm sub 2 (elm sub 0);
          sub = put_kid sub 2 (kid sub 0) (cnt sub 0);
          sub = set_elm sub 1 (elm n ki);
          sub = put_kid sub 1 (kid sib 1) (cnt sib 1);
          sub = set_elm sub 0 (elm sib 0);
          sub = put_kid sub 0 (kid sib 0) (cnt sib 0);
          n = put_kid n (ki + 1) sub (countnode234 sub)
      in (drop_kid ki n, ki, index))"

text \<open>
  The choice between the three transformations.  The boolean says that the node lost
  its only element, which makes the merged child the root of the tree; \<open>None\<close> is a
  read through a \<open>NULL\<close> sibling.
\<close>

definition fix_child :: "'a node234 \<Rightarrow> nat \<Rightarrow> int \<Rightarrow> ('a node234 \<times> nat \<times> int \<times> bool) option" where
  "fix_child n ki index =
     (if ki > 0 \<and> kid n (ki - 1) = NULL then None
      else if ki > 0 \<and> elm (kid n (ki - 1)) 1 \<noteq> None
        then (case borrow_left n ki index of (n', ki', i) \<Rightarrow> Some (n', ki', i, False))
      else if ki < 3 \<and> kid n (ki + 1) \<noteq> NULL \<and> elm (kid n (ki + 1)) 1 \<noteq> None
        then (case borrow_right n ki index of (n', ki', i) \<Rightarrow> Some (n', ki', i, False))
      else if ki = 0 \<and> kid n 1 = NULL then None
      else (case merge_kids n ki index of (n', ki', i) \<Rightarrow> Some (n', ki', i, elm n' 0 = None)))"

text \<open>Case 1: removal from a leaf with more than one element.\<close>

function leaf_remove :: "nat \<Rightarrow> 'a node234 \<Rightarrow> 'a node234" where
  "leaf_remove i n =
     (if i < 2 \<and> elm n (i + 1) \<noteq> None then leaf_remove (i + 1) (set_elm n i (elm n (i + 1)))
      else set_elm n i None)"
  by pat_completeness auto
termination
  by (relation "measure (\<lambda>(i, n). 2 - i)") auto

declare shift_left.simps [simp del] drop_kid.simps [simp del] leaf_remove.simps [simp del]

text \<open>Cases 2a and 2b: the largest and the smallest element of a subtree.\<close>

definition last_kid :: "'a node234 \<Rightarrow> 'a node234" where
  "last_kid m =
     (if kid m 3 \<noteq> NULL then kid m 3 else if kid m 2 \<noteq> NULL then kid m 2
      else if kid m 1 \<noteq> NULL then kid m 1 else kid m 0)"

lemma last_kid_size: "m \<noteq> NULL \<Longrightarrow> size (last_kid m) < size m"
  by (auto simp: last_kid_def kid_size)

function largest :: "'a node234 \<Rightarrow> 'a option" where
  "largest m =
     (if kid m 0 \<noteq> NULL then largest (last_kid m)
      else if elm m 2 \<noteq> None then elm m 2 else if elm m 1 \<noteq> None then elm m 1 else elm m 0)"
  by pat_completeness auto
termination
proof (relation "measure size")
  fix m :: "'a node234"
  assume "kid m 0 \<noteq> NULL"
  then show "(last_kid m, m) \<in> measure size"
    by (cases "m = NULL") (auto simp: last_kid_size)
qed simp

function smallest :: "'a node234 \<Rightarrow> 'a option" where
  "smallest m = (if kid m 0 \<noteq> NULL then smallest (kid m 0) else elm m 0)"
  by pat_completeness auto
termination
proof (relation "measure size")
  fix m :: "'a node234"
  assume "kid m 0 \<noteq> NULL"
  then show "(kid m 0, m) \<in> measure size"
    by (cases "m = NULL") (auto simp: kid_size)
qed simp

declare largest.simps [simp del] smallest.simps [simp del]

text \<open>Case 2c: the two neighbours of the element and the element become one node.\<close>

function drop_right :: "nat \<Rightarrow> 'a node234 \<Rightarrow> 'a node234" where
  "drop_right j n =
     (if j < 2 \<and> elm n (j + 1) \<noteq> None
      then drop_right (j + 1)
             (put_kid (set_elm n j (elm n (j + 1))) (j + 1) (kid n (j + 2)) (cnt n (j + 2)))
      else put_kid (set_elm n j None) (j + 1) NULL 0)"
  by pat_completeness auto
termination
  by (relation "measure (\<lambda>(j, n). 2 - j)") auto

declare drop_right.simps [simp del]

definition join_around :: "'a node234 \<Rightarrow> nat \<Rightarrow> 'a node234" where
  "join_around n ei =
     (let a = kid n ei; b = kid n (ei + 1);
          a = set_elm a 1 (elm n ei);
          a = put_kid a 2 (kid b 0) (cnt b 0);
          a = set_elm a 2 (elm b 0);
          a = put_kid a 3 (kid b 1) (cnt b 1);
          n = put_kid n ei a (countnode234 a)
      in drop_right ei n)"

text \<open>
  Every transformation leaves the child to enter strictly below the node: this is why
  the restarted descent of the outer loop ends.
\<close>

fun depth :: "'a node234 \<Rightarrow> nat" where
  "depth NULL = 0"
| "depth (Node k0 n0 e0 k1 n1 e1 k2 n2 e2 k3 n3) =
     Suc (max (max (depth k0) (depth k1)) (max (depth k2) (depth k3)))"

lemma depth_le_Suc: "depth m \<le> Suc d \<longleftrightarrow> (\<forall>i. depth (kid m i) \<le> d)"
proof (cases m)
  case (Node k0 n0 e0 k1 n1 e1 k2 n2 e2 k3 n3)
  have "(\<forall>i. depth (kid m i) \<le> d) \<longleftrightarrow> depth k0 \<le> d \<and> depth k1 \<le> d \<and> depth k2 \<le> d \<and> depth k3 \<le> d"
  proof
    assume "\<forall>i. depth (kid m i) \<le> d"
    from this[THEN spec, of 0] this[THEN spec, of 1] this[THEN spec, of 2] this[THEN spec, of 3]
    show "depth k0 \<le> d \<and> depth k1 \<le> d \<and> depth k2 \<le> d \<and> depth k3 \<le> d"
      by (simp add: Node)
  qed (simp add: Node)
  then show ?thesis by (simp add: Node)
qed simp

lemma depth_kid: "n \<noteq> NULL \<Longrightarrow> depth (kid n i) < depth n"
  by (cases n) (auto simp: less_Suc_eq_le)

lemma kid_put_kid [simp]:
  "kid (put_kid n i k c) j = (if n \<noteq> NULL \<and> i = j \<and> i \<le> 3 then k else kid n j)"
  by (cases n) (auto simp: put_kid_def)

lemma kid_set_elm [simp]: "kid (set_elm n i e) j = kid n j"
  by (cases n) auto

lemma set_not_NULL [simp]:
  "put_kid n i k c = NULL \<longleftrightarrow> n = NULL" "set_elm n i e = NULL \<longleftrightarrow> n = NULL"
  by (cases n; auto simp: put_kid_def)+

lemma cnt_put_kid [simp]:
  "cnt (put_kid n i k c) j = (if n \<noteq> NULL \<and> i = j \<and> i \<le> 3 then c else cnt n j)"
  by (cases n) (auto simp: put_kid_def)

lemma cnt_set_elm [simp]: "cnt (set_elm n i e) j = cnt n j"
  by (cases n) auto

lemma elm_put_kid [simp]: "elm (put_kid n i k c) j = elm n j"
  by (cases n) (auto simp: put_kid_def)

lemma elm_set_elm [simp]:
  "elm (set_elm n i e) j = (if n \<noteq> NULL \<and> i = j \<and> i \<le> 2 then e else elm n j)"
  by (cases n) auto

text \<open>All kids of a node are less deep than \<open>d\<close>.\<close>

definition kids_low :: "nat \<Rightarrow> 'a node234 \<Rightarrow> bool" where
  "kids_low d m \<longleftrightarrow> (\<forall>i. depth (kid m i) < d)"

lemma kids_low_set_elm: "kids_low d m \<Longrightarrow> kids_low d (set_elm m i e)"
  by (simp add: kids_low_def)

lemma kids_low_put_kid: "kids_low d m \<Longrightarrow> depth k < d \<Longrightarrow> kids_low d (put_kid m i k c)"
  by (simp add: kids_low_def)

lemma kids_low_self: "m \<noteq> NULL \<Longrightarrow> kids_low (depth m) m"
  by (simp add: kids_low_def depth_kid)

lemma kids_low_mono: "kids_low d m \<Longrightarrow> d \<le> d' \<Longrightarrow> kids_low d' m"
  unfolding kids_low_def by (meson order_less_le_trans)

lemma kids_low_depth: "kids_low d m \<Longrightarrow> depth m \<le> d"
proof (cases d)
  case (Suc d')
  assume "kids_low d m"
  with Suc show ?thesis by (simp add: kids_low_def depth_le_Suc less_Suc_eq_le)
qed (simp add: kids_low_def)

lemma kids_low_kid:
  assumes "kids_low (Suc d) n" and "0 < d"
  shows "kids_low d (kid n i)"
proof (cases "kid n i = NULL")
  case False
  from assms(1) have "depth (kid n i) \<le> d" by (simp add: kids_low_def less_Suc_eq_le)
  with kids_low_self [OF False] show ?thesis by (rule kids_low_mono)
qed (simp add: kids_low_def assms(2))

lemma kids_low_at: "kids_low d m \<Longrightarrow> depth (kid m i) < d"
  by (simp add: kids_low_def)

lemmas kids_low_intros =
  kids_low_put_kid kids_low_set_elm kids_low_at kids_low_kid

lemma drop_kid_kids: "P NULL \<Longrightarrow> (\<And>i. P (kid n i)) \<Longrightarrow> P (kid (drop_kid j n) i)"
proof (induction j n arbitrary: i rule: drop_kid.induct)
  case (1 j n)
  show ?case
  proof (cases "j < 3 \<and> kid n (j + 1) \<noteq> NULL")
    case True
    show ?thesis
      by (subst drop_kid.simps, simp only: if_P [OF True], rule "1.IH" [OF True "1.prems"(1)])
        (use "1.prems" in simp)
  next
    case False
    then show ?thesis
      using "1.prems" by (subst drop_kid.simps) (simp add: Let_def)
  qed
qed

lemma drop_right_kids: "P NULL \<Longrightarrow> (\<And>i. P (kid n i)) \<Longrightarrow> P (kid (drop_right j n) i)"
proof (induction j n arbitrary: i rule: drop_right.induct)
  case (1 j n)
  show ?case
  proof (cases "j < 2 \<and> elm n (j + 1) \<noteq> None")
    case True
    show ?thesis
      by (subst drop_right.simps, simp only: if_P [OF True], rule "1.IH" [OF True "1.prems"(1)])
        (use "1.prems" in simp)
  next
    case False
    then show ?thesis
      using "1.prems" by (subst drop_right.simps, simp only: if_not_P [OF False]) simp
  qed
qed

lemma fix_child_depth:
  assumes "fix_child n ki i = Some (n', ki', i', sh)" and "kid n ki \<noteq> NULL"
  shows "depth (kid n' ki') < depth n"
proof -
  have n: "n \<noteq> NULL" using assms(2) by (cases n) auto
  then obtain d where d: "depth n = Suc d" by (cases n) auto
  have low: "kids_low (Suc d) n" using kids_low_self [OF n] d by simp
  have pos: "0 < d"
    using depth_kid [OF n, of ki] assms(2) d by (cases "kid n ki") auto
  note I = kids_low_intros low pos kids_low_depth [THEN le_imp_less_Suc]
  have "depth (kid n' ki') < Suc d" if "borrow_left n k i = (n', ki', i')" for n' k ki' i'
  proof (rule kids_low_at)
    show "kids_low (Suc d) n'"
      using that unfolding borrow_left_def Let_def by (auto intro!: I)
  qed
  moreover have "depth (kid n' ki') < Suc d" if "borrow_right n k i = (n', ki', i')" for n' k ki' i'
  proof -
    have "kid n' ki' = put_kid (set_elm (kid n ki') 1 (elm n ki')) 2
         (kid (kid n (ki' + 1)) 0) (cnt (kid n (ki' + 1)) 0) \<or> kid n' ki' = kid n ki'"
      using that by (auto simp: borrow_right_def Let_def)
    moreover have "kids_low d (put_kid (set_elm (kid n ki') 1 (elm n ki')) 2
         (kid (kid n (ki' + 1)) 0) (cnt (kid n (ki' + 1)) 0))"
      by (intro kids_low_intros low pos)
    moreover have "depth (kid n ki') < Suc d" by (rule kids_low_at [OF low])
    ultimately show ?thesis by (auto dest: kids_low_depth)
  qed
  moreover have "depth (kid n' ki') < Suc d" if "merge_kids n k i = (n', ki', i')" for n' k ki' i'
    using that unfolding merge_kids_def Let_def
    by (auto split: if_splits intro!: drop_kid_kids [where P = "\<lambda>k. depth k < Suc d"]) (auto intro!: I)
  ultimately show ?thesis
    using assms(1) d
    by (auto simp: fix_child_def split: if_splits prod.splits)
qed

lemma join_around_depth:
  assumes "kid n ei \<noteq> NULL"
  shows "depth (kid (join_around n ei) ei) < depth n"
proof -
  have n: "n \<noteq> NULL" using assms by (cases n) auto
  then obtain d where d: "depth n = Suc d" by (cases n) auto
  have low: "kids_low (Suc d) n" using kids_low_self [OF n] d by simp
  have pos: "0 < d"
    using depth_kid [OF n, of ei] assms d by (cases "kid n ei") auto
  show ?thesis
    unfolding join_around_def Let_def d
    by (rule drop_right_kids [where P = "\<lambda>k. depth k < Suc d"])
      (auto intro!: kids_low_intros low pos kids_low_depth [THEN le_imp_less_Suc])
qed

text \<open>
  The whole deletion loop.  \<open>isroot\<close> says that the node is the root of the tree; the result
  is the element returned and the new node, \<open>None\<close> where C's behaviour is undefined (a
  \<open>NULL\<close> is dereferenced) or a non-root node would be made the root, which loses its
  ancestors.
\<close>

function del_node :: "bool \<Rightarrow> int \<Rightarrow> 'a node234 \<Rightarrow> ('a option \<times> 'a node234) option" where
  "del_node isroot index n =
     (if n = NULL then None else
      case del_child index n of
        Down ki i \<Rightarrow>
          (if kid n ki = NULL then None
           else case (if elm (kid n ki) 1 = None then fix_child n ki i else Some (n, ki, i, False)) of
               None \<Rightarrow> None
             | Some (n', ki', i', shifted) \<Rightarrow>
                 (if shifted then (if isroot then del_node True i' (kid n' ki') else None)
                  else case del_node False i' (kid n' ki') of
                      None \<Rightarrow> None
                    | Some (r, sub) \<Rightarrow> Some (r, put_kid n' ki' sub (cnt n' ki' - 1))))
      | Hit ei \<Rightarrow>
          (if isroot \<and> elm n 1 = None \<and> kid n 0 = NULL then Some (elm n ei, NULL)
           else if kid n 0 = NULL \<and> elm n 1 \<noteq> None then Some (elm n ei, leaf_remove ei n)
           else if kid n ei = NULL then None
           else if elm (kid n ei) 1 \<noteq> None then
             (case del_node False (cnt n ei - 1) (kid n ei) of
                None \<Rightarrow> None
              | Some (r, sub) \<Rightarrow>
                  Some (elm n ei, put_kid (set_elm n ei (largest (kid n ei))) ei sub (cnt n ei - 1)))
           else if kid n (ei + 1) = NULL then None
           else if elm (kid n (ei + 1)) 1 \<noteq> None then
             (case del_node False 0 (kid n (ei + 1)) of
                None \<Rightarrow> None
              | Some (r, sub) \<Rightarrow>
                  Some (elm n ei, put_kid (set_elm n ei (smallest (kid n (ei + 1)))) (ei + 1) sub
                         (cnt n (ei + 1) - 1)))
           else
             (let n' = join_around n ei; a = kid n' ei; i' = cnt a 0 + cnt a 1 + 1
              in if elm n' 0 = None
                 then (if isroot then
                         (case del_node True i' a of
                            None \<Rightarrow> None | Some (r, a') \<Rightarrow> Some (elm n ei, a'))
                       else None)
                 else (case del_node False i' a of
                         None \<Rightarrow> None
                       | Some (r, sub) \<Rightarrow> Some (elm n ei, put_kid n' ei sub (cnt n' ei - 1))))))"
  by pat_completeness auto
termination
  by (relation "measure (\<lambda>(isroot, index, n). depth n)")
    (auto intro: fix_child_depth depth_kid join_around_depth split: if_splits)

declare del_node.simps [simp del]

text \<open>The outer \<open>None\<close> is undefined behaviour, the inner one a \<open>NULL\<close> result.\<close>

definition delpos234_internal :: "'a tree234 \<Rightarrow> int \<Rightarrow> ('a option \<times> 'a tree234) option" where
  "delpos234_internal t index =
     (case del_node True index (root t) of
        None \<Rightarrow> None
      | Some (r, n) \<Rightarrow> Some (r, t\<lparr>root := n\<rparr>))"

definition delpos234 :: "'a tree234 \<Rightarrow> int \<Rightarrow> ('a option \<times> 'a tree234) option" where
  "delpos234 t index =
     (if index < 0 \<or> index \<ge> countnode234 (root t) then Some (None, t)
      else delpos234_internal t index)"

definition del234 :: "'a tree234 \<Rightarrow> 'a \<Rightarrow> ('a option \<times> 'a tree234) option" where
  "del234 t e =
     (if root t = NULL then Some (None, t)
      else case cmp t of None \<Rightarrow> None
      | Some f \<Rightarrow>
          (case findrelpos234 t (Some e) f REL234_EQ of
             None \<Rightarrow> None
           | Some None \<Rightarrow> Some (None, t)
           | Some (Some (x, index)) \<Rightarrow> delpos234_internal t index))"

end
