(* ===== verification/Tree234_Del_Facts.thy ===== *)
theory Tree234_Del_Facts
  imports Tree234_Del
begin

text \<open>
  Deletion from the 2-3-4 tree is correct: the tree stays balanced with exact counts and
  exactly the element at the index is removed and returned.
\<close>

section \<open>Correctness of deletion\<close>

text \<open>The descent finds the element or the kid that holds the index.\<close>

lemma del_child_leaf:
  assumes "full234 (Suc 0) n" and "0 \<le> i" and "i < len n"
  shows "del_child i n = Hit (nat i) \<and> nat i < nelems n \<and> elm n (nat i) = Some (inorder n ! nat i)"
  using assms(1)
proof (cases rule: full234_SucE)
  case N2
  with assms have "i = 0" by auto
  with N2 show ?thesis by (auto simp: nelems_def)
next
  case N3
  with assms have "i = 0 \<or> i = 1" by auto
  with N3 show ?thesis by (auto simp: nelems_def)
next
  case N4
  with assms have "i = 0 \<or> i = 1 \<or> i = 2" by auto
  with N4 show ?thesis by (auto simp: nelems_def)
qed

lemma del_child_inner:
  assumes "full234 (Suc h) n" and "0 \<le> i" and "i < len n"
  shows "(\<exists>ei. del_child i n = Hit ei \<and> ei < nelems n \<and> i = int (length (before n ei)) + len (kid n ei))
    \<or> (\<exists>ki j. del_child i n = Down ki j \<and> ki \<le> nelems n \<and> 0 \<le> j \<and> j < len (kid n ki)
          \<and> i = int (length (before n ki)) + j)"
  using assms(1)
  by (cases rule: full234_SucE) (use assms in \<open>auto simp: Let_def nelems_def\<close>)

text \<open>
  A transformed node holds the same elements, and the kid entered has two elements or more
  and holds the element at the position \<open>p\<close> of the node.
\<close>

definition fixed_ok :: "nat \<Rightarrow> 'a node234 \<Rightarrow> int \<Rightarrow> 'a node234 \<Rightarrow> nat \<Rightarrow> int \<Rightarrow> bool" where
  "fixed_ok h n p n' ki j \<longleftrightarrow>
     full234 (Suc (Suc h)) n' \<and> inorder n' = inorder n \<and> ki \<le> nelems n' \<and>
     elm (kid n' ki) 1 \<noteq> None \<and> p = int (length (before n' ki)) + j \<and> 0 \<le> j \<and> j < len (kid n' ki)"

lemmas node_calc = Let_def put_kid_def nelems_def fixed_ok_def

text \<open>The loops, one iteration or the exit at a time.\<close>

lemma shift_left_step:
  "j < 2 \<Longrightarrow> elm sib (j + 1) \<noteq> None \<Longrightarrow> shift_left j sib =
   shift_left (Suc j) (set_elm (put_kid sib (j + 1) (kid sib (j + 2)) (cnt sib (j + 2))) j (elm sib (j + 1)))"
  by (subst shift_left.simps) simp

lemma shift_left_stop:
  "\<not> (j < 2 \<and> elm sib (j + 1) \<noteq> None) \<Longrightarrow>
   shift_left j sib = set_elm (put_kid sib (j + 1) NULL 0) j None"
  by (subst shift_left.simps) (rule if_not_P)

lemma drop_kid_step:
  "j < 3 \<Longrightarrow> kid n (j + 1) \<noteq> NULL \<Longrightarrow> drop_kid j n =
   drop_kid (Suc j) (set_elm (put_kid n j (kid n (j + 1)) (cnt n (j + 1))) j
     (if j < 2 then elm n (j + 1) else None))"
  by (subst drop_kid.simps) simp

lemma drop_kid_stop:
  "\<not> (j < 3 \<and> kid n (j + 1) \<noteq> NULL) \<Longrightarrow>
   drop_kid j n = (if j < 3 then set_elm (put_kid n j NULL 0) j None else put_kid n j NULL 0)"
  by (subst drop_kid.simps) (simp only: if_not_P Let_def if_False)

lemma drop_right_step:
  "j < 2 \<Longrightarrow> elm n (j + 1) \<noteq> None \<Longrightarrow> drop_right j n =
   drop_right (Suc j) (put_kid (set_elm n j (elm n (j + 1))) (j + 1) (kid n (j + 2)) (cnt n (j + 2)))"
  by (subst drop_right.simps) simp

lemma drop_right_stop:
  "\<not> (j < 2 \<and> elm n (j + 1) \<noteq> None) \<Longrightarrow>
   drop_right j n = put_kid (set_elm n j None) (j + 1) NULL 0"
  by (subst drop_right.simps) (rule if_not_P)

lemma leaf_remove_step:
  "i < 2 \<Longrightarrow> elm n (i + 1) \<noteq> None \<Longrightarrow>
   leaf_remove i n = leaf_remove (Suc i) (set_elm n i (elm n (i + 1)))"
  by (subst leaf_remove.simps) simp

lemma leaf_remove_stop:
  "\<not> (i < 2 \<and> elm n (i + 1) \<noteq> None) \<Longrightarrow> leaf_remove i n = set_elm n i None"
  by (subst leaf_remove.simps) (rule if_not_P)

lemmas loop_steps =
  shift_left_step shift_left_stop drop_kid_step drop_kid_stop drop_right_step drop_right_stop
  leaf_remove_step leaf_remove_stop

lemma full234_one:
  assumes "full234 (Suc h) m" and "elm m 1 = None"
  obtains k0 a k1 where "m = N2 k0 a k1" "full234 h k0" "full234 h k1"
  using assms(1)
proof (cases rule: full234_SucE)
  case N2
  with that show ?thesis by blast
qed (use assms(2) in simp_all)

lemma full234_more:
  assumes "full234 (Suc h) m" and "elm m 1 \<noteq> None"
  obtains k0 a k1 b k2 where "m = N3 k0 a k1 b k2" "full234 h k0" "full234 h k1" "full234 h k2"
  | k0 a k1 b k2 c k3 where "m = N4 k0 a k1 b k2 c k3"
      "full234 h k0" "full234 h k1" "full234 h k2" "full234 h k3"
  using assms(1)
proof (cases rule: full234_SucE)
  case N3
  with that show ?thesis by blast
next
  case N4
  with that show ?thesis by blast
qed (use assms(2) in simp_all)

text \<open>Two neighbouring kids and the element between them.\<close>

lemma pairE:
  assumes "full234 (Suc h) n" and "Suc c \<le> nelems n"
  obtains k0 a k1 where "n = N2 k0 a k1" "c = 0" "full234 h k0" "full234 h k1"
  | k0 a k1 b k2 where "n = N3 k0 a k1 b k2" "c = 0" "full234 h k0" "full234 h k1" "full234 h k2"
  | k0 a k1 b k2 where "n = N3 k0 a k1 b k2" "c = 1" "full234 h k0" "full234 h k1" "full234 h k2"
  | k0 a k1 b k2 d k3 where "n = N4 k0 a k1 b k2 d k3" "c = 0"
      "full234 h k0" "full234 h k1" "full234 h k2" "full234 h k3"
  | k0 a k1 b k2 d k3 where "n = N4 k0 a k1 b k2 d k3" "c = 1"
      "full234 h k0" "full234 h k1" "full234 h k2" "full234 h k3"
  | k0 a k1 b k2 d k3 where "n = N4 k0 a k1 b k2 d k3" "c = 2"
      "full234 h k0" "full234 h k1" "full234 h k2" "full234 h k3"
  using assms(1)
proof (cases rule: full234_SucE)
  case (N2 k0 a k1)
  with assms(2) have "c = 0" by (simp add: nelems_def)
  with N2 that(1) show ?thesis by blast
next
  case (N3 k0 a k1 b k2)
  with assms(2) have "c = 0 \<or> c = 1" by (auto simp: nelems_def)
  with N3 that(2,3) show ?thesis by blast
next
  case (N4 k0 a k1 b k2 d k3)
  with assms(2) have "c \<le> 2" by (auto simp: nelems_def)
  then consider "c = 0" | "c = 1" | "c = 2" by linarith
  then show ?thesis
  proof cases
    case 1
    show ?thesis by (rule that(4) [OF N4(1) 1 N4(2-5)])
  next
    case 2
    show ?thesis by (rule that(5) [OF N4(1) 2 N4(2-5)])
  next
    case 3
    show ?thesis by (rule that(6) [OF N4(1) 3 N4(2-5)])
  qed
qed

lemma pair_split:
  assumes "full234 (Suc h) n" and "Suc c \<le> nelems n"
  obtains y where "elm n c = Some y" "before n (Suc c) = before n c @ inorder (kid n c) @ [y]"
    "inorder n = before n c @ inorder (kid n c) @ y # inorder (kid n (Suc c)) @ after n (Suc c)"
  using assms by (elim pairE) (auto simp: nelems_def)

lemma put_kid_commute: "i \<noteq> j \<Longrightarrow> put_kid (put_kid n i k c) j k' c' = put_kid (put_kid n j k' c') i k c"
  by (cases n) (auto simp: put_kid_def)

definition replace_pair :: "'a node234 \<Rightarrow> nat \<Rightarrow> 'a node234 \<Rightarrow> 'a \<Rightarrow> 'a node234 \<Rightarrow> 'a node234" where
  "replace_pair n c l x r = put_kid (put_kid (set_elm n c (Some x)) (Suc c) r (len r)) c l (len l)"

lemma replace_pair:
  assumes "full234 (Suc h) n" and "Suc c \<le> nelems n" and "full234 h l" and "full234 h r"
  shows "full234 (Suc h) (replace_pair n c l x r)
    \<and> inorder (replace_pair n c l x r) = before n c @ inorder l @ x # inorder r @ after n (Suc c)
    \<and> nelems (replace_pair n c l x r) = nelems n
    \<and> before (replace_pair n c l x r) c = before n c
    \<and> before (replace_pair n c l x r) (Suc c) = before n c @ inorder l @ [x]
    \<and> kid (replace_pair n c l x r) c = l
    \<and> kid (replace_pair n c l x r) (Suc c) = r"
  using assms by (elim pairE) (simp_all add: replace_pair_def put_kid_def nelems_def)

text \<open>Merging a pair into one kid, with the loops that close the gap.\<close>

definition merged_ok :: "nat \<Rightarrow> 'a node234 \<Rightarrow> nat \<Rightarrow> 'a node234 \<Rightarrow> 'a node234 \<Rightarrow> bool" where
  "merged_ok h n c m n' \<longleftrightarrow> kid n' c = m \<and>
     (if nelems n = 1 then elm n' 0 = None
      else elm n' 0 \<noteq> None \<and> full234 (Suc h) n' \<and> c \<le> nelems n'
         \<and> before n' c = before n c \<and> inorder n' = before n c @ inorder m @ after n (Suc c))"

lemma full234_Suc_not_NULL: "full234 (Suc h) k \<Longrightarrow> k \<noteq> NULL"
  by auto

lemma drop_kid_ok:
  assumes "full234 (Suc (Suc h)) n" and "Suc c \<le> nelems n" and m: "full234 (Suc h) m"
  shows "merged_ok (Suc h) n c m (drop_kid c (put_kid n (Suc c) m (len m)))"
  using assms(1,2)
proof (cases rule: pairE)
  case 1
  show ?thesis unfolding 1(1,2) using m full234_Suc_not_NULL [OF m] 1(3-)
    full234_Suc_not_NULL [OF 1(3)] full234_Suc_not_NULL [OF 1(4)]
    by (simp add: loop_steps merged_ok_def put_kid_def nelems_def)
next
  case 2
  show ?thesis unfolding 2(1,2) using m full234_Suc_not_NULL [OF m] 2(3-)
    full234_Suc_not_NULL [OF 2(3)] full234_Suc_not_NULL [OF 2(4)] full234_Suc_not_NULL [OF 2(5)]
    by (simp add: loop_steps merged_ok_def put_kid_def nelems_def)
next
  case 3
  show ?thesis unfolding 3(1,2) using m full234_Suc_not_NULL [OF m] 3(3-)
    full234_Suc_not_NULL [OF 3(3)] full234_Suc_not_NULL [OF 3(4)] full234_Suc_not_NULL [OF 3(5)]
    by (simp add: loop_steps merged_ok_def put_kid_def nelems_def)
next
  case 4
  show ?thesis unfolding 4(1,2) using m full234_Suc_not_NULL [OF m] 4(3-)
    full234_Suc_not_NULL [OF 4(3)] full234_Suc_not_NULL [OF 4(4)] full234_Suc_not_NULL [OF 4(5)] full234_Suc_not_NULL [OF 4(6)]
    by (simp add: loop_steps merged_ok_def put_kid_def nelems_def)
next
  case 5
  show ?thesis unfolding 5(1,2) using m full234_Suc_not_NULL [OF m] 5(3-)
    full234_Suc_not_NULL [OF 5(3)] full234_Suc_not_NULL [OF 5(4)] full234_Suc_not_NULL [OF 5(5)] full234_Suc_not_NULL [OF 5(6)]
    by (simp add: loop_steps merged_ok_def put_kid_def nelems_def)
next
  case 6
  show ?thesis unfolding 6(1,2) using m full234_Suc_not_NULL [OF m] 6(3-)
    full234_Suc_not_NULL [OF 6(3)] full234_Suc_not_NULL [OF 6(4)] full234_Suc_not_NULL [OF 6(5)] full234_Suc_not_NULL [OF 6(6)]
    by (simp add: loop_steps merged_ok_def put_kid_def nelems_def)
qed

lemma drop_right_ok:
  assumes "full234 (Suc h) n" and "Suc c \<le> nelems n" and m: "full234 h m"
  shows "merged_ok h n c m (drop_right c (put_kid n c m (len m)))"
  using assms(1,2)
proof (cases rule: pairE)
  case 1
  show ?thesis unfolding 1(1,2) using m 1(3-)
    by (simp add: loop_steps merged_ok_def put_kid_def nelems_def)
next
  case 2
  show ?thesis unfolding 2(1,2) using m 2(3-)
    by (simp add: loop_steps merged_ok_def put_kid_def nelems_def)
next
  case 3
  show ?thesis unfolding 3(1,2) using m 3(3-)
    by (simp add: loop_steps merged_ok_def put_kid_def nelems_def)
next
  case 4
  show ?thesis unfolding 4(1,2) using m 4(3-)
    by (simp add: loop_steps merged_ok_def put_kid_def nelems_def)
next
  case 5
  show ?thesis unfolding 5(1,2) using m 5(3-)
    by (simp add: loop_steps merged_ok_def put_kid_def nelems_def)
next
  case 6
  show ?thesis unfolding 6(1,2) using m 6(3-)
    by (simp add: loop_steps merged_ok_def put_kid_def nelems_def)
qed

text \<open>The three transformations, as replacements and merges of a pair of kids.\<close>

lemma put_kid_Node:
  "put_kid (Node k0 n0 e0 k1 n1 e1 k2 n2 e2 k3 n3) i k c =
     (if i = 0 then Node k c e0 k1 n1 e1 k2 n2 e2 k3 n3
      else if i = 1 then Node k0 n0 e0 k c e1 k2 n2 e2 k3 n3
      else if i = 2 then Node k0 n0 e0 k1 n1 e1 k c e2 k3 n3
      else if i = 3 then Node k0 n0 e0 k1 n1 e1 k2 n2 e2 k c
      else Node k0 n0 e0 k1 n1 e1 k2 n2 e2 k3 n3)"
  by (simp add: put_kid_def)

lemma borrow_left_eq:
  assumes "kid n (Suc c) = N2 s0 z s1" and "elm n c = Some y" and "n \<noteq> NULL" and "c \<le> 2"
  shows "kid n c = N3 k0 a k1 b k2 \<Longrightarrow> borrow_left n (Suc c) j =
      (replace_pair n c (N2 k0 a k1) b (N3 k2 y s0 z s1), Suc c, j + cnt n c - len (N2 k0 a k1))"
    and "kid n c = N4 k0 a k1 b k2 d k3 \<Longrightarrow> borrow_left n (Suc c) j =
      (replace_pair n c (N3 k0 a k1 b k2) d (N3 k3 y s0 z s1), Suc c, j + cnt n c - len (N3 k0 a k1 b k2))"
  using assms by (simp_all add: borrow_left_def replace_pair_def Let_def put_kid_Node algebra_simps)

lemma borrow_right_eq:
  assumes "kid n c = N2 s0 z s1" and "elm n c = Some y" and "n \<noteq> NULL" and "c \<le> 2"
  shows "kid n (Suc c) = N3 k0 a k1 b k2 \<Longrightarrow> borrow_right n c j =
      (replace_pair n c (N3 s0 z s1 y k0) a (N2 k1 b k2), c, j)"
    and "kid n (Suc c) = N4 k0 a k1 b k2 d k3 \<Longrightarrow> borrow_right n c j =
      (replace_pair n c (N3 s0 z s1 y k0) a (N3 k1 b k2 d k3), c, j)"
  using assms
  
  by (simp_all add: borrow_right_def replace_pair_def Let_def put_kid_Node loop_steps put_kid_commute
      algebra_simps)

lemma merge_kids_eq:
  assumes "kid n c = N2 k0 a k1" and "kid n (Suc c) = N2 s0 z s1" and "elm n c = Some y"
    and "ki = Suc c \<or> ki = 0 \<and> c = 0" and "n \<noteq> NULL" and "c \<le> 2"
  shows "merge_kids n ki j =
    (drop_kid c (put_kid n (Suc c) (N4 k0 a k1 y s0 z s1) (len (N4 k0 a k1 y s0 z s1))), c,
     if ki = Suc c then j + (cnt n c + 1) else j)"
  using assms by (auto simp: merge_kids_def Let_def put_kid_Node algebra_simps)

lemma join_around_eq:
  assumes "kid n c = N2 k0 a k1" and "kid n (Suc c) = N2 s0 z s1" and "elm n c = Some y"
  shows "join_around n c =
    drop_right c (put_kid n c (N4 k0 a k1 y s0 z s1) (len (N4 k0 a k1 y s0 z s1)))"
  using assms by (simp add: join_around_def Let_def put_kid_Node algebra_simps)

lemma Suc_nelems: "Suc c \<le> nelems n \<Longrightarrow> c \<le> nelems n \<and> c \<le> 2"
  by (auto simp: nelems_def split: if_splits)

lemma borrow_left_ok:
  assumes n: "full234 (Suc (Suc h)) n" and c: "Suc c \<le> nelems n"
    and sub: "elm (kid n (Suc c)) 1 = None" and sib: "elm (kid n c) 1 \<noteq> None"
    and j: "0 \<le> j" "j < len (kid n (Suc c))"
  obtains n' j' where "borrow_left n (Suc c) j = (n', Suc c, j')"
    "fixed_ok h n (int (length (before n (Suc c))) + j) n' (Suc c) j'"
proof -
  have nn: "n \<noteq> NULL" using n by auto
  from Suc_nelems [OF c] have c2: "c \<le> nelems n" "c \<le> 2" by auto
  obtain s0 z s1 where S: "kid n (Suc c) = N2 s0 z s1" "full234 h s0" "full234 h s1"
    using full234_kid [OF n c] sub by (rule full234_one)
  obtain y where y: "elm n c = Some y" "before n (Suc c) = before n c @ inorder (kid n c) @ [y]"
      "inorder n = before n c @ inorder (kid n c) @ y # inorder (kid n (Suc c)) @ after n (Suc c)"
    using n c by (rule pair_split)
  from full234_kid [OF n c2(1)] sib show ?thesis
  proof (cases rule: full234_more)
    case (1 k0 a k1 b k2)
    show ?thesis
      by (rule that, rule borrow_left_eq(1) [OF S(1) y(1) nn c2(2) 1(1)])
        (use replace_pair [OF n c, of "N2 k0 a k1" "N3 k2 y s0 z s1" b] c S y 1 j cnt_len [OF n c2(1)]
          in \<open>simp add: fixed_ok_def\<close>)
  next
    case (2 k0 a k1 b k2 d k3)
    show ?thesis
      by (rule that, rule borrow_left_eq(2) [OF S(1) y(1) nn c2(2) 2(1)])
        (use replace_pair [OF n c, of "N3 k0 a k1 b k2" "N3 k3 y s0 z s1" d] c S y 2 j cnt_len [OF n c2(1)]
          in \<open>simp add: fixed_ok_def\<close>)
  qed
qed

lemma borrow_right_ok:
  assumes n: "full234 (Suc (Suc h)) n" and c: "Suc c \<le> nelems n"
    and sub: "elm (kid n c) 1 = None" and sib: "elm (kid n (Suc c)) 1 \<noteq> None"
    and j: "0 \<le> j" "j < len (kid n c)"
  obtains n' j' where "borrow_right n c j = (n', c, j')"
    "fixed_ok h n (int (length (before n c)) + j) n' c j'"
proof -
  have nn: "n \<noteq> NULL" using n by auto
  from Suc_nelems [OF c] have c2: "c \<le> nelems n" "c \<le> 2" by auto
  obtain s0 z s1 where S: "kid n c = N2 s0 z s1" "full234 h s0" "full234 h s1"
    using full234_kid [OF n c2(1)] sub by (rule full234_one)
  obtain y where y: "elm n c = Some y" "before n (Suc c) = before n c @ inorder (kid n c) @ [y]"
      "inorder n = before n c @ inorder (kid n c) @ y # inorder (kid n (Suc c)) @ after n (Suc c)"
    using n c by (rule pair_split)
  from full234_kid [OF n c] sib show ?thesis
  proof (cases rule: full234_more)
    case (1 k0 a k1 b k2)
    show ?thesis
      by (rule that, rule borrow_right_eq(1) [OF S(1) y(1) nn c2(2) 1(1)])
        (use replace_pair [OF n c, of "N3 s0 z s1 y k0" "N2 k1 b k2" a] c c2 S y 1 j
          in \<open>simp add: fixed_ok_def\<close>)
  next
    case (2 k0 a k1 b k2 d k3)
    show ?thesis
      by (rule that, rule borrow_right_eq(2) [OF S(1) y(1) nn c2(2) 2(1)])
        (use replace_pair [OF n c, of "N3 s0 z s1 y k0" "N3 k1 b k2 d k3" a] c c2 S y 2 j
          in \<open>simp add: fixed_ok_def\<close>)
  qed
qed

text \<open>
  A merge either keeps the node (see \<open>fixed_ok\<close>) or leaves it empty, when it had one
  element: then the merged kid is the whole node.
\<close>

definition merge_ok :: "nat \<Rightarrow> 'a node234 \<Rightarrow> int \<Rightarrow> 'a node234 \<Rightarrow> nat \<Rightarrow> int \<Rightarrow> bool" where
  "merge_ok h n p n' c j \<longleftrightarrow>
     (if elm n' 0 = None
      then nelems n = 1 \<and> full234 (Suc h) (kid n' c) \<and> inorder (kid n' c) = inorder n
         \<and> elm (kid n' c) 1 \<noteq> None \<and> j = p \<and> 0 \<le> p \<and> p < len n
      else fixed_ok h n p n' c j)"

lemma nelems_1: "full234 (Suc h) n \<Longrightarrow> Suc c \<le> nelems n \<Longrightarrow> nelems n = 1 \<Longrightarrow>
    c = 0 \<and> after n (Suc c) = []"
  by (erule full234_SucE) (auto simp: nelems_def)

lemma merged_ok_merge:
  assumes n: "full234 (Suc (Suc h)) n" and c: "Suc c \<le> nelems n"
    and K: "kid n c = N2 k0 a k1" "full234 h k0" "full234 h k1"
    and S: "kid n (Suc c) = N2 s0 z s1" "full234 h s0" "full234 h s1"
    and y: "elm n c = Some y"
    and ok: "merged_ok (Suc h) n c (N4 k0 a k1 y s0 z s1) n'"
    and j: "0 \<le> j" "j < len (kid n c) + 1 + len (kid n (Suc c))"
  shows "merge_ok h n (int (length (before n c)) + j) n' c j"
proof -
  obtain y' where y': "elm n c = Some y'"
      "inorder n = before n c @ inorder (kid n c) @ y' # inorder (kid n (Suc c)) @ after n (Suc c)"
    using n c by (rule pair_split)
  with y have yn: "inorder n = before n c @ inorder (kid n c) @ y # inorder (kid n (Suc c)) @ after n (Suc c)"
    by simp
  show ?thesis
  proof (cases "nelems n = 1")
    case True
    with nelems_1 [OF n c] have "before n c = []" "after n (Suc c) = []" by (cases n; simp)+
    with True yn ok K S j show ?thesis by (simp add: merge_ok_def merged_ok_def)
  next
    case False
    with yn ok K S j show ?thesis by (simp add: merge_ok_def merged_ok_def fixed_ok_def)
  qed
qed

lemma merge_kids_ok:
  assumes n: "full234 (Suc (Suc h)) n" and c: "Suc c \<le> nelems n"
    and one: "elm (kid n c) 1 = None" "elm (kid n (Suc c)) 1 = None"
    and ki: "ki = Suc c \<or> ki = 0 \<and> c = 0" and j: "0 \<le> j" "j < len (kid n ki)"
  obtains n' j' where "merge_kids n ki j = (n', c, j')"
    "merge_ok h n (int (length (before n ki)) + j) n' c j'"
proof -
  have nn: "n \<noteq> NULL" using n by auto
  from Suc_nelems [OF c] have c2: "c \<le> nelems n" "c \<le> 2" by auto
  obtain k0 a k1 where K: "kid n c = N2 k0 a k1" "full234 h k0" "full234 h k1"
    using full234_kid [OF n c2(1)] one(1) by (rule full234_one)
  obtain s0 z s1 where S: "kid n (Suc c) = N2 s0 z s1" "full234 h s0" "full234 h s1"
    using full234_kid [OF n c] one(2) by (rule full234_one)
  obtain y where y: "elm n c = Some y" "before n (Suc c) = before n c @ inorder (kid n c) @ [y]"
    using n c by (rule pair_split)
  define m where "m = N4 k0 a k1 y s0 z s1"
  have m: "full234 (Suc h) m" using K S by (simp add: m_def)
  define j' where "j' = (if ki = Suc c then j + (cnt n c + 1) else j)"
  have j': "0 \<le> j'" "j' < len (kid n c) + 1 + len (kid n (Suc c))"
      "int (length (before n ki)) + j = int (length (before n c)) + j'"
    using ki j cnt_len [OF n c2(1)] y by (auto simp: j'_def)
  show ?thesis
  proof (rule that)
    show "merge_kids n ki j = (drop_kid c (put_kid n (Suc c) m (len m)), c, j')"
      unfolding m_def j'_def by (rule merge_kids_eq [OF K(1) S(1) y(1) ki nn c2(2)])
    show "merge_ok h n (int (length (before n ki)) + j) (drop_kid c (put_kid n (Suc c) m (len m))) c j'"
      unfolding j'(3)
      by (rule merged_ok_merge [OF n c K S y(1) drop_kid_ok [OF n c m, unfolded m_def] j'(1,2),
            folded m_def])
  qed
qed

lemma fix_child_ok:
  assumes n: "full234 (Suc (Suc h)) n" and ki: "ki \<le> nelems n"
    and one: "elm (kid n ki) 1 = None" and j: "0 \<le> j" "j < len (kid n ki)"
  obtains (fixed) n' ki' j' where "fix_child n ki j = Some (n', ki', j', False)"
      "fixed_ok h n (int (length (before n ki)) + j) n' ki' j'"
  | (merged) n' ki' j' where "fix_child n ki j = Some (n', ki', j', elm n' 0 = None)"
      "merge_ok h n (int (length (before n ki)) + j) n' ki' j'"
proof -
  have not_NULL: "kid n i \<noteq> NULL" if "i \<le> nelems n" for i
    using full234_kid [OF n that] by auto
  have elems: "1 \<le> nelems n" "nelems n \<le> 3" by (auto simp: nelems_def)
  have beyond: "elm (kid n (ki + 1)) 1 = None \<or> Suc ki \<le> nelems n" if "ki < 3"
    using n ki that by (elim full234_SucE) (auto simp: nelems_def le_Suc_eq)
  show ?thesis
  proof (cases "0 < ki \<and> elm (kid n (ki - 1)) 1 \<noteq> None")
    case True
    then obtain c where c: "ki = Suc c" by (cases ki) auto
    obtain n' j' where "borrow_left n (Suc c) j = (n', Suc c, j')"
        "fixed_ok h n (int (length (before n (Suc c))) + j) n' (Suc c) j'"
      using borrow_left_ok [OF n, of c j] ki one j True unfolding c by auto
    with True not_NULL [of c] ki c show ?thesis
      by (intro fixed [of n' "Suc c" j']) (auto simp: fix_child_def)
  next
    case noleft: False
    show ?thesis
    proof (cases "ki < 3 \<and> elm (kid n (ki + 1)) 1 \<noteq> None")
      case True
      with beyond have s: "Suc ki \<le> nelems n" by auto
      obtain n' j' where "borrow_right n ki j = (n', ki, j')"
          "fixed_ok h n (int (length (before n ki)) + j) n' ki j'"
        using borrow_right_ok [OF n s, of j] one j True by auto
      with True noleft not_NULL [of "ki - 1"] not_NULL [OF s] ki show ?thesis
        by (intro fixed [of n' ki j']) (auto simp: fix_child_def)
    next
      case noright: False
      define c where "c = ki - 1"
      have c: "Suc c \<le> nelems n" "ki = Suc c \<or> ki = 0 \<and> c = 0"
        using ki elems by (auto simp: c_def)
      have "elm (kid n c) 1 = None \<and> elm (kid n (Suc c)) 1 = None"
        using c(2) noleft noright one by auto
      then obtain n' j' where "merge_kids n ki j = (n', c, j')"
          "merge_ok h n (int (length (before n ki)) + j) n' c j'"
        using merge_kids_ok [OF n c(1) _ _ c(2) j] by blast
      with noleft noright not_NULL [of "ki - 1"] not_NULL [of 1] elems ki show ?thesis
        by (intro merged [of n' c j']) (auto simp: fix_child_def)
    qed
  qed
qed

text \<open>Neighbours of an inner element, and removal in a leaf.\<close>

lemma inorder_not_Nil: "full234 (Suc h) n \<Longrightarrow> inorder n \<noteq> []"
  by (erule full234_SucE) auto

lemma largest_last: "full234 (Suc h) m \<Longrightarrow> largest m = Some (last (inorder m))"
proof (induction h arbitrary: m)
  case (0 m)
  then show ?case by (elim full234_SucE) (simp_all add: largest.simps [of "Node _ _ _ _ _ _ _ _ _ _ _"])
next
  case (Suc h m)
  have "kid m 0 \<noteq> NULL" using full234_kid [OF Suc.prems, of 0] by auto
  moreover have "full234 (Suc h) (last_kid m) \<and> last (inorder m) = last (inorder (last_kid m))"
    using Suc.prems
  proof (cases rule: full234_SucE)
    case (N2 k0 a k1)
    with full234_Suc_not_NULL [OF N2(3)] inorder_not_Nil [OF N2(3)] show ?thesis
      by (simp add: last_kid_def)
  next
    case (N3 k0 a k1 b k2)
    with full234_Suc_not_NULL [OF N3(4)] inorder_not_Nil [OF N3(4)] show ?thesis
      by (simp add: last_kid_def)
  next
    case (N4 k0 a k1 b k2 c k3)
    with full234_Suc_not_NULL [OF N4(5)] inorder_not_Nil [OF N4(5)] show ?thesis
      by (simp add: last_kid_def)
  qed
  ultimately show ?case using Suc.IH [of "last_kid m"] by (subst largest.simps) simp
qed

lemma smallest_hd: "full234 (Suc h) m \<Longrightarrow> smallest m = Some (hd (inorder m))"
proof (induction h arbitrary: m)
  case (0 m)
  then show ?case by (elim full234_SucE) (simp_all add: smallest.simps [of "Node _ _ _ _ _ _ _ _ _ _ _"])
next
  case (Suc h m)
  have k: "full234 (Suc h) (kid m 0)" by (rule full234_kid [OF Suc.prems]) simp
  have "hd (inorder m) = hd (inorder (kid m 0))"
    using inorder_not_Nil [OF k]
    by (subst inorder_split [OF Suc.prems, of 0]) (cases m; simp)+
  then show ?case using Suc.IH [OF k] k by (subst smallest.simps) auto
qed

lemma leaf_remove_ok:
  assumes "full234 (Suc 0) n" and "elm n 1 \<noteq> None" and "e < nelems n"
  shows "full234 (Suc 0) (leaf_remove e n) \<and> inorder (leaf_remove e n) = remove_nth e (inorder n)"
  using assms(1)
proof (cases rule: full234_SucE)
  case N2
  with assms show ?thesis by simp
next
  case N3
  with assms have "e = 0 \<or> e = 1" by (auto simp: nelems_def)
  then show ?thesis unfolding N3(1) using N3(2-)
    by (elim disjE) (simp_all add: loop_steps remove_nth_def)
next
  case N4
  with assms have "e \<le> 2" by (auto simp: nelems_def)
  then consider "e = 0" | "e = 1" | "e = 2" by linarith
  then show ?thesis unfolding N4(1) using N4(2-)
    by cases (simp_all add: loop_steps remove_nth_def)
qed

section \<open>The deletion loop\<close>

definition del_ok :: "nat \<Rightarrow> bool \<Rightarrow> 'a node234 \<Rightarrow> int \<Rightarrow> ('a option \<times> 'a node234) option \<Rightarrow> bool" where
  "del_ok h isroot n i r \<longleftrightarrow>
     (\<exists>n'. r = Some (Some (inorder n ! nat i), n') \<and> inorder n' = remove_nth (nat i) (inorder n)
         \<and> (full234 (Suc h) n' \<or> isroot \<and> elm n 1 = None \<and> full234 h n'))"

lemma nth_before: "0 \<le> j \<Longrightarrow> (ps @ qs) ! nat (int (length ps) + j) = qs ! nat j"
  by (simp add: nth_append nat_add_distrib)

lemma remove_before:
  assumes "0 \<le> j" and "j < int (length qs)"
  shows "remove_nth (nat (int (length ps) + j)) (ps @ qs @ rs) = ps @ remove_nth (nat j) qs @ rs"
  using assms by (simp add: nat_add_distrib remove_nth_append_right remove_nth_append_left nat_less_iff)

lemma enter_kid:
  assumes fx: "fixed_ok h n p n' ki j"
    and ok: "del_ok h False (kid n' ki) j (del_node False j (kid n' ki))"
  obtains sub where "del_node False j (kid n' ki) = Some (Some (inorder n ! nat p), sub)"
    "del_ok (Suc h) isroot n p (Some (Some (inorder n ! nat p), put_kid n' ki sub (cnt n' ki - 1)))"
proof -
  from fx have n': "full234 (Suc (Suc h)) n'" "ki \<le> nelems n'" and in': "inorder n' = inorder n"
    and p: "p = int (length (before n' ki)) + j" and j: "0 \<le> j" "j < len (kid n' ki)"
    by (simp_all add: fixed_ok_def)
  from ok obtain sub where sub: "del_node False j (kid n' ki) = Some (Some (inorder (kid n' ki) ! nat j), sub)"
      "inorder sub = remove_nth (nat j) (inorder (kid n' ki))" "full234 (Suc h) sub"
    by (auto simp: del_ok_def)
  note split = inorder_split [OF n'] 
  have elem: "inorder n ! nat p = inorder (kid n' ki) ! nat j"
    unfolding in' [symmetric] split p using j by (simp only: nth_before) (simp add: nth_append nat_less_iff)
  have c: "cnt n' ki - 1 = len sub"
    using cnt_len [OF n'] j by (simp add: sub(2) nat_less_iff of_nat_diff)
  have "inorder (put_kid n' ki sub (cnt n' ki - 1)) = remove_nth (nat p) (inorder n)"
    unfolding in' [symmetric] split p put_kid_def
    using replace_kid(2) [OF n' sub(3) c] sub(2) j by (simp add: remove_before)
  moreover have "full234 (Suc (Suc h)) (put_kid n' ki sub (cnt n' ki - 1))"
    unfolding put_kid_def by (rule replace_kid(1) [OF n' sub(3) c])
  ultimately show ?thesis
    using sub(1) elem by (intro that [of sub]) (auto simp: del_ok_def)
qed

text \<open>The element hit in an inner node, by the three cases of the code.\<close>

lemma put_kid_same: "kid n i = k \<Longrightarrow> cnt n i = c \<Longrightarrow> put_kid n i k c = n"
  by (cases n) (auto simp: put_kid_def)

lemma elm_not_None: "full234 (Suc h) n \<Longrightarrow> elm n 0 \<noteq> None"
  by (erule full234_SucE) auto

lemma remove_last: "xs \<noteq> [] \<Longrightarrow> remove_nth (length xs - 1) xs = butlast xs"
  by (simp add: remove_nth_def butlast_conv_take)

lemma remove_first: "remove_nth 0 xs = tl xs"
  by (simp add: remove_nth_def drop_Suc)

lemma hit_elems:
  assumes n: "full234 (Suc (Suc h)) n" and c: "Suc c \<le> nelems n" and y: "elm n c = Some y"
  shows "inorder n = before n c @ inorder (kid n c) @ y # inorder (kid n (Suc c)) @ after n (Suc c)"
  using n c y by (metis option.inject pair_split)

lemma hit_nth:
  assumes n: "full234 (Suc (Suc h)) n" and c: "Suc c \<le> nelems n" and y: "elm n c = Some y"
    and i: "i = int (length (before n c)) + len (kid n c)"
  shows "inorder n ! nat i = y"
  unfolding hit_elems [OF n c y] i by (simp add: nth_append nat_add_distrib)

lemma hit_removed:
  assumes n: "full234 (Suc (Suc h)) n" and c: "Suc c \<le> nelems n" and y: "elm n c = Some y"
    and i: "i = int (length (before n c)) + len (kid n c)"
  shows "remove_nth (nat i) (inorder n)
     = before n c @ inorder (kid n c) @ inorder (kid n (Suc c)) @ after n (Suc c)"
proof -
  have "nat i = length (before n c @ inorder (kid n c))" using i by simp
  then show ?thesis
    unfolding hit_elems [OF n c y]
    using remove_nth_split [of "before n c @ inorder (kid n c)" y "inorder (kid n (Suc c)) @ after n (Suc c)"]
    by simp
qed

lemma hit_left:
  assumes n: "full234 (Suc (Suc h)) n" and c: "Suc c \<le> nelems n" and y: "elm n c = Some y"
    and i: "i = int (length (before n c)) + len (kid n c)"
    and ok: "del_ok h False (kid n c) (cnt n c - 1) (del_node False (cnt n c - 1) (kid n c))"
  obtains r sub where "del_node False (cnt n c - 1) (kid n c) = Some (r, sub)"
    "del_ok (Suc h) isroot n i
       (Some (Some y, put_kid (set_elm n c (largest (kid n c))) c sub (cnt n c - 1)))"
proof -
  from Suc_nelems [OF c] have c': "c \<le> nelems n" by simp
  note k = full234_kid [OF n c']
  have "nat (cnt n c - 1) = length (inorder (kid n c)) - 1"
    using cnt_len [OF n c'] by linarith
  with ok obtain r sub where sub: "del_node False (cnt n c - 1) (kid n c) = Some (r, sub)"
      "inorder sub = butlast (inorder (kid n c))" "full234 (Suc h) sub"
    using remove_last [OF inorder_not_Nil [OF k]] by (auto simp: del_ok_def)
  have cs: "cnt n c - 1 = len sub"
    using cnt_len [OF n c'] inorder_not_Nil [OF k] by (simp add: sub(2)) (cases "inorder (kid n c)"; simp)
  have r: "put_kid (set_elm n c (largest (kid n c))) c sub (cnt n c - 1)
      = replace_pair n c sub (last (inorder (kid n c))) (kid n (Suc c))"
    unfolding replace_pair_def cs largest_last [OF k]
    by (subst put_kid_same [of _ "Suc c"]) (simp_all add: cnt_len [OF n c])
  have "butlast (inorder (kid n c)) @ [last (inorder (kid n c))] = inorder (kid n c)"
    using inorder_not_Nil [OF k] by simp
  then have e: "butlast (inorder (kid n c)) @ last (inorder (kid n c)) # zs = inorder (kid n c) @ zs" for zs
    by (metis append.assoc append_Cons append_Nil)
  show ?thesis
    using replace_pair [OF n c sub(3) full234_kid [OF n c], of "last (inorder (kid n c))"]
    by (intro that [OF sub(1)]) (simp add: del_ok_def r hit_nth [OF n c y i] hit_removed [OF n c y i] sub(2) e)
qed

lemma hit_right:
  assumes n: "full234 (Suc (Suc h)) n" and c: "Suc c \<le> nelems n" and y: "elm n c = Some y"
    and i: "i = int (length (before n c)) + len (kid n c)"
    and ok: "del_ok h False (kid n (Suc c)) 0 (del_node False 0 (kid n (Suc c)))"
  obtains r sub where "del_node False 0 (kid n (Suc c)) = Some (r, sub)"
    "del_ok (Suc h) isroot n i
       (Some (Some y, put_kid (set_elm n c (smallest (kid n (Suc c)))) (Suc c) sub (cnt n (Suc c) - 1)))"
proof -
  from Suc_nelems [OF c] have c': "c \<le> nelems n" by simp
  note k = full234_kid [OF n c]
  from ok obtain r sub where sub: "del_node False 0 (kid n (Suc c)) = Some (r, sub)"
      "inorder sub = tl (inorder (kid n (Suc c)))" "full234 (Suc h) sub"
    by (auto simp: del_ok_def remove_first)
  have cs: "cnt n (Suc c) - 1 = len sub"
    using cnt_len [OF n c] inorder_not_Nil [OF k] by (simp add: sub(2)) (cases "inorder (kid n (Suc c))"; simp)
  have r: "put_kid (set_elm n c (smallest (kid n (Suc c)))) (Suc c) sub (cnt n (Suc c) - 1)
      = replace_pair n c (kid n c) (hd (inorder (kid n (Suc c)))) sub"
    unfolding replace_pair_def cs smallest_hd [OF k]
    by (subst put_kid_same [of _ c]) (simp_all add: cnt_len [OF n c'])
  have e: "hd (inorder (kid n (Suc c))) # tl (inorder (kid n (Suc c))) @ zs = inorder (kid n (Suc c)) @ zs" for zs
    using inorder_not_Nil [OF k] by (cases "inorder (kid n (Suc c))") auto
  show ?thesis
    using replace_pair [OF n c full234_kid [OF n c'] sub(3), of "hd (inorder (kid n (Suc c)))"]
    by (intro that [OF sub(1)]) (simp add: del_ok_def r hit_nth [OF n c y i] hit_removed [OF n c y i] sub(2) e)
qed


lemma hit_join:
  assumes n: "full234 (Suc (Suc h)) n" and c: "Suc c \<le> nelems n" and y: "elm n c = Some y"
    and i: "i = int (length (before n c)) + len (kid n c)"
    and one: "elm (kid n c) 1 = None" "elm (kid n (Suc c)) 1 = None"
  shows "merge_ok h n i (join_around n c) c
           (cnt (kid (join_around n c) c) 0 + cnt (kid (join_around n c) c) 1 + 1)"
proof -
  from Suc_nelems [OF c] have c2: "c \<le> nelems n" by simp
  obtain k0 a k1 where K: "kid n c = N2 k0 a k1" "full234 h k0" "full234 h k1"
    using full234_kid [OF n c2] one(1) by (rule full234_one)
  obtain s0 z s1 where S: "kid n (Suc c) = N2 s0 z s1" "full234 h s0" "full234 h s1"
    using full234_kid [OF n c] one(2) by (rule full234_one)
  have m: "full234 (Suc h) (N4 k0 a k1 y s0 z s1)" using K S by simp
  note ok = drop_right_ok [OF n c m, folded join_around_eq [OF K(1) S(1) y]]
  from ok have "kid (join_around n c) c = N4 k0 a k1 y s0 z s1" by (simp add: merged_ok_def)
  moreover have "merge_ok h n i (join_around n c) c (len (kid n c))"
    unfolding i by (rule merged_ok_merge [OF n c K S y ok]) simp_all
  ultimately show ?thesis by (simp add: K(1) algebra_simps)
qed

lemma fixed_ok_refl:
  assumes "full234 (Suc (Suc h)) n" and "ki \<le> nelems n" and "elm (kid n ki) 1 \<noteq> None"
    and "0 \<le> j" "j < len (kid n ki)"
  shows "fixed_ok h n (int (length (before n ki)) + j) n ki j"
  using assms by (simp add: fixed_ok_def)

lemma nelems_eq_1: "nelems n = 1 \<longleftrightarrow> elm n 1 = None"
  by (simp add: nelems_def)

lemma merge_ok_empty:
  "merge_ok h n i n' c j \<Longrightarrow> elm n' 0 = None \<Longrightarrow>
   elm n 1 = None \<and> full234 (Suc h) (kid n' c) \<and> inorder (kid n' c) = inorder n
     \<and> elm (kid n' c) 1 \<noteq> None \<and> j = i \<and> 0 \<le> i \<and> i < len n"
  unfolding merge_ok_def nelems_eq_1 by simp

lemma del_ok_root:
  assumes "merge_ok h n i n' c j" and "elm n' 0 = None"
    and "del_ok h True (kid n' c) j (del_node True j (kid n' c))"
  obtains r where "del_node True j (kid n' c) = Some (Some (inorder n ! nat i), r)"
    "del_ok (Suc h) True n i (Some (Some (inorder n ! nat i), r))"
proof -
  note e = merge_ok_empty [OF assms(1,2)]
  from assms(3) obtain r where r: "del_node True j (kid n' c) = Some (Some (inorder (kid n' c) ! nat j), r)"
      "inorder r = remove_nth (nat j) (inorder (kid n' c))" "full234 (Suc h) r"
    unfolding del_ok_def using e by blast
  then show ?thesis using e by (intro that [of r]) (auto simp: del_ok_def)
qed

lemma merge_ok_not_root:
  "merge_ok h n i n' c j \<Longrightarrow> elm n' 0 = None \<Longrightarrow> isroot \<or> elm n 1 \<noteq> None \<Longrightarrow> isroot"
  by (drule (1) merge_ok_empty) simp

lemma del_node_ok:
  "full234 (Suc h) n \<Longrightarrow> 0 \<le> i \<Longrightarrow> i < len n \<Longrightarrow> isroot \<or> elm n 1 \<noteq> None \<Longrightarrow>
   del_ok h isroot n i (del_node isroot i n)"
proof (induction h arbitrary: n i isroot)
  case (0 n i isroot)
  from del_child_leaf [OF 0(1,2,3)] have hit: "del_child i n = Hit (nat i)" "nat i < nelems n"
    "elm n (nat i) = Some (inorder n ! nat i)" by auto
  have nn: "n \<noteq> NULL" and k0: "kid n 0 = NULL"
    using 0(1) full234_kid [OF 0(1), of 0] by auto
  show ?case
  proof (cases "elm n 1 = None")
    case True
    with 0 hit nn k0 show ?thesis
      by (subst del_node.simps) (auto simp: del_ok_def nelems_def remove_nth_def elim!: full234_SucE)
  next
    case False
    with leaf_remove_ok [OF 0(1) False hit(2)] hit nn k0 show ?thesis
      by (subst del_node.simps) (auto simp: del_ok_def)
  qed
next
  case (Suc h n i isroot)
  note n = Suc.prems(1)
  have nn: "n \<noteq> NULL" using n by auto
  have not_NULL: "kid n k \<noteq> NULL" if "k \<le> nelems n" for k
    using full234_kid [OF n that] by auto
  note unf = del_node.simps [of _ i n]
  have enter: "del_ok h False k j (del_node False j k)"
    if "full234 (Suc h) k" "0 \<le> j" "j < len k" "elm k 1 \<noteq> None" for k :: "'a node234" and j
    using Suc.IH that by blast
  have enter': "del_ok h False (kid n' ki) j (del_node False j (kid n' ki))"
    if "fixed_ok h n p n' ki j" for n' ki j p
    using that by (intro enter full234_kid [of _ n']) (auto simp: fixed_ok_def)
  have root: "del_ok h True (kid n' c) j (del_node True j (kid n' c))"
    if "merge_ok h n p n' c j" "elm n' 0 = None" for n' c j p
    using merge_ok_empty [OF that] by (intro Suc.IH) auto
  from del_child_inner [OF Suc.prems(1,2,3)] show ?case
  proof (elim disjE exE conjE)
    fix ki j assume down: "del_child i n = Down ki j" "ki \<le> nelems n" "0 \<le> j" "j < len (kid n ki)"
      "i = int (length (before n ki)) + j"
    show ?thesis
    proof (cases "elm (kid n ki) 1 = None")
      case True
      show ?thesis
      proof (cases rule: fix_child_ok [OF n down(2) True down(3,4), case_names fixed merged])
        case (fixed n' ki' j')
        obtain sub where "del_node False j' (kid n' ki') = Some (Some (inorder n ! nat i), sub)"
          "del_ok (Suc h) isroot n i (Some (Some (inorder n ! nat i), put_kid n' ki' sub (cnt n' ki' - 1)))"
          using enter_kid [OF fixed(2) enter' [OF fixed(2)], where isroot = isroot]
          unfolding down(5) by blast
        with fixed True down(1-4) nn not_NULL [OF down(2)] show ?thesis by (simp add: unf)
      next
        case (merged n' ki' j')
        note m = merged(2) [folded down(5)]
        show ?thesis
        proof (cases "elm n' 0 = None")
          case empty: True
          then have isroot using merge_ok_not_root [OF m] Suc.prems(4) by blast
          obtain r where "del_node True j' (kid n' ki') = Some (Some (inorder n ! nat i), r)"
            "del_ok (Suc h) True n i (Some (Some (inorder n ! nat i), r))"
            using m empty root [OF m empty] by (rule del_ok_root)
          with merged True down(1-4) nn not_NULL [OF down(2)] empty \<open>isroot\<close> show ?thesis
            by (simp add: unf)
        next
          case False
          with m have f: "fixed_ok h n i n' ki' j'" by (simp add: merge_ok_def)
          obtain sub where "del_node False j' (kid n' ki') = Some (Some (inorder n ! nat i), sub)"
            "del_ok (Suc h) isroot n i (Some (Some (inorder n ! nat i), put_kid n' ki' sub (cnt n' ki' - 1)))"
            using enter_kid [OF f enter' [OF f], where isroot = isroot] by blast
          with merged True down(1-4) nn not_NULL [OF down(2)] False show ?thesis by (simp add: unf)
        qed
      qed
    next
      case False
      note f = fixed_ok_refl [OF n down(2) False down(3,4), folded down(5)]
      obtain sub where "del_node False j (kid n ki) = Some (Some (inorder n ! nat i), sub)"
        "del_ok (Suc h) isroot n i (Some (Some (inorder n ! nat i), put_kid n ki sub (cnt n ki - 1)))"
        using enter_kid [OF f enter' [OF f], where isroot = isroot] by blast
      with False down(1-4) nn not_NULL [OF down(2)] show ?thesis by (auto simp: unf)
    qed
  next
    fix c assume hitc: "del_child i n = Hit c" "c < nelems n" and i: "i = int (length (before n c)) + len (kid n c)"
    have c: "Suc c \<le> nelems n" using hitc(2) by simp
    obtain y where y: "elm n c = Some y" using pair_split [OF n c] by blast
    note k = full234_kid [OF n, of c] full234_kid [OF n c]
    have kn: "kid n 0 \<noteq> NULL" "kid n c \<noteq> NULL" "kid n (Suc c) \<noteq> NULL"
      using not_NULL [of 0] not_NULL [of c] not_NULL [OF c] c by simp_all
    have lk: "0 < len (kid n c)" "0 < len (kid n (Suc c))" "cnt n c = len (kid n c)"
      using inorder_not_Nil [OF k(1)] inorder_not_Nil [OF k(2)] cnt_len [OF n, of c] c by simp_all
    show ?thesis
    proof (cases "elm (kid n c) 1 = None")
      case False
      have ok: "del_ok h False (kid n c) (cnt n c - 1) (del_node False (cnt n c - 1) (kid n c))"
        using c lk False by (intro enter k(1)) auto
      obtain r sub where "del_node False (cnt n c - 1) (kid n c) = Some (r, sub)"
        "del_ok (Suc h) isroot n i
           (Some (Some y, put_kid (set_elm n c (largest (kid n c))) c sub (cnt n c - 1)))"
        using hit_left [OF n c y i ok, where isroot = isroot] by blast
      with False hitc nn kn y show ?thesis by (auto simp: unf)
    next
      case one: True
      show ?thesis
      proof (cases "elm (kid n (Suc c)) 1 = None")
        case False
        have ok: "del_ok h False (kid n (Suc c)) 0 (del_node False 0 (kid n (Suc c)))"
          using lk False by (intro enter k(2)) auto
        obtain r sub where "del_node False 0 (kid n (Suc c)) = Some (r, sub)"
          "del_ok (Suc h) isroot n i
             (Some (Some y, put_kid (set_elm n c (smallest (kid n (Suc c)))) (Suc c) sub (cnt n (Suc c) - 1)))"
          using hit_right [OF n c y i ok, where isroot = isroot] by blast
        with False one hitc nn kn y show ?thesis by (auto simp: unf)
      next
        case True
        define n' where "n' = join_around n c"
        define j where "j = cnt (kid n' c) 0 + cnt (kid n' c) 1 + 1"
        have m: "merge_ok h n i n' c j"
          unfolding n'_def j_def by (rule hit_join [OF n c y i one True])
        have nth: "inorder n ! nat i = y" by (rule hit_nth [OF n c y i])
        have je: "cnt (kid n' c) 0 + cnt (kid n' c) (Suc 0) + 1 = j" by (simp add: j_def)
        show ?thesis
        proof (cases "elm n' 0 = None")
          case empty: True
          then have isroot using merge_ok_not_root [OF m] Suc.prems(4) by blast
          obtain r where "del_node True j (kid n' c) = Some (Some (inorder n ! nat i), r)"
            "del_ok (Suc h) True n i (Some (Some (inorder n ! nat i), r))"
            using m empty root [OF m empty] by (rule del_ok_root)
          with one True hitc nn kn y nth empty \<open>isroot\<close> show ?thesis
            by (simp add: unf Let_def n'_def [symmetric] je)
        next
          case False
          with m have f: "fixed_ok h n i n' c j" by (simp add: merge_ok_def)
          obtain sub where "del_node False j (kid n' c) = Some (Some (inorder n ! nat i), sub)"
            "del_ok (Suc h) isroot n i (Some (Some (inorder n ! nat i), put_kid n' c sub (cnt n' c - 1)))"
            using enter_kid [OF f enter' [OF f], where isroot = isroot] by blast
          with one True hitc nn kn y nth False show ?thesis
            by (auto simp: unf Let_def n'_def [symmetric] je)
        qed
      qed
    qed
  qed
qed

section \<open>Deletion from a tree\<close>

lemma delpos234_internal_spec:
  assumes "wf234 t" and "0 \<le> i" and "i < len (root t)"
  shows "\<exists>t'. delpos234_internal t i = Some (Some (elements t ! nat i), t') \<and> wf234 t'
    \<and> cmp t' = cmp t \<and> elements t' = remove_nth (nat i) (elements t)"
  using assms(1)
proof (cases rule: wf234_cases)
  case 1
  with assms show ?thesis by simp
next
  case (2 h)
  from del_node_ok [OF 2(2) assms(2,3), of True] show ?thesis
    by (auto simp: del_ok_def delpos234_internal_def wf234_def)
qed

lemma delpos234_spec:
  assumes "wf234 t"
  shows "if 0 \<le> i \<and> i < len (root t)
    then \<exists>t'. delpos234 t i = Some (Some (elements t ! nat i), t') \<and> wf234 t'
      \<and> cmp t' = cmp t \<and> elements t' = remove_nth (nat i) (elements t)
    else delpos234 t i = Some (None, t)"
proof -
  from assms obtain h where "full234 h (root t)" by (auto simp: wf234_def)
  then have "countnode234 (root t) = len (root t)" by (rule countnode234_full)
  with delpos234_internal_spec [OF assms, of i] show ?thesis
    by (auto simp: delpos234_def)
qed

lemma del234_spec:
  assumes "wf234 t" and "cmp t = Some f" and "mono_key (f e) (elements t)"
  shows "case hit (f e) (elements t) of
      None \<Rightarrow> del234 t e = Some (None, t)
    | Some x \<Rightarrow> \<exists>t'. del234 t e = Some (Some x, t') \<and> wf234 t' \<and> cmp t' = cmp t
        \<and> elements t' = remove_nth (rank (f e) (elements t)) (elements t)"
proof (cases "hit (f e) (elements t)")
  case None
  with assms findrelpos234_spec [OF assms(1), of f "Some e" REL234_EQ "f e"] show ?thesis
    by (auto simp: del234_def rel_spec_def)
next
  case (Some x)
  have r: "rank (f e) (elements t) < length (elements t) \<and> elements t ! rank (f e) (elements t) = x"
    using assms(3) Some by (rule hit_at_rank)
  then have "root t \<noteq> NULL" by auto
  with assms Some findrelpos234_spec [OF assms(1), of f "Some e" REL234_EQ "f e"]
    delpos234_internal_spec [OF assms(1), of "int (rank (f e) (elements t))"] r
  show ?thesis by (auto simp: del234_def rel_spec_def Let_def)
qed

end
