(* ===== verification/Tree234_Props.thy ===== *)
theory Tree234_Props
  imports Tree234_Del_Facts
begin

text \<open>
  The properties of the 2-3-4 tree of \<open>putty/tree234.c\<close>: what each operation does to the
  in-order sequence of the elements, and what any sequence of calls does, seen as calls on
  a sorted list.  \<open>wf234\<close> is the invariant
  of the structure (two to four children, equal depth, exact counts).
\<close>

section \<open>Helpers\<close>

lemma wf234_count: "wf234 t \<Longrightarrow> count234 t = int (length (elements t))"
  using countnode234_full by (auto simp: count234_def wf234_def)

lemma full234_depth: "full234 h n \<Longrightarrow> depth n = h"
proof (induction h arbitrary: n)
  case 0
  then show ?case by simp
next
  case (Suc h)
  from Suc.prems show ?case by (cases rule: full234_SucE) (simp_all add: Suc.IH)
qed

lemma full234_size: "full234 h n \<Longrightarrow> 2 ^ h \<le> length (inorder n) + 1"
proof (induction h arbitrary: n)
  case 0
  then show ?case by simp
next
  case (Suc h)
  from Suc.prems show ?case
  proof (cases rule: full234_SucE)
    case (N2 k0 a k1)
    with Suc.IH [of k0] Suc.IH [of k1] show ?thesis by simp
  next
    case (N3 k0 a k1 b k2)
    with Suc.IH [of k0] Suc.IH [of k1] show ?thesis by simp
  next
    case (N4 k0 a k1 b k2 d k3)
    with Suc.IH [of k0] Suc.IH [of k1] show ?thesis by simp
  qed
qed

text \<open>Which elements a relation accepts, and where the one returned stands among them.\<close>

fun accepts :: "rel234 \<Rightarrow> int \<Rightarrow> bool" where
  "accepts REL234_EQ c \<longleftrightarrow> c = 0"
| "accepts REL234_LT c \<longleftrightarrow> c > 0"
| "accepts REL234_LE c \<longleftrightarrow> c \<ge> 0"
| "accepts REL234_GT c \<longleftrightarrow> c < 0"
| "accepts REL234_GE c \<longleftrightarrow> c \<le> 0"

definition is_answer :: "('a \<Rightarrow> int) \<Rightarrow> rel234 \<Rightarrow> 'a list \<Rightarrow> ('a \<times> int) option \<Rightarrow> bool" where
  "is_answer g relation xs r \<longleftrightarrow>
     (case r of
        None \<Rightarrow> \<forall>x \<in> set xs. \<not> accepts relation (g x)
      | Some (x, i) \<Rightarrow> 0 \<le> i \<and> i < int (length xs) \<and> xs ! nat i = x \<and> accepts relation (g x) \<and>
          (\<forall>j < length xs. accepts relation (g (xs ! j)) \<longrightarrow>
             (if relation \<in> {REL234_LT, REL234_LE} then j \<le> nat i else nat i \<le> j)))"

lemma mono_key_signs:
  assumes "mono_key g xs" and "j < length xs"
  shows "0 < g (xs ! j) \<longleftrightarrow> j < rank g xs"
    and "g (xs ! j) < 0 \<longleftrightarrow> (if hit g xs = None then rank g xs else Suc (rank g xs)) \<le> j"
proof -
  have lt: "0 < g (xs ! j)" if "j < rank g xs" for j
    using nth_mem [of j "take (rank g xs) xs"] rank_takes_greater [of "xs ! j" g xs] that rank_le [of g xs]
    by simp
  have le: "g y < 0" if "mono_key g xs" "i < j" "j < length xs" "g (xs ! i) \<le> 0" "y = xs ! j" for i j y
    using that by (auto simp: mono_key_def sorted_wrt_iff_nth_less)
  have stop: "g (xs ! rank g xs) \<le> 0" if "rank g xs < length xs"
    using that nth_length_takeWhile [of "\<lambda>x. 0 < g x" xs] by (simp add: rank_def)
  show "0 < g (xs ! j) \<longleftrightarrow> j < rank g xs"
  proof
    assume pos: "0 < g (xs ! j)"
    show "j < rank g xs"
    proof (rule ccontr)
      assume "\<not> ?thesis"
      then consider "j = rank g xs" | "rank g xs < j" by linarith
      then show False
        by cases (use pos assms stop le [OF assms(1), of "rank g xs" j] in auto)
    qed
  qed (rule lt)
  show "g (xs ! j) < 0 \<longleftrightarrow> (if hit g xs = None then rank g xs else Suc (rank g xs)) \<le> j"
  proof (cases "hit g xs")
    case None
    have "g (xs ! rank g xs) < 0" if "rank g xs < length xs"
      using stop [OF that] hit_NoneD [OF None] that by (metis nth_mem order_less_le)
    then have "g (xs ! j) < 0" if "rank g xs \<le> j"
      using that assms(2) le [OF assms(1), of "rank g xs" j] by (cases "j = rank g xs") auto
    with None lt [of j] show ?thesis by (cases "j < rank g xs") auto
  next
    case (Some x)
    from hit_at_rank [OF assms(1) Some] hit_Some [OF Some] have z: "g (xs ! rank g xs) = 0" "rank g xs < length xs"
      by auto
    then have "g (xs ! j) < 0" if "rank g xs < j"
      using that assms(2) le [OF assms(1), of "rank g xs" j] by auto
    with z lt [of j] Some show ?thesis by (cases "j < rank g xs"; cases "j = rank g xs") auto
  qed
qed

lemma rel_spec_is_answer:
  assumes "mono_key g xs"
  shows "is_answer g relation xs (rel_spec g relation xs)"
proof -
  let ?r = "rank g xs"
  have r: "?r \<le> length xs" by (rule rank_le)
  note S = mono_key_signs [OF assms]
  show ?thesis
  proof (cases "hit g xs")
    case None
    have nz: "g (xs ! j) \<noteq> 0" if "j < length xs" for j using hit_NoneD [OF None] that by simp
    have neg: "g (xs ! j) < 0 \<longleftrightarrow> ?r \<le> j" if "j < length xs" for j using S(2) [OF that] None by simp
    show ?thesis
      using r nz neg S(1)
      by (cases relation)
        (force simp: is_answer_def rel_spec_def Let_def nth_opt_def None in_set_conv_nth order_le_less)+
  next
    case (Some x)
    from hit_at_rank [OF assms Some] hit_Some [OF Some] have z: "xs ! ?r = x" "?r < length xs" "g x = 0" by auto
    have neg: "g (xs ! j) < 0 \<longleftrightarrow> Suc ?r \<le> j" if "j < length xs" for j using S(2) [OF that] Some by simp
    have zero: "g (xs ! j) = 0 \<longleftrightarrow> j = ?r" if "j < length xs" for j
      using S(1) [OF that] neg [OF that] by linarith
    show ?thesis
      using z neg zero S(1)
      by (cases relation)
        (force simp: is_answer_def rel_spec_def Let_def nth_opt_def Some in_set_conv_nth order_le_less)+
  qed
qed


section \<open>Properties\<close>

text \<open>
  Claim C27: \<open>addpos234\<close> at a position from 0 to the number of elements of a well-formed
  unsorted tree adds the element exactly there, whatever splits that causes, and the
  structure stays well-formed.
\<close>

theorem addpos234_inserts_at:
  assumes "wf234 t" and "cmp t = None" and "0 \<le> i" and "i \<le> count234 t"
  shows "\<exists>t'. addpos234 t e i = (Added, t') \<and> wf234 t' \<and> cmp t' = None
    \<and> elements t' = take (nat i) (elements t) @ e # drop (nat i) (elements t)"
  using addpos234_spec [OF assms(1-3), of e] assms(4) wf234_count [OF assms(1)]
  by (auto simp: insert_nth_def)

text \<open>
  A tree of seven numbers whose root was split, and the same tree sorted by the
  difference of the numbers, for the witnesses.
\<close>

definition seven :: "int tree234" where
  "seven = fold (\<lambda>x t. snd (addpos234 t x (count234 t))) [10, 20, 30, 40, 50, 60, 70] (newtree234 None)"

definition seven_sorted :: "int tree234" where
  "seven_sorted = fold (\<lambda>x t. snd (add234 t x)) [40, 10, 70, 20, 60, 30, 50] (newtree234 (Some (-)))"

lemma root_seven:
  "root seven = Node
     (Node NULL 0 (Some 10) NULL 0 (Some 20) NULL 0 None NULL 0) 2 (Some 30)
     (Node NULL 0 (Some 40) NULL 0 (Some 50) NULL 0 None NULL 0) 2 (Some 60)
     (Node NULL 0 (Some 70) NULL 0 None NULL 0 None NULL 0) 1 None NULL 0"
  by code_simp

lemma root_seven_sorted:
  "root seven_sorted = Node
     (Node NULL 0 (Some 10) NULL 0 (Some 20) NULL 0 (Some 30) NULL 0) 3 (Some 40)
     (Node NULL 0 (Some 50) NULL 0 (Some 60) NULL 0 (Some 70) NULL 0) 3 None NULL 0 None NULL 0"
  by code_simp

lemma cmp_addpos234 [simp]: "cmp (snd (addpos234 t e i)) = cmp t"
  by (simp add: addpos234_def add234_internal_def split: ins.split)

lemma cmp_add234 [simp]: "cmp (snd (add234 t e)) = cmp t"
  by (simp add: add234_def add234_internal_def split: ins.split)

lemma cmp_seven: "cmp seven = None" "cmp seven_sorted = Some (-)"
  by (simp_all add: seven_def seven_sorted_def newtree234_def)

lemma wf_seven: "wf234 seven" "wf234 seven_sorted"
  unfolding wf234_def root_seven root_seven_sorted
  by (rule exI [of _ 2], simp add: numeral_2_eq_2)+

lemma elements_seven:
  "elements seven = [10, 20, 30, 40, 50, 60, 70]" "elements seven_sorted = [10, 20, 30, 40, 50, 60, 70]"
  by (simp_all add: root_seven root_seven_sorted)

lemma int_cmp_order: "cmp_order ((-) :: int \<Rightarrow> int \<Rightarrow> int)"
  by unfold_locales auto

lemma seven_sorted_by: "sorted_by (-) (elements seven_sorted)"
  by (simp add: sorted_by_def elements_seven)

theorem addpos234_inserts_at_witness:
  "\<exists>t'. addpos234 seven 25 2 = (Added, t') \<and> wf234 t' \<and> cmp t' = None
    \<and> elements t' = [10, 20, 25, 30, 40, 50, 60, 70]"
  using addpos234_inserts_at [of seven 2 25] wf_seven(1) cmp_seven(1) wf234_count [OF wf_seven(1)]
  by (simp add: elements_seven numeral_2_eq_2)

text \<open>
  Claim C3: \<open>add234\<close> on a well-formed tree sorted by an order returns the element that
  compares equal and leaves the tree alone, or else puts the new element at the one place
  that keeps the tree sorted and well-formed.
\<close>

theorem add234_sorted_insert:
  assumes "cmp_order f" and "wf234 t" and "cmp t = Some f" and "sorted_by f (elements t)"
  shows "(\<exists>x \<in> set (elements t). f e x = 0 \<and> add234 t e = (Already x, t)) \<or>
    ((\<forall>x \<in> set (elements t). f e x \<noteq> 0) \<and>
     (\<exists>t' xs ys. add234 t e = (Added, t') \<and> wf234 t' \<and> cmp t' = Some f \<and> sorted_by f (elements t')
        \<and> elements t = xs @ ys \<and> elements t' = xs @ e # ys))"
proof -
  have m: "mono_key (f e) (elements t)" by (rule cmp_order.sorted_mono_key [OF assms(1,4)])
  show ?thesis
  proof (cases "hit (f e) (elements t)")
    case None
    with add234_spec [OF assms(2,3) m] obtain t' where
      "add234 t e = (Added, t')" "wf234 t'" "cmp t' = cmp t"
      "elements t' = insert_nth (rank (f e) (elements t)) e (elements t)" by auto
    with cmp_order.insert_sorted_by [OF assms(1,4) None] hit_NoneD [OF None] assms(3)
    show ?thesis by (auto simp: insert_nth_def) (metis append_take_drop_id)
  next
    case (Some x)
    with add234_spec [OF assms(2,3) m] hit_Some [OF Some] show ?thesis by auto
  qed
qed

theorem add234_sorted_insert_witness:
  "cmp_order ((-) :: int \<Rightarrow> int \<Rightarrow> int) \<and> wf234 seven_sorted \<and> cmp seven_sorted = Some (-)
   \<and> sorted_by (-) (elements seven_sorted) \<and>
   (\<exists>t' xs ys. add234 seven_sorted 35 = (Added, t') \<and> wf234 t' \<and> cmp t' = Some (-)
      \<and> sorted_by (-) (elements t') \<and> elements seven_sorted = xs @ ys \<and> elements t' = xs @ 35 # ys)"
  using add234_sorted_insert [OF int_cmp_order wf_seven(2) cmp_seven(2) seven_sorted_by, of 35]
    int_cmp_order wf_seven(2) cmp_seven(2) seven_sorted_by
  by (simp add: elements_seven(2))

text \<open>
  Claim C25: on a well-formed tree whose elements are in the order of the comparison with
  the key, \<open>findrelpos234\<close> returns, for each of the five relations, an element that
  stands in that relation to the key, the last of them for \<open>LT\<close> and \<open>LE\<close> and the first
  for the others, with its index; and \<open>NULL\<close> only when no element does.
\<close>

theorem findrelpos234_answers:
  assumes "wf234 t" and "mono_key (cf k) (elements t)"
  shows "\<exists>r. findrelpos234 t (Some k) cf relation = Some r
    \<and> is_answer (cf k) relation (elements t) r"
  using findrelpos234_spec [OF assms(1), of cf "Some k" relation "cf k"] assms(2)
    rel_spec_is_answer [OF assms(2)] by simp

theorem findrelpos234_answers_witness:
  "\<exists>r. findrelpos234 seven_sorted (Some 45) (-) REL234_LT = Some r
    \<and> is_answer ((-) (45 :: int)) REL234_LT (elements seven_sorted) r"
  using findrelpos234_answers [OF wf_seven(2), of "(-)" 45 REL234_LT]
  by (simp add: elements_seven mono_key_def)

text \<open>
  \<open>count234\<close> is the number of elements of a well-formed tree and \<open>index234\<close>
  the element at an in-order position, \<open>NULL\<close> for an index out of range.
\<close>

theorem index234_is_nth:
  assumes "wf234 t"
  shows "count234 t = int (length (elements t)) \<and>
    index234 t i = (if 0 \<le> i \<and> i < count234 t then Some (elements t ! nat i) else None)"
  using wf234_count [OF assms] index234_nth [OF assms, of i] by simp

theorem index234_is_nth_witness:
  "count234 seven = 7 \<and> index234 seven 4 = Some 50"
  using index234_is_nth [OF wf_seven(1), of 4] by (simp add: elements_seven)

text \<open>
  Claim C9: \<open>delpos234\<close> returns and removes exactly the element at the index, never takes
  an undefined step, and leaves a well-formed tree; an index out of range changes nothing.
\<close>

theorem delpos234_removes_at:
  assumes "wf234 t"
  shows "if 0 \<le> i \<and> i < count234 t
    then \<exists>t'. delpos234 t i = Some (Some (elements t ! nat i), t') \<and> wf234 t' \<and> cmp t' = cmp t
      \<and> elements t' = take (nat i) (elements t) @ drop (Suc (nat i)) (elements t)
    else delpos234 t i = Some (None, t)"
  using delpos234_spec [OF assms, of i] wf234_count [OF assms] unfolding remove_nth_def by simp

theorem delpos234_removes_at_witness:
  "\<exists>t'. delpos234 seven 2 = Some (Some 30, t') \<and> wf234 t' \<and> cmp t' = None
    \<and> elements t' = [10, 20, 40, 50, 60, 70]"
  using delpos234_removes_at [OF wf_seven(1), of 2] wf234_count [OF wf_seven(1)] cmp_seven(1)
  by (simp add: elements_seven numeral_2_eq_2)

text \<open>
  Claim C28: \<open>del234\<close> on a well-formed sorted tree removes the element that compares equal
  to its argument and returns it; with no such element the tree is unchanged and the
  result is \<open>NULL\<close>.
\<close>

theorem del234_removes:
  assumes "cmp_order f" and "wf234 t" and "cmp t = Some f" and "sorted_by f (elements t)"
  shows "((\<forall>x \<in> set (elements t). f e x \<noteq> 0) \<and> del234 t e = Some (None, t)) \<or>
    (\<exists>t' xs x ys. f e x = 0 \<and> del234 t e = Some (Some x, t') \<and> wf234 t' \<and> cmp t' = Some f
       \<and> sorted_by f (elements t') \<and> elements t = xs @ x # ys \<and> elements t' = xs @ ys)"
proof -
  have m: "mono_key (f e) (elements t)" by (rule cmp_order.sorted_mono_key [OF assms(1,4)])
  show ?thesis
  proof (cases "hit (f e) (elements t)")
    case None
    with del234_spec [OF assms(2,3) m] hit_NoneD [OF None] show ?thesis by auto
  next
    case (Some x)
    with del234_spec [OF assms(2,3) m] obtain t' where t':
      "del234 t e = Some (Some x, t')" "wf234 t'" "cmp t' = cmp t"
      "elements t' = remove_nth (rank (f e) (elements t)) (elements t)" by auto
    from hit_at_rank [OF m Some] have r: "rank (f e) (elements t) < length (elements t)"
      "elements t ! rank (f e) (elements t) = x" by auto
    with id_take_nth_drop [OF r(1)] have "elements t = take (rank (f e) (elements t)) (elements t)
        @ x # drop (Suc (rank (f e) (elements t))) (elements t)" by simp
    with t' assms(3) remove_sorted_by [OF assms(4)] hit_Some [OF Some] show ?thesis
      by (metis remove_nth_def)
  qed
qed

theorem del234_removes_witness:
  "cmp_order ((-) :: int \<Rightarrow> int \<Rightarrow> int) \<and> wf234 seven_sorted \<and> cmp seven_sorted = Some (-)
   \<and> sorted_by (-) (elements seven_sorted) \<and>
   (\<exists>t' xs x ys. 40 - x = 0 \<and> del234 seven_sorted 40 = Some (Some x, t') \<and> wf234 t' \<and> cmp t' = Some (-)
       \<and> sorted_by (-) (elements t') \<and> elements seven_sorted = xs @ x # ys \<and> elements t' = xs @ ys)"
  using del234_removes [OF int_cmp_order wf_seven(2) cmp_seven(2) seven_sorted_by, of 40]
    int_cmp_order wf_seven(2) cmp_seven(2) seven_sorted_by
  by (simp add: elements_seven(2))

section \<open>Histories of a sorted tree\<close>

text \<open>
  A sequence of calls on one sorted tree and its meaning on the sorted list of the
  elements: \<open>run234\<close> makes the calls on the tree, collecting what they return, and
  \<open>list_run\<close> computes the same on a list.
\<close>

datatype 'a call234 = Add234 'a | Del234 'a | Delpos234 int | Find234 'a | Index234 int

datatype 'a answer234 = Inserted "'a add_ret" | Element "'a option"

definition call234 :: "('a \<Rightarrow> 'a \<Rightarrow> int) \<Rightarrow> 'a tree234 \<Rightarrow> 'a call234 \<Rightarrow> ('a answer234 \<times> 'a tree234) option" where
  "call234 f t c =
     (case c of
        Add234 e \<Rightarrow> Some (map_prod Inserted id (add234 t e))
      | Del234 e \<Rightarrow> map_option (map_prod Element id) (del234 t e)
      | Delpos234 i \<Rightarrow> map_option (map_prod Element id) (delpos234 t i)
      | Find234 e \<Rightarrow> map_option (\<lambda>r. (Element r, t)) (find234 t (Some e) f)
      | Index234 i \<Rightarrow> Some (Element (index234 t i), t))"

fun run234 :: "('a \<Rightarrow> 'a \<Rightarrow> int) \<Rightarrow> 'a tree234 \<Rightarrow> 'a call234 list \<Rightarrow> ('a answer234 list \<times> 'a tree234) option" where
  "run234 f t [] = Some ([], t)"
| "run234 f t (c # cs) =
     (case call234 f t c of None \<Rightarrow> None
      | Some (a, t1) \<Rightarrow> map_option (map_prod ((#) a) id) (run234 f t1 cs))"

definition list_call :: "('a \<Rightarrow> 'a \<Rightarrow> int) \<Rightarrow> 'a list \<Rightarrow> 'a call234 \<Rightarrow> 'a answer234 \<times> 'a list" where
  "list_call f xs c =
     (case c of
        Add234 e \<Rightarrow>
          (case find (\<lambda>x. f e x = 0) xs of
             Some x \<Rightarrow> (Inserted (Already x), xs)
           | None \<Rightarrow> (Inserted Added, filter (\<lambda>x. f e x > 0) xs @ e # filter (\<lambda>x. f e x < 0) xs))
      | Del234 e \<Rightarrow> (Element (find (\<lambda>x. f e x = 0) xs), filter (\<lambda>x. f e x \<noteq> 0) xs)
      | Delpos234 i \<Rightarrow>
          if 0 \<le> i \<and> i < int (length xs)
          then (Element (Some (xs ! nat i)), take (nat i) xs @ drop (Suc (nat i)) xs)
          else (Element None, xs)
      | Find234 e \<Rightarrow> (Element (find (\<lambda>x. f e x = 0) xs), xs)
      | Index234 i \<Rightarrow> (Element (if 0 \<le> i \<and> i < int (length xs) then Some (xs ! nat i) else None), xs))"

fun list_run :: "('a \<Rightarrow> 'a \<Rightarrow> int) \<Rightarrow> 'a list \<Rightarrow> 'a call234 list \<Rightarrow> 'a answer234 list \<times> 'a list" where
  "list_run f xs [] = ([], xs)"
| "list_run f xs (c # cs) =
     (let (a, xs1) = list_call f xs c; (as, xs2) = list_run f xs1 cs in (a # as, xs2))"

definition sorted_tree :: "('a \<Rightarrow> 'a \<Rightarrow> int) \<Rightarrow> 'a tree234 \<Rightarrow> bool" where
  "sorted_tree f t \<longleftrightarrow> wf234 t \<and> cmp t = Some f \<and> sorted_by f (elements t)"

lemma mono_key_tail: "mono_key g (x # xs) \<Longrightarrow> mono_key g xs"
  by (simp add: mono_key_def)

lemma mono_key_head: "mono_key g (x # xs) \<Longrightarrow> g x \<le> 0 \<Longrightarrow> y \<in> set xs \<Longrightarrow> g y < 0"
  by (simp add: mono_key_def)

lemma split_at_rank:
  assumes "mono_key g xs" and "hit g xs = None"
  shows "take (rank g xs) xs = filter (\<lambda>x. g x > 0) xs \<and> drop (rank g xs) xs = filter (\<lambda>x. g x < 0) xs"
  using assms
proof (induction xs)
  case (Cons x xs)
  have nz: "g x \<noteq> 0" using hit_NoneD [OF Cons.prems(2), of x] by simp
  show ?case
  proof (cases "g x > 0")
    case True
    moreover have "hit g xs = None" using Cons.prems(2) nz by (simp add: hit_def)
    ultimately show ?thesis using Cons.IH mono_key_tail [OF Cons.prems(1)] by (simp add: rank_def)
  next
    case False
    with nz have "\<forall>y \<in> set xs. g y < 0" using mono_key_head [OF Cons.prems(1)] by auto
    then have "filter (\<lambda>y. g y > 0) xs = []" "filter (\<lambda>y. g y < 0) xs = xs"
      by (auto simp: filter_empty_conv)
    with False nz show ?thesis by (simp add: rank_def)
  qed
qed simp

lemma remove_at_rank:
  assumes "mono_key g xs"
  shows "filter (\<lambda>x. g x \<noteq> 0) xs = (if hit g xs = None then xs else remove_nth (rank g xs) xs)"
  using assms
proof (induction xs)
  case (Cons x xs)
  consider "g x > 0" | "g x = 0" | "g x < 0" by linarith
  then show ?case
  proof cases
    case 1
    then show ?thesis using Cons.IH mono_key_tail [OF Cons.prems]
      by (simp add: rank_def hit_def remove_nth_def)
  next
    case 2
    then have "\<forall>y \<in> set xs. g y < 0" using mono_key_head [OF Cons.prems] by auto
    with 2 show ?thesis by (force simp: rank_def hit_def remove_nth_def filter_id_conv)
  next
    case 3
    then have n: "\<forall>y \<in> set xs. g y < 0" using mono_key_head [OF Cons.prems] by auto
    then have "hit g (x # xs) = None" using 3 by (intro hit_None) force
    with 3 n show ?thesis by (force simp: filter_id_conv)
  qed
qed simp

lemma call234_refines:
  assumes "cmp_order f" and "sorted_tree f t"
  shows "\<exists>t'. call234 f t c = Some (fst (list_call f (elements t) c), t') \<and> sorted_tree f t'
    \<and> elements t' = snd (list_call f (elements t) c)"
proof -
  from assms(2) have w: "wf234 t" "cmp t = Some f" and s: "sorted_by f (elements t)"
    by (simp_all add: sorted_tree_def)
  have m: "mono_key (f e) (elements t)" for e by (rule cmp_order.sorted_mono_key [OF assms(1) s])
  show ?thesis
  proof (cases c)
    case (Add234 e)
    show ?thesis
    proof (cases "hit (f e) (elements t)")
      case None
      with add234_spec [OF w m [of e]] obtain t' where t': "add234 t e = (Added, t')" "wf234 t'"
        "cmp t' = cmp t" "elements t' = insert_nth (rank (f e) (elements t)) e (elements t)" by auto
      with cmp_order.insert_sorted_by [OF assms(1) s None] w have "sorted_tree f t'"
        by (simp add: sorted_tree_def)
      with t' None split_at_rank [OF m None] Add234 show ?thesis
        by (simp add: call234_def list_call_def hit_def insert_nth_def)
    next
      case (Some x)
      with add234_spec [OF w m [of e]] assms(2) Add234 show ?thesis
        by (simp add: call234_def list_call_def hit_def)
    qed
  next
    case (Del234 e)
    show ?thesis
    proof (cases "hit (f e) (elements t)")
      case None
      with del234_spec [OF w m [of e]] remove_at_rank [OF m [of e]] assms(2) Del234 show ?thesis
        by (simp add: call234_def list_call_def hit_def)
    next
      case (Some x)
      with del234_spec [OF w m [of e]] obtain t' where t': "del234 t e = Some (Some x, t')" "wf234 t'"
        "cmp t' = cmp t" "elements t' = remove_nth (rank (f e) (elements t)) (elements t)" by auto
      with remove_sorted_by [OF s] w have "sorted_tree f t'" by (simp add: sorted_tree_def)
      with t' Some remove_at_rank [OF m [of e]] Del234 show ?thesis
        by (simp add: call234_def list_call_def hit_def)
    qed
  next
    case (Delpos234 i)
    show ?thesis
    proof (cases "0 \<le> i \<and> i < int (length (elements t))")
      case True
      with delpos234_spec [OF w(1), of i] obtain t' where t': "delpos234 t i = Some (Some (elements t ! nat i), t')"
        "wf234 t'" "cmp t' = cmp t" "elements t' = remove_nth (nat i) (elements t)" by auto
      with remove_sorted_by [OF s] w have "sorted_tree f t'" by (simp add: sorted_tree_def)
      with t' True Delpos234 show ?thesis by (simp add: call234_def list_call_def remove_nth_def)
    next
      case False
      with delpos234_spec [OF w(1), of i] assms(2) Delpos234 show ?thesis
        by (auto simp: call234_def list_call_def)
    qed
  next
    case (Find234 e)
    with findrelpos234_spec [OF w(1), of f "Some e" REL234_EQ "f e"] m [of e] assms(2) show ?thesis
      by (auto simp: call234_def list_call_def find234_def rel_spec_def hit_def option.map_comp comp_def option.map_ident)
  next
    case (Index234 i)
    with index234_nth [OF w(1), of i] assms(2) show ?thesis
      by (simp add: call234_def list_call_def)
  qed
qed

lemma run234_refines:
  assumes "cmp_order f"
  shows "sorted_tree f t \<Longrightarrow> \<exists>t'. run234 f t cs = Some (fst (list_run f (elements t) cs), t')
    \<and> sorted_tree f t' \<and> elements t' = snd (list_run f (elements t) cs)"
proof (induction cs arbitrary: t)
  case (Cons c cs)
  from call234_refines [OF assms Cons.prems, of c] obtain t1 where
    t1: "call234 f t c = Some (fst (list_call f (elements t) c), t1)" "sorted_tree f t1"
      "elements t1 = snd (list_call f (elements t) c)" by blast
  from Cons.IH [OF t1(2)] show ?case using t1 by (auto split: prod.split)
qed simp

lemma depth_bound:
  assumes "wf234 t"
  shows "2 ^ depth (root t) \<le> count234 t + 1"
proof -
  from assms obtain h where h: "full234 h (root t)" by (auto simp: wf234_def)
  have "int (2 ^ h) \<le> int (length (elements t) + 1)"
    using full234_size [OF h] by (simp only: of_nat_le_iff)
  then show ?thesis using wf234_count [OF assms] full234_depth [OF h] by simp
qed

text \<open>
  Claim C30: any sequence of \<open>add234\<close>, \<open>del234\<close>, \<open>delpos234\<close>, \<open>find234\<close> and \<open>index234\<close>
  calls on a tree that \<open>newtree234\<close> made for an order returns exactly what the same calls
  return on a sorted list and never takes an undefined step; afterwards the tree holds
  that list in order, and it stays balanced: of depth \<open>h\<close> only with at least \<open>2 ^ h - 1\<close>
  elements, so a descent takes at most \<open>log2 (count + 1)\<close> steps however the tree was built.
\<close>

theorem tree_history_refines_list:
  assumes "cmp_order f"
  shows "\<exists>t. run234 f (newtree234 (Some f)) cs = Some (fst (list_run f [] cs), t)
    \<and> elements t = snd (list_run f [] cs) \<and> wf234 t \<and> sorted_by f (elements t)
    \<and> count234 t = int (length (elements t)) \<and> 2 ^ depth (root t) \<le> count234 t + 1"
proof -
  have "sorted_tree f (newtree234 (Some f))"
    by (auto simp: sorted_tree_def newtree234_def wf234_def sorted_by_def intro: exI [of _ 0])
  from run234_refines [OF assms this, of cs] show ?thesis
    using depth_bound wf234_count by (fastforce simp: sorted_tree_def newtree234_def)
qed

theorem tree_history_refines_list_witness:
  "\<exists>t. run234 (-) (newtree234 (Some (-))) [Add234 5, Add234 3, Add234 (9 :: int), Add234 5, Del234 3, Index234 1]
      = Some ([Inserted Added, Inserted Added, Inserted Added, Inserted (Already 5), Element (Some 3),
          Element (Some 9)], t)
    \<and> elements t = [5, 9] \<and> wf234 t \<and> count234 t = 2 \<and> 2 ^ depth (root t) \<le> count234 t + 1"
  using tree_history_refines_list [OF int_cmp_order,
      of "[Add234 5, Add234 3, Add234 9, Add234 5, Del234 3, Index234 1]"]
  by (auto simp: list_call_def)

text \<open>
  \<open>addpos234\<close> relies on \<open>add234_internal\<close> to refuse an index beyond the number
  of elements, which it does only below an internal root: an empty tree accepts every
  index, and a one-element tree accepts the indices 2 and 3.
\<close>

theorem addpos234_past_end:
  "addpos234 (newtree234 None) x 100 = (Added, snd (addpos234 (newtree234 None) x 0)) \<and>
   fst (addpos234 (snd (addpos234 (newtree234 None) x 0)) y 2) = Added \<and>
   fst (addpos234 (snd (addpos234 (newtree234 None) x 0)) y 3) = Added"
  by (simp add: addpos234_def add234_internal_def newtree234_def add_node.simps add_child_def)

end
