(* ===== verification/Misc.thy ===== *)
theory Misc
  imports Prelude
begin

text \<open>
  Byte-level helpers of \<open>putty/misc.h\<close> and \<open>putty/misc.c\<close> and the string functions
  of the C library the program uses with them: big-endian 32-bit fields, \<open>toint\<close>,
  \<open>strcmp\<close> and \<open>memchr\<close>.
\<close>

unbundle bit_operations_syntax

section \<open>Big-endian 32-bit fields\<close>

definition PUT_32BIT_MSB_FIRST :: "32 word \<Rightarrow> byte list" where
  "PUT_32BIT_MSB_FIRST value =
     [ucast (drop_bit 24 value), ucast (drop_bit 16 value), ucast (drop_bit 8 value), ucast value]"

definition GET_32BIT_MSB_FIRST :: "byte list \<Rightarrow> 32 word" where
  "GET_32BIT_MSB_FIRST cp =
     push_bit 24 (ucast (cp ! 0)) OR push_bit 16 (ucast (cp ! 1)) OR
     push_bit 8 (ucast (cp ! 2)) OR ucast (cp ! 3)"

lemma length_PUT_32BIT [simp]: "length (PUT_32BIT_MSB_FIRST w) = 4"
  by (simp add: PUT_32BIT_MSB_FIRST_def)

lemma GET_PUT_32BIT [simp]: "GET_32BIT_MSB_FIRST (PUT_32BIT_MSB_FIRST w @ r) = w"
proof (rule bit_word_eqI)
  fix n assume n: "n < LENGTH(32)"
  then have "n < 8 \<or> 8 \<le> n \<and> n < 16 \<or> 16 \<le> n \<and> n < 24 \<or> 24 \<le> n" by linarith
  with n show "bit (GET_32BIT_MSB_FIRST (PUT_32BIT_MSB_FIRST w @ r)) n \<longleftrightarrow> bit w n"
    unfolding GET_32BIT_MSB_FIRST_def PUT_32BIT_MSB_FIRST_def
    by (elim disjE conjE) (auto simp: bit_or_iff bit_push_bit_iff bit_drop_bit_eq bit_ucast_iff)
qed

lemma drop_PUT_32BIT [simp]: "drop 4 (PUT_32BIT_MSB_FIRST w @ r) = r"
  by (simp add: PUT_32BIT_MSB_FIRST_def)

definition toint :: "32 word \<Rightarrow> int" where
  "toint u = (if uint u \<le> 2 ^ 31 - 1 then uint u
     else if uint u \<ge> 2 ^ 31 then - (2 ^ 31) + (uint u - 2 ^ 31) else - (2 ^ 31))"

lemma toint_sint: "toint u = sint u"
proof -
  have u: "0 \<le> uint u" "uint u < 2 ^ 32" using uint_lt2p [of u] by simp_all
  have "sint u = uint u - 2 ^ 32 * of_bool (odd (uint u div 2 ^ 31))"
    using u by (simp add: sint_uint signed_take_bit_eq_take_bit_minus bit_iff_odd take_bit_int_eq_self)
  moreover have "uint u div 2 ^ 31 = (if uint u < 2 ^ 31 then 0 else 1)"
    using u by auto
  ultimately show ?thesis by (auto simp: toint_def)
qed

section \<open>C strings\<close>

definition cstr_ok :: "cstring \<Rightarrow> bool" where
  "cstr_ok s \<longleftrightarrow> 0 \<notin> set s"

fun strcmp :: "cstring \<Rightarrow> cstring \<Rightarrow> int" where
  "strcmp [] [] = 0"
| "strcmp [] (b # t) = - 1"
| "strcmp (a # s) [] = 1"
| "strcmp (a # s) (b # t) = (if a < b then - 1 else if a > b then 1 else strcmp s t)"

lemma strcmp_refl [simp]: "strcmp s s = 0"
  by (induction s) auto

lemma strcmp_eq: "strcmp s t = 0 \<longleftrightarrow> s = t"
  by (induction s t rule: strcmp.induct) auto

lemma strcmp_swap: "strcmp s t = - strcmp t s"
  by (induction s t rule: strcmp.induct) auto

lemma strcmp_trans: "strcmp s t \<le> 0 \<Longrightarrow> strcmp t u \<le> 0 \<Longrightarrow> strcmp s u \<le> 0"
proof (induction s t arbitrary: u rule: strcmp.induct)
  case (1 u)
  then show ?case by (cases u) auto
next
  case (2 b t u)
  then show ?case by (cases u) auto
next
  case (3 b t u)
  then show ?case by (cases u) auto
next
  case (4 a s b t)
  then show ?case by (cases u) (auto split: if_splits)
qed

text \<open>
  \<open>memchr(data, 0, n)\<close> followed by \<open>dupstr\<close>: the string that starts a buffer and what
  follows its terminator, when there is one.
\<close>

definition split_nul :: "byte list \<Rightarrow> (cstring \<times> byte list) option" where
  "split_nul data =
     (case dropWhile (\<lambda>b. b \<noteq> 0) data of [] \<Rightarrow> None
      | z # rest \<Rightarrow> Some (takeWhile (\<lambda>b. b \<noteq> 0) data, rest))"

lemma split_nul_put [simp]:
  assumes "cstr_ok s"
  shows "split_nul (s @ 0 # rest) = Some (s, rest)"
proof -
  have *: "b \<noteq> 0" if "b \<in> set s" for b using assms that by (auto simp: cstr_ok_def)
  from * show ?thesis by (simp add: split_nul_def dropWhile_append2 takeWhile_append2)
qed

lemma split_nul_SomeD:
  assumes "split_nul data = Some (s, rest)"
  shows "data = s @ 0 # rest" and "cstr_ok s"
proof -
  from assms obtain z where d: "dropWhile (\<lambda>b. b \<noteq> 0) data = z # rest"
    and s: "s = takeWhile (\<lambda>b. b \<noteq> 0) data"
    by (auto simp: split_nul_def split: list.splits)
  from d have "z = 0" by (simp add: dropWhile_eq_Cons_conv)
  with d s show "data = s @ 0 # rest"
    using takeWhile_dropWhile_id [of "\<lambda>b. b \<noteq> 0" data] by simp
  show "cstr_ok s" unfolding s cstr_ok_def by (auto dest: set_takeWhileD)
qed

lemma split_nul_length: "split_nul data = Some (s, rest) \<Longrightarrow> length rest < length data"
  by (auto dest: split_nul_SomeD)

end
