(* ===== verification/Store.thy ===== *)
theory Store
  imports Tree234_Del_Facts
begin

text \<open>
  What the clients of the 2-3-4 tree rely on when they use it as a map: a collection kept
  in the order of a comparison function, with one element for each key
  (\<open>add234\<close>, \<open>del234\<close> and \<open>find234\<close> of \<open>putty/tree234.c\<close>).  The locale
  \<open>keyed_store\<close> states the contract and derives the map laws from it; every tree whose
  comparison function is an order provides it.
\<close>

section \<open>Lookup by key in a sorted list\<close>

definition lookup_key :: "('k \<Rightarrow> 'k \<Rightarrow> int) \<Rightarrow> ('e \<Rightarrow> 'k) \<Rightarrow> 'k \<Rightarrow> 'e list \<Rightarrow> 'e option" where
  "lookup_key kc key k xs = hit (\<lambda>x. kc k (key x)) xs"

lemma hit_iff:
  assumes "mono_key g xs"
  shows "hit g xs = Some x \<longleftrightarrow> x \<in> set xs \<and> g x = 0"
proof
  assume "hit g xs = Some x"
  then show "x \<in> set xs \<and> g x = 0" by (auto dest: hit_Some)
next
  assume x: "x \<in> set xs \<and> g x = 0"
  then obtain as bs where xs: "xs = as @ x # bs" by (auto simp: in_set_conv_decomp)
  with search_here(2) [of g as x bs] assms x show "hit g xs = Some x" by simp
qed

lemma hit_eqI:
  assumes "mono_key g xs" and "mono_key g' ys"
    and "\<And>x. x \<in> set xs \<and> g x = 0 \<longleftrightarrow> x \<in> set ys \<and> g' x = 0"
  shows "hit g xs = hit g' ys"
proof (rule option.expand)
  show "(hit g xs = None) = (hit g' ys = None)"
    using assms hit_iff [OF assms(1)] hit_iff [OF assms(2)] by (metis not_None_eq)
next
  assume "hit g xs \<noteq> None" "hit g' ys \<noteq> None"
  then show "the (hit g xs) = the (hit g' ys)"
    using assms hit_iff [OF assms(1)] hit_iff [OF assms(2)] by (metis option.collapse option.sel)
qed

lemma set_insert_nth [simp]: "set (insert_nth i x xs) = insert x (set xs)"
proof -
  have "set (take i xs @ drop i xs) = set xs" by (simp only: append_take_drop_id)
  moreover have "set (insert_nth i x xs) = insert x (set (take i xs @ drop i xs))"
    unfolding insert_nth_def by (simp only: set_append list.set Un_insert_right)
  ultimately show ?thesis by (simp only:)
qed

lemma set_remove_nth:
  assumes "i < length xs" and "distinct xs"
  shows "set (remove_nth i xs) = set xs - {xs ! i}"
proof -
  from assms(1) have xs: "xs = take i xs @ xs ! i # drop (Suc i) xs" by (rule id_take_nth_drop)
  with assms(2) have "distinct (take i xs @ xs ! i # drop (Suc i) xs)" by simp
  then have "set (remove_nth i xs) = set (take i xs @ xs ! i # drop (Suc i) xs) - {xs ! i}"
    by (auto simp: remove_nth_def)
  with xs show ?thesis by simp
qed

section \<open>The contract\<close>

lemma cmp_order_pullback: "cmp_order kc \<Longrightarrow> cmp_order (\<lambda>x y. kc (key x) (key y))"
  unfolding cmp_order_def by blast

lemma keyed_mono:
  assumes "cmp_order kc" and "sorted_by (\<lambda>x y. kc (key x) (key y)) xs"
  shows "mono_key (\<lambda>x. kc k (key x)) xs"
  using assms(2) unfolding sorted_by_def mono_key_def
  by (rule sorted_wrt_mono_rel [rotated]) (auto intro: cmp_order.cmp_less_trans [OF assms(1)])

locale keyed_store = cmp_order kc for kc :: "'k \<Rightarrow> 'k \<Rightarrow> int" +
  fixes key :: "'e \<Rightarrow> 'k"
    and inv :: "'s \<Rightarrow> bool"
    and contents :: "'s \<Rightarrow> 'e list"
    and add :: "'s \<Rightarrow> 'e \<Rightarrow> 'e add_ret \<times> 's"
    and del :: "'s \<Rightarrow> 'e \<Rightarrow> ('e option \<times> 's) option"
    and search :: "'s \<Rightarrow> 'k \<Rightarrow> 'e option option"
  assumes inv_sorted: "inv s \<Longrightarrow> sorted_by (\<lambda>x y. kc (key x) (key y)) (contents s)"
    and add_new: "inv s \<Longrightarrow> hit (\<lambda>x. kc (key e) (key x)) (contents s) = None \<Longrightarrow>
      \<exists>s'. add s e = (Added, s') \<and> inv s' \<and> contents s'
        = insert_nth (rank (\<lambda>x. kc (key e) (key x)) (contents s)) e (contents s)"
    and add_dup: "inv s \<Longrightarrow> hit (\<lambda>x. kc (key e) (key x)) (contents s) = Some x \<Longrightarrow>
      add s e = (Already x, s)"
    and del_hit: "inv s \<Longrightarrow> hit (\<lambda>x. kc (key e) (key x)) (contents s) = Some x \<Longrightarrow>
      \<exists>s'. del s e = Some (Some x, s') \<and> inv s' \<and> contents s'
        = remove_nth (rank (\<lambda>x. kc (key e) (key x)) (contents s)) (contents s)"
    and search_law: "inv s \<Longrightarrow> search s k = Some (hit (\<lambda>x. kc k (key x)) (contents s))"
begin

sublocale elem: cmp_order "\<lambda>x y. kc (key x) (key y)"
  by (rule cmp_order_pullback) (rule cmp_order_axioms)

lemma mono_lookup: "inv s \<Longrightarrow> mono_key (\<lambda>x. kc k (key x)) (contents s)"
  by (rule keyed_mono [OF cmp_order_axioms]) (rule inv_sorted)

lemma distinct_contents:
  assumes "inv s"
  shows "distinct (contents s)"
  using inv_sorted [OF assms]
  by (auto simp: sorted_by_def sorted_wrt_iff_nth_less distinct_conv_nth)
    (metis elem.cmp_refl less_irrefl linorder_neqE_nat)

lemma lookup_iff:
  "inv s \<Longrightarrow> lookup_key kc key k (contents s) = Some x \<longleftrightarrow> x \<in> set (contents s) \<and> kc k (key x) = 0"
  unfolding lookup_key_def by (intro hit_iff mono_lookup)

lemma lookup_member: "inv s \<Longrightarrow> x \<in> set (contents s) \<Longrightarrow> lookup_key kc key (key x) (contents s) = Some x"
  by (simp add: lookup_iff)

lemma lookup_cong:
  assumes "inv s" and "kc k k' = 0"
  shows "lookup_key kc key k (contents s) = lookup_key kc key k' (contents s)"
  unfolding lookup_key_def using assms(1)
  by (intro hit_eqI mono_lookup) (simp_all add: cmp_eq_subst [OF assms(2)])

text \<open>An addition under a new key, a deletion, and their effect on every lookup.\<close>

lemma lookup_insert:
  assumes "inv s" "inv s'" "contents s' = insert_nth i e (contents s)"
    and "lookup_key kc key (key e) (contents s) = None"
  shows "lookup_key kc key k (contents s')
    = (if kc k (key e) = 0 then Some e else lookup_key kc key k (contents s))"
proof (cases "kc k (key e) = 0")
  case True
  with lookup_iff [OF assms(2), of k e] assms(3) show ?thesis by simp
next
  case False
  have "hit (\<lambda>x. kc k (key x)) (contents s') = hit (\<lambda>x. kc k (key x)) (contents s)"
    using False assms(3) by (intro hit_eqI mono_lookup assms) auto
  with False show ?thesis by (simp add: lookup_key_def)
qed

lemma lookup_remove:
  assumes "inv s" "inv s'" "contents s' = remove_nth (rank (\<lambda>x. kc (key e) (key x)) (contents s)) (contents s)"
    and "lookup_key kc key (key e) (contents s) = Some x"
  shows "lookup_key kc key k (contents s')
    = (if kc k (key e) = 0 then None else lookup_key kc key k (contents s))"
proof -
  from hit_at_rank [OF mono_lookup [OF assms(1)] assms(4) [unfolded lookup_key_def]]
  have set: "set (contents s') = set (contents s) - {x}"
    unfolding assms(3) using set_remove_nth distinct_contents [OF assms(1)] by metis
  from assms(4) lookup_iff [OF assms(1)] have x: "x \<in> set (contents s)" "kc (key e) (key x) = 0"
    by auto
  show ?thesis
  proof (cases "kc k (key e) = 0")
    case True
    have "lookup_key kc key k (contents s') = None"
    proof (rule ccontr)
      assume "\<not> ?thesis"
      then obtain y where y: "y \<in> set (contents s)" "y \<noteq> x" "kc k (key y) = 0"
        using lookup_iff [OF assms(2)] set by fastforce
      with cmp_eq_subst [OF True, of "key y"] have "kc (key e) (key y) = 0" by simp
      with y lookup_iff [OF assms(1), of "key e" y] assms(4) show False by simp
    qed
    with True show ?thesis by simp
  next
    case False
    have "kc k (key x) \<noteq> 0"
      using False x(2) cmp_eq_sym cmp_eq_subst by metis
    then have "hit (\<lambda>x. kc k (key x)) (contents s') = hit (\<lambda>x. kc k (key x)) (contents s)"
      using set by (intro hit_eqI mono_lookup assms) auto
    with False show ?thesis by (simp add: lookup_key_def)
  qed
qed

text \<open>
  The way a client replaces an element: add it; when the key was taken, delete the old
  element and add again.
\<close>

lemma replace:
  assumes "inv s"
  shows "\<exists>s'. inv s' \<and>
     (\<forall>k. lookup_key kc key k (contents s')
        = (if kc k (key e) = 0 then Some e else lookup_key kc key k (contents s))) \<and>
     (add s e = (Added, s') \<or>
      (\<exists>old s1. add s e = (Already old, s) \<and> del s old = Some (Some old, s1) \<and> add s1 e = (Added, s')))"
proof (cases "lookup_key kc key (key e) (contents s)")
  case None
  with add_new [OF assms, of e] lookup_insert [OF assms] show ?thesis
    unfolding lookup_key_def by metis
next
  case (Some old)
  with lookup_iff [OF assms] have o: "old \<in> set (contents s)" "kc (key e) (key old) = 0" by auto
  have a: "add s e = (Already old, s)"
    using add_dup [OF assms] Some by (simp add: lookup_key_def)
  from lookup_member [OF assms o(1)] have lo: "lookup_key kc key (key old) (contents s) = Some old" .
  with del_hit [OF assms, of old] obtain s1 where d: "del s old = Some (Some old, s1)" "inv s1"
    "contents s1 = remove_nth (rank (\<lambda>x. kc (key old) (key x)) (contents s)) (contents s)"
    by (auto simp: lookup_key_def)
  have l1: "lookup_key kc key k (contents s1)
      = (if kc k (key old) = 0 then None else lookup_key kc key k (contents s))" for k
    by (rule lookup_remove [OF assms d(2,3) lo])
  with o(2) have n1: "lookup_key kc key (key e) (contents s1) = None" by simp
  with add_new [OF d(2), of e] obtain s2 where s2: "add s1 e = (Added, s2)" "inv s2"
    "contents s2 = insert_nth (rank (\<lambda>x. kc (key e) (key x)) (contents s1)) e (contents s1)"
    by (auto simp: lookup_key_def)
  have eq: "kc k (key e) = 0 \<longleftrightarrow> kc k (key old) = 0" for k
    using o(2) cmp_eq_sym cmp_eq_subst by metis
  have "lookup_key kc key k (contents s2)
      = (if kc k (key e) = 0 then Some e else lookup_key kc key k (contents s))" for k
    using lookup_insert [OF d(2) s2(2,3) n1, of k] l1 [of k] eq [of k] by simp
  with a d(1) s2 show ?thesis by blast
qed

lemma delete:
  assumes "inv s" and "lookup_key kc key k (contents s) = Some x"
  shows "\<exists>s'. del s x = Some (Some x, s') \<and> inv s' \<and>
     (\<forall>k'. lookup_key kc key k' (contents s')
        = (if kc k' k = 0 then None else lookup_key kc key k' (contents s)))"
proof -
  from assms lookup_iff have x: "x \<in> set (contents s)" "kc k (key x) = 0" by auto
  from lookup_member [OF assms(1) x(1)] have lx: "lookup_key kc key (key x) (contents s) = Some x" .
  with del_hit [OF assms(1), of x] obtain s1 where d: "del s x = Some (Some x, s1)" "inv s1"
    "contents s1 = remove_nth (rank (\<lambda>y. kc (key x) (key y)) (contents s)) (contents s)"
    by (auto simp: lookup_key_def)
  have "kc k' (key x) = 0 \<longleftrightarrow> kc k' k = 0" for k'
    using x(2) cmp_eq_sym cmp_eq_subst by metis
  with d lookup_remove [OF assms(1) d(2,3) lx] show ?thesis by simp
qed

text \<open>Two stores with the same lookups have the same contents.\<close>

lemma same_lookup_same_set:
  assumes "inv s" and "inv s'" and "\<And>k. lookup_key kc key k (contents s) = lookup_key kc key k (contents s')"
  shows "set (contents s) = set (contents s')"
  using assms lookup_iff lookup_member by (metis subsetI subset_antisym)

end

section \<open>Trees provide the contract\<close>

definition tree_ok :: "('k \<Rightarrow> 'k \<Rightarrow> int) \<Rightarrow> ('e \<Rightarrow> 'k) \<Rightarrow> 'e tree234 \<Rightarrow> bool" where
  "tree_ok kc key t \<longleftrightarrow> wf234 t \<and> cmp t = Some (\<lambda>x y. kc (key x) (key y))
     \<and> sorted_by (\<lambda>x y. kc (key x) (key y)) (elements t)"

lemma tree_ok_new: "tree_ok kc key (newtree234 (Some (\<lambda>x y. kc (key x) (key y))))"
  by (auto simp: tree_ok_def newtree234_def wf234_def sorted_by_def intro: exI [of _ 0])

lemma tree_ok_mono:
  assumes "cmp_order kc" and "tree_ok kc key t"
  shows "mono_key (\<lambda>x. kc k (key x)) (elements t)"
  using assms by (intro keyed_mono) (simp_all add: tree_ok_def)

lemma tree_add_new:
  assumes "cmp_order kc" and "tree_ok kc key t" and "hit (\<lambda>x. kc (key e) (key x)) (elements t) = None"
  shows "\<exists>t'. add234 t e = (Added, t') \<and> tree_ok kc key t' \<and> elements t'
    = insert_nth (rank (\<lambda>x. kc (key e) (key x)) (elements t)) e (elements t)"
proof -
  from assms(2) have t: "wf234 t" "cmp t = Some (\<lambda>x y. kc (key x) (key y))"
    and s: "sorted_by (\<lambda>x y. kc (key x) (key y)) (elements t)"
    by (simp_all add: tree_ok_def)
  from add234_spec [where e = e, OF t tree_ok_mono [OF assms(1,2), of "key e"]] assms(3) obtain t' where t':
    "add234 t e = (Added, t')" "wf234 t'" "cmp t' = cmp t"
    "elements t' = insert_nth (rank (\<lambda>x. kc (key e) (key x)) (elements t)) e (elements t)"
    by auto
  moreover have "sorted_by (\<lambda>x y. kc (key x) (key y)) (elements t')"
    unfolding t'(4)
    by (rule cmp_order.insert_sorted_by [OF cmp_order_pullback [OF assms(1)] s assms(3)])
  ultimately show ?thesis using t by (simp add: tree_ok_def)
qed

lemma tree_del_hit:
  assumes "cmp_order kc" and "tree_ok kc key t" and "hit (\<lambda>x. kc (key e) (key x)) (elements t) = Some x"
  shows "\<exists>t'. del234 t e = Some (Some x, t') \<and> tree_ok kc key t' \<and> elements t'
    = remove_nth (rank (\<lambda>x. kc (key e) (key x)) (elements t)) (elements t)"
proof -
  from assms(2) have t: "wf234 t" "cmp t = Some (\<lambda>x y. kc (key x) (key y))"
    and s: "sorted_by (\<lambda>x y. kc (key x) (key y)) (elements t)"
    by (simp_all add: tree_ok_def)
  from del234_spec [where e = e, OF t tree_ok_mono [OF assms(1,2), of "key e"]] assms(3) obtain t' where
    "del234 t e = Some (Some x, t')" "wf234 t'" "cmp t' = cmp t"
    "elements t' = remove_nth (rank (\<lambda>x. kc (key e) (key x)) (elements t)) (elements t)"
    by auto
  with t remove_sorted_by [OF s] show ?thesis by (simp add: tree_ok_def)
qed

lemma tree_keyed_store:
  assumes "cmp_order kc"
  shows "keyed_store kc key (tree_ok kc key) (\<lambda>t. elements t) add234 del234
    (\<lambda>t k. find234 t (Some k) (\<lambda>k x. kc k (key x)))"
proof (intro keyed_store.intro keyed_store_axioms.intro assms)
  fix t :: "'b tree234" and e x k
  assume t: "tree_ok kc key t"
  then show "sorted_by (\<lambda>x y. kc (key x) (key y)) (elements t)" by (simp add: tree_ok_def)
  show "find234 t (Some k) (\<lambda>k x. kc k (key x)) = Some (hit (\<lambda>x. kc k (key x)) (elements t))"
    using findrelpos234_spec [of t "\<lambda>k x. kc k (key x)" "Some k" REL234_EQ, OF _ _ tree_ok_mono [OF assms t]] t
    by (simp add: find234_def rel_spec_def tree_ok_def option.map_comp comp_def option.map_ident)
  show "add234 t e = (Already x, t)" if "hit (\<lambda>x. kc (key e) (key x)) (elements t) = Some x"
    using add234_spec [of t "\<lambda>x y. kc (key x) (key y)" e, OF _ _ tree_ok_mono [OF assms t, of "key e"]] t that by (simp add: tree_ok_def)
qed (fact tree_add_new [OF assms] tree_del_hit [OF assms])+

end
