(* ===== verification/Conf.thy ===== *)
theory Conf
  imports Misc Store
begin

text \<open>
  The configuration store of \<open>putty/conf.c\<close>, with the option table of
  \<open>putty/putty.h\<close> and the serialised forms of \<open>Filename\<close> and \<open>FontSpec\<close> of
  \<open>putty/windows/winmisc.c\<close>.

  A C union of which no member has been written is \<open>NoSub\<close> or \<open>NoVal\<close>.  Copies made
  with \<open>dupstr\<close>, and \<open>free_key\<close>, \<open>free_value\<close> and \<open>free_entry\<close>, only manage memory:
  values are copied, never shared.  An operation whose \<open>assert\<close> fails, or that reads
  through a \<open>NULL\<close> pointer, returns \<open>None\<close>.
\<close>

section \<open>The option table\<close>

datatype Type = TYPE_NONE | TYPE_INT | TYPE_STR | TYPE_FILENAME | TYPE_FONT

definition CONFIG_OPTIONS :: "(Type \<times> Type \<times> string) list" where
  "CONFIG_OPTIONS = [
     (TYPE_STR, TYPE_NONE, ''host''),
     (TYPE_INT, TYPE_NONE, ''port''),
     (TYPE_INT, TYPE_NONE, ''protocol''),
     (TYPE_INT, TYPE_NONE, ''addressfamily''),
     (TYPE_INT, TYPE_NONE, ''close_on_exit''),
     (TYPE_INT, TYPE_NONE, ''warn_on_close''),
     (TYPE_INT, TYPE_NONE, ''ping_interval''),
     (TYPE_INT, TYPE_NONE, ''tcp_nodelay''),
     (TYPE_INT, TYPE_NONE, ''tcp_keepalives''),
     (TYPE_STR, TYPE_NONE, ''loghost''),
     (TYPE_STR, TYPE_NONE, ''proxy_exclude_list''),
     (TYPE_INT, TYPE_NONE, ''proxy_dns''),
     (TYPE_INT, TYPE_NONE, ''even_proxy_localhost''),
     (TYPE_INT, TYPE_NONE, ''proxy_type''),
     (TYPE_STR, TYPE_NONE, ''proxy_host''),
     (TYPE_INT, TYPE_NONE, ''proxy_port''),
     (TYPE_STR, TYPE_NONE, ''proxy_username''),
     (TYPE_STR, TYPE_NONE, ''proxy_password''),
     (TYPE_STR, TYPE_NONE, ''proxy_telnet_command''),
     (TYPE_STR, TYPE_NONE, ''remote_cmd''),
     (TYPE_STR, TYPE_NONE, ''remote_cmd2''),
     (TYPE_INT, TYPE_NONE, ''nopty''),
     (TYPE_INT, TYPE_NONE, ''compression''),
     (TYPE_INT, TYPE_INT, ''ssh_kexlist''),
     (TYPE_INT, TYPE_NONE, ''ssh_rekey_time''),
     (TYPE_STR, TYPE_NONE, ''ssh_rekey_data''),
     (TYPE_INT, TYPE_NONE, ''tryagent''),
     (TYPE_INT, TYPE_NONE, ''agentfwd''),
     (TYPE_INT, TYPE_NONE, ''change_username''),
     (TYPE_INT, TYPE_INT, ''ssh_cipherlist''),
     (TYPE_FILENAME, TYPE_NONE, ''keyfile''),
     (TYPE_INT, TYPE_NONE, ''sshprot''),
     (TYPE_INT, TYPE_NONE, ''ssh2_des_cbc''),
     (TYPE_INT, TYPE_NONE, ''ssh_no_userauth''),
     (TYPE_INT, TYPE_NONE, ''ssh_show_banner''),
     (TYPE_INT, TYPE_NONE, ''try_tis_auth''),
     (TYPE_INT, TYPE_NONE, ''try_ki_auth''),
     (TYPE_INT, TYPE_NONE, ''try_gssapi_auth''),
     (TYPE_INT, TYPE_NONE, ''gssapifwd''),
     (TYPE_INT, TYPE_INT, ''ssh_gsslist''),
     (TYPE_FILENAME, TYPE_NONE, ''ssh_gss_custom''),
     (TYPE_INT, TYPE_NONE, ''ssh_subsys''),
     (TYPE_INT, TYPE_NONE, ''ssh_subsys2''),
     (TYPE_INT, TYPE_NONE, ''ssh_no_shell''),
     (TYPE_STR, TYPE_NONE, ''ssh_nc_host''),
     (TYPE_INT, TYPE_NONE, ''ssh_nc_port''),
     (TYPE_STR, TYPE_NONE, ''termtype''),
     (TYPE_STR, TYPE_NONE, ''termspeed''),
     (TYPE_STR, TYPE_STR, ''ttymodes''),
     (TYPE_STR, TYPE_STR, ''environmt''),
     (TYPE_STR, TYPE_NONE, ''username''),
     (TYPE_STR, TYPE_NONE, ''password''),
     (TYPE_INT, TYPE_NONE, ''username_from_env''),
     (TYPE_STR, TYPE_NONE, ''localusername''),
     (TYPE_INT, TYPE_NONE, ''rfc_environ''),
     (TYPE_INT, TYPE_NONE, ''passive_telnet''),
     (TYPE_STR, TYPE_NONE, ''serline''),
     (TYPE_INT, TYPE_NONE, ''serspeed''),
     (TYPE_INT, TYPE_NONE, ''serdatabits''),
     (TYPE_INT, TYPE_NONE, ''serstopbits''),
     (TYPE_INT, TYPE_NONE, ''serparity''),
     (TYPE_INT, TYPE_NONE, ''serflow''),
     (TYPE_INT, TYPE_NONE, ''bksp_is_delete''),
     (TYPE_INT, TYPE_NONE, ''rxvt_homeend''),
     (TYPE_INT, TYPE_NONE, ''funky_type''),
     (TYPE_INT, TYPE_NONE, ''no_applic_c''),
     (TYPE_INT, TYPE_NONE, ''no_applic_k''),
     (TYPE_INT, TYPE_NONE, ''no_mouse_rep''),
     (TYPE_INT, TYPE_NONE, ''no_remote_resize''),
     (TYPE_INT, TYPE_NONE, ''no_alt_screen''),
     (TYPE_INT, TYPE_NONE, ''no_remote_wintitle''),
     (TYPE_INT, TYPE_NONE, ''no_dbackspace''),
     (TYPE_INT, TYPE_NONE, ''no_remote_charset''),
     (TYPE_INT, TYPE_NONE, ''remote_qtitle_action''),
     (TYPE_INT, TYPE_NONE, ''app_cursor''),
     (TYPE_INT, TYPE_NONE, ''app_keypad''),
     (TYPE_INT, TYPE_NONE, ''nethack_keypad''),
     (TYPE_INT, TYPE_NONE, ''telnet_keyboard''),
     (TYPE_INT, TYPE_NONE, ''telnet_newline''),
     (TYPE_INT, TYPE_NONE, ''alt_f4''),
     (TYPE_INT, TYPE_NONE, ''alt_space''),
     (TYPE_INT, TYPE_NONE, ''alt_only''),
     (TYPE_INT, TYPE_NONE, ''localecho''),
     (TYPE_INT, TYPE_NONE, ''localedit''),
     (TYPE_INT, TYPE_NONE, ''alwaysontop''),
     (TYPE_INT, TYPE_NONE, ''fullscreenonaltenter''),
     (TYPE_INT, TYPE_NONE, ''scroll_on_key''),
     (TYPE_INT, TYPE_NONE, ''scroll_on_disp''),
     (TYPE_INT, TYPE_NONE, ''erase_to_scrollback''),
     (TYPE_INT, TYPE_NONE, ''compose_key''),
     (TYPE_INT, TYPE_NONE, ''ctrlaltkeys''),
     (TYPE_INT, TYPE_NONE, ''osx_option_meta''),
     (TYPE_INT, TYPE_NONE, ''osx_command_meta''),
     (TYPE_STR, TYPE_NONE, ''wintitle''),
     (TYPE_INT, TYPE_NONE, ''savelines''),
     (TYPE_INT, TYPE_NONE, ''dec_om''),
     (TYPE_INT, TYPE_NONE, ''wrap_mode''),
     (TYPE_INT, TYPE_NONE, ''lfhascr''),
     (TYPE_INT, TYPE_NONE, ''cursor_type''),
     (TYPE_INT, TYPE_NONE, ''blink_cur''),
     (TYPE_INT, TYPE_NONE, ''beep''),
     (TYPE_INT, TYPE_NONE, ''beep_ind''),
     (TYPE_INT, TYPE_NONE, ''bellovl''),
     (TYPE_INT, TYPE_NONE, ''bellovl_n''),
     (TYPE_INT, TYPE_NONE, ''bellovl_t''),
     (TYPE_INT, TYPE_NONE, ''bellovl_s''),
     (TYPE_FILENAME, TYPE_NONE, ''bell_wavefile''),
     (TYPE_INT, TYPE_NONE, ''scrollbar''),
     (TYPE_INT, TYPE_NONE, ''scrollbar_in_fullscreen''),
     (TYPE_INT, TYPE_NONE, ''resize_action''),
     (TYPE_INT, TYPE_NONE, ''bce''),
     (TYPE_INT, TYPE_NONE, ''blinktext''),
     (TYPE_INT, TYPE_NONE, ''win_name_always''),
     (TYPE_INT, TYPE_NONE, ''width''),
     (TYPE_INT, TYPE_NONE, ''height''),
     (TYPE_FONT, TYPE_NONE, ''font''),
     (TYPE_INT, TYPE_NONE, ''font_quality''),
     (TYPE_FILENAME, TYPE_NONE, ''logfilename''),
     (TYPE_INT, TYPE_NONE, ''logtype''),
     (TYPE_INT, TYPE_NONE, ''logxfovr''),
     (TYPE_INT, TYPE_NONE, ''logflush''),
     (TYPE_INT, TYPE_NONE, ''logomitpass''),
     (TYPE_INT, TYPE_NONE, ''logomitdata''),
     (TYPE_INT, TYPE_NONE, ''hide_mouseptr''),
     (TYPE_INT, TYPE_NONE, ''sunken_edge''),
     (TYPE_INT, TYPE_NONE, ''window_border''),
     (TYPE_STR, TYPE_NONE, ''answerback''),
     (TYPE_STR, TYPE_NONE, ''printer''),
     (TYPE_INT, TYPE_NONE, ''arabicshaping''),
     (TYPE_INT, TYPE_NONE, ''bidi''),
     (TYPE_INT, TYPE_NONE, ''ansi_colour''),
     (TYPE_INT, TYPE_NONE, ''xterm_256_colour''),
     (TYPE_INT, TYPE_NONE, ''system_colour''),
     (TYPE_INT, TYPE_NONE, ''try_palette''),
     (TYPE_INT, TYPE_NONE, ''bold_style''),
     (TYPE_INT, TYPE_INT, ''colours''),
     (TYPE_INT, TYPE_NONE, ''mouse_is_xterm''),
     (TYPE_INT, TYPE_NONE, ''rect_select''),
     (TYPE_INT, TYPE_NONE, ''rawcnp''),
     (TYPE_INT, TYPE_NONE, ''rtf_paste''),
     (TYPE_INT, TYPE_NONE, ''mouse_override''),
     (TYPE_INT, TYPE_INT, ''wordness''),
     (TYPE_INT, TYPE_NONE, ''vtmode''),
     (TYPE_STR, TYPE_NONE, ''line_codepage''),
     (TYPE_INT, TYPE_NONE, ''cjk_ambig_wide''),
     (TYPE_INT, TYPE_NONE, ''utf8_override''),
     (TYPE_INT, TYPE_NONE, ''xlat_capslockcyr''),
     (TYPE_INT, TYPE_NONE, ''x11_forward''),
     (TYPE_STR, TYPE_NONE, ''x11_display''),
     (TYPE_INT, TYPE_NONE, ''x11_auth''),
     (TYPE_FILENAME, TYPE_NONE, ''xauthfile''),
     (TYPE_INT, TYPE_NONE, ''lport_acceptall''),
     (TYPE_INT, TYPE_NONE, ''rport_acceptall''),
     (TYPE_STR, TYPE_STR, ''portfwd''),
     (TYPE_INT, TYPE_NONE, ''sshbug_ignore1''),
     (TYPE_INT, TYPE_NONE, ''sshbug_plainpw1''),
     (TYPE_INT, TYPE_NONE, ''sshbug_rsa1''),
     (TYPE_INT, TYPE_NONE, ''sshbug_hmac2''),
     (TYPE_INT, TYPE_NONE, ''sshbug_derivekey2''),
     (TYPE_INT, TYPE_NONE, ''sshbug_rsapad2''),
     (TYPE_INT, TYPE_NONE, ''sshbug_pksessid2''),
     (TYPE_INT, TYPE_NONE, ''sshbug_rekey2''),
     (TYPE_INT, TYPE_NONE, ''sshbug_maxpkt2''),
     (TYPE_INT, TYPE_NONE, ''sshbug_ignore2''),
     (TYPE_INT, TYPE_NONE, ''sshbug_oldgex2''),
     (TYPE_INT, TYPE_NONE, ''sshbug_winadj''),
     (TYPE_INT, TYPE_NONE, ''sshbug_chanreq''),
     (TYPE_INT, TYPE_NONE, ''ssh_simple''),
     (TYPE_INT, TYPE_NONE, ''ssh_connection_sharing''),
     (TYPE_INT, TYPE_NONE, ''ssh_connection_sharing_upstream''),
     (TYPE_INT, TYPE_NONE, ''ssh_connection_sharing_downstream''),
     (TYPE_STR, TYPE_STR, ''ssh_manual_hostkeys''),
     (TYPE_INT, TYPE_NONE, ''stamp_utmp''),
     (TYPE_INT, TYPE_NONE, ''login_shell''),
     (TYPE_INT, TYPE_NONE, ''scrollbar_on_left''),
     (TYPE_INT, TYPE_NONE, ''shadowbold''),
     (TYPE_FONT, TYPE_NONE, ''boldfont''),
     (TYPE_FONT, TYPE_NONE, ''widefont''),
     (TYPE_FONT, TYPE_NONE, ''wideboldfont''),
     (TYPE_INT, TYPE_NONE, ''shadowboldoffset''),
     (TYPE_INT, TYPE_NONE, ''crhaslf''),
     (TYPE_STR, TYPE_NONE, ''winclass''),
     (TYPE_INT, TYPE_NONE, ''autocmd_last_lineno''),
     (TYPE_INT, TYPE_NONE, ''autocmd_index''),
     (TYPE_INT, TYPE_NONE, ''autocmd_try''),
     (TYPE_STR, TYPE_NONE, ''session_name''),
     (TYPE_INT, TYPE_INT, ''autocmd_enable''),
     (TYPE_INT, TYPE_INT, ''autocmd_hide''),
     (TYPE_STR, TYPE_INT, ''expect''),
     (TYPE_STR, TYPE_INT, ''autocmd''),
     (TYPE_INT, TYPE_INT, ''autocmd_encrypted''),
     (TYPE_INT, TYPE_NONE, ''no_remote_tabname''),
     (TYPE_INT, TYPE_NONE, ''no_remote_tabname_in_icon''),
     (TYPE_STR, TYPE_NONE, ''default_log_path''),
     (TYPE_INT, TYPE_NONE, ''is_enable_shortcut''),
     (TYPE_INT, TYPE_NONE, ''scrolllines''),
     (TYPE_INT, TYPE_NONE, ''paste_delay''),
     (TYPE_INT, TYPE_NONE, ''data_version''),
     (TYPE_INT, TYPE_NONE, ''group_collapse''),
     (TYPE_INT, TYPE_NONE, ''auto_reconnect''),
     (TYPE_STR, TYPE_NONE, ''adb_con_str''),
     (TYPE_STR, TYPE_NONE, ''adb_cmd_str''),
     (TYPE_INT, TYPE_NONE, ''adb_dev_scan_interval''),
     (TYPE_INT, TYPE_NONE, ''adb_compel_crlf'')]"

definition N_CONFIG_OPTIONS :: nat where
  "N_CONFIG_OPTIONS = length CONFIG_OPTIONS"

text \<open>The enumeration constant \<open>CONF_\<close>\<open>name\<close>: the position of the name in the table.\<close>

definition CONF :: "string \<Rightarrow> nat" where
  "CONF name = length (takeWhile (\<lambda>(v, k, n). n \<noteq> name) CONFIG_OPTIONS)"

definition subkeytypes :: "nat \<Rightarrow> Type" where
  "subkeytypes p =
     (if p < N_CONFIG_OPTIONS then (case CONFIG_OPTIONS ! p of (v, k, n) \<Rightarrow> k) else TYPE_NONE)"

definition valuetypes :: "nat \<Rightarrow> Type" where
  "valuetypes p =
     (if p < N_CONFIG_OPTIONS then (case CONFIG_OPTIONS ! p of (v, k, n) \<Rightarrow> v) else TYPE_NONE)"

section \<open>Keys, values and entries\<close>

record FontSpec =
  fname :: cstring
  isbold :: "32 word"
  height :: "32 word"
  charset :: "32 word"

datatype secondary = NoSub | SubInt "32 word" | SubStr cstring

record conf_key =
  primary :: nat
  secondary :: secondary

datatype conf_value =
    NoVal
  | IntVal "32 word"
  | StrVal cstring
  | FileVal cstring
  | FontVal FontSpec

record conf_entry =
  ekey :: conf_key
  evalue :: conf_value

record conf =
  tree :: "conf_entry tree234"

fun sec_i :: "secondary \<Rightarrow> 32 word" where
  "sec_i (SubInt i) = i"
| "sec_i _ = 0"

fun sec_s :: "secondary \<Rightarrow> cstring" where
  "sec_s (SubStr s) = s"
| "sec_s _ = []"

fun intval :: "conf_value \<Rightarrow> 32 word" where
  "intval (IntVal i) = i"
| "intval _ = 0"

fun stringval :: "conf_value \<Rightarrow> cstring" where
  "stringval (StrVal s) = s"
| "stringval _ = []"

fun fileval :: "conf_value \<Rightarrow> cstring" where
  "fileval (FileVal f) = f"
| "fileval _ = []"

fun fontval :: "conf_value \<Rightarrow> FontSpec" where
  "fontval (FontVal f) = f"
| "fontval _ = \<lparr>fname = [], isbold = 0, height = 0, charset = 0\<rparr>"

definition conf_cmp :: "conf_key \<Rightarrow> conf_key \<Rightarrow> int" where
  "conf_cmp a b =
     (if primary a < primary b then - 1
      else if primary a > primary b then 1
      else case subkeytypes (primary a) of
          TYPE_INT \<Rightarrow>
            (if sint (sec_i (secondary a)) < sint (sec_i (secondary b)) then - 1
             else if sint (sec_i (secondary a)) > sint (sec_i (secondary b)) then 1
             else 0)
        | TYPE_STR \<Rightarrow> strcmp (sec_s (secondary a)) (sec_s (secondary b))
        | _ \<Rightarrow> 0)"

text \<open>
  \<open>struct constkey\<close> differs from \<open>struct key\<close> in a \<open>const\<close> only, and the two
  comparison functions have the same body.
\<close>

definition conf_cmp_constkey :: "conf_key \<Rightarrow> conf_key \<Rightarrow> int" where
  "conf_cmp_constkey a b =
     (if primary a < primary b then - 1
      else if primary a > primary b then 1
      else case subkeytypes (primary a) of
          TYPE_INT \<Rightarrow>
            (if sint (sec_i (secondary a)) < sint (sec_i (secondary b)) then - 1
             else if sint (sec_i (secondary a)) > sint (sec_i (secondary b)) then 1
             else 0)
        | TYPE_STR \<Rightarrow> strcmp (sec_s (secondary a)) (sec_s (secondary b))
        | _ \<Rightarrow> 0)"

definition copy_key :: "conf_key \<Rightarrow> conf_key" where
  "copy_key src =
     \<lparr>primary = primary src,
      secondary =
        (case subkeytypes (primary src) of
           TYPE_INT \<Rightarrow> SubInt (sec_i (secondary src))
         | TYPE_STR \<Rightarrow> SubStr (sec_s (secondary src))
         | _ \<Rightarrow> NoSub)\<rparr>"

definition copy_value :: "Type \<Rightarrow> conf_value \<Rightarrow> conf_value" where
  "copy_value type src =
     (case type of
        TYPE_INT \<Rightarrow> IntVal (intval src)
      | TYPE_STR \<Rightarrow> StrVal (stringval src)
      | TYPE_FILENAME \<Rightarrow> FileVal (fileval src)
      | TYPE_FONT \<Rightarrow> FontVal (fontval src)
      | TYPE_NONE \<Rightarrow> NoVal)"

section \<open>Creation, insertion and copying\<close>

definition conf_new :: conf where
  "conf_new = \<lparr>tree = newtree234 (Some (\<lambda>x y. conf_cmp (ekey x) (ekey y)))\<rparr>"

text \<open>The loop of \<open>conf_clear\<close>: delete position 0 until nothing comes back.\<close>

partial_function (option) clear_loop :: "conf_entry tree234 \<Rightarrow> conf_entry tree234 option" where
  "clear_loop t =
     (case delpos234 t 0 of
        None \<Rightarrow> None
      | Some (None, t') \<Rightarrow> Some t'
      | Some (Some entry, t') \<Rightarrow> clear_loop t')"

definition conf_clear :: "conf \<Rightarrow> conf option" where
  "conf_clear c = map_option (\<lambda>t. c\<lparr>tree := t\<rparr>) (clear_loop (tree c))"

definition conf_insert :: "conf \<Rightarrow> conf_entry \<Rightarrow> conf option" where
  "conf_insert c entry =
     (case add234 (tree c) entry of
        (Added, t) \<Rightarrow> Some (c\<lparr>tree := t\<rparr>)
      | (AddNull, t) \<Rightarrow> Some (c\<lparr>tree := t\<rparr>)
      | (AddCrash, t) \<Rightarrow> None
      | (Already oldentry, t) \<Rightarrow>
          (case del234 t oldentry of
             None \<Rightarrow> None
           | Some (_, t') \<Rightarrow>
               (case add234 t' entry of
                  (Added, t'') \<Rightarrow> Some (c\<lparr>tree := t''\<rparr>)
                | _ \<Rightarrow> None)))"

lemma index234_bound: "index234 t i = Some x \<Longrightarrow> 0 \<le> i \<and> i < countnode234 (root t)"
  by (auto simp: index234_def split: if_splits)

function copy_loop :: "conf_entry tree234 \<Rightarrow> int \<Rightarrow> conf_entry tree234 \<Rightarrow> conf_entry tree234 option" where
  "copy_loop old i new =
     (case index234 old i of
        None \<Rightarrow> Some new
      | Some entry \<Rightarrow>
          let entry2 = \<lparr>ekey = copy_key (ekey entry),
                        evalue = copy_value (valuetypes (primary (ekey entry))) (evalue entry)\<rparr> in
          (case add234 new entry2 of
             (AddCrash, t) \<Rightarrow> None
           | (_, t) \<Rightarrow> copy_loop old (i + 1) t))"
  by pat_completeness auto
termination
  by (relation "measure (\<lambda>(old, i, new). nat (countnode234 (root old) - i))")
    (auto dest!: index234_bound)

declare copy_loop.simps [simp del]

definition conf_copy_into :: "conf \<Rightarrow> conf \<Rightarrow> conf option" where
  "conf_copy_into newconf oldconf =
     (case conf_clear newconf of
        None \<Rightarrow> None
      | Some c \<Rightarrow> map_option (\<lambda>t. c\<lparr>tree := t\<rparr>) (copy_loop (tree oldconf) 0 (tree c)))"

definition conf_copy :: "conf \<Rightarrow> conf option" where
  "conf_copy oldconf = conf_copy_into conf_new oldconf"

section \<open>Accessors\<close>

text \<open>
  The lookup all accessors share: the two type assertions, then \<open>find234\<close> with a key on
  the stack.  The outer option is the assertion, the inner one the \<open>NULL\<close> of a missing
  entry.
\<close>

definition find_entry :: "Type \<Rightarrow> Type \<Rightarrow> conf \<Rightarrow> nat \<Rightarrow> secondary \<Rightarrow> conf_entry option option" where
  "find_entry st vt c p sec =
     (if subkeytypes p = st \<and> valuetypes p = vt
      then find234 (tree c) (Some \<lparr>primary = p, secondary = sec\<rparr>) (\<lambda>k x. conf_cmp k (ekey x))
      else None)"

definition conf_get_int :: "conf \<Rightarrow> nat \<Rightarrow> (32 word) option" where
  "conf_get_int c p =
     (case find_entry TYPE_NONE TYPE_INT c p NoSub of
        Some (Some e) \<Rightarrow> Some (intval (evalue e)) | _ \<Rightarrow> None)"

definition conf_try_get_int_int :: "conf \<Rightarrow> nat \<Rightarrow> 32 word \<Rightarrow> 32 word \<Rightarrow> (bool \<times> 32 word) option" where
  "conf_try_get_int_int c p i ret =
     (case find_entry TYPE_INT TYPE_INT c p (SubInt i) of
        None \<Rightarrow> None
      | Some None \<Rightarrow> Some (False, ret)
      | Some (Some e) \<Rightarrow> Some (True, intval (evalue e)))"

definition conf_get_int_int :: "conf \<Rightarrow> nat \<Rightarrow> 32 word \<Rightarrow> (32 word) option" where
  "conf_get_int_int c p i =
     (case find_entry TYPE_INT TYPE_INT c p (SubInt i) of
        Some (Some e) \<Rightarrow> Some (intval (evalue e)) | _ \<Rightarrow> None)"

definition conf_get_str :: "conf \<Rightarrow> nat \<Rightarrow> cstring option" where
  "conf_get_str c p =
     (case find_entry TYPE_NONE TYPE_STR c p NoSub of
        Some (Some e) \<Rightarrow> Some (stringval (evalue e)) | _ \<Rightarrow> None)"

definition conf_get_str_str_opt :: "conf \<Rightarrow> nat \<Rightarrow> cstring \<Rightarrow> cstring option option" where
  "conf_get_str_str_opt c p s =
     map_option (map_option (\<lambda>e. stringval (evalue e))) (find_entry TYPE_STR TYPE_STR c p (SubStr s))"

definition conf_get_str_str :: "conf \<Rightarrow> nat \<Rightarrow> cstring \<Rightarrow> cstring option" where
  "conf_get_str_str c p s =
     (case conf_get_str_str_opt c p s of Some (Some v) \<Rightarrow> Some v | _ \<Rightarrow> None)"

text \<open>The subkey and the value that follow \<open>subkeyin\<close>, or the first ones.\<close>

definition conf_get_str_strs :: "conf \<Rightarrow> nat \<Rightarrow> cstring option \<Rightarrow> (cstring \<times> cstring) option option" where
  "conf_get_str_strs c p subkeyin =
     (if subkeytypes p = TYPE_STR \<and> valuetypes p = TYPE_STR
      then let r = (case subkeyin of
             Some s \<Rightarrow> findrel234 (tree c) (Some \<lparr>primary = p, secondary = SubStr s\<rparr>)
                        (\<lambda>k x. conf_cmp k (ekey x)) REL234_GT
           | None \<Rightarrow> findrel234 (tree c) (Some \<lparr>primary = p, secondary = SubStr []\<rparr>)
                        (\<lambda>k x. conf_cmp_constkey k (ekey x)) REL234_GE)
        in map_option (\<lambda>entry. case entry of
               None \<Rightarrow> None
             | Some e \<Rightarrow> if primary (ekey e) \<noteq> p then None
                         else Some (sec_s (secondary (ekey e)), stringval (evalue e))) r
      else None)"

definition conf_get_str_nthstrkey :: "conf \<Rightarrow> nat \<Rightarrow> int \<Rightarrow> cstring option option" where
  "conf_get_str_nthstrkey c p n =
     (if subkeytypes p = TYPE_STR \<and> valuetypes p = TYPE_STR
      then case findrelpos234 (tree c) (Some \<lparr>primary = p, secondary = SubStr []\<rparr>)
             (\<lambda>k x. conf_cmp_constkey k (ekey x)) REL234_GE of
          None \<Rightarrow> None
        | Some None \<Rightarrow> Some None
        | Some (Some (e, index)) \<Rightarrow>
            if primary (ekey e) \<noteq> p then Some None
            else (case index234 (tree c) (index + n) of
                None \<Rightarrow> Some None
              | Some e' \<Rightarrow> if primary (ekey e') \<noteq> p then Some None
                           else Some (Some (sec_s (secondary (ekey e')))))
      else None)"

definition conf_get_filename :: "conf \<Rightarrow> nat \<Rightarrow> cstring option" where
  "conf_get_filename c p =
     (case find_entry TYPE_NONE TYPE_FILENAME c p NoSub of
        Some (Some e) \<Rightarrow> Some (fileval (evalue e)) | _ \<Rightarrow> None)"

definition conf_get_fontspec :: "conf \<Rightarrow> nat \<Rightarrow> FontSpec option" where
  "conf_get_fontspec c p =
     (case find_entry TYPE_NONE TYPE_FONT c p NoSub of
        Some (Some e) \<Rightarrow> Some (fontval (evalue e)) | _ \<Rightarrow> None)"

text \<open>The entry is dereferenced without a test: a missing one is \<open>None\<close>.\<close>

definition conf_get_int_str_opt :: "conf \<Rightarrow> nat \<Rightarrow> 32 word \<Rightarrow> cstring option" where
  "conf_get_int_str_opt c p i =
     (case find_entry TYPE_INT TYPE_STR c p (SubInt i) of
        Some (Some e) \<Rightarrow> Some (stringval (evalue e)) | _ \<Rightarrow> None)"

definition conf_get_int_str :: "conf \<Rightarrow> nat \<Rightarrow> 32 word \<Rightarrow> cstring option" where
  "conf_get_int_str c p i = conf_get_int_str_opt c p i"

section \<open>Modifiers\<close>

definition set_entry :: "Type \<Rightarrow> Type \<Rightarrow> conf \<Rightarrow> nat \<Rightarrow> secondary \<Rightarrow> conf_value \<Rightarrow> conf option" where
  "set_entry st vt c p sec v =
     (if subkeytypes p = st \<and> valuetypes p = vt
      then conf_insert c \<lparr>ekey = \<lparr>primary = p, secondary = sec\<rparr>, evalue = v\<rparr>
      else None)"

definition conf_set_int :: "conf \<Rightarrow> nat \<Rightarrow> 32 word \<Rightarrow> conf option" where
  "conf_set_int c p v = set_entry TYPE_NONE TYPE_INT c p NoSub (IntVal v)"

definition conf_set_int_int :: "conf \<Rightarrow> nat \<Rightarrow> 32 word \<Rightarrow> 32 word \<Rightarrow> conf option" where
  "conf_set_int_int c p i v = set_entry TYPE_INT TYPE_INT c p (SubInt i) (IntVal v)"

definition conf_set_str :: "conf \<Rightarrow> nat \<Rightarrow> cstring \<Rightarrow> conf option" where
  "conf_set_str c p v = set_entry TYPE_NONE TYPE_STR c p NoSub (StrVal v)"

definition conf_set_str_str :: "conf \<Rightarrow> nat \<Rightarrow> cstring \<Rightarrow> cstring \<Rightarrow> conf option" where
  "conf_set_str_str c p s v = set_entry TYPE_STR TYPE_STR c p (SubStr s) (StrVal v)"

definition conf_set_filename :: "conf \<Rightarrow> nat \<Rightarrow> cstring \<Rightarrow> conf option" where
  "conf_set_filename c p v = set_entry TYPE_NONE TYPE_FILENAME c p NoSub (FileVal v)"

definition conf_set_fontspec :: "conf \<Rightarrow> nat \<Rightarrow> FontSpec \<Rightarrow> conf option" where
  "conf_set_fontspec c p v = set_entry TYPE_NONE TYPE_FONT c p NoSub (FontVal v)"

definition conf_set_int_str :: "conf \<Rightarrow> nat \<Rightarrow> 32 word \<Rightarrow> cstring \<Rightarrow> conf option" where
  "conf_set_int_str c p i v = set_entry TYPE_INT TYPE_STR c p (SubInt i) (StrVal v)"

definition del_entry :: "Type \<Rightarrow> Type \<Rightarrow> conf \<Rightarrow> nat \<Rightarrow> secondary \<Rightarrow> conf option" where
  "del_entry st vt c p sec =
     (case find_entry st vt c p sec of
        None \<Rightarrow> None
      | Some None \<Rightarrow> Some c
      | Some (Some e) \<Rightarrow> map_option (\<lambda>(r, t). c\<lparr>tree := t\<rparr>) (del234 (tree c) e))"

definition conf_del_str_str :: "conf \<Rightarrow> nat \<Rightarrow> cstring \<Rightarrow> conf option" where
  "conf_del_str_str c p s = del_entry TYPE_STR TYPE_STR c p (SubStr s)"

definition conf_del_int_int :: "conf \<Rightarrow> nat \<Rightarrow> 32 word \<Rightarrow> conf option" where
  "conf_del_int_int c p i = del_entry TYPE_INT TYPE_INT c p (SubInt i)"

definition conf_del_int_str :: "conf \<Rightarrow> nat \<Rightarrow> 32 word \<Rightarrow> conf option" where
  "conf_del_int_str c p i = del_entry TYPE_INT TYPE_STR c p (SubInt i)"

section \<open>Serialisation\<close>

definition filename_serialise :: "cstring \<Rightarrow> byte list" where
  "filename_serialise f = f @ [0]"

definition fontspec_serialise :: "FontSpec \<Rightarrow> byte list" where
  "fontspec_serialise f =
     fname f @ [0] @ PUT_32BIT_MSB_FIRST (isbold f) @ PUT_32BIT_MSB_FIRST (height f)
     @ PUT_32BIT_MSB_FIRST (charset f)"

definition subkey_size :: "conf_key \<Rightarrow> nat" where
  "subkey_size k =
     (case subkeytypes (primary k) of
        TYPE_INT \<Rightarrow> 4
      | TYPE_STR \<Rightarrow> 1 + length (sec_s (secondary k))
      | _ \<Rightarrow> 0)"

definition value_size :: "Type \<Rightarrow> conf_value \<Rightarrow> nat" where
  "value_size type v =
     (case type of
        TYPE_INT \<Rightarrow> 4
      | TYPE_STR \<Rightarrow> 1 + length (stringval v)
      | TYPE_FILENAME \<Rightarrow> length (filename_serialise (fileval v))
      | TYPE_FONT \<Rightarrow> length (fname (fontval v)) + 1 + 12
      | TYPE_NONE \<Rightarrow> 0)"

function size_loop :: "conf_entry tree234 \<Rightarrow> int \<Rightarrow> nat \<Rightarrow> nat" where
  "size_loop t i sz =
     (case index234 t i of
        None \<Rightarrow> sz
      | Some entry \<Rightarrow>
          size_loop t (i + 1)
            (sz + 4 + subkey_size (ekey entry)
             + value_size (valuetypes (primary (ekey entry))) (evalue entry)))"
  by pat_completeness auto
termination
  by (relation "measure (\<lambda>(t, i, sz). nat (countnode234 (root t) - i))")
    (auto dest!: index234_bound)

declare size_loop.simps [simp del]

definition conf_serialised_size :: "conf \<Rightarrow> nat" where
  "conf_serialised_size c = size_loop (tree c) 0 0 + 4"

definition put_subkey :: "conf_key \<Rightarrow> byte list" where
  "put_subkey k =
     (case subkeytypes (primary k) of
        TYPE_INT \<Rightarrow> PUT_32BIT_MSB_FIRST (sec_i (secondary k))
      | TYPE_STR \<Rightarrow> sec_s (secondary k) @ [0]
      | _ \<Rightarrow> [])"

definition put_value :: "Type \<Rightarrow> conf_value \<Rightarrow> byte list" where
  "put_value type v =
     (case type of
        TYPE_INT \<Rightarrow> PUT_32BIT_MSB_FIRST (intval v)
      | TYPE_STR \<Rightarrow> stringval v @ [0]
      | TYPE_FILENAME \<Rightarrow> filename_serialise (fileval v)
      | TYPE_FONT \<Rightarrow> fontspec_serialise (fontval v)
      | TYPE_NONE \<Rightarrow> [])"

function serialise_loop :: "conf_entry tree234 \<Rightarrow> int \<Rightarrow> byte list" where
  "serialise_loop t i =
     (case index234 t i of
        None \<Rightarrow> PUT_32BIT_MSB_FIRST 0xFFFFFFFF
      | Some entry \<Rightarrow>
          PUT_32BIT_MSB_FIRST (of_nat (primary (ekey entry)))
          @ put_subkey (ekey entry)
          @ put_value (valuetypes (primary (ekey entry))) (evalue entry)
          @ serialise_loop t (i + 1))"
  by pat_completeness auto
termination
  by (relation "measure (\<lambda>(t, i). nat (countnode234 (root t) - i))")
    (auto dest!: index234_bound)

declare serialise_loop.simps [simp del]

definition conf_serialise :: "conf \<Rightarrow> byte list" where
  "conf_serialise c = serialise_loop (tree c) 0"

text \<open>
  The reading side keeps the bytes that may be read (\<open>data\<close>), the position of the C pointer
  in them and \<open>maxsize\<close> apart, as the code does.  A read outside the bytes is \<open>None\<close>, a
  \<open>NULL\<close> result of a reader or a \<open>goto done\<close> is \<open>Some None\<close>.  \<open>memchr\<close> stops at the first
  match, and takes its length as \<open>size_t\<close>, so that a negative \<open>int\<close> means no limit.
\<close>

definition get32 :: "byte list \<Rightarrow> nat \<Rightarrow> 32 word option" where
  "get32 data p = (if p + 4 \<le> length data then Some (GET_32BIT_MSB_FIRST (drop p data)) else None)"

definition memchr0 :: "byte list \<Rightarrow> nat \<Rightarrow> int \<Rightarrow> nat option option" where
  "memchr0 data p n =
     (let i = length (takeWhile (\<lambda>b. b \<noteq> 0) (drop p data)) in
      if p + i < length data \<and> (n < 0 \<or> int i < n) then Some (Some (p + i))
      else if 0 \<le> n \<and> int p + n \<le> int (length data) then Some None
      else None)"

definition dupstr_at :: "byte list \<Rightarrow> nat \<Rightarrow> cstring option" where
  "dupstr_at data p = map_option fst (split_nul (drop p data))"

definition filename_deserialise :: "byte list \<Rightarrow> nat \<Rightarrow> int \<Rightarrow> (cstring \<times> int) option option" where
  "filename_deserialise data p maxsize =
     (case memchr0 data p maxsize of
        None \<Rightarrow> None
      | Some None \<Rightarrow> Some None
      | Some (Some zero) \<Rightarrow>
          map_option (\<lambda>f. Some (f, int (zero + 1) - int p)) (dupstr_at data p))"

definition fontspec_deserialise :: "byte list \<Rightarrow> nat \<Rightarrow> int \<Rightarrow> (FontSpec \<times> int) option option" where
  "fontspec_deserialise data p maxsize =
     (if maxsize < 13 then Some None
      else case memchr0 data p (maxsize - 12) of
          None \<Rightarrow> None
        | Some None \<Rightarrow> Some None
        | Some (Some zero) \<Rightarrow>
            let zero1 = zero + 1 in
            (case (dupstr_at data p, get32 data zero1, get32 data (zero1 + 4), get32 data (zero1 + 8)) of
               (Some name, Some b, Some h, Some cs) \<Rightarrow>
                 Some (Some (\<lparr>fname = name, isbold = b, height = h, charset = cs\<rparr>,
                   int zero1 - int p + 12))
             | _ \<Rightarrow> None))"

text \<open>
  The two \<open>switch\<close> statements of \<open>conf_deserialise\<close>, which move the pointer and \<open>maxsize\<close>.
\<close>

definition get_subkey :: "Type \<Rightarrow> byte list \<Rightarrow> nat \<Rightarrow> int \<Rightarrow> (secondary \<times> nat \<times> int) option option" where
  "get_subkey type data p maxsize =
     (case type of
        TYPE_INT \<Rightarrow>
          if maxsize < 4 then Some None
          else map_option (\<lambda>w. Some (SubInt (word_of_int (toint w)), p + 4, maxsize - 4)) (get32 data p)
      | TYPE_STR \<Rightarrow>
          (case memchr0 data p maxsize of
             None \<Rightarrow> None
           | Some None \<Rightarrow> Some None
           | Some (Some zero) \<Rightarrow>
               map_option (\<lambda>s. Some (SubStr s, zero + 1, maxsize - (int zero + 1 - int p))) (dupstr_at data p))
      | _ \<Rightarrow> Some (Some (NoSub, p, maxsize)))"

definition get_value :: "Type \<Rightarrow> byte list \<Rightarrow> nat \<Rightarrow> int \<Rightarrow> (conf_value \<times> nat \<times> int) option option" where
  "get_value type data p maxsize =
     (case type of
        TYPE_INT \<Rightarrow>
          if maxsize < 4 then Some None
          else map_option (\<lambda>w. Some (IntVal (word_of_int (toint w)), p + 4, maxsize - 4)) (get32 data p)
      | TYPE_STR \<Rightarrow>
          (case memchr0 data p maxsize of
             None \<Rightarrow> None
           | Some None \<Rightarrow> Some None
           | Some (Some zero) \<Rightarrow>
               map_option (\<lambda>s. Some (StrVal s, zero + 1, maxsize - (int zero + 1 - int p))) (dupstr_at data p))
      | TYPE_FILENAME \<Rightarrow>
          map_option (map_option (\<lambda>(f, used). (FileVal f, p + nat used, maxsize - used)))
            (filename_deserialise data p maxsize)
      | TYPE_FONT \<Rightarrow>
          map_option (map_option (\<lambda>(f, used). (FontVal f, p + nat used, maxsize - used)))
            (fontspec_deserialise data p maxsize)
      | TYPE_NONE \<Rightarrow> Some (Some (NoVal, p, maxsize)))"

lemma memchr0_at:
  assumes "memchr0 data p n = Some (Some zero)"
  shows "p \<le> zero" "zero < length data" "n < 0 \<or> int zero < int p + n"
  using assms by (auto simp: memchr0_def Let_def split: if_splits)

lemma filename_deserialise_used:
  "filename_deserialise data p m = Some (Some (f, used)) \<Longrightarrow> 0 < used"
  by (auto simp: filename_deserialise_def split: option.splits dest!: memchr0_at(1))

lemma fontspec_deserialise_used:
  "fontspec_deserialise data p m = Some (Some (f, used)) \<Longrightarrow> 0 < used"
  by (auto simp: fontspec_deserialise_def Let_def split: if_splits option.splits dest!: memchr0_at(1))

lemma get_subkey_less: "get_subkey ty data p m = Some (Some (s, p', m')) \<Longrightarrow> m' \<le> m"
  by (auto simp: get_subkey_def split: Type.splits if_splits option.splits dest!: memchr0_at(1))

lemma get_value_less: "get_value ty data p m = Some (Some (v, p', m')) \<Longrightarrow> m' \<le> m"
  by (auto simp: get_value_def split: Type.splits if_splits option.splits
      dest!: memchr0_at(1) filename_deserialise_used fontspec_deserialise_used)

text \<open>
  One entry per round; the result is the position reached.  \<open>None\<close> is a read outside the
  bytes or a failing \<open>conf_insert\<close>.
\<close>

function deserialise_loop :: "conf \<Rightarrow> byte list \<Rightarrow> nat \<Rightarrow> int \<Rightarrow> (nat \<times> conf) option" where
  "deserialise_loop c data p maxsize =
     (if maxsize < 4 then Some (p, c)
      else case get32 data p of
          None \<Rightarrow> None
        | Some w \<Rightarrow>
            let primary = unat w; p1 = p + 4; m1 = maxsize - 4 in
            if primary \<ge> N_CONFIG_OPTIONS then Some (p1, c)
            else (case get_subkey (subkeytypes primary) data p1 m1 of
                None \<Rightarrow> None
              | Some None \<Rightarrow> Some (p1, c)
              | Some (Some (sec, p2, m2)) \<Rightarrow>
                  (case get_value (valuetypes primary) data p2 m2 of
                     None \<Rightarrow> None
                   | Some None \<Rightarrow> Some (p2, c)
                   | Some (Some (v, p3, m3)) \<Rightarrow>
                       (case conf_insert c \<lparr>ekey = \<lparr>primary = primary, secondary = sec\<rparr>, evalue = v\<rparr> of
                          None \<Rightarrow> None
                        | Some c' \<Rightarrow> deserialise_loop c' data p3 m3))))"
  by pat_completeness auto
termination
  by (relation "measure (\<lambda>(c, data, p, maxsize). nat maxsize)")
    (auto dest!: get_subkey_less get_value_less)

declare deserialise_loop.simps [simp del]

definition conf_deserialise :: "conf \<Rightarrow> byte list \<Rightarrow> int \<Rightarrow> (nat \<times> conf) option" where
  "conf_deserialise c data maxsize = deserialise_loop c data 0 maxsize"

end
