(* ===== verification/Conf_Facts.thy ===== *)
theory Conf_Facts
  imports Conf
begin

text \<open>
  Facts about the configuration store: the comparison function is an order, so the tree
  keeps one entry for each key; the accessors read, and the modifiers update, one finite
  map; copying keeps the entries; the serialised form can be read back; reading arbitrary
  bytes is safe; and the subkeys of an option are enumerated in order.
\<close>

section \<open>The order of the keys\<close>

lemma conf_cmp_order: "cmp_order conf_cmp"
proof
  fix x y z
  show "conf_cmp x y < 0 \<longleftrightarrow> 0 < conf_cmp y x"
    using strcmp_swap [of "sec_s (secondary x)" "sec_s (secondary y)"]
    by (auto simp: conf_cmp_def split: Type.splits)
  assume "conf_cmp x y \<le> 0" "conf_cmp y z \<le> 0"
  then show "conf_cmp x z \<le> 0"
    using strcmp_trans [of "sec_s (secondary x)" "sec_s (secondary y)" "sec_s (secondary z)"]
    by (auto simp: conf_cmp_def split: Type.splits if_splits)
qed

interpretation conf_order: cmp_order conf_cmp
  by (rule conf_cmp_order)

abbreviation conf_tree_ok :: "conf_entry tree234 \<Rightarrow> bool" where
  "conf_tree_ok \<equiv> tree_ok conf_cmp ekey"

interpretation conf_store: keyed_store conf_cmp ekey conf_tree_ok "\<lambda>t. elements t" add234 del234
  "\<lambda>t k. find234 t (Some k) (\<lambda>k x. conf_cmp k (ekey x))"
  by (rule tree_keyed_store) (rule conf_cmp_order)

text \<open>A key or an entry whose union members are the ones the option table names.\<close>

fun secondary_ok :: "Type \<Rightarrow> secondary \<Rightarrow> bool" where
  "secondary_ok TYPE_INT (SubInt i) = True"
| "secondary_ok TYPE_STR (SubStr s) = cstr_ok s"
| "secondary_ok TYPE_NONE NoSub = True"
| "secondary_ok _ _ = False"

fun value_ok :: "Type \<Rightarrow> conf_value \<Rightarrow> bool" where
  "value_ok TYPE_INT (IntVal i) = True"
| "value_ok TYPE_STR (StrVal s) = cstr_ok s"
| "value_ok TYPE_FILENAME (FileVal f) = cstr_ok f"
| "value_ok TYPE_FONT (FontVal f) = cstr_ok (fname f)"
| "value_ok _ _ = False"

definition key_ok :: "conf_key \<Rightarrow> bool" where
  "key_ok k \<longleftrightarrow> primary k < N_CONFIG_OPTIONS \<and> secondary_ok (subkeytypes (primary k)) (secondary k)"

definition entry_ok :: "conf_entry \<Rightarrow> bool" where
  "entry_ok e \<longleftrightarrow> key_ok (ekey e) \<and> value_ok (valuetypes (primary (ekey e))) (evalue e)"

definition conf_ok :: "conf \<Rightarrow> bool" where
  "conf_ok c \<longleftrightarrow> conf_tree_ok (tree c) \<and> (\<forall>e \<in> set (elements (tree c)). entry_ok e)"

text \<open>The abstract view: a configuration is a finite map from keys to values.\<close>

definition conf_map :: "conf \<Rightarrow> conf_key \<Rightarrow> conf_value option" where
  "conf_map c k = map_option evalue (lookup_key conf_cmp ekey k (elements (tree c)))"

lemma conf_cmp_eq: "key_ok k \<Longrightarrow> key_ok k' \<Longrightarrow> conf_cmp k k' = 0 \<longleftrightarrow> k = k'"
  by (cases "subkeytypes (primary k)"; cases "secondary k"; cases "secondary k'"; cases k; cases k')
    (auto simp: conf_cmp_def key_ok_def strcmp_eq split: if_splits intro: signed_word_eqI)

lemma valuetypes_bound: "valuetypes p \<noteq> TYPE_NONE \<Longrightarrow> p < N_CONFIG_OPTIONS"
  by (simp add: valuetypes_def split: if_splits)

lemma conf_ok_tree: "conf_ok c \<Longrightarrow> conf_tree_ok (tree c)"
  by (simp add: conf_ok_def)

lemma conf_new_ok [simp]: "conf_ok conf_new"
  by (simp add: conf_ok_def conf_new_def tree_ok_new) (simp add: newtree234_def)

lemma conf_new_map [simp]: "conf_map conf_new k = None"
  by (simp add: conf_map_def conf_new_def newtree234_def lookup_key_def)

lemma conf_okI:
  assumes "conf_tree_ok t" and "\<And>k x. lookup_key conf_cmp ekey k (elements t) = Some x \<Longrightarrow> entry_ok x"
  shows "conf_ok (c\<lparr>tree := t\<rparr>)"
  using assms conf_store.lookup_member by (auto simp: conf_ok_def)

lemma lookup_entry_ok:
  "conf_ok c \<Longrightarrow> lookup_key conf_cmp ekey k (elements (tree c)) = Some x \<Longrightarrow> entry_ok x"
  by (simp add: conf_ok_def conf_store.lookup_iff)

section \<open>Insertion and deletion as map updates\<close>

lemma conf_insert_spec:
  assumes "conf_ok c" and "entry_ok e"
  shows "\<exists>c'. conf_insert c e = Some c' \<and> conf_ok c' \<and>
    (\<forall>k. key_ok k \<longrightarrow> conf_map c' k = (if k = ekey e then Some (evalue e) else conf_map c k))"
proof -
  from conf_store.replace [OF conf_ok_tree [OF assms(1)], of e] obtain t where t: "conf_tree_ok t"
    "\<And>k. lookup_key conf_cmp ekey k (elements t)
       = (if conf_cmp k (ekey e) = 0 then Some e else lookup_key conf_cmp ekey k (elements (tree c)))"
    "add234 (tree c) e = (Added, t) \<or>
     (\<exists>old s1. add234 (tree c) e = (Already old, tree c) \<and> del234 (tree c) old = Some (Some old, s1)
        \<and> add234 s1 e = (Added, t))"
    by blast
  have "conf_insert c e = Some (c\<lparr>tree := t\<rparr>)"
    using t(3) by (auto simp: conf_insert_def)
  moreover have "conf_ok (c\<lparr>tree := t\<rparr>)"
    using t(1,2) lookup_entry_ok [OF assms(1)] assms(2)
    by (intro conf_okI) (auto split: if_splits)
  moreover have "conf_map (c\<lparr>tree := t\<rparr>) k = (if k = ekey e then Some (evalue e) else conf_map c k)"
    if "key_ok k" for k
    using that assms(2) t(2) conf_cmp_eq [of k "ekey e"] by (simp add: conf_map_def entry_ok_def)
  ultimately show ?thesis by blast
qed

lemma find_entry_spec:
  "conf_ok c \<Longrightarrow> find_entry st vt c p sec =
     (if subkeytypes p = st \<and> valuetypes p = vt
      then Some (lookup_key conf_cmp ekey \<lparr>primary = p, secondary = sec\<rparr> (elements (tree c)))
      else None)"
  using conf_store.search_law [OF conf_ok_tree, of c] by (simp add: find_entry_def lookup_key_def)

lemma lookup_key_eq:
  assumes "conf_ok c" and "lookup_key conf_cmp ekey k (elements (tree c)) = Some x" and "key_ok k"
  shows "ekey x = k"
  using assms conf_cmp_eq [of k "ekey x"] lookup_entry_ok [OF assms(1,2)]
  by (auto simp: conf_store.lookup_iff [OF conf_ok_tree] entry_ok_def)

lemma conf_map_value_ok:
  assumes "conf_ok c" and "conf_map c k = Some v" and "key_ok k"
  shows "value_ok (valuetypes (primary k)) v"
  using assms lookup_key_eq lookup_entry_ok by (fastforce simp: conf_map_def entry_ok_def)

lemma del_entry_spec:
  assumes "conf_ok c" and "subkeytypes p = st" and "valuetypes p = vt"
    and "key_ok \<lparr>primary = p, secondary = sec\<rparr>"
  shows "\<exists>c'. del_entry st vt c p sec = Some c' \<and> conf_ok c' \<and>
    (\<forall>k. key_ok k \<longrightarrow> conf_map c' k
       = (if k = \<lparr>primary = p, secondary = sec\<rparr> then None else conf_map c k))"
proof (cases "lookup_key conf_cmp ekey \<lparr>primary = p, secondary = sec\<rparr> (elements (tree c))")
  case None
  with assms show ?thesis by (auto simp: del_entry_def find_entry_spec conf_map_def)
next
  case (Some e)
  from conf_store.delete [OF conf_ok_tree [OF assms(1)] Some] obtain t where t:
    "del234 (tree c) e = Some (Some e, t)" "conf_tree_ok t"
    "\<And>k. lookup_key conf_cmp ekey k (elements t) = (if conf_cmp k \<lparr>primary = p, secondary = sec\<rparr> = 0
       then None else lookup_key conf_cmp ekey k (elements (tree c)))"
    by blast
  have "conf_ok (c\<lparr>tree := t\<rparr>)"
    using t(2,3) lookup_entry_ok [OF assms(1)] by (intro conf_okI) (auto split: if_splits)
  moreover have "del_entry st vt c p sec = Some (c\<lparr>tree := t\<rparr>)"
    using assms Some t(1) by (simp add: del_entry_def find_entry_spec)
  ultimately show ?thesis
    using t(3) conf_cmp_eq [OF _ assms(4)] by (auto simp: conf_map_def)
qed

section \<open>What the accessors return\<close>

lemma key_ok_simps [simp]:
  "key_ok \<lparr>primary = p, secondary = sec\<rparr> \<longleftrightarrow> p < N_CONFIG_OPTIONS \<and> secondary_ok (subkeytypes p) sec"
  by (simp add: key_ok_def)

lemma get_map:
  assumes "conf_ok c" and "subkeytypes p = st" and "valuetypes p = vt" and "vt \<noteq> TYPE_NONE"
    and "secondary_ok st sec"
  shows "\<exists>r. find_entry st vt c p sec = Some r \<and> conf_map c \<lparr>primary = p, secondary = sec\<rparr> = map_option evalue r
    \<and> (\<forall>e. r = Some e \<longrightarrow> value_ok vt (evalue e))"
  using assms valuetypes_bound [of p]
    conf_map_value_ok [OF assms(1), of "\<lparr>primary = p, secondary = sec\<rparr>"]
  by (auto simp: find_entry_spec conf_map_def)

lemma value_ok_cases:
  "value_ok TYPE_INT v \<Longrightarrow> \<exists>i. v = IntVal i"
  "value_ok TYPE_STR v \<Longrightarrow> \<exists>s. v = StrVal s \<and> cstr_ok s"
  "value_ok TYPE_FILENAME v \<Longrightarrow> \<exists>f. v = FileVal f \<and> cstr_ok f"
  "value_ok TYPE_FONT v \<Longrightarrow> \<exists>f. v = FontVal f \<and> cstr_ok (fname f)"
  by (cases v; simp)+

lemma conf_get_int_map:
  assumes "conf_ok c" "subkeytypes p = TYPE_NONE" "valuetypes p = TYPE_INT"
  shows "map_option IntVal (conf_get_int c p) = conf_map c \<lparr>primary = p, secondary = NoSub\<rparr>"
  using get_map [OF assms, of NoSub]
  by (auto simp: conf_get_int_def split: option.splits dest!: value_ok_cases)

lemma conf_get_int_int_map:
  assumes "conf_ok c" "subkeytypes p = TYPE_INT" "valuetypes p = TYPE_INT"
  shows "map_option IntVal (conf_get_int_int c p i) = conf_map c \<lparr>primary = p, secondary = SubInt i\<rparr>"
  using get_map [OF assms, of "SubInt i"]
  by (auto simp: conf_get_int_int_def split: option.splits dest!: value_ok_cases)

lemma conf_get_str_map:
  assumes "conf_ok c" "subkeytypes p = TYPE_NONE" "valuetypes p = TYPE_STR"
  shows "map_option StrVal (conf_get_str c p) = conf_map c \<lparr>primary = p, secondary = NoSub\<rparr>"
  using get_map [OF assms, of NoSub]
  by (auto simp: conf_get_str_def split: option.splits dest!: value_ok_cases)

lemma conf_get_str_str_map:
  assumes "conf_ok c" "subkeytypes p = TYPE_STR" "valuetypes p = TYPE_STR" "cstr_ok s"
  shows "map_option (map_option StrVal) (conf_get_str_str_opt c p s)
    = Some (conf_map c \<lparr>primary = p, secondary = SubStr s\<rparr>)"
  using get_map [OF assms(1-3), of "SubStr s"] assms(4)
  by (auto simp: conf_get_str_str_opt_def option.map_comp comp_def intro!: option.map_cong dest!: value_ok_cases)

lemma conf_get_filename_map:
  assumes "conf_ok c" "subkeytypes p = TYPE_NONE" "valuetypes p = TYPE_FILENAME"
  shows "map_option FileVal (conf_get_filename c p) = conf_map c \<lparr>primary = p, secondary = NoSub\<rparr>"
  using get_map [OF assms, of NoSub]
  by (auto simp: conf_get_filename_def split: option.splits dest!: value_ok_cases)

lemma conf_get_fontspec_map:
  assumes "conf_ok c" "subkeytypes p = TYPE_NONE" "valuetypes p = TYPE_FONT"
  shows "map_option FontVal (conf_get_fontspec c p) = conf_map c \<lparr>primary = p, secondary = NoSub\<rparr>"
  using get_map [OF assms, of NoSub]
  by (auto simp: conf_get_fontspec_def split: option.splits dest!: value_ok_cases)

lemma conf_get_int_str_map:
  assumes "conf_ok c" "subkeytypes p = TYPE_INT" "valuetypes p = TYPE_STR"
  shows "map_option StrVal (conf_get_int_str_opt c p i) = conf_map c \<lparr>primary = p, secondary = SubInt i\<rparr>"
  using get_map [OF assms, of "SubInt i"]
  by (auto simp: conf_get_int_str_opt_def split: option.splits dest!: value_ok_cases)

lemma set_entry_spec:
  assumes "conf_ok c" and "subkeytypes p = st" and "valuetypes p = vt" and "secondary_ok st sec" and "value_ok vt v"
  shows "\<exists>c'. set_entry st vt c p sec v = Some c' \<and> conf_ok c' \<and>
    (\<forall>k. key_ok k \<longrightarrow> conf_map c' k
       = (if k = \<lparr>primary = p, secondary = sec\<rparr> then Some v else conf_map c k))"
proof -
  have "p < N_CONFIG_OPTIONS"
    using assms(3,5) by (intro valuetypes_bound) (cases v; auto)
  with assms conf_insert_spec [OF assms(1), of "\<lparr>ekey = \<lparr>primary = p, secondary = sec\<rparr>, evalue = v\<rparr>"]
  show ?thesis by (auto simp: set_entry_def entry_ok_def)
qed

section \<open>Emptying and copying\<close>

lemma len_root_Nil: "wf234 t \<Longrightarrow> elements t = [] \<Longrightarrow> root t = NULL"
  by (erule wf234_cases) (auto elim!: full234_SucE)

lemma clear_loop_spec:
  "wf234 t \<Longrightarrow> \<exists>t'. clear_loop t = Some t' \<and> wf234 t' \<and> elements t' = [] \<and> cmp t' = cmp t"
proof (induction "length (elements t)" arbitrary: t)
  case 0
  then have "delpos234 t 0 = Some (None, t)" using delpos234_spec [of t 0] by simp
  with 0 show ?case by (subst clear_loop.simps) simp
next
  case (Suc n)
  from Suc.hyps(2) have "elements t \<noteq> []" by auto
  with Suc.prems delpos234_spec [of t 0] obtain x t' where t':
    "delpos234 t 0 = Some (Some x, t')" "wf234 t'" "cmp t' = cmp t" "elements t' = remove_nth 0 (elements t)"
    by auto
  with Suc.hyps(2) have "n = length (elements t')" by (simp add: remove_nth_def)
  from Suc.hyps(1) [OF this t'(2)] t' show ?case by (subst clear_loop.simps) simp
qed

lemma conf_clear_spec:
  assumes "conf_ok c"
  shows "\<exists>c'. conf_clear c = Some c' \<and> conf_ok c' \<and> elements (tree c') = []"
proof -
  from assms have "wf234 (tree c)" by (simp add: conf_ok_def tree_ok_def)
  with clear_loop_spec [of "tree c"] assms show ?thesis
    by (auto simp: conf_clear_def conf_ok_def tree_ok_def sorted_by_def)
qed

lemma copy_entry_ok:
  assumes "entry_ok e"
  shows "\<lparr>ekey = copy_key (ekey e), evalue = copy_value (valuetypes (primary (ekey e))) (evalue e)\<rparr> = e"
proof -
  obtain p s v where e: "e = \<lparr>ekey = \<lparr>primary = p, secondary = s\<rparr>, evalue = v\<rparr>"
    by (metis conf_entry.cases conf_key.cases)
  show ?thesis
    using assms unfolding e
    by (cases "subkeytypes p"; cases s; cases "valuetypes p"; cases v)
      (auto simp: entry_ok_def copy_key_def copy_value_def)
qed

lemma rank_above: "(\<And>x. x \<in> set xs \<Longrightarrow> 0 < g x) \<Longrightarrow> rank g xs = length xs \<and> hit g xs = None"
  by (force simp: rank_def hit_def find_None_iff takeWhile_eq_all_conv [THEN iffD2])

lemma copy_loop_spec:
  assumes "conf_ok c"
  shows "i \<le> length (elements (tree c)) \<Longrightarrow> conf_tree_ok new \<Longrightarrow> elements new = take i (elements (tree c)) \<Longrightarrow>
    \<exists>t. copy_loop (tree c) (int i) new = Some t \<and> conf_tree_ok t \<and> elements t = elements (tree c)"
proof (induction "length (elements (tree c)) - i" arbitrary: i new)
  case 0
  from assms have "wf234 (tree c)" by (simp add: conf_ok_def tree_ok_def)
  with 0 show ?case by (subst copy_loop.simps) (simp add: index234_nth)
next
  case (Suc n)
  let ?xs = "elements (tree c)"
  from Suc.hyps(2) have i: "i < length ?xs" by simp
  from assms have wf: "wf234 (tree c)" and srt: "sorted_by (\<lambda>x y. conf_cmp (ekey x) (ekey y)) ?xs"
    by (simp_all add: conf_ok_def tree_ok_def)
  define e where "e = ?xs ! i"
  from assms i have e: "entry_ok e" by (simp add: conf_ok_def e_def)
  have idx: "index234 (tree c) (int i) = Some e" using wf i by (simp add: index234_nth e_def)
  have above: "0 < conf_cmp (ekey e) (ekey x)" if "x \<in> set (take i ?xs)" for x
  proof -
    from that obtain j where "j < i" "x = ?xs ! j" using i by (auto simp: in_set_conv_nth)
    then have "conf_cmp (ekey x) (ekey e) < 0"
      using srt i by (auto simp: sorted_by_def sorted_wrt_iff_nth_less e_def)
    then show ?thesis by (simp add: conf_order.cmp_swap)
  qed
  note ra = rank_above [of "take i ?xs" "\<lambda>x. conf_cmp (ekey e) (ekey x)", OF above]
  from conf_store.add_new [OF Suc.prems(2), of e] ra Suc.prems(3) obtain t where t:
    "add234 new e = (Added, t)" "conf_tree_ok t" "elements t = insert_nth (length (take i ?xs)) e (take i ?xs)"
    by auto
  then have "elements t = take (Suc i) ?xs"
    using i by (simp add: insert_nth_def e_def take_Suc_conv_app_nth)
  moreover have "n = length ?xs - Suc i" "Suc i \<le> length ?xs" using Suc.hyps(2) i by simp_all
  ultimately obtain t' where "copy_loop (tree c) (int (Suc i)) t = Some t'" "conf_tree_ok t'" "elements t' = ?xs"
    using Suc.hyps(1) t(2) by blast
  with idx t(1) show ?case
    by (subst copy_loop.simps) (simp add: copy_entry_ok [OF e] Let_def add.commute)
qed

lemma conf_okI_elements:
  "conf_tree_ok t \<Longrightarrow> elements t = elements (tree c) \<Longrightarrow> conf_ok c \<Longrightarrow> conf_ok (c'\<lparr>tree := t\<rparr>)"
  by (simp add: conf_ok_def)

lemma conf_copy_into_spec:
  assumes "conf_ok new" and "conf_ok old"
  shows "\<exists>c. conf_copy_into new old = Some c \<and> conf_ok c \<and> elements (tree c) = elements (tree old)"
proof -
  from conf_clear_spec [OF assms(1)] obtain c where c:
    "conf_clear new = Some c" "conf_ok c" "elements (tree c) = []" by blast
  with copy_loop_spec [OF assms(2), of 0 "tree c"] conf_ok_tree [OF c(2)] obtain t where
    "copy_loop (tree old) 0 (tree c) = Some t" "conf_tree_ok t" "elements t = elements (tree old)" by auto
  with c(1) conf_okI_elements [OF _ _ assms(2)] show ?thesis by (simp add: conf_copy_into_def)
qed

section \<open>The serialised form\<close>

definition entry_bytes :: "conf_entry \<Rightarrow> byte list" where
  "entry_bytes e = PUT_32BIT_MSB_FIRST (of_nat (primary (ekey e))) @ put_subkey (ekey e)
     @ put_value (valuetypes (primary (ekey e))) (evalue e)"

lemma serialise_loop_spec:
  assumes "wf234 t"
  shows "i \<le> length (elements t) \<Longrightarrow> serialise_loop t (int i)
    = concat (map entry_bytes (drop i (elements t))) @ PUT_32BIT_MSB_FIRST 0xFFFFFFFF"
proof (induction "length (elements t) - i" arbitrary: i)
  case 0
  with assms show ?case by (subst serialise_loop.simps) (simp add: index234_nth)
next
  case (Suc n)
  then have i: "i < length (elements t)" by simp
  with assms have "index234 t (int i) = Some (elements t ! i)" by (simp add: index234_nth)
  moreover from Suc.hyps(1) [of "Suc i"] Suc.hyps(2) i have
    "serialise_loop t (int i + 1) = concat (map entry_bytes (drop (Suc i) (elements t))) @ PUT_32BIT_MSB_FIRST 0xFFFFFFFF"
    by (simp add: add.commute)
  ultimately show ?case
    using i by (subst serialise_loop.simps) (simp add: entry_bytes_def Cons_nth_drop_Suc [symmetric])
qed

lemma conf_serialise_spec:
  "conf_ok c \<Longrightarrow> conf_serialise c
     = concat (map entry_bytes (elements (tree c))) @ PUT_32BIT_MSB_FIRST 0xFFFFFFFF"
  using serialise_loop_spec [of "tree c" 0] by (simp add: conf_serialise_def conf_ok_def tree_ok_def)

lemma entry_bytes_length:
  "length (entry_bytes e) = 4 + subkey_size (ekey e) + value_size (valuetypes (primary (ekey e))) (evalue e)"
  by (simp add: entry_bytes_def put_subkey_def put_value_def subkey_size_def value_size_def
      fontspec_serialise_def split: Type.split)

lemma size_loop_spec:
  assumes "wf234 t"
  shows "i \<le> length (elements t) \<Longrightarrow> size_loop t (int i) n
    = n + length (concat (map entry_bytes (drop i (elements t))))"
proof (induction "length (elements t) - i" arbitrary: i n)
  case 0
  with assms show ?case by (subst size_loop.simps) (simp add: index234_nth)
next
  case (Suc m)
  then have i: "i < length (elements t)" by simp
  with assms have "index234 t (int i) = Some (elements t ! i)" by (simp add: index234_nth)
  moreover from Suc.hyps(1) [of "Suc i"] Suc.hyps(2) i have
    "size_loop t (int i + 1) k = k + length (concat (map entry_bytes (drop (Suc i) (elements t))))" for k
    by (simp add: add.commute)
  ultimately show ?case
    using i by (subst size_loop.simps) (simp add: entry_bytes_length Cons_nth_drop_Suc [symmetric])
qed

lemma size_is_length:
  "conf_ok c \<Longrightarrow> conf_serialised_size c = length (conf_serialise c)"
  using size_loop_spec [of "tree c" 0 0]
  by (simp add: conf_serialised_size_def conf_serialise_spec conf_ok_def tree_ok_def)

section \<open>Reading it back\<close>

lemma word_toint [simp]: "word_of_int (toint w) = w"
  by (simp add: toint_sint)

text \<open>
  The reader at position \<open>p\<close> of the bytes, when what follows there is known: each reader
  gives back what was written and moves past it.
\<close>

lemma drop_past: "drop p data = bs @ rest \<Longrightarrow> drop (p + length bs) data = rest"
  by (metis add.commute append_eq_conv_conj drop_drop)

lemma get32_put:
  assumes "drop p data = PUT_32BIT_MSB_FIRST w @ rest"
  shows "get32 data p = Some w"
proof -
  have "length data - p = 4 + length rest" using arg_cong [OF assms, of length] by simp
  then show ?thesis by (simp add: get32_def assms)
qed

lemma memchr0_put:
  assumes "drop p data = s @ 0 # rest" and "cstr_ok s" and "int (length s) < n"
  shows "memchr0 data p n = Some (Some (p + length s))"
proof -
  have "takeWhile (\<lambda>b. b \<noteq> 0) (s @ 0 # rest) = s"
    using assms(2) by (subst takeWhile_append2) (auto simp: cstr_ok_def)
  moreover have "p + length s < length data"
    using arg_cong [OF assms(1), of length] by simp
  ultimately show ?thesis using assms by (simp add: memchr0_def)
qed

lemma dupstr_put: "drop p data = s @ 0 # rest \<Longrightarrow> cstr_ok s \<Longrightarrow> dupstr_at data p = Some s"
  by (simp add: dupstr_at_def)

lemma get_subkey_put:
  assumes "key_ok k" and "drop p data = put_subkey k @ rest" and "int (length (put_subkey k)) \<le> m"
  shows "get_subkey (subkeytypes (primary k)) data p m =
    Some (Some (secondary k, p + length (put_subkey k), m - int (length (put_subkey k))))"
  using assms memchr0_put [of p data "sec_s (secondary k)" rest m] dupstr_put [of p data "sec_s (secondary k)" rest]
    get32_put [of p data "sec_i (secondary k)" rest]
  by (cases "subkeytypes (primary k)"; cases "secondary k")
    (auto simp: get_subkey_def put_subkey_def key_ok_def)

lemma length_fontspec: "length (fontspec_serialise f) = length (fname f) + 13"
  by (simp add: fontspec_serialise_def)

lemma fontspec_roundtrip:
  assumes "cstr_ok (fname f)" and "drop p data = fontspec_serialise f @ rest"
    and "int (length (fontspec_serialise f)) \<le> m"
  shows "fontspec_deserialise data p m = Some (Some (f, int (length (fontspec_serialise f))))"
proof -
  let ?stop = "p + length (fname f) + 1"
  have d: "drop p data = fname f @ 0 # PUT_32BIT_MSB_FIRST (isbold f) @ PUT_32BIT_MSB_FIRST (height f)
      @ PUT_32BIT_MSB_FIRST (charset f) @ rest"
    using assms(2) by (simp add: fontspec_serialise_def)
  have d1: "drop ?stop data = PUT_32BIT_MSB_FIRST (isbold f) @ PUT_32BIT_MSB_FIRST (height f)
      @ PUT_32BIT_MSB_FIRST (charset f) @ rest"
    using drop_past [of p data "fname f @ [0]"] d by simp
  have d2: "drop (?stop + 4) data = PUT_32BIT_MSB_FIRST (height f) @ PUT_32BIT_MSB_FIRST (charset f) @ rest"
    using drop_past [OF d1] by (simp only: length_PUT_32BIT)
  have d3: "drop (?stop + 8) data = PUT_32BIT_MSB_FIRST (charset f) @ rest"
    using drop_past [OF d2] by (simp add: add.assoc)
  have "memchr0 data p (m - 12) = Some (Some (p + length (fname f)))"
    using memchr0_put [OF d assms(1)] assms(3) by (simp add: length_fontspec)
  then show ?thesis
    using dupstr_put [OF d assms(1)] get32_put [OF d1] get32_put [OF d2] get32_put [OF d3] assms(3)
    by (simp add: fontspec_deserialise_def Let_def length_fontspec add.assoc)
qed

lemma get_value_put:
  assumes "value_ok ty v" and "drop p data = put_value ty v @ rest" and "int (length (put_value ty v)) \<le> m"
  shows "get_value ty data p m =
    Some (Some (v, p + length (put_value ty v), m - int (length (put_value ty v))))"
proof (cases ty)
  case TYPE_FONT
  then show ?thesis using assms fontspec_roundtrip [of _ p data rest m]
    by (cases v) (auto simp: get_value_def put_value_def)
next
  case TYPE_FILENAME
  then show ?thesis using assms memchr0_put [of p data _ rest m] dupstr_put [of p data _ rest]
    by (cases v) (auto simp: get_value_def put_value_def filename_serialise_def filename_deserialise_def)
next
  case TYPE_STR
  then show ?thesis using assms memchr0_put [of p data _ rest m] dupstr_put [of p data _ rest]
    by (cases v) (auto simp: get_value_def put_value_def)
next
  case TYPE_INT
  then show ?thesis using assms get32_put [of p data _ rest]
    by (cases v) (auto simp: get_value_def put_value_def)
qed (use assms in \<open>cases v; auto simp: get_value_def put_value_def\<close>)

lemma N_CONFIG_OPTIONS_204: "N_CONFIG_OPTIONS = 204"
  by (simp add: N_CONFIG_OPTIONS_def CONFIG_OPTIONS_def)

lemma deserialise_entry:
  assumes "entry_ok e" and "drop p data = entry_bytes e @ rest" and "int (length (entry_bytes e)) \<le> m"
  shows "deserialise_loop c data p m =
    (case conf_insert c e of None \<Rightarrow> None
     | Some c' \<Rightarrow> deserialise_loop c' data (p + length (entry_bytes e)) (m - int (length (entry_bytes e))))"
proof -
  obtain n s v where e: "e = \<lparr>ekey = \<lparr>primary = n, secondary = s\<rparr>, evalue = v\<rparr>"
    by (metis conf_entry.cases conf_key.cases)
  let ?k = "\<lparr>primary = n, secondary = s\<rparr>"
  from assms(1) have n: "n < 204" "key_ok ?k" "value_ok (valuetypes n) v"
    by (simp_all add: e entry_ok_def N_CONFIG_OPTIONS_204)
  have u: "unat (word_of_nat n :: 32 word) = n" using n(1) by (simp add: unat_of_nat)
  have d: "drop p data = PUT_32BIT_MSB_FIRST (of_nat n) @ put_subkey ?k @ put_value (valuetypes n) v @ rest"
    using assms(2) by (simp add: e entry_bytes_def)
  have d1: "drop (p + 4) data = put_subkey ?k @ put_value (valuetypes n) v @ rest"
    using drop_past [OF d] by (simp only: length_PUT_32BIT)
  have m: "4 + int (length (put_subkey ?k)) + int (length (put_value (valuetypes n) v)) \<le> m"
    using assms(3) by (simp add: e entry_bytes_def)
  have s: "get_subkey (subkeytypes n) data (p + 4) (m - 4) = Some (Some (s, p + 4 + length (put_subkey ?k),
      m - 4 - int (length (put_subkey ?k))))"
    using get_subkey_put [OF n(2) d1] m by simp
  have v: "get_value (valuetypes n) data (p + 4 + length (put_subkey ?k)) (m - 4 - int (length (put_subkey ?k)))
      = Some (Some (v, p + 4 + length (put_subkey ?k) + length (put_value (valuetypes n) v),
          m - 4 - int (length (put_subkey ?k)) - int (length (put_value (valuetypes n) v))))"
    using get_value_put [OF n(3) drop_past [OF d1]] m by simp
  have l: "p + length (entry_bytes e) = p + 4 + length (put_subkey ?k) + length (put_value (valuetypes n) v)"
    "m - int (length (entry_bytes e)) = m - 4 - int (length (put_subkey ?k)) - int (length (put_value (valuetypes n) v))"
    by (simp_all add: e entry_bytes_def)
  have "\<not> m < 4" using m by simp
  then show ?thesis
    unfolding l using s v u n(1) get32_put [OF d]
    by (subst deserialise_loop.simps) (simp add: e N_CONFIG_OPTIONS_204)
qed

fun insert_entries :: "conf \<Rightarrow> conf_entry list \<Rightarrow> conf option" where
  "insert_entries c [] = Some c"
| "insert_entries c (e # es) = (case conf_insert c e of None \<Rightarrow> None | Some c' \<Rightarrow> insert_entries c' es)"

lemma deserialise_entries:
  assumes "\<forall>e \<in> set es. entry_ok e" and "drop p data = concat (map entry_bytes es) @ rest"
    and "int (length (concat (map entry_bytes es))) \<le> m"
  shows "deserialise_loop c data p m =
    (case insert_entries c es of None \<Rightarrow> None
     | Some c' \<Rightarrow> deserialise_loop c' data (p + length (concat (map entry_bytes es)))
         (m - int (length (concat (map entry_bytes es)))))"
  using assms
proof (induction es arbitrary: c p m)
  case (Cons e es)
  from Cons.prems have e: "entry_ok e" "drop p data = entry_bytes e @ concat (map entry_bytes es) @ rest"
    "int (length (entry_bytes e)) \<le> m" by simp_all
  have IH: "deserialise_loop c' data (p + length (entry_bytes e)) (m - int (length (entry_bytes e))) =
      (case insert_entries c' es of None \<Rightarrow> None
       | Some c'' \<Rightarrow> deserialise_loop c'' data (p + length (entry_bytes e) + length (concat (map entry_bytes es)))
           (m - int (length (entry_bytes e)) - int (length (concat (map entry_bytes es)))))" for c'
    using Cons.prems drop_past [OF e(2)] by (intro Cons.IH) simp_all
  show ?case unfolding deserialise_entry [OF e] by (auto simp: IH algebra_simps split: option.split)
qed simp

lemma insert_entries_spec:
  "conf_ok c \<Longrightarrow> \<forall>e \<in> set es. entry_ok e \<Longrightarrow>
   \<exists>c'. insert_entries c es = Some c' \<and> conf_ok c' \<and>
     (\<forall>k. key_ok k \<longrightarrow> conf_map c' k
        = (conf_map c ++ map_of (rev (map (\<lambda>e. (ekey e, evalue e)) es))) k)"
proof (induction es arbitrary: c)
  case Nil
  then show ?case by simp
next
  case (Cons e es)
  from conf_insert_spec [of c e] Cons.prems obtain c1 where c1: "conf_insert c e = Some c1" "conf_ok c1"
    "\<forall>k. key_ok k \<longrightarrow> conf_map c1 k = (if k = ekey e then Some (evalue e) else conf_map c k)" by auto
  from Cons.IH [OF c1(2)] Cons.prems obtain c2 where c2: "insert_entries c1 es = Some c2" "conf_ok c2"
    "\<forall>k. key_ok k \<longrightarrow> conf_map c2 k
       = (conf_map c1 ++ map_of (rev (map (\<lambda>e. (ekey e, evalue e)) es))) k" by auto
  have "conf_map c2 k = (conf_map c ++ map_of (rev (map (\<lambda>e. (ekey e, evalue e)) (e # es)))) k"
    if "key_ok k" for k
    using that c1(3) c2(3) by (auto simp: map_add_def map_of_append split: option.split)
  with c1 c2 show ?case by auto
qed

lemma deserialise_end:
  "drop p data = PUT_32BIT_MSB_FIRST 0xFFFFFFFF @ rest \<Longrightarrow> 4 \<le> m \<Longrightarrow>
   deserialise_loop c data p m = Some (p + 4, c)"
  using get32_put [of p data "0xFFFFFFFF" rest]
  by (subst deserialise_loop.simps) (simp add: N_CONFIG_OPTIONS_204 Let_def)

lemma elements_distinct_keys: "conf_ok c \<Longrightarrow> distinct (map ekey (elements (tree c)))"
  by (auto simp: conf_ok_def tree_ok_def sorted_by_def sorted_wrt_iff_nth_less distinct_conv_nth)
    (metis conf_order.cmp_refl less_irrefl linorder_neqE_nat)

lemma conf_map_of:
  assumes "conf_ok c" and "key_ok k"
  shows "conf_map c k = map_of (map (\<lambda>e. (ekey e, evalue e)) (elements (tree c))) k"
proof (cases "lookup_key conf_cmp ekey k (elements (tree c))")
  case None
  then have "\<forall>e \<in> set (elements (tree c)). conf_cmp k (ekey e) \<noteq> 0"
    by (auto simp: lookup_key_def dest: hit_NoneD)
  then have "k \<notin> set (map ekey (elements (tree c)))" by auto
  then have "map_of (map (\<lambda>e. (ekey e, evalue e)) (elements (tree c))) k = None"
    by (simp add: map_of_eq_None_iff image_image)
  then show ?thesis by (simp add: conf_map_def None)
next
  case (Some x)
  then have "x \<in> set (elements (tree c))" "ekey x = k"
    using lookup_key_eq [OF assms(1) Some assms(2)] conf_store.lookup_iff [OF conf_ok_tree [OF assms(1)]]
    by auto
  then have "(k, evalue x) \<in> set (map (\<lambda>e. (ekey e, evalue e)) (elements (tree c)))" by auto
  then show ?thesis
    using elements_distinct_keys [OF assms(1)] Some
    by (subst map_of_is_SomeI) (auto simp: conf_map_def comp_def)
qed

text \<open>The map determines the sequence of the entries.\<close>

lemma sorted_by_unique:
  "cmp_order f \<Longrightarrow> sorted_by f xs \<Longrightarrow> sorted_by f ys \<Longrightarrow> set xs = set ys \<Longrightarrow> xs = ys"
proof (induction xs arbitrary: ys)
  case Nil
  then show ?case by simp
next
  case (Cons x xs)
  then obtain y zs where ys: "ys = y # zs" by (cases ys) auto
  have irrefl: "f z z = 0" for z by (rule cmp_order.cmp_refl [OF Cons.prems(1)])
  have sx: "\<forall>z \<in> set xs. f x z < 0" "sorted_by f xs" and sy: "\<forall>z \<in> set zs. f y z < 0" "sorted_by f zs"
    using Cons.prems(2,3) by (auto simp: sorted_by_def ys)
  have "x = y"
  proof (rule ccontr)
    assume "x \<noteq> y"
    with Cons.prems(4) ys have "x \<in> set zs" "y \<in> set xs" by auto
    with sx sy have "f y x < 0" "f x y < 0" by auto
    with cmp_order.cmp_swap [OF Cons.prems(1), of x y] show False by simp
  qed
  moreover have "set xs = set zs"
  proof -
    have "x \<notin> set xs" "x \<notin> set zs" using sx(1) sy(1) irrefl [of x] \<open>x = y\<close> by fastforce+
    with Cons.prems(4) ys \<open>x = y\<close> show ?thesis by (simp add: insert_ident)
  qed
  ultimately show ?case using Cons.IH [OF Cons.prems(1) sx(2) sy(2)] ys by simp
qed

lemma conf_map_member:
  assumes "conf_ok c"
  shows "e \<in> set (elements (tree c)) \<longleftrightarrow> entry_ok e \<and> conf_map c (ekey e) = Some (evalue e)"
proof
  assume "e \<in> set (elements (tree c))"
  with assms conf_store.lookup_member [OF conf_ok_tree [OF assms]]
  show "entry_ok e \<and> conf_map c (ekey e) = Some (evalue e)" by (auto simp: conf_ok_def conf_map_def)
next
  assume e: "entry_ok e \<and> conf_map c (ekey e) = Some (evalue e)"
  then obtain x where x: "lookup_key conf_cmp ekey (ekey e) (elements (tree c)) = Some x" "evalue x = evalue e"
    by (auto simp: conf_map_def)
  with lookup_key_eq [OF assms x(1)] e have "x = e" by (simp add: entry_ok_def)
  with x conf_store.lookup_iff [OF conf_ok_tree [OF assms]] show "e \<in> set (elements (tree c))" by simp
qed

lemma conf_map_determines:
  assumes "conf_ok c" "conf_ok c'" and "\<And>k. key_ok k \<Longrightarrow> conf_map c k = conf_map c' k"
  shows "elements (tree c) = elements (tree c')"
proof (rule sorted_by_unique [OF cmp_order_pullback [OF conf_cmp_order, of ekey]])
  show "set (elements (tree c)) = set (elements (tree c'))"
    using conf_map_member assms by (auto simp: entry_ok_def)
qed (use assms in \<open>simp_all add: conf_ok_def tree_ok_def\<close>)

lemma deserialise_serialise_map:
  assumes "conf_ok c" and "conf_ok base" and "int (length (conf_serialise c)) \<le> m"
  shows "\<exists>c'. conf_deserialise base (conf_serialise c @ rest) m = Some (conf_serialised_size c, c')
    \<and> conf_ok c' \<and> (\<forall>k. key_ok k \<longrightarrow> conf_map c' k = (conf_map base ++ conf_map c) k)"
proof -
  let ?es = "elements (tree c)" and ?data = "conf_serialise c @ rest"
  let ?n = "length (concat (map entry_bytes (elements (tree c))))"
  have ok: "\<forall>e \<in> set ?es. entry_ok e" using assms(1) by (simp add: conf_ok_def)
  from insert_entries_spec [OF assms(2) ok] obtain c' where c': "insert_entries base ?es = Some c'" "conf_ok c'"
    "\<forall>k. key_ok k \<longrightarrow> conf_map c' k = (conf_map base ++ map_of (rev (map (\<lambda>e. (ekey e, evalue e)) ?es))) k"
    by blast
  have "map_of (rev (map (\<lambda>e. (ekey e, evalue e)) ?es)) = map_of (map (\<lambda>e. (ekey e, evalue e)) ?es)"
    using elements_distinct_keys [OF assms(1)] by (subst map_of_inject_set) (simp_all add: comp_def rev_map [symmetric])
  then have "conf_map c' k = (conf_map base ++ conf_map c) k" if "key_ok k" for k
    using that c'(3) conf_map_of [OF assms(1) that] by (simp add: map_add_def)
  moreover have "deserialise_loop base ?data 0 m = Some (length (conf_serialise c), c')"
  proof -
    have d: "drop 0 ?data = concat (map entry_bytes ?es) @ PUT_32BIT_MSB_FIRST 0xFFFFFFFF @ rest"
      by (simp add: conf_serialise_spec [OF assms(1)])
    have l: "length (conf_serialise c) = ?n + 4" by (simp add: conf_serialise_spec [OF assms(1)])
    have m: "int ?n \<le> m" "4 \<le> m - int ?n" using assms(3) l by simp_all
    from deserialise_entries [OF ok d m(1)] deserialise_end [OF drop_past [OF d] m(2)] c'(1) l
    show ?thesis by simp
  qed
  ultimately show ?thesis
    using c'(2) size_is_length [OF assms(1)] by (simp add: conf_deserialise_def)
qed


section \<open>Malformed input\<close>

text \<open>As long as \<open>maxsize\<close> bytes may be read at the position, no reader reads beyond them.\<close>

lemma get32_within: "int p + m \<le> int (length data) \<Longrightarrow> 4 \<le> m \<Longrightarrow> \<exists>w. get32 data p = Some w"
  by (simp add: get32_def)

lemma memchr0_within: "int p + n \<le> int (length data) \<Longrightarrow> 0 \<le> n \<Longrightarrow> \<exists>r. memchr0 data p n = Some r"
  by (auto simp: memchr0_def Let_def)

lemma dupstr_within:
  assumes "memchr0 data p n = Some (Some zero)"
  shows "\<exists>s. dupstr_at data p = Some s \<and> cstr_ok s"
proof -
  from assms have "length (takeWhile (\<lambda>b. b \<noteq> 0) (drop p data)) < length (drop p data)"
    by (auto simp: memchr0_def Let_def split: if_splits)
  then have "dropWhile (\<lambda>b. b \<noteq> 0) (drop p data) \<noteq> []"
    by (metis append.right_neutral less_irrefl takeWhile_dropWhile_id)
  then obtain z zs where "dropWhile (\<lambda>b. b \<noteq> 0) (drop p data) = z # zs"
    by (cases "dropWhile (\<lambda>b. b \<noteq> 0) (drop p data)") auto
  then obtain s rest where "split_nul (drop p data) = Some (s, rest)"
    by (simp add: split_nul_def)
  then show ?thesis using split_nul_SomeD(2) by (auto simp: dupstr_at_def)
qed

definition moved_within :: "nat \<Rightarrow> int \<Rightarrow> nat \<Rightarrow> int \<Rightarrow> bool" where
  "moved_within p m p' m' \<longleftrightarrow> 0 \<le> m' \<and> int p' + m' = int p + m"

lemma get_subkey_within:
  assumes "int p + m \<le> int (length data)" and "0 \<le> m" and "ty \<in> {TYPE_NONE, TYPE_INT, TYPE_STR}"
  shows "get_subkey ty data p m = Some None \<or>
    (\<exists>sec p' m'. get_subkey ty data p m = Some (Some (sec, p', m')) \<and> secondary_ok ty sec \<and> moved_within p m p' m')"
proof (cases ty)
  case TYPE_INT
  then show ?thesis using get32_within [OF assms(1)] by (auto simp: get_subkey_def moved_within_def)
next
  case TYPE_STR
  from memchr0_within [OF assms(1,2)] obtain r where r: "memchr0 data p m = Some r" ..
  show ?thesis
  proof (cases r)
    case (Some zero)
    with r dupstr_within [of data p m zero] memchr0_at [of data p m zero] assms(2) TYPE_STR
    show ?thesis by (auto simp: get_subkey_def moved_within_def)
  qed (use r TYPE_STR in \<open>simp add: get_subkey_def\<close>)
qed (use assms in \<open>auto simp: get_subkey_def moved_within_def\<close>)

lemma fontspec_within:
  assumes "int p + m \<le> int (length data)"
  shows "fontspec_deserialise data p m = Some None \<or>
    (\<exists>f used. fontspec_deserialise data p m = Some (Some (f, used)) \<and> cstr_ok (fname f) \<and> 0 \<le> used \<and> used \<le> m)"
proof (cases "m < 13")
  case False
  with memchr0_within [of p "m - 12" data] assms obtain r where r: "memchr0 data p (m - 12) = Some r" by auto
  show ?thesis
  proof (cases r)
    case (Some zero)
    with r memchr0_at [of data p "m - 12" zero] False
    have z: "p \<le> zero" "int zero < int p + m - 12" by auto
    have "\<exists>w. get32 data (zero + 1) = Some w" "\<exists>w. get32 data (zero + 1 + 4) = Some w"
      "\<exists>w. get32 data (zero + 1 + 8) = Some w"
      using z assms by (simp_all add: get32_def)
    moreover from r Some dupstr_within [of data p "m - 12" zero] obtain s where
      "dupstr_at data p = Some s" "cstr_ok s" by auto
    ultimately show ?thesis using r Some z False by (auto simp: fontspec_deserialise_def Let_def)
  qed (use r False in \<open>simp add: fontspec_deserialise_def\<close>)
qed (simp add: fontspec_deserialise_def)

lemma filename_within:
  assumes "int p + m \<le> int (length data)" and "0 \<le> m"
  shows "filename_deserialise data p m = Some None \<or>
    (\<exists>f used. filename_deserialise data p m = Some (Some (f, used)) \<and> cstr_ok f \<and> 0 \<le> used \<and> used \<le> m)"
proof -
  from memchr0_within [OF assms] obtain r where r: "memchr0 data p m = Some r" ..
  show ?thesis
  proof (cases r)
    case (Some zero)
    with r dupstr_within [of data p m zero] memchr0_at [of data p m zero] assms(2)
    show ?thesis by (auto simp: filename_deserialise_def)
  qed (use r in \<open>simp add: filename_deserialise_def\<close>)
qed

lemma get_value_within:
  assumes "int p + m \<le> int (length data)" and "0 \<le> m" and "ty \<noteq> TYPE_NONE"
  shows "get_value ty data p m = Some None \<or>
    (\<exists>v p' m'. get_value ty data p m = Some (Some (v, p', m')) \<and> value_ok ty v \<and> moved_within p m p' m')"
proof (cases ty)
  case TYPE_INT
  then show ?thesis using get32_within [OF assms(1)] by (auto simp: get_value_def moved_within_def)
next
  case TYPE_STR
  from memchr0_within [OF assms(1,2)] obtain r where r: "memchr0 data p m = Some r" ..
  show ?thesis
  proof (cases r)
    case (Some zero)
    with r dupstr_within [of data p m zero] memchr0_at [of data p m zero] assms(2) TYPE_STR
    show ?thesis by (auto simp: get_value_def moved_within_def)
  qed (use r TYPE_STR in \<open>simp add: get_value_def\<close>)
next
  case TYPE_FILENAME
  then show ?thesis using filename_within [OF assms(1,2)] by (auto simp: get_value_def moved_within_def)
next
  case TYPE_FONT
  then show ?thesis using fontspec_within [OF assms(1)] by (auto simp: get_value_def moved_within_def)
qed (use assms in simp)

lemma option_types:
  "\<forall>(v, k, n) \<in> set CONFIG_OPTIONS. k \<in> {TYPE_NONE, TYPE_INT, TYPE_STR} \<and> v \<noteq> TYPE_NONE"
proof -
  have "list_all (\<lambda>(v, k, n). k \<in> {TYPE_NONE, TYPE_INT, TYPE_STR} \<and> v \<noteq> TYPE_NONE) CONFIG_OPTIONS"
    by code_simp
  then show ?thesis by (simp only: list_all_iff)
qed

lemma table_types:
  "p < N_CONFIG_OPTIONS \<Longrightarrow> subkeytypes p \<in> {TYPE_NONE, TYPE_INT, TYPE_STR} \<and> valuetypes p \<noteq> TYPE_NONE"
  using bspec [OF option_types, of "CONFIG_OPTIONS ! p"]
  by (auto simp: subkeytypes_def valuetypes_def N_CONFIG_OPTIONS_def split: prod.splits)

lemma deserialise_loop_safe:
  "conf_ok c \<Longrightarrow> int p + m \<le> int (length data) \<Longrightarrow> \<exists>p' c'. deserialise_loop c data p m = Some (p', c') \<and> conf_ok c'
    \<and> p \<le> p' \<and> int p' \<le> int p + max 0 m"
proof (induction c data p m rule: deserialise_loop.induct)
  case (1 c data p m)
  show ?case
  proof (cases "m < 4")
    case True
    with 1(2) show ?thesis by (subst deserialise_loop.simps) auto
  next
    case m: False
    with get32_within [OF 1(3)] obtain w where w: "get32 data p = Some w" by auto
    let ?n = "unat w"
    have m1: "int (p + 4) + (m - 4) \<le> int (length data)" "0 \<le> m - 4" using 1(3) m by simp_all
    show ?thesis
    proof (cases "N_CONFIG_OPTIONS \<le> ?n \<or> get_subkey (subkeytypes ?n) data (p + 4) (m - 4) = Some None")
      case True
      with 1(2) w m show ?thesis by (subst deserialise_loop.simps) (auto simp: Let_def)
    next
      case False
      then have n: "\<not> N_CONFIG_OPTIONS \<le> ?n" by simp
      with table_types [of ?n] get_subkey_within [OF m1, of "subkeytypes ?n"] False obtain sec p2 m2 where
        s: "get_subkey (subkeytypes ?n) data (p + 4) (m - 4) = Some (Some (sec, p2, m2))"
          "secondary_ok (subkeytypes ?n) sec" "moved_within (p + 4) (m - 4) p2 m2" by auto
      have m2: "int p2 + m2 \<le> int (length data)" "0 \<le> m2" using s(3) m1 by (auto simp: moved_within_def)
      have le2: "int p2 \<le> int p + m" using s(3) by (simp add: moved_within_def)
      have ge2: "p \<le> p2" using get_subkey_less [OF s(1)] s(3) by (simp add: moved_within_def)
      show ?thesis
      proof (cases "get_value (valuetypes ?n) data p2 m2 = Some None")
        case True
        with 1(2) w m n s(1) le2 ge2 show ?thesis by (subst deserialise_loop.simps) (simp add: Let_def)
      next
        case False
        with table_types [of ?n] n get_value_within [OF m2(1,2), of "valuetypes ?n"] obtain v p3 m3 where
          v: "get_value (valuetypes ?n) data p2 m2 = Some (Some (v, p3, m3))"
            "value_ok (valuetypes ?n) v" "moved_within p2 m2 p3 m3" by auto
        let ?e = "\<lparr>ekey = \<lparr>primary = ?n, secondary = sec\<rparr>, evalue = v\<rparr>"
        have "entry_ok ?e" using n s(2) v(2) by (simp add: entry_ok_def)
        from conf_insert_spec [OF 1(2) this] obtain c' where c': "conf_insert c ?e = Some c'" "conf_ok c'"
          by blast
        have m3: "int p3 + m3 \<le> int (length data)" "0 \<le> m3" "int p3 + m3 \<le> int p + m" "p2 \<le> p3"
          using v(3) m2 s(3) get_value_less [OF v(1)] by (auto simp: moved_within_def)
        from 1(1) [OF m w refl refl refl n s(1) refl refl refl v(1) refl refl refl c'(1) c'(2) m3(1)]
        obtain p' c'' where "deserialise_loop c' data p3 m3 = Some (p', c'')" "conf_ok c''" "p3 \<le> p'"
          "int p' \<le> int p3 + max 0 m3" by auto
        moreover have "deserialise_loop c data p m = deserialise_loop c' data p3 m3"
          using m w n s(1) v(1) c'(1) by (subst deserialise_loop.simps) (simp add: Let_def)
        ultimately show ?thesis using m3 ge2 by auto
      qed
    qed
  qed
qed

section \<open>Enumeration of the subkeys\<close>

definition conf_group :: "conf \<Rightarrow> nat \<Rightarrow> conf_entry list" where
  "conf_group c p = filter (\<lambda>e. primary (ekey e) = p) (elements (tree c))"

lemma split_by_primary:
  "sorted_wrt (\<lambda>x y. f x \<le> (f y :: nat)) xs \<Longrightarrow>
   xs = filter (\<lambda>x. f x < p) xs @ filter (\<lambda>x. f x = p) xs @ filter (\<lambda>x. p < f x) xs"
proof (induction xs)
  case Nil
  then show ?case by simp
next
  case (Cons x xs)
  then have IH: "xs = filter (\<lambda>x. f x < p) xs @ filter (\<lambda>x. f x = p) xs @ filter (\<lambda>x. p < f x) xs"
    and le: "\<forall>y \<in> set xs. f x \<le> f y" by simp_all
  consider "f x < p" | "f x = p" | "p < f x" by linarith
  then show ?case
  proof cases
    case 1
    with IH show ?thesis by simp
  next
    case 2
    with le have "filter (\<lambda>x. f x < p) xs = []" by (auto simp: filter_empty_conv)
    with 2 IH show ?thesis by simp
  next
    case 3
    with le have "filter (\<lambda>x. f x < p) xs = []" "filter (\<lambda>x. f x = p) xs = []"
      by (auto simp: filter_empty_conv)
    with 3 IH show ?thesis by simp
  qed
qed

lemma elements_groups:
  assumes "conf_ok c"
  obtains A C where "elements (tree c) = A @ conf_group c p @ C"
    and "\<And>e. e \<in> set A \<Longrightarrow> primary (ekey e) < p" and "\<And>e. e \<in> set C \<Longrightarrow> p < primary (ekey e)"
proof
  have "sorted_wrt (\<lambda>x y. primary (ekey x) \<le> primary (ekey y)) (elements (tree c))"
    using assms unfolding conf_ok_def tree_ok_def sorted_by_def
    by (elim conjE sorted_wrt_mono_rel [rotated]) (auto simp: conf_cmp_def split: if_splits)
  from split_by_primary [OF this, of p] show "elements (tree c)
    = filter (\<lambda>x. primary (ekey x) < p) (elements (tree c)) @ conf_group c p
      @ filter (\<lambda>x. p < primary (ekey x)) (elements (tree c))"
    by (simp add: conf_group_def)
qed auto

lemma conf_cmp_constkey_eq: "conf_cmp_constkey = conf_cmp"
  by (intro ext) (simp add: conf_cmp_constkey_def conf_cmp_def)

lemma rank_hit_append:
  assumes "\<And>x. x \<in> set as \<Longrightarrow> 0 < g x"
  shows "rank g (as @ bs) = length as + rank g bs" and "hit g (as @ bs) = hit g bs"
  using assms by (induction as) (force simp: rank_def hit_def)+

lemma rank_hit_below: "(\<And>x. x \<in> set cs \<Longrightarrow> g x < 0) \<Longrightarrow> rank g cs = 0 \<and> hit g cs = None"
  by (cases cs) (force simp: rank_def hit_def find_None_iff)+

lemma group_found:
  assumes "conf_ok c" and "subkeytypes p = TYPE_STR" and "elements (tree c) = A @ conf_group c p @ C"
    and "\<And>e. e \<in> set A \<Longrightarrow> primary (ekey e) < p" and "\<And>e. e \<in> set C \<Longrightarrow> p < primary (ekey e)"
  shows "findrelpos234 (tree c) (Some \<lparr>primary = p, secondary = SubStr []\<rparr>) (\<lambda>k x. conf_cmp k (ekey x)) REL234_GE
    = Some (nth_opt (elements (tree c)) (int (length A)))"
proof -
  let ?k = "\<lparr>primary = p, secondary = SubStr []\<rparr>"
  let ?g = "\<lambda>x. conf_cmp ?k (ekey x)"
  let ?xs = "elements (tree c)"
  have A: "0 < ?g e" if "e \<in> set A" for e using assms(4) [OF that] by (simp add: conf_cmp_def)
  have C: "?g e < 0" if "e \<in> set C" for e using assms(5) [OF that] by (simp add: conf_cmp_def)
  have B: "?g e = strcmp [] (sec_s (secondary (ekey e)))" if "e \<in> set (conf_group c p)" for e
    using that assms(2) by (simp add: conf_cmp_def conf_group_def)
  have tail: "rank ?g (conf_group c p @ C) = 0
      \<and> (\<forall>x. hit ?g (conf_group c p @ C) = Some x \<longrightarrow> conf_group c p \<noteq> [] \<and> x = hd (conf_group c p))"
  proof (cases "conf_group c p")
    case Nil
    with rank_hit_below [of C ?g] C show ?thesis by simp
  next
    case (Cons b bs)
    with B [of b] have b: "?g b \<le> 0" by (cases "sec_s (secondary (ekey b))") auto
    have m: "mono_key ?g (b # bs @ C)"
      using conf_store.mono_lookup [OF conf_ok_tree [OF assms(1)], of ?k] assms(3) Cons
      by (auto simp: mono_key_def sorted_wrt_append)
    have "?g y < 0" if "y \<in> set (bs @ C)" for y using m b that by (auto simp: mono_key_def)
    then have "hit ?g (bs @ C) = None" using rank_hit_below [of "bs @ C" ?g] by blast
    with b Cons show ?thesis by (auto simp: rank_def hit_def split: if_splits)
  qed
  have r: "rank ?g ?xs = length A" "hit ?g ?xs = hit ?g (conf_group c p @ C)"
    using rank_hit_append [of A ?g "conf_group c p @ C", OF A] tail assms(3) by simp_all
  have "findrelpos234 (tree c) (Some ?k) (\<lambda>k x. conf_cmp k (ekey x)) REL234_GE = Some (rel_spec ?g REL234_GE ?xs)"
    using conf_ok_tree [OF assms(1)] conf_store.mono_lookup [OF conf_ok_tree [OF assms(1)], of ?k]
    by (intro findrelpos234_spec) (simp_all add: tree_ok_def)
  also have "rel_spec ?g REL234_GE ?xs = nth_opt ?xs (int (length A))"
  proof (cases "hit ?g ?xs")
    case None
    with r show ?thesis by (simp add: rel_spec_def Let_def)
  next
    case (Some x)
    with r tail have "conf_group c p \<noteq> []" "x = hd (conf_group c p)" by auto
    with assms(3) have "nth_opt ?xs (int (length A)) = Some (x, int (length A))"
      by (cases "conf_group c p") (simp_all add: nth_opt_def nth_append)
    with Some r(1) show ?thesis by (simp only: rel_spec_def Let_def rel234.case option.case)
  qed
  finally show ?thesis .
qed

definition entry_pair :: "conf_entry \<Rightarrow> cstring \<times> cstring" where
  "entry_pair e = (sec_s (secondary (ekey e)), stringval (evalue e))"

lemma group_nth:
  assumes "elements (tree c) = A @ conf_group c p @ C"
    and "\<And>e. e \<in> set A \<Longrightarrow> primary (ekey e) < p" and "\<And>e. e \<in> set C \<Longrightarrow> p < primary (ekey e)"
  shows "(case nth_opt (elements (tree c)) (int (length A) + i) of
      None \<Rightarrow> None | Some (e, j) \<Rightarrow> if primary (ekey e) \<noteq> p then None else Some (f e))
    = (if 0 \<le> i \<and> i < int (length (conf_group c p)) then Some (f (conf_group c p ! nat i)) else None)"
proof -
  let ?B = "conf_group c p"
  have pB: "primary (ekey (?B ! j)) = p" if "j < length ?B" for j
    using nth_mem [OF that] by (simp add: conf_group_def)
  show ?thesis
  proof (cases "0 \<le> i \<and> i < int (length ?B)")
    case True
    then obtain n where n: "i = int n" "n < length ?B" by (metis nonneg_int_cases of_nat_less_iff)
    with pB [OF n(2)] show ?thesis
      by (simp add: nth_opt_def assms(1) nth_append nat_int_add)
  next
    case False
    show ?thesis
    proof (cases "0 \<le> int (length A) + i \<and> int (length A) + i < int (length (elements (tree c)))")
      case True
      define j where "j = nat (int (length A) + i)"
      have "primary (ekey (elements (tree c) ! j)) \<noteq> p"
      proof (cases "i < 0")
        case True
        then have "j < length A" using \<open>0 \<le> int (length A) + i \<and> _\<close> by (auto simp: j_def)
        then have "primary (ekey (A ! j)) < p" using assms(2) nth_mem by blast
        with \<open>j < length A\<close> show ?thesis by (simp add: assms(1) nth_append)
      next
        case False
        then have j: "length A + length ?B \<le> j" "j - length A - length ?B < length C"
          using \<open>\<not> (0 \<le> i \<and> _)\<close> True by (auto simp: j_def assms(1))
        then have "p < primary (ekey (C ! (j - length A - length ?B)))" using assms(3) nth_mem by blast
        moreover have "\<not> j < length A" "\<not> j - length A < length ?B" using j by simp_all
        ultimately show ?thesis by (simp add: assms(1) nth_append)
      qed
      with True False show ?thesis by (simp add: nth_opt_def j_def [symmetric])
    next
      case out: False
      have "nth_opt (elements (tree c)) (int (length A) + i) = None" using out by (auto simp: nth_opt_def)
      then show ?thesis using False by auto
    qed
  qed
qed

lemma conf_get_first_spec:
  assumes "conf_ok c" and "subkeytypes p = TYPE_STR" and "valuetypes p = TYPE_STR"
  shows "conf_get_str_strs c p None
    = Some (case conf_group c p of [] \<Rightarrow> None | e # es \<Rightarrow> Some (entry_pair e))"
proof -
  from elements_groups [OF assms(1)] obtain A C where s: "elements (tree c) = A @ conf_group c p @ C"
    "\<And>e. e \<in> set A \<Longrightarrow> primary (ekey e) < p" "\<And>e. e \<in> set C \<Longrightarrow> p < primary (ekey e)" by blast
  from group_nth [OF s, where i = 0 and f = entry_pair] group_found [OF assms(1,2) s] assms(2,3) show ?thesis
    by (cases "conf_group c p")
      (auto simp: conf_get_str_strs_def findrel234_def conf_cmp_constkey_eq entry_pair_def Let_def
        split: option.splits if_splits)
qed

lemma conf_get_nth_spec:
  assumes "conf_ok c" and "subkeytypes p = TYPE_STR" and "valuetypes p = TYPE_STR"
  shows "conf_get_str_nthstrkey c p n
    = Some (if 0 \<le> n \<and> n < int (length (conf_group c p)) then Some (fst (entry_pair (conf_group c p ! nat n))) else None)"
proof -
  from elements_groups [OF assms(1)] obtain A C where s: "elements (tree c) = A @ conf_group c p @ C"
    "\<And>e. e \<in> set A \<Longrightarrow> primary (ekey e) < p" "\<And>e. e \<in> set C \<Longrightarrow> p < primary (ekey e)" by blast
  note g = group_nth [OF s, where i = 0 and f = id]
    group_nth [OF s, where i = n and f = "\<lambda>e. fst (entry_pair e)"]
  have i: "nth_opt (elements (tree c)) i = map_option (\<lambda>y. (y, i)) (index234 (tree c) i)" for i
    using assms(1) by (simp add: index234_nth_opt conf_ok_def tree_ok_def)
  show ?thesis
    using g group_found [OF assms(1,2) s] assms(2,3)
    by (auto simp: conf_get_str_nthstrkey_def conf_cmp_constkey_eq i entry_pair_def split: option.splits if_splits)
qed

lemma conf_get_next_spec:
  assumes "conf_ok c" and "subkeytypes p = TYPE_STR" and "valuetypes p = TYPE_STR"
    and "i < length (conf_group c p)"
  shows "conf_get_str_strs c p (Some (fst (entry_pair (conf_group c p ! i))))
    = Some (if Suc i < length (conf_group c p) then Some (entry_pair (conf_group c p ! Suc i)) else None)"
proof -
  from elements_groups [OF assms(1)] obtain A C where s: "elements (tree c) = A @ conf_group c p @ C"
    "\<And>e. e \<in> set A \<Longrightarrow> primary (ekey e) < p" "\<And>e. e \<in> set C \<Longrightarrow> p < primary (ekey e)" by blast
  let ?xs = "elements (tree c)" and ?e = "conf_group c p ! i"
  let ?k = "\<lparr>primary = p, secondary = SubStr (sec_s (secondary (ekey ?e)))\<rparr>"
  let ?g = "\<lambda>x. conf_cmp ?k (ekey x)"
  have e: "?e \<in> set ?xs" "primary (ekey ?e) = p"
    using nth_mem [OF assms(4)] by (auto simp: conf_group_def)
  have z: "?g ?e = 0" using e(2) assms(2) by (simp add: conf_cmp_def)
  note m = conf_store.mono_lookup [OF conf_ok_tree [OF assms(1)], of ?k]
  have at: "?xs ! (length A + i) = ?e" "length A + i < length ?xs"
    using assms(4) by (simp_all add: s(1) nth_append)
  have "?xs = take (length A + i) ?xs @ ?e # drop (Suc (length A + i)) ?xs"
    using id_take_nth_drop [OF at(2)] at(1) by simp
  with search_here [of ?g "take (length A + i) ?xs" ?e "drop (Suc (length A + i)) ?xs"] m z
  have h: "hit ?g ?xs = Some ?e" "rank ?g ?xs = length A + i"
    using at(2) by simp_all
  have "findrelpos234 (tree c) (Some ?k) (\<lambda>k x. conf_cmp k (ekey x)) REL234_GT = Some (rel_spec ?g REL234_GT ?xs)"
    using conf_ok_tree [OF assms(1)] m by (intro findrelpos234_spec) (simp_all add: tree_ok_def)
  also have "rel_spec ?g REL234_GT ?xs = nth_opt ?xs (int (length A) + int (Suc i))"
    using h by (simp add: rel_spec_def Let_def add.commute add.left_commute)
  finally show ?thesis
    using group_nth [OF s, where i = "int (Suc i)" and f = entry_pair] assms(2,3)
    by (auto simp: conf_get_str_strs_def findrel234_def entry_pair_def Let_def nat_add_distrib
        split: option.splits if_splits)
qed

end
