(* ===== verification/Conf_Props.thy ===== *)
theory Conf_Props
  imports Conf_Facts
begin

text \<open>
  The properties of the configuration store of \<open>putty/conf.c\<close>.  \<open>conf_ok\<close> is the
  invariant of a store (a well-formed tree in the order of \<open>conf_cmp\<close>, entries typed as the
  option table says); \<open>conf_map\<close> is its abstract content.
\<close>

section \<open>A store for the witnesses\<close>

lemma sample_types:
  "subkeytypes 0 = TYPE_NONE" "valuetypes 0 = TYPE_STR" "subkeytypes 1 = TYPE_NONE" "valuetypes 1 = TYPE_INT"
  "subkeytypes 49 = TYPE_STR" "valuetypes 49 = TYPE_STR" "subkeytypes 188 = TYPE_INT" "valuetypes 188 = TYPE_STR"
  by (simp_all add: subkeytypes_def valuetypes_def N_CONFIG_OPTIONS_204) (simp_all add: CONFIG_OPTIONS_def)

lemma sample_names: "CONF ''host'' = 0" "CONF ''port'' = 1" "CONF ''environmt'' = 49" "CONF ''expect'' = 188"
  by (simp_all add: CONF_def CONFIG_OPTIONS_def)

text \<open>Two environment variables and a port number, added in any order.\<close>

definition sample_entry :: "cstring \<Rightarrow> cstring \<Rightarrow> conf_entry" where
  "sample_entry s v = \<lparr>ekey = \<lparr>primary = 49, secondary = SubStr s\<rparr>, evalue = StrVal v\<rparr>"

definition sample :: conf where
  "sample = the (insert_entries conf_new
     [sample_entry [66] [50], \<lparr>ekey = \<lparr>primary = 1, secondary = NoSub\<rparr>, evalue = IntVal 23\<rparr>,
      sample_entry [65] [49, 50]])"

lemma sample_facts:
  "conf_ok sample"
  "key_ok k \<Longrightarrow> conf_map sample k = (map_of
     [(\<lparr>primary = 49, secondary = SubStr [65]\<rparr>, StrVal [49, 50]),
      (\<lparr>primary = 1, secondary = NoSub\<rparr>, IntVal 23),
      (\<lparr>primary = 49, secondary = SubStr [66]\<rparr>, StrVal [50])]) k"
proof -
  let ?es = "[sample_entry [66] [50], \<lparr>ekey = \<lparr>primary = 1, secondary = NoSub\<rparr>, evalue = IntVal 23\<rparr>,
      sample_entry [65] [49, 50]]"
  have "\<forall>e \<in> set ?es. entry_ok e"
    by (simp add: sample_entry_def entry_ok_def sample_types N_CONFIG_OPTIONS_204 cstr_ok_def del: One_nat_def)
  from insert_entries_spec [OF conf_new_ok this] obtain c' where c': "insert_entries conf_new ?es = Some c'"
    "conf_ok c'" "\<forall>k. key_ok k \<longrightarrow> conf_map c' k
       = (conf_map conf_new ++ map_of (rev (map (\<lambda>e. (ekey e, evalue e)) ?es))) k" by blast
  from c'(1) have s: "sample = c'" unfolding sample_def by (simp only: option.sel)
  show "conf_ok sample" using c'(2) s by simp
  show "key_ok k \<Longrightarrow> conf_map sample k = (map_of
     [(\<lparr>primary = 49, secondary = SubStr [65]\<rparr>, StrVal [49, 50]),
      (\<lparr>primary = 1, secondary = NoSub\<rparr>, IntVal 23),
      (\<lparr>primary = 49, secondary = SubStr [66]\<rparr>, StrVal [50])]) k"
    using c'(3) s by (auto simp: sample_entry_def map_add_def split: option.split)
qed

section \<open>Properties\<close>

text \<open>
  Claim C26: every setter of the configuration store, given an option of its types, succeeds
  (its internal \<open>assert\<close> holds, also when an old entry is replaced), keeps the store
  well-formed, and updates the abstract map at exactly its key.
\<close>

theorem conf_setters_update:
  assumes "conf_ok c"
  shows "(subkeytypes p = TYPE_NONE \<and> valuetypes p = TYPE_INT \<longrightarrow>
      (\<exists>c'. conf_set_int c p v = Some c' \<and> conf_ok c' \<and> (\<forall>k. key_ok k \<longrightarrow>
         conf_map c' k = ((conf_map c)(\<lparr>primary = p, secondary = NoSub\<rparr> \<mapsto> IntVal v)) k))) \<and>
    (subkeytypes p = TYPE_INT \<and> valuetypes p = TYPE_INT \<longrightarrow>
      (\<exists>c'. conf_set_int_int c p i v = Some c' \<and> conf_ok c' \<and> (\<forall>k. key_ok k \<longrightarrow>
         conf_map c' k = ((conf_map c)(\<lparr>primary = p, secondary = SubInt i\<rparr> \<mapsto> IntVal v)) k))) \<and>
    (subkeytypes p = TYPE_NONE \<and> valuetypes p = TYPE_STR \<and> cstr_ok s \<longrightarrow>
      (\<exists>c'. conf_set_str c p s = Some c' \<and> conf_ok c' \<and> (\<forall>k. key_ok k \<longrightarrow>
         conf_map c' k = ((conf_map c)(\<lparr>primary = p, secondary = NoSub\<rparr> \<mapsto> StrVal s)) k))) \<and>
    (subkeytypes p = TYPE_STR \<and> valuetypes p = TYPE_STR \<and> cstr_ok n \<and> cstr_ok s \<longrightarrow>
      (\<exists>c'. conf_set_str_str c p n s = Some c' \<and> conf_ok c' \<and> (\<forall>k. key_ok k \<longrightarrow>
         conf_map c' k = ((conf_map c)(\<lparr>primary = p, secondary = SubStr n\<rparr> \<mapsto> StrVal s)) k))) \<and>
    (subkeytypes p = TYPE_INT \<and> valuetypes p = TYPE_STR \<and> cstr_ok s \<longrightarrow>
      (\<exists>c'. conf_set_int_str c p i s = Some c' \<and> conf_ok c' \<and> (\<forall>k. key_ok k \<longrightarrow>
         conf_map c' k = ((conf_map c)(\<lparr>primary = p, secondary = SubInt i\<rparr> \<mapsto> StrVal s)) k))) \<and>
    (subkeytypes p = TYPE_NONE \<and> valuetypes p = TYPE_FILENAME \<and> cstr_ok s \<longrightarrow>
      (\<exists>c'. conf_set_filename c p s = Some c' \<and> conf_ok c' \<and> (\<forall>k. key_ok k \<longrightarrow>
         conf_map c' k = ((conf_map c)(\<lparr>primary = p, secondary = NoSub\<rparr> \<mapsto> FileVal s)) k))) \<and>
    (subkeytypes p = TYPE_NONE \<and> valuetypes p = TYPE_FONT \<and> cstr_ok (fname f) \<longrightarrow>
      (\<exists>c'. conf_set_fontspec c p f = Some c' \<and> conf_ok c' \<and> (\<forall>k. key_ok k \<longrightarrow>
         conf_map c' k = ((conf_map c)(\<lparr>primary = p, secondary = NoSub\<rparr> \<mapsto> FontVal f)) k)))"
  unfolding conf_set_int_def conf_set_int_int_def conf_set_str_def conf_set_str_str_def conf_set_int_str_def
    conf_set_filename_def conf_set_fontspec_def fun_upd_apply
  by (intro conjI impI; elim conjE; rule set_entry_spec [OF assms]; simp)

theorem conf_setters_update_witness:
  "\<exists>c'. conf_set_str_str sample 49 [66] [51] = Some c' \<and> conf_ok c' \<and>
     conf_map c' \<lparr>primary = 49, secondary = SubStr [66]\<rparr> = Some (StrVal [51]) \<and>
     conf_map c' \<lparr>primary = 49, secondary = SubStr [65]\<rparr> = Some (StrVal [49, 50])"
proof -
  have "\<exists>c'. conf_set_str_str sample 49 [66] [51] = Some c' \<and> conf_ok c' \<and> (\<forall>k. key_ok k \<longrightarrow>
     conf_map c' k = ((conf_map sample)(\<lparr>primary = 49, secondary = SubStr [66]\<rparr> \<mapsto> StrVal [51])) k)"
    using conf_setters_update [OF sample_facts(1), where p = 49 and n = "[66]" and s = "[51]"]
    by (simp add: sample_types cstr_ok_def)
  then show ?thesis
    using sample_facts(2) by (elim exE) (simp add: sample_types cstr_ok_def N_CONFIG_OPTIONS_204)
qed

text \<open>
  Every deletion succeeds and removes exactly its key from the abstract map,
  whether or not the key was there.
\<close>

theorem conf_deletions_remove:
  assumes "conf_ok c"
  shows "(subkeytypes p = TYPE_STR \<and> valuetypes p = TYPE_STR \<and> cstr_ok n \<longrightarrow>
      (\<exists>c'. conf_del_str_str c p n = Some c' \<and> conf_ok c' \<and> (\<forall>k. key_ok k \<longrightarrow>
         conf_map c' k = ((conf_map c)(\<lparr>primary = p, secondary = SubStr n\<rparr> := None)) k))) \<and>
    (subkeytypes p = TYPE_INT \<and> valuetypes p = TYPE_INT \<longrightarrow>
      (\<exists>c'. conf_del_int_int c p i = Some c' \<and> conf_ok c' \<and> (\<forall>k. key_ok k \<longrightarrow>
         conf_map c' k = ((conf_map c)(\<lparr>primary = p, secondary = SubInt i\<rparr> := None)) k))) \<and>
    (subkeytypes p = TYPE_INT \<and> valuetypes p = TYPE_STR \<longrightarrow>
      (\<exists>c'. conf_del_int_str c p i = Some c' \<and> conf_ok c' \<and> (\<forall>k. key_ok k \<longrightarrow>
         conf_map c' k = ((conf_map c)(\<lparr>primary = p, secondary = SubInt i\<rparr> := None)) k)))"
  unfolding conf_del_str_str_def conf_del_int_int_def conf_del_int_str_def fun_upd_apply
  by (intro conjI impI; elim conjE; rule del_entry_spec [OF assms];
      simp add: valuetypes_bound)

theorem conf_deletions_remove_witness:
  "\<exists>c'. conf_del_str_str sample 49 [65] = Some c' \<and> conf_ok c' \<and>
     conf_map c' \<lparr>primary = 49, secondary = SubStr [65]\<rparr> = None \<and>
     conf_map c' \<lparr>primary = 49, secondary = SubStr [66]\<rparr> = Some (StrVal [50])"
proof -
  have "\<exists>c'. conf_del_str_str sample 49 [65] = Some c' \<and> conf_ok c' \<and> (\<forall>k. key_ok k \<longrightarrow>
     conf_map c' k = ((conf_map sample)(\<lparr>primary = 49, secondary = SubStr [65]\<rparr> := None)) k)"
    using conf_deletions_remove [OF sample_facts(1), where p = 49 and n = "[65]"]
    by (simp add: sample_types cstr_ok_def)
  then show ?thesis
    using sample_facts(2) by (elim exE) (simp add: sample_types cstr_ok_def N_CONFIG_OPTIONS_204)
qed

text \<open>
  Every accessor, used with an option of its types, reads the abstract map at its
  key; the variants that may fail report a missing key without touching the result, and
  the others stop at their \<open>assert\<close> (\<open>None\<close>).
\<close>

theorem conf_getters_read:
  assumes "conf_ok c"
  shows "(subkeytypes p = TYPE_NONE \<and> valuetypes p = TYPE_INT \<longrightarrow>
      map_option IntVal (conf_get_int c p) = conf_map c \<lparr>primary = p, secondary = NoSub\<rparr>) \<and>
    (subkeytypes p = TYPE_INT \<and> valuetypes p = TYPE_INT \<longrightarrow>
      map_option IntVal (conf_get_int_int c p i) = conf_map c \<lparr>primary = p, secondary = SubInt i\<rparr>) \<and>
    (subkeytypes p = TYPE_NONE \<and> valuetypes p = TYPE_STR \<longrightarrow>
      map_option StrVal (conf_get_str c p) = conf_map c \<lparr>primary = p, secondary = NoSub\<rparr>) \<and>
    (subkeytypes p = TYPE_STR \<and> valuetypes p = TYPE_STR \<and> cstr_ok n \<longrightarrow>
      map_option StrVal (conf_get_str_str c p n) = conf_map c \<lparr>primary = p, secondary = SubStr n\<rparr>) \<and>
    (subkeytypes p = TYPE_NONE \<and> valuetypes p = TYPE_FILENAME \<longrightarrow>
      map_option FileVal (conf_get_filename c p) = conf_map c \<lparr>primary = p, secondary = NoSub\<rparr>) \<and>
    (subkeytypes p = TYPE_NONE \<and> valuetypes p = TYPE_FONT \<longrightarrow>
      map_option FontVal (conf_get_fontspec c p) = conf_map c \<lparr>primary = p, secondary = NoSub\<rparr>) \<and>
    (subkeytypes p = TYPE_INT \<and> valuetypes p = TYPE_INT \<longrightarrow> conf_try_get_int_int c p i r = Some (case conf_get_int_int c p i of
        None \<Rightarrow> (False, r) | Some v \<Rightarrow> (True, v))) \<and>
    (subkeytypes p = TYPE_STR \<and> valuetypes p = TYPE_STR \<and> cstr_ok n \<longrightarrow> conf_get_str_str_opt c p n = Some (conf_get_str_str c p n))"
proof (intro conjI impI; elim conjE)
  assume t: "subkeytypes p = TYPE_INT" "valuetypes p = TYPE_INT"
  show "conf_try_get_int_int c p i r = Some (case conf_get_int_int c p i of
        None \<Rightarrow> (False, r) | Some v \<Rightarrow> (True, v))"
    using get_map [OF assms t, of "SubInt i"]
    by (auto simp: conf_try_get_int_int_def conf_get_int_int_def split: option.split)
next
  assume t: "subkeytypes p = TYPE_STR" "valuetypes p = TYPE_STR" "cstr_ok n"
  note m = conf_get_str_str_map [OF assms t]
  show "conf_get_str_str_opt c p n = Some (conf_get_str_str c p n)"
    using m by (auto simp: conf_get_str_str_def split: option.split)
  show "map_option StrVal (conf_get_str_str c p n) = conf_map c \<lparr>primary = p, secondary = SubStr n\<rparr>"
    using m by (auto simp: conf_get_str_str_def split: option.split)
qed (simp_all add: assms conf_get_int_map conf_get_int_int_map conf_get_str_map conf_get_filename_map
    conf_get_fontspec_map)

theorem conf_getters_read_witness:
  "conf_get_int sample 1 = Some 23 \<and> conf_get_str_str_opt sample 49 [67] = Some None"
proof -
  have "map_option IntVal (conf_get_int sample 1) = Some (IntVal 23)"
    using conf_getters_read [OF sample_facts(1), where p = 1] sample_facts(2)
    by (simp add: sample_types N_CONFIG_OPTIONS_204 del: One_nat_def)
  moreover have "map_option StrVal (conf_get_str_str sample 49 [67]) = None
      \<and> conf_get_str_str_opt sample 49 [67] = Some (conf_get_str_str sample 49 [67])"
    using conf_getters_read [OF sample_facts(1), where p = 49 and n = "[67]"] sample_facts(2)
    by (simp add: sample_types N_CONFIG_OPTIONS_204 cstr_ok_def)
  ultimately show ?thesis by auto
qed

text \<open>
  \<open>conf_get_int_str_opt\<close> and \<open>conf_get_int_str\<close> return the string of an
  entry that is there; for a missing entry \<open>conf_get_int_str_opt\<close> does not return
  \<open>NULL\<close>, as the name and its caller expect, but reads through a null pointer (\<open>None\<close>).
\<close>

theorem conf_get_int_str_opt_missing:
  assumes "conf_ok c" and "subkeytypes p = TYPE_INT" and "valuetypes p = TYPE_STR"
  shows "map_option StrVal (conf_get_int_str_opt c p i) = conf_map c \<lparr>primary = p, secondary = SubInt i\<rparr>
    \<and> (conf_map c \<lparr>primary = p, secondary = SubInt i\<rparr> = None \<longrightarrow> conf_get_int_str_opt c p i = None)"
  using conf_get_int_str_map [OF assms, of i] by (metis map_option_is_None)

theorem conf_get_int_str_opt_missing_witness:
  "conf_map sample \<lparr>primary = 188, secondary = SubInt 0\<rparr> = None \<and> conf_get_int_str_opt sample 188 0 = None"
  using conf_get_int_str_opt_missing [OF sample_facts(1), of 188 0]
    sample_facts(2) [of "\<lparr>primary = 188, secondary = SubInt 0\<rparr>"]
  by (simp add: sample_types N_CONFIG_OPTIONS_204)

text \<open>
  Claim C29: \<open>conf_copy_into\<close> empties its target and fills it with exactly the entries of
  its source, in the same order; both loops end.
\<close>

theorem conf_copy_into_copies:
  assumes "conf_ok new" and "conf_ok old"
  shows "\<exists>c. conf_copy_into new old = Some c \<and> conf_ok c \<and> elements (tree c) = elements (tree old)"
  using assms by (rule conf_copy_into_spec)

theorem conf_copy_into_copies_witness:
  "\<exists>c. conf_copy_into conf_new sample = Some c \<and> conf_ok c \<and> elements (tree c) = elements (tree sample)"
  by (rule conf_copy_into_copies) (rule conf_new_ok, rule sample_facts(1))

text \<open>
  \<open>conf_get_str_strs\<close> walks the subkeys of an option: from \<open>NULL\<close> it returns the
  first one, from the \<open>i\<close>-th the next one with its value, from the last \<open>NULL\<close>; and
  \<open>conf_get_str_nthstrkey\<close> returns the \<open>n\<close>-th subkey, \<open>NULL\<close> for any other \<open>n\<close>.
\<close>

theorem conf_subkeys_enumerated:
  assumes "conf_ok c" and "subkeytypes p = TYPE_STR" and "valuetypes p = TYPE_STR"
  shows "(conf_get_str_strs c p None
      = Some (if conf_group c p = [] then None else Some (entry_pair (conf_group c p ! 0)))) \<and>
    (\<forall>i < length (conf_group c p). conf_get_str_strs c p (Some (fst (entry_pair (conf_group c p ! i))))
      = Some (if Suc i < length (conf_group c p) then Some (entry_pair (conf_group c p ! Suc i)) else None)) \<and>
    (\<forall>n. conf_get_str_nthstrkey c p n
      = Some (if 0 \<le> n \<and> n < int (length (conf_group c p))
              then Some (fst (entry_pair (conf_group c p ! nat n))) else None))"
  using conf_get_first_spec [OF assms] conf_get_next_spec [OF assms] conf_get_nth_spec [OF assms]
  by (auto split: list.split)

theorem conf_subkeys_enumerated_witness:
  "conf_get_str_nthstrkey sample 49 (- 1) = Some None"
  using conf_subkeys_enumerated [OF sample_facts(1), of 49] by (simp add: sample_types)

text \<open>
  Claim C7: what \<open>conf_serialise\<close> writes, \<open>conf_deserialise\<close> reads back into a fresh store
  with the same entries, consuming exactly the bytes written whatever follows them and
  whatever larger size it is told; read into another store it overwrites the keys it holds
  and keeps the rest.
\<close>

theorem conf_serialise_roundtrip:
  assumes "conf_ok c" and "conf_ok base" and "int (length (conf_serialise c)) \<le> maxsize"
  shows "(\<exists>c'. conf_deserialise conf_new (conf_serialise c @ rest) maxsize = Some (length (conf_serialise c), c')
      \<and> conf_ok c' \<and> elements (tree c') = elements (tree c)) \<and>
    (\<exists>c'. conf_deserialise base (conf_serialise c @ rest) maxsize = Some (length (conf_serialise c), c')
      \<and> conf_ok c' \<and> (\<forall>k. key_ok k \<longrightarrow> conf_map c' k = (conf_map base ++ conf_map c) k))"
proof
  from deserialise_serialise_map [OF assms(1) conf_new_ok assms(3), of rest] obtain c' where c':
    "conf_deserialise conf_new (conf_serialise c @ rest) maxsize = Some (conf_serialised_size c, c')" "conf_ok c'"
    "\<forall>k. key_ok k \<longrightarrow> conf_map c' k = (conf_map conf_new ++ conf_map c) k" by blast
  have "elements (tree c') = elements (tree c)"
    using c'(2,3) assms(1) by (intro conf_map_determines) (auto simp: map_add_def split: option.split)
  with c' size_is_length [OF assms(1)]
  show "\<exists>c'. conf_deserialise conf_new (conf_serialise c @ rest) maxsize = Some (length (conf_serialise c), c')
      \<and> conf_ok c' \<and> elements (tree c') = elements (tree c)" by auto
qed (use deserialise_serialise_map [OF assms, of rest] size_is_length [OF assms(1)] in auto)

theorem conf_serialise_roundtrip_witness:
  "\<exists>c'. conf_deserialise conf_new (conf_serialise sample @ [7]) (int (length (conf_serialise sample @ [7])))
        = Some (length (conf_serialise sample), c')
      \<and> conf_ok c' \<and> elements (tree c') = elements (tree sample)"
  by (rule conf_serialise_roundtrip [OF sample_facts(1) conf_new_ok, THEN conjunct1]) simp

text \<open>
  \<open>conf_serialised_size\<close> is the number of bytes \<open>conf_serialise\<close> writes, so a
  buffer of that size is neither overrun nor left short.
\<close>

theorem conf_serialised_size_exact:
  assumes "conf_ok c"
  shows "conf_serialised_size c = length (conf_serialise c)"
  using assms by (rule size_is_length)

theorem conf_serialised_size_exact_witness:
  "conf_serialised_size sample = length (conf_serialise sample)"
  by (rule conf_serialised_size_exact) (rule sample_facts(1))

text \<open>
  Claim C16: \<open>conf_deserialise\<close> on any bytes whatever, \<open>maxsize\<close> of them or more, returns
  without reading a byte that is not there (so with exactly \<open>maxsize\<close> bytes none beyond them)
  and without a failing insertion, consumes at most \<open>maxsize\<close> of them, and leaves a store that is sorted
  and in which every entry has the types of its option.  Every read of a number, every search
  for a terminator and every string copy is checked against the bytes there are.
\<close>

theorem conf_deserialise_safe:
  assumes "conf_ok c" and "maxsize \<le> int (length data)"
  shows "\<exists>used c'. conf_deserialise c data maxsize = Some (used, c') \<and> conf_ok c' \<and> int used \<le> max 0 maxsize"
  using deserialise_loop_safe [OF assms(1), of 0 maxsize data] assms(2) by (auto simp: conf_deserialise_def)

theorem conf_deserialise_safe_witness:
  "\<exists>used c'. conf_deserialise sample [0, 0, 0, 1, 0, 0, 7] 7 = Some (used, c') \<and> conf_ok c' \<and> int used \<le> 7"
  using conf_deserialise_safe [OF sample_facts(1), of 7 "[0, 0, 0, 1, 0, 0, 7]"]
  by simp

end
