(* ===== verification/Wildcard.thy ===== *)
theory Wildcard
  imports Misc
begin

text \<open>
  The wildcard matcher of \<open>putty/wildcard.c\<close>.  A pointer into a C string is the rest of
  the string; \<open>at s\<close> is \<open>*s\<close>, the NUL at the end included.  The routines return the
  integers of the code: 1, 0, or a negative error number.
\<close>

section \<open>The code\<close>

definition at :: "cstring \<Rightarrow> byte" where
  "at s = (case s of [] \<Rightarrow> 0 | c # _ \<Rightarrow> c)"

lemma at_simps [simp]: "at [] = 0" "at (c # s) = c"
  by (simp_all add: at_def)

lemma at_Nil: "at s \<noteq> 0 \<Longrightarrow> s \<noteq> []"
  by auto

definition WC_TRAILINGBACKSLASH :: int where "WC_TRAILINGBACKSLASH = 1"
definition WC_UNCLOSEDCLASS :: int where "WC_UNCLOSEDCLASS = 2"
definition WC_INVALIDRANGE :: int where "WC_INVALIDRANGE = 3"

lemmas wc_errors = WC_TRAILINGBACKSLASH_def WC_UNCLOSEDCLASS_def WC_INVALIDRANGE_def

text \<open>
  In the first message the C literal has the escape \<open>\'\<close>, which is a plain apostrophe.
\<close>

definition wc_error :: "int \<Rightarrow> string" where
  "wc_error value =
     (if \<bar>value\<bar> = WC_TRAILINGBACKSLASH
      then [CHR 0x27, CHR 0x27] @ '' occurred at end of string (expected another character)''
      else if \<bar>value\<bar> = WC_UNCLOSEDCLASS then ''expected ']' to close character class''
      else if \<bar>value\<bar> = WC_INVALIDRANGE then ''character range was not terminated (']' just after '-')''
      else ''INTERNAL ERROR: unrecognised wildcard error number'')"

text \<open>
  One round of the loop over a character class, after \<open>[\<close> and \<open>^\<close>: an error, a range
  with its ends in order, or a single character, and the rest of the pattern.
\<close>

datatype class_item = Bad int | Range byte byte cstring | Single byte cstring

definition class_item :: "cstring \<Rightarrow> class_item" where
  "class_item f =
     (let f1 = (if at f = 92 then tl f else f) in
        if at f1 = 0 then Bad (- WC_UNCLOSEDCLASS)
        else if at (tl f1) = 45 then
          let lower = at f1; f2 = tl (tl f1) in
            if at f2 = 93 then Bad (- WC_INVALIDRANGE)
            else let f3 = (if at f2 = 92 then tl f2 else f2) in
              if at f3 = 0 then Bad (- WC_UNCLOSEDCLASS)
              else let upper = at f3 in
                (if lower > upper then Range upper lower (tl f3) else Range lower upper (tl f3))
        else Single (at f1) (tl f1))"

lemma tl_shorter: "at s \<noteq> 0 \<Longrightarrow> length (tl s) < length s"
  by (cases s) auto

lemma class_item_length:
  "class_item f = Range lo hi rest \<Longrightarrow> length rest < length f"
  "class_item f = Single x rest \<Longrightarrow> length rest < length f"
  by (cases f; auto simp: class_item_def Let_def less_Suc_eq_le split: if_splits)+

function class_loop :: "cstring \<Rightarrow> byte \<Rightarrow> bool \<Rightarrow> int + cstring \<times> bool" where
  "class_loop f c matched =
     (if at f = 93 then Inr (f, matched)
      else case class_item f of
          Bad err \<Rightarrow> Inl err
        | Range lower upper rest \<Rightarrow> class_loop rest c (matched \<or> c \<ge> lower \<and> c \<le> upper)
        | Single x rest \<Rightarrow> class_loop rest c (matched \<or> c = x))"
  by pat_completeness auto
termination
  by (relation "measure (\<lambda>(f, c, m). length f)") (auto dest: class_item_length)

declare class_loop.simps [simp del]

lemma class_loop_length: "class_loop f c m = Inr (f', m') \<Longrightarrow> length f' \<le> length f"
proof (induction f c m rule: class_loop.induct)
  case (1 f c m)
  then show ?case
    by (subst (asm) (3) class_loop.simps)
      (fastforce split: if_splits class_item.splits dest: class_item_length less_imp_le)
qed

text \<open>
  One character of the target against one character's worth of pattern: the value to
  return, or 1 and the rest of the pattern.
\<close>

definition match_one :: "cstring \<Rightarrow> byte \<Rightarrow> int \<times> cstring" where
  "match_one f c =
     (if at f = 92 then
        (if at (tl f) = 0 then (- WC_TRAILINGBACKSLASH, f)
         else if at (tl f) \<noteq> c then (0, f)
         else (1, tl (tl f)))
      else if at f = 63 then (1, tl f)
      else if at f = 91 then
        (let invert = (at (tl f) = 94);
             f1 = (if invert then tl (tl f) else tl f)
         in case class_loop f1 c False of
             Inl err \<Rightarrow> (err, f)
           | Inr (f2, matched) \<Rightarrow> if invert = matched then (0, f) else (1, tl f2))
      else if at f \<noteq> c then (0, f)
      else (1, tl f))"

lemma class_item_error: "class_item f = Bad e \<Longrightarrow> e < 0"
  by (auto simp: class_item_def Let_def wc_errors split: if_splits)

lemma class_loop_error: "class_loop f c m = Inl e \<Longrightarrow> e < 0"
proof (induction f c m rule: class_loop.induct)
  case (1 f c m)
  then show ?case
    by (subst (asm) (3) class_loop.simps) (auto split: if_splits class_item.splits dest: class_item_error)
qed

lemma match_one_length: "match_one f c = (1, f') \<Longrightarrow> f \<noteq> [] \<Longrightarrow> length f' < length f"
  by (cases f) (auto simp: match_one_def Let_def wc_errors less_Suc_eq_le split: if_splits sum.splits
      dest!: class_loop_length dest: class_loop_error)

text \<open>
  The loop of \<open>wc_match_fragment\<close>: the return value and the two pointers, which move for
  the caller only when the value is 1.
\<close>

function fragment_loop :: "cstring \<Rightarrow> cstring \<Rightarrow> (int \<times> cstring \<times> cstring)" where
  "fragment_loop f t =
     (if at f \<noteq> 0 \<and> at f \<noteq> 42 \<and> at t \<noteq> 0 then
        (case match_one f (at t) of
           (ret, f') \<Rightarrow> if ret = 1 then fragment_loop f' (tl t) else (ret, f, t))
      else if at f = 0 \<or> at f = 42 then (1, f, t)
      else (0, f, t))"
  by pat_completeness auto
termination
  by (relation "measure (\<lambda>(f, t). length t)") (auto dest: at_Nil)

declare fragment_loop.simps [simp del]

definition wc_match_fragment :: "cstring \<Rightarrow> cstring \<Rightarrow> int \<times> cstring \<times> cstring" where
  "wc_match_fragment fragment target =
     (case fragment_loop fragment target of
        (ret, f, t) \<Rightarrow> if ret = 1 then (1, f, t) else (ret, fragment, target))"

text \<open>The search for one fragment: a value to return, or the pointers to go on with.\<close>

datatype wc_step = Return int | Continue cstring cstring

function search_loop :: "cstring \<Rightarrow> cstring \<Rightarrow> wc_step" where
  "search_loop w t =
     (if at t = 0 then Return 0
      else case wc_match_fragment w t of
        (ret, w', t') \<Rightarrow>
          if ret < 0 then Return ret
          else if ret > 0 \<and> at w' = 0 \<and> at t' \<noteq> 0 then
            Return (fst (wc_match_fragment w (drop (length t - (length t - length t')) t)))
          else if ret > 0 then Continue w' t'
          else search_loop w (tl t))"
  by pat_completeness auto
termination
  by (relation "measure (\<lambda>(w, t). length t)") (auto dest: at_Nil)

declare search_loop.simps [simp del]

lemma fragment_loop_length:
  "fragment_loop f t = (ret, f', t') \<Longrightarrow> length f' \<le> length f \<and> length t' \<le> length t"
proof (induction f t rule: fragment_loop.induct)
  case (1 f t)
  show ?case
  proof (cases "at f \<noteq> 0 \<and> at f \<noteq> 42 \<and> at t \<noteq> 0")
    case False
    with 1(2) show ?thesis by (subst (asm) fragment_loop.simps) (auto split: if_splits)
  next
    case True
    obtain r g where m: "match_one f (at t) = (r, g)" by fastforce
    show ?thesis
    proof (cases "r = 1")
      case False
      with 1(2) True m show ?thesis by (subst (asm) fragment_loop.simps) auto
    next
      case r: True
      from match_one_length m r True have "length g < length f" by (auto dest: at_Nil)
      moreover from 1(2) True m r have "fragment_loop g (tl t) = (ret, f', t')"
        by (subst (asm) fragment_loop.simps) auto
      ultimately show ?thesis using 1(1) [OF True m [symmetric] r] by auto
    qed
  qed
qed

lemma search_loop_length: "search_loop w t = Continue w' t' \<Longrightarrow> length w' \<le> length w"
proof (induction w t rule: search_loop.induct)
  case (1 w t)
  then show ?case
    by (subst (asm) (2) search_loop.simps)
      (auto simp: wc_match_fragment_def split: if_splits prod.splits dest: fragment_loop_length)
qed

text \<open>
  The outer loop of \<open>wc_match\<close>; \<open>None\<close> is a failure of its assertion.
\<close>

function match_loop :: "cstring \<Rightarrow> cstring \<Rightarrow> int option" where
  "match_loop w t =
     (if at w = 0 then Some (if at t \<noteq> 0 then 0 else 1)
      else if at w \<noteq> 42 then None
      else let w1 = dropWhile (\<lambda>b. b = 42) w in
        if at w1 = 0 then Some 1
        else case search_loop w1 t of
            Return r \<Rightarrow> Some r
          | Continue w' t' \<Rightarrow> match_loop w' t')"
  by pat_completeness auto
termination
proof (relation "measure (\<lambda>(w, t). length w)", goal_cases)
  case (2 w t w1 w' t')
  then have "length w' \<le> length w1" by (auto dest: search_loop_length)
  moreover from 2 have "length w1 < length w"
    using length_dropWhile_le [of "\<lambda>b. b = 42" "tl w"] by (cases w) auto
  ultimately show ?case by simp
qed simp

declare match_loop.simps [simp del]

definition wc_match :: "cstring \<Rightarrow> cstring \<Rightarrow> int option" where
  "wc_match wildcard target =
     (if at wildcard \<noteq> 42 then
        (case wc_match_fragment wildcard target of
           (ret, w, t) \<Rightarrow> if ret \<le> 0 then Some ret else match_loop w t)
      else match_loop wildcard target)"

text \<open>\<open>wc_unescape\<close>: the return value and the characters written to the output.\<close>

function unescape_loop :: "cstring \<Rightarrow> cstring \<Rightarrow> int \<times> cstring" where
  "unescape_loop w output =
     (if at w = 0 then (1, output)
      else if at w = 92 then
        (let w1 = tl w in
         if at w1 \<noteq> 0 then unescape_loop (tl w1) (output @ [at w1])
         else unescape_loop w1 output)
      else if at w = 42 \<or> at w = 63 \<or> at w = 91 \<or> at w = 93 then (0, output)
      else unescape_loop (tl w) (output @ [at w]))"
  by pat_completeness auto
termination
  by (relation "measure (\<lambda>(w, out). length w)") (auto simp: at_def split: list.splits)

declare unescape_loop.simps [simp del]

definition wc_unescape :: "cstring \<Rightarrow> int \<times> cstring" where
  "wc_unescape wildcard = unescape_loop wildcard []"

end
