(* ===== verification/Wildcard_Facts.thy ===== *)
theory Wildcard_Facts
  imports Wildcard
begin

text \<open>
  The language a wildcard denotes, and the proof that the fragment search of
  \<open>putty/wildcard.c\<close> decides it.  \<open>parse\<close> reads the documented syntax into tokens,
  \<open>glob\<close> is their meaning.
\<close>

section \<open>The language of wildcards\<close>

text \<open>
  The syntax in the comment at the head of \<open>wildcard.c\<close>, as a list of tokens: \<open>*\<close>, or one
  character of a set.
\<close>

datatype wtok = Star | One "byte \<Rightarrow> bool"

function parse_class :: "cstring \<Rightarrow> ((byte \<times> byte) list \<times> cstring) option" where
  "parse_class f =
     (if at f = 93 then Some ([], tl f)
      else case class_item f of
          Bad err \<Rightarrow> None
        | Range lower upper rest \<Rightarrow> map_option (\<lambda>(xs, r). ((lower, upper) # xs, r)) (parse_class rest)
        | Single x rest \<Rightarrow> map_option (\<lambda>(xs, r). ((x, x) # xs, r)) (parse_class rest))"
  by pat_completeness auto
termination
  by (relation "measure length") (auto dest: class_item_length)

declare parse_class.simps [simp del]

definition in_class :: "(byte \<times> byte) list \<Rightarrow> byte \<Rightarrow> bool" where
  "in_class xs c \<longleftrightarrow> (\<exists>(lo, hi) \<in> set xs. lo \<le> c \<and> c \<le> hi)"

lemma parse_class_length: "parse_class f = Some (xs, r) \<Longrightarrow> length r \<le> length f"
proof (induction f arbitrary: xs r rule: parse_class.induct)
  case (1 f)
  then show ?case
    by (subst (asm) (3) parse_class.simps)
      (fastforce split: if_splits class_item.splits dest: class_item_length less_imp_le)
qed

function parse :: "cstring \<Rightarrow> wtok list option" where
  "parse w =
     (if at w = 0 then Some []
      else if at w = 42 then map_option (Cons Star) (parse (tl w))
      else if at w = 92 then
        (if at (tl w) = 0 then None
         else map_option (Cons (One (\<lambda>c. c = at (tl w)))) (parse (tl (tl w))))
      else if at w = 63 then map_option (Cons (One (\<lambda>c. True))) (parse (tl w))
      else if at w = 91 then
        (let invert = (at (tl w) = 94) in
         case parse_class (if invert then tl (tl w) else tl w) of
           None \<Rightarrow> None
         | Some (xs, r) \<Rightarrow> map_option (Cons (One (\<lambda>c. invert \<noteq> in_class xs c))) (parse r))
      else map_option (Cons (One (\<lambda>c. c = at w))) (parse (tl w)))"
  by pat_completeness auto
termination
proof (relation "measure length", goal_cases)
  case (5 w inv a xs r)
  then have "length r \<le> length (if inv then tl (tl w) else tl w)" by (auto dest: parse_class_length)
  also have "\<dots> < length w" using 5 by (cases w) (auto simp: less_Suc_eq_le)
  finally show ?case by simp
qed (auto simp: at_def split: list.splits)

declare parse.simps [simp del]

fun glob :: "wtok list \<Rightarrow> cstring \<Rightarrow> bool" where
  "glob [] t \<longleftrightarrow> t = []"
| "glob (Star # ps) t \<longleftrightarrow> (\<exists>k \<le> length t. glob ps (drop k t))"
| "glob (One P # ps) t \<longleftrightarrow> t \<noteq> [] \<and> P (hd t) \<and> glob ps (tl t)"

section \<open>One character\<close>

lemma class_loop_spec:
  "parse_class f = Some (xs, r) \<Longrightarrow> \<exists>g. class_loop f c m = Inr (g, m \<or> in_class xs c) \<and> tl g = r"
proof (induction f arbitrary: xs r m rule: parse_class.induct)
  case (1 f)
  show ?case
  proof (cases "at f = 93")
    case True
    with 1(3) show ?thesis
      by (subst (asm) parse_class.simps, subst class_loop.simps) (simp add: in_class_def)
  next
    case False
    show ?thesis
    proof (cases "class_item f")
      case (Bad e)
      with 1(3) False show ?thesis by (subst (asm) parse_class.simps) simp
    next
      case (Range lo hi rest)
      with 1(3) False obtain ys where ys: "parse_class rest = Some (ys, r)" "xs = (lo, hi) # ys"
        by (subst (asm) parse_class.simps) auto
      from 1(1) [OF False Range ys(1), of "m \<or> c \<ge> lo \<and> c \<le> hi"] ys(2) False Range show ?thesis
        by (subst class_loop.simps) (auto simp: in_class_def)
    next
      case (Single x rest)
      with 1(3) False obtain ys where ys: "parse_class rest = Some (ys, r)" "xs = (x, x) # ys"
        by (subst (asm) parse_class.simps) auto
      have "(x \<le> c \<and> c \<le> x) = (c = x)" by auto
      with 1(2) [OF False Single ys(1), of "m \<or> c = x"] ys(2) False Single show ?thesis
        by (subst class_loop.simps) (auto simp: in_class_def)
    qed
  qed
qed

lemma match_one_spec:
  assumes "parse f = Some ps" and "at f \<noteq> 0" and "at f \<noteq> 42"
  shows "\<exists>P qs f'. ps = One P # qs \<and> parse f' = Some qs \<and> (\<forall>c. match_one f c = (if P c then (1, f') else (0, f)))"
proof (cases "at f = 91")
  case False
  with assms show ?thesis
    by (subst (asm) parse.simps) (auto simp: match_one_def split: if_splits)
next
  case True
  let ?inv = "at (tl f) = 94"
  let ?f1 = "if ?inv then tl (tl f) else tl f"
  from assms True obtain xs r qs where p: "parse_class ?f1 = Some (xs, r)" "parse r = Some qs"
    "ps = One (\<lambda>c. ?inv \<noteq> in_class xs c) # qs"
    by (subst (asm) parse.simps) (auto simp: Let_def split: option.splits)
  have "match_one f c = (if ?inv \<noteq> in_class xs c then (1, r) else (0, f))" for c
    using class_loop_spec [OF p(1), of c False] True by (auto simp: match_one_def Let_def)
  with p show ?thesis by blast
qed

section \<open>Fragments\<close>

fun is_one :: "wtok \<Rightarrow> bool" where
  "is_one Star \<longleftrightarrow> False"
| "is_one (One P) \<longleftrightarrow> True"

fun frag_ok :: "wtok list \<Rightarrow> cstring \<Rightarrow> bool" where
  "frag_ok (One P # ps) t \<longleftrightarrow> t \<noteq> [] \<and> P (hd t) \<and> frag_ok ps (tl t)"
| "frag_ok _ t \<longleftrightarrow> True"

definition frag_len :: "wtok list \<Rightarrow> nat" where
  "frag_len ps = length (takeWhile is_one ps)"

lemma frag_len_simps [simp]:
  "frag_len [] = 0" "frag_len (Star # ps) = 0" "frag_len (One P # ps) = Suc (frag_len ps)"
  by (simp_all add: frag_len_def)

lemma frag_ok_length: "frag_ok ps t \<Longrightarrow> frag_len ps \<le> length t"
  by (induction ps t rule: frag_ok.induct) (auto simp: neq_Nil_conv)

lemma glob_frag: "glob ps t \<longleftrightarrow> frag_ok ps t \<and> glob (dropWhile is_one ps) (drop (frag_len ps) t)"
  by (induction ps t rule: frag_ok.induct) (auto simp: drop_Suc)

lemma at_cstr: "cstr_ok t \<Longrightarrow> at t = 0 \<longleftrightarrow> t = []"
  by (cases t) (auto simp: cstr_ok_def)

lemma cstr_ok_drop [simp]: "cstr_ok t \<Longrightarrow> cstr_ok (drop k t)" "cstr_ok t \<Longrightarrow> cstr_ok (tl t)"
  by (auto simp: cstr_ok_def dest: in_set_dropD list.set_sel(2) [rotated]) (metis list.sel(2) list.set_sel(2))

lemma at_parse: "parse f = Some ps \<Longrightarrow> at f = 0 \<longleftrightarrow> ps = []"
  by (subst (asm) parse.simps) (auto simp: Let_def split: if_splits option.splits)

lemma at_parse_star: "parse f = Some ps \<Longrightarrow> at f = 42 \<longleftrightarrow> (\<exists>qs. ps = Star # qs)"
  by (subst (asm) parse.simps) (auto simp: Let_def split: if_splits option.splits)

lemma fragment_loop_spec:
  "parse f = Some ps \<Longrightarrow> cstr_ok t \<Longrightarrow> \<exists>f'. parse f' = Some (dropWhile is_one ps) \<and>
     (if frag_ok ps t then fragment_loop f t = (1, f', drop (frag_len ps) t)
      else fst (fragment_loop f t) = 0)"
proof (induction ps arbitrary: f t)
  case Nil
  then have "at f = 0" using at_parse by auto
  with Nil show ?case by (intro exI [of _ f]) (simp add: fragment_loop.simps)
next
  case (Cons p ps)
  show ?case
  proof (cases p)
    case Star
    with Cons at_parse_star [of f] have "at f = 42" by auto
    with Cons Star show ?thesis by (intro exI [of _ f]) (simp add: fragment_loop.simps)
  next
    case (One P)
    with Cons.prems(1) at_parse [of f] at_parse_star [of f] have f: "at f \<noteq> 0" "at f \<noteq> 42" by auto
    from match_one_spec [OF Cons.prems(1) f] One obtain f' where f':
      "parse f' = Some ps" "\<And>c. match_one f c = (if P c then (1, f') else (0, f))" by auto
    from Cons.IH [OF f'(1), of "tl t"] Cons.prems(2) obtain g where g: "parse g = Some (dropWhile is_one ps)"
      "if frag_ok ps (tl t) then fragment_loop f' (tl t) = (1, g, drop (frag_len ps) (tl t))
       else fst (fragment_loop f' (tl t)) = 0" by auto
    show ?thesis
    proof (intro exI conjI)
      show "parse g = Some (dropWhile is_one (p # ps))" using g(1) One by simp
      show "if frag_ok (p # ps) t then fragment_loop f t = (1, g, drop (frag_len (p # ps)) t)
        else fst (fragment_loop f t) = 0"
        using One f f'(2) g(2) at_cstr [OF Cons.prems(2)]
        by (subst (1 2) fragment_loop.simps) (cases t, auto)
    qed
  qed
qed


lemma wc_match_fragment_spec:
  assumes "parse f = Some ps" and "cstr_ok t"
  shows "\<exists>f'. parse f' = Some (dropWhile is_one ps) \<and> wc_match_fragment f t
    = (if frag_ok ps t then (1, f', drop (frag_len ps) t) else (0, f, t))"
proof -
  from fragment_loop_spec [OF assms] obtain f' where f': "parse f' = Some (dropWhile is_one ps)"
    "if frag_ok ps t then fragment_loop f t = (1, f', drop (frag_len ps) t) else fst (fragment_loop f t) = 0"
    by blast
  then have "wc_match_fragment f t = (if frag_ok ps t then (1, f', drop (frag_len ps) t) else (0, f, t))"
    by (auto simp: wc_match_fragment_def split: prod.splits if_splits)
  with f'(1) show ?thesis by blast
qed

section \<open>The search\<close>

lemma glob_star_drop:
  assumes "glob (Star # ps) (drop k t)"
  shows "glob (Star # ps) t"
proof -
  from assms obtain j where "j \<le> length t - k" "glob ps (drop (j + k) t)" by auto
  then show ?thesis by (cases "k \<le> length t") (auto intro: exI [of _ "j + k"] exI [of _ "length t"])
qed

lemma dropWhile_is_one: "dropWhile is_one ps = [] \<or> (\<exists>qs. dropWhile is_one ps = Star # qs)"
proof (induction ps)
  case (Cons p ps)
  then show ?case by (cases p) auto
qed simp

lemma parse_skip_stars:
  "parse w = Some ps \<Longrightarrow> at w = 42 \<Longrightarrow> \<exists>qs. parse (dropWhile (\<lambda>b. b = 42) w) = Some qs \<and>
     at (dropWhile (\<lambda>b. b = 42) w) \<noteq> 42 \<and> (\<forall>t. glob ps t \<longleftrightarrow> glob (Star # qs) t)"
proof (induction w arbitrary: ps)
  case Nil
  then show ?case by simp
next
  case (Cons b w)
  then have b: "b = 42" by simp
  from Cons.prems(1) b obtain qs where qs: "parse w = Some qs" "ps = Star # qs"
    by (subst (asm) parse.simps) auto
  show ?case
  proof (cases "at w = 42")
    case False
    then have "dropWhile (\<lambda>b. b = 42) w = w" by (cases w) auto
    with qs False b show ?thesis by simp
  next
    case True
    from Cons.IH [OF qs(1) True] obtain rs where rs: "parse (dropWhile (\<lambda>b. b = 42) w) = Some rs"
      "at (dropWhile (\<lambda>b. b = 42) w) \<noteq> 42" "\<And>t. glob qs t \<longleftrightarrow> glob (Star # rs) t" by blast
    have "glob ps t \<longleftrightarrow> glob (Star # rs) t" for t
    proof
      assume "glob ps t"
      then obtain k where "k \<le> length t" "glob (Star # rs) (drop k t)" using qs(2) rs(3) by auto
      then show "glob (Star # rs) t" using glob_star_drop by blast
    next
      assume "glob (Star # rs) t"
      then have "glob qs (drop 0 t)" using rs(3) by simp
      then show "glob ps t" using qs(2) by auto
    qed
    with rs(1,2) b show ?thesis by auto
  qed
qed

definition step_result :: "wc_step \<Rightarrow> int option" where
  "step_result r = (case r of Return v \<Rightarrow> Some v | Continue w t \<Rightarrow> match_loop w t)"

lemma ex_drop_tl: "(\<exists>k \<le> length (b # t). Q (drop k (b # t))) \<longleftrightarrow> Q (b # t) \<or> (\<exists>k \<le> length t. Q (drop k t))"
proof
  assume "\<exists>k \<le> length (b # t). Q (drop k (b # t))"
  then obtain k where "k \<le> length (b # t)" "Q (drop k (b # t))" by blast
  then show "Q (b # t) \<or> (\<exists>k \<le> length t. Q (drop k t))" by (cases k) auto
next
  assume "Q (b # t) \<or> (\<exists>k \<le> length t. Q (drop k t))"
  then show "\<exists>k \<le> length (b # t). Q (drop k (b # t))"
    by (metis Suc_le_mono drop0 drop_Suc_Cons le0 length_Cons)
qed

lemma search_loop_spec:
  assumes IH: "\<And>w' qs t'. length w' \<le> length w \<Longrightarrow> parse w' = Some qs \<Longrightarrow> qs = [] \<or> (\<exists>rs. qs = Star # rs) \<Longrightarrow>
      cstr_ok t' \<Longrightarrow> match_loop w' t' = Some (if glob qs t' then 1 else 0)"
    and w: "parse w = Some ps" "ps \<noteq> []" "at w \<noteq> 42"
  shows "cstr_ok t \<Longrightarrow> step_result (search_loop w t) = Some (if \<exists>k \<le> length t. glob ps (drop k t) then 1 else 0)"
proof (induction t)
  case Nil
  from w at_parse_star [of w ps] obtain P qs where "ps = One P # qs" by (cases ps; cases "hd ps") auto
  then show ?case by (simp add: search_loop.simps step_result_def)
next
  case (Cons b t)
  let ?t = "b # t"
  let ?n = "frag_len ps"
  have b: "at ?t \<noteq> 0" using Cons.prems by (simp add: cstr_ok_def)
  from wc_match_fragment_spec [OF w(1) Cons.prems] obtain f' where f': "parse f' = Some (dropWhile is_one ps)"
    "wc_match_fragment w ?t = (if frag_ok ps ?t then (1, f', drop ?n ?t) else (0, w, ?t))" by blast
  show ?case
  proof (cases "frag_ok ps ?t")
    case False
    then have "\<not> glob ps ?t" using glob_frag by blast
    moreover have "search_loop w ?t = search_loop w t"
      using b f'(2) False by (subst search_loop.simps) simp
    moreover have "(\<exists>k \<le> length ?t. glob ps (drop k ?t)) = (\<exists>k \<le> length t. glob ps (drop k t))"
      using ex_drop_tl [of b t "glob ps"] calculation(1) by (simp only: simp_thms)
    moreover have "cstr_ok t" using Cons.prems by (simp add: cstr_ok_def)
    ultimately show ?thesis using Cons.IH by (simp only:)
  next
    case True
    note len = frag_ok_length [OF True]
    have fl: "length f' \<le> length w"
      using f'(2) True fragment_loop_length [of w ?t] by (auto simp: wc_match_fragment_def split: prod.splits if_splits)
    from dropWhile_is_one [of ps] consider (last) "dropWhile is_one ps = []" | (star) qs where "dropWhile is_one ps = Star # qs"
      by blast
    then show ?thesis
    proof cases
      case star
      then have "at f' \<noteq> 0" using at_parse f'(1) by auto
      then have "search_loop w ?t = Continue f' (drop ?n ?t)"
        using b f'(2) True by (subst search_loop.simps) simp
      moreover have "match_loop f' (drop ?n ?t) = Some (if glob (Star # qs) (drop ?n ?t) then 1 else 0)"
        using IH [OF fl f'(1)] star Cons.prems by simp
      moreover have "(\<exists>k \<le> length ?t. glob ps (drop k ?t)) \<longleftrightarrow> glob (Star # qs) (drop ?n ?t)"
      proof
        assume "\<exists>k \<le> length ?t. glob ps (drop k ?t)"
        then obtain k where "glob ps (drop k ?t)" by blast
        then have "glob (Star # qs) (drop ?n (drop k ?t))" using glob_frag star by metis
        then have "glob (Star # qs) (drop k (drop ?n ?t))" by (simp only: drop_drop add.commute)
        then show "glob (Star # qs) (drop ?n ?t)" by (rule glob_star_drop)
      next
        assume "glob (Star # qs) (drop ?n ?t)"
        with True star have "glob ps (drop 0 ?t)" using glob_frag [of ps ?t] by simp
        then show "\<exists>k \<le> length ?t. glob ps (drop k ?t)" by blast
      qed
      ultimately show ?thesis by (simp only: step_result_def wc_step.case)
    next
      case last
      then have at0: "at f' = 0" using at_parse [OF f'(1)] by simp
      have g: "glob ps u \<longleftrightarrow> frag_ok ps u \<and> length u = ?n" for u
        using glob_frag [of ps u] last frag_ok_length [of ps u] by auto
      show ?thesis
      proof (cases "drop ?n ?t = []")
        case True
        then have "length ?t = ?n" using len by simp
        then have "glob ps (drop 0 ?t)" using g \<open>frag_ok ps ?t\<close> by simp
        then have "\<exists>k \<le> length ?t. glob ps (drop k ?t)" by blast
        moreover have "search_loop w ?t = Continue f' []"
          using b f'(2) \<open>frag_ok ps ?t\<close> True by (subst search_loop.simps) simp
        moreover have "match_loop f' [] = Some 1" using at0 by (simp add: match_loop.simps)
        ultimately show ?thesis by (simp add: step_result_def)
      next
        case False
        then have lt: "?n < length ?t" by simp
        let ?u = "drop (length ?t - ?n) ?t"
        have "at (drop ?n ?t) \<noteq> 0"
          using False at_cstr [of "drop ?n ?t"] Cons.prems by (simp del: drop_eq_Nil)
        moreover have "length ?t - (length ?t - length (drop ?n ?t)) = length ?t - ?n" using lt by simp
        ultimately have s: "search_loop w ?t = Return (fst (wc_match_fragment w ?u))"
          using b f'(2) True at0 by (subst search_loop.simps) (simp del: drop_eq_Nil)
        from wc_match_fragment_spec [OF w(1), of ?u] Cons.prems
        have "fst (wc_match_fragment w ?u) = (if frag_ok ps ?u then 1 else 0)" by auto
        moreover have "(\<exists>k \<le> length ?t. glob ps (drop k ?t)) \<longleftrightarrow> frag_ok ps ?u"
        proof
          assume "\<exists>k \<le> length ?t. glob ps (drop k ?t)"
          then obtain k where "k \<le> length ?t" "frag_ok ps (drop k ?t)" "length (drop k ?t) = ?n" using g by blast
          moreover from this have "k = length ?t - ?n" by (simp only: length_drop)
          ultimately show "frag_ok ps ?u" by simp
        next
          assume "frag_ok ps ?u"
          moreover have "length ?u = ?n" using lt by simp
          ultimately show "\<exists>k \<le> length ?t. glob ps (drop k ?t)" using g diff_le_self by blast
        qed
        ultimately show ?thesis by (simp only: s step_result_def wc_step.case)
      qed
    qed
  qed
qed

lemma match_loop_spec:
  "parse w = Some ps \<Longrightarrow> ps = [] \<or> (\<exists>rs. ps = Star # rs) \<Longrightarrow> cstr_ok t \<Longrightarrow>
    match_loop w t = Some (if glob ps t then 1 else 0)"
proof (induction "length w" arbitrary: w ps t rule: less_induct)
  case less
  show ?case
  proof (cases "at w = 42")
    case False
    with less.prems at_parse_star [of w ps] at_parse [of w ps] have "ps = []" "at w = 0" by auto
    with less.prems at_cstr [of t] show ?thesis by (subst match_loop.simps) auto
  next
    case True
    let ?w = "dropWhile (\<lambda>b. b = 42) w"
    from parse_skip_stars [OF less.prems(1) True] obtain qs where qs: "parse ?w = Some qs" "at ?w \<noteq> 42"
      "\<And>t. glob ps t \<longleftrightarrow> glob (Star # qs) t" by blast
    have sh: "length ?w < length w"
      using True length_dropWhile_le [of "\<lambda>b. b = 42" "tl w"] by (cases w) auto
    show ?thesis
    proof (cases "at ?w = 0")
      case at0: True
      then have "qs = []" using at_parse qs(1) by auto
      then have "glob ps t" using qs(3) by auto
      with True at0 show ?thesis by (subst match_loop.simps) simp
    next
      case False
      have "match_loop w t = step_result (search_loop ?w t)"
        using True False by (subst match_loop.simps) (simp add: step_result_def)
      also have "\<dots> = Some (if \<exists>k \<le> length t. glob qs (drop k t) then 1 else 0)"
      proof (rule search_loop_spec [OF _ qs(1) _ qs(2) less.prems(3)])
        show "qs \<noteq> []" using False at_parse [OF qs(1)] by simp
        fix w' qs' t' assume "length w' \<le> length ?w" "parse w' = Some qs'" "qs' = [] \<or> (\<exists>rs. qs' = Star # rs)" "cstr_ok t'"
        with less.hyps [of w' qs' t'] sh show "match_loop w' t' = Some (if glob qs' t' then 1 else 0)" by simp
      qed
      finally show ?thesis using qs(3) by simp
    qed
  qed
qed

lemma wc_match_spec:
  assumes "parse w = Some ps" and "cstr_ok t"
  shows "wc_match w t = Some (if glob ps t then 1 else 0)"
proof (cases "at w = 42")
  case True
  with at_parse_star [OF assms(1)] match_loop_spec [OF assms(1) _ assms(2)] show ?thesis
    by (simp add: wc_match_def)
next
  case False
  from wc_match_fragment_spec [OF assms] obtain f' where f': "parse f' = Some (dropWhile is_one ps)"
    "wc_match_fragment w t = (if frag_ok ps t then (1, f', drop (frag_len ps) t) else (0, w, t))" by blast
  from match_loop_spec [OF f'(1) dropWhile_is_one cstr_ok_drop(1) [OF assms(2)]] False f'(2) glob_frag [of ps t]
  show ?thesis by (simp add: wc_match_def)
qed


section \<open>Every pattern\<close>

definition wc_codes :: "int set" where
  "wc_codes = {1, 0, - WC_TRAILINGBACKSLASH, - WC_UNCLOSEDCLASS, - WC_INVALIDRANGE}"

lemma class_loop_codes: "class_loop f c m = Inl e \<Longrightarrow> e \<in> wc_codes"
proof (induction f c m rule: class_loop.induct)
  case (1 f c m)
  have "class_item f = Bad x \<Longrightarrow> x \<in> wc_codes" for x
    by (auto simp: class_item_def Let_def wc_codes_def split: if_splits)
  with 1 show ?case
    by (subst (asm) (3) class_loop.simps) (auto split: if_splits class_item.splits)
qed

lemma match_one_codes: "match_one f c = (r, g) \<Longrightarrow> r \<in> wc_codes"
  by (auto simp: match_one_def Let_def split: if_splits sum.splits dest: class_loop_codes)
    (auto simp: wc_codes_def)

lemma fragment_loop_codes:
  "fragment_loop f t = (r, f', t') \<Longrightarrow> r \<in> wc_codes \<and> (r = 1 \<longrightarrow> at f' = 0 \<or> at f' = 42)"
proof (induction f t rule: fragment_loop.induct)
  case (1 f t)
  show ?case
  proof (cases "at f \<noteq> 0 \<and> at f \<noteq> 42 \<and> at t \<noteq> 0")
    case False
    with 1(2) show ?thesis by (subst (asm) fragment_loop.simps) (auto simp: wc_codes_def split: if_splits)
  next
    case True
    obtain q g where m: "match_one f (at t) = (q, g)" by fastforce
    show ?thesis
    proof (cases "q = 1")
      case False
      with 1(2) True m match_one_codes [OF m] show ?thesis by (subst (asm) fragment_loop.simps) auto
    next
      case q: True
      from 1(2) True m q have "fragment_loop g (tl t) = (r, f', t')"
        by (subst (asm) fragment_loop.simps) auto
      with 1(1) [OF True m [symmetric] q] show ?thesis by blast
    qed
  qed
qed

lemma wc_match_fragment_codes:
  "wc_match_fragment f t = (r, f', t') \<Longrightarrow> r \<in> wc_codes \<and> (r > 0 \<longrightarrow> at f' = 0 \<or> at f' = 42)"
  using fragment_loop_codes [of f t]
  by (auto simp: wc_match_fragment_def split: prod.splits if_splits) (auto simp: wc_codes_def wc_errors)

lemma search_loop_codes:
  "(case search_loop w t of Return r \<Rightarrow> r \<in> wc_codes | Continue w' t' \<Rightarrow> at w' = 0 \<or> at w' = 42)"
proof (induction w t rule: search_loop.induct)
  case (1 w t)
  obtain r w' t' where m: "wc_match_fragment w t = (r, w', t')" by (metis prod_cases3)
  note c = wc_match_fragment_codes [OF m]
  have c2: "fst (wc_match_fragment w u) \<in> wc_codes" for u
    by (cases "wc_match_fragment w u") (use wc_match_fragment_codes in auto)
  have z: "0 \<in> wc_codes" by (simp add: wc_codes_def)
  consider "at t = 0" | "at t \<noteq> 0" "r < 0" | "at t \<noteq> 0" "r > 0" | "at t \<noteq> 0" "r = 0" by linarith
  then show ?case
  proof cases
    case 4
    with 1 m show ?thesis by (subst search_loop.simps) simp
  qed (use m c c2 z in \<open>subst search_loop.simps, simp\<close>)+
qed

lemma match_loop_total: "at w = 0 \<or> at w = 42 \<Longrightarrow> \<exists>r \<in> wc_codes. match_loop w t = Some r"
proof (induction w t rule: match_loop.induct)
  case (1 w t)
  let ?w = "dropWhile (\<lambda>b. b = 42) w"
  show ?case
  proof (cases "at w = 0 \<or> at ?w = 0")
    case True
    with 1(2) show ?thesis by (subst match_loop.simps) (auto simp: wc_codes_def Let_def)
  next
    case False
    then have c: "at w \<noteq> 0" "\<not> at w \<noteq> 42" "at ?w \<noteq> 0" using 1(2) by auto
    show ?thesis
    proof (cases "search_loop ?w t")
      case (Return r)
      with search_loop_codes [of ?w t] c show ?thesis by (subst match_loop.simps) (simp add: Let_def)
    next
      case (Continue w' t')
      with search_loop_codes [of ?w t] have "at w' = 0 \<or> at w' = 42" by simp
      from 1(1) [OF c(1,2) refl c(3) Continue this] Continue c show ?thesis
        by (subst match_loop.simps) (simp add: Let_def)
    qed
  qed
qed

lemma wc_match_total: "\<exists>r \<in> wc_codes. wc_match w t = Some r"
proof (cases "at w = 42")
  case True
  with match_loop_total show ?thesis by (simp add: wc_match_def)
next
  case False
  obtain r w' t' where m: "wc_match_fragment w t = (r, w', t')" by (metis prod_cases3)
  with wc_match_fragment_codes [OF m] match_loop_total [of w' t'] False show ?thesis
    by (auto simp: wc_match_def)
qed

section \<open>Unescaping\<close>

lemma unescape_loop_spec:
  "unescape_loop w out = (1, s) \<Longrightarrow> parse w = Some ps \<Longrightarrow>
   \<exists>u. s = out @ u \<and> (\<forall>t. glob ps t \<longleftrightarrow> t = u)"
proof (induction w out arbitrary: ps rule: unescape_loop.induct)
  case (1 w out)
  have one: "glob (One (\<lambda>c. c = x) # qs) t \<longleftrightarrow> t = x # u" if "\<And>t. glob qs t \<longleftrightarrow> t = u" for x qs t u
    using that by (cases t) auto
  consider (fin) "at w = 0" | (esc) "at w = 92" "at (tl w) \<noteq> 0" | (trail) "at w = 92" "at (tl w) = 0"
    | (wild) "at w = 42 \<or> at w = 63 \<or> at w = 91 \<or> at w = 93"
    | (lit) "at w \<noteq> 0" "at w \<noteq> 92" "\<not> (at w = 42 \<or> at w = 63 \<or> at w = 91 \<or> at w = 93)" by blast
  then show ?case
  proof cases
    case fin
    with "1.prems" show ?thesis by (subst (asm) unescape_loop.simps, subst (asm) parse.simps) auto
  next
    case esc
    from "1.prems"(2) esc obtain qs where qs: "parse (tl (tl w)) = Some qs" "ps = One (\<lambda>c. c = at (tl w)) # qs"
      by (subst (asm) parse.simps) auto
    from "1.prems"(1) esc have "unescape_loop (tl (tl w)) (out @ [at (tl w)]) = (1, s)"
      by (subst (asm) unescape_loop.simps) (simp add: Let_def)
    with "1.IH"(1) [OF _ _ refl _ _ qs(1)] esc obtain u where "s = (out @ [at (tl w)]) @ u" "\<forall>t. glob qs t \<longleftrightarrow> t = u" by auto
    with one [of qs u "at (tl w)"] qs(2) show ?thesis by (intro exI [of _ "at (tl w) # u"]) simp
  next
    case trail
    with "1.prems"(2) show ?thesis by (subst (asm) parse.simps) simp
  next
    case wild
    with "1.prems"(1) show ?thesis by (subst (asm) unescape_loop.simps) auto
  next
    case lit
    from "1.prems"(2) lit obtain qs where qs: "parse (tl w) = Some qs" "ps = One (\<lambda>c. c = at w) # qs"
      by (subst (asm) parse.simps) auto
    from "1.prems"(1) lit have "unescape_loop (tl w) (out @ [at w]) = (1, s)"
      by (subst (asm) unescape_loop.simps) simp
    with "1.IH"(3) [OF _ _ _ _ qs(1)] lit obtain u where "s = (out @ [at w]) @ u" "\<forall>t. glob qs t \<longleftrightarrow> t = u" by auto
    with one [of qs u "at w"] qs(2) show ?thesis by (intro exI [of _ "at w # u"]) simp
  qed
qed

section \<open>Properties\<close>

text \<open>
  Claim C17: for a wildcard of the documented syntax and any target, \<open>wc_match\<close> returns 1
  when the target is in the language of the wildcard and 0 otherwise: searching each
  fragment at its first place, and the last one at the end, never misses a match.
\<close>

theorem wc_match_language:
  assumes "parse w = Some ps" and "cstr_ok t"
  shows "wc_match w t = Some (if glob ps t then 1 else 0)"
  using assms by (rule wc_match_spec)

theorem wc_match_language_witness:
  "wc_match [42, 97, 63, 42, 97] [112, 97, 114, 107, 97] = Some 1"
proof -
  have p: "parse [42, 97, 63, 42, 97] = Some [Star, One (\<lambda>c. c = 97), One (\<lambda>c. True), Star, One (\<lambda>c. c = 97)]"
    by (simp add: parse.simps)
  have "glob [Star, One (\<lambda>c. c = 97), One (\<lambda>c. True), Star, One (\<lambda>c. c = 97)] [112, 97, 114, 107, 97]"
    by (simp, rule exI [of _ 1], simp, rule exI [of _ 1], simp)
  with wc_match_language [OF p, of "[112, 97, 114, 107, 97]"] show ?thesis by (simp add: cstr_ok_def)
qed

text \<open>
  On any pattern and target, well-formed or not, \<open>wc_match\<close> ends, its assertion
  holds, and the result is 1, 0 or one of the three documented error numbers.
\<close>

theorem wc_match_defined:
  "\<exists>r. wc_match w t = Some r \<and> r \<in> {1, 0, - WC_TRAILINGBACKSLASH, - WC_UNCLOSEDCLASS, - WC_INVALIDRANGE}"
  using wc_match_total [of w t] unfolding wc_codes_def by blast

text \<open>
  When \<open>wc_unescape\<close> accepts a well-formed pattern, the pattern matches exactly
  the string it wrote.
\<close>

theorem wc_unescape_exact:
  assumes "wc_unescape w = (1, s)" and "parse w \<noteq> None" and "cstr_ok t"
  shows "wc_match w t = Some (if t = s then 1 else 0)"
proof -
  from assms(2) obtain ps where ps: "parse w = Some ps" by blast
  from unescape_loop_spec [OF assms(1) [unfolded wc_unescape_def] ps] wc_match_spec [OF ps assms(3)]
  show ?thesis by auto
qed

theorem wc_unescape_exact_witness:
  "wc_unescape [97, 92, 42] = (1, [97, 42]) \<and> wc_match [97, 92, 42] [97, 42] = Some 1"
  using wc_unescape_exact [of "[97, 92, 42]" "[97, 42]" "[97, 42]"]
  by (simp add: wc_unescape_def unescape_loop.simps parse.simps cstr_ok_def)

end
