(* ===== verification/Bufchain.thy ===== *)
theory Bufchain
  imports Misc
begin

text \<open>
  The send buffers of \<open>putty/misc.c\<close> (\<open>bufchain\<close>): a linked list of granules.  A granule
  holds the bytes between \<open>bufpos\<close> and \<open>bufend\<close>, and room for \<open>bufmax - bufend\<close> more;
  the bytes before \<open>bufpos\<close> are never used again.  The list ends at \<open>tail\<close>.  A failed
  \<open>assert\<close>, or a read through a \<open>NULL\<close> head, is \<open>None\<close>.

  The locale \<open>byte_queue\<close> is the contract the network code relies on.
\<close>

section \<open>The code\<close>

definition BUFFER_MIN_GRANULE :: nat where
  "BUFFER_MIN_GRANULE = 512"

text \<open>The size of \<open>struct bufchain_granule\<close>: four pointers of four bytes.\<close>

definition sizeof_granule :: nat where
  "sizeof_granule = 16"

record granule =
  stored :: "byte list"
  room :: nat

record bufchain =
  granules :: "granule list"
  buffersize :: nat

definition bufchain_init :: bufchain where
  "bufchain_init = \<lparr>granules = [], buffersize = 0\<rparr>"

fun clear_granules :: "granule list \<Rightarrow> granule list" where
  "clear_granules [] = []"
| "clear_granules (b # gs) = clear_granules gs"

definition bufchain_clear :: "bufchain \<Rightarrow> bufchain" where
  "bufchain_clear ch = \<lparr>granules = clear_granules (granules ch), buffersize = 0\<rparr>"

definition bufchain_size :: "bufchain \<Rightarrow> nat" where
  "bufchain_size ch = buffersize ch"

definition has_room :: "granule list \<Rightarrow> bool" where
  "has_room gs \<longleftrightarrow> gs \<noteq> [] \<and> 0 < room (last gs)"

definition fill_tail :: "granule list \<Rightarrow> byte list \<Rightarrow> granule list \<times> byte list" where
  "fill_tail gs buf =
     (if has_room gs then
        (let tail = last gs; copylen = min (length buf) (room tail) in
         (butlast gs @ [\<lparr>stored = stored tail @ take copylen buf, room = room tail - copylen\<rparr>],
          drop copylen buf))
      else (gs, buf))"

definition new_granule :: "nat \<Rightarrow> granule" where
  "new_granule len =
     (let grainlen = max (sizeof_granule + len) BUFFER_MIN_GRANULE
      in \<lparr>stored = [], room = grainlen - sizeof_granule\<rparr>)"

lemma room_new_granule: "0 < room (new_granule len)" "len \<le> room (new_granule len)"
  by (auto simp: new_granule_def sizeof_granule_def BUFFER_MIN_GRANULE_def)

function add_loop :: "granule list \<Rightarrow> byte list \<Rightarrow> granule list" where
  "add_loop gs buf =
     (if buf = [] then gs
      else case fill_tail gs buf of
        (gs1, buf1) \<Rightarrow> if buf1 = [] then gs1 else add_loop (gs1 @ [new_granule (length buf1)]) buf1)"
  by pat_completeness auto
termination
proof (relation "measure (\<lambda>(gs, buf). 2 * length buf + (if has_room gs then 0 else 1))", goal_cases)
  case (2 gs buf gs1 buf1)
  have "has_room (gs1 @ [new_granule (length buf1)])"
    using room_new_granule by (simp add: has_room_def)
  moreover from 2 have "length buf1 \<le> length buf" "has_room gs \<longrightarrow> length buf1 < length buf"
    by (auto simp: fill_tail_def Let_def has_room_def split: if_splits)
  ultimately show ?case by auto
qed simp

declare add_loop.simps [simp del]

definition bufchain_add :: "bufchain \<Rightarrow> byte list \<Rightarrow> bufchain" where
  "bufchain_add ch data =
     (if data = [] then ch
      else \<lparr>granules = add_loop (granules ch) data, buffersize = buffersize ch + length data\<rparr>)"

fun consume_loop :: "granule list \<Rightarrow> nat \<Rightarrow> nat \<Rightarrow> bufchain option" where
  "consume_loop gs bsize 0 = Some \<lparr>granules = gs, buffersize = bsize\<rparr>"
| "consume_loop [] bsize (Suc len) = None"
| "consume_loop (g # gs) bsize (Suc len) =
     (let remlen = Suc len in
      if remlen \<ge> length (stored g)
      then consume_loop gs (bsize - length (stored g)) (remlen - length (stored g))
      else Some \<lparr>granules = g\<lparr>stored := drop remlen (stored g)\<rparr> # gs, buffersize = bsize - remlen\<rparr>)"

definition bufchain_consume :: "bufchain \<Rightarrow> nat \<Rightarrow> bufchain option" where
  "bufchain_consume ch len =
     (if buffersize ch \<ge> len then consume_loop (granules ch) (buffersize ch) len else None)"

definition bufchain_prefix :: "bufchain \<Rightarrow> (byte list \<times> nat) option" where
  "bufchain_prefix ch =
     (case granules ch of [] \<Rightarrow> None | g # gs \<Rightarrow> Some (stored g, length (stored g)))"

fun fetch_loop :: "granule list \<Rightarrow> nat \<Rightarrow> byte list option" where
  "fetch_loop gs 0 = Some []"
| "fetch_loop [] (Suc len) = None"
| "fetch_loop (g # gs) (Suc len) =
     (let remlen = (if Suc len \<ge> length (stored g) then length (stored g) else Suc len)
      in map_option ((@) (take remlen (stored g))) (fetch_loop gs (Suc len - remlen)))"

definition bufchain_fetch :: "bufchain \<Rightarrow> nat \<Rightarrow> byte list option" where
  "bufchain_fetch ch len =
     (if buffersize ch \<ge> len then fetch_loop (granules ch) len else None)"

section \<open>The contract of a byte queue\<close>

text \<open>A client adds bytes and takes bytes in any order.\<close>

datatype queue_op = Add "byte list" | Take nat

fun run_queue :: "('s \<Rightarrow> byte list \<Rightarrow> 's) \<Rightarrow> ('s \<Rightarrow> nat \<Rightarrow> byte list option) \<Rightarrow> ('s \<Rightarrow> nat \<Rightarrow> 's option)
    \<Rightarrow> queue_op list \<Rightarrow> 's \<Rightarrow> byte list \<Rightarrow> (byte list \<times> 's) option" where
  "run_queue add fetch consume [] s out = Some (out, s)"
| "run_queue add fetch consume (Add d # ops) s out = run_queue add fetch consume ops (add s d) out"
| "run_queue add fetch consume (Take n # ops) s out =
     (case (fetch s n, consume s n) of
        (Some d, Some s') \<Rightarrow> run_queue add fetch consume ops s' (out @ d)
      | _ \<Rightarrow> None)"

fun ops_ok :: "queue_op list \<Rightarrow> nat \<Rightarrow> bool" where
  "ops_ok [] avail \<longleftrightarrow> True"
| "ops_ok (Add d # ops) avail \<longleftrightarrow> ops_ok ops (avail + length d)"
| "ops_ok (Take n # ops) avail \<longleftrightarrow> n \<le> avail \<and> ops_ok ops (avail - n)"

fun added :: "queue_op list \<Rightarrow> byte list" where
  "added [] = []"
| "added (Add d # ops) = d @ added ops"
| "added (Take n # ops) = added ops"

locale byte_queue =
  fixes inv :: "'s \<Rightarrow> bool"
    and contents :: "'s \<Rightarrow> byte list"
    and add :: "'s \<Rightarrow> byte list \<Rightarrow> 's"
    and fetch :: "'s \<Rightarrow> nat \<Rightarrow> byte list option"
    and consume :: "'s \<Rightarrow> nat \<Rightarrow> 's option"
    and prefix :: "'s \<Rightarrow> (byte list \<times> nat) option"
  assumes add_inv: "inv s \<Longrightarrow> inv (add s d)"
    and add_contents: "inv s \<Longrightarrow> contents (add s d) = contents s @ d"
    and fetch_contents: "inv s \<Longrightarrow> fetch s n = (if n \<le> length (contents s) then Some (take n (contents s)) else None)"
    and consume_contents: "inv s \<Longrightarrow> (if n \<le> length (contents s)
      then \<exists>s'. consume s n = Some s' \<and> inv s' \<and> contents s' = drop n (contents s) else consume s n = None)"
    and prefix_contents: "inv s \<Longrightarrow> (if contents s = [] then prefix s = None
      else \<exists>p. prefix s = Some (p, length p) \<and> p \<noteq> [] \<and> (\<exists>rest. contents s = p @ rest))"
begin

text \<open>Any sequence of operations that never takes more than there is delivers the added bytes in order.\<close>

lemma run_fifo:
  "inv s \<Longrightarrow> ops_ok ops (length (contents s)) \<Longrightarrow>
   \<exists>out' s'. run_queue add fetch consume ops s out = Some (out @ out', s') \<and> inv s'
     \<and> contents s @ added ops = out' @ contents s'"
proof (induction ops arbitrary: s out)
  case Nil
  then show ?case by simp
next
  case (Cons q ops)
  show ?case
  proof (cases q)
    case (Add d)
    with Cons.IH [OF add_inv [OF Cons.prems(1), of d], of out] Cons.prems add_contents [OF Cons.prems(1), of d]
    show ?thesis by auto
  next
    case (Take n)
    with Cons.prems(2) have n: "n \<le> length (contents s)" by simp
    with consume_contents [OF Cons.prems(1), of n] obtain s1 where s1: "consume s n = Some s1" "inv s1"
      "contents s1 = drop n (contents s)" by auto
    from Cons.IH [OF s1(2), of "out @ take n (contents s)"] s1(3) Cons.prems(2) Take obtain out' s' where
      "run_queue add fetch consume ops s1 (out @ take n (contents s)) = Some ((out @ take n (contents s)) @ out', s')"
      "inv s'" "contents s1 @ added ops = out' @ contents s'" by auto
    moreover from this(3) s1(3) have "contents s @ added ops = (take n (contents s) @ out') @ contents s'"
      by (metis append.assoc append_take_drop_id)
    ultimately show ?thesis
      using Take s1(1) n fetch_contents [OF Cons.prems(1), of n] by (auto simp: append_assoc)
  qed
qed

lemma run_stops:
  "inv s \<Longrightarrow> \<not> ops_ok ops (length (contents s)) \<Longrightarrow> run_queue add fetch consume ops s out = None"
proof (induction ops arbitrary: s out)
  case Nil
  then show ?case by simp
next
  case (Cons q ops)
  show ?case
  proof (cases q)
    case (Add d)
    with Cons.IH [OF add_inv [OF Cons.prems(1), of d], of out] Cons.prems add_contents [OF Cons.prems(1), of d]
    show ?thesis by simp
  next
    case (Take n)
    show ?thesis
    proof (cases "n \<le> length (contents s)")
      case False
      with Take fetch_contents [OF Cons.prems(1), of n] show ?thesis by simp
    next
      case True
      with consume_contents [OF Cons.prems(1), of n] obtain s1 where s1: "consume s n = Some s1" "inv s1"
        "contents s1 = drop n (contents s)" by auto
      with Cons.IH [OF s1(2)] Cons.prems(2) Take True fetch_contents [OF Cons.prems(1), of n]
      show ?thesis by simp
    qed
  qed
qed

end

section \<open>A buffer chain is a byte queue\<close>

definition chain_bytes :: "bufchain \<Rightarrow> byte list" where
  "chain_bytes ch = concat (map stored (granules ch))"

definition bufchain_ok :: "bufchain \<Rightarrow> bool" where
  "bufchain_ok ch \<longleftrightarrow> buffersize ch = length (chain_bytes ch) \<and> (\<forall>g \<in> set (granules ch). stored g \<noteq> [])"

lemma bufchain_init_ok [simp]: "bufchain_ok bufchain_init" "chain_bytes bufchain_init = []"
  by (simp_all add: bufchain_ok_def bufchain_init_def chain_bytes_def)

lemma bufchain_ok_size: "bufchain_ok ch \<Longrightarrow> buffersize ch = length (chain_bytes ch)"
  by (simp add: bufchain_ok_def)

lemma fill_tail_bytes:
  assumes "fill_tail gs buf = (gs1, buf1)" and "buf \<noteq> []"
  shows "concat (map stored gs1) @ buf1 = concat (map stored gs) @ buf"
    and "(\<forall>g \<in> set (butlast gs). stored g \<noteq> []) \<Longrightarrow> (stored (last gs) \<noteq> [] \<or> has_room gs) \<Longrightarrow> \<forall>g \<in> set gs1. stored g \<noteq> []"
proof -
  have gs: "gs = butlast gs @ [last gs]" if "gs \<noteq> []" using that by simp
  have sg: "set gs = insert (last gs) (set (butlast gs))" if "gs \<noteq> []"
    using that by (induction gs) auto
  have bytes: "concat (map stored gs) = concat (map stored (butlast gs)) @ stored (last gs)" if "gs \<noteq> []"
    using arg_cong [OF gs [OF that], of "\<lambda>x. concat (map stored x)"] by simp
  show "concat (map stored gs1) @ buf1 = concat (map stored gs) @ buf"
    using assms(1) bytes by (auto simp: fill_tail_def Let_def has_room_def split: if_splits)
  show "\<forall>g \<in> set gs1. stored g \<noteq> []"
    if "\<forall>g \<in> set (butlast gs). stored g \<noteq> []" "stored (last gs) \<noteq> [] \<or> has_room gs"
  proof (cases "has_room gs")
    case True
    with assms that(1) show ?thesis
      by (auto simp: fill_tail_def Let_def has_room_def min_def split: if_splits)
  next
    case False
    with assms that show ?thesis
      using sg by (cases "gs = []") (auto simp: fill_tail_def)
  qed
qed

lemma add_loop_spec:
  "(\<forall>g \<in> set (butlast gs). stored g \<noteq> []) \<Longrightarrow> gs = [] \<or> stored (last gs) \<noteq> [] \<or> has_room gs \<Longrightarrow> buf \<noteq> [] \<Longrightarrow>
   concat (map stored (add_loop gs buf)) = concat (map stored gs) @ buf
   \<and> (\<forall>g \<in> set (add_loop gs buf). stored g \<noteq> [])"
proof (induction gs buf rule: add_loop.induct)
  case (1 gs buf)
  obtain gs1 buf1 where f: "fill_tail gs buf = (gs1, buf1)" by fastforce
  note b = fill_tail_bytes(1) [OF f 1(4)]
  have ne: "\<forall>g \<in> set gs1. stored g \<noteq> []"
  proof (cases "gs = []")
    case True
    with f show ?thesis by (simp add: fill_tail_def has_room_def)
  next
    case False
    with fill_tail_bytes(2) [OF f 1(4)] 1(2,3) show ?thesis by blast
  qed
  show ?case
  proof (cases "buf1 = []")
    case True
    with 1(4) f b ne show ?thesis by (subst (1 2) add_loop.simps) simp
  next
    case False
    let ?gs = "gs1 @ [new_granule (length buf1)]"
    have "has_room ?gs" using room_new_granule by (simp add: has_room_def)
    with 1(1) [OF 1(4) f [symmetric] False] ne False
    have IH: "concat (map stored (add_loop ?gs buf1)) = concat (map stored ?gs) @ buf1
      \<and> (\<forall>g \<in> set (add_loop ?gs buf1). stored g \<noteq> [])" by simp
    have "stored (new_granule (length buf1)) = []" by (simp add: new_granule_def Let_def)
    with IH b have "concat (map stored (add_loop ?gs buf1)) = concat (map stored gs) @ buf" by simp
    with IH False 1(4) f show ?thesis by (subst (1 2) add_loop.simps) simp
  qed
qed

lemma bufchain_add_spec:
  assumes "bufchain_ok ch"
  shows "bufchain_ok (bufchain_add ch d)" and "chain_bytes (bufchain_add ch d) = chain_bytes ch @ d"
proof -
  have "\<forall>g \<in> set (butlast (granules ch)). stored g \<noteq> []" "granules ch = [] \<or> stored (last (granules ch)) \<noteq> []"
    using assms by (auto simp: bufchain_ok_def dest: in_set_butlastD)
  with add_loop_spec [of "granules ch" d] assms
  show "bufchain_ok (bufchain_add ch d)" and "chain_bytes (bufchain_add ch d) = chain_bytes ch @ d"
    by (auto simp: bufchain_add_def bufchain_ok_def chain_bytes_def)
qed

lemma consume_loop_spec:
  "(\<forall>g \<in> set gs. stored g \<noteq> []) \<Longrightarrow> n = length (concat (map stored gs)) \<Longrightarrow> len \<le> n \<Longrightarrow>
   \<exists>ch. consume_loop gs n len = Some ch \<and> bufchain_ok ch \<and> chain_bytes ch = drop len (concat (map stored gs))"
proof (induction gs n len rule: consume_loop.induct)
  case (1 gs n)
  then show ?case by (simp add: bufchain_ok_def chain_bytes_def)
next
  case (2 n len)
  then show ?case by simp
next
  case (3 g gs n len)
  show ?case
  proof (cases "Suc len \<ge> length (stored g)")
    case True
    with "3.IH" [OF refl True] "3.prems" show ?thesis by (simp add: Let_def)
  next
    case False
    with "3.prems" show ?thesis by (auto simp: Let_def bufchain_ok_def chain_bytes_def)
  qed
qed

lemma fetch_loop_spec:
  "len \<le> length (concat (map stored gs)) \<Longrightarrow> fetch_loop gs len = Some (take len (concat (map stored gs)))"
  by (induction gs len rule: fetch_loop.induct) (auto simp: Let_def)

interpretation bufq: byte_queue bufchain_ok chain_bytes bufchain_add bufchain_fetch bufchain_consume bufchain_prefix
proof
  fix s :: bufchain and d n
  assume s: "bufchain_ok s"
  then show "bufchain_ok (bufchain_add s d)" "chain_bytes (bufchain_add s d) = chain_bytes s @ d"
    by (rule bufchain_add_spec)+
  from s show "bufchain_fetch s n = (if n \<le> length (chain_bytes s) then Some (take n (chain_bytes s)) else None)"
    by (simp add: bufchain_fetch_def bufchain_ok_def fetch_loop_spec chain_bytes_def)
  from s consume_loop_spec [of "granules s" "buffersize s" n]
  show "if n \<le> length (chain_bytes s)
    then \<exists>s'. bufchain_consume s n = Some s' \<and> bufchain_ok s' \<and> chain_bytes s' = drop n (chain_bytes s)
    else bufchain_consume s n = None"
    by (auto simp: bufchain_consume_def bufchain_ok_def chain_bytes_def)
  from s show "if chain_bytes s = [] then bufchain_prefix s = None
    else \<exists>p. bufchain_prefix s = Some (p, length p) \<and> p \<noteq> [] \<and> (\<exists>rest. chain_bytes s = p @ rest)"
    by (cases "granules s") (auto simp: bufchain_prefix_def bufchain_ok_def chain_bytes_def)
qed

section \<open>Properties\<close>

text \<open>
  Claim C31: whatever the sequence of additions and removals and however the bytes fall into
  granules, a buffer chain delivers the bytes added to it in order, and keeps the rest; it
  stops at an \<open>assert\<close> only when more is taken than it holds.
\<close>

theorem bufchain_fifo:
  "if ops_ok ops 0
   then \<exists>out ch. run_queue bufchain_add bufchain_fetch bufchain_consume ops bufchain_init [] = Some (out, ch)
     \<and> added ops = out @ chain_bytes ch \<and> bufchain_size ch = length (chain_bytes ch)
   else run_queue bufchain_add bufchain_fetch bufchain_consume ops bufchain_init [] = None"
  using bufq.run_fifo [of bufchain_init ops "[]"] bufq.run_stops [of bufchain_init ops "[]"]
  by (auto simp: bufchain_size_def dest: bufchain_ok_size)

text \<open>
  A non-empty buffer chain offers a non-empty prefix of its contents for sending,
  which consuming its length removes exactly, so a loop of sends always makes progress.
\<close>

theorem bufchain_prefix_progress:
  assumes "bufchain_ok ch" and "bufchain_size ch > 0"
  shows "\<exists>p ch'. bufchain_prefix ch = Some (p, length p) \<and> p \<noteq> [] \<and> bufchain_consume ch (length p) = Some ch'
    \<and> bufchain_ok ch' \<and> chain_bytes ch = p @ chain_bytes ch' \<and> bufchain_size ch' < bufchain_size ch"
proof -
  from assms have "chain_bytes ch \<noteq> []" by (auto simp: bufchain_ok_def bufchain_size_def)
  with bufq.prefix_contents [OF assms(1)] obtain p rest where
    p: "bufchain_prefix ch = Some (p, length p)" "p \<noteq> []" "chain_bytes ch = p @ rest" by auto
  with bufq.consume_contents [OF assms(1), of "length p"] obtain ch' where
    "bufchain_consume ch (length p) = Some ch'" "bufchain_ok ch'" "chain_bytes ch' = rest" by auto
  with p assms(1) show ?thesis by (auto simp: bufchain_size_def bufchain_ok_def)
qed

theorem bufchain_prefix_progress_witness:
  "\<exists>p ch'. bufchain_prefix (bufchain_add bufchain_init [1, 2]) = Some (p, length p) \<and> p \<noteq> []
    \<and> bufchain_consume (bufchain_add bufchain_init [1, 2]) (length p) = Some ch' \<and> bufchain_ok ch'
    \<and> chain_bytes (bufchain_add bufchain_init [1, 2]) = p @ chain_bytes ch'
    \<and> bufchain_size ch' < bufchain_size (bufchain_add bufchain_init [1, 2])"
  by (rule bufchain_prefix_progress)
    (simp_all add: bufchain_add_spec bufchain_size_def bufchain_ok_size)

end
