(* ===== verification/Base64.thy ===== *)
theory Base64
  imports Misc
begin

text \<open>
  The base64 atoms of \<open>putty/misc.c\<close>: up to three bytes in four characters.  The
  accumulator \<open>unsigned word\<close> is a \<open>32 word\<close>; the value -1 of a padding character is the
  word of all ones, as after the conversion to \<open>unsigned\<close>.
\<close>

section \<open>The code\<close>

definition base64_chars :: "byte list" where
  "base64_chars = map (\<lambda>i. of_nat i + 65) [0..<26] @ map (\<lambda>i. of_nat i + 97) [0..<26]
     @ map (\<lambda>i. of_nat i + 48) [0..<10] @ [43, 47]"

definition base64_encode_atom :: "byte list \<Rightarrow> nat \<Rightarrow> byte list" where
  "base64_encode_atom data n =
     (let word = push_bit 16 (ucast (data ! 0)) :: 32 word;
          word = (if n > 1 then word OR push_bit 8 (ucast (data ! 1)) else word);
          word = (if n > 2 then word OR ucast (data ! 2) else word)
      in [base64_chars ! unat (drop_bit 18 word AND 0x3F),
          base64_chars ! unat (drop_bit 12 word AND 0x3F),
          (if n > 1 then base64_chars ! unat (drop_bit 6 word AND 0x3F) else 61),
          (if n > 2 then base64_chars ! unat (word AND 0x3F) else 61)])"

text \<open>The value of a character: 0 to 63, -1 for \<open>=\<close>, \<open>None\<close> for any other.\<close>

definition base64_val :: "byte \<Rightarrow> 32 word option" where
  "base64_val c =
     (if c \<ge> 65 \<and> c \<le> 90 then Some (ucast c - 65)
      else if c \<ge> 97 \<and> c \<le> 122 then Some (ucast c - 97 + 26)
      else if c \<ge> 48 \<and> c \<le> 57 then Some (ucast c - 48 + 52)
      else if c = 43 then Some 62
      else if c = 47 then Some 63
      else if c = 61 then Some (- 1)
      else None)"

text \<open>The bytes decoded; the length returned is the length of the list, 0 for a bad atom.\<close>

definition base64_decode_vals :: "32 word \<Rightarrow> 32 word \<Rightarrow> 32 word \<Rightarrow> 32 word \<Rightarrow> byte list" where
  "base64_decode_vals v0 v1 v2 v3 =
     (if v0 = - 1 \<or> v1 = - 1 then []
      else if v2 = - 1 \<and> v3 \<noteq> - 1 then []
      else let len = (if v3 \<noteq> - 1 then 3 else if v2 \<noteq> - 1 then 2 else 1);
               word = push_bit 18 v0 OR push_bit 12 v1 OR push_bit 6 (v2 AND 0x3F) OR (v3 AND 0x3F)
           in [ucast (drop_bit 16 word AND 0xFF)]
              @ (if len > (1::nat) then [ucast (drop_bit 8 word AND 0xFF)] else [])
              @ (if len > 2 then [ucast (word AND 0xFF)] else []))"

definition base64_decode_atom :: "byte list \<Rightarrow> byte list" where
  "base64_decode_atom atom =
     (case (base64_val (atom ! 0), base64_val (atom ! 1), base64_val (atom ! 2), base64_val (atom ! 3)) of
        (Some v0, Some v1, Some v2, Some v3) \<Rightarrow> base64_decode_vals v0 v1 v2 v3
      | _ \<Rightarrow> [])"

section \<open>Characters\<close>

lemma length_base64_chars: "length base64_chars = 64"
  by (simp add: base64_chars_def)

lemma base64_val_chars: "\<forall>i \<in> set [0..<64]. base64_val (base64_chars ! i) = Some (of_nat i)"
  by code_simp

lemma base64_val_nth:
  fixes w :: "32 word"
  assumes "w \<le> 63"
  shows "base64_val (base64_chars ! unat w) = Some w"
proof -
  have "unat w \<le> unat (63 :: 32 word)" using assms by (simp only: word_le_nat_alt)
  then have "unat w \<in> set [0..<64]" by simp
  then have "base64_val (base64_chars ! unat w) = Some (of_nat (unat w))" using base64_val_chars by blast
  then show ?thesis by simp
qed

lemma and_63: "(w :: 32 word) AND 0x3F \<le> 63"
  by (rule word_and_le1)

lemma base64_val_sextet: "base64_val (base64_chars ! unat ((w :: 32 word) AND 0x3F)) = Some (w AND 0x3F)"
  by (rule base64_val_nth) (rule and_63)

lemma base64_val_pad: "base64_val 61 = Some (- 1)"
  by (simp add: base64_val_def)

lemma sextet_not_pad: "(w :: 32 word) AND 0x3F \<noteq> - 1"
proof
  assume "w AND 0x3F = - 1"
  with and_63 [of w] have "(- 1 :: 32 word) \<le> 63" by simp
  then have "unat (- 1 :: 32 word) \<le> unat (63 :: 32 word)" by (simp only: word_le_nat_alt)
  then show False by (simp add: unsigned_minus_1_eq_mask mask_eq_exp_minus_1)
qed

section \<open>Sextets\<close>

lemma masks: "(0x3F :: 32 word) = mask 6" "(0xFF :: 32 word) = mask 8"
  by (simp_all add: mask_eq_exp_minus_1)

lemma byte_bit: "bit (b :: byte) n \<Longrightarrow> n < 8"
  by (auto dest: bit_imp_le_length)

lemmas sextet_bits = bit_or_iff bit_and_iff bit_push_bit_iff bit_drop_bit_eq bit_ucast_iff bit_mask_iff

text \<open>The four sextets of an accumulator give back its three low bytes.\<close>

lemma sextets_bytes:
  fixes w x y :: "32 word"
  defines "v \<equiv> push_bit 18 (drop_bit 18 w AND 0x3F) OR push_bit 12 (drop_bit 12 w AND 0x3F)
      OR push_bit 6 (x AND 0x3F) OR (y AND 0x3F)"
  shows "ucast (drop_bit 16 v AND 0xFF) = (ucast (drop_bit 16 w) :: byte)"
    and "x = drop_bit 6 w AND 0x3F \<Longrightarrow> ucast (drop_bit 8 v AND 0xFF) = (ucast (drop_bit 8 w) :: byte)"
    and "x = drop_bit 6 w AND 0x3F \<Longrightarrow> y = w AND 0x3F \<Longrightarrow> ucast (v AND 0xFF) = (ucast w :: byte)"
proof -
  show "ucast (drop_bit 16 v AND 0xFF) = (ucast (drop_bit 16 w) :: byte)"
  proof (rule bit_word_eqI)
    fix n assume "n < LENGTH(8)"
    then have "n < 2 \<or> 2 \<le> n \<and> n < 8" by auto
    then show "bit (ucast (drop_bit 16 v AND 0xFF) :: byte) n \<longleftrightarrow> bit (ucast (drop_bit 16 w) :: byte) n"
      unfolding v_def masks by (elim disjE) (auto simp: sextet_bits)
  qed
  show "ucast (drop_bit 8 v AND 0xFF) = (ucast (drop_bit 8 w) :: byte)" if "x = drop_bit 6 w AND 0x3F"
  proof (rule bit_word_eqI)
    fix n assume "n < LENGTH(8)"
    then have "n < 4 \<or> 4 \<le> n \<and> n < 8" by auto
    then show "bit (ucast (drop_bit 8 v AND 0xFF) :: byte) n \<longleftrightarrow> bit (ucast (drop_bit 8 w) :: byte) n"
      unfolding v_def that masks by (elim disjE) (auto simp: sextet_bits)
  qed
  show "ucast (v AND 0xFF) = (ucast w :: byte)" if "x = drop_bit 6 w AND 0x3F" "y = w AND 0x3F"
  proof (rule bit_word_eqI)
    fix n assume "n < LENGTH(8)"
    then have "n < 6 \<or> 6 \<le> n \<and> n < 8" by auto
    then show "bit (ucast (v AND 0xFF) :: byte) n \<longleftrightarrow> bit (ucast w :: byte) n"
      unfolding v_def that masks by (elim disjE) (auto simp: sextet_bits)
  qed
qed

lemma pack_bytes:
  fixes a b c :: byte
  defines "w \<equiv> push_bit 16 (ucast a) OR push_bit 8 (ucast b) OR ucast c :: 32 word"
  shows "ucast (drop_bit 16 w) = a" "ucast (drop_bit 8 w) = b" "ucast w = c"
  unfolding w_def by (rule bit_word_eqI, auto simp: sextet_bits dest: byte_bit)+


section \<open>Properties\<close>

lemma decode_sextets:
  fixes w :: "32 word"
  shows "base64_decode_vals (drop_bit 18 w AND 0x3F) (drop_bit 12 w AND 0x3F) (drop_bit 6 w AND 0x3F) (w AND 0x3F)
      = [ucast (drop_bit 16 w), ucast (drop_bit 8 w), ucast w]"
    and "base64_decode_vals (drop_bit 18 w AND 0x3F) (drop_bit 12 w AND 0x3F) (drop_bit 6 w AND 0x3F) (- 1)
      = [ucast (drop_bit 16 w), ucast (drop_bit 8 w)]"
    and "base64_decode_vals (drop_bit 18 w AND 0x3F) (drop_bit 12 w AND 0x3F) (- 1) (- 1) = [ucast (drop_bit 16 w)]"
proof -
  note S = base64_decode_vals_def Let_def sextet_not_pad if_True if_False simp_thms append.simps sextets_bytes(1)
  have l: "(3::nat) > 1" "(3::nat) > 2" "(2::nat) > 1" "\<not> (2::nat) > 2" "\<not> (1::nat) > 1" "\<not> (1::nat) > 2" by simp_all
  show "base64_decode_vals (drop_bit 18 w AND 0x3F) (drop_bit 12 w AND 0x3F) (drop_bit 6 w AND 0x3F) (w AND 0x3F)
      = [ucast (drop_bit 16 w), ucast (drop_bit 8 w), ucast w]"
    by (simp only: S l sextets_bytes(2) [OF refl] sextets_bytes(3) [OF refl refl])
  show "base64_decode_vals (drop_bit 18 w AND 0x3F) (drop_bit 12 w AND 0x3F) (drop_bit 6 w AND 0x3F) (- 1)
      = [ucast (drop_bit 16 w), ucast (drop_bit 8 w)]"
    by (simp only: S l sextets_bytes(2) [OF refl])
  show "base64_decode_vals (drop_bit 18 w AND 0x3F) (drop_bit 12 w AND 0x3F) (- 1) (- 1) = [ucast (drop_bit 16 w)]"
    by (simp only: S l)
qed

lemma decode_chars:
  fixes w :: "32 word"
  defines "ch k \<equiv> base64_chars ! unat (drop_bit k w AND 0x3F)"
  shows "base64_decode_atom [ch 18, ch 12, ch 6, base64_chars ! unat (w AND 0x3F)]
      = [ucast (drop_bit 16 w), ucast (drop_bit 8 w), ucast w]"
    and "base64_decode_atom [ch 18, ch 12, ch 6, 61] = [ucast (drop_bit 16 w), ucast (drop_bit 8 w)]"
    and "base64_decode_atom [ch 18, ch 12, 61, 61] = [ucast (drop_bit 16 w)]"
proof -
  have n: "xs ! 2 = xs ! Suc 1" "xs ! 3 = xs ! Suc (Suc 1)" for xs :: "byte list"
    by (simp_all add: numeral_2_eq_2 numeral_3_eq_3)
  note S = base64_decode_atom_def nth_Cons_0 nth_Cons_Suc One_nat_def ch_def n base64_val_sextet base64_val_pad
    prod.case option.case decode_sextets
  show "base64_decode_atom [ch 18, ch 12, ch 6, base64_chars ! unat (w AND 0x3F)]
      = [ucast (drop_bit 16 w), ucast (drop_bit 8 w), ucast w]"
    by (simp only: S)
  show "base64_decode_atom [ch 18, ch 12, ch 6, 61] = [ucast (drop_bit 16 w), ucast (drop_bit 8 w)]"
    by (simp only: S)
  show "base64_decode_atom [ch 18, ch 12, 61, 61] = [ucast (drop_bit 16 w)]"
    by (simp only: S)
qed

lemma encode_decode:
  "base64_decode_atom (base64_encode_atom [a] 1) = [a]"
  "base64_decode_atom (base64_encode_atom [a, b] 2) = [a, b]"
  "base64_decode_atom (base64_encode_atom [a, b, c] 3) = [a, b, c]"
proof -
  have n: "[a, b, c] ! 0 = a" "[a, b, c] ! 1 = b" "[a, b, c] ! 2 = c" "[a, b] ! 0 = a" "[a, b] ! 1 = b" "[a] ! 0 = a"
    by simp_all
  have l: "(3::nat) > 1" "(3::nat) > 2" "(2::nat) > 1" "\<not> (2::nat) > 2" "\<not> (1::nat) > 1" "\<not> (1::nat) > 2" by simp_all
  note S = base64_encode_atom_def Let_def n l if_True if_False decode_chars
  from pack_bytes(1) [of a 0 0] have p1: "ucast (drop_bit 16 (push_bit 16 (ucast a) :: 32 word)) = a"
    by (simp only: unsigned_0 push_bit_of_0 or.right_neutral)
  from pack_bytes(1,2) [of a b 0] have p2: "ucast (drop_bit 16 (push_bit 16 (ucast a) OR push_bit 8 (ucast b) :: 32 word)) = a"
    "ucast (drop_bit 8 (push_bit 16 (ucast a) OR push_bit 8 (ucast b) :: 32 word)) = b"
    by (simp_all only: unsigned_0 push_bit_of_0 or.right_neutral)
  show "base64_decode_atom (base64_encode_atom [a] 1) = [a]"
    by (simp only: S p1)
  show "base64_decode_atom (base64_encode_atom [a, b] 2) = [a, b]"
    by (simp only: S p2)
  show "base64_decode_atom (base64_encode_atom [a, b, c] 3) = [a, b, c]"
    by (simp only: S or.assoc pack_bytes)
qed

text \<open>
  Encoding one, two or three bytes as a base64 atom gives four characters, of
  which the last ones are padding, and decoding them gives back exactly the bytes.
\<close>

theorem base64_atom_roundtrip:
  assumes "data \<noteq> []" and "length data \<le> 3"
  shows "length (base64_encode_atom data (length data)) = 4
    \<and> base64_decode_atom (base64_encode_atom data (length data)) = data"
proof -
  from assms consider a where "data = [a]" | a b where "data = [a, b]" | a b c where "data = [a, b, c]"
    by (cases data; cases "tl data"; cases "tl (tl data)") auto
  then have "base64_decode_atom (base64_encode_atom data (length data)) = data"
  proof cases
    case 1
    moreover have "length [a] = 1" by simp
    ultimately show ?thesis using encode_decode(1) by (simp only:)
  next
    case 2
    moreover have "length [a, b] = 2" by simp
    ultimately show ?thesis using encode_decode(2) by (simp only:)
  next
    case 3
    moreover have "length [a, b, c] = 3" by simp
    ultimately show ?thesis using encode_decode(3) by (simp only:)
  qed
  moreover have "length (base64_encode_atom data n) = 4" for n
    by (simp add: base64_encode_atom_def Let_def)
  ultimately show ?thesis by blast
qed

theorem base64_atom_roundtrip_witness:
  "base64_decode_atom (base64_encode_atom [77, 97] 2) = [77, 97]"
  using base64_atom_roundtrip [of "[77, 97]"] by (simp add: numeral_2_eq_2)

end
