(* ===== verification/Telnet.thy ===== *)
theory Telnet
  imports Misc
begin

text \<open>
  The Telnet backend of \<open>putty/telnet.c\<close>: option negotiation, the receiving state
  machine, subnegotiations, and the sending side.

  The state is the structure \<open>telnet_tag\<close>.  What the backend does to its environment (the
  socket, the front end, the event log, the line discipline) is the list \<open>outputs\<close>, in
  order.  The integers that \<open>sk_write\<close> and \<open>from_backend\<close> return come from the
  environment: a parameter \<open>env\<close> gives them for the outputs so far.  The configuration
  values the backend reads are the record \<open>tel_conf\<close>.
\<close>

section \<open>Protocol constants\<close>

abbreviation (input) IAC :: byte where "IAC \<equiv> 255"
abbreviation (input) DONT :: byte where "DONT \<equiv> 254"
abbreviation (input) DO :: byte where "DO \<equiv> 253"
abbreviation (input) WONT :: byte where "WONT \<equiv> 252"
abbreviation (input) WILL :: byte where "WILL \<equiv> 251"
abbreviation (input) SB :: byte where "SB \<equiv> 250"
abbreviation (input) SE :: byte where "SE \<equiv> 240"
abbreviation (input) GA :: byte where "GA \<equiv> 249"
abbreviation (input) EL :: byte where "EL \<equiv> 248"
abbreviation (input) EC :: byte where "EC \<equiv> 247"
abbreviation (input) AYT :: byte where "AYT \<equiv> 246"
abbreviation (input) AO :: byte where "AO \<equiv> 245"
abbreviation (input) IP :: byte where "IP \<equiv> 244"
abbreviation (input) BREAK :: byte where "BREAK \<equiv> 243"
abbreviation (input) DM :: byte where "DM \<equiv> 242"
abbreviation (input) NOP :: byte where "NOP \<equiv> 241"
abbreviation (input) EOR :: byte where "EOR \<equiv> 239"
abbreviation (input) ABORT :: byte where "ABORT \<equiv> 238"
abbreviation (input) SUSP :: byte where "SUSP \<equiv> 237"
abbreviation (input) xEOF :: byte where "xEOF \<equiv> 236"

abbreviation (input) TELOPT_BINARY :: byte where "TELOPT_BINARY \<equiv> 0"
abbreviation (input) TELOPT_ECHO :: byte where "TELOPT_ECHO \<equiv> 1"
abbreviation (input) TELOPT_SGA :: byte where "TELOPT_SGA \<equiv> 3"
abbreviation (input) TELOPT_TTYPE :: byte where "TELOPT_TTYPE \<equiv> 24"
abbreviation (input) TELOPT_NAWS :: byte where "TELOPT_NAWS \<equiv> 31"
abbreviation (input) TELOPT_TSPEED :: byte where "TELOPT_TSPEED \<equiv> 32"
abbreviation (input) TELOPT_OLD_ENVIRON :: byte where "TELOPT_OLD_ENVIRON \<equiv> 36"
abbreviation (input) TELOPT_NEW_ENVIRON :: byte where "TELOPT_NEW_ENVIRON \<equiv> 39"

abbreviation (input) TELQUAL_IS :: byte where "TELQUAL_IS \<equiv> 0"
abbreviation (input) TELQUAL_SEND :: byte where "TELQUAL_SEND \<equiv> 1"
abbreviation (input) BSD_VAR :: byte where "BSD_VAR \<equiv> 1"
abbreviation (input) BSD_VALUE :: byte where "BSD_VALUE \<equiv> 0"
abbreviation (input) RFC_VAR :: byte where "RFC_VAR \<equiv> 0"
abbreviation (input) RFC_VALUE :: byte where "RFC_VALUE \<equiv> 1"

abbreviation (input) CR :: byte where "CR \<equiv> 13"
abbreviation (input) LF :: byte where "LF \<equiv> 10"

section \<open>Options\<close>

datatype opt_state = REQUESTED | ACTIVE | INACTIVE | REALLY_INACTIVE

datatype optindex =
    OPTINDEX_NAWS | OPTINDEX_TSPEED | OPTINDEX_TTYPE | OPTINDEX_OENV | OPTINDEX_NENV
  | OPTINDEX_ECHO | OPTINDEX_WE_SGA | OPTINDEX_THEY_SGA | OPTINDEX_WE_BIN | OPTINDEX_THEY_BIN

record Opt =
  send :: byte
  nsend :: byte
  ack :: byte
  nak :: byte
  option :: byte
  index :: optindex
  initial_state :: opt_state

definition we :: "byte \<Rightarrow> optindex \<Rightarrow> opt_state \<Rightarrow> Opt" where
  "we code i init = \<lparr>send = WILL, nsend = WONT, ack = DO, nak = DONT,
     option = code, index = i, initial_state = init\<rparr>"

definition they :: "byte \<Rightarrow> optindex \<Rightarrow> opt_state \<Rightarrow> Opt" where
  "they code i init = \<lparr>send = DO, nsend = DONT, ack = WILL, nak = WONT,
     option = code, index = i, initial_state = init\<rparr>"

definition o_naws :: Opt where "o_naws = we TELOPT_NAWS OPTINDEX_NAWS REQUESTED"
definition o_tspeed :: Opt where "o_tspeed = we TELOPT_TSPEED OPTINDEX_TSPEED REQUESTED"
definition o_ttype :: Opt where "o_ttype = we TELOPT_TTYPE OPTINDEX_TTYPE REQUESTED"
definition o_oenv :: Opt where "o_oenv = we TELOPT_OLD_ENVIRON OPTINDEX_OENV INACTIVE"
definition o_nenv :: Opt where "o_nenv = we TELOPT_NEW_ENVIRON OPTINDEX_NENV REQUESTED"
definition o_echo :: Opt where "o_echo = they TELOPT_ECHO OPTINDEX_ECHO REQUESTED"
definition o_we_sga :: Opt where "o_we_sga = we TELOPT_SGA OPTINDEX_WE_SGA REQUESTED"
definition o_they_sga :: Opt where "o_they_sga = they TELOPT_SGA OPTINDEX_THEY_SGA REQUESTED"
definition o_we_bin :: Opt where "o_we_bin = we TELOPT_BINARY OPTINDEX_WE_BIN INACTIVE"
definition o_they_bin :: Opt where "o_they_bin = they TELOPT_BINARY OPTINDEX_THEY_BIN INACTIVE"

lemmas opt_defs = we_def they_def o_naws_def o_tspeed_def o_ttype_def o_oenv_def o_nenv_def
  o_echo_def o_we_sga_def o_they_sga_def o_we_bin_def o_they_bin_def

definition opts :: "Opt list" where
  "opts = [o_naws, o_tspeed, o_ttype, o_oenv, o_nenv, o_echo, o_we_sga, o_they_sga, o_we_bin, o_they_bin]"

section \<open>State and outputs\<close>

datatype TelnetState =
    TOP_LEVEL | SEENIAC | SEENWILL | SEENWONT | SEENDO | SEENDONT
  | SEENSB | SUBNEGOT | SUBNEG_IAC | SEENCR

text \<open>Entries of the event log, by the message they carry.\<close>

datatype log_entry =
    ServerOption byte byte
  | ClientOption byte byte
  | ServerSend byte
  | ServerWeird byte
  | ClientTspeed cstring
  | ClientTtype cstring
  | ClientNothing byte
  | ClientIs byte
  | ClientVar cstring cstring
  | ClientSize int int
  | LookingUp
  | Message cstring

datatype event =
    SkWrite "byte list"
  | SkWriteOob "byte list"
  | SkSetFrozen bool
  | SkClose
  | FromBackend "byte list"
  | EchoEditUpdate
  | NotifyRemoteExit
  | ConnectionFatal cstring
  | UpdateSpecials
  | Log log_entry

type_synonym env = "event list \<Rightarrow> int"

text \<open>
  The values of \<open>CONF_termspeed\<close>, \<open>CONF_termtype\<close>, \<open>CONF_rfc_environ\<close>,
  \<open>CONF_environmt\<close> (in the order \<open>conf_get_str_strs\<close> enumerates it),
  \<open>get_remote_username\<close>, \<open>CONF_width\<close>, \<open>CONF_height\<close> and
  \<open>CONF_passive_telnet\<close>.
\<close>

record tel_conf =
  termspeed :: cstring
  termtype :: cstring
  rfc_environ :: bool
  environmt :: "(cstring \<times> cstring) list"
  remote_username :: "cstring option"
  width :: int
  height :: int
  passive_telnet :: bool

record telnet =
  socket_open :: bool
  closed_on_socket_error :: bool
  ldisc :: bool
  term_width :: int
  term_height :: int
  opt_states :: "optindex \<Rightarrow> opt_state"
  echoing :: bool
  editing :: bool
  activated :: bool
  bufsize :: int
  in_synch :: bool
  sb_opt :: byte
  sb_buf :: "byte list"
  sb_size :: nat
  state :: TelnetState
  conf :: tel_conf
  outputs :: "event list"

definition TELNET_MAX_BACKLOG :: int where
  "TELNET_MAX_BACKLOG = 4096"

definition SB_DELTA :: nat where
  "SB_DELTA = 1024"

definition emit :: "event \<Rightarrow> telnet \<Rightarrow> telnet" where
  "emit e t = t\<lparr>outputs := outputs t @ [e]\<rparr>"

definition logevent :: "log_entry \<Rightarrow> telnet \<Rightarrow> telnet" where
  "logevent l t = emit (Log l) t"

text \<open>\<open>telnet->bufsize = sk_write(telnet->s, b, n)\<close>.\<close>

definition sk_write :: "env \<Rightarrow> byte list \<Rightarrow> telnet \<Rightarrow> telnet" where
  "sk_write env b t = (let t1 = emit (SkWrite b) t in t1\<lparr>bufsize := env (outputs t1)\<rparr>)"

definition sk_write_oob :: "env \<Rightarrow> byte list \<Rightarrow> telnet \<Rightarrow> telnet" where
  "sk_write_oob env b t = (let t1 = emit (SkWriteOob b) t in t1\<lparr>bufsize := env (outputs t1)\<rparr>)"

definition c_write :: "env \<Rightarrow> byte list \<Rightarrow> telnet \<Rightarrow> telnet" where
  "c_write env b t =
     (let t1 = emit (FromBackend b) t; backlog = env (outputs t1)
      in emit (SkSetFrozen (backlog > TELNET_MAX_BACKLOG)) t1)"

section \<open>Option negotiation\<close>

definition set_opt :: "optindex \<Rightarrow> opt_state \<Rightarrow> telnet \<Rightarrow> telnet" where
  "set_opt i s t = t\<lparr>opt_states := (opt_states t)(i := s)\<rparr>"

definition send_opt :: "env \<Rightarrow> byte \<Rightarrow> byte \<Rightarrow> telnet \<Rightarrow> telnet" where
  "send_opt env cmd opt t = logevent (ClientOption cmd opt) (sk_write env [IAC, cmd, opt] t)"

definition deactivate_option :: "env \<Rightarrow> Opt \<Rightarrow> telnet \<Rightarrow> telnet" where
  "deactivate_option env o' t =
     (let t1 = (if opt_states t (index o') = REQUESTED \<or> opt_states t (index o') = ACTIVE
                then send_opt env (nsend o') (option o') t else t)
      in set_opt (index o') REALLY_INACTIVE t1)"

text \<open>One of the three minimum options, when the session is first activated.\<close>

definition request_minimum :: "env \<Rightarrow> Opt \<Rightarrow> telnet \<Rightarrow> telnet" where
  "request_minimum env o' t =
     (if opt_states t (index o') = INACTIVE
      then send_opt env (send o') (option o') (set_opt (index o') REQUESTED t)
      else t)"

definition option_side_effects :: "env \<Rightarrow> Opt \<Rightarrow> bool \<Rightarrow> telnet \<Rightarrow> telnet" where
  "option_side_effects env o' enabled t =
     (let t1 = (if option o' = TELOPT_ECHO \<and> send o' = DO then t\<lparr>echoing := \<not> enabled\<rparr>
                else if option o' = TELOPT_SGA \<and> send o' = DO then t\<lparr>editing := \<not> enabled\<rparr>
                else t);
          t2 = (if ldisc t1 then emit EchoEditUpdate t1 else t1)
      in if \<not> activated t2
         then (request_minimum env o_they_sga (request_minimum env o_we_sga
                (request_minimum env o_echo t2)))\<lparr>activated := True\<rparr>
         else t2)"

text \<open>
  \<open>telnet_size\<close>: the numbers are stored in bytes as \<open>unsigned char\<close>, and an IAC byte is
  doubled.  \<open>naws_bytes\<close> is what the array \<open>b[24]\<close> holds.
\<close>

definition double_iac :: "byte \<Rightarrow> byte list" where
  "double_iac b = (if b = IAC then [b, IAC] else [b])"

definition naws_bytes :: "int \<Rightarrow> int \<Rightarrow> byte list" where
  "naws_bytes w h =
     [IAC, SB, TELOPT_NAWS]
     @ double_iac (word_of_int (w div 256)) @ double_iac (word_of_int w)
     @ double_iac (word_of_int (h div 256)) @ double_iac (word_of_int h)
     @ [IAC, SE]"

definition telnet_size :: "env \<Rightarrow> int \<Rightarrow> int \<Rightarrow> telnet \<Rightarrow> telnet" where
  "telnet_size env w h t =
     (let t1 = t\<lparr>term_width := w, term_height := h\<rparr> in
      if \<not> socket_open t1 \<or> opt_states t1 (index o_naws) \<noteq> ACTIVE then t1
      else logevent (ClientSize w h) (sk_write env (naws_bytes w h) t1))"

definition activate_option :: "env \<Rightarrow> Opt \<Rightarrow> telnet \<Rightarrow> telnet" where
  "activate_option env o' t =
     (let t1 = (if send o' = WILL \<and> option o' = TELOPT_NAWS
                then telnet_size env (term_width t) (term_height t) t else t);
          t2 = (if send o' = WILL \<and> (option o' = TELOPT_NEW_ENVIRON \<or> option o' = TELOPT_OLD_ENVIRON)
                then deactivate_option env (if option o' = TELOPT_NEW_ENVIRON then o_oenv else o_nenv) t1
                else t1)
      in option_side_effects env o' True t2)"

definition refused_option :: "env \<Rightarrow> Opt \<Rightarrow> telnet \<Rightarrow> telnet" where
  "refused_option env o' t =
     (let t1 = (if send o' = WILL \<and> option o' = TELOPT_NEW_ENVIRON
                   \<and> opt_states t (index o_oenv) = INACTIVE
                then set_opt (index o_oenv) REQUESTED (send_opt env WILL TELOPT_OLD_ENVIRON t)
                else t)
      in option_side_effects env o' False t1)"

definition rec_ack :: "env \<Rightarrow> Opt \<Rightarrow> telnet \<Rightarrow> telnet" where
  "rec_ack env o' t =
     (case opt_states t (index o') of
        REQUESTED \<Rightarrow> activate_option env o' (set_opt (index o') ACTIVE t)
      | ACTIVE \<Rightarrow> t
      | INACTIVE \<Rightarrow> activate_option env o'
          (send_opt env (send o') (option o') (set_opt (index o') ACTIVE t))
      | REALLY_INACTIVE \<Rightarrow> send_opt env (nsend o') (option o') t)"

definition rec_nak :: "env \<Rightarrow> Opt \<Rightarrow> telnet \<Rightarrow> telnet" where
  "rec_nak env o' t =
     (case opt_states t (index o') of
        REQUESTED \<Rightarrow> refused_option env o' (set_opt (index o') INACTIVE t)
      | ACTIVE \<Rightarrow> option_side_effects env o' False
          (send_opt env (nsend o') (option o') (set_opt (index o') INACTIVE t))
      | INACTIVE \<Rightarrow> t
      | REALLY_INACTIVE \<Rightarrow> t)"

fun rec_opt_loop :: "env \<Rightarrow> Opt list \<Rightarrow> byte \<Rightarrow> byte \<Rightarrow> telnet \<Rightarrow> telnet" where
  "rec_opt_loop env [] cmd opt t =
     (if cmd = WILL \<or> cmd = DO then send_opt env (if cmd = WILL then DONT else WONT) opt t else t)"
| "rec_opt_loop env (o' # os) cmd opt t =
     (if option o' = opt \<and> ack o' = cmd then rec_ack env o' t
      else if option o' = opt \<and> nak o' = cmd then rec_nak env o' t
      else rec_opt_loop env os cmd opt t)"

definition proc_rec_opt :: "env \<Rightarrow> byte \<Rightarrow> byte \<Rightarrow> telnet \<Rightarrow> telnet" where
  "proc_rec_opt env cmd opt t = rec_opt_loop env opts cmd opt (logevent (ServerOption cmd opt) t)"

section \<open>Subnegotiation\<close>

definition upper :: "byte \<Rightarrow> byte" where
  "upper c = (if c \<ge> 97 \<and> c \<le> 122 then c + 65 - 97 else c)"

definition tspeed_bytes :: "cstring \<Rightarrow> byte list" where
  "tspeed_bytes s = [IAC, SB, TELOPT_TSPEED, TELQUAL_IS] @ s @ [IAC, SE]"

definition ttype_bytes :: "cstring \<Rightarrow> byte list" where
  "ttype_bytes s = [IAC, SB, TELOPT_TTYPE, TELQUAL_IS] @ map upper s @ [IAC, SE]"

text \<open>The codes of VAR and VALUE, from the configuration and then from the request.\<close>

fun guess_sense :: "byte \<times> byte \<Rightarrow> byte list \<Rightarrow> byte \<times> byte" where
  "guess_sense vv [] = vv"
| "guess_sense vv (p # ps) =
     guess_sense (if p = RFC_VAR then (RFC_VAR, RFC_VALUE)
                  else if p = BSD_VAR then (BSD_VAR, BSD_VALUE) else vv) ps"

definition environ_sense :: "tel_conf \<Rightarrow> byte \<Rightarrow> byte list \<Rightarrow> byte \<times> byte" where
  "environ_sense cf opt request =
     (if opt = TELOPT_OLD_ENVIRON
      then guess_sense (if rfc_environ cf then (RFC_VAR, RFC_VALUE) else (BSD_VAR, BSD_VALUE)) request
      else (RFC_VAR, RFC_VALUE))"

text \<open>The size allocated for the reply, and the bytes written to it.\<close>

fun environ_bsize_loop :: "(cstring \<times> cstring) list \<Rightarrow> nat \<Rightarrow> nat" where
  "environ_bsize_loop [] bsize = bsize"
| "environ_bsize_loop ((ekey, eval) # es) bsize =
     environ_bsize_loop es (bsize + length ekey + length eval + 2)"

definition environ_bsize :: "tel_conf \<Rightarrow> nat" where
  "environ_bsize cf =
     environ_bsize_loop (environmt cf) 20
     + (case remote_username cf of None \<Rightarrow> 0 | Some user \<Rightarrow> 6 + length user)"

fun environ_vars :: "byte \<Rightarrow> byte \<Rightarrow> (cstring \<times> cstring) list \<Rightarrow> byte list" where
  "environ_vars var val [] = []"
| "environ_vars var val ((ekey, eval) # es) = [var] @ ekey @ [val] @ eval @ environ_vars var val es"

definition environ_bytes :: "tel_conf \<Rightarrow> byte \<Rightarrow> byte \<Rightarrow> byte \<Rightarrow> byte list" where
  "environ_bytes cf opt var val =
     [IAC, SB, opt, TELQUAL_IS] @ environ_vars var val (environmt cf)
     @ (case remote_username cf of None \<Rightarrow> [] | Some user \<Rightarrow> [var, 85, 83, 69, 82, val] @ user)
     @ [IAC, SE]"

fun log_vars :: "(cstring \<times> cstring) list \<Rightarrow> telnet \<Rightarrow> telnet" where
  "log_vars [] t = t"
| "log_vars ((ekey, eval) # es) t = log_vars es (logevent (ClientVar ekey eval) t)"

definition log_environ :: "byte \<Rightarrow> nat \<Rightarrow> telnet \<Rightarrow> telnet" where
  "log_environ opt n t =
     (if n = 6 then logevent (ClientNothing opt) t
      else let t1 = log_vars (environmt (conf t)) (logevent (ClientIs opt) t)
        in case remote_username (conf t) of None \<Rightarrow> t1
           | Some user \<Rightarrow> logevent (ClientVar [85, 83, 69, 82] user) t1)"

definition process_subneg :: "env \<Rightarrow> telnet \<Rightarrow> telnet" where
  "process_subneg env t =
     (if sb_opt t = TELOPT_TSPEED then
        (if sb_buf t = [TELQUAL_SEND]
         then logevent (ClientTspeed (termspeed (conf t))) (logevent (ServerSend TELOPT_TSPEED)
                (sk_write env (tspeed_bytes (termspeed (conf t))) t))
         else logevent (ServerWeird TELOPT_TSPEED) t)
      else if sb_opt t = TELOPT_TTYPE then
        (if sb_buf t = [TELQUAL_SEND]
         then logevent (ClientTtype (map upper (termtype (conf t)))) (logevent (ServerSend TELOPT_TTYPE)
                (sk_write env (ttype_bytes (termtype (conf t))) t))
         else logevent (ServerWeird TELOPT_TTYPE) t)
      else if sb_opt t = TELOPT_OLD_ENVIRON \<or> sb_opt t = TELOPT_NEW_ENVIRON then
        (case sb_buf t of
           [] \<Rightarrow> t
         | p # request \<Rightarrow>
             if p = TELQUAL_SEND then
               (let t1 = logevent (ServerSend (sb_opt t)) t;
                    (var, val) = environ_sense (conf t) (sb_opt t) request;
                    b = environ_bytes (conf t) (sb_opt t) var val
                in log_environ (sb_opt t) (length b) (sk_write env b t1))
             else t)
      else t)"

section \<open>Receiving\<close>

definition subneg_addchar :: "byte \<Rightarrow> telnet \<Rightarrow> telnet" where
  "subneg_addchar c t =
     (let t1 = (if length (sb_buf t) \<ge> sb_size t then t\<lparr>sb_size := sb_size t + SB_DELTA\<rparr> else t)
      in t1\<lparr>sb_buf := sb_buf t1 @ [c], state := SUBNEGOT\<rparr>)"

text \<open>One character; the second component is \<open>outbuf\<close>.\<close>

definition read_char :: "env \<Rightarrow> byte \<Rightarrow> telnet \<times> byte list \<Rightarrow> telnet \<times> byte list" where
  "read_char env c ts =
     (case ts of (t, outbuf) \<Rightarrow>
      (case state t of
        SEENIAC \<Rightarrow>
          if c = DO then (t\<lparr>state := SEENDO\<rparr>, outbuf)
          else if c = DONT then (t\<lparr>state := SEENDONT\<rparr>, outbuf)
          else if c = WILL then (t\<lparr>state := SEENWILL\<rparr>, outbuf)
          else if c = WONT then (t\<lparr>state := SEENWONT\<rparr>, outbuf)
          else if c = SB then (t\<lparr>state := SEENSB\<rparr>, outbuf)
          else if c = DM then (t\<lparr>in_synch := False, state := TOP_LEVEL\<rparr>, outbuf)
          else (t\<lparr>state := TOP_LEVEL\<rparr>, if c = IAC then outbuf @ [c] else outbuf)
      | SEENWILL \<Rightarrow> ((proc_rec_opt env WILL c t)\<lparr>state := TOP_LEVEL\<rparr>, outbuf)
      | SEENWONT \<Rightarrow> ((proc_rec_opt env WONT c t)\<lparr>state := TOP_LEVEL\<rparr>, outbuf)
      | SEENDO \<Rightarrow> ((proc_rec_opt env DO c t)\<lparr>state := TOP_LEVEL\<rparr>, outbuf)
      | SEENDONT \<Rightarrow> ((proc_rec_opt env DONT c t)\<lparr>state := TOP_LEVEL\<rparr>, outbuf)
      | SEENSB \<Rightarrow> (t\<lparr>sb_opt := c, sb_buf := [], state := SUBNEGOT\<rparr>, outbuf)
      | SUBNEGOT \<Rightarrow>
          if c = IAC then (t\<lparr>state := SUBNEG_IAC\<rparr>, outbuf) else (subneg_addchar c t, outbuf)
      | SUBNEG_IAC \<Rightarrow>
          if c \<noteq> SE then (subneg_addchar c t, outbuf)
          else ((process_subneg env t)\<lparr>state := TOP_LEVEL\<rparr>, outbuf)
      | _ \<Rightarrow>
          if c = 0 \<and> state t = SEENCR then (t\<lparr>state := TOP_LEVEL\<rparr>, outbuf)
          else if c = IAC then (t\<lparr>state := SEENIAC\<rparr>, outbuf)
          else
            let outbuf1 = (if \<not> in_synch t then outbuf @ [c] else outbuf);
                t1 = (if in_synch t \<and> c = DM then t\<lparr>in_synch := False\<rparr> else t)
            in (t1\<lparr>state := (if c = CR \<and> opt_states t1 (index o_they_bin) \<noteq> ACTIVE
                              then SEENCR else TOP_LEVEL)\<rparr>, outbuf1)))"

fun read_loop :: "env \<Rightarrow> byte list \<Rightarrow> telnet \<times> byte list \<Rightarrow> telnet \<times> byte list" where
  "read_loop env [] ts = ts"
| "read_loop env (c # buf) ts = read_loop env buf (read_char env c ts)"

definition do_telnet_read :: "env \<Rightarrow> byte list \<Rightarrow> telnet \<Rightarrow> telnet" where
  "do_telnet_read env buf t =
     (case read_loop env buf (t, []) of
        (t1, outbuf) \<Rightarrow> if outbuf \<noteq> [] then c_write env outbuf t1 else t1)"

definition telnet_receive :: "env \<Rightarrow> bool \<Rightarrow> byte list \<Rightarrow> telnet \<Rightarrow> telnet" where
  "telnet_receive env urgent data t =
     do_telnet_read env data (if urgent then t\<lparr>in_synch := True\<rparr> else t)"

definition telnet_closing :: "cstring option \<Rightarrow> telnet \<Rightarrow> telnet" where
  "telnet_closing error_msg t =
     (let t1 = (if socket_open t
                then emit NotifyRemoteExit
                  ((emit SkClose t)\<lparr>socket_open := False,
                     closed_on_socket_error := (if error_msg \<noteq> None then True else closed_on_socket_error t)\<rparr>)
                else t)
      in case error_msg of None \<Rightarrow> t1
         | Some msg \<Rightarrow> emit (ConnectionFatal msg) (logevent (Message msg) t1))"

definition telnet_sent :: "int \<Rightarrow> telnet \<Rightarrow> telnet" where
  "telnet_sent n t = t\<lparr>bufsize := n\<rparr>"

section \<open>Sending\<close>

definition iswritable :: "telnet \<Rightarrow> byte \<Rightarrow> bool" where
  "iswritable t x \<longleftrightarrow> x \<noteq> IAC \<and> (opt_states t (index o_we_bin) = ACTIVE \<or> x \<noteq> CR)"

fun send_special_chars :: "env \<Rightarrow> byte list \<Rightarrow> telnet \<Rightarrow> telnet" where
  "send_special_chars env [] t = t"
| "send_special_chars env (c # cs) t =
     send_special_chars env cs (sk_write env (if c = IAC then [IAC, IAC] else [CR, 0]) t)"

function send_loop :: "env \<Rightarrow> byte list \<Rightarrow> telnet \<Rightarrow> telnet" where
  "send_loop env p t =
     (if p = [] then t
      else let plain = takeWhile (iswritable t) p;
               p1 = dropWhile (iswritable t) p;
               t1 = sk_write env plain t;
               special = takeWhile (\<lambda>c. \<not> iswritable t c) p1;
               p2 = dropWhile (\<lambda>c. \<not> iswritable t c) p1
           in send_loop env p2 (send_special_chars env special t1))"
  by pat_completeness auto
termination
proof (relation "measure (\<lambda>(env, p, t). length p)", goal_cases)
  case (2 env p t plain p1 t1 special p2)
  from 2(1) obtain c cs where p: "p = c # cs" by (cases p) auto
  have "length p2 \<le> length cs"
  proof (cases "iswritable t c")
    case True
    then have "length p1 \<le> length cs" using 2(3) p by (simp add: length_dropWhile_le)
    then show ?thesis using 2(6) length_dropWhile_le le_trans by blast
  next
    case False
    then show ?thesis using 2(3,6) p by (simp add: length_dropWhile_le)
  qed
  with p show ?case by simp
qed simp

declare send_loop.simps [simp del]

definition telnet_send :: "env \<Rightarrow> byte list \<Rightarrow> telnet \<Rightarrow> int \<times> telnet" where
  "telnet_send env buf t =
     (if \<not> socket_open t then (0, t)
      else let t1 = send_loop env buf t in (bufsize t1, t1))"

datatype Telnet_Special =
    TS_AYT | TS_BRK | TS_SYNCH | TS_EC | TS_EL | TS_GA | TS_NOP | TS_ABORT
  | TS_AO | TS_IP | TS_SUSP | TS_EOR | TS_EOF | TS_LECHO | TS_RECHO | TS_PING
  | TS_EOL | TS_REKEY | TS_SIG | TS_SEP | TS_SUBMENU | TS_EXITMENU

definition telnet_special :: "env \<Rightarrow> Telnet_Special \<Rightarrow> telnet \<Rightarrow> telnet" where
  "telnet_special env code t =
     (if \<not> socket_open t then t
      else case code of
        TS_AYT \<Rightarrow> sk_write env [IAC, AYT] t
      | TS_BRK \<Rightarrow> sk_write env [IAC, BREAK] t
      | TS_EC \<Rightarrow> sk_write env [IAC, EC] t
      | TS_EL \<Rightarrow> sk_write env [IAC, EL] t
      | TS_GA \<Rightarrow> sk_write env [IAC, GA] t
      | TS_NOP \<Rightarrow> sk_write env [IAC, NOP] t
      | TS_ABORT \<Rightarrow> sk_write env [IAC, ABORT] t
      | TS_AO \<Rightarrow> sk_write env [IAC, AO] t
      | TS_IP \<Rightarrow> sk_write env [IAC, IP] t
      | TS_SUSP \<Rightarrow> sk_write env [IAC, SUSP] t
      | TS_EOR \<Rightarrow> sk_write env [IAC, EOR] t
      | TS_EOF \<Rightarrow> sk_write env [IAC, xEOF] t
      | TS_EOL \<Rightarrow>
          if opt_states t (index o_we_bin) = ACTIVE then sk_write env [CR] t
          else sk_write env [CR, LF] t
      | TS_SYNCH \<Rightarrow> sk_write_oob env [DM] (sk_write env [IAC] t)
      | TS_RECHO \<Rightarrow>
          if opt_states t (index o_echo) = INACTIVE \<or> opt_states t (index o_echo) = REALLY_INACTIVE
          then send_opt env (send o_echo) (option o_echo) (set_opt (index o_echo) REQUESTED t)
          else t
      | TS_LECHO \<Rightarrow>
          if opt_states t (index o_echo) = ACTIVE
          then send_opt env (nsend o_echo) (option o_echo) (set_opt (index o_echo) REQUESTED t)
          else t
      | TS_PING \<Rightarrow>
          if opt_states t (index o_they_sga) = ACTIVE then sk_write env [IAC, NOP] t else t
      | _ \<Rightarrow> t)"

section \<open>Set-up and queries\<close>

fun init_opts :: "env \<Rightarrow> Opt list \<Rightarrow> telnet \<Rightarrow> telnet" where
  "init_opts env [] t = t"
| "init_opts env (o' # os) t =
     (let t1 = set_opt (index o') (initial_state o') t
      in init_opts env os (if initial_state o' = REQUESTED
                           then send_opt env (send o') (option o') t1 else t1))"

text \<open>
  \<open>telnet_init\<close> up to the socket: the fields that are set before the connection is opened.
  The option states and the fields \<open>bufsize\<close>, \<open>in_synch\<close>, \<open>sb_opt\<close> and \<open>sb_len\<close>
  are not initialised by \<open>snew\<close>: their values are the arguments.
\<close>

definition telnet_alloc :: "tel_conf \<Rightarrow> (optindex \<Rightarrow> opt_state) \<Rightarrow> telnet" where
  "telnet_alloc cf garbage =
     \<lparr>socket_open = False, closed_on_socket_error = False, ldisc = False,
      term_width = width cf, term_height = height cf, opt_states = garbage,
      echoing = True, editing = True, activated = False, bufsize = 0, in_synch = False,
      sb_opt = 0, sb_buf = [], sb_size = 0, state = TOP_LEVEL, conf = cf, outputs = [Log LookingUp]\<rparr>"

text \<open>
  The rest of \<open>telnet_init\<close>, given the errors of the name lookup and of the connection.
\<close>

definition telnet_init :: "env \<Rightarrow> tel_conf \<Rightarrow> (optindex \<Rightarrow> opt_state) \<Rightarrow> cstring option \<Rightarrow> cstring option
    \<Rightarrow> cstring option \<times> telnet" where
  "telnet_init env cf garbage lookup_error socket_error =
     (let t = telnet_alloc cf garbage in
      case lookup_error of Some err \<Rightarrow> (Some err, t)
      | None \<Rightarrow>
         (let t1 = t\<lparr>socket_open := True\<rparr> in
          case socket_error of Some err \<Rightarrow> (Some err, t1)
          | None \<Rightarrow>
             let t2 = (if passive_telnet cf then t1\<lparr>opt_states := (\<lambda>i. INACTIVE)\<rparr>
                       else (init_opts env opts t1)\<lparr>activated := True\<rparr>)
             in (None, emit UpdateSpecials (t2\<lparr>in_synch := False\<rparr>))))"

definition telnet_reconfig :: "tel_conf \<Rightarrow> telnet \<Rightarrow> telnet" where
  "telnet_reconfig cf t = t\<lparr>conf := cf\<rparr>"

definition telnet_provide_ldisc :: "bool \<Rightarrow> telnet \<Rightarrow> telnet" where
  "telnet_provide_ldisc l t = t\<lparr>ldisc := l\<rparr>"

text \<open>\<open>None\<close>: \<open>sk_set_frozen\<close> dereferences the socket, which is NULL after closing.\<close>

definition telnet_unthrottle :: "int \<Rightarrow> telnet \<Rightarrow> telnet option" where
  "telnet_unthrottle backlog t =
     (if socket_open t then Some (emit (SkSetFrozen (backlog > TELNET_MAX_BACKLOG)) t) else None)"

definition telnet_sendbuffer :: "telnet \<Rightarrow> int" where
  "telnet_sendbuffer t = bufsize t"

definition telnet_connected :: "telnet \<Rightarrow> bool" where
  "telnet_connected t = socket_open t"

datatype ldisc_query = LD_ECHO | LD_EDIT | LD_OTHER

definition telnet_ldisc :: "ldisc_query \<Rightarrow> telnet \<Rightarrow> bool" where
  "telnet_ldisc q t = (case q of LD_ECHO \<Rightarrow> echoing t | LD_EDIT \<Rightarrow> editing t | LD_OTHER \<Rightarrow> False)"

definition telnet_exitcode :: "telnet \<Rightarrow> int" where
  "telnet_exitcode t =
     (if socket_open t then - 1 else if closed_on_socket_error t then 2 ^ 31 - 1 else 0)"

end
