(* ===== verification/Telnet_Chunks.thy ===== *)
theory Telnet_Chunks
  imports Telnet
begin

text \<open>
  What the telnet backend emits, and the receiving loop on split input.  Two states are
  \<open>sim\<close>ilar when they agree up to the socket's backlog and the deliveries to the
  terminal; every operation of the receiver respects similarity and delivers nothing by
  itself, so the cutting of the input into blocks does not matter.
\<close>

section \<open>What the operations emit\<close>

fun proto_event :: "event \<Rightarrow> bool" where
  "proto_event (FromBackend b) = False"
| "proto_event (SkSetFrozen b) = False"
| "proto_event e = True"

fun event_data :: "event \<Rightarrow> byte list" where
  "event_data (FromBackend b) = b"
| "event_data e = []"

fun event_written :: "event \<Rightarrow> byte list" where
  "event_written (SkWrite b) = b"
| "event_written e = []"

definition delivered :: "event list \<Rightarrow> byte list" where
  "delivered es = concat (map event_data es)"

definition written :: "event list \<Rightarrow> byte list" where
  "written es = concat (map event_written es)"

definition proto :: "event list \<Rightarrow> event list" where
  "proto es = filter proto_event es"

lemma event_lists [simp]:
  "delivered [] = []" "delivered (e # es) = event_data e @ delivered es"
  "delivered (es @ fs) = delivered es @ delivered fs"
  "written [] = []" "written (e # es) = event_written e @ written es"
  "written (es @ fs) = written es @ written fs"
  "proto [] = []" "proto (e # es) = (if proto_event e then e # proto es else proto es)"
  "proto (es @ fs) = proto es @ proto fs"
  by (simp_all add: delivered_def written_def proto_def)

lemma proto_event_data: "proto_event e \<Longrightarrow> event_data e = []"
  by (cases e) auto

text \<open>The operations that emit, and those that compose them.\<close>

lemmas emitters = emit_def logevent_def sk_write_def sk_write_oob_def send_opt_def set_opt_def Let_def

lemmas negotiators = deactivate_option_def request_minimum_def option_side_effects_def telnet_size_def
  activate_option_def refused_option_def rec_ack_def rec_nak_def emitters

section \<open>Runs that differ in the backlog only\<close>

definition core :: "telnet \<Rightarrow> telnet" where
  "core t = t\<lparr>bufsize := 0, outputs := []\<rparr>"

definition sim :: "telnet \<Rightarrow> telnet \<Rightarrow> bool" where
  "sim t t' \<longleftrightarrow> core t = core t' \<and> proto (outputs t) = proto (outputs t')"

lemma sim_refl [simp]: "sim t t" by (simp add: sim_def)

lemma sim_fields:
  assumes "sim t t'"
  shows "socket_open t' = socket_open t" "closed_on_socket_error t' = closed_on_socket_error t"
    "ldisc t' = ldisc t" "term_width t' = term_width t" "term_height t' = term_height t"
    "opt_states t' = opt_states t" "echoing t' = echoing t" "editing t' = editing t"
    "activated t' = activated t" "in_synch t' = in_synch t" "sb_opt t' = sb_opt t"
    "sb_buf t' = sb_buf t" "sb_size t' = sb_size t" "state t' = state t" "conf t' = conf t"
  using assms by (cases t; cases t'; simp add: sim_def core_def)+

named_theorems sim_intros

lemma sim_prims [sim_intros]:
  assumes "sim t t'"
  shows "sim (emit e t) (emit e t')" "sim (set_opt i s t) (set_opt i s t')"
    "sim (sk_write env b t) (sk_write env' b t')"
    "sim (t\<lparr>echoing := x\<rparr>) (t'\<lparr>echoing := x\<rparr>)" "sim (t\<lparr>editing := x\<rparr>) (t'\<lparr>editing := x\<rparr>)"
    "sim (t\<lparr>activated := x\<rparr>) (t'\<lparr>activated := x\<rparr>)" "sim (t\<lparr>in_synch := x\<rparr>) (t'\<lparr>in_synch := x\<rparr>)"
    "sim (t\<lparr>state := st\<rparr>) (t'\<lparr>state := st\<rparr>)" "sim (t\<lparr>sb_opt := c\<rparr>) (t'\<lparr>sb_opt := c\<rparr>)"
    "sim (t\<lparr>sb_buf := bs\<rparr>) (t'\<lparr>sb_buf := bs\<rparr>)" "sim (t\<lparr>sb_size := n\<rparr>) (t'\<lparr>sb_size := n\<rparr>)"
    "sim (t\<lparr>term_width := w, term_height := h\<rparr>) (t'\<lparr>term_width := w, term_height := h\<rparr>)"
  using assms by (cases t; cases t'; simp add: sim_def core_def emitters)+

lemma sim_logevent [sim_intros]: "sim t t' \<Longrightarrow> sim (logevent l t) (logevent l t')"
  by (simp add: logevent_def sim_prims)

lemma sim_c_write: "sim t (c_write env b t)"
  by (cases t) (simp add: sim_def core_def c_write_def emitters)

lemma sim_sym: "sim t t' \<Longrightarrow> sim t' t" by (simp add: sim_def)
lemma sim_trans: "sim t t' \<Longrightarrow> sim t' t'' \<Longrightarrow> sim t t''" by (simp add: sim_def)

lemma sim_send_opt [sim_intros]: "sim t t' \<Longrightarrow> sim (send_opt env cmd opt t) (send_opt env' cmd opt t')"
  by (simp add: send_opt_def sim_intros)

lemma sim_deactivate_option [sim_intros]:
  "sim t t' \<Longrightarrow> sim (deactivate_option env o' t) (deactivate_option env' o' t')"
  by (simp add: deactivate_option_def Let_def sim_intros sim_fields)

lemma sim_request_minimum [sim_intros]:
  "sim t t' \<Longrightarrow> sim (request_minimum env o' t) (request_minimum env' o' t')"
  by (simp add: request_minimum_def sim_intros sim_fields)

lemma sim_if: "sim a a' \<Longrightarrow> sim b b' \<Longrightarrow> sim (if P then a else b) (if P then a' else b')"
  by simp

lemma sim_option_side_effects [sim_intros]:
  assumes s: "sim t t'"
  shows "sim (option_side_effects env o' e t) (option_side_effects env' o' e t')"
proof -
  let ?u = "\<lambda>t. if option o' = TELOPT_ECHO \<and> send o' = DO then t\<lparr>echoing := \<not> e\<rparr>
                else if option o' = TELOPT_SGA \<and> send o' = DO then t\<lparr>editing := \<not> e\<rparr> else t"
  let ?v = "\<lambda>t. if ldisc t then emit EchoEditUpdate t else t"
  have u: "sim (?u t) (?u t')" using s by (simp add: sim_intros)
  then have "sim (?v (?u t)) (?v (?u t'))" by (simp only: sim_fields[OF u] sim_if sim_intros)
  then show ?thesis
    unfolding option_side_effects_def Let_def by (simp only: sim_fields sim_if sim_intros)
qed

lemma sim_telnet_size [sim_intros]:
  "sim t t' \<Longrightarrow> sim (telnet_size env w h t) (telnet_size env' w h t')"
  unfolding telnet_size_def Let_def by (simp add: sim_intros sim_fields)

lemma sim_activate_option [sim_intros]:
  assumes s: "sim t t'"
  shows "sim (activate_option env o' t) (activate_option env' o' t')"
  unfolding activate_option_def Let_def sim_fields[OF s]
  by (intro sim_option_side_effects sim_if sim_deactivate_option sim_telnet_size s)

lemma sim_refused_option [sim_intros]:
  assumes s: "sim t t'"
  shows "sim (refused_option env o' t) (refused_option env' o' t')"
  unfolding refused_option_def Let_def sim_fields[OF s]
  by (intro sim_option_side_effects sim_if sim_prims sim_send_opt s)

lemma sim_rec_ack [sim_intros]: "sim t t' \<Longrightarrow> sim (rec_ack env o' t) (rec_ack env' o' t')"
  by (simp add: rec_ack_def sim_fields sim_intros split: opt_state.split)

lemma sim_rec_nak [sim_intros]: "sim t t' \<Longrightarrow> sim (rec_nak env o' t) (rec_nak env' o' t')"
  by (simp add: rec_nak_def sim_fields sim_intros split: opt_state.split)

lemma sim_rec_opt_loop [sim_intros]:
  "sim t t' \<Longrightarrow> sim (rec_opt_loop env os cmd opt t) (rec_opt_loop env' os cmd opt t')"
  by (induction os) (simp_all add: sim_intros)

lemma sim_proc_rec_opt [sim_intros]:
  "sim t t' \<Longrightarrow> sim (proc_rec_opt env cmd opt t) (proc_rec_opt env' cmd opt t')"
  by (simp add: proc_rec_opt_def sim_intros)

lemma sim_log_vars [sim_intros]: "sim t t' \<Longrightarrow> sim (log_vars es t) (log_vars es t')"
  by (induction es t arbitrary: t' rule: log_vars.induct) (simp_all add: sim_intros)

lemma conf_log_vars [simp]: "conf (log_vars es t) = conf t"
  by (induction es t rule: log_vars.induct) (simp_all add: emitters)

lemma sim_log_environ [sim_intros]: "sim t t' \<Longrightarrow> sim (log_environ opt n t) (log_environ opt n t')"
  by (simp add: log_environ_def Let_def sim_fields sim_intros split: option.split)

lemma sim_process_subneg [sim_intros]:
  "sim t t' \<Longrightarrow> sim (process_subneg env t) (process_subneg env' t')"
  by (simp add: process_subneg_def Let_def sim_fields sim_intros split: list.split prod.split)

lemma sim_subneg_addchar [sim_intros]: "sim t t' \<Longrightarrow> sim (subneg_addchar c t) (subneg_addchar c t')"
  by (cases t; cases t'; simp add: subneg_addchar_def sim_def core_def)


section \<open>The receiving loop on split input\<close>

text \<open>
  A character extends the outputs by protocol events only, and its own output by what it
  delivers; both depend on the state up to the backlog and the outputs so far.
\<close>

definition quiet :: "telnet \<Rightarrow> telnet \<Rightarrow> bool" where
  "quiet t t' \<longleftrightarrow> delivered (outputs t') = delivered (outputs t)"

lemma quiet_refl [simp]: "quiet t t" by (simp add: quiet_def)
lemma quiet_trans: "quiet t t' \<Longrightarrow> quiet t' t'' \<Longrightarrow> quiet t t''" by (simp add: quiet_def)

named_theorems quiet_intros

lemma quiet_prims [quiet_intros]:
  assumes "quiet s t"
  shows "proto_event e \<Longrightarrow> quiet s (emit e t)" "quiet s (set_opt i x t)" "quiet s (sk_write env b t)"
    "quiet s (send_opt env cmd opt t)" "quiet s (logevent l t)"
    "quiet s (t\<lparr>echoing := b'\<rparr>)" "quiet s (t\<lparr>editing := b'\<rparr>)" "quiet s (t\<lparr>activated := b'\<rparr>)"
    "quiet s (t\<lparr>in_synch := b'\<rparr>)" "quiet s (t\<lparr>state := st\<rparr>)"
    "quiet s (t\<lparr>term_width := w, term_height := h\<rparr>)"
  using assms by (simp_all add: quiet_def emitters proto_event_data)

lemma quiet_if [quiet_intros]: "quiet s a \<Longrightarrow> quiet s b \<Longrightarrow> quiet s (if P then a else b)"
  by simp

lemma quiet_negotiators [quiet_intros]:
  assumes q: "quiet s t"
  shows "quiet s (deactivate_option env o' t)" "quiet s (request_minimum env o' t)"
    "quiet s (telnet_size env w h t)"
  using q by (simp_all add: deactivate_option_def request_minimum_def telnet_size_def Let_def quiet_intros)

lemma quiet_side_effects [quiet_intros]: "quiet s t \<Longrightarrow> quiet s (option_side_effects env o' e t)"
  unfolding option_side_effects_def Let_def by (intro quiet_intros) simp_all

lemma quiet_activate [quiet_intros]: "quiet s t \<Longrightarrow> quiet s (activate_option env o' t)"
  unfolding activate_option_def Let_def by (intro quiet_intros)

lemma quiet_refused [quiet_intros]: "quiet s t \<Longrightarrow> quiet s (refused_option env o' t)"
  unfolding refused_option_def Let_def by (intro quiet_intros)

lemma quiet_rec [quiet_intros]:
  assumes "quiet s t"
  shows "quiet s (rec_ack env o' t)" "quiet s (rec_nak env o' t)"
  using assms by (simp_all add: rec_ack_def rec_nak_def quiet_intros split: opt_state.split)

lemma quiet_proc_rec_opt [quiet_intros]: "quiet s t \<Longrightarrow> quiet s (proc_rec_opt env cmd opt t)"
proof -
  have "quiet s t \<Longrightarrow> quiet s (rec_opt_loop env os cmd opt t)" for os t
    by (induction os) (simp_all add: quiet_intros)
  then show "quiet s t \<Longrightarrow> quiet s (proc_rec_opt env cmd opt t)"
    by (simp add: proc_rec_opt_def quiet_intros)
qed

lemma quiet_log_vars [quiet_intros]: "quiet s t \<Longrightarrow> quiet s (log_vars es t)"
  by (induction es t rule: log_vars.induct) (simp_all add: quiet_intros)

lemma quiet_process_subneg [quiet_intros]: "quiet s t \<Longrightarrow> quiet s (process_subneg env t)"
  by (simp add: process_subneg_def log_environ_def Let_def quiet_intros
      split: list.split prod.split option.split)

lemma quiet_subneg_addchar [quiet_intros]: "quiet s t \<Longrightarrow> quiet s (subneg_addchar c t)"
  by (simp add: subneg_addchar_def quiet_def)

lemma read_char_quiet: "quiet t (fst (read_char env c (t, ob)))"
  by (simp add: read_char_def Let_def quiet_intros split: TelnetState.split)
    (simp add: quiet_def)

lemma read_char_out: "read_char env c (t, ob) =
    (fst (read_char env c (t, [])), ob @ snd (read_char env c (t, [])))"
  by (cases "state t") (simp_all add: read_char_def Let_def)

lemma read_char_sim: "sim t t' \<Longrightarrow> sim (fst (read_char env c (t, ob))) (fst (read_char env' c (t', ob')))"
  by (cases "state t"; simp add: read_char_def Let_def sim_fields sim_intros)

lemma read_char_sim_out:
  "sim t t' \<Longrightarrow> snd (read_char env c (t, ob)) = snd (read_char env' c (t', ob))"
  by (cases "state t"; simp add: read_char_def Let_def sim_fields)

lemma read_loop_out: "read_loop env buf (t, ob) =
    (fst (read_loop env buf (t, [])), ob @ snd (read_loop env buf (t, [])))"
proof (induction buf arbitrary: t ob)
  case (Cons c buf)
  obtain t1 o1 where u: "read_char env c (t, []) = (t1, o1)" by fastforce
  then have v: "read_char env c (t, ob) = (t1, ob @ o1)" using read_char_out[of env c t ob] by simp
  show ?case using Cons.IH[of t1 o1] Cons.IH[of t1 "ob @ o1"] by (simp add: u v)
qed simp

lemma read_loop_sim:
  "sim t t' \<Longrightarrow> sim (fst (read_loop env buf (t, ob))) (fst (read_loop env' buf (t', ob')))
    \<and> snd (read_loop env buf (t, ob)) = ob @ snd (read_loop env' buf (t', []))"
proof (induction buf arbitrary: t t' ob ob')
  case (Cons c buf)
  obtain t1 o1 where u: "read_char env c (t, ob) = (t1, ob @ o1)" using read_char_out by blast
  obtain t1' o1' where v: "read_char env' c (t', []) = (t1', o1')" by fastforce
  have w: "read_char env' c (t', ob') = (t1', ob' @ o1')" using read_char_out[of env' c t' ob'] v by simp
  have s: "sim t1 t1'" using read_char_sim[OF Cons.prems, of env c ob env' "[]"] u v by simp
  have o: "o1 = o1'" using read_char_sim_out[OF Cons.prems, of env c ob env'] u read_char_out[of env' c t' ob] v
    by simp
  show ?case using Cons.IH[OF s, of "ob @ o1" "ob' @ o1'"] read_loop_out[of env' buf t1' o1']
    by (simp add: u v w o)
qed simp

lemma read_loop_append: "read_loop env (a @ b) ts = read_loop env b (read_loop env a ts)"
  by (induction a arbitrary: ts) simp_all

lemma read_loop_quiet: "quiet t (fst (read_loop env buf (t, ob)))"
proof (induction buf arbitrary: t ob)
  case (Cons c buf)
  obtain t1 ob1 where u: "read_char env c (t, ob) = (t1, ob1)" by fastforce
  then have "quiet t t1" using read_char_quiet[of t env c ob] by simp
  then show ?case using Cons.IH[of t1 ob1] u by (auto intro: quiet_trans)
qed simp

lemma do_telnet_read_sim:
  assumes "sim t t'"
  shows "sim (do_telnet_read env buf t) (fst (read_loop env' buf (t', ob)))"
proof -
  obtain t1 o1 where r: "read_loop env buf (t, []) = (t1, o1)" by fastforce
  have "sim t1 (fst (read_loop env' buf (t', ob)))" using read_loop_sim[OF assms, of env buf "[]"] r by (metis fst_conv)
  then show ?thesis using sim_c_write[of t1 env o1]
    by (auto simp: do_telnet_read_def r intro: sim_trans sim_sym)
qed

lemma do_telnet_read_delivers:
  "delivered (outputs (do_telnet_read env buf t)) =
   delivered (outputs t) @ snd (read_loop env buf (t, []))"
proof -
  obtain t1 o1 where r: "read_loop env buf (t, []) = (t1, o1)" by fastforce
  then show ?thesis using read_loop_quiet[of t env buf "[]"]
    by (simp add: do_telnet_read_def quiet_def c_write_def emitters)
qed

lemma do_telnet_read_chunks:
  "sim (do_telnet_read env (a @ b) t) (do_telnet_read env' b (do_telnet_read env' a t))
   \<and> delivered (outputs (do_telnet_read env (a @ b) t))
     = delivered (outputs (do_telnet_read env' b (do_telnet_read env' a t)))"
proof -
  obtain t1 o1 where r: "read_loop env a (t, []) = (t1, o1)" by fastforce
  let ?u = "do_telnet_read env' a t"
  have s: "sim t1 ?u" using do_telnet_read_sim[OF sim_refl, of env' a t env "[]"] r
    by (simp add: sim_sym)
  have ab: "read_loop env (a @ b) (t, []) = read_loop env b (t1, o1)" by (simp add: read_loop_append r)
  have "sim (do_telnet_read env (a @ b) t) (fst (read_loop env b (t1, o1)))"
    using do_telnet_read_sim[OF sim_refl, of env "a @ b" t env "[]"] ab by simp
  moreover have "sim (fst (read_loop env b (t1, o1))) (do_telnet_read env' b ?u)"
    using do_telnet_read_sim[OF sim_sym[OF s], of env' b env o1] by (rule sim_sym)
  ultimately have 1: "sim (do_telnet_read env (a @ b) t) (do_telnet_read env' b ?u)" by (rule sim_trans)
  have "snd (read_loop env b (t1, o1)) = o1 @ snd (read_loop env' b (?u, []))"
    using read_loop_sim[OF s] by blast
  moreover have "o1 = snd (read_loop env' a (t, []))"
    using read_loop_sim[OF sim_refl, of env a t "[]" env' "[]"] r by simp
  ultimately show ?thesis using 1 by (simp add: do_telnet_read_delivers ab)
qed

lemma do_telnet_read_all_chunks:
  "sim (do_telnet_read env (concat chunks) t) (foldl (\<lambda>s b. do_telnet_read env' b s) t chunks)
   \<and> delivered (outputs (do_telnet_read env (concat chunks) t))
     = delivered (outputs (foldl (\<lambda>s b. do_telnet_read env' b s) t chunks))"
proof (induction chunks rule: rev_induct)
  case (snoc c cs)
  let ?u = "do_telnet_read env (concat cs) t" and ?v = "foldl (\<lambda>s b. do_telnet_read env' b s) t cs"
  have "sim (do_telnet_read env c ?u) (do_telnet_read env' c ?v)"
    using do_telnet_read_sim[of ?u ?v env c env "[]"] do_telnet_read_sim[of ?v ?v env' c env "[]"] snoc
      sim_refl sim_sym sim_trans by blast
  moreover have "snd (read_loop env c (?u, [])) = snd (read_loop env' c (?v, []))"
    using read_loop_sim[of ?u ?v env c "[]" env' "[]"] snoc by simp
  ultimately show ?case
    using snoc do_telnet_read_chunks[of env "concat cs" c t env]
    by (auto simp: do_telnet_read_delivers intro: sim_trans)
qed (simp add: do_telnet_read_def)

end
