(* ===== verification/Telnet_Inv.thy ===== *)
theory Telnet_Inv
  imports Telnet_Chunks
begin

text \<open>
  The invariant of the telnet backend (option states, local echo and editing modes, the
  sub-negotiation buffer), its preservation by every operation, and the operations as a
  step relation whose reachable states satisfy it.
\<close>

section \<open>Invariant\<close>

definition opts_ok :: "telnet \<Rightarrow> bool" where
  "opts_ok t \<longleftrightarrow>
     (opt_states t OPTINDEX_OENV = ACTIVE \<longrightarrow> opt_states t OPTINDEX_NENV \<noteq> ACTIVE)
   \<and> (\<forall>i. opt_states t i = REALLY_INACTIVE \<longrightarrow> i = OPTINDEX_OENV \<or> i = OPTINDEX_NENV)"

definition modes_ok :: "telnet \<Rightarrow> bool" where
  "modes_ok t \<longleftrightarrow>
     (opt_states t OPTINDEX_ECHO = ACTIVE \<longrightarrow> \<not> echoing t)
   \<and> (opt_states t OPTINDEX_ECHO = INACTIVE \<longrightarrow> echoing t)
   \<and> (opt_states t OPTINDEX_THEY_SGA = ACTIVE \<longrightarrow> \<not> editing t)
   \<and> (opt_states t OPTINDEX_THEY_SGA = INACTIVE \<longrightarrow> editing t)"

definition telnet_ok :: "telnet \<Rightarrow> bool" where
  "telnet_ok t \<longleftrightarrow> opts_ok t \<and> modes_ok t \<and> length (sb_buf t) \<le> sb_size t"

lemmas telnet_ok_defs = telnet_ok_def opts_ok_def modes_ok_def

lemma opt_fields [simp]:
  "index (we c i s) = i" "send (we c i s) = WILL" "nsend (we c i s) = WONT" "ack (we c i s) = DO"
  "nak (we c i s) = DONT" "option (we c i s) = c" "initial_state (we c i s) = s"
  "index (they c i s) = i" "send (they c i s) = DO" "nsend (they c i s) = DONT" "ack (they c i s) = WILL"
  "nak (they c i s) = WONT" "option (they c i s) = c" "initial_state (they c i s) = s"
  by (simp_all add: we_def they_def)

lemmas o_defs = o_naws_def o_tspeed_def o_ttype_def o_oenv_def o_nenv_def
  o_echo_def o_we_sga_def o_they_sga_def o_we_bin_def o_they_bin_def

lemma ok_prims [simp]:
  "telnet_ok (emit e t) = telnet_ok t" "telnet_ok (logevent l t) = telnet_ok t"
  "telnet_ok (sk_write env b t) = telnet_ok t" "telnet_ok (sk_write_oob env b t) = telnet_ok t"
  "telnet_ok (c_write env b t) = telnet_ok t" "telnet_ok (send_opt env c d t) = telnet_ok t"
  "telnet_ok (t\<lparr>state := st\<rparr>) = telnet_ok t" "telnet_ok (t\<lparr>in_synch := b'\<rparr>) = telnet_ok t"
  "telnet_ok (t\<lparr>activated := b'\<rparr>) = telnet_ok t"
  by (simp_all add: telnet_ok_defs emitters c_write_def)

lemma ok_requested: "telnet_ok t \<Longrightarrow> telnet_ok (set_opt i REQUESTED t)"
  by (auto simp: telnet_ok_defs set_opt_def)

lemma ok_request_minimum: "telnet_ok t \<Longrightarrow> telnet_ok (request_minimum env o' t)"
  by (simp add: request_minimum_def ok_requested)

lemma ok_telnet_size: "telnet_ok t \<Longrightarrow> telnet_ok (telnet_size env w h t)"
  by (simp add: telnet_size_def Let_def) (simp add: telnet_ok_defs)

text \<open>The mode that an option switches in \<open>option_side_effects\<close>.\<close>

definition switch_mode :: "Opt \<Rightarrow> bool \<Rightarrow> telnet \<Rightarrow> telnet" where
  "switch_mode o' enabled t =
     (if option o' = TELOPT_ECHO \<and> send o' = DO then t\<lparr>echoing := \<not> enabled\<rparr>
      else if option o' = TELOPT_SGA \<and> send o' = DO then t\<lparr>editing := \<not> enabled\<rparr> else t)"

lemma ok_side_effects: "telnet_ok (switch_mode o' e t) \<Longrightarrow> telnet_ok (option_side_effects env o' e t)"
  unfolding option_side_effects_def Let_def switch_mode_def[symmetric]
  by (simp add: ok_request_minimum)

lemma switch_mode_emitters [simp]:
  "telnet_ok (switch_mode o' e (send_opt env c d t)) = telnet_ok (switch_mode o' e t)"
  "telnet_ok (switch_mode o' e (set_opt i x (send_opt env c d t))) = telnet_ok (switch_mode o' e (set_opt i x t))"
  "telnet_ok (switch_mode o' e (telnet_size env w h t)) = telnet_ok (switch_mode o' e t)"
  by (simp_all add: switch_mode_def telnet_size_def emitters telnet_ok_defs)

lemma opts_cases:
  assumes "o' \<in> set opts"
  obtains "o' = o_naws" | "o' = o_tspeed" | "o' = o_ttype" | "o' = o_oenv" | "o' = o_nenv"
    | "o' = o_echo" | "o' = o_we_sga" | "o' = o_they_sga" | "o' = o_we_bin" | "o' = o_they_bin"
  using assms by (auto simp: opts_def)

lemma opt_states_send_opt [simp]: "opt_states (send_opt env c d t) = opt_states t"
  "opt_states (set_opt i s t) = (opt_states t)(i := s)"
  by (simp_all add: emitters)

lemma switch_fields [simp]:
  "opt_states (switch_mode o' e t) = opt_states t" "sb_buf (switch_mode o' e t) = sb_buf t"
  "sb_size (switch_mode o' e t) = sb_size t"
  "echoing (switch_mode o' e t) = (if option o' = TELOPT_ECHO \<and> send o' = DO then \<not> e else echoing t)"
  "editing (switch_mode o' e t) = (if option o' = TELOPT_SGA \<and> send o' = DO then \<not> e else editing t)"
  by (simp_all add: switch_mode_def)

definition only_opts :: "telnet \<Rightarrow> telnet \<Rightarrow> bool" where
  "only_opts t u \<longleftrightarrow> echoing u = echoing t \<and> editing u = editing t \<and> sb_buf u = sb_buf t \<and> sb_size u = sb_size t"

lemma only_opts_trans: "only_opts t u \<Longrightarrow> only_opts u v \<Longrightarrow> only_opts t v"
  by (simp add: only_opts_def)

lemma only_opts [simp]:
  "only_opts t t" "only_opts t (set_opt i s u) = only_opts t u" "only_opts t (send_opt env c d u) = only_opts t u"
  "only_opts t (telnet_size env w h u) = only_opts t u" "only_opts t (deactivate_option env o' u) = only_opts t u"
  by (simp_all add: only_opts_def telnet_size_def deactivate_option_def emitters)

lemma opt_states_size [simp]:
  "opt_states (telnet_size env w h t) = opt_states t"
  "opt_states (deactivate_option env o' t) = (opt_states t)(index o' := REALLY_INACTIVE)"
  by (simp_all add: telnet_size_def deactivate_option_def emitters)

lemma ok_activate:
  assumes t: "telnet_ok t" and o': "o' \<in> set opts"
    and u: "only_opts t u" "opt_states u = (opt_states t)(index o' := ACTIVE)"
  shows "telnet_ok (activate_option env o' u)"
proof -
  define v where "v = (if send o' = WILL \<and> option o' = TELOPT_NAWS
                then telnet_size env (term_width u) (term_height u) u else u)"
  define w where "w = (if send o' = WILL \<and> (option o' = TELOPT_NEW_ENVIRON \<or> option o' = TELOPT_OLD_ENVIRON)
                then deactivate_option env (if option o' = TELOPT_NEW_ENVIRON then o_oenv else o_nenv) v
                else v)"
  have w: "only_opts t w" using u(1) by (simp add: w_def v_def)
  have s: "opt_states w = (if send o' = WILL \<and> (option o' = TELOPT_NEW_ENVIRON \<or> option o' = TELOPT_OLD_ENVIRON)
    then (opt_states t)(index o' := ACTIVE,
           index (if option o' = TELOPT_NEW_ENVIRON then o_oenv else o_nenv) := REALLY_INACTIVE)
    else (opt_states t)(index o' := ACTIVE))"
    using u(2) by (auto simp: w_def v_def)
  have "telnet_ok (switch_mode o' True w)"
    using o' t w by (elim opts_cases; simp add: telnet_ok_defs s only_opts_def o_defs; auto)
  then show ?thesis
    unfolding activate_option_def Let_def v_def[symmetric] w_def[symmetric] by (rule ok_side_effects)
qed

lemma ok_refuse:
  assumes t: "telnet_ok t" and o': "o' \<in> set opts"
    and u: "only_opts t u" "opt_states u = (opt_states t)(index o' := INACTIVE)"
  shows "telnet_ok (option_side_effects env o' False u)" "telnet_ok (refused_option env o' u)"
proof -
  define w where "w = (if send o' = WILL \<and> option o' = TELOPT_NEW_ENVIRON
                   \<and> opt_states u (index o_oenv) = INACTIVE
                then set_opt (index o_oenv) REQUESTED (send_opt env WILL TELOPT_OLD_ENVIRON u)
                else u)"
  have w: "only_opts t w" using u(1) by (simp add: w_def)
  have s: "opt_states w = (if send o' = WILL \<and> option o' = TELOPT_NEW_ENVIRON
                   \<and> ((opt_states t)(index o' := INACTIVE)) (index o_oenv) = INACTIVE
     then (opt_states t)(index o' := INACTIVE, index o_oenv := REQUESTED)
     else (opt_states t)(index o' := INACTIVE))"
    using u(2) by (simp add: w_def)
  have "telnet_ok (switch_mode o' False w)"
    using o' t w by (elim opts_cases; simp add: telnet_ok_defs s only_opts_def o_defs; auto)
  then show "telnet_ok (refused_option env o' u)"
    unfolding refused_option_def Let_def w_def[symmetric] by (rule ok_side_effects)
  have "telnet_ok (switch_mode o' False u)"
    using o' t u by (elim opts_cases; simp add: telnet_ok_defs only_opts_def o_defs; auto)
  then show "telnet_ok (option_side_effects env o' False u)" by (rule ok_side_effects)
qed

lemma ok_rec:
  assumes "telnet_ok t" "o' \<in> set opts"
  shows "telnet_ok (rec_ack env o' t)" "telnet_ok (rec_nak env o' t)"
  using assms by (simp_all add: rec_ack_def rec_nak_def ok_activate ok_refuse split: opt_state.split)

lemma ok_proc_rec_opt:
  assumes "telnet_ok t"
  shows "telnet_ok (proc_rec_opt env cmd opt t)"
proof -
  have "set os \<subseteq> set opts \<Longrightarrow> telnet_ok u \<Longrightarrow> telnet_ok (rec_opt_loop env os cmd opt u)" for os u
    by (induction os) (simp_all add: ok_rec)
  then show ?thesis using assms by (simp add: proc_rec_opt_def)
qed

lemma ok_log_vars [simp]: "telnet_ok (log_vars es t) = telnet_ok t"
  by (induction es t rule: log_vars.induct) simp_all

lemma ok_process_subneg [simp]: "telnet_ok (process_subneg env t) = telnet_ok t"
  by (simp add: process_subneg_def log_environ_def Let_def split: list.split prod.split option.split)

lemma ok_read_char: "telnet_ok t \<Longrightarrow> telnet_ok (fst (read_char env c (t, ob)))"
  by (cases "state t"; simp add: read_char_def Let_def ok_proc_rec_opt)
    (auto simp: subneg_addchar_def SB_DELTA_def telnet_ok_defs)

lemma ok_do_telnet_read: "telnet_ok t \<Longrightarrow> telnet_ok (do_telnet_read env buf t)"
proof -
  assume t: "telnet_ok t"
  have "telnet_ok u \<Longrightarrow> telnet_ok (fst (read_loop env buf (u, ob)))" for u ob
    by (induction buf arbitrary: u ob) (simp_all, metis ok_read_char prod.collapse)
  then show ?thesis using t
    by (auto simp: do_telnet_read_def split: prod.split) (metis fst_conv)+
qed

lemma ok_send_special_chars [simp]: "telnet_ok (send_special_chars env cs t) = telnet_ok t"
  by (induction cs arbitrary: t) simp_all

lemma ok_telnet_send [simp]: "telnet_ok (snd (telnet_send env buf t)) = telnet_ok t"
proof -
  have "telnet_ok (send_loop env buf t) = telnet_ok t"
    by (induction env buf t rule: send_loop.induct) (subst send_loop.simps, simp add: Let_def)
  then show ?thesis by (simp add: telnet_send_def Let_def)
qed

lemma ok_telnet_special: "telnet_ok t \<Longrightarrow> telnet_ok (telnet_special env code t)"
  by (cases code) (simp_all add: telnet_special_def ok_requested)

lemma ok_telnet_closing: "telnet_ok t \<Longrightarrow> telnet_ok (telnet_closing e t)"
  by (cases e) (simp_all add: telnet_closing_def Let_def, simp_all add: telnet_ok_defs emitters)

section \<open>The operations as a step relation\<close>

text \<open>
  The socket layer calls \<open>telnet_receive\<close> for an open socket only; the other operations may
  come at any time.
\<close>

inductive telnet_step :: "telnet \<Rightarrow> telnet \<Rightarrow> bool" where
  receive: "socket_open t \<Longrightarrow> telnet_step t (telnet_receive env urgent data t)"
| closing: "telnet_step t (telnet_closing error_msg t)"
| sent: "telnet_step t (telnet_sent n t)"
| sends: "telnet_send env buf t = (n, t') \<Longrightarrow> telnet_step t t'"
| size: "telnet_step t (telnet_size env w h t)"
| special: "telnet_step t (telnet_special env code t)"
| reconfig: "telnet_step t (telnet_reconfig cf t)"
| provide_ldisc: "telnet_step t (telnet_provide_ldisc l t)"
| unthrottle: "telnet_unthrottle backlog t = Some t' \<Longrightarrow> telnet_step t t'"

inductive telnet_reachable :: "telnet \<Rightarrow> bool" where
  start: "telnet_init env cf garbage None None = (None, t) \<Longrightarrow> telnet_reachable t"
| step: "telnet_reachable t \<Longrightarrow> telnet_step t t' \<Longrightarrow> telnet_reachable t'"

inductive_cases telnet_stepE: "telnet_step t t'"

lemma ok_telnet_step:
  assumes "telnet_step t t'" "telnet_ok t"
  shows "telnet_ok t'"
  using assms
proof cases
  case (receive env urgent data)
  then show ?thesis using assms(2) by (simp add: telnet_receive_def ok_do_telnet_read)
next
  case (sends env buf n)
  then show ?thesis using assms(2) ok_telnet_send[of env buf t] by simp
next
  case (unthrottle backlog)
  then show ?thesis using assms(2) by (auto simp: telnet_unthrottle_def split: if_splits)
qed (simp_all add: ok_telnet_closing ok_telnet_size ok_telnet_special,
     simp_all add: telnet_ok_defs telnet_sent_def telnet_reconfig_def telnet_provide_ldisc_def)

lemma ok_telnet_init:
  assumes "telnet_init env cf garbage None None = (None, t)"
  shows "telnet_ok t"
proof -
  have "telnet_ok (init_opts env opts (telnet_alloc cf garbage\<lparr>socket_open := True\<rparr>))"
    unfolding opts_def by (simp add: o_defs telnet_ok_defs) (auto intro: optindex.exhaust simp: emitters telnet_alloc_def)
  then show ?thesis using assms
    by (auto simp: telnet_init_def Let_def split: if_splits) (simp add: telnet_ok_defs telnet_alloc_def)
qed

lemma reachable_ok: "telnet_reachable t \<Longrightarrow> telnet_ok t"
  by (induction rule: telnet_reachable.induct) (auto intro: ok_telnet_init ok_telnet_step)


text \<open>Events that use the socket; without one, no step emits any.\<close>

fun socket_event :: "event \<Rightarrow> bool" where
  "socket_event (SkWrite b) = True"
| "socket_event (SkWriteOob b) = True"
| "socket_event (SkSetFrozen b) = True"
| "socket_event SkClose = True"
| "socket_event e = False"

definition stays_closed :: "telnet \<Rightarrow> telnet \<Rightarrow> bool" where
  "stays_closed t t' \<longleftrightarrow> \<not> socket_open t' \<and>
     filter socket_event (outputs t') = filter socket_event (outputs t)"

lemma closed_telnet_step:
  assumes "telnet_step t t'" "\<not> socket_open t"
  shows "stays_closed t t'"
  using assms
  by (elim telnet_stepE)
    (auto simp: stays_closed_def telnet_closing_def telnet_sent_def telnet_send_def telnet_size_def
      telnet_special_def telnet_reconfig_def telnet_provide_ldisc_def telnet_unthrottle_def emitters
      split: option.splits)

end
