(* ===== verification/Telnet_Props.thy ===== *)
theory Telnet_Props
  imports Telnet_Inv
begin

text \<open>
  The properties of the telnet backend: the transparent data stream, the window size
  message, the replies, and the negotiation, with the lemmas on escaped streams, framed
  sub-negotiations and the option table that they rest on.
\<close>

section \<open>The escaped stream\<close>

definition escape :: "bool \<Rightarrow> byte \<Rightarrow> byte list" where
  "escape binary c = (if c = IAC then [IAC, IAC] else if c = CR \<and> \<not> binary then [CR, 0] else [c])"

abbreviation we_binary :: "telnet \<Rightarrow> bool" where
  "we_binary t \<equiv> opt_states t (index o_we_bin) = ACTIVE"

abbreviation they_binary :: "telnet \<Rightarrow> bool" where
  "they_binary t \<equiv> opt_states t (index o_they_bin) = ACTIVE"

lemma escape_writable: "iswritable t c \<Longrightarrow> escape (we_binary t) c = [c]"
  by (auto simp: iswritable_def escape_def)

lemma escape_special:
  "\<not> iswritable t c \<Longrightarrow> escape (we_binary t) c = (if c = IAC then [IAC, IAC] else [CR, 0])"
  by (auto simp: iswritable_def escape_def)

lemma opt_states_sk_write [simp]: "opt_states (sk_write env b t) = opt_states t"
  by (simp add: emitters)

lemma opt_states_special_chars [simp]: "opt_states (send_special_chars env cs t) = opt_states t"
  by (induction cs arbitrary: t) simp_all

lemma written_sk_write [simp]: "written (outputs (sk_write env b t)) = written (outputs t) @ b"
  by (simp add: emitters)

lemma written_special_chars:
  "\<forall>c \<in> set cs. \<not> iswritable s c \<Longrightarrow> written (outputs (send_special_chars env cs t)) =
     written (outputs t) @ concat (map (escape (we_binary s)) cs)"
  by (induction cs arbitrary: t) (simp_all add: escape_special)

lemma iswritable_opts: "opt_states t = opt_states t' \<Longrightarrow> iswritable t = iswritable t'"
  by (rule ext) (simp add: iswritable_def)

lemma concat_map_single: "\<forall>c \<in> set cs. f c = [c] \<Longrightarrow> concat (map f cs) = cs"
  by (induction cs) simp_all

lemma send_loop_step:
  "p \<noteq> [] \<Longrightarrow> send_loop env p t =
     send_loop env (dropWhile (\<lambda>c. \<not> iswritable t c) (dropWhile (iswritable t) p))
       (send_special_chars env (takeWhile (\<lambda>c. \<not> iswritable t c) (dropWhile (iswritable t) p))
          (sk_write env (takeWhile (iswritable t) p) t))"
  by (subst send_loop.simps) (simp only: Let_def if_False)

lemma written_send_loop:
  "written (outputs (send_loop env p t)) = written (outputs t) @ concat (map (escape (we_binary t)) p)"
proof (induction env p t rule: send_loop.induct)
  case (1 env p t)
  let ?plain = "takeWhile (iswritable t) p" and ?p1 = "dropWhile (iswritable t) p"
  let ?special = "takeWhile (\<lambda>c. \<not> iswritable t c) ?p1" and ?p2 = "dropWhile (\<lambda>c. \<not> iswritable t c) ?p1"
  let ?t2 = "send_special_chars env ?special (sk_write env ?plain t)"
  have plain: "concat (map (escape (we_binary t)) ?plain) = ?plain"
    by (rule concat_map_single) (auto dest: set_takeWhileD simp: escape_writable)
  have split: "p = ?plain @ ?special @ ?p2" by simp
  have special: "\<forall>c \<in> set ?special. \<not> iswritable t c" by (auto dest: set_takeWhileD)
  show ?case
  proof (cases "p = []")
    case False
    have "written (outputs (send_loop env p t)) = written (outputs (send_loop env ?p2 ?t2))"
      using send_loop_step[OF False] by simp
    also have "\<dots> = written (outputs ?t2) @ concat (map (escape (we_binary t)) ?p2)"
      using 1[OF False refl refl refl refl refl] by simp
    also have "\<dots> = written (outputs t) @ concat (map (escape (we_binary t)) (?plain @ ?special @ ?p2))"
      by (simp only: map_append concat_append plain written_special_chars[OF special] written_sk_write
          append_assoc)
    finally show ?thesis using split by simp
  qed (simp add: send_loop.simps)
qed

lemma outputs_special_chars: "\<exists>es. outputs (send_special_chars env cs t) = outputs t @ es"
proof (induction cs arbitrary: t)
  case (Cons c cs)
  show ?case using Cons[of "sk_write env (if c = IAC then [IAC, IAC] else [CR, 0]) t"]
    by (auto simp: emitters)
qed simp

lemma outputs_send_loop: "\<exists>es. outputs (send_loop env p t) = outputs t @ es"
proof (induction env p t rule: send_loop.induct)
  case (1 env p t)
  show ?case
  proof (cases "p = []")
    case False
    from 1[OF False refl refl refl refl refl] obtain es where "outputs (send_loop env p t) =
      outputs (send_special_chars env (takeWhile (\<lambda>c. \<not> iswritable t c) (dropWhile (iswritable t) p))
         (sk_write env (takeWhile (iswritable t) p) t)) @ es"
      unfolding send_loop_step[OF False, of env t, symmetric] by blast
    then show ?thesis
      using outputs_special_chars[of env "takeWhile (\<lambda>c. \<not> iswritable t c) (dropWhile (iswritable t) p)"
          "sk_write env (takeWhile (iswritable t) p) t"]
      by (auto simp: emitters)
  qed (simp add: send_loop.simps)
qed

text \<open>What an operation that took the outputs from \<open>t\<close> to \<open>t'\<close> wrote.\<close>

definition sent_bytes :: "telnet \<Rightarrow> telnet \<Rightarrow> byte list" where
  "sent_bytes t t' = written (drop (length (outputs t)) (outputs t'))"

lemma sent_bytes_telnet_send:
  "socket_open t \<Longrightarrow> sent_bytes t (snd (telnet_send env data t)) = concat (map (escape (we_binary t)) data)"
  using written_send_loop[of env data t] outputs_send_loop[of env data t]
  by (auto simp: sent_bytes_def telnet_send_def Let_def)

lemma state_update_id: "state t = st \<Longrightarrow> t\<lparr>state := st\<rparr> = t"
  by (cases t) simp

lemma read_escape:
  assumes "state t = TOP_LEVEL" "\<not> in_synch t"
  shows "read_loop env (escape (they_binary t) c) (t, ob) = (t, ob @ [c])"
  using assms state_update_id[OF assms(1)]
  by (simp add: escape_def read_char_def Let_def o_defs)

lemma read_escapes:
  assumes "state t = TOP_LEVEL" "\<not> in_synch t"
  shows "read_loop env (concat (map (escape (they_binary t)) data)) (t, ob) = (t, ob @ data)"
  by (induction data arbitrary: ob) (simp_all add: read_loop_append read_escape assms)

section \<open>The window size\<close>

lemma read_double_iac:
  assumes "state t = SUBNEGOT"
  shows "\<exists>n. read_loop env (double_iac b) (t, ob) = (t\<lparr>sb_buf := sb_buf t @ [b], sb_size := n\<rparr>, ob)"
  using assms by (cases t) (auto simp: double_iac_def read_char_def subneg_addchar_def Let_def)

lemma read_doubled:
  "state t = SUBNEGOT \<Longrightarrow>
   \<exists>n. read_loop env (concat (map double_iac bs)) (t, ob) = (t\<lparr>sb_buf := sb_buf t @ bs, sb_size := n\<rparr>, ob)"
proof (induction bs arbitrary: t)
  case Nil
  then show ?case by (cases t) simp
next
  case (Cons b bs)
  obtain n where n: "read_loop env (double_iac b) (t, ob) = (t\<lparr>sb_buf := sb_buf t @ [b], sb_size := n\<rparr>, ob)"
    using read_double_iac[OF Cons.prems] by blast
  show ?case using Cons.IH[of "t\<lparr>sb_buf := sb_buf t @ [b], sb_size := n\<rparr>"] Cons.prems n
    by (simp add: read_loop_append)
qed

definition subneg_frame :: "byte \<Rightarrow> byte list \<Rightarrow> byte list" where
  "subneg_frame opt bs = [IAC, SB, opt] @ concat (map double_iac bs) @ [IAC, SE]"

lemma read_subneg_frame:
  assumes "state t = TOP_LEVEL"
  shows "\<exists>n. read_loop env (subneg_frame opt bs) (t, ob) =
    ((process_subneg env (t\<lparr>sb_opt := opt, sb_buf := bs, sb_size := n, state := SUBNEG_IAC\<rparr>))
        \<lparr>state := TOP_LEVEL\<rparr>, ob)"
proof -
  let ?t = "t\<lparr>sb_opt := opt, sb_buf := [], state := SUBNEGOT\<rparr>"
  have 1: "read_loop env [IAC, SB, opt] (t, ob) = (?t, ob)"
    using assms by (cases t) (simp add: read_char_def)
  obtain n where n: "read_loop env (concat (map double_iac bs)) (?t, ob) =
      (?t\<lparr>sb_buf := bs, sb_size := n\<rparr>, ob)"
    using read_doubled[of ?t env bs ob] by auto
  have "read_loop env (subneg_frame opt bs) (t, ob) =
      read_loop env [IAC, SE] (?t\<lparr>sb_buf := bs, sb_size := n\<rparr>, ob)"
    unfolding subneg_frame_def read_loop_append 1 n ..
  then show ?thesis by (intro exI[of _ n]) (simp add: read_char_def)
qed

definition naws_data :: "int \<Rightarrow> int \<Rightarrow> byte list" where
  "naws_data w h = [word_of_int (w div 256), word_of_int w, word_of_int (h div 256), word_of_int h]"

lemma naws_bytes_frame: "naws_bytes w h = subneg_frame TELOPT_NAWS (naws_data w h)"
  by (simp add: naws_bytes_def subneg_frame_def naws_data_def)

definition msb_pair :: "byte \<Rightarrow> byte \<Rightarrow> int" where
  "msb_pair a b = 256 * uint a + uint b"

lemma msb_pair_size:
  assumes "0 \<le> w" "w < 65536"
  shows "msb_pair (word_of_int (w div 256)) (word_of_int w) = w"
proof -
  have "(w div 256) mod 256 = w div 256" using assms by simp
  then show ?thesis by (simp add: msb_pair_def uint_word_of_int)
qed

lemma length_naws_bytes: "length (naws_bytes w h) \<le> 13"
  by (simp add: naws_bytes_def double_iac_def)

section \<open>The replies\<close>

lemma environ_bsize_loop: "environ_bsize_loop es n = n + length (environ_vars var val es)"
  by (induction es n rule: environ_bsize_loop.induct) simp_all

lemma environ_bytes_length: "length (environ_bytes cf opt var val) + 14 = environ_bsize cf"
  by (simp add: environ_bytes_def environ_bsize_def environ_bsize_loop[of _ _ var val] split: option.split)

section \<open>Negotiation\<close>

lemma rec_opt_loop_quiet:
  assumes "\<And>o'. o' \<in> set os \<Longrightarrow> option o' = opt \<Longrightarrow> ack o' = cmd \<Longrightarrow> opt_states t (index o') = ACTIVE"
    "\<And>o'. o' \<in> set os \<Longrightarrow> option o' = opt \<Longrightarrow> nak o' = cmd \<Longrightarrow> opt_states t (index o') \<in> {INACTIVE, REALLY_INACTIVE}"
    "(\<exists>o' \<in> set os. option o' = opt \<and> ack o' = cmd) \<or> cmd \<notin> {WILL, DO}"
  shows "rec_opt_loop env os cmd opt t = t"
  using assms
proof (induction os)
  case (Cons o' os)
  show ?case
  proof (cases "option o' = opt \<and> (ack o' = cmd \<or> nak o' = cmd)")
    case True
    then show ?thesis using Cons.prems(1,2)[of o'] by (auto simp: rec_ack_def rec_nak_def)
  next
    case False
    have "rec_opt_loop env os cmd opt t = t"
      using Cons.prems False by (intro Cons.IH) auto
    then show ?thesis using False by auto
  qed
qed auto


lemma opt_states_request_minimum:
  "opt_states t i \<noteq> INACTIVE \<Longrightarrow> opt_states (request_minimum env o' t) i = opt_states t i"
  by (auto simp: request_minimum_def)

lemma opt_states_log [simp]: "opt_states (emit e t) = opt_states t" "opt_states (logevent l t) = opt_states t"
  "activated (emit e t) = activated t" "activated (logevent l t) = activated t"
  "activated (send_opt env c d t) = activated t" "activated (set_opt i s t) = activated t"
  "activated (telnet_size env w h t) = activated t" "activated (deactivate_option env o' t) = activated t"
  by (simp_all add: emitters telnet_size_def deactivate_option_def)

lemma opt_states_side_effects:
  "activated t \<Longrightarrow> opt_states (option_side_effects env o' e t) = opt_states t"
  by (simp add: option_side_effects_def Let_def)

lemma opt_states_activate:
  "activated t \<Longrightarrow> o' \<in> set opts \<Longrightarrow> opt_states (activate_option env o' t) (index o') = opt_states t (index o')"
  by (elim opts_cases; simp add: activate_option_def Let_def o_defs opt_states_side_effects)

lemma opt_states_refused:
  "activated t \<Longrightarrow> o' \<in> set opts \<Longrightarrow> opt_states t (index o') = INACTIVE \<Longrightarrow>
   opt_states (refused_option env o' t) (index o') = INACTIVE"
  by (elim opts_cases; simp add: refused_option_def Let_def o_defs opt_states_side_effects)

lemma rec_ack_state:
  "activated t \<Longrightarrow> o' \<in> set opts \<Longrightarrow> opt_states t (index o') \<noteq> REALLY_INACTIVE \<Longrightarrow>
   opt_states (rec_ack env o' t) (index o') = ACTIVE"
  by (simp add: rec_ack_def opt_states_activate split: opt_state.split)

lemma rec_nak_state:
  "activated t \<Longrightarrow> o' \<in> set opts \<Longrightarrow>
   opt_states (rec_nak env o' t) (index o') \<in> {INACTIVE, REALLY_INACTIVE}"
  by (auto simp: rec_nak_def opt_states_refused opt_states_side_effects split: opt_state.split)

lemma opts_unique:
  assumes "o1 \<in> set opts" "o2 \<in> set opts" "option o1 = option o2" "ack o1 = ack o2 \<or> nak o1 = nak o2"
  shows "o1 = o2"
  using assms by (elim opts_cases; simp add: o_defs)

lemma opts_ack_nak: "o1 \<in> set opts \<Longrightarrow> o2 \<in> set opts \<Longrightarrow> ack o1 \<noteq> nak o2"
  by (elim opts_cases; simp add: o_defs)

lemma rec_opt_loop_skip:
  "\<forall>a \<in> set os. option a = opt \<longrightarrow> ack a \<noteq> cmd \<and> nak a \<noteq> cmd \<Longrightarrow>
   rec_opt_loop env (os @ o' # ps) cmd opt t = rec_opt_loop env (o' # ps) cmd opt t"
  by (induction os) auto

lemma opts_distinct: "distinct opts"
  by (simp add: opts_def o_defs we_def they_def)

lemma rec_opt_loop_found:
  assumes "o' \<in> set opts" "option o' = opt"
  shows "ack o' = cmd \<Longrightarrow> rec_opt_loop env opts cmd opt t = rec_ack env o' t"
    "nak o' = cmd \<Longrightarrow> rec_opt_loop env opts cmd opt t = rec_nak env o' t"
proof -
  obtain os ps where s: "opts = os @ o' # ps" using assms(1) by (meson split_list)
  have d: "a \<noteq> o'" if "a \<in> set os" for a using opts_distinct that by (auto simp: s)
  have i: "a \<in> set opts" if "a \<in> set os" for a using that by (simp add: s)
  note o' = assms(1)
  show "rec_opt_loop env opts cmd opt t = rec_ack env o' t" if c: "ack o' = cmd"
  proof -
    have "option a = opt \<longrightarrow> ack a \<noteq> cmd \<and> nak a \<noteq> cmd" if a: "a \<in> set os" for a
      using opts_unique[OF i[OF a] o'] opts_ack_nak[OF o' i[OF a]] d[OF a] assms(2) c by metis
    then show ?thesis unfolding s using rec_opt_loop_skip[of os opt cmd env o' ps t] assms(2) c by simp
  qed
  show "rec_opt_loop env opts cmd opt t = rec_nak env o' t" if c: "nak o' = cmd"
  proof -
    have "option a = opt \<longrightarrow> ack a \<noteq> cmd \<and> nak a \<noteq> cmd" if a: "a \<in> set os" for a
      using opts_unique[OF i[OF a] o'] opts_ack_nak[OF i[OF a] o'] d[OF a] assms(2) c by metis
    moreover have "ack o' \<noteq> cmd" using opts_ack_nak[OF o' o'] c by simp
    ultimately show ?thesis unfolding s using rec_opt_loop_skip[of os opt cmd env o' ps t] assms(2) c by simp
  qed
qed

text \<open>The commands that an option answers: its acknowledgement, or its refusal.\<close>

definition answered :: "telnet \<Rightarrow> byte \<Rightarrow> byte \<Rightarrow> bool" where
  "answered t cmd opt \<longleftrightarrow>
     (\<exists>o' \<in> set opts. option o' = opt \<and> ack o' = cmd \<and> opt_states t (index o') \<noteq> REALLY_INACTIVE)
   \<or> cmd = WONT \<or> cmd = DONT"

lemma opts_ack: "o' \<in> set opts \<Longrightarrow> ack o' = WILL \<or> ack o' = DO"
  and opts_nak: "o' \<in> set opts \<Longrightarrow> nak o' = WONT \<or> nak o' = DONT"
  by (elim opts_cases; simp add: o_defs)+

lemma rec_opt_loop_none:
  "\<forall>o' \<in> set os. option o' = opt \<longrightarrow> ack o' \<noteq> cmd \<and> nak o' \<noteq> cmd \<Longrightarrow>
   rec_opt_loop env os cmd opt t =
     (if cmd = WILL \<or> cmd = DO then send_opt env (if cmd = WILL then DONT else WONT) opt t else t)"
  by (induction os) auto

lemma proc_rec_opt_again:
  assumes "activated t" "answered t cmd opt"
  shows "proc_rec_opt env' cmd opt (proc_rec_opt env cmd opt t)
    = logevent (ServerOption cmd opt) (proc_rec_opt env cmd opt t)"
proof -
  define u where "u = proc_rec_opt env cmd opt t"
  have u: "u = rec_opt_loop env opts cmd opt (logevent (ServerOption cmd opt) t)"
    by (simp add: u_def proc_rec_opt_def)
  have "rec_opt_loop env' opts cmd opt (logevent (ServerOption cmd opt) u) = logevent (ServerOption cmd opt) u"
  proof (rule rec_opt_loop_quiet)
    fix o' assume o': "o' \<in> set opts" "option o' = opt" "ack o' = cmd"
    then have "opt_states t (index o') \<noteq> REALLY_INACTIVE"
      using assms(2) opts_unique opts_ack[OF o'(1)] by (auto simp: answered_def)
    then show "opt_states (logevent (ServerOption cmd opt) u) (index o') = ACTIVE"
      using rec_opt_loop_found(1)[OF o'] assms(1) o'(1) by (simp add: u rec_ack_state)
  next
    fix o' assume o': "o' \<in> set opts" "option o' = opt" "nak o' = cmd"
    then show "opt_states (logevent (ServerOption cmd opt) u) (index o') \<in> {INACTIVE, REALLY_INACTIVE}"
      using rec_opt_loop_found(2)[OF o'] assms(1) rec_nak_state by (simp add: u)
  next
    show "(\<exists>o' \<in> set opts. option o' = opt \<and> ack o' = cmd) \<or> cmd \<notin> {WILL, DO}"
      using assms(2) by (auto simp: answered_def)
  qed
  then show ?thesis by (simp add: proc_rec_opt_def u)
qed

section \<open>Properties\<close>

text \<open>
  Claim C11: data that \<open>telnet_send\<close> writes arrives unchanged.  Whatever the bytes are
  (IAC and CR included), a receiver in its top-level state whose binary mode agrees with the
  sender's delivers exactly them to its terminal in one \<open>c_write\<close>, and its state is as
  before: the escaping of the sender and the receiving state machine are inverse.
\<close>

theorem telnet_data_transparent:
  "socket_open s \<longrightarrow> state r = TOP_LEVEL \<and> \<not> in_synch r
     \<and> (opt_states s (index o_we_bin) = ACTIVE \<longleftrightarrow> opt_states r (index o_they_bin) = ACTIVE) \<longrightarrow>
   do_telnet_read env' (sent_bytes s (snd (telnet_send env data s))) r
   = (if data = [] then r else c_write env' data r)"
  by (auto simp: sent_bytes_telnet_send do_telnet_read_def read_escapes)

definition sample_conf :: tel_conf where
  "sample_conf = \<lparr>termspeed = [51], termtype = [120], rfc_environ = False, environmt = [],
     remote_username = None, width = 80, height = 24, passive_telnet = False\<rparr>"

definition sample_telnet :: telnet where
  "sample_telnet = (telnet_alloc sample_conf (\<lambda>i. INACTIVE))\<lparr>socket_open := True\<rparr>"

lemmas sample_defs = sample_telnet_def sample_conf_def telnet_alloc_def

theorem telnet_data_transparent_witness:
  "delivered (outputs (do_telnet_read (\<lambda>_. 0)
     (sent_bytes sample_telnet (snd (telnet_send (\<lambda>_. 0) [104, 255, 13, 10, 0] sample_telnet))) sample_telnet))
   = [104, 255, 13, 10, 0]"
  using telnet_data_transparent[of sample_telnet sample_telnet "\<lambda>_. 0" "\<lambda>_. 0" "[104, 255, 13, 10, 0]"]
  by (simp add: sample_defs o_defs c_write_def emitters)

text \<open>
  Claim C12: the receiver does not depend on how the stream is cut into packets.  Receiving
  blocks one by one or their concatenation at once (under any answers of the socket and the
  front end) leads to the same state up to the backlog, the same protocol events in the same
  order (replies, log entries, mode changes), and the same bytes on the terminal.
\<close>

theorem telnet_receive_chunks:
  "let u = do_telnet_read env (concat chunks) t;
       v = foldl (\<lambda>s b. do_telnet_read env' b s) t chunks
   in core u = core v \<and> proto (outputs u) = proto (outputs v)
      \<and> delivered (outputs u) = delivered (outputs v)"
  using do_telnet_read_all_chunks[of env chunks t env'] by (simp add: Let_def sim_def)

text \<open>
  Claim C15: in every state that the operations reach from \<open>telnet_init\<close>, at most one of
  the two ENVIRON options is active, only these two are ever given up for good, local echo
  and local editing are the opposite of the server's ECHO and SGA whenever these are settled,
  and the sub-negotiation buffer holds no more bytes than are allocated.
\<close>

theorem telnet_invariant:
  "telnet_reachable t \<longrightarrow>
     \<not> (opt_states t (index o_oenv) = ACTIVE \<and> opt_states t (index o_nenv) = ACTIVE)
   \<and> (\<forall>i. opt_states t i = REALLY_INACTIVE \<longrightarrow> i = index o_oenv \<or> i = index o_nenv)
   \<and> (opt_states t (index o_echo) = ACTIVE \<longrightarrow> \<not> telnet_ldisc LD_ECHO t)
   \<and> (opt_states t (index o_echo) = INACTIVE \<longrightarrow> telnet_ldisc LD_ECHO t)
   \<and> (opt_states t (index o_they_sga) = ACTIVE \<longrightarrow> \<not> telnet_ldisc LD_EDIT t)
   \<and> (opt_states t (index o_they_sga) = INACTIVE \<longrightarrow> telnet_ldisc LD_EDIT t)
   \<and> length (sb_buf t) \<le> sb_size t"
  using reachable_ok[of t] by (auto simp: telnet_ok_defs telnet_ldisc_def o_defs)

theorem telnet_invariant_witness:
  "length (sb_buf (telnet_receive (\<lambda>_. 0) False [IAC, WILL, TELOPT_ECHO, IAC, SB, 7, 7, 7]
       (snd (telnet_init (\<lambda>_. 0) sample_conf (\<lambda>i. INACTIVE) None None)))) \<le>
   sb_size (telnet_receive (\<lambda>_. 0) False [IAC, WILL, TELOPT_ECHO, IAC, SB, 7, 7, 7]
       (snd (telnet_init (\<lambda>_. 0) sample_conf (\<lambda>i. INACTIVE) None None)))"
proof -
  let ?t = "snd (telnet_init (\<lambda>_. 0) sample_conf (\<lambda>i. INACTIVE) None None)"
  have "telnet_init (\<lambda>_. 0) sample_conf (\<lambda>i. INACTIVE) None None = (None, ?t)"
    by (simp add: telnet_init_def Let_def)
  then have "telnet_reachable ?t" by (rule telnet_reachable.start)
  moreover have "socket_open ?t"
    by (simp add: telnet_init_def Let_def sample_defs opts_def o_defs emitters)
  ultimately have "telnet_reachable (telnet_receive (\<lambda>_. 0) False
      [IAC, WILL, TELOPT_ECHO, IAC, SB, 7, 7, 7] ?t)"
    by (blast intro: telnet_reachable.step telnet_step.receive)
  from telnet_invariant[THEN mp, OF this] show ?thesis by blast
qed

text \<open>
  Once the session is activated, a refusal, or the acknowledgement of an option that has not
  been given up, that comes a second time at once has no effect beyond its log entry.
\<close>

theorem telnet_negotiation_settles:
  "activated t \<and> answered t cmd opt \<longrightarrow>
   (let u = proc_rec_opt env cmd opt t
    in proc_rec_opt env' cmd opt u = u\<lparr>outputs := outputs u @ [Log (ServerOption cmd opt)]\<rparr>)"
  using proc_rec_opt_again[of t cmd opt env' env] by (simp add: Let_def emitters)

theorem telnet_negotiation_settles_witness:
  "let t = sample_telnet\<lparr>activated := True\<rparr>; u = proc_rec_opt (\<lambda>_. 0) WILL TELOPT_ECHO t in
     outputs u \<noteq> outputs t \<and> opt_states u (index o_echo) = ACTIVE
   \<and> proc_rec_opt (\<lambda>_. 0) WILL TELOPT_ECHO u = u\<lparr>outputs := outputs u @ [Log (ServerOption WILL TELOPT_ECHO)]\<rparr>"
  using telnet_negotiation_settles[of "sample_telnet\<lparr>activated := True\<rparr>" WILL TELOPT_ECHO "\<lambda>_. 0" "\<lambda>_. 0"]
  by (simp add: Let_def answered_def opts_def o_defs sample_defs)
    (simp add: proc_rec_opt_def opts_def o_defs rec_ack_def activate_option_def option_side_effects_def emitters)

text \<open>
  The window size reaches the server.  When NAWS is active, the bytes that
  \<open>telnet_size\<close> writes fit its buffer of 24, and a telnet receiver reads them as one
  sub-negotiation of NAWS that holds width and height as two big-endian numbers, whatever
  bytes they contain (255 included), without delivering or answering anything.
\<close>

theorem telnet_size_frame:
  "socket_open s \<and> opt_states s (index o_naws) = ACTIVE \<and> state r = TOP_LEVEL
     \<and> 0 \<le> w \<and> w < 65536 \<and> 0 \<le> h \<and> h < 65536 \<longrightarrow>
   (let b = sent_bytes s (telnet_size env w h s); r' = do_telnet_read env' b r
    in length b \<le> 24 \<and> state r' = TOP_LEVEL \<and> outputs r' = outputs r \<and> sb_opt r' = TELOPT_NAWS
     \<and> (\<exists>a b c d. sb_buf r' = [a, b, c, d] \<and> msb_pair a b = w \<and> msb_pair c d = h))"
proof (intro impI)
  assume a: "socket_open s \<and> opt_states s (index o_naws) = ACTIVE \<and> state r = TOP_LEVEL
     \<and> 0 \<le> w \<and> w < 65536 \<and> 0 \<le> h \<and> h < 65536"
  then have b: "sent_bytes s (telnet_size env w h s) = naws_bytes w h"
    by (simp add: sent_bytes_def telnet_size_def emitters)
  obtain n where "read_loop env' (naws_bytes w h) (r, []) =
    (r\<lparr>sb_opt := TELOPT_NAWS, sb_buf := naws_data w h, sb_size := n, state := TOP_LEVEL\<rparr>, [])"
    using a read_subneg_frame[of r env' TELOPT_NAWS "naws_data w h" "[]"]
    by (auto simp: naws_bytes_frame process_subneg_def)
  then show "let b = sent_bytes s (telnet_size env w h s); r' = do_telnet_read env' b r
    in length b \<le> 24 \<and> state r' = TOP_LEVEL \<and> outputs r' = outputs r \<and> sb_opt r' = TELOPT_NAWS
     \<and> (\<exists>a b c d. sb_buf r' = [a, b, c, d] \<and> msb_pair a b = w \<and> msb_pair c d = h)"
    using a length_naws_bytes[of w h]
    by (simp add: b Let_def do_telnet_read_def naws_data_def msb_pair_size)
qed

theorem telnet_size_frame_witness:
  "let s = sample_telnet\<lparr>opt_states := (\<lambda>i. ACTIVE)\<rparr>
   in sb_opt (do_telnet_read (\<lambda>_. 0) (sent_bytes s (telnet_size (\<lambda>_. 0) 255 65535 s)) sample_telnet)
      = TELOPT_NAWS"
  using telnet_size_frame[of "sample_telnet\<lparr>opt_states := (\<lambda>i. ACTIVE)\<rparr>" sample_telnet 255 65535
      "\<lambda>_. 0" "\<lambda>_. 0"]
  by (simp add: Let_def sample_defs)

text \<open>
  The replies of \<open>process_subneg\<close> fit the memory allocated for them: the
  ENVIRON reply leaves 14 bytes of \<open>bsize\<close> unused, the TSPEED and TTYPE replies stay
  within their 20 bytes beyond the value.
\<close>

theorem telnet_replies_fit:
  "length (environ_bytes cf opt var val) + 14 = environ_bsize cf
   \<and> length (tspeed_bytes s) \<le> 20 + length s \<and> length (ttype_bytes s) \<le> 20 + length s"
  by (simp add: environ_bytes_length tspeed_bytes_def ttype_bytes_def)

text \<open>
  A value of the configuration is not escaped in a sub-negotiation.  A terminal
  speed that contains IAC SE closes the reply early: a telnet receiver takes the rest of the
  value for data of the session, here the two characters after it.
\<close>

theorem telnet_tspeed_unescaped:
  "delivered (outputs (do_telnet_read (\<lambda>_. 0) (tspeed_bytes [255, 240, 104, 105]) sample_telnet))
   = [104, 105]"
  by (simp add: tspeed_bytes_def do_telnet_read_def read_char_def subneg_addchar_def process_subneg_def
      sample_defs o_defs c_write_def emitters)

text \<open>
  Once the socket is closed it stays closed and is never used again: no operation
  writes to it, freezes it or closes it a second time.
\<close>

theorem telnet_closed_unused:
  "telnet_step t t' \<and> \<not> socket_open t \<longrightarrow>
     \<not> socket_open t' \<and> filter socket_event (outputs t') = filter socket_event (outputs t)"
  using closed_telnet_step[of t t'] by (auto simp: stays_closed_def)

theorem telnet_closed_unused_witness:
  "let t = telnet_closing (Some [101]) sample_telnet; t' = telnet_special (\<lambda>_. 0) TS_AYT t
   in socket_open sample_telnet \<and> \<not> socket_open t' \<and> filter socket_event (outputs t') = [SkClose]"
proof -
  let ?t = "telnet_closing (Some [101]) sample_telnet"
  have "\<not> socket_open ?t" by (simp add: telnet_closing_def sample_defs emitters)
  then have "filter socket_event (outputs (telnet_special (\<lambda>_. 0) TS_AYT ?t)) = filter socket_event (outputs ?t)
      \<and> \<not> socket_open (telnet_special (\<lambda>_. 0) TS_AYT ?t)"
    using telnet_closed_unused[of ?t "telnet_special (\<lambda>_. 0) TS_AYT ?t"] telnet_step.special by blast
  then show ?thesis by (simp add: Let_def telnet_closing_def sample_defs emitters)
qed

end
