(* ===== verification/Telnet_Replies.thy ===== *)
theory Telnet_Replies
  imports Telnet_Props
begin

text \<open>
  The option negotiation of \<open>putty/telnet.c\<close> over any sequence of received commands: how many
  commands the client writes, counted against the changes of mind of the server.
\<close>

section \<open>Counting replies\<close>

text \<open>
  The option commands that were written, and how many more than its answers the client may
  still write on its own: the three minimum options at the first activation, one of the two
  ENVIRON options given up for the other each, and OLD_ENVIRON after NEW_ENVIRON is refused.
\<close>

fun option_command :: "event \<Rightarrow> bool" where
  "option_command (SkWrite [a, cmd, opt]) \<longleftrightarrow> a = IAC \<and> cmd \<in> {WILL, WONT, DO, DONT}"
| "option_command e \<longleftrightarrow> False"

definition replies :: "telnet \<Rightarrow> nat" where
  "replies t = length (filter option_command (outputs t))"

definition spare :: "telnet \<Rightarrow> nat" where
  "spare t = (if activated t then 0 else 3)
     + (if opt_states t OPTINDEX_OENV = REALLY_INACTIVE then 0 else 1)
     + (if opt_states t OPTINDEX_NENV = REALLY_INACTIVE then 0 else 1)
     + (if opt_states t OPTINDEX_NENV = REQUESTED then 1 else 0)"

definition credit :: "telnet \<Rightarrow> nat" where
  "credit t = replies t + spare t"

text \<open>
  What the server said last about each option in each direction (\<open>True\<close> for \<open>WILL\<close> and
  \<open>WONT\<close>), and the number of its commands that say something else than that.
\<close>

type_synonym stance = "byte \<times> bool \<Rightarrow> byte option"

definition topic :: "byte \<Rightarrow> byte \<Rightarrow> byte \<times> bool" where
  "topic cmd opt = (opt, cmd = WILL \<or> cmd = WONT)"

fun flips :: "stance \<Rightarrow> (byte \<times> byte) list \<Rightarrow> nat" where
  "flips said [] = 0"
| "flips said ((cmd, opt) # cs) =
     (if said (topic cmd opt) = Some cmd then 0 else 1) + flips (said(topic cmd opt \<mapsto> cmd)) cs"

text \<open>
  The offers and requests that are refused every time: of an option that is not in the
  table or has been given up.
\<close>

definition unwelcome :: "telnet \<Rightarrow> byte \<Rightarrow> byte \<Rightarrow> bool" where
  "unwelcome t cmd opt \<longleftrightarrow> (cmd = WILL \<or> cmd = DO) \<and>
     (\<forall>o' \<in> set opts. option o' = opt \<and> ack o' = cmd \<longrightarrow> opt_states t (index o') = REALLY_INACTIVE)"

fun proc_all :: "env \<Rightarrow> (byte \<times> byte) list \<Rightarrow> telnet \<Rightarrow> telnet" where
  "proc_all env [] t = t"
| "proc_all env ((cmd, opt) # cs) t = proc_all env cs (proc_rec_opt env cmd opt t)"

fun refusals :: "env \<Rightarrow> telnet \<Rightarrow> (byte \<times> byte) list \<Rightarrow> nat" where
  "refusals env t [] = 0"
| "refusals env t ((cmd, opt) # cs) =
     (if unwelcome t cmd opt then 1 else 0) + refusals env (proc_rec_opt env cmd opt t) cs"

text \<open>What the client holds of an option agrees with what the server said last.\<close>

definition heard :: "stance \<Rightarrow> telnet \<Rightarrow> bool" where
  "heard said t \<longleftrightarrow> (\<forall>o' \<in> set opts.
     (said (topic (ack o') (option o')) = Some (ack o') \<longrightarrow> opt_states t (index o') \<noteq> INACTIVE) \<and>
     (said (topic (ack o') (option o')) = Some (nak o') \<longrightarrow> opt_states t (index o') \<noteq> ACTIVE))"

lemma replies_emit [simp]:
  "replies (emit e t) = replies t + (if option_command e then 1 else 0)"
  by (simp add: replies_def emit_def)

lemma replies_upd [simp]:
  "replies (set_opt i s t) = replies t" "replies (logevent l t) = replies t"
  "replies (t\<lparr>bufsize := n\<rparr>) = replies t" "replies (t\<lparr>activated := a\<rparr>) = replies t"
  "replies (t\<lparr>echoing := a\<rparr>) = replies t" "replies (t\<lparr>editing := a\<rparr>) = replies t"
  "replies (t\<lparr>term_width := w, term_height := h\<rparr>) = replies t"
  by (simp_all add: replies_def set_opt_def logevent_def emit_def)

lemma replies_write [simp]: "replies (sk_write env b t) = replies t + (if option_command (SkWrite b) then 1 else 0)"
  by (simp add: sk_write_def Let_def)

lemma replies_send [simp]:
  "cmd \<in> {WILL, WONT, DO, DONT} \<Longrightarrow> replies (send_opt env cmd opt t) = replies t + 1"
  by (simp add: send_opt_def)

lemma replies_size [simp]: "replies (telnet_size env w h t) = replies t"
  by (simp add: telnet_size_def Let_def naws_bytes_def double_iac_def)

lemma spare_upd [simp]:
  "spare (emit e t) = spare t" "spare (send_opt env c d t) = spare t"
  "spare (t\<lparr>echoing := a\<rparr>) = spare t" "spare (t\<lparr>editing := a\<rparr>) = spare t"
  "spare (telnet_size env w h t) = spare t"
  by (simp_all add: spare_def)

lemma credit_upd [simp]:
  "credit (emit e t) = credit t + (if option_command e then 1 else 0)"
  "credit (t\<lparr>echoing := a\<rparr>) = credit t" "credit (t\<lparr>editing := a\<rparr>) = credit t"
  "credit (telnet_size env w h t) = credit t" "credit (logevent l t) = credit t"
  "cmd \<in> {WILL, WONT, DO, DONT} \<Longrightarrow> credit (send_opt env cmd opt t) = credit t + 1"
  by (simp_all add: credit_def) (simp add: spare_def)

lemma credit_set_opt:
  "opt_states t i \<noteq> REALLY_INACTIVE \<Longrightarrow> s \<noteq> REQUESTED \<or> i \<noteq> OPTINDEX_NENV \<Longrightarrow> credit (set_opt i s t) \<le> credit t"
  by (auto simp: credit_def spare_def)

lemma credit_minimum:
  "o' \<in> {o_echo, o_we_sga, o_they_sga} \<Longrightarrow> credit (request_minimum env o' t) \<le> credit t + 1"
  by (auto simp: request_minimum_def credit_def spare_def o_defs)

lemma activated_minimum [simp]: "activated (request_minimum env o' t) = activated t"
  by (simp add: request_minimum_def)

lemma credit_side_effects: "credit (option_side_effects env o' e t) \<le> credit t"
proof -
  define v where "v = (if ldisc (switch_mode o' e t) then emit EchoEditUpdate (switch_mode o' e t) else switch_mode o' e t)"
  have v: "credit v = credit t" "activated v = activated t" by (simp_all add: v_def switch_mode_def)
  have s: "option_side_effects env o' e t = (if \<not> activated v
         then (request_minimum env o_they_sga (request_minimum env o_we_sga
                (request_minimum env o_echo v)))\<lparr>activated := True\<rparr> else v)"
    by (simp add: option_side_effects_def switch_mode_def v_def Let_def)
  let ?w = "request_minimum env o_they_sga (request_minimum env o_we_sga (request_minimum env o_echo v))"
  have "credit ?w \<le> credit v + 3"
    using credit_minimum [of o_they_sga env "request_minimum env o_we_sga (request_minimum env o_echo v)"]
      credit_minimum [of o_we_sga env "request_minimum env o_echo v"] credit_minimum [of o_echo env v] by simp
  moreover have "credit (?w\<lparr>activated := True\<rparr>) + 3 = credit ?w" if "\<not> activated v"
    using that by (simp add: credit_def spare_def)
  ultimately show ?thesis using v by (auto simp: s)
qed

lemma credit_deactivate:
  assumes "o' = o_oenv \<or> o' = o_nenv"
  shows "credit (deactivate_option env o' t) \<le> credit t"
  using assms by (auto simp: deactivate_option_def Let_def credit_def spare_def o_defs)

lemma credit_activate:
  assumes "o' \<in> set opts"
  shows "credit (activate_option env o' t) \<le> credit t"
proof -
  have "credit (deactivate_option env (if option o' = TELOPT_NEW_ENVIRON then o_oenv else o_nenv) u) \<le> credit u" for u
    by (rule credit_deactivate) simp
  with credit_side_effects show ?thesis
    unfolding activate_option_def Let_def by (smt (verit) credit_upd(4) le_trans)
qed

lemma credit_refused:
  assumes "o' \<in> set opts" and "opt_states t (index o') = REQUESTED"
  shows "credit (refused_option env o' (set_opt (index o') INACTIVE t)) \<le> credit t"
proof -
  let ?u = "set_opt (index o') INACTIVE t"
  let ?v = "if send o' = WILL \<and> option o' = TELOPT_NEW_ENVIRON \<and> opt_states ?u (index o_oenv) = INACTIVE
      then set_opt (index o_oenv) REQUESTED (send_opt env WILL TELOPT_OLD_ENVIRON ?u) else ?u"
  have "credit ?v \<le> credit t"
    using assms by (elim opts_cases; auto simp: credit_def spare_def o_defs)
  with credit_side_effects [of env o' False ?v] show ?thesis
    unfolding refused_option_def Let_def by (meson le_trans)
qed

text \<open>Beyond its own option, a command only sets others to requested or given up.\<close>

definition soft :: "telnet \<Rightarrow> telnet \<Rightarrow> bool" where
  "soft t u \<longleftrightarrow> (\<forall>i. opt_states u i = opt_states t i \<or> opt_states u i \<in> {REQUESTED, REALLY_INACTIVE})"

lemma soft_refl [simp]: "soft t t" by (simp add: soft_def)

lemma soft_same [simp]:
  "soft t (emit e u) = soft t u" "soft t (logevent l u) = soft t u" "soft t (send_opt env c d u) = soft t u"
  "soft t (u\<lparr>echoing := a\<rparr>) = soft t u" "soft t (u\<lparr>editing := a\<rparr>) = soft t u"
  "soft t (u\<lparr>activated := a\<rparr>) = soft t u" "soft t (telnet_size env w h u) = soft t u"
  by (simp_all add: soft_def)

lemma soft_set: "soft t u \<Longrightarrow> s \<in> {REQUESTED, REALLY_INACTIVE} \<Longrightarrow> soft t (set_opt i s u)"
  by (auto simp: soft_def)

lemma soft_minimum: "soft t u \<Longrightarrow> soft t (request_minimum env o' u)"
  by (simp add: request_minimum_def soft_set)

lemma soft_side_effects: "soft t u \<Longrightarrow> soft t (option_side_effects env o' e u)"
  by (simp add: option_side_effects_def Let_def soft_minimum)

lemma soft_deactivate: "soft t u \<Longrightarrow> soft t (deactivate_option env o' u)"
  by (simp add: deactivate_option_def Let_def soft_set)

lemma soft_activate: "soft t u \<Longrightarrow> soft t (activate_option env o' u)"
  by (simp add: activate_option_def Let_def soft_side_effects soft_deactivate)

lemma soft_refused: "soft t u \<Longrightarrow> soft t (refused_option env o' u)"
  by (simp add: refused_option_def Let_def soft_side_effects soft_set)

lemma heard_soft: "heard said t \<Longrightarrow> soft t u \<Longrightarrow> heard said u"
  unfolding heard_def soft_def by (metis insertE opt_state.distinct singletonD)

lemma heard_same: "opt_states u = opt_states t \<Longrightarrow> heard said u = heard said t"
  by (simp add: heard_def)

lemma topic_nak: "o' \<in> set opts \<Longrightarrow> topic (nak o') (option o') = topic (ack o') (option o')"
  by (elim opts_cases; simp add: topic_def o_defs)

lemma topic_unique: "o1 \<in> set opts \<Longrightarrow> o2 \<in> set opts \<Longrightarrow>
    topic (ack o1) (option o1) = topic (ack o2) (option o2) \<Longrightarrow> o1 = o2"
  by (elim opts_cases; simp add: topic_def o_defs)

lemma index_unique: "o1 \<in> set opts \<Longrightarrow> o2 \<in> set opts \<Longrightarrow> index o1 = index o2 \<Longrightarrow> o1 = o2"
  by (elim opts_cases; simp add: o_defs)

lemma ack_not_nak: "o' \<in> set opts \<Longrightarrow> ack o' \<noteq> nak o'"
  by (elim opts_cases; simp add: o_defs)

lemma heard_settled:
  assumes "heard said t" and "o' \<in> set opts"
    and "c = ack o' \<and> s \<noteq> INACTIVE \<or> c = nak o' \<and> s \<noteq> ACTIVE"
  shows "heard (said(topic (ack o') (option o') \<mapsto> c)) (set_opt (index o') s t)"
  unfolding heard_def
proof (intro ballI)
  fix p assume p: "p \<in> set opts"
  show "((said(topic (ack o') (option o') \<mapsto> c)) (topic (ack p) (option p)) = Some (ack p) \<longrightarrow>
        opt_states (set_opt (index o') s t) (index p) \<noteq> INACTIVE) \<and>
      ((said(topic (ack o') (option o') \<mapsto> c)) (topic (ack p) (option p)) = Some (nak p) \<longrightarrow>
        opt_states (set_opt (index o') s t) (index p) \<noteq> ACTIVE)"
  proof (cases "p = o'")
    case True
    with assms(3) ack_not_nak [OF assms(2)] show ?thesis by auto
  next
    case False
    with topic_unique [OF p assms(2)] index_unique [OF p assms(2)] assms(1) p show ?thesis
      by (auto simp: heard_def)
  qed
qed

lemma heard_settled_here:
  assumes "heard said t" and "o' \<in> set opts"
    and "c = ack o' \<and> opt_states t (index o') \<noteq> INACTIVE \<or> c = nak o' \<and> opt_states t (index o') \<noteq> ACTIVE"
  shows "heard (said(topic (ack o') (option o') \<mapsto> c)) t"
  using heard_settled [OF assms] heard_same [of "set_opt (index o') (opt_states t (index o')) t" t] by simp

lemma opts_codes:
  "o' \<in> set opts \<Longrightarrow> send o' \<in> {WILL, WONT, DO, DONT} \<and> nsend o' \<in> {WILL, WONT, DO, DONT}"
  by (elim opts_cases; simp add: o_defs)

lemma rec_ack_step:
  assumes "heard said t" and "o' \<in> set opts"
  shows "credit (rec_ack env o' t) \<le> credit t
      + (if said (topic (ack o') (option o')) = Some (ack o') then 0 else 1)
      + (if opt_states t (index o') = REALLY_INACTIVE then 1 else 0)"
    and "heard (said(topic (ack o') (option o') \<mapsto> ack o')) (rec_ack env o' t)"
proof -
  note codes = opts_codes [OF assms(2)]
  have I: "said (topic (ack o') (option o')) \<noteq> Some (ack o')" if "opt_states t (index o') = INACTIVE"
    using assms that by (auto simp: heard_def)
  let ?u = "send_opt env (send o') (option o') (set_opt (index o') ACTIVE t)"
  have "credit (activate_option env o' (set_opt (index o') ACTIVE t)) \<le> credit t"
    if "opt_states t (index o') = REQUESTED"
    using credit_activate [OF assms(2)] credit_set_opt [of t "index o'" ACTIVE] that
    by (auto intro: le_trans)
  moreover have "credit (activate_option env o' ?u) \<le> credit t + 1" if "opt_states t (index o') = INACTIVE"
    using credit_activate [OF assms(2), of env ?u] credit_set_opt [of t "index o'" ACTIVE] that codes by simp
  ultimately show "credit (rec_ack env o' t) \<le> credit t
      + (if said (topic (ack o') (option o')) = Some (ack o') then 0 else 1)
      + (if opt_states t (index o') = REALLY_INACTIVE then 1 else 0)"
    using I codes by (cases "opt_states t (index o')") (auto simp: rec_ack_def)
  have h: "heard (said(topic (ack o') (option o') \<mapsto> ack o')) (set_opt (index o') ACTIVE t)"
    using heard_settled [OF assms] by simp
  have "soft (set_opt (index o') ACTIVE t) (activate_option env o' u)"
    if "u = set_opt (index o') ACTIVE t \<or> u = ?u" for u
    using that by (auto intro!: soft_activate)
  with h have "heard (said(topic (ack o') (option o') \<mapsto> ack o')) (activate_option env o' u)"
    if "u = set_opt (index o') ACTIVE t \<or> u = ?u" for u using that heard_soft by blast
  moreover have "heard (said(topic (ack o') (option o') \<mapsto> ack o')) t" if "opt_states t (index o') \<noteq> INACTIVE"
    using heard_settled_here [OF assms] that by simp
  ultimately show "heard (said(topic (ack o') (option o') \<mapsto> ack o')) (rec_ack env o' t)"
    by (cases "opt_states t (index o')")
      (auto simp: rec_ack_def heard_same [OF opt_states_send_opt(1)])
qed

lemma rec_nak_step:
  assumes "heard said t" and "o' \<in> set opts"
  shows "credit (rec_nak env o' t) \<le> credit t
      + (if said (topic (ack o') (option o')) = Some (nak o') then 0 else 1)"
    and "heard (said(topic (ack o') (option o') \<mapsto> nak o')) (rec_nak env o' t)"
proof -
  note codes = opts_codes [OF assms(2)]
  have A: "said (topic (ack o') (option o')) \<noteq> Some (nak o')" if "opt_states t (index o') = ACTIVE"
    using assms that by (auto simp: heard_def)
  let ?s = "set_opt (index o') INACTIVE t"
  let ?u = "send_opt env (nsend o') (option o') ?s"
  have "credit (option_side_effects env o' False ?u) \<le> credit t + 1" if "opt_states t (index o') = ACTIVE"
    using credit_side_effects [of env o' False ?u] credit_set_opt [of t "index o'" INACTIVE] that codes by simp
  with credit_refused [OF assms(2)] show "credit (rec_nak env o' t) \<le> credit t
      + (if said (topic (ack o') (option o')) = Some (nak o') then 0 else 1)"
    using A by (cases "opt_states t (index o')") (auto simp: rec_nak_def intro: le_SucI)
  have h: "heard (said(topic (ack o') (option o') \<mapsto> nak o')) ?s"
    using heard_settled [OF assms] by simp
  have "heard (said(topic (ack o') (option o') \<mapsto> nak o')) (refused_option env o' ?s)"
    by (rule heard_soft [OF h]) (rule soft_refused, simp)
  moreover have "heard (said(topic (ack o') (option o') \<mapsto> nak o')) (option_side_effects env o' False ?u)"
    by (rule heard_soft [OF h]) (rule soft_side_effects, simp)
  moreover have "heard (said(topic (ack o') (option o') \<mapsto> nak o')) t" if "opt_states t (index o') \<noteq> ACTIVE"
    using heard_settled_here [OF assms] that by simp
  ultimately show "heard (said(topic (ack o') (option o') \<mapsto> nak o')) (rec_nak env o' t)"
    by (cases "opt_states t (index o')") (auto simp: rec_nak_def)
qed

lemma heard_other:
  assumes "heard said t" and "\<forall>o' \<in> set opts. option o' = opt \<longrightarrow> ack o' \<noteq> cmd \<and> nak o' \<noteq> cmd"
  shows "heard (said(topic cmd opt \<mapsto> cmd)) t"
  unfolding heard_def
proof (intro ballI)
  fix p assume p: "p \<in> set opts"
  let ?said = "said(topic cmd opt \<mapsto> cmd)" and ?k = "topic (ack p) (option p)"
  have "?said ?k = Some c \<longrightarrow> said ?k = Some c \<or> option p = opt \<and> c = cmd" for c
    by (simp add: topic_def)
  with assms p show "(?said ?k = Some (ack p) \<longrightarrow> opt_states t (index p) \<noteq> INACTIVE) \<and>
      (?said ?k = Some (nak p) \<longrightarrow> opt_states t (index p) \<noteq> ACTIVE)"
    unfolding heard_def by metis
qed

lemma heard_log [simp]: "heard said (logevent l t) = heard said t"
  by (simp add: heard_def)

lemma proc_rec_opt_step:
  assumes "heard said t"
  shows "credit (proc_rec_opt env cmd opt t) \<le> credit t
      + (if said (topic cmd opt) = Some cmd then 0 else 1) + (if unwelcome t cmd opt then 1 else 0) \<and>
    heard (said(topic cmd opt \<mapsto> cmd)) (proc_rec_opt env cmd opt t)"
proof -
  let ?t = "logevent (ServerOption cmd opt) t"
  have h: "heard said ?t" using assms by simp
  consider (ack) o' where "o' \<in> set opts" "option o' = opt" "ack o' = cmd"
    | (nak) o' where "o' \<in> set opts" "option o' = opt" "nak o' = cmd"
    | (none) "\<forall>o' \<in> set opts. option o' = opt \<longrightarrow> ack o' \<noteq> cmd \<and> nak o' \<noteq> cmd" by blast
  then show ?thesis
  proof cases
    case ack
    have "unwelcome t cmd opt" if g: "opt_states t (index o') = REALLY_INACTIVE"
      unfolding unwelcome_def
    proof (intro conjI ballI impI)
      show "cmd = WILL \<or> cmd = DO" using opts_ack [OF ack(1)] ack(3) by simp
      fix p assume "p \<in> set opts" "option p = opt \<and> ack p = cmd"
      then have "p = o'" using opts_unique [of p o'] ack by simp
      then show "opt_states t (index p) = REALLY_INACTIVE" using g by simp
    qed
    with rec_ack_step [OF h ack(1), of env] ack show ?thesis
      by (auto simp: proc_rec_opt_def rec_opt_loop_found(1) [OF ack] split: if_splits)
  next
    case nak
    with rec_nak_step [OF h nak(1), of env] topic_nak [OF nak(1)] show ?thesis
      by (auto simp: proc_rec_opt_def rec_opt_loop_found(2) [OF nak])
  next
    case none
    then have "cmd = WILL \<or> cmd = DO \<longrightarrow> unwelcome t cmd opt" by (auto simp: unwelcome_def)
    then show ?thesis
      using heard_other [OF h none]
      by (auto simp: proc_rec_opt_def rec_opt_loop_none [OF none] heard_same [OF opt_states_send_opt(1)])
  qed
qed

lemma proc_all_credit:
  "heard said t \<Longrightarrow> credit (proc_all env cs t) \<le> credit t + flips said cs + refusals env t cs"
proof (induction env cs t arbitrary: said rule: proc_all.induct)
  case (2 env cmd opt cs t)
  from proc_rec_opt_step [OF 2(2), of env cmd opt] 2(1) [of "said(topic cmd opt \<mapsto> cmd)"]
  have "credit (proc_all env cs (proc_rec_opt env cmd opt t)) \<le> credit (proc_rec_opt env cmd opt t)
      + flips (said(topic cmd opt \<mapsto> cmd)) cs + refusals env (proc_rec_opt env cmd opt t) cs" by blast
  with proc_rec_opt_step [OF 2(2), of env cmd opt] show ?case
    unfolding proc_all.simps flips.simps refusals.simps by linarith
qed simp

section \<open>The negotiation does not loop\<close>

text \<open>
  Claim C32: in any session, the option commands the client writes while it processes any sequence
  of option commands from the server are at most as many as those that contradict what the
  server said last about the same option in the same direction (its first command about
  each counts), plus the offers and requests it refuses every time because the option is
  unknown or given up, plus six at most that it writes on its own.  Repeating a command costs
  the server nothing and gets it nothing: an exchange can only go on as long as the server
  keeps contradicting itself or keeps offering what is refused.
\<close>

theorem telnet_replies_bounded:
  "replies (proc_all env cs t) \<le> replies t + flips (\<lambda>_. None) cs + refusals env t cs + 6"
proof -
  have "heard (\<lambda>_. None) t" by (simp add: heard_def)
  from proc_all_credit [OF this, of env cs] have
    "credit (proc_all env cs t) \<le> credit t + flips (\<lambda>_. None) cs + refusals env t cs" .
  moreover have "spare t \<le> 6" by (simp add: spare_def)
  ultimately show ?thesis by (simp add: credit_def)
qed

end
