(* ===== verification/Int64.thy ===== *)
theory Int64
  imports Misc
begin

text \<open>
  The 64-bit numbers of \<open>putty/int64.c\<close>: pairs of 32-bit halves (the \<open>unsigned long\<close>
  of the Windows build), their arithmetic and their decimal form, and the 64-bit word that a
  pair stands for.
\<close>

section \<open>The operations\<close>

record uint64 =
  hi :: "32 word"
  lo :: "32 word"

definition uint64_div10 :: "uint64 \<Rightarrow> uint64 \<times> 32 word" where
  "uint64_div10 x =
     (let yhi = hi x div 10; ylo = lo x div 10; rem = lo x mod 10;
          r2 = hi x mod 10;
          ylo1 = ylo + r2 * 429496729;
          rem1 = rem + r2 * 6
      in (\<lparr>hi = yhi, lo = ylo1 + rem1 div 10\<rparr>, rem1 mod 10))"

definition nonzero :: "uint64 \<Rightarrow> bool" where
  "nonzero x \<longleftrightarrow> hi x \<noteq> 0 \<or> lo x \<noteq> 0"

text \<open>\<open>buf\<close> holds the characters written so far; \<open>start\<close> is 20 less their number.\<close>

function decimal_loop :: "uint64 \<Rightarrow> byte list \<Rightarrow> byte list option" where
  "decimal_loop x buf =
     (case uint64_div10 x of (x', d) \<Rightarrow>
        if \<not> length buf < 20 then None
        else let buf' = ucast (d + 48) # buf
             in if nonzero x' then decimal_loop x' buf' else Some buf')"
  by pat_completeness auto
termination by (relation "measure (\<lambda>(x, buf). 20 - length buf)") auto

declare decimal_loop.simps [simp del]

definition uint64_decimal :: "uint64 \<Rightarrow> byte list option" where
  "uint64_decimal x = decimal_loop x []"

definition uint64_make :: "32 word \<Rightarrow> 32 word \<Rightarrow> uint64" where
  "uint64_make h l = \<lparr>hi = h, lo = l\<rparr>"

definition uint64_add :: "uint64 \<Rightarrow> uint64 \<Rightarrow> uint64" where
  "uint64_add x y =
     (let l = lo x + lo y in \<lparr>hi = hi x + (hi y + (if l < lo y then 1 else 0)), lo = l\<rparr>)"

definition uint64_add32 :: "uint64 \<Rightarrow> 32 word \<Rightarrow> uint64" where
  "uint64_add32 x y = uint64_add x \<lparr>hi = 0, lo = y\<rparr>"

definition uint64_compare :: "uint64 \<Rightarrow> uint64 \<Rightarrow> int" where
  "uint64_compare x y =
     (if hi x \<noteq> hi y then (if hi x < hi y then - 1 else 1)
      else if lo x \<noteq> lo y then (if lo x < lo y then - 1 else 1)
      else 0)"

definition uint64_subtract :: "uint64 \<Rightarrow> uint64 \<Rightarrow> uint64" where
  "uint64_subtract x y =
     (let l = lo x - lo y
      in \<lparr>hi = hi x - hi y - (if l > not (lo y) then 1 else 0), lo = l\<rparr>)"

text \<open>The shifts: \<open>None\<close> where C leaves a shift by at least the width undefined.\<close>

definition uint64_shift_right :: "uint64 \<Rightarrow> nat \<Rightarrow> uint64 option" where
  "uint64_shift_right x shift =
     (if shift = 0 \<or> shift \<ge> 64 then None
      else if shift < 32
      then Some \<lparr>hi = drop_bit shift (hi x),
            lo = or (drop_bit shift (lo x)) (push_bit (32 - shift) (hi x))\<rparr>
      else Some \<lparr>hi = 0, lo = drop_bit (shift - 32) (hi x)\<rparr>)"

definition uint64_shift_left :: "uint64 \<Rightarrow> nat \<Rightarrow> uint64 option" where
  "uint64_shift_left x shift =
     (if shift = 0 \<or> shift \<ge> 64 then None
      else if shift < 32
      then Some \<lparr>hi = or (push_bit shift (hi x)) (drop_bit (32 - shift) (lo x)),
            lo = push_bit shift (lo x)\<rparr>
      else Some \<lparr>hi = push_bit (shift - 32) (lo x), lo = 0\<rparr>)"

definition is_digit :: "byte \<Rightarrow> bool" where "is_digit c \<longleftrightarrow> 48 \<le> c \<and> c \<le> 57"

fun from_decimal_loop :: "uint64 \<Rightarrow> byte list \<Rightarrow> uint64 option" where
  "from_decimal_loop ret [] = Some ret"
| "from_decimal_loop ret (c # str) =
     (if is_digit c
      then (case (uint64_shift_left ret 3, uint64_shift_left ret 1) of
              (Some r8, Some r2) \<Rightarrow> from_decimal_loop (uint64_add32 (uint64_add r8 r2) (ucast c - 48)) str
            | _ \<Rightarrow> None)
      else Some ret)"

definition uint64_from_decimal :: "byte list \<Rightarrow> uint64 option" where
  "uint64_from_decimal str = from_decimal_loop \<lparr>hi = 0, lo = 0\<rparr> str"

section \<open>The value\<close>

definition val64 :: "uint64 \<Rightarrow> 64 word" where
  "val64 x = word_cat (hi x) (lo x)"

lemma bit_val64: "bit (val64 x) n \<longleftrightarrow> n < 64 \<and> (if n < 32 then bit (lo x) n else bit (hi x) (n - 32))"
  by (auto simp: val64_def bit_word_cat_iff)

lemma uint_val64: "uint (val64 x) = uint (hi x) * 2 ^ 32 + uint (lo x)"
proof -
  have l: "uint (lo x) < 4294967296" "0 \<le> uint (lo x)"
    using unsigned_less[of "lo x", where ?'a = int] by simp_all
  have h: "uint (hi x) < 4294967296" "0 \<le> uint (hi x)"
    using unsigned_less[of "hi x", where ?'a = int] by simp_all
  have e: "uint (push_bit 32 (ucast (hi x) :: 64 word)) = uint (hi x) * 2 ^ 32"
    using h by (simp only: unsigned_push_bit_eq unsigned_ucast_eq) (simp add: take_bit_eq_mod push_bit_eq_mult)
  show ?thesis
    unfolding val64_def word_cat_eq using l h
    by (simp add: uint_word_ariths e unsigned_ucast_eq take_bit_eq_mod)
qed

lemma val64_inject: "val64 x = val64 y \<longleftrightarrow> x = y"
proof
  assume "val64 x = val64 y"
  then have b: "bit (val64 x) n = bit (val64 y) n" for n by simp
  have "lo x = lo y"
  proof (rule bit_word_eqI)
    fix n assume "n < LENGTH(32)"
    then show "bit (lo x) n = bit (lo y) n" using b[of n] by (simp add: bit_val64)
  qed
  moreover have "hi x = hi y"
  proof (rule bit_word_eqI)
    fix n assume "n < LENGTH(32)"
    then show "bit (hi x) n = bit (hi y) n" using b[of "n + 32"] by (simp add: bit_val64)
  qed
  ultimately show "x = y" by simp
qed simp

lemma div10: "uint (val64 (fst (uint64_div10 x))) = uint (val64 x) div 10
   \<and> uint (snd (uint64_div10 x)) = uint (val64 x) mod 10"
proof -
  define p where "p = uint (hi x) div 10"
  define q where "q = uint (hi x) mod 10"
  define a where "a = uint (lo x) div 10"
  define b where "b = uint (lo x) mod 10"
  define r where "r = b + 6 * q"
  have l: "uint (lo x) = 10 * a + b" and h: "uint (hi x) = 10 * p + q"
    by (simp_all add: a_def b_def p_def q_def)
  have "uint (lo x) < 4294967296" "0 \<le> uint (lo x)" "uint (hi x) < 4294967296" "0 \<le> uint (hi x)"
    using unsigned_less[of "lo x", where ?'a = int] unsigned_less[of "hi x", where ?'a = int] by simp_all
  moreover have q: "0 \<le> q" "q < 10" and b: "0 \<le> b" "b < 10" by (simp_all add: q_def b_def)
  moreover have r: "0 \<le> r" "r < 64" using q b by (simp_all add: r_def)
  ultimately have a: "0 \<le> a" "a < 429496730" and p: "0 \<le> p" "p < 429496730" using l h by linarith+
  have rd: "0 \<le> r div 10" "r div 10 \<le> 6" using r by linarith+
  have al: "10 * (a + 429496729 * q) + r \<le> 42949672959"
  proof -
    have "uint (lo x) \<le> 4294967295" using unsigned_less[of "lo x", where ?'a = int] by simp
    moreover have "q \<le> 9" using q by simp
    ultimately show ?thesis using l by (simp add: r_def algebra_simps)
  qed
  have "10 * (r div 10) \<le> r" by simp
  then have "10 * (a + 429496729 * q + r div 10) \<le> 42949672959"
    using al unfolding distrib_left by (rule add_left_mono[THEN order_trans])
  then have ylo: "a + 429496729 * q + r div 10 < 4294967296" by simp
  have N: "uint (val64 x) = 10 * (p * 4294967296 + a + 429496729 * q) + r"
    by (simp add: uint_val64 l h r_def)
  have s: "uint (hi x div 10) = p" "uint (lo x div 10) = a" "uint (lo x mod 10) = b" "uint (hi x mod 10) = q"
    by (simp_all add: uint_div uint_mod p_def q_def a_def b_def)
  have rem: "uint (lo x mod 10 + (hi x mod 10) * 6) = r"
    using q b by (simp add: uint_word_ariths s r_def)
  then have rems: "uint ((lo x mod 10 + (hi x mod 10) * 6) div 10) = r div 10"
    "uint ((lo x mod 10 + (hi x mod 10) * 6) mod 10) = r mod 10"
    by (simp_all add: uint_div uint_mod)
  have "uint (lo x div 10 + hi x mod 10 * 429496729) = a + 429496729 * q"
    using ylo rd a q by (simp add: uint_word_ariths s)
  then have "uint (lo x div 10 + hi x mod 10 * 429496729 + (lo x mod 10 + (hi x mod 10) * 6) div 10)
      = a + 429496729 * q + r div 10"
    using ylo rd a q by (simp add: uint_word_ariths rems)
  then have "uint (val64 (fst (uint64_div10 x))) = p * 4294967296 + (a + 429496729 * q + r div 10)"
    by (simp add: uint_val64 uint64_div10_def Let_def s)
  also have "\<dots> = uint (val64 x) div 10" unfolding N by simp
  moreover have "uint (val64 x) mod 10 = r mod 10" unfolding N by (rule mod_mult_self4)
  then have "uint (snd (uint64_div10 x)) = uint (val64 x) mod 10"
    using rems(2) by (simp add: uint64_div10_def Let_def)
  ultimately show ?thesis by simp
qed

lemma uint32_bounds: "0 \<le> uint (w :: 32 word)" "uint (w :: 32 word) < 4294967296"
  using unsigned_less[of w, where ?'a = int] by simp_all

lemma glue_mod:
  assumes "0 \<le> r" "r < 4294967296"
  shows "(A * 4294967296 + r) mod 18446744073709551616 = (A mod 4294967296) * 4294967296 + (r :: int)"
proof -
  have "(A * 4294967296 + r) mod (4294967296 * 4294967296) =
      4294967296 * ((A * 4294967296 + r) div 4294967296 mod 4294967296) + (A * 4294967296 + r) mod 4294967296"
    by (rule zmod_zmult2_eq) simp
  then show ?thesis using assms by simp
qed

lemma val64_add: "val64 (uint64_add x y) = val64 x + val64 y"
proof -
  let ?l = "uint (lo x)" and ?m = "uint (lo y)" and ?h = "uint (hi x)" and ?k = "uint (hi y)"
  define l where "l = ?l"
  define m where "m = ?m"
  have b: "0 \<le> l" "l < 4294967296" "0 \<le> m" "m < 4294967296" using uint32_bounds by (simp_all add: l_def m_def)
  define c where "c = (if 4294967296 \<le> l + m then 1 else 0 :: int)"
  have "(l + m) mod 4294967296 = l + m - 4294967296 * c"
    using b mod_add_if_z[of l 4294967296 m] by (simp add: c_def)
  then have lo: "uint (lo x + lo y) = l + m - 4294967296 * c" by (simp add: uint_word_ariths l_def m_def)
  have carry: "lo x + lo y < lo y \<longleftrightarrow> c = 1" "c = 0 \<or> c = 1"
    unfolding word_less_def lo m_def[symmetric] using b by (auto simp: c_def)
  then have hi: "uint (hi x + (hi y + (if lo x + lo y < lo y then 1 else 0))) = (?h + ?k + c) mod 4294967296"
    by (auto simp: uint_word_ariths mod_simps algebra_simps)
  have r: "0 \<le> l + m - 4294967296 * c" "l + m - 4294967296 * c < 4294967296"
    using b by (auto simp: c_def)
  have "uint (val64 x + val64 y) = ((?h + ?k + c) * 4294967296 + (l + m - 4294967296 * c)) mod 18446744073709551616"
    by (simp add: uint_word_ariths uint_val64 algebra_simps l_def m_def)
  also have "\<dots> = uint (val64 (uint64_add x y))"
    unfolding glue_mod[OF r]
    by (simp add: uint_val64 uint64_add_def Let_def lo hi)
  finally show ?thesis by (simp add: word_uint_eq_iff)
qed

lemma val64_compare: "uint64_compare x y = (if val64 x < val64 y then - 1 else if val64 x = val64 y then 0 else 1)"
proof -
  have l: "hi x < hi y \<longleftrightarrow> uint (hi x) < uint (hi y)" "lo x < lo y \<longleftrightarrow> uint (lo x) < uint (lo y)"
    by (simp_all add: word_less_def)
  have e: "hi x = hi y \<longleftrightarrow> uint (hi x) = uint (hi y)" "lo x = lo y \<longleftrightarrow> uint (lo x) = uint (lo y)"
    "val64 x = val64 y \<longleftrightarrow> uint (val64 x) = uint (val64 y)"
    by (simp_all add: word_uint_eq_iff)
  have lt: "h < k \<or> h = k \<and> a < b \<longleftrightarrow> h * 4294967296 + a < k * 4294967296 + b"
    if "0 \<le> a" "a < 4294967296" "0 \<le> b" "b < 4294967296" for h k a b :: int
    using that by linarith
  have eq: "h = k \<and> a = b \<longleftrightarrow> h * 4294967296 + a = k * 4294967296 + b"
    if "0 \<le> a" "a < 4294967296" "0 \<le> b" "b < 4294967296" for h k a b :: int
  proof
    assume e: "h * 4294967296 + a = k * 4294967296 + b"
    then have "h = k" using that by linarith
    with e show "h = k \<and> a = b" by simp
  qed simp
  from lt[OF uint32_bounds uint32_bounds, of "uint (hi x)" "uint (hi y)" "lo x" "lo y"]
    eq[OF uint32_bounds uint32_bounds, of "uint (hi x)" "uint (hi y)" "lo x" "lo y"] show ?thesis
    unfolding uint64_compare_def word_less_def[of "val64 x"] l e uint_val64 by (auto simp del: One_nat_def)
qed

lemma val64_shift_left:
  assumes "0 < n" "n < 64"
  shows "map_option val64 (uint64_shift_left x n) = Some (push_bit n (val64 x))"
proof -
  have "bit (val64 \<lparr>hi = or (push_bit n (hi x)) (drop_bit (32 - n) (lo x)), lo = push_bit n (lo x)\<rparr>) k
      = bit (push_bit n (val64 x)) k" if "n < 32" for k
    using that by (cases "k < 32"; cases "k < n + 32")
      (auto simp: bit_val64 bit_or_iff bit_push_bit_iff bit_drop_bit_eq add.commute dest: bit_imp_le_length)
  moreover have "bit (val64 \<lparr>hi = push_bit (n - 32) (lo x), lo = 0\<rparr>) k = bit (push_bit n (val64 x)) k"
    if "\<not> n < 32" for k
    using that assms by (cases "k < 32"; cases "k < n + 32")
      (auto simp: bit_val64 bit_push_bit_iff dest: bit_imp_le_length)
  ultimately show ?thesis using assms by (cases "n < 32") (simp_all add: uint64_shift_left_def, auto intro: bit_eqI)
qed

lemma val64_shift_right:
  assumes "0 < n" "n < 64"
  shows "map_option val64 (uint64_shift_right x n) = Some (drop_bit n (val64 x))"
proof -
  have "bit (val64 \<lparr>hi = drop_bit n (hi x), lo = or (drop_bit n (lo x)) (push_bit (32 - n) (hi x))\<rparr>) k
      = bit (drop_bit n (val64 x)) k" if "n < 32" for k
    using that by (cases "k < 32"; cases "n + k < 32")
      (auto simp: bit_val64 bit_or_iff bit_push_bit_iff bit_drop_bit_eq add.commute dest: bit_imp_le_length)
  moreover have "bit (val64 \<lparr>hi = 0, lo = drop_bit (n - 32) (hi x)\<rparr>) k = bit (drop_bit n (val64 x)) k"
    if "\<not> n < 32" for k
    using that assms by (cases "k < 32"; cases "n + k < 64")
      (auto simp: bit_val64 bit_drop_bit_eq dest: bit_imp_le_length)
  ultimately show ?thesis using assms by (cases "n < 32") (simp_all add: uint64_shift_right_def, auto intro: bit_eqI)
qed


lemma val64_subtract: "val64 (uint64_subtract x y) = val64 x - val64 y"
proof -
  let ?h = "uint (hi x)" and ?k = "uint (hi y)"
  define l where "l = uint (lo x)"
  define m where "m = uint (lo y)"
  have b: "0 \<le> l" "l < 4294967296" "0 \<le> m" "m < 4294967296" using uint32_bounds by (simp_all add: l_def m_def)
  define c where "c = (if l < m then 1 else 0 :: int)"
  have "(l - m) mod 4294967296 = l - m + 4294967296 * c"
    using b mod_sub_if_z[of l 4294967296 m] by (simp add: c_def)
  then have lo: "uint (lo x - lo y) = l - m + 4294967296 * c" by (simp add: uint_word_ariths l_def m_def)
  have not: "uint (not (lo y)) = 4294967295 - m"
  proof -
    have "(- m - 1) mod 4294967296 = (4294967296 + (- m - 1)) mod 4294967296" by (simp only: mod_add_self1)
    also have "\<dots> = 4294967295 - m" using b by simp
    finally show ?thesis by (simp add: unsigned_not_eq m_def take_bit_eq_mod not_int_def)
  qed
  have carry: "not (lo y) < lo x - lo y \<longleftrightarrow> c = 1" "c = 0 \<or> c = 1"
    unfolding word_less_def lo not using b by (auto simp: c_def)
  then have hi: "uint (hi x - hi y - (if not (lo y) < lo x - lo y then 1 else 0)) = (?h - ?k - c) mod 4294967296"
    by (auto simp: uint_word_ariths mod_simps algebra_simps)
  have r: "0 \<le> l - m + 4294967296 * c" "l - m + 4294967296 * c < 4294967296"
    using b by (auto simp: c_def)
  have "uint (val64 x - val64 y) = ((?h - ?k - c) * 4294967296 + (l - m + 4294967296 * c)) mod 18446744073709551616"
    by (simp add: uint_word_ariths uint_val64 algebra_simps l_def m_def)
  also have "\<dots> = uint (val64 (uint64_subtract x y))"
    unfolding glue_mod[OF r]
    by (simp add: uint_val64 uint64_subtract_def Let_def lo hi)
  finally show ?thesis by (simp add: word_uint_eq_iff)
qed

section \<open>Decimal\<close>

text \<open>The number that a string of digits denotes, most significant digit first.\<close>

fun decimal_value :: "int \<Rightarrow> byte list \<Rightarrow> int" where
  "decimal_value n [] = n"
| "decimal_value n (c # cs) = decimal_value (10 * n + (uint c - 48)) cs"

lemma digit_uint: "is_digit c \<longleftrightarrow> 48 \<le> uint c \<and> uint c \<le> 57"
  by (simp add: is_digit_def word_le_def)

lemma decimal_step:
  assumes "is_digit c"
  shows "\<exists>r. from_decimal_loop x (c # str) = from_decimal_loop r str
    \<and> val64 r = word_of_int (10 * uint (val64 x) + (uint c - 48))"
proof -
  obtain a where a: "uint64_shift_left x 3 = Some a" "val64 a = push_bit 3 (val64 x)"
    using val64_shift_left[of 3 x] by auto
  obtain b where b: "uint64_shift_left x 1 = Some b" "val64 b = push_bit 1 (val64 x)"
    using val64_shift_left[of 1 x] by auto
  have "uint (ucast c - 48 :: 32 word) = uint c - 48" "uint (ucast c - 48 :: 64 word) = uint c - 48"
    using assms unfolding digit_uint by (simp_all add: uint_word_ariths unsigned_ucast_eq take_bit_eq_mod)
  then have z: "val64 \<lparr>hi = 0, lo = ucast c - 48\<rparr> = word_of_int (uint c - 48)"
    by (simp add: word_uint_eq_iff uint_val64)
  have "val64 (uint64_add32 (uint64_add a b) (ucast c - 48)) = word_of_int (10 * uint (val64 x) + (uint c - 48))"
    by (simp add: uint64_add32_def val64_add z a b push_bit_eq_mult)
  then show ?thesis using assms a b by auto
qed

lemma from_decimal_digits:
  assumes "list_all is_digit ds" "rest = [] \<or> \<not> is_digit (hd rest)"
  shows "\<exists>r. from_decimal_loop x (ds @ rest) = Some r
    \<and> val64 r = word_of_int (decimal_value (uint (val64 x)) ds)"
  using assms(1)
proof (induction ds arbitrary: x)
  case Nil
  then show ?case using assms(2) by (cases rest) auto
next
  case (Cons c ds)
  obtain y where y: "from_decimal_loop x (c # ds @ rest) = from_decimal_loop y (ds @ rest)"
    "val64 y = word_of_int (10 * uint (val64 x) + (uint c - 48))"
    using decimal_step[of c x] Cons.prems by auto
  obtain r where r: "from_decimal_loop y (ds @ rest) = Some r" "val64 r = word_of_int (decimal_value (uint (val64 y)) ds)"
    using Cons by auto
  have m: "decimal_value n ds mod 18446744073709551616 = decimal_value (n mod 18446744073709551616) ds mod 18446744073709551616"
    for n
  proof (induction ds arbitrary: n)
    case (Cons d ds)
    let ?B = "18446744073709551616 :: int"
    have e: "(10 * (n mod ?B) + e) mod ?B = (10 * n + e) mod ?B" for e
      by (metis mod_add_left_eq mod_mult_right_eq)
    have "decimal_value (10 * n + (uint d - 48)) ds mod ?B
        = decimal_value ((10 * n + (uint d - 48)) mod ?B) ds mod ?B" by (rule Cons.IH)
    also have "\<dots> = decimal_value ((10 * (n mod ?B) + (uint d - 48)) mod ?B) ds mod ?B" by (simp only: e)
    also have "\<dots> = decimal_value (10 * (n mod ?B) + (uint d - 48)) ds mod ?B" by (rule Cons.IH[symmetric])
    finally show ?case by (simp only: decimal_value.simps)
  qed simp
  have B: "2 ^ LENGTH(64) = (18446744073709551616 :: int)" by simp
  have "uint (val64 y) = (10 * uint (val64 x) + (uint c - 48)) mod 18446744073709551616"
    unfolding y(2) uint_word_of_int B ..
  then have "word_of_int (decimal_value (uint (val64 y)) ds) =
      (word_of_int (decimal_value (10 * uint (val64 x) + (uint c - 48)) ds) :: 64 word)"
    unfolding word_uint_eq_iff uint_word_of_int B by (simp only: m[symmetric])
  then show ?case using r y(1) by (simp del: from_decimal_loop.simps)
qed

lemma nonzero_val64: "nonzero x \<longleftrightarrow> uint (val64 x) \<noteq> 0"
proof -
  have "h * 4294967296 + a = 0 \<longleftrightarrow> h = 0 \<and> a = 0" if "0 \<le> a" "0 \<le> h" for h a :: int
    using that by linarith
  from this[OF uint32_bounds(1) uint32_bounds(1), of "hi x" "lo x"] show ?thesis
    by (simp add: nonzero_def uint_val64 word_uint_eq_iff)
qed

lemma decimal_value_snoc: "decimal_value n (ds @ [c]) = 10 * decimal_value n ds + (uint c - 48)"
  by (induction n ds rule: decimal_value.induct) simp_all

lemma decimal_loop_correct:
  assumes "uint (val64 x) < 10 ^ (20 - length buf)" "length buf < 20"
  shows "\<exists>ds. decimal_loop x buf = Some (ds @ buf) \<and> list_all is_digit ds \<and> ds \<noteq> []
    \<and> decimal_value 0 ds = uint (val64 x) \<and> (hd ds = 48 \<longrightarrow> ds = [48])"
  using assms
proof (induction x buf rule: decimal_loop.induct)
  case (1 x buf)
  obtain x' d where e: "uint64_div10 x = (x', d)" by fastforce
  let ?v = "uint (val64 x)" and ?c = "ucast (d + 48) :: byte"
  have v': "uint (val64 x') = ?v div 10" and d: "uint d = ?v mod 10" using div10[of x] e by simp_all
  have v0: "0 \<le> ?v" by simp
  have "0 \<le> uint d" "uint d < 10" using d by simp_all
  then have c: "uint ?c = uint d + 48"
    by (simp add: unsigned_ucast_eq uint_word_ariths take_bit_eq_mod)
  then have digit: "is_digit ?c" using \<open>uint d < 10\<close> by (simp add: digit_uint)
  have step: "decimal_loop x buf = (if nonzero x' then decimal_loop x' (?c # buf) else Some (?c # buf))"
    using 1(3) by (subst decimal_loop.simps) (simp add: e Let_def)
  show ?case
  proof (cases "nonzero x'")
    case False
    then have "?v div 10 = 0" by (simp add: nonzero_val64 v')
    then have "?v = uint d" using d div_mult_mod_eq[of ?v 10] by simp
    then show ?thesis using False step digit c by (auto intro!: exI[of _ "[?c]"])
  next
    case True
    then have "?v div 10 \<noteq> 0" by (simp add: nonzero_val64 v')
    then have ge: "10 \<le> ?v" by (rule contrapos_np) (simp add: div_pos_pos_trivial)
    obtain m where m: "20 - length buf = Suc m" using 1(3) by (metis Suc_diff_Suc)
    have "m \<noteq> 0" using ge 1(2) m by (auto intro: ccontr)
    then have l: "length (?c # buf) < 20" using m by simp
    have "?v div 10 < 10 ^ m" using 1(2) m by simp
    moreover have "20 - length (?c # buf) = m" using m by simp
    ultimately have "uint (val64 x') < 10 ^ (20 - length (?c # buf))" using v' by simp
    then obtain ds where ds: "decimal_loop x' (?c # buf) = Some (ds @ ?c # buf)" "list_all is_digit ds" "ds \<noteq> []"
      "decimal_value 0 ds = uint (val64 x')" "hd ds = 48 \<longrightarrow> ds = [48]"
      using 1(1)[OF e[symmetric] _ refl True _ l] 1(3) by auto
    have "hd ds \<noteq> 48" using ds(4,5) True by (auto simp: nonzero_val64)
    moreover have "decimal_value 0 (ds @ [?c]) = ?v" using ds(4) v' d c by (simp add: decimal_value_snoc)
    ultimately show ?thesis using ds digit step True by (intro exI[of _ "ds @ [?c]"]) simp
  qed
qed

lemma uint64_decimal_correct:
  "\<exists>ds. uint64_decimal x = Some ds \<and> list_all is_digit ds \<and> ds \<noteq> []
    \<and> decimal_value 0 ds = uint (val64 x) \<and> (hd ds = 48 \<longrightarrow> ds = [48])"
proof -
  have "uint (val64 x) < 18446744073709551616" using unsigned_less[of "val64 x", where ?'a = int] by simp
  then show ?thesis using decimal_loop_correct[of x "[]"] by (simp add: uint64_decimal_def)
qed

section \<open>Properties\<close>

text \<open>
  Claim C33: the arithmetic on pairs of 32-bit halves is arithmetic modulo 2^64: addition,
  subtraction, comparison, the shifts by 1 to 63 and division by 10 with remainder agree with
  those of a 64-bit word.
\<close>

theorem uint64_arithmetic:
  "val64 (uint64_add x y) = val64 x + val64 y
   \<and> val64 (uint64_subtract x y) = val64 x - val64 y
   \<and> uint64_compare x y = (if val64 x < val64 y then - 1 else if val64 x = val64 y then 0 else 1)
   \<and> val64 (fst (uint64_div10 x)) = val64 x div 10
   \<and> ucast (snd (uint64_div10 x)) = val64 x mod 10
   \<and> (if 0 < n \<and> n < 64
      then map_option val64 (uint64_shift_left x n) = Some (push_bit n (val64 x))
         \<and> map_option val64 (uint64_shift_right x n) = Some (drop_bit n (val64 x))
      else uint64_shift_left x n = None \<and> uint64_shift_right x n = None)"
proof -
  have "val64 (fst (uint64_div10 x)) = val64 x div 10" "ucast (snd (uint64_div10 x)) = val64 x mod 10"
    using div10[of x] by (simp_all add: word_uint_eq_iff uint_div uint_mod unsigned_ucast_eq take_bit_eq_mod)
  moreover have "if 0 < n \<and> n < 64
      then map_option val64 (uint64_shift_left x n) = Some (push_bit n (val64 x))
         \<and> map_option val64 (uint64_shift_right x n) = Some (drop_bit n (val64 x))
      else uint64_shift_left x n = None \<and> uint64_shift_right x n = None"
  proof (cases "0 < n \<and> n < 64")
    case True
    then show ?thesis using val64_shift_left[of n x] val64_shift_right[of n x] by simp
  qed (auto simp: uint64_shift_left_def uint64_shift_right_def)
  ultimately show ?thesis using val64_add val64_subtract val64_compare by blast
qed

text \<open>
  A 64-bit number is printed in its shortest decimal form and reads back as itself.
  \<open>uint64_decimal\<close> never runs over its 20 characters, prints digits only, with no leading
  zero, whose value is the number, and \<open>uint64_from_decimal\<close> returns the number from them,
  whatever non-digit follows.
\<close>

theorem uint64_decimal_roundtrip:
  assumes "\<not> is_digit c"
  shows "\<exists>ds. uint64_decimal x = Some ds \<and> length ds \<le> 20 \<and> decimal_value 0 ds = uint (val64 x)
     \<and> (if hd ds = 48 then ds = [48] else ds \<noteq> []) \<and> uint64_from_decimal ds = Some x \<and> uint64_from_decimal (ds @ c # rest) = Some x"
proof -
  obtain ds where ds: "uint64_decimal x = Some ds" "list_all is_digit ds" "ds \<noteq> []"
    "decimal_value 0 ds = uint (val64 x)" "hd ds = 48 \<longrightarrow> ds = [48]"
    using uint64_decimal_correct by blast
  have z: "uint (val64 \<lparr>hi = 0, lo = 0\<rparr>) = 0" by (simp add: uint_val64)
  have r: "uint64_from_decimal (ds @ rest) = Some x" if "rest = [] \<or> \<not> is_digit (hd rest)" for rest
    using from_decimal_digits[OF ds(2) that, of "\<lparr>hi = 0, lo = 0\<rparr>"] ds(4) z
    by (auto simp: uint64_from_decimal_def val64_inject)
  have "length buf' \<le> 20" if "decimal_loop y buf = Some buf'" "length buf \<le> 20" for y buf buf'
    using that
  proof (induction y buf rule: decimal_loop.induct)
    case (1 y buf)
    from 1(2) show ?case
      by (subst (asm) decimal_loop.simps) (use 1 in \<open>auto simp: Let_def split: prod.splits if_splits\<close>)
  qed
  then have "length ds \<le> 20" using ds(1) by (fastforce simp: uint64_decimal_def)
  moreover have "uint64_from_decimal (ds @ []) = Some x" by (rule r) simp
  moreover have "uint64_from_decimal (ds @ c # rest) = Some x" by (rule r) (simp add: assms)
  ultimately show ?thesis using ds by auto
qed

theorem uint64_decimal_roundtrip_witness:
  "\<not> is_digit 32 \<and> (\<exists>ds. uint64_decimal \<lparr>hi = 1, lo = 7\<rparr> = Some ds
     \<and> uint64_from_decimal (ds @ [32, 49]) = Some \<lparr>hi = 1, lo = 7\<rparr>)"
proof -
  have "\<not> is_digit 32" by (simp add: is_digit_def)
  then show ?thesis using uint64_decimal_roundtrip[of 32 "\<lparr>hi = 1, lo = 7\<rparr>" "[49]"] by blast
qed

end
