(* ===== verification/Crc32.thy ===== *)
theory Crc32
  imports Misc
begin

text \<open>
  The CRC of \<open>putty/sshcrc.c\<close> (an \<open>unsigned long\<close> has 32 bits): both variants of the
  table, the byte-wise loop, the bitwise division it implements and the error bursts it
  detects.
\<close>

unbundle bit_operations_syntax

definition POLY :: "32 word" where "POLY = 0xEDB88320"

text \<open>One step of the loop of \<open>crc32_init\<close>, on \<open>(crcword, newbyte)\<close>.\<close>

definition init_step :: "32 word \<times> 32 word \<Rightarrow> 32 word \<times> 32 word" where
  "init_step s = (case s of (crcword, newbyte) \<Rightarrow>
     let x32term = (crcword XOR newbyte) AND 1
     in (drop_bit 1 crcword XOR x32term * POLY, drop_bit 1 newbyte))"

definition crc32_init :: "32 word list" where
  "crc32_init = map (\<lambda>i. fst ((init_step ^^ 8) (0, of_nat i))) [0..<256]"

definition crc32_table :: "32 word list" where
  "crc32_table = [
     0x00000000, 0x77073096, 0xEE0E612C, 0x990951BA, 0x076DC419, 0x706AF48F, 0xE963A535, 0x9E6495A3,
     0x0EDB8832, 0x79DCB8A4, 0xE0D5E91E, 0x97D2D988, 0x09B64C2B, 0x7EB17CBD, 0xE7B82D07, 0x90BF1D91,
     0x1DB71064, 0x6AB020F2, 0xF3B97148, 0x84BE41DE, 0x1ADAD47D, 0x6DDDE4EB, 0xF4D4B551, 0x83D385C7,
     0x136C9856, 0x646BA8C0, 0xFD62F97A, 0x8A65C9EC, 0x14015C4F, 0x63066CD9, 0xFA0F3D63, 0x8D080DF5,
     0x3B6E20C8, 0x4C69105E, 0xD56041E4, 0xA2677172, 0x3C03E4D1, 0x4B04D447, 0xD20D85FD, 0xA50AB56B,
     0x35B5A8FA, 0x42B2986C, 0xDBBBC9D6, 0xACBCF940, 0x32D86CE3, 0x45DF5C75, 0xDCD60DCF, 0xABD13D59,
     0x26D930AC, 0x51DE003A, 0xC8D75180, 0xBFD06116, 0x21B4F4B5, 0x56B3C423, 0xCFBA9599, 0xB8BDA50F,
     0x2802B89E, 0x5F058808, 0xC60CD9B2, 0xB10BE924, 0x2F6F7C87, 0x58684C11, 0xC1611DAB, 0xB6662D3D,
     0x76DC4190, 0x01DB7106, 0x98D220BC, 0xEFD5102A, 0x71B18589, 0x06B6B51F, 0x9FBFE4A5, 0xE8B8D433,
     0x7807C9A2, 0x0F00F934, 0x9609A88E, 0xE10E9818, 0x7F6A0DBB, 0x086D3D2D, 0x91646C97, 0xE6635C01,
     0x6B6B51F4, 0x1C6C6162, 0x856530D8, 0xF262004E, 0x6C0695ED, 0x1B01A57B, 0x8208F4C1, 0xF50FC457,
     0x65B0D9C6, 0x12B7E950, 0x8BBEB8EA, 0xFCB9887C, 0x62DD1DDF, 0x15DA2D49, 0x8CD37CF3, 0xFBD44C65,
     0x4DB26158, 0x3AB551CE, 0xA3BC0074, 0xD4BB30E2, 0x4ADFA541, 0x3DD895D7, 0xA4D1C46D, 0xD3D6F4FB,
     0x4369E96A, 0x346ED9FC, 0xAD678846, 0xDA60B8D0, 0x44042D73, 0x33031DE5, 0xAA0A4C5F, 0xDD0D7CC9,
     0x5005713C, 0x270241AA, 0xBE0B1010, 0xC90C2086, 0x5768B525, 0x206F85B3, 0xB966D409, 0xCE61E49F,
     0x5EDEF90E, 0x29D9C998, 0xB0D09822, 0xC7D7A8B4, 0x59B33D17, 0x2EB40D81, 0xB7BD5C3B, 0xC0BA6CAD,
     0xEDB88320, 0x9ABFB3B6, 0x03B6E20C, 0x74B1D29A, 0xEAD54739, 0x9DD277AF, 0x04DB2615, 0x73DC1683,
     0xE3630B12, 0x94643B84, 0x0D6D6A3E, 0x7A6A5AA8, 0xE40ECF0B, 0x9309FF9D, 0x0A00AE27, 0x7D079EB1,
     0xF00F9344, 0x8708A3D2, 0x1E01F268, 0x6906C2FE, 0xF762575D, 0x806567CB, 0x196C3671, 0x6E6B06E7,
     0xFED41B76, 0x89D32BE0, 0x10DA7A5A, 0x67DD4ACC, 0xF9B9DF6F, 0x8EBEEFF9, 0x17B7BE43, 0x60B08ED5,
     0xD6D6A3E8, 0xA1D1937E, 0x38D8C2C4, 0x4FDFF252, 0xD1BB67F1, 0xA6BC5767, 0x3FB506DD, 0x48B2364B,
     0xD80D2BDA, 0xAF0A1B4C, 0x36034AF6, 0x41047A60, 0xDF60EFC3, 0xA867DF55, 0x316E8EEF, 0x4669BE79,
     0xCB61B38C, 0xBC66831A, 0x256FD2A0, 0x5268E236, 0xCC0C7795, 0xBB0B4703, 0x220216B9, 0x5505262F,
     0xC5BA3BBE, 0xB2BD0B28, 0x2BB45A92, 0x5CB36A04, 0xC2D7FFA7, 0xB5D0CF31, 0x2CD99E8B, 0x5BDEAE1D,
     0x9B64C2B0, 0xEC63F226, 0x756AA39C, 0x026D930A, 0x9C0906A9, 0xEB0E363F, 0x72076785, 0x05005713,
     0x95BF4A82, 0xE2B87A14, 0x7BB12BAE, 0x0CB61B38, 0x92D28E9B, 0xE5D5BE0D, 0x7CDCEFB7, 0x0BDBDF21,
     0x86D3D2D4, 0xF1D4E242, 0x68DDB3F8, 0x1FDA836E, 0x81BE16CD, 0xF6B9265B, 0x6FB077E1, 0x18B74777,
     0x88085AE6, 0xFF0F6A70, 0x66063BCA, 0x11010B5C, 0x8F659EFF, 0xF862AE69, 0x616BFFD3, 0x166CCF45,
     0xA00AE278, 0xD70DD2EE, 0x4E048354, 0x3903B3C2, 0xA7672661, 0xD06016F7, 0x4969474D, 0x3E6E77DB,
     0xAED16A4A, 0xD9D65ADC, 0x40DF0B66, 0x37D83BF0, 0xA9BCAE53, 0xDEBB9EC5, 0x47B2CF7F, 0x30B5FFE9,
     0xBDBDF21C, 0xCABAC28A, 0x53B39330, 0x24B4A3A6, 0xBAD03605, 0xCDD70693, 0x54DE5729, 0x23D967BF,
     0xB3667A2E, 0xC4614AB8, 0x5D681B02, 0x2A6F2B94, 0xB40BBE37, 0xC30C8EA1, 0x5A05DF1B, 0x2D02EF8D]"

definition update_byte :: "32 word \<Rightarrow> byte \<Rightarrow> 32 word" where
  "update_byte crcword p =
     (let newbyte = ucast p XOR (crcword AND 0xFF)
      in drop_bit 8 crcword XOR crc32_table ! unat newbyte)"

fun crc32_update :: "32 word \<Rightarrow> byte list \<Rightarrow> 32 word" where
  "crc32_update crcword [] = crcword"
| "crc32_update crcword (p # buf) = crc32_update (update_byte crcword p) buf"

definition crc32_compute :: "byte list \<Rightarrow> 32 word" where
  "crc32_compute buf = crc32_update 0 buf"

section \<open>The table\<close>

text \<open>The division step on a word, and its effect over eight bits.\<close>

definition crc_step :: "32 word \<Rightarrow> 32 word" where
  "crc_step w = drop_bit 1 w XOR (if bit w 0 then POLY else 0)"

lemma crc_step_zero [simp]: "crc_step 0 = 0" by (simp add: crc_step_def)

lemma crc_step_xor: "crc_step (a XOR b) = crc_step a XOR crc_step b"
  by (rule bit_word_eqI) (auto simp: crc_step_def bit_xor_iff bit_drop_bit_eq)

lemma crc_steps_xor: "(crc_step ^^ n) (a XOR b) = (crc_step ^^ n) a XOR (crc_step ^^ n) b"
  by (induction n) (simp_all add: crc_step_xor)

lemma crc_steps_zero [simp]: "(crc_step ^^ n) 0 = 0"
  by (induction n) simp_all

lemma crc_step_shift: "\<not> bit w 0 \<Longrightarrow> crc_step w = drop_bit 1 w"
  by (simp add: crc_step_def)

lemma crc_steps_shift: "take_bit n w = 0 \<Longrightarrow> (crc_step ^^ n) w = drop_bit n w"
proof (induction n arbitrary: w)
  case (Suc n)
  have b: "\<not> bit w k" if "k < Suc n" for k
    using Suc.prems that by (metis bit_take_bit_iff bit_0_eq bot_apply bot_bool_def)
  then have "crc_step w = drop_bit 1 w" by (simp add: crc_step_shift)
  moreover have "take_bit n (drop_bit 1 w) = 0"
    by (rule bit_word_eqI) (simp add: bit_take_bit_iff bit_drop_bit_eq b)
  ultimately show ?case using Suc.IH[of "drop_bit 1 w"]
    by (simp add: funpow_Suc_right del: funpow.simps)
qed simp

definition entry :: "32 word \<Rightarrow> 32 word" where
  "entry w = (crc_step ^^ 8) w"

lemma entry_xor: "entry (a XOR b) = entry a XOR entry b"
  by (simp add: entry_def crc_steps_xor)

lemma basis:
  "entry 1 = 0x77073096" "entry 2 = 0xEE0E612C" "entry 4 = 0x076DC419" "entry 8 = 0x0EDB8832"
  "entry 16 = 0x1DB71064" "entry 32 = 0x3B6E20C8" "entry 64 = 0x76DC4190" "entry 128 = 0xEDB88320"
  by code_simp+

definition double :: "32 word \<Rightarrow> 32 word list \<Rightarrow> 32 word list" where
  "double b T = T @ map (\<lambda>x. x XOR b) T"

lemma table_double: "crc32_table = double 0xEDB88320 (double 0x76DC4190 (double 0x3B6E20C8 (double 0x1DB71064
    (double 0x0EDB8832 (double 0x076DC419 (double 0xEE0E612C (double 0x77073096 [0])))))))"
  by (simp add: double_def crc32_table_def)


lemma of_nat_split:
  assumes "i < 2 ^ k"
  shows "(of_nat (i + 2 ^ k) :: 32 word) = of_nat i XOR of_nat (2 ^ k)"
proof -
  have low: "\<not> bit i k" using assms by (simp add: bit_iff_odd)
  have "(of_nat i :: 32 word) AND 2 ^ k = 0"
  proof (rule bit_word_eqI)
    fix n show "bit ((of_nat i :: 32 word) AND 2 ^ k) n = bit 0 n"
      using low by (auto simp: bit_and_iff bit_exp_iff bit_of_nat_iff)
  qed
  then have "(of_nat i :: 32 word) XOR 2 ^ k = of_nat i + 2 ^ k" 
    by (simp add: disjunctive_xor_eq_or disjunctive_add_eq_or)
  then show ?thesis by simp
qed

lemma map_entry_double:
  "map (\<lambda>i. entry (of_nat i)) [0..<2 ^ Suc k] = double (entry (2 ^ k)) (map (\<lambda>i. entry (of_nat i)) [0..<2 ^ k])"
proof -
  have "[0..<2 ^ k + 2 ^ k] = [0..<2 ^ k] @ [2 ^ k..<2 ^ k + 2 ^ k :: nat]"
    by (rule upt_add_eq_append) (rule le0)
  moreover have "[2 ^ k..<2 ^ k + 2 ^ k :: nat] = map (\<lambda>i. i + 2 ^ k) [0..<2 ^ k]"
    by (rule map_add_upt[symmetric])
  moreover have "(2 :: nat) ^ Suc k = 2 ^ k + 2 ^ k" by simp
  ultimately have "[0..<2 ^ Suc k] = [0..<2 ^ k] @ map (\<lambda>i. i + 2 ^ k) [0..<2 ^ k]"
    by (simp only:)
  moreover have "entry (of_nat (i + 2 ^ k)) = entry (of_nat i) XOR entry (2 ^ k)" if "i < 2 ^ k" for i
    unfolding of_nat_split[OF that] entry_xor by simp
  ultimately show ?thesis
    by (simp only: double_def map_append map_map comp_def) (simp cong: map_cong del: of_nat_add power_Suc)
qed

lemma table: "crc32_table = map (\<lambda>i. entry (of_nat i)) [0..<256]"
proof -
  define E where "E k = map (\<lambda>i. entry (of_nat i)) [0..<2 ^ k]" for k
  have d: "E (Suc k) = double (entry (2 ^ k)) (E k)" for k
    unfolding E_def by (rule map_entry_double)
  have "E 0 = [0]" by (simp add: E_def entry_def)
  then have "E 1 = double (entry 1) [0]" "E 2 = double (entry 2) (E 1)" "E 3 = double (entry 4) (E 2)"
    "E 4 = double (entry 8) (E 3)" "E 5 = double (entry 16) (E 4)" "E 6 = double (entry 32) (E 5)"
    "E 7 = double (entry 64) (E 6)" "E 8 = double (entry 128) (E 7)"
    using d[of 0] d[of 1] d[of 2] d[of 3] d[of 4] d[of 5] d[of 6] d[of 7]
    by (simp_all add: eval_nat_numeral)
  then have "E 8 = crc32_table" by (simp only: table_double basis)
  then show ?thesis by (simp add: E_def)
qed

lemma table_nth: "unat w < 256 \<Longrightarrow> crc32_table ! unat w = entry w"
  by (simp add: table)

lemma mask_FF [simp]: "bit (0xFF :: int) n \<longleftrightarrow> n < 8"
proof -
  have "(0xFF :: int) = mask 8" by (simp add: mask_eq_exp_minus_1)
  then show ?thesis by (simp only: bit_mask_iff) simp
qed

lemma word_bit_less: "bit (w :: 'a::len word) n \<Longrightarrow> n < LENGTH('a)"
  by (rule bit_imp_le_length)

lemma drop_mask_split: "(w :: 32 word) = push_bit 8 (drop_bit 8 w) XOR (w AND 0xFF)"
  by (intro bit_word_eqI) (auto simp: bit_xor_iff bit_push_bit_iff bit_drop_bit_eq bit_and_iff mask_FF)

lemma low_byte: "unat (ucast (p :: byte) XOR (w AND 0xFF) :: 32 word) < 256"
proof -
  have "ucast p XOR (w AND 0xFF) = take_bit 8 (ucast p XOR (w AND 0xFF) :: 32 word)"
    by (intro bit_word_eqI)
      (auto simp: bit_take_bit_iff bit_xor_iff bit_and_iff mask_FF bit_ucast_iff dest: bit_imp_le_length)
  then have "unat (ucast p XOR (w AND 0xFF) :: 32 word) = unat (take_bit 8 (ucast p XOR (w AND 0xFF) :: 32 word))"
    by (rule arg_cong)
  also have "\<dots> = take_bit 8 (unat (ucast p XOR (w AND 0xFF) :: 32 word))" by (rule unsigned_take_bit_eq)
  also have "\<dots> < 2 ^ 8" by (rule take_bit_nat_less_exp)
  finally show ?thesis by simp
qed

lemma update_byte: "update_byte w p = (crc_step ^^ 8) (w XOR ucast p)"
proof -
  have 1: "update_byte w p = drop_bit 8 w XOR entry (ucast p XOR (w AND 0xFF))"
    by (simp add: update_byte_def table_nth low_byte)
  have 2: "(crc_step ^^ 8) (push_bit 8 (drop_bit 8 w)) = drop_bit 8 w"
  proof (subst crc_steps_shift)
    show "take_bit 8 (push_bit 8 (drop_bit 8 w)) = 0"
      by (rule bit_word_eqI) (simp add: bit_take_bit_iff bit_push_bit_iff)
    show "drop_bit 8 (push_bit 8 (drop_bit 8 w)) = drop_bit 8 w"
      by (rule bit_word_eqI) (auto simp: bit_push_bit_iff bit_drop_bit_eq dest: word_bit_less)
  qed
  have "w XOR ucast p = push_bit 8 (drop_bit 8 w) XOR (ucast p XOR (w AND 0xFF))"
    by (subst drop_mask_split[of w]) (simp add: ac_simps)
  then show ?thesis unfolding 1 by (simp only: crc_steps_xor 2 entry_def)
qed

section \<open>Bit by bit\<close>

text \<open>The bits of a byte, low bit first, and the division of the comment of \<open>sshcrc.c\<close>.\<close>

definition byte_bits :: "byte \<Rightarrow> bool list" where
  "byte_bits p = map (bit p) [0..<8]"

definition bit_step :: "32 word \<Rightarrow> bool \<Rightarrow> 32 word" where
  "bit_step crcword newbit =
     drop_bit 1 crcword XOR (if bit crcword 0 \<noteq> newbit then POLY else 0)"

fun divide :: "32 word \<Rightarrow> bool list \<Rightarrow> 32 word" where
  "divide crcword [] = crcword"
| "divide crcword (b # bs) = divide (bit_step crcword b) bs"

lemma divide_append [simp]: "divide w (xs @ ys) = divide (divide w xs) ys"
  by (induction w xs rule: divide.induct) simp_all

fun bits_word :: "bool list \<Rightarrow> 32 word" where
  "bits_word [] = 0"
| "bits_word (b # bs) = (if b then 1 else 0) XOR push_bit 1 (bits_word bs)"

lemma bit_bits_word: "bit (bits_word bs) n \<longleftrightarrow> n < 32 \<and> n < length bs \<and> bs ! n"
proof (induction bs arbitrary: n)
  case (Cons b bs)
  show ?case by (cases n; cases b) (auto simp: bit_xor_iff bit_push_bit_iff bit_1_iff Cons.IH
        simp flip: push_bit_eq_mult simp del: push_bit_Suc)
qed simp

lemma divide_step: "length bs \<le> 31 \<Longrightarrow> bit_step w b XOR bits_word bs = crc_step (w XOR bits_word (b # bs))"
  by (intro bit_word_eqI, cases b; cases "bit w 0")
    (auto simp: bit_step_def crc_step_def bit_xor_iff bit_drop_bit_eq bit_bits_word simp del: bits_word.simps)

lemma divide_steps:
  "length bs \<le> 32 \<Longrightarrow> divide w bs = (crc_step ^^ length bs) (w XOR bits_word bs)"
proof (induction bs arbitrary: w)
  case (Cons b bs)
  then show ?case using Cons.IH[of "bit_step w b"] divide_step[of bs w b]
    by (simp add: funpow_Suc_right del: funpow.simps bits_word.simps)
qed simp

lemma update_byte_divide: "update_byte w p = divide w (byte_bits p)"
proof -
  have "ucast p = bits_word (byte_bits p)"
  proof (rule bit_word_eqI)
    fix n assume "n < LENGTH(32)"
    then show "bit (ucast p :: 32 word) n = bit (bits_word (byte_bits p)) n"
      using word_bit_less[of p n]
      by (cases "n < 8") (auto simp: bit_bits_word byte_bits_def bit_ucast_iff simp del: upt_rec_numeral)
  qed
  then show ?thesis by (simp add: update_byte divide_steps byte_bits_def)
qed

lemma crc32_update_divide: "crc32_update w buf = divide w (concat (map byte_bits buf))"
  by (induction w buf rule: crc32_update.induct) (simp_all add: update_byte_divide)


lemma init_steps:
  "snd ((init_step ^^ n) (0, w)) = drop_bit n w
   \<and> fst ((init_step ^^ n) (0, w)) XOR snd ((init_step ^^ n) (0, w)) = (crc_step ^^ n) w"
proof (induction n)
  case (Suc n)
  obtain c nb where e: "(init_step ^^ n) (0, w) = (c, nb)" by fastforce
  have x: "((c XOR nb) AND 1) * POLY = (if bit (c XOR nb) 0 then POLY else 0)"
    by (simp add: and_one_eq bit_0 odd_iff_mod_2_eq_one)
  have "fst (init_step (c, nb)) XOR snd (init_step (c, nb)) = crc_step (c XOR nb)"
    unfolding init_step_def prod.case Let_def fst_conv snd_conv x crc_step_def
    by (rule bit_word_eqI) (auto simp: bit_xor_iff bit_drop_bit_eq)
  moreover have "snd (init_step (c, nb)) = drop_bit (Suc n) w"
  proof -
    have "nb = drop_bit n w" using Suc e by simp
    then show ?thesis by (simp add: init_step_def Let_def)
  qed
  moreover have "c XOR nb = (crc_step ^^ n) w" using Suc unfolding e fst_conv snd_conv by (rule conjunct2)
  ultimately show ?case using e by simp
qed simp

lemma crc32_init_table: "crc32_init = crc32_table"
proof -
  have "fst ((init_step ^^ 8) (0, of_nat i)) = entry (of_nat i)" if "i < 256" for i
  proof -
    have "drop_bit 8 (of_nat i :: 32 word) = 0"
    proof (rule bit_word_eqI)
      fix n
      have "i < 2 ^ (8 + n)" using that by (simp add: power_add) (metis One_nat_def less_le_trans mult.right_neutral mult_le_mono2 one_le_numeral one_le_power)
      then have "\<not> bit i (8 + n)" by (simp add: bit_iff_odd)
      then show "bit (drop_bit 8 (of_nat i :: 32 word)) n = bit 0 n"
        by (simp add: bit_drop_bit_eq bit_of_nat_iff)
    qed
    then have "fst ((init_step ^^ 8) (0, of_nat i)) XOR 0 = (crc_step ^^ 8) (of_nat i)"
      using init_steps[of 8 "of_nat i"] by metis
    then show ?thesis by (simp add: entry_def)
  qed
  then show ?thesis by (simp add: crc32_init_def table cong: map_cong)
qed

section \<open>Error bursts\<close>

lemma crc_step_eq_0: "crc_step w = 0 \<Longrightarrow> w = 0"
proof -
  assume z: "crc_step w = 0"
  have P: "bit POLY 31" by (simp add: POLY_def)
  have "bit (crc_step w) 31 = bit w 0"
    by (auto simp: crc_step_def bit_xor_iff bit_drop_bit_eq P dest: word_bit_less)
  then have 0: "\<not> bit w 0" using z by simp
  then have "drop_bit 1 w = 0" using z by (simp add: crc_step_def)
  then have "bit (drop_bit 1 w) n = bit 0 n" for n by simp
  then have s: "\<not> bit w (Suc n)" for n by (simp add: bit_drop_bit_eq)
  show "w = 0"
  proof (rule bit_word_eqI)
    fix n show "bit w n = bit 0 n" using 0 s by (cases n) simp_all
  qed
qed

lemma xor_cancel: "(a :: 32 word) XOR c = b XOR c \<Longrightarrow> a = b"
proof -
  assume "a XOR c = b XOR c"
  then have "(a XOR c) XOR c = (b XOR c) XOR c" by (rule arg_cong)
  then show "a = b" by (simp add: xor.assoc)
qed

lemma xor_cancel_left: "(c :: 32 word) XOR a = c XOR b \<Longrightarrow> a = b"
  using xor_cancel[of a c b] by (simp add: xor.commute)

lemma xor_0: "(a :: 32 word) XOR b = 0 \<Longrightarrow> a = b"
  by (rule xor_cancel[of _ b]) simp

lemma crc_steps_inj: "(crc_step ^^ n) a = (crc_step ^^ n) b \<Longrightarrow> a = b"
proof -
  assume "(crc_step ^^ n) a = (crc_step ^^ n) b"
  then have "(crc_step ^^ n) (a XOR b) = 0" by (simp add: crc_steps_xor)
  moreover have "(crc_step ^^ n) w = 0 \<Longrightarrow> w = 0" for w
    by (induction n) (auto dest: crc_step_eq_0)
  ultimately have "a XOR b = 0" by blast
  then show "a = b" by (rule xor_0)
qed

lemma divide_inj: "divide a bs = divide b bs \<Longrightarrow> a = b"
proof (induction bs arbitrary: a b)
  case (Cons c bs)
  then have "bit_step a c = bit_step b c" by simp
  moreover have "bit_step w c = crc_step (w XOR (if c then 1 else 0))" for w
    using divide_step[of "[]" w c] by simp
  ultimately have "a XOR (if c then 1 else 0) = b XOR (if c then 1 else 0)"
    using crc_steps_inj[of 1] by simp
  then show ?case by (rule xor_cancel)
qed simp

lemma bits_word_inj: "bits_word xs = bits_word ys \<Longrightarrow> length xs = length ys \<Longrightarrow> length xs \<le> 32 \<Longrightarrow> xs = ys"
proof (rule nth_equalityI)
  fix i assume a: "bits_word xs = bits_word ys" "length xs = length ys" "length xs \<le> 32" "i < length xs"
  have "bit (bits_word xs) i = bit (bits_word ys) i" unfolding a(1) ..
  then show "xs ! i = ys ! i" unfolding bit_bits_word using a(2-4) by simp
qed

lemma byte_bits_inj: "byte_bits p = byte_bits q \<Longrightarrow> p = q"
  by (rule bit_word_eqI) (simp add: byte_bits_def)

lemma length_byte_bits [simp]: "length (byte_bits p) = 8" by (simp add: byte_bits_def)

lemma length_bits: "length (concat (map byte_bits xs)) = 8 * length xs"
  by (induction xs) simp_all

lemma concat_bits_inj:
  "length xs = length ys \<Longrightarrow> concat (map byte_bits xs) = concat (map byte_bits ys) \<Longrightarrow> xs = ys"
  by (induction xs ys rule: list_induct2) (auto dest: byte_bits_inj)

lemma crc32_update_append: "crc32_update w (a @ b) = crc32_update (crc32_update w a) b"
  by (induction w a rule: crc32_update.induct) simp_all

section \<open>Properties\<close>

text \<open>
  Claim C34: the table-driven CRC is the bitwise division of the comment: the 256 constants are
  those that \<open>crc32_init\<close> generates, and \<open>crc32_compute\<close> divides the bits of the message
  (low bit of each byte first) by the polynomial, one bit at a time.
\<close>

theorem crc32_bitwise:
  "crc32_table = crc32_init \<and> crc32_compute buf = divide 0 (concat (map byte_bits buf))"
  by (simp add: crc32_init_table crc32_compute_def crc32_update_divide)

text \<open>
  The bits of a message in the order in which the division consumes them: bit \<open>k mod 8\<close>
  (from the low end) of byte \<open>k div 8\<close>.
\<close>

definition message_bit :: "byte list \<Rightarrow> nat \<Rightarrow> bool" where
  "message_bit buf k = bit (buf ! (k div 8)) (k mod 8)"

lemma nth_bits: "k < 8 * length buf \<Longrightarrow> concat (map byte_bits buf) ! k = message_bit buf k"
proof (induction buf arbitrary: k)
  case (Cons p buf)
  show ?case
  proof (cases "k < 8")
    case True
    then show ?thesis by (simp add: nth_append message_bit_def byte_bits_def del: upt_rec_numeral)
  next
    case False
    then have "k div 8 = Suc ((k - 8) div 8)" "k mod 8 = (k - 8) mod 8"
      using div_add_self2 [of 8 "k - 8"] mod_add_self2 [of "k - 8" 8] by simp_all
    with False Cons.IH [of "k - 8"] Cons.prems show ?thesis by (simp add: nth_append message_bit_def)
  qed
qed simp

lemma burst_split:
  assumes "length xs = length ys" and "\<And>k. k < length xs \<Longrightarrow> k < i \<or> i + n \<le> k \<Longrightarrow> xs ! k = ys ! k"
  shows "take i xs = take i ys" and "drop (i + n) xs = drop (i + n) ys"
  using assms by (auto intro!: nth_equalityI)

lemma divide_burst:
  assumes "length xs = length ys" and "\<And>k. k < length xs \<Longrightarrow> k < i \<or> i + 32 \<le> k \<Longrightarrow> xs ! k = ys ! k"
    and "divide w xs = divide w ys"
  shows "xs = ys"
proof -
  let ?v = "divide w (take i xs)" and ?X = "take 32 (drop i xs)" and ?Y = "take 32 (drop i ys)"
  have cut: "take i zs @ take 32 (drop i zs) @ drop (i + 32) zs = zs" for zs :: "bool list"
    by (metis append_take_drop_id drop_drop add.commute)
  from burst_split [OF assms(1,2), of i 32] have e: "take i xs = take i ys"
    "drop (i + 32) xs = drop (i + 32) ys" by auto
  from assms(3) have "divide w (take i xs @ ?X @ drop (i + 32) xs) = divide w (take i ys @ ?Y @ drop (i + 32) ys)"
    unfolding cut .
  then have "divide ?v ?X = divide ?v ?Y" unfolding e divide_append by (rule divide_inj)
  moreover have l: "length ?X = length ?Y" "length ?X \<le> 32" using assms(1) by simp_all
  ultimately have "?v XOR bits_word ?X = ?v XOR bits_word ?Y"
    using divide_steps [of ?X ?v] divide_steps [of ?Y ?v] crc_steps_inj by metis
  then have "bits_word ?X = bits_word ?Y" by (rule xor_cancel_left)
  then have "?X = ?Y" using l by (rule bits_word_inj)
  with e cut [of xs] cut [of ys] show ?thesis by metis
qed

text \<open>
  Claim C35: an error burst of at most 32 bits is always detected: two different messages of
  one length whose bits differ only within 32 consecutive positions, at any alignment and
  so across up to five bytes, have different CRCs.
\<close>

theorem crc32_burst_detected:
  assumes "length buf' = length buf" and "buf' \<noteq> buf"
    and "\<And>k. k < 8 * length buf \<Longrightarrow> k < i \<or> i + 32 \<le> k \<Longrightarrow> message_bit buf' k = message_bit buf k"
  shows "crc32_compute buf' \<noteq> crc32_compute buf"
proof
  assume "crc32_compute buf' = crc32_compute buf"
  then have "divide 0 (concat (map byte_bits buf')) = divide 0 (concat (map byte_bits buf))"
    by (simp add: crc32_compute_def crc32_update_divide)
  then have "concat (map byte_bits buf') = concat (map byte_bits buf)"
    by (rule divide_burst [where i = i, rotated 2]) (use assms(1,3) in \<open>auto simp: length_bits nth_bits\<close>)
  with assms(1,2) show False using concat_bits_inj by blast
qed

theorem crc32_burst_detected_witness:
  "crc32_compute [1, 2 + 0xF0, 0, 7, 9, 0x80, 3] \<noteq> crc32_compute [1, 2, 0, 7, 9, 0x8F, 3]"
proof (rule crc32_burst_detected [where i = 12])
  fix k :: nat
  assume k: "k < 8 * length [1, 2, 0, 7, 9, 0x8F, 3 :: byte]" and "k < 12 \<or> 12 + 32 \<le> k"
  then have "k \<in> set ([0..<12] @ [44..<56])" by (auto simp del: upt_rec_numeral)
  moreover have "\<forall>k \<in> set ([0..<12] @ [44..<56]). message_bit [1, 2 + 0xF0, 0, 7, 9, 0x80, 3] k
      = message_bit [1, 2, 0, 7, 9, 0x8F, 3] k" by code_simp
  ultimately show "message_bit [1, 2 + 0xF0, 0, 7, 9, 0x80, 3] k = message_bit [1, 2, 0, 7, 9, 0x8F, 3] k"
    by (rule bspec [rotated])
qed simp_all

end
