(* ===== verification/Ldisc.thy ===== *)
theory Ldisc
  imports Telnet
begin

text \<open>
  The line discipline of \<open>putty/ldisc.c\<close>: local echo and local line editing between the
  keyboard and the backend.

  The state is the structure \<open>ldisc_tag\<close> (the size \<open>bufsiz\<close> of the allocation included)
  and \<open>scroll_to_end\<close> of the terminal.  What the discipline does to the front end and to the
  backend is the list \<open>sent\<close> of events, in order.  A record \<open>world\<close> answers what the
  macros \<open>ECHOING\<close> and \<open>EDITING\<close> ask of the backend and the terminal in the automatic
  modes, for the events so far, and says whether the terminal is in UTF-8 mode.  A result
  \<open>None\<close> is an access outside the buffer or a failed assertion.
\<close>

unbundle bit_operations_syntax

section \<open>State and events\<close>

datatype force = FORCE_ON | FORCE_OFF | AUTO

datatype ldisc_event =
    Echo "byte list"
  | BackSend "byte list"
  | BackSpecial Telnet_Special
  | FrontKeypress
  | NoPaste
  | UpdateToolbar
  | FrontEchoEdit bool bool

record world =
  auto_echo :: "ldisc_event list \<Rightarrow> bool"
  auto_edit :: "ldisc_event list \<Rightarrow> bool"
  in_utf :: bool

text \<open>The protocol is one of those that the code distinguishes.\<close>

datatype protocol = PROT_RAW | PROT_TELNET | PROT_OTHER

record ldisc =
  telnet_keyboard :: bool
  telnet_newline :: bool
  protocol :: protocol
  localecho :: force
  localedit :: force
  buf :: "byte list"
  bufsiz :: nat
  quotenext :: bool
  scroll_to_end :: bool
  sent :: "ldisc_event list"

definition ECHOING :: "world \<Rightarrow> ldisc \<Rightarrow> bool" where
  "ECHOING w l \<longleftrightarrow> localecho l = FORCE_ON \<or> localecho l = AUTO \<and> auto_echo w (sent l)"

definition EDITING :: "world \<Rightarrow> ldisc \<Rightarrow> bool" where
  "EDITING w l \<longleftrightarrow> localedit l = FORCE_ON \<or> localedit l = AUTO \<and> auto_edit w (sent l)"

definition add_event :: "ldisc_event \<Rightarrow> ldisc \<Rightarrow> ldisc" where
  "add_event e l = l\<lparr>sent := sent l @ [e]\<rparr>"

definition ldisc_write :: "byte list \<Rightarrow> ldisc \<Rightarrow> ldisc" where
  "ldisc_write b l = add_event (Echo b) l"

definition back_send :: "byte list \<Rightarrow> ldisc \<Rightarrow> ldisc" where
  "back_send b l = add_event (BackSend b) l"

definition back_special :: "Telnet_Special \<Rightarrow> ldisc \<Rightarrow> ldisc" where
  "back_special s l = add_event (BackSpecial s) l"

section \<open>Display\<close>

definition plen :: "world \<Rightarrow> byte \<Rightarrow> nat" where
  "plen w c =
     (if 32 \<le> c \<and> c \<le> 126 \<or> 160 \<le> c \<and> \<not> in_utf w then 1
      else if c < 128 then 2
      else if in_utf w \<and> 0xC0 \<le> c then 1
      else if in_utf w \<and> 0x80 \<le> c \<and> c < 0xC0 then 0
      else 4)"

definition hex_digit :: "byte \<Rightarrow> byte" where
  "hex_digit n = (if n < 10 then 48 + n else 55 + n)"

text \<open>The bytes that \<open>pwrite\<close> hands to \<open>c_write\<close>; the last form is \<open>sprintf(cc, "<%02X>", c)\<close>.\<close>

definition pwrite_bytes :: "world \<Rightarrow> byte \<Rightarrow> byte list" where
  "pwrite_bytes w c =
     (if 32 \<le> c \<and> c \<le> 126 \<or> \<not> in_utf w \<and> 0xA0 \<le> c \<or> in_utf w \<and> 0x80 \<le> c then [c]
      else if c < 128 then [94, if c = 127 then 63 else c + 0x40]
      else [60, hex_digit (c div 16), hex_digit (c mod 16), 62])"

definition pwrite :: "world \<Rightarrow> byte \<Rightarrow> ldisc \<Rightarrow> ldisc" where
  "pwrite w c l = ldisc_write (pwrite_bytes w c) l"

definition char_start :: "world \<Rightarrow> byte \<Rightarrow> bool" where
  "char_start w c \<longleftrightarrow> (if in_utf w then c < 0x80 \<or> 0xC0 \<le> c else True)"

fun bsb :: "nat \<Rightarrow> ldisc \<Rightarrow> ldisc" where
  "bsb 0 l = l"
| "bsb (Suc n) l = bsb n (ldisc_write [8, 32, 8] l)"

section \<open>Set-up\<close>

record ldisc_conf =
  conf_telnet_keyboard :: bool
  conf_telnet_newline :: bool
  conf_protocol :: protocol
  conf_localecho :: force
  conf_localedit :: force

definition ldisc_configure :: "ldisc_conf \<Rightarrow> ldisc \<Rightarrow> ldisc" where
  "ldisc_configure cf l =
     l\<lparr>telnet_keyboard := conf_telnet_keyboard cf, telnet_newline := conf_telnet_newline cf,
       protocol := conf_protocol cf, localecho := conf_localecho cf, localedit := conf_localedit cf\<rparr>"

definition ldisc_create :: "ldisc_conf \<Rightarrow> ldisc" where
  "ldisc_create cf = ldisc_configure cf
     \<lparr>telnet_keyboard = False, telnet_newline = False, protocol = PROT_OTHER, localecho = AUTO,
      localedit = AUTO, buf = [], bufsiz = 0, quotenext = False, scroll_to_end = False, sent = []\<rparr>"

definition ldisc_echoedit_update :: "world \<Rightarrow> ldisc \<Rightarrow> ldisc" where
  "ldisc_echoedit_update w l = add_event (FrontEchoEdit (ECHOING w l) (EDITING w l)) l"

section \<open>Editing\<close>

text \<open>Erase the last byte of the buffer, on the screen too when echoing.\<close>

definition erase_last :: "world \<Rightarrow> ldisc \<Rightarrow> ldisc" where
  "erase_last w l =
     (let l1 = (if ECHOING w l then bsb (plen w (last (buf l))) l else l)
      in l1\<lparr>buf := butlast (buf l1)\<rparr>)"

text \<open>
  The loops of \<open>^H\<close>, \<open>^W\<close> and \<open>^U\<close>; each is given the length of the buffer as the
  number of rounds it may take.  The first one erases before it tests, and runs below the
  start of the buffer when the first byte does not start a character.
\<close>

fun erase_char :: "nat \<Rightarrow> world \<Rightarrow> ldisc \<Rightarrow> ldisc option" where
  "erase_char 0 w l = None"
| "erase_char (Suc n) w l =
     (let c = last (buf l); l1 = erase_last w l
      in if char_start w c then Some l1 else erase_char n w l1)"

definition isspace :: "byte \<Rightarrow> bool" where
  "isspace c \<longleftrightarrow> c = 32 \<or> 9 \<le> c \<and> c \<le> 13"

fun erase_word :: "nat \<Rightarrow> world \<Rightarrow> ldisc \<Rightarrow> ldisc" where
  "erase_word 0 w l = l"
| "erase_word (Suc n) w l =
     (let c = last (buf l); l1 = erase_last w l
      in if buf l1 \<noteq> [] \<and> isspace (last (buf l1)) \<and> \<not> isspace c then l1 else erase_word n w l1)"

fun erase_line :: "nat \<Rightarrow> world \<Rightarrow> ldisc \<Rightarrow> ldisc" where
  "erase_line 0 w l = l"
| "erase_line (Suc n) w l = erase_line n w (erase_last w l)"

fun redraw :: "world \<Rightarrow> byte list \<Rightarrow> ldisc \<Rightarrow> ldisc" where
  "redraw w [] l = l"
| "redraw w (c # cs) l = redraw w cs (pwrite w c l)"

text \<open>Control characters: \<open>CTRL(x)\<close> is \<open>x ^ '@'\<close>, and \<open>KCTRL(x)\<close> has the bit 0x100 set.\<close>

definition CTRL :: "char \<Rightarrow> int" where
  "CTRL x = of_char x XOR 64"

definition KCTRL :: "char \<Rightarrow> int" where
  "KCTRL x = (of_char x XOR 64) OR 0x100"

definition store_char :: "world \<Rightarrow> int \<Rightarrow> ldisc \<Rightarrow> ldisc" where
  "store_char w c l =
     (let l1 = (if length (buf l) \<ge> bufsiz l then l\<lparr>bufsiz := length (buf l) + 256\<rparr> else l);
          l2 = l1\<lparr>buf := buf l1 @ [word_of_int c]\<rparr>;
          l3 = (if ECHOING w l2 then pwrite w (word_of_int c) l2 else l2)
      in l3\<lparr>quotenext := False\<rparr>)"

definition send_line :: "world \<Rightarrow> ldisc \<Rightarrow> ldisc" where
  "send_line w l =
     (let l1 = (if buf l \<noteq> [] then back_send (buf l) l else l);
          l2 = (if protocol l1 = PROT_RAW then back_send [13, 10] l1
                else if protocol l1 = PROT_TELNET \<and> telnet_newline l1 then back_special TS_EOL l1
                else back_send [13] l1);
          l3 = (if ECHOING w l2 then ldisc_write [13, 10] l2 else l2)
      in l3\<lparr>buf := []\<rparr>)"

definition kill_line :: "world \<Rightarrow> int \<Rightarrow> ldisc \<Rightarrow> ldisc" where
  "kill_line w c l =
     (let l1 = back_special TS_EL (erase_line (length (buf l)) w l)
      in if \<not> telnet_keyboard l1 then store_char w c l1
         else let l2 = (if c = CTRL (CHR ''C'') then back_special TS_IP l1 else l1);
                  l3 = (if c = CTRL (CHR ''Z'') then back_special TS_SUSP l2 else l2)
              in if c = CTRL (CHR 0x5C) then back_special TS_ABORT l3 else l3)"

text \<open>One character of the editing loop, after the adjustment of \<open>c\<close>.\<close>

definition edit_char :: "world \<Rightarrow> int \<Rightarrow> ldisc \<Rightarrow> ldisc option" where
  "edit_char w c l =
     (if quotenext l then Some (store_char w c l)
      else if c = KCTRL (CHR ''H'') \<or> c = KCTRL (CHR ''?'') then
        (if buf l \<noteq> [] then erase_char (length (buf l)) w l else Some l)
      else if c = CTRL (CHR ''W'') then Some (erase_word (length (buf l)) w l)
      else if c = CTRL (CHR ''U'') \<or> c = CTRL (CHR ''C'') \<or> c = CTRL (CHR 0x5C) \<or> c = CTRL (CHR ''Z'') then
        Some (kill_line w c l)
      else if c = CTRL (CHR ''R'') then
        Some (if ECHOING w l then redraw w (buf l) (ldisc_write [94, 82, 13, 10] l) else l)
      else if c = CTRL (CHR ''V'') then Some (l\<lparr>quotenext := True\<rparr>)
      else if c = CTRL (CHR ''D'') then
        Some (if buf l = [] then back_special TS_EOF l
              else (back_send (buf l) l)\<lparr>buf := []\<rparr>)
      else if c = CTRL (CHR ''J'') then
        Some (if protocol l = PROT_RAW \<and> buf l \<noteq> [] \<and> last (buf l) = 13
              then send_line w (erase_last w l)
              else store_char w c l)
      else if c = KCTRL (CHR ''M'') then Some (send_line w l)
      else Some (store_char w c l))"

fun edit_loop :: "world \<Rightarrow> bool \<Rightarrow> int \<Rightarrow> byte list \<Rightarrow> ldisc \<Rightarrow> ldisc option" where
  "edit_loop w interactive keyflag [] l = Some l"
| "edit_loop w interactive keyflag (b # bs) l =
     (let c0 = uint b + keyflag;
          c = (if \<not> interactive \<and> c0 = 13 then c0 + KCTRL (CHR ''@'') else c0)
      in case edit_char w c l of None \<Rightarrow> None
         | Some l1 \<Rightarrow> edit_loop w interactive keyflag bs l1)"

section \<open>Sending without editing\<close>

fun unsend :: "world \<Rightarrow> byte list \<Rightarrow> ldisc \<Rightarrow> ldisc" where
  "unsend w [] l = l"
| "unsend w (c # cs) l = unsend w cs (bsb (plen w c) l)"

definition special_key :: "byte list \<Rightarrow> ldisc \<Rightarrow> ldisc" where
  "special_key b l =
     (let c = hd b in
      if c = 13 then
        (if protocol l = PROT_TELNET \<and> telnet_newline l then back_special TS_EOL l else back_send [13] l)
      else if c = 127 \<or> c = 8 then
        (if telnet_keyboard l then back_special TS_EC l else back_send b l)
      else if c = 3 then
        (if telnet_keyboard l then back_special TS_IP l else back_send b l)
      else if c = 26 then
        (if telnet_keyboard l then back_special TS_SUSP l else back_send b l)
      else back_send b l)"

definition send_direct :: "world \<Rightarrow> int \<Rightarrow> byte list \<Rightarrow> ldisc \<Rightarrow> ldisc" where
  "send_direct w keyflag b l =
     (let l1 = (if buf l \<noteq> []
                then (unsend w (rev (buf l)) (back_send (buf l) l))\<lparr>buf := []\<rparr> else l)
      in if b = [] then l1
         else let l2 = (if ECHOING w l1 then ldisc_write b l1 else l1)
              in if keyflag \<noteq> 0 \<and> protocol l2 = PROT_TELNET \<and> length b = 1 then special_key b l2
                 else back_send b l2)"

text \<open>
  \<open>ldisc_send\<close>: the data are the \<open>len\<close> bytes at \<open>buf\<close>, or for a negative \<open>len\<close> the
  string there.
\<close>

definition ldisc_send :: "world \<Rightarrow> byte list \<Rightarrow> int \<Rightarrow> bool \<Rightarrow> ldisc \<Rightarrow> ldisc option" where
  "ldisc_send w b len interactive l =
     (if len = 0 then Some l
      else
        let l1 = (if \<not> scroll_to_end l then add_event UpdateToolbar (l\<lparr>scroll_to_end := True\<rparr>) else l);
            l2 = add_event FrontKeypress l1;
            l3 = (if interactive then add_event NoPaste l2 else l2);
            keyflag = (if len < 0 then KCTRL (CHR ''@'') else 0);
            b1 = (if len < 0 then b else take (nat len) b)
        in if EDITING w l3 then edit_loop w interactive keyflag b1 l3
           else Some (send_direct w keyflag b1 l3))"

end
