(* ===== verification/Ldisc_Props.thy ===== *)
theory Ldisc_Props
  imports Ldisc Telnet_Props
begin

text \<open>
  The properties of the line discipline: the local echo and the edit buffer stay in step, and
  complete lines reach the backend; with the telnet backend, they reach the wire.
\<close>

section \<open>The line on the screen\<close>

text \<open>
  What the echoed bytes make of the line the cursor is on, for a display wide enough for it:
  the characters on the line and the column of the cursor.  CR returns to the margin, LF
  goes to a fresh line, BS steps back, and any other byte is written over what is there.
\<close>

type_synonym tty_line = "byte list \<times> nat"

fun tty_byte :: "byte \<Rightarrow> tty_line \<Rightarrow> tty_line" where
  "tty_byte b (text, col) =
     (if b = 13 then (text, 0)
      else if b = 10 then ([], col)
      else if b = 8 then (text, col - 1)
      else (if col < length text then text[col := b] else text @ replicate (col - length text) 32 @ [b], col + 1))"

fun tty_event :: "ldisc_event \<Rightarrow> tty_line \<Rightarrow> tty_line" where
  "tty_event (Echo bs) s = fold tty_byte bs s"
| "tty_event e s = s"

definition tty :: "ldisc_event list \<Rightarrow> tty_line" where
  "tty es = fold tty_event es ([], 0)"

definition on_tty :: "tty_line \<Rightarrow> byte list \<Rightarrow> bool" where
  "on_tty s text \<longleftrightarrow> snd s = length text \<and> (\<exists>n. fst s = text @ replicate n 32)"

definition echoed :: "world \<Rightarrow> byte list \<Rightarrow> byte list" where
  "echoed w bs = concat (map (pwrite_bytes w) bs)"

definition in_step :: "world \<Rightarrow> ldisc \<Rightarrow> bool" where
  "in_step w l \<longleftrightarrow> localecho l = FORCE_ON \<and> on_tty (tty (sent l)) (echoed w (buf l))"

lemmas ldisc_events = add_event_def ldisc_write_def back_send_def back_special_def

lemma tty_events [simp]:
  "tty (sent (ldisc_write b l)) = fold tty_byte b (tty (sent l))"
  "tty (sent (back_send b l)) = tty (sent l)" "tty (sent (back_special s l)) = tty (sent l)"
  by (simp_all add: ldisc_events tty_def)

lemma fields_events [simp]:
  "buf (ldisc_write b l) = buf l" "buf (back_send b l) = buf l" "buf (back_special s l) = buf l"
  "localecho (ldisc_write b l) = localecho l" "localecho (back_send b l) = localecho l"
  "localecho (back_special s l) = localecho l"
  "quotenext (ldisc_write b l) = quotenext l" "quotenext (back_send b l) = quotenext l"
  "quotenext (back_special s l) = quotenext l" "protocol (ldisc_write b l) = protocol l" 
  "telnet_newline (ldisc_write b l) = telnet_newline l" 
  by (simp_all add: ldisc_events)

lemma word_ne_less: "(32 :: byte) \<le> c \<Longrightarrow> c \<noteq> 13 \<and> c \<noteq> 10 \<and> c \<noteq> 8"
  by (auto simp: word_le_def)

lemma on_tty_printable:
  assumes "on_tty s text" and "32 \<le> b"
  shows "on_tty (tty_byte b s) (text @ [b])"
proof -
  obtain n where s: "s = (text @ replicate n 32, length text)"
    using assms(1) by (cases s) (auto simp: on_tty_def)
  show ?thesis using word_ne_less [OF assms(2)]
    by (cases n) (auto simp: s on_tty_def list_update_append)
qed

lemma on_tty_text:
  "on_tty s line \<Longrightarrow> \<forall>b \<in> set bs. 32 \<le> b \<Longrightarrow> on_tty (fold tty_byte bs s) (line @ bs)"
proof (induction bs arbitrary: s line)
  case (Cons b bs)
  then show ?case using Cons.IH [of "tty_byte b s" "line @ [b]"] on_tty_printable [of s line b] by simp
qed simp

lemma on_tty_erase:
  assumes "on_tty s (text @ [x])"
  shows "on_tty (fold tty_byte [8, 32, 8] s) text"
proof -
  obtain n where s: "s = (text @ x # replicate n 32, Suc (length text))"
    using assms by (cases s) (auto simp: on_tty_def)
  have "fold tty_byte [8, 32, 8] s = (text @ replicate (Suc n) 32, length text)"
    unfolding s by (simp add: list_update_append)
  then show ?thesis unfolding on_tty_def by (metis fst_conv snd_conv)
qed

lemma on_tty_newline: "on_tty (fold tty_byte (bs @ [13, 10]) s) []"
  by (cases "fold tty_byte bs s") (simp add: on_tty_def)

lemma on_tty_crlf: "on_tty (fold tty_byte [13, 10] s) []"
  using on_tty_newline [of "[]" s] by simp

lemma bsb_simps [simp]:
  "buf (bsb n l) = buf l" "localecho (bsb n l) = localecho l" "quotenext (bsb n l) = quotenext l"
  by (induction n l rule: bsb.induct) auto

lemma on_tty_bsb:
  "on_tty (tty (sent l)) (text @ xs) \<Longrightarrow> length xs = n \<Longrightarrow> on_tty (tty (sent (bsb n l))) text"
proof (induction n l arbitrary: xs rule: bsb.induct)
  case (2 n l)
  then obtain ys y where xs: "xs = ys @ [y]" "length ys = n" by (metis length_Suc_conv_rev)
  have "on_tty (tty (sent (ldisc_write [8, 32, 8] l))) (text @ ys)"
    using on_tty_erase [of "tty (sent l)" "text @ ys" y] 2(2) xs(1) by (simp only: tty_events append_assoc)
  from 2(1) [OF this xs(2)] show ?case by simp
qed simp

lemma hex_digit_printable: "n < 16 \<Longrightarrow> 32 \<le> hex_digit n"
  by (auto simp: hex_digit_def word_le_def word_less_def uint_word_ariths)

lemma caret_printable: "c < 128 \<Longrightarrow> c \<noteq> 127 \<Longrightarrow> (32 :: byte) \<le> c + 0x40"
  by (auto simp: word_le_def word_less_def uint_word_ariths)

lemma hex_nibbles: "(c :: byte) div 16 < 16" "(c :: byte) mod 16 < 16"
  using unsigned_less[of c, where ?'a = int] by (simp_all add: word_less_def uint_div uint_mod)

lemma pwrite_displays:
  assumes "\<not> in_utf w"
  shows "length (pwrite_bytes w c) = plen w c" and "\<forall>b \<in> set (pwrite_bytes w c). 32 \<le> b"
proof -
  consider "32 \<le> c \<and> c \<le> 126 \<or> 160 \<le> c" | "\<not> (32 \<le> c \<and> c \<le> 126 \<or> 160 \<le> c)" "c < 128"
    | "\<not> (32 \<le> c \<and> c \<le> 126 \<or> 160 \<le> c)" "\<not> c < 128"
    by blast
  then have "length (pwrite_bytes w c) = plen w c \<and> (\<forall>b \<in> set (pwrite_bytes w c). 32 \<le> b)"
  proof cases
    case 1
    then have "32 \<le> c" by (auto intro: order_trans[of _ 160])
    then show ?thesis using 1 assms by (simp add: pwrite_bytes_def plen_def)
  next
    case 2
    then show ?thesis using assms caret_printable [of c] by (auto simp: pwrite_bytes_def plen_def)
  next
    case 3
    then show ?thesis using assms hex_nibbles[of c]
      by (simp add: pwrite_bytes_def plen_def hex_digit_printable)
  qed
  then show "length (pwrite_bytes w c) = plen w c" "\<forall>b \<in> set (pwrite_bytes w c). 32 \<le> b" by auto
qed

lemma echoed_simps [simp]:
  "echoed w [] = []" "echoed w (a @ b) = echoed w a @ echoed w b"
  "echoed w (c # b) = pwrite_bytes w c @ echoed w b"
  by (simp_all add: echoed_def)

lemma fields_pwrite [simp]:
  "buf (pwrite w c l) = buf l" "localecho (pwrite w c l) = localecho l" "quotenext (pwrite w c l) = quotenext l"
  by (simp_all add: pwrite_def)

lemma on_tty_pwrite:
  "\<not> in_utf w \<Longrightarrow> on_tty (tty (sent l)) text \<Longrightarrow> on_tty (tty (sent (pwrite w c l))) (text @ pwrite_bytes w c)"
  by (simp add: pwrite_def on_tty_text pwrite_displays)

lemma in_step_erase_last:
  assumes "\<not> in_utf w" "in_step w l" "buf l \<noteq> []"
  shows "in_step w (erase_last w l)"
proof -
  have "echoed w (buf l) = echoed w (butlast (buf l)) @ pwrite_bytes w (last (buf l))"
    using assms(3) by (metis append_butlast_last_id echoed_simps append_Nil2)
  then show ?thesis
    using assms on_tty_bsb [of l "echoed w (butlast (buf l))" "pwrite_bytes w (last (buf l))"]
    by (simp add: in_step_def erase_last_def ECHOING_def Let_def pwrite_displays)
qed

lemma buf_erase_last [simp]: "buf (erase_last w l) = butlast (buf l)"
  by (simp add: erase_last_def Let_def)

lemma quotenext_erase_last [simp]: "quotenext (erase_last w l) = quotenext l"
  by (simp add: erase_last_def Let_def)

lemma in_step_erase_line:
  "\<not> in_utf w \<Longrightarrow> in_step w l \<Longrightarrow> n = length (buf l) \<Longrightarrow>
   in_step w (erase_line n w l) \<and> buf (erase_line n w l) = []"
proof (induction n w l rule: erase_line.induct)
  case (2 n w l)
  have b: "buf l \<noteq> []" and n: "n = length (buf (erase_last w l))" using 2(4) by auto
  show ?case using 2(1)[OF 2(2) in_step_erase_last[OF 2(2,3) b] n] by simp
qed simp

lemma in_step_erase_word:
  "\<not> in_utf w \<Longrightarrow> in_step w l \<Longrightarrow> n = length (buf l) \<Longrightarrow> in_step w (erase_word n w l)"
proof (induction n w l rule: erase_word.induct)
  case (2 n w l)
  have b: "buf l \<noteq> []" and n: "n = length (buf (erase_last w l))" using 2(4) by auto
  show ?case using 2(1)[OF refl refl _ 2(2) in_step_erase_last[OF 2(2,3) b] n] in_step_erase_last[OF 2(2,3) b]
    by (simp add: Let_def)
qed simp

lemma in_step_store_char: "\<not> in_utf w \<Longrightarrow> in_step w l \<Longrightarrow> in_step w (store_char w c l)"
  by (simp add: store_char_def Let_def in_step_def ECHOING_def on_tty_pwrite)

lemma in_step_send_line: "in_step w l \<Longrightarrow> in_step w (send_line w l)"
  using on_tty_crlf by (simp add: send_line_def Let_def in_step_def ECHOING_def del: fold_simps)

lemma in_step_special [simp]: "in_step w (back_special s l) = in_step w l"
  by (simp add: in_step_def)

lemma in_step_kill_line: "\<not> in_utf w \<Longrightarrow> in_step w l \<Longrightarrow> in_step w (kill_line w c l)"
  using in_step_erase_line[of w l "length (buf l)"] by (simp add: kill_line_def Let_def in_step_store_char)

lemma on_tty_redraw: "\<not> in_utf w \<Longrightarrow> on_tty (tty (sent l)) line \<Longrightarrow>
    on_tty (tty (sent (redraw w bs l))) (line @ echoed w bs)
    \<and> buf (redraw w bs l) = buf l \<and> localecho (redraw w bs l) = localecho l"
proof (induction w bs l arbitrary: line rule: redraw.induct)
  case (2 w c cs l)
  from 2(1) [OF 2(2) on_tty_pwrite [OF 2(2,3), of c]] show ?case by simp
qed simp

lemma in_step_edit_char:
  assumes "\<not> in_utf w" "in_step w l" "c \<noteq> 4"
  shows "\<exists>l'. edit_char w c l = Some l' \<and> in_step w l'"
proof -
  have e: "\<exists>l'. erase_char (length (buf l)) w l = Some l' \<and> in_step w l'" if "buf l \<noteq> []"
    using that assms in_step_erase_last[of w l] by (cases "length (buf l)") (auto simp: Let_def char_start_def)
  have "on_tty (tty (sent (ldisc_write [94, 82, 13, 10] l))) []"
    using on_tty_newline [of "[94, 82]" "tty (sent l)"] by (simp only: tty_events append.simps)
  from on_tty_redraw [OF assms(1) this, of "buf l"] assms(2)
  have r: "in_step w (redraw w (buf l) (ldisc_write [94, 82, 13, 10] l))" by (simp add: in_step_def)
  have q: "in_step w (l\<lparr>quotenext := True\<rparr>)" using assms(2) by (simp add: in_step_def)
  have D: "CTRL CHR ''D'' = 4" by (simp add: CTRL_def)
  show ?thesis
    unfolding edit_char_def D using assms e r q
    by (auto simp: in_step_store_char in_step_kill_line in_step_erase_word in_step_send_line in_step_erase_last)
qed

lemma in_step_edit_loop:
  assumes "\<not> in_utf w" "in_step w l" "4 \<notin> set b" "keyflag = 0 \<or> keyflag = KCTRL (CHR ''@'')"
  shows "\<exists>l'. edit_loop w interactive keyflag b l = Some l' \<and> in_step w l'"
  using assms
proof (induction b arbitrary: l)
  case (Cons c b)
  let ?c0 = "uint c + keyflag"
  let ?c = "if \<not> interactive \<and> ?c0 = 13 then ?c0 + KCTRL (CHR ''@'') else ?c0"
  have "KCTRL (CHR ''@'') = 256" by (simp add: KCTRL_def)
  moreover have "uint c \<noteq> 4" using Cons.prems(3) by (auto simp: word_uint_eq_iff)
  moreover have "252 + uint c \<noteq> 0" 
  proof -
    have "0 \<le> uint c" by simp
    then show ?thesis by linarith
  qed
  ultimately have "?c \<noteq> 4" using Cons.prems(4) by auto
  then obtain l1 where "edit_char w ?c l = Some l1" "in_step w l1"
    using in_step_edit_char[OF Cons.prems(1,2)] by blast
  then show ?case using Cons by (simp add: Let_def)
qed simp

text \<open>What \<open>ldisc_send\<close> does before it looks at the data.\<close>

definition key_pressed :: "bool \<Rightarrow> ldisc \<Rightarrow> ldisc" where
  "key_pressed interactive l =
     (let l1 = (if \<not> scroll_to_end l then add_event UpdateToolbar (l\<lparr>scroll_to_end := True\<rparr>) else l);
          l2 = add_event FrontKeypress l1
      in if interactive then add_event NoPaste l2 else l2)"

lemma ldisc_send_editing:
  assumes "localedit l = FORCE_ON" and "len \<noteq> 0"
  shows "ldisc_send w b len interactive l =
    edit_loop w interactive (if len < 0 then KCTRL (CHR ''@'') else 0)
      (if len < 0 then b else take (nat len) b) (key_pressed interactive l)"
  using assms by (simp add: ldisc_send_def key_pressed_def Let_def EDITING_def add_event_def)

lemma key_pressed_fields [simp]:
  "buf (key_pressed i l) = buf l" "localecho (key_pressed i l) = localecho l"
  "localedit (key_pressed i l) = localedit l" "quotenext (key_pressed i l) = quotenext l"
  "tty (sent (key_pressed i l)) = tty (sent l)"
  by (simp_all add: key_pressed_def Let_def add_event_def tty_def)


section \<open>Typed lines\<close>

fun to_back :: "ldisc_event \<Rightarrow> bool" where
  "to_back (BackSend b) = True"
| "to_back (BackSpecial s) = True"
| "to_back e = False"

definition backs :: "ldisc \<Rightarrow> ldisc_event list" where
  "backs l = filter to_back (sent l)"

lemma backs_events [simp]:
  "backs (ldisc_write b l) = backs l" "backs (back_send b l) = backs l @ [BackSend b]"
  "backs (back_special s l) = backs l @ [BackSpecial s]" "backs (l\<lparr>buf := b\<rparr>) = backs l"
  "backs (l\<lparr>bufsiz := n\<rparr>) = backs l" "backs (l\<lparr>quotenext := q\<rparr>) = backs l"
  by (simp_all add: ldisc_events backs_def)

text \<open>The settings of the line discipline, which no key changes.\<close>

definition settings :: "ldisc \<Rightarrow> protocol \<times> bool" where
  "settings l = (protocol l, telnet_newline l)"

lemma settings_events [simp]:
  "settings (ldisc_write b l) = settings l" "settings (back_send b l) = settings l"
  "settings (back_special s l) = settings l" "settings (l\<lparr>buf := b\<rparr>) = settings l"
  "settings (l\<lparr>bufsiz := n\<rparr>) = settings l" "settings (l\<lparr>quotenext := q\<rparr>) = settings l"
  by (simp_all add: ldisc_events settings_def)

definition newline_events :: "ldisc \<Rightarrow> ldisc_event list" where
  "newline_events l = (if protocol l = PROT_RAW then [BackSend [13, 10]]
     else if protocol l = PROT_TELNET \<and> telnet_newline l then [BackSpecial TS_EOL] else [BackSend [13]])"

definition line_events :: "ldisc \<Rightarrow> byte list \<Rightarrow> ldisc_event list" where
  "line_events l line = (if line = [] then [] else [BackSend line]) @ newline_events l"

lemma newline_settings: "settings l = settings l' \<Longrightarrow> newline_events l = newline_events l'"
  by (simp add: newline_events_def settings_def)

lemma line_settings: "settings l = settings l' \<Longrightarrow> line_events l = line_events l'"
  using newline_settings[of l l'] by (intro ext) (simp only: line_events_def)

lemma store_char_effect:
  "buf (store_char w c l) = buf l @ [word_of_int c]" "backs (store_char w c l) = backs l"
  "settings (store_char w c l) = settings l" "\<not> quotenext (store_char w c l)"
  by (simp_all add: store_char_def Let_def pwrite_def)

lemma send_line_effect:
  "buf (send_line w l) = []" "backs (send_line w l) = backs l @ line_events l (buf l)"
  "settings (send_line w l) = settings l" "quotenext (send_line w l) = quotenext l"
proof -
  have [simp]: "protocol (back_send b l) = protocol l" "telnet_newline (back_send b l) = telnet_newline l"
    "quotenext (back_send b l) = quotenext l" "quotenext (back_special s l) = quotenext l" for b s
    by (simp_all add: ldisc_events)
  show "buf (send_line w l) = []" "settings (send_line w l) = settings l" "quotenext (send_line w l) = quotenext l"
    by (simp_all add: send_line_def Let_def)
  show "backs (send_line w l) = backs l @ line_events l (buf l)"
    by (simp add: send_line_def Let_def line_events_def newline_events_def)
qed

lemmas controls = CTRL_def KCTRL_def

lemma edit_store: "32 \<le> c \<Longrightarrow> c < 256 \<Longrightarrow> \<not> quotenext l \<Longrightarrow> edit_char w c l = Some (store_char w c l)"
  by (simp add: edit_char_def controls)

lemma edit_return: "\<not> quotenext l \<Longrightarrow> edit_char w 0x10D l = Some (send_line w l)"
  by (simp add: edit_char_def controls)

lemma backs_key_pressed [simp]: "backs (key_pressed i l) = backs l" "settings (key_pressed i l) = settings l"
  by (simp_all add: key_pressed_def Let_def add_event_def backs_def settings_def)

lemma localedit_events [simp]:
  "localedit (ldisc_write b l) = localedit l" "localedit (back_send b l) = localedit l"
  "localedit (back_special s l) = localedit l" "localedit (pwrite w c l) = localedit l"
  "localedit (store_char w k l) = localedit l" "localedit (send_line w l) = localedit l"
proof -
  show *: "localedit (ldisc_write b l) = localedit l" "localedit (back_send b l) = localedit l"
    "localedit (back_special s l) = localedit l" for b l s by (simp_all add: ldisc_events)
  show p: "localedit (pwrite w c l) = localedit l" for c :: byte and l by (simp add: pwrite_def *)
  show "localedit (store_char w k l) = localedit l" by (simp add: store_char_def Let_def p)
  show "localedit (send_line w l) = localedit l" by (simp add: send_line_def Let_def *)
qed

text \<open>
  A line at rest: editing is on and nothing is pending.  \<open>typing_on l bs l'\<close>: after the
  keys, the bytes \<open>bs\<close> have been added to the line and nothing else has happened.
\<close>

definition typing_on :: "ldisc \<Rightarrow> byte list \<Rightarrow> ldisc \<Rightarrow> bool" where
  "typing_on l bs l' \<longleftrightarrow> buf l' = buf l @ bs \<and> backs l' = backs l \<and> settings l' = settings l
     \<and> localedit l' = localedit l \<and> \<not> quotenext l'"

definition line_sent :: "ldisc \<Rightarrow> byte list \<Rightarrow> ldisc \<Rightarrow> bool" where
  "line_sent l line l' \<longleftrightarrow> buf l' = [] \<and> backs l' = backs l @ line_events l line \<and> settings l' = settings l
     \<and> localedit l' = localedit l \<and> \<not> quotenext l'"

lemma typing_on_trans: "typing_on l a l1 \<Longrightarrow> typing_on l1 b l2 \<Longrightarrow> typing_on l (a @ b) l2"
  by (simp add: typing_on_def)

lemma edit_text:
  assumes "\<forall>c \<in> set line. 32 \<le> c" "\<not> quotenext l"
  shows "\<exists>l'. edit_loop w i 0 (line @ rest) l = edit_loop w i 0 rest l' \<and> typing_on l line l'"
  using assms
proof (induction line arbitrary: l)
  case Nil
  then show ?case by (auto simp: typing_on_def)
next
  case (Cons c line)
  have u: "32 \<le> uint c" "uint c < 256" using Cons.prems(1) unsigned_less[of c, where ?'a = int]
    by (simp_all add: word_le_def)
  let ?l = "store_char w (uint c) l"
  have s: "edit_loop w i 0 (c # line @ rest) l = edit_loop w i 0 (line @ rest) ?l"
    using edit_store[OF u Cons.prems(2)] u by simp
  have "typing_on l [c] ?l" by (simp add: typing_on_def store_char_effect)
  moreover obtain l' where "edit_loop w i 0 (line @ rest) ?l = edit_loop w i 0 rest l'" "typing_on ?l line l'"
    using Cons.IH[of ?l] Cons.prems(1) by (auto simp: store_char_effect)
  ultimately show ?case using s typing_on_trans[of l "[c]" ?l line l'] by auto
qed

lemma send_line_sent:
  assumes "typing_on l line u" and "buf l = []"
  shows "line_sent l line (send_line w u)"
  using assms line_settings[of u l] by (simp add: typing_on_def line_sent_def send_line_effect)

section \<open>Calls of the line discipline\<close>

text \<open>
  A line can be typed, one call for each character and a call for the Return key, which
  \<open>ldisc_send\<close> gets as the special string "\r" (\<open>len < 0\<close>); or pasted, in one call with
  the text and its carriage return.
\<close>

type_synonym send_call = "byte list \<times> int \<times> bool"

fun send_calls :: "world \<Rightarrow> send_call list \<Rightarrow> ldisc \<Rightarrow> ldisc option" where
  "send_calls w [] l = Some l"
| "send_calls w ((b, len, interactive) # cs) l =
     (case ldisc_send w b len interactive l of None \<Rightarrow> None | Some l1 \<Rightarrow> send_calls w cs l1)"

definition typed_line :: "byte list \<Rightarrow> send_call list" where
  "typed_line line = map (\<lambda>c. ([c], 1, True)) line @ [([13], - 2, True)]"

definition pasted_line :: "byte list \<Rightarrow> send_call list" where
  "pasted_line line = [(line @ [13], int (length line) + 1, False)]"

lemma send_calls_append:
  "send_calls w (cs @ ds) l = (case send_calls w cs l of None \<Rightarrow> None | Some l1 \<Rightarrow> send_calls w ds l1)"
  by (induction w cs l rule: send_calls.induct) (simp_all split: option.split)

lemma send_typed_text:
  assumes "\<forall>c \<in> set line. 32 \<le> c" "\<not> quotenext l" "localedit l = FORCE_ON"
  shows "\<exists>l'. send_calls w (map (\<lambda>c. ([c], 1, True)) line) l = Some l' \<and> typing_on l line l'"
  using assms
proof (induction line arbitrary: l)
  case Nil
  then show ?case by (simp add: typing_on_def)
next
  case (Cons c line)
  obtain l1 where l1: "edit_loop w True 0 [c] (key_pressed True l) = Some l1" "typing_on (key_pressed True l) [c] l1"
    using edit_text[of "[c]" "key_pressed True l" w True "[]"] Cons.prems(1,2) by auto
  then have s: "ldisc_send w [c] 1 True l = Some l1" using ldisc_send_editing[of l 1 w "[c]" True] Cons.prems(3) by simp
  have t: "typing_on l [c] l1" using l1(2) by (simp add: typing_on_def)
  obtain l' where "send_calls w (map (\<lambda>c. ([c], 1, True)) line) l1 = Some l'" "typing_on l1 line l'"
    using Cons.IH[of l1] Cons.prems t by (auto simp: typing_on_def)
  then show ?case using s typing_on_trans[OF t, of line l'] by auto
qed

lemma send_return:
  "localedit l = FORCE_ON \<Longrightarrow> \<not> quotenext l \<Longrightarrow>
   ldisc_send w [13] (- 2) True l = Some (send_line w (key_pressed True l))"
  using ldisc_send_editing[of l "- 2" w "[13]" True] edit_return[of "key_pressed True l" w]
  by (simp add: controls)

lemma send_typed_line:
  assumes "\<forall>c \<in> set line. 32 \<le> c" "\<not> quotenext l" "localedit l = FORCE_ON" "buf l = []"
  shows "\<exists>l'. send_calls w (typed_line line) l = Some l' \<and> line_sent l line l'"
proof -
  obtain u where u: "send_calls w (map (\<lambda>c. ([c], 1, True)) line) l = Some u" "typing_on l line u"
    using send_typed_text[OF assms(1-3)] by blast
  have "typing_on l line (key_pressed True u)" using u(2) by (simp add: typing_on_def)
  from send_line_sent[OF this assms(4)] u assms(3) show ?thesis
    using send_return[of u w] by (simp add: typed_line_def send_calls_append typing_on_def)
qed

lemma send_pasted_line:
  assumes "\<forall>c \<in> set line. 32 \<le> c" "\<not> quotenext l" "localedit l = FORCE_ON" "buf l = []"
  shows "\<exists>l'. send_calls w (pasted_line line) l = Some l' \<and> line_sent l line l'"
proof -
  let ?l = "key_pressed False l"
  obtain u where u: "edit_loop w False 0 (line @ [13]) ?l = edit_loop w False 0 [13] u" "typing_on ?l line u"
    using edit_text[of line ?l w False "[13]"] assms(1,2) by auto
  have "edit_loop w False 0 [13] u = Some (send_line w u)"
    using u(2) edit_return[of u w] by (simp add: typing_on_def KCTRL_def)
  moreover have "ldisc_send w (line @ [13]) (int (length line) + 1) False l = edit_loop w False 0 (line @ [13]) ?l"
    using ldisc_send_editing[OF assms(3), of "int (length line) + 1" w "line @ [13]" False]
    by (simp add: nat_add_distrib)
  moreover have "typing_on l line u" using u(2) by (simp add: typing_on_def)
  ultimately show ?thesis using u(1) send_line_sent[of l line u w] assms(4) by (simp add: pasted_line_def)
qed

definition line_calls :: "bool \<times> byte list \<Rightarrow> send_call list" where
  "line_calls x = (if fst x then typed_line (snd x) else pasted_line (snd x))"

lemma send_lines:
  assumes "\<forall>x \<in> set lines. \<forall>c \<in> set (snd x). 32 \<le> c" "\<not> quotenext l" "localedit l = FORCE_ON" "buf l = []"
  shows "\<exists>l'. send_calls w (concat (map line_calls lines)) l = Some l' \<and> buf l' = []
    \<and> backs l' = backs l @ concat (map (\<lambda>x. line_events l (snd x)) lines)"
  using assms
proof (induction lines arbitrary: l)
  case (Cons x lines)
  have "\<exists>l1. send_calls w (line_calls x) l = Some l1 \<and> line_sent l (snd x) l1"
    using send_typed_line[of "snd x" l w] send_pasted_line[of "snd x" l w] Cons.prems by (simp add: line_calls_def)
  then obtain l1 where l1: "send_calls w (line_calls x) l = Some l1" "line_sent l (snd x) l1" by blast
  then have "line_events l1 = line_events l" using line_settings[of l1 l] by (simp add: line_sent_def)
  with Cons.IH[of l1] Cons.prems l1 show ?case by (auto simp: send_calls_append line_sent_def)
qed simp

section \<open>With the telnet backend\<close>

fun feed :: "env \<Rightarrow> ldisc_event list \<Rightarrow> telnet \<Rightarrow> telnet" where
  "feed env [] t = t"
| "feed env (BackSend b # es) t = feed env es (snd (telnet_send env b t))"
| "feed env (BackSpecial s # es) t = feed env es (telnet_special env s t)"
| "feed env (e # es) t = feed env es t"

lemma feed_filter: "feed env (filter to_back es) t = feed env es t"
  by (induction env es t rule: feed.induct) simp_all

lemma feed_append: "feed env (es @ fs) t = feed env fs (feed env es t)"
  by (induction env es t rule: feed.induct) simp_all

lemma special_chars_keeps: "socket_open (send_special_chars env cs t) = socket_open t"
  by (induction cs arbitrary: t) (simp_all add: emitters)

lemma send_loop_keeps:
  "opt_states (send_loop env p t) = opt_states t \<and> socket_open (send_loop env p t) = socket_open t"
proof (induction env p t rule: send_loop.induct)
  case (1 env p t)
  show ?case
  proof (cases "p = []")
    case False
    let ?u = "send_special_chars env (takeWhile (\<lambda>c. \<not> iswritable t c) (dropWhile (iswritable t) p))
       (sk_write env (takeWhile (iswritable t) p) t)"
    have "opt_states ?u = opt_states t" "socket_open ?u = socket_open t"
      by (simp_all add: special_chars_keeps) (simp add: emitters)
    then show ?thesis
      using 1[OF False refl refl refl refl refl] unfolding send_loop_step[OF False, of env t] by simp
  qed (simp add: send_loop.simps)
qed

text \<open>A backend call that extends the written bytes and keeps the connection as it is.\<close>

definition writes :: "byte list \<Rightarrow> telnet \<Rightarrow> telnet \<Rightarrow> bool" where
  "writes b t t' \<longleftrightarrow> (\<exists>es. outputs t' = outputs t @ es \<and> written es = b)
     \<and> socket_open t' = socket_open t \<and> opt_states t' = opt_states t"

lemma writes_trans: "writes a t u \<Longrightarrow> writes b u v \<Longrightarrow> writes (a @ b) t v"
  by (fastforce simp: writes_def)

lemma writes_send: "socket_open t \<Longrightarrow> writes (concat (map (escape (we_binary t)) b)) t (snd (telnet_send env b t))"
  using outputs_send_loop[of env b t] written_send_loop[of env b t] send_loop_keeps[of env b t]
  by (auto simp: writes_def telnet_send_def Let_def)

text \<open>
  The end of a line on the wire: with Return sent as the special TS_EOL, CR LF, or CR in
  binary mode; otherwise the escaped CR.
\<close>

definition wire_eol :: "bool \<Rightarrow> bool \<Rightarrow> byte list" where
  "wire_eol eol_special binary = (if eol_special then (if binary then [13] else [13, 10]) else escape binary 13)"

definition wire_line :: "bool \<Rightarrow> bool \<Rightarrow> byte list \<Rightarrow> byte list" where
  "wire_line eol_special binary line = concat (map (escape binary) line) @ wire_eol eol_special binary"

lemma writes_eol: "socket_open t \<Longrightarrow> writes (wire_eol True (we_binary t)) t (telnet_special env TS_EOL t)"
  by (auto simp: writes_def telnet_special_def wire_eol_def emitters)

lemma writes_newline:
  assumes "socket_open t" "protocol l = PROT_TELNET"
  shows "writes (wire_eol (telnet_newline l) (we_binary t)) t (feed env (newline_events l) t)"
  using writes_eol[OF assms(1), of env] writes_send[OF assms(1), of "[13]" env] assms(2)
  by (auto simp: newline_events_def wire_eol_def)

lemma writes_keeps: "writes b t u \<Longrightarrow> socket_open u = socket_open t \<and> we_binary u = we_binary t"
  by (simp add: writes_def)

lemma writes_line:
  assumes "socket_open t" "protocol l = PROT_TELNET"
  shows "writes (wire_line (telnet_newline l) (we_binary t) x) t (feed env (line_events l x) t)"
proof -
  let ?u = "if x = [] then t else snd (telnet_send env x t)"
  have u: "writes (concat (map (escape (we_binary t)) x)) t ?u"
    using writes_send[OF assms(1), of x env] by (auto simp: writes_def)
  have "writes (wire_eol (telnet_newline l) (we_binary t)) ?u (feed env (newline_events l) ?u)"
    using writes_newline[of ?u l env] writes_keeps[OF u] assms by (simp split del: if_split)
  from writes_trans[OF u this] show ?thesis
    by (simp add: wire_line_def line_events_def split: if_splits)
qed

lemma writes_lines:
  assumes "socket_open t" "protocol l = PROT_TELNET"
  shows "writes (concat (map (wire_line (telnet_newline l) (we_binary t)) lines)) t
    (feed env (concat (map (line_events l) lines)) t)"
  using assms(1)
proof (induction lines arbitrary: t)
  case Nil
  then show ?case by (simp add: writes_def)
next
  case (Cons x lines)
  let ?u = "feed env (line_events l x) t"
  have w: "writes (wire_line (telnet_newline l) (we_binary t) x) t ?u" using writes_line[OF Cons.prems assms(2)] .
  from writes_keeps[OF w] Cons.prems have k: "socket_open ?u" "we_binary ?u = we_binary t" by auto
  from writes_trans[OF w Cons.IH[OF k(1)]] show ?case by (simp add: feed_append k(2))
qed

section \<open>Properties\<close>

text \<open>
  The usual form of a byte on a display with a single-byte character set, independent of the
  code: control characters in caret notation, the bytes from 128 to 159 as two hexadecimal
  digits, all others as they are.
\<close>

definition visible :: "byte \<Rightarrow> byte list" where
  "visible c =
     (if c < 32 \<or> c = 127 then [of_char CHR ''^'', c XOR 64]
      else if 127 < c \<and> c < 160
      then of_char CHR ''<'' # List.map (\<lambda>d. of_char (''0123456789ABCDEF'' ! unat d)) [c div 16, c mod 16] @ [of_char CHR ''>'']
      else [c])"

definition displayed :: "byte list \<Rightarrow> byte list" where
  "displayed bs = concat (List.map visible bs)"

lemma caret_flip: "(c :: byte) < 32 \<Longrightarrow> c + 0x40 = c XOR 64"
proof -
  have "list_all (\<lambda>c :: byte. c + 0x40 = c XOR 64) (List.map of_nat [0..<32])" by code_simp
  then have "\<forall>n<32. (of_nat n :: byte) + 0x40 = of_nat n XOR 64" by (auto simp: list_all_iff)
  moreover assume "c < 32"
  then have "unat c < 32" by (simp add: word_less_nat_alt)
  moreover have "of_nat (unat c) = c" by simp
  ultimately show ?thesis by metis
qed

lemma hex_string: "(n :: byte) < 16 \<Longrightarrow> hex_digit n = of_char (''0123456789ABCDEF'' ! unat n)"
proof -
  have "list_all (\<lambda>n. hex_digit (of_nat n) = of_char (''0123456789ABCDEF'' ! n)) [0..<16]" by code_simp
  then have "\<forall>n<16. hex_digit (of_nat n) = of_char (''0123456789ABCDEF'' ! n)" by (auto simp: list_all_iff)
  moreover assume "n < 16"
  then have "unat n < 16" by (simp add: word_less_nat_alt)
  moreover have "of_nat (unat n) = n" by simp
  ultimately show ?thesis by metis
qed

lemma pwrite_visible: "\<not> in_utf w \<Longrightarrow> pwrite_bytes w c = visible c"
proof -
  assume w: "\<not> in_utf w"
  have s: "uint c < 32 \<or> 32 \<le> uint c \<and> uint c \<le> 126 \<or> uint c = 127 \<or> 128 \<le> uint c \<and> uint c < 160 \<or> 160 \<le> uint c" by linarith
  have d: ?thesis if "c = 127" using w that by (simp add: pwrite_bytes_def visible_def)
  show ?thesis
  proof (cases "c = 127")
    case False
    then show ?thesis
      using s w caret_flip[of c] hex_string[OF hex_nibbles(1)[of c]] hex_string[OF hex_nibbles(2)[of c]]
      by (elim disjE) (auto simp: pwrite_bytes_def visible_def word_le_def word_less_def word_uint_eq_iff)
  qed (rule d)
qed

lemma echoed_displayed: "\<not> in_utf w \<Longrightarrow> echoed w bs = displayed bs"
proof -
  assume "\<not> in_utf w"
  then have "pwrite_bytes w = visible" by (intro ext pwrite_visible)
  then show ?thesis by (simp add: echoed_def displayed_def)
qed

text \<open>
  Claim C36: with local echo and local editing on and a single-byte character set, the line on the
  screen stays what the line buffer shows as (\<open>displayed\<close>).  Whatever \<open>ldisc_send\<close> is given, typed,
  pasted or special, without \<open>^D\<close> (which sends the line and leaves it on the screen): no
  access leaves the buffer, and if the cursor stood right after the displayed form of the
  buffer with only blanks beyond it, so it does afterwards, whatever was inserted, quoted,
  erased, redrawn or sent.  (The display is taken to be wide enough for the line.)
\<close>

theorem ldisc_echo_in_step:
  assumes "\<not> in_utf w" and "4 \<notin> set b" and "localecho l = FORCE_ON" and "localedit l = FORCE_ON"
    and "on_tty (tty (sent l)) (displayed (buf l))"
  shows "\<exists>l'. ldisc_send w b len interactive l = Some l' \<and> on_tty (tty (sent l')) (displayed (buf l'))"
proof (cases "len = 0")
  case True
  then show ?thesis using assms by (simp add: ldisc_send_def)
next
  case False
  let ?b = "if len < 0 then b else take (nat len) b"
  note e = echoed_displayed[OF assms(1)]
  have "4 \<notin> set ?b" using assms(2) by (auto dest: in_set_takeD split: if_splits)
  moreover have "in_step w (key_pressed interactive l)" using assms by (simp add: in_step_def e)
  ultimately show ?thesis
    using in_step_edit_loop[of w "key_pressed interactive l" ?b "if len < 0 then KCTRL (CHR ''@'') else 0" interactive]
      assms(1) ldisc_send_editing[OF assms(4) False, of w b interactive] by (auto simp: in_step_def e)
qed

definition sample_ldisc :: ldisc where
  "sample_ldisc = ldisc_create \<lparr>conf_telnet_keyboard = True, conf_telnet_newline = True,
     conf_protocol = PROT_TELNET, conf_localecho = FORCE_ON, conf_localedit = FORCE_ON\<rparr>"

definition sample_world :: world where
  "sample_world = \<lparr>auto_echo = (\<lambda>_. False), auto_edit = (\<lambda>_. False), in_utf = False\<rparr>"

lemmas sample_ldisc_defs = sample_ldisc_def ldisc_create_def ldisc_configure_def sample_world_def

theorem ldisc_echo_in_step_witness:
  "\<exists>l'. ldisc_send sample_world [104, 1, 23, 22, 3, 18] 6 True sample_ldisc = Some l'
     \<and> on_tty (tty (sent l')) (displayed (buf l'))"
  by (rule ldisc_echo_in_step) (simp_all add: sample_ldisc_defs tty_def on_tty_def displayed_def)

text \<open>
  Claim C37: lines typed or pasted into the line editor reach a telnet server as they are.  With
  local editing on and an empty line buffer, any sequence of lines of bytes from 32 up, each
  either typed (a call of \<open>ldisc_send\<close> for each character and one for the Return key) or
  pasted (one call with the text and CR), is accepted, leaves the buffer empty, and makes a
  telnet backend write exactly the escaped bytes of each line and one end of line: CR LF or,
  in binary mode, CR when Return is sent as TS_EOL, and otherwise the escaped CR.
\<close>

theorem ldisc_lines_reach_server:
  assumes "\<forall>x \<in> set lines. \<forall>c \<in> set (snd x). 32 \<le> c" and "\<not> quotenext l" and "buf l = []"
    and "localedit l = FORCE_ON" and "protocol l = PROT_TELNET" and "socket_open t"
  shows "\<exists>l' es. send_calls w (concat (map line_calls lines)) l = Some l' \<and> buf l' = []
    \<and> backs l' = backs l @ es
    \<and> sent_bytes t (feed env es t) = concat (map (wire_line (telnet_newline l) (we_binary t)) (map snd lines))"
proof -
  obtain l' where l': "send_calls w (concat (map line_calls lines)) l = Some l'" "buf l' = []"
    "backs l' = backs l @ concat (map (line_events l) (map snd lines))"
    using send_lines[OF assms(1,2,4,3), of w] by (auto simp: comp_def)
  have "writes (concat (map (wire_line (telnet_newline l) (we_binary t)) (map snd lines))) t
      (feed env (concat (map (line_events l) (map snd lines))) t)"
    by (rule writes_lines[OF assms(6,5)])
  then have "sent_bytes t (feed env (concat (map (line_events l) (map snd lines))) t)
      = concat (map (wire_line (telnet_newline l) (we_binary t)) (map snd lines))"
    by (auto simp: writes_def sent_bytes_def)
  with l' show ?thesis by blast
qed

theorem ldisc_lines_reach_server_witness:
  "\<exists>l' es. send_calls sample_world
        [([104], 1, True), ([105], 1, True), ([13], - 2, True), ([255, 13], 2, False)] sample_ldisc = Some l'
     \<and> buf l' = [] \<and> backs l' = backs sample_ldisc @ es
     \<and> sent_bytes sample_telnet (feed (\<lambda>_. 0) es sample_telnet) = [104, 105, 13, 10, 255, 255, 13, 10]"
  using ldisc_lines_reach_server[of "[(True, [104, 105]), (False, [255])]" sample_ldisc sample_telnet sample_world "\<lambda>_. 0"]
  by (simp add: sample_ldisc_defs sample_defs escape_def line_calls_def typed_line_def pasted_line_def
      wire_line_def wire_eol_def)

section \<open>Deleting below the start of the buffer\<close>

text \<open>The bytes that do not start a character in UTF-8.\<close>

definition continuation :: "byte \<Rightarrow> bool" where
  "continuation c \<longleftrightarrow> 0x80 \<le> c \<and> c < 0xC0"

lemma char_start_utf: "in_utf w \<Longrightarrow> char_start w c \<longleftrightarrow> \<not> continuation c"
  by (auto simp: char_start_def continuation_def not_le not_less)

lemma erase_char_runs_off:
  "in_utf w \<Longrightarrow> n = length (buf l) \<Longrightarrow> erase_char n w l = None \<longleftrightarrow> (\<forall>c \<in> set (buf l). continuation c)"
proof (induction n w l rule: erase_char.induct)
  case (2 n w l)
  then have b: "buf l \<noteq> []" by auto
  have s: "set (buf l) = insert (last (buf l)) (set (butlast (buf l)))"
    using arg_cong[OF append_butlast_last_id[OF b], of set] by auto
  have n: "n = length (buf (erase_last w l))" using 2(3) by simp
  show ?case unfolding erase_char.simps Let_def
  proof (cases "continuation (last (buf l))")
    case True
    then show "((if char_start w (last (buf l)) then Some (erase_last w l) else erase_char n w (erase_last w l)) = None)
        = (\<forall>c \<in> set (buf l). continuation c)"
      using 2(1)[OF refl refl _ 2(2) n] 2(2) s by (simp add: char_start_utf)
  next
    case False
    then show "((if char_start w (last (buf l)) then Some (erase_last w l) else erase_char n w (erase_last w l)) = None)
        = (\<forall>c \<in> set (buf l). continuation c)"
      using 2(2) s by (simp add: char_start_utf)
  qed
qed simp

lemma store_continuation:
  assumes "\<forall>c \<in> set bs. continuation c" "\<not> quotenext l" "localedit l = FORCE_ON" "bs \<noteq> []"
  shows "\<exists>l'. ldisc_send w bs (int (length bs)) False l = Some l' \<and> typing_on l bs l'"
proof -
  have "\<forall>c \<in> set bs. 32 \<le> c" using assms(1) by (auto simp: continuation_def word_le_def)
  then obtain l' where "edit_loop w False 0 bs (key_pressed False l) = Some l'" "typing_on (key_pressed False l) bs l'"
    using edit_text[of bs "key_pressed False l" w False "[]"] assms(2) by auto
  then show ?thesis
    using ldisc_send_editing[OF assms(3), of "int (length bs)" w bs False] assms(4) by (auto simp: typing_on_def)
qed

text \<open>
  Claim C38: deleting a character in UTF-8 mode runs below the start of the line buffer exactly
  when the buffer is not empty and holds only continuation bytes: the loop of \<open>^H\<close> stops
  at a byte that starts a character and does not test for the start of the buffer.  And such
  a buffer can be had: any bytes of that kind, pasted into an empty line, bring it about.
\<close>

theorem ldisc_backspace_underflow:
  assumes "in_utf w" and "localedit l = FORCE_ON" and "\<not> quotenext l"
  shows "(ldisc_send w [8] (- 2) True l = None \<longleftrightarrow> buf l \<noteq> [] \<and> (\<forall>c \<in> set (buf l). continuation c)) \<and>
    (buf l = [] \<and> bs \<noteq> [] \<and> (\<forall>c \<in> set bs. continuation c) \<longrightarrow>
      (\<exists>l'. ldisc_send w bs (int (length bs)) False l = Some l' \<and> buf l' = bs
        \<and> send_calls w [(bs, int (length bs), False), ([8], - 2, True)] l = None))"
proof -
  have runs_off: "ldisc_send w [8] (- 2) True k = None \<longleftrightarrow> buf k \<noteq> [] \<and> (\<forall>c \<in> set (buf k). continuation c)"
    if "localedit k = FORCE_ON" "\<not> quotenext k" for k
    using ldisc_send_editing[OF that(1), of "- 2" w "[8]" True] that(2)
      erase_char_runs_off[OF assms(1), of "length (buf k)" "key_pressed True k"]
    by (auto simp: edit_char_def controls split: option.splits)
  moreover have "\<exists>l'. ldisc_send w bs (int (length bs)) False l = Some l' \<and> buf l' = bs
      \<and> send_calls w [(bs, int (length bs), False), ([8], - 2, True)] l = None"
    if c: "buf l = []" "bs \<noteq> []" "\<forall>c \<in> set bs. continuation c"
  proof -
    obtain l' where l': "ldisc_send w bs (int (length bs)) False l = Some l'" "typing_on l bs l'"
      using store_continuation[OF c(3) assms(3,2) c(2), of w] by blast
    then have "ldisc_send w [8] (- 2) True l' = None"
      using runs_off[of l'] c assms(2) by (simp add: typing_on_def)
    with l' c(1) show ?thesis by (simp add: typing_on_def)
  qed
  ultimately show ?thesis using assms(2,3) by blast
qed

theorem ldisc_backspace_underflow_witness:
  "ldisc_send (sample_world\<lparr>in_utf := True\<rparr>) [8] (- 2) True (sample_ldisc\<lparr>buf := [0xA0, 0x80]\<rparr>) = None \<and>
   send_calls (sample_world\<lparr>in_utf := True\<rparr>) [([0xA0], 1, False), ([8], - 2, True)] sample_ldisc = None"
  using ldisc_backspace_underflow[of "sample_world\<lparr>in_utf := True\<rparr>" "sample_ldisc\<lparr>buf := [0xA0, 0x80]\<rparr>"]
    ldisc_backspace_underflow[of "sample_world\<lparr>in_utf := True\<rparr>" sample_ldisc "[0xA0]"]
  by (auto simp: sample_ldisc_defs continuation_def simp del: send_calls.simps)

end
