(* ===== verification/Termline.thy ===== *)
theory Termline
  imports Misc
begin

text \<open>
  Lines of the terminal, after the first part of \<open>putty/terminal.c\<close>: character cells with
  lists of combining characters threaded through the array of a line, resizing, and the
  run-length encoding in which lines are kept in the scrollback.

  A \<open>termline\<close> is the structure of \<open>terminal.h\<close>; its \<open>size\<close> is the length of the list
  \<open>chars\<close>.  An \<open>unsigned long\<close> has 32 bits (the Windows build).  Cells that the code
  allocates without setting them are the values of a parameter \<open>junk\<close>.  A result \<open>None\<close>
  is a failed assertion, an access outside an array, or a chain of combining characters that
  is longer than the array, on which the C loop does not end.
\<close>

unbundle bit_operations_syntax

record termchar =
  chr :: "32 word"
  attr :: "32 word"
  cc_next :: int

record termline =
  lattr :: "16 word"
  cols :: nat
  temporary :: bool
  cc_free :: int
  chars :: "termchar list"

definition LATTR_NORM :: "16 word" where "LATTR_NORM = 0"
definition DATTR_MASK :: "32 word" where "DATTR_MASK = 0xF0000000"
definition ATTR_FGSHIFT :: nat where "ATTR_FGSHIFT = 0"
definition ATTR_BGSHIFT :: nat where "ATTR_BGSHIFT = 9"

definition newline :: "termchar \<Rightarrow> termchar \<Rightarrow> nat \<Rightarrow> bool \<Rightarrow> termline" where
  "newline erase_char basic_erase_char columns bce =
     \<lparr>lattr = LATTR_NORM, cols = columns, temporary = False, cc_free = 0,
      chars = replicate columns (if bce then erase_char else basic_erase_char)\<rparr>"

section \<open>Combining characters\<close>

definition upd_char :: "nat \<Rightarrow> (termchar \<Rightarrow> termchar) \<Rightarrow> termline \<Rightarrow> termline" where
  "upd_char i f l = l\<lparr>chars := (chars l)[i := f (chars l ! i)]\<rparr>"

text \<open>
  The successor of a cell in its list (the length of the array where the offset leads below
  it), and the last cell of the list of a cell.
\<close>

definition cc_succ :: "termchar list \<Rightarrow> nat \<Rightarrow> nat" where
  "cc_succ cs i = (let j = int i + cc_next (cs ! i) in if j < 0 then length cs else nat j)"

fun cc_last :: "nat \<Rightarrow> termchar list \<Rightarrow> nat \<Rightarrow> nat option" where
  "cc_last fuel cs i =
     (if i \<ge> length cs then None
      else if cc_next (cs ! i) = 0 then Some i
      else case fuel of 0 \<Rightarrow> None | Suc k \<Rightarrow> cc_last k cs (cc_succ cs i))"

declare cc_last.simps [simp del]

definition extend_line :: "(nat \<Rightarrow> termchar) \<Rightarrow> termline \<Rightarrow> termline" where
  "extend_line junk l =
     (let n = length (chars l); m = n + (16 + (n - cols l) div 2)
      in l\<lparr>cc_free := int n,
           chars := chars l @ map (\<lambda>k. (junk k)\<lparr>cc_next := (if k + 1 < m then 1 else 0)\<rparr>) [n..<m]\<rparr>)"

definition add_cc :: "(nat \<Rightarrow> termchar) \<Rightarrow> termline \<Rightarrow> nat \<Rightarrow> 32 word \<Rightarrow> termline option" where
  "add_cc junk l col c =
     (if \<not> col < cols l then None
      else let l1 = (if cc_free l = 0 then extend_line junk l else l)
           in case cc_last (length (chars l1)) (chars l1) col of None \<Rightarrow> None
              | Some fin \<Rightarrow>
                let newcc = (if cc_free l1 < 0 then length (chars l1) else nat (cc_free l1)) in
                if \<not> newcc < length (chars l1) then None
                else let nxt = cc_next (chars l1 ! newcc);
                         l2 = l1\<lparr>cc_free := (if nxt \<noteq> 0 then cc_free l1 + nxt else 0)\<rparr>;
                         l3 = upd_char newcc (\<lambda>t. t\<lparr>chr := c, cc_next := 0\<rparr>) l2
                     in Some (upd_char fin (\<lambda>t. t\<lparr>cc_next := int newcc - int fin\<rparr>) l3))"

definition clear_cc :: "termline \<Rightarrow> nat \<Rightarrow> termline option" where
  "clear_cc l col =
     (if \<not> col < cols l then None
      else if cc_next (chars l ! col) = 0 then Some l
      else let oldfree = cc_free l;
               l1 = l\<lparr>cc_free := int col + cc_next (chars l ! col)\<rparr>
           in case cc_last (length (chars l1)) (chars l1) col of None \<Rightarrow> None
              | Some fin \<Rightarrow>
                let l2 = upd_char fin (\<lambda>t. t\<lparr>cc_next := (if oldfree \<noteq> 0 then oldfree - int fin else 0)\<rparr>) l1
                in Some (upd_char col (\<lambda>t. t\<lparr>cc_next := 0\<rparr>) l2))"

text \<open>The characters that follow a cell in its list.\<close>

fun cc_chars :: "nat \<Rightarrow> termchar list \<Rightarrow> nat \<Rightarrow> 32 word list option" where
  "cc_chars fuel cs i =
     (if i \<ge> length cs then None
      else if cc_next (cs ! i) = 0 then Some []
      else case fuel of 0 \<Rightarrow> None
           | Suc k \<Rightarrow>
             let j = cc_succ cs i in
             if j \<ge> length cs then None
             else map_option (\<lambda>xs. chr (cs ! j) # xs) (cc_chars k cs j))"

declare cc_chars.simps [simp del]

text \<open>\<open>termchars_equal_override\<close> on cell \<open>i\<close> of one line and cell \<open>j\<close> of another.\<close>

fun cc_equal :: "nat \<Rightarrow> termchar list \<Rightarrow> nat \<Rightarrow> termchar list \<Rightarrow> nat \<Rightarrow> bool option" where
  "cc_equal fuel cs i ds j =
     (if \<not> (i < length cs \<and> j < length ds) then None
      else if cc_next (cs ! i) = 0 \<and> cc_next (ds ! j) = 0 then Some True
      else if cc_next (cs ! i) = 0 \<or> cc_next (ds ! j) = 0 then Some False
      else case fuel of 0 \<Rightarrow> None
           | Suc k \<Rightarrow>
             let i1 = cc_succ cs i; j1 = cc_succ ds j in
             if \<not> (i1 < length cs \<and> j1 < length ds) then None
             else if chr (cs ! i1) \<noteq> chr (ds ! j1) then Some False
             else cc_equal k cs i1 ds j1)"

declare cc_equal.simps [simp del]

definition termchars_equal_override ::
    "termchar list \<Rightarrow> nat \<Rightarrow> termchar list \<Rightarrow> nat \<Rightarrow> 32 word \<Rightarrow> 32 word \<Rightarrow> bool option" where
  "termchars_equal_override cs i ds j bchr battr =
     (if chr (cs ! i) \<noteq> bchr then Some False
      else if attr (cs ! i) AND NOT DATTR_MASK \<noteq> battr AND NOT DATTR_MASK then Some False
      else cc_equal (length cs + length ds) cs i ds j)"

definition termchars_equal :: "termchar list \<Rightarrow> nat \<Rightarrow> termchar list \<Rightarrow> nat \<Rightarrow> bool option" where
  "termchars_equal cs i ds j = termchars_equal_override cs i ds j (chr (ds ! j)) (attr (ds ! j))"

fun add_ccs :: "(nat \<Rightarrow> termchar) \<Rightarrow> termline \<Rightarrow> nat \<Rightarrow> 32 word list \<Rightarrow> termline option" where
  "add_ccs junk l x [] = Some l"
| "add_ccs junk l x (c # cs) =
     (case add_cc junk l x c of None \<Rightarrow> None | Some l1 \<Rightarrow> add_ccs junk l1 x cs)"

text \<open>Copy cell \<open>y\<close> of another line to cell \<open>x\<close> of a line.\<close>

definition copy_termchar :: "(nat \<Rightarrow> termchar) \<Rightarrow> termline \<Rightarrow> nat \<Rightarrow> termchar list \<Rightarrow> nat \<Rightarrow> termline option" where
  "copy_termchar junk dest x src y =
     (case clear_cc dest x of None \<Rightarrow> None
      | Some l1 \<Rightarrow>
        let l2 = upd_char x (\<lambda>t. (src ! y)\<lparr>cc_next := 0\<rparr>) l1
        in case cc_chars (length src) src y of None \<Rightarrow> None
           | Some xs \<Rightarrow> add_ccs junk l2 x xs)"

definition move_termchar :: "termline \<Rightarrow> nat \<Rightarrow> nat \<Rightarrow> termline option" where
  "move_termchar l dest src =
     (case clear_cc l dest of None \<Rightarrow> None
      | Some l1 \<Rightarrow>
        let s = chars l1 ! src;
            d = (if cc_next s \<noteq> 0 then s\<lparr>cc_next := cc_next s - (int dest - int src)\<rparr> else s)
        in Some (upd_char src (\<lambda>t. t\<lparr>cc_next := 0\<rparr>) (upd_char dest (\<lambda>t. d) l1)))"

section \<open>Resizing\<close>

fun clear_from :: "termline \<Rightarrow> nat list \<Rightarrow> termline option" where
  "clear_from l [] = Some l"
| "clear_from l (i # is) = (case clear_cc l i of None \<Rightarrow> None | Some l1 \<Rightarrow> clear_from l1 is)"

definition shift_cc :: "int \<Rightarrow> termchar \<Rightarrow> termchar" where
  "shift_cc d t = (if cc_next t \<noteq> 0 then t\<lparr>cc_next := cc_next t + d\<rparr> else t)"

definition resizeline :: "termchar \<Rightarrow> termline \<Rightarrow> nat \<Rightarrow> termline option" where
  "resizeline basic_erase_char l columns =
     (if cols l = columns then Some l
      else let oldcols = cols l; d = int columns - int oldcols
           in case clear_from l [columns..<oldcols] of None \<Rightarrow> None
              | Some l1 \<Rightarrow>
                Some (l1\<lparr>cols := columns,
                  chars := map (shift_cc d) (take (min columns oldcols) (chars l1))
                           @ replicate (columns - oldcols) basic_erase_char
                           @ drop oldcols (chars l1),
                  cc_free := (if cc_free l1 \<noteq> 0 then cc_free l1 + d else 0)\<rparr>))"

section \<open>Literals\<close>

text \<open>
  What the three functions \<open>makeliteral_\<dots>\<close> append to the buffer for a cell, and the new
  value of \<open>*state\<close>.
\<close>

definition put_chr :: "32 word \<Rightarrow> 32 word \<Rightarrow> byte list \<times> 32 word" where
  "put_chr c state =
     ((if c AND NOT 0x7F = state then [ucast (c AND 0x7F)]
       else if c < 0x4000 then [ucast ((drop_bit 8 c AND 0x3F) OR 0x80), ucast (c AND 0xFF)]
       else if c < 0x200000 then
         [ucast ((drop_bit 16 c AND 0x1F) OR 0xC0), ucast (drop_bit 8 c AND 0xFF), ucast (c AND 0xFF)]
       else if c < 0x10000000 then
         [ucast ((drop_bit 24 c AND 0x0F) OR 0xE0), ucast (drop_bit 16 c AND 0xFF),
          ucast (drop_bit 8 c AND 0xFF), ucast (c AND 0xFF)]
       else [0xF0, ucast (drop_bit 24 c AND 0xFF), ucast (drop_bit 16 c AND 0xFF),
             ucast (drop_bit 8 c AND 0xFF), ucast (c AND 0xFF)]),
      c AND NOT 0xFF)"

type_synonym literal = "(byte list \<times> 32 word) option"

definition makeliteral_chr :: "termline \<Rightarrow> nat \<Rightarrow> 32 word \<Rightarrow> literal" where
  "makeliteral_chr l i state =
     (if i < length (chars l) then Some (put_chr (chr (chars l ! i)) state) else None)"

definition pack_attr :: "32 word \<Rightarrow> 32 word" where
  "pack_attr a =
     (let colourbits = push_bit 4 (drop_bit (ATTR_BGSHIFT + 4) a AND 0xF)
                       OR (drop_bit (ATTR_FGSHIFT + 4) a AND 0xF);
          a1 = push_bit (ATTR_BGSHIFT + 4) (drop_bit (ATTR_BGSHIFT + 8) a)
               OR (a AND (push_bit (ATTR_BGSHIFT + 4) 1 - 1));
          a2 = push_bit (ATTR_FGSHIFT + 4) (drop_bit (ATTR_FGSHIFT + 8) a1)
               OR (a1 AND (push_bit (ATTR_FGSHIFT + 4) 1 - 1))
      in a2 OR push_bit (32 - 9) colourbits)"

definition put_attr :: "32 word \<Rightarrow> byte list" where
  "put_attr a =
     (if a < 0x8000 then [ucast (drop_bit 8 a AND 0xFF), ucast (a AND 0xFF)]
      else [ucast ((drop_bit 24 a AND 0x7F) OR 0x80), ucast (drop_bit 16 a AND 0xFF),
            ucast (drop_bit 8 a AND 0xFF), ucast (a AND 0xFF)])"

definition makeliteral_attr :: "termline \<Rightarrow> nat \<Rightarrow> 32 word \<Rightarrow> literal" where
  "makeliteral_attr l i state =
     (if i < length (chars l) then Some (put_attr (pack_attr (attr (chars l ! i))), state) else None)"

fun put_ccs :: "32 word list \<Rightarrow> byte list option" where
  "put_ccs [] = Some (fst (put_chr 0 0))"
| "put_ccs (c # cs) = (if c = 0 then None else map_option (\<lambda>b. fst (put_chr c 0) @ b) (put_ccs cs))"

definition makeliteral_cc :: "termline \<Rightarrow> nat \<Rightarrow> 32 word \<Rightarrow> literal" where
  "makeliteral_cc l i state =
     (case cc_chars (length (chars l)) (chars l) i of None \<Rightarrow> None
      | Some xs \<Rightarrow> map_option (\<lambda>b. (b, state)) (put_ccs xs))"


section \<open>Run-length encoding\<close>

text \<open>The local variables of \<open>makerle\<close>, and the buffer.\<close>

record rle =
  data :: "byte list"
  hdrpos :: nat
  hdrsize :: int
  prevlen :: nat
  prevpos :: nat
  prev2 :: bool
  lstate :: "32 word"

definition memmove :: "'a list \<Rightarrow> nat \<Rightarrow> nat \<Rightarrow> nat \<Rightarrow> 'a list" where
  "memmove xs dst src n = take dst xs @ take n (drop src xs) @ drop (dst + n) xs"

definition slice :: "'a list \<Rightarrow> nat \<Rightarrow> nat \<Rightarrow> 'a list" where
  "slice xs pos n = take n (drop pos xs)"

definition set_byte :: "nat \<Rightarrow> int \<Rightarrow> byte list \<Rightarrow> byte list" where
  "set_byte pos v xs = xs[pos := word_of_int v]"

text \<open>\<open>hdrpos = b->len; hdrsize = 0; add(b, 0); prevlen = prevpos = 0; prev2 = FALSE;\<close>\<close>

definition new_header :: "rle \<Rightarrow> rle" where
  "new_header s = s\<lparr>hdrpos := length (data s), hdrsize := 0, data := data s @ [0],
     prevlen := 0, prevpos := 0, prev2 := False\<rparr>"

text \<open>
  The start of a run, for a state whose buffer ends with the literal that repeats: the new
  state, and the position of the header of the run.
\<close>

definition start_run :: "rle \<Rightarrow> (rle \<times> nat) option" where
  "start_run s =
     (let h1 = hdrsize s - 1;
          h2 = (if prev2 s then h1 - 1 else h1);
          pp = (if prev2 s then prevpos s - prevlen s else prevpos s)
      in if prev2 s \<and> \<not> h1 > 0 then None
         else if h2 = 0 then
           (if pp \<noteq> hdrpos s + 1 then None
            else Some (s\<lparr>hdrsize := h2, prevpos := pp, data := take (pp + prevlen s) (data s)\<rparr>, hdrpos s))
         else if \<not> (h2 \<ge> 1 \<and> h2 \<le> 128) then None
         else Some (s\<lparr>hdrsize := h2, prevpos := pp,
                data := set_byte (hdrpos s) (h2 - 1)
                  (take (pp + prevlen s + 1) (memmove (data s) (pp + 1) pp (prevlen s)))\<rparr>, pp))"

text \<open>
  Extend the run over the following cells; the literal of the run is at \<open>runpos + 1\<close>.  A
  cell that differs is not consumed, and its effect on the buffer and on \<open>state\<close> is undone.
\<close>

fun run_loop :: "(nat \<Rightarrow> 32 word \<Rightarrow> literal) \<Rightarrow> byte list \<Rightarrow> nat \<Rightarrow> nat \<Rightarrow> nat \<Rightarrow> nat \<Rightarrow> nat \<Rightarrow> 32 word
    \<Rightarrow> (nat \<times> nat \<times> nat \<times> 32 word) option" where
  "run_loop mk buf runpos thislen c 0 runlen st = Some (c, 0, runlen, st)"
| "run_loop mk buf runpos thislen c (Suc n) runlen st =
     (if \<not> runlen < 129 then Some (c, Suc n, runlen, st)
      else case mk c st of None \<Rightarrow> None
           | Some (lit, st1) \<Rightarrow>
             if length lit \<noteq> thislen \<or> slice buf (runpos + 1) (length lit) \<noteq> lit
             then Some (c, Suc n, runlen, st)
             else run_loop mk buf runpos thislen (c + 1) n (runlen + 1) st1)"

text \<open>A literal that does not make a run (yet): \<open>hdrsize++\<close> and the limit of 128.\<close>

definition count_literal :: "rle \<Rightarrow> rle" where
  "count_literal s =
     (let h = hdrsize s + 1 in
      if h = 128 then new_header (s\<lparr>hdrsize := h, data := set_byte (hdrpos s) (h - 1) (data s)\<rparr>)
      else s\<lparr>hdrsize := h\<rparr>)"

lemma run_loop_n: "run_loop mk buf runpos len c n runlen st = Some (c', n', r', st') \<Longrightarrow> n' \<le> n"
proof (induction n arbitrary: c runlen st)
  case (Suc n)
  show ?case
    using Suc.prems by (auto split: if_splits option.splits dest!: Suc.IH)
qed simp

function rle_loop :: "(nat \<Rightarrow> 32 word \<Rightarrow> literal) \<Rightarrow> nat \<Rightarrow> nat \<Rightarrow> rle \<Rightarrow> rle option" where
  "rle_loop mk c 0 s = Some s"
| "rle_loop mk c (Suc n) s =
     (case mk c (lstate s) of None \<Rightarrow> None
      | Some (lit, st1) \<Rightarrow>
        let thispos = length (data s); thislen = length lit;
            s1 = s\<lparr>data := data s @ lit, lstate := st1\<rparr>
        in if thislen = prevlen s \<and> slice (data s1) (prevpos s) thislen = slice (data s1) thispos thislen then
             if thislen > 1 \<or> prev2 s then
               (case start_run s1 of None \<Rightarrow> None
                | Some (s2, runpos) \<Rightarrow>
                  case run_loop mk (data s2) runpos thislen (c + 1) n (if prev2 s then 3 else 2) st1 of None \<Rightarrow> None
                  | Some (c3, n3, runlen, st3) \<Rightarrow>
                    if \<not> (runlen \<ge> 2 \<and> runlen \<le> 129) then None
                    else rle_loop mk c3 n3 (new_header (s2\<lparr>lstate := st3,
                      data := set_byte runpos (int runlen + 0x80 - 2) (data s2)\<rparr>)))
             else rle_loop mk (c + 1) n (count_literal (s1\<lparr>prev2 := True, prevlen := thislen, prevpos := thispos\<rparr>))
           else rle_loop mk (c + 1) n (count_literal (s1\<lparr>prev2 := False, prevlen := thislen, prevpos := thispos\<rparr>)))"
  by pat_completeness auto
termination
  by (relation "measure (\<lambda>(mk, c, n, s). n)") (auto dest!: run_loop_n)

definition finish_rle :: "rle \<Rightarrow> byte list option" where
  "finish_rle s =
     (if hdrsize s > 0 then
        (if \<not> hdrsize s \<le> 128 then None else Some (set_byte (hdrpos s) (hdrsize s - 1) (data s)))
      else Some (take (hdrpos s) (data s)))"

definition makerle :: "byte list \<Rightarrow> nat \<Rightarrow> (nat \<Rightarrow> 32 word \<Rightarrow> literal) \<Rightarrow> byte list option" where
  "makerle b n mk =
     (case rle_loop mk 0 n \<lparr>data = b @ [0], hdrpos = length b, hdrsize = 0, prevlen = 0, prevpos = 0,
                             prev2 = False, lstate = 0\<rparr>
      of None \<Rightarrow> None | Some s \<Rightarrow> finish_rle s)"

text \<open>Numbers in groups of 7 bits, least significant first.\<close>

function put_number :: "nat \<Rightarrow> byte list" where
  "put_number n = (if n \<ge> 128 then of_nat (n mod 128 + 128) # put_number (n div 128) else [of_nat n])"
  by pat_completeness auto
termination by (relation "measure id") auto

declare put_number.simps [simp del]

definition compressline :: "termline \<Rightarrow> byte list option" where
  "compressline l =
     (let b = put_number (cols l) @ put_number (unat (lattr l)) in
      case makerle b (cols l) (makeliteral_chr l) of None \<Rightarrow> None
      | Some b1 \<Rightarrow> case makerle b1 (cols l) (makeliteral_attr l) of None \<Rightarrow> None
        | Some b2 \<Rightarrow> makerle b2 (cols l) (makeliteral_cc l))"


section \<open>Decoding\<close>

text \<open>A buffer that is read: the data and the position \<open>len\<close>.\<close>

record rbuf =
  rdata :: "byte list"
  rlen :: nat

definition get :: "rbuf \<Rightarrow> (32 word \<times> rbuf) option" where
  "get b = (if rlen b < length (rdata b) then Some (ucast (rdata b ! rlen b), b\<lparr>rlen := rlen b + 1\<rparr>) else None)"

fun get_bytes :: "nat \<Rightarrow> 32 word \<Rightarrow> rbuf \<Rightarrow> (32 word \<times> rbuf) option" where
  "get_bytes 0 v b = Some (v, b)"
| "get_bytes (Suc k) v b =
     (case get b of None \<Rightarrow> None
      | Some (x, b1) \<Rightarrow> get_bytes k (v OR push_bit (8 * k) x) b1)"

text \<open>\<open>readliteral_chr\<close>: the character and the new value of \<open>*state\<close>.\<close>

definition get_chr :: "32 word \<Rightarrow> rbuf \<Rightarrow> (32 word \<times> 32 word \<times> rbuf) option" where
  "get_chr state b =
     (case get b of None \<Rightarrow> None
      | Some (x, b1) \<Rightarrow>
        case (if x < 0x80 then Some (x OR state, b1)
              else if x < 0xC0 then get_bytes 1 (push_bit 8 (x AND NOT 0xC0)) b1
              else if x < 0xE0 then get_bytes 2 (push_bit 16 (x AND NOT 0xE0)) b1
              else if x < 0xF0 then get_bytes 3 (push_bit 24 (x AND NOT 0xF0)) b1
              else if x = 0xF0 then get_bytes 4 0 b1
              else None)
        of None \<Rightarrow> None
        | Some (c, b2) \<Rightarrow> Some (c, c AND NOT 0xFF, b2))"

type_synonym reading = "(termline \<times> 32 word \<times> rbuf) option"

definition readliteral_chr :: "nat \<Rightarrow> 32 word \<Rightarrow> termline \<Rightarrow> rbuf \<Rightarrow> reading" where
  "readliteral_chr i state l b =
     (case get_chr state b of None \<Rightarrow> None
      | Some (c, st, b1) \<Rightarrow> Some (upd_char i (\<lambda>t. t\<lparr>chr := c\<rparr>) l, st, b1))"

definition unpack_attr :: "32 word \<Rightarrow> 32 word" where
  "unpack_attr val =
     (let colourbits = drop_bit (32 - 9) val AND 0xFF;
          a = val AND (push_bit (32 - 9) 1 - 1);
          a1 = push_bit (ATTR_FGSHIFT + 8) (drop_bit (ATTR_FGSHIFT + 4) a)
               OR (a AND (push_bit (ATTR_FGSHIFT + 4) 1 - 1));
          a2 = push_bit (ATTR_BGSHIFT + 8) (drop_bit (ATTR_BGSHIFT + 4) a1)
               OR (a1 AND (push_bit (ATTR_BGSHIFT + 4) 1 - 1))
      in a2 OR push_bit (ATTR_BGSHIFT + 4) (drop_bit 4 colourbits)
            OR push_bit (ATTR_FGSHIFT + 4) (colourbits AND 0xF))"

definition get_attr :: "rbuf \<Rightarrow> (32 word \<times> rbuf) option" where
  "get_attr b =
     (case get_bytes 2 0 b of None \<Rightarrow> None
      | Some (val, b1) \<Rightarrow>
        if val \<ge> 0x8000 then get_bytes 2 (push_bit 16 (val AND NOT 0x8000)) b1 else Some (val, b1))"

definition readliteral_attr :: "nat \<Rightarrow> 32 word \<Rightarrow> termline \<Rightarrow> rbuf \<Rightarrow> reading" where
  "readliteral_attr i state l b =
     (case get_attr b of None \<Rightarrow> None
      | Some (val, b1) \<Rightarrow> Some (upd_char i (\<lambda>t. t\<lparr>attr := unpack_attr val\<rparr>) l, state, b1))"

lemma get_rlen: "get b = Some (x, b') \<Longrightarrow> rdata b' = rdata b \<and> rlen b < rlen b' \<and> rlen b' \<le> length (rdata b)"
  by (auto simp: get_def split: if_splits)

lemma get_bytes_rlen:
  "get_bytes k v b = Some (x, b') \<Longrightarrow> rlen b \<le> length (rdata b) \<Longrightarrow>
   rdata b' = rdata b \<and> rlen b \<le> rlen b' \<and> rlen b' \<le> length (rdata b)"
  by (induction k arbitrary: v b) (fastforce split: option.splits prod.splits dest: get_rlen)+

lemma get_chr_rlen: "get_chr st b = Some (c, st', b') \<Longrightarrow>
    rdata b' = rdata b \<and> rlen b < rlen b' \<and> rlen b' \<le> length (rdata b)"
  unfolding get_chr_def
  by (auto split: option.splits prod.splits if_splits dest!: get_rlen get_bytes_rlen)

text \<open>The loop of \<open>readliteral_cc\<close>.\<close>

function read_ccs :: "(nat \<Rightarrow> termchar) \<Rightarrow> nat \<Rightarrow> termline \<Rightarrow> rbuf \<Rightarrow> (termline \<times> rbuf) option" where
  "read_ccs junk i l b =
     (case get_chr 0 b of None \<Rightarrow> None
      | Some (c, st, b1) \<Rightarrow>
        if c = 0 then Some (l, b1)
        else case add_cc junk l i c of None \<Rightarrow> None
             | Some l1 \<Rightarrow> read_ccs junk i l1 b1)"
  by pat_completeness auto
termination
proof (relation "measure (\<lambda>(junk, i, l, b). length (rdata b) - rlen b)", goal_cases)
  case (2 junk i l b x c r st b1 l1)
  then have "rdata b1 = rdata b \<and> rlen b < rlen b1 \<and> rlen b1 \<le> length (rdata b)" using get_chr_rlen by auto
  then show ?case by auto
qed simp

declare read_ccs.simps [simp del]

definition readliteral_cc :: "(nat \<Rightarrow> termchar) \<Rightarrow> nat \<Rightarrow> 32 word \<Rightarrow> termline \<Rightarrow> rbuf \<Rightarrow> reading" where
  "readliteral_cc junk i state l b =
     (case read_ccs junk i (upd_char i (\<lambda>t. t\<lparr>cc_next := 0\<rparr>) l) b of None \<Rightarrow> None
      | Some (l1, b1) \<Rightarrow> Some (l1, state, b1))"

text \<open>The two loops of \<open>readrle\<close> over the cells of one header; a run goes back to its literal.\<close>

fun read_run :: "(nat \<Rightarrow> 32 word \<Rightarrow> termline \<Rightarrow> rbuf \<Rightarrow> reading) \<Rightarrow> nat \<Rightarrow> nat \<Rightarrow> nat \<Rightarrow> nat \<Rightarrow> 32 word
    \<Rightarrow> termline \<Rightarrow> rbuf \<Rightarrow> reading" where
  "read_run rd columns pos 0 n st l b = Some (l, st, b)"
| "read_run rd columns pos (Suc count) n st l b =
     (if \<not> n < columns then None
      else case rd n st l (b\<lparr>rlen := pos\<rparr>) of None \<Rightarrow> None
           | Some (l1, st1, b1) \<Rightarrow> read_run rd columns pos count (n + 1) st1 l1 b1)"

fun read_literals :: "(nat \<Rightarrow> 32 word \<Rightarrow> termline \<Rightarrow> rbuf \<Rightarrow> reading) \<Rightarrow> nat \<Rightarrow> nat \<Rightarrow> nat \<Rightarrow> 32 word
    \<Rightarrow> termline \<Rightarrow> rbuf \<Rightarrow> reading" where
  "read_literals rd columns 0 n st l b = Some (l, st, b)"
| "read_literals rd columns (Suc count) n st l b =
     (if \<not> n < columns then None
      else case rd n st l b of None \<Rightarrow> None
           | Some (l1, st1, b1) \<Rightarrow> read_literals rd columns count (n + 1) st1 l1 b1)"

function readrle_loop :: "(nat \<Rightarrow> 32 word \<Rightarrow> termline \<Rightarrow> rbuf \<Rightarrow> reading) \<Rightarrow> nat \<Rightarrow> nat \<Rightarrow> 32 word
    \<Rightarrow> termline \<Rightarrow> rbuf \<Rightarrow> (termline \<times> rbuf) option" where
  "readrle_loop rd columns n st l b =
     (if n < columns then
        (case get b of None \<Rightarrow> None
         | Some (hdr, b1) \<Rightarrow>
           let count = (if hdr \<ge> 0x80 then unat hdr + 2 - 0x80 else unat hdr + 1) in
           case (if hdr \<ge> 0x80 then read_run rd columns (rlen b1) count n st l b1
                 else read_literals rd columns count n st l b1)
           of None \<Rightarrow> None
           | Some (l1, st1, b2) \<Rightarrow> readrle_loop rd columns (n + count) st1 l1 b2)
      else if n = columns then Some (l, b) else None)"
  by pat_completeness auto
termination
  by (relation "measure (\<lambda>(rd, columns, n, st, l, b). columns - n)") (auto simp: word_le_nat_alt)

declare readrle_loop.simps [simp del]

definition readrle :: "(nat \<Rightarrow> 32 word \<Rightarrow> termline \<Rightarrow> rbuf \<Rightarrow> reading) \<Rightarrow> termline \<Rightarrow> rbuf
    \<Rightarrow> (termline \<times> rbuf) option" where
  "readrle rd l b = readrle_loop rd (cols l) 0 0 l b"

text \<open>A number in groups of 7 bits, read into an \<open>int\<close> (here without its upper limit).\<close>

function get_number :: "nat \<Rightarrow> nat \<Rightarrow> rbuf \<Rightarrow> (nat \<times> rbuf) option" where
  "get_number acc shift b =
     (case get b of None \<Rightarrow> None
      | Some (x, b1) \<Rightarrow>
        let acc1 = acc + (unat x mod 128) * 2 ^ shift in
        if x AND 0x80 \<noteq> 0 then get_number acc1 (shift + 7) b1 else Some (acc1, b1))"
  by pat_completeness auto
termination
proof (relation "measure (\<lambda>(acc, shift, b). length (rdata b) - rlen b)", goal_cases)
  case (2 acc shift b x c b1 acc1)
  then have "rdata b1 = rdata b \<and> rlen b < rlen b1 \<and> rlen b1 \<le> length (rdata b)" using get_rlen by auto
  then show ?case by auto
qed simp

declare get_number.simps [simp del]

definition decompressline :: "(nat \<Rightarrow> termchar) \<Rightarrow> 16 word \<Rightarrow> byte list option \<Rightarrow> (termline \<times> nat) option" where
  "decompressline junk junk_lattr d =
     (case d of None \<Rightarrow>
        Some (\<lparr>lattr = junk_lattr, cols = 0, temporary = True, cc_free = 0, chars = []\<rparr>, 0)
      | Some bytes \<Rightarrow>
        case get_number 0 0 \<lparr>rdata = bytes, rlen = 0\<rparr> of None \<Rightarrow> None
        | Some (ncols, b1) \<Rightarrow>
          let l = \<lparr>lattr = 0, cols = ncols, temporary = True, cc_free = 0,
                   chars = map (\<lambda>i. (junk i)\<lparr>cc_next := 0\<rparr>) [0..<ncols]\<rparr> in
          case get_number 0 0 b1 of None \<Rightarrow> None
          | Some (la, b2) \<Rightarrow>
            case readrle readliteral_chr (l\<lparr>lattr := of_nat la\<rparr>) b2 of None \<Rightarrow> None
            | Some (l1, b3) \<Rightarrow> case readrle readliteral_attr l1 b3 of None \<Rightarrow> None
              | Some (l2, b4) \<Rightarrow> case readrle (readliteral_cc junk) l2 b4 of None \<Rightarrow> None
                | Some (l3, b5) \<Rightarrow> Some (l3, rlen b5))"

end
