(* ===== verification/Termline_CC.thy ===== *)
theory Termline_CC
  imports Termline
begin

text \<open>
  The lists of combining characters of a line: what the diagnostic function \<open>cc_check\<close> of
  \<open>terminal.c\<close> asserts is stated as the invariant \<open>line_ok\<close> (the lists of the cells and the
  free list are disjoint chains that cover the spare part of the array), every operation on
  cells keeps it, and each is shown to act on the abstract cells, a character, an attribute
  and the combining characters in order, as its name says.
\<close>

unbundle bit_operations_syntax

section \<open>Chains of cells\<close>

fun path :: "termchar list \<Rightarrow> nat \<Rightarrow> nat list \<Rightarrow> bool" where
  "path cs i [] \<longleftrightarrow> i < length cs \<and> cc_next (cs ! i) = 0"
| "path cs i (j # js) \<longleftrightarrow> i < length cs \<and> cc_next (cs ! i) = int j - int i \<and> j \<noteq> i \<and> path cs j js"

lemma path_bound: "path cs i js \<Longrightarrow> k \<in> set (i # js) \<Longrightarrow> k < length cs"
  by (induction cs i js rule: path.induct) auto

lemma path_update: "path cs i js \<Longrightarrow> k \<notin> set (i # js) \<Longrightarrow> path (cs[k := t]) i js"
  by (induction cs i js rule: path.induct) auto

lemma path_extend: "path cs i js \<Longrightarrow> path (cs @ ds) i js"
  by (induction cs i js rule: path.induct) (auto simp: nth_append)

lemma path_cong:
  "length cs = length ds \<Longrightarrow> (\<And>k. k < length cs \<Longrightarrow> cc_next (cs ! k) = cc_next (ds ! k)) \<Longrightarrow>
   path cs i js = path ds i js"
  by (induction cs i js rule: path.induct) auto

lemma cc_succ_path: "path cs i (j # js) \<Longrightarrow> cc_succ cs i = j"
  by (simp add: cc_succ_def Let_def)

lemma cc_last_path: "path cs i js \<Longrightarrow> length js \<le> fuel \<Longrightarrow> cc_last fuel cs i = Some (last (i # js))"
proof (induction cs i js arbitrary: fuel rule: path.induct)
  case (1 cs i)
  then show ?case by (subst cc_last.simps) simp
next
  case (2 cs i j js)
  then obtain k where "fuel = Suc k" by (cases fuel) auto
  then show ?case using 2 cc_succ_path[of cs i j js] by (subst cc_last.simps) auto
qed

lemma cc_chars_path:
  "path cs i js \<Longrightarrow> length js \<le> fuel \<Longrightarrow> cc_chars fuel cs i = Some (map (\<lambda>j. chr (cs ! j)) js)"
proof (induction cs i js arbitrary: fuel rule: path.induct)
  case (1 cs i)
  then show ?case by (subst cc_chars.simps) simp
next
  case (2 cs i j js)
  then obtain k where "fuel = Suc k" by (cases fuel) auto
  moreover have "j < length cs" using path_bound[of cs j js j] 2(2) by simp
  ultimately show ?case using 2 cc_succ_path[of cs i j js] by (subst cc_chars.simps) (auto simp: Let_def)
qed

text \<open>Joining two chains, by changing the end of the first.\<close>

lemma path_join:
  assumes "path cs i js" "path cs f fs" "distinct (i # js)" "set (i # js) \<inter> set (f # fs) = {}"
    "e = last (i # js)"
  shows "path (cs[e := (cs ! e)\<lparr>cc_next := int f - int e\<rparr>]) i (js @ f # fs)"
  using assms
proof (induction cs i js rule: path.induct)
  case (1 cs i)
  then show ?case using path_update[of cs f fs i] by auto
next
  case (2 cs i j js)
  then have "path (cs[e := (cs ! e)\<lparr>cc_next := int f - int e\<rparr>]) j (js @ f # fs)" by auto
  moreover have "e \<noteq> i" using 2 by (auto split: if_splits)
  ultimately show ?case using 2 by auto
qed

lemma path_steps:
  assumes "n < m" "m \<le> length cs" "\<And>k. n \<le> k \<Longrightarrow> k < m \<Longrightarrow> cc_next (cs ! k) = (if k + 1 < m then 1 else 0)"
  shows "path cs n [Suc n..<m]"
  using assms
proof (induction "m - n" arbitrary: n)
  case (Suc d)
  show ?case
  proof (cases "Suc n < m")
    case True
    then have "[Suc n..<m] = Suc n # [Suc (Suc n)..<m]" by (simp add: upt_conv_Cons)
    moreover have "path cs (Suc n) [Suc (Suc n)..<m]" using Suc True by auto
    ultimately show ?thesis using Suc.prems True by simp
  next
    case False
    then have "m = Suc n" using Suc.prems(1) by simp
    then show ?thesis using Suc.prems by simp
  qed
qed simp

section \<open>Well-formed lines\<close>

definition free_path :: "termchar list \<Rightarrow> int \<Rightarrow> nat list \<Rightarrow> bool" where
  "free_path cs free fr \<longleftrightarrow>
     (case fr of [] \<Rightarrow> free = 0 | f # fs \<Rightarrow> free = int f \<and> f \<noteq> 0 \<and> path cs f fs)"

definition chains :: "termline \<Rightarrow> (nat \<Rightarrow> nat list) \<Rightarrow> nat list \<Rightarrow> bool" where
  "chains l ch fr \<longleftrightarrow>
     cols l \<le> length (chars l)
   \<and> (\<forall>i < cols l. path (chars l) i (ch i) \<and> distinct (ch i))
   \<and> free_path (chars l) (cc_free l) fr \<and> distinct fr
   \<and> (\<forall>i < cols l. \<forall>j < cols l. i \<noteq> j \<longrightarrow> set (ch i) \<inter> set (ch j) = {})
   \<and> (\<forall>i < cols l. set (ch i) \<inter> set fr = {})
   \<and> (\<Union>i < cols l. set (ch i)) \<union> set fr = {cols l..<length (chars l)}"

text \<open>This is what \<open>cc_check\<close> asserts.\<close>

definition line_ok :: "termline \<Rightarrow> bool" where
  "line_ok l \<longleftrightarrow> (\<exists>ch fr. chains l ch fr)"

text \<open>The abstract content of a cell: its character and attribute, and its combining characters.\<close>

definition cell_ccs :: "termline \<Rightarrow> nat \<Rightarrow> 32 word list" where
  "cell_ccs l i = the (cc_chars (length (chars l)) (chars l) i)"

definition cell :: "termline \<Rightarrow> nat \<Rightarrow> 32 word \<times> 32 word \<times> 32 word list" where
  "cell l i = (chr (chars l ! i), attr (chars l ! i), cell_ccs l i)"

lemma chains_range: "chains l ch fr \<Longrightarrow> i < cols l \<Longrightarrow> k \<in> set (ch i) \<Longrightarrow> cols l \<le> k \<and> k < length (chars l)"
  by (auto simp: chains_def)

lemma chains_free_range: "chains l ch fr \<Longrightarrow> k \<in> set fr \<Longrightarrow> cols l \<le> k \<and> k < length (chars l)"
  by (auto simp: chains_def)

lemma chains_disjoint:
  "chains l ch fr \<Longrightarrow> i < cols l \<Longrightarrow> j < cols l \<Longrightarrow> i \<noteq> j \<Longrightarrow> k \<in> set (ch i) \<Longrightarrow> k \<notin> set (ch j)"
  unfolding chains_def by blast

lemma chains_not_free: "chains l ch fr \<Longrightarrow> i < cols l \<Longrightarrow> k \<in> set (ch i) \<Longrightarrow> k \<notin> set fr"
  unfolding chains_def by blast

text \<open>A cell of the list of column \<open>col\<close> is in no other list.\<close>

lemma chains_other:
  assumes c: "chains l ch fr" and k: "k \<in> set (col # ch col)" and col: "col < cols l"
  shows "i < cols l \<Longrightarrow> i \<noteq> col \<Longrightarrow> k \<notin> set (i # ch i)" "k \<notin> set fr"
proof -
  consider "k = col" | "k \<in> set (ch col)" using k by auto
  then show "i < cols l \<Longrightarrow> i \<noteq> col \<Longrightarrow> k \<notin> set (i # ch i)"
  proof cases
    case 1
    then show "i < cols l \<Longrightarrow> i \<noteq> col \<Longrightarrow> ?thesis" using chains_range[OF c, of i col] col by auto
  next
    case 2
    then show "i < cols l \<Longrightarrow> i \<noteq> col \<Longrightarrow> ?thesis"
      using chains_range[OF c col 2] chains_disjoint[OF c col, of i k] by auto
  qed
  show "k \<notin> set fr"
    using k col chains_free_range[OF c, of k] chains_not_free[OF c col, of k] by auto
qed

lemma chain_length:
  assumes "chains l ch fr" "i < cols l"
  shows "length (ch i) \<le> length (chars l)"
proof -
  have "distinct (ch i)" "set (ch i) \<subseteq> {..<length (chars l)}"
    using assms chains_range[OF assms] by (auto simp: chains_def)
  then show ?thesis by (metis card_lessThan card_mono distinct_card finite_lessThan)
qed

lemma chains_chars:
  assumes "chains l ch fr" "i < cols l"
  shows "cc_chars (length (chars l)) (chars l) i = Some (map (\<lambda>j. chr (chars l ! j)) (ch i))"
    "cell_ccs l i = map (\<lambda>j. chr (chars l ! j)) (ch i)"
    "cc_last (length (chars l)) (chars l) i = Some (last (i # ch i))"
  using cc_chars_path[of "chars l" i "ch i"] cc_last_path[of "chars l" i "ch i"]
    assms chain_length[OF assms] by (auto simp: chains_def cell_ccs_def)


lemma chains_free_Nil: "chains l ch fr \<Longrightarrow> cc_free l = 0 \<Longrightarrow> fr = []"
  by (auto simp: chains_def free_path_def split: list.splits)

lemma extend_ok:
  assumes c: "chains l ch fr" and z: "cc_free l = 0" and p: "0 < cols l"
  shows "\<exists>f fs. chains (extend_line junk l) ch (f # fs)
    \<and> cols (extend_line junk l) = cols l
    \<and> (\<forall>i < cols l. cell (extend_line junk l) i = cell l i)"
proof -
  let ?n = "length (chars l)"
  define m where "m = ?n + (16 + (?n - cols l) div 2)"
  let ?ds = "map (\<lambda>k. (junk k)\<lparr>cc_next := (if k + 1 < m then 1 else 0)\<rparr>) [?n..<m]"
  have fr: "fr = []" using chains_free_Nil[OF c z] .
  have e: "extend_line junk l = l\<lparr>cc_free := int ?n, chars := chars l @ ?ds\<rparr>"
    by (simp add: extend_line_def m_def Let_def)
  have m: "?n < m" by (simp add: m_def)
  have lds: "length (chars l @ ?ds) = m" using m by simp
  have nz: "?n \<noteq> 0" using c p by (auto simp: chains_def)
  have steps: "path (chars l @ ?ds) ?n [Suc ?n..<m]"
  proof (rule path_steps[OF m])
    show "m \<le> length (chars l @ ?ds)" using lds by simp
    fix k assume k: "?n \<le> k" "k < m"
    then have "(chars l @ ?ds) ! k = (junk k)\<lparr>cc_next := (if k + 1 < m then 1 else 0)\<rparr>"
      by (simp add: nth_append)
    then show "cc_next ((chars l @ ?ds) ! k) = (if k + 1 < m then 1 else 0)" by simp
  qed
  have c': "chains (extend_line junk l) ch (?n # [Suc ?n..<m])"
    unfolding chains_def
  proof (intro conjI)
    show "cols (extend_line junk l) \<le> length (chars (extend_line junk l))" using c by (simp add: e chains_def)
    show "\<forall>i<cols (extend_line junk l). path (chars (extend_line junk l)) i (ch i) \<and> distinct (ch i)"
      using c path_extend by (simp add: e chains_def)
    show "free_path (chars (extend_line junk l)) (cc_free (extend_line junk l)) (?n # [Suc ?n..<m])"
      using steps nz by (simp add: free_path_def e)
    show "distinct (?n # [Suc ?n..<m])" by simp
    show "\<forall>i<cols (extend_line junk l). \<forall>j<cols (extend_line junk l). i \<noteq> j \<longrightarrow> set (ch i) \<inter> set (ch j) = {}"
      using c by (simp add: e chains_def)
    show "\<forall>i<cols (extend_line junk l). set (ch i) \<inter> set (?n # [Suc ?n..<m]) = {}"
      using chains_range[OF c] by (fastforce simp: e)
    have u: "(\<Union>i < cols l. set (ch i)) = {cols l..<?n}" using c fr by (simp add: chains_def)
    have "?n \<ge> cols l" using c by (simp add: chains_def)
    then show "(\<Union>i < cols (extend_line junk l). set (ch i)) \<union> set (?n # [Suc ?n..<m])
        = {cols (extend_line junk l)..<length (chars (extend_line junk l))}"
      using u m by (auto simp: e)
  qed
  moreover have "cell (extend_line junk l) i = cell l i" if i: "i < cols l" for i
  proof -
    have "i < ?n" using c i by (simp add: chains_def)
    moreover have "map (\<lambda>j. chr ((chars l @ ?ds) ! j)) (ch i) = map (\<lambda>j. chr (chars l ! j)) (ch i)"
      using chains_range[OF c i] by (simp add: nth_append)
    ultimately show ?thesis
      using chains_chars(2)[OF c i] chains_chars(2)[OF c'] i by (simp add: cell_def e nth_append)
  qed
  ultimately show ?thesis by (auto simp: e)
qed

lemma take_free_ok:
  assumes c: "chains l ch (f # fs)" and col: "col < cols l"
  shows "\<exists>l'. add_cc junk l col x = Some l' \<and> chains l' (ch(col := ch col @ [f])) fs
    \<and> cols l' = cols l
    \<and> (\<forall>i < cols l. cell l' i = (if i = col then (chr (chars l ! col), attr (chars l ! col), cell_ccs l col @ [x])
                                  else cell l i))"
proof -
  let ?cs = "chars l" and ?n = "length (chars l)"
  define e where "e = last (col # ch col)"
  define cs1 where "cs1 = ?cs[f := (?cs ! f)\<lparr>chr := x, cc_next := 0\<rparr>]"
  define cs2 where "cs2 = cs1[e := (cs1 ! e)\<lparr>cc_next := int f - int e\<rparr>]"
  define l' where "l' = l\<lparr>cc_free := (if fs = [] then 0 else int (hd fs)), chars := cs2\<rparr>"
  have path: "path ?cs i (ch i)" "distinct (ch i)" if "i < cols l" for i using c that by (auto simp: chains_def)
  have f: "cc_free l = int f" "f \<noteq> 0" "path ?cs f fs" "cols l \<le> f" "f < ?n" "f \<notin> set fs" "distinct fs"
    using c chains_free_range[OF c, of f] by (auto simp: chains_def free_path_def)
  have e: "e \<in> set (col # ch col)" unfolding e_def by (rule last_in_set) simp
  have fch: "f \<notin> set (i # ch i)" if "i < cols l" for i
    using f(4) that chains_not_free[OF c that, of f] by auto
  have ef: "e \<noteq> f" using fch[OF col] e by auto
  have en: "e < ?n" using path_bound[OF path(1)[OF col] e] .
  have ei: "e \<notin> set (i # ch i)" if "i < cols l" "i \<noteq> col" for i
    by (rule chains_other(1)[OF c e col that])
  have efs: "e \<notin> set (f # fs)" by (rule chains_other(2)[OF c e col])
  have nxt: "cc_next (?cs ! f) = (if fs = [] then 0 else int (hd fs) - int f) \<and> (fs \<noteq> [] \<longrightarrow> hd fs \<noteq> f)"
    using f(3) by (cases fs) auto
  have last: "cc_last ?n ?cs col = Some e" using chains_chars(3)[OF c col] by (simp add: e_def)
  have cs2': "cs2 = (?cs[f := (?cs ! f)\<lparr>chr := x, cc_next := 0\<rparr>])
      [e := ((?cs[f := (?cs ! f)\<lparr>chr := x, cc_next := 0\<rparr>]) ! e)\<lparr>cc_next := int f - int e\<rparr>]"
    by (simp add: cs2_def cs1_def)
  have "add_cc junk l col x = Some l'"
    using nxt col f(1,2,5) unfolding add_cc_def l'_def cs2'
    by (auto simp: Let_def last upd_char_def)
  have pcol: "path cs2 col (ch col @ [f])"
  proof -
    have 1: "path cs1 col (ch col)" unfolding cs1_def by (rule path_update[OF path(1)[OF col] fch[OF col]])
    have 2: "path cs1 f []" using f(5) by (simp add: cs1_def)
    have 3: "distinct (col # ch col)" using path(2)[OF col] chains_range[OF c col] col by fastforce
    show ?thesis unfolding cs2_def
      by (rule path_join[OF 1 2 3 _ e_def]) (use fch[OF col] in auto)
  qed
  have pi: "path cs2 i (ch i)" if "i < cols l" "i \<noteq> col" for i
    unfolding cs2_def cs1_def by (intro path_update path fch ei that)
  have pf: "free_path cs2 (cc_free l') fs"
  proof (cases fs)
    case (Cons g gs)
    then have "path ?cs g gs" "g \<noteq> 0" "f \<notin> set (g # gs)" "e \<notin> set (g # gs)"
      using f(3,6) efs chains_free_range[OF c, of g] col by auto
    then show ?thesis unfolding cs2_def cs1_def
      by (simp add: free_path_def l'_def Cons) (intro path_update; simp)
  qed (simp add: free_path_def l'_def)
  have c': "chains l' (ch(col := ch col @ [f])) fs"
    unfolding chains_def
  proof (intro conjI)
    show "cols l' \<le> length (chars l')" using c by (simp add: l'_def chains_def cs1_def cs2_def)
    show "\<forall>i<cols l'. path (chars l') i ((ch(col := ch col @ [f])) i) \<and> distinct ((ch(col := ch col @ [f])) i)"
      using pcol pi path(2) fch by (auto simp: l'_def)
    show "free_path (chars l') (cc_free l') fs" using pf by (simp add: l'_def)
    show "distinct fs" by (fact f(7))
    show "\<forall>i<cols l'. \<forall>j<cols l'. i \<noteq> j \<longrightarrow> set ((ch(col := ch col @ [f])) i) \<inter> set ((ch(col := ch col @ [f])) j) = {}"
      using c fch by (auto simp: l'_def chains_def)
    show "\<forall>i<cols l'. set ((ch(col := ch col @ [f])) i) \<inter> set fs = {}"
      using c f(6) by (auto simp: l'_def chains_def)
    have "(\<Union>i < cols l. set ((ch(col := ch col @ [f])) i)) = (\<Union>i < cols l. set (ch i)) \<union> {f}"
      using col by (auto split: if_splits)
    then show "(\<Union>i < cols l'. set ((ch(col := ch col @ [f])) i)) \<union> set fs = {cols l'..<length (chars l')}"
      using c by (auto simp: l'_def chains_def cs1_def cs2_def)
  qed
  have chr2: "chr (cs2 ! k) = (if k = f then x else chr (?cs ! k))" "attr (cs2 ! k) = attr (?cs ! k)" if "k < ?n" for k
    using that ef en f(5) by (auto simp: cs2_def cs1_def nth_list_update)
  have "cell l' i = (if i = col then (chr (?cs ! col), attr (?cs ! col), cell_ccs l col @ [x]) else cell l i)"
    if i: "i < cols l" for i
  proof -
    have n: "i < ?n" "i \<noteq> f" using c i f(4) by (auto simp: chains_def)
    have m: "map (\<lambda>j. chr (cs2 ! j)) (ch i) = map (\<lambda>j. chr (?cs ! j)) (ch i)"
      using chains_range[OF c i] fch[OF i] by (auto simp: chr2)
    have i': "i < cols l'" using i by (simp add: l'_def)
    show ?thesis
      using chains_chars(2)[OF c' i'] chains_chars(2)[OF c i] m n chr2[OF n(1)] chr2[OF f(5)]
      by (auto simp: cell_def l'_def)
  qed
  with \<open>add_cc junk l col x = Some l'\<close> c' show ?thesis by (auto simp: l'_def)
qed

section \<open>The operations\<close>

lemma path_last: "path cs i js \<Longrightarrow> cc_next (cs ! last (i # js)) = 0"
  by (induction cs i js rule: path.induct) auto

lemma chains_cell:
  assumes "chains l ch fr" "i < cols l"
  shows "cell l i = (chr (chars l ! i), attr (chars l ! i), map (\<lambda>j. chr (chars l ! j)) (ch i))"
  using chains_chars(2)[OF assms] by (simp add: cell_def)

lemma chains_path: "chains l ch fr \<Longrightarrow> i < cols l \<Longrightarrow> path (chars l) i (ch i) \<and> distinct (i # ch i)"
  using chains_range[of l ch fr i i] by (auto simp: chains_def)

lemma chains_cols: "chains l ch fr \<Longrightarrow> i < cols l \<Longrightarrow> i < length (chars l)"
  by (auto simp: chains_def)

text \<open>The cells of a line, and the columns that its operations leave alone.\<close>

definition cells :: "termline \<Rightarrow> (32 word \<times> 32 word \<times> 32 word list) list" where
  "cells l = map (cell l) [0..<cols l]"

definition same_but_cells :: "termline \<Rightarrow> termline \<Rightarrow> bool" where
  "same_but_cells l l' \<longleftrightarrow> cols l' = cols l \<and> lattr l' = lattr l \<and> temporary l' = temporary l"

lemma length_cells [simp]: "length (cells l) = cols l" by (simp add: cells_def)
lemma nth_cells [simp]: "i < cols l \<Longrightarrow> cells l ! i = cell l i" by (simp add: cells_def)

lemma cells_update:
  "cols l' = cols l \<Longrightarrow> (\<And>i. i < cols l \<Longrightarrow> cell l' i = (if i = k then c else cell l i)) \<Longrightarrow>
   cells l' = (cells l)[k := c]"
  by (auto intro!: nth_equalityI simp: nth_list_update)

lemma add_cc_extend:
  assumes "chains l ch fr" "cc_free l = 0" "col < cols l"
  shows "add_cc junk l col x = add_cc junk (extend_line junk l) col x"
  using assms by (auto simp: add_cc_def extend_line_def Let_def chains_def)

lemma add_cc_ok:
  assumes "line_ok l" and col: "col < cols l"
  shows "\<exists>l'. add_cc junk l col x = Some l' \<and> line_ok l' \<and> same_but_cells l l'
    \<and> cells l' = (cells l)[col := (chr (chars l ! col), attr (chars l ! col), cell_ccs l col @ [x])]"
proof -
  obtain ch fr where c: "chains l ch fr" using assms(1) by (auto simp: line_ok_def)
  have ext: "same_but_cells l (extend_line junk l)" by (simp add: same_but_cells_def extend_line_def Let_def)
  have step: "\<exists>l'. add_cc junk m col x = Some l' \<and> line_ok l' \<and> same_but_cells m l'
      \<and> cells l' = (cells m)[col := (chr (chars m ! col), attr (chars m ! col), cell_ccs m col @ [x])]"
    if m: "chains m ch (f # fs)" "col < cols m" for m f fs
  proof -
    obtain l' where l': "add_cc junk m col x = Some l'" "chains l' (ch(col := ch col @ [f])) fs" "cols l' = cols m"
      "\<forall>i < cols m. cell l' i = (if i = col then (chr (chars m ! col), attr (chars m ! col), cell_ccs m col @ [x])
                                  else cell m i)"
      using take_free_ok[OF m] by blast
    have "cc_free m \<noteq> 0" using m(1) by (simp add: chains_def free_path_def)
    then have "same_but_cells m l'" using l'(1)
      by (auto simp: add_cc_def same_but_cells_def Let_def upd_char_def split: if_splits option.splits)
    then show ?thesis using l' cells_update[OF l'(3)] line_ok_def by blast
  qed
  show ?thesis
  proof (cases "cc_free l = 0")
    case True
    obtain f fs where e: "chains (extend_line junk l) ch (f # fs)" "\<forall>i < cols l. cell (extend_line junk l) i = cell l i"
      using extend_ok[OF c True] col by force
    have k: "cols (extend_line junk l) = cols l" using ext by (simp add: same_but_cells_def)
    have "cells (extend_line junk l) = cells l" using e(2) k by (simp add: cells_def)
    then show ?thesis
      using step[OF e(1)] e(2) add_cc_extend[OF c True col] k col ext by (auto simp: cell_def same_but_cells_def)
  next
    case False
    then obtain f fs where "fr = f # fs" using c by (auto simp: chains_def free_path_def split: list.splits)
    then show ?thesis using step c col by blast
  qed
qed

lemma add_ccs_ok:
  assumes "line_ok l" "x < cols l"
  shows "\<exists>l'. add_ccs junk l x xs = Some l' \<and> line_ok l' \<and> same_but_cells l l'
    \<and> cells l' = (cells l)[x := (chr (chars l ! x), attr (chars l ! x), cell_ccs l x @ xs)]"
  using assms
proof (induction xs arbitrary: l)
  case Nil
  then show ?case by (auto simp: same_but_cells_def cell_def[symmetric] intro!: nth_equalityI[symmetric] simp: nth_list_update)
next
  case (Cons c xs)
  obtain l1 where l1: "add_cc junk l x c = Some l1" "line_ok l1" "same_but_cells l l1"
    "cells l1 = (cells l)[x := (chr (chars l ! x), attr (chars l ! x), cell_ccs l x @ [c])]"
    using add_cc_ok[OF Cons.prems] by blast
  have x1: "x < cols l1" using l1(3) Cons.prems by (simp add: same_but_cells_def)
  have "cell l1 x = (chr (chars l ! x), attr (chars l ! x), cell_ccs l x @ [c])"
    using l1(4) x1 Cons.prems nth_cells[of x l1] by (metis length_cells nth_list_update_eq)
  then show ?case using Cons.IH[OF l1(2) x1] l1 x1 by (auto simp: cell_def same_but_cells_def)
qed

text \<open>Replacing a cell without touching its list.\<close>

lemma set_cell_ok:
  assumes c: "chains l ch fr" and x: "x < cols l" and t: "cc_next t = cc_next (chars l ! x)"
  shows "chains (upd_char x (\<lambda>_. t) l) ch fr"
    "i < cols l \<Longrightarrow> cell (upd_char x (\<lambda>_. t) l) i = (if i = x then (chr t, attr t, cell_ccs l x) else cell l i)"
proof -
  let ?l = "upd_char x (\<lambda>_. t) l"
  have p: "path ((chars l)[x := t]) i js = path (chars l) i js" for i js
    by (rule path_cong) (use chains_cols[OF c x] t in \<open>auto simp: nth_list_update\<close>)
  then show c': "chains ?l ch fr"
    using c by (simp add: chains_def upd_char_def free_path_def split: list.splits)
  show "i < cols l \<Longrightarrow> cell ?l i = (if i = x then (chr t, attr t, cell_ccs l x) else cell l i)"
  proof -
    assume i: "i < cols l"
    have "map (\<lambda>j. chr ((chars l)[x := t] ! j)) (ch i) = map (\<lambda>j. chr (chars l ! j)) (ch i)"
      using chains_range[OF c i] x by (fastforce simp: nth_list_update)
    moreover have "cols ?l = cols l" by (simp add: upd_char_def)
    ultimately show ?thesis
      using chains_cell[OF c' , of i] chains_cell[OF c i] chains_chars(2)[OF c x] i chains_cols[OF c i]
      by (auto simp: upd_char_def nth_list_update)
  qed
qed

text \<open>Freeing the list of a cell puts it in front of the free list.\<close>

lemma clear_cc_chains:
  assumes c: "chains l ch fr" and col: "col < cols l"
  shows "\<exists>l'. clear_cc l col = Some l' \<and> chains l' (ch(col := [])) (ch col @ fr) \<and> same_but_cells l l'
    \<and> (\<forall>i < cols l. cell l' i = (if i = col then (chr (chars l ! col), attr (chars l ! col), []) else cell l i))"
proof (cases "ch col")
  case Nil
  then have "cc_next (chars l ! col) = 0" using chains_path[OF c col] by simp
  moreover have "ch(col := []) = ch" using Nil by auto
  ultimately show ?thesis using c col Nil chains_cell[OF c]
    by (auto simp: clear_cc_def same_but_cells_def)
next
  case (Cons j js)
  let ?cs = "chars l" and ?n = "length (chars l)"
  define e where "e = last (col # ch col)"
  define v where "v = (if fr = [] then 0 else int (hd fr) - int e)"
  define cs1 where "cs1 = ?cs[e := (?cs ! e)\<lparr>cc_next := v\<rparr>]"
  define cs2 where "cs2 = cs1[col := (cs1 ! col)\<lparr>cc_next := 0\<rparr>]"
  define l' where "l' = l\<lparr>cc_free := int j, chars := cs2\<rparr>"
  have pc: "path ?cs col (j # js)" "distinct (col # j # js)" using chains_path[OF c col] Cons by auto
  have e: "e = last (j # js)" "e \<in> set (col # ch col)" by (auto simp: e_def Cons)
  have ecol: "e \<noteq> col" using e(1) pc(2) last_in_set[of "j # js"] by auto
  have en: "e < ?n" using path_bound[OF pc(1), of e] e by (auto simp: Cons)
  have j: "cols l \<le> j" "j < ?n" using chains_range[OF c col, of j] Cons by auto
  have free: "cc_free l \<noteq> 0 \<longleftrightarrow> fr \<noteq> []" "fr \<noteq> [] \<Longrightarrow> cc_free l = int (hd fr)"
    using c by (auto simp: chains_def free_path_def split: list.splits)
  have last: "cc_last ?n ?cs col = Some e" using chains_chars(3)[OF c col] by (simp add: e_def)
  have "clear_cc l col = Some l'"
    using pc(1) col free last j
    by (auto simp: clear_cc_def Let_def upd_char_def l'_def cs2_def cs1_def v_def)
  have other: "path cs2 i (ch i)" if "i < cols l" "i \<noteq> col" for i
    unfolding cs2_def cs1_def
    using chains_path[OF c that(1)] chains_other(1)[OF c _ col that, of e] chains_other(1)[OF c _ col that, of col] e(2)
    by (intro path_update) auto
  have colj: "col \<notin> set (j # js @ fr)" using chains_free_range[OF c, of col] pc(2) col by auto
  have pj: "path cs2 j (js @ fr)"
  proof -
    have "path cs1 j (js @ fr)"
    proof (cases fr)
      case Nil
      have "?cs ! e = (?cs ! e)\<lparr>cc_next := 0\<rparr>" 
      proof -
        have "cc_next (?cs ! e) = 0" using path_last[OF pc(1)] e_def Cons by simp
        then show ?thesis by (metis termchar.surjective termchar.update_convs(3))
      qed
      then have "cs1 = ?cs" by (simp add: cs1_def v_def Nil)
      then show ?thesis using pc(1) Nil by simp
    next
      case (Cons f fs)
      have "path ?cs f fs" "set (j # js) \<inter> set (f # fs) = {}"
        using c Cons chains_not_free[OF c col] \<open>ch col = j # js\<close> by (auto simp: chains_def free_path_def)
      then show ?thesis unfolding cs1_def v_def Cons
        using path_join[of ?cs j js f fs e] pc e(1) by auto
    qed
    then show ?thesis unfolding cs2_def using colj by (intro path_update) auto
  qed
  have c': "chains l' (ch(col := [])) (ch col @ fr)"
    unfolding chains_def
  proof (intro conjI)
    show "cols l' \<le> length (chars l')" using c by (simp add: l'_def chains_def cs1_def cs2_def)
    have "path cs2 col []" using chains_cols[OF c col] by (simp add: cs2_def cs1_def)
    then show "\<forall>i<cols l'. path (chars l') i ((ch(col := [])) i) \<and> distinct ((ch(col := [])) i)"
      using other c by (auto simp: l'_def chains_def)
    show "free_path (chars l') (cc_free l') (ch col @ fr)"
      using pj j col by (simp add: free_path_def l'_def Cons)
    show "distinct (ch col @ fr)" using c col by (auto simp: chains_def)
    show "\<forall>i<cols l'. \<forall>k<cols l'. i \<noteq> k \<longrightarrow> set ((ch(col := [])) i) \<inter> set ((ch(col := [])) k) = {}"
      using c by (auto simp: l'_def chains_def)
    show "\<forall>i<cols l'. set ((ch(col := [])) i) \<inter> set (ch col @ fr) = {}"
      using c col by (auto simp: l'_def chains_def)
    have "(\<Union>i < cols l. set (ch i)) = (\<Union>i < cols l. set ((ch(col := [])) i)) \<union> set (ch col)"
      using col by (auto split: if_splits)
    then show "(\<Union>i < cols l'. set ((ch(col := [])) i)) \<union> set (ch col @ fr) = {cols l'..<length (chars l')}"
      using c by (auto simp: l'_def chains_def cs1_def cs2_def)
  qed
  have chr2: "chr (cs2 ! k) = chr (?cs ! k)" "attr (cs2 ! k) = attr (?cs ! k)" if "k < ?n" for k
    using that ecol en chains_cols[OF c col] by (auto simp: cs2_def cs1_def nth_list_update)
  have "cell l' i = (if i = col then (chr (?cs ! col), attr (?cs ! col), []) else cell l i)" if i: "i < cols l" for i
  proof -
    have "map (\<lambda>j. chr (cs2 ! j)) (ch i) = map (\<lambda>j. chr (?cs ! j)) (ch i)"
      using chains_range[OF c i] by (auto simp: chr2)
    moreover have "cols l' = cols l" "chars l' = cs2" by (simp_all add: l'_def)
    ultimately show ?thesis
      using chains_cell[OF c', of i] chains_cell[OF c i] i chr2[of i] chains_cols[OF c i] by auto
  qed
  with \<open>clear_cc l col = Some l'\<close> c' show ?thesis by (auto simp: l'_def same_but_cells_def)
qed

lemma clear_cc_ok:
  assumes "line_ok l" "col < cols l"
  shows "\<exists>l'. clear_cc l col = Some l' \<and> line_ok l' \<and> same_but_cells l l'
    \<and> cells l' = (cells l)[col := (chr (chars l ! col), attr (chars l ! col), [])]"
proof -
  obtain ch fr where c: "chains l ch fr" using assms(1) by (auto simp: line_ok_def)
  show ?thesis using clear_cc_chains[OF c assms(2)] cells_update[of _ l col]
    unfolding same_but_cells_def line_ok_def by blast
qed

definition clear_acc :: "32 word \<times> 32 word \<times> 32 word list \<Rightarrow> 32 word \<times> 32 word \<times> 32 word list" where
  "clear_acc t = (fst t, fst (snd t), [])"

lemma cell_parts: "cell l i = (chr (chars l ! i), attr (chars l ! i), cell_ccs l i)" by (simp add: cell_def)

lemma copy_termchar_ok:
  assumes l: "line_ok l" and x: "x < cols l" and m: "line_ok m" and y: "y < cols m"
  shows "\<exists>l'. copy_termchar junk l x (chars m) y = Some l' \<and> line_ok l' \<and> same_but_cells l l'
    \<and> cells l' = (cells l)[x := cell m y]"
proof -
  obtain ch fr where c: "chains l ch fr" using l by (auto simp: line_ok_def)
  obtain ch' fr' where d: "chains m ch' fr'" using m by (auto simp: line_ok_def)
  obtain l1 where l1: "clear_cc l x = Some l1" "chains l1 (ch(x := [])) (ch x @ fr)" "same_but_cells l l1"
    "\<forall>i < cols l. cell l1 i = (if i = x then (chr (chars l ! x), attr (chars l ! x), []) else cell l i)"
    using clear_cc_chains[OF c x] by blast
  have x1: "x < cols l1" using l1(3) x by (simp add: same_but_cells_def)
  define t where "t = (chars m ! y)\<lparr>cc_next := 0\<rparr>"
  have t: "cc_next t = cc_next (chars l1 ! x)" using chains_path[OF l1(2) x1] by (simp add: t_def)
  note s = set_cell_ok[OF l1(2) x1 t]
  let ?l2 = "upd_char x (\<lambda>_. t) l1"
  have sb: "same_but_cells l ?l2" using l1(3) by (simp add: same_but_cells_def upd_char_def)
  have c2: "cell ?l2 i = (if i = x then (chr t, attr t, []) else cell l i)" if "i < cols l" for i
    using s(2)[of i] l1(4) that x l1(3) by (auto simp: same_but_cells_def cell_parts)
  obtain l' where l': "add_ccs junk ?l2 x (cell_ccs m y) = Some l'" "line_ok l'" "same_but_cells ?l2 l'"
    "cells l' = (cells ?l2)[x := (chr (chars ?l2 ! x), attr (chars ?l2 ! x), cell_ccs ?l2 x @ cell_ccs m y)]"
    using add_ccs_ok[of ?l2 x junk "cell_ccs m y"] s(1) x1 by (auto simp: line_ok_def upd_char_def)
  have "cells ?l2 = (cells l)[x := (chr t, attr t, [])]"
    by (rule cells_update) (use sb c2 in \<open>auto simp: same_but_cells_def\<close>)
  then have "cells l' = (cells l)[x := cell m y]"
    using l'(4) c2[OF x] x by (simp add: cell_parts t_def)
  moreover have "copy_termchar junk l x (chars m) y = Some l'"
    using l1(1) l'(1) chains_chars[OF d y] by (simp add: copy_termchar_def t_def Let_def)
  ultimately show ?thesis using l'(2,3) sb by (auto simp: same_but_cells_def)
qed

lemma move_termchar_ok:
  assumes l: "line_ok l" and x: "x < cols l" and y: "y < cols l" and xy: "x \<noteq> y"
  shows "\<exists>l'. move_termchar l x y = Some l' \<and> line_ok l' \<and> same_but_cells l l'
    \<and> cells l' = (cells l)[x := cell l y, y := clear_acc (cell l y)]"
proof -
  obtain ch0 fr0 where c0: "chains l ch0 fr0" using l by (auto simp: line_ok_def)
  obtain l1 where l1: "clear_cc l x = Some l1" "chains l1 (ch0(x := [])) (ch0 x @ fr0)" "same_but_cells l l1"
    "\<forall>i < cols l. cell l1 i = (if i = x then (chr (chars l ! x), attr (chars l ! x), []) else cell l i)"
    using clear_cc_chains[OF c0 x] by blast
  define ch where "ch = ch0(x := [])"
  define fr where "fr = ch0 x @ fr0"
  have c: "chains l1 ch fr" using l1(2) by (simp add: ch_def fr_def)
  have k: "cols l1 = cols l" using l1(3) by (simp add: same_but_cells_def)
  let ?cs = "chars l1"
  have b: "x < length ?cs" "y < length ?cs" using chains_cols[OF c] x y k by auto
  define s where "s = ?cs ! y"
  define d where "d = (if cc_next s \<noteq> 0 then s\<lparr>cc_next := cc_next s - (int x - int y)\<rparr> else s)"
  define cs1 where "cs1 = ?cs[x := d]"
  define cs2 where "cs2 = cs1[y := (cs1 ! y)\<lparr>cc_next := 0\<rparr>]"
  define l' where "l' = l1\<lparr>chars := cs2\<rparr>"
  define ch' where "ch' = ch(x := ch y, y := [])"
  have "move_termchar l x y = Some l'"
    using l1(1) xy by (auto simp: move_termchar_def upd_char_def Let_def l'_def cs2_def cs1_def d_def s_def)
  have chx: "ch x = []" by (simp add: ch_def)
  have py: "path ?cs y (ch y)" "distinct (y # ch y)" using chains_path[OF c, of y] y k by auto
  have same: "path cs2 i js" if "path ?cs i js" "x \<notin> set (i # js)" "y \<notin> set (i # js)" for i js
    unfolding cs2_def cs1_def using that by (intro path_update)
  have rng: "a \<in> set (ch i) \<Longrightarrow> cols l \<le> a \<and> a < length ?cs" if "i < cols l" for i a
    using chains_range[OF c, of i a] that k by simp
  have pi: "path cs2 i (ch i)" if "i < cols l" "i \<noteq> x" "i \<noteq> y" for i
    using same[of i "ch i"] chains_path[OF c, of i] that x y rng[of i x] rng[of i y] k by auto
  have cs2: "cs2 ! x = d" "cs2 ! y = s\<lparr>cc_next := 0\<rparr>" "length cs2 = length ?cs"
    "a \<noteq> x \<Longrightarrow> a \<noteq> y \<Longrightarrow> cs2 ! a = ?cs ! a" for a
    using b xy by (simp_all add: cs2_def cs1_def s_def)
  have px: "path cs2 x (ch y)"
  proof (cases "ch y")
    case Nil
    then show ?thesis using py(1) cs2 b by (simp add: d_def s_def)
  next
    case (Cons a as)
    have a: "cols l \<le> a" "a < length ?cs" using rng[OF y, of a] Cons by auto
    have "path ?cs a as" using py(1) Cons by simp
    then have "path cs2 a as" using same[of a as] rng[OF y, of x] rng[OF y, of y] Cons x y by auto
    moreover have "cc_next d = int a - int x" using py(1) Cons a y by (auto simp: d_def s_def)
    ultimately show ?thesis using Cons cs2 b a x by auto
  qed
  have py': "path cs2 y []" using cs2 b by simp
  have c': "chains l' ch' fr"
    unfolding chains_def
  proof (intro conjI)
    show "cols l' \<le> length (chars l')" using c by (simp add: l'_def chains_def cs2)
    show "\<forall>i<cols l'. path (chars l') i (ch' i) \<and> distinct (ch' i)"
      using px py' pi py(2) c k by (auto simp: l'_def ch'_def chains_def)
    show "distinct fr" using c by (simp add: chains_def)
    show "free_path (chars l') (cc_free l') fr"
    proof (cases fr)
      case (Cons f fs)
      then have "path ?cs f fs" "x \<notin> set (f # fs)" "y \<notin> set (f # fs)"
        using c chains_free_range[OF c, of x] chains_free_range[OF c, of y] x y k
        by (auto simp: chains_def free_path_def)
      then show ?thesis using same[of f fs] c Cons by (simp add: l'_def chains_def free_path_def)
    qed (use c in \<open>simp add: l'_def chains_def free_path_def\<close>)
    show "\<forall>i<cols l'. \<forall>j<cols l'. i \<noteq> j \<longrightarrow> set (ch' i) \<inter> set (ch' j) = {}"
      using c y k by (auto simp: l'_def ch'_def chains_def)
    show "\<forall>i<cols l'. set (ch' i) \<inter> set fr = {}"
      using c y k by (auto simp: l'_def ch'_def chains_def)
    have "(\<Union>i < cols l1. set (ch' i)) = (\<Union>i < cols l1. set (ch i))"
    proof
      show "(\<Union>i < cols l1. set (ch' i)) \<subseteq> (\<Union>i < cols l1. set (ch i))"
        using y k by (auto simp: ch'_def split: if_splits)
      show "(\<Union>i < cols l1. set (ch i)) \<subseteq> (\<Union>i < cols l1. set (ch' i))"
      proof
        fix a assume "a \<in> (\<Union>i < cols l1. set (ch i))"
        then obtain i where i: "i < cols l1" "a \<in> set (ch i)" by auto
        show "a \<in> (\<Union>i < cols l1. set (ch' i))"
        proof (cases "i = y")
          case True
          then have "a \<in> set (ch' x)" using i xy by (simp add: ch'_def)
          then show ?thesis using x k by auto
        next
          case False
          then have "a \<in> set (ch' i)" using i chx by (auto simp: ch'_def)
          then show ?thesis using i by auto
        qed
      qed
    qed
    then show "(\<Union>i < cols l'. set (ch' i)) \<union> set fr = {cols l'..<length (chars l')}"
      using c by (auto simp: l'_def chains_def cs2)
  qed
  have m: "map (\<lambda>j. chr (cs2 ! j)) (ch i) = map (\<lambda>j. chr (?cs ! j)) (ch i)" if "i < cols l" for i
    using rng[OF that] x y by (fastforce simp: cs2)
  have ds: "chr d = chr s" "attr d = attr s" by (auto simp: d_def)
  have cl: "cell l y = (chr s, attr s, map (\<lambda>j. chr (?cs ! j)) (ch y))"
    using l1(4) y xy chains_cell[OF c, of y] k by (auto simp: s_def)
  have k': "cols l' = cols l" "chars l' = cs2" using k by (auto simp: l'_def)
  have "cells l' = (cells l)[x := cell l y, y := clear_acc (cell l y)]"
  proof (rule nth_equalityI)
    fix i assume "i < length (cells l')"
    then have i: "i < cols l" by (simp add: k')
    consider "i = x" | "i = y" | "i \<noteq> x" "i \<noteq> y" by blast
    then show "cells l' ! i = (cells l)[x := cell l y, y := clear_acc (cell l y)] ! i"
    proof cases
      case 1
      then show ?thesis using chains_cell[OF c', of x] cl m[OF y] xy x y k' cs2 ds by (simp add: ch'_def)
    next
      case 2
      then show ?thesis using chains_cell[OF c', of y] cl y k' cs2 by (simp add: ch'_def clear_acc_def)
    next
      case 3
      have "cell l i = cell l1 i" using l1(4) i 3 by simp
      then show ?thesis using chains_cell[OF c', of i] chains_cell[OF c, of i] m[OF i] i k k' cs2(4) 3 by (simp add: ch'_def)
    qed
  qed (simp add: k')
  with \<open>move_termchar l x y = Some l'\<close> c' l1(3) show ?thesis
    by (auto simp: same_but_cells_def l'_def line_ok_def)
qed

lemma clear_from_chains:
  assumes "chains l ch fr" "\<forall>i \<in> set is. i < cols l" "distinct is"
  shows "\<exists>l' ch' fr'. clear_from l is = Some l' \<and> chains l' ch' fr' \<and> same_but_cells l l'
    \<and> (\<forall>i < cols l. cell l' i = (if i \<in> set is then clear_acc (cell l i) else cell l i))
    \<and> (\<forall>i < cols l. ch' i = (if i \<in> set is then [] else ch i))"
  using assms
proof (induction "is" arbitrary: l ch fr)
  case Nil
  then show ?case by (auto simp: same_but_cells_def)
next
  case (Cons k ks)
  obtain l1 where l1: "clear_cc l k = Some l1" "chains l1 (ch(k := [])) (ch k @ fr)" "same_but_cells l l1"
    "\<forall>i < cols l. cell l1 i = (if i = k then (chr (chars l ! k), attr (chars l ! k), []) else cell l i)"
    using clear_cc_chains[OF Cons.prems(1), of k] Cons.prems(2) by auto
  have c1: "cols l1 = cols l" using l1(3) by (simp add: same_but_cells_def)
  obtain l' ch' fr' where l': "clear_from l1 ks = Some l'" "chains l' ch' fr'" "same_but_cells l1 l'"
    "\<forall>i < cols l. cell l' i = (if i \<in> set ks then clear_acc (cell l1 i) else cell l1 i)"
    "\<forall>i < cols l. ch' i = (if i \<in> set ks then [] else (ch(k := [])) i)"
    using Cons.IH[OF l1(2)] Cons.prems c1 by auto
  have "cell l' i = (if i \<in> set (k # ks) then clear_acc (cell l i) else cell l i)" if "i < cols l" for i
    using l'(4) l1(4) that by (auto simp: clear_acc_def cell_def)
  then show ?case using l1 l' c1 by (fastforce simp: same_but_cells_def)
qed

lemma path_relocate:
  assumes "path cs i js" "\<And>k. k \<in> set (i # js) \<Longrightarrow> g k < length cs'"
    "\<And>k. k \<in> set (i # js) \<Longrightarrow> cc_next (cs ! k) = 0 \<Longrightarrow> cc_next (cs' ! g k) = 0"
    "\<And>a b. a \<in> set (i # js) \<Longrightarrow> b \<in> set js \<Longrightarrow> cc_next (cs ! a) = int b - int a \<Longrightarrow> a \<noteq> b \<Longrightarrow>
       cc_next (cs' ! g a) = int (g b) - int (g a)"
    "inj_on g (set (i # js))"
  shows "path cs' (g i) (map g js)"
  using assms
proof (induction cs i js rule: path.induct)
  case (2 cs i j js)
  have "path cs' (g j) (map g js)"
    by (rule 2(1)) (use 2(2-) in \<open>auto intro: inj_on_subset\<close>)
  moreover have "g i \<noteq> g j" using 2(2,6) by auto
  ultimately show ?case using 2(2,3) 2(5)[of i j] by auto
qed auto

lemma resizeline_ok:
  assumes l: "line_ok l" and n: "0 < n" and z: "cc_next erase = 0"
  shows "\<exists>l'. resizeline erase l n = Some l' \<and> line_ok l' \<and> cols l' = n \<and> lattr l' = lattr l
    \<and> temporary l' = temporary l
    \<and> cells l' = take n (cells l) @ replicate (n - cols l) (chr erase, attr erase, [])"
proof (cases "cols l = n")
  case True
  then show ?thesis using l by (simp add: resizeline_def)
next
  case False
  obtain ch0 fr0 where c0: "chains l ch0 fr0" using l by (auto simp: line_ok_def)
  define old where "old = cols l"
  define r where "r = min n old"
  obtain l1 ch fr where l1: "clear_from l [n..<old] = Some l1" "chains l1 ch fr" "same_but_cells l l1"
    "\<forall>i < old. cell l1 i = (if i \<in> set [n..<old] then clear_acc (cell l i) else cell l i)"
    "\<forall>i < old. ch i = (if i \<in> set [n..<old] then [] else ch0 i)"
    using clear_from_chains[OF c0, of "[n..<old]"] by (auto simp: old_def)
  let ?cs = "chars l1"
  note c = l1(2)
  have k: "cols l1 = old" using l1(3) by (simp add: same_but_cells_def old_def)
  have le: "old \<le> length ?cs" using c k by (simp add: chains_def)
  define d where "d = int n - int old"
  define cs' where "cs' = map (shift_cc d) (take r ?cs) @ replicate (n - old) erase @ drop old ?cs"
  define l' where "l' = l1\<lparr>cols := n, chars := cs', cc_free := (if cc_free l1 \<noteq> 0 then cc_free l1 + d else 0)\<rparr>"
  define g where "g j = (if j < old then j else j - old + n)" for j
  define ch' where "ch' i = (if i < r then map g (ch i) else [])" for i
  have "resizeline erase l n = Some l'"
    using False l1(1) by (simp add: resizeline_def Let_def l'_def cs'_def d_def r_def old_def[symmetric])
  have len: "length cs' = length ?cs - old + n" using le by (auto simp: cs'_def r_def)
  have low: "cs' ! i = shift_cc d (?cs ! i)" if "i < r" for i
    using that le by (auto simp: cs'_def r_def nth_append)
  have mid: "cs' ! i = erase" if "old \<le> i" "i < n" for i
    using that le by (auto simp: cs'_def r_def nth_append)
  have high: "cs' ! (j - old + n) = ?cs ! j" if "old \<le> j" "j < length ?cs" for j
    using that le by (cases "n \<le> old") (auto simp: cs'_def r_def nth_append)
  have highg: "cs' ! g j = ?cs ! j" if "old \<le> j" "j < length ?cs" for j
    using high[OF that] that by (simp add: g_def)
  have gh: "old \<le> j \<Longrightarrow> g j = j - old + n" for j by (simp add: g_def)
  have gint: "old \<le> j \<Longrightarrow> int (g j) = int j + d" for j by (simp add: g_def d_def)
  have gneq: "g a = g b \<longleftrightarrow> a = b" if "old \<le> a" "old \<le> b" for a b using that by (auto simp: g_def)
  have ginj: "inj_on g ({i} \<union> {old..})" if "i < r" for i using that by (auto simp: inj_on_def g_def r_def)
  have rng: "a \<in> set (ch i) \<Longrightarrow> old \<le> a \<and> a < length ?cs" if "i < old" for i a
    using chains_range[OF c, of i a] that k by simp
  have frng: "a \<in> set fr \<Longrightarrow> old \<le> a \<and> a < length ?cs" for a using chains_free_range[OF c, of a] k by simp
  have gl: "old \<le> a \<Longrightarrow> a < length ?cs \<Longrightarrow> g a < length cs' \<and> n \<le> g a" for a by (auto simp: len g_def)
  have plow: "path cs' i (map g (ch i))" if i: "i < r" for i
  proof -
    have io: "i < old" "g i = i" using i by (auto simp: r_def g_def)
    have p: "path ?cs i (ch i)" using chains_path[OF c, of i] io k by simp
    have "path cs' (g i) (map g (ch i))"
    proof (rule path_relocate[OF p])
      show "g a < length cs'" if "a \<in> set (i # ch i)" for a
        using that rng[OF io(1)] gl i io le by (auto simp: len r_def)
      show "cc_next (cs' ! g a) = 0" if "a \<in> set (i # ch i)" "cc_next (?cs ! a) = 0" for a
        using that rng[OF io(1), of a] low[OF i] high[of a] gh[of a] io by (auto simp: shift_cc_def)
      show "cc_next (cs' ! g a) = int (g b) - int (g a)"
        if "a \<in> set (i # ch i)" "b \<in> set (ch i)" "cc_next (?cs ! a) = int b - int a" "a \<noteq> b" for a b
        using that rng[OF io(1), of a] rng[OF io(1), of b] low[OF i] high[of a] gh[of a] gint[of a] gint[of b] io
        by (auto simp: shift_cc_def)
      show "inj_on g (set (i # ch i))" using rng[OF io(1)] by (intro inj_on_subset[OF ginj[OF i]]) auto
    qed
    then show ?thesis using io by simp
  qed
  have free: "free_path cs' (cc_free l') (map g fr)"
  proof (cases fr)
    case (Cons f fs)
    have p: "path ?cs f fs" "cc_free l1 = int f" "f \<noteq> 0" using c Cons by (auto simp: chains_def free_path_def)
    have "path cs' (g f) (map g fs)"
    proof (rule path_relocate[OF p(1)])
      show "g a < length cs'" if "a \<in> set (f # fs)" for a using that frng[of a] gl[of a] Cons by auto
      show "cc_next (cs' ! g a) = 0" if "a \<in> set (f # fs)" "cc_next (?cs ! a) = 0" for a
        using that frng[of a] high[of a] gh[of a] Cons by auto
      show "cc_next (cs' ! g a) = int (g b) - int (g a)"
        if "a \<in> set (f # fs)" "b \<in> set fs" "cc_next (?cs ! a) = int b - int a" "a \<noteq> b" for a b
        using that frng[of a] frng[of b] high[of a] gh[of a] gint[of a] gint[of b] Cons by auto
      show "inj_on g (set (f # fs))" using frng Cons gneq by (intro inj_onI) blast
    qed
    moreover have "int (g f) = int f + d" "g f \<noteq> 0" using gint[of f] gl[of f] frng[of f] Cons n by auto
    ultimately show ?thesis using p Cons by (simp add: free_path_def l'_def)
  qed (use c in \<open>simp add: chains_def free_path_def l'_def\<close>)
  have gset: "g ` {old..<length ?cs} = {n..<length cs'}"
  proof
    show "{n..<length cs'} \<subseteq> g ` {old..<length ?cs}"
    proof
      fix a assume "a \<in> {n..<length cs'}"
      then have "a = g (a - n + old)" "a - n + old \<in> {old..<length ?cs}" using le by (auto simp: g_def len)
      then show "a \<in> g ` {old..<length ?cs}" by blast
    qed
  qed (use gl in auto)
  have c': "chains l' ch' (map g fr)"
    unfolding chains_def
  proof (intro conjI)
    show "cols l' \<le> length (chars l')" by (simp add: l'_def len)
    show "\<forall>i<cols l'. path (chars l') i (ch' i) \<and> distinct (ch' i)"
    proof (intro allI impI conjI)
      fix i assume i: "i < cols l'"
      show "path (chars l') i (ch' i)"
        using plow mid[of i] z i by (cases "i < r") (auto simp: l'_def ch'_def len r_def)
      show "distinct (ch' i)"
        using c k rng[of i] gneq by (cases "i < r") (auto simp: ch'_def r_def chains_def distinct_map inj_on_def)
    qed
    show "free_path (chars l') (cc_free l') (map g fr)" using free by (simp add: l'_def)
    show "distinct (map g fr)" using c frng gneq by (auto simp: chains_def distinct_map inj_on_def)
    show "\<forall>i<cols l'. \<forall>j<cols l'. i \<noteq> j \<longrightarrow> set (ch' i) \<inter> set (ch' j) = {}"
    proof (intro allI impI)
      fix i j :: nat assume ij: "i \<noteq> j"
      show "set (ch' i) \<inter> set (ch' j) = {}"
        using ij rng[of i] rng[of j] gneq chains_disjoint[OF c, of i j] k
        by (auto simp: ch'_def r_def)
    qed
    show "\<forall>i<cols l'. set (ch' i) \<inter> set (map g fr) = {}"
    proof (intro allI impI)
      fix i :: nat
      show "set (ch' i) \<inter> set (map g fr) = {}"
        using rng[of i] frng gneq chains_not_free[OF c, of i] k by (auto simp: ch'_def r_def)
    qed
    have "(\<Union>i < n. set (ch' i)) = g ` (\<Union>i < old. set (ch i))"
    proof
      show "(\<Union>i < n. set (ch' i)) \<subseteq> g ` (\<Union>i < old. set (ch i))" by (auto simp: ch'_def r_def)
      show "g ` (\<Union>i < old. set (ch i)) \<subseteq> (\<Union>i < n. set (ch' i))"
      proof
        fix a assume "a \<in> g ` (\<Union>i < old. set (ch i))"
        then obtain i b where i: "i < old" "b \<in> set (ch i)" "a = g b" by auto
        then have "i < n" using l1(5) by (auto split: if_splits)
        then have "a \<in> set (ch' i)" using i by (auto simp: ch'_def r_def)
        then show "a \<in> (\<Union>i < n. set (ch' i))" using \<open>i < n\<close> by auto
      qed
    qed
    moreover have "g ` ((\<Union>i < old. set (ch i)) \<union> set fr) = {n..<length cs'}"
      using c gset k by (simp add: chains_def)
    ultimately show "(\<Union>i < cols l'. set (ch' i)) \<union> set (map g fr) = {cols l'..<length (chars l')}"
      by (simp add: l'_def image_Un)
  qed
  have cells: "cell l' i = (if i < old then cell l i else (chr erase, attr erase, []))" if i: "i < n" for i
  proof (cases "i < old")
    case True
    then have ir: "i < r" using i by (simp add: r_def)
    have m: "map (\<lambda>j. chr (cs' ! j)) (map g (ch i)) = map (\<lambda>j. chr (?cs ! j)) (ch i)"
      using rng[OF True] by (auto simp: highg)
    have s: "chr (shift_cc d t) = chr t" "attr (shift_cc d t) = attr t" for t by (auto simp: shift_cc_def)
    have a: "cell l i = (chr (?cs ! i), attr (?cs ! i), map (\<lambda>j. chr (?cs ! j)) (ch i))"
      using l1(4) chains_cell[OF c, of i] True i k by simp
    have "cell l' i = (chr (?cs ! i), attr (?cs ! i), map (\<lambda>j. chr (cs' ! j)) (map g (ch i)))"
      using chains_cell[OF c', of i] ir i low[OF ir] by (simp add: l'_def ch'_def s)
    then show ?thesis by (simp only: a m True if_True)
  next
    case False
    then show ?thesis using chains_cell[OF c', of i] mid[of i] i by (auto simp: l'_def ch'_def r_def)
  qed
  have "cells l' = take n (cells l) @ replicate (n - cols l) (chr erase, attr erase, [])"
  proof -
    have cl: "cols l' = n" by (simp add: l'_def)
    show ?thesis by (rule nth_equalityI) (auto simp: nth_append cells cl old_def)
  qed
  moreover have "cols l' = n" "lattr l' = lattr l" "temporary l' = temporary l"
    using l1(3) by (simp_all add: l'_def same_but_cells_def)
  moreover have "line_ok l'" using c' unfolding line_ok_def by blast
  ultimately show ?thesis using \<open>resizeline erase l n = Some l'\<close> by blast
qed

lemma cc_equal_path:
  "path cs i js \<Longrightarrow> path ds j ks \<Longrightarrow> length js \<le> fuel \<Longrightarrow>
   cc_equal fuel cs i ds j = Some (map (\<lambda>k. chr (cs ! k)) js = map (\<lambda>k. chr (ds ! k)) ks)"
proof (induction cs i js arbitrary: j ks fuel rule: path.induct)
  case (1 cs i)
  then show ?case by (subst cc_equal.simps) (cases ks, auto)
next
  case (2 cs i a js)
  obtain f where f: "fuel = Suc f" using 2(4) by (cases fuel) auto
  have a: "a < length cs" "cc_succ cs i = a" using 2(2) path_bound[of cs a js a] cc_succ_path[OF 2(2)] by auto
  show ?case
  proof (cases ks)
    case Nil
    then show ?thesis using 2(2,3) by (subst cc_equal.simps) auto
  next
    case (Cons b bs)
    have b: "b < length ds" "cc_succ ds j = b" "path ds b bs"
      using 2(3) path_bound[of ds b bs b] cc_succ_path[of ds j b bs] by (auto simp: Cons)
    have "cc_equal f cs a ds b = Some (map (\<lambda>k. chr (cs ! k)) js = map (\<lambda>k. chr (ds ! k)) bs)"
      using 2(1)[OF _ b(3)] 2(2,4) f by simp
    then show ?thesis using 2(2,3) a b f by (subst cc_equal.simps) (auto simp: Cons Let_def)
  qed
qed

lemma termchars_equal_ok:
  assumes "line_ok l" "x < cols l" "line_ok m" "y < cols m"
  shows "termchars_equal (chars l) x (chars m) y = Some (chr (chars l ! x) = chr (chars m ! y)
    \<and> attr (chars l ! x) AND NOT DATTR_MASK = attr (chars m ! y) AND NOT DATTR_MASK
    \<and> cell_ccs l x = cell_ccs m y)"
proof -
  obtain ch fr where c: "chains l ch fr" using assms(1) by (auto simp: line_ok_def)
  obtain ch' fr' where d: "chains m ch' fr'" using assms(3) by (auto simp: line_ok_def)
  have "cc_equal (length (chars l) + length (chars m)) (chars l) x (chars m) y = Some (cell_ccs l x = cell_ccs m y)"
    using cc_equal_path[of "chars l" x "ch x" "chars m" y "ch' y"] chains_path[OF c assms(2)] chains_path[OF d assms(4)]
      chain_length[OF c assms(2)] chains_chars(2)[OF c assms(2)] chains_chars(2)[OF d assms(4)] by simp
  then show ?thesis by (simp add: termchars_equal_def termchars_equal_override_def)
qed

lemma fresh_line:
  assumes "cols l = length (chars l)" "cc_free l = 0" "\<forall>t \<in> set (chars l). cc_next t = 0"
  shows "line_ok l" "cells l = map (\<lambda>t. (chr t, attr t, [])) (chars l)"
proof -
  have c: "chains l (\<lambda>_. []) []" using assms by (auto simp: chains_def free_path_def)
  then show "line_ok l" by (auto simp: line_ok_def)
  show "cells l = map (\<lambda>t. (chr t, attr t, [])) (chars l)"
    by (rule nth_equalityI) (use chains_cell[OF c] assms in auto)
qed

lemma newline_ok:
  assumes "cc_next e = 0" "cc_next b = 0"
  shows "line_ok (newline e b n bce)"
    "cells (newline e b n bce) = replicate n (let t = if bce then e else b in (chr t, attr t, []))"
  using fresh_line[of "newline e b n bce"] assms by (auto simp: newline_def)

section \<open>Properties\<close>

definition acts :: "termline option \<Rightarrow> termline \<Rightarrow> (32 word \<times> 32 word \<times> 32 word list) list \<Rightarrow> bool" where
  "acts r l cs \<longleftrightarrow> (\<exists>l'. r = Some l' \<and> line_ok l' \<and> same_but_cells l l' \<and> cells l' = cs)"

text \<open>
  Claim C14: the operations on cells implement lists of combining characters.  On a line
  with intact chains, \<open>add_cc\<close> appends a character to the list of one cell (extending the
  array when the free list is empty), \<open>clear_cc\<close> empties it, \<open>copy_termchar\<close> and
  \<open>move_termchar\<close> transfer a cell with its list, \<open>resizeline\<close> cuts or pads the line, and
  \<open>termchars_equal\<close> compares whole lists; no assertion fails, no other cell changes, and the
  chains stay intact, so that no cell of the array is lost or shared.
\<close>

theorem line_ops_refine:
  assumes "line_ok l" "x < cols l" "z < cols l" "x \<noteq> z" "line_ok m" "y < cols m"
    and "0 < n" "cc_next erase = 0"
  shows "acts (add_cc junk l x c) l ((cells l)[x := (case cells l ! x of (ch, a, ccs) \<Rightarrow> (ch, a, ccs @ [c]))])
    \<and> acts (clear_cc l x) l ((cells l)[x := clear_acc (cells l ! x)])
    \<and> acts (copy_termchar junk l x (chars m) y) l ((cells l)[x := cells m ! y])
    \<and> acts (move_termchar l x z) l ((cells l)[x := cells l ! z, z := clear_acc (cells l ! z)])
    \<and> (\<exists>l'. resizeline erase l n = Some l' \<and> line_ok l' \<and> lattr l' = lattr l
          \<and> cells l' = take n (cells l) @ replicate (n - cols l) (chr erase, attr erase, []))
    \<and> termchars_equal (chars l) x (chars m) y = Some (case (cells l ! x, cells m ! y) of
         ((ch1, a1, ccs1), (ch2, a2, ccs2)) \<Rightarrow>
           ch1 = ch2 \<and> a1 AND NOT DATTR_MASK = a2 AND NOT DATTR_MASK \<and> ccs1 = ccs2)
    \<and> line_ok (newline erase erase n bce)
    \<and> cells (newline erase erase n bce) = replicate n (chr erase, attr erase, [])"
  using add_cc_ok[OF assms(1,2), of junk c] clear_cc_ok[OF assms(1,2)] copy_termchar_ok[OF assms(1,2,5,6), of junk]
    move_termchar_ok[OF assms(1-4)] resizeline_ok[OF assms(1,7,8)] termchars_equal_ok[OF assms(1,2,5,6)]
    newline_ok[OF assms(8,8)] assms
  unfolding acts_def by (simp add: cell_parts clear_acc_def Let_def) blast

text \<open>A line of three cells, the first with two combining characters.\<close>

definition accented :: termline where
  "accented = \<lparr>lattr = 0, cols = 3, temporary = False, cc_free = 5,
     chars = [\<lparr>chr = 101, attr = 7, cc_next = 4\<rparr>, \<lparr>chr = 32, attr = 0, cc_next = 0\<rparr>,
              \<lparr>chr = 97, attr = 0, cc_next = 0\<rparr>, \<lparr>chr = 0x302, attr = 0, cc_next = 0\<rparr>,
              \<lparr>chr = 0x301, attr = 0, cc_next = - 1\<rparr>, \<lparr>chr = 0, attr = 0, cc_next = 0\<rparr>]\<rparr>"

lemma accented_ok: "line_ok accented" "cells accented = [(101, 7, [0x301, 0x302]), (32, 0, []), (97, 0, [])]"
proof -
  have "chains accented (\<lambda>i. if i = 0 then [4, 3] else []) [5]"
    by (auto simp: chains_def accented_def free_path_def lessThan_Suc numeral_3_eq_3 less_Suc_eq)
  then show "line_ok accented" by (auto simp: line_ok_def)
  show "cells accented = [(101, 7, [0x301, 0x302]), (32, 0, []), (97, 0, [])]" by code_simp
qed

theorem line_ops_refine_witness:
  "line_ok accented \<and> acts (move_termchar accented 2 0) accented [(101, 7, []), (32, 0, []), (101, 7, [0x301, 0x302])]
   \<and> acts (add_cc (\<lambda>_. \<lparr>chr = 0, attr = 0, cc_next = 0\<rparr>) accented 2 0x300) accented
       [(101, 7, [0x301, 0x302]), (32, 0, []), (97, 0, [0x300])]"
proof -
  have "cols accented = 3" by (simp add: accented_def)
  then show ?thesis
    using line_ops_refine[of accented 2 0 accented 0 1 "\<lparr>chr = 32, attr = 0, cc_next = 0\<rparr>"
        "\<lambda>_. \<lparr>chr = 0, attr = 0, cc_next = 0\<rparr>" "0x300" True]
    by (simp del: nth_cells add: accented_ok clear_acc_def)
qed

end
