(* ===== verification/Termline_Codec.thy ===== *)
theory Termline_Codec
  imports Termline
begin

text \<open>
  The bytes of single literals of compressed lines: what \<open>makeliteral_chr\<close> writes for a
  character, in any state, is read back by \<open>readliteral_chr\<close>, and the same for attributes
  below \<open>2 ^ 31\<close>.  The lemmas on words go bit by bit.
\<close>

unbundle bit_operations_syntax

lemma lt_bits:
  fixes c :: "32 word"
  assumes "uint c < 2 ^ k"
  shows "bit c n \<Longrightarrow> n < k"
proof -
  have "take_bit k (uint c) = uint c" using assms by (simp add: take_bit_int_eq_self_iff)
  then have "take_bit k c = c" by (metis unsigned_take_bit_eq word_uint_eq_iff)
  then show "bit c n \<Longrightarrow> n < k" by (metis bit_take_bit_iff)
qed

lemma limits:
  fixes c :: "32 word"
  shows "c < 0x8000 \<Longrightarrow> bit c n \<Longrightarrow> n < 15" "c < 0x4000 \<Longrightarrow> bit c n \<Longrightarrow> n < 14"
    "c < 0x200000 \<Longrightarrow> bit c n \<Longrightarrow> n < 21" "c < 0x10000000 \<Longrightarrow> bit c n \<Longrightarrow> n < 28"
    "c < 0x80000000 \<Longrightarrow> bit c n \<Longrightarrow> n < 31"
  using lt_bits[of c 15 n] lt_bits[of c 14 n] lt_bits[of c 21 n] lt_bits[of c 28 n] lt_bits[of c 31 n]
  by (simp_all add: word_less_def)

lemma bit_consts:
  "bit (0xFF :: int) n \<longleftrightarrow> n < 8" "bit (0x7F :: int) n \<longleftrightarrow> n < 7" "bit (0x3F :: int) n \<longleftrightarrow> n < 6"
  "bit (0x1F :: int) n \<longleftrightarrow> n < 5" "bit (0xF :: int) n \<longleftrightarrow> n < 4" "bit (0x80 :: int) n \<longleftrightarrow> n = 7"
  "bit (0x8000 :: int) n \<longleftrightarrow> n = 15"
  "bit (0xC0 :: int) n \<longleftrightarrow> 6 \<le> n \<and> n < 8" "bit (0xE0 :: int) n \<longleftrightarrow> 5 \<le> n \<and> n < 8" "bit (0xF0 :: int) n \<longleftrightarrow> 4 \<le> n \<and> n < 8"
proof -
  have m: "(0xFF :: int) = mask 8" "(0x7F :: int) = mask 7" "(0x3F :: int) = mask 6" "(0x1F :: int) = mask 5" "(0xF :: int) = mask 4"
    "(0xC0 :: int) = push_bit 6 (mask 2)" "(0xE0 :: int) = push_bit 5 (mask 3)" "(0xF0 :: int) = push_bit 4 (mask 4)"
    "(0x80 :: int) = 2 ^ 7" "(0x8000 :: int) = 2 ^ 15"
    by (simp_all add: mask_eq_exp_minus_1 push_bit_eq_mult)
  show "bit (0xFF :: int) n \<longleftrightarrow> n < 8" "bit (0x7F :: int) n \<longleftrightarrow> n < 7" "bit (0x3F :: int) n \<longleftrightarrow> n < 6"
    "bit (0x1F :: int) n \<longleftrightarrow> n < 5" "bit (0xF :: int) n \<longleftrightarrow> n < 4" "bit (0x80 :: int) n \<longleftrightarrow> n = 7"
    "bit (0x8000 :: int) n \<longleftrightarrow> n = 15"
    "bit (0xC0 :: int) n \<longleftrightarrow> 6 \<le> n \<and> n < 8" "bit (0xE0 :: int) n \<longleftrightarrow> 5 \<le> n \<and> n < 8" "bit (0xF0 :: int) n \<longleftrightarrow> 4 \<le> n \<and> n < 8"
    unfolding m by (auto simp only: bit_mask_iff bit_push_bit_iff bit_exp_iff possible_bit_int)
qed

lemma bit_word_consts:
  fixes n :: nat
  shows "bit (0xFF :: 32 word) n \<longleftrightarrow> n < 8" "bit (0x7F :: 32 word) n \<longleftrightarrow> n < 7" "bit (0x3F :: 32 word) n \<longleftrightarrow> n < 6"
    "bit (0x1F :: 32 word) n \<longleftrightarrow> n < 5" "bit (0xF :: 32 word) n \<longleftrightarrow> n < 4" "bit (0x80 :: 32 word) n \<longleftrightarrow> n = 7"
    "bit (0x8000 :: 32 word) n \<longleftrightarrow> n = 15"
    "bit (0xC0 :: 32 word) n \<longleftrightarrow> 6 \<le> n \<and> n < 8" "bit (0xE0 :: 32 word) n \<longleftrightarrow> 5 \<le> n \<and> n < 8"
    "bit (0xF0 :: 32 word) n \<longleftrightarrow> 4 \<le> n \<and> n < 8"
  by (auto simp: bit_consts)

lemma bytes_glue: 
  fixes c :: "32 word"
  shows "c < 0x4000 \<Longrightarrow> push_bit 8 (ucast (ucast ((drop_bit 8 c AND 0x3F) OR 0x80) :: 8 word) AND NOT 0xC0)
      OR ucast (ucast (c AND 0xFF) :: 8 word) = c"
    "c < 0x200000 \<Longrightarrow> push_bit 16 (ucast (ucast ((drop_bit 16 c AND 0x1F) OR 0xC0) :: 8 word) AND NOT 0xE0)
      OR push_bit 8 (ucast (ucast (drop_bit 8 c AND 0xFF) :: 8 word)) OR ucast (ucast (c AND 0xFF) :: 8 word) = c"
    "c < 0x10000000 \<Longrightarrow> push_bit 24 (ucast (ucast ((drop_bit 24 c AND 0x0F) OR 0xE0) :: 8 word) AND NOT 0xF0)
      OR push_bit 16 (ucast (ucast (drop_bit 16 c AND 0xFF) :: 8 word))
      OR push_bit 8 (ucast (ucast (drop_bit 8 c AND 0xFF) :: 8 word)) OR ucast (ucast (c AND 0xFF) :: 8 word) = c"
    "push_bit 24 (ucast (ucast (drop_bit 24 c AND 0xFF) :: 8 word)) OR push_bit 16 (ucast (ucast (drop_bit 16 c AND 0xFF) :: 8 word))
      OR push_bit 8 (ucast (ucast (drop_bit 8 c AND 0xFF) :: 8 word)) OR ucast (ucast (c AND 0xFF) :: 8 word) = c"
  subgoal by (intro bit_word_eqI) (simp only: bit_simps bit_word_consts, auto dest: limits(2))
  subgoal by (intro bit_word_eqI) (simp only: bit_simps bit_word_consts, auto dest: limits(3))
  subgoal by (intro bit_word_eqI) (simp only: bit_simps bit_word_consts, auto dest: limits(4))
  subgoal
  proof (rule bit_word_eqI)
    fix n assume "n < LENGTH(32)"
    then consider "n < 8" | "8 \<le> n \<and> n < 16" | "16 \<le> n \<and> n < 24" | "24 \<le> n \<and> n < 32" by fastforce
    then show "bit (push_bit 24 (ucast (ucast (drop_bit 24 c AND 0xFF) :: 8 word) :: 32 word) OR push_bit 16 (ucast (ucast (drop_bit 16 c AND 0xFF) :: 8 word))
      OR push_bit 8 (ucast (ucast (drop_bit 8 c AND 0xFF) :: 8 word)) OR ucast (ucast (c AND 0xFF) :: 8 word)) n = bit c n"
      by cases (simp only: bit_simps bit_word_consts, auto)+
  qed
  done

lemma squeeze_bits:
  fixes a :: "32 word"
  shows "bit (push_bit k (drop_bit (k + 4) a) OR (a AND mask k)) n \<longleftrightarrow> n < 32 \<and> bit a (if n < k then n else n + 4)"
  by (simp only: bit_simps) (auto simp: add.commute dest: bit_imp_le_length)

lemma spread_bits:
  fixes a :: "32 word"
  shows "bit (push_bit (k + 4) (drop_bit k a) OR (a AND mask k)) n \<longleftrightarrow>
    n < 32 \<and> (n < k \<and> bit a n \<or> k + 4 \<le> n \<and> bit a (n - 4))"
  by (simp only: bit_simps) (auto dest: bit_imp_le_length)

lemma colour_bits:
  fixes a :: "32 word"
  shows "bit (push_bit 4 (drop_bit 13 a AND 0xF) OR (drop_bit 4 a AND 0xF)) n \<longleftrightarrow>
    n < 4 \<and> bit a (n + 4) \<or> 4 \<le> n \<and> n < 8 \<and> bit a (n + 9)"
  by (simp only: bit_simps bit_word_consts) (auto simp: add.commute)

lemma attr_masks:
  "push_bit (32 - 9) 1 - 1 = (mask 23 :: 32 word)" "push_bit (ATTR_FGSHIFT + 4) 1 - 1 = (mask 4 :: 32 word)"
  "push_bit (ATTR_BGSHIFT + 4) 1 - 1 = (mask 13 :: 32 word)"
  by (simp_all add: ATTR_FGSHIFT_def ATTR_BGSHIFT_def mask_eq_exp_minus_1)

lemma attr_shifts: "ATTR_FGSHIFT + 4 = 4" "ATTR_FGSHIFT + 8 = 4 + 4" "ATTR_BGSHIFT + 4 = 13" "ATTR_BGSHIFT + 8 = 13 + 4"
  "32 - 9 = (23 :: nat)"
  by (simp_all add: ATTR_FGSHIFT_def ATTR_BGSHIFT_def)

lemma pack_bits:
  "bit (pack_attr a) n \<longleftrightarrow> n < 32 \<and>
     (bit a (if n < 4 then n else if n < 9 then n + 4 else n + 8)
      \<or> 23 \<le> n \<and> n < 27 \<and> bit a (n - 19) \<or> 27 \<le> n \<and> n < 31 \<and> bit a (n - 14))"
  unfolding pack_attr_def Let_def attr_masks unfolding attr_shifts
  unfolding bit_or_iff[of _ "push_bit 23 _"] squeeze_bits bit_push_bit_iff[of 23] colour_bits
  by (auto simp: possible_bit_word add.commute dest: bit_imp_le_length)

lemma pack_unpack:
  assumes "a < 0x80000000"
  shows "unpack_attr (pack_attr a) = a"
proof (rule bit_word_eqI)
  fix n assume n: "n < LENGTH(32)"
  define v where "v = pack_attr a"
  define cb where "cb = drop_bit 23 v AND 0xFF"
  have hi: "bit a k \<Longrightarrow> k < 31" for k using limits(5)[OF assms] .
  have v: "bit v n \<longleftrightarrow> n < 32 \<and> (bit a (if n < 4 then n else if n < 9 then n + 4 else n + 8)
      \<or> 23 \<le> n \<and> n < 27 \<and> bit a (n - 19) \<or> 27 \<le> n \<and> n < 31 \<and> bit a (n - 14))" for n
    unfolding v_def by (rule pack_bits)
  have low: "bit (v AND mask 23) n \<longleftrightarrow> n < 23 \<and> bit a (if n < 4 then n else if n < 9 then n + 4 else n + 8)" for n
    unfolding bit_and_iff v bit_mask_iff by (auto simp: possible_bit_word)
  have cb: "bit cb n \<longleftrightarrow> n < 4 \<and> bit a (n + 4) \<or> 4 \<le> n \<and> n < 8 \<and> bit a (n + 9)" for n
  proof -
    have "bit cb n \<longleftrightarrow> n < 8 \<and> bit v (23 + n)" unfolding cb_def by (simp only: bit_simps bit_word_consts) auto
    then show ?thesis using hi[of "23 + n + 8"] hi[of "n + 31"] by (auto simp: v add.commute)
  qed
  have "bit (unpack_attr v) n \<longleftrightarrow>
      bit (push_bit (13 + 4) (drop_bit 13 (push_bit (4 + 4) (drop_bit 4 (v AND mask 23)) OR ((v AND mask 23) AND mask 4)))
        OR ((push_bit (4 + 4) (drop_bit 4 (v AND mask 23)) OR ((v AND mask 23) AND mask 4)) AND mask 13)) n
      \<or> bit (push_bit 13 (drop_bit 4 cb)) n \<or> bit (push_bit 4 (cb AND 0xF)) n"
    unfolding unpack_attr_def Let_def attr_masks unfolding attr_shifts cb_def bit_or_iff by blast
  also have "\<dots> \<longleftrightarrow> bit a n"
    unfolding spread_bits low bit_push_bit_iff[of 13 "drop_bit 4 cb"] bit_push_bit_iff[of 4 "cb AND _"] bit_and_iff[of cb]
      bit_drop_bit_eq comp_def cb bit_word_consts
    using n hi[of n] by (auto simp: possible_bit_word add.commute)
  finally show "bit (unpack_attr (pack_attr a)) n = bit a n" by (simp add: v_def)
qed

section \<open>Reading at a position\<close>

definition at :: "byte list \<Rightarrow> byte list \<Rightarrow> byte list \<Rightarrow> nat \<Rightarrow> rbuf" where
  "at pre xs post k = \<lparr>rdata = pre @ xs @ post, rlen = length pre + k\<rparr>"

lemma get_at: "k < length xs \<Longrightarrow> get (at pre xs post k) = Some (ucast (xs ! k), at pre xs post (k + 1))"
  by (simp add: get_def nth_append at_def)

lemma get_bytes_step: "k < length xs \<Longrightarrow> get_bytes (Suc j) v (at pre xs post k) =
    get_bytes j (v OR push_bit (8 * j) (ucast (xs ! k))) (at pre xs post (k + 1))"
  by (simp add: get_at del: One_nat_def)

lemma four: "4 = Suc (Suc (Suc (Suc 0)))" by simp

lemma get_bytes_at1: "k < length xs \<Longrightarrow> get_bytes 1 v (at pre xs post k) =
    Some (v OR ucast (xs ! k), at pre xs post (k + 1))"
  unfolding One_nat_def by (subst get_bytes_step, simp, simp only: get_bytes.simps mult_0_right push_bit_0_id id_apply, simp add: or.assoc numeral_3_eq_3)

lemma get_bytes_at2: "k + 1 < length xs \<Longrightarrow> get_bytes 2 v (at pre xs post k) =
    Some (v OR push_bit 8 (ucast (xs ! k)) OR ucast (xs ! (k + 1)), at pre xs post (k + 2))"
  unfolding numeral_2_eq_2 by (subst get_bytes_step, simp, subst get_bytes_step, simp, simp only: get_bytes.simps mult_0_right push_bit_0_id id_apply, simp add: or.assoc numeral_3_eq_3)

lemma get_bytes_at3: "k + 2 < length xs \<Longrightarrow> get_bytes 3 v (at pre xs post k) =
    Some (
      v OR push_bit 16 (ucast (xs ! k)) OR push_bit 8 (ucast (xs ! (k + 1))) OR ucast (xs ! (k + 2)), at pre xs post (k + 3))"
  unfolding numeral_3_eq_3 by (subst get_bytes_step, simp, subst get_bytes_step, simp, subst get_bytes_step, simp, simp only: get_bytes.simps mult_0_right push_bit_0_id id_apply, simp add: or.assoc numeral_3_eq_3)

lemma get_bytes_at4: "k + 3 < length xs \<Longrightarrow> get_bytes 4 v (at pre xs post k) =
    Some (
      v OR push_bit 24 (ucast (xs ! k)) OR push_bit 16 (ucast (xs ! (k + 1))) OR push_bit 8 (ucast (xs ! (k + 2))) OR ucast (xs ! (k + 3)), at pre xs post (k + 4))"
  unfolding four by (subst get_bytes_step, simp, subst get_bytes_step, simp, subst get_bytes_step, simp, subst get_bytes_step, simp, simp only: get_bytes.simps mult_0_right push_bit_0_id id_apply, simp add: or.assoc numeral_3_eq_3)

text \<open>The first byte of each form of a character tells the forms apart.\<close>

lemma lead_bytes:
  fixes c :: "32 word"
  defines "u \<equiv> \<lambda>x :: byte. (ucast x :: 32 word)"
  shows "u (ucast (c AND 0x7F)) = c AND 0x7F" "c AND 0x7F < 0x80"
    "u (ucast ((drop_bit 8 c AND 0x3F) OR 0x80)) = 0x80 + (drop_bit 8 c AND 0x3F)" "drop_bit 8 c AND 0x3F \<le> 0x3F"
    "u (ucast ((drop_bit 16 c AND 0x1F) OR 0xC0)) = 0xC0 + (drop_bit 16 c AND 0x1F)" "drop_bit 16 c AND 0x1F \<le> 0x1F"
    "u (ucast ((drop_bit 24 c AND 0x0F) OR 0xE0)) = 0xE0 + (drop_bit 24 c AND 0x0F)" "drop_bit 24 c AND 0x0F \<le> 0x0F"
proof -
  have le: "x AND m \<le> m" for x m :: "32 word" by (rule word_and_le1)
  show "u (ucast (c AND 0x7F)) = c AND 0x7F" unfolding u_def
    by (rule bit_word_eqI) (simp only: bit_simps bit_word_consts, auto)
  show "c AND 0x7F < 0x80" using le[of c "0x7F"] by (rule le_less_trans) simp
  show "drop_bit 8 c AND 0x3F \<le> 0x3F" "drop_bit 16 c AND 0x1F \<le> 0x1F" "drop_bit 24 c AND 0x0F \<le> 0x0F" by (rule le)+
  have j: "x + y = x OR y" if "x AND y = 0" for x y :: "32 word"
    by (rule disjunctive_add_eq_or[OF that])
  show "u (ucast ((drop_bit 8 c AND 0x3F) OR 0x80)) = 0x80 + (drop_bit 8 c AND 0x3F)" unfolding u_def
    by (subst j) (rule bit_word_eqI, simp only: bit_simps bit_word_consts, auto)+
  show "u (ucast ((drop_bit 16 c AND 0x1F) OR 0xC0)) = 0xC0 + (drop_bit 16 c AND 0x1F)" unfolding u_def
    by (subst j) (rule bit_word_eqI, simp only: bit_simps bit_word_consts, auto)+
  show "u (ucast ((drop_bit 24 c AND 0x0F) OR 0xE0)) = 0xE0 + (drop_bit 24 c AND 0x0F)" unfolding u_def
    by (subst j) (rule bit_word_eqI, simp only: bit_simps bit_word_consts, auto)+
qed

lemma lead_cases:
  fixes x y :: "32 word"
  shows "y \<le> 0x3F \<Longrightarrow> \<not> 0x80 + y < 0x80" "y \<le> 0x3F \<Longrightarrow> 0x80 + y < 0xC0"
    "y \<le> 0x1F \<Longrightarrow> \<not> 0xC0 + y < 0xC0" "y \<le> 0x1F \<Longrightarrow> 0xC0 + y < 0xE0"
    "y \<le> 0x0F \<Longrightarrow> \<not> 0xE0 + y < 0xE0" "y \<le> 0x0F \<Longrightarrow> 0xE0 + y < 0xF0"
    "x < 0x80 \<Longrightarrow> x < 0xC0" "\<not> x < 0xC0 \<Longrightarrow> \<not> x < 0x80" "\<not> x < 0xE0 \<Longrightarrow> \<not> x < 0xC0"
  by (simp_all add: word_less_nat_alt word_le_nat_alt unat_word_ariths)

lemma get_chr_lead:
  assumes "0 < length xs"
  shows "get_chr st (at pre xs post 0) =
   (case (let x = ucast (xs ! 0); b1 = at pre xs post 1 in
          if x < 0x80 then Some (x OR st, b1)
          else if x < 0xC0 then get_bytes 1 (push_bit 8 (x AND NOT 0xC0)) b1
          else if x < 0xE0 then get_bytes 2 (push_bit 16 (x AND NOT 0xE0)) b1
          else if x < 0xF0 then get_bytes 3 (push_bit 24 (x AND NOT 0xF0)) b1
          else if x = 0xF0 then get_bytes 4 0 b1
          else None)
    of None \<Rightarrow> None | Some (c, b2) \<Rightarrow> Some (c, c AND NOT 0xFF, b2))"
  using get_at[of 0 xs pre post] assms unfolding get_chr_def Let_def by simp

lemma get_chr_put:
  assumes "put_chr c st = (xs, st')"
  shows "get_chr st (at pre xs post 0) = Some (c, st', at pre xs post (length xs))" "xs \<noteq> []"
proof -
  let ?A = "\<lambda>v. (ucast (ucast v :: byte) :: 32 word)"
  have st': "st' = c AND NOT 0xFF" using assms by (simp add: put_chr_def)
  consider (a) "c AND NOT 0x7F = st" "xs = [ucast (c AND 0x7F)]"
    | (b) "c < 0x4000" "xs = [ucast ((drop_bit 8 c AND 0x3F) OR 0x80), ucast (c AND 0xFF)]"
    | (c) "c < 0x200000" "xs = [ucast ((drop_bit 16 c AND 0x1F) OR 0xC0), ucast (drop_bit 8 c AND 0xFF), ucast (c AND 0xFF)]"
    | (d) "c < 0x10000000" "xs = [ucast ((drop_bit 24 c AND 0x0F) OR 0xE0), ucast (drop_bit 16 c AND 0xFF),
          ucast (drop_bit 8 c AND 0xFF), ucast (c AND 0xFF)]"
    | (e) "xs = [0xF0, ucast (drop_bit 24 c AND 0xFF), ucast (drop_bit 16 c AND 0xFF),
             ucast (drop_bit 8 c AND 0xFF), ucast (c AND 0xFF)]"
    using assms unfolding put_chr_def by (auto split: if_splits)
  then have "get_chr st (at pre xs post 0) = Some (c, c AND NOT 0xFF, at pre xs post (length xs)) \<and> xs \<noteq> []"
  proof cases
    case a
    have "(c AND 0x7F) OR st = c" unfolding a(1)[symmetric] by (rule bit_word_eqI) (simp only: bit_simps, auto)
    then show ?thesis using lead_bytes(1,2)[of c] get_chr_lead[of xs st pre post] by (simp add: a(2))
  next
    case b
    have x: "length xs = 2" "xs ! 0 = ucast ((drop_bit 8 c AND 0x3F) OR 0x80)" "xs ! 1 = ucast (c AND 0xFF)" by (simp_all add: b(2) numeral_2_eq_2 numeral_3_eq_3)
    have "0 < length xs" using x(1) by simp
    note g = get_chr_lead[OF this, of st pre post] and u = lead_bytes(3,4)[of c]
    have "get_bytes 1 (push_bit 8 (ucast (xs ! 0) AND NOT 0xC0)) (at pre xs post 1) = Some (c, at pre xs post 2)"
      using bytes_glue(1)[OF b(1)] get_bytes_at1[of 1 xs] by (simp add: x del: One_nat_def)
    then show ?thesis using u g x(1) by (auto simp add: x(2) lead_cases del: One_nat_def)
  next
    case c
    have x: "length xs = 3" "xs ! 0 = ucast ((drop_bit 16 c AND 0x1F) OR 0xC0)" "xs ! 1 = ucast (drop_bit 8 c AND 0xFF)" "xs ! 2 = ucast (c AND 0xFF)" by (simp_all add: c(2) numeral_2_eq_2 numeral_3_eq_3)
    have "0 < length xs" using x(1) by simp
    note g = get_chr_lead[OF this, of st pre post] and u = lead_bytes(5,6)[of c]
    have "get_bytes 2 (push_bit 16 (ucast (xs ! 0) AND NOT 0xE0)) (at pre xs post 1) = Some (c, at pre xs post 3)"
      using bytes_glue(2)[OF c(1)] get_bytes_at2[of 1 xs] by (simp add: x del: One_nat_def)
    then show ?thesis using u g x(1) by (auto simp add: x(2) lead_cases del: One_nat_def)
  next
    case d
    have x: "length xs = 4" "xs ! 0 = ucast ((drop_bit 24 c AND 0x0F) OR 0xE0)" "xs ! 1 = ucast (drop_bit 16 c AND 0xFF)" "xs ! 2 = ucast (drop_bit 8 c AND 0xFF)" "xs ! 3 = ucast (c AND 0xFF)" by (simp_all add: d(2) numeral_2_eq_2 numeral_3_eq_3)
    have "0 < length xs" using x(1) by simp
    note g = get_chr_lead[OF this, of st pre post] and u = lead_bytes(7,8)[of c]
    have "get_bytes 3 (push_bit 24 (ucast (xs ! 0) AND NOT 0xF0)) (at pre xs post 1) = Some (c, at pre xs post 4)"
      using bytes_glue(3)[OF d(1)] get_bytes_at3[of 1 xs] by (simp add: x del: One_nat_def)
    then show ?thesis using u g x(1) by (auto simp add: x(2) lead_cases del: One_nat_def)
  next
    case e
    have x: "length xs = 5" "xs ! 0 = 0xF0" "xs ! 1 = ucast (drop_bit 24 c AND 0xFF)" "xs ! 2 = ucast (drop_bit 16 c AND 0xFF)"
      "xs ! 3 = ucast (drop_bit 8 c AND 0xFF)" "xs ! 4 = ucast (c AND 0xFF)"
      by (simp_all add: e numeral_2_eq_2 numeral_3_eq_3 four)
    have "0 < length xs" using x(1) by simp
    note g = get_chr_lead[OF this, of st pre post]
    have "get_bytes 4 0 (at pre xs post 1) = Some (c, at pre xs post 5)"
      using bytes_glue(4)[of c] get_bytes_at4[of 1 xs] by (simp add: x del: One_nat_def)
    then show ?thesis using g x(1) by (auto simp add: x(2) del: One_nat_def)
  qed
  then show "get_chr st (at pre xs post 0) = Some (c, st', at pre xs post (length xs))" "xs \<noteq> []" by (simp_all add: st')
qed

lemma get_attr_put:
  assumes a: "a < 0x80000000"
  shows "get_attr (at pre (put_attr a) post 0) = Some (a, at pre (put_attr a) post (length (put_attr a)))"
    "put_attr a \<noteq> []"
proof -
  let ?u = "\<lambda>x :: 32 word. (ucast (ucast x :: byte) :: 32 word)"
  show "put_attr a \<noteq> []" by (simp add: put_attr_def)
  have lo: "push_bit 8 (?u (drop_bit 8 a AND 0xFF)) OR ?u (a AND 0xFF) = a" if "a < 0x8000"
    by (rule bit_word_eqI) (simp only: bit_simps bit_word_consts, auto dest: limits(1)[OF that])
  have hi: "push_bit 8 (?u ((drop_bit 24 a AND 0x7F) OR 0x80)) OR ?u (drop_bit 16 a AND 0xFF)
      = 0x8000 + (drop_bit 16 a AND mask 15)"
  proof -
    have "0x8000 AND (drop_bit 16 a AND mask 15) = 0"
      by (rule bit_word_eqI) (simp only: bit_simps bit_word_consts, auto)
    then have "0x8000 + (drop_bit 16 a AND mask 15) = 0x8000 OR (drop_bit 16 a AND mask 15)"
      by (rule disjunctive_add_eq_or)
    then show ?thesis
      by (simp only:) (rule bit_word_eqI, simp only: bit_simps bit_word_consts, auto dest: limits(5)[OF a])
  qed
  have m: "drop_bit 16 a AND mask 15 \<le> mask 15" by (rule word_and_le1)
  have ge: "\<not> 0x8000 + (drop_bit 16 a AND mask 15) < 0x8000"
    using m by (simp add: word_less_nat_alt word_le_nat_alt unat_word_ariths mask_eq_exp_minus_1)
  have glue: "push_bit 16 ((0x8000 + (drop_bit 16 a AND mask 15)) AND NOT 0x8000)
      OR push_bit 8 (?u (drop_bit 8 a AND 0xFF)) OR ?u (a AND 0xFF) = a"
    unfolding hi[symmetric]
    by (rule bit_word_eqI) (simp only: bit_simps bit_word_consts, auto dest: limits(5)[OF a])
  show "get_attr (at pre (put_attr a) post 0) = Some (a, at pre (put_attr a) post (length (put_attr a)))"
  proof (cases "a < 0x8000")
    case True
    define xs where "xs = put_attr a"
    have x: "length xs = 2" "xs ! 0 = ucast (drop_bit 8 a AND 0xFF)" "xs ! 1 = ucast (a AND 0xFF)"
      using True by (simp_all add: xs_def put_attr_def)
    have "get_bytes 2 0 (at pre xs post 0) = Some (a, at pre xs post 2)"
      using get_bytes_at2[of 0 xs 0 pre post, unfolded add_0_left or.left_neutral x lo[OF True]] by simp
    then show ?thesis using True x unfolding get_attr_def xs_def[symmetric] by (auto dest: leD)
  next
    case False
    define xs where "xs = put_attr a"
    define v where "v = 0x8000 + (drop_bit 16 a AND mask 15)"
    have x: "length xs = 4" "xs ! 0 = ucast ((drop_bit 24 a AND 0x7F) OR 0x80)" "xs ! 1 = ucast (drop_bit 16 a AND 0xFF)"
      "xs ! 2 = ucast (drop_bit 8 a AND 0xFF)" "xs ! 3 = ucast (a AND 0xFF)"
      using False by (simp_all add: xs_def put_attr_def numeral_2_eq_2 numeral_3_eq_3)
    have "get_bytes 2 0 (at pre xs post 0) = Some (v, at pre xs post 2)"
      using get_bytes_at2[of 0 xs 0 pre post, unfolded add_0_left or.left_neutral x hi] by (simp add: v_def)
    moreover have "get_bytes 2 (push_bit 16 (v AND NOT 0x8000)) (at pre xs post 2) = Some (a, at pre xs post 4)"
    proof -
      have "get_bytes 2 w (at pre xs post 2) = Some (w OR push_bit 8 (?u (drop_bit 8 a AND 0xFF)) OR ?u (a AND 0xFF), at pre xs post 4)" for w
        using get_bytes_at2[of 2 xs w pre post] by (simp add: x)
      then show ?thesis unfolding v_def by (simp only: glue)
    qed
    ultimately show ?thesis using ge x(1) unfolding get_attr_def xs_def[symmetric] v_def[symmetric] by (simp add: not_less)
  qed
qed

end
