(* ===== verification/Termline_Rle.thy ===== *)
theory Termline_Rle
  imports Termline_Codec
begin

text \<open>
  The run-length encoding of \<open>makerle\<close> and \<open>readrle\<close> for any kind of literal.  The locale
  \<open>literal_maker\<close> says what the encoder needs of a function \<open>makeliteral\<close>, and
  \<open>literal_codec\<close> what the decoder needs of the matching \<open>readliteral\<close>; under them the encoder
  never fails an assertion and the decoder undoes it.
\<close>

section \<open>Packets\<close>

text \<open>What the encoder writes: a header byte and literals, or a header byte and one literal to repeat.\<close>

datatype packet = Lits "byte list list" | Run nat "byte list"

fun packet_bytes :: "packet \<Rightarrow> byte list" where
  "packet_bytes (Lits ls) = word_of_int (int (length ls) - 1) # concat ls"
| "packet_bytes (Run k lit) = word_of_int (int k + 0x80 - 2) # lit"

fun packet_lits :: "packet \<Rightarrow> byte list list" where
  "packet_lits (Lits ls) = ls"
| "packet_lits (Run k lit) = replicate k lit"

fun packet_ok :: "packet \<Rightarrow> bool" where
  "packet_ok (Lits ls) \<longleftrightarrow> ls \<noteq> [] \<and> length ls \<le> 128"
| "packet_ok (Run k lit) \<longleftrightarrow> 2 \<le> k \<and> k \<le> 129"

definition stream :: "packet list \<Rightarrow> byte list" where "stream ps = concat (map packet_bytes ps)"
definition lits :: "packet list \<Rightarrow> byte list list" where "lits ps = concat (map packet_lits ps)"

lemma stream_append [simp]: "stream (ps @ qs) = stream ps @ stream qs" "stream [] = []" "stream (p # ps) = packet_bytes p @ stream ps"
  by (simp_all add: stream_def)

lemma lits_append [simp]: "lits (ps @ qs) = lits ps @ lits qs" "lits [] = []" "lits (p # ps) = packet_lits p @ lits ps"
  by (simp_all add: lits_def)

text \<open>The literals of \<open>k\<close> cells from cell \<open>c\<close>, and the state after them.\<close>

fun literals :: "(nat \<Rightarrow> 32 word \<Rightarrow> literal) \<Rightarrow> nat \<Rightarrow> nat \<Rightarrow> 32 word \<Rightarrow> (byte list list \<times> 32 word) option" where
  "literals mk c 0 st = Some ([], st)"
| "literals mk c (Suc k) st =
     (case mk c st of None \<Rightarrow> None
      | Some (lit, st1) \<Rightarrow> map_option (\<lambda>(ls, st2). (lit # ls, st2)) (literals mk (c + 1) k st1))"

lemma literals_add:
  "literals mk c j st = Some (ls, st1) \<Longrightarrow> literals mk (c + j) k st1 = Some (ls', st2) \<Longrightarrow>
   literals mk c (j + k) st = Some (ls @ ls', st2)"
proof (induction j arbitrary: c st ls)
  case (Suc j)
  then obtain lit s l1 where "mk c st = Some (lit, s)" "literals mk (c + 1) j s = Some (l1, st1)" "ls = lit # l1"
    by (auto split: option.splits)
  then show ?case using Suc.IH[of "c + 1" s l1] Suc.prems(2) by simp
qed simp

lemma literals_split:
  "literals mk c k st = Some (ls @ ls', st2) \<Longrightarrow>
   \<exists>st1. literals mk c (length ls) st = Some (ls, st1) \<and> literals mk (c + length ls) (k - length ls) st1 = Some (ls', st2)
     \<and> length ls \<le> k"
proof (induction ls arbitrary: c k st)
  case (Cons l ls)
  then obtain k' lit s where "k = Suc k'" "mk c st = Some (l, s)" "literals mk (c + 1) k' s = Some (ls @ ls', st2)"
    by (cases k) (auto split: option.splits)
  then show ?case using Cons.IH[of "c + 1" k' s] by fastforce
qed simp

lemma literals_length: "literals mk c k st = Some (ls, st') \<Longrightarrow> length ls = k"
  by (induction k arbitrary: c st ls) (auto split: option.splits)

lemma set_hdr: "set_byte (length xs) v (xs @ y # zs) = xs @ word_of_int v # zs"
  by (simp add: set_byte_def)

lemma memmove_up:
  assumes "lit \<noteq> []"
  shows "take (length X + length lit + 1) (memmove (X @ lit @ R) (length X + 1) (length X) (length lit)) = X @ hd lit # lit"
proof -
  obtain a l where "lit = a # l" using assms by (cases lit) auto
  then show ?thesis by (simp add: memmove_def take_add)
qed

section \<open>The encoder\<close>

locale literal_maker =
  fixes mk :: "termline \<Rightarrow> nat \<Rightarrow> 32 word \<Rightarrow> literal"
    and good :: "termline \<Rightarrow> bool"
  assumes mk_total: "good src \<Longrightarrow> i < cols src \<Longrightarrow> \<exists>lit st'. mk src i st = Some (lit, st') \<and> lit \<noteq> []"
begin

text \<open>
  The state between two cells: packets that are complete, then a header byte and the literals
  that are not in a packet yet, fewer than 128.
\<close>

definition pending :: "termline \<Rightarrow> byte list \<Rightarrow> nat \<Rightarrow> packet list \<Rightarrow> byte list list \<Rightarrow> rle \<Rightarrow> bool" where
  "pending src b c ps ls s \<longleftrightarrow>
     (\<exists>h. data s = b @ stream ps @ h # concat ls) \<and> hdrpos s = length (b @ stream ps)
   \<and> hdrsize s = int (length ls) \<and> length ls < 128 \<and> list_all packet_ok ps
   \<and> literals (mk src) 0 c 0 = Some (lits ps @ ls, lstate s)
   \<and> (if ls = [] then prevlen s = 0 \<and> \<not> prev2 s
      else prevlen s = length (last ls) \<and> prevpos s = length (data s) - length (last ls) \<and> last ls \<noteq> [])
   \<and> (prev2 s \<longrightarrow> prevlen s = 1 \<and> (\<exists>ls0. ls = ls0 @ [last ls, last ls]))"

lemma run_loop_run:
  assumes "good src" "c + n = cols src" "2 \<le> k" "k \<le> 129"
    "slice buf (runpos + 1) (length lit) = lit"
  shows "\<exists>j st'. run_loop (mk src) buf runpos (length lit) c n k st = Some (c + j, n - j, k + j, st')
    \<and> j \<le> n \<and> k + j \<le> 129 \<and> literals (mk src) c j st = Some (replicate j lit, st')"
  using assms
proof (induction n arbitrary: c k st)
  case 0
  then show ?case by (auto intro!: exI[of _ 0])
next
  case (Suc n)
  obtain lit1 st1 where m: "mk src c st = Some (lit1, st1)" using mk_total[of src c st] Suc.prems by auto
  show ?case
  proof (cases "k < 129 \<and> length lit1 = length lit \<and> slice buf (runpos + 1) (length lit1) = lit1")
    case True
    then have l: "lit1 = lit" using Suc.prems(5) by metis
    obtain j st' where j: "run_loop (mk src) buf runpos (length lit) (c + 1) n (k + 1) st1
        = Some (c + 1 + j, n - j, k + 1 + j, st')"
      "j \<le> n" "k + 1 + j \<le> 129" "literals (mk src) (c + 1) j st1 = Some (replicate j lit, st')"
      using Suc.IH[of "c + 1" "k + 1" st1] Suc.prems True by auto
    have step: "run_loop (mk src) buf runpos (length lit) c (Suc n) k st
        = run_loop (mk src) buf runpos (length lit) (c + 1) n (k + 1) st1"
      using m True l by simp
    have "literals (mk src) c (Suc j) st = Some (replicate (Suc j) lit, st')" using m j(4) l by simp
    then show ?thesis using step j(1,2,3) by (intro exI[of _ "Suc j"] exI[of _ st']) simp
  next
    case False
    then have "run_loop (mk src) buf runpos (length lit) c (Suc n) k st = Some (c, Suc n, k, st)"
      using m by auto
    then show ?thesis using Suc.prems(4) by (intro exI[of _ 0] exI[of _ st]) simp
  qed
qed

lemma start_run_ok:
  assumes p: "pending src b c ps ls s" and ls: "ls \<noteq> []" "last ls = lit" and w: "length lit > 1 \<or> prev2 s"
  shows "\<exists>s2 ps' h. start_run (s\<lparr>data := data s @ lit, lstate := st1\<rparr>) = Some (s2, length (b @ stream ps'))
    \<and> data s2 = b @ stream ps' @ h # lit \<and> list_all packet_ok ps'
    \<and> lits ps' @ replicate (if prev2 s then 2 else 1) lit = lits ps @ ls"
proof -
  define m :: nat where "m = (if prev2 s then 2 else 1)"
  define s1 where "s1 = s\<lparr>data := data s @ lit, lstate := st1\<rparr>"
  obtain ls0 where ls0: "ls = ls0 @ replicate m lit"
  proof (cases "prev2 s")
    case True
    then show ?thesis using p ls that by (auto simp: pending_def m_def numeral_2_eq_2)
  next
    case False
    then show ?thesis using ls that[of "butlast ls"] by (simp add: m_def) (metis append_butlast_last_id)
  qed
  obtain h where d: "data s = b @ stream ps @ h # concat ls" using p by (auto simp: pending_def)
  have f: "hdrpos s = length (b @ stream ps)" "hdrsize s = int (length ls)" "length ls < 128" "list_all packet_ok ps"
    "prevlen s = length lit" "prevpos s = length (data s) - length lit" "lit \<noteq> []"
    using p ls by (auto simp: pending_def)
  define X where "X = b @ stream ps @ h # concat ls0"
  define R where "R = (if prev2 s then lit @ lit else lit)"
  have d1: "data s1 = X @ lit @ R" by (simp add: s1_def d X_def R_def ls0 m_def numeral_2_eq_2)
  have pp: "(if prev2 s then prevpos s - prevlen s else prevpos s) = length X"
    by (simp add: f(5,6) d ls0 m_def X_def numeral_2_eq_2)
  have hs: "hdrsize s - int m = int (length ls0)" by (simp add: f(2) ls0)
  have X: "X = (b @ stream ps) @ h # concat ls0" by (simp add: X_def)
  show ?thesis
  proof (cases "ls0 = []")
    case True
    define s2 where "s2 = s1\<lparr>hdrsize := 0, prevpos := length X, data := take (length X + length lit) (data s1)\<rparr>"
    have "start_run s1 = Some (s2, length (b @ stream ps))"
      using pp hs f(1,5) True unfolding start_run_def Let_def s2_def
      by (auto simp: s1_def m_def X_def split: if_splits)
    moreover have "data s2 = b @ stream ps @ h # lit" by (simp add: s2_def d1 X True)
    ultimately show ?thesis
      using f(4) ls0 True by (auto simp: s1_def m_def intro!: exI[of _ s2] exI[of _ ps] exI[of _ h])
  next
    case False
    define s2 where "s2 = s1\<lparr>hdrsize := int (length ls0), prevpos := length X,
      data := set_byte (hdrpos s) (int (length ls0) - 1) (X @ hd lit # lit)\<rparr>"
    have sr: "start_run s1 = Some (s2, length X)"
    proof -
      have n: "int (length ls0) \<noteq> 0" "1 \<le> int (length ls0)" "int (length ls0) \<le> 128"
        using False f(3) ls0 by (auto simp: Suc_le_eq)
      have a: "hdrsize s1 = hdrsize s" "prev2 s1 = prev2 s" "prevpos s1 = prevpos s" "prevlen s1 = length lit"
        "hdrpos s1 = hdrpos s" by (simp_all add: s1_def f(5))
      have b: "(if prev2 s then hdrsize s - 1 - 1 else hdrsize s - 1) = int (length ls0)"
        using hs by (auto simp: m_def)
      have c: "\<not> (prev2 s \<and> \<not> hdrsize s - 1 > 0)" using hs n by (auto simp: m_def)
      show ?thesis
        unfolding start_run_def Let_def a b using pp[unfolded f(5)] c n
        by (simp add: s2_def d1 memmove_up[OF f(7)] f(5) del: One_nat_def)
    qed
    have st: "stream (ps @ [Lits ls0]) = stream ps @ word_of_int (int (length ls0) - 1) # concat ls0" by simp
    have "data s2 = (b @ stream ps) @ word_of_int (int (length ls0) - 1) # concat ls0 @ hd lit # lit"
      unfolding s2_def using set_hdr[of "b @ stream ps"] by (simp add: X f(1))
    then have "data s2 = b @ stream (ps @ [Lits ls0]) @ hd lit # lit" by simp
    moreover have "length X = length (b @ stream (ps @ [Lits ls0]))" by (simp add: X)
    moreover have "list_all packet_ok (ps @ [Lits ls0])" using f(3,4) ls0 False by simp
    ultimately show ?thesis using sr ls0
      by (auto simp: s1_def[symmetric] m_def intro!: exI[of _ s2] exI[of _ "ps @ [Lits ls0]"] exI[of _ "hd lit"])
  qed
qed

end

context literal_maker
begin

lemma pending_add:
  assumes p: "pending src b c ps ls s" and m: "mk src c (lstate s) = Some (lit, st1)" "lit \<noteq> []"
    and p2: "p2 \<longrightarrow> ls \<noteq> [] \<and> last ls = lit \<and> length lit = 1"
  shows "\<exists>ps' ls'. pending src b (c + 1) ps' ls'
    (count_literal (s\<lparr>data := data s @ lit, lstate := st1, prev2 := p2, prevlen := length lit, prevpos := length (data s)\<rparr>))"
proof -
  define s1 where "s1 = s\<lparr>data := data s @ lit, lstate := st1, prev2 := p2, prevlen := length lit, prevpos := length (data s)\<rparr>"
  obtain h where d: "data s = b @ stream ps @ h # concat ls" using p by (auto simp: pending_def)
  have f: "hdrpos s = length (b @ stream ps)" "hdrsize s = int (length ls)" "length ls < 128" "list_all packet_ok ps"
    "literals (mk src) 0 c 0 = Some (lits ps @ ls, lstate s)"
    using p by (auto simp: pending_def)
  have l: "literals (mk src) 0 (c + 1) 0 = Some (lits ps @ ls @ [lit], st1)"
    using literals_add[OF f(5), of 1 "[lit]" st1] m(1) by simp
  have "\<exists>ps' ls'. pending src b (c + 1) ps' ls' (count_literal s1)"
  proof (cases "length ls = 127")
    case False
    then have "count_literal s1 = s1\<lparr>hdrsize := int (length ls) + 1\<rparr>"
      by (simp add: count_literal_def Let_def s1_def f(2))
    moreover have "ls @ [lit] = butlast ls @ [last (ls @ [lit]), last (ls @ [lit])]" if p2
      using p2 that by simp (metis append_butlast_last_id)
    ultimately have "pending src b (c + 1) ps (ls @ [lit]) (count_literal s1)"
      using d f l False m(2) p2 unfolding pending_def by (auto simp: s1_def)
    then show ?thesis by blast
  next
    case True
    define ps' where "ps' = ps @ [Lits (ls @ [lit])]"
    have "data s1 = (b @ stream ps) @ h # concat (ls @ [lit])" by (simp add: s1_def d)
    then have "set_byte (hdrpos s) 127 (data s1) = b @ stream ps'"
      using True by (simp add: ps'_def f(1) set_hdr[of "b @ stream ps", simplified])
    then have "pending src b (c + 1) ps' [] (count_literal s1)"
      using f(4) l True unfolding pending_def count_literal_def Let_def
      by (simp add: s1_def f(1,2) new_header_def ps'_def)
    then show ?thesis by blast
  qed
  then show ?thesis by (simp add: s1_def)
qed

lemma same_literal:
  assumes p: "pending src b c ps ls s" and "lit \<noteq> []"
  shows "(length lit = prevlen s \<and> slice (data s @ lit) (prevpos s) (length lit)
      = slice (data s @ lit) (length (data s)) (length lit)) \<longleftrightarrow> ls \<noteq> [] \<and> last ls = lit"
proof (cases "ls = []")
  case True
  then show ?thesis using p assms(2) by (auto simp: pending_def)
next
  case False
  obtain h where d: "data s = b @ stream ps @ h # concat ls" using p by (auto simp: pending_def)
  define Y where "Y = b @ stream ps @ h # concat (butlast ls)"
  have "concat ls = concat (butlast ls) @ last ls" using False
    by (metis append_butlast_last_id concat.simps(1) concat.simps(2) concat_append append_Nil2)
  then have d': "data s = Y @ last ls" by (simp add: d Y_def)
  have pl: "prevlen s = length (last ls)" "prevpos s = length Y"
    using p False d' by (auto simp: pending_def)
  have "slice (data s @ lit) (length Y) (length (last ls)) = last ls" by (simp add: slice_def d')
  moreover have "slice (data s @ lit) (length (data s)) (length lit) = lit" by (simp add: slice_def)
  ultimately have "slice (data s @ lit) (prevpos s) (prevlen s) = last ls"
    "slice (data s @ lit) (length (data s)) (length lit) = lit" by (simp_all add: pl)
  then show ?thesis using False pl(1) by metis
qed

lemma run_step:
  assumes p: "pending src b c ps ls s" and g: "good src" "c + Suc n = cols src"
    and m: "mk src c (lstate s) = Some (lit, st1)" "lit \<noteq> []" and ls: "ls \<noteq> []" "last ls = lit"
    and w: "length lit > 1 \<or> prev2 s"
  shows "\<exists>j s' ps'. j \<le> n \<and> rle_loop (mk src) c (Suc n) s = rle_loop (mk src) (c + 1 + j) (n - j) s'
    \<and> pending src b (c + 1 + j) ps' [] s'"
proof -
  define k :: nat where "k = (if prev2 s then 3 else 2)"
  obtain s2 ps2 h where s2: "start_run (s\<lparr>data := data s @ lit, lstate := st1\<rparr>) = Some (s2, length (b @ stream ps2))"
    "data s2 = b @ stream ps2 @ h # lit" "list_all packet_ok ps2"
    "lits ps2 @ replicate (if prev2 s then 2 else 1) lit = lits ps @ ls"
    using start_run_ok[OF p ls w] by blast
  let ?r = "length (b @ stream ps2)"
  have k2: "2 \<le> k" "k \<le> 129" by (simp_all add: k_def)
  have sl: "slice (data s2) (?r + 1) (length lit) = lit" by (simp add: s2(2) slice_def)
  then obtain j st' where j: "run_loop (mk src) (data s2) ?r (length lit) (c + 1) n k st1
      = Some (c + 1 + j, n - j, k + j, st')" "j \<le> n" "k + j \<le> 129"
      "literals (mk src) (c + 1) j st1 = Some (replicate j lit, st')"
    using run_loop_run[OF g(1) _ k2 sl, of "c + 1" n st1] g(2) by auto
  define s' where "s' = new_header (s2\<lparr>lstate := st', data := set_byte ?r (int (k + j) + 0x80 - 2) (data s2)\<rparr>)"
  have loop: "rle_loop (mk src) c (Suc n) s = rle_loop (mk src) (c + 1 + j) (n - j) s'"
  proof -
    have a: "length lit = prevlen s" "slice (data s @ lit) (prevpos s) (length lit)
        = slice (data s @ lit) (length (data s)) (length lit)"
      using same_literal[OF p m(2)] ls by auto
    have b: "2 \<le> k + j" by (simp add: k_def)
    show ?thesis
      unfolding rle_loop.simps m(1) option.case prod.case Let_def rle.simps
      using a(2) w b j(3) by (simp add: a(1)[symmetric] s2(1) j(1) s'_def k_def[symmetric] del: One_nat_def length_append)
  qed
  define ps' where "ps' = ps2 @ [Run (k + j) lit]"
  have d: "set_byte ?r (int (k + j) + 0x80 - 2) (data s2) = b @ stream ps'"
    using set_hdr[of "b @ stream ps2" _ h lit] by (simp add: s2(2) ps'_def)
  have l1: "literals (mk src) 0 c 0 = Some (lits ps @ ls, lstate s)" using p by (simp add: pending_def)
  have "literals (mk src) c (Suc j) (lstate s) = Some (lit # replicate j lit, st')" using m(1) j(4) by simp
  from literals_add[OF l1, unfolded add_0, OF this]
  have "literals (mk src) 0 (c + 1 + j) 0 = Some (lits ps @ ls @ lit # replicate j lit, st')" by simp
  moreover have "lits ps @ ls @ lit # replicate j lit = lits ps'"
  proof -
    have "lits ps @ ls @ lit # replicate j lit = (lits ps2 @ replicate (if prev2 s then 2 else 1) lit) @ lit # replicate j lit"
      by (simp add: s2(4))
    also have "\<dots> = lits ps'"
      by (simp add: ps'_def k_def numeral_2_eq_2 numeral_3_eq_3)
    finally show ?thesis .
  qed
  ultimately have "pending src b (c + 1 + j) ps' [] s'"
    using d s2(3) j(3) unfolding pending_def s'_def new_header_def
    by (simp add: ps'_def[symmetric]) (simp add: ps'_def k_def)
  then show ?thesis using j(2) loop by blast
qed

lemma rle_loop_ok:
  "good src \<Longrightarrow> c + n = cols src \<Longrightarrow> pending src b c ps ls s \<Longrightarrow>
   \<exists>s' ps' ls'. rle_loop (mk src) c n s = Some s' \<and> pending src b (cols src) ps' ls' s'"
proof (induction n arbitrary: c ps ls s rule: less_induct)
  case (less n)
  show ?case
  proof (cases n)
    case 0
    then show ?thesis using less.prems by auto
  next
    case (Suc n')
    obtain lit st1 where m: "mk src c (lstate s) = Some (lit, st1)" "lit \<noteq> []"
      using mk_total[OF less.prems(1), of c "lstate s"] less.prems(2) Suc by auto
    show ?thesis
    proof (cases "ls \<noteq> [] \<and> last ls = lit \<and> (length lit > 1 \<or> prev2 s)")
      case True
      then obtain j s' ps' where j: "j \<le> n'" "rle_loop (mk src) c n s = rle_loop (mk src) (c + 1 + j) (n' - j) s'"
          "pending src b (c + 1 + j) ps' [] s'"
        using run_step[OF less.prems(3,1) _ m, of n'] less.prems(2) Suc by blast
      then show ?thesis using less.IH[of "n' - j" "c + 1 + j" ps' "[]" s'] less.prems(1,2) Suc by auto
    next
      case False
      define p2 where "p2 = (ls \<noteq> [] \<and> last ls = lit)"
      let ?s = "count_literal (s\<lparr>data := data s @ lit, lstate := st1, prev2 := p2, prevlen := length lit, prevpos := length (data s)\<rparr>)"
      have e: "rle_loop (mk src) c n s = rle_loop (mk src) (c + 1) n' ?s"
        using same_literal[OF less.prems(3) m(2)] m(1) False Suc by (auto simp: p2_def)
      have "p2 \<longrightarrow> ls \<noteq> [] \<and> last ls = lit \<and> length lit = 1"
        using False m(2) by (cases lit) (auto simp: p2_def)
      then obtain ps' ls' where "pending src b (c + 1) ps' ls' ?s"
        using pending_add[OF less.prems(3) m] by blast
      then show ?thesis using less.IH[of n' "c + 1" ps' ls' ?s] e less.prems(1,2) Suc by auto
    qed
  qed
qed

lemma makerle_packets:
  assumes "good src"
  shows "\<exists>ps st. makerle b (cols src) (mk src) = Some (b @ stream ps) \<and> list_all packet_ok ps
    \<and> literals (mk src) 0 (cols src) 0 = Some (lits ps, st)"
proof -
  define s0 where "s0 = \<lparr>data = b @ [0], hdrpos = length b, hdrsize = 0, prevlen = 0, prevpos = 0,
      prev2 = False, lstate = 0 :: 32 word\<rparr>"
  have "pending src b 0 [] [] s0" by (simp add: pending_def s0_def)
  then obtain s ps ls where s: "rle_loop (mk src) 0 (cols src) s0 = Some s" "pending src b (cols src) ps ls s"
    using rle_loop_ok[OF assms, of 0 "cols src" b "[]" "[]" s0] by auto
  obtain h where d: "data s = (b @ stream ps) @ h # concat ls" using s(2) by (auto simp: pending_def)
  have f: "hdrpos s = length (b @ stream ps)" "hdrsize s = int (length ls)" "length ls < 128" "list_all packet_ok ps"
    "literals (mk src) 0 (cols src) 0 = Some (lits ps @ ls, lstate s)"
    using s(2) by (auto simp: pending_def)
  show ?thesis
  proof (cases "ls = []")
    case True
    then have "finish_rle s = Some (b @ stream ps)" by (simp add: finish_rle_def f(1,2) d)
    then show ?thesis using s(1) f True by (auto simp: makerle_def s0_def[symmetric])
  next
    case False
    then have "finish_rle s = Some (b @ stream (ps @ [Lits ls]))"
      using set_hdr[of "b @ stream ps"] f(3) by (simp add: finish_rle_def f(1,2) d)
    then show ?thesis using s(1) f False
      by (auto simp: makerle_def s0_def[symmetric] intro!: exI[of _ "ps @ [Lits ls]"])
  qed
qed

end

section \<open>The decoder\<close>

lemma at_split: "at pre (xs @ ys) post k = at pre xs (ys @ post) k" by (simp add: at_def)
lemma at_next: "at pre xs (ys @ post) (length xs) = at (pre @ xs) ys post 0" by (simp add: at_def)

lemma get_first: "get (at pre (x # xs) post 0) = Some (ucast x, at (pre @ [x]) xs post 0)"
  using get_at[of 0 "x # xs" pre post] by (simp add: at_def)

lemma header_value:
  assumes "0 \<le> v" "v < 256"
  shows "unat (ucast (word_of_int v :: byte) :: 32 word) = nat v"
proof -
  have "uint (word_of_int v :: byte) = v" using assms by (simp add: uint_word_of_int)
  then show ?thesis using assms
    by (simp add: unsigned_ucast_eq nat_eq_iff flip: nat_uint_eq) (simp add: take_bit_int_eq_self)
qed

locale literal_codec = literal_maker mk good
  for mk :: "termline \<Rightarrow> nat \<Rightarrow> 32 word \<Rightarrow> literal" and good :: "termline \<Rightarrow> bool" +
  fixes rd :: "nat \<Rightarrow> 32 word \<Rightarrow> termline \<Rightarrow> rbuf \<Rightarrow> reading"
    and ok :: "termline \<Rightarrow> nat \<Rightarrow> termline \<Rightarrow> bool"
  assumes rd_mk: "good src \<Longrightarrow> i < cols src \<Longrightarrow> ok src i l \<Longrightarrow> mk src i st = Some (lit, st') \<Longrightarrow>
      \<exists>l'. rd i st l (at pre lit post 0) = Some (l', st', at pre lit post (length lit)) \<and> ok src (Suc i) l'"
    and ok_cols: "ok src i l \<Longrightarrow> cols l = cols src"
begin

lemma read_literals_ok:
  assumes "good src" "ok src i l" "literals (mk src) i (length ls) st = Some (ls, st')" "i + length ls \<le> cols src"
  shows "\<exists>l'. read_literals rd (cols src) (length ls) i st l (at pre (concat ls) post 0)
      = Some (l', st', at pre (concat ls) post (length (concat ls))) \<and> ok src (i + length ls) l'"
  using assms
proof (induction ls arbitrary: i l st pre)
  case (Cons x xs)
  obtain st1 where x: "mk src i st = Some (x, st1)" "literals (mk src) (i + 1) (length xs) st1 = Some (xs, st')"
    using Cons.prems(3) by (auto split: option.splits)
  obtain l1 where l1: "rd i st l (at pre x (concat xs @ post) 0) = Some (l1, st1, at pre x (concat xs @ post) (length x))"
      "ok src (i + 1) l1"
    using rd_mk[OF Cons.prems(1) _ Cons.prems(2) x(1)] Cons.prems(4) by fastforce
  obtain l' where l': "read_literals rd (cols src) (length xs) (i + 1) st1 l1 (at (pre @ x) (concat xs) post 0)
      = Some (l', st', at (pre @ x) (concat xs) post (length (concat xs)))" "ok src (i + 1 + length xs) l'"
    using Cons.IH[OF Cons.prems(1) l1(2) x(2), of "pre @ x"] Cons.prems(4) by auto
  have "at (pre @ x) (concat xs) post (length (concat xs)) = at pre (concat (x # xs)) post (length (concat (x # xs)))"
    by (simp add: at_def)
  then show ?case using l1(1) l' Cons.prems(4) by (simp add: at_split at_next)
qed simp

lemma read_run_ok:
  assumes "good src" "ok src i l" "literals (mk src) i k st = Some (replicate k lit, st')" "i + k \<le> cols src"
    and "b = at pre lit post 0 \<or> b = at pre lit post (length lit)"
  shows "\<exists>l'. read_run rd (cols src) (length pre) k i st l b
      = Some (l', st', if k = 0 then b else at pre lit post (length lit)) \<and> ok src (i + k) l'"
  using assms
proof (induction k arbitrary: i l st b)
  case (Suc k)
  obtain st1 where x: "mk src i st = Some (lit, st1)" "literals (mk src) (i + 1) k st1 = Some (replicate k lit, st')"
    using Suc.prems(3) by (auto split: option.splits)
  obtain l1 where l1: "rd i st l (at pre lit post 0) = Some (l1, st1, at pre lit post (length lit))" "ok src (i + 1) l1"
    using rd_mk[OF Suc.prems(1) _ Suc.prems(2) x(1)] Suc.prems(4) by fastforce
  obtain l' where l': "read_run rd (cols src) (length pre) k (i + 1) st1 l1 (at pre lit post (length lit))
      = Some (l', st', at pre lit post (length lit))" "ok src (i + 1 + k) l'"
    using Suc.IH[OF Suc.prems(1) l1(2) x(2), of "at pre lit post (length lit)"] Suc.prems(4) by auto
  have "b\<lparr>rlen := length pre\<rparr> = at pre lit post 0" using Suc.prems(5) by (auto simp: at_def)
  then show ?case using l1(1) l' Suc.prems(4) by simp
qed simp

lemma readrle_loop_ok:
  assumes "good src" "list_all packet_ok ps" "ok src i l"
    "literals (mk src) i (length (lits ps)) st = Some (lits ps, st')" "i + length (lits ps) = cols src"
  shows "\<exists>l'. readrle_loop rd (cols src) i st l (at pre (stream ps) post 0)
      = Some (l', at pre (stream ps) post (length (stream ps))) \<and> ok src (cols src) l'"
  using assms
proof (induction ps arbitrary: i l st pre)
  case Nil
  then show ?case by (subst readrle_loop.simps) simp
next
  case (Cons p ps)
  define k where "k = length (packet_lits p)"
  have k: "0 < k" using Cons.prems(2) by (cases p) (auto simp: k_def)
  obtain st1 where s: "literals (mk src) i k st = Some (packet_lits p, st1)"
      "literals (mk src) (i + k) (length (lits ps)) st1 = Some (lits ps, st')"
    using literals_split[of "mk src" i "length (lits (p # ps))" st "packet_lits p" "lits ps" st'] Cons.prems(4) by (auto simp: k_def)
  obtain h body where hb: "packet_bytes p = h # body" by (cases p) auto
  let ?b = "at (pre @ [h]) body (stream ps @ post) 0" and ?e = "at (pre @ [h] @ body) (stream ps) post 0"
  have e: "at (pre @ [h]) body (stream ps @ post) (length body) = ?e" by (simp add: at_next)
  define hv where "hv = (ucast h :: 32 word)"
  have "\<exists>l1. (if hv \<ge> 0x80 then unat hv + 2 - 0x80 else unat hv + 1) = k
      \<and> (if hv \<ge> 0x80 then read_run rd (cols src) (length (pre @ [h])) k i st l ?b
         else read_literals rd (cols src) k i st l ?b) = Some (l1, st1, ?e) \<and> ok src (i + k) l1"
  proof (cases p)
    case (Lits ls)
    have v: "unat hv = length ls - 1" "length ls - 1 < 128"
      using header_value[of "int (length ls) - 1"] Cons.prems(2) hb by (auto simp: Lits hv_def nat_diff_distrib)
    then have "\<not> hv \<ge> 0x80" by (simp add: word_le_nat_alt)
    moreover have "body = concat ls" "k = length ls" using hb by (simp_all add: Lits k_def)
    ultimately show ?thesis
      using read_literals_ok[OF Cons.prems(1,3), of ls st st1 "pre @ [h]" "stream ps @ post"] s(1) v(1) k Cons.prems(5) e
      by (auto simp: Lits k_def)
  next
    case (Run m lit)
    have m: "2 \<le> m" "m \<le> 129" "k = m" "body = lit" "h = word_of_int (int m + 0x80 - 2)"
      using Cons.prems(2) hb by (auto simp: Run k_def)
    have v: "unat hv = m + 126" using header_value[of "int m + 126"] m by (simp add: hv_def nat_add_distrib add.commute)
    then have "hv \<ge> 0x80" using m(1) by (simp add: word_le_nat_alt)
    then show ?thesis
      using read_run_ok[OF Cons.prems(1,3), of m st lit st1 ?b "pre @ [h]" "stream ps @ post"] s(1) v m Cons.prems(5) e
      by (auto simp: Run k_def)
  qed
  then obtain l1 where l1: "(if hv \<ge> 0x80 then unat hv + 2 - 0x80 else unat hv + 1) = k"
      "(if hv \<ge> 0x80 then read_run rd (cols src) (length (pre @ [h])) k i st l ?b
         else read_literals rd (cols src) k i st l ?b) = Some (l1, st1, ?e)" "ok src (i + k) l1" by blast
  have i: "i < cols src" using Cons.prems(5) k unfolding k_def lits_append length_append by linarith
  have g: "get (at pre (stream (p # ps)) post 0) = Some (hv, ?b)"
    using get_first[of pre h "body @ stream ps" post] by (simp add: hb hv_def at_split)
  have r: "rlen ?b = length (pre @ [h])" by (simp add: at_def)
  have step: "readrle_loop rd (cols src) i st l (at pre (stream (p # ps)) post 0) = readrle_loop rd (cols src) (i + k) st1 l1 ?e"
    by (subst readrle_loop.simps) (simp only: i if_True g option.case prod.case Let_def l1(1) r l1(2))
  obtain l' where "readrle_loop rd (cols src) (i + k) st1 l1 ?e
      = Some (l', at (pre @ [h] @ body) (stream ps) post (length (stream ps)))" "ok src (cols src) l'"
    using Cons.IH[OF Cons.prems(1) _ l1(3) s(2), of "pre @ [h] @ body"] Cons.prems(2,5) by (auto simp: k_def)
  moreover have "at (pre @ [h] @ body) (stream ps) post (length (stream ps))
      = at pre (stream (p # ps)) post (length (stream (p # ps)))"
    by (simp add: at_def hb)
  ultimately show ?case using step by simp
qed

lemma readrle_makerle:
  assumes "good src"
  shows "\<exists>enc. makerle b (cols src) (mk src) = Some (b @ enc)
    \<and> (\<forall>l pre post. ok src 0 l \<longrightarrow> (\<exists>l'. readrle rd l (at pre enc post 0) = Some (l', at pre enc post (length enc))
          \<and> ok src (cols src) l'))"
proof -
  obtain ps st where p: "makerle b (cols src) (mk src) = Some (b @ stream ps)" "list_all packet_ok ps"
      "literals (mk src) 0 (cols src) 0 = Some (lits ps, st)"
    using makerle_packets[OF assms] by blast
  show ?thesis
    using p readrle_loop_ok[OF assms p(2), of 0 _ 0 st] literals_length[OF p(3)]
    by (intro exI[of _ "stream ps"]) (simp add: readrle_def ok_cols)
qed

end

end
