(* ===== verification/Termline_Props.thy ===== *)
theory Termline_Props
  imports Termline_CC Termline_Rle
begin

text \<open>
  The three kinds of literals of compressed lines as instances of the codec, and the round
  trip of \<open>compressline\<close> and \<open>decompressline\<close>.
\<close>

unbundle bit_operations_syntax

section \<open>Numbers\<close>

lemma high_bit:
  assumes "n < 256"
  shows "(ucast (of_nat n :: byte) :: 32 word) AND 0x80 \<noteq> 0 \<longleftrightarrow> 128 \<le> n" "unat (ucast (of_nat n :: byte) :: 32 word) = n"
proof -
  have u: "unat (ucast (word_of_int (int n) :: byte) :: 32 word) = n" using header_value[of "int n"] assms by simp
  then show "unat (ucast (of_nat n :: byte) :: 32 word) = n" by simp
  then have e: "(ucast (of_nat n :: byte) :: 32 word) = of_nat n" by (metis of_nat_unat ucast_id)
  have "bit (of_nat n :: 32 word) 7 \<longleftrightarrow> odd (n div 128)" by (simp only: bit_of_nat_iff possible_bit_word bit_iff_odd[of n 7]) simp
  also have "\<dots> \<longleftrightarrow> 128 \<le> n"
  proof (cases "128 \<le> n")
    case True
    then have "n div 128 = 1" using assms by simp
    then show ?thesis using True by simp
  qed simp
  finally show "(ucast (of_nat n :: byte) :: 32 word) AND 0x80 \<noteq> 0 \<longleftrightarrow> 128 \<le> n"
    using and_exp_eq_0_iff_not_bit[of "of_nat n :: 32 word" 7] by (simp add: e)
qed

lemma get_number_put:
  "get_number acc shift (at pre (put_number n) post 0)
    = Some (acc + n * 2 ^ shift, at pre (put_number n) post (length (put_number n)))"
proof (induction n arbitrary: acc shift pre rule: put_number.induct)
  case (1 n)
  show ?case
  proof (cases "n \<ge> 128")
    case True
    define b :: byte where "b = of_nat (n mod 128 + 128)"
    have p: "put_number n = b # put_number (n div 128)" using True by (subst put_number.simps) (simp add: b_def)
    have b: "unat (ucast b :: 32 word) mod 128 = n mod 128" "(ucast b :: 32 word) AND 0x80 \<noteq> 0"
      using high_bit[of "n mod 128 + 128"] by (simp_all add: b_def)
    have "acc + (n mod 128) * 2 ^ shift + (n div 128) * 2 ^ (shift + 7) = acc + n * 2 ^ shift"
    proof -
      have "n * 2 ^ shift = (128 * (n div 128) + n mod 128) * 2 ^ shift" by simp
      also have "\<dots> = (n mod 128) * 2 ^ shift + (n div 128) * 2 ^ (shift + 7)"
        unfolding add_mult_distrib power_add by simp
      finally show ?thesis by simp
    qed
    moreover have "get_number (acc + (n mod 128) * 2 ^ shift) (shift + 7) (at (pre @ [b]) (put_number (n div 128)) post 0)
      = Some (acc + (n mod 128) * 2 ^ shift + (n div 128) * 2 ^ (shift + 7),
          at (pre @ [b]) (put_number (n div 128)) post (length (put_number (n div 128))))"
      using 1 True by simp
    moreover have "at (pre @ [b]) (put_number (n div 128)) post (length (put_number (n div 128)))
      = at pre (put_number n) post (length (put_number n))" by (simp add: at_def p)
    ultimately show ?thesis
      unfolding p by (subst get_number.simps) (simp add: get_first Let_def b)
  next
    case False
    then have p: "put_number n = [of_nat n]" by (subst put_number.simps) simp
    show ?thesis
      unfolding p using high_bit[of n] False at_next[of pre "[of_nat n]" "[]" post]
      by (subst get_number.simps) (simp add: get_first Let_def)
  qed
qed

section \<open>The three kinds of literals\<close>

lemma pack_less:
  assumes "a < 0x80000000"
  shows "pack_attr a < 0x80000000"
proof -
  have "take_bit 31 (pack_attr a) = pack_attr a"
    by (rule bit_word_eqI) (auto simp: bit_take_bit_iff pack_bits dest: limits(5)[OF assms])
  then have "take_bit 31 (uint (pack_attr a)) = uint (pack_attr a)" by (metis unsigned_take_bit_eq)
  then have "uint (pack_attr a) < 2 ^ 31" by (metis take_bit_int_less_exp)
  then show ?thesis by (simp add: word_less_def)
qed

definition compressible :: "termline \<Rightarrow> bool" where
  "compressible l \<longleftrightarrow> line_ok l \<and> (\<forall>i < cols l. attr (chars l ! i) < 0x80000000 \<and> 0 \<notin> set (cell_ccs l i))"

text \<open>How far the decoded line agrees with the source after \<open>i\<close> cells of each pass.\<close>

definition chr_done :: "termline \<Rightarrow> nat \<Rightarrow> termline \<Rightarrow> bool" where
  "chr_done src i l \<longleftrightarrow> cols l = cols src \<and> length (chars l) = cols src \<and> cc_free l = 0 \<and> lattr l = lattr src
     \<and> (\<forall>t \<in> set (chars l). cc_next t = 0) \<and> i \<le> cols src \<and> (\<forall>j < i. chr (chars l ! j) = chr (chars src ! j))"

definition attr_done :: "termline \<Rightarrow> nat \<Rightarrow> termline \<Rightarrow> bool" where
  "attr_done src i l \<longleftrightarrow> chr_done src (cols src) l \<and> i \<le> cols src \<and> (\<forall>j < i. attr (chars l ! j) = attr (chars src ! j))"

definition cc_done :: "termline \<Rightarrow> nat \<Rightarrow> termline \<Rightarrow> bool" where
  "cc_done src i l \<longleftrightarrow> line_ok l \<and> cols l = cols src \<and> lattr l = lattr src
     \<and> cells l = map (\<lambda>j. if j < i then cell src j else clear_acc (cell src j)) [0..<cols src]"

lemma compressible_bound: "compressible src \<Longrightarrow> i < cols src \<Longrightarrow> i < length (chars src)"
  by (auto simp: compressible_def line_ok_def dest: chains_cols)

interpretation chr_codec: literal_codec makeliteral_chr compressible readliteral_chr chr_done
proof
  fix src i st assume "compressible src" "i < cols src"
  then have i: "i < length (chars src)" by (rule compressible_bound)
  obtain lit st' where "put_chr (chr (chars src ! i)) st = (lit, st')" by (cases "put_chr (chr (chars src ! i)) st")
  then show "\<exists>lit st'. makeliteral_chr src i st = Some (lit, st') \<and> lit \<noteq> []"
    using i get_chr_put(2) by (auto simp: makeliteral_chr_def)
next
  fix src i l st lit st' pre post
  assume "compressible src" and i: "i < cols src" and ok: "chr_done src i l" and m: "makeliteral_chr src i st = Some (lit, st')"
  then have "put_chr (chr (chars src ! i)) st = (lit, st')" by (auto simp: makeliteral_chr_def split: if_splits)
  from get_chr_put(1)[OF this, of pre post]
  have "readliteral_chr i st l (at pre lit post 0)
      = Some (upd_char i (\<lambda>t. t\<lparr>chr := chr (chars src ! i)\<rparr>) l, st', at pre lit post (length lit))"
    by (simp add: readliteral_chr_def)
  moreover have "chr_done src (Suc i) (upd_char i (\<lambda>t. t\<lparr>chr := chr (chars src ! i)\<rparr>) l)"
    using ok i by (auto simp: chr_done_def upd_char_def nth_list_update less_Suc_eq dest!: in_set_conv_nth[THEN iffD1])
  ultimately show "\<exists>l'. readliteral_chr i st l (at pre lit post 0) = Some (l', st', at pre lit post (length lit)) \<and> chr_done src (Suc i) l'"
    by blast
next
  fix src i l assume "chr_done src i l"
  then show "cols l = cols src" by (simp add: chr_done_def)
qed

interpretation attr_codec: literal_codec makeliteral_attr compressible readliteral_attr attr_done
proof
  fix src i st assume "compressible src" "i < cols src"
  then have i: "i < length (chars src)" by (rule compressible_bound)
  then show "\<exists>lit st'. makeliteral_attr src i st = Some (lit, st') \<and> lit \<noteq> []"
    by (auto simp: makeliteral_attr_def put_attr_def)
next
  fix src i l st lit st' pre post
  assume c: "compressible src" and i: "i < cols src" and ok: "attr_done src i l" and m: "makeliteral_attr src i st = Some (lit, st')"
  have a: "attr (chars src ! i) < 0x80000000" using c i by (simp add: compressible_def)
  have "pack_attr (attr (chars src ! i)) < 0x80000000" by (rule pack_less[OF a])
  note g = get_attr_put(1)[OF this, of pre post]
  have "lit = put_attr (pack_attr (attr (chars src ! i)))" "st' = st" using m by (auto simp: makeliteral_attr_def split: if_splits)
  then have "readliteral_attr i st l (at pre lit post 0)
      = Some (upd_char i (\<lambda>t. t\<lparr>attr := attr (chars src ! i)\<rparr>) l, st', at pre lit post (length lit))"
    using g pack_unpack[OF a] by (simp add: readliteral_attr_def)
  moreover have "attr_done src (Suc i) (upd_char i (\<lambda>t. t\<lparr>attr := attr (chars src ! i)\<rparr>) l)"
    using ok i by (auto simp: attr_done_def chr_done_def upd_char_def nth_list_update less_Suc_eq dest!: in_set_conv_nth[THEN iffD1])
  ultimately show "\<exists>l'. readliteral_attr i st l (at pre lit post 0) = Some (l', st', at pre lit post (length lit)) \<and> attr_done src (Suc i) l'"
    by blast
next
  fix src i l assume "attr_done src i l"
  then show "cols l = cols src" by (simp add: attr_done_def chr_done_def)
qed

lemma read_ccs_put:
  "put_ccs xs = Some bs \<Longrightarrow> line_ok l \<Longrightarrow> i < cols l \<Longrightarrow>
   \<exists>l'. read_ccs junk i l (at pre bs post 0) = Some (l', at pre bs post (length bs)) \<and> line_ok l' \<and> same_but_cells l l'
     \<and> cells l' = (cells l)[i := (chr (chars l ! i), attr (chars l ! i), cell_ccs l i @ xs)]"
proof (induction xs arbitrary: bs l pre)
  case Nil
  obtain st' where "put_chr 0 0 = (bs, st')" using Nil(1) by (cases "put_chr 0 0") simp
  then show ?case
    using get_chr_put(1)[of 0 0 bs st' pre post] Nil
    by (subst read_ccs.simps) (auto simp: same_but_cells_def cell_def[symmetric] intro!: nth_equalityI[symmetric] simp: nth_list_update)
next
  case (Cons c xs)
  obtain b1 s1 where b1: "put_chr c 0 = (b1, s1)" by (cases "put_chr c 0")
  then obtain b2 where b2: "c \<noteq> 0" "put_ccs xs = Some b2" "bs = b1 @ b2" using Cons.prems(1) by (auto split: if_splits)
  obtain l1 where l1: "add_cc junk l i c = Some l1" "line_ok l1" "same_but_cells l l1"
    "cells l1 = (cells l)[i := (chr (chars l ! i), attr (chars l ! i), cell_ccs l i @ [c])]"
    using add_cc_ok[OF Cons.prems(2,3)] by blast
  have i1: "i < cols l1" using l1(3) Cons.prems(3) by (simp add: same_but_cells_def)
  have c1: "cell l1 i = (chr (chars l ! i), attr (chars l ! i), cell_ccs l i @ [c])"
    using l1(4) i1 Cons.prems(3) nth_cells[of i l1] by (metis length_cells nth_list_update_eq)
  obtain l' where l': "read_ccs junk i l1 (at (pre @ b1) b2 post 0) = Some (l', at (pre @ b1) b2 post (length b2))" "line_ok l'"
    "same_but_cells l1 l'" "cells l' = (cells l1)[i := (chr (chars l1 ! i), attr (chars l1 ! i), cell_ccs l1 i @ xs)]"
    using Cons.IH[OF b2(2) l1(2) i1] by blast
  have g: "get_chr 0 (at pre bs post 0) = Some (c, s1, at (pre @ b1) b2 post 0)"
    using get_chr_put(1)[OF b1, of pre "b2 @ post"] by (simp add: b2(3) at_split at_next)
  have e: "at (pre @ b1) b2 post (length b2) = at pre bs post (length bs)" by (simp add: at_def b2(3))
  have "read_ccs junk i l (at pre bs post 0) = Some (l', at pre bs post (length bs))"
    by (subst read_ccs.simps) (simp add: g b2(1) l1(1) l'(1) e)
  then show ?case using l' l1 c1 by (auto simp: same_but_cells_def cell_def)
qed

lemma put_ccs_total: "0 \<notin> set xs \<Longrightarrow> \<exists>bs. put_ccs xs = Some bs \<and> bs \<noteq> []"
proof (induction xs)
  case Nil
  then show ?case using get_chr_put(2)[of 0 0] by (cases "put_chr 0 0") auto
next
  case (Cons c xs)
  then obtain bs where "put_ccs xs = Some bs" "bs \<noteq> []" by auto
  then show ?case using Cons.prems by auto
qed

lemma compressible_ccs:
  assumes "compressible src" "i < cols src"
  shows "cc_chars (length (chars src)) (chars src) i = Some (cell_ccs src i)" "0 \<notin> set (cell_ccs src i)"
proof -
  obtain ch fr where "chains src ch fr" using assms(1) by (auto simp: compressible_def line_ok_def)
  then show "cc_chars (length (chars src)) (chars src) i = Some (cell_ccs src i)" using chains_chars[OF _ assms(2)] by metis
  show "0 \<notin> set (cell_ccs src i)" using assms by (simp add: compressible_def)
qed

lemma empty_list:
  assumes "line_ok l" "i < cols l" "cell_ccs l i = []"
  shows "upd_char i (\<lambda>t. t\<lparr>cc_next := 0\<rparr>) l = l"
proof -
  obtain ch fr where c: "chains l ch fr" using assms(1) by (auto simp: line_ok_def)
  have "ch i = []" using chains_chars(2)[OF c assms(2)] assms(3) by simp
  then have "cc_next (chars l ! i) = 0" using chains_path[OF c assms(2)] by simp
  then have "(chars l ! i)\<lparr>cc_next := 0\<rparr> = chars l ! i" by simp
  then show ?thesis by (simp add: upd_char_def)
qed

interpretation cc_codec: literal_codec makeliteral_cc compressible "readliteral_cc junk" cc_done for junk
proof
  fix src i st assume "compressible src" "i < cols src"
  note c = compressible_ccs[OF this]
  show "\<exists>lit st'. makeliteral_cc src i st = Some (lit, st') \<and> lit \<noteq> []"
    using put_ccs_total[OF c(2)] by (auto simp: makeliteral_cc_def c(1))
next
  fix src i l st lit st' pre post
  assume co: "compressible src" and i: "i < cols src" and ok: "cc_done src i l" and m: "makeliteral_cc src i st = Some (lit, st')"
  note c = compressible_ccs[OF co i]
  have l: "line_ok l" "i < cols l" using ok i by (auto simp: cc_done_def)
  have p: "put_ccs (cell_ccs src i) = Some lit" "st' = st" using m by (auto simp: makeliteral_cc_def c(1))
  have "cells l ! i = clear_acc (cell src i)" using ok i by (simp add: cc_done_def)
  then have e: "cell l i = (chr (chars src ! i), attr (chars src ! i), [])" using l(2) by (simp add: clear_acc_def cell_def)
  then have u: "upd_char i (\<lambda>t. t\<lparr>cc_next := 0\<rparr>) l = l" using empty_list[OF l] by (simp add: cell_def)
  obtain l' where l': "read_ccs junk i l (at pre lit post 0) = Some (l', at pre lit post (length lit))" "line_ok l'"
    "same_but_cells l l'" "cells l' = (cells l)[i := (chr (chars l ! i), attr (chars l ! i), cell_ccs l i @ cell_ccs src i)]"
    using read_ccs_put[OF p(1) l] by blast
  have "cells l' = (cells l)[i := cell src i]" using l'(4) e by (simp add: cell_def)
  then have "cells l' = map (\<lambda>j. if j < Suc i then cell src j else clear_acc (cell src j)) [0..<cols src]"
    using ok i by (auto simp: cc_done_def less_Suc_eq nth_list_update intro!: nth_equalityI)
  then have "cc_done src (Suc i) l'" using ok l' by (auto simp: cc_done_def same_but_cells_def)
  moreover have "readliteral_cc junk i st l (at pre lit post 0) = Some (l', st', at pre lit post (length lit))"
    by (simp add: readliteral_cc_def u l'(1) p(2))
  ultimately show "\<exists>l'. readliteral_cc junk i st l (at pre lit post 0) = Some (l', st', at pre lit post (length lit)) \<and> cc_done src (Suc i) l'"
    by blast
next
  fix src i l assume "cc_done src i l"
  then show "cols l = cols src" by (simp add: cc_done_def)
qed

section \<open>Whole lines\<close>

lemma compressline_stored:
  assumes "line_ok l" "\<forall>i < cols l. attr (chars l ! i) < 0x80000000 \<and> 0 \<notin> set (cell_ccs l i)"
  shows "\<exists>bytes l'. compressline l = Some bytes
    \<and> decompressline junk junk_lattr (Some (bytes @ rest)) = Some (l', length bytes)
    \<and> line_ok l' \<and> cols l' = cols l \<and> lattr l' = lattr l \<and> cells l' = cells l"
proof -
  let ?n = "cols l"
  have good: "compressible l" using assms by (simp add: compressible_def)
  define p where "p = put_number ?n @ put_number (unat (lattr l))"
  obtain e1 where e1: "makerle p ?n (makeliteral_chr l) = Some (p @ e1)"
    "\<And>m pre post. chr_done l 0 m \<Longrightarrow> \<exists>l'. readrle readliteral_chr m (at pre e1 post 0) = Some (l', at pre e1 post (length e1)) \<and> chr_done l ?n l'"
    using chr_codec.readrle_makerle[OF good] by blast
  obtain e2 where e2: "makerle (p @ e1) ?n (makeliteral_attr l) = Some ((p @ e1) @ e2)"
    "\<And>m pre post. attr_done l 0 m \<Longrightarrow> \<exists>l'. readrle readliteral_attr m (at pre e2 post 0) = Some (l', at pre e2 post (length e2)) \<and> attr_done l ?n l'"
    using attr_codec.readrle_makerle[OF good] by blast
  obtain e3 where e3: "makerle ((p @ e1) @ e2) ?n (makeliteral_cc l) = Some (((p @ e1) @ e2) @ e3)"
    "\<And>m pre post. cc_done l 0 m \<Longrightarrow> \<exists>l'. readrle (readliteral_cc junk) m (at pre e3 post 0) = Some (l', at pre e3 post (length e3)) \<and> cc_done l ?n l'"
    using cc_codec.readrle_makerle[OF good] by blast
  define bytes where "bytes = p @ e1 @ e2 @ e3"
  have c: "compressline l = Some bytes"
    using e1(1) e2(1) e3(1) by (simp add: compressline_def Let_def p_def[symmetric] bytes_def)
  define m0 where "m0 = \<lparr>lattr = lattr l, cols = ?n, temporary = True, cc_free = 0,
      chars = map (\<lambda>i. (junk i)\<lparr>cc_next := 0\<rparr>) [0..<?n]\<rparr>"
  have "chr_done l 0 m0" by (auto simp: chr_done_def m0_def)
  then obtain m1 where m1: "readrle readliteral_chr m0 (at p e1 (e2 @ e3 @ rest) 0) = Some (m1, at p e1 (e2 @ e3 @ rest) (length e1))" "chr_done l ?n m1"
    using e1(2) by blast
  then have "attr_done l 0 m1" by (simp add: attr_done_def)
  then obtain m2 where m2: "readrle readliteral_attr m1 (at (p @ e1) e2 (e3 @ rest) 0) = Some (m2, at (p @ e1) e2 (e3 @ rest) (length e2))" "attr_done l ?n m2"
    using e2(2) by blast
  have "cc_done l 0 m2"
  proof -
    have f: "cols m2 = length (chars m2)" "cc_free m2 = 0" "\<forall>t \<in> set (chars m2). cc_next t = 0" "cols m2 = ?n" "lattr m2 = lattr l"
      "\<forall>j < ?n. chr (chars m2 ! j) = chr (chars l ! j) \<and> attr (chars m2 ! j) = attr (chars l ! j)"
      using m2(2) by (auto simp: attr_done_def chr_done_def)
    have "cells m2 = map (\<lambda>j. clear_acc (cell l j)) [0..<?n]"
      using fresh_line(2)[OF f(1-3)] f(1,4,6) by (auto simp: clear_acc_def cell_def intro!: nth_equalityI)
    then show ?thesis using fresh_line(1)[OF f(1-3)] f(4,5) by (simp add: cc_done_def)
  qed
  then obtain m3 where m3: "readrle (readliteral_cc junk) m2 (at (p @ e1 @ e2) e3 rest 0) = Some (m3, at (p @ e1 @ e2) e3 rest (length e3))" "cc_done l ?n m3"
    using e3(2) by blast
  let ?q = "put_number (unat (lattr l))"
  have n1: "get_number 0 0 \<lparr>rdata = bytes @ rest, rlen = 0\<rparr> = Some (?n, at (put_number ?n) ?q (e1 @ e2 @ e3 @ rest) 0)"
    using get_number_put[of 0 0 "[]" ?n "?q @ e1 @ e2 @ e3 @ rest"] by (simp add: at_next) (simp add: at_def bytes_def p_def)
  have n2: "get_number 0 0 (at (put_number ?n) ?q (e1 @ e2 @ e3 @ rest) 0) = Some (unat (lattr l), at p e1 (e2 @ e3 @ rest) 0)"
    using get_number_put[of 0 0 "put_number ?n" "unat (lattr l)"] by (simp add: at_next p_def)
  have "decompressline junk junk_lattr (Some (bytes @ rest)) = Some (m3, length bytes)"
    using m1(1) m2(1) m3(1)
    by (simp add: decompressline_def n1 n2 Let_def m0_def[symmetric] at_next) (simp add: at_def bytes_def p_def)
  moreover have "line_ok m3" "cols m3 = ?n" "lattr m3 = lattr l" "cells m3 = cells l"
    using m3(2) by (auto simp: cc_done_def cells_def)
  ultimately show ?thesis using c by blast
qed

text \<open>
  Claim C13: a line survives the scrollback.  Compressing a line whose lists of combining
  characters are intact never fails an assertion, and decompressing the bytes, whatever
  follows them in memory, uses exactly these bytes and gives a line with intact lists, of the
  same width and line attributes, with the same characters, attributes and combining
  characters in every cell.  The attributes must be below \<open>2 ^ 31\<close> and no combining character
  may be 0, which ends the lists of the format.
\<close>

theorem compressline_roundtrip:
  assumes "line_ok l" "\<forall>i < cols l. attr (chars l ! i) < 0x80000000 \<and> 0 \<notin> set (cell_ccs l i)"
  shows "\<exists>bytes l'. compressline l = Some bytes
    \<and> decompressline junk junk_lattr (Some (bytes @ rest)) = Some (l', length bytes)
    \<and> line_ok l' \<and> cols l' = cols l \<and> lattr l' = lattr l \<and> cells l' = cells l"
  by (rule compressline_stored[OF assms])

theorem compressline_roundtrip_witness:
  "\<exists>bytes l'. compressline accented = Some bytes
     \<and> decompressline (\<lambda>_. \<lparr>chr = 0, attr = 0, cc_next = 0\<rparr>) 0 (Some (bytes @ [1, 2])) = Some (l', length bytes)
     \<and> cells l' = [(101, 7, [0x301, 0x302]), (32, 0, []), (97, 0, [])]"
proof -
  have c: "cols accented = 3" by (simp add: accented_def)
  have s: "cell accented i = [(101, 7, [0x301, 0x302]), (32, 0, []), (97, 0, [])] ! i" if "i < 3" for i
    using nth_cells[of i accented] that by (simp add: c accented_ok(2))
  have "attr (chars accented ! i) < 0x80000000 \<and> 0 \<notin> set (cell_ccs accented i)" if "i < 3" for i
  proof -
    have "i = 0 \<or> i = 1 \<or> i = 2" using that by auto
    then show ?thesis using s[of i] that by (auto simp: cell_def)
  qed
  then show ?thesis
    using compressline_roundtrip[OF accented_ok(1), of "\<lambda>_. \<lparr>chr = 0, attr = 0, cc_next = 0\<rparr>" 0 "[1, 2]"] accented_ok(2)
    by (auto simp: c)
qed

end
