(* ===== verification/Wcwidth.thy ===== *)
theory Wcwidth
  imports Prelude "HOL-Library.Word"
begin

text \<open>
  The column width of a character, after \<open>putty/wcwidth.c\<close>: two sorted tables of intervals
  of code points, the binary search over them, and the two width functions of a character and
  of a string.  A code point is an \<open>unsigned int\<close>; a table index outside the table is the
  result \<open>None\<close> of the search.
\<close>

type_synonym interval = "32 word \<times> 32 word"

definition combining :: "interval list" where
  "combining = [
    (0x0300, 0x036F), (0x0483, 0x0486), (0x0488, 0x0489), (0x0591, 0x05BD), (0x05BF, 0x05BF),
    (0x05C1, 0x05C2), (0x05C4, 0x05C5), (0x05C7, 0x05C7), (0x0600, 0x0603), (0x0610, 0x0615),
    (0x064B, 0x065E), (0x0670, 0x0670), (0x06D6, 0x06E4), (0x06E7, 0x06E8), (0x06EA, 0x06ED),
    (0x070F, 0x070F), (0x0711, 0x0711), (0x0730, 0x074A), (0x07A6, 0x07B0), (0x07EB, 0x07F3),
    (0x0901, 0x0902), (0x093C, 0x093C), (0x0941, 0x0948), (0x094D, 0x094D), (0x0951, 0x0954),
    (0x0962, 0x0963), (0x0981, 0x0981), (0x09BC, 0x09BC), (0x09C1, 0x09C4), (0x09CD, 0x09CD),
    (0x09E2, 0x09E3), (0x0A01, 0x0A02), (0x0A3C, 0x0A3C), (0x0A41, 0x0A42), (0x0A47, 0x0A48),
    (0x0A4B, 0x0A4D), (0x0A70, 0x0A71), (0x0A81, 0x0A82), (0x0ABC, 0x0ABC), (0x0AC1, 0x0AC5),
    (0x0AC7, 0x0AC8), (0x0ACD, 0x0ACD), (0x0AE2, 0x0AE3), (0x0B01, 0x0B01), (0x0B3C, 0x0B3C),
    (0x0B3F, 0x0B3F), (0x0B41, 0x0B43), (0x0B4D, 0x0B4D), (0x0B56, 0x0B56), (0x0B82, 0x0B82),
    (0x0BC0, 0x0BC0), (0x0BCD, 0x0BCD), (0x0C3E, 0x0C40), (0x0C46, 0x0C48), (0x0C4A, 0x0C4D),
    (0x0C55, 0x0C56), (0x0CBC, 0x0CBC), (0x0CBF, 0x0CBF), (0x0CC6, 0x0CC6), (0x0CCC, 0x0CCD),
    (0x0CE2, 0x0CE3), (0x0D41, 0x0D43), (0x0D4D, 0x0D4D), (0x0DCA, 0x0DCA), (0x0DD2, 0x0DD4),
    (0x0DD6, 0x0DD6), (0x0E31, 0x0E31), (0x0E34, 0x0E3A), (0x0E47, 0x0E4E), (0x0EB1, 0x0EB1),
    (0x0EB4, 0x0EB9), (0x0EBB, 0x0EBC), (0x0EC8, 0x0ECD), (0x0F18, 0x0F19), (0x0F35, 0x0F35),
    (0x0F37, 0x0F37), (0x0F39, 0x0F39), (0x0F71, 0x0F7E), (0x0F80, 0x0F84), (0x0F86, 0x0F87),
    (0x0F90, 0x0F97), (0x0F99, 0x0FBC), (0x0FC6, 0x0FC6), (0x102D, 0x1030), (0x1032, 0x1032),
    (0x1036, 0x1037), (0x1039, 0x1039), (0x1058, 0x1059), (0x1160, 0x11FF), (0x135F, 0x135F),
    (0x1712, 0x1714), (0x1732, 0x1734), (0x1752, 0x1753), (0x1772, 0x1773), (0x17B4, 0x17B5),
    (0x17B7, 0x17BD), (0x17C6, 0x17C6), (0x17C9, 0x17D3), (0x17DD, 0x17DD), (0x180B, 0x180D),
    (0x18A9, 0x18A9), (0x1920, 0x1922), (0x1927, 0x1928), (0x1932, 0x1932), (0x1939, 0x193B),
    (0x1A17, 0x1A18), (0x1B00, 0x1B03), (0x1B34, 0x1B34), (0x1B36, 0x1B3A), (0x1B3C, 0x1B3C),
    (0x1B42, 0x1B42), (0x1B6B, 0x1B73), (0x1DC0, 0x1DCA), (0x1DFE, 0x1DFF), (0x200B, 0x200F),
    (0x202A, 0x202E), (0x2060, 0x2063), (0x206A, 0x206F), (0x20D0, 0x20EF), (0x302A, 0x302F),
    (0x3099, 0x309A), (0xA806, 0xA806), (0xA80B, 0xA80B), (0xA825, 0xA826), (0xFB1E, 0xFB1E),
    (0xFE00, 0xFE0F), (0xFE20, 0xFE23), (0xFEFF, 0xFEFF), (0xFFF9, 0xFFFB), (0x10A01, 0x10A03),
    (0x10A05, 0x10A06), (0x10A0C, 0x10A0F), (0x10A38, 0x10A3A), (0x10A3F, 0x10A3F), (0x1D167, 0x1D169),
    (0x1D173, 0x1D182), (0x1D185, 0x1D18B), (0x1D1AA, 0x1D1AD), (0x1D242, 0x1D244), (0xE0001, 0xE0001),
    (0xE0020, 0xE007F), (0xE0100, 0xE01EF)]"

definition ambiguous :: "interval list" where
  "ambiguous = [
    (0x00A1, 0x00A1), (0x00A4, 0x00A4), (0x00A7, 0x00A8), (0x00AA, 0x00AA), (0x00AE, 0x00AE),
    (0x00B0, 0x00B4), (0x00B6, 0x00BA), (0x00BC, 0x00BF), (0x00C6, 0x00C6), (0x00D0, 0x00D0),
    (0x00D7, 0x00D8), (0x00DE, 0x00E1), (0x00E6, 0x00E6), (0x00E8, 0x00EA), (0x00EC, 0x00ED),
    (0x00F0, 0x00F0), (0x00F2, 0x00F3), (0x00F7, 0x00FA), (0x00FC, 0x00FC), (0x00FE, 0x00FE),
    (0x0101, 0x0101), (0x0111, 0x0111), (0x0113, 0x0113), (0x011B, 0x011B), (0x0126, 0x0127),
    (0x012B, 0x012B), (0x0131, 0x0133), (0x0138, 0x0138), (0x013F, 0x0142), (0x0144, 0x0144),
    (0x0148, 0x014B), (0x014D, 0x014D), (0x0152, 0x0153), (0x0166, 0x0167), (0x016B, 0x016B),
    (0x01CE, 0x01CE), (0x01D0, 0x01D0), (0x01D2, 0x01D2), (0x01D4, 0x01D4), (0x01D6, 0x01D6),
    (0x01D8, 0x01D8), (0x01DA, 0x01DA), (0x01DC, 0x01DC), (0x0251, 0x0251), (0x0261, 0x0261),
    (0x02C4, 0x02C4), (0x02C7, 0x02C7), (0x02C9, 0x02CB), (0x02CD, 0x02CD), (0x02D0, 0x02D0),
    (0x02D8, 0x02DB), (0x02DD, 0x02DD), (0x02DF, 0x02DF), (0x0391, 0x03A1), (0x03A3, 0x03A9),
    (0x03B1, 0x03C1), (0x03C3, 0x03C9), (0x0401, 0x0401), (0x0410, 0x044F), (0x0451, 0x0451),
    (0x2010, 0x2010), (0x2013, 0x2016), (0x2018, 0x2019), (0x201C, 0x201D), (0x2020, 0x2022),
    (0x2024, 0x2027), (0x2030, 0x2030), (0x2032, 0x2033), (0x2035, 0x2035), (0x203B, 0x203B),
    (0x203E, 0x203E), (0x2074, 0x2074), (0x207F, 0x207F), (0x2081, 0x2084), (0x20AC, 0x20AC),
    (0x2103, 0x2103), (0x2105, 0x2105), (0x2109, 0x2109), (0x2113, 0x2113), (0x2116, 0x2116),
    (0x2121, 0x2122), (0x2126, 0x2126), (0x212B, 0x212B), (0x2153, 0x2154), (0x215B, 0x215E),
    (0x2160, 0x216B), (0x2170, 0x2179), (0x2190, 0x2199), (0x21B8, 0x21B9), (0x21D2, 0x21D2),
    (0x21D4, 0x21D4), (0x21E7, 0x21E7), (0x2200, 0x2200), (0x2202, 0x2203), (0x2207, 0x2208),
    (0x220B, 0x220B), (0x220F, 0x220F), (0x2211, 0x2211), (0x2215, 0x2215), (0x221A, 0x221A),
    (0x221D, 0x2220), (0x2223, 0x2223), (0x2225, 0x2225), (0x2227, 0x222C), (0x222E, 0x222E),
    (0x2234, 0x2237), (0x223C, 0x223D), (0x2248, 0x2248), (0x224C, 0x224C), (0x2252, 0x2252),
    (0x2260, 0x2261), (0x2264, 0x2267), (0x226A, 0x226B), (0x226E, 0x226F), (0x2282, 0x2283),
    (0x2286, 0x2287), (0x2295, 0x2295), (0x2299, 0x2299), (0x22A5, 0x22A5), (0x22BF, 0x22BF),
    (0x2312, 0x2312), (0x2460, 0x24E9), (0x24EB, 0x254B), (0x2550, 0x2573), (0x2580, 0x258F),
    (0x2592, 0x2595), (0x25A0, 0x25A1), (0x25A3, 0x25A9), (0x25B2, 0x25B3), (0x25B6, 0x25B7),
    (0x25BC, 0x25BD), (0x25C0, 0x25C1), (0x25C6, 0x25C8), (0x25CB, 0x25CB), (0x25CE, 0x25D1),
    (0x25E2, 0x25E5), (0x25EF, 0x25EF), (0x2605, 0x2606), (0x2609, 0x2609), (0x260E, 0x260F),
    (0x2614, 0x2615), (0x261C, 0x261C), (0x261E, 0x261E), (0x2640, 0x2640), (0x2642, 0x2642),
    (0x2660, 0x2661), (0x2663, 0x2665), (0x2667, 0x266A), (0x266C, 0x266D), (0x266F, 0x266F),
    (0x273D, 0x273D), (0x2776, 0x277F), (0xE000, 0xF8FF), (0xFFFD, 0xFFFD), (0xF0000, 0xFFFFD),
    (0x100000, 0x10FFFD)]"

text \<open>The loop of the search, over the indices from \<open>lo\<close> to \<open>hi\<close>.\<close>

function bisearch_loop :: "32 word \<Rightarrow> interval list \<Rightarrow> int \<Rightarrow> int \<Rightarrow> bool option" where
  "bisearch_loop ucs table lo hi =
     (if hi \<ge> lo then
        let mid = (lo + hi) div 2 in
        if mid < 0 \<or> mid \<ge> int (length table) then None
        else if ucs > snd (table ! nat mid) then bisearch_loop ucs table (mid + 1) hi
        else if ucs < fst (table ! nat mid) then bisearch_loop ucs table lo (mid - 1)
        else Some True
      else Some False)"
  by pat_completeness auto
termination
  by (relation "measure (\<lambda>(ucs, table, lo, hi). nat (hi - lo + 1))") auto

declare bisearch_loop.simps [simp del]

definition bisearch :: "32 word \<Rightarrow> interval list \<Rightarrow> bool option" where
  "bisearch ucs table =
     (let max = length table - 1 in
      if table = [] then None
      else if ucs < fst (table ! 0) \<or> ucs > snd (table ! max) then Some False
      else bisearch_loop ucs table 0 (int max))"

text \<open>The wide characters of the last expression of \<open>mk_wcwidth\<close>.\<close>

definition wide_char :: "32 word \<Rightarrow> bool" where
  "wide_char ucs \<longleftrightarrow>
     ucs \<ge> 0x1100 \<and>
     (ucs \<le> 0x115f \<or> ucs = 0x2329 \<or> ucs = 0x232a \<or>
      (ucs \<ge> 0x2e80 \<and> ucs \<le> 0xa4cf \<and> ucs \<noteq> 0x303f) \<or>
      (ucs \<ge> 0xac00 \<and> ucs \<le> 0xd7a3) \<or>
      (ucs \<ge> 0xf900 \<and> ucs \<le> 0xfaff) \<or>
      (ucs \<ge> 0xfe10 \<and> ucs \<le> 0xfe19) \<or>
      (ucs \<ge> 0xfe30 \<and> ucs \<le> 0xfe6f) \<or>
      (ucs \<ge> 0xff00 \<and> ucs \<le> 0xff60) \<or>
      (ucs \<ge> 0xffe0 \<and> ucs \<le> 0xffe6) \<or>
      (ucs \<ge> 0x20000 \<and> ucs \<le> 0x2fffd) \<or>
      (ucs \<ge> 0x30000 \<and> ucs \<le> 0x3fffd))"

definition mk_wcwidth :: "32 word \<Rightarrow> int option" where
  "mk_wcwidth ucs =
     (if ucs = 0 then Some 0
      else if ucs < 32 \<or> (ucs \<ge> 0x7f \<and> ucs < 0xa0) then Some (- 1)
      else case bisearch ucs combining of None \<Rightarrow> None
           | Some found \<Rightarrow> Some (if found then 0 else 1 + (if wide_char ucs then 1 else 0)))"

definition mk_wcwidth_cjk :: "32 word \<Rightarrow> int option" where
  "mk_wcwidth_cjk ucs =
     (case bisearch ucs ambiguous of None \<Rightarrow> None
      | Some found \<Rightarrow> if found then Some 2 else mk_wcwidth ucs)"

text \<open>
  The width of at most \<open>n\<close> characters of a string with its terminating 0; reading beyond the
  end of the list is \<open>None\<close>.
\<close>

fun wcs_loop :: "(32 word \<Rightarrow> int option) \<Rightarrow> 32 word list \<Rightarrow> nat \<Rightarrow> int \<Rightarrow> int option" where
  "wcs_loop wc [] n width = None"
| "wcs_loop wc (p # ps) n width =
     (if p \<noteq> 0 \<and> n > 0 then
        case wc p of None \<Rightarrow> None
        | Some w \<Rightarrow> if w < 0 then Some (- 1) else wcs_loop wc ps (n - 1) (width + w)
      else Some width)"

definition mk_wcswidth :: "32 word list \<Rightarrow> nat \<Rightarrow> int option" where
  "mk_wcswidth ps n = wcs_loop mk_wcwidth ps n 0"

definition mk_wcswidth_cjk :: "32 word list \<Rightarrow> nat \<Rightarrow> int option" where
  "mk_wcswidth_cjk ps n = wcs_loop mk_wcwidth_cjk ps n 0"

section \<open>The search decides the table\<close>

definition in_table :: "32 word \<Rightarrow> interval list \<Rightarrow> bool" where
  "in_table ucs table = list_ex (\<lambda>(a, b). a \<le> ucs \<and> ucs \<le> b) table"

text \<open>Intervals that are not empty and follow each other.\<close>

fun table_ok :: "interval list \<Rightarrow> bool" where
  "table_ok ((a, b) # (c, d) # t) \<longleftrightarrow> a \<le> b \<and> b < c \<and> table_ok ((c, d) # t)"
| "table_ok [(a, b)] \<longleftrightarrow> a \<le> b"
| "table_ok [] \<longleftrightarrow> True"

lemma table_ok_nth: "table_ok t \<Longrightarrow> i < length t \<Longrightarrow> fst (t ! i) \<le> snd (t ! i)"
  by (induction t arbitrary: i rule: table_ok.induct) (auto simp: nth_Cons split: nat.splits)

lemma table_ok_sorted: "table_ok t \<Longrightarrow> i < j \<Longrightarrow> j < length t \<Longrightarrow> snd (t ! i) < fst (t ! j)"
proof (induction t arbitrary: i j rule: table_ok.induct)
  case (1 a b c d t)
  have rest: "snd (((c, d) # t) ! i') < fst (((c, d) # t) ! j')" if "i' < j'" "j' < Suc (length t)" for i' j'
    using 1 that by simp
  obtain j' where j: "j = Suc j'" using 1(3) by (cases j) auto
  show ?case
  proof (cases i)
    case 0
    have "d < fst (((c, d) # t) ! j')" if "j' > 0" using rest[of 0 j'] that 1(4) j by simp
    moreover have "b < c" "c \<le> d" using 1(2) table_ok_nth[of "(c, d) # t" 0] by auto
    ultimately show ?thesis using 0 j by (cases "j' = 0") auto
  next
    case (Suc i')
    then show ?thesis using rest[of i' j'] 1(3,4) j by simp
  qed
qed auto

lemma in_table_nth: "in_table ucs t \<longleftrightarrow> (\<exists>i < length t. fst (t ! i) \<le> ucs \<and> ucs \<le> snd (t ! i))"
  by (auto simp: in_table_def list_ex_length split_beta)

lemma bisearch_loop_spec:
  assumes t: "table_ok table"
  shows "0 \<le> lo \<Longrightarrow> hi < int (length table) \<Longrightarrow>
    (\<And>i. int i < lo \<Longrightarrow> i < length table \<Longrightarrow> snd (table ! i) < ucs) \<Longrightarrow>
    (\<And>i. hi < int i \<Longrightarrow> i < length table \<Longrightarrow> ucs < fst (table ! i)) \<Longrightarrow>
    bisearch_loop ucs table lo hi = Some (in_table ucs table)"
proof (induction "nat (hi - lo + 1)" arbitrary: lo hi rule: less_induct)
  case less
  show ?case
  proof (cases "lo \<le> hi")
    case False
    have "\<not> in_table ucs table"
      unfolding in_table_nth using less(4,5) False by (metis linorder_not_less not_le order_less_le_trans)
    then show ?thesis using False by (simp add: bisearch_loop.simps)
  next
    case True
    define mid where "mid = nat ((lo + hi) div 2)"
    have m: "lo \<le> int mid" "int mid \<le> hi" "mid < length table" "(lo + hi) div 2 = int mid"
      using True less(2,3) by (auto simp: mid_def)
    have ord: "i \<le> mid \<Longrightarrow> snd (table ! i) \<le> snd (table ! mid)" "mid \<le> i \<Longrightarrow> i < length table \<Longrightarrow> fst (table ! mid) \<le> fst (table ! i)" for i
      using table_ok_sorted[OF t, of i mid] table_ok_sorted[OF t, of mid i] table_ok_nth[OF t, of i] table_ok_nth[OF t m(3)] m(3)
      by (cases "i = mid"; force)+
    consider "snd (table ! mid) < ucs" | "\<not> snd (table ! mid) < ucs" "ucs < fst (table ! mid)"
      | "\<not> snd (table ! mid) < ucs" "\<not> ucs < fst (table ! mid)" by blast
    then show ?thesis
    proof cases
      case 1
      have "bisearch_loop ucs table (int mid + 1) hi = Some (in_table ucs table)"
        by (rule less(1)) (use less(2,3,5) m 1 ord(1) in \<open>auto intro: order_le_less_trans\<close>)
      then show ?thesis using True m 1 by (subst bisearch_loop.simps) simp
    next
      case 2
      have "bisearch_loop ucs table lo (int mid - 1) = Some (in_table ucs table)"
        by (rule less(1)) (use less(2,3,4) m 2 ord(2) in \<open>auto intro: order_less_le_trans\<close>)
      then show ?thesis using True m 2 by (subst bisearch_loop.simps) simp
    next
      case 3
      then have "in_table ucs table" unfolding in_table_nth using m(3) by (auto simp: not_less)
      then show ?thesis using True m 3 by (subst bisearch_loop.simps) simp
    qed
  qed
qed

lemma bisearch_spec:
  assumes t: "table_ok table" and "table \<noteq> []"
  shows "bisearch ucs table = Some (in_table ucs table)"
proof -
  let ?m = "length table - 1"
  have n: "0 < length table" using assms(2) by simp
  have "\<not> in_table ucs table" if "ucs < fst (table ! 0) \<or> snd (table ! ?m) < ucs"
  proof
    assume "in_table ucs table"
    then obtain i where i: "i < length table" "fst (table ! i) \<le> ucs" "ucs \<le> snd (table ! i)"
      by (auto simp: in_table_nth)
    have "fst (table ! 0) \<le> ucs"
      using table_ok_sorted[OF t, of 0 i] table_ok_nth[OF t n] i by (cases "i = 0") auto
    moreover have "ucs \<le> snd (table ! ?m)"
    proof (cases "i = ?m")
      case False
      then have "snd (table ! i) < fst (table ! ?m)" using i(1) by (intro table_ok_sorted[OF t]) auto
      also have "\<dots> \<le> snd (table ! ?m)" using n by (intro table_ok_nth[OF t]) simp
      finally show ?thesis using i(3) by simp
    qed (use i in simp)
    ultimately show False using that by auto
  qed
  moreover have "bisearch_loop ucs table 0 (int ?m) = Some (in_table ucs table)"
    by (rule bisearch_loop_spec[OF t]) (use n in auto)
  ultimately show ?thesis using assms(2) by (simp add: bisearch_def Let_def)
qed

lemma combining_ok: "table_ok combining" "combining \<noteq> []"
  by (simp_all add: combining_def)

lemma ambiguous_ok: "table_ok ambiguous" "ambiguous \<noteq> []"
  by (simp_all add: ambiguous_def)

text \<open>
  Claim C39: the widths are what the tables say.  For every 32-bit code point the binary
  searches stay inside the two tables and decide membership in one of their intervals, so that
  \<open>mk_wcwidth\<close> is 0 for the null character and the characters of the combining table, -1 for
  the other control characters, 2 for the wide ranges and 1 otherwise, and \<open>mk_wcwidth_cjk\<close>
  differs from it exactly on the characters of the ambiguous table, which are 2 wide.
\<close>

theorem wcwidth_tables:
  "mk_wcwidth ucs =
     Some (if ucs = 0 then 0
           else if ucs < 32 \<or> (0x7f \<le> ucs \<and> ucs < 0xa0) then - 1
           else if in_table ucs combining then 0
           else if wide_char ucs then 2 else 1)
   \<and> mk_wcwidth_cjk ucs = (if in_table ucs ambiguous then Some 2 else mk_wcwidth ucs)"
  by (simp add: mk_wcwidth_def mk_wcwidth_cjk_def bisearch_spec combining_ok ambiguous_ok)

end
