(* ===== verification/Term_State.thy ===== *)
theory Term_State
  imports Termline Bufchain Wcwidth "HOL-Library.Monad_Syntax"
begin

text \<open>
  The state of the terminal emulator (\<open>struct terminal_tag\<close> of \<open>putty/terminal.h\<close>) and the
  first operations of \<open>putty/terminal.c\<close> on it: fetching a line of the screen, positions, the
  selection, and the timers of the display.

  The fields of the structure are grouped into records.  A record \<open>half\<close> holds what
  \<open>swap_screen\<close> exchanges between the two screens: \<open>curs\<close>, \<open>marg_t\<close>, \<open>dec_om\<close> and so on in
  \<open>now\<close>, the fields \<open>alt_x\<close>, \<open>alt_y\<close>, \<open>alt_t\<close>, \<open>alt_om\<close> and so on in \<open>alt\<close>; \<open>sav\<close> holds
  \<open>savecurs\<close> and the other \<open>save_\<dots>\<close> fields, \<open>alt_sav\<close> the \<open>alt_save_\<dots>\<close> fields.  The trees of
  lines are lists (an unallocated tree is the empty list: an allocated one has at least one
  line), and a line of the scrollback is its compressed bytes.  An \<open>int\<close> of C is an integer,
  wrapped to 32 bits where the host can make it overflow.  The calls to the front end and the
  line discipline are events, in the order in which they are made.  \<open>disptext\<close> and the caches
  of the drawing code are not part of the state.
\<close>

unbundle bit_operations_syntax

section \<open>Constants\<close>

definition CSET_ASCII :: "32 word" where "CSET_ASCII = 0xD800"
definition CSET_LINEDRW :: "32 word" where "CSET_LINEDRW = 0xD900"
definition CSET_SCOACS :: "32 word" where "CSET_SCOACS = 0xDA00"
definition CSET_GBCHR :: "32 word" where "CSET_GBCHR = 0xDB00"
definition UCSERR :: "32 word" where "UCSERR = CSET_LINEDRW OR 0x61"
definition UCSWIDE :: "32 word" where "UCSWIDE = 0xDFFF"
definition DIRECT_CHAR :: "32 word \<Rightarrow> bool" where "DIRECT_CHAR c \<longleftrightarrow> c AND 0xFFFFFC00 = 0xD800"

definition ATTR_BOLD :: "32 word" where "ATTR_BOLD = 0x040000"
definition ATTR_UNDER :: "32 word" where "ATTR_UNDER = 0x080000"
definition ATTR_REVERSE :: "32 word" where "ATTR_REVERSE = 0x100000"
definition ATTR_BLINK :: "32 word" where "ATTR_BLINK = 0x200000"
definition ATTR_FGMASK :: "32 word" where "ATTR_FGMASK = 0x0001FF"
definition ATTR_BGMASK :: "32 word" where "ATTR_BGMASK = 0x03FE00"
definition ATTR_DEFFG :: "32 word" where "ATTR_DEFFG = push_bit ATTR_FGSHIFT 256"
definition ATTR_DEFBG :: "32 word" where "ATTR_DEFBG = push_bit ATTR_BGSHIFT 258"
definition ATTR_DEFAULT :: "32 word" where "ATTR_DEFAULT = ATTR_DEFFG OR ATTR_DEFBG"

definition LATTR_WIDE :: "16 word" where "LATTR_WIDE = 1"
definition LATTR_TOP :: "16 word" where "LATTR_TOP = 2"
definition LATTR_BOT :: "16 word" where "LATTR_BOT = 3"
definition LATTR_MODE :: "16 word" where "LATTR_MODE = 3"
definition LATTR_WRAPPED :: "16 word" where "LATTR_WRAPPED = 0x10"
definition LATTR_WRAPPED2 :: "16 word" where "LATTR_WRAPPED2 = 0x20"

definition CL_ANSIMIN :: "16 word" where "CL_ANSIMIN = 0x0001"
definition CL_VT100 :: "16 word" where "CL_VT100 = 0x0002"
definition CL_VT100AVO :: "16 word" where "CL_VT100AVO = 0x0004"
definition CL_VT102 :: "16 word" where "CL_VT102 = 0x0008"
definition CL_VT220 :: "16 word" where "CL_VT220 = 0x0010"
definition CL_VT320 :: "16 word" where "CL_VT320 = 0x0020"
definition CL_VT420 :: "16 word" where "CL_VT420 = 0x0040"
definition CL_VT510 :: "16 word" where "CL_VT510 = 0x0080"
definition CL_VT340TEXT :: "16 word" where "CL_VT340TEXT = 0x0100"
definition CL_SCOANSI :: "16 word" where "CL_SCOANSI = 0x1000"
definition CL_ANSI :: "16 word" where "CL_ANSI = 0x2000"
definition CL_OTHER :: "16 word" where "CL_OTHER = 0x4000"

definition TM_VT100 :: "16 word" where "TM_VT100 = CL_ANSIMIN OR CL_VT100"
definition TM_VT100AVO :: "16 word" where "TM_VT100AVO = TM_VT100 OR CL_VT100AVO"
definition TM_VT102 :: "16 word" where "TM_VT102 = TM_VT100AVO OR CL_VT102"
definition TM_VT220 :: "16 word" where "TM_VT220 = TM_VT102 OR CL_VT220"
definition TM_VTXXX :: "16 word" where
  "TM_VTXXX = TM_VT220 OR CL_VT340TEXT OR CL_VT510 OR CL_VT420 OR CL_VT320"
definition TM_SCOANSI :: "16 word" where "TM_SCOANSI = CL_ANSIMIN OR CL_SCOANSI"
definition TM_PUTTY :: "16 word" where "TM_PUTTY = 0xFFFF"

definition ARGS_MAX :: nat where "ARGS_MAX = 32"
definition OSC_STR_MAX :: nat where "OSC_STR_MAX = 2048"

text \<open>The value of an integer stored in an \<open>int\<close>.\<close>

definition wrap32 :: "int \<Rightarrow> int" where
  "wrap32 i = (i + 0x80000000) mod 0x100000000 - 0x80000000"

section \<open>The state\<close>

record pos =
  py :: int
  px :: int

definition poslt :: "pos \<Rightarrow> pos \<Rightarrow> bool" where
  "poslt p q \<longleftrightarrow> py p < py q \<or> (py p = py q \<and> px p < px q)"

definition posle :: "pos \<Rightarrow> pos \<Rightarrow> bool" where
  "posle p q \<longleftrightarrow> py p < py q \<or> (py p = py q \<and> px p \<le> px q)"

record half =
  curs :: pos
  marg_t :: int
  marg_b :: int
  dec_om :: bool
  wrap :: bool
  wrapnext :: bool
  insert_mode :: bool
  cset :: nat
  utf :: bool
  sco_acs :: nat

record saved =
  savecurs :: pos
  save_attr :: "32 word"
  save_cset :: nat
  save_csattr :: "32 word"
  save_utf :: bool
  save_wnext :: bool
  save_sco_acs :: nat

record screens =
  screen :: "termline list"
  alt_screen :: "termline list"
  scrollback :: "byte list list"
  tempsblines :: int
  alt_sblines :: int
  disptop :: int
  alt_which :: bool
  scroll_to_end :: bool

record pen =
  default_attr :: "32 word"
  curr_attr :: "32 word"
  basic_erase_char :: termchar
  erase_char :: termchar
  cset_attr :: "32 word list"
  use_bce :: bool

datatype termstate =
  TOPLEVEL | SEEN_ESC | SEEN_CSI | SEEN_OSC | SEEN_OSC_W | DO_CTRLS | SEEN_OSC_P
  | OSC_STRING | OSC_MAYBE_ST | VT52_ESC | VT52_Y1 | VT52_Y2 | VT52_FG | VT52_BG

record parser =
  termstate :: termstate
  esc_args :: "int list"
  esc_nargs :: nat
  esc_query :: int
  osc_string :: "byte list"
  osc_strlen :: int
  osc_w :: bool
  utf_state :: nat
  utf_char :: "32 word"
  utf_size :: nat
  compatibility_level :: "16 word"
  id_string :: "byte list"

record modes =
  app_cursor_keys :: bool
  app_keypad_keys :: bool
  vt52_mode :: bool
  vt52_bold :: bool
  repeat_off :: bool
  cr_lf_return :: bool
  term_echoing :: bool
  term_editing :: bool
  reset_132 :: bool
  xterm_mouse :: nat
  xterm_extended_mouse :: bool
  urxvt_extended_mouse :: bool
  bracketed_paste :: bool

datatype selstate = NO_SELECTION | ABOUT_TO | DRAGGING | SELECTED

record selection =
  selstate :: selstate
  selstart :: pos
  selend :: pos
  selanchor :: pos
  hits :: "(pos \<times> pos) list"
  wordness :: "byte \<Rightarrow> int"

record display =
  rvideo :: bool
  rvbell_startpoint :: "32 word"
  in_vbell :: bool
  vbell_end :: "32 word"
  cursor_on :: bool
  big_cursor :: bool
  blink_is_real :: bool
  tblinker :: bool
  tblink_pending :: bool
  next_tblink :: "32 word"
  cblinker :: bool
  cblink_pending :: bool
  next_cblink :: "32 word"
  seen_disp :: bool
  window_update_pending :: bool
  next_update :: "32 word"

record bell =
  beeps :: "32 word list"
  nbeeps :: int
  beep_overloaded :: bool
  lastbeep :: "32 word"

record printing =
  printing :: bool
  only_printing :: bool
  print_stage :: nat
  printer_buf :: bufchain
  print_job :: bool

datatype event =
  Set_sbar int int int | Set_raw_mouse_mode bool | Request_resize int int | Resized int int
  | Set_title "byte list" | Set_icon "byte list" | Palette_reset | Palette_set int int int int
  | Invalidate | Ldisc_send "byte list" | Lpage_send "byte list" | Echoedit_update
  | Do_beep int | Set_iconic bool | Move_window int int | Set_zorder bool | Refresh_window
  | Set_zoomed bool | Printer_start "byte list" | Printer_data "byte list" | Printer_finish

record terminal =
  rows :: int
  columns :: int
  savelines :: int
  tabs :: "bool list"
  now :: half
  alt :: half
  sav :: saved
  alt_sav :: saved
  scr :: screens
  pen :: pen
  esc :: parser
  mode :: modes
  sel :: selection
  disp :: display
  bel :: bell
  prn :: printing
  ticks :: "32 word"
  events :: "event list"

text \<open>
  What is constant while the terminal runs: the configuration (\<open>cfg_\<dots>\<close> are values read with
  \<open>conf_get_int\<close>, the other names are those of the copies in the structure), the unicode
  tables, what the front end answers, and the contents of memory that is not initialised.
\<close>

record config =
  answerback :: "byte list"
  beep :: int
  bellovl :: bool
  bellovl_n :: int
  bellovl_s :: int
  bellovl_t :: int
  blink_cur :: bool
  blinktext :: bool
  cjk_ambig_wide :: bool
  conf_height :: int
  conf_width :: int
  crhaslf :: bool
  erase_to_scrollback :: bool
  lfhascr :: bool
  no_alt_screen :: bool
  no_dbackspace :: bool
  no_remote_charset :: bool
  no_remote_resize :: bool
  no_remote_wintitle :: bool
  remote_qtitle_action :: nat
  scroll_on_disp :: bool
  cfg_no_remote_tabname :: bool
  cfg_dec_om :: bool
  cfg_wrap_mode :: bool
  cfg_app_cursor :: bool
  cfg_app_keypad :: bool
  cfg_bce :: bool
  cfg_wordness :: "byte \<Rightarrow> int"
  cfg_printer :: "byte list"
  has_ldisc :: bool
  has_focus :: bool
  has_resize_fn :: bool
  controller_active :: bool
  has_context :: bool
  line_codepage_utf8 :: bool
  unitab_ctrl :: "byte \<Rightarrow> byte"
  is_iconic :: bool
  window_pos :: "int \<times> int"
  window_pixels :: "int \<times> int"
  window_title :: "bool \<Rightarrow> byte list"
  cursorblink :: "32 word"
  junk :: "nat \<Rightarrow> termchar"

section \<open>Abbreviations\<close>

abbreviation curs_x :: "terminal \<Rightarrow> int" where "curs_x t \<equiv> px (curs (now t))"
abbreviation curs_y :: "terminal \<Rightarrow> int" where "curs_y t \<equiv> py (curs (now t))"

abbreviation set_now :: "(half \<Rightarrow> half) \<Rightarrow> terminal \<Rightarrow> terminal" where
  "set_now f t \<equiv> t\<lparr>now := f (now t)\<rparr>"

definition set_curs :: "int \<Rightarrow> int \<Rightarrow> terminal \<Rightarrow> terminal" where
  "set_curs x y t = set_now (\<lambda>h. h\<lparr>curs := \<lparr>py = y, px = x\<rparr>\<rparr>) t"

definition set_wrapnext :: "bool \<Rightarrow> terminal \<Rightarrow> terminal" where
  "set_wrapnext b t = set_now (\<lambda>h. h\<lparr>wrapnext := b\<rparr>) t"

definition set_scr :: "(screens \<Rightarrow> screens) \<Rightarrow> terminal \<Rightarrow> terminal" where
  "set_scr f t = t\<lparr>scr := f (scr t)\<rparr>"

definition set_esc :: "(parser \<Rightarrow> parser) \<Rightarrow> terminal \<Rightarrow> terminal" where
  "set_esc f t = t\<lparr>esc := f (esc t)\<rparr>"

definition set_pen :: "(pen \<Rightarrow> pen) \<Rightarrow> terminal \<Rightarrow> terminal" where
  "set_pen f t = t\<lparr>pen := f (pen t)\<rparr>"

definition set_mode :: "(modes \<Rightarrow> modes) \<Rightarrow> terminal \<Rightarrow> terminal" where
  "set_mode f t = t\<lparr>mode := f (mode t)\<rparr>"

definition set_sel :: "(selection \<Rightarrow> selection) \<Rightarrow> terminal \<Rightarrow> terminal" where
  "set_sel f t = t\<lparr>sel := f (sel t)\<rparr>"

definition set_disp :: "(display \<Rightarrow> display) \<Rightarrow> terminal \<Rightarrow> terminal" where
  "set_disp f t = t\<lparr>disp := f (disp t)\<rparr>"

definition emit :: "event \<Rightarrow> terminal \<Rightarrow> terminal" where
  "emit e t = t\<lparr>events := events t @ [e]\<rparr>"

text \<open>\<open>incpos\<close>: the new position, and whether it is on a new line.\<close>

definition incpos :: "int \<Rightarrow> pos \<Rightarrow> pos \<times> bool" where
  "incpos c p = (if px p = c then (\<lparr>py = py p + 1, px = 0\<rparr>, True) else (p\<lparr>px := px p + 1\<rparr>, False))"

section \<open>Lines\<close>

definition sblines :: "config \<Rightarrow> terminal \<Rightarrow> int" where
  "sblines cf t =
     int (length (scrollback (scr t)))
     + (if erase_to_scrollback cf \<and> alt_which (scr t) \<and> alt_screen (scr t) \<noteq> [] then alt_sblines (scr t) else 0)"

text \<open>
  A line retrieved by \<open>lineptr\<close> is widened in place; a line of the scrollback is a decompressed
  copy.  \<open>scrlineptr\<close> is the case in which the line must be one of the screen.
\<close>

definition widened :: "terminal \<Rightarrow> termline \<Rightarrow> termline option" where
  "widened t l =
     (if columns t > int (cols l) then resizeline (basic_erase_char (pen t)) l (nat (columns t)) else Some l)"

definition index_line :: "int \<Rightarrow> 'a list \<Rightarrow> 'a option" where
  "index_line i xs = (if 0 \<le> i \<and> i < int (length xs) then Some (xs ! nat i) else None)"

definition scrlineptr :: "int \<Rightarrow> terminal \<Rightarrow> terminal option" where
  "scrlineptr y t =
     do { l \<leftarrow> index_line y (screen (scr t));
          l' \<leftarrow> widened t l;
          Some (set_scr (\<lambda>s. s\<lparr>screen := (screen s)[nat y := l']\<rparr>) t) }"

definition lineptr :: "config \<Rightarrow> int \<Rightarrow> terminal \<Rightarrow> (termline \<times> terminal) option" where
  "lineptr cf y t =
     (if y \<ge> 0 then do { t' \<leftarrow> scrlineptr y t; Some (screen (scr t') ! nat y, t') }
      else
        let altlines = (if erase_to_scrollback cf \<and> alt_which (scr t) \<and> alt_screen (scr t) \<noteq> []
                        then alt_sblines (scr t) else 0)
        in if y < - altlines
           then do { cline \<leftarrow> index_line (y + altlines + int (length (scrollback (scr t)))) (scrollback (scr t));
                     (l, used) \<leftarrow> decompressline (junk cf) 0 (Some cline);
                     l' \<leftarrow> widened t l;
                     Some (l', t) }
           else do { let i = y + alt_sblines (scr t);
                     l \<leftarrow> index_line i (alt_screen (scr t));
                     l' \<leftarrow> widened t l;
                     Some (l', set_scr (\<lambda>s. s\<lparr>alt_screen := (alt_screen s)[nat i := l']\<rparr>) t) })"

text \<open>
  What the code does to the line \<open>y\<close> of the screen through the pointer it has obtained; no
  operation between obtaining a pointer and its last use moves the line.
\<close>

definition edit_line :: "int \<Rightarrow> (termline \<Rightarrow> termline option) \<Rightarrow> terminal \<Rightarrow> terminal option" where
  "edit_line y f t =
     do { l \<leftarrow> index_line y (screen (scr t));
          l' \<leftarrow> f l;
          Some (set_scr (\<lambda>s. s\<lparr>screen := (screen s)[nat y := l']\<rparr>) t) }"

definition check_line_size :: "terminal \<Rightarrow> termline \<Rightarrow> termline option" where
  "check_line_size t l =
     (if columns t \<noteq> int (cols l) then resizeline (basic_erase_char (pen t)) l (nat (columns t)) else Some l)"

text \<open>\<open>copy_termchar\<close> of a character of the state, which has no combining characters.\<close>

definition put_termchar :: "config \<Rightarrow> termchar \<Rightarrow> int \<Rightarrow> termline \<Rightarrow> termline option" where
  "put_termchar cf c x l = (if x < 0 then None else copy_termchar (junk cf) l (nat x) [c] 0)"

definition clear_cc_at :: "int \<Rightarrow> termline \<Rightarrow> termline option" where
  "clear_cc_at x l = (if x < 0 then None else clear_cc l (nat x))"

section \<open>The selection\<close>

definition deselect :: "terminal \<Rightarrow> terminal" where
  "deselect t =
     set_sel (\<lambda>s. s\<lparr>selstate := NO_SELECTION, selstart := \<lparr>py = 0, px = 0\<rparr>, selend := \<lparr>py = 0, px = 0\<rparr>\<rparr>) t"

definition check_selection :: "pos \<Rightarrow> pos \<Rightarrow> terminal \<Rightarrow> terminal" where
  "check_selection begin_pos end_pos t =
     (if poslt begin_pos (selend (sel t)) \<and> poslt (selstart (sel t)) end_pos then deselect t else t)"

section \<open>Timers of the display\<close>

text \<open>
  \<open>schedule_timer\<close> returns the time at which the timer will run; the clock is the field
  \<open>ticks\<close>, which the environment sets.
\<close>

definition TICKSPERSEC :: "32 word" where "TICKSPERSEC = 1000"
definition UPDATE_DELAY :: "32 word" where "UPDATE_DELAY = (TICKSPERSEC + 49) div 50"
definition TBLINK_DELAY :: "32 word" where "TBLINK_DELAY = (TICKSPERSEC * 9 + 19) div 20"
definition VBELL_DELAY :: "32 word" where "VBELL_DELAY = TICKSPERSEC div 10"

definition term_schedule_update :: "terminal \<Rightarrow> terminal" where
  "term_schedule_update t =
     set_disp (\<lambda>d. if window_update_pending d then d
                   else d\<lparr>window_update_pending := True, next_update := ticks t + UPDATE_DELAY\<rparr>) t"

definition seen_disp_event :: "terminal \<Rightarrow> terminal" where
  "seen_disp_event t = term_schedule_update (set_disp (\<lambda>d. d\<lparr>seen_disp := True\<rparr>) t)"

definition term_schedule_tblink :: "terminal \<Rightarrow> terminal" where
  "term_schedule_tblink t =
     set_disp (\<lambda>d. if blink_is_real d
                   then d\<lparr>next_tblink := (if tblink_pending d then next_tblink d else ticks t + TBLINK_DELAY),
                          tblink_pending := True\<rparr>
                   else d\<lparr>tblinker := True, tblink_pending := False\<rparr>) t"

definition term_schedule_cblink :: "config \<Rightarrow> terminal \<Rightarrow> terminal" where
  "term_schedule_cblink cf t =
     set_disp (\<lambda>d. if blink_cur cf \<and> has_focus cf
                   then d\<lparr>next_cblink := (if cblink_pending d then next_cblink d else ticks t + cursorblink cf),
                          cblink_pending := True\<rparr>
                   else d\<lparr>cblinker := True, cblink_pending := False\<rparr>) t"

definition term_reset_cblink :: "config \<Rightarrow> terminal \<Rightarrow> terminal" where
  "term_reset_cblink cf t =
     term_schedule_cblink cf (set_disp (\<lambda>d. d\<lparr>cblinker := True, cblink_pending := False\<rparr>) (seen_disp_event t))"

definition term_schedule_vbell :: "bool \<Rightarrow> 32 word \<Rightarrow> terminal \<Rightarrow> terminal" where
  "term_schedule_vbell already_started startpoint t =
     (let gone = (if already_started then ticks t - startpoint else 0)
      in set_disp (\<lambda>d. if gone <s VBELL_DELAY
                       then d\<lparr>in_vbell := True, vbell_end := ticks t + (VBELL_DELAY - gone)\<rparr>
                       else d\<lparr>in_vbell := False\<rparr>) t)"

definition term_invalidate :: "terminal \<Rightarrow> terminal" where
  "term_invalidate t = term_schedule_update (emit Invalidate t)"

definition update_sbar :: "config \<Rightarrow> terminal \<Rightarrow> terminal" where
  "update_sbar cf t =
     (let nscroll = sblines cf t
      in emit (Set_sbar (nscroll + rows t) (nscroll + disptop (scr t)) (rows t)) t)"

definition ldisc_send_event :: "config \<Rightarrow> byte list \<Rightarrow> terminal \<Rightarrow> terminal" where
  "ldisc_send_event cf bs t = (if has_ldisc cf then emit (Ldisc_send bs) t else t)"

definition set_erase_char :: "terminal \<Rightarrow> terminal" where
  "set_erase_char t =
     set_pen (\<lambda>p. p\<lparr>erase_char :=
       (if use_bce p then (basic_erase_char p)\<lparr>attr := curr_attr p AND (ATTR_FGMASK OR ATTR_BGMASK)\<rparr>
        else basic_erase_char p)\<rparr>) t"

end
