(* ===== verification/Term_Screen.thy ===== *)
theory Term_Screen
  imports Term_State
begin

text \<open>
  The operations of \<open>putty/terminal.c\<close> on the screen: scrolling, cursor movement, erasing,
  inserting and deleting characters, the alternate screen, the power-on state, clearing of
  the scrollback, resizing, the mode switches and the printer.  A result \<open>None\<close> is a failed
  assertion or an access outside a line, a screen or an array.
\<close>

section \<open>Printing\<close>

definition set_prn :: "(printing \<Rightarrow> printing) \<Rightarrow> terminal \<Rightarrow> terminal" where
  "set_prn f t = t\<lparr>prn := f (prn t)\<rparr>"

definition term_print_setup :: "byte list \<Rightarrow> terminal \<Rightarrow> terminal" where
  "term_print_setup printer t =
     emit (Printer_start printer)
       (set_prn (\<lambda>p. p\<lparr>printer_buf := bufchain_clear (printer_buf p), print_job := True\<rparr>) t)"

text \<open>
  The loop takes at least one byte in each round, so that the size of the buffer is enough
  fuel.
\<close>

fun print_flush_loop :: "nat \<Rightarrow> terminal \<Rightarrow> terminal option" where
  "print_flush_loop fuel t =
     (let size = bufchain_size (printer_buf (prn t)) in
      if size > 5 then
        case fuel of 0 \<Rightarrow> None
        | Suc k \<Rightarrow>
          do { (chunk, len) \<leftarrow> bufchain_prefix (printer_buf (prn t));
               let n = (if len > size - 5 then size - 5 else len);
               ch \<leftarrow> bufchain_consume (printer_buf (prn t)) n;
               print_flush_loop k (set_prn (\<lambda>p. p\<lparr>printer_buf := ch\<rparr>) (emit (Printer_data (take n chunk)) t)) }
      else Some t)"

declare print_flush_loop.simps [simp del]

definition term_print_flush :: "terminal \<Rightarrow> terminal option" where
  "term_print_flush t = print_flush_loop (bufchain_size (printer_buf (prn t))) t"

fun print_finish_loop :: "nat \<Rightarrow> terminal \<Rightarrow> terminal option" where
  "print_finish_loop fuel t =
     (let size = bufchain_size (printer_buf (prn t)) in
      if size > 0 then
        case fuel of 0 \<Rightarrow> None
        | Suc k \<Rightarrow>
          do { (chunk, len) \<leftarrow> bufchain_prefix (printer_buf (prn t));
               c \<leftarrow> index_line 0 chunk;
               if c = 0x1B \<or> c = 0x9B
               then do { ch \<leftarrow> bufchain_consume (printer_buf (prn t)) size;
                         Some (set_prn (\<lambda>p. p\<lparr>printer_buf := ch\<rparr>) t) }
               else do { ch \<leftarrow> bufchain_consume (printer_buf (prn t)) 1;
                         print_finish_loop k
                           (set_prn (\<lambda>p. p\<lparr>printer_buf := ch\<rparr>) (emit (Printer_data [c]) t)) } }
      else Some t)"

declare print_finish_loop.simps [simp del]

definition term_print_finish :: "terminal \<Rightarrow> terminal option" where
  "term_print_finish t =
     (if \<not> printing (prn t) \<and> \<not> only_printing (prn t) then Some t
      else do { t1 \<leftarrow> term_print_flush t;
                t2 \<leftarrow> print_finish_loop (bufchain_size (printer_buf (prn t1))) t1;
                Some (set_prn (\<lambda>p. p\<lparr>print_job := False, printing := False, only_printing := False\<rparr>)
                       (emit Printer_finish t2)) })"

section \<open>Scrolling\<close>

text \<open>The cells of a line from a list of columns become the given character.\<close>

fun fill_cells :: "config \<Rightarrow> termchar \<Rightarrow> nat list \<Rightarrow> termline \<Rightarrow> termline option" where
  "fill_cells cf c [] l = Some l"
| "fill_cells cf c (i # is) l = do { l' \<leftarrow> put_termchar cf c (int i) l; fill_cells cf c is l' }"

definition blank_line :: "config \<Rightarrow> terminal \<Rightarrow> termline \<Rightarrow> termline option" where
  "blank_line cf t l =
     do { l1 \<leftarrow> resizeline (basic_erase_char (pen t)) l (nat (columns t));
          l2 \<leftarrow> fill_cells cf (erase_char (pen t)) [0..<nat (columns t)] l1;
          Some (l2\<lparr>lattr := LATTR_NORM\<rparr>) }"

text \<open>\<open>delpos234\<close> and \<open>addpos234\<close> on a tree of lines.\<close>

definition del_line :: "int \<Rightarrow> 'a list \<Rightarrow> ('a \<times> 'a list) option" where
  "del_line i xs = do { l \<leftarrow> index_line i xs; Some (l, remove_nth (nat i) xs) }"

definition add_line :: "'a \<Rightarrow> int \<Rightarrow> 'a list \<Rightarrow> 'a list option" where
  "add_line l i xs = (if 0 \<le> i \<and> i \<le> int (length xs) then Some (insert_nth (nat i) l xs) else None)"

text \<open>A selection endpoint in the region moves down with it, or just below it.\<close>

definition sel_down :: "int \<Rightarrow> int \<Rightarrow> pos \<Rightarrow> pos" where
  "sel_down topline botline p =
     (if py p \<ge> topline \<and> py p \<le> botline
      then (if py p + 1 > botline then \<lparr>py = botline + 1, px = 0\<rparr> else p\<lparr>py := py p + 1\<rparr>)
      else p)"

definition sel_up :: "int \<Rightarrow> int \<Rightarrow> pos \<Rightarrow> pos" where
  "sel_up seltop botline p =
     (if py p \<ge> seltop \<and> py p \<le> botline
      then (if py p - 1 < seltop then \<lparr>py = seltop, px = 0\<rparr> else p\<lparr>py := py p - 1\<rparr>)
      else p)"

definition scroll_back_one :: "config \<Rightarrow> int \<Rightarrow> int \<Rightarrow> terminal \<Rightarrow> terminal option" where
  "scroll_back_one cf topline botline t =
     do { (l, ls) \<leftarrow> del_line botline (screen (scr t));
          l' \<leftarrow> blank_line cf t l;
          ls' \<leftarrow> add_line l' topline ls;
          Some (set_sel (\<lambda>s. s\<lparr>selstart := sel_down topline botline (selstart s),
                                selend := sel_down topline botline (selend s)\<rparr>)
                 (set_scr (\<lambda>s. s\<lparr>screen := ls'\<rparr>) t)) }"

text \<open>The line that leaves the screen at the top goes to the scrollback.\<close>

definition save_line :: "termline \<Rightarrow> terminal \<Rightarrow> terminal option" where
  "save_line l t =
     (let s = scr t; sblen = int (length (scrollback s));
          full = (sblen = savelines t);
          s1 = (if full then s\<lparr>scrollback := tl (scrollback s)\<rparr> else s\<lparr>tempsblines := tempsblines s + 1\<rparr>)
      in do { cline \<leftarrow> compressline l;
              sb \<leftarrow> add_line cline (if full then sblen - 1 else sblen) (scrollback s1);
              let s2 = s1\<lparr>scrollback := sb\<rparr>;
              Some (set_scr (\<lambda>_. if disptop s2 > - savelines t \<and> \<not> scroll_to_end s2
                                 then s2\<lparr>disptop := disptop s2 - 1\<rparr> else s2) t) })"

definition up_one :: "pos \<Rightarrow> pos" where
  "up_one p = p\<lparr>py := py p - 1\<rparr>"

definition scroll_on_one :: "config \<Rightarrow> int \<Rightarrow> int \<Rightarrow> bool \<Rightarrow> terminal \<Rightarrow> terminal option" where
  "scroll_on_one cf topline botline sb t =
     do { (l, ls) \<leftarrow> del_line topline (screen (scr t));
          t1 \<leftarrow> (if sb \<and> savelines t > 0 then save_line l t else Some t);
          let t2 = set_sel (\<lambda>s. s\<lparr>hits := List.map (map_prod up_one up_one) (hits s)\<rparr>) t1;
          l' \<leftarrow> blank_line cf t2 l;
          ls' \<leftarrow> add_line l' botline ls;
          let t3 = set_scr (\<lambda>s. s\<lparr>screen := ls'\<rparr>) t2;
          let seltop = (if sb then - savelines t else topline);
          Some (set_sel (\<lambda>s. if selstate s \<noteq> NO_SELECTION
                             then s\<lparr>selstart := sel_up seltop botline (selstart s),
                                    selend := sel_up seltop botline (selend s),
                                    selanchor := sel_up seltop botline (selanchor s)\<rparr>
                             else s) t3) }"

fun repeat_op :: "nat \<Rightarrow> (terminal \<Rightarrow> terminal option) \<Rightarrow> terminal \<Rightarrow> terminal option" where
  "repeat_op 0 f t = Some t"
| "repeat_op (Suc n) f t = do { t' \<leftarrow> f t; repeat_op n f t' }"

definition scroll :: "config \<Rightarrow> int \<Rightarrow> int \<Rightarrow> int \<Rightarrow> bool \<Rightarrow> terminal \<Rightarrow> terminal option" where
  "scroll cf topline botline lines sb0 t =
     (let sb = (if topline \<noteq> 0 \<or> alt_which (scr t) then False else sb0);
          scrollwinsize = botline - topline + 1
      in if lines < 0
         then let n = wrap32 (- lines) in
              repeat_op (nat (if n > scrollwinsize then scrollwinsize else n)) (scroll_back_one cf topline botline) t
         else repeat_op (nat (if lines > scrollwinsize then scrollwinsize else lines))
                (scroll_on_one cf topline botline sb) t)"

section \<open>Moving and saving the cursor\<close>

definition move :: "int \<Rightarrow> int \<Rightarrow> nat \<Rightarrow> terminal \<Rightarrow> terminal" where
  "move x0 y0 marg_clip t =
     (let x1 = (if x0 < 0 then 0 else x0);
          x = (if x1 \<ge> columns t then columns t - 1 else x1);
          y1 = (if marg_clip \<noteq> 0 \<and> (curs_y t \<ge> marg_t (now t) \<or> marg_clip = 2) \<and> y0 < marg_t (now t)
                then marg_t (now t) else y0);
          y2 = (if marg_clip \<noteq> 0 \<and> (curs_y t \<le> marg_b (now t) \<or> marg_clip = 2) \<and> y1 > marg_b (now t)
                then marg_b (now t) else y1);
          y3 = (if y2 < 0 then 0 else y2);
          y = (if y3 \<ge> rows t then rows t - 1 else y3)
      in set_wrapnext False (set_curs x y t))"

definition save_cursor :: "bool \<Rightarrow> terminal \<Rightarrow> terminal option" where
  "save_cursor save t =
     (if save then
        do { a \<leftarrow> index_line (int (cset (now t))) (cset_attr (pen t));
             Some (t\<lparr>sav := \<lparr>savecurs = curs (now t), save_attr = curr_attr (pen t), save_cset = cset (now t),
                              save_csattr = a, save_utf = utf (now t), save_wnext = wrapnext (now t),
                              save_sco_acs = sco_acs (now t)\<rparr>\<rparr>) }
      else
        let s = sav t;
            x = (if px (savecurs s) \<ge> columns t then columns t - 1 else px (savecurs s));
            y = (if py (savecurs s) \<ge> rows t then rows t - 1 else py (savecurs s));
            wn = save_wnext s \<and> \<not> x < columns t - 1
        in if \<not> save_cset s < length (cset_attr (pen t)) then None
           else Some (set_erase_char
             (set_pen (\<lambda>p. p\<lparr>curr_attr := save_attr s, cset_attr := (cset_attr p)[save_cset s := save_csattr s]\<rparr>)
               (set_now (\<lambda>h. h\<lparr>curs := \<lparr>py = y, px = x\<rparr>, cset := save_cset s, utf := save_utf s,
                                wrapnext := wn, sco_acs := save_sco_acs s\<rparr>) t))))"

section \<open>Erasing, inserting and deleting\<close>

definition split_wide :: "int \<Rightarrow> termline \<Rightarrow> termline option" where
  "split_wide x l =
     (if chr (chars l ! nat x) = UCSWIDE then
        do { l1 \<leftarrow> clear_cc_at (x - 1) l;
             l2 \<leftarrow> clear_cc_at x l1;
             let l3 = upd_char (nat (x - 1)) (\<lambda>c. c\<lparr>chr := 0x20 OR CSET_ASCII\<rparr>) l2;
             Some (upd_char (nat x) (\<lambda>_. chars l3 ! nat (x - 1)) l3) }
      else Some l)"

definition check_boundary :: "int \<Rightarrow> int \<Rightarrow> terminal \<Rightarrow> terminal option" where
  "check_boundary x y t =
     (if x = 0 \<or> x > columns t then Some t
      else if x < 0 then None
      else do { t1 \<leftarrow> scrlineptr y t;
                t2 \<leftarrow> edit_line y (check_line_size t1) t1;
                edit_line y (\<lambda>l. if x = columns t2 then Some (l\<lparr>lattr := lattr l AND NOT LATTR_WRAPPED2\<rparr>)
                                 else split_wide x l) t2 })"

fun line_blank :: "termchar \<Rightarrow> termline \<Rightarrow> nat list \<Rightarrow> bool option" where
  "line_blank e l [] = Some True"
| "line_blank e l (j # js) =
     do { eq \<leftarrow> termchars_equal (chars l) j [e] 0; if eq then line_blank e l js else Some False }"

fun last_nonempty :: "termchar \<Rightarrow> termline list \<Rightarrow> nat \<Rightarrow> int option" where
  "last_nonempty e ls 0 = Some (- 1)"
| "last_nonempty e ls (Suc i) =
     do { blank \<leftarrow> line_blank e (ls ! i) [0..<cols (ls ! i)];
          if blank then last_nonempty e ls i else Some (int i) }"

definition find_last_nonempty_line :: "terminal \<Rightarrow> termline list \<Rightarrow> int option" where
  "find_last_nonempty_line t ls = last_nonempty (erase_char (pen t)) ls (length ls)"

text \<open>
  The positions that the loop of \<open>erase_lots\<close> visits; the column of the first one is at most
  the number of columns, so that it reaches the end of its line.
\<close>

function span :: "int \<Rightarrow> pos \<Rightarrow> pos \<Rightarrow> pos list" where
  "span c p q = (if poslt p q \<and> px p \<le> c then p # span c (fst (incpos c p)) q else [])"
  by pat_completeness auto
termination
  by (relation "measures [\<lambda>(c, p, q). nat (py q + 1 - py p), \<lambda>(c, p, q). nat (c + 1 - px p)]")
    (auto simp: poslt_def incpos_def)

declare span.simps [simp del]

definition erase_at :: "config \<Rightarrow> bool \<Rightarrow> pos \<Rightarrow> terminal \<Rightarrow> terminal option" where
  "erase_at cf erase_lattr p t =
     do { t1 \<leftarrow> edit_line (py p) (check_line_size t) t;
          t2 \<leftarrow> edit_line (py p)
            (\<lambda>l. if px p = columns t1
                 then Some (l\<lparr>lattr := (if erase_lattr then LATTR_NORM
                                        else lattr l AND NOT (LATTR_WRAPPED OR LATTR_WRAPPED2))\<rparr>)
                 else put_termchar cf (erase_char (pen t1)) (px p) l) t1;
          let (p', new_line) = incpos (columns t) p;
          if new_line \<and> py p' < rows t2 then scrlineptr (py p') t2 else Some t2 }"

fun erase_all :: "config \<Rightarrow> bool \<Rightarrow> pos list \<Rightarrow> terminal \<Rightarrow> terminal option" where
  "erase_all cf erase_lattr [] t = Some t"
| "erase_all cf erase_lattr (p # ps) t =
     do { t' \<leftarrow> erase_at cf erase_lattr p t; erase_all cf erase_lattr ps t' }"

definition erase_lots :: "config \<Rightarrow> bool \<Rightarrow> bool \<Rightarrow> bool \<Rightarrow> terminal \<Rightarrow> terminal option" where
  "erase_lots cf line_only from_begin to_end t =
     (let start = (if \<not> from_begin then curs (now t) else \<lparr>py = (if line_only then curs_y t else 0), px = 0\<rparr>);
          end_pos = (if \<not> to_end then fst (incpos (columns t) (curs (now t)))
                     else \<lparr>py = (if line_only then curs_y t + 1 else rows t), px = 0\<rparr>);
          erase_lattr = (\<not> line_only)
      in do {
        t1 \<leftarrow> (if \<not> from_begin \<or> \<not> to_end then check_boundary (curs_x t) (curs_y t) t else Some t);
        let t2 = check_selection start end_pos t1;
        let t3 = (if py start = 0 \<and> px start = 0 \<and> py end_pos = rows t2 then term_invalidate t2 else t2);
        let from_top = (py start = 0 \<and> px start = 0 \<and> px end_pos = 0 \<and> erase_lattr);
        t4 \<leftarrow> (if erase_to_scrollback cf \<and> from_top
               then do { n \<leftarrow> (if py end_pos = rows t3
                               then do { i \<leftarrow> find_last_nonempty_line t3 (screen (scr t3)); Some (i + 1) }
                               else Some (py end_pos));
                         if n > 0 then scroll cf 0 (n - 1) n True t3 else Some t3 }
               else if \<not> px start \<le> columns t3 then None
               else do { t' \<leftarrow> scrlineptr (py start) t3;
                         erase_all cf erase_lattr (span (columns t3) start end_pos) t' });
        Some (if from_top \<and> \<not> alt_which (scr t4) then set_scr (\<lambda>s. s\<lparr>tempsblines := 0\<rparr>) t4 else t4) })"

fun move_cells :: "(int \<times> int) list \<Rightarrow> termline \<Rightarrow> termline option" where
  "move_cells [] l = Some l"
| "move_cells ((dest, src) # ms) l =
     (if dest < 0 \<or> src < 0 \<or> src \<ge> int (length (chars l)) then None
      else do { l' \<leftarrow> move_termchar l (nat dest) (nat src); move_cells ms l' })"

text \<open>The selection moves with the text, or is removed.\<close>

definition insch_selection :: "int \<Rightarrow> int \<Rightarrow> terminal \<Rightarrow> terminal option" where
  "insch_selection dir n t =
     (let c = curs (now t); eol = \<lparr>py = py c, px = columns t\<rparr>; s = sel t in
      if poslt c (selend s) \<and> poslt (selstart s) eol then
        let okstart = (if dir > 0 then c else c\<lparr>px := px c + n\<rparr>);
            okend = (if dir > 0 then eol\<lparr>px := px eol - n\<rparr> else eol)
        in if posle okstart (selstart s) \<and> posle (selend s) okend then
             let sx = px (selstart s) + dir * n; ex = px (selend s) + dir * n in
             if sx \<ge> px c \<and> sx < columns t \<and> ex > px c \<and> ex \<le> columns t
             then Some (set_sel (\<lambda>s. s\<lparr>selstart := (selstart s)\<lparr>px := sx\<rparr>, selend := (selend s)\<lparr>px := ex\<rparr>\<rparr>) t)
             else None
           else Some (deselect t)
      else Some t)"

definition insch :: "config \<Rightarrow> int \<Rightarrow> terminal \<Rightarrow> terminal option" where
  "insch cf n0 t =
     (let dir = (if n0 < 0 then - 1 else 1);
          n1 = (if n0 < 0 then wrap32 (- n0) else n0);
          n = (if n1 > columns t - curs_x t then columns t - curs_x t else n1);
          m = columns t - curs_x t - n;
          x = curs_x t; y = curs_y t
      in if n < 0 then None
         else do {
           t1 \<leftarrow> insch_selection dir n t;
           t2 \<leftarrow> check_boundary x y t1;
           t3 \<leftarrow> (if dir < 0 then check_boundary (x + n) y t2 else Some t2);
           t4 \<leftarrow> scrlineptr y t3;
           edit_line y
             (\<lambda>l. if dir < 0
                  then do { l1 \<leftarrow> move_cells (List.map (\<lambda>j. (x + j, x + j + n)) [0..m - 1]) l;
                            fill_cells cf (erase_char (pen t4)) (List.map (\<lambda>j. nat (x + m + j)) [0..n - 1]) l1 }
                  else do { l1 \<leftarrow> move_cells (rev (List.map (\<lambda>j. (x + j + n, x + j)) [0..m - 1])) l;
                            fill_cells cf (erase_char (pen t4)) (rev (List.map (\<lambda>j. nat (x + j)) [0..n - 1])) l1 }) t4 })"

end
