(* ===== verification/Term_Lines.thy ===== *)
theory Term_Lines
  imports Term_Screen Termline_Props
begin

text \<open>
  The invariant of a line of the screen, and that every operation of the terminal on a line is
  defined on such lines and keeps it: intact lists of combining characters, at least one
  column, attributes and combining characters that the scrollback can store, and no second
  half of a double-width character in the first column.
\<close>

section \<open>The invariant\<close>

definition good_cells :: "(32 word \<times> 32 word \<times> 32 word list) list \<Rightarrow> bool" where
  "good_cells cs \<longleftrightarrow>
     cs \<noteq> [] \<and> (\<forall>(c, a, xs) \<in> set cs. a < 0x80000000 \<and> 0 \<notin> set xs) \<and> fst (cs ! 0) \<noteq> UCSWIDE"

definition good_line :: "termline \<Rightarrow> bool" where
  "good_line l \<longleftrightarrow> line_ok l \<and> good_cells (cells l)"

definition good_char :: "termchar \<Rightarrow> bool" where
  "good_char tc \<longleftrightarrow> cc_next tc = 0 \<and> attr tc < 0x80000000 \<and> chr tc \<noteq> UCSWIDE"

text \<open>An operation on a line that is defined and keeps the invariant and the width.\<close>

definition keeps :: "termline option \<Rightarrow> termline \<Rightarrow> bool" where
  "keeps r l \<longleftrightarrow> (\<exists>l'. r = Some l' \<and> good_line l' \<and> cols l' = cols l)"

lemma keepsE:
  assumes "keeps r l" obtains l' where "r = Some l'" "good_line l'" "cols l' = cols l"
  using assms by (auto simp: keeps_def)

lemma keepsI: "r = Some l' \<Longrightarrow> good_line l' \<Longrightarrow> cols l' = cols l \<Longrightarrow> keeps r l"
  by (simp add: keeps_def)

lemma keeps_bind:
  assumes "keeps r l" "\<And>l'. good_line l' \<Longrightarrow> cols l' = cols l \<Longrightarrow> keeps (f l') l'"
  shows "keeps (r \<bind> f) l"
proof -
  obtain l' where l': "r = Some l'" "good_line l'" "cols l' = cols l" by (rule keepsE[OF assms(1)])
  then show ?thesis using assms(2)[OF l'(2,3)] by (auto simp: keeps_def)
qed

lemma good_cells_update:
  assumes "good_cells cs" "a < 0x80000000" "0 \<notin> set xs" "i = 0 \<longrightarrow> c \<noteq> UCSWIDE"
  shows "good_cells (cs[i := (c, a, xs)])"
proof -
  have "fst (cs[i := (c, a, xs)] ! 0) \<noteq> UCSWIDE"
    using assms by (cases "i < length cs"; cases i) (auto simp: good_cells_def nth_list_update)
  then show ?thesis
    using assms by (auto simp: good_cells_def dest!: set_update_subset_insert[THEN subsetD])
qed

lemma good_line_cols: "good_line l \<Longrightarrow> 0 < cols l"
  by (cases "cols l") (auto simp: good_line_def good_cells_def cells_def)

lemma good_cellD:
  assumes "good_line l" "i < cols l"
  shows "attr (chars l ! i) < 0x80000000" "0 \<notin> set (cell_ccs l i)" "cell_ccs l i = snd (snd (cell l i))"
    "i = 0 \<Longrightarrow> chr (chars l ! i) \<noteq> UCSWIDE"
proof -
  have g: "good_cells (cells l)" using assms(1) by (simp add: good_line_def)
  have "cell l i \<in> set (cells l)" using assms(2) nth_mem[of i "cells l"] by simp
  moreover have "\<forall>c \<in> set (cells l). case c of (c, a, xs) \<Rightarrow> a < 0x80000000 \<and> 0 \<notin> set xs"
    using g unfolding good_cells_def by (elim conjE)
  ultimately have "case cell l i of (c, a, xs) \<Rightarrow> a < 0x80000000 \<and> 0 \<notin> set xs" by (rule bspec[rotated])
  then show "attr (chars l ! i) < 0x80000000" "0 \<notin> set (cell_ccs l i)" by (simp_all add: cell_def)
  show "cell_ccs l i = snd (snd (cell l i))" by (simp only: cell_def snd_conv)
  have "cells l ! 0 = cell l 0" using good_line_cols[OF assms(1)] by simp
  then show "i = 0 \<Longrightarrow> chr (chars l ! i) \<noteq> UCSWIDE" using g by (simp add: good_cells_def cell_def)
qed

lemma good_line_ok: "good_line l \<Longrightarrow> line_ok l" by (simp add: good_line_def)

lemma good_line_length: "good_line l \<Longrightarrow> cols l \<le> length (chars l)"
  by (auto simp: good_line_def line_ok_def chains_def)

text \<open>The line attribute and the flag of a temporary line do not matter.\<close>

lemma line_ok_fields: "chars l' = chars l \<Longrightarrow> cols l' = cols l \<Longrightarrow> cc_free l' = cc_free l \<Longrightarrow> line_ok l' = line_ok l"
  by (simp add: line_ok_def chains_def)

lemma cells_fields: "chars l' = chars l \<Longrightarrow> cols l' = cols l \<Longrightarrow> cells l' = cells l"
  by (simp add: cells_def cell_def cell_ccs_def)

lemma good_line_fields [simp]:
  "good_line (l\<lparr>lattr := a\<rparr>) = good_line l" "good_line (l\<lparr>temporary := b\<rparr>) = good_line l"
proof -
  have eq: "good_line l' = good_line l" if "chars l' = chars l" "cols l' = cols l" "cc_free l' = cc_free l" for l' l
    using that line_ok_fields[of l' l] cells_fields[of l' l] by (simp add: good_line_def)
  show "good_line (l\<lparr>lattr := a\<rparr>) = good_line l" "good_line (l\<lparr>temporary := b\<rparr>) = good_line l" by (rule eq; simp)+
qed

section \<open>Operations\<close>

lemma resizeline_good:
  assumes l: "good_line l" and b: "good_char b" and n: "0 < n"
  shows "\<exists>l'. resizeline b l n = Some l' \<and> good_line l' \<and> cols l' = n"
proof -
  obtain l' where l': "resizeline b l n = Some l'" "line_ok l'" "cols l' = n"
    "cells l' = take n (cells l) @ replicate (n - cols l) (chr b, attr b, [])"
    using resizeline_ok[OF good_line_ok[OF l] n, of b] b by (auto simp: good_char_def)
  have "good_cells (cells l')"
    using l b n good_line_cols[OF l] unfolding l'(4)
    by (auto simp: good_line_def good_cells_def good_char_def nth_append dest: in_set_takeD)
  then show ?thesis using l' by (auto simp: good_line_def)
qed

lemma put_termchar_keeps:
  assumes l: "good_line l" and c: "good_char c" and x: "0 \<le> x" "x < int (cols l)"
  shows "keeps (put_termchar cf c x l) l"
proof -
  define m where "m = \<lparr>lattr = 0, cols = 1, temporary = False, cc_free = 0, chars = [c]\<rparr>"
  have m: "line_ok m" "cells m = [(chr c, attr c, [])]"
    using fresh_line[of m] c by (auto simp: m_def good_char_def)
  have cm: "cols m = 1" "chars m = [c]" by (simp_all add: m_def)
  have m0: "cell m 0 = (chr c, attr c, [])" using m(2) nth_cells[of 0 m] cm by simp
  have n: "nat x < cols l" using x by linarith
  obtain l' where l': "copy_termchar (junk cf) l (nat x) (chars m) 0 = Some l'" "line_ok l'" "same_but_cells l l'"
    "cells l' = (cells l)[nat x := cell m 0]"
    using copy_termchar_ok[OF good_line_ok[OF l] n m(1), of 0 "junk cf"] cm(1) by auto
  have "good_cells (cells l')"
    using l c unfolding l'(4) m0 by (intro good_cells_update) (auto simp: good_line_def good_char_def)
  then show ?thesis
    using l' x cm(2) by (intro keepsI[of _ l']) (auto simp: put_termchar_def good_line_def same_but_cells_def)
qed

lemma fill_cells_keeps:
  "good_line l \<Longrightarrow> good_char c \<Longrightarrow> (\<forall>i \<in> set is. i < cols l) \<Longrightarrow> keeps (fill_cells cf c is l) l"
proof (induction "is" arbitrary: l)
  case Nil
  then show ?case by (simp add: keeps_def)
next
  case (Cons i js)
  show ?case unfolding fill_cells.simps
    by (rule keeps_bind[OF put_termchar_keeps]) (use Cons in auto)
qed

lemma clear_cc_keeps:
  assumes l: "good_line l" and x: "0 \<le> x" "x < int (cols l)"
  shows "\<exists>l'. clear_cc_at x l = Some l' \<and> good_line l' \<and> cols l' = cols l \<and> cc_next (chars l' ! nat x) = 0
    \<and> (\<forall>i < cols l. chr (chars l' ! i) = chr (chars l ! i) \<and> attr (chars l' ! i) = attr (chars l ! i))
    \<and> (\<forall>i < cols l. cell_ccs l' i = (if i = nat x then [] else cell_ccs l i))"
proof -
  have n: "nat x < cols l" using x by auto
  obtain ch fr where c: "chains l ch fr" using good_line_ok[OF l] by (auto simp: line_ok_def)
  obtain l' where l': "clear_cc l (nat x) = Some l'" "chains l' (ch(nat x := [])) (ch (nat x) @ fr)" "same_but_cells l l'"
    "\<forall>i < cols l. cell l' i = (if i = nat x then (chr (chars l ! nat x), attr (chars l ! nat x), []) else cell l i)"
    using clear_cc_chains[OF c n] by blast
  have k: "cols l' = cols l" using l'(3) by (simp add: same_but_cells_def)
  have cs: "cells l' = (cells l)[nat x := (chr (chars l ! nat x), attr (chars l ! nat x), [])]"
    using cells_update[OF k, of "nat x"] l'(4) by blast
  have "good_cells (cells l')" unfolding cs
    using l good_cellD[OF l n] by (intro good_cells_update) (auto simp: good_line_def)
  moreover have "cc_next (chars l' ! nat x) = 0"
    using chains_path[OF l'(2), of "nat x"] n k by simp
  moreover have "cell l' i = (chr (chars l' ! i), attr (chars l' ! i), cell_ccs l' i)" for i by (rule cell_parts)
  ultimately show ?thesis
    using l' x k by (auto simp: clear_cc_at_def good_line_def line_ok_def cell_def split: if_splits)
qed

text \<open>A cell whose list is empty is overwritten.\<close>

lemma upd_char_good:
  assumes l: "good_line l" and i: "i < cols l" and z: "cc_next (chars l ! i) = 0" "cc_next t = 0"
    and t: "attr t < 0x80000000" "i = 0 \<longrightarrow> chr t \<noteq> UCSWIDE"
  shows "good_line (upd_char i (\<lambda>_. t) l)" "cols (upd_char i (\<lambda>_. t) l) = cols l"
proof -
  obtain ch fr where c: "chains l ch fr" using good_line_ok[OF l] by (auto simp: line_ok_def)
  have s: "chains (upd_char i (\<lambda>_. t) l) ch fr"
    "\<And>j. j < cols l \<Longrightarrow> cell (upd_char i (\<lambda>_. t) l) j = (if j = i then (chr t, attr t, cell_ccs l i) else cell l j)"
    using set_cell_ok[OF c i, of t] z by auto
  show k: "cols (upd_char i (\<lambda>_. t) l) = cols l" by (simp add: upd_char_def)
  have "cells (upd_char i (\<lambda>_. t) l) = (cells l)[i := (chr t, attr t, cell_ccs l i)]"
    using cells_update[OF k] s(2) by blast
  then have "good_cells (cells (upd_char i (\<lambda>_. t) l))"
    using l t good_cellD(2)[OF l i] by (auto intro: good_cells_update simp: good_line_def)
  then show "good_line (upd_char i (\<lambda>_. t) l)" using s(1) by (auto simp: good_line_def line_ok_def)
qed

lemma upd_char_const: "upd_char i f l = upd_char i (\<lambda>_. f (chars l ! i)) l"
  by (simp add: upd_char_def)

lemma split_wide_good:
  assumes l: "good_line l" and x: "0 < x" "x < int (cols l)"
  shows "\<exists>l'. split_wide x l = Some l' \<and> good_line l' \<and> cols l' = cols l \<and> chr (chars l' ! nat x) \<noteq> UCSWIDE"
proof (cases "chr (chars l ! nat x) = UCSWIDE")
  case True
  obtain l1 where l1: "clear_cc_at (x - 1) l = Some l1" "good_line l1" "cols l1 = cols l" "cc_next (chars l1 ! nat (x - 1)) = 0"
    using clear_cc_keeps[OF l, of "x - 1"] x by auto
  have b: "nat (x - 1) < cols l" "nat x < cols l" "nat (x - 1) \<noteq> nat x" using x by linarith+
  obtain l2 where l2: "clear_cc_at x l1 = Some l2" "good_line l2" "cols l2 = cols l" "cc_next (chars l2 ! nat x) = 0"
    "cell_ccs l2 (nat (x - 1)) = cell_ccs l1 (nat (x - 1))"
    using clear_cc_keeps[OF l1(2), of x] x b l1(3) by auto
  have e1: "cell_ccs l1 (nat (x - 1)) = []"
    using clear_cc_keeps[OF l, of "x - 1"] x b l1(1) by auto
  have z: "cc_next (chars l2 ! nat (x - 1)) = 0"
  proof -
    obtain ch fr where c: "chains l2 ch fr" using good_line_ok[OF l2(2)] by (auto simp: line_ok_def)
    have "length (cell_ccs l2 (nat (x - 1))) = length (ch (nat (x - 1)))"
      using chains_chars[OF c, of "nat (x - 1)"] b l2(3) by simp
    then have "ch (nat (x - 1)) = []" using l2(5) e1 by simp
    then show ?thesis using chains_path[OF c, of "nat (x - 1)"] b l2(3) by simp
  qed
  define s where "s = (chars l2 ! nat (x - 1))\<lparr>chr := 0x20 OR CSET_ASCII\<rparr>"
  have s: "chr s \<noteq> UCSWIDE" "cc_next s = 0" "attr s < 0x80000000"
    using z good_cellD(1)[OF l2(2), of "nat (x - 1)"] b l2(3) by (auto simp: s_def CSET_ASCII_def UCSWIDE_def)
  define l3 where "l3 = upd_char (nat (x - 1)) (\<lambda>_. s) l2"
  have l3: "good_line l3" "cols l3 = cols l"
    using upd_char_good[OF l2(2), of "nat (x - 1)" s] s z b l2(3) by (auto simp: l3_def)
  have c3: "chars l3 ! nat x = chars l2 ! nat x" "chars l3 ! nat (x - 1) = s"
    using b good_line_length[OF l2(2)] l2(3) by (auto simp: l3_def upd_char_def)
  have l4: "good_line (upd_char (nat x) (\<lambda>_. s) l3)" "cols (upd_char (nat x) (\<lambda>_. s) l3) = cols l"
    using upd_char_good[OF l3(1), of "nat x" s] s b l2(4) l3(2) c3(1) by auto
  have "split_wide x l = Some (upd_char (nat x) (\<lambda>_. s) l3)"
    using True l1(1) l2(1) c3(2)
    by (simp add: split_wide_def Let_def l3_def s_def upd_char_const[of "nat (x - 1)" "\<lambda>c. c\<lparr>chr := 0x20 OR CSET_ASCII\<rparr>"])
  moreover have "chars (upd_char (nat x) (\<lambda>_. s) l3) ! nat x = s"
    using b good_line_length[OF l3(1)] l3(2) by (simp add: upd_char_def)
  ultimately show ?thesis using l4 s by auto
qed (use l in \<open>simp add: split_wide_def\<close>)

lemma moved_cells_good:
  assumes l: "good_line l" and j: "j < cols l" and w: "i = 0 \<longrightarrow> chr (chars l ! j) \<noteq> UCSWIDE"
  shows "good_cells ((cells l)[i := cell l j, j := clear_acc (cell l j)])"
proof -
  have "good_cells ((cells l)[i := (chr (chars l ! j), attr (chars l ! j), cell_ccs l j)])"
    using l w good_cellD(1,2)[OF l j] by (intro good_cells_update) (simp_all add: good_line_def)
  then have "good_cells (((cells l)[i := cell l j])[j := (chr (chars l ! j), attr (chars l ! j), [])])"
    using good_cellD(1,4)[OF l j] by (intro good_cells_update) (simp_all add: cell_parts)
  then show ?thesis by (simp add: clear_acc_def cell_parts)
qed

lemma nat_bounds:
  "0 \<le> d \<Longrightarrow> d < int (cols l) \<Longrightarrow> 0 \<le> s \<Longrightarrow> s < int (cols l) \<Longrightarrow> d \<noteq> s \<Longrightarrow>
   nat d < cols l \<and> nat s < cols l \<and> nat d \<noteq> nat s"
  by auto

lemma move_cells_keeps:
  "good_line l \<Longrightarrow> (\<forall>(d, s) \<in> set ms. 0 < d \<and> d < int (cols l) \<and> 0 \<le> s \<and> s < int (cols l) \<and> d \<noteq> s) \<Longrightarrow>
   keeps (move_cells ms l) l"
proof (induction ms arbitrary: l)
  case Nil
  then show ?case by (simp add: keeps_def)
next
  case (Cons a ms)
  obtain d s where a: "a = (d, s)" by (cases a)
  have b: "0 < d" "d < int (cols l)" "0 \<le> s" "s < int (cols l)" "d \<noteq> s" using Cons.prems(2) a by auto
  obtain l' where l': "move_termchar l (nat d) (nat s) = Some l'" "line_ok l'" "same_but_cells l l'"
    "cells l' = (cells l)[nat d := cell l (nat s), nat s := clear_acc (cell l (nat s))]"
    using move_termchar_ok[OF good_line_ok[OF Cons.prems(1)], of "nat d" "nat s"] nat_bounds[of d l s] b by auto
  have "good_cells (cells l')"
    unfolding l'(4) by (rule moved_cells_good[OF Cons.prems(1)]) (use b in auto)
  then have g: "good_line l'" "cols l' = cols l" using l' by (auto simp: good_line_def same_but_cells_def)
  have "keeps (move_cells ms l') l'" by (rule Cons.IH[OF g(1)]) (use Cons.prems(2) g(2) in auto)
  moreover have "s < int (length (chars l))" using b good_line_length[OF Cons.prems(1)] by simp
  ultimately show ?case using b g l'(1) by (auto simp: a keeps_def)
qed

text \<open>The first move of a deletion may fill the first column, with a character that is not half.\<close>

lemma move_cells_first:
  assumes l: "good_line l" and b: "0 \<le> d" "d < int (cols l)" "0 \<le> s" "s < int (cols l)" "d \<noteq> s"
    and w: "d = 0 \<longrightarrow> chr (chars l ! nat s) \<noteq> UCSWIDE"
    and ms: "\<forall>(d, s) \<in> set ms. 0 < d \<and> d < int (cols l) \<and> 0 \<le> s \<and> s < int (cols l) \<and> d \<noteq> s"
  shows "keeps (move_cells ((d, s) # ms) l) l"
proof -
  obtain l' where l': "move_termchar l (nat d) (nat s) = Some l'" "line_ok l'" "same_but_cells l l'"
    "cells l' = (cells l)[nat d := cell l (nat s), nat s := clear_acc (cell l (nat s))]"
    using move_termchar_ok[OF good_line_ok[OF l], of "nat d" "nat s"] nat_bounds[of d l s] b by auto
  have "good_cells (cells l')"
    unfolding l'(4) by (rule moved_cells_good[OF l]) (use b w in auto)
  then have g: "good_line l'" "cols l' = cols l" using l' by (auto simp: good_line_def same_but_cells_def)
  have "keeps (move_cells ms l') l'" by (rule move_cells_keeps[OF g(1)]) (use ms g(2) in auto)
  moreover have "s < int (length (chars l))" using b good_line_length[OF l] by simp
  ultimately show ?thesis using b g l'(1) by (auto simp: keeps_def)
qed

lemma add_cc_keeps:
  assumes l: "good_line l" and x: "x < cols l" and c: "c \<noteq> 0"
  shows "keeps (add_cc jk l x c) l"
proof -
  obtain l' where l': "add_cc jk l x c = Some l'" "line_ok l'" "same_but_cells l l'"
    "cells l' = (cells l)[x := (chr (chars l ! x), attr (chars l ! x), cell_ccs l x @ [c])]"
    using add_cc_ok[OF good_line_ok[OF l] x, of jk c] by blast
  have "good_cells (cells l')"
    using l good_cellD[OF l x] c unfolding l'(4) by (auto simp: good_line_def intro!: good_cells_update)
  then show ?thesis using l' by (auto simp: keeps_def good_line_def same_but_cells_def)
qed

lemma newline_good:
  assumes "good_char e" "good_char b" "0 < n"
  shows "good_line (newline e b n bce)" "cols (newline e b n bce) = n"
  using newline_ok[of e b n bce] assms by (auto simp: good_line_def good_cells_def good_char_def newline_def)

lemma line_blank_total:
  assumes l: "good_line l" and e: "good_char e" and "\<forall>j \<in> set js. j < cols l"
  shows "\<exists>b. line_blank e l js = Some b"
proof -
  define m where "m = \<lparr>lattr = 0, cols = 1, temporary = False, cc_free = 0, chars = [e]\<rparr>"
  have m: "line_ok m" using fresh_line[of m] e by (auto simp: m_def good_char_def)
  have cm: "cols m = 1" "chars m = [e]" by (simp_all add: m_def)
  have "\<exists>b. termchars_equal (chars l) j [e] 0 = Some b" if "j < cols l" for j
    using termchars_equal_ok[OF good_line_ok[OF l] that m, of 0] unfolding cm by simp
  then show ?thesis using assms(3)
  proof (induction js)
    case (Cons j js)
    obtain b where "termchars_equal (chars l) j [e] 0 = Some b" using Cons.prems by (meson list.set_intros(1))
    then show ?case using Cons.IH Cons.prems by (cases b) auto
  qed auto
qed

lemma last_nonempty_total:
  assumes "good_char e" "\<forall>l \<in> set ls. good_line l"
  shows "n \<le> length ls \<Longrightarrow> \<exists>i. last_nonempty e ls n = Some i \<and> - 1 \<le> i \<and> i < int n"
proof (induction n)
  case (Suc n)
  obtain b where "line_blank e (ls ! n) [0..<cols (ls ! n)] = Some b"
    using line_blank_total[of "ls ! n" e "[0..<cols (ls ! n)]"] assms Suc.prems by auto
  then show ?case using Suc by (cases b) auto
qed simp

section \<open>The scrollback\<close>

definition stored_line :: "byte list \<Rightarrow> bool" where
  "stored_line bs \<longleftrightarrow> (\<exists>l. good_line l \<and> compressline l = Some bs)"

lemma good_line_stored:
  assumes "good_line l"
  shows "\<exists>bs l'. compressline l = Some bs \<and> decompressline jk jl (Some bs) = Some (l', length bs)
    \<and> good_line l' \<and> cols l' = cols l \<and> lattr l' = lattr l \<and> cells l' = cells l"
proof -
  have "\<forall>i < cols l. attr (chars l ! i) < 0x80000000 \<and> 0 \<notin> set (cell_ccs l i)"
    using good_cellD[OF assms] by blast
  from compressline_stored[OF good_line_ok[OF assms] this, of jk jl "[]"]
  show ?thesis using assms by (auto simp: good_line_def)
qed

lemma stored_lineE:
  assumes "stored_line bs"
  obtains l n where "decompressline jk jl (Some bs) = Some (l, n)" "good_line l"
proof -
  obtain m where m: "good_line m" "compressline m = Some bs" using assms by (auto simp: stored_line_def)
  then show ?thesis using good_line_stored[OF m(1), of jk jl] that by auto
qed

lemma compress_good:
  assumes "good_line l"
  obtains bs where "compressline l = Some bs" "stored_line bs"
  using good_line_stored[OF assms] assms that by (metis stored_line_def)

end
