(* ===== verification/Term_Modes.thy ===== *)
theory Term_Modes
  imports Term_Screen
begin

text \<open>
  The operations of \<open>putty/terminal.c\<close> that change the terminal as a whole: the alternate
  screen, the power-on state, clearing the scrollback, a change of the size, the mode switches
  and the OSC strings.  \<open>request_resize\<close> asks the front end for another size; the change itself
  is a later call of \<open>term_size\<close>.
\<close>

section \<open>The two screens\<close>

definition swap_screen :: "config \<Rightarrow> bool \<Rightarrow> bool \<Rightarrow> bool \<Rightarrow> terminal \<Rightarrow> terminal option" where
  "swap_screen cf which reset0 keep_cur_pos t =
     (let reset = (if \<not> which then False else reset0) in
      do { t1 \<leftarrow> (if which \<noteq> alt_which (scr t)
                  then do { n \<leftarrow> find_last_nonempty_line t (screen (scr t));
                            let new_now = (if reset then now t
                                           else if keep_cur_pos then (alt t)\<lparr>curs := curs (now t)\<rparr>
                                           else alt t);
                            let new_sav = (if \<not> reset \<and> \<not> keep_cur_pos then alt_sav t else sav t);
                            Some (set_scr (\<lambda>s. s\<lparr>alt_which := which, screen := alt_screen s, alt_screen := screen s,
                                                  alt_sblines := n + 1\<rparr>)
                                   (t\<lparr>now := new_now, alt := now t, sav := new_sav, alt_sav := sav t\<rparr>)) }
                  else Some t);
           if reset \<and> screen (scr t1) \<noteq> [] then erase_lots cf False True True t1 else Some t1 })"

text \<open>
  Below the last line with contents, which scrolls the screen when that is the last line; the
  common end of \<open>power_on\<close> and of the first part of \<open>term_clrsb\<close>.
\<close>

definition below_contents :: "config \<Rightarrow> terminal \<Rightarrow> terminal option" where
  "below_contents cf t =
     do { n \<leftarrow> find_last_nonempty_line t (screen (scr t));
          if n + 1 = rows t
          then scroll cf 0 (rows t - 1) 1 True (set_curs (curs_x t) n t)
          else Some (set_curs (curs_x t) (n + 1) t) }"

definition power_on_half :: "config \<Rightarrow> terminal \<Rightarrow> pos \<Rightarrow> half" where
  "power_on_half cf t p =
     \<lparr>curs = p, marg_t = 0, marg_b = (if rows t \<noteq> - 1 then rows t - 1 else 0), dec_om = cfg_dec_om cf,
      wrap = cfg_wrap_mode cf, wrapnext = False, insert_mode = False, cset = 0, utf = False, sco_acs = 0\<rparr>"

definition power_on_saved :: saved where
  "power_on_saved =
     \<lparr>savecurs = \<lparr>py = 0, px = 0\<rparr>, save_attr = ATTR_DEFAULT, save_cset = 0, save_csattr = CSET_ASCII,
      save_utf = False, save_wnext = False, save_sco_acs = 0\<rparr>"

definition power_on_state :: "config \<Rightarrow> terminal \<Rightarrow> terminal" where
  "power_on_state cf t =
     t\<lparr>now := power_on_half cf t (curs (now t)), alt := power_on_half cf t \<lparr>py = 0, px = 0\<rparr>,
       sav := power_on_saved, alt_sav := power_on_saved,
       tabs := (if columns t \<noteq> - 1 then List.map (\<lambda>i. i mod 8 = 0) [0..columns t - 1] else tabs t),
       esc := (esc t)\<lparr>utf_state := 0\<rparr>,
       pen := (pen t)\<lparr>cset_attr := [CSET_ASCII, CSET_ASCII], default_attr := ATTR_DEFAULT,
                      curr_attr := ATTR_DEFAULT, use_bce := cfg_bce cf, erase_char := basic_erase_char (pen t)\<rparr>,
       disp := (disp t)\<lparr>rvideo := False, in_vbell := False, cursor_on := True, big_cursor := False,
                        blink_is_real := blinktext cf\<rparr>,
       mode := (mode t)\<lparr>term_editing := False, term_echoing := False, app_cursor_keys := cfg_app_cursor cf,
                        app_keypad_keys := cfg_app_keypad cf\<rparr>,
       scr := (scr t)\<lparr>alt_which := False\<rparr>\<rparr>"

definition power_on_mouse :: "config \<Rightarrow> terminal \<Rightarrow> terminal" where
  "power_on_mouse cf t =
     set_sel (\<lambda>s. s\<lparr>wordness := cfg_wordness cf\<rparr>)
       (set_mode (\<lambda>m. m\<lparr>bracketed_paste := False\<rparr>)
         (emit (Set_raw_mouse_mode False)
           (set_mode (\<lambda>m. m\<lparr>xterm_mouse := 0, xterm_extended_mouse := False, urxvt_extended_mouse := False\<rparr>) t)))"

definition power_on :: "config \<Rightarrow> bool \<Rightarrow> terminal \<Rightarrow> terminal option" where
  "power_on cf clear t =
     do { t1 \<leftarrow> term_print_finish (power_on_state cf t);
          let t2 = power_on_mouse cf t1;
          t3 \<leftarrow> (if screen (scr t2) \<noteq> []
                 then do { a \<leftarrow> swap_screen cf True False False t2;
                           b \<leftarrow> erase_lots cf False True True a;
                           c \<leftarrow> swap_screen cf False False False b;
                           d \<leftarrow> (if clear then erase_lots cf False True True c else Some c);
                           below_contents cf d }
                 else Some (set_curs (curs_x t2) 0 t2));
          Some (term_schedule_cblink cf (term_schedule_tblink (set_curs 0 (curs_y t3) t3))) }"

fun size_lines :: "nat \<Rightarrow> terminal \<Rightarrow> terminal option" where
  "size_lines 0 t = Some t"
| "size_lines (Suc i) t =
     do { t1 \<leftarrow> size_lines i t;
          t2 \<leftarrow> scrlineptr (int i) t1;
          edit_line (int i) (check_line_size t2) t2 }"

definition term_clrsb :: "config \<Rightarrow> terminal \<Rightarrow> terminal option" where
  "term_clrsb cf t =
     do { n \<leftarrow> find_last_nonempty_line t (screen (scr t));
          t1 \<leftarrow> (if curs_y t \<ge> n + 1 \<and> curs_x t = 0
                 then (if screen (scr t) \<noteq> []
                       then do { a \<leftarrow> swap_screen cf True False False t;
                                 b \<leftarrow> erase_lots cf False True True a;
                                 c \<leftarrow> swap_screen cf False False False b;
                                 d \<leftarrow> erase_lots cf False True True c;
                                 e \<leftarrow> below_contents cf d;
                                 Some (set_curs 0 (curs_y e) e) }
                       else Some (set_curs 0 0 t))
                 else Some t);
          t2 \<leftarrow> size_lines (nat (rows t1)) (set_scr (\<lambda>s. s\<lparr>disptop := 0, scrollback := []\<rparr>) t1);
          Some (update_sbar cf (set_scr (\<lambda>s. s\<lparr>tempsblines := 0, alt_sblines := 0\<rparr>) t2)) }"

section \<open>A change of the size\<close>

text \<open>All four row counters of \<open>term_size\<close> move together.\<close>

definition shift_rows :: "int \<Rightarrow> terminal \<Rightarrow> terminal" where
  "shift_rows d t =
     t\<lparr>now := (now t)\<lparr>curs := (curs (now t))\<lparr>py := py (curs (now t)) + d\<rparr>\<rparr>,
       alt := (alt t)\<lparr>curs := (curs (alt t))\<lparr>py := py (curs (alt t)) + d\<rparr>\<rparr>,
       sav := (sav t)\<lparr>savecurs := (savecurs (sav t))\<lparr>py := py (savecurs (sav t)) + d\<rparr>\<rparr>,
       alt_sav := (alt_sav t)\<lparr>savecurs := (savecurs (alt_sav t))\<lparr>py := py (savecurs (alt_sav t)) + d\<rparr>\<rparr>\<rparr>"

definition grow_one :: "config \<Rightarrow> int \<Rightarrow> terminal \<Rightarrow> terminal option" where
  "grow_one cf newcols t =
     (let s = scr t in
      do { t1 \<leftarrow>
             (if tempsblines s > 0
              then if \<not> int (length (scrollback s)) \<ge> tempsblines s then None
                   else do { (cline, sb) \<leftarrow> del_line (int (length (scrollback s)) - 1) (scrollback s);
                             (l, used) \<leftarrow> decompressline (junk cf) 0 (Some cline);
                             Some (shift_rows 1
                               (set_scr (\<lambda>s. s\<lparr>scrollback := sb, tempsblines := tempsblines s - 1,
                                               screen := insert_nth 0 (l\<lparr>temporary := False\<rparr>) (screen s)\<rparr>) t)) }
              else Some (set_scr (\<lambda>s. s\<lparr>screen := insert_nth (length (screen s))
                           (newline (erase_char (pen t)) (basic_erase_char (pen t)) (nat newcols) False) (screen s)\<rparr>) t));
           Some (t1\<lparr>rows := rows t1 + 1\<rparr>) })"

definition shrink_one :: "terminal \<Rightarrow> terminal option" where
  "shrink_one t =
     do { t1 \<leftarrow>
            (if curs_y t < rows t - 1
             then do { (l, ls) \<leftarrow> del_line (rows t - 1) (screen (scr t));
                       Some (set_scr (\<lambda>s. s\<lparr>screen := ls\<rparr>) t) }
             else do { (l, ls) \<leftarrow> del_line 0 (screen (scr t));
                       cline \<leftarrow> compressline l;
                       Some (shift_rows (- 1)
                         (set_scr (\<lambda>s. s\<lparr>screen := ls, scrollback := insert_nth (length (scrollback s)) cline (scrollback s),
                                         tempsblines := tempsblines s + 1\<rparr>) t)) });
          Some (t1\<lparr>rows := rows t1 - 1\<rparr>) }"

definition clamp :: "int \<Rightarrow> int \<Rightarrow> int" where
  "clamp n y = (let y1 = (if y < 0 then 0 else y) in if y1 \<ge> n then n - 1 else y1)"

definition fit_pos :: "int \<Rightarrow> int \<Rightarrow> pos \<Rightarrow> pos" where
  "fit_pos newrows newcols p =
     \<lparr>py = clamp newrows (py p), px = (if px p \<ge> newcols then newcols - 1 else px p)\<rparr>"

text \<open>
  \<open>term_update\<close> without its painting: \<open>do_paint\<close>, which draws and refreshes the copy of the screen
  kept for drawing, is left out.  \<open>controller_active\<close> and \<open>has_context\<close> are the answers of
  \<open>is_controller_active\<close> and \<open>get_ctx\<close>.
\<close>

definition term_update :: "config \<Rightarrow> terminal \<Rightarrow> terminal" where
  "term_update cf t =
     (if \<not> controller_active cf then t
      else let t1 = set_disp (\<lambda>d. d\<lparr>window_update_pending := False\<rparr>) t in
        if has_context cf then
          let back = (seen_disp (disp t1) \<and> scroll_on_disp cf \<and> scroll_to_end (scr t1));
              t2 = (if back then set_disp (\<lambda>d. d\<lparr>seen_disp := False\<rparr>) (set_scr (\<lambda>s. s\<lparr>disptop := 0\<rparr>) t1) else t1)
          in if seen_disp (disp t1) then update_sbar cf t2 else t2
        else t1)"

definition new_tabs :: "int \<Rightarrow> int \<Rightarrow> bool list \<Rightarrow> bool list" where
  "new_tabs oldcols newcols ts =
     take (nat newcols) ts @ List.map (\<lambda>i. i mod 8 = 0) [(if oldcols > 0 then oldcols else 0)..newcols - 1]"

definition size_rows :: "config \<Rightarrow> int \<Rightarrow> int \<Rightarrow> terminal \<Rightarrow> terminal option" where
  "size_rows cf newrows newcols t =
     (if rows t \<noteq> int (length (screen (scr t))) then None
      else do {
        t1 \<leftarrow> repeat_op (nat (newrows - rows t)) (grow_one cf newcols) t;
        t2 \<leftarrow> repeat_op (nat (rows t1 - newrows)) shrink_one t1;
        if rows t2 \<noteq> newrows \<or> int (length (screen (scr t2))) \<noteq> newrows then None else Some t2 })"

definition size_rest :: "config \<Rightarrow> int \<Rightarrow> int \<Rightarrow> int \<Rightarrow> bool \<Rightarrow> terminal \<Rightarrow> terminal option" where
  "size_rest cf newrows newcols newsavelines save_alt_which t =
     (let s = scr t;
          sb = drop (nat (int (length (scrollback s)) - newsavelines)) (scrollback s);
          temps = (if int (length sb) < tempsblines s then int (length sb) else tempsblines s)
      in if \<not> int (length sb) \<le> newsavelines \<or> \<not> int (length sb) \<ge> temps then None
         else do {
           let newalt = replicate (nat newrows)
             (newline (erase_char (pen t)) (basic_erase_char (pen t)) (nat newcols) True);
           let t1 = set_scr (\<lambda>s. s\<lparr>scrollback := sb, tempsblines := temps, disptop := 0,
                                   alt_screen := newalt, alt_sblines := 0\<rparr>)
             (t\<lparr>tabs := new_tabs (columns t) newcols (tabs t),
                sav := (sav t)\<lparr>savecurs := fit_pos newrows newcols (savecurs (sav t))\<rparr>,
                alt_sav := (alt_sav t)\<lparr>savecurs := fit_pos newrows newcols (savecurs (alt_sav t))\<rparr>,
                now := (now t)\<lparr>curs := fit_pos newrows newcols (curs (now t)), wrapnext := False\<rparr>,
                alt := (alt t)\<lparr>curs := \<lparr>py = 0, px = 0\<rparr>, wrapnext := False\<rparr>,
                rows := newrows, columns := newcols, savelines := newsavelines\<rparr>);
           t2 \<leftarrow> swap_screen cf save_alt_which False False t1;
           let t3 = term_update cf (update_sbar cf t2);
           Some (if has_resize_fn cf then emit (Resized (columns t3) (rows t3)) t3 else t3) })"

definition term_size :: "config \<Rightarrow> int \<Rightarrow> int \<Rightarrow> int \<Rightarrow> terminal \<Rightarrow> terminal option" where
  "term_size cf newrows0 newcols0 newsavelines t =
     (if newrows0 = rows t \<and> newcols0 = columns t \<and> newsavelines = savelines t then Some t
      else
        let newrows = (if newrows0 < 1 then 1 else newrows0);
            newcols = (if newcols0 < 1 then 1 else newcols0)
        in do {
          t1 \<leftarrow> swap_screen cf False False False (deselect t);
          let t2 = t1\<lparr>now := (now t1)\<lparr>marg_t := 0, marg_b := newrows - 1\<rparr>,
                      alt := (alt t1)\<lparr>marg_t := 0, marg_b := newrows - 1\<rparr>\<rparr>;
          let t3 = (if rows t2 = - 1
                    then set_scr (\<lambda>s. s\<lparr>scrollback := [], screen := [], tempsblines := 0\<rparr>) (t2\<lparr>rows := 0\<rparr>)
                    else t2);
          t4 \<leftarrow> size_rows cf newrows newcols t3;
          size_rest cf newrows newcols newsavelines (alt_which (scr t)) t4 })"

section \<open>Mode switches\<close>

definition has_compat :: "16 word \<Rightarrow> terminal \<Rightarrow> bool" where
  "has_compat x t \<longleftrightarrow> x AND compatibility_level (esc t) \<noteq> 0"

definition set_state :: "termstate \<Rightarrow> terminal \<Rightarrow> terminal" where
  "set_state s t = set_esc (\<lambda>p. p\<lparr>termstate := s\<rparr>) t"

text \<open>The macros \<open>compatibility\<close> and \<open>compatibility2\<close>: the rest is skipped at too low a level.\<close>

definition compatibility :: "16 word \<Rightarrow> (terminal \<Rightarrow> terminal option) \<Rightarrow> terminal \<Rightarrow> terminal option" where
  "compatibility x f t = (if has_compat x t then f t else Some (set_state TOPLEVEL t))"

definition to_bottom :: "config \<Rightarrow> terminal \<Rightarrow> terminal" where
  "to_bottom cf t = (if scroll_on_disp cf then set_scr (\<lambda>s. s\<lparr>disptop := 0\<rparr>) t else t)"

definition alternate :: "config \<Rightarrow> bool \<Rightarrow> bool \<Rightarrow> bool \<Rightarrow> terminal \<Rightarrow> terminal option" where
  "alternate cf state reset keep t =
     swap_screen cf (if no_alt_screen cf then False else state) reset keep (deselect t)"

definition mode_columns :: "config \<Rightarrow> bool \<Rightarrow> terminal \<Rightarrow> terminal option" where
  "mode_columns cf state t =
     (let t1 = deselect t;
          t2 = (if \<not> no_remote_resize cf then emit (Request_resize (if state then 132 else 80) (rows t1)) t1 else t1);
          t3 = set_mode (\<lambda>m. m\<lparr>reset_132 := state\<rparr>) t2;
          t4 = t3\<lparr>now := (now t3)\<lparr>marg_t := 0, marg_b := rows t3 - 1\<rparr>,
                  alt := (alt t3)\<lparr>marg_t := 0, marg_b := rows t3 - 1\<rparr>\<rparr>
      in erase_lots cf False True True (move 0 0 0 t4))"

definition mode_video :: "bool \<Rightarrow> terminal \<Rightarrow> terminal" where
  "mode_video state t =
     (let t1 = (if rvideo (disp t) \<and> \<not> state then term_schedule_vbell True (rvbell_startpoint (disp t)) t
                else if \<not> rvideo (disp t) \<and> state then set_disp (\<lambda>d. d\<lparr>rvbell_startpoint := ticks t\<rparr>) t
                else t)
      in seen_disp_event (set_disp (\<lambda>d. d\<lparr>rvideo := state\<rparr>) t1))"

definition mode_vt52 :: "config \<Rightarrow> bool \<Rightarrow> terminal \<Rightarrow> terminal" where
  "mode_vt52 cf on t =
     term_schedule_tblink
       (if on then set_disp (\<lambda>d. d\<lparr>blink_is_real := False\<rparr>) (set_mode (\<lambda>m. m\<lparr>vt52_mode := True, vt52_bold := False\<rparr>) t)
        else set_disp (\<lambda>d. d\<lparr>blink_is_real := blinktext cf\<rparr>) (set_mode (\<lambda>m. m\<lparr>vt52_mode := False\<rparr>) t))"

definition echoedit_update :: "config \<Rightarrow> terminal \<Rightarrow> terminal" where
  "echoedit_update cf t = (if has_ldisc cf then emit Echoedit_update t else t)"

definition seen_if :: "bool \<Rightarrow> terminal \<Rightarrow> terminal" where
  "seen_if b t = (if b then seen_disp_event t else t)"

definition mode_mouse :: "nat \<Rightarrow> bool \<Rightarrow> terminal \<Rightarrow> terminal" where
  "mode_mouse n state t =
     emit (Set_raw_mouse_mode state) (set_mode (\<lambda>m. m\<lparr>xterm_mouse := (if state then n else 0)\<rparr>) t)"

definition dec_mode :: "config \<Rightarrow> int \<Rightarrow> bool \<Rightarrow> terminal \<Rightarrow> terminal option" where
  "dec_mode cf md state t =
     (if md = 1 then Some (set_mode (\<lambda>m. m\<lparr>app_cursor_keys := state\<rparr>) t)
      else if md = 2 then Some (mode_vt52 cf (\<not> state) t)
      else if md = 3 then mode_columns cf state t
      else if md = 5 then Some (mode_video state t)
      else if md = 6 then Some (set_now (\<lambda>h. h\<lparr>dec_om := state\<rparr>) t)
      else if md = 7 then Some (set_now (\<lambda>h. h\<lparr>wrap := state\<rparr>) t)
      else if md = 8 then Some (set_mode (\<lambda>m. m\<lparr>repeat_off := \<not> state\<rparr>) t)
      else if md = 10 then Some (echoedit_update cf (set_mode (\<lambda>m. m\<lparr>term_editing := state\<rparr>) t))
      else if md = 25 then
        compatibility (CL_OTHER OR CL_VT220) (\<lambda>t. Some (seen_disp_event (set_disp (\<lambda>d. d\<lparr>cursor_on := state\<rparr>) t))) t
      else if md = 47 then
        compatibility CL_OTHER (\<lambda>t. do { t' \<leftarrow> alternate cf state False False t; Some (to_bottom cf t') }) t
      else if md = 1000 then Some (mode_mouse 1 state t)
      else if md = 1002 then Some (mode_mouse 2 state t)
      else if md = 1006 then Some (set_mode (\<lambda>m. m\<lparr>xterm_extended_mouse := state\<rparr>) t)
      else if md = 1015 then Some (set_mode (\<lambda>m. m\<lparr>urxvt_extended_mouse := state\<rparr>) t)
      else if md = 1047 then
        compatibility CL_OTHER (\<lambda>t. do { t' \<leftarrow> alternate cf state True True t; Some (to_bottom cf t') }) t
      else if md = 1048 then
        do { t1 \<leftarrow> (if \<not> no_alt_screen cf then save_cursor state t else Some t); Some (seen_if (\<not> state) t1) }
      else if md = 1049 then
        do { t1 \<leftarrow> (if state \<and> \<not> no_alt_screen cf then save_cursor state t else Some t);
             compatibility CL_OTHER
               (\<lambda>t. do { t2 \<leftarrow> alternate cf state True False t;
                         t3 \<leftarrow> (if \<not> state \<and> \<not> no_alt_screen cf then save_cursor state t2 else Some t2);
                         Some (to_bottom cf t3) }) (seen_if (\<not> state) t1) }
      else if md = 2004 then Some (set_mode (\<lambda>m. m\<lparr>bracketed_paste := state\<rparr>) t)
      else Some t)"

definition ansi_mode :: "config \<Rightarrow> int \<Rightarrow> bool \<Rightarrow> terminal \<Rightarrow> terminal option" where
  "ansi_mode cf md state t =
     (if md = 4 then compatibility CL_VT102 (\<lambda>t. Some (set_now (\<lambda>h. h\<lparr>insert_mode := state\<rparr>) t)) t
      else if md = 12 then Some (echoedit_update cf (set_mode (\<lambda>m. m\<lparr>term_echoing := \<not> state\<rparr>) t))
      else if md = 20 then Some (set_mode (\<lambda>m. m\<lparr>cr_lf_return := state\<rparr>) t)
      else if md = 34 then
        compatibility (CL_OTHER OR CL_VT220) (\<lambda>t. Some (set_disp (\<lambda>d. d\<lparr>big_cursor := \<not> state\<rparr>) t)) t
      else Some t)"

definition toggle_mode :: "config \<Rightarrow> int \<Rightarrow> bool \<Rightarrow> bool \<Rightarrow> terminal \<Rightarrow> terminal option" where
  "toggle_mode cf md query state t = (if query then dec_mode cf md state t else ansi_mode cf md state t)"

section \<open>OSC strings\<close>

text \<open>The string up to its first NUL, after \<open>osc_string[osc_strlen] = '\0'\<close>.\<close>

definition osc_text :: "parser \<Rightarrow> byte list" where
  "osc_text p = takeWhile (\<lambda>b. b \<noteq> 0) (osc_string p)"

definition do_osc :: "config \<Rightarrow> terminal \<Rightarrow> terminal option" where
  "do_osc cf t =
     (let p = esc t; a = esc_args p ! 0; n = nat (osc_strlen p) in
      if \<not> (0 \<le> osc_strlen p \<and> osc_strlen p < int (length (osc_string p))) then None
      else if osc_w p then
        Some (set_esc (\<lambda>p. p\<lparr>osc_strlen := - 1\<rparr>)
          (set_sel (\<lambda>s. s\<lparr>wordness := (\<lambda>b. if b \<in> set (take n (osc_string p)) then sint (word_of_int a :: 16 word)
                                         else wordness s b)\<rparr>) t))
      else
        let t1 = set_esc (\<lambda>p. p\<lparr>osc_string := (osc_string p)[n := 0]\<rparr>) t;
            str = osc_text (esc t1);
            t2 = (if (a = 0 \<or> a = 1) \<and> \<not> no_remote_wintitle cf then emit (Set_icon str) t1 else t1)
        in Some (if (a = 0 \<and> \<not> cfg_no_remote_tabname cf) \<or> a = 2 \<or> a = 21
                 then (if \<not> no_remote_wintitle cf then emit (Set_title str) t2 else t2)
                 else t2))"

end
