(* ===== verification/Term_Inv.thy ===== *)
theory Term_Inv
  imports Term_Lines Term_Modes
begin

text \<open>
  The invariant of the terminal, and that the operations on the screen are defined in every
  state that satisfies it and keep it.  \<open>sat m Q\<close> says that \<open>m\<close> does not fail and its
  result satisfies \<open>Q\<close>; the operations are composed with the rule for \<open>\<bind>\<close>.
\<close>

section \<open>The invariant\<close>

definition good_half :: "int \<Rightarrow> int \<Rightarrow> half \<Rightarrow> bool" where
  "good_half r c h \<longleftrightarrow>
     0 \<le> px (curs h) \<and> px (curs h) < c \<and> 0 \<le> py (curs h) \<and> py (curs h) < r
   \<and> 0 \<le> marg_t h \<and> marg_t h \<le> marg_b h \<and> marg_b h < r \<and> cset h < 2"

definition good_saved :: "saved \<Rightarrow> bool" where
  "good_saved s \<longleftrightarrow>
     0 \<le> px (savecurs s) \<and> 0 \<le> py (savecurs s) \<and> save_cset s < 2 \<and> save_attr s < 0x80000000"

definition good_pen :: "pen \<Rightarrow> bool" where
  "good_pen p \<longleftrightarrow>
     good_char (basic_erase_char p) \<and> good_char (erase_char p) \<and> curr_attr p < 0x80000000
   \<and> default_attr p < 0x80000000 \<and> length (cset_attr p) = 2"

text \<open>The selection is not reversed, and an empty one begins a line, as that of \<open>deselect\<close>.\<close>

definition good_sel :: "selection \<Rightarrow> bool" where
  "good_sel s \<longleftrightarrow>
     0 \<le> px (selstart s) \<and> 0 \<le> px (selend s)
   \<and> (poslt (selstart s) (selend s) \<or> (selstart s = selend s \<and> px (selstart s) = 0))"

definition good_scr :: "int \<Rightarrow> int \<Rightarrow> screens \<Rightarrow> bool" where
  "good_scr r n s \<longleftrightarrow>
     int (length (screen s)) = r \<and> int (length (alt_screen s)) = r
   \<and> (\<forall>l \<in> set (screen s). good_line l) \<and> (\<forall>l \<in> set (alt_screen s). good_line l)
   \<and> (\<forall>bs \<in> set (scrollback s). stored_line bs)
   \<and> 0 \<le> tempsblines s \<and> tempsblines s \<le> int (length (scrollback s)) \<and> int (length (scrollback s)) \<le> n"

text \<open>The arguments of a control sequence: at least one, none of them negative.\<close>

definition csi_args :: "parser \<Rightarrow> bool" where
  "csi_args p \<longleftrightarrow>
     1 \<le> esc_nargs p \<and> esc_nargs p \<le> ARGS_MAX \<and> (\<forall>i < esc_nargs p. 0 \<le> esc_args p ! i \<and> esc_args p ! i < 0x80000000)"

definition good_esc :: "parser \<Rightarrow> bool" where
  "good_esc p \<longleftrightarrow>
     length (esc_args p) = ARGS_MAX
   \<and> (termstate p = SEEN_CSI \<longrightarrow> csi_args p)
   \<and> length (osc_string p) = OSC_STR_MAX + 1
   \<and> (termstate p = OSC_STRING \<or> termstate p = OSC_MAYBE_ST \<longrightarrow> 0 \<le> osc_strlen p \<and> osc_strlen p \<le> int OSC_STR_MAX)
   \<and> (termstate p = SEEN_OSC_P \<longrightarrow> 0 \<le> osc_strlen p \<and> osc_strlen p < 7)"

definition term_ok :: "terminal \<Rightarrow> bool" where
  "term_ok t \<longleftrightarrow>
     1 \<le> rows t \<and> rows t < 0x80000000 \<and> 2 \<le> columns t \<and> columns t < 0x80000000 \<and> 0 \<le> savelines t
   \<and> int (length (tabs t)) = columns t
   \<and> good_half (rows t) (columns t) (now t) \<and> good_half (rows t) (columns t) (alt t)
   \<and> good_saved (sav t) \<and> good_saved (alt_sav t) \<and> good_scr (rows t) (savelines t) (scr t)
   \<and> good_pen (pen t) \<and> good_esc (esc t) \<and> good_sel (sel t) \<and> bufchain_ok (printer_buf (prn t))"

definition sat :: "'a option \<Rightarrow> ('a \<Rightarrow> bool) \<Rightarrow> bool" where
  "sat m Q \<longleftrightarrow> (\<exists>t. m = Some t \<and> Q t)"

lemma sat_Some [simp]: "sat (Some t) Q \<longleftrightarrow> Q t" by (simp add: sat_def)

lemma sat_bind:
  assumes "sat m Q" "\<And>t. Q t \<Longrightarrow> sat (f t) R"
  shows "sat (m \<bind> f) R"
  using assms by (auto simp: sat_def)

lemma sat_mono: "sat m Q \<Longrightarrow> (\<And>t. Q t \<Longrightarrow> R t) \<Longrightarrow> sat m R"
  by (auto simp: sat_def)

lemma satE:
  assumes "sat m Q" obtains t where "m = Some t" "Q t"
  using assms by (auto simp: sat_def)

text \<open>What the operations on lines and on the scrollback leave alone.\<close>

definition near :: "terminal \<Rightarrow> terminal \<Rightarrow> bool" where
  "near t t' \<longleftrightarrow>
     rows t' = rows t \<and> columns t' = columns t \<and> savelines t' = savelines t \<and> tabs t' = tabs t
   \<and> now t' = now t \<and> alt t' = alt t \<and> sav t' = sav t \<and> alt_sav t' = alt_sav t
   \<and> pen t' = pen t \<and> esc t' = esc t \<and> mode t' = mode t \<and> prn t' = prn t
   \<and> alt_which (scr t') = alt_which (scr t) \<and> alt_screen (scr t') = alt_screen (scr t)"

lemma near_refl [simp]: "near t t" by (simp add: near_def)

lemma near_trans: "near t t' \<Longrightarrow> near t' t'' \<Longrightarrow> near t t''" by (simp add: near_def)

lemma nearD:
  assumes "near t t'"
  shows "rows t' = rows t" "columns t' = columns t" "savelines t' = savelines t" "tabs t' = tabs t"
    "now t' = now t" "alt t' = alt t" "sav t' = sav t" "alt_sav t' = alt_sav t"
    "pen t' = pen t" "esc t' = esc t" "mode t' = mode t" "prn t' = prn t"
    "alt_which (scr t') = alt_which (scr t)" "alt_screen (scr t') = alt_screen (scr t)"
  using assms by (simp_all add: near_def)

definition kept :: "terminal \<Rightarrow> terminal \<Rightarrow> bool" where
  "kept t t' \<longleftrightarrow> term_ok t' \<and> near t t'"

lemma kept_trans: "kept t t' \<Longrightarrow> kept t' t'' \<Longrightarrow> kept t t''"
  by (auto simp: kept_def intro: near_trans)

lemma kept_refl: "term_ok t \<Longrightarrow> kept t t" by (simp add: kept_def)

section \<open>Simple updates\<close>

lemmas term_updates = set_curs_def set_wrapnext_def set_scr_def set_esc_def set_pen_def set_mode_def
  set_sel_def set_disp_def set_prn_def emit_def seen_disp_event_def term_schedule_update_def
  term_schedule_tblink_def term_schedule_cblink_def term_schedule_vbell_def term_invalidate_def
  update_sbar_def ldisc_send_event_def set_state_def to_bottom_def echoedit_update_def seen_if_def

lemma wf_pos:
  assumes "term_ok t"
  shows "0 \<le> curs_x t" "curs_x t < columns t" "0 \<le> curs_y t" "curs_y t < rows t" "0 \<le> marg_t (now t)"
    "marg_t (now t) \<le> marg_b (now t)" "marg_b (now t) < rows t" "2 \<le> columns t" "1 \<le> rows t"
  using assms by (auto simp: term_ok_def good_half_def)

lemma wf_chars: "term_ok t \<Longrightarrow> good_char (erase_char (pen t))" "term_ok t \<Longrightarrow> good_char (basic_erase_char (pen t))"
  by (auto simp: term_ok_def good_pen_def)

lemma wf_screen:
  assumes "term_ok t"
  shows "int (length (screen (scr t))) = rows t" "\<forall>l \<in> set (screen (scr t)). good_line l"
    "screen (scr t) \<noteq> []"
  using assms by (auto simp: term_ok_def good_scr_def)

text \<open>Updates of parts that have no invariant, and of the cursor.\<close>

lemma kept_updates:
  assumes "term_ok t"
  shows "kept t (set_disp f t)" "kept t (emit e t)" "kept t (seen_disp_event t)" "kept t (term_schedule_update t)"
    "kept t (term_schedule_tblink t)" "kept t (term_schedule_cblink cf t)" "kept t (term_schedule_vbell b s t)"
    "kept t (term_invalidate t)" "kept t (update_sbar cf t)" "kept t (ldisc_send_event cf bs t)"
    "kept t (to_bottom cf t)" "kept t (echoedit_update cf t)" "kept t (seen_if b t)"
  using assms by (auto simp: kept_def near_def term_ok_def term_updates good_scr_def Let_def)

lemma kept_sel: "term_ok t \<Longrightarrow> good_sel (f (sel t)) \<Longrightarrow> kept t (set_sel f t)"
  by (auto simp: kept_def near_def term_ok_def term_updates)

lemma good_sel_none: "good_sel (s\<lparr>selstate := a, selstart := \<lparr>py = 0, px = 0\<rparr>, selend := \<lparr>py = 0, px = 0\<rparr>\<rparr>)"
  by (simp add: good_sel_def)

lemma kept_deselect: "term_ok t \<Longrightarrow> kept t (deselect t)"
  unfolding deselect_def by (intro kept_sel good_sel_none)

lemma kept_check_selection: "term_ok t \<Longrightarrow> kept t (check_selection p q t)"
  by (simp add: check_selection_def kept_deselect kept_refl)

lemma wf_set_mode: "term_ok t \<Longrightarrow> term_ok (set_mode f t)"
  by (simp add: term_ok_def term_updates)

lemma wf_set_now: "term_ok t \<Longrightarrow> good_half (rows t) (columns t) (f (now t)) \<Longrightarrow> term_ok (set_now f t)"
  by (simp add: term_ok_def)

lemma wf_set_curs:
  "term_ok t \<Longrightarrow> 0 \<le> x \<Longrightarrow> x < columns t \<Longrightarrow> 0 \<le> y \<Longrightarrow> y < rows t \<Longrightarrow> term_ok (set_curs x y t)"
  by (simp add: term_ok_def set_curs_def good_half_def)

lemma wf_set_wrapnext: "term_ok t \<Longrightarrow> term_ok (set_wrapnext b t)"
  by (simp add: term_ok_def set_wrapnext_def good_half_def)

lemma wf_set_pen: "term_ok t \<Longrightarrow> good_pen (f (pen t)) \<Longrightarrow> term_ok (set_pen f t)"
  by (simp add: term_ok_def set_pen_def)

lemma wf_set_esc: "term_ok t \<Longrightarrow> good_esc (f (esc t)) \<Longrightarrow> term_ok (set_esc f t)"
  by (simp add: term_ok_def set_esc_def)

lemma kept_set_scr:
  "term_ok t \<Longrightarrow> good_scr (rows t) (savelines t) (f (scr t)) \<Longrightarrow> alt_which (f (scr t)) = alt_which (scr t) \<Longrightarrow>
   alt_screen (f (scr t)) = alt_screen (scr t) \<Longrightarrow> kept t (set_scr f t)"
  by (simp add: kept_def near_def term_ok_def set_scr_def)

lemma wf_set_prn: "term_ok t \<Longrightarrow> bufchain_ok (printer_buf (f (prn t))) \<Longrightarrow> term_ok (set_prn f t)"
  by (simp add: term_ok_def set_prn_def)

lemma kept_wf: "kept t t' \<Longrightarrow> term_ok t'" by (simp add: kept_def)

lemma kept_near: "kept t t' \<Longrightarrow> near t t'" by (simp add: kept_def)

section \<open>Lines\<close>

definition wide :: "int \<Rightarrow> terminal \<Rightarrow> bool" where
  "wide y t \<longleftrightarrow> columns t \<le> int (cols (screen (scr t) ! nat y))"

text \<open>An operation on the lines from a state with a certain line ready.\<close>

definition ready :: "int \<Rightarrow> terminal \<Rightarrow> terminal \<Rightarrow> bool" where
  "ready y t t' \<longleftrightarrow> kept t t' \<and> wide y t'"

lemma readyD: "ready y t t' \<Longrightarrow> kept t t'" "ready y t t' \<Longrightarrow> wide y t'" "ready y t t' \<Longrightarrow> term_ok t'"
  by (simp_all add: ready_def kept_def)

lemma ready_trans: "kept t t' \<Longrightarrow> ready y t' t'' \<Longrightarrow> ready y t t''"
  by (auto simp: ready_def intro: kept_trans)

lemma put_line:
  assumes t: "term_ok t" and y: "0 \<le> y" "y < rows t" and l: "good_line l"
  shows "kept t (set_scr (\<lambda>s. s\<lparr>screen := (screen s)[nat y := l]\<rparr>) t)"
  using t l by (intro kept_set_scr) (auto simp: term_ok_def good_scr_def dest!: set_update_subset_insert[THEN subsetD])

lemma edit_line_gen:
  assumes t: "term_ok t" and y: "0 \<le> y" "y < rows t"
    and f: "\<exists>l'. f (screen (scr t) ! nat y) = Some l' \<and> good_line l' \<and> P l'"
  shows "sat (edit_line y f t) (\<lambda>t'. kept t t' \<and> P (screen (scr t') ! nat y)
    \<and> (\<forall>z. 0 \<le> z \<longrightarrow> z \<noteq> y \<longrightarrow> screen (scr t') ! nat z = screen (scr t) ! nat z))"
proof -
  obtain l' where l': "f (screen (scr t) ! nat y) = Some l'" "good_line l'" "P l'" using f by blast
  have n: "nat y < length (screen (scr t))" using wf_screen(1)[OF t] y by linarith
  have "y < int (length (screen (scr t)))" using wf_screen(1)[OF t] y by simp
  then have "edit_line y f t = Some (set_scr (\<lambda>s. s\<lparr>screen := (screen s)[nat y := l']\<rparr>) t)"
    using y l'(1) by (simp add: edit_line_def index_line_def)
  then show ?thesis
    using put_line[OF t y l'(2)] l'(3) n y by (auto simp: set_scr_def nth_list_update)
qed

lemma screen_line: "term_ok t \<Longrightarrow> 0 \<le> y \<Longrightarrow> y < rows t \<Longrightarrow> good_line (screen (scr t) ! nat y)"
  using wf_screen[of t] nth_mem[of "nat y" "screen (scr t)"] by (simp add: nat_less_iff)

lemma edit_line_keeps:
  assumes t: "term_ok t" and y: "0 \<le> y" "y < rows t" and f: "keeps (f (screen (scr t) ! nat y)) (screen (scr t) ! nat y)"
  shows "sat (edit_line y f t) (\<lambda>t'. kept t t' \<and> (\<forall>z. 0 \<le> z \<longrightarrow> wide z t \<longrightarrow> wide z t'))"
proof -
  have "sat (edit_line y f t) (\<lambda>t'. kept t t' \<and> cols (screen (scr t') ! nat y) = cols (screen (scr t) ! nat y)
    \<and> (\<forall>z. 0 \<le> z \<longrightarrow> z \<noteq> y \<longrightarrow> screen (scr t') ! nat z = screen (scr t) ! nat z))"
    using f by (intro edit_line_gen[OF t y]) (auto simp: keeps_def)
  then show ?thesis
    by (rule sat_mono) (auto simp: wide_def kept_def near_def)
qed

lemma scrlineptr_ready:
  assumes t: "term_ok t" and y: "0 \<le> y" "y < rows t"
  shows "sat (scrlineptr y t) (\<lambda>t'. ready y t t' \<and> (\<forall>z. 0 \<le> z \<longrightarrow> wide z t \<longrightarrow> wide z t'))"
proof -
  let ?l = "screen (scr t) ! nat y"
  have "\<exists>l'. widened t ?l = Some l' \<and> good_line l' \<and> columns t \<le> int (cols l')"
    using resizeline_good[OF screen_line[OF t y] wf_chars(2)[OF t], of "nat (columns t)"] screen_line[OF t y] wf_pos(8)[OF t]
    by (auto simp: widened_def)
  then have "sat (edit_line y (widened t) t) (\<lambda>t'. kept t t' \<and> columns t \<le> int (cols (screen (scr t') ! nat y))
    \<and> (\<forall>z. 0 \<le> z \<longrightarrow> z \<noteq> y \<longrightarrow> screen (scr t') ! nat z = screen (scr t) ! nat z))"
    by (rule edit_line_gen[OF t y])
  moreover have "scrlineptr y t = edit_line y (widened t) t" by (simp add: scrlineptr_def edit_line_def)
  ultimately show ?thesis
    by (auto simp: ready_def wide_def kept_def near_def elim!: sat_mono)
qed

lemma size_line_ready:
  assumes t: "term_ok t" and y: "0 \<le> y" "y < rows t" and c: "columns u = columns t" "pen u = pen t"
  shows "sat (edit_line y (check_line_size u) t)
    (\<lambda>t'. ready y t t' \<and> int (cols (screen (scr t') ! nat y)) = columns t \<and> (\<forall>z. 0 \<le> z \<longrightarrow> wide z t \<longrightarrow> wide z t'))"
proof -
  let ?l = "screen (scr t) ! nat y"
  have "\<exists>l'. check_line_size u ?l = Some l' \<and> good_line l' \<and> int (cols l') = columns t"
    using resizeline_good[OF screen_line[OF t y] wf_chars(2)[OF t], of "nat (columns t)"] screen_line[OF t y] wf_pos(8)[OF t] c
    by (auto simp: check_line_size_def)
  then have "sat (edit_line y (check_line_size u) t) (\<lambda>t'. kept t t' \<and> int (cols (screen (scr t') ! nat y)) = columns t
    \<and> (\<forall>z. 0 \<le> z \<longrightarrow> z \<noteq> y \<longrightarrow> screen (scr t') ! nat z = screen (scr t) ! nat z))"
    by (rule edit_line_gen[OF t y])
  then show ?thesis by (rule sat_mono) (auto simp: ready_def wide_def kept_def near_def)
qed

text \<open>No double-width character straddles the boundary before a column.\<close>

definition boundary_free :: "int \<Rightarrow> int \<Rightarrow> terminal \<Rightarrow> bool" where
  "boundary_free x y t \<longleftrightarrow> (0 < x \<and> x < columns t \<longrightarrow> chr (chars (screen (scr t) ! nat y) ! nat x) \<noteq> UCSWIDE)"

definition boundary_done :: "int \<Rightarrow> int \<Rightarrow> terminal \<Rightarrow> terminal \<Rightarrow> bool" where
  "boundary_done x y t t' \<longleftrightarrow>
     kept t t' \<and> (\<forall>z. 0 \<le> z \<longrightarrow> wide z t \<longrightarrow> wide z t') \<and> (0 < x \<and> x \<le> columns t \<longrightarrow> wide y t') \<and> boundary_free x y t'"

lemma check_boundary_done:
  assumes t: "term_ok t" and y: "0 \<le> y" "y < rows t" and x: "0 \<le> x"
  shows "sat (check_boundary x y t) (boundary_done x y t)"
proof (cases "x = 0 \<or> x > columns t")
  case True
  then show ?thesis using t by (auto simp: check_boundary_def kept_refl boundary_done_def boundary_free_def)
next
  case False
  let ?f = "\<lambda>u l. if x = columns u then Some (l\<lparr>lattr := lattr l AND NOT LATTR_WRAPPED2\<rparr>) else split_wide x l"
  have e: "check_boundary x y t =
      do { t1 \<leftarrow> scrlineptr y t; t2 \<leftarrow> edit_line y (check_line_size t1) t1; edit_line y (?f t2) t2 }"
    using False x by (simp add: check_boundary_def)
  show ?thesis
    unfolding e
  proof (rule sat_bind[OF scrlineptr_ready[OF t y]])
    fix t1 assume t1: "ready y t t1 \<and> (\<forall>z. 0 \<le> z \<longrightarrow> wide z t \<longrightarrow> wide z t1)"
    then have n1: "near t t1" and w1: "term_ok t1" by (auto simp: ready_def kept_def)
    have y1: "y < rows t1" using y nearD[OF n1] by simp
    show "sat (edit_line y (check_line_size t1) t1 \<bind> (\<lambda>t2. edit_line y (?f t2) t2)) (boundary_done x y t)"
    proof (rule sat_bind[OF size_line_ready[OF w1 y(1) y1 refl refl]])
      fix t2 assume t2: "ready y t1 t2 \<and> int (cols (screen (scr t2) ! nat y)) = columns t1 \<and> (\<forall>z. 0 \<le> z \<longrightarrow> wide z t1 \<longrightarrow> wide z t2)"
      then have n2: "near t1 t2" and w2: "term_ok t2" by (auto simp: ready_def kept_def)
      have y2: "y < rows t2" and c2: "columns t2 = columns t" using y1 nearD[OF n1] nearD[OF n2] by simp_all
      let ?l = "screen (scr t2) ! nat y"
      have "\<exists>l'. ?f t2 ?l = Some l' \<and> good_line l' \<and> cols l' = cols ?l \<and> (x < columns t \<longrightarrow> chr (chars l' ! nat x) \<noteq> UCSWIDE)"
        using split_wide_good[OF screen_line[OF w2 y(1) y2], of x] screen_line[OF w2 y(1) y2] False x t2 nearD(2)[OF n1] c2
        by auto
      then have k: "sat (edit_line y (?f t2) t2) (\<lambda>t'. kept t2 t' \<and> (cols (screen (scr t') ! nat y) = cols ?l
          \<and> (x < columns t \<longrightarrow> chr (chars (screen (scr t') ! nat y) ! nat x) \<noteq> UCSWIDE))
          \<and> (\<forall>z. 0 \<le> z \<longrightarrow> z \<noteq> y \<longrightarrow> screen (scr t') ! nat z = screen (scr t2) ! nat z))"
        by (intro edit_line_gen[OF w2 y(1) y2]) blast
      show "sat (edit_line y (?f t2) t2) (boundary_done x y t)"
      proof (rule sat_mono[OF k])
        fix t' assume t': "kept t2 t' \<and> (cols (screen (scr t') ! nat y) = cols ?l
          \<and> (x < columns t \<longrightarrow> chr (chars (screen (scr t') ! nat y) ! nat x) \<noteq> UCSWIDE))
          \<and> (\<forall>z. 0 \<le> z \<longrightarrow> z \<noteq> y \<longrightarrow> screen (scr t') ! nat z = screen (scr t2) ! nat z)"
        have c': "columns t' = columns t2" using t' by (auto simp: kept_def near_def)
        have w: "wide z t'" if "0 \<le> z" "wide z t2" for z using that t' c' by (cases "z = y") (auto simp: wide_def)
        show "boundary_done x y t t'"
          using t1 t2 t' w y c' c2 by (auto simp: boundary_done_def boundary_free_def ready_def intro: kept_trans)
      qed
    qed
  qed
qed

end
