(* ===== verification/Term_Screen_Inv.thy ===== *)
theory Term_Screen_Inv
  imports Term_Inv
begin

text \<open>
  The operations on the screen keep the invariant: scrolling, erasing, inserting and deleting,
  cursor movement and the saved cursor, and printing.
\<close>

section \<open>Scrolling\<close>

lemma blank_line_good:
  assumes t: "term_ok t" and l: "good_line l"
  shows "\<exists>l'. blank_line cf t l = Some l' \<and> good_line l' \<and> int (cols l') = columns t"
proof -
  obtain l1 where l1: "resizeline (basic_erase_char (pen t)) l (nat (columns t)) = Some l1" "good_line l1" "cols l1 = nat (columns t)"
    using resizeline_good[OF l wf_chars(2)[OF t], of "nat (columns t)"] wf_pos(8)[OF t] by auto
  obtain l2 where l2: "fill_cells cf (erase_char (pen t)) [0..<nat (columns t)] l1 = Some l2" "good_line l2" "cols l2 = cols l1"
    by (rule keepsE[OF fill_cells_keeps[OF l1(2) wf_chars(1)[OF t], of "[0..<nat (columns t)]" cf]]) (use l1(3) in auto)
  then show ?thesis using l1 l2 wf_pos(8)[OF t] by (auto simp: blank_line_def)
qed

lemma del_line_Some:
  assumes "0 \<le> i" "i < int (length xs)"
  shows "del_line i xs = Some (xs ! nat i, remove_nth (nat i) xs)" "length (remove_nth (nat i) xs) = length xs - 1"
    "set (remove_nth (nat i) xs) \<subseteq> set xs" "xs ! nat i \<in> set xs"
  using assms by (auto simp: del_line_def index_line_def remove_nth_def dest: in_set_takeD in_set_dropD)

lemma add_line_Some:
  assumes "0 \<le> i" "i \<le> int (length xs)"
  shows "add_line x i xs = Some (insert_nth (nat i) x xs)" "length (insert_nth (nat i) x xs) = length xs + 1"
    "set (insert_nth (nat i) x xs) \<subseteq> insert x (set xs)"
  using assms by (auto simp: add_line_def insert_nth_def dest: in_set_takeD in_set_dropD)

lemma sel_down_mono:
  assumes "poslt p q" "a \<le> b" "0 \<le> px p" "0 \<le> px q"
  shows "poslt (sel_down a b p) (sel_down a b q) \<or> (sel_down a b p = sel_down a b q \<and> px (sel_down a b p) = 0)"
  using assms by (cases p; cases q) (auto simp: sel_down_def poslt_def)

lemma sel_up_mono:
  assumes "poslt p q" "a \<le> b" "0 \<le> px p" "0 \<le> px q"
  shows "poslt (sel_up a b p) (sel_up a b q) \<or> (sel_up a b p = sel_up a b q \<and> px (sel_up a b p) = 0)"
  using assms by (cases p; cases q) (auto simp: sel_up_def poslt_def)

lemma good_sel_down: "good_sel s \<Longrightarrow> a \<le> b \<Longrightarrow> good_sel (s\<lparr>selstart := sel_down a b (selstart s), selend := sel_down a b (selend s)\<rparr>)"
  using sel_down_mono[of "selstart s" "selend s" a b] by (auto simp: good_sel_def sel_down_def)

lemma good_sel_up:
  "good_sel s \<Longrightarrow> a \<le> b \<Longrightarrow>
   good_sel (s\<lparr>selstart := sel_up a b (selstart s), selend := sel_up a b (selend s), selanchor := c\<rparr>)"
  using sel_up_mono[of "selstart s" "selend s" a b] by (auto simp: good_sel_def sel_up_def)

lemma wf_sel: "term_ok t \<Longrightarrow> good_sel (sel t)" by (simp add: term_ok_def)

lemma wf_scr: "term_ok t \<Longrightarrow> good_scr (rows t) (savelines t) (scr t)" by (simp add: term_ok_def)

text \<open>One line is taken out of the screen and a good line put in.\<close>

lemma good_scr_rotate:
  assumes s: "good_scr r n s" and i: "0 \<le> i" "i < r" and j: "0 \<le> j" "j < r" and l: "good_line l"
  shows "\<exists>ls. add_line l j (remove_nth (nat i) (screen s)) = Some ls \<and> good_scr r n (s\<lparr>screen := ls\<rparr>)"
proof -
  have len: "int (length (screen s)) = r" using s by (simp add: good_scr_def)
  note d = del_line_Some[of i "screen s"]
  let ?ls = "remove_nth (nat i) (screen s)"
  have "0 \<le> j" "j \<le> int (length ?ls)" using d(2) i j len by auto
  note a = add_line_Some[OF this, of l]
  show ?thesis
    using a d i len s l by (auto simp: good_scr_def)
qed

lemma scroll_back_one_kept:
  assumes t: "term_ok t" and b: "0 \<le> up" "up \<le> dn" "dn < rows t"
  shows "sat (scroll_back_one cf up dn t) (kept t)"
proof -
  have len: "dn < int (length (screen (scr t)))" "0 \<le> dn" using wf_screen(1)[OF t] b by auto
  note d = del_line_Some[OF len(2,1)]
  obtain l' where l': "blank_line cf t (screen (scr t) ! nat dn) = Some l'" "good_line l'"
    using blank_line_good[OF t, of "screen (scr t) ! nat dn" cf] screen_line[OF t len(2) b(3)] by auto
  obtain ls where ls: "add_line l' up (remove_nth (nat dn) (screen (scr t))) = Some ls"
    "good_scr (rows t) (savelines t) ((scr t)\<lparr>screen := ls\<rparr>)"
    using good_scr_rotate[OF wf_scr[OF t] len(2) b(3) b(1) _ l'(2)] b by auto
  have k1: "kept t (set_scr (\<lambda>s. s\<lparr>screen := ls\<rparr>) t)" by (rule kept_set_scr[OF t]) (use ls in auto)
  have k2: "kept (set_scr (\<lambda>s. s\<lparr>screen := ls\<rparr>) t)
      (set_sel (\<lambda>s. s\<lparr>selstart := sel_down up dn (selstart s), selend := sel_down up dn (selend s)\<rparr>)
        (set_scr (\<lambda>s. s\<lparr>screen := ls\<rparr>) t))"
    by (rule kept_sel[OF kept_wf[OF k1]]) (use good_sel_down[OF wf_sel[OF t] b(2)] in \<open>simp add: set_scr_def\<close>)
  show ?thesis
    using d(1) l'(1) ls(1) kept_trans[OF k1 k2] by (simp add: scroll_back_one_def)
qed

lemma save_line_kept:
  assumes t: "term_ok t" and l: "good_line l" and n: "0 < savelines t"
  shows "sat (save_line l t) (\<lambda>t'. kept t t' \<and> screen (scr t') = screen (scr t) \<and> sel t' = sel t)"
proof -
  obtain bs where bs: "compressline l = Some bs" "stored_line bs" by (rule compress_good[OF l])
  let ?s = "scr t" and ?n = "int (length (scrollback (scr t)))"
  have g: "good_scr (rows t) (savelines t) ?s" by (rule wf_scr[OF t])
  have b: "?n \<le> savelines t" "tempsblines ?s \<le> ?n" using g by (simp_all add: good_scr_def)
  define s1 where "s1 = (if ?n = savelines t then ?s\<lparr>scrollback := tl (scrollback ?s)\<rparr> else ?s\<lparr>tempsblines := tempsblines ?s + 1\<rparr>)"
  define k where "k = (if ?n = savelines t then ?n - 1 else ?n)"
  have k: "0 \<le> k" "k \<le> int (length (scrollback s1))"
    using n b by (auto simp: k_def s1_def)
  note a = add_line_Some[OF k, of bs]
  define s2 where "s2 = s1\<lparr>scrollback := insert_nth (nat k) bs (scrollback s1)\<rparr>"
  have "set (scrollback s1) \<subseteq> set (scrollback ?s)" by (cases "scrollback ?s") (auto simp: s1_def)
  then have "\<forall>x \<in> set (scrollback s2). stored_line x"
    using g a(3) bs(2) by (auto simp: s2_def good_scr_def)
  moreover have "screen s2 = screen ?s" "alt_screen s2 = alt_screen ?s" "length (scrollback s2) = length (scrollback s1) + 1"
    using a(2) by (simp_all add: s2_def s1_def)
  moreover have "0 \<le> tempsblines s2" "tempsblines s2 \<le> int (length (scrollback s1) + 1)" "int (length (scrollback s1) + 1) \<le> savelines t"
    using g b n by (auto simp: s2_def s1_def good_scr_def)
  ultimately have g2: "good_scr (rows t) (savelines t) s2"
    using g by (simp add: good_scr_def)
  define s3 where "s3 = (if disptop s2 > - savelines t \<and> \<not> scroll_to_end s2 then s2\<lparr>disptop := disptop s2 - 1\<rparr> else s2)"
  have e: "save_line l t = Some (set_scr (\<lambda>_. s3) t)"
    using bs(1) a(1) by (simp add: save_line_def Let_def s1_def[symmetric] k_def[symmetric] s2_def[symmetric])
      (simp add: s3_def s2_def)
  have "kept t (set_scr (\<lambda>_. s3) t)"
    by (rule kept_set_scr[OF t]) (use g2 in \<open>auto simp: s3_def s2_def s1_def good_scr_def\<close>)
  then show ?thesis using e by (auto simp: set_scr_def s3_def s2_def s1_def)
qed

lemma scroll_on_one_kept:
  assumes t: "term_ok t" and b: "0 \<le> up" "up \<le> dn" "dn < rows t"
  shows "sat (scroll_on_one cf up dn sb t) (kept t)"
proof -
  have len: "up < int (length (screen (scr t)))" "up < rows t" "0 \<le> dn" using wf_screen(1)[OF t] b by auto
  note d = del_line_Some[OF b(1) len(1)]
  let ?l = "screen (scr t) ! nat up"
  have l: "good_line ?l" by (rule screen_line[OF t b(1) len(2)])
  have "sat (if sb \<and> savelines t > 0 then save_line ?l t else Some t) (\<lambda>t'. kept t t' \<and> screen (scr t') = screen (scr t) \<and> sel t' = sel t)"
    using save_line_kept[OF t l] t by (auto simp: kept_refl)
  then obtain t1 where t1: "(if sb \<and> savelines t > 0 then save_line ?l t else Some t) = Some t1"
    "kept t t1" "screen (scr t1) = screen (scr t)" "sel t1 = sel t" by (rule satE) auto
  define t2 where "t2 = set_sel (\<lambda>s. s\<lparr>hits := List.map (map_prod up_one up_one) (hits s)\<rparr>) t1"
  have k2: "kept t1 t2"
    unfolding t2_def by (rule kept_sel[OF kept_wf[OF t1(2)]]) (use wf_sel[OF kept_wf[OF t1(2)]] in \<open>simp add: good_sel_def\<close>)
  have w2: "term_ok t2" by (rule kept_wf[OF k2])
  have r2: "rows t2 = rows t" "savelines t2 = savelines t" using t1(2) k2 by (auto simp: kept_def near_def)
  have s2: "screen (scr t2) = screen (scr t)" using t1(3) by (simp add: t2_def set_sel_def)
  obtain l' where l': "blank_line cf t2 ?l = Some l'" "good_line l'"
    using blank_line_good[OF w2 l, of cf] by auto
  have bt: "dn < rows t2" "up < rows t2" using b len r2 by auto
  obtain ls where ls: "add_line l' dn (remove_nth (nat up) (screen (scr t2))) = Some ls"
    "good_scr (rows t2) (savelines t2) ((scr t2)\<lparr>screen := ls\<rparr>)"
    using good_scr_rotate[OF wf_scr[OF w2] b(1) bt(2) len(3) bt(1) l'(2)] by auto
  define t3 where "t3 = set_scr (\<lambda>s. s\<lparr>screen := ls\<rparr>) t2"
  have k3: "kept t2 t3" unfolding t3_def by (rule kept_set_scr[OF w2]) (use ls in auto)
  define a where "a = (if sb then - savelines t else up)"
  have a: "a \<le> dn" using b t by (auto simp: a_def term_ok_def)
  let ?t4 = "set_sel (\<lambda>s. if selstate s \<noteq> NO_SELECTION
                           then s\<lparr>selstart := sel_up a dn (selstart s), selend := sel_up a dn (selend s),
                                  selanchor := sel_up a dn (selanchor s)\<rparr> else s) t3"
  have k4: "kept t3 ?t4"
    by (rule kept_sel[OF kept_wf[OF k3]]) (use good_sel_up[OF _ a] wf_sel[OF kept_wf[OF k3]] in simp)
  have "scroll_on_one cf up dn sb t = Some ?t4"
    using d(1) t1(1) l'(1) ls(1) s2 by (simp add: scroll_on_one_def t2_def[symmetric] t3_def[symmetric] a_def[symmetric])
  then show ?thesis
    using kept_trans[OF t1(2) kept_trans[OF k2 kept_trans[OF k3 k4]]] by simp
qed

lemma repeat_op_sat:
  assumes "\<And>u. kept t u \<Longrightarrow> sat (f u) (kept u)"
  shows "kept t u \<Longrightarrow> sat (repeat_op n f u) (kept t)"
proof (induction n arbitrary: u)
  case (Suc n)
  show ?case unfolding repeat_op.simps
    by (rule sat_bind[OF assms[OF Suc.prems]]) (rule Suc.IH, rule kept_trans[OF Suc.prems])
qed simp

lemma scroll_kept:
  assumes t: "term_ok t" and b: "0 \<le> up" "up \<le> dn" "dn < rows t"
  shows "sat (scroll cf up dn n sb t) (kept t)"
proof -
  have r: "dn < rows u" if "kept t u" for u using that b by (auto simp: kept_def near_def)
  have "sat (repeat_op m (scroll_back_one cf up dn) t) (kept t)"
    "sat (repeat_op m (scroll_on_one cf up dn c) t) (kept t)" for m c
    using scroll_back_one_kept[OF kept_wf b(1,2) r] scroll_on_one_kept[OF kept_wf b(1,2) r]
    by (auto intro!: repeat_op_sat kept_refl[OF t])
  then show ?thesis by (simp add: scroll_def Let_def)
qed

section \<open>The cursor\<close>

lemma wf_move: "term_ok t \<Longrightarrow> term_ok (move x y clip t)"
  using wf_pos[of t] unfolding move_def Let_def
  by (intro wf_set_wrapnext wf_set_curs) auto

lemma colour_attr: "a AND (ATTR_FGMASK OR ATTR_BGMASK) < 0x80000000"
  by (rule order_le_less_trans[OF word_and_le1]) (simp add: ATTR_FGMASK_def ATTR_BGMASK_def)

lemma save_cursor_wf:
  assumes t: "term_ok t"
  shows "sat (save_cursor b t) (\<lambda>t'. term_ok t' \<and> esc t' = esc t)"
proof -
  note p = wf_pos[OF t]
  have c: "cset (now t) < 2" "length (cset_attr (pen t)) = 2" "good_pen (pen t)" "good_saved (sav t)"
    using t by (auto simp: term_ok_def good_half_def good_pen_def)
  have "good_saved \<lparr>savecurs = curs (now t), save_attr = curr_attr (pen t), save_cset = cset (now t),
      save_csattr = a, save_utf = utf (now t), save_wnext = wrapnext (now t), save_sco_acs = sco_acs (now t)\<rparr>" for a
    using p c by (simp add: good_saved_def good_pen_def)
  moreover have "good_half (rows t) (columns t) ((now t)\<lparr>curs := \<lparr>py = y, px = x\<rparr>, cset := save_cset (sav t), utf := u,
      wrapnext := w, sco_acs := k\<rparr>)" if "0 \<le> x" "x < columns t" "0 \<le> y" "y < rows t" for x y u w k
    using t c(4) that by (simp add: term_ok_def good_half_def good_saved_def)
  moreover have "good_pen ((pen t)\<lparr>curr_attr := save_attr (sav t), cset_attr := v, erase_char := e\<rparr>)"
    if "length v = 2" "good_char e" for v e
    using c that by (simp add: good_pen_def good_saved_def)
  moreover have "good_char ((basic_erase_char (pen t))\<lparr>attr := a AND (ATTR_FGMASK OR ATTR_BGMASK)\<rparr>)" for a
    using c(3) by (simp add: good_pen_def good_char_def colour_attr)
  ultimately show ?thesis
    using t p c by (auto simp: save_cursor_def index_line_def term_ok_def term_updates set_erase_char_def Let_def good_saved_def good_pen_def)
qed

section \<open>Erasing\<close>

lemma span_mem:
  "r \<in> set (span c p q) \<Longrightarrow> 0 \<le> px p \<Longrightarrow> poslt r q \<and> py p \<le> py r \<and> 0 \<le> px r \<and> px r \<le> c"
proof (induction c p q rule: span.induct)
  case (1 c p q)
  show ?case
  proof (cases "poslt p q \<and> px p \<le> c")
    case True
    then consider "r = p" | "r \<in> set (span c (fst (incpos c p)) q)"
      using "1.prems"(1) by (subst (asm) span.simps) auto
    then show ?thesis
    proof cases
      case 2
      have "0 \<le> px (fst (incpos c p))" "py p \<le> py (fst (incpos c p))"
        using "1.prems"(2) by (auto simp: incpos_def)
      then show ?thesis using "1.IH"[OF True 2] by auto
    qed (use True "1.prems" in auto)
  next
    case False
    then show ?thesis using "1.prems"(1) by (subst (asm) span.simps) simp
  qed
qed

lemma near_wf_pos:
  assumes "kept t t'"
  shows "term_ok t'" "rows t' = rows t" "columns t' = columns t" "now t' = now t" "pen t' = pen t" "esc t' = esc t"
    "savelines t' = savelines t"
  using assms by (simp_all add: kept_def near_def)

lemma erase_at_kept:
  assumes t: "term_ok t" and p: "0 \<le> py p" "py p < rows t" "0 \<le> px p" "px p \<le> columns t"
  shows "sat (erase_at cf b p t) (kept t)"
proof -
  let ?f = "\<lambda>u l. if px p = columns u
      then Some (l\<lparr>lattr := (if b then LATTR_NORM else lattr l AND NOT (LATTR_WRAPPED OR LATTR_WRAPPED2))\<rparr>)
      else put_termchar cf (erase_char (pen u)) (px p) l"
  let ?g = "\<lambda>u. let (p', new_line) = incpos (columns t) p
    in if new_line \<and> py p' < rows u then scrlineptr (py p') u else Some u"
  have e: "erase_at cf b p t = do { t1 \<leftarrow> edit_line (py p) (check_line_size t) t; t2 \<leftarrow> edit_line (py p) (?f t1) t1; ?g t2 }"
    by (simp add: erase_at_def)
  show ?thesis
    unfolding e
  proof (rule sat_bind[OF size_line_ready[OF t p(1,2) refl refl]])
    fix t1 assume t1: "ready (py p) t t1 \<and> int (cols (screen (scr t1) ! nat (py p))) = columns t \<and> (\<forall>z. 0 \<le> z \<longrightarrow> wide z t \<longrightarrow> wide z t1)"
    then have k1: "kept t t1" by (auto dest: readyD)
    note n1 = near_wf_pos[OF k1]
    have p1: "py p < rows t1" using p n1 by simp
    note l1 = screen_line[OF n1(1) p(1) p1]
    have "keeps (?f t1 (screen (scr t1) ! nat (py p))) (screen (scr t1) ! nat (py p))"
    proof (cases "px p = columns t1")
      case True
      then show ?thesis using l1 by (simp add: keeps_def)
    next
      case False
      then show ?thesis using put_termchar_keeps[OF l1 wf_chars(1)[OF n1(1)], of "px p" cf] p t1 n1 by auto
    qed
    then have k: "sat (edit_line (py p) (?f t1) t1) (\<lambda>t'. kept t1 t' \<and> (\<forall>z. 0 \<le> z \<longrightarrow> wide z t1 \<longrightarrow> wide z t'))"
      by (rule edit_line_keeps[OF n1(1) p(1) p1])
    show "sat (edit_line (py p) (?f t1) t1 \<bind> ?g) (kept t)"
    proof (rule sat_bind[OF k])
      fix t2 assume "kept t1 t2 \<and> (\<forall>z. 0 \<le> z \<longrightarrow> wide z t1 \<longrightarrow> wide z t2)"
      then have k2: "kept t t2" using k1 by (auto intro: kept_trans)
      have "sat (scrlineptr y t2) (kept t)" if "0 \<le> y" "y < rows t2" for y
        by (rule sat_mono[OF scrlineptr_ready[OF kept_wf[OF k2] that]]) (use k2 in \<open>auto dest: readyD intro: kept_trans\<close>)
      then show "sat (?g t2) (kept t)" using k2 p by (auto simp: incpos_def)
    qed
  qed
qed

lemma erase_all_kept:
  assumes "\<forall>p \<in> set ps. 0 \<le> py p \<and> py p < rows t \<and> 0 \<le> px p \<and> px p \<le> columns t"
  shows "kept t u \<Longrightarrow> sat (erase_all cf b ps u) (kept t)"
  using assms
proof (induction ps arbitrary: u)
  case (Cons p ps)
  note n = near_wf_pos[OF Cons.prems(1)]
  show ?case unfolding erase_all.simps
  proof (rule sat_bind[OF erase_at_kept[OF n(1)]])
    fix v assume "kept u v"
    then show "sat (erase_all cf b ps v) (kept t)"
      using Cons kept_trans[OF Cons.prems(1)] by auto
  qed (use Cons.prems n in auto)
qed simp

lemma find_last_total:
  assumes "term_ok t" "\<forall>l \<in> set ls. good_line l"
  shows "\<exists>n. find_last_nonempty_line t ls = Some n \<and> - 1 \<le> n \<and> n < int (length ls)"
  using last_nonempty_total[OF wf_chars(1)[OF assms(1)] assms(2), of "length ls"] by (simp add: find_last_nonempty_line_def)

lemma erase_lots_kept:
  assumes t: "term_ok t"
  shows "sat (erase_lots cf line_only from_begin to_end t) (kept t)"
proof -
  note p = wf_pos[OF t]
  define start where "start = (if \<not> from_begin then curs (now t) else \<lparr>py = (if line_only then curs_y t else 0), px = 0\<rparr>)"
  define fin where "fin = (if \<not> to_end then fst (incpos (columns t) (curs (now t)))
                     else \<lparr>py = (if line_only then curs_y t + 1 else rows t), px = 0\<rparr>)"
  define lat where "lat = (\<not> line_only)"
  let ?A = "if \<not> from_begin \<or> \<not> to_end then check_boundary (curs_x t) (curs_y t) t else Some t"
  have a: "sat ?A (kept t)"
    using check_boundary_done[OF t p(3,4,1)] kept_refl[OF t] by (auto simp: boundary_done_def elim: sat_mono)
  have s: "0 \<le> py start" "py start < rows t" "0 \<le> px start" "px start \<le> columns t" using p by (auto simp: start_def)
  have f: "r \<in> set (span (columns t) start fin) \<Longrightarrow> 0 \<le> py r \<and> py r < rows t \<and> 0 \<le> px r \<and> px r \<le> columns t" for r
    using span_mem[of r "columns t" start fin] s p by (auto simp: fin_def poslt_def incpos_def split: if_splits)
  have q: "0 < py fin \<and> py fin \<le> rows t" if "px fin = 0" using that p by (auto simp: fin_def incpos_def split: if_splits)
  obtain t1 where t1: "?A = Some t1" "kept t t1" by (rule satE[OF a])
  define t2 where "t2 = check_selection start fin t1"
  define t3 where "t3 = (if py start = 0 \<and> px start = 0 \<and> py fin = rows t2 then term_invalidate t2 else t2)"
  have k2: "kept t t2" unfolding t2_def by (rule kept_trans[OF t1(2) kept_check_selection[OF kept_wf[OF t1(2)]]])
  have k3: "kept t t3" using k2 kept_trans[OF k2 kept_updates(8)[OF kept_wf[OF k2]]] by (simp add: t3_def)
  note n3 = near_wf_pos[OF k3]
  define from_up where "from_up = (py start = 0 \<and> px start = 0 \<and> px fin = 0 \<and> lat)"
  let ?B = "if erase_to_scrollback cf \<and> from_up
      then do { n \<leftarrow> (if py fin = rows t3 then do { i \<leftarrow> find_last_nonempty_line t3 (screen (scr t3)); Some (i + 1) } else Some (py fin));
                if n > 0 then scroll cf 0 (n - 1) n True t3 else Some t3 }
      else if \<not> px start \<le> columns t3 then None
      else do { t' \<leftarrow> scrlineptr (py start) t3; erase_all cf lat (span (columns t3) start fin) t' }"
  have b: "sat ?B (kept t)"
  proof (cases "erase_to_scrollback cf \<and> from_up")
    case True
    have c: "sat (if py fin = rows t3 then do { i \<leftarrow> find_last_nonempty_line t3 (screen (scr t3)); Some (i + 1) } else Some (py fin))
        (\<lambda>n. n \<le> rows t)"
      using find_last_total[OF n3(1) wf_screen(2)[OF n3(1)]] wf_screen(1)[OF n3(1)] n3 q True by (auto simp: from_up_def)
    have d: "sat (if n > 0 then scroll cf 0 (n - 1) n True t3 else Some t3) (kept t)" if "n \<le> rows t" for n
    proof (cases "n > 0")
      case True
      have "sat (scroll cf 0 (n - 1) n True t3) (kept t3)" by (rule scroll_kept[OF n3(1)]) (use True that n3 in auto)
      then show ?thesis using True k3 by (auto elim!: sat_mono intro: kept_trans)
    qed (use k3 in simp)
    show ?thesis using True sat_bind[OF c d] by simp
  next
    case False
    have "sat (do { t' \<leftarrow> scrlineptr (py start) t3; erase_all cf lat (span (columns t3) start fin) t' }) (kept t)"
      by (rule sat_bind[OF scrlineptr_ready[OF n3(1)]], use s n3 in simp, use s n3 in simp)
        (rule erase_all_kept, use f n3 k3 in \<open>auto dest!: readyD(1) intro: kept_trans\<close>)
    then show ?thesis unfolding if_not_P[OF False] using s n3 by simp
  qed
  obtain t4 where t4: "?B = Some t4" "kept t t4" by (rule satE[OF b])
  note n4 = near_wf_pos[OF t4(2)]
  have k5: "kept t4 (set_scr (\<lambda>s. s\<lparr>tempsblines := 0\<rparr>) t4)"
    by (rule kept_set_scr[OF n4(1)]) (use wf_scr[OF n4(1)] in \<open>auto simp: good_scr_def\<close>)
  have e: "erase_lots cf line_only from_begin to_end t =
      Some (if from_up \<and> \<not> alt_which (scr t4) then set_scr (\<lambda>s. s\<lparr>tempsblines := 0\<rparr>) t4 else t4)"
    unfolding erase_lots_def Let_def start_def[symmetric] fin_def[symmetric] lat_def[symmetric] t1(1) Option.bind_lunit
      t2_def[symmetric] t3_def[symmetric] from_up_def[symmetric] t4(1) ..
  show ?thesis unfolding e using t4(2) kept_trans[OF t4(2) k5] by simp
qed

section \<open>Inserting and deleting characters\<close>

lemma insch_selection_kept:
  assumes t: "term_ok t" and n: "0 < n" "n \<le> columns t - curs_x t" and d: "d = 1 \<or> d = - 1"
  shows "sat (insch_selection d n t) (kept t)"
proof -
  note p = wf_pos[OF t]
  let ?c = "curs (now t)" and ?s = "sel t"
  let ?eol = "\<lparr>py = py ?c, px = columns t\<rparr>"
  define okstart where "okstart = (if d > 0 then ?c else ?c\<lparr>px := px ?c + n\<rparr>)"
  define okend where "okend = (if d > 0 then ?eol\<lparr>px := px ?eol - n\<rparr> else ?eol)"
  define sx where "sx = px (selstart ?s) + d * n"
  define ex where "ex = px (selend ?s) + d * n"
  show ?thesis
  proof (cases "poslt ?c (selend ?s) \<and> poslt (selstart ?s) ?eol")
    case False
    then have "insch_selection d n t = Some t" by (auto simp: insch_selection_def Let_def)
    then show ?thesis using t by (simp add: kept_refl)
  next
    case True
    show ?thesis
    proof (cases "posle okstart (selstart ?s) \<and> posle (selend ?s) okend")
      case False
      then have "insch_selection d n t = Some (deselect t)"
        using True by (auto simp: insch_selection_def Let_def okstart_def okend_def)
      then show ?thesis using t by (simp add: kept_deselect)
    next
      case ok: True
      have g: "good_sel ?s" by (rule wf_sel[OF t])
      have pk: "py okstart = py ?c" "px okstart = px ?c + (if d > 0 then 0 else n)"
        "py okend = py ?c" "px okend = columns t - (if d > 0 then n else 0)" by (auto simp: okstart_def okend_def)
      have "py ?c \<le> py (selend ?s)" "py (selstart ?s) \<le> py ?c" using True by (auto simp: poslt_def)
      moreover have "py ?c \<le> py (selstart ?s)" "py (selend ?s) \<le> py ?c" using ok pk(1,3) by (auto simp: posle_def)
      ultimately have rows: "py (selstart ?s) = py ?c" "py (selend ?s) = py ?c" by auto
      have h: "px ?c < px (selend ?s)" "px (selstart ?s) < columns t" using True rows by (auto simp: poslt_def)
      have o: "px ?c + (if d > 0 then 0 else n) \<le> px (selstart ?s)" "px (selend ?s) \<le> columns t - (if d > 0 then n else 0)"
        using ok rows pk by (auto simp: posle_def)
      have lt: "px (selstart ?s) < px (selend ?s)" using g rows h(1) p(1) by (auto simp: good_sel_def poslt_def)
      have b: "sx \<ge> px ?c" "sx < columns t" "ex > px ?c" "ex \<le> columns t" "sx < ex"
        using d h o lt n(1) by (auto simp: sx_def ex_def)
      have e: "insch_selection d n t =
          Some (set_sel (\<lambda>s. s\<lparr>selstart := (selstart s)\<lparr>px := sx\<rparr>, selend := (selend s)\<lparr>px := ex\<rparr>\<rparr>) t)"
        using True ok b by (simp add: insch_selection_def Let_def okstart_def okend_def sx_def ex_def)
      show ?thesis unfolding e sat_Some
        by (rule kept_sel[OF t]) (use b rows p in \<open>auto simp: good_sel_def poslt_def\<close>)
    qed
  qed
qed

lemma insch_cells:
  assumes l: "good_line l" and e: "good_char e" and b: "0 \<le> x" "0 < n" "x + n + m \<le> int (cols l)" "0 \<le> m"
    and w: "x = 0 \<and> 0 < m \<longrightarrow> chr (chars l ! nat n) \<noteq> UCSWIDE"
  shows "keeps (do { l1 \<leftarrow> move_cells (List.map (\<lambda>j. (x + j, x + j + n)) [0..m - 1]) l;
                     fill_cells cf e (List.map (\<lambda>j. nat (x + m + j)) [0..n - 1]) l1 }) l"
proof -
  have "keeps (move_cells (List.map (\<lambda>j. (x + j, x + j + n)) [0..m - 1]) l) l"
  proof (cases "m = 0")
    case False
    then have "[0..m - 1] = 0 # [1..m - 1]" using b(4) by (simp add: upto_rec1)
    moreover have "keeps (move_cells ((x, x + n) # List.map (\<lambda>j. (x + j, x + j + n)) [1..m - 1]) l) l"
      by (rule move_cells_first[OF l]) (use b w False in auto)
    ultimately show ?thesis by simp
  qed (use l in \<open>simp add: keeps_def\<close>)
  then show "keeps (do { l1 \<leftarrow> move_cells (List.map (\<lambda>j. (x + j, x + j + n)) [0..m - 1]) l;
      fill_cells cf e (List.map (\<lambda>j. nat (x + m + j)) [0..n - 1]) l1 }) l"
    by (rule keeps_bind) (rule fill_cells_keeps, use b e in auto)
qed

lemma scrlineptr_same:
  assumes t: "term_ok t" and y: "0 \<le> y" "y < rows t" and w: "wide y t"
  shows "scrlineptr y t = Some t"
proof -
  have "widened t (screen (scr t) ! nat y) = Some (screen (scr t) ! nat y)" using w by (simp add: widened_def wide_def)
  then show ?thesis
    using y wf_screen(1)[OF t] by (simp add: scrlineptr_def index_line_def set_scr_def)
qed

lemma insch_kept:
  assumes t: "term_ok t" and n: "n0 \<noteq> 0" "- 0x80000000 < n0" "n0 < 0x80000000"
  shows "sat (insch cf n0 t) (kept t)"
proof -
  note p = wf_pos[OF t]
  define d where "d = (if n0 < 0 then - 1 else 1 :: int)"
  define n1 where "n1 = (if n0 < 0 then wrap32 (- n0) else n0)"
  define x where "x = curs_x t"
  define y where "y = curs_y t"
  define k where "k = (if n1 > columns t - x then columns t - x else n1)"
  define m where "m = columns t - x - k"
  have n1: "0 < n1" using n by (auto simp: n1_def wrap32_def)
  have k: "0 < k" "k \<le> columns t - x" "0 \<le> m" "x + k + m = columns t" using n1 p by (auto simp: k_def x_def m_def)
  have xy: "0 \<le> x" "x < columns t" "0 \<le> y" "y < rows t" using p by (auto simp: x_def y_def)
  let ?f = "\<lambda>u l. if d < 0
      then do { l1 \<leftarrow> move_cells (List.map (\<lambda>j. (x + j, x + j + k)) [0..m - 1]) l;
                fill_cells cf (erase_char (pen u)) (List.map (\<lambda>j. nat (x + m + j)) [0..k - 1]) l1 }
      else do { l1 \<leftarrow> move_cells (rev (List.map (\<lambda>j. (x + j + k, x + j)) [0..m - 1])) l;
                fill_cells cf (erase_char (pen u)) (rev (List.map (\<lambda>j. nat (x + j)) [0..k - 1])) l1 }"
  have e: "insch cf n0 t =
      do { t1 \<leftarrow> insch_selection d k t;
           t2 \<leftarrow> check_boundary x y t1;
           t3 \<leftarrow> (if d < 0 then check_boundary (x + k) y t2 else Some t2);
           t4 \<leftarrow> scrlineptr y t3;
           edit_line y (?f t4) t4 }"
    using k(1) unfolding insch_def Let_def d_def[symmetric] n1_def[symmetric] x_def[symmetric] y_def[symmetric]
      k_def[symmetric] m_def[symmetric] by simp
  have d1: "d = 1 \<or> d = - 1" by (simp add: d_def)
  obtain t1 where t1: "insch_selection d k t = Some t1" "kept t t1"
    using satE[OF insch_selection_kept[OF t k(1) _ d1]] k(2) by (auto simp: x_def)
  note n1 = near_wf_pos[OF t1(2)]
  obtain t2 where t2: "check_boundary x y t1 = Some t2" "boundary_done x y t1 t2"
    using satE[OF check_boundary_done[OF n1(1) xy(3) _ xy(1)]] xy n1 by metis
  have k2: "kept t t2" using t2(2) t1(2) by (auto simp: boundary_done_def intro: kept_trans)
  note n2 = near_wf_pos[OF k2]
  have xk: "0 \<le> x + k" using xy k by simp
  have "sat (if d < 0 then check_boundary (x + k) y t2 else Some t2)
      (\<lambda>t'. kept t t' \<and> (d < 0 \<longrightarrow> wide y t' \<and> boundary_free (x + k) y t'))"
  proof (cases "d < 0")
    case True
    show ?thesis
      using True sat_mono[OF check_boundary_done[OF n2(1) xy(3) _ xk], of "\<lambda>t'. kept t t' \<and> wide y t' \<and> boundary_free (x + k) y t'"]
        xy n2 k k2 by (auto simp: boundary_done_def intro: kept_trans)
  qed (use k2 in simp)
  then obtain t3 where t3: "(if d < 0 then check_boundary (x + k) y t2 else Some t2) = Some t3" "kept t t3"
    "d < 0 \<Longrightarrow> wide y t3 \<and> boundary_free (x + k) y t3" by (rule satE) auto
  note n3 = near_wf_pos[OF t3(2)]
  have y3: "y < rows t3" using xy n3 by simp
  obtain t4 where t4: "scrlineptr y t3 = Some t4" "ready y t3 t4"
    using satE[OF scrlineptr_ready[OF n3(1) xy(3) y3]] by metis
  have f4: "d < 0 \<Longrightarrow> boundary_free (x + k) y t4"
    using scrlineptr_same[OF n3(1) xy(3) y3] t3(3) t4(1) by auto
  have k4: "kept t t4" using t4(2) t3(2) by (auto dest: readyD(1) intro: kept_trans)
  note n4 = near_wf_pos[OF k4]
  have y4: "y < rows t4" using xy n4 by simp
  let ?l = "screen (scr t4) ! nat y"
  have l: "good_line ?l" by (rule screen_line[OF n4(1) xy(3) y4])
  have c: "x + k + m \<le> int (cols ?l)" using readyD(2)[OF t4(2)] n4 k by (simp add: wide_def)
  have "keeps (?f t4 ?l) ?l"
  proof (cases "d < 0")
    case True
    have "x = 0 \<and> 0 < m \<longrightarrow> chr (chars ?l ! nat k) \<noteq> UCSWIDE"
      using f4[OF True] k n4 by (auto simp: boundary_free_def)
    from insch_cells[OF l wf_chars(1)[OF n4(1)] xy(1) k(1) c k(3) this, of cf] True show ?thesis by simp
  next
    case False
    have "keeps (move_cells (rev (List.map (\<lambda>j. (x + j + k, x + j)) [0..m - 1])) ?l) ?l"
      by (rule move_cells_keeps[OF l]) (use xy k c in auto)
    then have "keeps (do { l1 \<leftarrow> move_cells (rev (List.map (\<lambda>j. (x + j + k, x + j)) [0..m - 1])) ?l;
        fill_cells cf (erase_char (pen t4)) (rev (List.map (\<lambda>j. nat (x + j)) [0..k - 1])) l1 }) ?l"
      by (rule keeps_bind) (rule fill_cells_keeps, use xy k c wf_chars(1)[OF n4(1)] in auto)
    then show ?thesis using False by simp
  qed
  then have "sat (edit_line y (?f t4) t4) (\<lambda>t'. kept t4 t' \<and> (\<forall>z. 0 \<le> z \<longrightarrow> wide z t4 \<longrightarrow> wide z t'))"
    by (rule edit_line_keeps[OF n4(1) xy(3) y4])
  then have "sat (edit_line y (?f t4) t4) (kept t)"
    by (rule sat_mono) (use k4 in \<open>auto intro: kept_trans\<close>)
  then show ?thesis unfolding e by (simp add: t1(1) t2(1) t3(1) t4(1) del: if_split)
qed

end
