(* ===== verification/Term_Modes_Inv.thy ===== *)
theory Term_Modes_Inv
  imports Term_Screen_Inv
begin

text \<open>
  The operations on the whole terminal keep the invariant: printing, the alternate screen, the
  power-on state, clearing the scrollback, a change of the size, the mode switches and the OSC
  strings.
\<close>

section \<open>Printing\<close>

definition same_but_printer :: "terminal \<Rightarrow> terminal \<Rightarrow> bool" where
  "same_but_printer t t' \<longleftrightarrow> (\<exists>p es. t' = t\<lparr>prn := p, events := es\<rparr>)"

lemma same_printer_refl: "same_but_printer t t"
  by (auto simp: same_but_printer_def intro!: exI[of _ "prn t"] exI[of _ "events t"])

lemma same_printer_set: "same_but_printer t (set_prn f (emit e t))"
  unfolding same_but_printer_def
  by (intro exI[of _ "f (prn t)"] exI[of _ "events t @ [e]"]) (simp add: set_prn_def emit_def)

lemma same_printer_trans:
  assumes "same_but_printer t u" "same_but_printer u v"
  shows "same_but_printer t v"
proof -
  obtain p es q fs where "u = t\<lparr>prn := p, events := es\<rparr>" "v = u\<lparr>prn := q, events := fs\<rparr>"
    using assms by (auto simp: same_but_printer_def)
  then have "v = t\<lparr>prn := q, events := fs\<rparr>" by simp
  then show ?thesis unfolding same_but_printer_def by blast
qed

lemma same_printer_ok:
  "term_ok t \<Longrightarrow> same_but_printer t t' \<Longrightarrow> bufchain_ok (printer_buf (prn t')) \<Longrightarrow> term_ok t'"
  by (auto simp: same_but_printer_def term_ok_def)

lemma prefix_ok:
  assumes "bufchain_ok ch" "0 < buffersize ch"
  obtains p where "bufchain_prefix ch = Some (p, length p)" "p \<noteq> []" "length p \<le> buffersize ch"
proof -
  have b: "buffersize ch = length (chain_bytes ch)" by (rule bufchain_ok_size[OF assms(1)])
  then have "chain_bytes ch \<noteq> []" using assms(2) by auto
  then obtain p rest where "bufchain_prefix ch = Some (p, length p)" "p \<noteq> []" "chain_bytes ch = p @ rest"
    using bufq.prefix_contents[OF assms(1)] by auto
  then show ?thesis using that b by auto
qed

lemma consume_ok:
  assumes "bufchain_ok ch" "n \<le> buffersize ch"
  obtains ch' where "bufchain_consume ch n = Some ch'" "bufchain_ok ch'" "buffersize ch' = buffersize ch - n"
proof -
  have b: "buffersize ch = length (chain_bytes ch)" by (rule bufchain_ok_size[OF assms(1)])
  then obtain ch' where "bufchain_consume ch n = Some ch'" "bufchain_ok ch'" "chain_bytes ch' = drop n (chain_bytes ch)"
    using bufq.consume_contents[OF assms(1), of n] assms(2) by auto
  then show ?thesis using that bufchain_ok_size[of ch'] b by auto
qed

lemma print_flush_loop_ok:
  "bufchain_ok (printer_buf (prn t)) \<Longrightarrow> buffersize (printer_buf (prn t)) \<le> fuel \<Longrightarrow>
   sat (print_flush_loop fuel t) (\<lambda>t'. same_but_printer t t' \<and> bufchain_ok (printer_buf (prn t')) \<and> printing (prn t') = printing (prn t))"
proof (induction fuel arbitrary: t)
  case 0
  then show ?case by (simp add: print_flush_loop.simps bufchain_size_def Let_def same_printer_refl)
next
  case (Suc k)
  let ?ch = "printer_buf (prn t)"
  show ?case
  proof (cases "buffersize ?ch > 5")
    case False
    then show ?thesis using Suc.prems by (simp add: print_flush_loop.simps bufchain_size_def Let_def same_printer_refl)
  next
    case True
    obtain p where p: "bufchain_prefix ?ch = Some (p, length p)" "p \<noteq> []" "length p \<le> buffersize ?ch"
      by (rule prefix_ok[OF Suc.prems(1)]) (use True in auto)
    define n where "n = (if length p > buffersize ?ch - 5 then buffersize ?ch - 5 else length p)"
    have n: "0 < n" "n \<le> buffersize ?ch" using p True by (auto simp: n_def)
    obtain ch' where ch': "bufchain_consume ?ch n = Some ch'" "bufchain_ok ch'" "buffersize ch' = buffersize ?ch - n"
      by (rule consume_ok[OF Suc.prems(1) n(2)])
    let ?t = "set_prn (\<lambda>q. q\<lparr>printer_buf := ch'\<rparr>) (emit (Printer_data (take n p)) t)"
    have "sat (print_flush_loop k ?t) (\<lambda>t'. same_but_printer ?t t' \<and> bufchain_ok (printer_buf (prn t')) \<and> printing (prn t') = printing (prn ?t))"
      by (rule Suc.IH) (use ch' n Suc.prems in \<open>auto simp: set_prn_def\<close>)
    moreover have "same_but_printer t ?t" by (rule same_printer_set)
    moreover have "print_flush_loop (Suc k) t = print_flush_loop k ?t"
      using True p(1) ch'(1) by (subst print_flush_loop.simps) (simp add: bufchain_size_def Let_def n_def)
    ultimately show ?thesis
      by (auto elim!: sat_mono intro: same_printer_trans simp: set_prn_def emit_def)
  qed
qed

lemma print_finish_loop_ok:
  "bufchain_ok (printer_buf (prn t)) \<Longrightarrow> buffersize (printer_buf (prn t)) \<le> fuel \<Longrightarrow>
   sat (print_finish_loop fuel t) (\<lambda>t'. same_but_printer t t' \<and> bufchain_ok (printer_buf (prn t')))"
proof (induction fuel arbitrary: t)
  case 0
  then show ?case by (simp add: print_finish_loop.simps bufchain_size_def Let_def same_printer_refl)
next
  case (Suc k)
  let ?ch = "printer_buf (prn t)"
  show ?case
  proof (cases "buffersize ?ch > 0")
    case False
    then show ?thesis using Suc.prems by (simp add: print_finish_loop.simps bufchain_size_def Let_def same_printer_refl)
  next
    case True
    obtain p where p: "bufchain_prefix ?ch = Some (p, length p)" "p \<noteq> []" "length p \<le> buffersize ?ch"
      by (rule prefix_ok[OF Suc.prems(1) True])
    obtain c ps where c: "p = c # ps" using p(2) by (cases p) auto
    have ix: "index_line 0 p = Some c" by (simp add: index_line_def c)
    show ?thesis
    proof (cases "c = 0x1B \<or> c = 0x9B")
      case esc: True
      obtain ch' where ch': "bufchain_consume ?ch (buffersize ?ch) = Some ch'" "bufchain_ok ch'"
        by (rule consume_ok[OF Suc.prems(1), of "buffersize ?ch"]) auto
      have "print_finish_loop (Suc k) t = Some (set_prn (\<lambda>q. q\<lparr>printer_buf := ch'\<rparr>) t)"
        using True esc p(1) ix ch'(1) by (subst print_finish_loop.simps) (auto simp add: bufchain_size_def Let_def)
      then show ?thesis using ch'(2)
        by (auto simp: same_but_printer_def set_prn_def intro!: exI[of _ "events t"])
    next
      case False
      obtain ch' where ch': "bufchain_consume ?ch 1 = Some ch'" "bufchain_ok ch'" "buffersize ch' = buffersize ?ch - 1"
        by (rule consume_ok[OF Suc.prems(1), of 1]) (use True in auto)
      let ?t = "set_prn (\<lambda>q. q\<lparr>printer_buf := ch'\<rparr>) (emit (Printer_data [c]) t)"
      have "sat (print_finish_loop k ?t) (\<lambda>t'. same_but_printer ?t t' \<and> bufchain_ok (printer_buf (prn t')))"
        by (rule Suc.IH) (use ch' Suc.prems in \<open>auto simp: set_prn_def\<close>)
      moreover have "same_but_printer t ?t" by (rule same_printer_set)
      moreover have "print_finish_loop (Suc k) t = print_finish_loop k ?t"
        using True False p(1) ix ch'(1) by (subst print_finish_loop.simps) (simp add: bufchain_size_def Let_def)
      ultimately show ?thesis by (auto elim!: sat_mono intro: same_printer_trans)
    qed
  qed
qed

lemma term_print_flush_ok:
  "bufchain_ok (printer_buf (prn t)) \<Longrightarrow>
   sat (term_print_flush t) (\<lambda>t'. same_but_printer t t' \<and> bufchain_ok (printer_buf (prn t')))"
  unfolding term_print_flush_def
  by (rule sat_mono[OF print_flush_loop_ok]) (auto simp: bufchain_size_def)

lemma term_print_finish_ok:
  assumes "bufchain_ok (printer_buf (prn t))"
  shows "sat (term_print_finish t) (\<lambda>t'. same_but_printer t t' \<and> bufchain_ok (printer_buf (prn t')))"
proof (cases "\<not> printing (prn t) \<and> \<not> only_printing (prn t)")
  case True
  then show ?thesis using assms by (simp add: term_print_finish_def same_printer_refl)
next
  case False
  obtain t1 where t1: "term_print_flush t = Some t1" "same_but_printer t t1" "bufchain_ok (printer_buf (prn t1))"
    by (rule satE[OF term_print_flush_ok[OF assms]]) auto
  obtain t2 where t2: "print_finish_loop (bufchain_size (printer_buf (prn t1))) t1 = Some t2"
    "same_but_printer t1 t2" "bufchain_ok (printer_buf (prn t2))"
    by (rule satE[OF print_finish_loop_ok[OF t1(3), of "bufchain_size (printer_buf (prn t1))"]]) (auto simp: bufchain_size_def)
  let ?t3 = "set_prn (\<lambda>p. p\<lparr>print_job := False, printing := False, only_printing := False\<rparr>) (emit Printer_finish t2)"
  have "same_but_printer t2 ?t3" by (rule same_printer_set)
  then have "same_but_printer t ?t3" using t1(2) t2(2) by (blast intro: same_printer_trans)
  then show ?thesis using False t1(1) t2 by (auto simp: term_print_finish_def set_prn_def emit_def)
qed

section \<open>The alternate screen\<close>

text \<open>What no operation of the interpreter changes.\<close>

definition same_size :: "terminal \<Rightarrow> terminal \<Rightarrow> bool" where
  "same_size t t' \<longleftrightarrow> rows t' = rows t \<and> columns t' = columns t \<and> savelines t' = savelines t"

lemma near_same_size: "near t t' \<Longrightarrow> same_size t t'" by (simp add: near_def same_size_def)

lemma kept_same_size: "kept t t' \<Longrightarrow> same_size t t'" by (simp add: kept_def near_same_size)

lemma same_size_trans: "same_size t u \<Longrightarrow> same_size u v \<Longrightarrow> same_size t v" by (simp add: same_size_def)

lemma same_size_refl [simp]: "same_size t t" by (simp add: same_size_def)

text \<open>A good result for an operation on the whole terminal; the parser is left alone.\<close>

definition good_step :: "terminal \<Rightarrow> terminal \<Rightarrow> bool" where
  "good_step t t' \<longleftrightarrow> term_ok t' \<and> same_size t t' \<and> esc t' = esc t"

lemma good_stepD: "good_step t t' \<Longrightarrow> term_ok t'" "good_step t t' \<Longrightarrow> rows t' = rows t"
  "good_step t t' \<Longrightarrow> columns t' = columns t" "good_step t t' \<Longrightarrow> esc t' = esc t"
  by (simp_all add: good_step_def same_size_def)

lemma good_step_trans: "good_step t u \<Longrightarrow> good_step u v \<Longrightarrow> good_step t v"
  by (auto simp: good_step_def intro: same_size_trans)

lemma good_step_refl: "term_ok t \<Longrightarrow> good_step t t" by (simp add: good_step_def)

lemma kept_step: "kept t t' \<Longrightarrow> good_step t t'"
  by (auto simp: good_step_def kept_same_size kept_def near_def)

lemma step_sat: "sat m (kept u) \<Longrightarrow> good_step t u \<Longrightarrow> sat m (good_step t)"
  by (auto elim!: sat_mono intro: good_step_trans kept_step)

lemma step_sat': "sat m (good_step u) \<Longrightarrow> good_step t u \<Longrightarrow> sat m (good_step t)"
  by (auto elim!: sat_mono intro: good_step_trans)

lemma step_bind:
  assumes "sat m (good_step t)" "\<And>u. good_step t u \<Longrightarrow> sat (f u) (good_step u)"
  shows "sat (m \<bind> f) (good_step t)"
  by (rule sat_bind[OF assms(1)]) (rule step_sat'[OF assms(2)])

lemma swap_screen_step:
  assumes t: "term_ok t"
  shows "sat (swap_screen cf which reset keep t) (good_step t)"
proof -
  define r where "r = (if \<not> which then False else reset)"
  let ?A = "if which \<noteq> alt_which (scr t)
      then do { n \<leftarrow> find_last_nonempty_line t (screen (scr t));
                let new_now = (if r then now t else if keep then (alt t)\<lparr>curs := curs (now t)\<rparr> else alt t);
                let new_sav = (if \<not> r \<and> \<not> keep then alt_sav t else sav t);
                Some (set_scr (\<lambda>s. s\<lparr>alt_which := which, screen := alt_screen s, alt_screen := screen s, alt_sblines := n + 1\<rparr>)
                       (t\<lparr>now := new_now, alt := now t, sav := new_sav, alt_sav := sav t\<rparr>)) }
      else Some t"
  have a: "sat ?A (good_step t)"
  proof (cases "which \<noteq> alt_which (scr t)")
    case True
    obtain n where "find_last_nonempty_line t (screen (scr t)) = Some n"
      using find_last_total[OF t wf_screen(2)[OF t]] by blast
    then show ?thesis
      using True t by (simp add: good_step_def same_size_def term_ok_def set_scr_def good_scr_def good_half_def Let_def)
  qed (use t in \<open>simp add: good_step_refl\<close>)
  have "sat (if r \<and> screen (scr u) \<noteq> [] then erase_lots cf False True True u else Some u) (good_step u)" if "good_step t u" for u
    using step_sat[OF erase_lots_kept good_step_refl] that by (auto simp: good_step_refl dest: good_stepD)
  from step_bind[OF a this] show ?thesis
    unfolding swap_screen_def Let_def r_def[symmetric] .
qed

lemma below_contents_step:
  assumes t: "term_ok t"
  shows "sat (below_contents cf t) (good_step t)"
proof -
  note p = wf_pos[OF t]
  have "length (screen (scr t)) \<noteq> 0" using wf_screen(3)[OF t] by simp
  obtain n where n: "find_last_nonempty_line t (screen (scr t)) = Some n" "- 1 \<le> n" "n < rows t"
    using find_last_total[OF t wf_screen(2)[OF t]] wf_screen(1)[OF t] by auto
  show ?thesis
  proof (cases "n + 1 = rows t")
    case True
    have c: "term_ok (set_curs (curs_x t) n t)" using t p n True by (intro wf_set_curs) auto
    have s: "good_step t (set_curs (curs_x t) n t)" using c by (simp add: good_step_def same_size_def set_curs_def)
    have "sat (scroll cf 0 (rows t - 1) 1 True (set_curs (curs_x t) n t)) (kept (set_curs (curs_x t) n t))"
      by (rule scroll_kept[OF c]) (use p in \<open>auto simp: set_curs_def\<close>)
    then show ?thesis using True n step_sat[OF _ s] by (simp add: below_contents_def)
  next
    case False
    have "term_ok (set_curs (curs_x t) (n + 1) t)" using t p n False by (intro wf_set_curs) auto
    then show ?thesis using False n by (simp add: below_contents_def good_step_def same_size_def set_curs_def)
  qed
qed

end
