(* ===== verification/Term_Whole_Inv.thy ===== *)
theory Term_Whole_Inv
  imports Term_Modes_Inv
begin

text \<open>
  The power-on state, clearing of the scrollback, a change of the size, the mode switches and
  the OSC strings keep the invariant.
\<close>

section \<open>Results of the handlers\<close>

text \<open>
  A good result for a handler of an escape sequence: the parser is within a control sequence
  only when it has not been touched, or at the beginning of one.
\<close>

definition csi_fresh :: "parser \<Rightarrow> bool" where
  "csi_fresh p \<longleftrightarrow> esc_nargs p = 1 \<and> esc_args p ! 0 = 0"

definition ok_step :: "terminal \<Rightarrow> terminal \<Rightarrow> bool" where
  "ok_step t t' \<longleftrightarrow> term_ok t' \<and> same_size t t' \<and> (termstate (esc t') = SEEN_CSI \<longrightarrow> esc t' = esc t \<or> csi_fresh (esc t'))"

lemma good_ok_step: "good_step t t' \<Longrightarrow> ok_step t t'" by (simp add: ok_step_def good_step_def)

lemma kept_ok_step: "kept t t' \<Longrightarrow> ok_step t t'" by (rule good_ok_step[OF kept_step])

lemma ok_stepD: "ok_step t t' \<Longrightarrow> term_ok t'" "ok_step t t' \<Longrightarrow> same_size t t'" by (simp_all add: ok_step_def)

lemma ok_step_refl: "term_ok t \<Longrightarrow> ok_step t t" by (simp add: ok_step_def)

lemma ok_step_trans: "ok_step t u \<Longrightarrow> ok_step u v \<Longrightarrow> ok_step t v"
  unfolding ok_step_def by (metis same_size_trans)

lemma sat_good_ok: "sat m (good_step t) \<Longrightarrow> sat m (ok_step t)"
  by (auto elim: sat_mono intro: good_ok_step)

lemma sat_kept_ok: "sat m (kept t) \<Longrightarrow> sat m (ok_step t)"
  by (auto elim: sat_mono intro: kept_ok_step)

lemma ok_bind:
  assumes "sat m (ok_step t)" "\<And>u. ok_step t u \<Longrightarrow> sat (f u) (ok_step u)"
  shows "sat (m \<bind> f) (ok_step t)"
proof (rule sat_bind[OF assms(1)])
  fix u assume u: "ok_step t u"
  show "sat (f u) (ok_step t)" by (rule sat_mono[OF assms(2)[OF u]]) (rule ok_step_trans[OF u])
qed

lemma ok_sat: "sat m (ok_step u) \<Longrightarrow> ok_step t u \<Longrightarrow> sat m (ok_step t)"
  by (auto elim!: sat_mono intro: ok_step_trans)

text \<open>Updates of the cursor, the halves, the pen and the modes.\<close>

lemma step_set_curs: "term_ok t \<Longrightarrow> 0 \<le> x \<Longrightarrow> x < columns t \<Longrightarrow> 0 \<le> y \<Longrightarrow> y < rows t \<Longrightarrow> good_step t (set_curs x y t)"
  using wf_set_curs by (simp add: good_step_def same_size_def set_curs_def)

lemma step_set_wrapnext: "term_ok t \<Longrightarrow> good_step t (set_wrapnext b t)"
  using wf_set_wrapnext[of t b] by (simp add: good_step_def same_size_def set_wrapnext_def)

lemma step_set_now: "term_ok t \<Longrightarrow> good_half (rows t) (columns t) (f (now t)) \<Longrightarrow> good_step t (set_now f t)"
  by (simp add: good_step_def same_size_def wf_set_now)

lemma step_set_pen: "term_ok t \<Longrightarrow> good_pen (f (pen t)) \<Longrightarrow> good_step t (set_pen f t)"
  using wf_set_pen[of t f] by (simp add: good_step_def same_size_def set_pen_def)

lemma step_set_mode: "term_ok t \<Longrightarrow> good_step t (set_mode f t)"
  using wf_set_mode[of t f] by (simp add: good_step_def same_size_def set_mode_def)

lemma step_move: "term_ok t \<Longrightarrow> good_step t (move x y clip t)"
  using wf_move[of t x y clip] by (simp add: good_step_def same_size_def move_def set_curs_def set_wrapnext_def Let_def)

lemma wf_now: "term_ok t \<Longrightarrow> good_half (rows t) (columns t) (now t)" by (simp add: term_ok_def)

lemma wf_pen: "term_ok t \<Longrightarrow> good_pen (pen t)" by (simp add: term_ok_def)

lemma wf_esc: "term_ok t \<Longrightarrow> good_esc (esc t)" by (simp add: term_ok_def)

lemma step_then:
  assumes "good_step s t"
  shows "good_step s (set_disp f t)" "good_step s (emit e t)" "good_step s (seen_disp_event t)"
    "good_step s (term_schedule_update t)" "good_step s (term_schedule_tblink t)" "good_step s (term_schedule_cblink cf t)"
    "good_step s (term_schedule_vbell b v t)" "good_step s (term_invalidate t)" "good_step s (update_sbar cf t)"
    "good_step s (ldisc_send_event cf bs t)" "good_step s (to_bottom cf t)" "good_step s (echoedit_update cf t)"
    "good_step s (seen_if b t)" "good_step s (deselect t)" "good_step s (check_selection p q t)" "good_step s (set_mode m t)"
    "good_step s (set_wrapnext w t)" "good_step s (move x y clip t)"
  using kept_updates[OF good_stepD(1)[OF assms], THEN kept_step, THEN good_step_trans[OF assms]]
    kept_deselect[OF good_stepD(1)[OF assms], THEN kept_step, THEN good_step_trans[OF assms]]
    kept_check_selection[OF good_stepD(1)[OF assms], THEN kept_step, THEN good_step_trans[OF assms]]
    step_set_mode[OF good_stepD(1)[OF assms], THEN good_step_trans[OF assms]]
    step_set_wrapnext[OF good_stepD(1)[OF assms], THEN good_step_trans[OF assms]]
    step_move[OF good_stepD(1)[OF assms], THEN good_step_trans[OF assms]]
  by blast+

lemma ok_then:
  assumes "ok_step s t"
  shows "ok_step s (set_disp f t)" "ok_step s (emit e t)" "ok_step s (seen_disp_event t)"
    "ok_step s (term_schedule_update t)" "ok_step s (term_schedule_tblink t)" "ok_step s (term_schedule_cblink cf t)"
    "ok_step s (term_schedule_vbell b v t)" "ok_step s (term_invalidate t)" "ok_step s (update_sbar cf t)"
    "ok_step s (ldisc_send_event cf bs t)" "ok_step s (to_bottom cf t)" "ok_step s (echoedit_update cf t)"
    "ok_step s (seen_if b t)" "ok_step s (deselect t)" "ok_step s (check_selection p q t)" "ok_step s (set_mode m t)"
    "ok_step s (set_wrapnext w t)" "ok_step s (move x y clip t)"
  using step_then[OF good_step_refl[OF ok_stepD(1)[OF assms]], THEN good_ok_step, THEN ok_step_trans[OF assms]] by blast+

lemma save_cursor_step: "term_ok t \<Longrightarrow> sat (save_cursor b t) (good_step t)"
proof -
  assume t: "term_ok t"
  obtain t' where t': "save_cursor b t = Some t'" "term_ok t'" "esc t' = esc t" by (rule satE[OF save_cursor_wf[OF t]]) blast
  have "same_size t t'" using t'(1)
    by (auto simp: save_cursor_def same_size_def set_erase_char_def set_pen_def Let_def split: if_splits bind_splits)
  then show ?thesis using t' by (simp add: good_step_def)
qed

section \<open>The power-on state\<close>

lemma attr_default: "ATTR_DEFAULT < 0x80000000"
  by (simp add: ATTR_DEFAULT_def ATTR_DEFFG_def ATTR_DEFBG_def ATTR_FGSHIFT_def ATTR_BGSHIFT_def)

lemma power_on_state_wf:
  assumes "term_ok t"
  shows "term_ok (power_on_state cf t)" "same_size t (power_on_state cf t)" "termstate (esc (power_on_state cf t)) = termstate (esc t)"
  using assms attr_default
  by (auto simp: term_ok_def power_on_state_def power_on_half_def power_on_saved_def good_half_def good_saved_def
      good_pen_def good_esc_def csi_args_def good_scr_def same_size_def)

lemma power_on_mouse_step: "term_ok t \<Longrightarrow> good_step t (power_on_mouse cf t)"
proof -
  assume t: "term_ok t"
  let ?u = "set_mode (\<lambda>m. m\<lparr>bracketed_paste := False\<rparr>) (emit (Set_raw_mouse_mode False)
    (set_mode (\<lambda>m. m\<lparr>xterm_mouse := 0, xterm_extended_mouse := False, urxvt_extended_mouse := False\<rparr>) t))"
  have u: "good_step t ?u" by (intro step_then good_step_refl t)
  have "good_sel ((sel ?u)\<lparr>wordness := cfg_wordness cf\<rparr>)"
    using wf_sel[OF good_stepD(1)[OF u]] by (simp add: good_sel_def)
  then have "good_step ?u (power_on_mouse cf t)"
    unfolding power_on_mouse_def by (intro kept_step kept_sel good_stepD(1)[OF u])
  then show ?thesis by (rule good_step_trans[OF u])
qed

lemma print_finish_step: "term_ok t \<Longrightarrow> sat (term_print_finish t) (good_step t)"
proof -
  assume t: "term_ok t"
  then have "bufchain_ok (printer_buf (prn t))" by (simp add: term_ok_def)
  from term_print_finish_ok[OF this] show ?thesis
  proof (rule sat_mono)
    fix t' assume a: "same_but_printer t t' \<and> bufchain_ok (printer_buf (prn t'))"
    then show "good_step t t'"
      using same_printer_ok[OF t] by (auto simp: good_step_def same_but_printer_def same_size_def)
  qed
qed

lemma erase_lots_step: "term_ok t \<Longrightarrow> sat (erase_lots cf a b c t) (good_step t)"
  using erase_lots_kept by (blast intro: sat_mono kept_step)

lemma home_column_step: "term_ok t \<Longrightarrow> good_step t (set_curs 0 (curs_y t) t)"
  using wf_pos[of t] by (intro step_set_curs) auto

lemma clear_both_step:
  assumes "term_ok t"
  shows "sat (do { a \<leftarrow> swap_screen cf True False False t;
                   b \<leftarrow> erase_lots cf False True True a;
                   c \<leftarrow> swap_screen cf False False False b;
                   d \<leftarrow> (if clear then erase_lots cf False True True c else Some c);
                   below_contents cf d }) (good_step t)"
proof -
  have k: "sat (if clear then erase_lots cf False True True u else Some u) (good_step u)" if "term_ok u" for u
    using erase_lots_step[OF that] good_step_refl[OF that] by simp
  show ?thesis
    by (rule step_bind swap_screen_step erase_lots_step below_contents_step k assms | erule good_stepD(1))+
qed

lemma power_on_ok:
  assumes t: "term_ok t"
  shows "sat (power_on cf clear t) (\<lambda>t'. term_ok t' \<and> same_size t t' \<and> termstate (esc t') = termstate (esc t))"
proof -
  note w = power_on_state_wf[OF t, of cf]
  have k: "good_step u (term_schedule_cblink cf (term_schedule_tblink (set_curs 0 (curs_y u) u)))" if "term_ok u" for u
    by (intro step_then home_column_step that)
  have s: "screen (scr (power_on_mouse cf u)) \<noteq> []" if "term_ok u" for u
    using wf_screen(3)[OF good_stepD(1)[OF power_on_mouse_step[OF that]]] .
  have p: "good_step u v" if "term_ok u" "good_step (power_on_mouse cf u) v" for u v
    using good_step_trans[OF power_on_mouse_step that(2)] that(1) .
  let ?c = "\<lambda>v. do { a \<leftarrow> swap_screen cf True False False v;
                b \<leftarrow> erase_lots cf False True True a;
                c \<leftarrow> swap_screen cf False False False b;
                d \<leftarrow> (if clear then erase_lots cf False True True c else Some c);
                below_contents cf d }"
  have b: "sat (do { t3 \<leftarrow> ?c (power_on_mouse cf u); Some (term_schedule_cblink cf (term_schedule_tblink (set_curs 0 (curs_y t3) t3))) })
      (good_step u)" if "term_ok u" for u
  proof -
    have "sat (do { t3 \<leftarrow> ?c (power_on_mouse cf u); Some (term_schedule_cblink cf (term_schedule_tblink (set_curs 0 (curs_y t3) t3))) })
      (good_step (power_on_mouse cf u))"
      by (rule step_bind[OF clear_both_step[OF good_stepD(1)[OF power_on_mouse_step[OF that]]]]) (simp add: k good_stepD(1))
    then show ?thesis by (rule sat_mono) (rule p[OF that])
  qed
  have e: "power_on cf clear t =
      do { t1 \<leftarrow> term_print_finish (power_on_state cf t);
           t3 \<leftarrow> (if screen (scr (power_on_mouse cf t1)) \<noteq> [] then ?c (power_on_mouse cf t1)
                  else Some (set_curs (curs_x (power_on_mouse cf t1)) 0 (power_on_mouse cf t1)));
           Some (term_schedule_cblink cf (term_schedule_tblink (set_curs 0 (curs_y t3) t3))) }"
    by (simp add: power_on_def Let_def)
  have "sat (power_on cf clear t) (good_step (power_on_state cf t))"
    unfolding e by (rule step_bind[OF print_finish_step[OF w(1)]]) (use b s in \<open>auto dest: good_stepD(1)\<close>)
  then show ?thesis
    by (rule sat_mono) (use w(2,3) in \<open>auto simp: good_step_def intro: same_size_trans\<close>)
qed

section \<open>Clearing the scrollback\<close>

lemma size_lines_kept: "term_ok t \<Longrightarrow> int n \<le> rows t \<Longrightarrow> sat (size_lines n t) (kept t)"
proof (induction n)
  case (Suc n)
  have n: "int n \<le> rows t" "0 \<le> int n" using Suc.prems(2) by auto
  show ?case unfolding size_lines.simps
  proof (rule sat_bind[OF Suc.IH[OF Suc.prems(1) n(1)]])
    fix a assume a: "kept t a"
    note pa = near_wf_pos[OF a]
    have na: "int n < rows a" using Suc.prems(2) pa by simp
    show "sat (do { t2 \<leftarrow> scrlineptr (int n) a; edit_line (int n) (check_line_size t2) t2 }) (kept t)"
    proof (rule sat_bind[OF scrlineptr_ready[OF pa(1) n(2) na]])
      fix b assume "ready (int n) a b \<and> (\<forall>z. 0 \<le> z \<longrightarrow> wide z a \<longrightarrow> wide z b)"
      then have b: "kept t b" using a by (auto dest: readyD(1) intro: kept_trans)
      note pb = near_wf_pos[OF b]
      have nb: "int n < rows b" using Suc.prems(2) pb by simp
      show "sat (edit_line (int n) (check_line_size b) b) (kept t)"
        by (rule sat_mono[OF size_line_ready[OF pb(1) n(2) nb refl refl]]) (use b in \<open>auto dest: readyD(1) intro: kept_trans\<close>)
    qed
  qed
qed (simp add: kept_refl)

text \<open>
  The counters of \<open>term_clrsb\<close> are set after the loop, which does not read them: the loop gives the
  same lines when they are set before it.
\<close>

definition no_counts :: "terminal \<Rightarrow> terminal" where
  "no_counts t = set_scr (\<lambda>s. s\<lparr>tempsblines := 0, alt_sblines := 0\<rparr>) t"

lemma edit_line_no_counts: "edit_line y f (no_counts t) = map_option no_counts (edit_line y f t)"
  by (cases "index_line y (screen (scr t))"; cases "f (the (index_line y (screen (scr t))))")
    (auto simp: edit_line_def no_counts_def set_scr_def)

lemma scrlineptr_edit: "scrlineptr y t = edit_line y (widened t) t"
  by (simp add: scrlineptr_def edit_line_def)

lemma size_lines_no_counts: "size_lines n (no_counts t) = map_option no_counts (size_lines n t)"
proof (induction n)
  case (Suc n)
  have w: "widened (no_counts u) = widened u" "check_line_size (no_counts u) = check_line_size u" for u
    by (intro ext, simp add: widened_def check_line_size_def no_counts_def set_scr_def)+
  have "do { t1 \<leftarrow> map_option no_counts m; t2 \<leftarrow> edit_line (int n) (widened t1) t1; edit_line (int n) (check_line_size t2) t2 } =
      map_option no_counts (do { t1 \<leftarrow> m; t2 \<leftarrow> edit_line (int n) (widened t1) t1; edit_line (int n) (check_line_size t2) t2 })" for m
  proof (cases m)
    case (Some u)
    then show ?thesis
      by (cases "edit_line (int n) (widened u) u") (simp_all add: w edit_line_no_counts)
  qed simp
  then show ?case by (simp add: scrlineptr_edit Suc)
qed simp

lemma no_counts_step:
  "term_ok t \<Longrightarrow> good_step t (no_counts (set_scr (\<lambda>s. s\<lparr>disptop := 0, scrollback := []\<rparr>) t))"
  by (simp add: good_step_def same_size_def term_ok_def good_scr_def set_scr_def no_counts_def)

lemma term_clrsb_step:
  assumes t: "term_ok t"
  shows "sat (term_clrsb cf t) (good_step t)"
proof -
  obtain n where n: "find_last_nonempty_line t (screen (scr t)) = Some n"
    using find_last_total[OF t wf_screen(2)[OF t]] by blast
  let ?A = "if curs_y t \<ge> n + 1 \<and> curs_x t = 0
     then (if screen (scr t) \<noteq> []
           then do { a \<leftarrow> swap_screen cf True False False t;
                     b \<leftarrow> erase_lots cf False True True a;
                     c \<leftarrow> swap_screen cf False False False b;
                     d \<leftarrow> erase_lots cf False True True c;
                     e \<leftarrow> below_contents cf d;
                     Some (set_curs 0 (curs_y e) e) }
           else Some (set_curs 0 0 t))
     else Some t"
  have h: "sat (Some (set_curs 0 (curs_y e) e)) (good_step e)" if "term_ok e" for e
    using home_column_step[OF that] by simp
  have c: "sat (do { a \<leftarrow> swap_screen cf True False False t;
                     b \<leftarrow> erase_lots cf False True True a;
                     c \<leftarrow> swap_screen cf False False False b;
                     d \<leftarrow> erase_lots cf False True True c;
                     e \<leftarrow> below_contents cf d;
                     Some (set_curs 0 (curs_y e) e) }) (good_step t)"
    by (rule step_bind swap_screen_step erase_lots_step below_contents_step h assms | erule good_stepD(1))+
  have "sat ?A (good_step t)" using c wf_screen(3)[OF t] t by (auto simp: good_step_refl)
  then obtain t1 where t1: "?A = Some t1" "good_step t t1" by (rule satE)
  define u where "u = set_scr (\<lambda>s. s\<lparr>disptop := 0, scrollback := []\<rparr>) t1"
  have ru: "nat (rows t1) = nat (rows (no_counts u))" by (simp add: u_def no_counts_def set_scr_def)
  have g: "good_step t1 (no_counts u)" unfolding u_def by (rule no_counts_step[OF good_stepD(1)[OF t1(2)]])
  have "sat (size_lines (nat (rows (no_counts u))) (no_counts u)) (kept (no_counts u))"
    by (rule size_lines_kept[OF good_stepD(1)[OF g]]) (use wf_pos(9)[OF good_stepD(1)[OF g]] in simp)
  then obtain v where v: "size_lines (nat (rows t1)) (no_counts u) = Some v" "kept (no_counts u) v"
    unfolding ru by (rule satE)
  obtain t2 where t2: "size_lines (nat (rows t1)) u = Some t2" "v = no_counts t2"
    using v(1) unfolding size_lines_no_counts by auto
  have e: "term_clrsb cf t = Some (update_sbar cf v)"
    unfolding term_clrsb_def n Option.bind_lunit t1(1) u_def[symmetric] t2 by (simp add: no_counts_def)
  show ?thesis unfolding e sat_Some
    by (intro step_then(9) good_step_trans[OF t1(2)] good_step_trans[OF g] kept_step v(2))
qed

section \<open>A change of the size\<close>

text \<open>
  While the screen is grown or shrunk: what is left of the invariant.  \<open>n\<close> is the number of rows
  wanted, to which the margins are already set; the saved cursors and the cursor of the other
  half are brought back to the screen afterwards.
\<close>

definition half_fits :: "int \<Rightarrow> half \<Rightarrow> bool" where
  "half_fits n h \<longleftrightarrow> marg_t h = 0 \<and> marg_b h = n - 1 \<and> cset h < 2"

definition saved_fits :: "saved \<Rightarrow> bool" where
  "saved_fits s \<longleftrightarrow> 0 \<le> px (savecurs s) \<and> save_cset s < 2 \<and> save_attr s < 0x80000000"

definition sizing :: "int \<Rightarrow> terminal \<Rightarrow> bool" where
  "sizing n t \<longleftrightarrow>
     1 \<le> rows t \<and> int (length (tabs t)) = max 0 (columns t)
   \<and> half_fits n (now t) \<and> half_fits n (alt t) \<and> saved_fits (sav t) \<and> saved_fits (alt_sav t)
   \<and> 0 \<le> curs_x t \<and> 0 \<le> curs_y t \<and> curs_y t < rows t
   \<and> int (length (screen (scr t))) = rows t \<and> (\<forall>l \<in> set (screen (scr t)). good_line l)
   \<and> (\<forall>bs \<in> set (scrollback (scr t)). stored_line bs)
   \<and> 0 \<le> tempsblines (scr t) \<and> tempsblines (scr t) \<le> int (length (scrollback (scr t)))
   \<and> good_pen (pen t) \<and> good_esc (esc t) \<and> good_sel (sel t) \<and> bufchain_ok (printer_buf (prn t))"

definition sized :: "int \<Rightarrow> terminal \<Rightarrow> terminal \<Rightarrow> bool" where
  "sized n t t' \<longleftrightarrow> sizing n t' \<and> columns t' = columns t \<and> esc t' = esc t"

lemma insert_nth_facts:
  assumes "i \<le> length xs"
  shows "length (insert_nth i x xs) = length xs + 1" "set (insert_nth i x xs) \<subseteq> insert x (set xs)"
  using assms by (auto simp: insert_nth_def dest: in_set_takeD in_set_dropD)

lemma grow_one_sized:
  assumes t: "sizing n t" and c: "2 \<le> c"
  shows "sat (grow_one cf c t) (\<lambda>t'. sized n t t' \<and> rows t' = rows t + 1)"
proof (cases "tempsblines (scr t) > 0")
  case True
  let ?sb = "scrollback (scr t)"
  have b: "0 \<le> int (length ?sb) - 1" "int (length ?sb) - 1 < int (length ?sb)" "int (length ?sb) \<ge> tempsblines (scr t)"
    using True t by (auto simp: sizing_def)
  note d = del_line_Some[OF b(1,2)]
  have "stored_line (?sb ! nat (int (length ?sb) - 1))" using d(4) t by (auto simp: sizing_def)
  then obtain l m where l: "decompressline (junk cf) 0 (Some (?sb ! nat (int (length ?sb) - 1))) = Some (l, m)" "good_line l"
    by (rule stored_lineE)
  note i = insert_nth_facts[of 0 "screen (scr t)" "l\<lparr>temporary := False\<rparr>"]
  show ?thesis
    using True b(3) d l i t
    by (auto simp: grow_one_def Let_def sized_def sizing_def shift_rows_def set_scr_def half_fits_def saved_fits_def)
next
  case False
  define l where "l = newline (erase_char (pen t)) (basic_erase_char (pen t)) (nat c) False"
  have l: "good_line l" using newline_good(1)[of "erase_char (pen t)" "basic_erase_char (pen t)" "nat c"] t c
    by (auto simp: l_def sizing_def good_pen_def)
  note i = insert_nth_facts[of "length (screen (scr t))" "screen (scr t)" l]
  show ?thesis
    using False i t l
    by (auto simp: grow_one_def Let_def sized_def sizing_def set_scr_def l_def[symmetric])
qed

lemma shrink_one_sized:
  assumes t: "sizing n t" and r: "1 < rows t"
  shows "sat (shrink_one t) (\<lambda>t'. sized n t t' \<and> rows t' = rows t - 1)"
proof (cases "curs_y t < rows t - 1")
  case True
  have b: "0 \<le> rows t - 1" "rows t - 1 < int (length (screen (scr t)))" using t r by (auto simp: sizing_def)
  note d = del_line_Some[OF b]
  show ?thesis using True d t r by (auto simp: shrink_one_def sized_def sizing_def set_scr_def)
next
  case False
  have b: "(0 :: int) \<le> 0" "0 < int (length (screen (scr t)))" using t r by (auto simp: sizing_def)
  note d = del_line_Some[OF b]
  have "good_line (screen (scr t) ! nat 0)" using d(4) t by (auto simp: sizing_def)
  then obtain bs where bs: "compressline (screen (scr t) ! nat 0) = Some bs" "stored_line bs" by (rule compress_good)
  note i = insert_nth_facts[of "length (scrollback (scr t))" "scrollback (scr t)" bs]
  show ?thesis
    using False d bs i t r
    by (auto simp: shrink_one_def sized_def sizing_def shift_rows_def set_scr_def half_fits_def saved_fits_def)
qed

lemma sized_refl: "sizing n t \<Longrightarrow> sized n t t" by (simp add: sized_def)

lemma sized_trans: "sized n t u \<Longrightarrow> sized n u v \<Longrightarrow> sized n t v" by (simp add: sized_def)

lemma repeat_sized:
  assumes f: "\<And>u. sizing n u \<Longrightarrow> R (rows u) \<Longrightarrow> sat (f u) (\<lambda>v. sized n u v \<and> rows v = rows u + d)"
  shows "sizing n t \<Longrightarrow> (\<forall>i < k. R (rows t + int i * d)) \<Longrightarrow>
    sat (repeat_op k f t) (\<lambda>v. sized n t v \<and> rows v = rows t + int k * d)"
proof (induction k arbitrary: t)
  case (Suc k)
  have "R (rows t)" using Suc.prems(2)[rule_format, of 0] by simp
  then show ?case unfolding repeat_op.simps
  proof (rule sat_bind[OF f[OF Suc.prems(1)]])
    fix u assume u: "sized n t u \<and> rows u = rows t + d"
    have "\<forall>i < k. R (rows u + int i * d)"
    proof (intro allI impI)
      fix i assume "i < k"
      then have "R (rows t + int (Suc i) * d)" using Suc.prems(2) by blast
      moreover have "rows t + int (Suc i) * d = rows u + int i * d" using u by (simp add: algebra_simps)
      ultimately show "R (rows u + int i * d)" by simp
    qed
    moreover have "sizing n u" using u by (simp add: sized_def)
    ultimately have "sat (repeat_op k f u) (\<lambda>v. sized n u v \<and> rows v = rows u + int k * d)"
      by (rule Suc.IH[rotated])
    then show "sat (repeat_op k f u) (\<lambda>v. sized n t v \<and> rows v = rows t + int (Suc k) * d)"
      by (rule sat_mono) (use u in \<open>auto intro: sized_trans simp: algebra_simps\<close>)
  qed
qed (simp add: sized_refl)

lemma resize_rows:
  assumes t: "sizing n t" and n: "1 \<le> n" and c: "2 \<le> c"
  shows "sat (do { u \<leftarrow> repeat_op (nat (n - rows t)) (grow_one cf c) t; repeat_op (nat (rows u - n)) shrink_one u })
    (\<lambda>v. sized n t v \<and> rows v = n)"
proof -
  have "sat (repeat_op (nat (n - rows t)) (grow_one cf c) t) (\<lambda>v. sized n t v \<and> rows v = rows t + int (nat (n - rows t)) * 1)"
    by (rule repeat_sized[where R = "\<lambda>_. True"]) (use grow_one_sized c t in auto)
  then obtain u where u: "repeat_op (nat (n - rows t)) (grow_one cf c) t = Some u" "sized n t u" "rows u = max n (rows t)"
    by (rule satE) auto
  have "sat (repeat_op (nat (rows u - n)) shrink_one u) (\<lambda>v. sized n u v \<and> rows v = rows u + int (nat (rows u - n)) * (- 1))"
  proof (rule repeat_sized[where R = "\<lambda>r. 1 < r"])
    show "sizing n u" using u(2) by (simp add: sized_def)
    show "\<forall>i < nat (rows u - n). 1 < rows u + int i * - 1" using n by auto
  qed (use shrink_one_sized in auto)
  then show ?thesis using u by (auto elim!: sat_mono intro: sized_trans)
qed

lemma size_rows_sized:
  assumes t: "sizing n t" and n: "1 \<le> n" and c: "2 \<le> c"
  shows "sat (size_rows cf n c t) (\<lambda>v. sized n t v \<and> rows v = n)"
proof -
  obtain u v where u: "repeat_op (nat (n - rows t)) (grow_one cf c) t = Some u"
    "repeat_op (nat (rows u - n)) shrink_one u = Some v" "sized n t v" "rows v = n"
    using resize_rows[OF t n c, of cf] by (auto simp: sat_def bind_eq_Some_conv)
  moreover have "rows t = int (length (screen (scr t)))" "int (length (screen (scr v))) = n"
    using t u(3,4) by (simp_all add: sizing_def sized_def)
  ultimately show ?thesis by (simp add: size_rows_def)
qed

lemma new_tabs_length: "int (length ts) = max 0 oldc \<Longrightarrow> 0 \<le> c \<Longrightarrow> int (length (new_tabs oldc c ts)) = c"
  by (auto simp: new_tabs_def)

definition good_size :: "int \<Rightarrow> int \<Rightarrow> int \<Rightarrow> bool" where
  "good_size r c n \<longleftrightarrow> r < 0x80000000 \<and> 2 \<le> c \<and> c < 0x80000000 \<and> 0 \<le> n"

definition resized :: "int \<Rightarrow> int \<Rightarrow> int \<Rightarrow> terminal \<Rightarrow> terminal \<Rightarrow> bool" where
  "resized r c n t t' \<longleftrightarrow> term_ok t' \<and> rows t' = max 1 r \<and> columns t' = c \<and> savelines t' = n \<and> esc t' = esc t"

lemma term_update_step: "term_ok t \<Longrightarrow> good_step t (term_update cf t)"
proof -
  assume "term_ok t"
  then have k: "good_step t (set_disp f t)" for f by (intro step_then good_step_refl)
  have "good_step u (set_disp g (set_scr (\<lambda>s. s\<lparr>disptop := 0\<rparr>) u))" if "term_ok u" for u g
    using that by (simp add: good_step_def same_size_def term_ok_def good_scr_def set_scr_def set_disp_def)
  from this[OF good_stepD(1)[OF k], THEN good_step_trans[OF k]] show ?thesis
    using good_step_refl[OF \<open>term_ok t\<close>] k by (simp add: term_update_def Let_def step_then)
qed

lemma clamped: "1 \<le> n \<Longrightarrow> 0 \<le> clamp n y \<and> clamp n y < n" by (simp add: clamp_def Let_def)

lemma fit_pos_px: "1 \<le> c \<Longrightarrow> 0 \<le> px p \<Longrightarrow> 0 \<le> px (fit_pos n c p) \<and> px (fit_pos n c p) < c" by (auto simp: fit_pos_def)

lemma size_rest_resized:
  assumes s: "sizing r t" "rows t = r" and r: "1 \<le> r" and z: "good_size r c n"
  shows "sat (size_rest cf r c n w t) (resized r c n t)"
proof -
  have c: "2 \<le> c" "c < 0x80000000" "0 \<le> n" "r < 0x80000000" using z by (auto simp: good_size_def)
  define sb where "sb = drop (nat (int (length (scrollback (scr t))) - n)) (scrollback (scr t))"
  define m where "m = (if int (length sb) < tempsblines (scr t) then int (length sb) else tempsblines (scr t))"
  have b: "int (length sb) \<le> n" "m \<le> int (length sb)" "0 \<le> m" "set sb \<subseteq> set (scrollback (scr t))"
    using c(3) s by (auto simp: sb_def m_def sizing_def dest: in_set_dropD)
  define na where "na = replicate (nat r) (newline (erase_char (pen t)) (basic_erase_char (pen t)) (nat c) True)"
  have na: "int (length na) = r" "\<forall>l \<in> set na. good_line l"
    using r s c newline_good(1)[of "erase_char (pen t)" "basic_erase_char (pen t)" "nat c" True]
    by (auto simp: na_def sizing_def good_pen_def)
  define u where "u = set_scr (\<lambda>s. s\<lparr>scrollback := sb, tempsblines := m, disptop := 0, alt_screen := na, alt_sblines := 0\<rparr>)
    (t\<lparr>tabs := new_tabs (columns t) c (tabs t),
       sav := (sav t)\<lparr>savecurs := fit_pos r c (savecurs (sav t))\<rparr>,
       alt_sav := (alt_sav t)\<lparr>savecurs := fit_pos r c (savecurs (alt_sav t))\<rparr>,
       now := (now t)\<lparr>curs := fit_pos r c (curs (now t)), wrapnext := False\<rparr>,
       alt := (alt t)\<lparr>curs := \<lparr>py = 0, px = 0\<rparr>, wrapnext := False\<rparr>,
       rows := r, columns := c, savelines := n\<rparr>)"
  have tb: "int (length (new_tabs (columns t) c (tabs t))) = c" by (rule new_tabs_length) (use s c in \<open>auto simp: sizing_def\<close>)
  have h: "good_half r c (now u)" "good_half r c (alt u)"
    using s r c clamped[OF r, of "py (curs (now t))"] fit_pos_px[of c "curs (now t)" r]
    by (simp_all add: u_def set_scr_def sizing_def good_half_def half_fits_def, simp_all add: fit_pos_def)
  have sv: "good_saved (sav u)" "good_saved (alt_sav u)"
    using s r c clamped[OF r, of "py (savecurs (sav t))"] clamped[OF r, of "py (savecurs (alt_sav t))"]
      fit_pos_px[of c "savecurs (sav t)" r] fit_pos_px[of c "savecurs (alt_sav t)" r]
    by (simp_all add: u_def set_scr_def sizing_def good_saved_def saved_fits_def, simp_all add: fit_pos_def)
  have "good_scr r n (scr u)" using s b na by (auto simp: u_def set_scr_def good_scr_def sizing_def)
  then have w: "term_ok u"
    using h sv s r c tb by (simp add: term_ok_def, simp add: u_def set_scr_def sizing_def)
  have p: "rows u = r" "columns u = c" "savelines u = n" "esc u = esc t" by (simp_all add: u_def set_scr_def)
  obtain v where v: "swap_screen cf w False False u = Some v" "good_step u v"
    by (rule satE[OF swap_screen_step[OF w]])
  define x where "x = term_update cf (update_sbar cf v)"
  have g: "good_step u x"
    unfolding x_def by (rule good_step_trans[OF step_then(9)[OF v(2)] term_update_step]) (rule good_stepD(1)[OF step_then(9)[OF v(2)]])
  have b0: "\<not> (\<not> int (length sb) \<le> n \<or> \<not> m \<le> int (length sb))" using b by auto
  have e: "size_rest cf r c n w t = Some (if has_resize_fn cf then emit (Resized (columns x) (rows x)) x else x)"
    unfolding size_rest_def Let_def sb_def[symmetric] m_def[symmetric] if_not_P[OF b0] na_def[symmetric] u_def[symmetric] v(1)
      Option.bind_lunit x_def[symmetric] ..
  have "good_step u (if has_resize_fn cf then emit (Resized (columns x) (rows x)) x else x)"
    using step_then(2)[OF g] g by simp
  then show ?thesis unfolding e sat_Some
    using p r by (simp add: resized_def good_step_def same_size_def)
qed

lemma term_size_resized:
  assumes t: "term_ok t" and z: "good_size r0 c n"
  shows "sat (term_size cf r0 c n t) (resized r0 c n t)"
proof (cases "r0 = rows t \<and> c = columns t \<and> n = savelines t")
  case True
  then show ?thesis using t wf_pos(9)[OF t] by (simp add: term_size_def resized_def)
next
  case False
  define r where "r = (if r0 < 1 then 1 else r0)"
  have r: "1 \<le> r" "r = max 1 r0" "good_size r c n" using z by (auto simp: r_def good_size_def)
  have c: "(if c < 1 then 1 else c) = c" "2 \<le> c" using z by (auto simp: good_size_def)
  obtain t1 where t1: "swap_screen cf False False False (deselect t) = Some t1" "good_step (deselect t) t1"
    by (rule satE[OF swap_screen_step[OF kept_wf[OF kept_deselect[OF t]]]])
  have g1: "good_step t t1" by (rule good_step_trans[OF kept_step[OF kept_deselect[OF t]] t1(2)])
  define t2 where "t2 = t1\<lparr>now := (now t1)\<lparr>marg_t := 0, marg_b := r - 1\<rparr>, alt := (alt t1)\<lparr>marg_t := 0, marg_b := r - 1\<rparr>\<rparr>"
  have s2: "sizing r t2" using good_stepD(1)[OF g1]
    by (simp add: t2_def term_ok_def sizing_def half_fits_def saved_fits_def good_half_def good_saved_def good_scr_def)
  have e2: "esc t2 = esc t" using g1 by (simp add: t2_def good_step_def)
  have r2: "rows t2 \<noteq> - 1" using s2 by (auto simp: sizing_def)
  obtain t4 where t4: "size_rows cf r c t2 = Some t4" "sized r t2 t4" "rows t4 = r"
    by (rule satE[OF size_rows_sized[OF s2 r(1) c(2)]]) blast
  have "term_size cf r0 c n t = size_rest cf r c n (alt_which (scr t)) t4"
    unfolding term_size_def Let_def if_not_P[OF False] r_def[symmetric] c(1) t1(1) Option.bind_lunit t2_def[symmetric]
      if_not_P[OF r2(1)] t4(1) ..
  then show ?thesis
    using size_rest_resized[of r t4 c n cf "alt_which (scr t)"] t4 r e2 by (auto simp: sized_def resized_def elim!: sat_mono)
qed

section \<open>Mode switches\<close>

lemma sat_if: "(b \<Longrightarrow> sat x Q) \<Longrightarrow> (\<not> b \<Longrightarrow> sat y Q) \<Longrightarrow> sat (if b then x else y) Q" by simp

lemma sat_SomeI: "Q t \<Longrightarrow> sat (Some t) Q" by simp

lemma ok_if: "(b \<Longrightarrow> ok_step s x) \<Longrightarrow> (\<not> b \<Longrightarrow> ok_step s y) \<Longrightarrow> ok_step s (if b then x else y)" by simp

lemma step_if: "(b \<Longrightarrow> good_step s x) \<Longrightarrow> (\<not> b \<Longrightarrow> good_step s y) \<Longrightarrow> good_step s (if b then x else y)" by simp

lemma ok_set_esc: "term_ok t \<Longrightarrow> good_esc (f (esc t)) \<Longrightarrow> termstate (f (esc t)) \<noteq> SEEN_CSI \<Longrightarrow> ok_step t (set_esc f t)"
  using wf_set_esc[of t f] by (simp add: ok_step_def same_size_def set_esc_def)

lemma top_step: "term_ok t \<Longrightarrow> ok_step t (set_state TOPLEVEL t)"
  unfolding set_state_def by (rule ok_set_esc) (auto simp: term_ok_def good_esc_def)

lemma compat_ok:
  assumes "term_ok t" "sat (f t) (ok_step t)"
  shows "sat (compatibility x f t) (ok_step t)"
  unfolding compatibility_def using assms top_step by simp

lemma deselect_step: "term_ok t \<Longrightarrow> good_step t (deselect t)" by (intro step_then good_step_refl)

lemma alternate_step: "term_ok t \<Longrightarrow> sat (alternate cf b r k t) (good_step t)"
  unfolding alternate_def by (rule step_sat'[OF swap_screen_step[OF good_stepD(1)] deselect_step]) (erule deselect_step)

lemma margins_step:
  "term_ok t \<Longrightarrow> good_step t (t\<lparr>now := (now t)\<lparr>marg_t := 0, marg_b := rows t - 1\<rparr>, alt := (alt t)\<lparr>marg_t := 0, marg_b := rows t - 1\<rparr>\<rparr>)"
  by (simp add: good_step_def same_size_def term_ok_def good_half_def)

lemma mode_columns_step:
  assumes t: "term_ok t"
  shows "sat (mode_columns cf b t) (good_step t)"
proof -
  define t2 where "t2 = (if \<not> no_remote_resize cf then emit (Request_resize (if b then 132 else 80) (rows (deselect t))) (deselect t) else deselect t)"
  define t3 where "t3 = set_mode (\<lambda>m. m\<lparr>reset_132 := b\<rparr>) t2"
  have g: "good_step t t3" unfolding t3_def t2_def by (intro step_then step_if good_step_refl t)
  define u where "u = move 0 0 0
    (t3\<lparr>now := (now t3)\<lparr>marg_t := 0, marg_b := rows t3 - 1\<rparr>, alt := (alt t3)\<lparr>marg_t := 0, marg_b := rows t3 - 1\<rparr>\<rparr>)"
  have u: "good_step t u"
    unfolding u_def by (rule step_then(18)[OF good_step_trans[OF g margins_step[OF good_stepD(1)[OF g]]]])
  have "mode_columns cf b t = erase_lots cf False True True u"
    unfolding mode_columns_def Let_def t2_def[symmetric] t3_def[symmetric] u_def ..
  then show ?thesis using step_sat'[OF erase_lots_step[OF good_stepD(1)[OF u]] u] by simp
qed

lemma mode_video_step: "term_ok t \<Longrightarrow> good_step t (mode_video b t)"
  unfolding mode_video_def Let_def by (intro step_then step_if good_step_refl)

lemma mode_vt52_step: "term_ok t \<Longrightarrow> good_step t (mode_vt52 cf b t)"
  unfolding mode_vt52_def by (intro step_then step_if good_step_refl)

lemma mode_mouse_step: "term_ok t \<Longrightarrow> good_step t (mode_mouse n b t)"
  unfolding mode_mouse_def by (intro step_then good_step_refl)

lemma half_updates:
  "good_half r c h \<Longrightarrow> good_half r c (h\<lparr>dec_om := b\<rparr>)" "good_half r c h \<Longrightarrow> good_half r c (h\<lparr>wrap := b\<rparr>)"
  "good_half r c h \<Longrightarrow> good_half r c (h\<lparr>insert_mode := b\<rparr>)" "good_half r c h \<Longrightarrow> good_half r c (h\<lparr>utf := b\<rparr>)"
  "good_half r c h \<Longrightarrow> good_half r c (h\<lparr>sco_acs := n\<rparr>)" "good_half r c h \<Longrightarrow> k < 2 \<Longrightarrow> good_half r c (h\<lparr>cset := k\<rparr>)"
  "good_half r c h \<Longrightarrow> good_half r c (h\<lparr>wrapnext := b\<rparr>)"
  by (simp_all add: good_half_def)

lemma ok_set_now: "term_ok t \<Longrightarrow> good_half (rows t) (columns t) (f (now t)) \<Longrightarrow> ok_step t (set_now f t)"
  by (rule good_ok_step[OF step_set_now])

lemma maybe_save_step: "term_ok t \<Longrightarrow> sat (if b then save_cursor c t else Some t) (good_step t)"
  by (simp add: save_cursor_step good_step_refl)

lemma alternate_bottom_step: "term_ok t \<Longrightarrow> sat (do { u \<leftarrow> alternate cf b r k t; Some (to_bottom cf u) }) (good_step t)"
  by (rule step_bind[OF alternate_step]) (auto intro!: step_then good_step_refl dest: good_stepD(1))

lemma alternate_save_step:
  "term_ok t \<Longrightarrow> sat (do { u \<leftarrow> alternate cf b r k t; v \<leftarrow> (if d then save_cursor c u else Some u); Some (to_bottom cf v) }) (good_step t)"
  by (rule step_bind[OF alternate_step], assumption, rule step_bind[OF maybe_save_step], erule good_stepD(1))
    (auto intro!: step_then good_step_refl dest: good_stepD(1))

lemma dec_mode_ok:
  assumes t: "term_ok t"
  shows "sat (dec_mode cf md b t) (ok_step t)"
proof -
  have s: "sat (do { u \<leftarrow> (if d then save_cursor c t else Some t); Some (seen_if e u) }) (good_step t)" for c d e
    by (rule step_bind[OF maybe_save_step[OF t]]) (auto intro!: step_then good_step_refl dest: good_stepD(1))
  have x: "sat (do { u \<leftarrow> (if d then save_cursor c t else Some t);
      compatibility CL_OTHER (\<lambda>t. do { v \<leftarrow> alternate cf b True False t; w \<leftarrow> (if d' then save_cursor c v else Some v); Some (to_bottom cf w) })
        (seen_if e u) }) (ok_step t)" for c d d' e
  proof (rule ok_bind[OF sat_good_ok[OF maybe_save_step[OF t]]])
    fix u assume "ok_step t u"
    then have u: "ok_step u (seen_if e u)" by (intro ok_then ok_step_refl ok_stepD(1))
    show "sat (compatibility CL_OTHER (\<lambda>t. do { v \<leftarrow> alternate cf b True False t;
        w \<leftarrow> (if d' then save_cursor c v else Some v); Some (to_bottom cf w) }) (seen_if e u)) (ok_step u)"
      by (rule ok_sat[OF _ u], rule compat_ok[OF ok_stepD(1)[OF u]], rule sat_good_ok, rule alternate_save_step[OF ok_stepD(1)[OF u]])
  qed
  have o: "sat (Some (mode_mouse n b t)) (ok_step t)" "sat (Some (mode_video b t)) (ok_step t)"
    "sat (Some (mode_vt52 cf c t)) (ok_step t)" "sat (mode_columns cf b t) (ok_step t)" for n c
    using t by (simp_all add: good_ok_step mode_mouse_step mode_video_step mode_vt52_step sat_good_ok mode_columns_step)
  show ?thesis
    unfolding dec_mode_def
    by (intro sat_if o x sat_good_ok[OF s] compat_ok sat_good_ok[OF alternate_bottom_step] t sat_SomeI ok_then ok_set_now half_updates
        wf_now ok_step_refl)
qed

lemma ansi_mode_ok:
  assumes t: "term_ok t"
  shows "sat (ansi_mode cf md b t) (ok_step t)"
  unfolding ansi_mode_def
  by (intro sat_if compat_ok t sat_SomeI ok_then ok_set_now half_updates wf_now ok_step_refl)

lemma toggle_mode_ok: "term_ok t \<Longrightarrow> sat (toggle_mode cf md q b t) (ok_step t)"
  by (simp add: toggle_mode_def dec_mode_ok ansi_mode_ok)

section \<open>OSC strings\<close>

lemma set_state_esc: "set_state s (set_esc f t) = set_esc (\<lambda>p. (f p)\<lparr>termstate := s\<rparr>) t"
  by (simp add: set_state_def set_esc_def)

lemma emit_set_esc: "emit e (set_esc f t) = set_esc f (emit e t)"
  by (simp add: set_esc_def emit_def)

lemma do_osc_ok:
  assumes t: "term_ok t" and n: "0 \<le> osc_strlen (esc t)" "osc_strlen (esc t) \<le> int OSC_STR_MAX"
  shows "sat (do { u \<leftarrow> do_osc cf t; Some (set_state TOPLEVEL u) }) (ok_step t)"
proof -
  have len: "length (osc_string (esc t)) = OSC_STR_MAX + 1" using wf_esc[OF t] by (simp add: good_esc_def)
  have top: "ok_step u (set_state TOPLEVEL (set_esc f u))"
    if "term_ok u" "\<And>p. length (osc_string (f p)) = length (osc_string p) \<and> esc_args (f p) = esc_args p \<and> esc_nargs (f p) = esc_nargs p" for f u
    unfolding set_state_esc
    by (rule ok_set_esc[OF that(1)]) (use that wf_esc[OF that(1)] in \<open>auto simp: good_esc_def\<close>)
  show ?thesis
  proof (cases "osc_w (esc t)")
    case True
    define w where "w = (\<lambda>s :: selection. s\<lparr>wordness := (\<lambda>b. if b \<in> set (take (nat (osc_strlen (esc t))) (osc_string (esc t)))
        then sint (word_of_int (esc_args (esc t) ! 0) :: 16 word) else wordness s b)\<rparr>)"
    have k: "kept t (set_sel w t)"
      using wf_sel[OF t] by (intro kept_sel[OF t]) (simp add: w_def good_sel_def)
    have "do { u \<leftarrow> do_osc cf t; Some (set_state TOPLEVEL u) } = Some (set_state TOPLEVEL (set_esc (\<lambda>p. p\<lparr>osc_strlen := - 1\<rparr>) (set_sel w t)))"
      using True n len by (simp add: do_osc_def Let_def w_def)
    moreover have "ok_step (set_sel w t) (set_state TOPLEVEL (set_esc (\<lambda>p. p\<lparr>osc_strlen := - 1\<rparr>) (set_sel w t)))"
      by (rule top[OF kept_wf[OF k]]) simp
    ultimately show ?thesis using ok_step_trans[OF kept_ok_step[OF k]] by simp
  next
    case False
    define f where "f = (\<lambda>p. p\<lparr>osc_string := (osc_string p)[nat (osc_strlen (esc t)) := 0]\<rparr> :: parser)"
    have f: "ok_step u (set_state TOPLEVEL (set_esc f u))" if "term_ok u" for u
      by (rule top[OF that]) (simp add: f_def)
    have b: "0 \<le> osc_strlen (esc t) \<and> osc_strlen (esc t) < int (length (osc_string (esc t)))" using n len by simp
    obtain es where es: "do_osc cf t = Some (List.foldr emit es (set_esc f t))"
    proof -
      let ?i = "\<lambda>s. if (esc_args (esc t) ! 0 = 0 \<or> esc_args (esc t) ! 0 = 1) \<and> \<not> no_remote_wintitle cf then [Set_icon s] else []"
      let ?j = "\<lambda>s. if (esc_args (esc t) ! 0 = 0 \<and> \<not> cfg_no_remote_tabname cf) \<or> esc_args (esc t) ! 0 = 2 \<or> esc_args (esc t) ! 0 = 21
        then (if \<not> no_remote_wintitle cf then [Set_title s] else []) else []"
      have "do_osc cf t = Some (List.foldr emit (?j (osc_text (esc (set_esc f t))) @ ?i (osc_text (esc (set_esc f t)))) (set_esc f t))"
        using False b by (simp add: do_osc_def Let_def f_def)
      then show ?thesis by (rule that)
    qed
    have "List.foldr emit es (set_esc f t) = set_esc f (List.foldr emit es t)" by (induction es) (simp_all add: emit_set_esc)
    moreover have "ok_step t (List.foldr emit es t)" by (induction es) (simp_all add: ok_step_refl t ok_then)
    ultimately show ?thesis
      unfolding es using f[OF ok_stepD(1)] by (auto intro: ok_step_trans)
  qed
qed

end
