(* ===== verification/Term_Out.thy ===== *)
theory Term_Out
  imports Term_Modes
begin

text \<open>
  The interpreter of terminal output, \<open>term_out\<close> of \<open>putty/terminal.c\<close>: decoding of UTF-8 and
  of the character sets, control characters, graphic characters, and the states of the escape
  sequences.  One iteration of its loop is \<open>term_out_char\<close>; the cases of each \<open>switch\<close> are the
  functions before it, in the order of the code.  Messages to the session log are not modelled.
\<close>

section \<open>Helpers\<close>

abbreviation K :: "char \<Rightarrow> 32 word" where "K c \<equiv> of_char c"

definition ANSI :: "32 word \<Rightarrow> int \<Rightarrow> 32 word" where
  "ANSI x y = x + push_bit 8 (word_of_int y)"

definition bytes :: "string \<Rightarrow> byte list" where
  "bytes s = List.map of_char s"

text \<open>The formats \<open>%d\<close> and \<open>%u\<close>.\<close>

fun dec_nat :: "nat \<Rightarrow> byte list" where
  "dec_nat n = (if n < 10 then [of_nat (48 + n)] else dec_nat (n div 10) @ [of_nat (48 + n mod 10)])"

declare dec_nat.simps [simp del]

definition dec :: "int \<Rightarrow> byte list" where
  "dec i = (if i < 0 then of_char CHR ''-'' # dec_nat (nat (- i)) else dec_nat (nat i))"

definition def_arg :: "int \<Rightarrow> int \<Rightarrow> int" where
  "def_arg a d = (if a = 0 then d else a)"

definition arg :: "nat \<Rightarrow> terminal \<Rightarrow> int" where
  "arg i t = esc_args (esc t) ! i"

definition ESC :: byte where "ESC = 0x1B"

definition pen_attr :: "(32 word \<Rightarrow> 32 word) \<Rightarrow> terminal \<Rightarrow> terminal" where
  "pen_attr f t = set_pen (\<lambda>p. p\<lparr>curr_attr := f (curr_attr p)\<rparr>) t"

definition set_fg :: "32 word \<Rightarrow> terminal \<Rightarrow> terminal" where
  "set_fg col t = pen_attr (\<lambda>a. (a AND NOT ATTR_FGMASK) OR col) t"

definition set_bg :: "32 word \<Rightarrow> terminal \<Rightarrow> terminal" where
  "set_bg col t = pen_attr (\<lambda>a. (a AND NOT ATTR_BGMASK) OR col) t"

definition sco2ansicolour :: "32 word list" where
  "sco2ansicolour = [0, 4, 2, 6, 1, 5, 3, 7]"

definition set_cset_attr :: "nat \<Rightarrow> 32 word \<Rightarrow> terminal \<Rightarrow> terminal" where
  "set_cset_attr i v t = set_pen (\<lambda>p. p\<lparr>cset_attr := (cset_attr p)[i := v]\<rparr>) t"

text \<open>The final check of each iteration.\<close>

definition check_cursor_selection :: "terminal \<Rightarrow> terminal" where
  "check_cursor_selection t =
     (if selstate (sel t) \<noteq> NO_SELECTION
      then check_selection (curs (now t)) (fst (incpos (columns t) (curs (now t)))) t else t)"

section \<open>Decoding\<close>

datatype decoded = Skip terminal | Char "32 word" terminal | Unget terminal

definition in_utf :: "config \<Rightarrow> terminal \<Rightarrow> bool" where
  "in_utf cf t \<longleftrightarrow> utf (now t) \<or> line_codepage_utf8 cf"

definition ascii_char :: "config \<Rightarrow> byte \<Rightarrow> 32 word" where
  "ascii_char cf c = (if unitab_ctrl cf c \<noteq> 0xFF then ucast (unitab_ctrl cf c) else ucast c OR CSET_ASCII)"

definition utf8_start :: "nat \<Rightarrow> byte \<Rightarrow> terminal \<Rightarrow> terminal" where
  "utf8_start n bits t = set_esc (\<lambda>p. p\<lparr>utf_size := n, utf_state := n, utf_char := ucast bits\<rparr>) t"

text \<open>What becomes of a complete sequence; \<open>None\<close> where the character is dropped.\<close>

definition utf8_filter :: "nat \<Rightarrow> 32 word \<Rightarrow> 32 word option" where
  "utf8_filter sz c =
     (let c1 = (if c < 0x80 \<or> (c < 0x800 \<and> sz \<ge> 2) \<or> (c < 0x10000 \<and> sz \<ge> 3)
                  \<or> (c < 0x200000 \<and> sz \<ge> 4) \<or> (c < 0x4000000 \<and> sz \<ge> 5) then UCSERR else c);
          c2 = (if c1 = 0x2028 \<or> c1 = 0x2029 then 0x85 else c1);
          c3 = (if c2 < 0xA0 then 0xFFFD else c2);
          c4 = (if c3 \<ge> 0xD800 \<and> c3 < 0xE000 then UCSERR else c3);
          c5 = (if c4 > 0x10FFFF then UCSERR else c4)
      in if c5 \<ge> 0xE0000 \<and> c5 \<le> 0xE007F then None
         else if c5 = 0xFEFF then None
         else Some (if c5 = 0xFFFE \<or> c5 = 0xFFFF then UCSERR else c5))"

definition decode_utf8 :: "config \<Rightarrow> byte \<Rightarrow> terminal \<Rightarrow> decoded" where
  "decode_utf8 cf c t =
     (let p = esc t in
      if utf_state p = 0 then
        if c < 0x80 then Char (ascii_char cf c) t
        else if c AND 0xe0 = 0xc0 then Skip (utf8_start 1 (c AND 0x1f) t)
        else if c AND 0xf0 = 0xe0 then Skip (utf8_start 2 (c AND 0x0f) t)
        else if c AND 0xf8 = 0xf0 then Skip (utf8_start 3 (c AND 0x07) t)
        else if c AND 0xfc = 0xf8 then Skip (utf8_start 4 (c AND 0x03) t)
        else if c AND 0xfe = 0xfc then Skip (utf8_start 5 (c AND 0x01) t)
        else Char UCSERR t
      else if c AND 0xC0 \<noteq> 0x80 then Unget (set_esc (\<lambda>p. p\<lparr>utf_state := 0\<rparr>) t)
      else
        let ch = push_bit 6 (utf_char p) OR (ucast c AND 0x3f);
            t1 = set_esc (\<lambda>p. p\<lparr>utf_char := ch, utf_state := utf_state p - 1\<rparr>) t
        in if utf_state p - 1 \<noteq> 0 then Skip t1
           else case utf8_filter (utf_size p) ch of None \<Rightarrow> Skip t1 | Some c' \<Rightarrow> Char c' t1)"

definition decode_cset :: "config \<Rightarrow> byte \<Rightarrow> terminal \<Rightarrow> 32 word" where
  "decode_cset cf c t =
     (let a = cset_attr (pen t) ! cset (now t) in
      if sco_acs (now t) \<noteq> 0 \<and> c \<noteq> 0x1B \<and> c \<noteq> 0x0A \<and> c \<noteq> 0x0D \<and> c \<noteq> 0x08 then
        (if sco_acs (now t) = 2 then ucast c OR 0x80 else ucast c) OR CSET_SCOACS
      else if a = CSET_LINEDRW then
        (if unitab_ctrl cf c \<noteq> 0xFF then ucast (unitab_ctrl cf c) else ucast c OR CSET_LINEDRW)
      else if a = CSET_GBCHR then
        (if c = of_char CHR ''#'' then K CHR ''}'' OR CSET_LINEDRW else ascii_char cf c)
      else if a = CSET_ASCII then ascii_char cf c
      else if a = CSET_SCOACS then (if c \<ge> 0x20 then ucast c OR CSET_SCOACS else ucast c)
      else ucast c)"

definition translate :: "config \<Rightarrow> byte \<Rightarrow> terminal \<Rightarrow> decoded" where
  "translate cf c t =
     (if termstate (esc t) \<noteq> TOPLEVEL then Char (ucast c) t
      else if in_utf cf t then decode_utf8 cf c t
      else Char (decode_cset cf c t) t)"

definition below_ctrls :: "termstate \<Rightarrow> bool" where
  "below_ctrls s \<longleftrightarrow> s = TOPLEVEL \<or> s = SEEN_ESC \<or> s = SEEN_CSI \<or> s = SEEN_OSC \<or> s = SEEN_OSC_W"

definition c1_control :: "32 word \<Rightarrow> terminal \<Rightarrow> 32 word \<times> terminal" where
  "c1_control c t =
     (if c AND 0xFFFFFFE0 = 0x80 \<and> below_ctrls (termstate (esc t)) \<and> \<not> vt52_mode (mode t) \<and> has_compat CL_VT220 t
      then (if c = 0x9a then (0, t)
            else (0x40 + (c AND 0x1F), set_esc (\<lambda>p. p\<lparr>termstate := SEEN_ESC, esc_query := 0\<rparr>) t))
      else (c, t))"

section \<open>Control characters\<close>

definition rubout :: "config \<Rightarrow> terminal \<Rightarrow> terminal option" where
  "rubout cf t =
     (let t1 = (if curs_x t \<noteq> 0 \<and> \<not> wrapnext (now t) then set_curs (curs_x t - 1) (curs_y t) t else t);
          t2 = set_wrapnext False t1;
          x = curs_x t2; y = curs_y t2
      in if no_dbackspace cf then Some t2
         else do { a \<leftarrow> check_boundary x y t2;
                   b \<leftarrow> check_boundary (x + 1) y a;
                   c \<leftarrow> scrlineptr y b;
                   edit_line y (put_termchar cf (erase_char (pen c)) x) c })"

definition term_bell :: "config \<Rightarrow> terminal \<Rightarrow> terminal" where
  "term_bell cf t =
     (let now_ticks = ticks t; b = bel t;
          b1 = (if beep_overloaded b then b else b\<lparr>beeps := beeps b @ [now_ticks], nbeeps := nbeeps b + 1\<rparr>);
          kept = dropWhile (\<lambda>k. k < now_ticks - word_of_int (bellovl_t cf)) (beeps b1);
          b2 = b1\<lparr>beeps := kept, nbeeps := nbeeps b1 - int (length (beeps b1) - length kept)\<rparr>;
          b3 = (if bellovl cf \<and> beep_overloaded b2 \<and> now_ticks - lastbeep b2 \<ge> word_of_int (bellovl_s cf)
                then b2\<lparr>beep_overloaded := False\<rparr>
                else if bellovl cf \<and> \<not> beep_overloaded b2 \<and> nbeeps b2 \<ge> bellovl_n cf
                then b2\<lparr>beep_overloaded := True\<rparr> else b2);
          t1 = t\<lparr>bel := b3\<lparr>lastbeep := now_ticks\<rparr>\<rparr>;
          t2 = (if \<not> bellovl cf \<or> \<not> beep_overloaded b3
                then (if beep cf = 2 then term_schedule_vbell False 0 (emit (Do_beep (beep cf)) t1)
                      else emit (Do_beep (beep cf)) t1)
                else t1)
      in seen_disp_event t2)"

definition backspace :: "terminal \<Rightarrow> terminal" where
  "backspace t =
     seen_disp_event
       (if curs_x t = 0 \<and> (curs_y t = 0 \<or> \<not> wrap (now t)) then t
        else if curs_x t = 0 \<and> curs_y t > 0 then set_curs (columns t - 1) (curs_y t - 1) t
        else if wrapnext (now t) then set_wrapnext False t
        else set_curs (curs_x t - 1) (curs_y t) t)"

text \<open>Down one line, scrolling at the bottom margin; up one line, scrolling at the top margin.\<close>

definition index_down :: "config \<Rightarrow> terminal \<Rightarrow> terminal option" where
  "index_down cf t =
     (if curs_y t = marg_b (now t) then scroll cf (marg_t (now t)) (marg_b (now t)) 1 True t
      else if curs_y t < rows t - 1 then Some (set_curs (curs_x t) (curs_y t + 1) t)
      else Some t)"

definition index_up :: "config \<Rightarrow> terminal \<Rightarrow> terminal option" where
  "index_up cf t =
     (if curs_y t = marg_t (now t) then scroll cf (marg_t (now t)) (marg_b (now t)) (- 1) True t
      else if curs_y t > 0 then Some (set_curs (curs_x t) (curs_y t - 1) t)
      else Some t)"

definition carriage_return :: "config \<Rightarrow> terminal \<Rightarrow> terminal option" where
  "carriage_return cf t =
     (let t1 = seen_disp_event (set_wrapnext False (set_curs 0 (curs_y t) t))
      in if crhaslf cf then index_down cf t1 else Some t1)"

definition line_feed :: "config \<Rightarrow> terminal \<Rightarrow> terminal option" where
  "line_feed cf t =
     do { t1 \<leftarrow> index_down cf t;
          let t2 = (if lfhascr cf then set_curs 0 (curs_y t1) t1 else t1);
          Some (seen_disp_event (set_wrapnext False t2)) }"

definition form_feed :: "config \<Rightarrow> terminal \<Rightarrow> terminal option" where
  "form_feed cf t =
     (if has_compat CL_SCOANSI t
      then do { t1 \<leftarrow> erase_lots cf False False True (move 0 0 0 t);
                Some (seen_disp_event (set_wrapnext False (to_bottom cf t1))) }
      else compatibility CL_VT100 (line_feed cf) t)"

function tab_right :: "bool list \<Rightarrow> int \<Rightarrow> int \<Rightarrow> int option" where
  "tab_right ts c x =
     (if x + 1 < c - 1 then
        do { stop \<leftarrow> index_line (x + 1) ts; if stop then Some (x + 1) else tab_right ts c (x + 1) }
      else Some (x + 1))"
  by pat_completeness auto
termination by (relation "measure (\<lambda>(ts, c, x). nat (c - x))") auto

declare tab_right.simps [simp del]

definition tabulate :: "config \<Rightarrow> terminal \<Rightarrow> terminal option" where
  "tabulate cf t =
     do { t1 \<leftarrow> scrlineptr (curs_y t) t;
          x \<leftarrow> tab_right (tabs t1) (columns t1) (curs_x t1);
          let wide = (lattr (screen (scr t1) ! nat (curs_y t)) AND LATTR_MODE \<noteq> LATTR_NORM);
          let x' = (if wide then (if x \<ge> columns t1 div 2 then columns t1 div 2 - 1 else x)
                    else (if x \<ge> columns t1 then columns t1 - 1 else x));
          let t2 = set_curs x' (curs_y t1) t1;
          Some (seen_disp_event (check_selection (curs (now t)) (curs (now t2)) t2)) }"

definition c0_control :: "config \<Rightarrow> 32 word \<Rightarrow> terminal \<Rightarrow> terminal option" where
  "c0_control cf c t =
     (if c = 5 then
        compatibility CL_ANSIMIN (\<lambda>t. Some (if has_ldisc cf then emit (Lpage_send (answerback cf)) t else t)) t
      else if c = 7 then Some (term_bell cf t)
      else if c = 8 then Some (backspace t)
      else if c = 14 then compatibility CL_VT100 (\<lambda>t. Some (set_now (\<lambda>h. h\<lparr>cset := 1\<rparr>) t)) t
      else if c = 15 then compatibility CL_VT100 (\<lambda>t. Some (set_now (\<lambda>h. h\<lparr>cset := 0\<rparr>) t)) t
      else if c = 27 then
        (if vt52_mode (mode t) then Some (set_state VT52_ESC t)
         else compatibility CL_ANSIMIN
           (\<lambda>t. Some (set_esc (\<lambda>p. p\<lparr>termstate := SEEN_ESC, esc_query := 0\<rparr>) t)) t)
      else if c = 13 then carriage_return cf t
      else if c = 12 then form_feed cf t
      else if c = 11 then compatibility CL_VT100 (line_feed cf) t
      else if c = 10 then line_feed cf t
      else if c = 9 then tabulate cf t
      else Some t)"

section \<open>Graphic characters\<close>

definition char_width :: "config \<Rightarrow> 32 word \<Rightarrow> int option" where
  "char_width cf c =
     (if DIRECT_CHAR c then Some 1 else if cjk_ambig_wide cf then mk_wcwidth_cjk c else mk_wcwidth c)"

definition put_cell :: "32 word \<Rightarrow> 32 word \<Rightarrow> int \<Rightarrow> termline \<Rightarrow> termline option" where
  "put_cell c a x l =
     do { l1 \<leftarrow> clear_cc_at x l; Some (upd_char (nat x) (\<lambda>tc. tc\<lparr>chr := c, attr := a\<rparr>) l1) }"

definition mark_line :: "16 word \<Rightarrow> termline \<Rightarrow> termline option" where
  "mark_line m l = Some (l\<lparr>lattr := lattr l OR m\<rparr>)"

definition wrap_line :: "config \<Rightarrow> terminal \<Rightarrow> terminal option" where
  "wrap_line cf t =
     do { t1 \<leftarrow> edit_line (curs_y t) (mark_line LATTR_WRAPPED) t;
          t2 \<leftarrow> index_down cf t1;
          scrlineptr (curs_y t2) (set_wrapnext False (set_curs 0 (curs_y t2) t2)) }"

definition put_wide :: "config \<Rightarrow> 32 word \<Rightarrow> terminal \<Rightarrow> terminal option" where
  "put_wide cf c t =
     do { a \<leftarrow> check_boundary (curs_x t) (curs_y t) t;
          b \<leftarrow> check_boundary (curs_x t + 2) (curs_y t) a;
          d \<leftarrow> (if curs_x b = columns b - 1
                then do { b1 \<leftarrow> edit_line (curs_y b) (put_termchar cf (erase_char (pen b)) (curs_x b)) b;
                          b2 \<leftarrow> edit_line (curs_y b) (mark_line (LATTR_WRAPPED OR LATTR_WRAPPED2)) b1;
                          b3 \<leftarrow> index_down cf b2;
                          b4 \<leftarrow> scrlineptr (curs_y b3) (set_curs 0 (curs_y b3) b3);
                          b5 \<leftarrow> check_boundary (curs_x b4) (curs_y b4) b4;
                          check_boundary (curs_x b4 + 2) (curs_y b4) b5 }
                else Some b);
          e \<leftarrow> edit_line (curs_y d) (put_cell c (curr_attr (pen d)) (curs_x d)) d;
          let f = set_curs (curs_x e + 1) (curs_y e) e;
          edit_line (curs_y f) (put_cell UCSWIDE (curr_attr (pen f)) (curs_x f)) f }"

definition put_narrow :: "32 word \<Rightarrow> terminal \<Rightarrow> terminal option" where
  "put_narrow c t =
     do { a \<leftarrow> check_boundary (curs_x t) (curs_y t) t;
          b \<leftarrow> check_boundary (curs_x t + 1) (curs_y t) a;
          edit_line (curs_y b) (put_cell c (curr_attr (pen b)) (curs_x b)) b }"

definition put_combining :: "config \<Rightarrow> 32 word \<Rightarrow> terminal \<Rightarrow> terminal option" where
  "put_combining cf c t =
     (if curs_x t > 0 then
        do { l \<leftarrow> index_line (curs_y t) (screen (scr t));
             let x = (if wrapnext (now t) then curs_x t else curs_x t - 1);
             tc \<leftarrow> index_line x (chars l);
             if chr tc = UCSWIDE \<and> \<not> x > 0 then None
             else do { t1 \<leftarrow> edit_line (curs_y t)
                         (\<lambda>l. add_cc (junk cf) l (nat (if chr tc = UCSWIDE then x - 1 else x)) c) t;
                       Some (seen_disp_event t1) } }
      else Some t)"

definition advance :: "config \<Rightarrow> terminal \<Rightarrow> terminal option" where
  "advance cf t =
     (let t1 = set_curs (curs_x t + 1) (curs_y t) t in
      do { t2 \<leftarrow> (if curs_x t1 = columns t1 then
                    let t' = set_wrapnext True (set_curs (curs_x t1 - 1) (curs_y t1) t1) in
                    if wrap (now t') \<and> vt52_mode (mode t')
                    then do { a \<leftarrow> edit_line (curs_y t') (mark_line LATTR_WRAPPED) t';
                              b \<leftarrow> index_down cf a;
                              Some (set_wrapnext False (set_curs 0 (curs_y b) b)) }
                    else Some t'
                  else Some t1);
           Some (seen_disp_event t2) })"

text \<open>The second component tells whether the rest of the iteration is skipped (\<open>continue\<close>).\<close>

definition graphic :: "config \<Rightarrow> 32 word \<Rightarrow> terminal \<Rightarrow> (terminal \<times> bool) option" where
  "graphic cf c t =
     do { w \<leftarrow> char_width cf c;
          t1 \<leftarrow> scrlineptr (curs_y t) t;
          t2 \<leftarrow> (if wrapnext (now t1) \<and> wrap (now t1) \<and> w > 0 then wrap_line cf t1 else Some t1);
          t3 \<leftarrow> (if insert_mode (now t2) \<and> w > 0 then insch cf w t2 else Some t2);
          let t4 = check_cursor_selection t3;
          if w = 2 then do { a \<leftarrow> put_wide cf c t4; b \<leftarrow> advance cf a; Some (b, False) }
          else if w = 1 then do { a \<leftarrow> put_narrow c t4; b \<leftarrow> advance cf a; Some (b, False) }
          else if w = 0 then do { a \<leftarrow> put_combining cf c t4; Some (a, True) }
          else Some (t4, True) }"

end
