(* ===== verification/Term_Out_Inv.thy ===== *)
theory Term_Out_Inv
  imports Term_Whole_Inv Term_Out
begin

text \<open>
  Decoding, control characters and graphic characters keep the invariant: each is defined in
  every state that satisfies it.
\<close>

section \<open>Decoding\<close>

lemma or_not_wide:
  fixes b :: "8 word" and w :: "32 word"
  assumes "\<not> bit w 8 \<or> \<not> bit w 9 \<or> \<not> bit w 10"
  shows "ucast b OR w \<noteq> UCSWIDE"
proof
  assume e: "ucast b OR w = UCSWIDE"
  have "bit UCSWIDE 8" "bit UCSWIDE 9" "bit UCSWIDE 10" by (simp_all add: UCSWIDE_def)
  then have "bit (ucast b OR w :: 32 word) 8" "bit (ucast b OR w :: 32 word) 9" "bit (ucast b OR w :: 32 word) 10"
    unfolding e by simp_all
  moreover have "\<not> bit b 8" "\<not> bit b 9" "\<not> bit b 10" by (auto dest: bit_imp_le_length)
  ultimately show False using assms by (auto simp: bit_simps)
qed

lemma byte_not_wide: "ucast (b :: 8 word) \<noteq> UCSWIDE"
  using or_not_wide[of 0 b] by simp

lemma ascii_not_wide: "ascii_char cf b \<noteq> UCSWIDE"
  using byte_not_wide or_not_wide[of CSET_ASCII b] by (simp add: ascii_char_def CSET_ASCII_def)

lemma if_not: "(b \<Longrightarrow> x \<noteq> z) \<Longrightarrow> (\<not> b \<Longrightarrow> y \<noteq> z) \<Longrightarrow> (if b then x else y) \<noteq> z" by simp

lemma cset_not_wide: "decode_cset cf b t \<noteq> UCSWIDE"
proof -
  have s: "ucast b OR CSET_SCOACS \<noteq> UCSWIDE" "ucast b OR CSET_LINEDRW \<noteq> UCSWIDE" for b :: "8 word"
    using or_not_wide[of CSET_SCOACS b] or_not_wide[of CSET_LINEDRW b] by (simp_all add: CSET_SCOACS_def CSET_LINEDRW_def)
  have "ucast b OR (0x80 OR CSET_SCOACS) \<noteq> UCSWIDE" by (rule or_not_wide) (simp add: CSET_SCOACS_def)
  then have "(ucast b OR 0x80) OR CSET_SCOACS \<noteq> UCSWIDE" by (simp add: or.assoc)
  moreover have "K CHR ''}'' OR CSET_LINEDRW \<noteq> UCSWIDE" by (simp add: CSET_LINEDRW_def UCSWIDE_def)
  ultimately show ?thesis
    unfolding decode_cset_def Let_def if_distrib[of "\<lambda>x. x OR CSET_SCOACS"]
    by (intro if_not s byte_not_wide ascii_not_wide)
qed

lemma utf8_not_wide: "utf8_filter n c = Some c' \<Longrightarrow> c' \<noteq> UCSWIDE"
  by (auto simp: utf8_filter_def Let_def UCSWIDE_def UCSERR_def CSET_LINEDRW_def split: if_splits)

text \<open>
  A byte within an escape sequence is passed on; otherwise it may change the state of the UTF-8
  decoder, and a character that it yields is not the mark of the right half of a wide one.
\<close>

definition decoding :: "terminal \<Rightarrow> terminal \<Rightarrow> bool" where
  "decoding t t' \<longleftrightarrow> term_ok t' \<and> same_size t t' \<and> termstate (esc t') = TOPLEVEL"

definition decoded_ok :: "byte \<Rightarrow> terminal \<Rightarrow> decoded \<Rightarrow> bool" where
  "decoded_ok b t d \<longleftrightarrow>
     (if termstate (esc t) \<noteq> TOPLEVEL then d = Char (ucast b) t
      else case d of Skip t' \<Rightarrow> decoding t t' | Char c t' \<Rightarrow> decoding t t' \<and> c \<noteq> UCSWIDE
           | Unget t' \<Rightarrow> decoding t t' \<and> utf_state (esc t') = 0 \<and> utf_state (esc t) \<noteq> 0)"

lemma decoding_set_esc:
  assumes "term_ok t" "termstate (esc t) = TOPLEVEL" "good_esc (f (esc t))" "termstate (f (esc t)) = TOPLEVEL"
  shows "decoding t (set_esc f t)"
  using assms wf_set_esc[of t f] by (simp add: decoding_def same_size_def set_esc_def)

lemma translate_ok:
  assumes t: "term_ok t"
  shows "decoded_ok b t (translate cf b t)"
proof (cases "termstate (esc t) = TOPLEVEL")
  case True
  have g: "good_esc (esc t)" by (rule wf_esc[OF t])
  have d: "decoding t (set_esc f t)"
    if "\<And>p. termstate (f p) = termstate p \<and> esc_args (f p) = esc_args p \<and> esc_nargs (f p) = esc_nargs p
      \<and> osc_string (f p) = osc_string p \<and> osc_strlen (f p) = osc_strlen p" for f
    by (rule decoding_set_esc[OF t True]) (use g that True in \<open>simp_all add: good_esc_def\<close>)
  have s: "decoding t (utf8_start n c t)" for n c unfolding utf8_start_def by (rule d) simp
  have t0: "decoding t t" using t True by (simp add: decoding_def)
  have e: "UCSERR \<noteq> UCSWIDE" by (simp add: UCSERR_def UCSWIDE_def CSET_LINEDRW_def)
  have "decoded_ok b t (decode_utf8 cf b t)"
    using True s t0 e ascii_not_wide
      d[of "\<lambda>p. p\<lparr>utf_state := 0\<rparr>"] d[of "\<lambda>p. p\<lparr>utf_char := push_bit 6 (utf_char (esc t)) OR (ucast b AND 0x3f), utf_state := utf_state (esc t) - 1\<rparr>"]
      utf8_not_wide[of "utf_size (esc t)" "push_bit 6 (utf_char (esc t)) OR (ucast b AND 0x3f)"]
    by (auto simp: decoded_ok_def decode_utf8_def Let_def set_esc_def split: option.split)
  then show ?thesis using True t0 cset_not_wide by (simp add: translate_def decoded_ok_def)
qed (simp add: translate_def decoded_ok_def)

lemma c1_control_ok:
  assumes t: "term_ok t" and c: "c \<noteq> UCSWIDE"
  shows "ok_step t (snd (c1_control c t))" "fst (c1_control c t) \<noteq> UCSWIDE"
proof -
  have "ok_step t (set_esc (\<lambda>p. p\<lparr>termstate := SEEN_ESC, esc_query := 0\<rparr>) t)"
    by (rule ok_set_esc[OF t]) (use wf_esc[OF t] in \<open>auto simp: good_esc_def\<close>)
  then show "ok_step t (snd (c1_control c t))" using ok_step_refl[OF t] by (simp add: c1_control_def)
  have "0x40 + (c AND 0x1F) \<noteq> UCSWIDE"
  proof
    assume "0x40 + (c AND 0x1F) = UCSWIDE"
    then have "c AND 0x1F = UCSWIDE - 0x40" by (simp add: algebra_simps)
    moreover have "c AND 0x1F \<le> 0x1F" by (rule word_and_le1)
    ultimately show False by (simp add: UCSWIDE_def)
  qed
  then show "fst (c1_control c t) \<noteq> UCSWIDE" using c by (simp add: c1_control_def UCSWIDE_def)
qed

section \<open>Control characters\<close>

text \<open>The operations on a line of the screen, from a state that differs only in its lines.\<close>

lemma boundary_bind:
  assumes k: "kept s t" and y: "0 \<le> y" "y < rows s" and x: "0 \<le> x"
    and f: "\<And>u. kept s u \<Longrightarrow> boundary_done x y t u \<Longrightarrow> sat (f u) Q"
  shows "sat (check_boundary x y t \<bind> f) Q"
proof (rule sat_bind[OF check_boundary_done[OF kept_wf[OF k] y(1) _ x]])
  show "y < rows t" using y near_wf_pos[OF k] by simp
  fix u assume u: "boundary_done x y t u"
  then show "sat (f u) Q" using k by (intro f) (auto simp: boundary_done_def intro: kept_trans)
qed

lemma scrline_bind:
  assumes k: "kept s t" and y: "0 \<le> y" "y < rows s"
    and f: "\<And>u. kept s u \<Longrightarrow> wide y u \<Longrightarrow> sat (f u) Q"
  shows "sat (scrlineptr y t \<bind> f) Q"
proof (rule sat_bind[OF scrlineptr_ready[OF kept_wf[OF k] y(1)]])
  show "y < rows t" using y near_wf_pos[OF k] by simp
  fix u assume u: "ready y t u \<and> (\<forall>z. 0 \<le> z \<longrightarrow> wide z t \<longrightarrow> wide z u)"
  then show "sat (f u) Q" using k by (intro f) (auto dest: readyD intro: kept_trans)
qed

lemma edit_kept:
  assumes k: "kept s t" and y: "0 \<le> y" "y < rows s"
    and f: "keeps (f (screen (scr t) ! nat y)) (screen (scr t) ! nat y)"
  shows "sat (edit_line y f t) (\<lambda>u. kept s u \<and> (\<forall>z. 0 \<le> z \<longrightarrow> wide z t \<longrightarrow> wide z u))"
proof -
  have r: "y < rows t" using y near_wf_pos[OF k] by simp
  show ?thesis by (rule sat_mono, rule edit_line_keeps[where t = t and y = y and f = f, OF kept_wf[OF k] y(1) r f])
    (use k in \<open>auto intro: kept_trans\<close>)
qed

lemma edit_kept_only:
  assumes "kept s t" "0 \<le> y" "y < rows s" "keeps (f (screen (scr t) ! nat y)) (screen (scr t) ! nat y)"
  shows "sat (edit_line y f t) (kept s)"
  by (rule sat_mono, rule edit_kept[where s = s and f = f, OF assms]) blast

lemma kept_line: "kept s t \<Longrightarrow> 0 \<le> y \<Longrightarrow> y < rows s \<Longrightarrow> good_line (screen (scr t) ! nat y)"
  using screen_line[of t y] near_wf_pos[of s t] by simp

lemma wide_cols: "kept s t \<Longrightarrow> wide y t \<Longrightarrow> x < columns s \<Longrightarrow> x < int (cols (screen (scr t) ! nat y))"
  using near_wf_pos(3)[of s t] by (simp add: wide_def)

lemma rubout_step:
  assumes t: "term_ok t"
  shows "sat (rubout cf t) (good_step t)"
proof -
  define t1 where "t1 = (if curs_x t \<noteq> 0 \<and> \<not> wrapnext (now t) then set_curs (curs_x t - 1) (curs_y t) t else t)"
  define t2 where "t2 = set_wrapnext False t1"
  have "good_step t (set_curs (curs_x t - 1) (curs_y t) t)" if "curs_x t \<noteq> 0"
    using wf_pos[OF t] that by (intro step_set_curs t) auto
  then have s: "good_step t t2" unfolding t2_def t1_def by (intro step_then step_if good_step_refl t) auto
  note p = wf_pos[OF good_stepD(1)[OF s]]
  show ?thesis
  proof (cases "no_dbackspace cf")
    case True
    then show ?thesis using s by (simp add: rubout_def Let_def t1_def[symmetric] t2_def[symmetric])
  next
    case False
    let ?x = "curs_x t2" and ?y = "curs_y t2"
    have e: "rubout cf t = do { a \<leftarrow> check_boundary ?x ?y t2; b \<leftarrow> check_boundary (?x + 1) ?y a;
        c \<leftarrow> scrlineptr ?y b; edit_line ?y (put_termchar cf (erase_char (pen c)) ?x) c }"
      unfolding rubout_def Let_def t1_def[symmetric] t2_def[symmetric] if_not_P[OF False] ..
    have "sat (rubout cf t) (kept t2)"
      unfolding e
    proof (intro boundary_bind[where s = t2] scrline_bind[where s = t2])
      fix c assume c: "kept t2 c" "wide ?y c"
      show "sat (edit_line ?y (put_termchar cf (erase_char (pen c)) ?x) c) (kept t2)"
        by (rule edit_kept_only[OF c(1) p(3,4)], rule put_termchar_keeps[OF kept_line[OF c(1) p(3,4)] wf_chars(1)[OF kept_wf[OF c(1)]] p(1)])
          (rule wide_cols[OF c p(2)])
    qed (use p kept_refl[OF good_stepD(1)[OF s]] in auto)
    then show ?thesis by (rule step_sat[OF _ s])
  qed
qed

lemma index_down_step:
  assumes t: "term_ok t"
  shows "sat (index_down cf t) (good_step t)"
  unfolding index_down_def
proof (intro sat_if)
  note p = wf_pos[OF t]
  show "sat (scroll cf (marg_t (now t)) (marg_b (now t)) 1 True t) (good_step t)"
    by (rule sat_mono[OF scroll_kept[OF t p(5,6,7)]]) (rule kept_step)
qed (use wf_pos[OF t] in \<open>auto intro!: step_set_curs good_step_refl t\<close>)

lemma index_up_step:
  assumes t: "term_ok t"
  shows "sat (index_up cf t) (good_step t)"
  unfolding index_up_def
proof (intro sat_if)
  note p = wf_pos[OF t]
  show "sat (scroll cf (marg_t (now t)) (marg_b (now t)) (- 1) True t) (good_step t)"
    by (rule sat_mono[OF scroll_kept[OF t p(5,6,7)]]) (rule kept_step)
qed (use wf_pos[OF t] in \<open>auto intro!: step_set_curs good_step_refl t\<close>)

lemma term_bell_step: "term_ok t \<Longrightarrow> good_step t (term_bell cf t)"
proof -
  assume t: "term_ok t"
  have b: "good_step t (t\<lparr>bel := b\<rparr>)" for b using t by (simp add: good_step_def same_size_def term_ok_def)
  show ?thesis unfolding term_bell_def Let_def by (intro step_then step_if b)
qed

lemma backspace_step: "term_ok t \<Longrightarrow> good_step t (backspace t)"
  unfolding backspace_def
  by (intro step_then step_if good_step_refl step_set_curs) (use wf_pos[of t] in auto)

lemma carriage_return_step:
  assumes t: "term_ok t"
  shows "sat (carriage_return cf t) (good_step t)"
proof -
  define u where "u = seen_disp_event (set_wrapnext False (set_curs 0 (curs_y t) t))"
  have u: "good_step t u" unfolding u_def by (intro step_then home_column_step t)
  then show ?thesis
    unfolding carriage_return_def Let_def u_def[symmetric]
    using step_sat'[OF index_down_step[OF good_stepD(1)[OF u]] u] by simp
qed

lemma line_feed_step:
  assumes t: "term_ok t"
  shows "sat (line_feed cf t) (good_step t)"
  unfolding line_feed_def Let_def
  by (rule step_bind[OF index_down_step[OF t]])
    (intro sat_SomeI step_then step_if home_column_step good_step_refl; erule good_stepD(1))

lemma form_feed_ok:
  assumes t: "term_ok t"
  shows "sat (form_feed cf t) (ok_step t)"
  unfolding form_feed_def
proof (intro sat_if compat_ok t sat_good_ok line_feed_step)
  have m: "good_step t (move 0 0 0 t)" by (rule step_move[OF t])
  have "sat (do { t1 \<leftarrow> erase_lots cf False False True (move 0 0 0 t); Some (seen_disp_event (set_wrapnext False (to_bottom cf t1))) })
      (good_step (move 0 0 0 t))"
    by (rule step_bind[OF erase_lots_step[OF good_stepD(1)[OF m]]])
      (intro sat_SomeI step_then good_step_refl; erule good_stepD(1))
  then show "sat (do { t1 \<leftarrow> erase_lots cf False False True (move 0 0 0 t); Some (seen_disp_event (set_wrapnext False (to_bottom cf t1))) })
      (good_step t)"
    by (rule step_sat'[OF _ m])
qed

lemma tab_right_total:
  "int (length ts) = c \<Longrightarrow> 0 \<le> x \<Longrightarrow> x < c \<Longrightarrow> \<exists>y. tab_right ts c x = Some y \<and> 0 < y \<and> y \<le> c"
proof (induction ts c x rule: tab_right.induct)
  case (1 ts c x)
  then show ?case by (subst tab_right.simps) (auto simp: index_line_def)
qed

lemma tabulate_step:
  assumes t: "term_ok t"
  shows "sat (tabulate cf t) (good_step t)"
proof -
  note p = wf_pos[OF t]
  have "sat (tabulate cf t) (good_step t)"
    unfolding tabulate_def
  proof (rule scrline_bind[OF kept_refl[OF t] p(3,4)])
    fix u assume u: "kept t u"
    note n = near_wf_pos[OF u]
    have "int (length (tabs u)) = columns u" using n(1) by (simp add: term_ok_def)
    then obtain x where x: "tab_right (tabs u) (columns u) (curs_x u) = Some x" "0 < x" "x \<le> columns u"
      using tab_right_total[of "tabs u" "columns u" "curs_x u"] p n by auto
    let ?w = "lattr (screen (scr u) ! nat (curs_y t)) AND LATTR_MODE \<noteq> LATTR_NORM"
    define x' where "x' = (if ?w then (if x \<ge> columns u div 2 then columns u div 2 - 1 else x)
      else (if x \<ge> columns u then columns u - 1 else x))"
    have x': "0 \<le> x'" "x' < columns u" using x p(8) n(3) by (auto simp: x'_def)
    have "good_step t (set_curs x' (curs_y u) u)"
      by (rule good_step_trans[OF kept_step[OF u] step_set_curs[OF n(1) x']]) (use p n in auto)
    then show "sat (do { x \<leftarrow> tab_right (tabs u) (columns u) (curs_x u);
        let wide = (lattr (screen (scr u) ! nat (curs_y t)) AND LATTR_MODE \<noteq> LATTR_NORM);
        let x' = (if wide then (if x \<ge> columns u div 2 then columns u div 2 - 1 else x)
                  else (if x \<ge> columns u then columns u - 1 else x));
        let t2 = set_curs x' (curs_y u) u;
        Some (seen_disp_event (check_selection (curs (now t)) (curs (now t2)) t2)) }) (good_step t)"
      unfolding x(1) Option.bind_lunit Let_def x'_def[symmetric] sat_Some by (rule step_then(3)[OF step_then(15)])
  qed
  then show ?thesis .
qed

lemma c0_control_ok:
  assumes t: "term_ok t"
  shows "sat (c0_control cf c t) (ok_step t)"
proof -
  have e: "ok_step t (set_esc (\<lambda>p. p\<lparr>termstate := SEEN_ESC, esc_query := 0\<rparr>) t)" "ok_step t (set_state VT52_ESC t)"
    unfolding set_state_def by (rule ok_set_esc[OF t]; use wf_esc[OF t] in \<open>auto simp: good_esc_def\<close>)+
  have h: "ok_step t (set_now (\<lambda>h. h\<lparr>cset := k\<rparr>) t)" if "k < 2" for k
    by (rule ok_set_now[OF t]) (rule half_updates(6)[OF wf_now[OF t] that])
  show ?thesis
    unfolding c0_control_def
    by (intro sat_if compat_ok t sat_SomeI ok_if ok_then ok_step_refl e h form_feed_ok sat_good_ok
        line_feed_step carriage_return_step tabulate_step good_ok_step[OF term_bell_step] good_ok_step[OF backspace_step]) simp_all
qed

section \<open>Graphic characters\<close>

lemma width_range: "\<exists>w. char_width cf c = Some w \<and> w \<in> {- 1, 0, 1, 2}"
  by (simp add: char_width_def mk_wcwidth_def mk_wcwidth_cjk_def bisearch_spec combining_ok ambiguous_ok)

lemma put_cell_keeps:
  assumes l: "good_line l" and x: "0 \<le> x" "x < int (cols l)" and a: "a < 0x80000000" and c: "x = 0 \<longrightarrow> c \<noteq> UCSWIDE"
  shows "keeps (put_cell c a x l) l"
proof -
  obtain m where m: "clear_cc_at x l = Some m" "good_line m" "cols m = cols l" "cc_next (chars m ! nat x) = 0"
    using clear_cc_keeps[OF l x] by blast
  let ?c = "(chars m ! nat x)\<lparr>chr := c, attr := a\<rparr>"
  have i: "nat x < cols m" using x m(3) by simp
  have "good_line (upd_char (nat x) (\<lambda>_. ?c) m)" "cols (upd_char (nat x) (\<lambda>_. ?c) m) = cols m"
    by (rule upd_char_good[OF m(2) i m(4)]; use m(4) a c x in auto)+
  then show ?thesis
    using m(1,3) upd_char_const[of "nat x" "\<lambda>tc. tc\<lparr>chr := c, attr := a\<rparr>" m] by (simp add: put_cell_def keeps_def)
qed

lemma mark_line_keeps: "good_line l \<Longrightarrow> keeps (mark_line m l) l"
  by (simp add: mark_line_def keeps_def)

lemma wf_attr: "term_ok t \<Longrightarrow> curr_attr (pen t) < 0x80000000"
  by (simp add: term_ok_def good_pen_def)

lemma mark_step:
  assumes t: "term_ok t"
  shows "sat (edit_line (curs_y t) (mark_line m) t) (good_step t)"
  using wf_pos[OF t] by (intro sat_mono[OF edit_kept_only[OF kept_refl[OF t]] kept_step] mark_line_keeps screen_line t)

lemma scrline_step:
  assumes t: "term_ok t"
  shows "sat (scrlineptr (curs_y t) t) (\<lambda>u. kept t u \<and> wide (curs_y t) u)"
  using sat_mono[OF scrlineptr_ready[OF t]] wf_pos[OF t] by (auto simp: ready_def)

lemma wrap_line_step:
  assumes t: "term_ok t"
  shows "sat (wrap_line cf t) (good_step t)"
  unfolding wrap_line_def
proof (rule step_bind[OF mark_step[OF t]], rule step_bind[OF index_down_step], erule good_stepD(1))
  fix v u assume "good_step v u"
  then have u: "term_ok u" by (rule good_stepD)
  have s: "good_step u (set_wrapnext False (set_curs 0 (curs_y u) u))" by (intro step_then home_column_step u)
  have "sat (scrlineptr (curs_y (set_wrapnext False (set_curs 0 (curs_y u) u))) (set_wrapnext False (set_curs 0 (curs_y u) u)))
      (good_step u)"
    by (rule sat_mono[OF scrline_step[OF good_stepD(1)[OF s]]]) (use s in \<open>auto intro: good_step_trans kept_step\<close>)
  then show "sat (scrlineptr (curs_y u) (set_wrapnext False (set_curs 0 (curs_y u) u))) (good_step u)"
    by (simp add: set_wrapnext_def set_curs_def)
qed

lemma put_narrow_kept:
  assumes t: "term_ok t" and c: "c \<noteq> UCSWIDE"
  shows "sat (put_narrow c t) (kept t)"
proof -
  note p = wf_pos[OF t]
  show ?thesis
    unfolding put_narrow_def
  proof (intro boundary_bind[where s = t])
    fix a b assume a: "kept t a" and b: "kept t b" "boundary_done (curs_x t + 1) (curs_y t) a b"
    note n = near_wf_pos[OF b(1)] near_wf_pos[OF a]
    have "wide (curs_y t) b" using b(2) p n by (simp add: boundary_done_def)
    then have w: "curs_x t < int (cols (screen (scr b) ! nat (curs_y t)))" using wide_cols[OF b(1)] p by simp
    have "sat (edit_line (curs_y t) (put_cell c (curr_attr (pen b)) (curs_x t)) b) (kept t)"
      by (rule edit_kept_only[OF b(1) p(3,4)], rule put_cell_keeps[OF kept_line[OF b(1) p(3,4)] p(1) w wf_attr[OF n(1)]]) (use c in simp)
    then show "sat (edit_line (curs_y b) (put_cell c (curr_attr (pen b)) (curs_x b)) b) (kept t)" using n by simp
  qed (use p kept_refl[OF t] in auto)
qed

lemma put_narrow_step: "term_ok t \<Longrightarrow> c \<noteq> UCSWIDE \<Longrightarrow> sat (put_narrow c t) (good_step t)"
  by (rule sat_mono[OF put_narrow_kept]) (auto intro: kept_step)

text \<open>A double-width character at a column that is not the last one.\<close>

lemma put_both_step:
  assumes t: "term_ok t" and c: "c \<noteq> UCSWIDE" and x: "curs_x t + 1 < columns t" and w: "wide (curs_y t) t"
  shows "sat (do { e \<leftarrow> edit_line (curs_y t) (put_cell c (curr_attr (pen t)) (curs_x t)) t;
                   let f = set_curs (curs_x e + 1) (curs_y e) e;
                   edit_line (curs_y f) (put_cell UCSWIDE (curr_attr (pen f)) (curs_x f)) f }) (good_step t)"
proof -
  note p = wf_pos[OF t]
  have cw: "curs_x t < int (cols (screen (scr t) ! nat (curs_y t)))" using wide_cols[OF kept_refl[OF t] w p(2)] .
  have "sat (edit_line (curs_y t) (put_cell c (curr_attr (pen t)) (curs_x t)) t)
      (\<lambda>u. kept t u \<and> (\<forall>z. 0 \<le> z \<longrightarrow> wide z t \<longrightarrow> wide z u))"
    by (rule edit_kept[OF kept_refl[OF t] p(3,4)], rule put_cell_keeps[OF screen_line[OF t p(3,4)] p(1) cw wf_attr[OF t]]) (use c in simp)
  then show ?thesis
  proof (rule sat_bind)
    fix e assume e: "kept t e \<and> (\<forall>z. 0 \<le> z \<longrightarrow> wide z t \<longrightarrow> wide z e)"
    have we: "wide (curs_y t) e" using e w p(3) by blast
    note n = near_wf_pos[of t e]
    define f where "f = set_curs (curs_x e + 1) (curs_y e) e"
    have f: "good_step t f" unfolding f_def
      by (rule good_step_trans[OF kept_step step_set_curs]) (use e n p x in auto)
    have wf: "wide (curs_y f) f" using we e n by (simp add: f_def set_curs_def wide_def set_scr_def)
    note q = wf_pos[OF good_stepD(1)[OF f]]
    have xf: "curs_x f \<noteq> 0" using e n p by (simp add: f_def set_curs_def)
    have "sat (edit_line (curs_y f) (put_cell UCSWIDE (curr_attr (pen f)) (curs_x f)) f) (kept f)"
      by (rule edit_kept_only[OF kept_refl[OF good_stepD(1)[OF f]] q(3,4)],
          rule put_cell_keeps[OF screen_line[OF good_stepD(1)[OF f] q(3,4)] q(1) wide_cols[OF kept_refl[OF good_stepD(1)[OF f]] wf q(2)] wf_attr[OF good_stepD(1)[OF f]]])
        (use xf in simp)
    then show "sat (let f = set_curs (curs_x e + 1) (curs_y e) e in
        edit_line (curs_y f) (put_cell UCSWIDE (curr_attr (pen f)) (curs_x f)) f) (good_step t)"
      unfolding Let_def f_def[symmetric] by (rule step_sat[OF _ f])
  qed
qed

text \<open>Both boundaries of the two cells are checked, after which the line is as wide as the screen.\<close>

lemma two_boundaries:
  assumes t: "term_ok t"
  shows "sat (do { a \<leftarrow> check_boundary (curs_x t) (curs_y t) t; check_boundary (curs_x t + 2) (curs_y t) a })
    (\<lambda>b. kept t b \<and> wide (curs_y t) b)"
proof -
  note p = wf_pos[OF t]
  show ?thesis
  proof (rule boundary_bind[OF kept_refl[OF t] p(3,4,1)])
    fix a assume a: "kept t a" "boundary_done (curs_x t) (curs_y t) t a"
    note n = near_wf_pos[OF a(1)]
    have r: "curs_y t < rows a" "0 \<le> curs_x t + 2" using p n by simp_all
    have z: "0 < curs_x t \<Longrightarrow> wide (curs_y t) a" using a(2) p by (simp add: boundary_done_def)
    show "sat (check_boundary (curs_x t + 2) (curs_y t) a) (\<lambda>b. kept t b \<and> wide (curs_y t) b)"
    proof (rule sat_mono[OF check_boundary_done[OF n(1) p(3) r]])
      fix b assume b: "boundary_done (curs_x t + 2) (curs_y t) a b"
      have "wide (curs_y t) b"
      proof (cases "curs_x t = 0")
        case True
        then show ?thesis using b p n by (simp add: boundary_done_def)
      next
        case False
        then show ?thesis using z b p by (simp add: boundary_done_def)
      qed
      then show "kept t b \<and> wide (curs_y t) b" using a(1) b by (auto simp: boundary_done_def intro: kept_trans)
    qed
  qed
qed

lemma put_wide_step:
  assumes t: "term_ok t" and c: "c \<noteq> UCSWIDE"
  shows "sat (put_wide cf c t) (good_step t)"
proof -
  obtain a b where ab: "check_boundary (curs_x t) (curs_y t) t = Some a" "check_boundary (curs_x t + 2) (curs_y t) a = Some b"
    "kept t b" "wide (curs_y t) b"
    using two_boundaries[OF t] by (auto simp: sat_def bind_eq_Some_conv)
  note n = near_wf_pos[OF ab(3)]
  note p = wf_pos[OF n(1)]
  have wb: "wide (curs_y b) b" using ab(4) n by simp
  let ?D = "if curs_x b = columns b - 1
     then do { b1 \<leftarrow> edit_line (curs_y b) (put_termchar cf (erase_char (pen b)) (curs_x b)) b;
               b2 \<leftarrow> edit_line (curs_y b) (mark_line (LATTR_WRAPPED OR LATTR_WRAPPED2)) b1;
               b3 \<leftarrow> index_down cf b2;
               b4 \<leftarrow> scrlineptr (curs_y b3) (set_curs 0 (curs_y b3) b3);
               b5 \<leftarrow> check_boundary (curs_x b4) (curs_y b4) b4;
               check_boundary (curs_x b4 + 2) (curs_y b4) b5 }
     else Some b"
  have d: "sat ?D (\<lambda>d. good_step b d \<and> curs_x d + 1 < columns d \<and> wide (curs_y d) d)"
  proof (cases "curs_x b = columns b - 1")
    case True
    have "sat (edit_line (curs_y b) (put_termchar cf (erase_char (pen b)) (curs_x b)) b) (kept b)"
      by (rule edit_kept_only[OF kept_refl[OF n(1)] p(3,4)],
          rule put_termchar_keeps[OF screen_line[OF n(1) p(3,4)] wf_chars(1)[OF n(1)] p(1) wide_cols[OF kept_refl[OF n(1)] wb p(2)]])
    then obtain b1 where b1: "edit_line (curs_y b) (put_termchar cf (erase_char (pen b)) (curs_x b)) b = Some b1" "kept b b1" by (rule satE)
    note n1 = near_wf_pos[OF b1(2)]
    obtain b2 where b2: "edit_line (curs_y b) (mark_line (LATTR_WRAPPED OR LATTR_WRAPPED2)) b1 = Some b2" "good_step b1 b2"
      using satE[OF mark_step[OF n1(1)]] n1(4) by metis
    obtain b3 where b3: "index_down cf b2 = Some b3" "good_step b2 b3"
      by (rule satE[OF index_down_step[OF good_stepD(1)[OF b2(2)]]])
    have g3: "good_step b b3" using good_step_trans[OF kept_step[OF b1(2)] good_step_trans[OF b2(2) b3(2)]] .
    define u where "u = set_curs 0 (curs_y b3) b3"
    have u: "good_step b3 u" unfolding u_def by (rule home_column_step[OF good_stepD(1)[OF b3(2)]])
    have cu: "curs_x u = 0" "curs_y u = curs_y b3" by (simp_all add: u_def set_curs_def)
    obtain b4 where b4: "scrlineptr (curs_y u) u = Some b4" "kept u b4"
      using satE[OF scrline_step[OF good_stepD(1)[OF u]]] by metis
    note n4 = near_wf_pos[OF b4(2)]
    obtain b5 d where d: "check_boundary (curs_x b4) (curs_y b4) b4 = Some b5" "check_boundary (curs_x b4 + 2) (curs_y b4) b5 = Some d"
      "kept b4 d" "wide (curs_y b4) d"
      using two_boundaries[OF n4(1)] by (auto simp: sat_def bind_eq_Some_conv)
    note nd = near_wf_pos[OF d(3)]
    have "?D = Some d"
      unfolding if_P[OF True] b1(1) Option.bind_lunit b2(1) b3(1) using b4(1) d(1,2) cu(2) by (simp add: u_def)
    moreover have "good_step b d"
      by (rule good_step_trans[OF good_step_trans[OF g3 u] kept_step[OF kept_trans[OF b4(2) d(3)]]])
    moreover have "curs_x d + 1 < columns d" using nd n4 cu wf_pos(8)[OF nd(1)] by simp
    ultimately show ?thesis using d(4) nd by simp
  next
    case False
    then show ?thesis using p wb good_step_refl[OF n(1)] by simp
  qed
  obtain d where d: "?D = Some d" "good_step b d" "curs_x d + 1 < columns d" "wide (curs_y d) d"
    using d by (auto elim: satE)
  have e: "put_wide cf c t = do { e \<leftarrow> edit_line (curs_y d) (put_cell c (curr_attr (pen d)) (curs_x d)) d;
      let f = set_curs (curs_x e + 1) (curs_y e) e;
      edit_line (curs_y f) (put_cell UCSWIDE (curr_attr (pen f)) (curs_x f)) f }"
    unfolding put_wide_def ab(1,2) Option.bind_lunit d(1) ..
  show ?thesis
    unfolding e
    by (rule step_sat'[OF put_both_step[OF good_stepD(1)[OF d(2)] c d(3,4)] good_step_trans[OF kept_step[OF ab(3)] d(2)]])
qed

lemma put_combining_step:
  assumes t: "term_ok t" and w: "wide (curs_y t) t" and c: "c \<noteq> 0"
  shows "sat (put_combining cf c t) (good_step t)"
proof (cases "curs_x t > 0")
  case True
  note p = wf_pos[OF t]
  let ?l = "screen (scr t) ! nat (curs_y t)"
  define x where "x = (if wrapnext (now t) then curs_x t else curs_x t - 1)"
  have x: "0 \<le> x" "x < columns t" using p True by (auto simp: x_def)
  have l: "good_line ?l" by (rule screen_line[OF t p(3,4)])
  have xc: "nat x < cols ?l" using wide_cols[OF kept_refl[OF t] w x(2)] x by simp
  then have ix: "index_line x (chars ?l) = Some (chars ?l ! nat x)"
    using good_line_length[OF l] x by (simp add: index_line_def)
  have il: "index_line (curs_y t) (screen (scr t)) = Some ?l"
    using p wf_screen(1)[OF t] by (simp add: index_line_def)
  have z: "0 < x" if "chr (chars ?l ! nat x) = UCSWIDE"
    using good_cellD(4)[OF l xc] that x by (cases "x = 0") auto
  define i where "i = nat (if chr (chars ?l ! nat x) = UCSWIDE then x - 1 else x)"
  have i: "i < cols ?l" using xc x by (auto simp: i_def)
  have "sat (edit_line (curs_y t) (\<lambda>l. add_cc (junk cf) l i c) t) (kept t)"
    by (rule edit_kept_only[OF kept_refl[OF t] p(3,4)]) (rule add_cc_keeps[OF l i c])
  then obtain u where u: "edit_line (curs_y t) (\<lambda>l. add_cc (junk cf) l i c) t = Some u" "kept t u" by (rule satE)
  have "put_combining cf c t = Some (seen_disp_event u)"
    using True il ix z u(1) by (simp add: put_combining_def x_def[symmetric] i_def[symmetric] del: if_split)
  then show ?thesis using step_then(3)[OF kept_step[OF u(2)]] by simp
qed (simp add: put_combining_def good_step_refl t)

lemma set_curs_twice: "set_curs x y (set_curs x' y' t) = set_curs x y t" by (simp add: set_curs_def)

lemma set_curs_sel: "curs_x (set_curs x y t) = x" "curs_y (set_curs x y t) = y" "columns (set_curs x y t) = columns t"
  "rows (set_curs x y t) = rows t"
  by (simp_all add: set_curs_def)

lemma advance_step:
  assumes t: "term_ok t"
  shows "sat (advance cf t) (good_step t)"
proof -
  note p = wf_pos[OF t]
  define u where "u = set_wrapnext True (set_curs (curs_x t) (curs_y t) t)"
  have u: "good_step t u" unfolding u_def by (intro step_then step_set_curs t) (use p in auto)
  have w: "sat (do { a \<leftarrow> edit_line (curs_y u) (mark_line LATTR_WRAPPED) u; b \<leftarrow> index_down cf a;
      Some (set_wrapnext False (set_curs 0 (curs_y b) b)) }) (good_step u)"
  proof (rule step_bind[OF mark_step[OF good_stepD(1)[OF u]]], rule step_bind[OF index_down_step], erule good_stepD(1))
    fix a b assume "good_step a b"
    then show "sat (Some (set_wrapnext False (set_curs 0 (curs_y b) b))) (good_step b)"
      unfolding sat_Some by (intro step_then home_column_step) (erule good_stepD(1))
  qed
  have e: "advance cf t =
      do { t2 \<leftarrow> (if curs_x t + 1 = columns t
                 then (if wrap (now u) \<and> vt52_mode (mode u)
                       then do { a \<leftarrow> edit_line (curs_y u) (mark_line LATTR_WRAPPED) u; b \<leftarrow> index_down cf a;
                                 Some (set_wrapnext False (set_curs 0 (curs_y b) b)) }
                       else Some u)
                 else Some (set_curs (curs_x t + 1) (curs_y t) t));
           Some (seen_disp_event t2) }"
    unfolding advance_def Let_def set_curs_sel set_curs_twice add_diff_cancel_right' u_def ..
  show ?thesis
    unfolding e
  proof (rule step_bind)
    show "sat (if curs_x t + 1 = columns t
                 then (if wrap (now u) \<and> vt52_mode (mode u)
                       then do { a \<leftarrow> edit_line (curs_y u) (mark_line LATTR_WRAPPED) u; b \<leftarrow> index_down cf a;
                                 Some (set_wrapnext False (set_curs 0 (curs_y b) b)) }
                       else Some u)
                 else Some (set_curs (curs_x t + 1) (curs_y t) t)) (good_step t)"
      using step_sat'[OF w u] u p by (auto intro!: sat_if step_set_curs t)
  qed (intro sat_SomeI step_then good_step_refl, erule good_stepD(1))
qed

lemma check_cursor_selection_step: "good_step s t \<Longrightarrow> good_step s (check_cursor_selection t)"
  unfolding check_cursor_selection_def by (intro step_if step_then)

lemma step_pair:
  assumes "sat m (good_step t)"
  shows "sat (do { a \<leftarrow> m; Some (a, b) }) (\<lambda>r. good_step t (fst r))"
  using assms by (auto simp: sat_def)

lemma graphic_step:
  assumes t: "term_ok t" and c: "c \<noteq> UCSWIDE" "c \<noteq> 0"
  shows "sat (graphic cf c t) (\<lambda>r. good_step t (fst r))"
proof -
  obtain w where w: "char_width cf c = Some w" "w \<in> {- 1, 0, 1, 2}" using width_range by blast
  obtain t1 where t1: "scrlineptr (curs_y t) t = Some t1" "kept t t1" "wide (curs_y t) t1"
    by (rule satE[OF scrline_step[OF t]]) blast
  note n1 = near_wf_pos[OF t1(2)]
  have "sat (if wrapnext (now t1) \<and> wrap (now t1) \<and> w > 0 then wrap_line cf t1 else Some t1) (\<lambda>u. good_step t1 u \<and> (w \<le> 0 \<longrightarrow> u = t1))"
    using wrap_line_step[OF n1(1), of cf] good_step_refl[OF n1(1)] by (auto elim: sat_mono)
  then obtain t2 where t2: "(if wrapnext (now t1) \<and> wrap (now t1) \<and> w > 0 then wrap_line cf t1 else Some t1) = Some t2"
    "good_step t1 t2" "w \<le> 0 \<Longrightarrow> t2 = t1" by (rule satE) blast
  note g2 = good_stepD(1)[OF t2(2)]
  have "sat (if insert_mode (now t2) \<and> w > 0 then insch cf w t2 else Some t2) (\<lambda>u. good_step t2 u \<and> (w \<le> 0 \<longrightarrow> u = t2))"
  proof (cases "w > 0")
    case True
    have "sat (insch cf w t2) (kept t2)" by (rule insch_kept[OF g2]) (use True w(2) in auto)
    then show ?thesis using True good_step_refl[OF g2] by (auto elim!: sat_mono intro: kept_step)
  qed (use good_step_refl[OF g2] in simp)
  then obtain t3 where t3: "(if insert_mode (now t2) \<and> w > 0 then insch cf w t2 else Some t2) = Some t3"
    "good_step t2 t3" "w \<le> 0 \<Longrightarrow> t3 = t2" by (rule satE) blast
  define t4 where "t4 = check_cursor_selection t3"
  have g4: "good_step t t4"
    unfolding t4_def
    by (rule check_cursor_selection_step[OF good_step_trans[OF kept_step[OF t1(2)] good_step_trans[OF t2(2) t3(2)]]])
  note o4 = good_stepD(1)[OF g4]
  have e: "graphic cf c t =
      (if w = 2 then do { a \<leftarrow> put_wide cf c t4; b \<leftarrow> advance cf a; Some (b, False) }
       else if w = 1 then do { a \<leftarrow> put_narrow c t4; b \<leftarrow> advance cf a; Some (b, False) }
       else if w = 0 then do { a \<leftarrow> put_combining cf c t4; Some (a, True) }
       else Some (t4, True))"
    unfolding graphic_def w(1) t1(1) Option.bind_lunit t2(1) t3(1) t4_def Let_def ..
  have adv: "sat (do { a \<leftarrow> m; b \<leftarrow> advance cf a; Some (b, False) }) (\<lambda>r. good_step t4 (fst r))" if "sat m (good_step t4)" for m
  proof -
    have "sat (do { a \<leftarrow> m; advance cf a }) (good_step t4)"
      by (rule step_bind[OF that advance_step]) (erule good_stepD(1))
    from step_pair[OF this, of False] show ?thesis by simp
  qed
  have comb: "sat (put_combining cf c t4) (good_step t4)" if "w = 0"
  proof (rule put_combining_step[OF o4 _ c(2)])
    have "scr t4 = scr t1" "now t4 = now t1" "columns t4 = columns t1"
      using t3(3) t2(3) that by (simp_all add: t4_def check_cursor_selection_def check_selection_def deselect_def set_sel_def)
    then show "wide (curs_y t4) t4" using t1(3) n1 by (simp add: wide_def)
  qed
  have "sat (graphic cf c t) (\<lambda>r. good_step t4 (fst r))"
    unfolding e
    by (intro sat_if adv put_wide_step put_narrow_step step_pair comb o4 c) (simp_all add: good_step_refl o4)
  then show ?thesis by (rule sat_mono) (rule good_step_trans[OF g4])
qed

end
