(* ===== verification/Term_Esc.thy ===== *)
theory Term_Esc
  imports Term_Out
begin

text \<open>
  The escape sequences of \<open>term_out\<close> (\<open>putty/terminal.c\<close>), the dispatch on the state of the
  parser, and the loop itself.
\<close>

section \<open>ESC sequences\<close>

fun align_rows :: "config \<Rightarrow> nat \<Rightarrow> terminal \<Rightarrow> terminal option" where
  "align_rows cf 0 t = Some t"
| "align_rows cf (Suc i) t =
     do { t1 \<leftarrow> align_rows cf i t;
          t2 \<leftarrow> scrlineptr (int i) t1;
          edit_line (int i)
            (\<lambda>l. do { l1 \<leftarrow> check_line_size t2 l;
                      l2 \<leftarrow> fill_cells cf ((basic_erase_char (pen t2))\<lparr>chr := K CHR ''E''\<rparr>) [0..<nat (columns t2)] l1;
                      Some (l2\<lparr>lattr := LATTR_NORM\<rparr>) }) t2 }"

definition screen_align :: "config \<Rightarrow> terminal \<Rightarrow> terminal option" where
  "screen_align cf t =
     do { t1 \<leftarrow> align_rows cf (nat (rows t)) t;
          Some (check_selection \<lparr>py = 0, px = 0\<rparr> \<lparr>py = rows t1, px = 0\<rparr> (seen_disp_event (to_bottom cf t1))) }"

definition set_line_mode :: "16 word \<Rightarrow> terminal \<Rightarrow> terminal option" where
  "set_line_mode m t =
     do { t1 \<leftarrow> scrlineptr (curs_y t) t;
          edit_line (curs_y t) (\<lambda>l. do { l1 \<leftarrow> check_line_size t1 l; Some (l1\<lparr>lattr := m\<rparr>) }) t1 }"

definition set_tab :: "bool \<Rightarrow> terminal \<Rightarrow> terminal option" where
  "set_tab b t =
     (if 0 \<le> curs_x t \<and> curs_x t < int (length (tabs t))
      then Some (t\<lparr>tabs := (tabs t)[nat (curs_x t) := b]\<rparr>) else None)"

definition reset_initial :: "config \<Rightarrow> terminal \<Rightarrow> terminal option" where
  "reset_initial cf t =
     do { t1 \<leftarrow> power_on cf True t;
          let t2 = echoedit_update cf t1;
          let t3 = (if reset_132 (mode t2)
                    then set_mode (\<lambda>m. m\<lparr>reset_132 := False\<rparr>)
                      (if \<not> no_remote_resize cf then emit (Request_resize 80 (rows t2)) t2 else t2)
                    else t2);
          Some (seen_disp_event (to_bottom cf t3)) }"

definition designate :: "config \<Rightarrow> 16 word \<Rightarrow> nat \<Rightarrow> 32 word \<Rightarrow> terminal \<Rightarrow> terminal option" where
  "designate cf level i v t =
     compatibility level (\<lambda>t. Some (if \<not> no_remote_charset cf then set_cset_attr i v t else t)) t"

definition switch_utf :: "config \<Rightarrow> bool \<Rightarrow> terminal \<Rightarrow> terminal option" where
  "switch_utf cf b t =
     compatibility CL_OTHER (\<lambda>t. Some (if \<not> no_remote_charset cf then set_now (\<lambda>h. h\<lparr>utf := b\<rparr>) t else t)) t"

definition esc_plain :: "config \<Rightarrow> 32 word \<Rightarrow> terminal \<Rightarrow> terminal option" where
  "esc_plain cf k t =
     (if k = K CHR ''['' then
        Some (set_esc (\<lambda>p. p\<lparr>termstate := SEEN_CSI, esc_nargs := 1, esc_args := (esc_args p)[0 := 0], esc_query := 0\<rparr>) t)
      else if k = K CHR '']'' then
        compatibility CL_OTHER (\<lambda>t. Some (set_esc (\<lambda>p. p\<lparr>termstate := SEEN_OSC, esc_args := (esc_args p)[0 := 0]\<rparr>) t)) t
      else if k = K CHR ''7'' then compatibility CL_VT100 (save_cursor True) t
      else if k = K CHR ''8'' then
        compatibility CL_VT100 (\<lambda>t. do { t' \<leftarrow> save_cursor False t; Some (seen_disp_event t') }) t
      else if k = K CHR ''='' then compatibility CL_VT100 (\<lambda>t. Some (set_mode (\<lambda>m. m\<lparr>app_keypad_keys := True\<rparr>) t)) t
      else if k = K CHR ''>'' then compatibility CL_VT100 (\<lambda>t. Some (set_mode (\<lambda>m. m\<lparr>app_keypad_keys := False\<rparr>) t)) t
      else if k = K CHR ''D'' then
        compatibility CL_VT100 (\<lambda>t. do { t' \<leftarrow> index_down cf t; Some (seen_disp_event (set_wrapnext False t')) }) t
      else if k = K CHR ''E'' then
        compatibility CL_VT100
          (\<lambda>t. do { t' \<leftarrow> index_down cf (set_curs 0 (curs_y t) t); Some (seen_disp_event (set_wrapnext False t')) }) t
      else if k = K CHR ''M'' then
        compatibility CL_VT100 (\<lambda>t. do { t' \<leftarrow> index_up cf t; Some (seen_disp_event (set_wrapnext False t')) }) t
      else if k = K CHR ''Z'' then compatibility CL_VT100 (\<lambda>t. Some (ldisc_send_event cf (id_string (esc t)) t)) t
      else if k = K CHR ''c'' then compatibility CL_VT100 (reset_initial cf) t
      else if k = K CHR ''H'' then compatibility CL_VT100 (set_tab True) t
      else Some t)"

definition esc_other :: "config \<Rightarrow> 32 word \<Rightarrow> terminal \<Rightarrow> terminal option" where
  "esc_other cf k t =
     (if k = ANSI (K CHR ''8'') (of_char CHR ''#'') then compatibility CL_VT100 (screen_align cf) t
      else if k = ANSI (K CHR ''3'') (of_char CHR ''#'') then compatibility CL_VT100 (set_line_mode LATTR_TOP) t
      else if k = ANSI (K CHR ''4'') (of_char CHR ''#'') then compatibility CL_VT100 (set_line_mode LATTR_BOT) t
      else if k = ANSI (K CHR ''5'') (of_char CHR ''#'') then compatibility CL_VT100 (set_line_mode LATTR_NORM) t
      else if k = ANSI (K CHR ''6'') (of_char CHR ''#'') then compatibility CL_VT100 (set_line_mode LATTR_WIDE) t
      else if k = ANSI (K CHR ''A'') (of_char CHR ''('') then designate cf CL_VT100 0 CSET_GBCHR t
      else if k = ANSI (K CHR ''B'') (of_char CHR ''('') then designate cf CL_VT100 0 CSET_ASCII t
      else if k = ANSI (K CHR ''0'') (of_char CHR ''('') then designate cf CL_VT100 0 CSET_LINEDRW t
      else if k = ANSI (K CHR ''U'') (of_char CHR ''('') then designate cf CL_OTHER 0 CSET_SCOACS t
      else if k = ANSI (K CHR ''A'') (of_char CHR '')'') then designate cf CL_VT100 1 CSET_GBCHR t
      else if k = ANSI (K CHR ''B'') (of_char CHR '')'') then designate cf CL_VT100 1 CSET_ASCII t
      else if k = ANSI (K CHR ''0'') (of_char CHR '')'') then designate cf CL_VT100 1 CSET_LINEDRW t
      else if k = ANSI (K CHR ''U'') (of_char CHR '')'') then designate cf CL_OTHER 1 CSET_SCOACS t
      else if k = ANSI (K CHR ''8'') (of_char CHR ''%'') \<or> k = ANSI (K CHR ''G'') (of_char CHR ''%'') then switch_utf cf True t
      else if k = ANSI (K CHR ''@'') (of_char CHR ''%'') then switch_utf cf False t
      else Some t)"

definition esc_char :: "config \<Rightarrow> 32 word \<Rightarrow> terminal \<Rightarrow> terminal option" where
  "esc_char cf c t =
     (if c \<ge> K CHR '' '' \<and> c \<le> K CHR ''/'' then
        Some (set_esc (\<lambda>p. p\<lparr>esc_query := (if esc_query p \<noteq> 0 then - 1 else sint c)\<rparr>) t)
      else
        let t1 = set_state TOPLEVEL t; k = ANSI c (esc_query (esc t1))
        in if k < 0x100 then esc_plain cf k t1 else esc_other cf k t1)"

definition osc_maybe_st :: "config \<Rightarrow> 32 word \<Rightarrow> terminal \<Rightarrow> terminal option" where
  "osc_maybe_st cf c t =
     (if c = 0x5C then do { t1 \<leftarrow> do_osc cf t; Some (set_state TOPLEVEL t1) } else esc_char cf c t)"

section \<open>CSI sequences\<close>

definition csi_digit :: "32 word \<Rightarrow> terminal \<Rightarrow> terminal option" where
  "csi_digit c t =
     (let p = esc t; i = esc_nargs p - 1 in
      if esc_nargs p \<le> ARGS_MAX then
        (if esc_nargs p = 0 \<or> \<not> i < length (esc_args p) then None
         else Some (set_esc (\<lambda>p. p\<lparr>esc_args := (esc_args p)[i := wrap32 (10 * esc_args p ! i + uint c - 48)],
                                   termstate := SEEN_CSI\<rparr>) t))
      else Some (set_state SEEN_CSI t))"

definition csi_semicolon :: "terminal \<Rightarrow> terminal" where
  "csi_semicolon t =
     set_esc (\<lambda>p. if esc_nargs p < ARGS_MAX
                  then p\<lparr>esc_args := (esc_args p)[esc_nargs p := 0], esc_nargs := esc_nargs p + 1, termstate := SEEN_CSI\<rparr>
                  else p\<lparr>termstate := SEEN_CSI\<rparr>) t"

definition csi_intermediate :: "32 word \<Rightarrow> terminal \<Rightarrow> terminal" where
  "csi_intermediate c t =
     set_esc (\<lambda>p. p\<lparr>esc_query := (if esc_query p \<noteq> 0 then - 1 else if c = K CHR ''?'' then 1 else sint c),
                    termstate := SEEN_CSI\<rparr>) t"

definition move_seen :: "int \<Rightarrow> int \<Rightarrow> nat \<Rightarrow> terminal \<Rightarrow> terminal option" where
  "move_seen x y clip t = Some (seen_disp_event (move x y clip t))"

definition origin :: "terminal \<Rightarrow> int" where
  "origin t = (if dec_om (now t) then marg_t (now t) else 0)"

definition csi_cursor :: "32 word \<Rightarrow> terminal \<Rightarrow> terminal option" where
  "csi_cursor k t =
     (let a = def_arg (arg 0 t) 1; x = curs_x t; y = curs_y t; clip = (if dec_om (now t) then 2 else 0) in
      if k = K CHR ''A'' then move_seen x (wrap32 (y - a)) 1 t
      else if k = K CHR ''e'' then compatibility CL_ANSI (move_seen x (wrap32 (y + a)) 1) t
      else if k = K CHR ''B'' then move_seen x (wrap32 (y + a)) 1 t
      else if k = K CHR ''a'' then compatibility CL_ANSI (move_seen (wrap32 (x + a)) y 1) t
      else if k = K CHR ''C'' then move_seen (wrap32 (x + a)) y 1 t
      else if k = K CHR ''D'' then move_seen (wrap32 (x - a)) y 1 t
      else if k = K CHR ''E'' then compatibility CL_ANSI (move_seen 0 (wrap32 (y + a)) 1) t
      else if k = K CHR ''F'' then compatibility CL_ANSI (move_seen 0 (wrap32 (y - a)) 1) t
      else if k = K CHR ''G'' \<or> k = K CHR ''`'' then compatibility CL_ANSI (move_seen (wrap32 (a - 1)) y 0) t
      else if k = K CHR ''d'' then compatibility CL_ANSI (move_seen x (wrap32 (origin t + a - 1)) clip) t
      else \<comment> \<open>\<open>H\<close> and \<open>f\<close>\<close>
        let t1 = (if esc_nargs (esc t) < 2 then set_esc (\<lambda>p. p\<lparr>esc_args := (esc_args p)[1 := 0]\<rparr>) t else t)
        in move_seen (wrap32 (def_arg (arg 1 t1) 1 - 1)) (wrap32 (origin t1 + a - 1)) clip t1)"

definition erase_code :: "int \<Rightarrow> 32 word" where
  "erase_code a = (let i = (word_of_int a + 1 :: 32 word) in if i > 3 then 0 else i)"

definition erase_display :: "config \<Rightarrow> terminal \<Rightarrow> terminal option" where
  "erase_display cf t =
     (let a = arg 0 t in
      do { t1 \<leftarrow> (if (word_of_int a :: 32 word) = 3 then term_clrsb cf t
                  else erase_lots cf False (bit (erase_code a) 1) (bit (erase_code a) 0) t);
           Some (seen_disp_event (to_bottom cf t1)) })"

definition erase_in_line :: "config \<Rightarrow> terminal \<Rightarrow> terminal option" where
  "erase_in_line cf t =
     do { t1 \<leftarrow> erase_lots cf True (bit (erase_code (arg 0 t)) 1) (bit (erase_code (arg 0 t)) 0) t;
          Some (seen_disp_event t1) }"

definition shift_lines :: "config \<Rightarrow> int \<Rightarrow> bool \<Rightarrow> terminal \<Rightarrow> terminal option" where
  "shift_lines cf n sb t =
     do { t1 \<leftarrow> (if curs_y t \<le> marg_b (now t) then scroll cf (curs_y t) (marg_b (now t)) n sb t else Some t);
          Some (seen_disp_event t1) }"

definition insch_seen :: "config \<Rightarrow> int \<Rightarrow> terminal \<Rightarrow> terminal option" where
  "insch_seen cf n t = do { t1 \<leftarrow> insch cf n t; Some (seen_disp_event t1) }"

definition scroll_region :: "config \<Rightarrow> int \<Rightarrow> terminal \<Rightarrow> terminal option" where
  "scroll_region cf n t =
     do { t1 \<leftarrow> scroll cf (marg_t (now t)) (marg_b (now t)) n True t;
          Some (seen_disp_event (set_wrapnext False t1)) }"

text \<open>
  With a negative count the loop \<open>while (n--)\<close> of the code does not stop at zero: it writes cell after
  cell past the end of the line until it leaves the memory of the process.  The model answers
  \<open>None\<close> instead, because the write outside the line is inevitable; \<open>insch\<close> does so when the
  negation of its argument overflows.
\<close>

definition erase_chars :: "config \<Rightarrow> terminal \<Rightarrow> terminal option" where
  "erase_chars cf t =
     (let n0 = def_arg (arg 0 t) 1; x = curs_x t; y = curs_y t;
          n = (if n0 > columns t - x then columns t - x else n0)
      in do { t1 \<leftarrow> scrlineptr y t;
              t2 \<leftarrow> check_boundary x y t1;
              t3 \<leftarrow> check_boundary (wrap32 (x + n)) y t2;
              let t4 = check_selection (curs (now t3)) ((curs (now t3))\<lparr>px := wrap32 (x + n)\<rparr>) t3;
              if n < 0 then None
              else do { t5 \<leftarrow> edit_line y (fill_cells cf (erase_char (pen t4)) [nat x..<nat (x + n)]) t4;
                        Some (seen_disp_event t5) } })"

definition csi_edit :: "config \<Rightarrow> 32 word \<Rightarrow> terminal \<Rightarrow> terminal option" where
  "csi_edit cf k t =
     (let a = def_arg (arg 0 t) 1 in
      if k = K CHR ''J'' then erase_display cf t
      else if k = K CHR ''K'' then erase_in_line cf t
      else if k = K CHR ''L'' then compatibility CL_VT102 (shift_lines cf (wrap32 (- a)) False) t
      else if k = K CHR ''M'' then compatibility CL_VT102 (shift_lines cf a True) t
      else if k = K CHR ''@'' then compatibility CL_VT102 (insch_seen cf a) t
      else if k = K CHR ''P'' then compatibility CL_VT102 (insch_seen cf (wrap32 (- a))) t
      else if k = K CHR ''S'' then compatibility CL_SCOANSI (scroll_region cf a) t
      else if k = K CHR ''T'' then compatibility CL_SCOANSI (scroll_region cf (wrap32 (- a))) t
      else \<comment> \<open>\<open>X\<close>\<close> compatibility CL_ANSIMIN (erase_chars cf) t)"

definition status_report :: "config \<Rightarrow> terminal \<Rightarrow> terminal" where
  "status_report cf t =
     (if arg 0 t = 6
      then ldisc_send_event cf (bytes [CHR 0x1B, CHR ''[''] @ dec (curs_y t + 1) @ bytes '';'' @ dec (curs_x t + 1) @ bytes ''R'') t
      else if arg 0 t = 5 then ldisc_send_event cf (ESC # bytes ''[0n'') t
      else t)"

fun toggle_all :: "config \<Rightarrow> int list \<Rightarrow> bool \<Rightarrow> bool \<Rightarrow> terminal \<Rightarrow> terminal option" where
  "toggle_all cf [] query state t = Some t"
| "toggle_all cf (a # as) query state t =
     do { t1 \<leftarrow> toggle_mode cf a query state t; toggle_all cf as query state t1 }"

definition set_modes :: "config \<Rightarrow> bool \<Rightarrow> terminal \<Rightarrow> terminal option" where
  "set_modes cf state t =
     toggle_all cf (take (esc_nargs (esc t)) (esc_args (esc t))) (esc_query (esc t) \<noteq> 0) state t"

definition media_copy :: "config \<Rightarrow> terminal \<Rightarrow> terminal option" where
  "media_copy cf t =
     (if esc_nargs (esc t) \<noteq> 1 then Some t
      else if arg 0 t = 5 \<and> cfg_printer cf \<noteq> [] then
        Some (term_print_setup (cfg_printer cf)
          (set_prn (\<lambda>p. p\<lparr>printing := True, only_printing := (esc_query (esc t) = 0), print_stage := 0\<rparr>) t))
      else if arg 0 t = 4 \<and> printing (prn t) then term_print_finish t
      else Some t)"

definition clear_tabs :: "terminal \<Rightarrow> terminal option" where
  "clear_tabs t =
     (if esc_nargs (esc t) \<noteq> 1 then Some t
      else if arg 0 t = 0 then set_tab False t
      else if arg 0 t = 3 then
        (if \<not> columns t \<le> int (length (tabs t)) then None
         else Some (t\<lparr>tabs := replicate (nat (columns t)) False @ drop (nat (columns t)) (tabs t)\<rparr>))
      else Some t)"

definition set_margins :: "terminal \<Rightarrow> terminal" where
  "set_margins t =
     (if esc_nargs (esc t) > 2 then t
      else
        let top = wrap32 (def_arg (arg 0 t) 1 - 1);
            bot0 = wrap32 ((if esc_nargs (esc t) \<le> 1 \<or> arg 1 t = 0 then rows t else def_arg (arg 1 t) (rows t)) - 1);
            bot = (if bot0 \<ge> rows t then rows t - 1 else bot0)
        in if wrap32 (bot - top) > 0
           then let t1 = set_now (\<lambda>h. h\<lparr>marg_t := top, marg_b := bot\<rparr>) t
                in seen_disp_event (set_curs 0 (if dec_om (now t1) then marg_t (now t1) else 0) t1)
           else t)"

text \<open>Graphic rendition: an argument alone, and the list of the arguments.\<close>

definition compat_then :: "16 word \<Rightarrow> (terminal \<Rightarrow> terminal) \<Rightarrow> terminal \<Rightarrow> terminal" where
  "compat_then x f t = (if has_compat x t then f t else set_state TOPLEVEL t)"

definition sgr_sco_acs :: "config \<Rightarrow> nat \<Rightarrow> terminal \<Rightarrow> terminal" where
  "sgr_sco_acs cf n t =
     compat_then CL_SCOANSI (\<lambda>t. if no_remote_charset cf then t else set_now (\<lambda>h. h\<lparr>sco_acs := n\<rparr>) t) t"

definition blink_unreal :: "terminal \<Rightarrow> terminal" where
  "blink_unreal t = set_disp (\<lambda>d. d\<lparr>blink_is_real := False\<rparr>) t"

definition sgr_one :: "config \<Rightarrow> int \<Rightarrow> terminal \<Rightarrow> terminal" where
  "sgr_one cf a t =
     (if a = 0 then pen_attr (\<lambda>_. default_attr (pen t)) t
      else if a = 1 then compat_then CL_VT100AVO (pen_attr (\<lambda>c. c OR ATTR_BOLD)) t
      else if a = 21 then compat_then CL_OTHER (compat_then CL_VT100AVO (pen_attr (\<lambda>c. c OR ATTR_UNDER))) t
      else if a = 4 then compat_then CL_VT100AVO (pen_attr (\<lambda>c. c OR ATTR_UNDER)) t
      else if a = 5 then compat_then CL_VT100AVO (pen_attr (\<lambda>c. c OR ATTR_BLINK)) t
      else if a = 6 then
        compat_then CL_SCOANSI (\<lambda>t. term_schedule_tblink (pen_attr (\<lambda>c. c OR ATTR_BLINK) (blink_unreal t))) t
      else if a = 7 then pen_attr (\<lambda>c. c OR ATTR_REVERSE) t
      else if a = 10 then sgr_sco_acs cf 0 t
      else if a = 11 then sgr_sco_acs cf 1 t
      else if a = 12 then sgr_sco_acs cf 2 t
      else if a = 22 then compat_then (CL_OTHER OR CL_VT220) (pen_attr (\<lambda>c. c AND NOT ATTR_BOLD)) t
      else if a = 24 then compat_then (CL_OTHER OR CL_VT220) (pen_attr (\<lambda>c. c AND NOT ATTR_UNDER)) t
      else if a = 25 then compat_then (CL_OTHER OR CL_VT220) (pen_attr (\<lambda>c. c AND NOT ATTR_BLINK)) t
      else if a = 27 then compat_then (CL_OTHER OR CL_VT220) (pen_attr (\<lambda>c. c AND NOT ATTR_REVERSE)) t
      else if 30 \<le> a \<and> a \<le> 37 then set_fg (push_bit ATTR_FGSHIFT (word_of_int (a - 30))) t
      else if 90 \<le> a \<and> a \<le> 97 then set_fg (push_bit ATTR_FGSHIFT (word_of_int (a - 90 + 8))) t
      else if a = 39 then set_fg ATTR_DEFFG t
      else if 40 \<le> a \<and> a \<le> 47 then set_bg (push_bit ATTR_BGSHIFT (word_of_int (a - 40))) t
      else if 100 \<le> a \<and> a \<le> 107 then set_bg (push_bit ATTR_BGSHIFT (word_of_int (a - 100 + 8))) t
      else if a = 49 then set_bg ATTR_DEFBG t
      else t)"

fun sgr_loop :: "config \<Rightarrow> int list \<Rightarrow> terminal \<Rightarrow> terminal" where
  "sgr_loop cf [] t = t"
| "sgr_loop cf (a # as) t =
     (if a = 38 \<or> a = 48 then
        (case as of
           m # c # as' \<Rightarrow>
             if m = 5
             then sgr_loop cf as'
               (if a = 38 then set_fg (push_bit ATTR_FGSHIFT (word_of_int c AND 0xFF)) t
                else set_bg (push_bit ATTR_BGSHIFT (word_of_int c AND 0xFF)) t)
             else sgr_loop cf as t
         | _ \<Rightarrow> sgr_loop cf as t)
      else sgr_loop cf as (sgr_one cf a t))"

definition set_rendition :: "config \<Rightarrow> terminal \<Rightarrow> terminal" where
  "set_rendition cf t = set_erase_char (sgr_loop cf (take (esc_nargs (esc t)) (esc_args (esc t))) t)"

definition request_size :: "config \<Rightarrow> int \<Rightarrow> int \<Rightarrow> terminal \<Rightarrow> terminal" where
  "request_size cf w h t = (if \<not> no_remote_resize cf then emit (Request_resize w h) t else t)"

definition title_report :: "config \<Rightarrow> char \<Rightarrow> byte list \<Rightarrow> terminal \<Rightarrow> terminal" where
  "title_report cf c title t =
     (if has_ldisc cf \<and> remote_qtitle_action cf \<noteq> 0
      then emit (Ldisc_send [ESC, 0x5C])
        (emit (Ldisc_send (if remote_qtitle_action cf = 2 then title else []))
          (emit (Ldisc_send (ESC # bytes [CHR '']'', c])) t))
      else t)"

definition window_report :: "config \<Rightarrow> terminal \<Rightarrow> terminal" where
  "window_report cf t =
     (let a = arg 0 t; nargs = esc_nargs (esc t);
          u = (\<lambda>i. dec (uint (word_of_int i :: 32 word))) in
      if a = 1 then emit (Set_iconic False) t
      else if a = 2 then emit (Set_iconic True) t
      else if a = 3 then
        (if nargs \<ge> 3 \<and> \<not> no_remote_resize cf then emit (Move_window (arg 1 t) (arg 2 t)) t else t)
      else if a = 5 then emit (Set_zorder True) t
      else if a = 6 then emit (Set_zorder False) t
      else if a = 7 then emit Refresh_window t
      else if a = 8 then
        (if nargs \<ge> 3 then request_size cf (def_arg (arg 2 t) (conf_width cf)) (def_arg (arg 1 t) (conf_height cf)) t else t)
      else if a = 9 then (if nargs \<ge> 2 then emit (Set_zoomed (arg 1 t \<noteq> 0)) t else t)
      else if a = 11 then ldisc_send_event cf (ESC # bytes (if is_iconic cf then ''[2t'' else ''[1t'')) t
      else if a = 13 then
        ldisc_send_event cf (ESC # bytes ''[3;'' @ u (fst (window_pos cf)) @ bytes '';'' @ u (snd (window_pos cf)) @ bytes ''t'') t
      else if a = 14 then
        ldisc_send_event cf (ESC # bytes ''[4;'' @ dec (snd (window_pixels cf)) @ bytes '';'' @ dec (fst (window_pixels cf)) @ bytes ''t'') t
      else if a = 18 then
        ldisc_send_event cf (ESC # bytes ''[8;'' @ dec (rows t) @ bytes '';'' @ dec (columns t) @ bytes ''t'') t
      else if a = 20 then title_report cf CHR ''L'' (window_title cf True) t
      else if a = 21 then title_report cf CHR ''l'' (window_title cf False) t
      else t)"

definition window_ops :: "config \<Rightarrow> terminal \<Rightarrow> terminal option" where
  "window_ops cf t =
     (let a = arg 0 t; nargs = esc_nargs (esc t) in
      if nargs \<le> 1 \<and> (a < 1 \<or> a \<ge> 24) then
        compatibility CL_VT340TEXT (\<lambda>t. Some (deselect (request_size cf (columns t) (def_arg a 24) t))) t
      else if nargs \<ge> 1 \<and> a \<ge> 1 \<and> a < 24 then compatibility CL_OTHER (\<lambda>t. Some (window_report cf t)) t
      else Some t)"

definition request_parameters :: "config \<Rightarrow> terminal \<Rightarrow> terminal" where
  "request_parameters cf t =
     (let i = arg 0 t in
      if i = 0 \<or> i = 1
      then ldisc_send_event cf (ESC # bytes ''['' @ [of_int (50 + i)] @ bytes '';1;1;112;112;1;0x'') t
      else t)"

function tab_left :: "bool list \<Rightarrow> int \<Rightarrow> int option" where
  "tab_left ts x =
     (if x - 1 > 0 then
        do { stop \<leftarrow> index_line (x - 1) ts; if stop then Some (x - 1) else tab_left ts (x - 1) }
      else Some (x - 1))"
  by pat_completeness auto
termination by (relation "measure (\<lambda>(ts, x). nat x)") auto

declare tab_left.simps [simp del]

text \<open>The first argument bounds the rounds: each one moves the cursor at least one column.\<close>

fun back_tabs :: "nat \<Rightarrow> bool list \<Rightarrow> int \<Rightarrow> int \<Rightarrow> int option" where
  "back_tabs fuel ts i x =
     (if i > 0 \<and> x > 0 then
        case fuel of 0 \<Rightarrow> None
        | Suc k \<Rightarrow> do { x' \<leftarrow> tab_left ts x; back_tabs k ts (i - 1) x' }
      else Some x)"

declare back_tabs.simps [simp del]

definition back_tabulate :: "terminal \<Rightarrow> terminal option" where
  "back_tabulate t =
     do { x \<leftarrow> back_tabs (nat (curs_x t)) (tabs t) (def_arg (arg 0 t) 1) (curs_x t);
          let t1 = set_curs x (curs_y t) t;
          Some (check_selection (curs (now t)) (curs (now t1)) t1) }"

definition csi_mode :: "config \<Rightarrow> 32 word \<Rightarrow> terminal \<Rightarrow> terminal option" where
  "csi_mode cf k t =
     (if k = K CHR ''c'' then compatibility CL_VT100 (\<lambda>t. Some (ldisc_send_event cf (id_string (esc t)) t)) t
      else if k = K CHR ''n'' then Some (status_report cf t)
      else if k = K CHR ''h'' \<or> k = ANSI (K CHR ''h'') 1 then compatibility CL_VT100 (set_modes cf True) t
      else if k = K CHR ''i'' \<or> k = ANSI (K CHR ''i'') 1 then compatibility CL_VT100 (media_copy cf) t
      else if k = K CHR ''l'' \<or> k = ANSI (K CHR ''l'') 1 then compatibility CL_VT100 (set_modes cf False) t
      else if k = K CHR ''g'' then compatibility CL_VT100 clear_tabs t
      else if k = K CHR ''r'' then compatibility CL_VT100 (\<lambda>t. Some (set_margins t)) t
      else if k = K CHR ''m'' then Some (set_rendition cf t)
      else if k = K CHR ''s'' then save_cursor True t
      else if k = K CHR ''u'' then do { t1 \<leftarrow> save_cursor False t; Some (seen_disp_event t1) }
      else if k = K CHR ''t'' then window_ops cf t
      else if k = K CHR ''x'' then compatibility CL_VT100 (\<lambda>t. Some (request_parameters cf t)) t
      else if k = K CHR ''Z'' then compatibility CL_OTHER back_tabulate t
      else Some t)"

definition set_lines :: "config \<Rightarrow> terminal \<Rightarrow> terminal" where
  "set_lines cf t =
     (if esc_nargs (esc t) = 1 \<and> arg 0 t > 0
      then deselect (request_size cf (columns t) (def_arg (arg 0 t) (conf_height cf)) t) else t)"

definition set_columns :: "config \<Rightarrow> terminal \<Rightarrow> terminal" where
  "set_columns cf t =
     (if esc_nargs (esc t) \<le> 1
      then deselect (request_size cf (def_arg (arg 0 t) (conf_width cf)) (rows t) t) else t)"

definition sco_cursor :: "terminal \<Rightarrow> terminal" where
  "sco_cursor t =
     set_disp (\<lambda>d. if arg 0 t = 0 then d\<lparr>cursor_on := False\<rparr>
                   else if arg 0 t = 1 then d\<lparr>big_cursor := False, cursor_on := True\<rparr>
                   else if arg 0 t = 2 then d\<lparr>big_cursor := True, cursor_on := True\<rparr> else d) t"

definition sco_colour :: "int \<Rightarrow> 32 word" where
  "sco_colour a = sco2ansicolour ! nat (a mod 8) OR (word_of_int a AND 8)"

definition sco_foreground :: "terminal \<Rightarrow> terminal" where
  "sco_foreground t =
     (if 0 \<le> arg 0 t \<and> arg 0 t < 16 then
        let c = push_bit ATTR_FGSHIFT (sco_colour (arg 0 t))
        in set_erase_char (set_pen (\<lambda>p. p\<lparr>curr_attr := (curr_attr p AND NOT ATTR_FGMASK) OR c,
                                           default_attr := (default_attr p AND NOT ATTR_FGMASK) OR c\<rparr>) t)
      else t)"

definition sco_background :: "terminal \<Rightarrow> terminal" where
  "sco_background t =
     (if 0 \<le> arg 0 t \<and> arg 0 t < 16 then
        let c = push_bit ATTR_BGSHIFT (sco_colour (arg 0 t))
        in set_erase_char (set_pen (\<lambda>p. p\<lparr>curr_attr := (curr_attr p AND NOT ATTR_BGMASK) OR c,
                                           default_attr := (default_attr p AND NOT ATTR_BGMASK) OR c\<rparr>) t)
      else t)"

fun id_args :: "int list \<Rightarrow> byte list" where
  "id_args [] = []"
| "id_args [a] = dec a"
| "id_args (a # as) = dec a @ bytes '';'' @ id_args as"

definition compat_level :: "terminal \<Rightarrow> terminal" where
  "compat_level t =
     (let a = arg 0 t;
          t1 = set_esc (\<lambda>p. p\<lparr>compatibility_level :=
                 (let l = compatibility_level p in
                  if a = 61 then (l AND NOT TM_VTXXX) OR TM_VT102
                  else if a = 62 then (l AND NOT TM_VTXXX) OR TM_VT220
                  else if a = 40 then l AND TM_VTXXX
                  else if a = 41 then TM_PUTTY
                  else if a = 42 then TM_SCOANSI
                  else if a = 0 then TM_PUTTY
                  else if a = 50 then l
                  else if a > 60 \<and> a < 70 then l OR TM_VTXXX else l)\<rparr>) t
      in if a = 50
         then set_esc (\<lambda>p. p\<lparr>id_string := ESC # bytes ''[?'' @ id_args (drop 1 (take (esc_nargs p) (esc_args p))) @ bytes ''c''\<rparr>) t1
         else t1)"

definition csi_private :: "config \<Rightarrow> 32 word \<Rightarrow> terminal \<Rightarrow> terminal option" where
  "csi_private cf k t =
     (if k = ANSI (K CHR ''c'') (of_char CHR ''>'') then
        compatibility CL_OTHER (\<lambda>t. Some (ldisc_send_event cf (ESC # bytes ''[>0;136;0c'') t)) t
      else if k = ANSI (K CHR ''|'') (of_char CHR ''*'') then compatibility CL_VT420 (\<lambda>t. Some (set_lines cf t)) t
      else if k = ANSI (K CHR ''|'') (of_char CHR ''$'') then compatibility CL_VT340TEXT (\<lambda>t. Some (set_columns cf t)) t
      else if k = ANSI (K CHR ''c'') (of_char CHR ''='') then compatibility CL_SCOANSI (\<lambda>t. Some (sco_cursor t)) t
      else if k = ANSI (K CHR ''C'') (of_char CHR ''='') then
        compatibility CL_SCOANSI
          (\<lambda>t. Some (if esc_nargs (esc t) \<ge> 2 then set_disp (\<lambda>d. d\<lparr>cursor_on := \<not> arg 0 t > arg 1 t\<rparr>) t else t)) t
      else if k = ANSI (K CHR ''D'') (of_char CHR ''='') then
        compatibility CL_SCOANSI
          (\<lambda>t. Some (pen_attr (\<lambda>a. if arg 0 t \<ge> 1 then a OR ATTR_BLINK else a AND NOT ATTR_BLINK)
                       (term_schedule_tblink (blink_unreal t)))) t
      else if k = ANSI (K CHR ''E'') (of_char CHR ''='') then
        compatibility CL_SCOANSI
          (\<lambda>t. Some (term_schedule_tblink (set_disp (\<lambda>d. d\<lparr>blink_is_real := (arg 0 t \<ge> 1)\<rparr>) t))) t
      else if k = ANSI (K CHR ''F'') (of_char CHR ''='') then compatibility CL_SCOANSI (\<lambda>t. Some (sco_foreground t)) t
      else if k = ANSI (K CHR ''G'') (of_char CHR ''='') then compatibility CL_SCOANSI (\<lambda>t. Some (sco_background t)) t
      else if k = ANSI (K CHR ''L'') (of_char CHR ''='') then
        compatibility CL_SCOANSI (\<lambda>t. Some (set_erase_char (set_pen (\<lambda>p. p\<lparr>use_bce := (arg 0 t \<le> 0)\<rparr>) t))) t
      else if k = ANSI (K CHR ''p'') (of_char CHR ''\"'') then Some (compat_level t)
      else Some t)"

definition csi_final :: "config \<Rightarrow> 32 word \<Rightarrow> terminal \<Rightarrow> terminal option" where
  "csi_final cf k t =
     (if k \<in> K ` set ''ABCDEFGHade`f'' then csi_cursor k t
      else if k \<in> K ` set ''JKLM@PSTX'' then csi_edit cf k t
      else if k < 0x100 \<or> k \<in> (\<lambda>c. ANSI (K c) 1) ` set ''hil'' then csi_mode cf k t
      else csi_private cf k t)"

definition csi_char :: "config \<Rightarrow> 32 word \<Rightarrow> terminal \<Rightarrow> terminal option" where
  "csi_char cf c t =
     (let t1 = set_state TOPLEVEL t in
      if c \<ge> K CHR ''0'' \<and> c \<le> K CHR ''9'' then csi_digit c t1
      else if c = K CHR '';'' then Some (csi_semicolon t1)
      else if c < K CHR ''@'' then Some (csi_intermediate c t1)
      else csi_final cf (ANSI c (esc_query (esc t1))) t1)"

section \<open>OSC sequences\<close>

definition osc_digit :: "32 word \<Rightarrow> terminal \<Rightarrow> terminal" where
  "osc_digit c t = set_esc (\<lambda>p. p\<lparr>esc_args := (esc_args p)[0 := wrap32 (10 * esc_args p ! 0 + uint c - 48)]\<rparr>) t"

definition osc_begin :: "terminal \<Rightarrow> terminal" where
  "osc_begin t = set_esc (\<lambda>p. p\<lparr>termstate := OSC_STRING, osc_strlen := 0\<rparr>) t"

definition osc_char :: "config \<Rightarrow> 32 word \<Rightarrow> terminal \<Rightarrow> terminal option" where
  "osc_char cf c t =
     (let t1 = set_esc (\<lambda>p. p\<lparr>osc_w := False\<rparr>) t in
      if c = K CHR ''P'' then Some (set_esc (\<lambda>p. p\<lparr>termstate := SEEN_OSC_P, osc_strlen := 0\<rparr>) t1)
      else if c = K CHR ''R'' then Some (set_state TOPLEVEL (term_invalidate (emit Palette_reset t1)))
      else if c = K CHR ''W'' then Some (set_esc (\<lambda>p. p\<lparr>termstate := SEEN_OSC_W, osc_w := True\<rparr>) t1)
      else if c \<ge> K CHR ''0'' \<and> c \<le> K CHR ''9'' then Some (osc_digit c t1)
      else if c = K CHR ''L'' \<and> arg 0 t1 = 2 then Some (set_esc (\<lambda>p. p\<lparr>esc_args := (esc_args p)[0 := 1]\<rparr>) t1)
      else Some (osc_begin t1))"

definition osc_string_char :: "config \<Rightarrow> 32 word \<Rightarrow> terminal \<Rightarrow> terminal option" where
  "osc_string_char cf c t =
     (if c = 10 \<or> c = 13 then Some (set_state TOPLEVEL t)
      else if c = 0x9C \<or> c = 7 then do { t1 \<leftarrow> do_osc cf t; Some (set_state TOPLEVEL t1) }
      else if c = 27 then Some (set_state OSC_MAYBE_ST t)
      else if osc_strlen (esc t) < int OSC_STR_MAX then
        (if 0 \<le> osc_strlen (esc t) \<and> osc_strlen (esc t) < int (length (osc_string (esc t)))
         then Some (set_esc (\<lambda>p. p\<lparr>osc_string := (osc_string p)[nat (osc_strlen p) := ucast c],
                                   osc_strlen := osc_strlen p + 1\<rparr>) t)
         else None)
      else Some t)"

definition hex_value :: "int \<Rightarrow> int \<Rightarrow> int option" where
  "hex_value max_value c =
     (if c \<ge> 48 \<and> c \<le> 57 then Some (c - 48)
      else if c \<ge> 65 \<and> c \<le> 65 + max_value - 10 then Some (c - 65 + 10)
      else if c \<ge> 97 \<and> c \<le> 97 + max_value - 10 then Some (c - 97 + 10)
      else None)"

definition palette_char :: "32 word \<Rightarrow> terminal \<Rightarrow> terminal option" where
  "palette_char c t =
     (let n = osc_strlen (esc t) in
      case hex_value (if n = 0 then 21 else 15) (sint c) of None \<Rightarrow> Some (set_state TOPLEVEL t)
      | Some val \<Rightarrow>
          if \<not> (0 \<le> n \<and> n < int (length (osc_string (esc t)))) then None
          else
            let t1 = set_esc (\<lambda>p. p\<lparr>osc_string := (osc_string p)[nat n := word_of_int val], osc_strlen := n + 1\<rparr>) t;
                v = (\<lambda>i. sint (osc_string (esc t1) ! i))
            in if n + 1 \<ge> 7
               then Some (set_state TOPLEVEL (term_invalidate
                 (emit (Palette_set (v 0) (v 1 * 16 + v 2) (v 3 * 16 + v 4) (v 5 * 16 + v 6)) t1)))
               else Some t1)"

definition osc_w_char :: "32 word \<Rightarrow> terminal \<Rightarrow> terminal" where
  "osc_w_char c t = (if c \<ge> K CHR ''0'' \<and> c \<le> K CHR ''9'' then osc_digit c t else osc_begin t)"

section \<open>VT52 sequences\<close>

definition vt52_reset_line :: "config \<Rightarrow> terminal \<Rightarrow> terminal option" where
  "vt52_reset_line cf t =
     do { t1 \<leftarrow> erase_lots cf True True True t; Some (set_wrapnext False (set_curs 0 (curs_y t1) t1)) }"

definition vt52_up :: "config \<Rightarrow> terminal \<Rightarrow> terminal option" where
  "vt52_up cf t =
     do { t1 \<leftarrow> (if curs_y t = 0 then scroll cf 0 (rows t - 1) (- 1) True t
                 else if curs_y t > 0 then Some (set_curs (curs_x t) (curs_y t - 1) t) else Some t);
          Some (set_wrapnext False t1) }"

definition bottom_after :: "config \<Rightarrow> terminal option \<Rightarrow> terminal option" where
  "bottom_after cf r = do { t \<leftarrow> r; Some (to_bottom cf t) }"

definition vt52_shift :: "config \<Rightarrow> int \<Rightarrow> bool \<Rightarrow> terminal \<Rightarrow> terminal option" where
  "vt52_shift cf n sb t =
     (if curs_y t \<le> marg_b (now t) then scroll cf (curs_y t) (marg_b (now t)) n sb t else Some t)"

definition vt52_bold_to :: "bool \<Rightarrow> terminal \<Rightarrow> terminal" where
  "vt52_bold_to b t = set_mode (\<lambda>m. m\<lparr>vt52_bold := b\<rparr>) t"

definition vt52_char :: "config \<Rightarrow> 32 word \<Rightarrow> terminal \<Rightarrow> terminal option" where
  "vt52_char cf c t0 =
     (let t = seen_disp_event (set_state TOPLEVEL t0); x = curs_x t; y = curs_y t;
          to_cset = (\<lambda>v. Some (set_cset_attr 0 v (set_now (\<lambda>h. h\<lparr>cset := 0\<rparr>) t))) in
      if c = K CHR ''A'' then Some (move x (y - 1) 1 t)
      else if c = K CHR ''B'' then Some (move x (y + 1) 1 t)
      else if c = K CHR ''C'' then Some (move (x + 1) y 1 t)
      else if c = K CHR ''D'' then Some (move (x - 1) y 1 t)
      else if c = K CHR ''F'' then to_cset CSET_LINEDRW
      else if c = K CHR ''G'' then to_cset CSET_ASCII
      else if c = K CHR ''H'' then Some (move 0 0 0 t)
      else if c = K CHR ''I'' then vt52_up cf t
      else if c = K CHR ''J'' then bottom_after cf (erase_lots cf False False True t)
      else if c = K CHR ''K'' then erase_lots cf True False True t
      else if c = K CHR ''Y'' then Some (set_state VT52_Y1 t)
      else if c = K CHR ''Z'' then Some (ldisc_send_event cf (ESC # bytes ''/Z'') t)
      else if c = K CHR ''='' then Some (set_mode (\<lambda>m. m\<lparr>app_keypad_keys := True\<rparr>) t)
      else if c = K CHR ''>'' then Some (set_mode (\<lambda>m. m\<lparr>app_keypad_keys := False\<rparr>) t)
      else if c = K CHR ''<'' then Some (mode_vt52 cf False t)
      else if c = K CHR ''E'' then bottom_after cf (erase_lots cf False False True (move 0 0 0 t))
      else if c = K CHR ''L'' then vt52_shift cf (- 1) False t
      else if c = K CHR ''M'' then vt52_shift cf 1 True t
      else if c = K CHR ''b'' then Some (set_state VT52_FG t)
      else if c = K CHR ''c'' then Some (set_state VT52_BG t)
      else if c = K CHR ''d'' then bottom_after cf (erase_lots cf False True False t)
      else if c = K CHR ''e'' then Some (set_disp (\<lambda>d. d\<lparr>cursor_on := True\<rparr>) t)
      else if c = K CHR ''f'' then Some (set_disp (\<lambda>d. d\<lparr>cursor_on := False\<rparr>) t)
      else if c = K CHR ''l'' then vt52_reset_line cf t
      else if c = K CHR ''o'' then erase_lots cf True True False t
      else if c = K CHR ''p'' then Some (pen_attr (\<lambda>a. a OR ATTR_REVERSE) t)
      else if c = K CHR ''q'' then Some (pen_attr (\<lambda>a. a AND NOT ATTR_REVERSE) t)
      else if c = K CHR ''v'' then Some (set_now (\<lambda>h. h\<lparr>wrap := True\<rparr>) t)
      else if c = K CHR ''w'' then Some (set_now (\<lambda>h. h\<lparr>wrap := False\<rparr>) t)
      else if c = K CHR ''R'' then Some (set_erase_char (pen_attr (\<lambda>_. ATTR_DEFAULT) (vt52_bold_to False t)))
      else if c = K CHR ''S'' then Some (pen_attr (\<lambda>a. a OR ATTR_UNDER) t)
      else if c = K CHR ''W'' then Some (pen_attr (\<lambda>a. a AND NOT ATTR_UNDER) t)
      else if c = K CHR ''U'' then Some (pen_attr (\<lambda>a. a OR ATTR_BOLD) (vt52_bold_to True t))
      else if c = K CHR ''T'' then Some (pen_attr (\<lambda>a. a AND NOT ATTR_BOLD) (vt52_bold_to False t))
      else Some t)"

definition vt52_foreground :: "32 word \<Rightarrow> terminal \<Rightarrow> terminal" where
  "vt52_foreground c t =
     set_erase_char (pen_attr (\<lambda>a. (a AND NOT ATTR_FGMASK AND NOT ATTR_BOLD) OR push_bit ATTR_FGSHIFT (c AND 0xF))
       (set_state TOPLEVEL t))"

definition vt52_background :: "32 word \<Rightarrow> terminal \<Rightarrow> terminal" where
  "vt52_background c t =
     set_erase_char (pen_attr (\<lambda>a. (a AND NOT ATTR_BGMASK AND NOT ATTR_BLINK) OR push_bit ATTR_BGSHIFT (c AND 0xF))
       (set_state TOPLEVEL t))"

section \<open>The loop\<close>

definition dispatch :: "config \<Rightarrow> 32 word \<Rightarrow> terminal \<Rightarrow> (terminal \<times> bool) option" where
  "dispatch cf c t =
     (let plain = map_option (\<lambda>t'. (t', False)) in
      if c = 0x7F \<and> below_ctrls (termstate (esc t)) \<and> has_compat CL_OTHER t then plain (rubout cf t)
      else if c AND NOT 0x1F = 0 \<and> below_ctrls (termstate (esc t)) then plain (c0_control cf c t)
      else case termstate (esc t) of
          TOPLEVEL \<Rightarrow> graphic cf c t
        | OSC_MAYBE_ST \<Rightarrow> plain (osc_maybe_st cf c t)
        | SEEN_ESC \<Rightarrow> plain (esc_char cf c t)
        | SEEN_CSI \<Rightarrow> plain (csi_char cf c t)
        | SEEN_OSC \<Rightarrow> plain (osc_char cf c t)
        | OSC_STRING \<Rightarrow> plain (osc_string_char cf c t)
        | SEEN_OSC_P \<Rightarrow> plain (palette_char c t)
        | SEEN_OSC_W \<Rightarrow> plain (Some (osc_w_char c t))
        | VT52_ESC \<Rightarrow> plain (vt52_char cf c t)
        | VT52_Y1 \<Rightarrow> plain (Some (move (curs_x t) (sint (c - 0x20)) 0 (set_state VT52_Y2 t)))
        | VT52_Y2 \<Rightarrow> plain (Some (move (sint (c - 0x20)) (curs_y t) 0 (set_state TOPLEVEL t)))
        | VT52_FG \<Rightarrow> plain (Some (vt52_foreground c t))
        | VT52_BG \<Rightarrow> plain (Some (vt52_background c t))
        | DO_CTRLS \<Rightarrow> plain (Some t))"

definition process_char :: "config \<Rightarrow> 32 word \<Rightarrow> terminal \<Rightarrow> terminal option" where
  "process_char cf c t =
     (let (c1, t1) = c1_control c t in
      do { (t2, cont) \<leftarrow> dispatch cf c1 t1;
           Some (if cont then t2 else check_cursor_selection t2) })"

text \<open>The printer: the byte is recorded, and in print-only mode it is only searched for the end.\<close>

definition print_scan :: "byte \<Rightarrow> nat \<Rightarrow> nat" where
  "print_scan c s =
     (if c = 0x1B then 1
      else if c = 0x9B then 2
      else if c = of_char CHR ''['' \<and> s = 1 then 2
      else if c = of_char CHR ''4'' \<and> s = 2 then 3
      else if c = of_char CHR ''i'' \<and> s = 3 then 4
      else 0)"

definition print_byte :: "byte \<Rightarrow> terminal \<Rightarrow> (terminal \<times> bool) option" where
  "print_byte c t =
     (if printing (prn t) then
        do { let ch = bufchain_add (printer_buf (prn t)) [c];
             let t1 = set_prn (\<lambda>p. p\<lparr>printer_buf := ch\<rparr>) t;
             if only_printing (prn t1)
             then do { let s = print_scan c (print_stage (prn t1));
                       let t2 = set_prn (\<lambda>p. p\<lparr>print_stage := s\<rparr>) t1;
                       t3 \<leftarrow> (if s = 4 then term_print_finish t2 else Some t2);
                       Some (t3, True) }
             else Some (t1, False) }
      else Some (t, False))"

text \<open>One iteration; the second component tells whether the byte is to be read again (\<open>unget\<close>).\<close>

definition term_out_char :: "config \<Rightarrow> byte \<Rightarrow> terminal \<Rightarrow> (terminal \<times> bool) option" where
  "term_out_char cf c t =
     do { (t1, printed) \<leftarrow> print_byte c t;
          if printed then Some (t1, False)
          else case translate cf c t1 of
              Skip t2 \<Rightarrow> Some (t2, False)
            | Char c' t2 \<Rightarrow> map_option (\<lambda>t3. (t3, False)) (process_char cf c' t2)
            | Unget t2 \<Rightarrow> map_option (\<lambda>t3. (t3, True)) (process_char cf UCSERR t2) }"

text \<open>
  The loop over the bytes of \<open>inbuf\<close>.  A byte is read again at most once, because the pending
  UTF-8 sequence is gone then; a second time would be \<open>None\<close>.
\<close>

fun term_out_loop :: "config \<Rightarrow> byte list \<Rightarrow> terminal \<Rightarrow> terminal option" where
  "term_out_loop cf [] t = Some t"
| "term_out_loop cf (c # cs) t =
     do { (t1, again) \<leftarrow> term_out_char cf c t;
          if again
          then do { (t2, again') \<leftarrow> term_out_char cf c t1; if again' then None else term_out_loop cf cs t2 }
          else term_out_loop cf cs t1 }"

definition term_out :: "config \<Rightarrow> byte list \<Rightarrow> terminal \<Rightarrow> terminal option" where
  "term_out cf inbuf t = do { t1 \<leftarrow> term_out_loop cf inbuf t; term_print_flush t1 }"

end
