(* ===== verification/Term_Esc_Inv.thy ===== *)
theory Term_Esc_Inv
  imports Term_Out_Inv Term_Esc
begin

text \<open>
  The escape sequences keep the invariant, and so does the loop: a terminal that satisfies the
  invariant is never led to a failed assertion or an access outside an array by what the host
  sends, as long as no argument of a control sequence overflows.
\<close>

section \<open>The pen\<close>

lemma small_bit: "(a :: 32 word) < 0x80000000 \<longleftrightarrow> \<not> bit a 31"
proof -
  have "bit a 31 \<longleftrightarrow> bit (uint a) 31" by (simp add: bit_uint_iff)
  then have "bit a 31 \<longleftrightarrow> odd (uint a div 2 ^ 31)" unfolding bit_iff_odd[of "uint a"] .
  moreover have "odd (u div 2147483648) \<longleftrightarrow> \<not> u < 2147483648" if "0 \<le> u" "u < 4294967296" for u :: int
    using that by (cases "u < 2147483648") (simp_all add: div_pos_pos_trivial div_pos_geq)
  moreover have "0 \<le> uint a" "uint a < 4294967296" using uint_lt2p[of a] by simp_all
  ultimately show ?thesis by (simp add: word_less_def)
qed

lemma small_int_bit:
  assumes k: "0 \<le> k" "k < 0x100" "8 \<le> n"
  shows "\<not> bit (word_of_int k :: 32 word) n"
proof
  assume b: "bit (word_of_int k :: 32 word) n"
  have "(2 :: int) ^ 8 \<le> 2 ^ n" using k(3) by (intro power_increasing) auto
  then have "k div 2 ^ n = 0" using k by (intro div_pos_pos_trivial) auto
  then have "\<not> bit k n" by (simp add: bit_iff_odd)
  then show False using b by (simp add: bit_word_of_int_iff)
qed

lemma pen_masks: "\<not> bit ATTR_BOLD 31" "\<not> bit ATTR_UNDER 31" "\<not> bit ATTR_REVERSE 31" "\<not> bit ATTR_BLINK 31"
  "\<not> bit ATTR_DEFFG 31" "\<not> bit ATTR_DEFBG 31"
  by (simp_all add: ATTR_BOLD_def ATTR_UNDER_def ATTR_REVERSE_def ATTR_BLINK_def ATTR_DEFFG_def ATTR_DEFBG_def
      ATTR_FGSHIFT_def ATTR_BGSHIFT_def)

lemma pen_colour_bits:
  assumes "\<And>n. 8 \<le> n \<Longrightarrow> \<not> bit (w :: 32 word) n"
  shows "\<not> bit (push_bit ATTR_FGSHIFT w) 31" "\<not> bit (push_bit ATTR_BGSHIFT w) 31"
  using assms by (simp_all add: bit_simps ATTR_FGSHIFT_def ATTR_BGSHIFT_def)

lemma masked_bits: "8 \<le> n \<Longrightarrow> \<not> bit (w AND 0xFF :: 32 word) n" "8 \<le> n \<Longrightarrow> \<not> bit (w AND 0xF :: 32 word) n"
  using small_int_bit[of 255 n] small_int_bit[of 15 n] by (simp_all add: bit_simps)

lemma pen_attr_ok:
  assumes t: "ok_step s t" and f: "\<And>a. \<not> bit a 31 \<Longrightarrow> \<not> bit (f a) 31"
  shows "ok_step s (pen_attr f t)"
proof -
  have w: "term_ok t" by (rule ok_stepD[OF t])
  have "good_pen ((pen t)\<lparr>curr_attr := f (curr_attr (pen t))\<rparr>)"
    using wf_pen[OF w] f by (simp add: good_pen_def small_bit)
  then have "ok_step t (pen_attr f t)" unfolding pen_attr_def by (intro good_ok_step step_set_pen w)
  then show ?thesis by (rule ok_step_trans[OF t])
qed

lemma set_colour_ok:
  assumes "ok_step s t" "\<not> bit c 31"
  shows "ok_step s (set_fg c t)" "ok_step s (set_bg c t)"
  unfolding set_fg_def set_bg_def by (rule pen_attr_ok[OF assms(1)]; use assms(2) in \<open>simp add: bit_simps\<close>)+

lemma set_erase_char_ok:
  assumes "ok_step s t"
  shows "ok_step s (set_erase_char t)"
proof -
  have w: "term_ok t" by (rule ok_stepD[OF assms])
  have "good_step t (set_erase_char t)"
    unfolding set_erase_char_def
    by (rule step_set_pen[OF w]) (use wf_pen[OF w] in \<open>auto simp: good_pen_def good_char_def colour_attr\<close>)
  then show ?thesis by (rule ok_step_trans[OF assms good_ok_step])
qed

lemma compat_then_ok:
  assumes "ok_step s t" "ok_step s (f t)"
  shows "ok_step s (compat_then x f t)"
  unfolding compat_then_def using assms ok_step_trans[OF assms(1) top_step[OF ok_stepD(1)[OF assms(1)]]] by simp

lemma ok_now:
  assumes "ok_step s t" "good_half (rows t) (columns t) (f (now t))"
  shows "ok_step s (set_now f t)"
  by (rule ok_step_trans[OF assms(1) ok_set_now]) (use assms ok_stepD in auto)

lemma half_of: "ok_step s t \<Longrightarrow> good_half (rows t) (columns t) (now t)" by (rule wf_now[OF ok_stepD(1)])

lemma sgr_colours:
  "30 \<le> a \<and> a \<le> 37 \<Longrightarrow> \<not> bit (push_bit ATTR_FGSHIFT (word_of_int (a - 30) :: 32 word)) 31"
  "90 \<le> a \<and> a \<le> 97 \<Longrightarrow> \<not> bit (push_bit ATTR_FGSHIFT (word_of_int (a - 90 + 8) :: 32 word)) 31"
  "40 \<le> a \<and> a \<le> 47 \<Longrightarrow> \<not> bit (push_bit ATTR_BGSHIFT (word_of_int (a - 40) :: 32 word)) 31"
  "100 \<le> a \<and> a \<le> 107 \<Longrightarrow> \<not> bit (push_bit ATTR_BGSHIFT (word_of_int (a - 100 + 8) :: 32 word)) 31"
  by (intro pen_colour_bits small_int_bit; simp)+

lemma sgr_one_ok:
  assumes "ok_step s t"
  shows "ok_step s (sgr_one cf a t)"
proof -
  note w = ok_stepD(1)[OF assms]
  have d: "ok_step s (pen_attr (\<lambda>_. default_attr (pen t)) t)"
    by (rule pen_attr_ok[OF assms]) (use wf_pen[OF w] in \<open>simp add: good_pen_def small_bit\<close>)
  have l: "ok_step s (pen_attr (\<lambda>c. c OR m) u)" "ok_step s (pen_attr (\<lambda>c. c AND m') u)" if "ok_step s u" "\<not> bit m 31" for m m' u
    by (rule pen_attr_ok[OF that(1)]; use that(2) in \<open>simp add: bit_simps\<close>)+
  have c: "ok_step s (pen_attr (\<lambda>c. c AND m') u)" if "ok_step s u" for m' u
    by (rule pen_attr_ok[OF that]) (simp add: bit_simps)
  have h: "ok_step s (sgr_sco_acs cf n t)" for n
    unfolding sgr_sco_acs_def by (intro compat_then_ok assms ok_if ok_now half_updates half_of[OF assms])
  show ?thesis
    unfolding sgr_one_def blink_unreal_def
    by (intro ok_if compat_then_ok assms d l(1) c h ok_then pen_masks set_colour_ok sgr_colours)
qed

lemma sgr_loop_ok: "ok_step s t \<Longrightarrow> ok_step s (sgr_loop cf as t)"
proof (induction cf as t rule: sgr_loop.induct)
  case (2 cf a as t)
  have k: "ok_step s (if a = 38 then set_fg (push_bit ATTR_FGSHIFT (word_of_int c AND 0xFF)) t
                else set_bg (push_bit ATTR_BGSHIFT (word_of_int c AND 0xFF)) t)" for c
    by (intro ok_if set_colour_ok 2(6) pen_colour_bits masked_bits)
  show ?case
    using 2 k sgr_one_ok[OF 2(6)] by (auto split: list.splits)
qed simp

lemma set_rendition_ok: "term_ok t \<Longrightarrow> ok_step t (set_rendition cf t)"
  unfolding set_rendition_def by (intro set_erase_char_ok sgr_loop_ok ok_step_refl)

section \<open>ESC sequences\<close>

lemma edit_good:
  assumes k: "kept s t" and y: "0 \<le> y" "y < rows s" and f: "\<exists>l'. f (screen (scr t) ! nat y) = Some l' \<and> good_line l'"
  shows "sat (edit_line y f t) (kept s)"
proof -
  have r: "y < rows t" using y near_wf_pos[OF k] by simp
  have "sat (edit_line y f t) (\<lambda>t'. kept t t' \<and> True
    \<and> (\<forall>z. 0 \<le> z \<longrightarrow> z \<noteq> y \<longrightarrow> screen (scr t') ! nat z = screen (scr t) ! nat z))"
    by (rule edit_line_gen[OF kept_wf[OF k] y(1) r]) (use f in blast)
  then show ?thesis by (rule sat_mono) (use k in \<open>blast intro: kept_trans\<close>)
qed

lemma checked_line:
  assumes "good_line l" "term_ok t"
  obtains l' where "check_line_size t l = Some l'" "good_line l'" "int (cols l') = columns t"
  using resizeline_good[OF assms(1) wf_chars(2)[OF assms(2)], of "nat (columns t)"] assms(1) wf_pos(8)[OF assms(2)]
  by (cases "columns t = int (cols l)") (auto simp: check_line_size_def)

lemma align_line:
  assumes l: "good_line l" and t: "term_ok t"
  shows "\<exists>l'. do { l1 \<leftarrow> check_line_size t l;
                      l2 \<leftarrow> fill_cells cf ((basic_erase_char (pen t))\<lparr>chr := K CHR ''E''\<rparr>) [0..<nat (columns t)] l1;
                      Some (l2\<lparr>lattr := LATTR_NORM\<rparr>) } = Some l' \<and> good_line l'"
proof -
  obtain l1 where l1: "check_line_size t l = Some l1" "good_line l1" "int (cols l1) = columns t" by (rule checked_line[OF l t])
  have "good_char ((basic_erase_char (pen t))\<lparr>chr := K CHR ''E''\<rparr>)"
    using wf_chars(2)[OF t] by (simp add: good_char_def UCSWIDE_def)
  then have "keeps (fill_cells cf ((basic_erase_char (pen t))\<lparr>chr := K CHR ''E''\<rparr>) [0..<nat (columns t)] l1) l1"
    by (rule fill_cells_keeps[OF l1(2)]) (use l1(3) in auto)
  then show ?thesis using l1(1) by (auto simp: keeps_def)
qed

lemma align_rows_kept: "term_ok t \<Longrightarrow> int n \<le> rows t \<Longrightarrow> sat (align_rows cf n t) (kept t)"
proof (induction n)
  case (Suc n)
  have n: "int n \<le> rows t" "int n < rows t" "0 \<le> int n" using Suc.prems(2) by auto
  show ?case unfolding align_rows.simps
  proof (rule sat_bind[OF Suc.IH[OF Suc.prems(1) n(1)]], rule scrline_bind[OF _ n(3,2)], assumption)
    fix b assume b: "kept t b"
    show "sat (edit_line (int n) (\<lambda>l. do { l1 \<leftarrow> check_line_size b l;
                      l2 \<leftarrow> fill_cells cf ((basic_erase_char (pen b))\<lparr>chr := K CHR ''E''\<rparr>) [0..<nat (columns b)] l1;
                      Some (l2\<lparr>lattr := LATTR_NORM\<rparr>) }) b) (kept t)"
      by (rule edit_good[OF b n(3,2)]) (rule align_line[OF kept_line[OF b n(3,2)] kept_wf[OF b]])
  qed
qed (simp add: kept_refl)

lemma screen_align_ok:
  assumes t: "term_ok t"
  shows "sat (screen_align cf t) (ok_step t)"
  unfolding screen_align_def
proof (rule ok_bind[OF sat_kept_ok[OF align_rows_kept[OF t]]])
  show "int (nat (rows t)) \<le> rows t" using wf_pos(9)[OF t] by simp
qed (intro sat_SomeI ok_then ok_step_refl, erule ok_stepD)

lemma set_line_mode_ok:
  assumes t: "term_ok t"
  shows "sat (set_line_mode m t) (ok_step t)"
proof -
  note p = wf_pos[OF t]
  have "sat (set_line_mode m t) (kept t)"
    unfolding set_line_mode_def
  proof (rule scrline_bind[OF kept_refl[OF t] p(3,4)])
    fix b assume b: "kept t b"
    obtain l' where "check_line_size b (screen (scr b) ! nat (curs_y t)) = Some l'" "good_line l'"
      by (rule checked_line[OF kept_line[OF b p(3,4)] kept_wf[OF b]])
    then show "sat (edit_line (curs_y t) (\<lambda>l. do { l1 \<leftarrow> check_line_size b l; Some (l1\<lparr>lattr := m\<rparr>) }) b) (kept t)"
      by (intro edit_good[OF b p(3,4)]) simp
  qed
  then show ?thesis by (rule sat_kept_ok)
qed

lemma set_tab_ok:
  assumes t: "term_ok t"
  shows "sat (set_tab b t) (ok_step t)"
proof -
  have "int (length (tabs t)) = columns t" using t by (simp add: term_ok_def)
  moreover have "ok_step t (t\<lparr>tabs := (tabs t)[nat (curs_x t) := b]\<rparr>)"
    using t by (intro good_ok_step) (simp add: good_step_def same_size_def term_ok_def)
  ultimately show ?thesis using wf_pos[OF t] by (simp add: set_tab_def)
qed

lemma power_on_step:
  assumes t: "term_ok t" "termstate (esc t) = TOPLEVEL"
  shows "sat (power_on cf b t) (ok_step t)"
  by (rule sat_mono[OF power_on_ok[OF t(1)]]) (use t in \<open>auto simp: ok_step_def\<close>)

lemma reset_initial_ok:
  assumes t: "term_ok t" "termstate (esc t) = TOPLEVEL"
  shows "sat (reset_initial cf t) (ok_step t)"
  unfolding reset_initial_def Let_def
  by (rule ok_bind[OF power_on_step[OF t]]) (intro sat_SomeI ok_then ok_if ok_step_refl; erule ok_stepD)

lemma designate_ok:
  assumes t: "term_ok t"
  shows "sat (designate cf x i v t) (ok_step t)"
proof -
  have "ok_step t (set_cset_attr i v t)"
    unfolding set_cset_attr_def by (rule good_ok_step[OF step_set_pen[OF t]]) (use wf_pen[OF t] in \<open>simp add: good_pen_def\<close>)
  then show ?thesis unfolding designate_def by (intro compat_ok t sat_SomeI ok_if ok_step_refl)
qed

lemma switch_utf_ok: "term_ok t \<Longrightarrow> sat (switch_utf cf b t) (ok_step t)"
  unfolding switch_utf_def by (intro compat_ok sat_SomeI ok_if ok_set_now half_updates wf_now ok_step_refl)

lemma csi_begin_ok:
  assumes t: "term_ok t"
  shows "ok_step t (set_esc (\<lambda>p. p\<lparr>termstate := SEEN_CSI, esc_nargs := 1, esc_args := (esc_args p)[0 := 0], esc_query := 0\<rparr>) t)"
    (is "ok_step t (set_esc ?f t)")
proof -
  have g: "good_esc (esc t)" by (rule wf_esc[OF t])
  have a: "esc_args (?f (esc t)) ! 0 = 0" using g by (cases "esc_args (esc t)") (auto simp: good_esc_def ARGS_MAX_def)
  then have "good_esc (?f (esc t))" "csi_fresh (?f (esc t))"
    using g by (auto simp: good_esc_def csi_args_def csi_fresh_def ARGS_MAX_def)
  then show ?thesis using wf_set_esc[OF t, of ?f] by (simp add: ok_step_def same_size_def set_esc_def)
qed

lemma bind_then:
  assumes "sat m (good_step t)" "\<And>u. term_ok u \<Longrightarrow> ok_step u (f u)"
  shows "sat (do { u \<leftarrow> m; Some (f u) }) (ok_step t)"
  by (rule ok_bind[OF sat_good_ok[OF assms(1)]]) (use assms(2) in \<open>auto dest: ok_stepD\<close>)

lemma esc_plain_ok:
  assumes t: "term_ok t" "termstate (esc t) = TOPLEVEL"
  shows "sat (esc_plain cf k t) (ok_step t)"
proof -
  have o: "ok_step t (set_esc (\<lambda>p. p\<lparr>termstate := SEEN_OSC, esc_args := (esc_args p)[0 := 0]\<rparr>) t)"
    by (rule ok_set_esc[OF t(1)]) (use wf_esc[OF t(1)] in \<open>auto simp: good_esc_def\<close>)
  have h: "good_step t (set_curs 0 (curs_y t) t)" by (rule home_column_step[OF t(1)])
  have d: "sat (index_down cf (set_curs 0 (curs_y t) t)) (good_step t)"
    by (rule step_sat'[OF index_down_step[OF good_stepD(1)[OF h]] h])
  show ?thesis
    unfolding esc_plain_def
    by (intro sat_if sat_SomeI csi_begin_ok compat_ok o t sat_good_ok save_cursor_step bind_then ok_then ok_step_refl
        d index_down_step index_up_step reset_initial_ok set_tab_ok)
qed

lemma esc_other_ok:
  assumes t: "term_ok t"
  shows "sat (esc_other cf k t) (ok_step t)"
  unfolding esc_other_def
  by (intro sat_if compat_ok t screen_align_ok set_line_mode_ok designate_ok switch_utf_ok sat_SomeI ok_step_refl)

end
