(* ===== verification/Term_Safety.thy ===== *)
theory Term_Safety
  imports Term_Esc_Inv
begin

text \<open>
  The control sequences, the OSC strings and the VT52 sequences keep the invariant, and so does
  the loop of \<open>term_out\<close>: what the host sends never leads to a failed assertion or to an access
  outside an array, as long as no argument of a control sequence overflows.
\<close>

section \<open>CSI sequences\<close>

text \<open>The state in which the final character of a control sequence is interpreted.\<close>

definition csi_ready :: "terminal \<Rightarrow> bool" where
  "csi_ready t \<longleftrightarrow> term_ok t \<and> termstate (esc t) = TOPLEVEL \<and> csi_args (esc t)"

lemma csi_readyD: "csi_ready t \<Longrightarrow> term_ok t" "csi_ready t \<Longrightarrow> termstate (esc t) = TOPLEVEL"
  "csi_ready t \<Longrightarrow> csi_args (esc t)"
  by (simp_all add: csi_ready_def)

lemma csi_arg0: "csi_ready t \<Longrightarrow> 0 \<le> arg 0 t \<and> arg 0 t < 0x80000000"
  by (auto simp: csi_ready_def csi_args_def arg_def)

lemma csi_def_arg: "csi_ready t \<Longrightarrow> 0 < def_arg (arg 0 t) 1 \<and> def_arg (arg 0 t) 1 < 0x80000000"
  using csi_arg0[of t] by (simp add: def_arg_def)

lemma wrap32_small: "- 0x80000000 \<le> i \<Longrightarrow> i < 0x80000000 \<Longrightarrow> wrap32 i = i"
  by (simp add: wrap32_def)

lemma move_seen_ok: "term_ok t \<Longrightarrow> sat (move_seen x y clip t) (ok_step t)"
  unfolding move_seen_def by (intro sat_SomeI ok_then ok_step_refl)

lemma csi_cursor_ok:
  assumes t: "csi_ready t"
  shows "sat (csi_cursor k t) (ok_step t)"
proof -
  note w = csi_readyD(1)[OF t]
  have g: "good_esc ((esc t)\<lparr>esc_args := (esc_args (esc t))[1 := 0]\<rparr>)"
    using wf_esc[OF w] csi_readyD(2)[OF t] by (simp add: good_esc_def)
  have e: "ok_step t (set_esc (\<lambda>p. p\<lparr>esc_args := (esc_args p)[1 := 0]\<rparr>) t)"
    by (rule ok_set_esc[OF w]) (use g csi_readyD(2)[OF t] in simp_all)
  have h: "sat (let t1 = (if esc_nargs (esc t) < 2 then set_esc (\<lambda>p. p\<lparr>esc_args := (esc_args p)[1 := 0]\<rparr>) t else t)
        in move_seen (wrap32 (def_arg (arg 1 t1) 1 - 1)) (wrap32 (origin t1 + a - 1)) clip t1) (ok_step t)" for a clip
    unfolding Let_def move_seen_def by (intro sat_SomeI ok_then ok_if e ok_step_refl w)
  show ?thesis
    unfolding csi_cursor_def Let_def[of "def_arg (arg 0 t) 1"] Let_def[of "curs_x t"] Let_def[of "curs_y t"] Let_def[of "if dec_om (now t) then 2 else 0"]
    by (intro sat_if compat_ok w move_seen_ok h)
qed

lemma shift_lines_ok:
  assumes t: "term_ok t"
  shows "sat (shift_lines cf n sb t) (ok_step t)"
  unfolding shift_lines_def
proof (rule bind_then)
  note p = wf_pos[OF t]
  show "sat (if curs_y t \<le> marg_b (now t) then scroll cf (curs_y t) (marg_b (now t)) n sb t else Some t) (good_step t)"
    using sat_mono[OF scroll_kept[OF t p(3) _ p(7)] kept_step] good_step_refl[OF t] by simp
qed (intro ok_then ok_step_refl)

lemma scroll_region_ok:
  assumes t: "term_ok t"
  shows "sat (scroll_region cf n t) (ok_step t)"
  unfolding scroll_region_def
  using wf_pos[OF t] by (intro bind_then sat_mono[OF scroll_kept[OF t] kept_step] ok_then ok_step_refl)

lemma insch_seen_ok:
  assumes "term_ok t" "n \<noteq> 0" "- 0x80000000 < n" "n < 0x80000000"
  shows "sat (insch_seen cf n t) (ok_step t)"
  unfolding insch_seen_def
  by (intro bind_then sat_mono[OF insch_kept[OF assms] kept_step] ok_then ok_step_refl)

lemma erase_display_ok: "term_ok t \<Longrightarrow> sat (erase_display cf t) (ok_step t)"
  unfolding erase_display_def Let_def
  by (intro bind_then sat_if term_clrsb_step erase_lots_step ok_then ok_step_refl)

lemma erase_in_line_ok: "term_ok t \<Longrightarrow> sat (erase_in_line cf t) (ok_step t)"
  unfolding erase_in_line_def by (intro bind_then erase_lots_step ok_then ok_step_refl)

lemma erase_chars_ok:
  assumes t: "csi_ready t"
  shows "sat (erase_chars cf t) (ok_step t)"
proof -
  note w = csi_readyD(1)[OF t]
  note p = wf_pos[OF w]
  define x where "x = curs_x t"
  define y where "y = curs_y t"
  define n where "n = (if def_arg (arg 0 t) 1 > columns t - x then columns t - x else def_arg (arg 0 t) 1)"
  have c: "columns t < 0x80000000" using w by (simp add: term_ok_def)
  have n: "0 < n" "x + n \<le> columns t" using csi_def_arg[OF t] p by (auto simp: n_def x_def)
  have xy: "0 \<le> x" "0 \<le> y" "y < rows t" using p by (auto simp: x_def y_def)
  have wr: "wrap32 (x + n) = x + n" by (rule wrap32_small) (use xy n c in auto)
  have e: "erase_chars cf t = do { t1 \<leftarrow> scrlineptr y t; t2 \<leftarrow> check_boundary x y t1; t3 \<leftarrow> check_boundary (x + n) y t2;
      let t4 = check_selection (curs (now t3)) ((curs (now t3))\<lparr>px := x + n\<rparr>) t3;
      if n < 0 then None
      else do { t5 \<leftarrow> edit_line y (fill_cells cf (erase_char (pen t4)) [nat x..<nat (x + n)]) t4; Some (seen_disp_event t5) } }"
    unfolding erase_chars_def Let_def x_def[symmetric] y_def[symmetric] n_def[symmetric] wr ..
  have "sat (erase_chars cf t) (kept t)"
    unfolding e
  proof (rule scrline_bind[OF kept_refl[OF w] xy(2,3)], rule boundary_bind[OF _ xy(2,3,1)], assumption, rule boundary_bind[OF _ xy(2,3)], assumption)
    show "0 \<le> x + n" using xy n by simp
    fix t2 t3 assume t2: "kept t t2" and t3: "kept t t3" "boundary_done (x + n) y t2 t3"
    define t4 where "t4 = check_selection (curs (now t3)) ((curs (now t3))\<lparr>px := x + n\<rparr>) t3"
    have k4: "kept t t4" unfolding t4_def by (rule kept_trans[OF t3(1) kept_check_selection[OF kept_wf[OF t3(1)]]])
    have s4: "scr t4 = scr t3" by (simp add: t4_def check_selection_def deselect_def set_sel_def)
    have "wide y t3" using t3(2) n xy near_wf_pos[OF t2] by (simp add: boundary_done_def)
    then have "x + n \<le> int (cols (screen (scr t4) ! nat y))"
      using n near_wf_pos[OF t3(1)] by (simp add: wide_def s4)
    then have f: "keeps (fill_cells cf (erase_char (pen t4)) [nat x..<nat (x + n)] (screen (scr t4) ! nat y)) (screen (scr t4) ! nat y)"
      by (intro fill_cells_keeps kept_line[OF k4 xy(2,3)] wf_chars(1)[OF kept_wf[OF k4]]) auto
    have "sat (edit_line y (fill_cells cf (erase_char (pen t4)) [nat x..<nat (x + n)]) t4) (kept t)"
      by (rule edit_kept_only[OF k4 xy(2,3)]) (rule f)
    then have "sat (do { t5 \<leftarrow> edit_line y (fill_cells cf (erase_char (pen t4)) [nat x..<nat (x + n)]) t4; Some (seen_disp_event t5) }) (kept t)"
      by (rule sat_bind) (simp, blast intro: kept_trans kept_updates(3) kept_wf)
    then show "sat (let t4 = check_selection (curs (now t3)) ((curs (now t3))\<lparr>px := x + n\<rparr>) t3 in
        if n < 0 then None
        else do { t5 \<leftarrow> edit_line y (fill_cells cf (erase_char (pen t4)) [nat x..<nat (x + n)]) t4; Some (seen_disp_event t5) }) (kept t)"
      unfolding Let_def t4_def[symmetric] using n by simp
  qed
  then show ?thesis by (rule sat_kept_ok)
qed

lemma csi_edit_ok:
  assumes t: "csi_ready t"
  shows "sat (csi_edit cf k t) (ok_step t)"
proof -
  note w = csi_readyD(1)[OF t]
  note a = csi_def_arg[OF t]
  have "sat (insch_seen cf (def_arg (arg 0 t) 1) t) (ok_step t)" "sat (insch_seen cf (wrap32 (- def_arg (arg 0 t) 1)) t) (ok_step t)"
    using a wrap32_small[of "- def_arg (arg 0 t) 1"] by (auto intro!: insch_seen_ok w)
  then show ?thesis
    unfolding csi_edit_def Let_def
    by (intro sat_if compat_ok w erase_display_ok erase_in_line_ok shift_lines_ok scroll_region_ok erase_chars_ok t)
qed

lemma status_report_ok: "term_ok t \<Longrightarrow> ok_step t (status_report cf t)"
  unfolding status_report_def by (intro ok_if ok_then ok_step_refl)

lemma toggle_all_ok: "ok_step s t \<Longrightarrow> sat (toggle_all cf as q b t) (ok_step s)"
proof (induction "as" arbitrary: t)
  case (Cons a "as")
  show ?case unfolding toggle_all.simps
    by (rule sat_bind[OF toggle_mode_ok[OF ok_stepD(1)[OF Cons.prems]]]) (rule Cons.IH, rule ok_step_trans[OF Cons.prems])
qed simp

lemma clear_granules_Nil: "clear_granules gs = []" by (induction gs) auto

lemma bufchain_clear_ok: "bufchain_ok (bufchain_clear ch)"
proof -
  have "bufchain_clear ch = bufchain_init" by (simp add: bufchain_clear_def bufchain_init_def clear_granules_Nil)
  then show ?thesis by simp
qed

lemma set_prn_step: "term_ok t \<Longrightarrow> bufchain_ok (printer_buf (f (prn t))) \<Longrightarrow> good_step t (set_prn f t)"
  using wf_set_prn[of t f] by (simp add: good_step_def same_size_def set_prn_def)

lemma wf_buf: "term_ok t \<Longrightarrow> bufchain_ok (printer_buf (prn t))" by (simp add: term_ok_def)

lemma media_copy_ok:
  assumes t: "term_ok t"
  shows "sat (media_copy cf t) (ok_step t)"
proof -
  have a: "good_step t (set_prn (\<lambda>p. p\<lparr>printing := True, only_printing := (esc_query (esc t) = 0), print_stage := 0\<rparr>) t)"
    by (rule set_prn_step[OF t]) (use wf_buf[OF t] in simp)
  have "good_step u (set_prn (\<lambda>p. p\<lparr>printer_buf := bufchain_clear (printer_buf p), print_job := True\<rparr>) u)" if "term_ok u" for u
    by (rule set_prn_step[OF that]) (simp add: bufchain_clear_ok)
  from step_then(2)[OF good_step_trans[OF a this[OF good_stepD(1)[OF a]]]]
  have "good_step t (term_print_setup (cfg_printer cf)
      (set_prn (\<lambda>p. p\<lparr>printing := True, only_printing := (esc_query (esc t) = 0), print_stage := 0\<rparr>) t))"
    by (simp add: term_print_setup_def)
  then show ?thesis
    unfolding media_copy_def by (intro sat_if sat_SomeI ok_step_refl t sat_good_ok print_finish_step good_ok_step)
qed

lemma clear_tabs_ok:
  assumes t: "term_ok t"
  shows "sat (clear_tabs t) (ok_step t)"
proof -
  have l: "int (length (tabs t)) = columns t" using t by (simp add: term_ok_def)
  have "ok_step t (t\<lparr>tabs := replicate (nat (columns t)) False @ drop (nat (columns t)) (tabs t)\<rparr>)"
    using t l by (intro good_ok_step) (simp add: good_step_def same_size_def term_ok_def)
  then show ?thesis
    using l set_tab_ok[OF t] ok_step_refl[OF t] by (simp add: clear_tabs_def)
qed

lemma set_margins_ok:
  assumes t: "csi_ready t"
  shows "ok_step t (set_margins t)"
proof (cases "esc_nargs (esc t) > 2")
  case False
  note w = csi_readyD(1)[OF t]
  note p = wf_pos[OF w]
  have r: "rows t < 0x80000000" using w by (simp add: term_ok_def)
  define b where "b = (if esc_nargs (esc t) \<le> 1 \<or> arg 1 t = 0 then rows t else def_arg (arg 1 t) (rows t))"
  have "0 \<le> arg 1 t \<and> arg 1 t < 0x80000000" if "\<not> esc_nargs (esc t) \<le> 1"
    using csi_readyD(3)[OF t] that by (simp add: csi_args_def arg_def)
  then have b: "1 \<le> b" "b < 0x80000000"
    using p(9) r unfolding b_def def_arg_def by (auto simp del: One_nat_def)
  define top where "top = wrap32 (def_arg (arg 0 t) 1 - 1)"
  define bot where "bot = (if wrap32 (b - 1) \<ge> rows t then rows t - 1 else wrap32 (b - 1))"
  have top: "0 \<le> top" "top < 0x80000000" using csi_def_arg[OF t] by (auto simp: top_def wrap32_small)
  have bot: "0 \<le> bot" "bot < rows t" using b p by (auto simp: bot_def wrap32_small)
  have e: "set_margins t = (if wrap32 (bot - top) > 0
      then let t1 = set_now (\<lambda>h. h\<lparr>marg_t := top, marg_b := bot\<rparr>) t
           in seen_disp_event (set_curs 0 (if dec_om (now t1) then marg_t (now t1) else 0) t1)
      else t)"
    using False unfolding set_margins_def Let_def top_def bot_def b_def by simp
  have "ok_step t (let t1 = set_now (\<lambda>h. h\<lparr>marg_t := top, marg_b := bot\<rparr>) t
           in seen_disp_event (set_curs 0 (if dec_om (now t1) then marg_t (now t1) else 0) t1))" if lt: "top < bot"
  proof -
    define u where "u = set_now (\<lambda>h. h\<lparr>marg_t := top, marg_b := bot\<rparr>) t"
    have u: "good_step t u"
      unfolding u_def by (rule step_set_now[OF w]) (use wf_now[OF w] top bot lt in \<open>simp add: good_half_def\<close>)
    note q = wf_pos[OF good_stepD(1)[OF u]]
    have "good_step u (set_curs 0 (if dec_om (now u) then marg_t (now u) else 0) u)"
      by (rule step_set_curs[OF good_stepD(1)[OF u]]) (use q in auto)
    from step_then(3)[OF good_step_trans[OF u this]] show ?thesis
      unfolding Let_def u_def[symmetric] by (rule good_ok_step)
  qed
  moreover have "top < bot" if "wrap32 (bot - top) > 0"
    using that top bot r wrap32_small[of "bot - top"] by auto
  ultimately show ?thesis unfolding e using ok_step_refl[OF w] by simp
next
  case True
  then show ?thesis using ok_step_refl[OF csi_readyD(1)[OF t]] by (simp add: set_margins_def)
qed

lemma window_ops_ok:
  assumes t: "term_ok t"
  shows "sat (window_ops cf t) (ok_step t)"
proof -
  have r: "ok_step s (request_size cf a b u)" if "ok_step s u" for s u a b
    unfolding request_size_def by (intro ok_if ok_then that)
  have q: "ok_step t (title_report cf c s t)" for c s
    unfolding title_report_def by (intro ok_if ok_then ok_step_refl t)
  have "ok_step t (window_report cf t)"
    unfolding window_report_def Let_def by (intro ok_if ok_then r q ok_step_refl t)
  then show ?thesis
    unfolding window_ops_def Let_def by (intro sat_if compat_ok t sat_SomeI ok_then r ok_step_refl)
qed

lemma request_parameters_ok: "term_ok t \<Longrightarrow> ok_step t (request_parameters cf t)"
  unfolding request_parameters_def Let_def by (intro ok_if ok_then ok_step_refl)

lemma tab_left_total:
  "x \<le> int (length ts) \<Longrightarrow> 0 < x \<Longrightarrow> \<exists>y. tab_left ts x = Some y \<and> 0 \<le> y \<and> y < x"
proof (induction ts x rule: tab_left.induct)
  case (1 ts x)
  show ?case
  proof (cases "x - 1 > 0 \<and> \<not> ts ! nat (x - 1)")
    case True
    then obtain y where "tab_left ts (x - 1) = Some y" "0 \<le> y" "y < x - 1"
      using 1(1)[of "ts ! nat (x - 1)"] 1(2) by (auto simp: index_line_def)
    then show ?thesis using True 1(2) by (subst tab_left.simps) (simp add: index_line_def)
  next
    case False
    then show ?thesis using 1(2,3) by (subst tab_left.simps) (auto simp: index_line_def)
  qed
qed

lemma back_tabs_total:
  "0 \<le> x \<Longrightarrow> x \<le> int (length ts) \<Longrightarrow> nat x \<le> fuel \<Longrightarrow> \<exists>y. back_tabs fuel ts i x = Some y \<and> 0 \<le> y \<and> y \<le> x"
proof (induction fuel arbitrary: i x)
  case 0
  then show ?case by (simp add: back_tabs.simps)
next
  case (Suc k)
  show ?case
  proof (cases "i > 0 \<and> x > 0")
    case True
    obtain y where y: "tab_left ts x = Some y" "0 \<le> y" "y < x" using tab_left_total[of x ts] Suc.prems(2) True by blast
    obtain z where "back_tabs k ts (i - 1) y = Some z" "0 \<le> z" "z \<le> y" 
    proof -
      have "nat y \<le> k" using Suc.prems(3) y by linarith
      then show ?thesis using Suc.IH[of y "i - 1"] Suc.prems(2) y that by auto
    qed
    then show ?thesis using True y by (subst back_tabs.simps) simp
  next
    case False
    then show ?thesis using Suc.prems by (subst back_tabs.simps) auto
  qed
qed

lemma back_tabulate_ok:
  assumes t: "term_ok t"
  shows "sat (back_tabulate t) (ok_step t)"
proof -
  note p = wf_pos[OF t]
  have "int (length (tabs t)) = columns t" using t by (simp add: term_ok_def)
  then obtain x where x: "back_tabs (nat (curs_x t)) (tabs t) (def_arg (arg 0 t) 1) (curs_x t) = Some x" "0 \<le> x" "x \<le> curs_x t"
    using back_tabs_total[of "curs_x t" "tabs t" "nat (curs_x t)" "def_arg (arg 0 t) 1"] p by auto
  have "ok_step t (set_curs x (curs_y t) t)" by (rule good_ok_step[OF step_set_curs[OF t]]) (use x p in auto)
  then show ?thesis unfolding back_tabulate_def x(1) Option.bind_lunit Let_def sat_Some by (rule ok_then)
qed

lemma csi_mode_ok:
  assumes t: "csi_ready t"
  shows "sat (csi_mode cf k t) (ok_step t)"
proof -
  note w = csi_readyD(1)[OF t]
  have m: "sat (set_modes cf b t) (ok_step t)" for b
    unfolding set_modes_def by (rule toggle_all_ok[OF ok_step_refl[OF w]])
  show ?thesis
    unfolding csi_mode_def
    by (intro sat_if compat_ok w sat_SomeI ok_then status_report_ok m media_copy_ok clear_tabs_ok set_margins_ok t
        set_rendition_ok sat_good_ok save_cursor_step bind_then window_ops_ok request_parameters_ok back_tabulate_ok ok_step_refl)
qed

lemma sco_colour_bits:
  assumes "0 \<le> a" "a < 16" "8 \<le> n"
  shows "\<not> bit (sco_colour a) n"
proof -
  have "nat (a mod 8) < length sco2ansicolour" by (simp add: sco2ansicolour_def nat_less_iff)
  then have "sco2ansicolour ! nat (a mod 8) \<in> set sco2ansicolour" by (rule nth_mem)
  moreover have "w AND 0xFF = w" if "w \<in> set sco2ansicolour" for w using that by (auto simp: sco2ansicolour_def)
  ultimately have "sco2ansicolour ! nat (a mod 8) = sco2ansicolour ! nat (a mod 8) AND 0xFF" by simp
  then have "\<not> bit (sco2ansicolour ! nat (a mod 8)) n" using masked_bits(1)[OF assms(3)] by metis
  moreover have "\<not> bit (word_of_int a :: 32 word) n" by (rule small_int_bit) (use assms in auto)
  ultimately show ?thesis by (simp add: sco_colour_def bit_simps)
qed

lemma sco_pen_ok:
  assumes t: "term_ok t" and c: "\<not> bit c 31"
  shows "ok_step t (set_erase_char (set_pen (\<lambda>p. p\<lparr>curr_attr := (curr_attr p AND NOT m) OR c,
                                                    default_attr := (default_attr p AND NOT m) OR c\<rparr>) t))"
proof -
  have "good_pen ((pen t)\<lparr>curr_attr := (curr_attr (pen t) AND NOT m) OR c, default_attr := (default_attr (pen t) AND NOT m) OR c\<rparr>)"
    using wf_pen[OF t] c by (simp add: good_pen_def small_bit bit_simps)
  then show ?thesis by (intro set_erase_char_ok good_ok_step step_set_pen t)
qed

lemma sco_colours_ok:
  assumes t: "term_ok t"
  shows "ok_step t (sco_foreground t)" "ok_step t (sco_background t)"
  unfolding sco_foreground_def sco_background_def Let_def
  by (intro ok_if sco_pen_ok t pen_colour_bits sco_colour_bits ok_step_refl; simp)+

lemma compat_level_ok:
  assumes t: "term_ok t" "termstate (esc t) = TOPLEVEL"
  shows "ok_step t (compat_level t)"
proof -
  have k: "ok_step u (set_esc (\<lambda>p. p\<lparr>compatibility_level := g p\<rparr>) u)" "ok_step u (set_esc (\<lambda>p. p\<lparr>id_string := h p\<rparr>) u)"
    if "term_ok u" "termstate (esc u) = TOPLEVEL" for u g h
    by (rule ok_set_esc[OF that(1)]; use wf_esc[OF that(1)] that(2) in \<open>simp add: good_esc_def\<close>)+
  note a = k(1)[OF t]
  show ?thesis
    unfolding compat_level_def Let_def[of "arg 0 t"] Let_def[of "set_esc f t" for f]
    by (intro ok_if a ok_step_trans[OF a k(2)[OF ok_stepD(1)[OF a]]]) (simp add: set_esc_def t(2))
qed

lemma use_bce_ok: "term_ok t \<Longrightarrow> ok_step t (set_erase_char (set_pen (\<lambda>p. p\<lparr>use_bce := b\<rparr>) t))"
  using wf_pen[of t] by (intro set_erase_char_ok good_ok_step step_set_pen) (auto simp: good_pen_def)

lemma csi_private_ok:
  assumes t: "csi_ready t"
  shows "sat (csi_private cf k t) (ok_step t)"
proof -
  note w = csi_readyD(1)[OF t]
  have r: "ok_step s (request_size cf a b u)" if "ok_step s u" for s u a b
    unfolding request_size_def by (intro ok_if ok_then that)
  have b: "ok_step t (pen_attr (\<lambda>a. if q then a OR ATTR_BLINK else a AND NOT ATTR_BLINK) (term_schedule_tblink (blink_unreal t)))" for q
    unfolding blink_unreal_def by (intro pen_attr_ok ok_then ok_step_refl w) (simp add: bit_simps pen_masks)
  show ?thesis
    unfolding csi_private_def set_lines_def set_columns_def sco_cursor_def
    by (intro sat_if compat_ok w sat_SomeI ok_if ok_then r ok_step_refl sco_colours_ok b use_bce_ok compat_level_ok csi_readyD(2)[OF t])
qed

lemma csi_final_ok:
  assumes t: "csi_ready t"
  shows "sat (csi_final cf k t) (ok_step t)"
  unfolding csi_final_def by (intro sat_if csi_cursor_ok csi_edit_ok csi_mode_ok csi_private_ok t)

text \<open>The result of one character: the invariant holds and the size is the same.\<close>

definition out_step :: "terminal \<Rightarrow> terminal \<Rightarrow> bool" where
  "out_step t t' \<longleftrightarrow> term_ok t' \<and> same_size t t'"

lemma out_stepD: "out_step t t' \<Longrightarrow> term_ok t'" by (simp add: out_step_def)

lemma out_trans: "out_step t u \<Longrightarrow> out_step u v \<Longrightarrow> out_step t v"
  by (auto simp: out_step_def intro: same_size_trans)

lemma ok_out_step: "ok_step t t' \<Longrightarrow> out_step t t'"
  by (simp add: ok_step_def out_step_def)

lemma good_out_step: "good_step t t' \<Longrightarrow> out_step t t'"
  by (simp add: good_step_def out_step_def)

lemma sat_ok_out: "sat m (ok_step t) \<Longrightarrow> sat m (out_step t)"
  by (erule sat_mono) (rule ok_out_step)

text \<open>The digit extends the last argument of the control sequence without overflow.\<close>

definition digit_char :: "32 word \<Rightarrow> bool" where
  "digit_char c \<longleftrightarrow> 0x30 \<le> c \<and> c \<le> 0x39"

definition last_arg :: "terminal \<Rightarrow> int" where
  "last_arg t = arg (esc_nargs (esc t) - 1) t"

definition digit_fits :: "32 word \<Rightarrow> terminal \<Rightarrow> bool" where
  "digit_fits c t \<longleftrightarrow>
     (termstate (esc t) = SEEN_CSI \<and> digit_char c \<longrightarrow> 10 * last_arg t + (uint c - 48) < 0x80000000)"

lemma csi_char_out:
  assumes t: "term_ok t" "termstate (esc t) = SEEN_CSI" and f: "digit_fits c t"
  shows "sat (csi_char cf c t) (out_step t)"
proof -
  define t1 where "t1 = set_state TOPLEVEL t"
  have g: "good_esc (esc t)" "csi_args (esc t)" using wf_esc[OF t(1)] t(2) by (simp_all add: good_esc_def)
  have r: "csi_ready t1" "same_size t t1" "esc t1 = (esc t)\<lparr>termstate := TOPLEVEL\<rparr>"
    using ok_stepD[OF top_step[OF t(1)]] g(2) by (simp_all add: csi_ready_def t1_def set_state_def set_esc_def csi_args_def)
  note w = csi_readyD(1)[OF r(1)]
  let ?n = "esc_nargs (esc t)"
  have n: "1 \<le> ?n" "?n \<le> ARGS_MAX" "length (esc_args (esc t)) = ARGS_MAX" using g by (simp_all add: good_esc_def csi_args_def)
  have out: "out_step t (set_esc h t1)"
    if "good_esc (h (esc t1))" for h
    using wf_set_esc[where t = t1 and f = h, OF w that] r(2) by (simp add: out_step_def same_size_def set_esc_def)
  have digit: "sat (csi_digit c t1) (out_step t)" if c: "c \<ge> K CHR ''0'' \<and> c \<le> K CHR ''9''"
  proof -
    let ?v = "10 * esc_args (esc t) ! (?n - 1) + uint c - 48"
    have d: "digit_char c" using c by (simp add: digit_char_def)
    have u: "48 \<le> uint c" using c by (simp add: word_le_def)
    have a: "0 \<le> esc_args (esc t) ! (?n - 1)" using g(2) n(1) by (simp add: csi_args_def)
    have v: "0 \<le> ?v" "?v < 0x80000000" using u a f t(2) d by (auto simp: digit_fits_def arg_def last_arg_def)
    have l: "?n - 1 < length (esc_args (esc t))" using n by simp
    let ?h = "\<lambda>p. p\<lparr>esc_args := (esc_args p)[?n - 1 := wrap32 (10 * esc_args p ! (?n - 1) + uint c - 48)], termstate := SEEN_CSI\<rparr>"
    have "good_esc (?h (esc t1))"
      using g v l by (auto simp: good_esc_def csi_args_def r(3) wrap32_small nth_list_update)
    then have "out_step t (set_esc ?h t1)" by (rule out)
    then show ?thesis using n l by (simp add: csi_digit_def Let_def r(3))
  qed
  have semi: "out_step t (csi_semicolon t1)"
    unfolding csi_semicolon_def
    by (rule out) (use g n in \<open>auto simp: good_esc_def csi_args_def r(3) nth_list_update\<close>)
  have inter: "out_step t (csi_intermediate c t1)"
    unfolding csi_intermediate_def
    by (rule out) (use g n in \<open>auto simp: good_esc_def csi_args_def r(3)\<close>)
  have fin: "sat (csi_final cf k t1) (out_step t)" for k
    by (rule sat_mono[OF csi_final_ok[OF r(1)]]) (use r(2) in \<open>auto simp: ok_step_def out_step_def intro: same_size_trans\<close>)
  show ?thesis
    unfolding csi_char_def Let_def t1_def[symmetric]
    by (rule sat_if, rule digit, assumption, intro sat_if sat_SomeI semi inter fin)
qed

section \<open>ESC and OSC sequences\<close>

lemma esc_char_ok:
  assumes t: "term_ok t" "termstate (esc t) \<noteq> SEEN_CSI"
  shows "sat (esc_char cf c t) (ok_step t)"
proof -
  define t1 where "t1 = set_state TOPLEVEL t"
  have t1: "ok_step t t1" "termstate (esc t1) = TOPLEVEL"
    unfolding t1_def by (rule top_step[OF t(1)]) (simp add: set_state_def set_esc_def)
  have q: "ok_step t (set_esc (\<lambda>p. p\<lparr>esc_query := (if esc_query p \<noteq> 0 then - 1 else sint c)\<rparr>) t)"
    by (rule ok_set_esc[OF t(1)]) (use wf_esc[OF t(1)] t(2) in \<open>simp_all add: good_esc_def\<close>)
  show ?thesis
    unfolding esc_char_def Let_def t1_def[symmetric]
    by (rule sat_if, rule sat_SomeI, rule q, rule ok_sat[OF _ t1(1)])
      (intro sat_if esc_plain_ok esc_other_ok ok_stepD(1)[OF t1(1)] t1(2))
qed

lemma osc_maybe_st_ok:
  assumes t: "term_ok t" "termstate (esc t) = OSC_MAYBE_ST"
  shows "sat (osc_maybe_st cf c t) (ok_step t)"
  unfolding osc_maybe_st_def
  using wf_esc[OF t(1)] t by (intro sat_if do_osc_ok esc_char_ok) (auto simp: good_esc_def)

lemma osc_digit_ok:
  assumes t: "term_ok t" "termstate (esc t) \<noteq> SEEN_CSI"
  shows "ok_step t (osc_digit c t)"
  unfolding osc_digit_def
  by (rule ok_set_esc[OF t(1)]) (use wf_esc[OF t(1)] t(2) in \<open>simp_all add: good_esc_def\<close>)

lemma osc_begin_ok: "term_ok t \<Longrightarrow> ok_step t (osc_begin t)"
  unfolding osc_begin_def by (rule ok_set_esc) (use wf_esc[of t] in \<open>simp_all add: good_esc_def\<close>)

lemma osc_char_ok:
  assumes t: "term_ok t" "termstate (esc t) \<noteq> SEEN_CSI"
  shows "sat (osc_char cf c t) (ok_step t)"
proof -
  define t1 where "t1 = set_esc (\<lambda>p. p\<lparr>osc_w := False\<rparr>) t"
  have t1: "ok_step t t1"
    unfolding t1_def by (rule ok_set_esc[OF t(1)]) (use wf_esc[OF t(1)] t(2) in \<open>simp_all add: good_esc_def\<close>)
  have s1: "termstate (esc t1) \<noteq> SEEN_CSI" using t(2) by (simp add: t1_def set_esc_def)
  note w = ok_stepD(1)[OF t1]
  have p: "ok_step t1 (set_esc (\<lambda>p. p\<lparr>termstate := SEEN_OSC_P, osc_strlen := 0\<rparr>) t1)"
    "ok_step t1 (set_esc (\<lambda>p. p\<lparr>termstate := SEEN_OSC_W, osc_w := True\<rparr>) t1)"
    "ok_step t1 (set_esc (\<lambda>p. p\<lparr>esc_args := (esc_args p)[0 := 1]\<rparr>) t1)"
    by (rule ok_set_esc[OF w]; use wf_esc[OF w] s1 in \<open>simp add: good_esc_def\<close>)+
  have e: "ok_step t1 (term_invalidate (emit Palette_reset t1))" by (intro ok_then ok_step_refl w)
  show ?thesis
    unfolding osc_char_def Let_def t1_def[symmetric]
    by (rule ok_sat[OF _ t1])
      (intro sat_if sat_SomeI p osc_digit_ok osc_begin_ok w s1 ok_step_trans[OF e top_step[OF ok_stepD(1)[OF e]]])
qed

lemma osc_string_char_ok:
  assumes t: "term_ok t" "termstate (esc t) = OSC_STRING"
  shows "sat (osc_string_char cf c t) (ok_step t)"
proof -
  note g = wf_esc[OF t(1)]
  have n: "0 \<le> osc_strlen (esc t)" "osc_strlen (esc t) \<le> int OSC_STR_MAX" "length (osc_string (esc t)) = OSC_STR_MAX + 1"
    using g t(2) by (simp_all add: good_esc_def)
  have m: "ok_step t (set_state OSC_MAYBE_ST t)"
    unfolding set_state_def by (rule ok_set_esc[OF t(1)]) (use g t(2) in \<open>simp_all add: good_esc_def\<close>)
  have "ok_step t (set_esc (\<lambda>p. p\<lparr>osc_string := (osc_string p)[nat (osc_strlen p) := ucast c], osc_strlen := osc_strlen p + 1\<rparr>) t)"
    if "osc_strlen (esc t) < int OSC_STR_MAX"
    by (rule ok_set_esc[OF t(1)]) (use g t(2) that in \<open>simp_all add: good_esc_def\<close>)
  then have a: "sat (if osc_strlen (esc t) < int OSC_STR_MAX then
        (if 0 \<le> osc_strlen (esc t) \<and> osc_strlen (esc t) < int (length (osc_string (esc t)))
         then Some (set_esc (\<lambda>p. p\<lparr>osc_string := (osc_string p)[nat (osc_strlen p) := ucast c], osc_strlen := osc_strlen p + 1\<rparr>) t)
         else None)
      else Some t) (ok_step t)"
    using n ok_step_refl[OF t(1)] by simp
  show ?thesis
    unfolding osc_string_char_def
    by (rule sat_if, rule sat_SomeI, rule top_step[OF t(1)], rule sat_if, rule do_osc_ok[OF t(1) n(1,2)],
        rule sat_if, rule sat_SomeI, rule m, rule a)
qed

lemma palette_char_ok:
  assumes t: "term_ok t" "termstate (esc t) = SEEN_OSC_P"
  shows "sat (palette_char c t) (ok_step t)"
proof (cases "hex_value (if osc_strlen (esc t) = 0 then 21 else 15) (sint c)")
  case None
  then show ?thesis using top_step[OF t(1)] by (simp add: palette_char_def Let_def)
next
  case (Some val)
  note g = wf_esc[OF t(1)]
  have n: "0 \<le> osc_strlen (esc t)" "osc_strlen (esc t) < 7" "length (osc_string (esc t)) = OSC_STR_MAX + 1"
    using g t(2) by (simp_all add: good_esc_def)
  let ?f = "\<lambda>p. p\<lparr>osc_string := (osc_string p)[nat (osc_strlen (esc t)) := word_of_int val], osc_strlen := osc_strlen (esc t) + 1\<rparr>"
  have b: "\<not> \<not> (0 \<le> osc_strlen (esc t) \<and> osc_strlen (esc t) < int (length (osc_string (esc t))))"
    using n by (simp add: OSC_STR_MAX_def)
  have s: "set_state TOPLEVEL (term_invalidate (emit e (set_esc ?f t))) =
      set_esc (\<lambda>p. (?f p)\<lparr>termstate := TOPLEVEL\<rparr>) (term_invalidate (emit e t))" for e
    by (simp add: term_updates)
  have i: "ok_step t (term_invalidate (emit e t))" "esc (term_invalidate (emit e t)) = esc t" for e
    by (intro ok_then ok_step_refl t(1)) (simp add: term_updates)
  have full: "ok_step t (set_state TOPLEVEL (term_invalidate (emit e (set_esc ?f t))))" for e
    unfolding s
    by (rule ok_step_trans[OF i(1)], rule ok_set_esc[OF ok_stepD(1)[OF i(1)]]) (use g in \<open>simp_all add: good_esc_def i(2)\<close>)
  have part: "ok_step t (set_esc ?f t)" if "\<not> osc_strlen (esc t) + 1 \<ge> 7"
    by (rule ok_set_esc[OF t(1)]) (use g t(2) n that in \<open>simp_all add: good_esc_def\<close>)
  show ?thesis
    unfolding palette_char_def Let_def Some option.case if_not_P[OF b]
    by (intro sat_if sat_SomeI full part)
qed

lemma osc_w_char_ok: "term_ok t \<Longrightarrow> termstate (esc t) \<noteq> SEEN_CSI \<Longrightarrow> ok_step t (osc_w_char c t)"
  unfolding osc_w_char_def by (intro ok_if osc_digit_ok osc_begin_ok)

section \<open>VT52 sequences\<close>

lemma bottom_after_ok: "sat m (good_step t) \<Longrightarrow> sat (bottom_after cf m) (ok_step t)"
  unfolding bottom_after_def by (rule bind_then) (auto intro!: ok_then ok_step_refl)

lemma vt52_reset_line_ok: "term_ok t \<Longrightarrow> sat (vt52_reset_line cf t) (ok_step t)"
  unfolding vt52_reset_line_def
  by (rule bind_then[OF erase_lots_step]) (auto intro!: ok_then good_ok_step[OF home_column_step])

lemma vt52_up_ok:
  assumes t: "term_ok t"
  shows "sat (vt52_up cf t) (ok_step t)"
  unfolding vt52_up_def
proof (rule bind_then)
  note p = wf_pos[OF t]
  show "sat (if curs_y t = 0 then scroll cf 0 (rows t - 1) (- 1) True t
      else if curs_y t > 0 then Some (set_curs (curs_x t) (curs_y t - 1) t) else Some t) (good_step t)"
    by (intro sat_if sat_mono[OF scroll_kept[OF t] kept_step] sat_SomeI step_set_curs t good_step_refl) (use p in auto)
qed (intro ok_then ok_step_refl)

lemma vt52_shift_ok:
  assumes t: "term_ok t"
  shows "sat (vt52_shift cf n sb t) (ok_step t)"
  unfolding vt52_shift_def
  using wf_pos[OF t] by (intro sat_if sat_kept_ok scroll_kept t sat_SomeI ok_step_refl)

lemma vt52_char_ok:
  assumes t0: "term_ok t0"
  shows "sat (vt52_char cf c t0) (ok_step t0)"
proof -
  define t where "t = seen_disp_event (set_state TOPLEVEL t0)"
  have s: "ok_step t0 t" unfolding t_def by (intro ok_then top_step t0)
  note w = ok_stepD(1)[OF s]
  have top: "termstate (esc t) = TOPLEVEL" by (simp add: t_def term_updates)
  have cs: "ok_step t (set_cset_attr 0 v (set_now (\<lambda>h. h\<lparr>cset := 0\<rparr>) t))" for v
  proof -
    have a: "ok_step t (set_now (\<lambda>h. h\<lparr>cset := 0\<rparr>) t)" by (intro ok_set_now w half_updates wf_now) simp
    note wa = ok_stepD(1)[OF a]
    have "ok_step u (set_cset_attr 0 v u)" if "term_ok u" for u
      unfolding set_cset_attr_def
      by (rule good_ok_step[OF step_set_pen[OF that]]) (use wf_pen[OF that] in \<open>simp add: good_pen_def\<close>)
    from ok_step_trans[OF a this[OF wa]] show ?thesis .
  qed
  have st: "ok_step t (set_state VT52_Y1 t)" "ok_step t (set_state VT52_FG t)" "ok_step t (set_state VT52_BG t)"
    unfolding set_state_def by (rule ok_set_esc[OF w]; use wf_esc[OF w] in \<open>simp add: good_esc_def\<close>)+
  have m: "good_step t (move 0 0 0 t)" by (rule step_move[OF w])
  have e: "sat (erase_lots cf False False True (move 0 0 0 t)) (good_step t)"
    by (rule step_sat'[OF erase_lots_step[OF good_stepD(1)[OF m]] m])
  have er: "sat (erase_lots cf a b c t) (ok_step t)" "sat (bottom_after cf (erase_lots cf a b c t)) (ok_step t)" for a b c
    by (rule sat_good_ok[OF erase_lots_step[OF w]], rule bottom_after_ok[OF erase_lots_step[OF w]])
  have b: "ok_step t (vt52_bold_to q t)" for q unfolding vt52_bold_to_def by (intro ok_then ok_step_refl w)
  have d: "ok_step t (pen_attr (\<lambda>_. ATTR_DEFAULT) (vt52_bold_to False t))"
    by (rule pen_attr_ok[OF b]) (use attr_default in \<open>simp add: small_bit\<close>)
  have pn: "ok_step t (pen_attr (\<lambda>a. a OR v) u)" "ok_step t (pen_attr (\<lambda>a. a AND v') u)"
    if "ok_step t u" "\<not> bit v 31" for u v v'
    by (rule pen_attr_ok[OF that(1)]; use that(2) in \<open>simp add: bit_simps\<close>)+
  have pm: "ok_step t (pen_attr (\<lambda>a. a AND v) u)" if "ok_step t u" for u v
    by (rule pen_attr_ok[OF that]) (simp add: bit_simps)
  show ?thesis
    unfolding vt52_char_def Let_def t_def[symmetric]
    by (rule ok_sat[OF _ s])
      (intro sat_if sat_SomeI ok_then ok_step_refl w cs vt52_up_ok bottom_after_ok[OF e] er st
        good_ok_step[OF mode_vt52_step] vt52_shift_ok vt52_reset_line_ok pn(1) pm pen_masks ok_set_now half_updates wf_now
        set_erase_char_ok d b)
qed

lemma vt52_colour_ok:
  assumes t: "term_ok t"
  shows "ok_step t (vt52_foreground c t)" "ok_step t (vt52_background c t)"
  unfolding vt52_foreground_def vt52_background_def
  by (rule set_erase_char_ok, rule pen_attr_ok[OF top_step[OF t]],
      use pen_colour_bits[of "c AND 0xF"] masked_bits(2)[of _ c] in \<open>simp add: bit_simps\<close>)+

lemma set_state_ok:
  assumes "term_ok t" "s \<noteq> SEEN_CSI" "s \<noteq> OSC_STRING" "s \<noteq> OSC_MAYBE_ST" "s \<noteq> SEEN_OSC_P"
  shows "ok_step t (set_state s t)"
  unfolding set_state_def by (rule ok_set_esc[OF assms(1)]) (use wf_esc[OF assms(1)] assms(2-5) in \<open>simp_all add: good_esc_def\<close>)

section \<open>The loop\<close>

lemma plain_sat: "sat m (out_step t) \<Longrightarrow> sat (map_option (\<lambda>t'. (t', False)) m) (\<lambda>r. out_step t (fst r))"
  by (auto simp: sat_def)

lemma dispatch_out:
  assumes t: "term_ok t" and c: "c \<noteq> UCSWIDE" and f: "digit_fits c t"
  shows "sat (dispatch cf c t) (\<lambda>r. out_step t (fst r))"
proof -
  have g: "sat (graphic cf c t) (\<lambda>r. out_step t (fst r))" if "\<not> (c AND NOT 0x1F = 0 \<and> below_ctrls (termstate (esc t)))" "termstate (esc t) = TOPLEVEL"
  proof -
    have "c \<noteq> 0" using that by (auto simp: below_ctrls_def)
    then show ?thesis by (rule sat_mono[OF graphic_step[OF t c]]) (rule good_out_step)
  qed
  have some: "sat (map_option (\<lambda>t'. (t', False)) (Some u)) (\<lambda>r. out_step t (fst r))" if "ok_step t u" for u
    using ok_out_step[OF that] by simp
  have y: "ok_step t (move x z k (set_state VT52_Y2 t))" "ok_step t (move x z k (set_state TOPLEVEL t))" for x z k
    by (intro ok_then set_state_ok t; simp)+
  show ?thesis
    unfolding dispatch_def Let_def
  proof (rule sat_if, rule plain_sat, rule sat_ok_out, rule sat_good_ok, rule rubout_step[OF t],
        rule sat_if, rule plain_sat, rule sat_ok_out, rule c0_control_ok[OF t])
    assume n: "\<not> (c AND NOT 0x1F = 0 \<and> below_ctrls (termstate (esc t)))"
    note [simp del] = option.map
    show "sat (case termstate (esc t) of TOPLEVEL \<Rightarrow> graphic cf c t | SEEN_ESC \<Rightarrow> map_option (\<lambda>t'. (t', False)) (esc_char cf c t)
        | SEEN_CSI \<Rightarrow> map_option (\<lambda>t'. (t', False)) (csi_char cf c t) | SEEN_OSC \<Rightarrow> map_option (\<lambda>t'. (t', False)) (osc_char cf c t)
        | SEEN_OSC_W \<Rightarrow> map_option (\<lambda>t'. (t', False)) (Some (osc_w_char c t)) | DO_CTRLS \<Rightarrow> map_option (\<lambda>t'. (t', False)) (Some t)
        | SEEN_OSC_P \<Rightarrow> map_option (\<lambda>t'. (t', False)) (palette_char c t)
        | OSC_STRING \<Rightarrow> map_option (\<lambda>t'. (t', False)) (osc_string_char cf c t)
        | OSC_MAYBE_ST \<Rightarrow> map_option (\<lambda>t'. (t', False)) (osc_maybe_st cf c t)
        | VT52_ESC \<Rightarrow> map_option (\<lambda>t'. (t', False)) (vt52_char cf c t)
        | VT52_Y1 \<Rightarrow> map_option (\<lambda>t'. (t', False)) (Some (move (curs_x t) (sint (c - 0x20)) 0 (set_state VT52_Y2 t)))
        | VT52_Y2 \<Rightarrow> map_option (\<lambda>t'. (t', False)) (Some (move (sint (c - 0x20)) (curs_y t) 0 (set_state TOPLEVEL t)))
        | VT52_FG \<Rightarrow> map_option (\<lambda>t'. (t', False)) (Some (vt52_foreground c t))
        | VT52_BG \<Rightarrow> map_option (\<lambda>t'. (t', False)) (Some (vt52_background c t))) (\<lambda>r. out_step t (fst r))"
    proof (cases "termstate (esc t)")
      case TOPLEVEL then show ?thesis using g[OF n] by simp
    next
      case SEEN_ESC then show ?thesis using plain_sat[OF sat_ok_out[OF esc_char_ok[OF t]]] by simp
    next
      case SEEN_CSI then show ?thesis using plain_sat[OF csi_char_out[OF t _ f]] by simp
    next
      case SEEN_OSC then show ?thesis using plain_sat[OF sat_ok_out[OF osc_char_ok[OF t]]] by simp
    next
      case SEEN_OSC_W then show ?thesis using some[OF osc_w_char_ok[OF t]] by simp
    next
      case DO_CTRLS then show ?thesis using some[OF ok_step_refl[OF t]] by simp
    next
      case SEEN_OSC_P then show ?thesis using plain_sat[OF sat_ok_out[OF palette_char_ok[OF t]]] by simp
    next
      case OSC_STRING then show ?thesis using plain_sat[OF sat_ok_out[OF osc_string_char_ok[OF t]]] by simp
    next
      case OSC_MAYBE_ST then show ?thesis using plain_sat[OF sat_ok_out[OF osc_maybe_st_ok[OF t]]] by simp
    next
      case VT52_ESC then show ?thesis using plain_sat[OF sat_ok_out[OF vt52_char_ok[OF t]]] by simp
    next
      case VT52_Y1 then show ?thesis using some[OF y(1)] by simp
    next
      case VT52_Y2 then show ?thesis using some[OF y(2)] by simp
    next
      case VT52_FG then show ?thesis using some[OF vt52_colour_ok(1)[OF t]] by simp
    next
      case VT52_BG then show ?thesis using some[OF vt52_colour_ok(2)[OF t]] by simp
    qed
  qed
qed

lemma cursor_selection_esc: "esc (check_cursor_selection t) = esc t"
  by (simp add: check_cursor_selection_def check_selection_def deselect_def set_sel_def)

lemma process_char_out:
  assumes t: "term_ok t" and c: "c \<noteq> UCSWIDE" and f: "digit_fits c t"
  shows "sat (process_char cf c t) (out_step t)"
proof -
  obtain c1 t1 where e: "c1_control c t = (c1, t1)" by (cases "c1_control c t") auto
  have o: "ok_step t t1" "c1 \<noteq> UCSWIDE" using c1_control_ok[OF t c] e by simp_all
  have n: "digit_fits c1 t1"
  proof (cases "termstate (esc t1) = SEEN_CSI")
    case True
    then have "(c1, t1) = (0, t) \<or> (c1, t1) = (c, t)"
      using e by (auto simp: c1_control_def set_esc_def split: if_splits)
    then show ?thesis using f by (auto simp: digit_fits_def digit_char_def)
  qed (simp add: digit_fits_def)
  obtain t2 b where d: "dispatch cf c1 t1 = Some (t2, b)" "out_step t1 t2"
    by (rule satE[OF dispatch_out[OF ok_stepD(1)[OF o(1)] o(2) n]]) auto
  have s: "out_step t t2" by (rule out_trans[OF ok_out_step[OF o(1)] d(2)])
  have "out_step t2 (check_cursor_selection t2)"
    by (rule good_out_step[OF check_cursor_selection_step[OF good_step_refl[OF out_stepD[OF s]]]])
  then show ?thesis using d(1) s out_trans[OF s] by (simp add: process_char_def e)
qed

lemma process_error_char:
  assumes t: "term_ok t" "termstate (esc t) = TOPLEVEL"
  shows "sat (process_char cf UCSERR t) (good_step t)"
proof -
  have c: "UCSERR \<noteq> UCSWIDE" "UCSERR \<noteq> 0" by (simp_all add: UCSERR_def UCSWIDE_def CSET_LINEDRW_def)
  have e: "c1_control UCSERR t = (UCSERR, t)" by (simp add: c1_control_def UCSERR_def CSET_LINEDRW_def)
  have "dispatch cf UCSERR t = graphic cf UCSERR t" using t(2) by (simp add: dispatch_def UCSERR_def CSET_LINEDRW_def)
  then obtain t2 b where d: "dispatch cf UCSERR t = Some (t2, b)" "good_step t t2"
    using satE[OF graphic_step[OF t(1) c]] by (metis prod.collapse)
  then show ?thesis using check_cursor_selection_step[OF d(2)] by (simp add: process_char_def e)
qed

lemma print_byte_step:
  assumes t: "term_ok t"
  shows "sat (print_byte c t) (\<lambda>r. good_step t (fst r))"
proof (cases "printing (prn t)")
  case True
  define ch where "ch = bufchain_add (printer_buf (prn t)) [c]"
  define t1 where "t1 = set_prn (\<lambda>p. p\<lparr>printer_buf := ch\<rparr>) t"
  have "bufchain_ok ch" unfolding ch_def by (rule bufq.add_inv[OF wf_buf[OF t]])
  then have t1: "good_step t t1" unfolding t1_def by (intro set_prn_step t) simp
  define s where "s = print_scan c (print_stage (prn t1))"
  define t2 where "t2 = set_prn (\<lambda>p. p\<lparr>print_stage := s\<rparr>) t1"
  have t2: "good_step t1 t2"
    unfolding t2_def by (rule set_prn_step[OF good_stepD(1)[OF t1]]) (use wf_buf[OF good_stepD(1)[OF t1]] in simp)
  have "sat (if s = 4 then term_print_finish t2 else Some t2) (good_step t)"
    by (rule step_sat'[OF _ good_step_trans[OF t1 t2]])
      (simp add: print_finish_step good_step_refl good_stepD(1)[OF t2])
  then obtain t3 where t3: "(if s = 4 then term_print_finish t2 else Some t2) = Some t3" "good_step t t3" by (rule satE)
  have "print_byte c t = (if only_printing (prn t1) then Some (t3, True) else Some (t1, False))"
    unfolding print_byte_def Let_def if_P[OF True] ch_def[symmetric] t1_def[symmetric] s_def[symmetric] t2_def[symmetric] t3(1)
    by simp
  then show ?thesis using t1 t3(2) by simp
qed (simp add: print_byte_def good_step_refl t)

text \<open>One byte; when it is to be read again, no sequence is pending any more.\<close>

definition byte_step :: "terminal \<Rightarrow> terminal \<times> bool \<Rightarrow> bool" where
  "byte_step t r \<longleftrightarrow>
     out_step t (fst r)
   \<and> (snd r \<longrightarrow> termstate (esc (fst r)) = TOPLEVEL \<and> utf_state (esc (fst r)) = 0 \<and> utf_state (esc t) \<noteq> 0)"

lemma decoding_out: "decoding t u \<Longrightarrow> out_step t u"
  by (simp add: decoding_def out_step_def)

lemma term_out_char_step:
  assumes t: "term_ok t" and f: "digit_fits (ucast c) t"
  shows "sat (term_out_char cf c t) (byte_step t)"
proof -
  obtain t1 p where p: "print_byte c t = Some (t1, p)" "good_step t t1"
    by (rule satE[OF print_byte_step[OF t, of c]]) auto
  have e1: "esc t1 = esc t" using p(2) by (simp add: good_step_def)
  note w1 = good_stepD(1)[OF p(2)]
  note o1 = good_out_step[OF p(2)]
  have d: "decoded_ok c t1 (translate cf c t1)" by (rule translate_ok[OF w1])
  have ch: "sat (process_char cf x u) (out_step t)" if "out_step t1 u" "x \<noteq> UCSWIDE" "digit_fits x u" for x u
    by (rule sat_mono[OF process_char_out[OF out_stepD[OF that(1)] that(2,3)]]) (rule out_trans[OF out_trans[OF o1 that(1)]])
  show ?thesis
  proof (cases p)
    case True
    then show ?thesis using p(1) o1 by (simp add: term_out_char_def byte_step_def)
  next
    case False
    show ?thesis
    proof (cases "translate cf c t1")
      case (Skip u)
      then have "out_step t u"
        using d out_trans[OF o1 decoding_out] by (auto simp: decoded_ok_def split: if_splits)
      then show ?thesis using p(1) False Skip by (simp add: term_out_char_def byte_step_def)
    next
      case (Char x u)
      have "out_step t1 u \<and> x \<noteq> UCSWIDE \<and> digit_fits x u"
      proof (cases "termstate (esc t1) = TOPLEVEL")
        case True
        then show ?thesis using d Char decoding_out by (auto simp: decoded_ok_def digit_fits_def decoding_def)
      next
        case False
        have "digit_fits (ucast c) t1" using f e1 by (simp add: digit_fits_def last_arg_def arg_def)
        then show ?thesis using d Char False byte_not_wide w1 by (auto simp: decoded_ok_def out_step_def)
      qed
      then have "sat (process_char cf x u) (out_step t)" using ch by blast
      then show ?thesis using p(1) False Char by (auto simp: term_out_char_def byte_step_def sat_def)
    next
      case (Unget u)
      have u: "decoding t1 u" "utf_state (esc u) = 0" "utf_state (esc t) \<noteq> 0"
        using d Unget e1 by (auto simp: decoded_ok_def split: if_splits)
      obtain v where v: "process_char cf UCSERR u = Some v" "good_step u v"
        by (rule satE[OF process_error_char]) (use u(1) in \<open>auto simp: decoding_def\<close>)
      have "out_step t v" by (rule out_trans[OF o1 out_trans[OF decoding_out[OF u(1)] good_out_step[OF v(2)]]])
      moreover have "esc v = esc u" using v(2) by (simp add: good_step_def)
      ultimately show ?thesis
        using p(1) False Unget v(1) u by (simp add: term_out_char_def byte_step_def decoding_def)
    qed
  qed
qed

lemma term_out_byte:
  assumes t: "term_ok t" and f: "digit_fits (ucast c) t"
  shows "sat (term_out_loop cf [c] t) (out_step t)"
proof -
  obtain t1 again where r: "term_out_char cf c t = Some (t1, again)" "byte_step t (t1, again)"
    by (rule satE[OF term_out_char_step[OF assms, of cf]]) auto
  show ?thesis
  proof (cases again)
    case True
    have b: "out_step t t1" "termstate (esc t1) = TOPLEVEL" "utf_state (esc t1) = 0" using r(2) True by (simp_all add: byte_step_def)
    have "sat (term_out_char cf c t1) (byte_step t1)"
      by (rule term_out_char_step[OF out_stepD[OF b(1)]]) (simp add: digit_fits_def b(2))
    then obtain t2 where "term_out_char cf c t1 = Some (t2, False)" "out_step t1 t2"
      by (rule satE) (use b(3) in \<open>auto simp: byte_step_def split: prod.splits\<close>)
    then show ?thesis using r(1) True out_trans[OF b(1)] by simp
  next
    case False
    then show ?thesis using r by (simp add: byte_step_def)
  qed
qed

lemma term_out_loop_Cons: "term_out_loop cf (c # cs) t = do { t' \<leftarrow> term_out_loop cf [c] t; term_out_loop cf cs t' }"
  by (cases "term_out_char cf c t") (auto split: prod.split bind_split)

text \<open>No argument of a control sequence overflows during the run.\<close>

fun numbers_fit :: "config \<Rightarrow> byte list \<Rightarrow> terminal \<Rightarrow> bool" where
  "numbers_fit cf [] t = True"
| "numbers_fit cf (c # cs) t =
     (digit_fits (ucast c) t \<and> (case term_out_loop cf [c] t of None \<Rightarrow> True | Some t' \<Rightarrow> numbers_fit cf cs t'))"

lemma term_out_loop_safe:
  "term_ok t \<Longrightarrow> numbers_fit cf cs t \<Longrightarrow> sat (term_out_loop cf cs t) (out_step t)"
proof (induction cs arbitrary: t)
  case (Cons c cs)
  have f: "digit_fits (ucast c) t" using Cons.prems(2) by simp
  obtain u where u: "term_out_loop cf [c] t = Some u" "out_step t u"
    by (rule satE[OF term_out_byte[OF Cons.prems(1) f]])
  have "numbers_fit cf cs u" using Cons.prems(2) u(1) by (simp del: term_out_loop.simps)
  from sat_mono[OF Cons.IH[OF out_stepD[OF u(2)] this] out_trans[OF u(2)]]
  show ?case unfolding term_out_loop_Cons[of cf c cs] u(1) by simp
qed (simp add: out_step_def)

lemma no_digits_fit:
  "term_ok t \<Longrightarrow> (\<forall>c \<in> set cs. \<not> digit_char (ucast c)) \<Longrightarrow> numbers_fit cf cs t"
proof (induction cs arbitrary: t)
  case (Cons c cs)
  have f: "digit_fits (ucast c) t" using Cons.prems(2) by (simp add: digit_fits_def)
  obtain u where u: "term_out_loop cf [c] t = Some u" "out_step t u"
    by (rule satE[OF term_out_byte[OF Cons.prems(1) f]])
  then show ?case using Cons f by (auto simp: out_step_def simp del: term_out_loop.simps)
qed simp

lemma print_flush_out:
  assumes "term_ok t"
  shows "sat (term_print_flush t) (out_step t)"
proof (rule sat_mono[OF term_print_flush_ok[OF wf_buf[OF assms]]])
  fix t' assume a: "same_but_printer t t' \<and> bufchain_ok (printer_buf (prn t'))"
  then show "out_step t t'"
    using same_printer_ok[OF assms] by (auto simp: out_step_def same_but_printer_def same_size_def)
qed

lemma term_out_defined:
  assumes "term_ok t" "numbers_fit cf cs t"
  shows "sat (term_out cf cs t) (out_step t)"
  unfolding term_out_def
proof (rule sat_bind[OF term_out_loop_safe[OF assms]])
  fix u assume u: "out_step t u"
  show "sat (term_print_flush u) (out_step t)"
    by (rule sat_mono[OF print_flush_out[OF out_stepD[OF u]]]) (rule out_trans[OF u])
qed

end
