(* ===== verification/Term_Life.thy ===== *)
theory Term_Life
  imports Term_Safety
begin

text \<open>
  The beginning of a terminal: \<open>term_init\<close> of \<open>putty/terminal.c\<close> and the first call of
  \<open>term_size\<close>, which allocates the screens.  They establish the invariant that everything the
  host sends then keeps.
\<close>

text \<open>
  The structure before \<open>term_init\<close> is uninitialised memory: every field that the function does
  not set is what was there.  \<open>power_on\<close> is called when there is no screen yet, and the erase
  character is set after it.
\<close>

definition term_init :: "config \<Rightarrow> terminal \<Rightarrow> terminal option" where
  "term_init cf t =
     (let t1 = t\<lparr>esc := (esc t)\<lparr>compatibility_level := TM_PUTTY, id_string := ESC # bytes ''[?6c'', termstate := TOPLEVEL\<rparr>,
                 disp := (disp t)\<lparr>cblink_pending := False, tblink_pending := False, seen_disp := False,
                                  cblinker := False, tblinker := False\<rparr>,
                 prn := (prn t)\<lparr>printer_buf := bufchain_init, printing := False, only_printing := False, print_job := False\<rparr>,
                 mode := (mode t)\<lparr>vt52_mode := False, cr_lf_return := False, reset_132 := False, repeat_off := False\<rparr>,
                 sel := (sel t)\<lparr>selstate := NO_SELECTION\<rparr>,
                 scr := (scr t)\<lparr>screen := [], alt_screen := [], scrollback := [], tempsblines := 0, alt_sblines := 0, disptop := 0\<rparr>,
                 tabs := []\<rparr>;
          t2 = (deselect t1)\<lparr>rows := - 1, columns := - 1\<rparr>
      in do {
        t3 \<leftarrow> power_on cf True t2;
        let e = \<lparr>chr = CSET_ASCII OR 0x20, attr = ATTR_DEFAULT, cc_next = 0\<rparr>;
        Some (t3\<lparr>bel := \<lparr>beeps = [], nbeeps = 0, beep_overloaded = False, lastbeep = 0\<rparr>,
                 disp := (disp t3)\<lparr>window_update_pending := False\<rparr>,
                 sel := (sel t3)\<lparr>hits := []\<rparr>,
                 pen := (pen t3)\<lparr>basic_erase_char := e, erase_char := e\<rparr>\<rparr>) })"

text \<open>The arrays of the structure have their sizes whatever is in them.\<close>

definition sized_memory :: "terminal \<Rightarrow> bool" where
  "sized_memory t \<longleftrightarrow> length (esc_args (esc t)) = ARGS_MAX \<and> length (osc_string (esc t)) = OSC_STR_MAX + 1"

text \<open>The terminal that has been initialised but has no size yet.\<close>

definition unsized :: "terminal \<Rightarrow> bool" where
  "unsized t \<longleftrightarrow>
     rows t = - 1 \<and> columns t = - 1 \<and> tabs t = [] \<and> screen (scr t) = [] \<and> scrollback (scr t) = [] \<and> tempsblines (scr t) = 0
   \<and> curs_x t = 0 \<and> curs_y t = 0 \<and> cset (now t) < 2 \<and> cset (alt t) < 2 \<and> \<not> alt_which (scr t)
   \<and> saved_fits (sav t) \<and> saved_fits (alt_sav t) \<and> good_pen (pen t) \<and> good_esc (esc t) \<and> termstate (esc t) = TOPLEVEL
   \<and> good_sel (sel t) \<and> bufchain_ok (printer_buf (prn t)) \<and> \<not> printing (prn t)"

lemma term_init_unsized:
  assumes "sized_memory t"
  shows "sat (term_init cf t) unsized"
proof -
  have c: "CSET_ASCII OR 0x20 \<noteq> UCSWIDE" by (simp add: CSET_ASCII_def UCSWIDE_def)
  show ?thesis
    using assms attr_default c
    by (simp add: term_init_def Let_def power_on_def term_print_finish_def power_on_state_def power_on_mouse_def
        power_on_half_def power_on_saved_def term_updates deselect_def unsized_def sized_memory_def saved_fits_def good_pen_def
        good_char_def good_esc_def good_sel_def)
qed

lemma unsized_first_row:
  assumes t: "unsized t" and c: "2 \<le> c"
    and u: "u = set_scr (\<lambda>s. s\<lparr>scrollback := [], screen := [], tempsblines := 0\<rparr>)
      (t\<lparr>now := (now t)\<lparr>marg_t := 0, marg_b := r - 1\<rparr>, alt := (alt t)\<lparr>marg_t := 0, marg_b := r - 1\<rparr>, rows := 0\<rparr>)"
  shows "sat (grow_one cf c u) (\<lambda>v. sizing r v \<and> rows v = 1 \<and> esc v = esc t)"
proof -
  have "good_line (newline (erase_char (pen t)) (basic_erase_char (pen t)) (nat c) False)"
    using newline_good(1)[of "erase_char (pen t)" "basic_erase_char (pen t)" "nat c"] t c by (simp add: unsized_def good_pen_def)
  then show ?thesis
    using t by (simp add: u grow_one_def set_scr_def sizing_def unsized_def insert_nth_def half_fits_def)
qed

lemma first_size:
  assumes t: "unsized t" and z: "good_size r0 c n"
  shows "sat (term_size cf r0 c n t) (resized r0 c n t)"
proof -
  define r where "r = (if r0 < 1 then 1 else r0)"
  have r: "1 \<le> r" "r = max 1 r0" "good_size r c n" using z by (auto simp: r_def good_size_def)
  have c: "(if c < 1 then 1 else c) = c" "2 \<le> c" "\<not> (r0 = rows t \<and> c = columns t \<and> n = savelines t)"
    using z t by (auto simp: good_size_def unsized_def)
  have d: "unsized (deselect t)" "esc (deselect t) = esc t"
    using t good_sel_none by (simp_all add: unsized_def deselect_def set_sel_def)
  define t3 where "t3 = set_scr (\<lambda>s. s\<lparr>scrollback := [], screen := [], tempsblines := 0\<rparr>)
    ((deselect t)\<lparr>now := (now (deselect t))\<lparr>marg_t := 0, marg_b := r - 1\<rparr>,
                  alt := (alt (deselect t))\<lparr>marg_t := 0, marg_b := r - 1\<rparr>, rows := 0\<rparr>)"
  obtain u where u: "grow_one cf c t3 = Some u" "sizing r u" "rows u = 1" "esc u = esc t"
    using satE[OF unsized_first_row[OF d(1) c(2) t3_def, of cf]] d(2) by metis
  have k: "nat (r - rows t3) = Suc (nat (r - rows u))" "rows t3 = int (length (screen (scr t3)))"
    "rows u = int (length (screen (scr u)))"
    using r(1) u(2,3) by (auto simp: t3_def set_scr_def sizing_def)
  have "size_rows cf r c t3 = size_rows cf r c u"
    using k by (simp add: size_rows_def u(1))
  then obtain t4 where t4: "size_rows cf r c t3 = Some t4" "sized r u t4" "rows t4 = r"
    using satE[OF size_rows_sized[OF u(2) r(1) c(2), of cf]] by metis
  have s: "swap_screen cf False False False (deselect t) = Some (deselect t)"
    using d(1) by (simp add: swap_screen_def unsized_def)
  have "rows (deselect t) = - 1" using d(1) by (simp add: unsized_def)
  then have "term_size cf r0 c n t = size_rest cf r c n (alt_which (scr t)) t4"
    unfolding term_size_def Let_def if_not_P[OF c(3)] r_def[symmetric] c(1) s Option.bind_lunit
    using t4(1) by (simp add: t3_def)
  then show ?thesis
    using size_rest_resized[of r t4 c n cf "alt_which (scr t)"] t4 r u(4) by (auto simp: sized_def resized_def elim!: sat_mono)
qed

lemma term_starts:
  assumes "sized_memory t0" "good_size r c n"
  shows "sat (do { t \<leftarrow> term_init cf t0; term_size cf r c n t })
    (\<lambda>t. term_ok t \<and> rows t = max 1 r \<and> columns t = c \<and> termstate (esc t) = TOPLEVEL)"
proof (rule sat_bind[OF term_init_unsized[OF assms(1)]])
  fix u assume u: "unsized u"
  show "sat (term_size cf r c n u) (\<lambda>t. term_ok t \<and> rows t = max 1 r \<and> columns t = c \<and> termstate (esc t) = TOPLEVEL)"
    by (rule sat_mono[OF first_size[OF u assms(2)]]) (use u in \<open>auto simp: resized_def unsized_def\<close>)
qed

end
