(* ===== verification/Term_Sample.thy ===== *)
theory Term_Sample
  imports Term_Life
begin

text \<open>
  A concrete configuration and concrete terminals, at which the properties of the terminal are
  instantiated: the structure as memory before \<open>term_init\<close>, and a blank screen of any size.
\<close>

definition blank :: termchar where
  "blank = \<lparr>chr = CSET_ASCII OR 0x20, attr = ATTR_DEFAULT, cc_next = 0\<rparr>"

definition sample_config :: config where
  "sample_config = \<lparr>answerback = bytes ''PuTTY'', beep = 1, bellovl = True, bellovl_n = 5, bellovl_s = 5000, bellovl_t = 2000,
     blink_cur = False, blinktext = False, cjk_ambig_wide = False, conf_height = 24, conf_width = 80, crhaslf = False,
     erase_to_scrollback = True, lfhascr = False, no_alt_screen = False, no_dbackspace = False, no_remote_charset = False,
     no_remote_resize = False, no_remote_wintitle = False, remote_qtitle_action = 1, scroll_on_disp = False,
     cfg_no_remote_tabname = False, cfg_dec_om = False, cfg_wrap_mode = True, cfg_app_cursor = False, cfg_app_keypad = False,
     cfg_bce = True, cfg_wordness = (\<lambda>_. 0), cfg_printer = [], has_ldisc = True, has_focus = True, has_resize_fn = True,
     controller_active = True, has_context = True, line_codepage_utf8 = True, unitab_ctrl = (\<lambda>c. if c < 0x20 \<or> (0x7F \<le> c \<and> c < 0xA0) then c else 0xFF),
     is_iconic = False, window_pos = (0, 0), window_pixels = (640, 384), window_title = (\<lambda>_. []), cursorblink = 500,
     junk = (\<lambda>_. blank)\<rparr>"

definition sample_half :: "int \<Rightarrow> half" where
  "sample_half r = \<lparr>curs = \<lparr>py = 0, px = 0\<rparr>, marg_t = 0, marg_b = r - 1, dec_om = False, wrap = True, wrapnext = False,
     insert_mode = False, cset = 0, utf = True, sco_acs = 0\<rparr>"

definition sample_saved :: saved where
  "sample_saved = \<lparr>savecurs = \<lparr>py = 0, px = 0\<rparr>, save_attr = ATTR_DEFAULT, save_cset = 0, save_csattr = CSET_ASCII,
     save_utf = False, save_wnext = False, save_sco_acs = 0\<rparr>"

definition sample_lines :: "int \<Rightarrow> int \<Rightarrow> termline list" where
  "sample_lines r c = replicate (nat r) (newline blank blank (nat c) False)"

definition sample_terminal :: "int \<Rightarrow> int \<Rightarrow> int \<Rightarrow> terminal" where
  "sample_terminal r c n = \<lparr>rows = r, columns = c, savelines = n, tabs = replicate (nat c) False,
     now = sample_half r, alt = sample_half r, sav = sample_saved, alt_sav = sample_saved,
     scr = \<lparr>screen = sample_lines r c, alt_screen = sample_lines r c, scrollback = [], tempsblines = 0, alt_sblines = 0,
            disptop = 0, alt_which = False, scroll_to_end = True\<rparr>,
     pen = \<lparr>default_attr = ATTR_DEFAULT, curr_attr = ATTR_DEFAULT, basic_erase_char = blank, erase_char = blank,
            cset_attr = [CSET_ASCII, CSET_ASCII], use_bce = True\<rparr>,
     esc = \<lparr>termstate = TOPLEVEL, esc_args = replicate ARGS_MAX 0, esc_nargs = 0, esc_query = 0,
            osc_string = replicate (OSC_STR_MAX + 1) 0, osc_strlen = 0, osc_w = False, utf_state = 0, utf_char = 0, utf_size = 0,
            compatibility_level = TM_PUTTY, id_string = ESC # bytes ''[?6c''\<rparr>,
     mode = \<lparr>app_cursor_keys = False, app_keypad_keys = False, vt52_mode = False, vt52_bold = False, repeat_off = False,
             cr_lf_return = False, term_echoing = False, term_editing = False, reset_132 = False, xterm_mouse = 0,
             xterm_extended_mouse = False, urxvt_extended_mouse = False, bracketed_paste = False\<rparr>,
     sel = \<lparr>selstate = NO_SELECTION, selstart = \<lparr>py = 0, px = 0\<rparr>, selend = \<lparr>py = 0, px = 0\<rparr>, selanchor = \<lparr>py = 0, px = 0\<rparr>,
            hits = [], wordness = (\<lambda>_. 0)\<rparr>,
     disp = \<lparr>rvideo = False, rvbell_startpoint = 0, in_vbell = False, vbell_end = 0, cursor_on = True, big_cursor = False,
             blink_is_real = False, tblinker = False, tblink_pending = False, next_tblink = 0, cblinker = False,
             cblink_pending = False, next_cblink = 0, seen_disp = False, window_update_pending = False, next_update = 0\<rparr>,
     bel = \<lparr>beeps = [], nbeeps = 0, beep_overloaded = False, lastbeep = 0\<rparr>,
     prn = \<lparr>printing = False, only_printing = False, print_stage = 0, printer_buf = bufchain_init, print_job = False\<rparr>,
     ticks = 0, events = []\<rparr>"

lemma blank_good: "good_char blank"
  using attr_default by (simp add: good_char_def blank_def CSET_ASCII_def UCSWIDE_def)

lemma sample_sized: "sized_memory (sample_terminal r c n)"
  by (simp add: sized_memory_def sample_terminal_def)

lemma sample_ok:
  assumes "1 \<le> r" "r < 0x80000000" "2 \<le> c" "c < 0x80000000" "0 \<le> n"
  shows "term_ok (sample_terminal r c n)"
proof -
  have l: "good_line (newline blank blank (nat c) False)"
    using newline_good(1)[of blank blank "nat c"] blank_good assms by simp
  show ?thesis
    using assms l blank_good attr_default
    by (simp add: term_ok_def sample_terminal_def sample_half_def sample_saved_def sample_lines_def good_half_def good_saved_def
        good_scr_def good_pen_def good_esc_def good_sel_def)
qed

end
