(* ===== verification/Term_Parse.thy ===== *)
theory Term_Parse
  imports Term_Sample
begin

text \<open>
  Control sequences as a whole: \<open>term_out\<close> reads the decimal arguments of \<open>ESC [ a ; b ; \<dots> c\<close>
  and runs the operation of the final character on them.  The numbers are the values of the
  digits modulo \<open>2 ^ 32\<close>, as an \<open>int\<close> holds them.
\<close>

section \<open>Steps of the parser\<close>

text \<open>Between sequences and characters, with the printer off.\<close>

definition listening :: "config \<Rightarrow> terminal \<Rightarrow> bool" where
  "listening cf t \<longleftrightarrow>
     termstate (esc t) = TOPLEVEL \<and> utf_state (esc t) = 0 \<and> \<not> printing (prn t) \<and> \<not> vt52_mode (mode t)
   \<and> has_compat CL_ANSIMIN t \<and> unitab_ctrl cf 0x1B = 0x1B \<and> bufchain_size (printer_buf (prn t)) \<le> 5"

text \<open>The parser with the arguments \<open>as\<close> read so far.\<close>

definition in_csi :: "int list \<Rightarrow> terminal \<Rightarrow> terminal" where
  "in_csi as t = set_esc (\<lambda>p. p\<lparr>termstate := SEEN_CSI, esc_args := as @ drop (length as) (esc_args p),
                              esc_nargs := length as, esc_query := 0\<rparr>) t"

lemma check_cursor_esc [simp]:
  "check_cursor_selection (set_esc f t) = set_esc f (check_cursor_selection t)"
  "check_cursor_selection (in_csi as t) = in_csi as (check_cursor_selection t)"
  by (simp_all add: check_cursor_selection_def check_selection_def deselect_def set_esc_def set_sel_def in_csi_def)

lemma check_cursor_idem [simp]: "check_cursor_selection (check_cursor_selection t) = check_cursor_selection t"
  by (simp add: check_cursor_selection_def check_selection_def deselect_def set_sel_def)

lemma check_cursor_fields [simp]:
  "esc (check_cursor_selection t) = esc t" "prn (check_cursor_selection t) = prn t" "mode (check_cursor_selection t) = mode t"
  "now (check_cursor_selection t) = now t" "scr (check_cursor_selection t) = scr t" "pen (check_cursor_selection t) = pen t"
  "rows (check_cursor_selection t) = rows t" "columns (check_cursor_selection t) = columns t"
  "events (check_cursor_selection t) = events t" "savelines (check_cursor_selection t) = savelines t"
  by (simp_all add: check_cursor_selection_def check_selection_def deselect_def set_sel_def)

lemma out_step_byte:
  assumes "\<not> printing (prn t)" "termstate (esc t) \<noteq> TOPLEVEL"
  shows "term_out_loop cf (b # bs) t = do { t' \<leftarrow> process_char cf (ucast b) t; term_out_loop cf bs t' }"
  using assms by (cases "process_char cf (ucast b) t") (simp_all add: term_out_char_def print_byte_def translate_def)

lemma not_c1: "(c :: 32 word) < 0x80 \<Longrightarrow> c AND 0xFFFFFFE0 \<noteq> 0x80"
  using word_and_le2[of c "0xFFFFFFE0"] by (auto simp: word_le_def word_less_def)

lemma not_c0: "0x20 \<le> (c :: 32 word) \<Longrightarrow> c AND NOT 0x1F \<noteq> 0"
proof
  assume c: "0x20 \<le> c" "c AND NOT 0x1F = 0"
  have "(c AND m) OR (c AND NOT m) = c" for m by (rule bit_word_eqI) (auto simp: bit_and_iff bit_or_iff bit_not_iff)
  from this[of "0x1F"] have "c = c AND 0x1F" using c(2) by simp
  then have "c \<le> 0x1F" using word_and_le1[of c "0x1F"] by metis
  then show False using c(1) by (auto simp: word_le_def)
qed

lemma csi_char_step:
  assumes "termstate (esc t) = SEEN_CSI" "0x20 \<le> c" "c < 0x7F"
  shows "process_char cf c t = map_option check_cursor_selection (csi_char cf c t)"
proof -
  have "c < 0x80" "c \<noteq> 0x7F" using assms(3) by (auto simp: word_less_def)
  then show ?thesis
    using assms not_c1 not_c0
    by (cases "csi_char cf c t") (simp_all add: process_char_def c1_control_def dispatch_def Let_def)
qed

lemma escape_start:
  assumes "listening cf t" "length (esc_args (esc t)) = ARGS_MAX"
  shows "term_out_loop cf (0x1B # of_char CHR ''['' # bs) t = term_out_loop cf bs (in_csi [0] (check_cursor_selection t))"
proof -
  define t1 where "t1 = set_esc (\<lambda>p. p\<lparr>termstate := SEEN_ESC, esc_query := 0\<rparr>) (check_cursor_selection t)"
  have e: "translate cf 0x1B t = Char 0x1B t"
    using assms by (auto simp: listening_def translate_def decode_utf8_def decode_cset_def ascii_char_def Let_def)
  have p: "process_char cf 0x1B t = Some t1"
    using assms(1) by (simp add: process_char_def c1_control_def dispatch_def below_ctrls_def c0_control_def compatibility_def
        listening_def t1_def)
  have s: "\<not> printing (prn t1)" "termstate (esc t1) \<noteq> TOPLEVEL" "length (esc_args (esc t1)) = ARGS_MAX"
    using assms by (simp_all add: t1_def set_esc_def listening_def)
  have x: "esc_char cf 0x5B t1 = Some (in_csi [0] (check_cursor_selection t))"
    using s(3) by (cases "esc_args (esc t)")
      (simp_all add: t1_def set_esc_def esc_char_def esc_plain_def ANSI_def set_state_def in_csi_def ARGS_MAX_def)
  have "termstate (esc t1) = SEEN_ESC" by (simp add: t1_def set_esc_def)
  then have q: "process_char cf 0x5B t1 = Some (in_csi [0] (check_cursor_selection t))"
    using x by (simp add: process_char_def c1_control_def dispatch_def)
  have "term_out_loop cf (0x1B # bs') t = term_out_loop cf bs' t1" for bs'
    using e p assms(1) by (simp add: term_out_char_def print_byte_def listening_def)
  then show ?thesis using out_step_byte[OF s(1,2), of cf "0x5B" bs] q by simp
qed

section \<open>Arguments\<close>

lemma in_csi_state [simp]:
  "termstate (esc (in_csi as t)) = SEEN_CSI" "prn (in_csi as t) = prn t" "esc_nargs (esc (in_csi as t)) = length as"
  "length (esc_args (esc (in_csi as t))) = length as + (length (esc_args (esc t)) - length as)"
  by (simp_all add: in_csi_def set_esc_def)

text \<open>What the control character \<open>c\<close> does to the terminal whose parser is in a sequence.\<close>

lemma in_csi_byte:
  assumes "\<not> printing (prn t)" "0x20 \<le> c" "c < 0x7F" "csi_char cf c (in_csi as t) = Some (in_csi bs t)" "c = ucast b"
  shows "term_out_loop cf (b # cs) (in_csi as t) = term_out_loop cf cs (in_csi bs (check_cursor_selection t))"
  using out_step_byte[of "in_csi as t" cf b cs] csi_char_step[of "in_csi as t" c cf] assms by simp

lemma wrap32_more: "wrap32 (10 * wrap32 x + d) = wrap32 (10 * x + d)"
proof -
  define q where "q = - ((x + 0x80000000) div 0x100000000)"
  have q: "(x + 0x80000000) mod 0x100000000 = x + 0x80000000 + 0x100000000 * q"
    using minus_mult_div_eq_mod[of "x + 0x80000000" "0x100000000"] unfolding q_def by linarith
  have e: "10 * wrap32 x + d + 0x80000000 = 10 * x + d + 0x80000000 + 0x100000000 * (10 * q)"
    by (simp add: wrap32_def q)
  have "(10 * wrap32 x + d + 0x80000000) mod 0x100000000 = (10 * x + d + 0x80000000) mod 0x100000000"
    unfolding e by (rule mod_mult_self2)
  then show ?thesis by (simp only: wrap32_def[of "10 * wrap32 x + d"] wrap32_def[of "10 * x + d"])
qed

lemma digit_byte:
  assumes "d < 10"
  shows "uint (of_nat (48 + d) :: 32 word) = 48 + int d" "ucast (of_nat (48 + d) :: byte) = (of_nat (48 + d) :: 32 word)"
  using assms by (simp_all add: word_uint_eq_iff unsigned_of_nat unsigned_ucast_eq take_bit_eq_mod of_nat_mod flip: of_nat_add)

lemma digit_step:
  assumes d: "d < 10" and n: "length as < ARGS_MAX" "length (esc_args (esc t)) = ARGS_MAX"
  shows "csi_char cf (of_nat (48 + d)) (in_csi (as @ [v]) t) = Some (in_csi (as @ [wrap32 (10 * v + int d)]) t)"
proof -
  let ?c = "of_nat (48 + d) :: 32 word"
  have c: "?c \<ge> K CHR ''0'' \<and> ?c \<le> K CHR ''9''" using digit_byte(1)[OF d] d by (simp add: word_le_def)
  have "csi_char cf ?c (in_csi (as @ [v]) t) = csi_digit ?c (set_state TOPLEVEL (in_csi (as @ [v]) t))"
    unfolding csi_char_def Let_def using c by (simp only: simp_thms if_True)
  also have "\<dots> = Some (in_csi (as @ [wrap32 (10 * v + int d)]) t)"
    using n digit_byte(1)[OF d] by (simp add: csi_digit_def Let_def in_csi_def set_esc_def set_state_def nth_append)
  finally show ?thesis .
qed

lemma semicolon_step:
  assumes "length as < ARGS_MAX" "length (esc_args (esc t)) = ARGS_MAX"
  shows "csi_char cf (K CHR '';'') (in_csi as t) = Some (in_csi (as @ [0]) t)"
proof -
  have "csi_char cf (K CHR '';'') (in_csi as t) = Some (csi_semicolon (set_state TOPLEVEL (in_csi as t)))"
    by (simp add: csi_char_def Let_def)
  moreover have "(drop (length as) xs)[0 := 0] = 0 # drop (Suc (length as)) xs" if "length xs = ARGS_MAX" for xs :: "int list"
    using that assms(1) by (metis Cons_nth_drop_Suc list_update_code(2))
  ultimately show ?thesis
    using assms by (simp add: csi_semicolon_def in_csi_def set_esc_def set_state_def list_update_append)
qed

lemma csi_number:
  assumes "\<not> printing (prn t)" "length as < ARGS_MAX" "length (esc_args (esc t)) = ARGS_MAX"
  shows "term_out_loop cf (dec_nat n @ bs) (in_csi (as @ [0]) t)
    = term_out_loop cf bs (in_csi (as @ [wrap32 (int n)]) (check_cursor_selection t))"
  using assms
proof (induction n arbitrary: bs rule: dec_nat.induct)
  case (1 n)
  have one: "term_out_loop cf (of_nat (48 + d) # bs) (in_csi (as @ [v]) u)
      = term_out_loop cf bs (in_csi (as @ [wrap32 (10 * v + int d)]) (check_cursor_selection u))"
    if "d < 10" "\<not> printing (prn u)" "length (esc_args (esc u)) = ARGS_MAX" for d v u bs
    using in_csi_byte[OF that(2) _ _ digit_step[OF that(1) "1.prems"(2) that(3)] digit_byte(2)[OF that(1), symmetric]]
      digit_byte(1)[OF that(1)] that(1) by (simp add: word_le_def word_less_def)
  show ?case
  proof (cases "n < 10")
    case True
    then show ?thesis using one[OF True "1.prems"(1,3), of bs 0] by (simp add: dec_nat.simps[of n] del: term_out_loop.simps)
  next
    case False
    have "10 * int (n div 10) + int (n mod 10) = int n" using mult_div_mod_eq[of 10 n] by linarith
    then show ?thesis
      using "1.IH"[OF False "1.prems", of "of_nat (48 + n mod 10) # bs"]
        one[of "n mod 10" "check_cursor_selection t" bs "wrap32 (int (n div 10))"] "1.prems" False
      by (simp add: dec_nat.simps[of n] wrap32_more del: term_out_loop.simps)
  qed
qed

lemma csi_numbers:
  assumes "\<not> printing (prn t)" "length as + length ns \<le> ARGS_MAX" "length (esc_args (esc t)) = ARGS_MAX" "ns \<noteq> []"
  shows "term_out_loop cf (id_args (map int ns) @ bs) (in_csi (as @ [0]) t)
    = term_out_loop cf bs (in_csi (as @ map (wrap32 \<circ> int) ns) (check_cursor_selection t))"
  using assms
proof (induction ns arbitrary: as t)
  case (Cons n ns)
  show ?case
  proof (cases ns)
    case Nil
    then show ?thesis using csi_number[of t as cf n bs] Cons.prems by (simp add: dec_def del: term_out_loop.simps)
  next
    case (Cons m ms)
    have s: "term_out_loop cf (of_char CHR '';'' # xs) (in_csi (as @ [wrap32 (int n)]) (check_cursor_selection t))
        = term_out_loop cf xs (in_csi ((as @ [wrap32 (int n)]) @ [0]) (check_cursor_selection t))" for xs
      using in_csi_byte[OF _ _ _ semicolon_step[of "as @ [wrap32 (int n)]" "check_cursor_selection t" cf], of "of_char CHR '';''" xs]
        Cons.prems \<open>ns = m # ms\<close> by (simp del: term_out_loop.simps)
    show ?thesis
      using csi_number[of t as cf n] Cons.IH[of "check_cursor_selection t" "as @ [wrap32 (int n)]"] Cons.prems \<open>ns = m # ms\<close> s
      by (simp add: dec_def bytes_def del: term_out_loop.simps)
  qed
qed simp

section \<open>Whole sequences\<close>

definition csi_bytes :: "nat list \<Rightarrow> byte \<Rightarrow> byte list" where
  "csi_bytes ns c = ESC # of_char CHR ''['' # id_args (map int ns) @ [c]"

text \<open>The terminal on which the operation of the final character runs.\<close>

definition with_args :: "nat list \<Rightarrow> terminal \<Rightarrow> terminal" where
  "with_args ns t = set_state TOPLEVEL (in_csi (map (wrap32 \<circ> int) ns) (check_cursor_selection t))"

lemma with_args_fields [simp]:
  "prn (with_args ns t) = prn t" "mode (with_args ns t) = mode t" "now (with_args ns t) = now t" "scr (with_args ns t) = scr t"
  "pen (with_args ns t) = pen t" "rows (with_args ns t) = rows t" "columns (with_args ns t) = columns t"
  "events (with_args ns t) = events t" "savelines (with_args ns t) = savelines t"
  "termstate (esc (with_args ns t)) = TOPLEVEL" "utf_state (esc (with_args ns t)) = utf_state (esc t)"
  "compatibility_level (esc (with_args ns t)) = compatibility_level (esc t)" "esc_nargs (esc (with_args ns t)) = length ns"
  "esc_query (esc (with_args ns t)) = 0"
  by (simp_all add: with_args_def set_state_def set_esc_def in_csi_def)

lemma with_args_arg: "i < length ns \<Longrightarrow> arg i (with_args ns t) = wrap32 (int (ns ! i))"
  by (simp add: arg_def with_args_def set_state_def set_esc_def in_csi_def nth_append)

lemma with_args_list: "length (esc_args (esc t)) = ARGS_MAX \<Longrightarrow> length ns \<le> ARGS_MAX \<Longrightarrow> length (esc_args (esc (with_args ns t))) = ARGS_MAX"
  by (simp add: with_args_def set_state_def set_esc_def in_csi_def)

lemma ANSI_plain: "ANSI c 0 = c"
  by (simp add: ANSI_def)

lemma byte_range:
  fixes b :: byte
  shows "0x40 \<le> b \<Longrightarrow> 0x40 \<le> (ucast b :: 32 word)" "b < 0x7F \<Longrightarrow> (ucast b :: 32 word) < 0x7F"
proof -
  have "uint (ucast b :: 32 word) = uint b"
    using unsigned_less[where w = b and 'a = int] by (simp add: unsigned_ucast_eq take_bit_eq_mod)
  then show "0x40 \<le> b \<Longrightarrow> 0x40 \<le> (ucast b :: 32 word)" "b < 0x7F \<Longrightarrow> (ucast b :: 32 word) < 0x7F"
    by (simp_all add: word_le_def word_less_def)
qed

lemma csi_sequence:
  assumes t: "listening cf t" "length (esc_args (esc t)) = ARGS_MAX"
    and n: "ns \<noteq> []" "length ns \<le> ARGS_MAX" and c: "0x40 \<le> c" "c < 0x7F"
  shows "term_out_loop cf (csi_bytes ns c @ bs) t
    = do { u \<leftarrow> csi_final cf (ucast c) (with_args ns t); term_out_loop cf bs (check_cursor_selection u) }"
proof -
  let ?c = "ucast c :: 32 word" and ?t = "check_cursor_selection t"
  note r = byte_range(1)[OF c(1)] byte_range(2)[OF c(2)]
  have f: "csi_char cf ?c (in_csi (map (wrap32 \<circ> int) ns) ?t) = csi_final cf ?c (with_args ns t)"
  proof -
    have "\<not> (?c \<ge> K CHR ''0'' \<and> ?c \<le> K CHR ''9'')" "?c \<noteq> K CHR '';''" "\<not> ?c < K CHR ''@''"
      using r(1) by (auto simp: word_le_def word_less_def)
    moreover have "esc_query (esc (set_state TOPLEVEL (in_csi (map (wrap32 \<circ> int) ns) ?t))) = 0"
      by (simp add: set_state_def set_esc_def in_csi_def)
    ultimately show ?thesis unfolding csi_char_def Let_def with_args_def by (auto simp: ANSI_plain)
  qed
  have l: "term_out_loop cf (c # bs) (in_csi (map (wrap32 \<circ> int) ns) ?t)
      = do { u \<leftarrow> csi_final cf ?c (with_args ns t); term_out_loop cf bs (check_cursor_selection u) }"
  proof -
    have "0x20 \<le> ?c" using r(1) by (auto simp: word_le_def)
    then show ?thesis
      using out_step_byte[of "in_csi (map (wrap32 \<circ> int) ns) ?t" cf c bs] csi_char_step[of "in_csi (map (wrap32 \<circ> int) ns) ?t" ?c cf] r(2) f t(1)
      by (cases "csi_final cf ?c (with_args ns t)") (simp_all add: listening_def del: term_out_loop.simps)
  qed
  show ?thesis
    using escape_start[OF t, of "id_args (map int ns) @ c # bs"] csi_numbers[of "?t" "[]" ns cf "c # bs"] t n l
    by (simp add: csi_bytes_def ESC_def listening_def del: term_out_loop.simps)
qed

lemma no_flush: "bufchain_size (printer_buf (prn t)) \<le> 5 \<Longrightarrow> term_print_flush t = Some t"
  by (simp add: term_print_flush_def print_flush_loop.simps)

lemma wrap32_nat: "n < 0x80000000 \<Longrightarrow> wrap32 (int n) = int n"
  by (simp add: wrap32_def)

lemma sample_listening: "listening sample_config (sample_terminal r c n)"
  by (simp add: listening_def sample_terminal_def sample_config_def has_compat_def CL_ANSIMIN_def TM_PUTTY_def
      bufchain_init_def bufchain_size_def)

end
