(* ===== verification/Term_Props.thy ===== *)
theory Term_Props
  imports Term_Parse
begin

text \<open>
  Properties of the terminal as a whole: whole sessions are safe, control sequences reach
  their operations with the numbers that were written, positions are reported as they were
  set, and the number that overflows.
\<close>

section \<open>Sessions\<close>

text \<open>What the environment does to a terminal: the host sends bytes, the user resizes the window.\<close>

datatype input = From_host "byte list" | Resize int int int

fun respond :: "config \<Rightarrow> input \<Rightarrow> terminal \<Rightarrow> terminal option" where
  "respond cf (From_host bs) t = term_out cf bs t"
| "respond cf (Resize r c n) t = term_size cf r c n t"

fun session :: "config \<Rightarrow> input list \<Rightarrow> terminal \<Rightarrow> terminal option" where
  "session cf [] t = Some t"
| "session cf (i # is) t = do { t' \<leftarrow> respond cf i t; session cf is t' }"

fun input_fits :: "config \<Rightarrow> input \<Rightarrow> terminal \<Rightarrow> bool" where
  "input_fits cf (From_host bs) t = numbers_fit cf bs t"
| "input_fits cf (Resize r c n) t = good_size r c n"

fun session_fits :: "config \<Rightarrow> input list \<Rightarrow> terminal \<Rightarrow> bool" where
  "session_fits cf [] t = True"
| "session_fits cf (i # is) t =
     (input_fits cf i t \<and> (case respond cf i t of None \<Rightarrow> True | Some t' \<Rightarrow> session_fits cf is t'))"

lemma respond_ok: "term_ok t \<Longrightarrow> input_fits cf i t \<Longrightarrow> sat (respond cf i t) term_ok"
proof (cases i)
  case (From_host bs)
  assume "term_ok t" "input_fits cf i t"
  then show ?thesis using sat_mono[OF term_out_defined[of t cf bs] out_stepD] From_host by simp
next
  case (Resize r c n)
  assume "term_ok t" "input_fits cf i t"
  then show ?thesis using Resize term_size_resized[of t r c n cf] by (auto simp: resized_def elim!: sat_mono)
qed

lemma session_ok: "term_ok t \<Longrightarrow> session_fits cf is t \<Longrightarrow> sat (session cf is t) term_ok"
proof (induction "is" arbitrary: t)
  case (Cons i "is")
  obtain u where u: "respond cf i t = Some u" "term_ok u"
    by (rule satE[OF respond_ok[of t cf i]]) (use Cons.prems in auto)
  then show ?case using Cons by simp
qed simp

text \<open>Bytes that are no digits, and sizes in range, always fit.\<close>

fun plain_input :: "input \<Rightarrow> bool" where
  "plain_input (From_host bs) \<longleftrightarrow> (\<forall>c\<in>set bs. \<not> digit_char (ucast c))"
| "plain_input (Resize r c n) \<longleftrightarrow> good_size r c n"

lemma plain_session_fits: "term_ok t \<Longrightarrow> \<forall>i\<in>set is. plain_input i \<Longrightarrow> session_fits cf is t"
proof (induction "is" arbitrary: t)
  case (Cons i "is")
  have f: "input_fits cf i t" using Cons.prems no_digits_fit[of t] by (cases i) auto
  obtain u where u: "respond cf i t = Some u" "term_ok u"
    by (rule satE[OF respond_ok[OF Cons.prems(1) f]])
  then show ?case using Cons f by simp
qed simp

text \<open>
  Claim C1: a session never leaves the safe states.  Whatever the memory of the structure holds
  before \<open>term_init\<close>, a terminal of any size with at least two columns comes up in a well-formed
  state, and every sequence of blocks of arbitrary bytes from the host and of changes of the
  window size in range is processed without a failed assertion or an access outside a line, a
  screen, the scrollback, the arguments or the string of a sequence, and ends in a well-formed
  state again, provided that no argument of a control sequence grows beyond an \<open>int\<close>.
\<close>

theorem term_session_safe:
  assumes "sized_memory t0" "good_size r c n"
    and "\<And>t. term_ok t \<Longrightarrow> rows t = max 1 r \<Longrightarrow> columns t = c \<Longrightarrow> termstate (esc t) = TOPLEVEL \<Longrightarrow> session_fits cf is t"
  shows "\<exists>t t'. do { u \<leftarrow> term_init cf t0; term_size cf r c n u } = Some t \<and> rows t = max 1 r \<and> columns t = c
    \<and> session cf is t = Some t' \<and> term_ok t'"
proof -
  obtain t where t: "do { u \<leftarrow> term_init cf t0; term_size cf r c n u } = Some t"
    "term_ok t \<and> rows t = max 1 r \<and> columns t = c \<and> termstate (esc t) = TOPLEVEL"
    by (rule satE[OF term_starts[OF assms(1,2), of cf]])
  obtain t' where "session cf is t = Some t'" "term_ok t'"
    by (rule satE[OF session_ok[of t cf "is"]]) (use t(2) assms(3) in auto)
  then show ?thesis using t by blast
qed

theorem term_session_safe_witness:
  "\<exists>t t'. do { u \<leftarrow> term_init sample_config (sample_terminal 24 80 200); term_size sample_config 24 80 200 u } = Some t
    \<and> rows t = max 1 24 \<and> columns t = 80
    \<and> session sample_config [From_host [0x68, 0x69, 0x0D, 0x0A, 0x1B, 0x4D, 0xE2, 0x82], Resize 50 132 200,
        From_host [0xAC, 0x1B, 0x5B, 0x48, 0x1B, 0x63]] t = Some t' \<and> term_ok t'"
  by (rule term_session_safe[OF sample_sized _ plain_session_fits]) (auto simp: good_size_def digit_char_def)

section \<open>Control sequences\<close>

lemma csi_arguments:
  assumes t: "term_ok t" "listening cf t" and n: "ns \<noteq> []" "length ns \<le> ARGS_MAX" and c: "0x40 \<le> c" "c < 0x7F"
  shows "term_out_loop cf (csi_bytes ns c @ bs) t
    = do { u \<leftarrow> csi_final cf (ucast c) (with_args ns t); term_out_loop cf bs (check_cursor_selection u) }"
  using csi_sequence[OF t(2) _ n c] wf_esc[OF t(1)] by (simp add: good_esc_def)

lemma args_ok: "term_ok t \<Longrightarrow> length (esc_args (esc t)) = ARGS_MAX"
  using wf_esc[of t] by (simp add: good_esc_def)

text \<open>
  Claim C4: a control sequence reaches its operation with the numbers that were written.  For
  every list of one to 32 numbers, however large, and every final character, \<open>term_out\<close> of
  \<open>ESC [\<close>, the decimal forms separated by semicolons and the character, on a terminal that is
  not in a sequence, runs exactly the operation of that character; the argument list then holds
  the numbers in order, each as the \<open>int\<close> that it is modulo \<open>2 ^ 32\<close>, without a private marker,
  and the screen and the cursor are untouched until then.
\<close>

theorem csi_arguments_parsed:
  assumes "term_ok t" "listening cf t" "ns \<noteq> []" "length ns \<le> 32" "0x40 \<le> c" "c < 0x7F"
  shows "\<exists>u. term_out_loop cf (csi_bytes ns c) t = map_option check_cursor_selection (csi_final cf (ucast c) u)
    \<and> take (esc_nargs (esc u)) (esc_args (esc u)) = map (\<lambda>n. wrap32 (int n)) ns \<and> esc_nargs (esc u) = length ns
    \<and> esc_query (esc u) = 0 \<and> termstate (esc u) = TOPLEVEL \<and> scr u = scr t \<and> now u = now t \<and> events u = events t"
proof -
  have "take (length ns) (esc_args (esc (with_args ns t))) = map (\<lambda>n. wrap32 (int n)) ns"
    by (simp add: with_args_def set_state_def set_esc_def in_csi_def comp_def)
  moreover have "term_out_loop cf (csi_bytes ns c) t = map_option check_cursor_selection (csi_final cf (ucast c) (with_args ns t))"
    using csi_arguments[of t cf ns c "[]"] assms by (cases "csi_final cf (ucast c) (with_args ns t)") (simp_all add: ARGS_MAX_def)
  ultimately show ?thesis by (intro exI[of _ "with_args ns t"]) simp
qed

theorem csi_arguments_parsed_witness:
  "\<exists>u. term_out_loop sample_config (csi_bytes [0, 12, 4294967295] (of_char CHR ''m'')) (sample_terminal 24 80 0)
      = map_option check_cursor_selection (csi_final sample_config (ucast (of_char CHR ''m'' :: byte)) u)
    \<and> take (esc_nargs (esc u)) (esc_args (esc u)) = map (\<lambda>n. wrap32 (int n)) [0, 12, 4294967295]
    \<and> esc_nargs (esc u) = length [0 :: nat, 12, 4294967295]
    \<and> esc_query (esc u) = 0 \<and> termstate (esc u) = TOPLEVEL \<and> scr u = scr (sample_terminal 24 80 0)
    \<and> now u = now (sample_terminal 24 80 0) \<and> events u = events (sample_terminal 24 80 0)"
  by (rule csi_arguments_parsed) (use sample_ok sample_listening in simp_all)

section \<open>Positions\<close>

lemma listening_cong:
  "esc u = esc t \<Longrightarrow> prn u = prn t \<Longrightarrow> mode u = mode t \<Longrightarrow> listening cf u = listening cf t"
  by (simp add: listening_def has_compat_def)

lemma listening_args: "listening cf t \<Longrightarrow> listening cf (with_args ns t)"
  by (simp add: listening_def has_compat_def)

text \<open>The line or column that a number selects on a screen of \<open>n\<close> of them.\<close>

definition clamped :: "nat \<Rightarrow> int \<Rightarrow> int" where
  "clamped k n = min (max 1 (int k)) n"

lemma cursor_sequence:
  assumes "\<not> dec_om (now t)" "r < 0x80000000" "c < 0x80000000"
  shows "csi_final cf (ucast (of_char CHR ''H'' :: byte)) (with_args [r, c] t)
    = Some (seen_disp_event (move (wrap32 (def_arg (int c) 1 - 1)) (wrap32 (def_arg (int r) 1 - 1)) 0 (with_args [r, c] t)))"
  using assms by (simp add: csi_final_def csi_cursor_def Let_def move_seen_def origin_def with_args_arg wrap32_nat)

lemma move_clamps:
  assumes n: "1 \<le> rows t" "1 \<le> columns t" and rc: "r < 0x80000000" "c < 0x80000000"
  shows "move (wrap32 (def_arg (int c) 1 - 1)) (wrap32 (def_arg (int r) 1 - 1)) 0 t
    = set_wrapnext False (set_curs (clamped c (columns t) - 1) (clamped r (rows t) - 1) t)"
proof -
  have w: "wrap32 (def_arg (int k) 1 - 1) = max 1 (int k) - 1" if "k < 0x80000000" for k
    using that by (simp add: wrap32_def def_arg_def)
  have clip: "(if (if v < 0 then 0 else v) \<ge> n then n - 1 else (if v < 0 then 0 else v)) = clamped k n - 1"
    if "v = max 1 (int k) - 1" "1 \<le> n" for v n k using that by (simp add: clamped_def min_def max_def)
  show ?thesis
    unfolding move_def Let_def by (simp only: clip[OF w[OF rc(1)] n(1)] clip[OF w[OF rc(2)] n(2)] simp_thms if_False)
qed

lemma report_sequence:
  assumes "has_ldisc cf"
  shows "csi_final cf (ucast (of_char CHR ''n'' :: byte)) (with_args [6] t)
    = Some (emit (Ldisc_send (ESC # of_char CHR ''['' # dec (curs_y t + 1) @ of_char CHR '';'' # dec (curs_x t + 1) @ [of_char CHR ''R'']))
        (with_args [6] t))"
  using assms wrap32_nat[of 6]
  by (simp add: csi_final_def csi_mode_def status_report_def with_args_arg ldisc_send_event_def bytes_def ESC_def)

text \<open>
  Claim C10: the cursor is reported where it was put.  On every well-formed terminal that is
  not in a sequence and not in origin mode, \<open>ESC [ r ; c H\<close> followed by \<open>ESC [ 6 n\<close> moves the
  cursor to line \<open>r\<close> and column \<open>c\<close>, counted from 1 and clamped to the screen with 0 as 1, and
  answers with exactly these two numbers in decimal; the contents of the screen, the
  scrollback and everything else that is sent are unchanged.
\<close>

theorem cursor_position_reported:
  assumes t: "term_ok t" "listening cf t" "\<not> dec_om (now t)" "has_ldisc cf" and n: "r < 0x80000000" "c < 0x80000000"
  shows "\<exists>t'. term_out cf (csi_bytes [r, c] (of_char CHR ''H'') @ csi_bytes [6] (of_char CHR ''n'')) t = Some t'
    \<and> curs_y t' = clamped r (rows t) - 1 \<and> curs_x t' = clamped c (columns t) - 1 \<and> scr t' = scr t
    \<and> events t' = events t @ [Ldisc_send (ESC # of_char CHR ''['' # dec (clamped r (rows t)) @ of_char CHR '';''
        # dec (clamped c (columns t)) @ [of_char CHR ''R''])]"
proof -
  define u where "u = with_args [r, c] t"
  define v where "v = check_cursor_selection (seen_disp_event (set_wrapnext False (set_curs (clamped c (columns t) - 1) (clamped r (rows t) - 1) u)))"
  have seen: "esc (seen_disp_event w) = esc w" "prn (seen_disp_event w) = prn w" "mode (seen_disp_event w) = mode w"
      "now (seen_disp_event w) = now w" "scr (seen_disp_event w) = scr w" "events (seen_disp_event w) = events w" for w
    by (simp_all add: seen_disp_event_def term_schedule_update_def set_disp_def)
  have f: "esc v = esc u" "prn v = prn u" "mode v = mode u" "scr v = scr t" "events v = events t"
      "curs_y v = clamped r (rows t) - 1" "curs_x v = clamped c (columns t) - 1"
    by (simp_all add: v_def seen set_wrapnext_def set_curs_def u_def)
  have l: "listening cf v" using listening_args[OF t(2), of "[r, c]"] listening_cong[OF f(1-3), of cf] by (simp add: u_def)
  have a: "length (esc_args (esc v)) = ARGS_MAX"
    using with_args_list[OF args_ok[OF t(1)], of "[r, c]"] f(1) by (simp add: u_def ARGS_MAX_def)
  have m: "move (wrap32 (def_arg (int c) 1 - 1)) (wrap32 (def_arg (int r) 1 - 1)) 0 u
      = set_wrapnext False (set_curs (clamped c (columns t) - 1) (clamped r (rows t) - 1) u)"
    using move_clamps[of u r c] wf_pos[OF t(1)] n by (simp add: u_def)
  have one: "term_out_loop cf (csi_bytes [r, c] (of_char CHR ''H'') @ bs) t = term_out_loop cf bs v" for bs
    using csi_arguments[OF t(1,2), of "[r, c]" "of_char CHR ''H''" bs] cursor_sequence[OF t(3) n, of cf] m
    by (simp add: v_def u_def ARGS_MAX_def)
  define w where "w = check_cursor_selection (emit (Ldisc_send (ESC # of_char CHR ''['' # dec (clamped r (rows t)) @ of_char CHR '';''
      # dec (clamped c (columns t)) @ [of_char CHR ''R''])) (with_args [6] v))"
  have two: "term_out_loop cf (csi_bytes [6] (of_char CHR ''n'')) v = Some w"
    using csi_sequence[OF l a, of "[6]" "of_char CHR ''n''" "[]"] report_sequence[OF t(4), of v] f(6,7)
    by (simp add: w_def ARGS_MAX_def)
  have "term_print_flush w = Some w"
    by (rule no_flush) (use l in \<open>simp add: w_def emit_def listening_def\<close>)
  then show ?thesis
    using one[of "csi_bytes [6] (of_char CHR ''n'')"] two f by (simp add: term_out_def w_def emit_def)
qed

lemma sample_answers: "\<not> dec_om (now (sample_terminal r c n))" "has_ldisc sample_config"
  by (simp_all add: sample_terminal_def sample_half_def sample_config_def)

theorem cursor_position_reported_witness:
  "\<exists>t'. term_out sample_config (csi_bytes [12, 300] (of_char CHR ''H'') @ csi_bytes [6] (of_char CHR ''n'')) (sample_terminal 24 80 0) = Some t'
    \<and> curs_y t' = clamped 12 (rows (sample_terminal 24 80 0)) - 1 \<and> curs_x t' = clamped 300 (columns (sample_terminal 24 80 0)) - 1
    \<and> scr t' = scr (sample_terminal 24 80 0)
    \<and> events t' = events (sample_terminal 24 80 0) @ [Ldisc_send (ESC # of_char CHR ''['' # dec (clamped 12 (rows (sample_terminal 24 80 0)))
        @ of_char CHR '';'' # dec (clamped 300 (columns (sample_terminal 24 80 0))) @ [of_char CHR ''R''])]"
  by (rule cursor_position_reported)
    (use sample_ok sample_listening sample_answers in simp_all)

section \<open>Erasing characters and the number that overflows\<close>

lemma with_args_ready:
  assumes "term_ok t" "ns \<noteq> []" "length ns \<le> ARGS_MAX" "\<forall>n\<in>set ns. n < 0x80000000"
  shows "csi_ready (with_args ns t)"
proof -
  let ?f = "\<lambda>p. p\<lparr>termstate := TOPLEVEL, esc_args := map (wrap32 \<circ> int) ns @ drop (length ns) (esc_args p), esc_nargs := length ns, esc_query := 0\<rparr>"
  let ?u = "check_cursor_selection t"
  have w: "with_args ns t = set_esc ?f ?u"
    by (simp add: with_args_def set_state_def set_esc_def in_csi_def)
  have u: "term_ok ?u" using check_cursor_selection_step[OF good_step_refl[OF assms(1)]] by (rule good_stepD(1))
  have "good_esc (?f (esc ?u))" using wf_esc[OF u] assms(3) by (simp add: good_esc_def)
  then have "term_ok (with_args ns t)" unfolding w by (rule wf_set_esc[OF u])
  moreover have "csi_args (esc (with_args ns t))"
    using assms by (auto simp: csi_args_def w set_esc_def nth_append Suc_le_eq wrap32_nat)
  ultimately show ?thesis by (simp add: csi_ready_def)
qed

lemma ech_negative:
  assumes "arg 0 t < 0" "columns t - curs_x t > 0"
  shows "erase_chars cf t = None"
proof -
  have "def_arg (arg 0 t) 1 = arg 0 t" using assms(1) by (simp add: def_arg_def)
  then show ?thesis using assms unfolding erase_chars_def Let_def by (auto split: bind_split)
qed

lemma final_ech: "csi_final cf 0x58 t = compatibility CL_ANSIMIN (erase_chars cf) t"
  by (simp add: csi_final_def csi_edit_def)

text \<open>
  Claim C40: an argument of the erase-characters sequence beyond an \<open>int\<close> runs off the line.
  On every well-formed terminal that is not in a sequence, \<open>ESC [ n X\<close> fails exactly when the
  decimal number \<open>n\<close> wraps to a negative \<open>int\<close>: the count is then below zero, is not cut to the
  length of the line, and the loop \<open>while (n--)\<close> writes cells beyond the end of the line.
\<close>

theorem ech_overflow_writes_past_line:
  assumes t: "term_ok t" "listening cf t" and n: "n < 0x100000000"
  shows "term_out cf (csi_bytes [n] (of_char CHR ''X'')) t = None \<longleftrightarrow> n \<ge> 0x80000000"
proof -
  have l: "term_out_loop cf (csi_bytes [n] (of_char CHR ''X'')) t = map_option check_cursor_selection (erase_chars cf (with_args [n] t))"
    using csi_arguments[OF t, of "[n]" "of_char CHR ''X''" "[]"] listening_args[OF t(2), of "[n]"]
    by (cases "erase_chars cf (with_args [n] t)") (simp_all add: final_ech compatibility_def listening_def ARGS_MAX_def)
  show ?thesis
  proof (cases "n < 0x80000000")
    case True
    have r: "csi_ready (with_args [n] t)" using with_args_ready[OF t(1), of "[n]"] True by (simp add: ARGS_MAX_def)
    obtain u where u: "erase_chars cf (with_args [n] t) = Some u" "ok_step (with_args [n] t) u"
      using satE[OF csi_final_ok[OF r, of cf "0x58"]] listening_args[OF t(2), of "[n]"]
      unfolding final_ech by (metis compatibility_def listening_def)
    have "term_ok (check_cursor_selection u)"
      using check_cursor_selection_step[OF good_step_refl[OF ok_stepD(1)[OF u(2)]]] by (rule good_stepD(1))
    then obtain v where "term_print_flush (check_cursor_selection u) = Some v"
      using satE[OF print_flush_out] by metis
    then show ?thesis using True l u(1) by (simp add: term_out_def)
  next
    case False
    have "(int n + 0x80000000) mod 0x100000000 = (int n - 0x80000000) mod 0x100000000"
      using mod_add_self2[of "int n - 0x80000000" "0x100000000"] by (simp add: add.commute)
    then have "wrap32 (int n) < 0" using False n by (simp add: wrap32_def)
    then have "erase_chars cf (with_args [n] t) = None"
      using wf_pos[OF t(1)] by (intro ech_negative) (simp_all add: with_args_arg)
    then show ?thesis using False l by (simp add: term_out_def)
  qed
qed

theorem ech_overflow_writes_past_line_witness:
  "term_out sample_config (csi_bytes [4294967295] (of_char CHR ''X'')) (sample_terminal 24 80 0) = None \<longleftrightarrow> (4294967295 :: nat) \<ge> 0x80000000"
  by (rule ech_overflow_writes_past_line) (use sample_ok sample_listening in simp_all)

end
