(* ===== verification/Term_Text.thy ===== *)
theory Term_Text
  imports Term_Parse
begin

text \<open>
  What ordinary text does to the screen, on the abstract cells of its lines: each character
  fills the cell under the cursor and moves the cursor on, and nothing else of the screen
  changes; a line feed at the bottom keeps the line that leaves the screen.
\<close>

section \<open>One character\<close>

lemma put_cell_cells:
  assumes l: "good_line l" and x: "0 \<le> x" "x < int (cols l)"
  shows "\<exists>l'. put_cell c a x l = Some l' \<and> cols l' = cols l \<and> cells l' = (cells l)[nat x := (c, a, [])]"
proof -
  obtain m where m: "clear_cc_at x l = Some m" "good_line m" "cols m = cols l" "cc_next (chars m ! nat x) = 0"
      "\<forall>i < cols l. chr (chars m ! i) = chr (chars l ! i) \<and> attr (chars m ! i) = attr (chars l ! i)"
      "\<forall>i < cols l. cell_ccs m i = (if i = nat x then [] else cell_ccs l i)"
    using clear_cc_keeps[OF l x] by blast
  let ?c = "(chars m ! nat x)\<lparr>chr := c, attr := a\<rparr>"
  let ?l = "upd_char (nat x) (\<lambda>_. ?c) m"
  have i: "nat x < cols m" using x m(3) by simp
  obtain ch fr where "chains m ch fr" using good_line_ok[OF m(2)] by (auto simp: line_ok_def)
  then have "\<And>j. j < cols m \<Longrightarrow> cell ?l j = (if j = nat x then (c, a, cell_ccs m (nat x)) else cell m j)"
    using set_cell_ok[of m ch fr "nat x" ?c] i m(4) by auto
  moreover have "cols ?l = cols l" using m(3) by (simp add: upd_char_def)
  ultimately have "cells ?l = (cells l)[nat x := (c, a, [])]"
    using m(3,5,6) i by (intro cells_update) (auto simp: cell_def)
  then show ?thesis
    using m(1,3) \<open>cols ?l = cols l\<close> upd_char_const[of "nat x" "\<lambda>tc. tc\<lparr>chr := c, attr := a\<rparr>" m] by (simp add: put_cell_def)
qed

text \<open>A row of the width of the screen without double-width characters.\<close>

definition plain_row :: "int \<Rightarrow> terminal \<Rightarrow> bool" where
  "plain_row y t \<longleftrightarrow>
     (let l = screen (scr t) ! nat y in int (cols l) = columns t \<and> (\<forall>c\<in>set (cells l). fst c \<noteq> UCSWIDE))"

abbreviation row :: "int \<Rightarrow> terminal \<Rightarrow> (32 word \<times> 32 word \<times> 32 word list) list" where
  "row y t \<equiv> cells (screen (scr t) ! nat y)"

lemma boundary_untouched:
  assumes t: "term_ok t" and y: "0 \<le> y" "y < rows t" and p: "plain_row y t" and x: "0 \<le> x" "x < columns t"
  shows "check_boundary x y t = Some t"
proof (cases "x = 0")
  case False
  let ?l = "screen (scr t) ! nat y"
  have w: "wide y t" "columns t = int (cols ?l)" using p by (simp_all add: wide_def plain_row_def Let_def)
  have s: "edit_line y f t = Some t" if "f ?l = Some ?l" for f
    using that y wf_screen(1)[OF t] by (simp add: edit_line_def index_line_def set_scr_def)
  have "cells ?l ! nat x \<in> set (cells ?l)" using x w(2) by (intro nth_mem) simp
  then have "chr (chars ?l ! nat x) \<noteq> UCSWIDE" using p x w(2) by (auto simp: plain_row_def Let_def cell_def)
  then have "split_wide x ?l = Some ?l" by (simp add: split_wide_def)
  then show ?thesis
    using False x scrlineptr_same[OF t y w(1)] s w(2) by (simp add: check_boundary_def check_line_size_def)
qed (simp add: check_boundary_def)

text \<open>A terminal that takes text in UTF-8 at a column of a plain row.\<close>

definition typing :: "config \<Rightarrow> int \<Rightarrow> int \<Rightarrow> terminal \<Rightarrow> bool" where
  "typing cf x y t \<longleftrightarrow>
     term_ok t \<and> termstate (esc t) = TOPLEVEL \<and> utf_state (esc t) = 0 \<and> \<not> printing (prn t)
   \<and> bufchain_size (printer_buf (prn t)) \<le> 5 \<and> in_utf cf t \<and> \<not> wrapnext (now t) \<and> \<not> insert_mode (now t)
   \<and> curs_x t = x \<and> curs_y t = y \<and> plain_row y t"

text \<open>The byte is a character that the terminal shows as it is.\<close>

definition text_byte :: "config \<Rightarrow> byte \<Rightarrow> bool" where
  "text_byte cf b \<longleftrightarrow> 0x20 \<le> b \<and> b < 0x7F \<and> unitab_ctrl cf b = 0xFF"

definition shown :: "byte \<Rightarrow> 32 word" where
  "shown b = ucast b OR CSET_ASCII"

lemma shown_char_bits:
  "DIRECT_CHAR (shown b)" "shown b AND 0xFFFFFFE0 \<noteq> 0x80" "shown b AND NOT 0x1F \<noteq> 0" "shown b \<noteq> 0x7F" "shown b \<noteq> UCSWIDE"
  "shown b \<noteq> 0"
proof -
  have b: "bit (shown b) n \<longleftrightarrow> bit b n \<or> bit (0xD800 :: 32 word) n" if "n < 32" for n
    using that by (simp add: shown_def CSET_ASCII_def bit_or_iff bit_ucast_iff)
  have f: "bit (shown b) 15" "\<not> bit (shown b) 10" using b[of 15] b[of 10] bit_imp_le_length[of b 10] by auto
  have "shown b AND 0xFFFFFC00 = (ucast b AND 0xFFFFFC00) OR (0xD800 AND 0xFFFFFC00)"
    by (simp only: shown_def CSET_ASCII_def bit.conj_disj_distrib2)
  also have "ucast b AND 0xFFFFFC00 = (0 :: 32 word)"
  proof (rule bit_word_eqI)
    fix n assume "n < LENGTH(32)"
    have "\<not> bit (0xFFFFFC00 :: 32 word) n" if "n < 8"
    proof -
      have "(0xFFFFFC00 :: 32 word) = push_bit 10 0x3FFFFF" by (simp add: push_bit_eq_mult)
      then show ?thesis using that by (simp only: bit_push_bit_iff) simp
    qed
    moreover have "\<not> bit b n" if "\<not> n < 8" using that bit_imp_le_length[of b n] by auto
    ultimately show "bit (ucast b AND 0xFFFFFC00 :: 32 word) n = bit (0 :: 32 word) n"
      by (cases "n < 8") (auto simp: bit_and_iff bit_ucast_iff)
  qed
  finally show "DIRECT_CHAR (shown b)" by (simp add: DIRECT_CHAR_def)
  have n: "shown b \<noteq> c" if "\<not> bit c 15" for c using f that by auto
  show "shown b \<noteq> 0x7F" "shown b \<noteq> 0" by (rule n; simp)+
  show "shown b \<noteq> UCSWIDE" using f(2) by (auto simp: UCSWIDE_def)
  have "bit (shown b AND 0xFFFFFFE0) 15" "bit (shown b AND NOT 0x1F) 15" using f by (simp_all add: bit_and_iff bit_not_iff)
  then show "shown b AND 0xFFFFFFE0 \<noteq> 0x80" "shown b AND NOT 0x1F \<noteq> 0" by auto
qed

text \<open>The terminal after the character: only the line, the cursor and the display have changed.\<close>

definition typed :: "int \<Rightarrow> termline \<Rightarrow> terminal \<Rightarrow> terminal" where
  "typed x l t = seen_disp_event (set_curs (x + 1) (curs_y t) (set_scr (\<lambda>s. s\<lparr>screen := (screen s)[nat (curs_y t) := l]\<rparr>) t))"

lemma typed_fields [simp]:
  "esc (typed x l t) = esc t" "prn (typed x l t) = prn t" "mode (typed x l t) = mode t" "pen (typed x l t) = pen t"
  "rows (typed x l t) = rows t" "columns (typed x l t) = columns t" "events (typed x l t) = events t"
  "now (typed x l t) = (now t)\<lparr>curs := \<lparr>py = curs_y t, px = x + 1\<rparr>\<rparr>"
  "scr (typed x l t) = (scr t)\<lparr>screen := (screen (scr t))[nat (curs_y t) := l]\<rparr>"
  by (simp_all add: typed_def seen_disp_event_def term_schedule_update_def set_disp_def set_curs_def set_scr_def)

lemma typingD:
  assumes "typing cf x y t"
  shows "term_ok t" "curs_x t = x" "curs_y t = y" "0 \<le> x" "x < columns t" "0 \<le> y" "y < rows t" "plain_row y t"
    "wide y t" "int (cols (screen (scr t) ! nat y)) = columns t"
  using assms wf_pos[of t] by (auto simp: typing_def plain_row_def wide_def Let_def)

lemma text_decoded:
  assumes "typing cf x y t" "text_byte cf b"
  shows "translate cf b t = Char (shown b) t"
proof -
  have "b < 0x80" using assms(2) by (auto simp: text_byte_def word_less_def)
  then show ?thesis using assms by (simp add: typing_def text_byte_def translate_def decode_utf8_def Let_def ascii_char_def shown_def)
qed

lemma graphic_plain:
  assumes t: "typing cf x y t" and x: "x + 1 < columns t"
  shows "\<exists>l. graphic cf (shown b) t = Some (typed x l (check_cursor_selection t), False)
    \<and> cols l = cols (screen (scr t) ! nat y) \<and> cells l = (row y t)[nat x := (shown b, curr_attr (pen t), [])]"
proof -
  note d = typingD[OF t]
  define u where "u = check_cursor_selection t"
  have u: "term_ok u" using check_cursor_selection_step[OF good_step_refl[OF d(1)]] unfolding u_def by (rule good_stepD(1))
  have uf: "scr u = scr t" "columns u = columns t" "rows u = rows t" "now u = now t" "pen u = pen t" by (simp_all add: u_def)
  have p: "plain_row y u" using d(8) uf by (simp add: plain_row_def)
  have cb: "check_boundary x y u = Some u" "check_boundary (x + 1) y u = Some u"
    using boundary_untouched[OF u _ _ p] d x uf by simp_all
  obtain l where l: "put_cell (shown b) (curr_attr (pen t)) x (screen (scr t) ! nat y) = Some l"
      "cols l = cols (screen (scr t) ! nat y)" "cells l = (row y t)[nat x := (shown b, curr_attr (pen t), [])]"
    using put_cell_cells[OF screen_line[OF d(1,6,7)], of x] d(4,5,10) by auto
  have e: "edit_line y (put_cell (shown b) (curr_attr (pen t)) x) u = Some (set_scr (\<lambda>s. s\<lparr>screen := (screen s)[nat y := l]\<rparr>) u)"
    using l(1) d(6,7) wf_screen(1)[OF d(1)] uf by (simp add: edit_line_def index_line_def)
  have n: "put_narrow (shown b) u = Some (set_scr (\<lambda>s. s\<lparr>screen := (screen s)[nat y := l]\<rparr>) u)"
    using cb e d(2,3) uf by (simp add: put_narrow_def)
  have a: "advance cf (set_scr (\<lambda>s. s\<lparr>screen := (screen s)[nat y := l]\<rparr>) u) = Some (typed x l u)"
    using d(2,3) uf x by (simp add: advance_def Let_def set_curs_sel typed_def set_scr_def)
  have w: "char_width cf (shown b) = Some 1" using shown_char_bits(1) by (simp add: char_width_def)
  have "graphic cf (shown b) t = do { a \<leftarrow> put_narrow (shown b) u; b \<leftarrow> advance cf a; Some (b, False) }"
    using t d scrlineptr_same[OF d(1,6,7,9)] w by (simp add: graphic_def typing_def u_def)
  then show ?thesis using n a l(2,3) u_def by auto
qed

lemma type_char:
  assumes t: "typing cf x y t" and b: "text_byte cf b" and x: "x + 1 < columns t"
  shows "\<exists>t'. term_out_char cf b t = Some (t', False) \<and> typing cf (x + 1) y t' \<and> columns t' = columns t \<and> rows t' = rows t
    \<and> pen t' = pen t \<and> row y t' = (row y t)[nat x := (shown b, curr_attr (pen t), [])]
    \<and> (\<exists>l. scr t' = (scr t)\<lparr>screen := (screen (scr t))[nat y := l]\<rparr>) \<and> events t' = events t"
proof -
  note d = typingD[OF t]
  obtain l where g: "graphic cf (shown b) t = Some (typed x l (check_cursor_selection t), False)"
    and l: "cols l = cols (screen (scr t) ! nat y)" "cells l = (row y t)[nat x := (shown b, curr_attr (pen t), [])]"
    using graphic_plain[OF t x, of b] by blast
  define t' where "t' = check_cursor_selection (typed x l (check_cursor_selection t))"
  have p: "process_char cf (shown b) t = Some t'"
    using t g shown_char_bits by (simp add: process_char_def c1_control_def dispatch_def typing_def t'_def)
  have o: "term_out_char cf b t = Some (t', False)"
    using t text_decoded[OF t b] p by (simp add: term_out_char_def print_byte_def typing_def)
  have ok: "term_ok t'"
    using graphic_step[OF d(1) shown_char_bits(5)[of b], of cf] shown_char_bits(6)[of b] g
      check_cursor_selection_step[THEN good_stepD(1)] by (auto simp: t'_def)
  have n: "nat y < length (screen (scr t))" using wf_screen(1)[OF d(1)] d(6,7) by linarith
  have r: "row y t' = (row y t)[nat x := (shown b, curr_attr (pen t), [])]" using l n d(3) by (simp add: t'_def)
  have "plain_row y t'"
    using d(8) l n r d(3) shown_char_bits(5)[of b] by (auto simp: plain_row_def Let_def t'_def dest!: set_update_subset_insert[THEN subsetD])
  then have "typing cf (x + 1) y t'"
    using t ok by (simp add: typing_def t'_def in_utf_def)
  then show ?thesis using o r by (auto simp: t'_def d(3))
qed

section \<open>A text\<close>

definition text_cells :: "32 word \<Rightarrow> byte list \<Rightarrow> (32 word \<times> 32 word \<times> 32 word list) list" where
  "text_cells a bs = map (\<lambda>b. (shown b, a, [])) bs"

lemma type_text:
  "typing cf x y t \<Longrightarrow> \<forall>b\<in>set bs. text_byte cf b \<Longrightarrow> x + int (length bs) < columns t \<Longrightarrow>
   \<exists>t'. term_out_loop cf bs t = Some t' \<and> typing cf (x + int (length bs)) y t'
     \<and> row y t' = take (nat x) (row y t) @ text_cells (curr_attr (pen t)) bs @ drop (nat x + length bs) (row y t)
     \<and> (\<exists>l. scr t' = (scr t)\<lparr>screen := (screen (scr t))[nat y := l]\<rparr>) \<and> events t' = events t"
proof (induction bs arbitrary: x t)
  case Nil
  then show ?case
    by (auto simp: text_cells_def intro!: exI[of _ "screen (scr t) ! nat y"])
next
  case (Cons b bs)
  note d = typingD[OF Cons.prems(1)]
  obtain u where u: "term_out_char cf b t = Some (u, False)" "typing cf (x + 1) y u" "columns u = columns t" "rows u = rows t"
      "pen u = pen t" "row y u = (row y t)[nat x := (shown b, curr_attr (pen t), [])]"
      "\<exists>l. scr u = (scr t)\<lparr>screen := (screen (scr t))[nat y := l]\<rparr>" "events u = events t"
    using type_char[OF Cons.prems(1), of b] Cons.prems(2,3) by auto
  obtain t' where t': "term_out_loop cf bs u = Some t'" "typing cf (x + 1 + int (length bs)) y t'"
      "row y t' = take (nat (x + 1)) (row y u) @ text_cells (curr_attr (pen u)) bs @ drop (nat (x + 1) + length bs) (row y u)"
      "\<exists>l. scr t' = (scr u)\<lparr>screen := (screen (scr u))[nat y := l]\<rparr>" "events t' = events u"
    using Cons.IH[OF u(2)] Cons.prems(2,3) u(3) by auto
  have n: "nat (x + 1) = Suc (nat x)" "nat x < length (row y t)" using d(4,5,10) by auto
  have "row y t' = take (nat x) (row y t) @ text_cells (curr_attr (pen t)) (b # bs) @ drop (nat x + length (b # bs)) (row y t)"
    using t'(3) n u(5) by (simp add: u(6) text_cells_def take_Suc_conv_app_nth)
  moreover have "\<exists>l. scr t' = (scr t)\<lparr>screen := (screen (scr t))[nat y := l]\<rparr>"
    using u(7) t'(4) by (auto simp: list_update_overwrite)
  ultimately show ?case using u(1,8) t'(1,2,5) by (auto simp: algebra_simps)
qed

text \<open>
  Claim C2: text appears where the cursor is.  On a well-formed terminal in UTF-8 mode that is
  between sequences, with the cursor at a column \<open>x\<close> of a row that has no double-width
  characters, \<open>term_out\<close> of any printable ASCII text that ends before the last column fills
  exactly the next cells of that row with the characters, in order, in the current attribute
  and without combining characters; the rest of the row, every other line of both screens and
  the scrollback are unchanged, nothing is sent, and the cursor is behind the text.
\<close>

theorem text_printed:
  assumes "typing cf x y t" "\<forall>b\<in>set bs. text_byte cf b" "x + int (length bs) < columns t"
  shows "\<exists>t'. term_out cf bs t = Some t' \<and> typing cf (x + int (length bs)) y t'
     \<and> row y t' = take (nat x) (row y t) @ text_cells (curr_attr (pen t)) bs @ drop (nat x + length bs) (row y t)
     \<and> (\<exists>l. scr t' = (scr t)\<lparr>screen := (screen (scr t))[nat y := l]\<rparr>) \<and> events t' = events t"
proof -
  obtain t' where t': "term_out_loop cf bs t = Some t'" "typing cf (x + int (length bs)) y t'"
     "row y t' = take (nat x) (row y t) @ text_cells (curr_attr (pen t)) bs @ drop (nat x + length bs) (row y t)"
     "\<exists>l. scr t' = (scr t)\<lparr>screen := (screen (scr t))[nat y := l]\<rparr>" "events t' = events t"
    using type_text[OF assms] by blast
  moreover have "term_print_flush t' = Some t'" using t'(2) by (intro no_flush) (simp add: typing_def)
  ultimately show ?thesis by (auto simp: term_out_def)
qed

lemma sample_typing: "1 \<le> r \<Longrightarrow> r < 0x80000000 \<Longrightarrow> 2 \<le> c \<Longrightarrow> c < 0x80000000 \<Longrightarrow> 0 \<le> n \<Longrightarrow> typing sample_config 0 0 (sample_terminal r c n)"
proof -
  assume a: "1 \<le> r" "r < 0x80000000" "2 \<le> c" "c < 0x80000000" "0 \<le> n"
  have r: "cells (newline blank blank (nat c) False) = replicate (nat c) (CSET_ASCII OR 0x20, ATTR_DEFAULT, [])"
    using newline_ok(2)[of blank blank "nat c" False] a by (simp add: blank_def)
  have "cols (newline blank blank (nat c) False) = nat c" by (simp add: newline_def)
  moreover have "sample_lines r c ! 0 = newline blank blank (nat c) False" using a by (simp add: sample_lines_def)
  ultimately have "plain_row 0 (sample_terminal r c n)"
    using a r by (simp add: plain_row_def sample_terminal_def CSET_ASCII_def UCSWIDE_def)
  then show ?thesis
    using sample_ok[OF a] by (simp add: typing_def sample_terminal_def sample_half_def in_utf_def bufchain_init_def bufchain_size_def)
qed

theorem text_printed_witness:
  "\<exists>t'. term_out sample_config (bytes ''$ ls -l'') (sample_terminal 24 80 0) = Some t'
     \<and> typing sample_config (0 + int (length (bytes ''$ ls -l''))) 0 t'
     \<and> row 0 t' = take (nat 0) (row 0 (sample_terminal 24 80 0)) @ text_cells (curr_attr (pen (sample_terminal 24 80 0))) (bytes ''$ ls -l'')
         @ drop (nat 0 + length (bytes ''$ ls -l'')) (row 0 (sample_terminal 24 80 0))
     \<and> (\<exists>l. scr t' = (scr (sample_terminal 24 80 0))\<lparr>screen := (screen (scr (sample_terminal 24 80 0)))[nat 0 := l]\<rparr>)
     \<and> events t' = events (sample_terminal 24 80 0)"
  by (rule text_printed[OF sample_typing]) (simp_all add: bytes_def text_byte_def sample_config_def sample_terminal_def)

section \<open>The scrollback\<close>

text \<open>What a line shows; a line of the scrollback is decompressed first.\<close>

definition view :: "termline \<Rightarrow> 16 word \<times> (32 word \<times> 32 word \<times> 32 word list) list" where
  "view l = (lattr l, cells l)"

definition stored_view :: "config \<Rightarrow> byte list \<Rightarrow> (16 word \<times> (32 word \<times> 32 word \<times> 32 word list) list) option" where
  "stored_view cf bs = map_option (view \<circ> fst) (decompressline (junk cf) 0 (Some bs))"

lemma put_termchar_cells:
  assumes l: "good_line l" and c: "good_char c" and x: "0 \<le> x" "x < int (cols l)"
  shows "\<exists>l'. put_termchar cf c x l = Some l' \<and> good_line l' \<and> cols l' = cols l \<and> lattr l' = lattr l
    \<and> cells l' = (cells l)[nat x := (chr c, attr c, [])]"
proof -
  define m where "m = \<lparr>lattr = 0, cols = 1, temporary = False, cc_free = 0, chars = [c]\<rparr>"
  have m: "line_ok m" "cells m = [(chr c, attr c, [])]" "cols m = 1" "chars m = [c]"
    using fresh_line[of m] c by (auto simp: m_def good_char_def)
  have m0: "cell m 0 = (chr c, attr c, [])" using m(2) nth_cells[of 0 m] m(3) by simp
  obtain l' where l': "put_termchar cf c x l = Some l'" "good_line l'" "cols l' = cols l"
    by (rule keepsE[OF put_termchar_keeps[OF l c x]])
  have n: "nat x < cols l" using x by linarith
  have "lattr l' = lattr l \<and> cells l' = (cells l)[nat x := cell m 0]"
    using copy_termchar_ok[OF good_line_ok[OF l] n m(1), of 0 "junk cf"] l'(1) m(3,4) x by (auto simp: put_termchar_def same_but_cells_def)
  then show ?thesis using l' m0 by auto
qed

lemma fill_cells_cells:
  "good_line l \<Longrightarrow> good_char c \<Longrightarrow> \<forall>i\<in>set is. i < cols l \<Longrightarrow>
   \<exists>l'. fill_cells cf c is l = Some l' \<and> good_line l' \<and> cols l' = cols l \<and> lattr l' = lattr l
     \<and> (\<forall>i<cols l. cells l' ! i = (if i \<in> set is then (chr c, attr c, []) else cells l ! i))"
proof (induction "is" arbitrary: l)
  case (Cons j js)
  obtain l1 where l1: "put_termchar cf c (int j) l = Some l1" "good_line l1" "cols l1 = cols l" "lattr l1 = lattr l"
      "cells l1 = (cells l)[j := (chr c, attr c, [])]"
    using put_termchar_cells[OF Cons.prems(1,2), of "int j" cf] Cons.prems(3) by auto
  obtain l' where "fill_cells cf c js l1 = Some l'" "good_line l'" "cols l' = cols l1" "lattr l' = lattr l1"
      "\<forall>i<cols l1. cells l' ! i = (if i \<in> set js then (chr c, attr c, []) else cells l1 ! i)"
    using Cons.IH[OF l1(2) Cons.prems(2)] Cons.prems(3) l1(3) by auto
  then show ?case using l1 by (auto simp: nth_list_update)
qed simp

definition blank_view :: "terminal \<Rightarrow> 16 word \<times> (32 word \<times> 32 word \<times> 32 word list) list" where
  "blank_view t = (LATTR_NORM, replicate (nat (columns t)) (chr (erase_char (pen t)), attr (erase_char (pen t)), []))"

lemma blank_line_view:
  assumes t: "term_ok t" and l: "good_line l"
  shows "\<exists>l'. blank_line cf t l = Some l' \<and> view l' = blank_view t"
proof -
  obtain l1 where l1: "resizeline (basic_erase_char (pen t)) l (nat (columns t)) = Some l1" "good_line l1" "cols l1 = nat (columns t)"
    using resizeline_good[OF l wf_chars(2)[OF t], of "nat (columns t)"] wf_pos(8)[OF t] by auto
  obtain l2 where l2: "fill_cells cf (erase_char (pen t)) [0..<nat (columns t)] l1 = Some l2" "cols l2 = cols l1"
      "\<forall>i<cols l1. cells l2 ! i = (chr (erase_char (pen t)), attr (erase_char (pen t)), [])"
    using fill_cells_cells[OF l1(2) wf_chars(1)[OF t], of "[0..<nat (columns t)]" cf] l1(3) by auto
  have "cells l2 = replicate (nat (columns t)) (chr (erase_char (pen t)), attr (erase_char (pen t)), [])"
    by (rule nth_equalityI) (use l2 l1(3) in auto)
  moreover have "cells (l2\<lparr>lattr := LATTR_NORM\<rparr>) = cells l2" by (rule cells_fields) simp_all
  ultimately show ?thesis using l1(1) l2(1) by (simp add: blank_line_def view_def blank_view_def)
qed

definition history :: "config \<Rightarrow> terminal \<Rightarrow> (16 word \<times> (32 word \<times> 32 word \<times> 32 word list) list) option list" where
  "history cf t = map (stored_view cf) (scrollback (scr t))"

lemma save_line_history:
  assumes t: "term_ok t" and l: "good_line l" and n: "0 < savelines t"
  shows "\<exists>s. save_line l t = Some (set_scr (\<lambda>_. s) t) \<and> screen s = screen (scr t) \<and> alt_screen s = alt_screen (scr t)
    \<and> alt_which s = alt_which (scr t)
    \<and> map (stored_view cf) (scrollback s)
      = (if int (length (scrollback (scr t))) = savelines t then tl (history cf t) else history cf t) @ [Some (view l)]"
proof -
  obtain bs m where bs: "compressline l = Some bs" "decompressline (junk cf) 0 (Some bs) = Some (m, length bs)"
    "lattr m = lattr l" "cells m = cells l"
    using good_line_stored[OF l, of "junk cf" 0] by blast
  have v: "stored_view cf bs = Some (view l)" using bs by (simp add: stored_view_def view_def)
  define sb where "sb = (if int (length (scrollback (scr t))) = savelines t then tl (scrollback (scr t)) else scrollback (scr t))"
  define k where "k = (if int (length (scrollback (scr t))) = savelines t then int (length (scrollback (scr t))) - 1 else int (length (scrollback (scr t))))"
  have k: "k = int (length sb)" using n by (auto simp: k_def sb_def)
  have a: "add_line bs k sb = Some (sb @ [bs])" by (simp add: k add_line_def insert_nth_def)
  have h: "map (stored_view cf) (sb @ [bs])
      = (if int (length (scrollback (scr t))) = savelines t then tl (history cf t) else history cf t) @ [Some (view l)]"
    by (simp add: v sb_def history_def map_tl)
  show ?thesis
  proof (cases "int (length (scrollback (scr t))) = savelines t")
    case True
    then have "add_line bs (savelines t - 1) (tl (scrollback (scr t))) = Some (sb @ [bs])" using a by (simp add: k_def sb_def)
    then show ?thesis using True bs(1) h by (auto simp: save_line_def Let_def)
  next
    case False
    then have "add_line bs (int (length (scrollback (scr t)))) (scrollback (scr t)) = Some (sb @ [bs])" using a by (simp add: k_def sb_def)
    then show ?thesis using False bs(1) h by (auto simp: save_line_def Let_def)
  qed
qed

lemma scroll_screen:
  assumes t: "term_ok t" and n: "0 < savelines t" and w: "\<not> alt_which (scr t)"
  shows "\<exists>t'. scroll cf 0 (rows t - 1) 1 True t = Some t'
    \<and> map view (screen (scr t')) = tl (map view (screen (scr t))) @ [blank_view t]
    \<and> history cf t' = (if int (length (scrollback (scr t))) = savelines t then tl (history cf t) else history cf t)
        @ [Some (view (hd (screen (scr t))))]
    \<and> alt_screen (scr t') = alt_screen (scr t) \<and> alt_which (scr t') = alt_which (scr t)
    \<and> now t' = now t \<and> esc t' = esc t \<and> prn t' = prn t \<and> pen t' = pen t \<and> columns t' = columns t \<and> rows t' = rows t
    \<and> mode t' = mode t \<and> events t' = events t"
proof -
  have r: "1 \<le> rows t" "int (length (screen (scr t))) = rows t" using wf_pos[OF t] wf_screen(1)[OF t] by auto
  then obtain l ls where s: "screen (scr t) = l # ls" by (cases "screen (scr t)") auto
  have l: "good_line l" using screen_line[OF t, of 0] r(1) s by simp
  obtain s1 where s1: "save_line l t = Some (set_scr (\<lambda>_. s1) t)" "screen s1 = screen (scr t)" "alt_screen s1 = alt_screen (scr t)"
    "alt_which s1 = alt_which (scr t)" "map (stored_view cf) (scrollback s1)
      = (if int (length (scrollback (scr t))) = savelines t then tl (history cf t) else history cf t) @ [Some (view l)]"
    using save_line_history[OF t l n, of cf] by blast
  define t2 where "t2 = set_sel (\<lambda>s. s\<lparr>hits := List.map (map_prod up_one up_one) (hits s)\<rparr>) (set_scr (\<lambda>_. s1) t)"
  have k1: "term_ok (set_scr (\<lambda>_. s1) t)" using save_line_kept[OF t l n] s1(1) by (auto simp: kept_def)
  have t2: "term_ok t2" unfolding t2_def
    by (rule kept_wf[OF kept_sel[OF k1]]) (use wf_sel[OF k1] in \<open>simp add: good_sel_def\<close>)
  obtain l' where l': "blank_line cf t2 l = Some l'" "view l' = blank_view t2" using blank_line_view[OF t2 l, of cf] by blast
  have b: "blank_view t2 = blank_view t" by (simp add: t2_def blank_view_def set_sel_def set_scr_def)
  have d: "del_line 0 (screen (scr t)) = Some (l, ls)" using s by (simp add: del_line_def index_line_def remove_nth_def)
  have a: "add_line l' (rows t - 1) ls = Some (ls @ [l'])" using r s by (simp add: add_line_def insert_nth_def)
  have "repeat_op (nat (if 1 > rows t then rows t else 1)) (scroll_on_one cf 0 (rows t - 1) True) t = scroll_on_one cf 0 (rows t - 1) True t"
    using r(1) by (cases "scroll_on_one cf 0 (rows t - 1) True t") (simp_all add: numeral_eq_Suc)
  then have e: "scroll cf 0 (rows t - 1) 1 True t = scroll_on_one cf 0 (rows t - 1) True t" using w by (simp add: scroll_def Let_def)
  show ?thesis
    unfolding e scroll_on_one_def
    using d n s1 a l' b s by (simp add: t2_def[symmetric]) (simp add: t2_def set_sel_def set_scr_def history_def Let_def)
qed

text \<open>The line above the screen is the last one of the scrollback.\<close>

lemma last_stored:
  assumes h: "history cf t = hs @ [Some v]" and w: "\<not> alt_which (scr t)" and c: "columns t \<le> int (length (snd v))"
  shows "\<exists>l. lineptr cf (- 1) t = Some (l, t) \<and> view l = v"
proof -
  let ?sb = "scrollback (scr t)"
  have n: "?sb \<noteq> []" using h by (auto simp: history_def)
  have "last (map (stored_view cf) ?sb) = Some v" using h by (simp add: history_def)
  then have "stored_view cf (last ?sb) = Some v" using n by (simp add: last_map)
  then obtain l k where l: "decompressline (junk cf) 0 (Some (last ?sb)) = Some (l, k)" "view l = v"
    by (auto simp: stored_view_def)
  have "index_line (- 1 + int (length ?sb)) ?sb = Some (last ?sb)"
  proof -
    have "nat (- 1 + int (length ?sb)) = length ?sb - 1" by simp
    then show ?thesis using n by (simp add: index_line_def last_conv_nth Suc_le_eq)
  qed
  moreover have "widened t l = Some l" using l(2) c by (auto simp: widened_def view_def)
  ultimately show ?thesis using l w by (simp add: lineptr_def Let_def)
qed

text \<open>
  Claim C5: a line that scrolls off the screen is kept.  A line feed on the bottom line of a
  well-formed terminal, with the whole screen as scrolling region on the primary screen, moves
  every line up by one and leaves a blank line in the erase colour at the bottom; the line that
  was on top becomes the last of the scrollback, which loses its oldest line only when it is
  full, and every other line of the scrollback stays as it was.  Scrolled back by one line, the
  user sees exactly the characters, attributes, combining characters and line attributes of the
  line that left the screen; nothing is sent.
\<close>

theorem scrolled_line_kept:
  assumes t: "term_ok t" "listening cf t" "in_utf cf t" "unitab_ctrl cf 0x0A = 0x0A"
    and b: "curs_y t = rows t - 1" "marg_t (now t) = 0" "marg_b (now t) = rows t - 1"
    and s: "\<not> alt_which (scr t)" "0 < savelines t" "columns t \<le> int (cols (hd (screen (scr t))))"
  shows "\<exists>t' l. term_out cf [0x0A] t = Some t'
    \<and> map view (screen (scr t')) = tl (map view (screen (scr t))) @ [blank_view t]
    \<and> history cf t' = (if int (length (scrollback (scr t))) = savelines t then tl (history cf t) else history cf t)
        @ [Some (view (hd (screen (scr t))))]
    \<and> lineptr cf (- 1) t' = Some (l, t') \<and> view l = view (hd (screen (scr t)))
    \<and> curs_y t' = rows t - 1 \<and> alt_screen (scr t') = alt_screen (scr t) \<and> events t' = events t"
proof -
  obtain u where u: "scroll cf 0 (rows t - 1) 1 True t = Some u"
    "map view (screen (scr u)) = tl (map view (screen (scr t))) @ [blank_view t]"
    "history cf u = (if int (length (scrollback (scr t))) = savelines t then tl (history cf t) else history cf t)
        @ [Some (view (hd (screen (scr t))))]"
    "alt_screen (scr u) = alt_screen (scr t)" "alt_which (scr u) = alt_which (scr t)" "now u = now t" "esc u = esc t" "prn u = prn t"
    "pen u = pen t" "columns u = columns t" "rows u = rows t" "mode u = mode t" "events u = events t"
    using scroll_screen[OF t(1) s(2,1), of cf] by blast
  define v where "v = check_cursor_selection (seen_disp_event (set_wrapnext False (if lfhascr cf then set_curs 0 (curs_y u) u else u)))"
  have seen: "scr (seen_disp_event w) = scr w" "now (seen_disp_event w) = now w" "prn (seen_disp_event w) = prn w"
      "columns (seen_disp_event w) = columns w" "events (seen_disp_event w) = events w" for w
    by (simp_all add: seen_disp_event_def term_schedule_update_def set_disp_def)
  have f: "scr v = scr u" "prn v = prn t" "columns v = columns t" "curs_y v = curs_y t" "events v = events t"
    using u by (simp_all add: v_def seen set_wrapnext_def set_curs_def)
  have d: "translate cf 0x0A t = Char 0x0A t"
    using t by (simp add: listening_def translate_def decode_utf8_def ascii_char_def)
  have "line_feed cf t = Some (seen_disp_event (set_wrapnext False (if lfhascr cf then set_curs 0 (curs_y u) u else u)))"
    using u(1) b by (simp add: line_feed_def index_down_def)
  then have "process_char cf 0x0A t = Some v"
    using t(2) by (simp add: process_char_def c1_control_def dispatch_def below_ctrls_def c0_control_def listening_def v_def)
  then have "term_out_loop cf [0x0A] t = Some v" using d t(2) by (simp add: term_out_char_def print_byte_def listening_def)
  moreover have "term_print_flush v = Some v" by (rule no_flush) (use f(2) t(2) in \<open>simp add: listening_def\<close>)
  ultimately have o: "term_out cf [0x0A] t = Some v" by (simp add: term_out_def)
  have h: "history cf v = history cf u" using f(1) by (simp add: history_def)
  obtain l where "lineptr cf (- 1) v = Some (l, v)" "view l = view (hd (screen (scr t)))"
    using last_stored[OF h[unfolded u(3)]] f(1,3) u(5) s(1,3) by (auto simp: view_def)
  then show ?thesis using o u(2,3,4) f(1,4,5) h b(1) by auto
qed

theorem scrolled_line_kept_witness:
  "\<exists>t' l. term_out sample_config [0x0A] (sample_terminal 1 80 10) = Some t'
    \<and> map view (screen (scr t')) = tl (map view (screen (scr (sample_terminal 1 80 10)))) @ [blank_view (sample_terminal 1 80 10)]
    \<and> history sample_config t' = (if int (length (scrollback (scr (sample_terminal 1 80 10)))) = savelines (sample_terminal 1 80 10)
          then tl (history sample_config (sample_terminal 1 80 10)) else history sample_config (sample_terminal 1 80 10))
        @ [Some (view (hd (screen (scr (sample_terminal 1 80 10)))))]
    \<and> lineptr sample_config (- 1) t' = Some (l, t') \<and> view l = view (hd (screen (scr (sample_terminal 1 80 10))))
    \<and> curs_y t' = rows (sample_terminal 1 80 10) - 1 \<and> alt_screen (scr t') = alt_screen (scr (sample_terminal 1 80 10))
    \<and> events t' = events (sample_terminal 1 80 10)"
proof (rule scrolled_line_kept)
  show "term_ok (sample_terminal 1 80 10)" by (rule sample_ok) simp_all
  show "listening sample_config (sample_terminal 1 80 10)" by (rule sample_listening)
qed (simp_all add: in_utf_def sample_config_def sample_terminal_def sample_half_def sample_lines_def newline_def)

end
