(* ===== verification/Term_Frame.thy ===== *)
theory Term_Frame
  imports Term_Parse
begin

text \<open>
  What no output touches while the alternate screen is shown: the size, the primary screen
  with its cursor, margins and saved cursor, and the scrollback.  One lemma for each operation
  of \<open>term_out\<close> says that it leaves them alone; the exceptions are the sequences that
  switch screens, reset the terminal or clear the scrollback (\<open>switches\<close>).
\<close>

section \<open>The hidden part of the state\<close>

definition backdrop ::
  "terminal \<Rightarrow> int \<times> int \<times> half \<times> saved \<times> bool \<times> termline list \<times> byte list list \<times> int" where
  "backdrop t = (rows t, columns t, alt t, alt_sav t, alt_which (scr t), alt_screen (scr t),
     scrollback (scr t), tempsblines (scr t))"

definition behind :: "terminal \<Rightarrow> terminal \<Rightarrow> bool" where
  "behind s t \<longleftrightarrow> (alt_which (scr s) \<longrightarrow> backdrop t = backdrop s)"

definition framed :: "terminal \<Rightarrow> terminal option \<Rightarrow> bool" where
  "framed s m \<longleftrightarrow> (\<forall>t. m = Some t \<longrightarrow> behind s t)"

lemma behind_refl [simp]: "behind t t" by (simp add: behind_def)

lemma behind_trans: "behind s t \<Longrightarrow> behind t u \<Longrightarrow> behind s u"
  by (auto simp: behind_def backdrop_def)

lemma framed_Some [simp]: "framed s (Some t) = behind s t" by (simp add: framed_def)

lemma framed_None [simp]: "framed s None" by (simp add: framed_def)

lemma framedD: "framed s m \<Longrightarrow> m = Some t \<Longrightarrow> behind s t" by (simp add: framed_def)

lemma framed_bind: "framed s m \<Longrightarrow> (\<And>t. behind s t \<Longrightarrow> framed s (f t)) \<Longrightarrow> framed s (m \<bind> f)"
  by (cases m) (simp_all add: framed_def)

lemma framed_val: "(\<And>x. m = Some x \<Longrightarrow> framed s (f x)) \<Longrightarrow> framed s (m \<bind> f)"
  by (cases m) simp_all

lemma framed_if: "(b \<Longrightarrow> framed s x) \<Longrightarrow> (\<not> b \<Longrightarrow> framed s y) \<Longrightarrow> framed s (if b then x else y)"
  by simp

lemma behind_if: "(b \<Longrightarrow> behind s x) \<Longrightarrow> (\<not> b \<Longrightarrow> behind s y) \<Longrightarrow> behind s (if b then x else y)"
  by simp

lemma framed_prod: "(\<And>a b. framed s (f a b)) \<Longrightarrow> framed s (case p of (a, b) \<Rightarrow> f a b)"
  by (cases p) simp

lemmas framed_rules = framed_if behind_if framed_bind framed_prod
  framed_val [where 'a = int] framed_val [where 'a = bool] framed_val [where 'a = termline]
  framed_val [where 'a = termchar] framed_val [where 'a = "'b \<times> 'c"] framed_val [where 'a = "'b list"]
  framed_val [where 'a = "32 word"] framed_val [where 'a = "8 word"]

section \<open>Simple updates\<close>

lemma behind_simple [simp]:
  "behind s (set_curs x y t) = behind s t" "behind s (set_wrapnext b t) = behind s t"
  "behind s (set_esc f1 t) = behind s t" "behind s (set_pen f2 t) = behind s t" "behind s (set_mode f3 t) = behind s t"
  "behind s (set_sel f4 t) = behind s t" "behind s (set_disp f5 t) = behind s t" "behind s (set_prn f6 t) = behind s t"
  "behind s (emit e t) = behind s t" "behind s (t\<lparr>tabs := ts\<rparr>) = behind s t" "behind s (t\<lparr>bel := bl\<rparr>) = behind s t"
  "behind s (t\<lparr>sav := sv\<rparr>) = behind s t"
  "behind s (set_scr (\<lambda>c. c\<lparr>screen := g c\<rparr>) t) = behind s t" "behind s (set_scr (\<lambda>c. c\<lparr>disptop := d\<rparr>) t) = behind s t"
  by (simp_all add: behind_def backdrop_def term_updates)

lemma behind_now [simp]: "behind s (t\<lparr>now := h\<rparr>) = behind s t"
  by (simp add: behind_def backdrop_def)

lemma behind_events [simp]:
  "behind s (seen_disp_event t) = behind s t" "behind s (term_schedule_update t) = behind s t"
  "behind s (term_schedule_tblink t) = behind s t" "behind s (term_schedule_cblink cf t) = behind s t"
  "behind s (term_schedule_vbell b p t) = behind s t" "behind s (term_invalidate t) = behind s t"
  "behind s (update_sbar cf t) = behind s t" "behind s (ldisc_send_event cf bs t) = behind s t"
  "behind s (set_erase_char t) = behind s t" "behind s (deselect t) = behind s t"
  "behind s (check_selection p1 p2 t) = behind s t" "behind s (check_cursor_selection t) = behind s t"
  "behind s (to_bottom cf t) = behind s t" "behind s (set_state ts t) = behind s t"
  "behind s (move x y c t) = behind s t" "behind s (echoedit_update cf t) = behind s t"
  "behind s (seen_if b t) = behind s t"
  by (simp_all add: seen_disp_event_def term_schedule_update_def term_schedule_tblink_def term_schedule_cblink_def
      term_schedule_vbell_def term_invalidate_def update_sbar_def ldisc_send_event_def set_erase_char_def deselect_def
      check_selection_def check_cursor_selection_def to_bottom_def set_state_def move_def echoedit_update_def
      seen_if_def Let_def)

section \<open>Lines, scrolling and erasing\<close>

named_theorems framed_ops

lemma framed_scrlineptr [framed_ops]: "behind s t \<Longrightarrow> framed s (scrlineptr y t)"
  unfolding scrlineptr_def by (intro framed_rules) simp

lemma framed_edit_line [framed_ops]: "behind s t \<Longrightarrow> framed s (edit_line y f t)"
  unfolding edit_line_def by (intro framed_rules) simp

lemma framed_check_boundary [framed_ops]: "behind s t \<Longrightarrow> framed s (check_boundary x y t)"
  unfolding check_boundary_def by (intro framed_rules framed_ops) simp_all

lemma framed_scroll_back_one [framed_ops]: "behind s t \<Longrightarrow> framed s (scroll_back_one cf a b t)"
  unfolding scroll_back_one_def by (intro framed_rules) simp

lemma framed_scroll_on_one [framed_ops]: "behind s t \<Longrightarrow> framed s (scroll_on_one cf a b False t)"
  unfolding scroll_on_one_def Let_def by (intro framed_rules) simp_all

lemma framed_repeat:
  assumes "\<And>u. behind s u \<Longrightarrow> framed s (f u)"
  shows "behind s t \<Longrightarrow> framed s (repeat_op n f t)"
  by (induction n arbitrary: t) (auto intro!: framed_bind assms)

lemma framed_scroll [framed_ops]: 
  assumes "behind s t" 
  shows "framed s (scroll cf a b n sb t)"
proof (cases "alt_which (scr s)")
  case True
  with assms have "alt_which (scr t)" by (auto simp: behind_def backdrop_def)
  then show ?thesis
    unfolding scroll_def Let_def using assms by (auto intro!: framed_repeat framed_ops)
next
  case False
  then show ?thesis by (simp add: framed_def behind_def)
qed

lemma framed_erase_at [framed_ops]: "behind s t \<Longrightarrow> framed s (erase_at cf b p t)"
  unfolding erase_at_def Let_def by (intro framed_rules framed_ops) simp_all

lemma framed_erase_all [framed_ops]: "behind s t \<Longrightarrow> framed s (erase_all cf b ps t)"
  by (induction ps arbitrary: t) (auto intro!: framed_bind framed_ops)

lemma behind_tempsblines:
  "behind s t \<Longrightarrow> \<not> alt_which (scr t) \<Longrightarrow> behind s (set_scr f t)"
  by (auto simp: behind_def backdrop_def)

lemma framed_erase_lots [framed_ops]: "behind s t \<Longrightarrow> framed s (erase_lots cf a b c t)"
  unfolding erase_lots_def Let_def
  by (intro framed_rules framed_ops; simp add: behind_tempsblines)

lemma framed_insch_selection [framed_ops]: "behind s t \<Longrightarrow> framed s (insch_selection a b t)"
  unfolding insch_selection_def Let_def by (intro framed_rules; simp)

lemma framed_insch [framed_ops]: "behind s t \<Longrightarrow> framed s (insch cf n t)"
  unfolding insch_def Let_def by (intro framed_rules framed_ops; simp)

lemma framed_save_cursor [framed_ops]: "behind s t \<Longrightarrow> framed s (save_cursor b t)"
  unfolding save_cursor_def Let_def by (intro framed_rules; simp)

section \<open>The printer\<close>

lemma framed_flush_loop [framed_ops]: "behind s t \<Longrightarrow> framed s (print_flush_loop n t)"
proof (induction n arbitrary: t)
  case 0
  then show ?case by (subst print_flush_loop.simps) (simp add: Let_def)
next
  case (Suc n)
  then show ?case
    unfolding print_flush_loop.simps[of "Suc n"] Let_def nat.case
    by (intro framed_rules framed_val [where 'a = bufchain] Suc.IH; simp)
qed

lemma framed_finish_loop [framed_ops]: "behind s t \<Longrightarrow> framed s (print_finish_loop n t)"
proof (induction n arbitrary: t)
  case 0
  then show ?case by (subst print_finish_loop.simps) (simp add: Let_def)
next
  case (Suc n)
  then show ?case
    unfolding print_finish_loop.simps[of "Suc n"] Let_def nat.case
    by (intro framed_rules framed_val [where 'a = bufchain] Suc.IH; simp)
qed

lemma framed_print_flush [framed_ops]: "behind s t \<Longrightarrow> framed s (term_print_flush t)"
  unfolding term_print_flush_def by (intro framed_ops)

lemma framed_print_finish [framed_ops]: "behind s t \<Longrightarrow> framed s (term_print_finish t)"
  unfolding term_print_finish_def by (intro framed_rules framed_ops; simp)

lemma behind_print_setup [simp]: "behind s (term_print_setup p t) = behind s t"
  by (simp add: term_print_setup_def)

section \<open>Characters\<close>

lemma framed_compat: "framed s (f t) \<Longrightarrow> behind s t \<Longrightarrow> framed s (compatibility x f t)"
  by (simp add: compatibility_def)

lemmas framed_intros = framed_rules framed_compat

lemma behind_selection [simp]: "behind s (check_cursor_selection t) = behind s t"
  by (simp add: check_cursor_selection_def)

lemma framed_rubout [framed_ops]: "behind s t \<Longrightarrow> framed s (rubout cf t)"
  unfolding rubout_def Let_def by (intro framed_intros framed_ops; simp)

lemma behind_bell [simp]: "behind s (term_bell cf t) = behind s t"
  by (simp add: term_bell_def Let_def)

lemma behind_backspace [simp]: "behind s (backspace t) = behind s t"
  by (simp add: backspace_def)

lemma framed_index_down [framed_ops]: "behind s t \<Longrightarrow> framed s (index_down cf t)"
  unfolding index_down_def by (intro framed_intros framed_ops; simp)

lemma framed_index_up [framed_ops]: "behind s t \<Longrightarrow> framed s (index_up cf t)"
  unfolding index_up_def by (intro framed_intros framed_ops; simp)

lemma framed_carriage_return [framed_ops]: "behind s t \<Longrightarrow> framed s (carriage_return cf t)"
  unfolding carriage_return_def Let_def by (intro framed_intros framed_ops; simp)

lemma framed_line_feed [framed_ops]: "behind s t \<Longrightarrow> framed s (line_feed cf t)"
  unfolding line_feed_def Let_def by (intro framed_intros framed_ops; simp)

lemma framed_form_feed [framed_ops]: "behind s t \<Longrightarrow> framed s (form_feed cf t)"
  unfolding form_feed_def Let_def by (intro framed_intros framed_ops; simp)

lemma framed_tabulate [framed_ops]: "behind s t \<Longrightarrow> framed s (tabulate cf t)"
  unfolding tabulate_def Let_def by (intro framed_intros framed_ops; simp)

lemma framed_c0_control [framed_ops]: "behind s t \<Longrightarrow> framed s (c0_control cf c t)"
  unfolding c0_control_def by (intro framed_intros framed_ops; simp)

lemma framed_wrap_line [framed_ops]: "behind s t \<Longrightarrow> framed s (wrap_line cf t)"
  unfolding wrap_line_def by (intro framed_intros framed_ops; simp)

lemma framed_put_wide [framed_ops]: "behind s t \<Longrightarrow> framed s (put_wide cf c t)"
  unfolding put_wide_def Let_def by (intro framed_intros framed_ops; simp)

lemma framed_put_narrow [framed_ops]: "behind s t \<Longrightarrow> framed s (put_narrow c t)"
  unfolding put_narrow_def by (intro framed_intros framed_ops; simp)

lemma framed_put_combining [framed_ops]: "behind s t \<Longrightarrow> framed s (put_combining cf c t)"
  unfolding put_combining_def Let_def by (intro framed_intros framed_ops; simp)

lemma framed_advance [framed_ops]: "behind s t \<Longrightarrow> framed s (advance cf t)"
  unfolding advance_def Let_def by (intro framed_intros framed_ops; simp)

lemma fst_bind: "map_option fst (m \<bind> f) = m \<bind> (\<lambda>x. map_option fst (f x))"
  by (cases m) simp_all

lemma framed_graphic: "behind s t \<Longrightarrow> framed s (map_option fst (graphic cf c t))"
  unfolding graphic_def Let_def fst_bind if_distrib [of "map_option fst"] option.map fst_conv
  by (intro framed_intros framed_ops; simp)

section \<open>Escape sequences\<close>

lemma framed_align_rows [framed_ops]: "behind s t \<Longrightarrow> framed s (align_rows cf n t)"
  by (induction n) (auto intro!: framed_intros framed_ops)

lemma framed_screen_align [framed_ops]: "behind s t \<Longrightarrow> framed s (screen_align cf t)"
  unfolding screen_align_def by (intro framed_intros framed_ops; simp)

lemma framed_set_line_mode [framed_ops]: "behind s t \<Longrightarrow> framed s (set_line_mode m t)"
  unfolding set_line_mode_def by (intro framed_intros framed_ops; simp)

lemma framed_set_tab [framed_ops]: "behind s t \<Longrightarrow> framed s (set_tab b t)"
  unfolding set_tab_def by (intro framed_intros; simp)

lemma behind_cset [simp]: "behind s (set_cset_attr i v t) = behind s t"
  by (simp add: set_cset_attr_def)

lemma framed_designate [framed_ops]: "behind s t \<Longrightarrow> framed s (designate cf l i v t)"
  unfolding designate_def by (intro framed_intros; simp)

lemma framed_switch_utf [framed_ops]: "behind s t \<Longrightarrow> framed s (switch_utf cf b t)"
  unfolding switch_utf_def by (intro framed_intros; simp)

lemma framed_esc_plain: "behind s t \<Longrightarrow> k \<noteq> K CHR ''c'' \<Longrightarrow> framed s (esc_plain cf k t)"
  unfolding esc_plain_def by (intro framed_intros framed_ops; simp)

lemma framed_esc_other [framed_ops]: "behind s t \<Longrightarrow> framed s (esc_other cf k t)"
  unfolding esc_other_def by (intro framed_intros framed_ops; simp)

lemma ANSI_low_byte: "take_bit 8 (c + push_bit 8 w) = take_bit 8 (c :: 32 word)"
  by transfer (simp add: take_bit_eq_mod push_bit_eq_mult mod_mult_self1 mod_mod_cancel)

lemma ANSI_char: "c < 0x100 \<Longrightarrow> ANSI c q = k \<Longrightarrow> c = take_bit 8 k"
  using ANSI_low_byte[of c "word_of_int q"] by (simp add: ANSI_def take_bit_eq_mod word_less_def word_mod_def flip: ANSI_low_byte)

lemma framed_esc_char: "behind s t \<Longrightarrow> c < 0x100 \<Longrightarrow> c \<noteq> K CHR ''c'' \<Longrightarrow> framed s (esc_char cf c t)"
  unfolding esc_char_def Let_def using ANSI_char[of c _ "K CHR ''c''"]
  by (intro framed_intros framed_ops framed_esc_plain; auto simp: take_bit_eq_mod)

lemma framed_do_osc [framed_ops]: "behind s t \<Longrightarrow> framed s (do_osc cf t)"
  unfolding do_osc_def Let_def by (intro framed_intros; simp)

lemma framed_osc_maybe_st: "behind s t \<Longrightarrow> c < 0x100 \<Longrightarrow> c \<noteq> K CHR ''c'' \<Longrightarrow> framed s (osc_maybe_st cf c t)"
  unfolding osc_maybe_st_def by (intro framed_intros framed_ops framed_esc_char; simp)

section \<open>Control sequences\<close>

lemma behind_pen_ops [simp]:
  "behind s (pen_attr f t) = behind s t" "behind s (set_fg c t) = behind s t" "behind s (set_bg c t) = behind s t"
  by (simp_all add: set_fg_def set_bg_def pen_attr_def)

lemma framed_move_seen [framed_ops]: "behind s t \<Longrightarrow> framed s (move_seen x y c t)"
  by (simp add: move_seen_def)

lemma framed_csi_cursor [framed_ops]: "behind s t \<Longrightarrow> framed s (csi_cursor k t)"
  unfolding csi_cursor_def Let_def by (intro framed_intros framed_ops; simp)

lemma framed_erase_display:
  "behind s t \<Longrightarrow> word_of_int (arg 0 t) \<noteq> (3 :: 32 word) \<Longrightarrow> framed s (erase_display cf t)"
  unfolding erase_display_def Let_def by (simp only: if_False) (intro framed_intros framed_ops; simp)

lemma framed_erase_in_line [framed_ops]: "behind s t \<Longrightarrow> framed s (erase_in_line cf t)"
  unfolding erase_in_line_def by (intro framed_intros framed_ops; simp)

lemma framed_shift_lines [framed_ops]: "behind s t \<Longrightarrow> framed s (shift_lines cf n b t)"
  unfolding shift_lines_def by (intro framed_intros framed_ops; simp)

lemma framed_insch_seen [framed_ops]: "behind s t \<Longrightarrow> framed s (insch_seen cf n t)"
  unfolding insch_seen_def by (intro framed_intros framed_ops; simp)

lemma framed_scroll_region [framed_ops]: "behind s t \<Longrightarrow> framed s (scroll_region cf n t)"
  unfolding scroll_region_def by (intro framed_intros framed_ops; simp)

lemma framed_erase_chars [framed_ops]: "behind s t \<Longrightarrow> framed s (erase_chars cf t)"
  unfolding erase_chars_def Let_def by (intro framed_intros framed_ops; simp)

lemma framed_csi_edit:
  "behind s t \<Longrightarrow> (k = K CHR ''J'' \<Longrightarrow> word_of_int (arg 0 t) \<noteq> (3 :: 32 word)) \<Longrightarrow> framed s (csi_edit cf k t)"
  unfolding csi_edit_def Let_def by (intro framed_intros framed_ops framed_erase_display; simp)

lemma behind_modes [simp]:
  "behind s (mode_video b t) = behind s t" "behind s (mode_vt52 cf b t) = behind s t" "behind s (mode_mouse n b t) = behind s t"
  by (simp_all add: mode_video_def mode_vt52_def mode_mouse_def)

text \<open>The modes that reach behind the alternate screen.\<close>

definition screen_mode :: "int \<Rightarrow> bool" where
  "screen_mode a \<longleftrightarrow> a = 3 \<or> a = 47 \<or> a = 1047 \<or> a = 1049"

lemma framed_dec_mode: "behind s t \<Longrightarrow> \<not> screen_mode a \<Longrightarrow> framed s (dec_mode cf a b t)"
  unfolding dec_mode_def screen_mode_def by (intro framed_intros framed_ops; simp)

lemma framed_ansi_mode: "behind s t \<Longrightarrow> framed s (ansi_mode cf a b t)"
  unfolding ansi_mode_def by (intro framed_intros; simp)

lemma framed_toggle_all:
  "behind s t \<Longrightarrow> (q \<Longrightarrow> \<forall>a\<in>set as. \<not> screen_mode a) \<Longrightarrow> framed s (toggle_all cf as q b t)"
proof (induction "as" arbitrary: t)
  case (Cons a "as")
  have "framed s (toggle_mode cf a q b t)"
    unfolding toggle_mode_def by (intro framed_if framed_dec_mode framed_ansi_mode) (use Cons.prems in auto)
  then show ?case unfolding toggle_all.simps by (rule framed_bind) (use Cons in auto)
qed simp

lemma framed_set_modes:
  "behind s t \<Longrightarrow> (esc_query (esc t) \<noteq> 0 \<Longrightarrow> \<forall>a\<in>set (take (esc_nargs (esc t)) (esc_args (esc t))). \<not> screen_mode a)
    \<Longrightarrow> framed s (set_modes cf b t)"
  unfolding set_modes_def by (rule framed_toggle_all)

lemma framed_media_copy [framed_ops]: "behind s t \<Longrightarrow> framed s (media_copy cf t)"
  unfolding media_copy_def by (intro framed_intros framed_ops; simp)

lemma framed_clear_tabs [framed_ops]: "behind s t \<Longrightarrow> framed s (clear_tabs t)"
  unfolding clear_tabs_def by (intro framed_intros framed_ops; simp)

lemma behind_margins [simp]: "behind s (set_margins t) = behind s t"
  by (simp add: set_margins_def Let_def)

lemma behind_compat_then: "(\<And>u. behind s (f u) = behind s u) \<Longrightarrow> behind s (compat_then x f t) = behind s t"
  by (simp add: compat_then_def)

lemma behind_sgr_one [simp]: "behind s (sgr_one cf a t) = behind s t"
  by (simp add: sgr_one_def sgr_sco_acs_def blink_unreal_def behind_compat_then)

lemma behind_sgr_loop [simp]: "behind s (sgr_loop cf as t) = behind s t"
  by (induction cf "as" t rule: sgr_loop.induct) (auto split: list.split)

lemma behind_rendition [simp]: "behind s (set_rendition cf t) = behind s t"
  by (simp add: set_rendition_def)

lemma behind_reports [simp]:
  "behind s (status_report cf t) = behind s t" "behind s (request_size cf w h t) = behind s t"
  "behind s (title_report cf c ti t) = behind s t" "behind s (request_parameters cf t) = behind s t"
  by (simp_all add: status_report_def request_size_def title_report_def request_parameters_def Let_def)

lemma behind_window_report [simp]: "behind s (window_report cf t) = behind s t"
  by (simp add: window_report_def Let_def)

lemma framed_window_ops [framed_ops]: "behind s t \<Longrightarrow> framed s (window_ops cf t)"
  unfolding window_ops_def Let_def by (intro framed_intros; simp)

lemma framed_back_tabulate [framed_ops]: "behind s t \<Longrightarrow> framed s (back_tabulate t)"
  unfolding back_tabulate_def Let_def by (intro framed_intros; simp)

lemma framed_csi_mode:
  "behind s t \<Longrightarrow> (k \<in> {K CHR ''h'', ANSI (K CHR ''h'') 1, K CHR ''l'', ANSI (K CHR ''l'') 1} \<Longrightarrow> esc_query (esc t) \<noteq> 0 \<Longrightarrow>
      \<forall>a\<in>set (take (esc_nargs (esc t)) (esc_args (esc t))). \<not> screen_mode a)
    \<Longrightarrow> framed s (csi_mode cf k t)"
  unfolding csi_mode_def by (intro framed_intros framed_ops framed_set_modes; auto)

lemma behind_private [simp]:
  "behind s (set_lines cf t) = behind s t" "behind s (set_columns cf t) = behind s t" "behind s (sco_cursor t) = behind s t"
  "behind s (sco_foreground t) = behind s t" "behind s (sco_background t) = behind s t" "behind s (compat_level t) = behind s t"
  "behind s (blink_unreal t) = behind s t"
  by (simp_all add: set_lines_def set_columns_def sco_cursor_def sco_foreground_def sco_background_def compat_level_def
      blink_unreal_def Let_def)

lemma framed_csi_private [framed_ops]: "behind s t \<Longrightarrow> framed s (csi_private cf k t)"
  unfolding csi_private_def by (intro framed_intros; simp)

text \<open>
  The characters that reach behind the alternate screen: the end of \<open>ESC c\<close>, of \<open>CSI 3 J\<close>, and
  of \<open>CSI ? \<dots> h\<close> and \<open>CSI ? \<dots> l\<close> with one of the modes above among the arguments.
\<close>

definition reaches_behind :: "32 word \<Rightarrow> terminal \<Rightarrow> bool" where
  "reaches_behind c t \<longleftrightarrow>
     (termstate (esc t) = SEEN_ESC \<or> termstate (esc t) = OSC_MAYBE_ST) \<and> c = K CHR ''c''
   \<or> termstate (esc t) = SEEN_CSI
     \<and> (c = K CHR ''J'' \<and> word_of_int (arg 0 t) = (3 :: 32 word)
        \<or> (c = K CHR ''h'' \<or> c = K CHR ''l'') \<and> esc_query (esc t) \<noteq> 0
          \<and> list_ex screen_mode (take (esc_nargs (esc t)) (esc_args (esc t))))"

lemma framed_csi_char:
  assumes "behind s t" "c < 0x100" "termstate (esc t) = SEEN_CSI" "\<not> reaches_behind c t"
  shows "framed s (csi_char cf c t)"
proof -
  define t1 where "t1 = set_state TOPLEVEL t"
  have t1: "behind s t1" "esc t1 = (esc t)\<lparr>termstate := TOPLEVEL\<rparr>"
    using assms(1) by (simp_all add: t1_def) (simp add: set_state_def set_esc_def)
  have c: "c = take_bit 8 (ANSI c q)" for q by (rule ANSI_char[OF assms(2) refl])
  have n: "c = K CHR ''J'' \<Longrightarrow> word_of_int (arg 0 t1) \<noteq> (3 :: 32 word)"
      "c = K CHR ''h'' \<or> c = K CHR ''l'' \<Longrightarrow> esc_query (esc t1) \<noteq> 0 \<Longrightarrow>
        \<forall>a\<in>set (take (esc_nargs (esc t1)) (esc_args (esc t1))). \<not> screen_mode a"
    using assms(3,4) by (auto simp: reaches_behind_def t1(2) arg_def list_ex_iff)
  have e: "framed s (csi_edit cf (ANSI c q) t1)" for q
    by (rule framed_csi_edit[OF t1(1)]) (use n(1) c[of q] in \<open>simp add: take_bit_eq_mod\<close>)
  have m: "framed s (csi_mode cf (ANSI c q) t1)" for q
  proof (rule framed_csi_mode[OF t1(1)])
    assume k: "ANSI c q \<in> {K CHR ''h'', ANSI (K CHR ''h'') 1, K CHR ''l'', ANSI (K CHR ''l'') 1}" and q: "esc_query (esc t1) \<noteq> 0"
    have "c = K CHR ''h'' \<or> c = K CHR ''l''"
      using k c[of q] ANSI_low_byte[of "K CHR ''h''" 1] ANSI_low_byte[of "K CHR ''l''" 1] by (auto simp: ANSI_def take_bit_eq_mod)
    then show "\<forall>a\<in>set (take (esc_nargs (esc t1)) (esc_args (esc t1))). \<not> screen_mode a" using n(2) q by blast
  qed
  have d: "framed s (csi_digit c t1)" using t1(1) unfolding csi_digit_def Let_def by (intro framed_intros; simp)
  show ?thesis
    unfolding csi_char_def csi_final_def Let_def t1_def[symmetric] using t1(1)
    by (intro framed_if framed_csi_cursor e m d framed_csi_private) (simp_all add: csi_semicolon_def csi_intermediate_def)
qed

section \<open>Strings and VT52 sequences\<close>

lemma behind_osc [simp]: "behind s (osc_digit c t) = behind s t" "behind s (osc_begin t) = behind s t"
  by (simp_all add: osc_digit_def osc_begin_def)

lemma framed_osc_char [framed_ops]: "behind s t \<Longrightarrow> framed s (osc_char cf c t)"
  unfolding osc_char_def Let_def by (intro framed_intros; simp)

lemma framed_osc_string_char [framed_ops]: "behind s t \<Longrightarrow> framed s (osc_string_char cf c t)"
  unfolding osc_string_char_def by (intro framed_intros framed_ops; simp)

lemma framed_palette_char [framed_ops]: "behind s t \<Longrightarrow> framed s (palette_char c t)"
  unfolding palette_char_def Let_def by (auto split: option.split)

lemma behind_osc_w [simp]: "behind s (osc_w_char c t) = behind s t"
  by (simp add: osc_w_char_def)

lemma framed_vt52_reset_line [framed_ops]: "behind s t \<Longrightarrow> framed s (vt52_reset_line cf t)"
  unfolding vt52_reset_line_def by (intro framed_intros framed_ops; simp)

lemma framed_vt52_up [framed_ops]: "behind s t \<Longrightarrow> framed s (vt52_up cf t)"
  unfolding vt52_up_def by (intro framed_intros framed_ops; simp)

lemma framed_bottom_after [framed_ops]: "framed s m \<Longrightarrow> framed s (bottom_after cf m)"
  unfolding bottom_after_def by (erule framed_bind) simp

lemma framed_vt52_shift [framed_ops]: "behind s t \<Longrightarrow> framed s (vt52_shift cf n b t)"
  unfolding vt52_shift_def by (intro framed_intros framed_ops; simp)

lemma behind_vt52 [simp]:
  "behind s (vt52_bold_to b t) = behind s t" "behind s (vt52_foreground c t) = behind s t"
  "behind s (vt52_background c t) = behind s t"
  by (simp_all add: vt52_bold_to_def vt52_foreground_def vt52_background_def)

lemma framed_vt52_char [framed_ops]: "behind s t \<Longrightarrow> framed s (vt52_char cf c t)"
  unfolding vt52_char_def Let_def by (intro framed_intros framed_ops; simp)

section \<open>Output\<close>

lemma fst_plain: "map_option fst (map_option (\<lambda>t. (t, b)) m) = m"
  by (cases m) simp_all

lemma framed_dispatch:
  assumes "behind s t" "\<not> reaches_behind c t" "termstate (esc t) = TOPLEVEL \<or> c < 0x100"
  shows "framed s (map_option fst (dispatch cf c t))"
  unfolding dispatch_def Let_def if_distrib [of "map_option fst"] fst_plain
proof (intro framed_if framed_rubout framed_c0_control assms(1))
  have e: "framed s (esc_char cf c t)" if "termstate (esc t) = SEEN_ESC"
    by (rule framed_esc_char[OF assms(1)]) (use that assms in \<open>auto simp: reaches_behind_def\<close>)
  have o: "framed s (osc_maybe_st cf c t)" if "termstate (esc t) = OSC_MAYBE_ST"
    by (rule framed_osc_maybe_st[OF assms(1)]) (use that assms in \<open>auto simp: reaches_behind_def\<close>)
  have k: "framed s (csi_char cf c t)" if "termstate (esc t) = SEEN_CSI"
    by (rule framed_csi_char[OF assms(1) _ that]) (use that assms in auto)
  show "framed s (map_option fst (case termstate (esc t) of
          TOPLEVEL \<Rightarrow> graphic cf c t
        | OSC_MAYBE_ST \<Rightarrow> map_option (\<lambda>t'. (t', False)) (osc_maybe_st cf c t)
        | SEEN_ESC \<Rightarrow> map_option (\<lambda>t'. (t', False)) (esc_char cf c t)
        | SEEN_CSI \<Rightarrow> map_option (\<lambda>t'. (t', False)) (csi_char cf c t)
        | SEEN_OSC \<Rightarrow> map_option (\<lambda>t'. (t', False)) (osc_char cf c t)
        | OSC_STRING \<Rightarrow> map_option (\<lambda>t'. (t', False)) (osc_string_char cf c t)
        | SEEN_OSC_P \<Rightarrow> map_option (\<lambda>t'. (t', False)) (palette_char c t)
        | SEEN_OSC_W \<Rightarrow> map_option (\<lambda>t'. (t', False)) (Some (osc_w_char c t))
        | VT52_ESC \<Rightarrow> map_option (\<lambda>t'. (t', False)) (vt52_char cf c t)
        | VT52_Y1 \<Rightarrow> map_option (\<lambda>t'. (t', False)) (Some (move (curs_x t) (sint (c - 0x20)) 0 (set_state VT52_Y2 t)))
        | VT52_Y2 \<Rightarrow> map_option (\<lambda>t'. (t', False)) (Some (move (sint (c - 0x20)) (curs_y t) 0 (set_state TOPLEVEL t)))
        | VT52_FG \<Rightarrow> map_option (\<lambda>t'. (t', False)) (Some (vt52_foreground c t))
        | VT52_BG \<Rightarrow> map_option (\<lambda>t'. (t', False)) (Some (vt52_background c t))
        | DO_CTRLS \<Rightarrow> map_option (\<lambda>t'. (t', False)) (Some t)))"
    using assms(1) e o k
    by (cases "termstate (esc t)")
      (simp_all add: fst_plain framed_graphic framed_osc_char framed_osc_string_char framed_palette_char framed_vt52_char
        del: option.map)
qed

lemma framed_process_char:
  assumes "behind s t" "\<not> reaches_behind c t" "termstate (esc t) = TOPLEVEL \<or> c < 0x100"
  shows "framed s (process_char cf c t)"
proof -
  obtain c1 t1 where e: "c1_control c t = (c1, t1)" by (cases "c1_control c t")
  have p: "behind s t1" "\<not> reaches_behind c1 t1" "termstate (esc t1) = TOPLEVEL \<or> c1 < 0x100"
  proof -
    have h: "0x40 + (c AND 0x1F) \<noteq> K CHR ''c'' \<and> 0x40 + (c AND 0x1F) < 0x100"
    proof -
      have "c AND 0x1F \<le> 0x1F" by (rule word_and_le1)
      then show ?thesis by (auto simp: word_le_def word_less_def uint_word_ariths(1) word_uint_eq_iff)
    qed
    show "behind s t1" using e assms(1) by (auto simp: c1_control_def split: if_splits)
    show "\<not> reaches_behind c1 t1" "termstate (esc t1) = TOPLEVEL \<or> c1 < 0x100"
      using e assms(2,3) h by (auto simp: c1_control_def reaches_behind_def set_esc_def split: if_splits)
  qed
  show ?thesis
    using framed_dispatch[OF p, of cf]
    by (cases "dispatch cf c1 t1") (auto simp: process_char_def e)
qed

lemma framed_print_byte: "behind s t \<Longrightarrow> framed s (map_option fst (print_byte c t))"
  unfolding print_byte_def Let_def fst_bind if_distrib [of "map_option fst"] option.map fst_conv
  by (intro framed_intros framed_ops; simp)

lemma behind_decoded:
  assumes "behind s t"
  shows "case translate cf c t of Skip u \<Rightarrow> behind s u | Char x u \<Rightarrow> behind s u | Unget u \<Rightarrow> behind s u"
  using assms by (simp add: translate_def decode_utf8_def utf8_start_def Let_def split: option.split)

lemma byte_small: "(ucast (b :: byte) :: 32 word) < 0x100"
  using uint_lt2p[of b] by (simp add: word_less_def unsigned_ucast_eq take_bit_eq_mod)

lemma framed_out_char:
  assumes t: "behind s t" "term_ok t" and r: "\<not> reaches_behind (ucast c) t"
  shows "framed s (map_option fst (term_out_char cf c t))"
proof -
  obtain t1 p where p: "print_byte c t = Some (t1, p)" "good_step t t1"
    by (rule satE[OF print_byte_step[OF t(2), of c]]) auto
  have e1: "esc t1 = esc t" using p(2) by (simp add: good_step_def)
  have b1: "behind s t1" using framed_print_byte[OF t(1), of c] p(1) by simp
  have d: "decoded_ok c t1 (translate cf c t1)" by (rule translate_ok[OF good_stepD(1)[OF p(2)]])
  have top: "termstate (esc u) = TOPLEVEL \<Longrightarrow> behind s u \<Longrightarrow> framed s (process_char cf x u)" for x u
    by (rule framed_process_char) (simp_all add: reaches_behind_def)
  show ?thesis
  proof (cases "p")
    case True
    then show ?thesis using p(1) b1 by (simp add: term_out_char_def)
  next
    case False
    have f: "framed s (map_option fst (case translate cf c t1 of Skip t2 \<Rightarrow> Some (t2, False)
            | Char c' t2 \<Rightarrow> map_option (\<lambda>t3. (t3, False)) (process_char cf c' t2)
            | Unget t2 \<Rightarrow> map_option (\<lambda>t3. (t3, True)) (process_char cf UCSERR t2)))"
    proof (cases "termstate (esc t1) = TOPLEVEL")
      case True
      then show ?thesis
        using behind_decoded[OF b1, of cf c] d top
        by (auto simp: decoded_ok_def decoding_def fst_plain split: decoded.splits)
    next
      case False
      have "\<not> reaches_behind (ucast c) t1" using r e1 by (simp add: reaches_behind_def arg_def)
      then have "framed s (process_char cf (ucast c) t1)"
        by (rule framed_process_char[OF b1]) (simp add: byte_small)
      then show ?thesis using False by (simp add: translate_def fst_plain)
    qed
    then show ?thesis using p(1) False by (simp add: term_out_char_def)
  qed
qed

lemma framed_byte:
  assumes t: "behind s t" "term_ok t" and r: "\<not> reaches_behind (ucast c) t" and f: "digit_fits (ucast c) t"
  shows "framed s (term_out_loop cf [c] t)"
proof -
  obtain t1 again where o: "term_out_char cf c t = Some (t1, again)" "byte_step t (t1, again)"
    by (rule satE[OF term_out_char_step[OF t(2) f, of cf]]) auto
  have b: "behind s t1" using framed_out_char[OF t r, of cf] o(1) by simp
  show ?thesis
  proof (cases again)
    case True
    have "termstate (esc t1) = TOPLEVEL" "term_ok t1" using o(2) True out_stepD by (auto simp: byte_step_def)
    then have "framed s (map_option fst (term_out_char cf c t1))" by (intro framed_out_char b) (simp_all add: reaches_behind_def)
    then show ?thesis using o(1) True by (cases "term_out_char cf c t1") auto
  qed (use o(1) b in simp)
qed

text \<open>No byte of a run reaches behind the alternate screen.\<close>

fun stays_in_front :: "config \<Rightarrow> byte list \<Rightarrow> terminal \<Rightarrow> bool" where
  "stays_in_front cf [] t = True"
| "stays_in_front cf (c # cs) t =
     (\<not> reaches_behind (ucast c) t \<and> (case term_out_loop cf [c] t of None \<Rightarrow> True | Some t' \<Rightarrow> stays_in_front cf cs t'))"

lemma framed_loop:
  "behind s t \<Longrightarrow> term_ok t \<Longrightarrow> numbers_fit cf cs t \<Longrightarrow> stays_in_front cf cs t \<Longrightarrow> framed s (term_out_loop cf cs t)"
proof (induction cs arbitrary: t)
  case (Cons c cs)
  have p: "digit_fits (ucast c) t" "\<not> reaches_behind (ucast c) t" using Cons.prems(3,4) by simp_all
  obtain u where u: "term_out_loop cf [c] t = Some u" "out_step t u"
    by (rule satE[OF term_out_byte[OF Cons.prems(2) p(1)]])
  have "behind s u" by (rule framedD[OF framed_byte[OF Cons.prems(1,2) p(2,1)] u(1)])
  then have "framed s (term_out_loop cf cs u)"
    using Cons.IH[of u] Cons.prems(3,4) u out_stepD[OF u(2)] by (simp del: term_out_loop.simps)
  then show ?case unfolding term_out_loop_Cons[of cf c cs] u(1) by simp
qed simp

lemma framed_term_out:
  "behind s t \<Longrightarrow> term_ok t \<Longrightarrow> numbers_fit cf cs t \<Longrightarrow> stays_in_front cf cs t \<Longrightarrow> framed s (term_out cf cs t)"
  unfolding term_out_def by (intro framed_bind framed_loop framed_print_flush)

text \<open>The bytes that can do so are four letters; any output without them stays in front.\<close>

lemma letters_reach: "reaches_behind (ucast (b :: byte)) t \<Longrightarrow> b \<in> of_char ` set ''cJhl''"
proof -
  assume r: "reaches_behind (ucast b) t"
  have "uint (ucast b :: 32 word) = uint b"
    using uint_lt2p[of b] by (simp add: unsigned_ucast_eq take_bit_eq_mod)
  then show ?thesis using r by (auto simp: reaches_behind_def word_uint_eq_iff)
qed

lemma plain_stays: "set bs \<inter> of_char ` set ''cJhl'' = {} \<Longrightarrow> stays_in_front cf bs t"
proof (induction bs arbitrary: t)
  case (Cons b bs)
  have "\<not> reaches_behind (ucast b) u" for u using letters_reach[of b u] Cons.prems by auto
  then show ?case using Cons by (auto split: option.split simp del: term_out_loop.simps)
qed simp

end
