(* ===== verification/Term_Alt.thy ===== *)
theory Term_Alt
  imports Term_Frame Term_Text
begin

text \<open>
  The alternate screen: a program that switches to it and back leaves the primary screen, the
  scrollback, the cursor and the attributes as they were, whatever it writes in between that
  does not reach behind the alternate screen.
\<close>

definition saved_state :: "terminal \<Rightarrow> saved" where
  "saved_state t = \<lparr>savecurs = curs (now t), save_attr = curr_attr (pen t), save_cset = cset (now t),
     save_csattr = cset_attr (pen t) ! cset (now t), save_utf = utf (now t), save_wnext = wrapnext (now t),
     save_sco_acs = sco_acs (now t)\<rparr>"

lemma mode_1049:
  assumes "\<not> no_alt_screen cf"
  shows "toggle_mode cf 1049 True True t = do { t1 \<leftarrow> save_cursor True t;
      compatibility CL_OTHER (\<lambda>t. do { u \<leftarrow> swap_screen cf True True False (deselect t); Some (to_bottom cf u) }) t1 }"
    "toggle_mode cf 1049 True False t =
      compatibility CL_OTHER (\<lambda>t. do { u \<leftarrow> swap_screen cf False True False (deselect t); w \<leftarrow> save_cursor False u;
        Some (to_bottom cf w) }) (seen_disp_event t)"
  using assms by (simp_all add: toggle_mode_def dec_mode_def seen_if_def alternate_def)

lemma save_cursor_state: "term_ok t \<Longrightarrow> save_cursor True t = Some (t\<lparr>sav := saved_state t\<rparr>)"
  by (simp add: save_cursor_def saved_state_def index_line_def term_ok_def good_half_def good_pen_def)

text \<open>What stands behind the alternate screen when it is entered from \<open>t\<close>.\<close>

definition left_behind :: "terminal \<Rightarrow> terminal \<Rightarrow> bool" where
  "left_behind t u \<longleftrightarrow>
     backdrop u = (rows t, columns t, now t, saved_state t, True, screen (scr t), scrollback (scr t), tempsblines (scr t))"

lemma left_behindD:
  assumes "left_behind t u"
  shows "rows u = rows t" "columns u = columns t" "alt u = now t" "alt_sav u = saved_state t" "alt_which (scr u)"
    "alt_screen (scr u) = screen (scr t)" "scrollback (scr u) = scrollback (scr t)" "tempsblines (scr u) = tempsblines (scr t)"
  using assms by (simp_all add: left_behind_def backdrop_def)

lemma left_behind_stays: "left_behind t u \<Longrightarrow> behind u v \<Longrightarrow> left_behind t v"
  using left_behindD(5)[of t u] by (simp add: left_behind_def behind_def)

lemma to_alternate:
  assumes t: "term_ok t" "\<not> alt_which (scr t)" and c: "\<not> no_alt_screen cf" "has_compat CL_OTHER t"
  shows "sat (toggle_mode cf 1049 True True t)
    (\<lambda>u. term_ok u \<and> left_behind t u \<and> esc u = esc t \<and> mode u = mode t \<and> prn u = prn t \<and> now u = now t)"
proof -
  define a where "a = deselect (t\<lparr>sav := saved_state t\<rparr>)"
  have "good_step t (t\<lparr>sav := saved_state t\<rparr>)"
    using save_cursor_step[OF t(1), of True] save_cursor_state[OF t(1)] by simp
  then have a: "term_ok a" unfolding a_def by (intro kept_wf[OF kept_deselect] good_stepD(1))
  have af: "scr a = scr t" "now a = now t" "pen a = pen t" "rows a = rows t" "columns a = columns t" "sav a = saved_state t"
      "esc a = esc t" "mode a = mode t" "prn a = prn t"
    by (simp_all add: a_def deselect_def set_sel_def)
  obtain n where n: "find_last_nonempty_line a (screen (scr a)) = Some n" using find_last_total[OF a wf_screen(2)[OF a]] by blast
  define b where "b = set_scr (\<lambda>s. s\<lparr>alt_which := True, screen := alt_screen s, alt_screen := screen s, alt_sblines := n + 1\<rparr>)
    (a\<lparr>now := now a, alt := now a, sav := sav a, alt_sav := sav a\<rparr>)"
  have b: "term_ok b"
    using a by (simp add: b_def term_ok_def set_scr_def good_scr_def)
  have s: "swap_screen cf True True False a = (if screen (scr b) \<noteq> [] then erase_lots cf False True True b else Some b)"
    using t(2) af(1) n by (simp add: swap_screen_def b_def)
  have ne: "screen (scr b) \<noteq> []" using wf_screen(1)[OF b] wf_pos[OF b] by auto
  obtain v where v: "erase_lots cf False True True b = Some v" "kept b v" by (rule satE[OF erase_lots_kept[OF b]])
  have lb: "left_behind t b" using af by (simp add: left_behind_def backdrop_def b_def set_scr_def)
  have nr: "near b v" "term_ok v" using v(2) by (simp_all add: kept_def)
  have "framed b (erase_lots cf False True True b)" by (rule framed_erase_lots) simp
  then have lv: "left_behind t (to_bottom cf v)" by (intro left_behind_stays[OF lb]) (simp add: framedD[OF _ v(1)])
  have tb: "term_ok (to_bottom cf v)" using nr(2) by (simp add: to_bottom_def set_scr_def term_ok_def good_scr_def)
  have "toggle_mode cf 1049 True True t = Some (to_bottom cf v)"
    using c s ne v(1) by (simp add: mode_1049[OF c(1)] save_cursor_state[OF t(1)] compatibility_def has_compat_def a_def[symmetric])
  then show ?thesis
    using tb lv nearD[OF nr(1)] af by (simp add: b_def set_scr_def) (simp add: to_bottom_def set_scr_def)
qed

text \<open>
  The terminal \<open>w\<close> shows again what \<open>t\<close> showed.  A pending wrap is given up when the cursor is
  not at the last column.
\<close>

definition restored :: "terminal \<Rightarrow> terminal \<Rightarrow> bool" where
  "restored t w \<longleftrightarrow>
     \<not> alt_which (scr w) \<and> screen (scr w) = screen (scr t) \<and> scrollback (scr w) = scrollback (scr t)
   \<and> rows w = rows t \<and> columns w = columns t
   \<and> now w = (now t)\<lparr>wrapnext := wrapnext (now t) \<and> curs_x t = columns t - 1\<rparr>
   \<and> curr_attr (pen w) = curr_attr (pen t) \<and> cset_attr (pen w) ! cset (now t) = cset_attr (pen t) ! cset (now t)"

lemma from_alternate:
  assumes t: "term_ok t" and v: "term_ok v" "left_behind t v" and c: "\<not> no_alt_screen cf" "has_compat CL_OTHER v"
  shows "sat (toggle_mode cf 1049 True False v) (\<lambda>w. term_ok w \<and> restored t w \<and> esc w = esc v \<and> mode w = mode v \<and> prn w = prn v)"
proof -
  note l = left_behindD[OF v(2)]
  define a where "a = deselect (seen_disp_event v)"
  have af: "scr a = scr v" "pen a = pen v" "rows a = rows v" "columns a = columns v" "alt a = alt v" "alt_sav a = alt_sav v"
      "esc a = esc v" "mode a = mode v" "prn a = prn v"
    by (simp_all add: a_def deselect_def set_sel_def seen_disp_event_def term_schedule_update_def set_disp_def)
  obtain n where "find_last_nonempty_line v (screen (scr v)) = Some n" using find_last_total[OF v(1) wf_screen(2)[OF v(1)]] by blast
  then have n: "find_last_nonempty_line a (screen (scr a)) = Some n" by (simp add: find_last_nonempty_line_def af)
  define b where "b = set_scr (\<lambda>s. s\<lparr>alt_which := False, screen := alt_screen s, alt_screen := screen s, alt_sblines := n + 1\<rparr>)
    (a\<lparr>now := alt a, alt := now a, sav := alt_sav a, alt_sav := sav a\<rparr>)"
  have s: "swap_screen cf False True False a = Some b"
    using l(5) af(1) n by (simp add: swap_screen_def b_def)
  have bf: "now b = now t" "sav b = saved_state t" "screen (scr b) = screen (scr t)" "scrollback (scr b) = scrollback (scr t)"
      "\<not> alt_which (scr b)" "columns b = columns t" "rows b = rows t" "pen b = pen v" "esc b = esc v" "mode b = mode v" "prn b = prn v"
    using l af by (simp_all add: b_def set_scr_def)
  have p: "curs_x t < columns t" "curs_y t < rows t" "cset (now t) < 2" "length (cset_attr (pen v)) = 2"
    using wf_pos[OF t] t v(1) by (simp_all add: term_ok_def good_half_def good_pen_def)
  have e: "toggle_mode cf 1049 True False v = do { w \<leftarrow> save_cursor False b; Some (to_bottom cf w) }"
    using c s by (simp add: mode_1049[OF c(1)] compatibility_def has_compat_def a_def seen_disp_event_def term_schedule_update_def set_disp_def)
  have "(now t)\<lparr>curs := \<lparr>py = curs_y t, px = curs_x t\<rparr>, wrapnext := wrapnext (now t) \<and> \<not> curs_x t < columns t - 1\<rparr>
      = (now t)\<lparr>wrapnext := wrapnext (now t) \<and> curs_x t = columns t - 1\<rparr>"
    using p(1) by (cases "now t") auto
  then have "sat (toggle_mode cf 1049 True False v) (\<lambda>w. restored t w \<and> esc w = esc v \<and> mode w = mode v \<and> prn w = prn v)"
    using p bf e by (auto simp: restored_def save_cursor_def Let_def saved_state_def to_bottom_def set_scr_def set_pen_def set_erase_char_def)
  then show ?thesis
    using toggle_mode_ok[OF v(1), of cf 1049 True False] by (auto simp: sat_def ok_step_def)
qed

section \<open>The sequences\<close>

text \<open>\<open>ESC [ ? 1049 h\<close> and \<open>ESC [ ? 1049 l\<close>, and the terminals that can read them.\<close>

definition alt_on :: "byte list" where "alt_on = ESC # bytes ''[?1049h''"
definition alt_off :: "byte list" where "alt_off = ESC # bytes ''[?1049l''"

definition at_rest :: "config \<Rightarrow> terminal \<Rightarrow> bool" where
  "at_rest cf t \<longleftrightarrow> listening cf t \<and> has_compat CL_VT100 t \<and> has_compat CL_OTHER t"

text \<open>The parser after \<open>ESC [ ?\<close> and the digits of \<open>v\<close>.\<close>

definition in_private :: "int \<Rightarrow> terminal \<Rightarrow> terminal" where
  "in_private v t = set_esc (\<lambda>p. p\<lparr>termstate := SEEN_CSI, esc_args := v # drop 1 (esc_args p), esc_nargs := 1, esc_query := 1\<rparr>) t"

lemma in_private_state [simp]:
  "termstate (esc (in_private v t)) = SEEN_CSI" "prn (in_private v t) = prn t"
  "check_cursor_selection (in_private v t) = in_private v (check_cursor_selection t)"
  by (simp_all add: in_private_def set_esc_def) (simp add: check_cursor_selection_def check_selection_def deselect_def set_sel_def)

lemma query_byte:
  assumes "\<not> printing (prn t)"
  shows "term_out_loop cf (0x3F # bs) (in_csi [0] t) = term_out_loop cf bs (in_private 0 (check_cursor_selection t))"
proof -
  have "csi_char cf 0x3F (in_csi [0] t) = Some (in_private 0 t)"
    by (simp add: csi_char_def csi_intermediate_def in_csi_def in_private_def set_esc_def set_state_def)
  then show ?thesis
    using out_step_byte[of "in_csi [0] t" cf "0x3F" bs] csi_char_step[of "in_csi [0] t" "0x3F" cf] assms by simp
qed

lemma private_digit:
  assumes "\<not> printing (prn t)" "d < 10"
  shows "term_out_loop cf (of_nat (48 + d) # bs) (in_private v t)
    = term_out_loop cf bs (in_private (wrap32 (10 * v + int d)) (check_cursor_selection t))"
proof -
  let ?c = "of_nat (48 + d) :: 32 word"
  have c: "?c \<ge> K CHR ''0'' \<and> ?c \<le> K CHR ''9''" "0x20 \<le> ?c" "?c < 0x7F"
    using digit_byte(1)[OF assms(2)] assms(2) by (simp_all add: word_le_def word_less_def)
  have "csi_char cf ?c (in_private v t) = csi_digit ?c (set_state TOPLEVEL (in_private v t))"
    unfolding csi_char_def Let_def using c(1) by (simp only: simp_thms if_True)
  also have "\<dots> = Some (in_private (wrap32 (10 * v + int d)) t)"
    using digit_byte(1)[OF assms(2)] by (simp add: csi_digit_def in_private_def set_esc_def set_state_def ARGS_MAX_def)
  finally show ?thesis
    using out_step_byte[of "in_private v t" cf "of_nat (48 + d)" bs] csi_char_step[of "in_private v t" ?c cf] c(2,3)
      digit_byte(2)[OF assms(2)] assms(1) by simp
qed

definition ready_1049 :: "terminal \<Rightarrow> terminal" where
  "ready_1049 t = set_state TOPLEVEL (in_private 1049 (check_cursor_selection t))"

lemma ready_fields [simp]:
  "scr (ready_1049 t) = scr t" "now (ready_1049 t) = now t" "pen (ready_1049 t) = pen t" "mode (ready_1049 t) = mode t"
  "prn (ready_1049 t) = prn t" "rows (ready_1049 t) = rows t" "columns (ready_1049 t) = columns t"
  "saved_state (ready_1049 t) = saved_state t" "has_compat x (ready_1049 t) = has_compat x t"
  "listening cf (ready_1049 t) = listening cf t" if "termstate (esc t) = TOPLEVEL"
  using that by (simp_all add: ready_1049_def in_private_def set_state_def set_esc_def saved_state_def has_compat_def listening_def)

lemma ready_behind: "left_behind s t \<Longrightarrow> left_behind s (ready_1049 t)"
  by (erule left_behind_stays) (simp add: ready_1049_def in_private_def)

lemma ready_ok: "term_ok t \<Longrightarrow> term_ok (ready_1049 t)"
proof -
  assume t: "term_ok t"
  let ?u = "check_cursor_selection t"
  let ?f = "\<lambda>p. p\<lparr>esc_args := 1049 # drop 1 (esc_args p), esc_nargs := 1, esc_query := 1, termstate := TOPLEVEL\<rparr>"
  have u: "term_ok ?u" using check_cursor_selection_step[OF good_step_refl[OF t]] by (rule good_stepD(1))
  have "good_esc (?f (esc ?u))" using wf_esc[OF u] by (simp add: good_esc_def ARGS_MAX_def)
  then have "term_ok (set_esc ?f ?u)" by (rule wf_set_esc[OF u])
  then show ?thesis by (simp add: ready_1049_def in_private_def set_state_def set_esc_def)
qed

lemma private_final:
  assumes t: "termstate (esc t) = TOPLEVEL" "\<not> printing (prn t)" "has_compat CL_VT100 t" and b: "b = (if on then 0x68 else 0x6C)"
  shows "term_out_loop cf [b] (in_private 1049 (check_cursor_selection t))
    = map_option check_cursor_selection (toggle_mode cf 1049 True on (ready_1049 t))"
proof -
  let ?p = "in_private 1049 (check_cursor_selection t)" and ?c = "if on then 0x68 else 0x6C :: 32 word"
  have m: "csi_mode cf (ANSI ?c 1) (ready_1049 t) = compatibility CL_VT100 (set_modes cf on) (ready_1049 t)"
    by (simp add: csi_mode_def ANSI_def)
  have s: "set_modes cf on (ready_1049 t) = toggle_mode cf 1049 True on (ready_1049 t)"
    by (cases "toggle_mode cf 1049 True on (ready_1049 t)")
      (simp_all add: set_modes_def ready_1049_def in_private_def set_state_def set_esc_def)
  have "csi_char cf ?c ?p = toggle_mode cf 1049 True on (ready_1049 t)"
  proof -
    have "esc_query (esc (ready_1049 t)) = 1" by (simp add: ready_1049_def in_private_def set_state_def set_esc_def)
    then have "csi_char cf ?c ?p = csi_final cf (ANSI ?c 1) (ready_1049 t)"
      by (simp add: csi_char_def ready_1049_def[symmetric])
    also have "\<dots> = csi_mode cf (ANSI ?c 1) (ready_1049 t)"
      by (simp add: csi_final_def ANSI_def)
    also have "\<dots> = toggle_mode cf 1049 True on (ready_1049 t)"
      unfolding m compatibility_def using t(1,3) s by simp
    finally show ?thesis .
  qed
  then have p: "process_char cf ?c ?p = map_option check_cursor_selection (toggle_mode cf 1049 True on (ready_1049 t))"
    using csi_char_step[of ?p ?c cf] by simp
  show ?thesis
    using out_step_byte[of ?p cf b "[]"] p t(2) b
    by (cases "toggle_mode cf 1049 True on (ready_1049 t)") (auto simp del: term_out_loop.simps(2))
qed

lemma switch_bytes:
  assumes t: "term_ok t" "at_rest cf t"
  shows "term_out_loop cf (if on then alt_on else alt_off) t
    = map_option check_cursor_selection (toggle_mode cf 1049 True on (ready_1049 t))"
proof -
  have l: "listening cf t" "termstate (esc t) = TOPLEVEL" "\<not> printing (prn t)" "has_compat CL_VT100 t"
    using t(2) by (simp_all add: at_rest_def listening_def)
  have a: "length (esc_args (esc t)) = ARGS_MAX" using wf_esc[OF t(1)] by (simp add: good_esc_def)
  let ?u = "check_cursor_selection t"
  have d: "term_out_loop cf (0x31 # bs) (in_private 0 ?u) = term_out_loop cf bs (in_private 1 ?u)"
      "term_out_loop cf (0x30 # bs) (in_private 1 ?u) = term_out_loop cf bs (in_private 10 ?u)"
      "term_out_loop cf (0x34 # bs) (in_private 10 ?u) = term_out_loop cf bs (in_private 104 ?u)"
      "term_out_loop cf (0x39 # bs) (in_private 104 ?u) = term_out_loop cf bs (in_private 1049 ?u)" for bs
    using private_digit[of ?u 1 cf bs 0] private_digit[of ?u 0 cf bs 1] private_digit[of ?u 4 cf bs 10]
      private_digit[of ?u 9 cf bs 104] l(3) by (simp_all add: wrap32_def del: term_out_loop.simps)
  have q: "term_out_loop cf (0x3F # bs) (in_csi [0] ?u) = term_out_loop cf bs (in_private 0 ?u)" for bs
    using query_byte[of ?u cf bs] l(3) by (simp del: term_out_loop.simps)
  have b: "(if on then alt_on else alt_off) = 0x1B # of_char CHR ''['' # 0x3F # 0x31 # 0x30 # 0x34 # 0x39 # [if on then 0x68 else 0x6C]"
    by (simp add: alt_on_def alt_off_def ESC_def bytes_def)
  show ?thesis
    unfolding b escape_start[OF l(1) a] q d by (rule private_final[OF l(2-4) refl])
qed

lemma switch_out:
  assumes t: "term_ok t" "at_rest cf t" and c: "\<not> no_alt_screen cf"
    and m: "toggle_mode cf 1049 True on (ready_1049 t) = Some u" "esc u = esc (ready_1049 t)" "prn u = prn t"
  shows "term_out cf (if on then alt_on else alt_off) t = Some (check_cursor_selection u)"
proof -
  have "term_print_flush (check_cursor_selection u) = Some (check_cursor_selection u)"
    by (rule no_flush) (use t(2) m(3) in \<open>simp add: at_rest_def listening_def\<close>)
  then show ?thesis unfolding term_out_def switch_bytes[OF t] m(1) by simp
qed

lemma enter_alternate:
  assumes t: "term_ok t" "at_rest cf t" "\<not> alt_which (scr t)" and c: "\<not> no_alt_screen cf"
  shows "\<exists>u. term_out cf alt_on t = Some u \<and> term_ok u \<and> left_behind t u
    \<and> esc u = esc (ready_1049 t) \<and> mode u = mode t \<and> prn u = prn t \<and> now u = now t"
proof -
  have top: "termstate (esc t) = TOPLEVEL" "has_compat CL_OTHER t" using t(2) by (simp_all add: at_rest_def listening_def)
  note f = ready_fields[OF top(1)]
  obtain x where x: "toggle_mode cf 1049 True True (ready_1049 t) = Some x" "term_ok x" "left_behind (ready_1049 t) x"
      "esc x = esc (ready_1049 t)" "prn x = prn t" "mode x = mode t" "now x = now t"
    by (rule satE[OF to_alternate[OF ready_ok[OF t(1)] _ c]]) (use f t(3) top(2) in auto)
  have "left_behind t x" using x(3) f by (simp add: left_behind_def)
  then have "left_behind t (check_cursor_selection x)" by (rule left_behind_stays) simp
  moreover have "term_ok (check_cursor_selection x)"
    using check_cursor_selection_step[OF good_step_refl[OF x(2)]] by (rule good_stepD(1))
  ultimately show ?thesis using switch_out[OF t(1,2) c x(1,4,5)] x(4-7) by simp
qed

lemma leave_alternate:
  assumes t: "term_ok t" and v: "term_ok v" "at_rest cf v" "left_behind t v" and c: "\<not> no_alt_screen cf"
  shows "\<exists>w. term_out cf alt_off v = Some w \<and> restored t w"
proof -
  have top: "termstate (esc v) = TOPLEVEL" "has_compat CL_OTHER v" using v(2) by (simp_all add: at_rest_def listening_def)
  note f = ready_fields[OF top(1)]
  obtain w where w: "toggle_mode cf 1049 True False (ready_1049 v) = Some w" "restored t w" "esc w = esc (ready_1049 v)" "prn w = prn v"
    by (rule satE[OF from_alternate[OF t ready_ok[OF v(1)] ready_behind[OF v(3)] c]]) (use f top(2) in auto)
  have "restored t (check_cursor_selection w)" using w(2) by (simp add: restored_def)
  then show ?thesis using switch_out[OF v(1,2) c w(1,3,4)] by auto
qed

text \<open>
  Claim C6: leaving the alternate screen restores the primary one, whatever was written in
  between.  On a well-formed terminal that is between sequences and shows the primary screen,
  the bytes \<open>ESC [ ? 1049 h\<close> show the alternate screen.  Then any output without an overflowing
  number, text, control characters and every control sequence, is processed and leaves the
  alternate screen shown, except for the end of a sequence that reaches behind it
  (\<open>stays_in_front\<close>): \<open>ESC c\<close>, \<open>CSI 3 J\<close> and the modes 3, 47, 1047 and 1049.  When that output
  ends between sequences, the bytes \<open>ESC [ ? 1049 l\<close> bring back every line of the primary
  screen and of the scrollback, the position of the cursor, the margins and modes kept per
  screen, the attribute and the character set (\<open>restored\<close>).
\<close>

theorem alternate_screen_restores:
  assumes "term_ok t" "at_rest cf t" "\<not> alt_which (scr t)" "\<not> no_alt_screen cf"
  shows "\<exists>u. term_out cf alt_on t = Some u \<and> term_ok u \<and> alt_which (scr u)
    \<and> (\<forall>bs. numbers_fit cf bs u \<longrightarrow> stays_in_front cf bs u \<longrightarrow>
        (\<exists>v. term_out cf bs u = Some v \<and> term_ok v \<and> alt_which (scr v)
          \<and> (at_rest cf v \<longrightarrow> (\<exists>w. term_out cf alt_off v = Some w \<and> restored t w))))"
proof -
  obtain u where u: "term_out cf alt_on t = Some u" "term_ok u" "left_behind t u" using enter_alternate[OF assms] by blast
  have "\<exists>v. term_out cf bs u = Some v \<and> term_ok v \<and> alt_which (scr v)
      \<and> (at_rest cf v \<longrightarrow> (\<exists>w. term_out cf alt_off v = Some w \<and> restored t w))"
    if bs: "numbers_fit cf bs u" "stays_in_front cf bs u" for bs
  proof -
    obtain v where v: "term_out cf bs u = Some v" "term_ok v"
      by (rule satE[OF term_out_defined[OF u(2) bs(1)]]) (auto simp: out_step_def)
    have l: "left_behind t v"
      by (rule left_behind_stays[OF u(3) framedD[OF framed_term_out[OF behind_refl u(2) bs] v(1)]])
    then show ?thesis using v left_behindD(5)[OF l] leave_alternate[OF assms(1) v(2) _ l assms(4)] by blast
  qed
  then show ?thesis using u left_behindD(5)[OF u(3)] by blast
qed

section \<open>A program on the alternate screen\<close>

definition writing :: "config \<Rightarrow> int \<Rightarrow> terminal \<Rightarrow> bool" where
  "writing cf x t \<longleftrightarrow>
     term_ok t \<and> termstate (esc t) = TOPLEVEL \<and> utf_state (esc t) = 0 \<and> \<not> printing (prn t)
   \<and> in_utf cf t \<and> \<not> wrapnext (now t) \<and> \<not> insert_mode (now t) \<and> curs_x t = x"

lemma write_char:
  assumes t: "writing cf x t" and b: "text_byte cf b" and x: "x + 1 < columns t"
  shows "\<exists>t'. term_out_char cf b t = Some (t', False) \<and> writing cf (x + 1) t' \<and> columns t' = columns t
    \<and> esc t' = esc t \<and> mode t' = mode t \<and> prn t' = prn t"
proof -
  note d = t[unfolded writing_def]
  have t0: "term_ok t" using d by simp
  obtain t1 where t1: "scrlineptr (curs_y t) t = Some t1" "kept t t1" by (rule satE[OF scrline_step[OF t0]]) auto
  define t4 where "t4 = check_cursor_selection t1"
  have n1: "near t t1" and "term_ok t4"
    using t1(2) check_cursor_selection_step[OF good_step_refl] good_stepD(1) by (auto simp: kept_def t4_def)
  obtain a where a: "put_narrow (shown b) t4 = Some a" "kept t4 a"
    by (rule satE[OF put_narrow_kept[OF \<open>term_ok t4\<close> shown_char_bits(5)]])
  have na: "near t4 a" using a(2) by (simp add: kept_def)
  note f = nearD[OF n1] nearD[OF na]
  define v where "v = seen_disp_event (set_curs (curs_x a + 1) (curs_y a) a)"
  have v: "esc v = esc t" "mode v = mode t" "prn v = prn t" "columns v = columns t" "curs_x v = x + 1"
      "wrapnext (now v) = wrapnext (now t)" "insert_mode (now v) = insert_mode (now t)" "utf (now v) = utf (now t)"
    using f d by (simp_all add: v_def t4_def seen_disp_event_def term_schedule_update_def set_disp_def set_curs_def)
  have adv: "advance cf a = Some v" using f d x by (simp add: advance_def Let_def v_def set_curs_def t4_def)
  have g: "graphic cf (shown b) t = Some (v, False)"
    using t1(1) f d a(1) adv shown_char_bits(1)[of b] by (simp add: graphic_def char_width_def t4_def)
  have p: "process_char cf (shown b) t = Some (check_cursor_selection v)"
    using d g shown_char_bits by (simp add: process_char_def c1_control_def dispatch_def)
  have tr: "translate cf b t = Char (shown b) t"
  proof -
    have "b < 0x80" using b by (auto simp: text_byte_def word_less_def)
    then show ?thesis using d b by (simp add: text_byte_def translate_def decode_utf8_def Let_def ascii_char_def shown_def)
  qed
  have o: "term_out_char cf b t = Some (check_cursor_selection v, False)"
    using d tr p by (simp add: term_out_char_def print_byte_def)
  have "term_ok (check_cursor_selection v)"
    using graphic_step[OF t0 shown_char_bits(5)[of b], of cf] shown_char_bits(6)[of b] g
      check_cursor_selection_step[THEN good_stepD(1)] by auto
  then show ?thesis using o v d by (auto simp: writing_def in_utf_def)
qed

lemma write_text:
  "writing cf x t \<Longrightarrow> \<forall>b\<in>set bs. text_byte cf b \<Longrightarrow> x + int (length bs) < columns t \<Longrightarrow>
   \<exists>t'. term_out_loop cf bs t = Some t' \<and> esc t' = esc t \<and> mode t' = mode t \<and> prn t' = prn t"
proof (induction bs arbitrary: x t)
  case (Cons b bs)
  obtain u where u: "term_out_char cf b t = Some (u, False)" "writing cf (x + 1) u" "columns u = columns t"
      "esc u = esc t" "mode u = mode t" "prn u = prn t"
    using write_char[OF Cons.prems(1), of b] Cons.prems(2,3) by auto
  then show ?case using Cons.IH[OF u(2)] Cons.prems(2,3) by auto
qed simp

theorem alternate_screen_restores_witness:
  "\<exists>u v w. term_out sample_config alt_on (sample_terminal 24 80 0) = Some u \<and> alt_which (scr u)
    \<and> term_out sample_config (bytes ''menu: (q)uit, (p)rint'') u = Some v \<and> alt_which (scr v)
    \<and> term_out sample_config alt_off v = Some w \<and> restored (sample_terminal 24 80 0) w"
proof -
  let ?t = "sample_terminal 24 80 0" and ?bs = "bytes ''menu: (q)uit, (p)rint''"
  have t: "term_ok ?t" by (rule sample_ok) simp_all
  have "has_compat CL_VT100 ?t" "has_compat CL_OTHER ?t"
    by (simp_all add: sample_terminal_def has_compat_def CL_OTHER_def CL_VT100_def TM_PUTTY_def)
  then have r: "at_rest sample_config ?t" by (simp add: at_rest_def sample_listening)
  have a: "\<not> alt_which (scr ?t)" "\<not> no_alt_screen sample_config"
    by (simp_all add: sample_terminal_def sample_config_def)
  obtain u where u: "term_out sample_config alt_on ?t = Some u" "term_ok u" "left_behind ?t u" "esc u = esc (ready_1049 ?t)"
      "mode u = mode ?t" "prn u = prn ?t" "now u = now ?t" using enter_alternate[OF t r a] by blast
  have top: "termstate (esc ?t) = TOPLEVEL" using r by (simp add: at_rest_def listening_def)
  have e: "termstate (esc u) = TOPLEVEL" "utf_state (esc u) = 0" "compatibility_level (esc u) = compatibility_level (esc ?t)"
    using u(4) by (simp_all add: ready_1049_def in_private_def set_state_def set_esc_def sample_terminal_def)
  have "writing sample_config 0 u"
    using u(2) e u(5-7) by (simp add: writing_def in_utf_def) (simp add: sample_terminal_def sample_half_def)
  then obtain v0 where v0: "term_out_loop sample_config ?bs u = Some v0" "esc v0 = esc u" "mode v0 = mode u" "prn v0 = prn u"
    using write_text[of sample_config 0 u ?bs] left_behindD(2)[OF u(3)]
    by (auto simp: bytes_def text_byte_def sample_config_def sample_terminal_def)
  have r0: "at_rest sample_config v0"
    using r e v0(2-4) u(5,6) by (simp add: at_rest_def listening_def has_compat_def)
  have o: "term_out sample_config ?bs u = Some v0"
    using v0(1) no_flush[of v0] r0 by (simp add: term_out_def at_rest_def listening_def)
  have s: "stays_in_front sample_config ?bs u" by (rule plain_stays) (simp add: bytes_def)
  have n: "numbers_fit sample_config ?bs u"
    by (rule no_digits_fit[OF u(2)]) (simp add: bytes_def digit_char_def)
  show ?thesis using alternate_screen_restores[OF t r a] u(1) o s n r0 by auto
qed

end
