(* ===== verification/Ldiscucs.thy ===== *)
theory Ldiscucs
  imports Ldisc_Props Term_Sample
begin

text \<open>
  The wide-character side of the line discipline, \<open>putty/ldiscucs.c\<close>: what the user types is
  encoded as UTF-8 (or in the code page of the line) and handed to \<open>ldisc_send\<close>.  The terminal
  decodes UTF-8 that comes back; the two agree.  The conversions between code pages and the
  hook that sends a line to several sessions are parameters.
\<close>

section \<open>UTF-16 and UTF-8\<close>

definition IS_HIGH_SURROGATE :: "32 word \<Rightarrow> bool" where
  "IS_HIGH_SURROGATE c \<longleftrightarrow> c \<ge> 0xD800 \<and> c \<le> 0xDBFF"

definition IS_LOW_SURROGATE :: "32 word \<Rightarrow> bool" where
  "IS_LOW_SURROGATE c \<longleftrightarrow> c \<ge> 0xDC00 \<and> c \<le> 0xDFFF"

definition IS_SURROGATE_PAIR :: "32 word \<Rightarrow> 32 word \<Rightarrow> bool" where
  "IS_SURROGATE_PAIR hs ls \<longleftrightarrow> IS_HIGH_SURROGATE hs \<and> IS_LOW_SURROGATE ls"

definition IS_SURROGATE :: "32 word \<Rightarrow> bool" where
  "IS_SURROGATE c \<longleftrightarrow> c \<ge> 0xD800 \<and> c \<le> 0xDFFF"

definition FROM_SURROGATES :: "32 word \<Rightarrow> 32 word \<Rightarrow> 32 word" where
  "FROM_SURROGATES c1 c2 = 0x10000 + push_bit 10 (c1 AND 0x3FF) + (c2 AND 0x3FF)"

definition HIGH_SURROGATE_OF :: "32 word \<Rightarrow> 32 word" where
  "HIGH_SURROGATE_OF c = 0xD800 + drop_bit 10 (c - 0x10000)"

definition LOW_SURROGATE_OF :: "32 word \<Rightarrow> 32 word" where
  "LOW_SURROGATE_OF c = 0xDC00 + ((c - 0x10000) AND 0x3FF)"

definition utf8_bytes :: "32 word \<Rightarrow> byte list" where
  "utf8_bytes ch =
     (if ch < 0x80 then [ucast ch]
      else if ch < 0x800 then [ucast (0xC0 OR drop_bit 6 ch), ucast (0x80 OR (ch AND 0x3F))]
      else if ch < 0x10000 then
        [ucast (0xE0 OR drop_bit 12 ch), ucast (0x80 OR (drop_bit 6 ch AND 0x3F)), ucast (0x80 OR (ch AND 0x3F))]
      else
        [ucast (0xF0 OR drop_bit 18 ch), ucast (0x80 OR (drop_bit 12 ch AND 0x3F)),
         ucast (0x80 OR (drop_bit 6 ch AND 0x3F)), ucast (0x80 OR (ch AND 0x3F))])"

text \<open>
  The loop over the wide characters, which are units of UTF-16 on the platform of the program.
  Only a surrogate at the very end becomes a full stop: one that is followed by something else
  than its second half is encoded as it is.
\<close>

fun luni_bytes :: "16 word list \<Rightarrow> byte list" where
  "luni_bytes [] = []"
| "luni_bytes [w] = utf8_bytes (if IS_SURROGATE (ucast w) then 0x2E else ucast w)"
| "luni_bytes (w # w2 # ws) =
     (if IS_SURROGATE (ucast w) \<and> IS_SURROGATE_PAIR (ucast w) (ucast w2)
      then utf8_bytes (FROM_SURROGATES (ucast w) (ucast w2)) @ luni_bytes ws
      else utf8_bytes (ucast w) @ luni_bytes (w2 # ws))"

section \<open>Sending\<close>

text \<open>
  \<open>wc_to_mb\<close> converts to the code page of the line and is \<open>None\<close> where it returns a negative
  number; \<open>scat\<close> is \<open>if_need_cmd_scat\<close>.  The second component of the result is what is handed to
  \<open>cmd_scat\<close> instead of the line discipline.
\<close>

definition luni_send ::
  "world \<Rightarrow> bool \<Rightarrow> (16 word list \<Rightarrow> byte list option) \<Rightarrow> 16 word list \<Rightarrow> bool \<Rightarrow> ldisc \<Rightarrow> (ldisc \<times> byte list) option" where
  "luni_send w scat wc_to_mb widebuf interactive l =
     (let p = (if world.in_utf w then luni_bytes widebuf else case wc_to_mb widebuf of Some bs \<Rightarrow> bs | None \<Rightarrow> []) in
      if p = [] then Some (l, [])
      else if scat then Some (l, p)
      else map_option (\<lambda>l'. (l', [])) (ldisc_send w p (int (length p)) interactive l))"

definition lpage_send ::
  "world \<Rightarrow> bool \<Rightarrow> (16 word list \<Rightarrow> byte list option) \<Rightarrow> (int \<Rightarrow> byte list \<Rightarrow> 16 word list) \<Rightarrow> int \<Rightarrow> byte list \<Rightarrow> int \<Rightarrow>
   bool \<Rightarrow> ldisc \<Rightarrow> (ldisc \<times> byte list) option" where
  "lpage_send w scat wc_to_mb mb_to_wc codepage b len interactive l =
     (if codepage < 0 then map_option (\<lambda>l'. (l', [])) (ldisc_send w b len interactive l)
      else luni_send w scat wc_to_mb (mb_to_wc codepage (take (nat len) b)) interactive l)"

section \<open>What the terminal makes of it\<close>

text \<open>The characters that a run of the decoder yields, at the top level of the parser.\<close>

fun decode_run :: "config \<Rightarrow> byte list \<Rightarrow> terminal \<Rightarrow> 32 word list \<times> terminal" where
  "decode_run cf [] t = ([], t)"
| "decode_run cf (b # bs) t =
     (case decode_utf8 cf b t of
        Skip t' \<Rightarrow> decode_run cf bs t'
      | Char c t' \<Rightarrow> apfst ((#) c) (decode_run cf bs t')
      | Unget t' \<Rightarrow>
          (case decode_utf8 cf b t' of
             Skip t2 \<Rightarrow> apfst ((#) UCSERR) (decode_run cf bs t2)
           | Char c t2 \<Rightarrow> apfst (\<lambda>cs. UCSERR # c # cs) (decode_run cf bs t2)
           | Unget t2 \<Rightarrow> ([UCSERR], t2)))"

text \<open>The characters that the decoder lets through unchanged.\<close>

definition shown_char :: "32 word \<Rightarrow> bool" where
  "shown_char c \<longleftrightarrow>
     0xA0 \<le> c \<and> c \<le> 0x10FFFF \<and> \<not> IS_SURROGATE c \<and> c \<noteq> 0x2028 \<and> c \<noteq> 0x2029
   \<and> \<not> (0xE0000 \<le> c \<and> c \<le> 0xE007F) \<and> c \<noteq> 0xFEFF \<and> c \<noteq> 0xFFFE \<and> c \<noteq> 0xFFFF"

lemma small_bits:
  fixes c :: "32 word"
  shows "c < 0x800 \<Longrightarrow> bit c n \<Longrightarrow> n < 11" "c < 0x10000 \<Longrightarrow> bit c n \<Longrightarrow> n < 16" "c < 0x200000 \<Longrightarrow> bit c n \<Longrightarrow> n < 21"
  using lt_bits[of c 11 n] lt_bits[of c 16 n] lt_bits[of c 21 n] by (simp_all add: word_less_def)

lemma sextets: "push_bit 6 (drop_bit (k + 6) c) OR (drop_bit k c AND 0x3F) = drop_bit k (c :: 32 word)"
  by (rule bit_word_eqI) (simp only: bit_simps bit_word_consts, auto simp: add.commute add.left_commute)

lemma bit_byte_consts:
  fixes n :: nat
  shows "bit (0xF8 :: byte) n \<longleftrightarrow> 3 \<le> n \<and> n < 8" "bit (0xF0 :: byte) n \<longleftrightarrow> 4 \<le> n \<and> n < 8"
    "bit (0xE0 :: byte) n \<longleftrightarrow> 5 \<le> n \<and> n < 8" "bit (0xC0 :: byte) n \<longleftrightarrow> 6 \<le> n \<and> n < 8" "bit (0x80 :: byte) n \<longleftrightarrow> n = 7"
    "bit (0x1F :: byte) n \<longleftrightarrow> n < 5" "bit (0x0F :: byte) n \<longleftrightarrow> n < 4" "bit (0x07 :: byte) n \<longleftrightarrow> n < 3"
proof -
  have m: "(0xF8 :: byte) = push_bit 3 (mask 5)" "(0x07 :: byte) = mask 3" "(0x1F :: byte) = mask 5" "(0x0F :: byte) = mask 4"
    "(0xF0 :: byte) = push_bit 4 (mask 4)" "(0xE0 :: byte) = push_bit 5 (mask 3)" "(0xC0 :: byte) = push_bit 6 (mask 2)"
    "(0x80 :: byte) = 2 ^ 7"
    by (simp_all add: mask_eq_exp_minus_1 push_bit_eq_mult)
  show "bit (0xF8 :: byte) n \<longleftrightarrow> 3 \<le> n \<and> n < 8" "bit (0xF0 :: byte) n \<longleftrightarrow> 4 \<le> n \<and> n < 8"
    "bit (0xE0 :: byte) n \<longleftrightarrow> 5 \<le> n \<and> n < 8" "bit (0xC0 :: byte) n \<longleftrightarrow> 6 \<le> n \<and> n < 8" "bit (0x80 :: byte) n \<longleftrightarrow> n = 7"
    "bit (0x1F :: byte) n \<longleftrightarrow> n < 5" "bit (0x0F :: byte) n \<longleftrightarrow> n < 4" "bit (0x07 :: byte) n \<longleftrightarrow> n < 3"
    unfolding m by (auto simp only: bit_mask_iff bit_push_bit_iff bit_exp_iff possible_bit_word) auto
qed

lemma bit_word_f8: "bit (0xF8 :: 32 word) n \<longleftrightarrow> 3 \<le> n \<and> n < 8" "bit (0x07 :: 32 word) n \<longleftrightarrow> n < 3"
proof -
  have m: "(0xF8 :: 32 word) = push_bit 3 (mask 5)" "(0x07 :: 32 word) = mask 3" by (simp_all add: mask_eq_exp_minus_1 push_bit_eq_mult)
  show "bit (0xF8 :: 32 word) n \<longleftrightarrow> 3 \<le> n \<and> n < 8" "bit (0x07 :: 32 word) n \<longleftrightarrow> n < 3"
    unfolding m by (auto simp only: bit_mask_iff bit_push_bit_iff possible_bit_word) auto
qed

lemma continuation_byte:
  "(ucast (0x80 OR (c AND 0x3F) :: 32 word) :: byte) AND 0xC0 = 0x80"
  "ucast (ucast (0x80 OR (c AND 0x3F) :: 32 word) :: byte) AND 0x3F = (c AND 0x3F :: 32 word)"
  subgoal by (rule bit_word_eqI) (simp only: bit_simps bit_word_consts bit_word_f8 bit_byte_consts, auto)
  subgoal by (rule bit_word_eqI) (simp only: bit_simps bit_word_consts bit_word_f8 bit_byte_consts, auto)
  done

lemma first_byte:
  fixes c :: "32 word"
  shows "c < 0x800 \<Longrightarrow> (ucast (0xC0 OR drop_bit 6 c) :: byte) AND 0xE0 = 0xC0"
    "c < 0x800 \<Longrightarrow> ucast ((ucast (0xC0 OR drop_bit 6 c) :: byte) AND 0x1F) = drop_bit 6 c"
    "c < 0x10000 \<Longrightarrow> (ucast (0xE0 OR drop_bit 12 c) :: byte) AND 0xF0 = 0xE0"
    "c < 0x10000 \<Longrightarrow> ucast ((ucast (0xE0 OR drop_bit 12 c) :: byte) AND 0x0F) = drop_bit 12 c"
    "c < 0x200000 \<Longrightarrow> (ucast (0xF0 OR drop_bit 18 c) :: byte) AND 0xF8 = 0xF0"
    "c < 0x200000 \<Longrightarrow> ucast ((ucast (0xF0 OR drop_bit 18 c) :: byte) AND 0x07) = drop_bit 18 c"
  subgoal by (rule bit_word_eqI) (simp only: bit_simps bit_word_consts bit_word_f8 bit_byte_consts, auto dest: small_bits(1))
  subgoal by (rule bit_word_eqI) (simp only: bit_simps bit_word_consts bit_word_f8 bit_byte_consts, auto dest: small_bits(1))
  subgoal by (rule bit_word_eqI) (simp only: bit_simps bit_word_consts bit_word_f8 bit_byte_consts, auto dest: small_bits(2))
  subgoal by (rule bit_word_eqI) (simp only: bit_simps bit_word_consts bit_word_f8 bit_byte_consts, auto dest: small_bits(2))
  subgoal by (rule bit_word_eqI) (simp only: bit_simps bit_word_consts bit_word_f8 bit_byte_consts, auto dest: small_bits(3))
  subgoal by (rule bit_word_eqI) (simp only: bit_simps bit_word_consts bit_word_f8 bit_byte_consts, auto dest: small_bits(3))
  done

text \<open>A byte has at most one of the prefixes.\<close>

lemma prefix_excludes:
  fixes b :: byte
  shows "b AND 0xE0 = 0xC0 \<Longrightarrow> \<not> b < 0x80"
    "b AND 0xF0 = 0xE0 \<Longrightarrow> \<not> b < 0x80" "b AND 0xF0 = 0xE0 \<Longrightarrow> b AND 0xE0 \<noteq> 0xC0"
    "b AND 0xF8 = 0xF0 \<Longrightarrow> \<not> b < 0x80" "b AND 0xF8 = 0xF0 \<Longrightarrow> b AND 0xE0 \<noteq> 0xC0" "b AND 0xF8 = 0xF0 \<Longrightarrow> b AND 0xF0 \<noteq> 0xE0"
proof -
  have a: "b AND 0xE0 = (b AND 0xF0) AND 0xE0" "b AND 0xE0 = (b AND 0xF8) AND 0xE0" "b AND 0xF0 = (b AND 0xF8) AND 0xF0"
    by (simp_all add: and.assoc)
  have l: "b AND m \<le> b" for m by (rule word_and_le2)
  show "b AND 0xE0 = 0xC0 \<Longrightarrow> \<not> b < 0x80" using l[of "0xE0"] by (auto simp: word_le_def word_less_def)
  show "b AND 0xF0 = 0xE0 \<Longrightarrow> \<not> b < 0x80" using l[of "0xF0"] by (auto simp: word_le_def word_less_def)
  show "b AND 0xF8 = 0xF0 \<Longrightarrow> \<not> b < 0x80" using l[of "0xF8"] by (auto simp: word_le_def word_less_def)
  show "b AND 0xF0 = 0xE0 \<Longrightarrow> b AND 0xE0 \<noteq> 0xC0" by (simp only: a(1)) simp
  show "b AND 0xF8 = 0xF0 \<Longrightarrow> b AND 0xE0 \<noteq> 0xC0" by (simp only: a(2)) simp
  show "b AND 0xF8 = 0xF0 \<Longrightarrow> b AND 0xF0 \<noteq> 0xE0" by (simp only: a(3)) simp
qed

text \<open>The decoder inside a sequence: \<open>n\<close> bytes are to come, \<open>c\<close> is what has been read.\<close>

definition reading :: "nat \<Rightarrow> nat \<Rightarrow> 32 word \<Rightarrow> terminal \<Rightarrow> bool" where
  "reading sz n c t \<longleftrightarrow> utf_size (esc t) = sz \<and> utf_state (esc t) = n \<and> utf_char (esc t) = c"

lemma start_reading: "reading n n (ucast b) (utf8_start n b t)"
  by (simp add: reading_def utf8_start_def set_esc_def)

lemma read_more:
  assumes "reading sz (Suc (Suc n)) (drop_bit (k + 6) c) t" "b = ucast (0x80 OR (drop_bit k c AND 0x3F))"
  shows "\<exists>t'. decode_utf8 cf b t = Skip t' \<and> reading sz (Suc n) (drop_bit k c) t'"
  using assms sextets[of k c]
  by (auto simp: reading_def decode_utf8_def Let_def continuation_byte set_esc_def)

lemma read_last:
  assumes "reading sz 1 (drop_bit 6 c) t" "b = ucast (0x80 OR (c AND 0x3F))" "utf8_filter sz c = Some c"
  shows "\<exists>t'. decode_utf8 cf b t = Char c t' \<and> utf_state (esc t') = 0"
  using assms sextets[of 0 c]
  by (auto simp: reading_def decode_utf8_def Let_def continuation_byte set_esc_def)

lemma shown_passes:
  assumes "shown_char c" "sz = 1 \<or> (sz = 2 \<and> \<not> c < 0x800) \<or> (sz = 3 \<and> \<not> c < 0x10000)"
  shows "utf8_filter sz c = Some c"
proof -
  have n: "\<not> c < 0x80" "\<not> c < 0xA0" "\<not> (c \<ge> 0xD800 \<and> c < 0xE000)" "\<not> c > 0x10FFFF" "c \<noteq> 0x2028" "c \<noteq> 0x2029"
      "\<not> (0xE0000 \<le> c \<and> c \<le> 0xE007F)" "c \<noteq> 0xFEFF" "c \<noteq> 0xFFFE" "c \<noteq> 0xFFFF"
    using assms(1) by (simp_all add: shown_char_def IS_SURROGATE_def word_le_def word_less_def) linarith+
  have "\<not> (c < 0x800 \<and> sz \<ge> 2)" "\<not> (c < 0x10000 \<and> sz \<ge> 3)" "\<not> sz \<ge> 4" "\<not> sz \<ge> 5"
    using assms(2) by (auto simp: word_less_def)
  then show ?thesis
    unfolding utf8_filter_def Let_def using n by (simp only: if_False simp_thms)
qed

lemma shown_range: "shown_char c \<Longrightarrow> \<not> c < 0x80 \<and> c < 0x200000"
  by (auto simp: shown_char_def word_le_def word_less_def)

lemma skip_run: "decode_utf8 cf b t = Skip t' \<Longrightarrow> decode_run cf (b # bs) t = decode_run cf bs t'"
  by simp

lemma char_run:
  assumes "shown_char c" "utf_state (esc t) = 0"
  shows "\<exists>t'. utf_state (esc t') = 0 \<and> (\<forall>bs. decode_run cf (utf8_bytes c @ bs) t = apfst ((#) c) (decode_run cf bs t'))"
proof -
  note range = shown_range[OF assms(1)]
  have start: "decode_utf8 cf b t = Skip (utf8_start 1 (b AND 0x1F) t)" if "b AND 0xE0 = 0xC0" for b
    using that prefix_excludes assms(2) by (simp add: decode_utf8_def Let_def)
  have start2: "decode_utf8 cf b t = Skip (utf8_start 2 (b AND 0x0F) t)" if "b AND 0xF0 = 0xE0" for b
    using that prefix_excludes assms(2) by (simp add: decode_utf8_def Let_def)
  have start3: "decode_utf8 cf b t = Skip (utf8_start 3 (b AND 0x07) t)" if "b AND 0xF8 = 0xF0" for b
    using that prefix_excludes assms(2) by (simp add: decode_utf8_def Let_def)
  have last: "\<exists>t'. utf_state (esc t') = 0 \<and> (\<forall>bs. decode_run cf (ucast (0x80 OR (c AND 0x3F)) # bs) u = apfst ((#) c) (decode_run cf bs t'))"
    if "reading sz 1 (drop_bit 6 c) u" "utf8_filter sz c = Some c" for sz u
    using read_last[OF that(1) refl that(2), of cf] by fastforce
  have more: "\<exists>u'. reading sz (Suc n) (drop_bit k c) u'
      \<and> (\<forall>bs. decode_run cf (ucast (0x80 OR (drop_bit k c AND 0x3F)) # bs) u = decode_run cf bs u')"
    if "reading sz (Suc (Suc n)) (drop_bit (k + 6) c) u" for sz n k u
    using read_more[OF that refl, of cf] by fastforce
  consider "c < 0x800" | "\<not> c < 0x800" "c < 0x10000" | "\<not> c < 0x10000" by blast
  then show ?thesis
  proof cases
    case 1
    have r: "reading 1 1 (drop_bit 6 c) (utf8_start 1 (ucast (0xC0 OR drop_bit 6 c) AND 0x1F) t)"
      using start_reading[of 1] first_byte(2)[OF 1] by metis
    show ?thesis
      using last[OF r shown_passes[OF assms(1)]] range 1 by (simp add: utf8_bytes_def start[OF first_byte(1)[OF 1]])
  next
    case 2
    have r: "reading 2 2 (drop_bit 12 c) (utf8_start 2 (ucast (0xE0 OR drop_bit 12 c) AND 0x0F) t)"
      using start_reading[of 2] first_byte(4)[OF 2(2)] by metis
    obtain u where u: "reading 2 1 (drop_bit 6 c) u"
        "\<And>bs. decode_run cf (ucast (0x80 OR (drop_bit 6 c AND 0x3F)) # bs) (utf8_start 2 (ucast (0xE0 OR drop_bit 12 c) AND 0x0F) t)
           = decode_run cf bs u"
      using more[of 2 0 6] r by (auto simp: numeral_2_eq_2)
    show ?thesis
      using last[OF u(1) shown_passes[OF assms(1)]] range 2
      by (simp add: utf8_bytes_def skip_run[OF start2[OF first_byte(3)[OF 2(2)]]] u(2) del: decode_run.simps(2))
  next
    case 3
    have l: "c < 0x200000" using range by simp
    have r: "reading 3 3 (drop_bit 18 c) (utf8_start 3 (ucast (0xF0 OR drop_bit 18 c) AND 0x07) t)"
      using start_reading[of 3] first_byte(6)[OF l] by metis
    obtain u where u: "reading 3 2 (drop_bit 12 c) u"
        "\<And>bs. decode_run cf (ucast (0x80 OR (drop_bit 12 c AND 0x3F)) # bs) (utf8_start 3 (ucast (0xF0 OR drop_bit 18 c) AND 0x07) t)
           = decode_run cf bs u"
      using more[of 3 1 12] r by (auto simp: numeral_2_eq_2 numeral_3_eq_3)
    obtain v where v: "reading 3 1 (drop_bit 6 c) v"
        "\<And>bs. decode_run cf (ucast (0x80 OR (drop_bit 6 c AND 0x3F)) # bs) u = decode_run cf bs v"
      using more[of 3 0 6] u(1) by (auto simp: numeral_2_eq_2)
    have "\<not> c < 0x800" using 3 by (auto simp: word_le_def word_less_def)
    then show ?thesis
      using last[OF v(1) shown_passes[OF assms(1)]] range 3
      by (simp add: utf8_bytes_def skip_run[OF start3[OF first_byte(5)[OF l]]] u(2) v(2) del: decode_run.simps(2))
  qed
qed

section \<open>Strings\<close>

text \<open>Code points as units of UTF-16, with the macros of \<open>putty.h\<close>.\<close>

definition utf16 :: "32 word \<Rightarrow> 16 word list" where
  "utf16 c = (if c < 0x10000 then [ucast c] else [ucast (HIGH_SURROGATE_OF c), ucast (LOW_SURROGATE_OF c)])"

lemma uint_and_3ff: "uint (c AND 0x3FF :: 32 word) = uint c mod 1024"
  using take_bit_eq_mask[of 10 "uint c"] by (simp add: uint_and take_bit_eq_mod mask_eq_exp_minus_1)

lemma uint_drop_10: "uint (drop_bit 10 (c :: 32 word)) = uint c div 1024"
  by (simp add: drop_bit_eq_div uint_div)

lemma uint_push_10: "uint c < 0x100000 \<Longrightarrow> uint (push_bit 10 (c :: 32 word)) = uint c * 1024"
  by (simp add: push_bit_eq_mult uint_word_ariths)

lemma uint_add_small: "uint (a :: 32 word) + uint b < 0x100000000 \<Longrightarrow> uint (a + b) = uint a + uint b"
  by (simp add: uint_word_ariths)

lemma uint_through_16: "uint (ucast (ucast (c :: 32 word) :: 16 word) :: 32 word) = uint c mod 65536"
  by (simp add: unsigned_ucast_eq take_bit_eq_mod uint_mod)

lemma surrogates_back:
  assumes "\<not> c < 0x10000" "c \<le> 0x10FFFF"
  defines "h \<equiv> ucast (ucast (HIGH_SURROGATE_OF c) :: 16 word)" and "l \<equiv> ucast (ucast (LOW_SURROGATE_OF c) :: 16 word)"
  shows "IS_SURROGATE h" "IS_SURROGATE_PAIR h l" "FROM_SURROGATES h l = c"
proof -
  define d where "d = c - 0x10000"
  have d: "uint d = uint c - 0x10000" "0 \<le> uint d" "uint d < 0x100000"
    using assms(1,2) by (simp_all add: d_def uint_word_ariths word_less_def word_le_def)
  have q: "uint d div 1024 < 1024" "0 \<le> uint d div 1024" "uint d mod 1024 < 1024" "0 \<le> uint d mod 1024"
    using d(2,3) by (simp_all add: div_less_iff_less_mult pos_imp_zdiv_nonneg_iff)
  have h: "uint h = 0xD800 + uint d div 1024"
    using q by (simp add: h_def uint_through_16 HIGH_SURROGATE_OF_def d_def[symmetric] uint_add_small uint_drop_10)
  have l: "uint l = 0xDC00 + uint d mod 1024"
    using q by (simp add: l_def uint_through_16 LOW_SURROGATE_OF_def d_def[symmetric] uint_add_small uint_and_3ff)
  show "IS_SURROGATE h" "IS_SURROGATE_PAIR h l"
    using q by (simp_all add: IS_SURROGATE_def IS_SURROGATE_PAIR_def IS_HIGH_SURROGATE_def IS_LOW_SURROGATE_def word_le_def h l)
  have "uint (h AND 0x3FF) = uint d div 1024"
    using q(1,2) by (simp add: uint_and_3ff h mod_add_left_eq[symmetric, of "0xD800 :: int"])
  moreover have "uint (l AND 0x3FF) = uint d mod 1024"
    by (simp add: uint_and_3ff l mod_add_left_eq[symmetric, of "0xDC00 :: int"])
  ultimately have "uint (FROM_SURROGATES h l) = 0x10000 + uint d div 1024 * 1024 + uint d mod 1024"
    using q by (simp add: FROM_SURROGATES_def uint_add_small uint_push_10 del: push_bit_and)
  also have "\<dots> = uint c" using d(1) by (simp add: mult.commute)
  finally show "FROM_SURROGATES h l = c" by (simp add: word_uint_eq_iff)
qed

lemma small_through_16: "c < 0x10000 \<Longrightarrow> ucast (ucast (c :: 32 word) :: 16 word) = c"
  by (simp add: word_uint_eq_iff uint_through_16 word_less_def)

text \<open>
  A unit that is not a surrogate is encoded by itself wherever it stands, and a pair as one
  character.
\<close>

lemma luni_bytes_step:
  assumes "shown_char c \<or> c < 0x80"
  shows "luni_bytes (utf16 c @ ws) = utf8_bytes c @ luni_bytes ws"
proof (cases "c < 0x10000")
  case True
  have "\<not> IS_SURROGATE c" using assms by (auto simp: shown_char_def IS_SURROGATE_def word_le_def word_less_def)
  then show ?thesis using True by (cases ws) (simp_all add: utf16_def small_through_16)
next
  case False
  then have "c \<le> 0x10FFFF" using assms by (auto simp: shown_char_def word_le_def word_less_def)
  then show ?thesis using surrogates_back[OF False] False by (simp add: utf16_def)
qed

text \<open>Text: the characters that the decoder lets through, and the characters of ASCII.\<close>

definition screen_char :: "config \<Rightarrow> 32 word \<Rightarrow> 32 word" where
  "screen_char cf c = (if c < 0x80 then ascii_char cf (ucast c) else c)"

lemma ascii_run:
  assumes "c < 0x80" "utf_state (esc t) = 0"
  shows "decode_run cf (utf8_bytes c @ bs) t = apfst ((#) (screen_char cf c)) (decode_run cf bs t)"
proof -
  have "uint (ucast c :: byte) = uint c" using assms(1) by (simp add: unsigned_ucast_eq take_bit_eq_mod word_less_def)
  then have "(ucast c :: byte) < 0x80" using assms(1) by (simp add: word_less_def)
  then show ?thesis using assms by (simp add: utf8_bytes_def decode_utf8_def Let_def screen_char_def)
qed

lemma luni_decoded:
  assumes "\<forall>c\<in>set cs. shown_char c \<or> c < 0x80" "utf_state (esc t) = 0"
  shows "\<exists>t'. utf_state (esc t') = 0 \<and> decode_run cf (luni_bytes (concat (map utf16 cs))) t = (map (screen_char cf) cs, t')"
  using assms
proof (induction cs arbitrary: t)
  case (Cons c cs)
  have c: "shown_char c \<or> c < 0x80" "\<forall>c\<in>set cs. shown_char c \<or> c < 0x80" using Cons.prems(1) by auto
  note step = luni_bytes_step[OF c(1)]
  show ?case
  proof (cases "c < 0x80")
    case True
    show ?thesis using Cons.IH[OF c(2) Cons.prems(2)] ascii_run[OF True Cons.prems(2), of cf] by (auto simp: step)
  next
    case False
    then have s: "shown_char c" using c(1) by simp
    obtain t' where t': "utf_state (esc t') = 0"
        "\<And>bs. decode_run cf (utf8_bytes c @ bs) t = apfst ((#) c) (decode_run cf bs t')"
      using char_run[OF s Cons.prems(2), of cf] by blast
    show ?thesis using Cons.IH[OF c(2) t'(1)] t'(2) False by (auto simp: step screen_char_def)
  qed
qed simp

text \<open>The bytes fit the memory that is allocated for them: six bytes for each unit.\<close>

lemma utf8_length: "length (utf8_bytes c) \<le> 4"
  by (simp add: utf8_bytes_def)

lemma luni_fits: "length (luni_bytes ws) \<le> length ws * 3 * 2"
proof (induction ws rule: luni_bytes.induct)
  case (3 w w2 ws)
  then show ?case
    using utf8_length[of "FROM_SURROGATES (ucast w) (ucast w2)"] utf8_length[of "ucast w"] by auto
next
  case (2 w)
  then show ?case using utf8_length[of "0x2E"] utf8_length[of "ucast w"] by simp
qed simp

text \<open>
  A surrogate followed by something that is not its second half is encoded by itself, and the
  terminal shows an error for it; only at the end of the text is it replaced by a full stop.
\<close>

lemma lone_surrogate_encoded:
  "luni_bytes [0xD800, 0x41] = [0xED, 0xA0, 0x80, 0x41]" "luni_bytes [0x41, 0xD800] = [0x41, 0x2E]"
  by (simp_all add: IS_SURROGATE_def IS_SURROGATE_PAIR_def IS_HIGH_SURROGATE_def IS_LOW_SURROGATE_def utf8_bytes_def)

text \<open>
  Claim C8: typed text comes back as it was typed.  When the terminal is in UTF-8 mode and the
  line discipline neither edits nor holds back a line, \<open>luni_send\<close> of the UTF-16 form of any
  characters that a terminal shows, sends one block of bytes to the backend, and echoes the
  same block with local echo; the block fits the memory that is allocated for it, and the
  UTF-8 decoder of the terminal reads exactly the characters that were typed from it, and is
  between characters at its end.
\<close>

theorem typed_text_decoded:
  assumes "\<forall>c\<in>set cs. shown_char c \<or> c < 0x80" "cs \<noteq> []"
    and "world.in_utf w" "localecho l = FORCE_ON" "localedit l = FORCE_OFF" "buf l = []"
    and "utf_state (esc t) = 0"
  shows "\<exists>l' bs es. luni_send w False conv (concat (map utf16 cs)) interactive l = Some (l', [])
     \<and> sent l' = sent l @ es @ [Echo bs, BackSend bs]
     \<and> length bs \<le> length (concat (map utf16 cs)) * 3 * 2
     \<and> fst (decode_run cf bs t) = map (screen_char cf) cs \<and> utf_state (esc (snd (decode_run cf bs t))) = 0"
proof -
  define bs where "bs = luni_bytes (concat (map utf16 cs))"
  obtain t' where d: "utf_state (esc t') = 0" "decode_run cf bs t = (map (screen_char cf) cs, t')"
    using luni_decoded[OF assms(1,7), of cf] bs_def by blast
  have n: "bs \<noteq> []" using d(2) assms(2) by auto
  have "length bs \<le> length (concat (map utf16 cs)) * 3 * 2" unfolding bs_def by (rule luni_fits)
  then show ?thesis
    using d n assms(3-6)
    by (auto simp: luni_send_def bs_def[symmetric] ldisc_send_def EDITING_def ECHOING_def send_direct_def Let_def
        ldisc_events)
qed

theorem typed_text_decoded_witness:
  "\<exists>l' bs es. luni_send (sample_world\<lparr>in_utf := True\<rparr>) False (\<lambda>_. None) (concat (map utf16 [0x41, 0xE9, 0x20AC, 0x1F600])) True
       (sample_ldisc\<lparr>localedit := FORCE_OFF\<rparr>) = Some (l', [])
     \<and> sent l' = sent (sample_ldisc\<lparr>localedit := FORCE_OFF\<rparr>) @ es @ [Echo bs, BackSend bs]
     \<and> length bs \<le> length (concat (map utf16 [0x41, 0xE9, 0x20AC, 0x1F600])) * 3 * 2
     \<and> fst (decode_run sample_config bs (sample_terminal 24 80 0)) = map (screen_char sample_config) [0x41, 0xE9, 0x20AC, 0x1F600]
     \<and> utf_state (esc (snd (decode_run sample_config bs (sample_terminal 24 80 0)))) = 0"
  by (rule typed_text_decoded)
    (simp_all add: shown_char_def IS_SURROGATE_def sample_ldisc_defs sample_terminal_def)

end
