(* ===== verification/Hash.thy ===== *)
theory Hash
  imports Misc
begin

text \<open>
  What the hash functions of \<open>putty/sshmd5.c\<close>, \<open>putty/sshsha.c\<close>, \<open>putty/sshsh256.c\<close> and
  \<open>putty/sshsh512.c\<close> have in common: bytes are collected into blocks, each full block is
  compressed into the state, the number of bytes is counted in limbs of 32 bits, and the end is
  padded.  The locale \<open>streaming_hash\<close> is the interface \<open>ssh_hash\<close> that the MACs use.
\<close>

unbundle bit_operations_syntax

section \<open>Rotations\<close>

definition rol :: "32 word \<Rightarrow> nat \<Rightarrow> 32 word" where
  "rol x y = push_bit y x OR drop_bit (32 - y) x"

section \<open>Blocks\<close>

text \<open>
  The loop \<open>while (blkused + len >= BLKSIZE)\<close> of every \<open>_Bytes\<close> function: \<open>f\<close> compresses one
  block of \<open>n\<close> bytes, \<open>used\<close> are the bytes in the block buffer, \<open>q\<close> the data that are left.
\<close>

function absorb :: "nat \<Rightarrow> ('h \<Rightarrow> byte list \<Rightarrow> 'h) \<Rightarrow> 'h \<Rightarrow> byte list \<Rightarrow> byte list \<Rightarrow> 'h \<times> byte list" where
  "absorb n f h used q =
     (if 0 < n \<and> n \<le> length used + length q
      then absorb n f (f h (used @ take (n - length used) q)) [] (drop (n - length used) q)
      else (h, q))"
  by pat_completeness auto
termination by (relation "measure (\<lambda>(n, f, h, used, q). length used + length q)") auto

declare absorb.simps [simp del]

text \<open>The whole blocks of a message, and what is left.\<close>

function blocks :: "nat \<Rightarrow> byte list \<Rightarrow> byte list list" where
  "blocks n m = (if 0 < n \<and> n \<le> length m then take n m # blocks n (drop n m) else [])"
  by pat_completeness auto
termination by (relation "measure (\<lambda>(n, m). length m)") auto

declare blocks.simps [simp del]

function tail :: "nat \<Rightarrow> byte list \<Rightarrow> byte list" where
  "tail n m = (if 0 < n \<and> n \<le> length m then tail n (drop n m) else m)"
  by pat_completeness auto
termination by (relation "measure (\<lambda>(n, m). length m)") auto

declare tail.simps [simp del]

lemma tail_length: "0 < n \<Longrightarrow> length (tail n m) = length m mod n"
  by (induction n m rule: tail.induct) (subst tail.simps, simp add: le_mod_geq)

lemma blocks_short: "length m < n \<Longrightarrow> blocks n m = []" "length m < n \<Longrightarrow> tail n m = m"
  by (simp_all add: blocks.simps tail.simps)

lemma blocks_step:
  "0 < n \<Longrightarrow> n \<le> length m \<Longrightarrow> blocks n m = take n m # blocks n (drop n m)"
  "0 < n \<Longrightarrow> n \<le> length m \<Longrightarrow> tail n m = tail n (drop n m)"
  by (subst blocks.simps tail.simps, simp)+

lemma blocks_append:
  "0 < n \<Longrightarrow> blocks n (m @ q) = blocks n m @ blocks n (tail n m @ q) \<and> tail n (m @ q) = tail n (tail n m @ q)"
proof (induction n m rule: blocks.induct)
  case (1 n m)
  show ?case
  proof (cases "n \<le> length m")
    case True
    then have "blocks n (drop n m @ q) = blocks n (drop n m) @ blocks n (tail n (drop n m) @ q)
        \<and> tail n (drop n m @ q) = tail n (tail n (drop n m) @ q)"
      using 1 by simp
    then show ?thesis using True 1(2) blocks_step[of n m] blocks_step[of n "m @ q"] by simp
  qed (simp add: blocks_short)
qed

lemma absorb_blocks:
  "length used < n \<Longrightarrow> used = [] \<or> n \<le> length used + length q \<Longrightarrow>
   absorb n f h used q = (foldl f h (blocks n (used @ q)), tail n (used @ q))"
proof (induction n f h used q rule: absorb.induct)
  case (1 n f h used q)
  show ?case
  proof (cases "n \<le> length used + length q")
    case True
    have n: "0 < n" using 1(2) by auto
    have "absorb n f h used q = absorb n f (f h (used @ take (n - length used) q)) [] (drop (n - length used) q)"
      using True n by (subst absorb.simps) simp
    also have "\<dots> = (foldl f (f h (used @ take (n - length used) q)) (blocks n (drop (n - length used) q)), tail n (drop (n - length used) q))"
      using 1(1) True n by simp
    finally show ?thesis using True n 1(2) blocks_step[of n "used @ q"] by simp
  next
    case False
    then show ?thesis using 1(3) by (simp add: absorb.simps blocks_short)
  qed
qed

section \<open>Counting\<close>

text \<open>The loop of \<open>SHA512_Bytes\<close> over the limbs of the length, least significant first.\<close>

fun add_limbs :: "32 word list \<Rightarrow> 32 word \<Rightarrow> 32 word list" where
  "add_limbs [] w = []"
| "add_limbs (l # ls) w = (let s = l + w in s # add_limbs ls (if s < w then 1 else 0))"

fun limbs_value :: "32 word list \<Rightarrow> nat" where
  "limbs_value [] = 0"
| "limbs_value (l # ls) = unat l + 0x100000000 * limbs_value ls"

lemma carry: "unat (l + w :: 32 word) + 0x100000000 * (if l + w < w then 1 else 0) = unat l + unat w"
proof -
  have l: "unat l < 0x100000000" "unat w < 0x100000000"
    using unsigned_less[where w = l and 'a = nat] unsigned_less[where w = w and 'a = nat] by simp_all
  have s: "unat (l + w) = (unat l + unat w) mod 0x100000000" by (simp add: unat_word_ariths)
  show ?thesis
  proof (cases "unat l + unat w < 0x100000000")
    case True
    then have "unat (l + w) = unat l + unat w" using s by simp
    then show ?thesis by (simp add: word_less_nat_alt)
  next
    case False
    then have "unat (l + w) = unat l + unat w - 0x100000000"
      using s l by (simp add: mod_if)
    then show ?thesis using False l by (simp add: word_less_nat_alt)
  qed
qed

lemma mod_upper: "(a + b * (v mod m)) mod (b * m) = (a + b * v) mod (b * m :: nat)"
  by (metis mod_add_right_eq mult_mod_right)

lemma add_limbs_value:
  "length (add_limbs ls w) = length ls \<and>
   limbs_value (add_limbs ls w) mod 0x100000000 ^ length ls = (limbs_value ls + unat w) mod 0x100000000 ^ length ls"
proof (induction ls arbitrary: w)
  case (Cons l ls)
  let ?c = "if l + w < w then 1 else 0 :: 32 word"
  have ih: "limbs_value (add_limbs ls ?c) mod 0x100000000 ^ length ls = (limbs_value ls + unat ?c) mod 0x100000000 ^ length ls"
    using Cons by simp
  have c: "unat ?c = (if l + w < w then 1 else 0)" by simp
  have "limbs_value (add_limbs (l # ls) w) mod 0x100000000 ^ length (l # ls)
      = (unat (l + w) + 0x100000000 * (limbs_value (add_limbs ls ?c) mod 0x100000000 ^ length ls)) mod (0x100000000 * 0x100000000 ^ length ls)"
    by (simp add: Let_def mod_upper)
  also have "\<dots> = (unat (l + w) + 0x100000000 * (limbs_value ls + unat ?c)) mod (0x100000000 * 0x100000000 ^ length ls)"
    unfolding ih by (rule mod_upper)
  also have "unat (l + w) + 0x100000000 * (limbs_value ls + unat ?c) = limbs_value (l # ls) + unat w"
    using carry[of l w] unfolding c by (simp add: algebra_simps)
  finally show ?case using Cons by (simp add: Let_def)
qed simp

text \<open>The low \<open>k\<close> bytes of a number, most significant first.\<close>

fun be_bytes :: "nat \<Rightarrow> nat \<Rightarrow> byte list" where
  "be_bytes 0 x = []"
| "be_bytes (Suc k) x = be_bytes k (x div 256) @ [of_nat x]"

text \<open>The bytes of a limb, as the \<open>_Final\<close> functions write them.\<close>

definition limb_bytes :: "32 word \<Rightarrow> byte list" where
  "limb_bytes w = [ucast (drop_bit 24 w AND 0xFF), ucast (drop_bit 16 w AND 0xFF), ucast (drop_bit 8 w AND 0xFF), ucast (w AND 0xFF)]"

text \<open>The limbs of the length in bits, \<open>(lenhi << 3) | (lenlo >> (32-3))\<close> from the least significant on.\<close>

fun bit_limbs :: "32 word \<Rightarrow> 32 word list \<Rightarrow> 32 word list" where
  "bit_limbs below [] = []"
| "bit_limbs below (l # ls) = (push_bit 3 l OR drop_bit 29 below) # bit_limbs l ls"

lemma shifted_limb: "unat (push_bit 3 l OR drop_bit 29 (b :: 32 word)) = (8 * unat l + unat b div 0x20000000) mod 0x100000000"
proof -
  have "push_bit 3 l AND drop_bit 29 b = 0"
    by (rule bit_word_eqI) (auto simp: bit_simps dest: bit_imp_le_length)
  then have "push_bit 3 l OR drop_bit 29 b = push_bit 3 l + drop_bit 29 b" by (simp add: disjunctive_add_eq_or)
  then show ?thesis
    by (simp add: push_bit_eq_mult drop_bit_eq_div unat_word_ariths unat_div mod_add_left_eq mod_add_right_eq mult.commute)
qed

lemma top_bound: "a < b \<Longrightarrow> c < m \<Longrightarrow> a + b * c < b * (m :: nat)"
proof -
  assume a: "a < b" "c < m"
  have "a + b * c < b * Suc c" using a(1) by simp
  also have "\<dots> \<le> b * m" using a(2) by (intro mult_le_mono2) simp
  finally show ?thesis .
qed

lemma bit_limbs_value:
  "length (bit_limbs b ls) = length ls
   \<and> limbs_value (bit_limbs b ls) = (8 * limbs_value ls + unat b div 0x20000000) mod 0x100000000 ^ length ls"
proof (induction ls arbitrary: b)
  case (Cons l ls)
  let ?x = "8 * unat l + unat b div 0x20000000"
  have c: "?x div 0x100000000 = unat l div 0x20000000"
  proof -
    have "unat b div 0x20000000 < 8" using unsigned_less[where w = b and 'a = nat] by (simp add: div_less_iff_less_mult)
    moreover have "?x div 0x100000000 = ?x div 8 div 0x20000000" by (simp add: div_mult2_eq[symmetric])
    ultimately show ?thesis by simp
  qed
  have "limbs_value (bit_limbs b (l # ls))
      = ?x mod 0x100000000 + 0x100000000 * ((8 * limbs_value ls + unat l div 0x20000000) mod 0x100000000 ^ length ls)"
    using Cons by (simp add: shifted_limb)
  also have "\<dots> = (?x mod 0x100000000 + 0x100000000 * ((8 * limbs_value ls + unat l div 0x20000000) mod 0x100000000 ^ length ls))
      mod (0x100000000 * 0x100000000 ^ length ls)"
    by (rule mod_less[symmetric], rule top_bound) simp_all
  also have "\<dots> = (?x mod 0x100000000 + 0x100000000 * (8 * limbs_value ls + ?x div 0x100000000)) mod (0x100000000 * 0x100000000 ^ length ls)"
    unfolding c by (rule mod_upper)
  also have "?x mod 0x100000000 + 0x100000000 * (8 * limbs_value ls + ?x div 0x100000000) = 8 * limbs_value (l # ls) + unat b div 0x20000000"
    using div_mult_mod_eq[of ?x "0x100000000"] by (simp add: algebra_simps)
  finally show ?case using Cons by simp
qed simp

lemma limb_bytes_be: "limb_bytes w = be_bytes (Suc (Suc (Suc (Suc 0)))) (unat w)"
proof -
  have m: "(x :: 32 word) AND 0xFF = take_bit 8 x" for x by (simp add: take_bit_eq_mask mask_eq_exp_minus_1)
  have u: "ucast (take_bit 8 x) = (of_nat (unat x) :: byte)" for x :: "32 word"
  proof -
    have "ucast (take_bit 8 x) = (ucast x :: byte)"
      by (rule bit_word_eqI) (simp add: bit_unsigned_iff bit_take_bit_iff)
    then show ?thesis by (simp add: of_nat_unat)
  qed
  have d: "unat (drop_bit k w) = unat w div 2 ^ k" for k by (subst unat_drop_bit_eq) (rule drop_bit_eq_div)
  have four: "be_bytes (Suc (Suc (Suc (Suc 0)))) x = [of_nat (x div 2 ^ 24), of_nat (x div 2 ^ 16), of_nat (x div 2 ^ 8), of_nat x]" for x
    by (simp add: div_mult2_eq[symmetric])
  show ?thesis unfolding limb_bytes_def m u d four ..
qed

lemma be_bytes_carry: "be_bytes (Suc k) (y + 256 * w) = be_bytes k (y div 256 + w) @ [of_nat y]"
proof -
  have "of_nat (256 * w) = (0 :: byte)" by (simp only: word_of_nat_eq_0_iff) simp
  then have z: "of_nat (y + 256 * w) = (of_nat y :: byte)" by (simp only: of_nat_add add_0_right)
  have "(y + 256 * w) div 256 = y div 256 + w" by simp
  then show ?thesis unfolding be_bytes.simps z by (simp only:)
qed

lemma be_bytes_limb:
  assumes x: "x < 0x100000000"
  shows "be_bytes (Suc (Suc (Suc (Suc k)))) (x + 0x100000000 * v) = be_bytes k v @ be_bytes (Suc (Suc (Suc (Suc 0)))) x"
proof -
  have n: "0x100000000 * v = 256 * (256 * (256 * (256 * v)))" by simp
  have d: "x div 256 div 256 div 256 div 256 = 0" using x by (simp add: div_mult2_eq[symmetric])
  show ?thesis unfolding n be_bytes_carry d by simp
qed

lemma limbs_be: "concat (map limb_bytes (rev ls)) = be_bytes (4 * length ls) (limbs_value ls)"
proof (induction ls)
  case (Cons l ls)
  have s: "4 * length (l # ls) = Suc (Suc (Suc (Suc (4 * length ls))))" by simp
  have "unat l < 0x100000000" using unsigned_less[where w = l and 'a = nat] by simp
  then show ?case using Cons be_bytes_limb[of "unat l" "4 * length ls" "limbs_value ls"]
    unfolding s by (simp add: limb_bytes_be del: be_bytes.simps)
qed simp

lemma be_bytes_mod: "be_bytes k (x mod 256 ^ k) = be_bytes k x"
proof (induction k arbitrary: x)
  case (Suc k)
  have d: "(x mod 256 ^ Suc k) div 256 = x div 256 mod 256 ^ k" by (simp add: mod_mult2_eq)
  have "x mod 256 ^ Suc k = x mod 256 + 256 * (x div 256 mod 256 ^ k)" by (simp add: mod_mult2_eq)
  then have "be_bytes (Suc k) (x mod 256 ^ Suc k) = be_bytes k (x div 256 mod 256 ^ k) @ [of_nat (x mod 256)]"
    by (simp only: be_bytes_carry) (simp only: div_less mod_less_divisor zero_less_numeral add_0)
  also have "\<dots> = be_bytes k (x div 256) @ [of_nat (x mod 256 + 256 * (x div 256))]"
    using Suc be_bytes_carry[of 0 "x mod 256" "x div 256"] by (simp del: mod_mult_div_eq mod_div_mult_eq)
  finally show ?case by simp
qed simp

lemma be_bytes_length [simp]: "length (be_bytes k x) = k"
  by (induction k arbitrary: x) simp_all

lemma limbs_bound: "limbs_value ls < 0x100000000 ^ length ls"
proof (induction ls)
  case (Cons l ls)
  then show ?case using top_bound[of "unat l" "0x100000000" "limbs_value ls" "0x100000000 ^ length ls"]
      unsigned_less[where w = l and 'a = nat] by simp
qed simp

section \<open>Words\<close>

text \<open>The bytes of a block, four to a word with the most significant first.\<close>

definition gather_msb :: "byte list \<Rightarrow> 32 word list" where
  "gather_msb block = map (\<lambda>i. push_bit 24 (ucast (block ! (i * 4))) OR push_bit 16 (ucast (block ! (i * 4 + 1)))
     OR push_bit 8 (ucast (block ! (i * 4 + 2))) OR ucast (block ! (i * 4 + 3))) [0..<16]"

section \<open>A hash in progress\<close>

text \<open>
  The context structures: \<open>hstate\<close> is \<open>h\<close> or \<open>core\<close>; \<open>blk\<close> is the first \<open>blkused\<close> bytes of
  \<open>block\<close>, the only ones that are ever read; \<open>lens\<close> is \<open>[lenlo, lenhi]\<close>, or the array
  \<open>len\<close> of \<open>SHA512_State\<close>.
\<close>

record 'h hash_state =
  hstate :: 'h
  blk :: "byte list"
  lens :: "32 word list"

definition hash_bytes :: "nat \<Rightarrow> ('h \<Rightarrow> byte list \<Rightarrow> 'h) \<Rightarrow> 'h hash_state \<Rightarrow> byte list \<Rightarrow> 'h hash_state" where
  "hash_bytes n f s0 p =
     (let s = s0\<lparr>lens := add_limbs (lens s0) (of_nat (length p))\<rparr>
      in if blk s \<noteq> [] \<and> length (blk s) + length p < n then s\<lparr>blk := blk s @ p\<rparr>
         else case absorb n f (hstate s) (blk s) p of (h, q) \<Rightarrow> s\<lparr>hstate := h, blk := q\<rparr>)"

text \<open>The byte \<open>0x80\<close> and the zeros up to the length field of \<open>lb\<close> bytes.\<close>

definition padding :: "nat \<Rightarrow> nat \<Rightarrow> nat \<Rightarrow> byte list" where
  "padding n lb used = (let pad = if used \<ge> n - lb then (n - lb) + n - used else (n - lb) - used
     in (replicate pad 0)[0 := 0x80])"

lemma padding_short: "used < n \<Longrightarrow> length (padding n lb used) \<le> 2 * n"
  by (simp add: padding_def) linarith

text \<open>What has been hashed: \<open>s\<close> is the context after the bytes \<open>m\<close>.\<close>

definition absorbed :: "nat \<Rightarrow> nat \<Rightarrow> ('h \<Rightarrow> byte list \<Rightarrow> 'h) \<Rightarrow> 'h \<Rightarrow> 'h hash_state \<Rightarrow> byte list \<Rightarrow> bool" where
  "absorbed n k f iv s m \<longleftrightarrow> hstate s = foldl f iv (blocks n m) \<and> blk s = tail n m
     \<and> length (lens s) = k \<and> limbs_value (lens s) = length m mod 0x100000000 ^ k"

lemma absorbed_empty: "0 < n \<Longrightarrow> absorbed n k f iv \<lparr>hstate = iv, blk = [], lens = replicate k 0\<rparr> []"
proof -
  have "limbs_value (replicate k 0) = 0" by (induction k) simp_all
  then show "0 < n \<Longrightarrow> ?thesis" by (simp add: absorbed_def blocks_short)
qed

lemma hash_bytes_blocks:
  "\<not> (blk s \<noteq> [] \<and> length (blk s) + length q < n) \<Longrightarrow> hash_bytes n f s q = (case absorb n f (hstate s) (blk s) q of
     (h, r) \<Rightarrow> s\<lparr>lens := add_limbs (lens s) (of_nat (length q)), hstate := h, blk := r\<rparr>)"
  by (auto simp: hash_bytes_def Let_def)

lemma absorbed_bytes:
  assumes n: "0 < n" and q: "length q < 0x100000000" and s: "absorbed n k f iv s m"
  shows "absorbed n k f iv (hash_bytes n f s q) (m @ q)"
proof -
  have t: "length (blk s) < n" "blk s = tail n m" using s n by (simp_all add: absorbed_def tail_length)
  have "unat (of_nat (length q) :: 32 word) = length q" using q by (simp add: unsigned_of_nat take_bit_nat_eq_self_iff)
  then have "limbs_value (add_limbs (lens s) (of_nat (length q))) mod 0x100000000 ^ k = (limbs_value (lens s) + length q) mod 0x100000000 ^ k"
    using add_limbs_value[of "lens s" "of_nat (length q)"] s by (simp add: absorbed_def)
  then have l: "limbs_value (add_limbs (lens s) (of_nat (length q))) = length (m @ q) mod 0x100000000 ^ k"
    using limbs_bound[of "add_limbs (lens s) (of_nat (length q))"] add_limbs_value[of "lens s" "of_nat (length q)"] s
    by (simp add: absorbed_def mod_add_left_eq)
  have a: "blocks n (m @ q) = blocks n m @ blocks n (blk s @ q)" "tail n (m @ q) = tail n (blk s @ q)"
    using blocks_append[OF n, of m q] t(2) by simp_all
  show ?thesis
  proof (cases "blk s \<noteq> [] \<and> length (blk s) + length q < n")
    case True
    then show ?thesis using s l a add_limbs_value[of "lens s" "of_nat (length q)"]
      by (simp add: hash_bytes_def absorbed_def blocks_short)
  next
    case False
    then have "absorb n f (hstate s) (blk s) q = (foldl f (hstate s) (blocks n (blk s @ q)), tail n (blk s @ q))"
      using t(1) by (intro absorb_blocks) auto
    moreover have "hash_bytes n f s q = (case absorb n f (hstate s) (blk s) q of
        (h, r) \<Rightarrow> s\<lparr>lens := add_limbs (lens s) (of_nat (length q)), hstate := h, blk := r\<rparr>)"
      using False by (rule hash_bytes_blocks)
    ultimately show ?thesis using s l a add_limbs_value[of "lens s" "of_nat (length q)"]
      by (simp add: absorbed_def)
  qed
qed

section \<open>Padding and the length\<close>

text \<open>A message padded to whole blocks: the number of zeros that is needed, and the length in bits.\<close>

definition padded :: "nat \<Rightarrow> nat \<Rightarrow> (byte list \<Rightarrow> byte list) \<Rightarrow> byte list \<Rightarrow> byte list" where
  "padded n k ord m = m @ 0x80 # replicate ((n - (length m + 1 + 4 * k) mod n) mod n) 0 @ ord (be_bytes (4 * k) (8 * length m))"

lemma pad_amount:
  assumes b: "lb < n" "used < n" and u: "used = l mod n"
  shows "(if used \<ge> n - lb then (n - lb) + n - used else (n - lb) - used) = Suc ((n - (l + 1 + lb) mod n) mod n)"
proof -
  have m: "(l + 1 + lb) mod n = (used + 1 + lb) mod n" unfolding u by (metis mod_add_left_eq add.assoc)
  consider "n \<le> used + lb" | "used + 1 + lb = n" | "used + 1 + lb < n" by linarith
  then show ?thesis
  proof cases
    case 1
    then have "(used + 1 + lb) mod n = used + 1 + lb - n" using b by (simp add: le_mod_geq)
    moreover have "(n - (used + 1 + lb - n)) mod n = n - (used + 1 + lb - n)" using 1 b by (intro mod_less) simp
    ultimately show ?thesis unfolding m using 1 b by simp linarith
  next
    case 2
    then have "n - lb - used = 1" "\<not> used \<ge> n - lb" by linarith+
    then show ?thesis unfolding m 2 by simp
  next
    case 3
    moreover have "(n - (used + 1 + lb)) mod n = n - (used + 1 + lb)" using 3 by (intro mod_less) simp
    moreover have "\<not> used \<ge> n - lb" "n - lb - used = Suc (n - (used + 1 + lb))" using 3 by linarith+
    ultimately show ?thesis unfolding m by simp
  qed
qed

lemma padding_zeros:
  "lb < n \<Longrightarrow> padding n lb (l mod n) = 0x80 # replicate ((n - (l + 1 + lb) mod n) mod n) 0"
  using pad_amount[of lb n "l mod n" l] by (simp add: padding_def)

lemma absorbed_final:
  assumes n: "4 * k < n" "n \<le> 0x80" and s: "absorbed n k f iv s m" and o: "\<And>x. length (ord x) = length x"
  shows "hstate (hash_bytes n f (hash_bytes n f s (padding n (4 * k) (length (blk s))))
      (ord (concat (map limb_bytes (rev (bit_limbs 0 (lens s))))))) = foldl f iv (blocks n (padded n k ord m))"
proof -
  let ?p = "0x80 # replicate ((n - (length m + 1 + 4 * k) mod n) mod n) 0 :: byte list"
  have p: "padding n (4 * k) (length (blk s)) = ?p"
    using s n padding_zeros[of "4 * k" n "length m"] by (simp add: absorbed_def tail_length)
  have "(n - (length m + 1 + 4 * k) mod n) mod n < n" using n by simp
  then have "length ?p \<le> n" by simp
  then have "length ?p < 0x100000000" using n by linarith
  then have s1: "absorbed n k f iv (hash_bytes n f s ?p) (m @ ?p)" using s n by (intro absorbed_bytes) simp_all
  have v: "limbs_value (bit_limbs 0 (lens s)) = 8 * length m mod 256 ^ (4 * k)"
    using bit_limbs_value[of 0 "lens s"] s by (simp add: absorbed_def mod_mult_right_eq power_mult)
  have c: "length (bit_limbs 0 (lens s)) = k" using bit_limbs_value[of 0 "lens s"] s by (simp add: absorbed_def)
  have lb: "concat (map limb_bytes (rev (bit_limbs 0 (lens s)))) = be_bytes (4 * k) (8 * length m)"
    unfolding limbs_be c v be_bytes_mod ..
  have "absorbed n k f iv (hash_bytes n f (hash_bytes n f s ?p) (ord (be_bytes (4 * k) (8 * length m))))
      ((m @ ?p) @ ord (be_bytes (4 * k) (8 * length m)))"
    using n o by (intro absorbed_bytes s1) simp_all
  then show ?thesis unfolding p lb by (simp add: absorbed_def padded_def)
qed

section \<open>Message authentication\<close>

text \<open>
  The HMAC wrapper that each of the files repeats for its own hash, over the functions of that
  hash: three contexts, of which the third is the one in use.
\<close>

record 's mac_keys =
  keys0 :: 's
  keys1 :: 's
  keys2 :: 's

definition masked_key :: "byte \<Rightarrow> byte list \<Rightarrow> byte list" where
  "masked_key c key = map (\<lambda>i. if i < length key then c XOR key ! i else c) [0..<64]"

definition mac_key :: "'s \<Rightarrow> ('s \<Rightarrow> byte list \<Rightarrow> 's) \<Rightarrow> 's mac_keys \<Rightarrow> byte list \<Rightarrow> 's mac_keys" where
  "mac_key init feed keys key = keys\<lparr>keys0 := feed init (masked_key 0x36 key), keys1 := feed init (masked_key 0x5C key)\<rparr>"

definition mac_start :: "'s mac_keys \<Rightarrow> 's mac_keys" where
  "mac_start keys = keys\<lparr>keys2 := keys0 keys\<rparr>"

definition mac_bytes :: "('s \<Rightarrow> byte list \<Rightarrow> 's) \<Rightarrow> 's mac_keys \<Rightarrow> byte list \<Rightarrow> 's mac_keys" where
  "mac_bytes feed keys p = keys\<lparr>keys2 := feed (keys2 keys) p\<rparr>"

definition mac_genresult :: "('s \<Rightarrow> byte list \<Rightarrow> 's) \<Rightarrow> ('s \<Rightarrow> byte list) \<Rightarrow> 's mac_keys \<Rightarrow> byte list" where
  "mac_genresult feed finish keys = (let intermediate = finish (keys2 keys) in finish (feed (keys1 keys) intermediate))"

text \<open>\<open>do_hmac\<close> leaves the third context as the data put it, and writes the code.\<close>

definition mac_do :: "('s \<Rightarrow> byte list \<Rightarrow> 's) \<Rightarrow> ('s \<Rightarrow> byte list) \<Rightarrow> 's mac_keys \<Rightarrow> byte list \<Rightarrow> 32 word \<Rightarrow> 's mac_keys \<times> byte list" where
  "mac_do feed finish keys p seq =
     (let keys' = mac_bytes feed (mac_bytes feed (mac_start keys) (PUT_32BIT_MSB_FIRST seq)) p
      in (keys', mac_genresult feed finish keys'))"

text \<open>\<open>smemeq\<close> of \<open>misc.c\<close>, which compares without a branch on the data.\<close>

definition smemeq :: "byte list \<Rightarrow> byte list \<Rightarrow> nat \<Rightarrow> 32 word" where
  "smemeq a b n = (let val = foldl (\<lambda>v (x, y). v OR ucast (x XOR y)) 0 (zip (take n a) (take n b))
     in drop_bit 8 (0x100 - val))"

lemma smemeq_folded:
  "foldl (\<lambda>v (x, y). v OR ucast (x XOR y)) (ucast u) ps = (ucast (foldl (\<lambda>v (x, y). v OR (x XOR y)) (u :: byte) ps) :: 32 word)"
proof (induction ps arbitrary: u)
  case (Cons p ps)
  have "ucast u OR ucast (fst p XOR snd p) = (ucast (u OR (fst p XOR snd p)) :: 32 word)"
    by (simp add: unsigned_or_eq)
  then show ?case using Cons by (simp add: case_prod_unfold)
qed simp

lemma or_zero: "u OR v = 0 \<longleftrightarrow> u = 0 \<and> v = (0 :: byte)"
  by (auto simp: bit_eq_iff bit_or_iff)

lemma xor_zero: "x XOR y = 0 \<longleftrightarrow> x = (y :: byte)"
  by (auto simp: bit_eq_iff bit_xor_iff)

lemma smemeq_zero: "foldl (\<lambda>v (x, y). v OR (x XOR y)) (u :: byte) ps = 0 \<longleftrightarrow> u = 0 \<and> (\<forall>(x, y)\<in>set ps. x = y)"
  by (induction ps arbitrary: u) (auto simp: or_zero xor_zero)

lemma smemeq_equal:
  assumes l: "n \<le> length a" "n \<le> length b"
  shows "smemeq a b n = (if take n a = take n b then 1 else 0)"
proof -
  let ?ps = "zip (take n a) (take n b)"
  define u where "u = foldl (\<lambda>v (x, y). v OR (x XOR y)) (0 :: byte) ?ps"
  have v: "foldl (\<lambda>v (x, y). v OR ucast (x XOR y)) 0 ?ps = (ucast u :: 32 word)"
    using smemeq_folded[of 0 ?ps] by (simp add: u_def)
  have e: "u = 0 \<longleftrightarrow> take n a = take n b"
    unfolding u_def smemeq_zero using l by (auto simp: list_eq_iff_zip_eq)
  have r: "drop_bit 8 (0x100 - ucast u :: 32 word) = (if u = 0 then 1 else 0)"
  proof (cases "u = 0")
    case False
    then have u: "0 < uint u" "uint u < 256" using uint_lt2p[of u] uint_0_iff[of u] by (auto simp: order_less_le)
    have "uint (ucast u :: 32 word) = uint u" using u by (simp add: unsigned_ucast_eq take_bit_int_eq_self)
    then have "uint (drop_bit 8 (0x100 - ucast u :: 32 word)) = 0"
      using u by (simp add: drop_bit_eq_div uint_div uint_word_ariths)
    then show ?thesis using False by (simp only: uint_0_iff if_False)
  qed (simp add: drop_bit_eq_div)
  show ?thesis unfolding smemeq_def Let_def v r e ..
qed

section \<open>The interface\<close>

text \<open>
  What a user of a hash relies on: it starts empty, each call adds its bytes to those that are
  held, and the result is a function of these bytes alone, of at most a block.
\<close>

locale streaming_hash =
  fixes init :: 's
    and feed :: "'s \<Rightarrow> byte list \<Rightarrow> 's"
    and finish :: "'s \<Rightarrow> byte list"
    and digest :: "byte list \<Rightarrow> byte list"
    and holds :: "'s \<Rightarrow> byte list \<Rightarrow> bool"
  assumes holds_init: "holds init []"
    and holds_feed: "holds s m \<Longrightarrow> length q < 0x80000000 \<Longrightarrow> holds (feed s q) (m @ q)"
    and finish_digest: "holds s m \<Longrightarrow> finish s = digest m"
    and digest_short: "length (digest m) \<le> 64"
begin

lemma holds_chunks:
  "holds s m \<Longrightarrow> (\<And>q. q \<in> set qs \<Longrightarrow> length q < 0x80000000) \<Longrightarrow> holds (foldl feed s qs) (m @ concat qs)"
proof (induction qs arbitrary: s m)
  case (Cons q qs)
  then have "holds (foldl feed (feed s q) qs) ((m @ q) @ concat qs)" by (intro Cons.IH) (simp_all add: holds_feed)
  then show ?case by simp
qed simp

lemma chunks_digest: "\<forall>q\<in>set qs. length q < 0x80000000 \<Longrightarrow> finish (foldl feed init qs) = digest (concat qs)"
  using finish_digest[OF holds_chunks[OF holds_init, of qs]] by simp

lemma mac_parts_digest:
  assumes "\<forall>p\<in>set ps. length p < 0x80000000"
  shows "mac_genresult feed finish (foldl (mac_bytes feed) (mac_start (mac_key init feed keys key)) ps)
    = digest (masked_key 0x5C key @ digest (masked_key 0x36 key @ concat ps))"
proof -
  have k: "length (masked_key c key) = 64" for c by (simp add: masked_key_def)
  have f: "foldl (mac_bytes feed) ks ps = ks\<lparr>keys2 := foldl feed (keys2 ks) ps\<rparr>" for ks
    by (induction ps arbitrary: ks) (simp_all add: mac_bytes_def)
  have "holds (feed init (masked_key 0x36 key)) (masked_key 0x36 key)"
    using holds_feed[OF holds_init, of "masked_key 0x36 key"] k by simp
  from holds_chunks[OF this, of ps] assms have i: "holds (foldl feed (feed init (masked_key 0x36 key)) ps) (masked_key 0x36 key @ concat ps)"
    by simp
  have "holds (foldl feed init [masked_key 0x5C key, d]) (masked_key 0x5C key @ d)" if "length d \<le> 64" for d
    using holds_feed[OF holds_feed[OF holds_init, of "masked_key 0x5C key"], of d] k that by simp
  from finish_digest[OF this] show ?thesis using finish_digest[OF i] digest_short
    by (simp add: f mac_start_def mac_genresult_def mac_key_def)
qed

lemma mac_digest:
  assumes p: "length p < 0x80000000"
  shows "snd (mac_do feed finish (mac_key init feed keys key) p seq)
    = digest (masked_key 0x5C key @ digest (masked_key 0x36 key @ PUT_32BIT_MSB_FIRST seq @ p))"
  using mac_parts_digest[of "[PUT_32BIT_MSB_FIRST seq, p]" keys key] p by (simp add: mac_do_def Let_def)

end

end
