(* ===== verification/Sshmd5.thy ===== *)
theory Sshmd5
  imports Hash
begin

text \<open>
  \<open>putty/sshmd5.c\<close>: MD5 on its contexts and the HMAC over it.  The subrounds of \<open>MD5_Block\<close>
  pass the four variables on in turn, as \<open>(a, b, c, d)\<close>, \<open>(d, a, b, c)\<close> and so on; here the
  quadruple itself is turned after each, and is back in place after sixteen.  The keys of the
  SSH methods are read to a fixed length and are at least as long.
\<close>

unbundle bit_operations_syntax

section \<open>The core\<close>

type_synonym md5_core = "32 word \<times> 32 word \<times> 32 word \<times> 32 word"

definition F :: "32 word \<Rightarrow> 32 word \<Rightarrow> 32 word \<Rightarrow> 32 word" where
  "F x y z = (x AND y) OR (NOT x AND z)"

definition G :: "32 word \<Rightarrow> 32 word \<Rightarrow> 32 word \<Rightarrow> 32 word" where
  "G x y z = (x AND z) OR (NOT z AND y)"

definition H :: "32 word \<Rightarrow> 32 word \<Rightarrow> 32 word \<Rightarrow> 32 word" where
  "H x y z = x XOR y XOR z"

definition I :: "32 word \<Rightarrow> 32 word \<Rightarrow> 32 word \<Rightarrow> 32 word" where
  "I x y z = y XOR (x OR NOT z)"

definition subround :: "(32 word \<Rightarrow> 32 word \<Rightarrow> 32 word \<Rightarrow> 32 word) \<Rightarrow> 32 word list \<Rightarrow> md5_core \<Rightarrow> nat \<times> nat \<times> 32 word \<Rightarrow> md5_core" where
  "subround f block = (\<lambda>(w, x, y, z) (k, s, ti). let w' = x + rol (w + f x y z + block ! k + ti) s in (z, w', x, y))"

definition F_steps :: "(nat \<times> nat \<times> 32 word) list" where
  "F_steps =
    [(0, 7, 0xD76AA478), (1, 12, 0xE8C7B756), (2, 17, 0x242070DB), (3, 22, 0xC1BDCEEE),
     (4, 7, 0xF57C0FAF), (5, 12, 0x4787C62A), (6, 17, 0xA8304613), (7, 22, 0xFD469501),
     (8, 7, 0x698098D8), (9, 12, 0x8B44F7AF), (10, 17, 0xFFFF5BB1), (11, 22, 0x895CD7BE),
     (12, 7, 0x6B901122), (13, 12, 0xFD987193), (14, 17, 0xA679438E), (15, 22, 0x49B40821)]"

definition G_steps :: "(nat \<times> nat \<times> 32 word) list" where
  "G_steps =
    [(1, 5, 0xF61E2562), (6, 9, 0xC040B340), (11, 14, 0x265E5A51), (0, 20, 0xE9B6C7AA),
     (5, 5, 0xD62F105D), (10, 9, 0x02441453), (15, 14, 0xD8A1E681), (4, 20, 0xE7D3FBC8),
     (9, 5, 0x21E1CDE6), (14, 9, 0xC33707D6), (3, 14, 0xF4D50D87), (8, 20, 0x455A14ED),
     (13, 5, 0xA9E3E905), (2, 9, 0xFCEFA3F8), (7, 14, 0x676F02D9), (12, 20, 0x8D2A4C8A)]"

definition H_steps :: "(nat \<times> nat \<times> 32 word) list" where
  "H_steps =
    [(5, 4, 0xFFFA3942), (8, 11, 0x8771F681), (11, 16, 0x6D9D6122), (14, 23, 0xFDE5380C),
     (1, 4, 0xA4BEEA44), (4, 11, 0x4BDECFA9), (7, 16, 0xF6BB4B60), (10, 23, 0xBEBFBC70),
     (13, 4, 0x289B7EC6), (0, 11, 0xEAA127FA), (3, 16, 0xD4EF3085), (6, 23, 0x04881D05),
     (9, 4, 0xD9D4D039), (12, 11, 0xE6DB99E5), (15, 16, 0x1FA27CF8), (2, 23, 0xC4AC5665)]"

definition I_steps :: "(nat \<times> nat \<times> 32 word) list" where
  "I_steps =
    [(0, 6, 0xF4292244), (7, 10, 0x432AFF97), (14, 15, 0xAB9423A7), (5, 21, 0xFC93A039),
     (12, 6, 0x655B59C3), (3, 10, 0x8F0CCC92), (10, 15, 0xFFEFF47D), (1, 21, 0x85845DD1),
     (8, 6, 0x6FA87E4F), (15, 10, 0xFE2CE6E0), (6, 15, 0xA3014314), (13, 21, 0x4E0811A1),
     (4, 6, 0xF7537E82), (11, 10, 0xBD3AF235), (2, 15, 0x2AD7D2BB), (9, 21, 0xEB86D391)]"

definition MD5_Core_Init :: md5_core where
  "MD5_Core_Init = (0x67452301, 0xEFCDAB89, 0x98BADCFE, 0x10325476)"

definition MD5_Block :: "md5_core \<Rightarrow> 32 word list \<Rightarrow> md5_core" where
  "MD5_Block core block =
     (case foldl (subround I block) (foldl (subround H block) (foldl (subround G block) (foldl (subround F block) core F_steps) G_steps) H_steps) I_steps of
        (a, b, c, d) \<Rightarrow> case core of (h0, h1, h2, h3) \<Rightarrow> (h0 + a, h1 + b, h2 + c, h3 + d))"

section \<open>The hash\<close>

definition MD5Init :: "md5_core hash_state" where
  "MD5Init = \<lparr>hstate = MD5_Core_Init, blk = [], lens = [0, 0]\<rparr>"

definition gather_lsb :: "byte list \<Rightarrow> 32 word list" where
  "gather_lsb block = map (\<lambda>i. push_bit 24 (ucast (block ! (i * 4 + 3))) OR push_bit 16 (ucast (block ! (i * 4 + 2)))
     OR push_bit 8 (ucast (block ! (i * 4 + 1))) OR ucast (block ! (i * 4))) [0..<16]"

definition MD5_compress :: "md5_core \<Rightarrow> byte list \<Rightarrow> md5_core" where
  "MD5_compress core block = MD5_Block core (gather_lsb block)"

definition MD5Update :: "md5_core hash_state \<Rightarrow> byte list \<Rightarrow> md5_core hash_state" where
  "MD5Update s0 p =
     (let s = s0\<lparr>lens := add_limbs (lens s0) (of_nat (length p))\<rparr>
      in if length (blk s) + length p < 64 then s\<lparr>blk := blk s @ p\<rparr>
         else case absorb 64 MD5_compress (hstate s) (blk s) p of (h, q) \<Rightarrow> s\<lparr>hstate := h, blk := q\<rparr>)"

definition MD5_output :: "md5_core \<Rightarrow> byte list" where
  "MD5_output = (\<lambda>(a, b, c, d). concat (map (rev \<circ> limb_bytes) [a, b, c, d]))"

definition MD5Final :: "md5_core hash_state \<Rightarrow> byte list" where
  "MD5Final s =
     (let c = rev (concat (map limb_bytes (rev (bit_limbs 0 (lens s)))));
          s1 = MD5Update s (padding 64 8 (length (blk s)))
      in MD5_output (hstate (MD5Update s1 c)))"

definition MD5Simple :: "byte list \<Rightarrow> byte list" where
  "MD5Simple p = MD5Final (MD5Update MD5Init p)"

section \<open>HMAC-MD5\<close>

definition hmacmd5_key :: "md5_core hash_state mac_keys \<Rightarrow> byte list \<Rightarrow> md5_core hash_state mac_keys" where
  "hmacmd5_key = mac_key MD5Init MD5Update"

definition hmacmd5_key_16 :: "md5_core hash_state mac_keys \<Rightarrow> byte list \<Rightarrow> md5_core hash_state mac_keys" where
  "hmacmd5_key_16 keys key = hmacmd5_key keys (take 16 key)"

definition hmacmd5_genresult :: "md5_core hash_state mac_keys \<Rightarrow> byte list" where
  "hmacmd5_genresult = mac_genresult MD5Update MD5Final"

definition hmacmd5_do_hmac :: "md5_core hash_state mac_keys \<Rightarrow> byte list \<Rightarrow> byte list" where
  "hmacmd5_do_hmac keys p = hmacmd5_genresult (mac_bytes MD5Update (mac_start keys) p)"

definition hmacmd5_do_hmac_ssh :: "md5_core hash_state mac_keys \<Rightarrow> byte list \<Rightarrow> 32 word \<Rightarrow> md5_core hash_state mac_keys \<times> byte list" where
  "hmacmd5_do_hmac_ssh = mac_do MD5Update MD5Final"

definition hmacmd5_verify :: "md5_core hash_state mac_keys \<Rightarrow> byte list \<Rightarrow> nat \<Rightarrow> 32 word \<Rightarrow> 32 word" where
  "hmacmd5_verify keys buf n seq = smemeq (snd (hmacmd5_do_hmac_ssh keys (take n buf) seq)) (drop n buf) 16"

text \<open>The CHAP response of the SOCKS 5 proxy (\<open>putty/cproxy.c\<close>); the contexts start as \<open>km\<close>.\<close>

definition hmacmd5_chap :: "md5_core hash_state mac_keys \<Rightarrow> byte list \<Rightarrow> byte list \<Rightarrow> byte list" where
  "hmacmd5_chap km challenge passwd =
     (if length passwd > 64 then hmacmd5_do_hmac (hmacmd5_key km (take 16 (MD5Simple passwd))) challenge
      else hmacmd5_do_hmac (hmacmd5_key km passwd) challenge)"

section \<open>The interface\<close>

text \<open>MD5 with its padding, on a whole message.\<close>

definition MD5_digest :: "byte list \<Rightarrow> byte list" where
  "MD5_digest m = MD5_output (foldl MD5_compress MD5_Core_Init (blocks 64 (padded 64 2 rev m)))"

definition MD5_holds :: "md5_core hash_state \<Rightarrow> byte list \<Rightarrow> bool" where
  "MD5_holds = absorbed 64 2 MD5_compress MD5_Core_Init"

lemma MD5Update_bytes: "length (blk s) < 64 \<Longrightarrow> MD5Update s p = hash_bytes 64 MD5_compress s p"
  by (auto simp: MD5Update_def hash_bytes_def Let_def absorb.simps)

lemma MD5_holds_blk: "MD5_holds s m \<Longrightarrow> length (blk s) < 64"
  by (simp add: MD5_holds_def absorbed_def tail_length)

lemma MD5_feeds: "MD5_holds s m \<Longrightarrow> length q < 0x100000000 \<Longrightarrow> MD5_holds (MD5Update s q) (m @ q)"
  by (simp add: MD5Update_bytes[OF MD5_holds_blk]) (simp add: MD5_holds_def absorbed_bytes)

lemma MD5_finishes:
  assumes "MD5_holds s m"
  shows "MD5Final s = MD5_digest m"
proof -
  have "length (padding 64 8 (length (blk s))) < 0x100000000"
    using MD5_holds_blk[OF assms] padding_short[of "length (blk s)" 64 8] by simp
  from MD5_holds_blk[OF MD5_feeds[OF assms this]] show ?thesis
    using absorbed_final[of 2 64 MD5_compress MD5_Core_Init s m rev] assms MD5_holds_blk[OF assms]
    by (simp add: MD5Final_def MD5_digest_def MD5_holds_def Let_def MD5Update_bytes)
qed

interpretation md5: streaming_hash MD5Init MD5Update MD5Final MD5_digest MD5_holds
proof unfold_locales
  show "MD5_holds MD5Init []"
    using absorbed_empty[of 64 2 MD5_compress MD5_Core_Init] by (simp add: MD5_holds_def MD5Init_def numeral_2_eq_2)
qed (simp_all add: MD5_feeds MD5_finishes MD5_digest_def MD5_output_def limb_bytes_def split_beta)

end
