(* ===== verification/Sshsha.thy ===== *)
theory Sshsha
  imports Hash
begin

text \<open>
  \<open>putty/sshsha.c\<close>: SHA-1 on its contexts, the HMACs over it with 20 and with 12 bytes, and the
  ones with a short key for servers that have the bug.
\<close>

unbundle bit_operations_syntax

section \<open>The core\<close>

type_synonym sha_core = "32 word \<times> 32 word \<times> 32 word \<times> 32 word \<times> 32 word"

definition SHA_Core_Init :: sha_core where
  "SHA_Core_Init = (0x67452301, 0xEFCDAB89, 0x98BADCFE, 0x10325476, 0xC3D2E1F0)"

definition sha_schedule :: "32 word list \<Rightarrow> 32 word list" where
  "sha_schedule block = foldl (\<lambda>w t. w @ [rol (w ! (t - 3) XOR w ! (t - 8) XOR w ! (t - 14) XOR w ! (t - 16)) 1]) block [16..<80]"

text \<open>The four loops differ in the function of \<open>b\<close>, \<open>c\<close> and \<open>d\<close> and in the constant.\<close>

definition sha_loop :: "(32 word \<Rightarrow> 32 word \<Rightarrow> 32 word \<Rightarrow> 32 word) \<Rightarrow> 32 word \<Rightarrow> 32 word list \<Rightarrow> sha_core \<Rightarrow> nat list \<Rightarrow> sha_core" where
  "sha_loop f k w = foldl (\<lambda>(a, b, c, d, e) t. let tmp = rol a 5 + f b c d + e + w ! t + k in (tmp, a, rol b 30, c, d))"

definition SHATransform :: "sha_core \<Rightarrow> 32 word list \<Rightarrow> sha_core" where
  "SHATransform digest block =
     (let w = sha_schedule block;
          r1 = sha_loop (\<lambda>b c d. (b AND c) OR (d AND NOT b)) 0x5A827999 w digest [0..<20];
          r2 = sha_loop (\<lambda>b c d. b XOR c XOR d) 0x6ED9EBA1 w r1 [20..<40];
          r3 = sha_loop (\<lambda>b c d. (b AND c) OR (b AND d) OR (c AND d)) 0x8F1BBCDC w r2 [40..<60]
      in case sha_loop (\<lambda>b c d. b XOR c XOR d) 0xCA62C1D6 w r3 [60..<80] of
           (a, b, c, d, e) \<Rightarrow> case digest of (h0, h1, h2, h3, h4) \<Rightarrow> (h0 + a, h1 + b, h2 + c, h3 + d, h4 + e))"

section \<open>The hash\<close>

definition SHA_Init :: "sha_core hash_state" where
  "SHA_Init = \<lparr>hstate = SHA_Core_Init, blk = [], lens = [0, 0]\<rparr>"

definition SHA_compress :: "sha_core \<Rightarrow> byte list \<Rightarrow> sha_core" where
  "SHA_compress h block = SHATransform h (gather_msb block)"

definition SHA_Bytes :: "sha_core hash_state \<Rightarrow> byte list \<Rightarrow> sha_core hash_state" where
  "SHA_Bytes = hash_bytes 64 SHA_compress"

definition SHA_output :: "sha_core \<Rightarrow> byte list" where
  "SHA_output = (\<lambda>(a, b, c, d, e). concat (map limb_bytes [a, b, c, d, e]))"

definition SHA_Final :: "sha_core hash_state \<Rightarrow> byte list" where
  "SHA_Final s =
     (let c = concat (map limb_bytes (rev (bit_limbs 0 (lens s))));
          s1 = SHA_Bytes s (padding 64 8 (length (blk s)))
      in SHA_output (hstate (SHA_Bytes s1 c)))"

definition SHA_Simple :: "byte list \<Rightarrow> byte list" where
  "SHA_Simple p = SHA_Final (SHA_Bytes SHA_Init p)"

section \<open>HMAC-SHA1\<close>

definition sha1_key_internal :: "sha_core hash_state mac_keys \<Rightarrow> byte list \<Rightarrow> sha_core hash_state mac_keys" where
  "sha1_key_internal = mac_key SHA_Init SHA_Bytes"

definition sha1_key :: "sha_core hash_state mac_keys \<Rightarrow> byte list \<Rightarrow> sha_core hash_state mac_keys" where
  "sha1_key keys key = sha1_key_internal keys (take 20 key)"

definition sha1_key_buggy :: "sha_core hash_state mac_keys \<Rightarrow> byte list \<Rightarrow> sha_core hash_state mac_keys" where
  "sha1_key_buggy keys key = sha1_key_internal keys (take 16 key)"

definition hmacsha1_genresult :: "sha_core hash_state mac_keys \<Rightarrow> byte list" where
  "hmacsha1_genresult = mac_genresult SHA_Bytes SHA_Final"

definition sha1_do_hmac :: "sha_core hash_state mac_keys \<Rightarrow> byte list \<Rightarrow> 32 word \<Rightarrow> sha_core hash_state mac_keys \<times> byte list" where
  "sha1_do_hmac = mac_do SHA_Bytes SHA_Final"

text \<open>\<open>generate\<close> writes the code behind the first \<open>n\<close> bytes of the buffer, \<open>verify\<close> compares it.\<close>

definition sha1_generate :: "sha_core hash_state mac_keys \<Rightarrow> byte list \<Rightarrow> nat \<Rightarrow> 32 word \<Rightarrow> byte list" where
  "sha1_generate keys buf n seq = take n buf @ snd (sha1_do_hmac keys (take n buf) seq) @ drop (n + 20) buf"

definition sha1_verify :: "sha_core hash_state mac_keys \<Rightarrow> byte list \<Rightarrow> nat \<Rightarrow> 32 word \<Rightarrow> 32 word" where
  "sha1_verify keys buf n seq = smemeq (snd (sha1_do_hmac keys (take n buf) seq)) (drop n buf) 20"

definition sha1_96_generate :: "sha_core hash_state mac_keys \<Rightarrow> byte list \<Rightarrow> nat \<Rightarrow> 32 word \<Rightarrow> byte list" where
  "sha1_96_generate keys buf n seq = take n buf @ take 12 (snd (sha1_do_hmac keys (take n buf) seq)) @ drop (n + 12) buf"

definition sha1_96_verify :: "sha_core hash_state mac_keys \<Rightarrow> byte list \<Rightarrow> nat \<Rightarrow> 32 word \<Rightarrow> 32 word" where
  "sha1_96_verify keys buf n seq = smemeq (snd (sha1_do_hmac keys (take n buf) seq)) (drop n buf) 12"

definition hmac_sha1_simple :: "byte list \<Rightarrow> byte list \<Rightarrow> byte list" where
  "hmac_sha1_simple key p =
     (let states = sha1_key_internal \<lparr>keys0 = SHA_Init, keys1 = SHA_Init, keys2 = SHA_Init\<rparr> key;
          intermediate = SHA_Final (SHA_Bytes (keys0 states) p)
      in SHA_Final (SHA_Bytes (keys1 states) intermediate))"

section \<open>The interface\<close>

text \<open>SHA-1 with its padding, on a whole message.\<close>

definition SHA_digest :: "byte list \<Rightarrow> byte list" where
  "SHA_digest m = SHA_output (foldl SHA_compress SHA_Core_Init (blocks 64 (padded 64 2 id m)))"

definition SHA_holds :: "sha_core hash_state \<Rightarrow> byte list \<Rightarrow> bool" where
  "SHA_holds = absorbed 64 2 SHA_compress SHA_Core_Init"

lemma SHA_finishes: "SHA_holds s m \<Longrightarrow> SHA_Final s = SHA_digest m"
  using absorbed_final[of 2 64 SHA_compress SHA_Core_Init s m id]
  by (simp add: SHA_Final_def SHA_digest_def SHA_holds_def SHA_Bytes_def Let_def)

interpretation sha1: streaming_hash SHA_Init SHA_Bytes SHA_Final SHA_digest SHA_holds
proof unfold_locales
  show "SHA_holds SHA_Init []"
    using absorbed_empty[of 64 2 SHA_compress SHA_Core_Init] by (simp add: SHA_holds_def SHA_Init_def numeral_2_eq_2)
  show "SHA_holds (SHA_Bytes s q) (m @ q)" if "SHA_holds s m" "length q < 0x80000000" for s m q
    using that by (simp add: SHA_holds_def SHA_Bytes_def absorbed_bytes)
qed (simp_all add: SHA_finishes SHA_digest_def SHA_output_def limb_bytes_def split_beta)

end
