(* ===== verification/Sshsh256.thy ===== *)
theory Sshsh256
  imports Hash
begin

text \<open>
  \<open>putty/sshsh256.c\<close>: SHA-256 on its contexts and the HMAC over it.  As in MD5, the names that
  \<open>ROUND\<close> passes on in turn are a tuple that is turned after each round.
\<close>

unbundle bit_operations_syntax

section \<open>The core\<close>

type_synonym sha256_core = "32 word \<times> 32 word \<times> 32 word \<times> 32 word \<times> 32 word \<times> 32 word \<times> 32 word \<times> 32 word"

definition ror :: "32 word \<Rightarrow> nat \<Rightarrow> 32 word" where
  "ror x y = push_bit (32 - y) x OR drop_bit y x"

definition Ch :: "32 word \<Rightarrow> 32 word \<Rightarrow> 32 word \<Rightarrow> 32 word" where
  "Ch x y z = (x AND y) XOR (NOT x AND z)"

definition Maj :: "32 word \<Rightarrow> 32 word \<Rightarrow> 32 word \<Rightarrow> 32 word" where
  "Maj x y z = (x AND y) XOR (x AND z) XOR (y AND z)"

definition bigsigma0 :: "32 word \<Rightarrow> 32 word" where
  "bigsigma0 x = ror x 2 XOR ror x 13 XOR ror x 22"

definition bigsigma1 :: "32 word \<Rightarrow> 32 word" where
  "bigsigma1 x = ror x 6 XOR ror x 11 XOR ror x 25"

definition smallsigma0 :: "32 word \<Rightarrow> 32 word" where
  "smallsigma0 x = ror x 7 XOR ror x 18 XOR drop_bit 3 x"

definition smallsigma1 :: "32 word \<Rightarrow> 32 word" where
  "smallsigma1 x = ror x 17 XOR ror x 19 XOR drop_bit 10 x"

definition SHA256_Core_Init :: sha256_core where
  "SHA256_Core_Init = (0x6A09E667, 0xBB67AE85, 0x3C6EF372, 0xA54FF53A, 0x510E527F, 0x9B05688C, 0x1F83D9AB, 0x5BE0CD19)"

definition sha256_k :: "32 word list" where
  "sha256_k =
    [0x428A2F98, 0x71374491, 0xB5C0FBCF, 0xE9B5DBA5, 0x3956C25B, 0x59F111F1, 0x923F82A4, 0xAB1C5ED5,
     0xD807AA98, 0x12835B01, 0x243185BE, 0x550C7DC3, 0x72BE5D74, 0x80DEB1FE, 0x9BDC06A7, 0xC19BF174,
     0xE49B69C1, 0xEFBE4786, 0x0FC19DC6, 0x240CA1CC, 0x2DE92C6F, 0x4A7484AA, 0x5CB0A9DC, 0x76F988DA,
     0x983E5152, 0xA831C66D, 0xB00327C8, 0xBF597FC7, 0xC6E00BF3, 0xD5A79147, 0x06CA6351, 0x14292967,
     0x27B70A85, 0x2E1B2138, 0x4D2C6DFC, 0x53380D13, 0x650A7354, 0x766A0ABB, 0x81C2C92E, 0x92722C85,
     0xA2BFE8A1, 0xA81A664B, 0xC24B8B70, 0xC76C51A3, 0xD192E819, 0xD6990624, 0xF40E3585, 0x106AA070,
     0x19A4C116, 0x1E376C08, 0x2748774C, 0x34B0BCB5, 0x391C0CB3, 0x4ED8AA4A, 0x5B9CCA4F, 0x682E6FF3,
     0x748F82EE, 0x78A5636F, 0x84C87814, 0x8CC70208, 0x90BEFFFA, 0xA4506CEB, 0xBEF9A3F7, 0xC67178F2]"

definition sha256_schedule :: "32 word list \<Rightarrow> 32 word list" where
  "sha256_schedule block = foldl (\<lambda>w t. w @ [smallsigma1 (w ! (t - 2)) + w ! (t - 7) + smallsigma0 (w ! (t - 15)) + w ! (t - 16)]) block [16..<64]"

definition sha256_round :: "32 word list \<Rightarrow> sha256_core \<Rightarrow> nat \<Rightarrow> sha256_core" where
  "sha256_round w = (\<lambda>(a, b, c, d, e, f, g, h) j.
     let t1 = h + bigsigma1 e + Ch e f g + sha256_k ! j + w ! j;
         t2 = bigsigma0 a + Maj a b c
     in (t1 + t2, a, b, c, d + t1, e, f, g))"

definition SHA256_Block :: "sha256_core \<Rightarrow> 32 word list \<Rightarrow> sha256_core" where
  "SHA256_Block s block =
     (case foldl (sha256_round (sha256_schedule block)) s [0..<64] of (a, b, c, d, e, f, g, h) \<Rightarrow>
        case s of (h0, h1, h2, h3, h4, h5, h6, h7) \<Rightarrow> (h0 + a, h1 + b, h2 + c, h3 + d, h4 + e, h5 + f, h6 + g, h7 + h))"

section \<open>The hash\<close>

definition SHA256_Init :: "sha256_core hash_state" where
  "SHA256_Init = \<lparr>hstate = SHA256_Core_Init, blk = [], lens = [0, 0]\<rparr>"

definition SHA256_compress :: "sha256_core \<Rightarrow> byte list \<Rightarrow> sha256_core" where
  "SHA256_compress h block = SHA256_Block h (gather_msb block)"

definition SHA256_Bytes :: "sha256_core hash_state \<Rightarrow> byte list \<Rightarrow> sha256_core hash_state" where
  "SHA256_Bytes = hash_bytes 64 SHA256_compress"

definition SHA256_output :: "sha256_core \<Rightarrow> byte list" where
  "SHA256_output = (\<lambda>(a, b, c, d, e, f, g, h). concat (map limb_bytes [a, b, c, d, e, f, g, h]))"

definition SHA256_Final :: "sha256_core hash_state \<Rightarrow> byte list" where
  "SHA256_Final s =
     (let c = concat (map limb_bytes (rev (bit_limbs 0 (lens s))));
          s1 = SHA256_Bytes s (padding 64 8 (length (blk s)))
      in SHA256_output (hstate (SHA256_Bytes s1 c)))"

definition SHA256_Simple :: "byte list \<Rightarrow> byte list" where
  "SHA256_Simple p = SHA256_Final (SHA256_Bytes SHA256_Init p)"

section \<open>HMAC-SHA-256\<close>

definition sha256_key :: "sha256_core hash_state mac_keys \<Rightarrow> byte list \<Rightarrow> sha256_core hash_state mac_keys" where
  "sha256_key keys key = mac_key SHA256_Init SHA256_Bytes keys (take 32 key)"

definition sha256_do_hmac :: "sha256_core hash_state mac_keys \<Rightarrow> byte list \<Rightarrow> 32 word \<Rightarrow> sha256_core hash_state mac_keys \<times> byte list" where
  "sha256_do_hmac = mac_do SHA256_Bytes SHA256_Final"

definition sha256_generate :: "sha256_core hash_state mac_keys \<Rightarrow> byte list \<Rightarrow> nat \<Rightarrow> 32 word \<Rightarrow> byte list" where
  "sha256_generate keys buf n seq = take n buf @ snd (sha256_do_hmac keys (take n buf) seq) @ drop (n + 32) buf"

definition sha256_verify :: "sha256_core hash_state mac_keys \<Rightarrow> byte list \<Rightarrow> nat \<Rightarrow> 32 word \<Rightarrow> 32 word" where
  "sha256_verify keys buf n seq = smemeq (snd (sha256_do_hmac keys (take n buf) seq)) (drop n buf) 32"

section \<open>The interface\<close>

text \<open>SHA-256 with its padding, on a whole message.\<close>

definition SHA256_digest :: "byte list \<Rightarrow> byte list" where
  "SHA256_digest m = SHA256_output (foldl SHA256_compress SHA256_Core_Init (blocks 64 (padded 64 2 id m)))"

definition SHA256_holds :: "sha256_core hash_state \<Rightarrow> byte list \<Rightarrow> bool" where
  "SHA256_holds = absorbed 64 2 SHA256_compress SHA256_Core_Init"

lemma SHA256_finishes: "SHA256_holds s m \<Longrightarrow> SHA256_Final s = SHA256_digest m"
  using absorbed_final[of 2 64 SHA256_compress SHA256_Core_Init s m id]
  by (simp add: SHA256_Final_def SHA256_digest_def SHA256_holds_def SHA256_Bytes_def Let_def)

interpretation sha256: streaming_hash SHA256_Init SHA256_Bytes SHA256_Final SHA256_digest SHA256_holds
proof unfold_locales
  show "SHA256_holds SHA256_Init []"
    using absorbed_empty[of 64 2 SHA256_compress SHA256_Core_Init] by (simp add: SHA256_holds_def SHA256_Init_def numeral_2_eq_2)
  show "SHA256_holds (SHA256_Bytes s q) (m @ q)" if "SHA256_holds s m" "length q < 0x80000000" for s m q
    using that by (simp add: SHA256_holds_def SHA256_Bytes_def absorbed_bytes)
qed (simp_all add: SHA256_finishes SHA256_digest_def SHA256_output_def limb_bytes_def split_beta)

end
