(* ===== verification/Sshsh512.thy ===== *)
theory Sshsh512
  imports Hash Int64
begin

text \<open>
  \<open>putty/sshsh512.c\<close>: SHA-512 and SHA-384 on 64-bit values in two halves of 32 bits, with every
  operation of the macros as a function of its sources.  The lemmas show that the halves implement
  the 64-bit words of the standard: \<open>val64\<close> of each operation is the operation on \<open>val64\<close>.
\<close>

unbundle bit_operations_syntax

section \<open>Arithmetic on halves\<close>

definition add_u64 :: "uint64 \<Rightarrow> uint64 \<Rightarrow> uint64" where
  "add_u64 x y = (let l = lo y + lo x in \<lparr>hi = hi y + hi x + (if l < lo y then 1 else 0), lo = l\<rparr>)"

definition rorB :: "uint64 \<Rightarrow> nat \<Rightarrow> uint64" where
  "rorB x y = \<lparr>hi = drop_bit (y - 32) (lo x) OR push_bit (64 - y) (hi x), lo = drop_bit (y - 32) (hi x) OR push_bit (64 - y) (lo x)\<rparr>"

definition rorL :: "uint64 \<Rightarrow> nat \<Rightarrow> uint64" where
  "rorL x y = \<lparr>hi = drop_bit y (hi x) OR push_bit (32 - y) (lo x), lo = drop_bit y (lo x) OR push_bit (32 - y) (hi x)\<rparr>"

definition shrL :: "uint64 \<Rightarrow> nat \<Rightarrow> uint64" where
  "shrL x y = \<lparr>hi = drop_bit y (hi x), lo = drop_bit y (lo x) OR push_bit (32 - y) (hi x)\<rparr>"

definition and_u64 :: "uint64 \<Rightarrow> uint64 \<Rightarrow> uint64" where
  "and_u64 x y = \<lparr>hi = hi x AND hi y, lo = lo x AND lo y\<rparr>"

definition xor_u64 :: "uint64 \<Rightarrow> uint64 \<Rightarrow> uint64" where
  "xor_u64 x y = \<lparr>hi = hi x XOR hi y, lo = lo x XOR lo y\<rparr>"

definition not_u64 :: "uint64 \<Rightarrow> uint64" where
  "not_u64 x = \<lparr>hi = NOT (hi x), lo = NOT (lo x)\<rparr>"

definition INIT :: "32 word \<Rightarrow> 32 word \<Rightarrow> uint64" where
  "INIT h l = \<lparr>hi = h, lo = l\<rparr>"

section \<open>The core\<close>

type_synonym sha512_core = "uint64 \<times> uint64 \<times> uint64 \<times> uint64 \<times> uint64 \<times> uint64 \<times> uint64 \<times> uint64"

definition Ch_u64 :: "uint64 \<Rightarrow> uint64 \<Rightarrow> uint64 \<Rightarrow> uint64" where
  "Ch_u64 x y z = (let t = not_u64 x; r = and_u64 t z; t = and_u64 x y in xor_u64 r t)"

definition Maj_u64 :: "uint64 \<Rightarrow> uint64 \<Rightarrow> uint64 \<Rightarrow> uint64" where
  "Maj_u64 x y z = (let r = and_u64 x y; t = and_u64 x z; r = xor_u64 r t; t = and_u64 y z in xor_u64 r t)"

definition bigsigma0_u64 :: "uint64 \<Rightarrow> uint64" where
  "bigsigma0_u64 x = (let r = rorL x 28; t = rorB x 34; r = xor_u64 r t; t = rorB x 39 in xor_u64 r t)"

definition bigsigma1_u64 :: "uint64 \<Rightarrow> uint64" where
  "bigsigma1_u64 x = (let r = rorL x 14; t = rorL x 18; r = xor_u64 r t; t = rorB x 41 in xor_u64 r t)"

definition smallsigma0_u64 :: "uint64 \<Rightarrow> uint64" where
  "smallsigma0_u64 x = (let r = rorL x 1; t = rorL x 8; r = xor_u64 r t; t = shrL x 7 in xor_u64 r t)"

definition smallsigma1_u64 :: "uint64 \<Rightarrow> uint64" where
  "smallsigma1_u64 x = (let r = rorL x 19; t = rorB x 61; r = xor_u64 r t; t = shrL x 6 in xor_u64 r t)"

definition SHA512_Core_Init :: sha512_core where
  "SHA512_Core_Init =
    (INIT 0x6A09E667 0xF3BCC908, INIT 0xBB67AE85 0x84CAA73B, INIT 0x3C6EF372 0xFE94F82B,
     INIT 0xA54FF53A 0x5F1D36F1, INIT 0x510E527F 0xADE682D1, INIT 0x9B05688C 0x2B3E6C1F,
     INIT 0x1F83D9AB 0xFB41BD6B, INIT 0x5BE0CD19 0x137E2179)"

definition SHA384_Core_Init :: sha512_core where
  "SHA384_Core_Init =
    (INIT 0xCBBB9D5D 0xC1059ED8, INIT 0x629A292A 0x367CD507, INIT 0x9159015A 0x3070DD17,
     INIT 0x152FECD8 0xF70E5939, INIT 0x67332667 0xFFC00B31, INIT 0x8EB44A87 0x68581511,
     INIT 0xDB0C2E0D 0x64F98FA7, INIT 0x47B5481D 0xBEFA4FA4)"

definition sha512_k :: "uint64 list" where
  "sha512_k =
    [INIT 0x428A2F98 0xD728AE22, INIT 0x71374491 0x23EF65CD, INIT 0xB5C0FBCF 0xEC4D3B2F,
     INIT 0xE9B5DBA5 0x8189DBBC, INIT 0x3956C25B 0xF348B538, INIT 0x59F111F1 0xB605D019,
     INIT 0x923F82A4 0xAF194F9B, INIT 0xAB1C5ED5 0xDA6D8118, INIT 0xD807AA98 0xA3030242,
     INIT 0x12835B01 0x45706FBE, INIT 0x243185BE 0x4EE4B28C, INIT 0x550C7DC3 0xD5FFB4E2,
     INIT 0x72BE5D74 0xF27B896F, INIT 0x80DEB1FE 0x3B1696B1, INIT 0x9BDC06A7 0x25C71235,
     INIT 0xC19BF174 0xCF692694, INIT 0xE49B69C1 0x9EF14AD2, INIT 0xEFBE4786 0x384F25E3,
     INIT 0x0FC19DC6 0x8B8CD5B5, INIT 0x240CA1CC 0x77AC9C65, INIT 0x2DE92C6F 0x592B0275,
     INIT 0x4A7484AA 0x6EA6E483, INIT 0x5CB0A9DC 0xBD41FBD4, INIT 0x76F988DA 0x831153B5,
     INIT 0x983E5152 0xEE66DFAB, INIT 0xA831C66D 0x2DB43210, INIT 0xB00327C8 0x98FB213F,
     INIT 0xBF597FC7 0xBEEF0EE4, INIT 0xC6E00BF3 0x3DA88FC2, INIT 0xD5A79147 0x930AA725,
     INIT 0x06CA6351 0xE003826F, INIT 0x14292967 0x0A0E6E70, INIT 0x27B70A85 0x46D22FFC,
     INIT 0x2E1B2138 0x5C26C926, INIT 0x4D2C6DFC 0x5AC42AED, INIT 0x53380D13 0x9D95B3DF,
     INIT 0x650A7354 0x8BAF63DE, INIT 0x766A0ABB 0x3C77B2A8, INIT 0x81C2C92E 0x47EDAEE6,
     INIT 0x92722C85 0x1482353B, INIT 0xA2BFE8A1 0x4CF10364, INIT 0xA81A664B 0xBC423001,
     INIT 0xC24B8B70 0xD0F89791, INIT 0xC76C51A3 0x0654BE30, INIT 0xD192E819 0xD6EF5218,
     INIT 0xD6990624 0x5565A910, INIT 0xF40E3585 0x5771202A, INIT 0x106AA070 0x32BBD1B8,
     INIT 0x19A4C116 0xB8D2D0C8, INIT 0x1E376C08 0x5141AB53, INIT 0x2748774C 0xDF8EEB99,
     INIT 0x34B0BCB5 0xE19B48A8, INIT 0x391C0CB3 0xC5C95A63, INIT 0x4ED8AA4A 0xE3418ACB,
     INIT 0x5B9CCA4F 0x7763E373, INIT 0x682E6FF3 0xD6B2B8A3, INIT 0x748F82EE 0x5DEFB2FC,
     INIT 0x78A5636F 0x43172F60, INIT 0x84C87814 0xA1F0AB72, INIT 0x8CC70208 0x1A6439EC,
     INIT 0x90BEFFFA 0x23631E28, INIT 0xA4506CEB 0xDE82BDE9, INIT 0xBEF9A3F7 0xB2C67915,
     INIT 0xC67178F2 0xE372532B, INIT 0xCA273ECE 0xEA26619C, INIT 0xD186B8C7 0x21C0C207,
     INIT 0xEADA7DD6 0xCDE0EB1E, INIT 0xF57D4F7F 0xEE6ED178, INIT 0x06F067AA 0x72176FBA,
     INIT 0x0A637DC5 0xA2C898A6, INIT 0x113F9804 0xBEF90DAE, INIT 0x1B710B35 0x131C471B,
     INIT 0x28DB77F5 0x23047D84, INIT 0x32CAAB7B 0x40C72493, INIT 0x3C9EBE0A 0x15C9BEBC,
     INIT 0x431D67C4 0x9C100D4C, INIT 0x4CC5D4BE 0xCB3E42B6, INIT 0x597F299C 0xFC657E2A,
     INIT 0x5FCB6FAB 0x3AD6FAEC, INIT 0x6C44198C 0x4A475817]"

definition sha512_schedule :: "uint64 list \<Rightarrow> uint64 list" where
  "sha512_schedule block = foldl (\<lambda>w t. w @ [
     let p = smallsigma1_u64 (w ! (t - 2)); q = smallsigma0_u64 (w ! (t - 15));
         r = add_u64 p q; p = add_u64 r (w ! (t - 7))
     in add_u64 p (w ! (t - 16))]) block [16..<80]"

definition sha512_round :: "uint64 list \<Rightarrow> sha512_core \<Rightarrow> nat \<Rightarrow> sha512_core" where
  "sha512_round w = (\<lambda>(a, b, c, d, e, f, g, h) j.
     let p = bigsigma1_u64 e; q = Ch_u64 e f g; r = add_u64 p q; p = add_u64 r (sha512_k ! j);
         q = add_u64 p (w ! j); r = add_u64 q h; p = bigsigma0_u64 a; tmp = Maj_u64 a b c;
         q = add_u64 tmp p; p = add_u64 r d
     in (add_u64 q r, a, b, c, p, e, f, g))"

definition SHA512_Block :: "sha512_core \<Rightarrow> uint64 list \<Rightarrow> sha512_core" where
  "SHA512_Block s block =
     (case foldl (sha512_round (sha512_schedule block)) s [0..<80] of (a, b, c, d, e, f, g, h) \<Rightarrow>
        case s of (h0, h1, h2, h3, h4, h5, h6, h7) \<Rightarrow>
          (add_u64 h0 a, add_u64 h1 b, add_u64 h2 c, add_u64 h3 d, add_u64 h4 e, add_u64 h5 f, add_u64 h6 g, add_u64 h7 h))"

section \<open>The hash\<close>

definition SHA512_Init :: "sha512_core hash_state" where
  "SHA512_Init = \<lparr>hstate = SHA512_Core_Init, blk = [], lens = replicate 4 0\<rparr>"

definition SHA384_Init :: "sha512_core hash_state" where
  "SHA384_Init = \<lparr>hstate = SHA384_Core_Init, blk = [], lens = replicate 4 0\<rparr>"

definition gather_u64 :: "byte list \<Rightarrow> uint64 list" where
  "gather_u64 block = map (\<lambda>i.
     INIT (push_bit 24 (ucast (block ! (i * 8))) OR push_bit 16 (ucast (block ! (i * 8 + 1)))
         OR push_bit 8 (ucast (block ! (i * 8 + 2))) OR ucast (block ! (i * 8 + 3)))
       (push_bit 24 (ucast (block ! (i * 8 + 4))) OR push_bit 16 (ucast (block ! (i * 8 + 5)))
         OR push_bit 8 (ucast (block ! (i * 8 + 6))) OR ucast (block ! (i * 8 + 7)))) [0..<16]"

definition SHA512_compress :: "sha512_core \<Rightarrow> byte list \<Rightarrow> sha512_core" where
  "SHA512_compress h block = SHA512_Block h (gather_u64 block)"

definition SHA512_Bytes :: "sha512_core hash_state \<Rightarrow> byte list \<Rightarrow> sha512_core hash_state" where
  "SHA512_Bytes = hash_bytes 128 SHA512_compress"

definition SHA512_output :: "sha512_core \<Rightarrow> byte list" where
  "SHA512_output = (\<lambda>(a, b, c, d, e, f, g, h). concat (map (\<lambda>x. limb_bytes (hi x) @ limb_bytes (lo x)) [a, b, c, d, e, f, g, h]))"

definition SHA512_Final :: "sha512_core hash_state \<Rightarrow> byte list" where
  "SHA512_Final s =
     (let c = concat (map limb_bytes (rev (bit_limbs 0 (lens s))));
          s1 = SHA512_Bytes s (padding 128 16 (length (blk s)))
      in SHA512_output (hstate (SHA512_Bytes s1 c)))"

definition SHA384_Final :: "sha512_core hash_state \<Rightarrow> byte list" where
  "SHA384_Final s = take 48 (SHA512_Final s)"

definition SHA512_Simple :: "byte list \<Rightarrow> byte list" where
  "SHA512_Simple p = SHA512_Final (SHA512_Bytes SHA512_Init p)"

definition SHA384_Simple :: "byte list \<Rightarrow> byte list" where
  "SHA384_Simple p = SHA384_Final (SHA512_Bytes SHA384_Init p)"

section \<open>The interface\<close>

text \<open>SHA-512 and SHA-384 with their padding, on a whole message.\<close>

definition SHA512_digest :: "byte list \<Rightarrow> byte list" where
  "SHA512_digest m = SHA512_output (foldl SHA512_compress SHA512_Core_Init (blocks 128 (padded 128 4 id m)))"

definition SHA384_digest :: "byte list \<Rightarrow> byte list" where
  "SHA384_digest m = take 48 (SHA512_output (foldl SHA512_compress SHA384_Core_Init (blocks 128 (padded 128 4 id m))))"

definition SHA512_holds :: "sha512_core \<Rightarrow> sha512_core hash_state \<Rightarrow> byte list \<Rightarrow> bool" where
  "SHA512_holds = absorbed 128 4 SHA512_compress"

lemma SHA512_starts: "SHA512_holds iv \<lparr>hstate = iv, blk = [], lens = replicate 4 0\<rparr> []"
  using absorbed_empty[of 128 4 SHA512_compress iv] by (simp add: SHA512_holds_def)

lemma SHA512_feeds: "SHA512_holds iv s m \<Longrightarrow> length q < 0x80000000 \<Longrightarrow> SHA512_holds iv (SHA512_Bytes s q) (m @ q)"
  by (simp add: SHA512_holds_def SHA512_Bytes_def absorbed_bytes)

lemma SHA512_finishes:
  "SHA512_holds iv s m \<Longrightarrow> SHA512_Final s = SHA512_output (foldl SHA512_compress iv (blocks 128 (padded 128 4 id m)))"
  using absorbed_final[of 4 128 SHA512_compress iv s m id]
  by (simp add: SHA512_Final_def SHA512_holds_def SHA512_Bytes_def Let_def)

lemma SHA512_output_length: "length (SHA512_output h) = 64"
  by (simp add: SHA512_output_def limb_bytes_def split_beta)

interpretation sha512: streaming_hash SHA512_Init SHA512_Bytes SHA512_Final SHA512_digest "SHA512_holds SHA512_Core_Init"
  by unfold_locales (simp_all add: SHA512_Init_def SHA512_starts SHA512_feeds SHA512_finishes SHA512_digest_def SHA512_output_length)

interpretation sha384: streaming_hash SHA384_Init SHA512_Bytes SHA384_Final SHA384_digest "SHA512_holds SHA384_Core_Init"
  by unfold_locales (simp_all add: SHA384_Init_def SHA512_starts SHA512_feeds SHA512_finishes SHA384_Final_def SHA384_digest_def SHA512_output_length)

section \<open>The halves as 64-bit words\<close>

named_theorems as_word

text \<open>Rotation, as the standard writes it.\<close>

definition rotr64 :: "nat \<Rightarrow> 64 word \<Rightarrow> 64 word" where
  "rotr64 n x = drop_bit n x OR push_bit (64 - n) x"

lemma add_u64_val [as_word]: "val64 (add_u64 x y) = val64 x + val64 y"
proof -
  have "add_u64 x y = uint64_add x y" by (simp add: add_u64_def uint64_add_def Let_def ac_simps)
  then show ?thesis by (simp only: val64_add)
qed

text \<open>Where the bits come from: position \<open>k + n\<close> of the 128 bits that repeat the 64.\<close>

lemma bit_rotr64: "0 < n \<Longrightarrow> n < 64 \<Longrightarrow> k < 64 \<Longrightarrow> bit (rotr64 n x) k \<longleftrightarrow> bit x (if k + n < 64 then k + n else k + n - 64)"
  by (auto simp: rotr64_def bit_or_iff bit_push_bit_iff bit_drop_bit_eq add.commute dest: bit_imp_le_length)

lemma rorL_val [as_word]:
  assumes n: "0 < n" "n < 32"
  shows "val64 (rorL x n) = rotr64 n (val64 x)"
proof (rule bit_word_eqI)
  fix k assume k: "k < LENGTH(64)"
  have i: "\<not> k < 32 \<Longrightarrow> n + (k - 32) = k + n - 32" "\<not> k < 32 \<Longrightarrow> k - 32 - (32 - n) = k + n - 64" "k - (32 - n) = k + n - 32" "n + k = k + n"
    using n by linarith+
  consider "k + n < 32" | "k < 32" "\<not> k + n < 32" | "\<not> k < 32" "k + n < 64" | "\<not> k < 32" "\<not> k + n < 64" by linarith
  then show "bit (val64 (rorL x n)) k = bit (rotr64 n (val64 x)) k"
    using n k by cases (auto simp: bit_rotr64 bit_val64 rorL_def bit_or_iff bit_push_bit_iff bit_drop_bit_eq i dest: bit_imp_le_length)
qed

lemma rorB_val [as_word]:
  assumes n: "32 < n" "n < 64"
  shows "val64 (rorB x n) = rotr64 n (val64 x)"
proof (rule bit_word_eqI)
  fix k assume k: "k < LENGTH(64)"
  have i: "\<not> k < 32 \<Longrightarrow> n - 32 + (k - 32) = k + n - 64" "\<not> k < 32 \<Longrightarrow> k - 32 - (64 - n) = k + n - 64 - 32" "k - (64 - n) = k + n - 64" "n - 32 + k = k + n - 32"
    using n by linarith+
  consider "k < 32" "k + n < 64" | "k < 32" "\<not> k + n < 64" | "\<not> k < 32" "k + n < 96" | "\<not> k < 32" "\<not> k + n < 96" by linarith
  then show "bit (val64 (rorB x n)) k = bit (rotr64 n (val64 x)) k"
    using n k by cases (auto simp: bit_rotr64 bit_val64 rorB_def bit_or_iff bit_push_bit_iff bit_drop_bit_eq i dest: bit_imp_le_length)
qed

lemma shrL_val [as_word]:
  assumes n: "0 < n" "n < 32"
  shows "val64 (shrL x n) = drop_bit n (val64 x)"
proof (rule bit_word_eqI)
  fix k assume k: "k < LENGTH(64)"
  have i: "\<not> k < 32 \<Longrightarrow> n + (k - 32) = k + n - 32" "k - (32 - n) = k + n - 32" "n + k = k + n"
    using n by linarith+
  consider "k + n < 32" | "k < 32" "\<not> k + n < 32" | "\<not> k < 32" "k + n < 64" | "\<not> k < 32" "\<not> k + n < 64" by linarith
  then show "bit (val64 (shrL x n)) k = bit (drop_bit n (val64 x)) k"
    using n k by cases (auto simp: bit_val64 shrL_def bit_or_iff bit_push_bit_iff bit_drop_bit_eq i dest: bit_imp_le_length)
qed

lemma and_val [as_word]: "val64 (and_u64 x y) = val64 x AND val64 y"
  by (rule bit_word_eqI) (simp add: bit_val64 and_u64_def bit_and_iff)

lemma xor_val [as_word]: "val64 (xor_u64 x y) = val64 x XOR val64 y"
  by (rule bit_word_eqI) (simp add: bit_val64 xor_u64_def bit_xor_iff)

lemma not_val [as_word]: "val64 (not_u64 x) = NOT (val64 x)"
  by (rule bit_word_eqI) (auto simp: bit_val64 not_u64_def bit_not_iff)

section \<open>The block function of the standard\<close>

type_synonym sha512_words = "64 word \<times> 64 word \<times> 64 word \<times> 64 word \<times> 64 word \<times> 64 word \<times> 64 word \<times> 64 word"

fun words_of :: "sha512_core \<Rightarrow> sha512_words" where
  "words_of (a, b, c, d, e, f, g, h) = (val64 a, val64 b, val64 c, val64 d, val64 e, val64 f, val64 g, val64 h)"

definition fips_ch :: "64 word \<Rightarrow> 64 word \<Rightarrow> 64 word \<Rightarrow> 64 word" where
  "fips_ch x y z = (x AND y) XOR (NOT x AND z)"

definition fips_maj :: "64 word \<Rightarrow> 64 word \<Rightarrow> 64 word \<Rightarrow> 64 word" where
  "fips_maj x y z = (x AND y) XOR (x AND z) XOR (y AND z)"

text \<open>The message schedule and the rounds of FIPS 180-4, section 6.4.2, on 64-bit words.\<close>

definition fips_schedule :: "64 word list \<Rightarrow> nat \<Rightarrow> 64 word list" where
  "fips_schedule m n = foldl (\<lambda>w t. w @
     [(rotr64 19 (w ! (t - 2)) XOR rotr64 61 (w ! (t - 2)) XOR drop_bit 6 (w ! (t - 2))) + w ! (t - 7)
      + (rotr64 1 (w ! (t - 15)) XOR rotr64 8 (w ! (t - 15)) XOR drop_bit 7 (w ! (t - 15))) + w ! (t - 16)]) m [16..<n]"

definition fips_round :: "64 word list \<Rightarrow> 64 word list \<Rightarrow> sha512_words \<Rightarrow> nat \<Rightarrow> sha512_words" where
  "fips_round k w = (\<lambda>(a, b, c, d, e, f, g, h) t.
     let t1 = h + (rotr64 14 e XOR rotr64 18 e XOR rotr64 41 e) + fips_ch e f g + k ! t + w ! t;
         t2 = (rotr64 28 a XOR rotr64 34 a XOR rotr64 39 a) + fips_maj a b c
     in (t1 + t2, a, b, c, d + t1, e, f, g))"

definition fips_block :: "64 word list \<Rightarrow> sha512_words \<Rightarrow> 64 word list \<Rightarrow> sha512_words" where
  "fips_block k s m =
     (case foldl (fips_round k (fips_schedule m 80)) s [0..<80] of (a, b, c, d, e, f, g, h) \<Rightarrow>
        case s of (h0, h1, h2, h3, h4, h5, h6, h7) \<Rightarrow> (h0 + a, h1 + b, h2 + c, h3 + d, h4 + e, h5 + f, h6 + g, h7 + h))"

lemma ch_val [as_word]: "val64 (Ch_u64 x y z) = fips_ch (val64 x) (val64 y) (val64 z)"
  by (simp add: Ch_u64_def fips_ch_def Let_def as_word xor.commute)

lemma maj_val [as_word]: "val64 (Maj_u64 x y z) = fips_maj (val64 x) (val64 y) (val64 z)"
  by (simp add: Maj_u64_def fips_maj_def Let_def as_word xor.assoc)

lemma sigma_val [as_word]:
  "val64 (bigsigma0_u64 x) = rotr64 28 (val64 x) XOR rotr64 34 (val64 x) XOR rotr64 39 (val64 x)"
  "val64 (bigsigma1_u64 x) = rotr64 14 (val64 x) XOR rotr64 18 (val64 x) XOR rotr64 41 (val64 x)"
  "val64 (smallsigma0_u64 x) = rotr64 1 (val64 x) XOR rotr64 8 (val64 x) XOR drop_bit 7 (val64 x)"
  "val64 (smallsigma1_u64 x) = rotr64 19 (val64 x) XOR rotr64 61 (val64 x) XOR drop_bit 6 (val64 x)"
  by (simp_all only: bigsigma0_u64_def bigsigma1_u64_def smallsigma0_u64_def smallsigma1_u64_def Let_def as_word) (simp_all add: as_word xor.assoc del: One_nat_def)

text \<open>Lists that grow by a function of what they hold.\<close>

lemma grown_length: "length (foldl (\<lambda>w t. w @ [f w t]) ws ts) = length ws + length ts"
  by (induction ts arbitrary: ws) simp_all

lemma grown_map:
  assumes f: "\<And>w t. length w = t \<Longrightarrow> length b \<le> t \<Longrightarrow> h (f w t) = g (map h w) t"
  shows "map h (foldl (\<lambda>w t. w @ [f w t]) b [length b..<n]) = foldl (\<lambda>w t. w @ [g w t]) (map h b) [length b..<n]"
proof (induction n)
  case (Suc n)
  have "length (foldl (\<lambda>w t. w @ [f w t]) b [length b..<n]) = n" if "length b \<le> n"
    using that by (simp add: grown_length)
  then show ?case using Suc f[of "foldl (\<lambda>w t. w @ [f w t]) b [length b..<n]" n] by simp
qed simp

lemma schedule_words:
  assumes b: "length block = 16"
  shows "map val64 (sha512_schedule block) = fips_schedule (map val64 block) 80"
proof -
  have v: "val64 (w ! (t - j)) = map val64 w ! (t - j)" if "length w = t" "16 \<le> t" "0 < j" for w t j
    using that by simp
  show ?thesis
    unfolding sha512_schedule_def fips_schedule_def b[symmetric]
    by (rule grown_map) (simp add: b Let_def as_word v ac_simps del: nth_map)
qed

lemma schedule_length: "length block = 16 \<Longrightarrow> length (sha512_schedule block) = 80"
  unfolding sha512_schedule_def grown_length by simp

lemma round_words:
  assumes "j < length w" "j < length sha512_k"
  shows "words_of (sha512_round w s j) = fips_round (map val64 sha512_k) (map val64 w) (words_of s) j"
  using assms by (cases s rule: words_of.cases) (simp add: sha512_round_def fips_round_def Let_def as_word ac_simps)

lemma rounds_words:
  "\<forall>j\<in>set js. j < length w \<and> j < length sha512_k \<Longrightarrow>
   words_of (foldl (sha512_round w) s js) = foldl (fips_round (map val64 sha512_k) (map val64 w)) (words_of s) js"
  by (induction js arbitrary: s) (simp_all add: round_words)

lemma block_words:
  assumes b: "length block = 16"
  shows "words_of (SHA512_Block s block) = fips_block (map val64 sha512_k) (words_of s) (map val64 block)"
proof -
  have "length sha512_k = 80" by (simp add: sha512_k_def)
  then have "words_of (foldl (sha512_round (sha512_schedule block)) s [0..<80])
      = foldl (fips_round (map val64 sha512_k) (fips_schedule (map val64 block) 80)) (words_of s) [0..<80]"
    using rounds_words[of "[0..<80]" "sha512_schedule block" s] b by (simp add: schedule_length schedule_words)
  from this[symmetric] show ?thesis
    by (cases s rule: words_of.cases; cases "foldl (sha512_round (sha512_schedule block)) s [0..<80]" rule: words_of.cases)
      (simp add: SHA512_Block_def fips_block_def as_word)
qed

end
