(* ===== verification/Hash_Props.thy ===== *)
theory Hash_Props
  imports Sshmd5 Sshsha Sshsh256 Sshsh512
begin

text \<open>
  The hashes as their users see them: the digest of a message however it is cut into calls, HMAC
  as RFC 2104 defines it, verification that accepts exactly the right code, and SHA-512 on halves
  as the 64-bit function of the standard.
\<close>

unbundle bit_operations_syntax

section \<open>Digests\<close>

text \<open>
  Claim C18: however a message is cut into calls of \<open>_Bytes\<close> (\<open>MD5Update\<close>), empty ones and ones
  that cross block borders included, \<open>_Final\<close> gives the digest of the whole message: the
  message with \<open>0x80\<close>, the zeros up to the length field and its length in bits (mod \<open>2 ^ 64\<close>, or
  \<open>2 ^ 128\<close> for the SHA-512 family; least significant byte first in MD5), cut into blocks that are
  compressed one after the other.
\<close>

theorem hashes_chunk_independent:
  assumes "\<forall>q\<in>set qs. length q < 0x80000000"
  shows "MD5Final (foldl MD5Update MD5Init qs) = MD5_digest (concat qs)
    \<and> SHA_Final (foldl SHA_Bytes SHA_Init qs) = SHA_digest (concat qs)
    \<and> SHA256_Final (foldl SHA256_Bytes SHA256_Init qs) = SHA256_digest (concat qs)
    \<and> SHA384_Final (foldl SHA512_Bytes SHA384_Init qs) = SHA384_digest (concat qs)
    \<and> SHA512_Final (foldl SHA512_Bytes SHA512_Init qs) = SHA512_digest (concat qs)"
  using md5.chunks_digest[OF assms] sha1.chunks_digest[OF assms] sha256.chunks_digest[OF assms]
    sha384.chunks_digest[OF assms] sha512.chunks_digest[OF assms] by (intro conjI)

theorem hashes_chunk_independent_witness:
  "MD5Final (foldl MD5Update MD5Init [replicate 60 7, [], [1, 2, 3, 4, 5, 6]]) = MD5_digest (concat [replicate 60 7, [], [1, 2, 3, 4, 5, 6]])
    \<and> SHA512_Final (foldl SHA512_Bytes SHA512_Init [replicate 60 7, [], [1, 2, 3, 4, 5, 6]])
      = SHA512_digest (concat [replicate 60 7, [], [1, 2, 3, 4, 5, 6]])"
proof -
  have "\<forall>q\<in>set [replicate 60 7, [], [1, 2, 3, 4, 5, 6]]. length (q :: byte list) < 0x80000000" by simp
  from hashes_chunk_independent[OF this] show ?thesis by (elim conjE) (rule conjI)
qed

section \<open>HMAC\<close>

text \<open>RFC 2104 with a block of 64 bytes, over the hash \<open>hash\<close>; a longer key is hashed first.\<close>

definition rfc2104 :: "(byte list \<Rightarrow> byte list) \<Rightarrow> byte list \<Rightarrow> byte list \<Rightarrow> byte list" where
  "rfc2104 hash key text =
     (let k = if length key > 64 then hash key else key;
          K = k @ replicate (64 - length k) 0
      in hash (map (\<lambda>b. b XOR 0x5C) K @ hash (map (\<lambda>b. b XOR 0x36) K @ text)))"

lemma masked_key_xor:
  "length key \<le> 64 \<Longrightarrow> masked_key c key = map (\<lambda>b. b XOR c) (key @ replicate (64 - length key) 0)"
  by (rule nth_equalityI) (auto simp: masked_key_def nth_append xor.commute)

lemma mac_rfc2104:
  "length key \<le> 64 \<Longrightarrow> hash (masked_key 0x5C key @ hash (masked_key 0x36 key @ text)) = rfc2104 hash key text"
  by (simp add: rfc2104_def masked_key_xor Let_def)

lemma smemeq_code: "length code = n \<Longrightarrow> n \<le> length b \<Longrightarrow> smemeq code b n = (if take n b = code then 1 else 0)"
  by (auto simp: smemeq_equal)

lemma digest_lengths:
  "length (MD5_digest m) = 16" "length (SHA_digest m) = 20" "length (SHA256_digest m) = 32"
  by (simp_all add: MD5_digest_def MD5_output_def SHA_digest_def SHA_output_def SHA256_digest_def SHA256_output_def
      limb_bytes_def split_beta)

lemma hmac_codes:
  assumes "length key \<le> 64" "length p < 0x80000000"
  shows "snd (hmacmd5_do_hmac_ssh (hmacmd5_key km key) p seq) = rfc2104 MD5_digest key (PUT_32BIT_MSB_FIRST seq @ p)"
    "snd (sha1_do_hmac (sha1_key_internal ka key) p seq) = rfc2104 SHA_digest key (PUT_32BIT_MSB_FIRST seq @ p)"
    "snd (sha256_do_hmac (mac_key SHA256_Init SHA256_Bytes kb key) p seq) = rfc2104 SHA256_digest key (PUT_32BIT_MSB_FIRST seq @ p)"
  using md5.mac_digest[OF assms(2)] sha1.mac_digest[OF assms(2)] sha256.mac_digest[OF assms(2)] mac_rfc2104[OF assms(1)]
  by (simp_all add: hmacmd5_do_hmac_ssh_def hmacmd5_key_def sha1_do_hmac_def sha1_key_internal_def sha256_do_hmac_def)

lemma rfc2104_lengths:
  "length (rfc2104 MD5_digest k t) = 16" "length (rfc2104 SHA_digest k t) = 20" "length (rfc2104 SHA256_digest k t) = 32"
  by (simp_all add: rfc2104_def Let_def digest_lengths)

text \<open>
  Claim C19: the packet MACs verify exactly the HMAC of RFC 2104 over the sequence number and the
  first \<open>n\<close> bytes: the bytes behind the packet are accepted if and only if they are that code
  (its first 12 bytes in the \<open>-96\<close> variant), with the key cut to the 16, 20 or 32 bytes of the
  method (and to 16 in the variant for servers with the bug).
\<close>

theorem mac_verifies_rfc2104:
  assumes "n < 0x80000000" "n + 32 \<le> length buf"
  shows "hmacmd5_verify (hmacmd5_key_16 km key) buf n seq =
      (if take 16 (drop n buf) = rfc2104 MD5_digest (take 16 key) (PUT_32BIT_MSB_FIRST seq @ take n buf) then 1 else 0)
    \<and> sha1_verify (sha1_key k1 key) buf n seq =
      (if take 20 (drop n buf) = rfc2104 SHA_digest (take 20 key) (PUT_32BIT_MSB_FIRST seq @ take n buf) then 1 else 0)
    \<and> sha1_verify (sha1_key_buggy k1 key) buf n seq =
      (if take 20 (drop n buf) = rfc2104 SHA_digest (take 16 key) (PUT_32BIT_MSB_FIRST seq @ take n buf) then 1 else 0)
    \<and> sha1_96_verify (sha1_key k1 key) buf n seq =
      (if take 12 (drop n buf) = take 12 (rfc2104 SHA_digest (take 20 key) (PUT_32BIT_MSB_FIRST seq @ take n buf)) then 1 else 0)
    \<and> sha256_verify (sha256_key k2 key) buf n seq =
      (if take 32 (drop n buf) = rfc2104 SHA256_digest (take 32 key) (PUT_32BIT_MSB_FIRST seq @ take n buf) then 1 else 0)"
proof -
  have p: "length (take n buf) < 0x80000000" using assms(1) by simp
  have k: "length (take m key) \<le> 64" if "m \<le> 64" for m using that by simp
  have b: "length (drop n buf) \<ge> 32" using assms(2) by simp
  have s: "smemeq c (drop n buf) 12 = (if take 12 (drop n buf) = take 12 c then 1 else 0)" if "length c = 20" for c
    using that b by (auto simp: smemeq_equal)
  show ?thesis
    unfolding hmacmd5_verify_def hmacmd5_key_16_def sha1_verify_def sha1_key_def sha1_key_buggy_def sha1_96_verify_def
      sha256_verify_def sha256_key_def
    by (intro conjI; (subst hmac_codes[OF k p], simp)?; (rule smemeq_code | rule s); use b in \<open>simp add: rfc2104_lengths\<close>)
qed

theorem mac_verifies_rfc2104_witness:
  "sha256_verify (sha256_key \<lparr>keys0 = SHA256_Init, keys1 = SHA256_Init, keys2 = SHA256_Init\<rparr> (replicate 32 9)) (replicate 40 5) 8 3 =
      (if take 32 (drop 8 (replicate 40 5)) = rfc2104 SHA256_digest (take 32 (replicate 32 9)) (PUT_32BIT_MSB_FIRST 3 @ take 8 (replicate 40 5)) then 1 else 0)"
  using mac_verifies_rfc2104[of 8 "replicate 40 5" "\<lparr>keys0 = MD5Init, keys1 = MD5Init, keys2 = MD5Init\<rparr>" "replicate 32 9" 3
      "\<lparr>keys0 = SHA_Init, keys1 = SHA_Init, keys2 = SHA_Init\<rparr>" "\<lparr>keys0 = SHA256_Init, keys1 = SHA256_Init, keys2 = SHA256_Init\<rparr>"]
  by (simp only: length_replicate)

text \<open>
  What \<open>generate\<close> writes, \<open>verify\<close> accepts: with any contexts, for every packet and
  sequence number, in a buffer with room for the code; and the packet before it is unchanged.
\<close>

lemma generated_mac_accepted:
  assumes "n + 32 \<le> length buf"
  shows "sha1_verify k1 (sha1_generate k1 buf n seq) n seq = 1
    \<and> sha1_96_verify k1 (sha1_96_generate k1 buf n seq) n seq = 1
    \<and> sha256_verify k2 (sha256_generate k2 buf n seq) n seq = 1
    \<and> take n (sha1_generate k1 buf n seq) = take n buf
    \<and> take n (sha1_96_generate k1 buf n seq) = take n buf
    \<and> take n (sha256_generate k2 buf n seq) = take n buf"
proof -
  have l: "length (snd (mac_do SHA_Bytes SHA_Final k1 p seq)) = 20" "length (snd (mac_do SHA256_Bytes SHA256_Final k2 p seq)) = 32" for p
    by (simp_all add: mac_do_def mac_genresult_def Let_def SHA_Final_def SHA_output_def SHA256_Final_def SHA256_output_def limb_bytes_def split_beta)
  show ?thesis using assms
    by (simp add: sha1_verify_def sha1_generate_def sha1_96_verify_def sha1_96_generate_def sha256_verify_def sha256_generate_def
        sha1_do_hmac_def sha256_do_hmac_def smemeq_equal l min_def)
qed

text \<open>
  Claim C24: the CHAP response that the SOCKS proxy code computes is the HMAC-MD5 of RFC 2104 with
  the password as the key, passwords of more than a block included: \<open>hmacmd5_key\<close> would cut
  such a key, and the caller hashes it before.
\<close>

theorem chap_response_rfc2104:
  assumes "length passwd < 0x80000000" "length challenge < 0x80000000"
  shows "hmacmd5_chap km challenge passwd = rfc2104 MD5_digest passwd challenge"
proof -
  have r: "hmacmd5_do_hmac (hmacmd5_key km key) challenge = rfc2104 MD5_digest key challenge" if "length key \<le> 64" for key
    using md5.mac_parts_digest[of "[challenge]" km key] assms(2) mac_rfc2104[OF that]
    by (simp add: hmacmd5_do_hmac_def hmacmd5_key_def hmacmd5_genresult_def)
  have d: "MD5Simple passwd = MD5_digest passwd"
    using md5.chunks_digest[of "[passwd]"] assms(1) by (simp add: MD5Simple_def)
  show ?thesis
  proof (cases "length passwd > 64")
    case True
    then show ?thesis using r[of "MD5_digest passwd"]
      by (simp add: hmacmd5_chap_def d digest_lengths rfc2104_def)
  qed (simp add: hmacmd5_chap_def r)
qed

theorem chap_response_rfc2104_witness:
  "hmacmd5_chap \<lparr>keys0 = MD5Init, keys1 = MD5Init, keys2 = MD5Init\<rparr> [1, 2, 3] (replicate 100 65)
    = rfc2104 MD5_digest (replicate 100 65) [1, 2, 3]"
  by (rule chap_response_rfc2104) simp_all

section \<open>SHA-512\<close>

text \<open>
  Claim C21: \<open>SHA512_Block\<close>, with its additions, rotations and shifts on 32-bit halves, is the
  block function of FIPS 180-4 on 64-bit words, for every state and every block of 16 words.
\<close>

theorem sha512_halves_refine_words:
  assumes "length block = 16"
  shows "words_of (SHA512_Block s block) = fips_block (map val64 sha512_k) (words_of s) (map val64 block)"
  using assms by (rule block_words)

theorem sha512_halves_refine_words_witness:
  "words_of (SHA512_Block SHA512_Core_Init (replicate 16 (INIT 1 2)))
    = fips_block (map val64 sha512_k) (words_of SHA512_Core_Init) (map val64 (replicate 16 (INIT 1 2)))"
  by (rule sha512_halves_refine_words) simp

end
