(* ===== verification/Cipher.thy ===== *)
theory Cipher
  imports Misc "HOL-Library.Monad_Syntax"
begin

text \<open>
  The modes of operation that the block ciphers of the SSH code share: cipher block chaining and
  the counter mode of SSH-2, on words of either byte order.  Each cipher file of the source
  repeats the loops for itself; here the cipher and the byte order are arguments.
\<close>

unbundle bit_operations_syntax

type_synonym block = "32 word \<times> 32 word"

section \<open>The loops\<close>

definition GET_32BIT_LSB_FIRST :: "byte list \<Rightarrow> 32 word" where
  "GET_32BIT_LSB_FIRST cp =
     ucast (cp ! 0) OR push_bit 8 (ucast (cp ! 1)) OR push_bit 16 (ucast (cp ! 2)) OR push_bit 24 (ucast (cp ! 3))"

definition PUT_32BIT_LSB_FIRST :: "32 word \<Rightarrow> byte list" where
  "PUT_32BIT_LSB_FIRST value =
     [ucast value, ucast (drop_bit 8 value), ucast (drop_bit 16 value), ucast (drop_bit 24 value)]"

text \<open>
  The loop over the blocks, with the chaining value and the data; the result is the new chaining
  value and the data that replace the old.  The callers check that the length is a multiple of 8.
\<close>

function cbc_encrypt :: "(block \<Rightarrow> block) \<Rightarrow> (byte list \<Rightarrow> 32 word) \<Rightarrow> (32 word \<Rightarrow> byte list) \<Rightarrow> block \<Rightarrow> byte list \<Rightarrow> block \<times> byte list" where
  "cbc_encrypt E get put iv blk =
     (if length blk < 8 then (iv, [])
      else let out = E (fst iv XOR get blk, snd iv XOR get (drop 4 blk));
               (iv', rest) = cbc_encrypt E get put out (drop 8 blk)
           in (iv', put (fst out) @ put (snd out) @ rest))"
  by pat_completeness auto
termination by (relation "measure (\<lambda>(E, get, put, iv, blk). length blk)") auto

function cbc_decrypt :: "(block \<Rightarrow> block) \<Rightarrow> (byte list \<Rightarrow> 32 word) \<Rightarrow> (32 word \<Rightarrow> byte list) \<Rightarrow> block \<Rightarrow> byte list \<Rightarrow> block \<times> byte list" where
  "cbc_decrypt D get put iv blk =
     (if length blk < 8 then (iv, [])
      else let x = (get blk, get (drop 4 blk)); out = D x;
               (iv', rest) = cbc_decrypt D get put x (drop 8 blk)
           in (iv', put (fst iv XOR fst out) @ put (snd iv XOR snd out) @ rest))"
  by pat_completeness auto
termination by (relation "measure (\<lambda>(D, get, put, iv, blk). length blk)") auto

text \<open>The counter: 64 bits in two halves.\<close>

definition next_counter :: "block \<Rightarrow> block" where
  "next_counter iv = (if snd iv + 1 = 0 then fst iv + 1 else fst iv, snd iv + 1)"

function sdctr :: "(block \<Rightarrow> block) \<Rightarrow> (byte list \<Rightarrow> 32 word) \<Rightarrow> (32 word \<Rightarrow> byte list) \<Rightarrow> block \<Rightarrow> byte list \<Rightarrow> block \<times> byte list" where
  "sdctr E get put iv blk =
     (if length blk < 8 then (iv, [])
      else let b = E iv; (iv', rest) = sdctr E get put (next_counter iv) (drop 8 blk)
           in (iv', put (get blk XOR fst b) @ put (get (drop 4 blk) XOR snd b) @ rest))"
  by pat_completeness auto
termination by (relation "measure (\<lambda>(E, get, put, iv, blk). length blk)") auto

declare cbc_encrypt.simps [simp del] cbc_decrypt.simps [simp del] sdctr.simps [simp del]

section \<open>The interfaces\<close>

text \<open>A byte order: four bytes are a word, and back.\<close>

locale word_order =
  fixes get :: "byte list \<Rightarrow> 32 word" and put :: "32 word \<Rightarrow> byte list"
  assumes get_put: "get (put w @ r) = w"
    and put_get: "4 \<le> length p \<Longrightarrow> put (get p) = take 4 p"
    and put_length: "length (put w) = 4"
begin

lemma put_parts: "drop 4 (put w @ r) = r" "drop 8 (put w @ put v @ r) = r" "\<not> length (put w @ put v @ r) < 8"
  by (simp_all add: put_length)

lemma put_got: "\<not> length p < 8 \<Longrightarrow> put (get p) @ put (get (drop 4 p)) @ drop 8 p = p"
proof -
  assume p: "\<not> length p < 8"
  then have "put (get p) @ put (get (drop 4 p)) @ drop 8 p = take 4 p @ take 4 (drop 4 p) @ drop 4 (drop 4 p)"
    by (simp add: put_get)
  then show ?thesis by (simp only: append_take_drop_id)
qed

end

text \<open>A block cipher under a fixed key: two functions on blocks that undo each other.\<close>

locale block_cipher =
  fixes E D :: "block \<Rightarrow> block"
  assumes dec_enc: "D (E b) = b"
    and enc_dec: "E (D b) = b"

text \<open>
  The modes, with what both ends of a connection rely on: each packet is recovered, and the
  chaining values of sender and receiver are the same after it.
\<close>

locale cipher_modes = block_cipher E D + word_order get put
  for E D :: "block \<Rightarrow> block" and get :: "byte list \<Rightarrow> 32 word" and put :: "32 word \<Rightarrow> byte list"
begin

lemma xor_twice: "(x XOR y) XOR y = x" "x XOR (x XOR y) = y" for x y :: "32 word"
  by (simp_all add: xor.assoc flip: xor.assoc[of x x])

lemma get_append: "\<not> length p < 8 \<Longrightarrow> get (p @ q) = get p \<and> get (drop 4 (p @ q)) = get (drop 4 p)"
proof -
  have g: "get (r @ q) = get r" if "4 \<le> length r" for r
  proof -
    have "r @ q = put (get r) @ drop 4 r @ q" using put_get[OF that] by (metis append.assoc append_take_drop_id)
    then show ?thesis by (metis get_put)
  qed
  show "\<not> length p < 8 \<Longrightarrow> ?thesis" using g[of p] g[of "drop 4 p"] by simp
qed

lemma short_block: "8 dvd length p \<Longrightarrow> length p < 8 \<Longrightarrow> p = ([] :: byte list)"
  by (cases p) (auto dest: dvd_imp_le)

lemma dvd_rest: "8 dvd length p \<Longrightarrow> 8 dvd length (drop 8 (p :: byte list))"
  by (auto simp: dvd_diff_nat)

lemma cbc_roundtrip:
  "8 dvd length p \<Longrightarrow> cbc_decrypt D get put iv (snd (cbc_encrypt E get put iv p)) = (fst (cbc_encrypt E get put iv p), p)
    \<and> length (snd (cbc_encrypt E get put iv p)) = length p"
proof (induction p arbitrary: iv rule: measure_induct_rule[of length])
  case (less p)
  show ?case
  proof (cases "length p < 8")
    case False
    define u where "u = E (fst iv XOR get p, snd iv XOR get (drop 4 p))"
    define r where "r = cbc_encrypt E get put u (drop 8 p)"
    have e: "cbc_encrypt E get put iv p = (fst r, put (fst u) @ put (snd u) @ snd r)"
      using False by (subst cbc_encrypt.simps) (simp add: u_def r_def Let_def split_beta)
    have ih: "cbc_decrypt D get put u (snd r) = (fst r, drop 8 p)" "length (snd r) = length (drop 8 p)"
      using less.IH[of "drop 8 p" u] False less.prems dvd_rest by (simp_all add: r_def)
    have x: "(fst u, snd u) = u" "D u = (fst iv XOR get p, snd iv XOR get (drop 4 p))" by (simp_all add: u_def dec_enc)
    have "cbc_decrypt D get put iv (put (fst u) @ put (snd u) @ snd r) = (fst r, put (get p) @ put (get (drop 4 p)) @ drop 8 p)"
      by (subst cbc_decrypt.simps) (simp only: put_parts get_put x ih Let_def if_False fst_conv snd_conv prod.case xor_twice)
    then show ?thesis unfolding e using False ih(2) by (simp add: put_got put_length)
  qed (use short_block[OF less.prems] in \<open>simp add: cbc_encrypt.simps cbc_decrypt.simps\<close>)
qed

lemma cbc_roundtrip_back:
  "8 dvd length p \<Longrightarrow> cbc_encrypt E get put iv (snd (cbc_decrypt D get put iv p)) = (fst (cbc_decrypt D get put iv p), p)
    \<and> length (snd (cbc_decrypt D get put iv p)) = length p"
proof (induction p arbitrary: iv rule: measure_induct_rule[of length])
  case (less p)
  show ?case
  proof (cases "length p < 8")
    case False
    define x where "x = (get p, get (drop 4 p))"
    define u where "u = D x"
    define r where "r = cbc_decrypt D get put x (drop 8 p)"
    have e: "cbc_decrypt D get put iv p = (fst r, put (fst iv XOR fst u) @ put (snd iv XOR snd u) @ snd r)"
      using False by (subst cbc_decrypt.simps) (simp add: x_def u_def r_def Let_def split_beta)
    have ih: "cbc_encrypt E get put x (snd r) = (fst r, drop 8 p)" "length (snd r) = length (drop 8 p)"
      using less.IH[of "drop 8 p" x] False less.prems dvd_rest by (simp_all add: r_def)
    have x: "E (fst u, snd u) = x" "fst x = get p" "snd x = get (drop 4 p)" by (simp_all add: u_def enc_dec x_def)
    have "cbc_encrypt E get put iv (put (fst iv XOR fst u) @ put (snd iv XOR snd u) @ snd r) = (fst r, put (get p) @ put (get (drop 4 p)) @ drop 8 p)"
      by (subst cbc_encrypt.simps) (simp only: put_parts get_put xor_twice x ih Let_def if_False fst_conv snd_conv prod.case)
    then show ?thesis unfolding e using False ih(2) by (simp add: put_got put_length)
  qed (use short_block[OF less.prems] in \<open>simp add: cbc_encrypt.simps cbc_decrypt.simps\<close>)
qed

lemma splits_by_blocks:
  assumes short: "\<And>iv p. length p < 8 \<Longrightarrow> f iv p = (iv, [])"
    and long: "\<And>iv p. \<not> length p < 8 \<Longrightarrow>
      f iv p = (fst (f (g iv (get p) (get (drop 4 p))) (drop 8 p)),
        h iv (get p) (get (drop 4 p)) @ snd (f (g iv (get p) (get (drop 4 p))) (drop 8 p)))"
  shows "8 dvd length p \<Longrightarrow> f iv (p @ q) = (fst (f (fst (f iv p)) q), snd (f iv p) @ snd (f (fst (f iv p)) q))"
proof (induction p arbitrary: iv rule: measure_induct_rule[of length])
  case (less p)
  show ?case
  proof (cases "length p < 8")
    case True
    then show ?thesis using short[OF True, of iv] short_block[OF less.prems] by simp
  next
    case False
    let ?g = "g iv (get p) (get (drop 4 p))"
    have ih: "f ?g (drop 8 p @ q) = (fst (f (fst (f ?g (drop 8 p))) q), snd (f ?g (drop 8 p)) @ snd (f (fst (f ?g (drop 8 p))) q))"
      using less.IH[of "drop 8 p" ?g] False less.prems dvd_rest by simp
    have "f iv (p @ q) = (fst (f ?g (drop 8 p @ q)), h iv (get p) (get (drop 4 p)) @ snd (f ?g (drop 8 p @ q)))"
      using long[of "p @ q" iv] get_append[OF False, of q] False by simp
    then show ?thesis using long[OF False, of iv] ih by simp
  qed
qed

lemma cbc_encrypt_append:
  "8 dvd length p \<Longrightarrow> cbc_encrypt E get put iv (p @ q) = (fst (cbc_encrypt E get put (fst (cbc_encrypt E get put iv p)) q),
     snd (cbc_encrypt E get put iv p) @ snd (cbc_encrypt E get put (fst (cbc_encrypt E get put iv p)) q))"
  by (rule splits_by_blocks[where g = "\<lambda>iv x y. E (fst iv XOR x, snd iv XOR y)" and
        h = "\<lambda>iv x y. put (fst (E (fst iv XOR x, snd iv XOR y))) @ put (snd (E (fst iv XOR x, snd iv XOR y)))"])
    (simp add: cbc_encrypt.simps[of E get put] Let_def split_beta; fail)+

lemma cbc_decrypt_append:
  "8 dvd length p \<Longrightarrow> cbc_decrypt D get put iv (p @ q) = (fst (cbc_decrypt D get put (fst (cbc_decrypt D get put iv p)) q),
     snd (cbc_decrypt D get put iv p) @ snd (cbc_decrypt D get put (fst (cbc_decrypt D get put iv p)) q))"
  by (rule splits_by_blocks[where g = "\<lambda>iv x y. (x, y)" and
        h = "\<lambda>iv x y. put (fst iv XOR fst (D (x, y))) @ put (snd iv XOR snd (D (x, y)))"])
    (simp add: cbc_decrypt.simps[of D get put] Let_def split_beta; fail)+

lemma sdctr_append:
  "8 dvd length p \<Longrightarrow> sdctr E get put iv (p @ q) = (fst (sdctr E get put (fst (sdctr E get put iv p)) q),
     snd (sdctr E get put iv p) @ snd (sdctr E get put (fst (sdctr E get put iv p)) q))"
  by (rule splits_by_blocks[where g = "\<lambda>iv x y. next_counter iv" and h = "\<lambda>iv x y. put (x XOR fst (E iv)) @ put (y XOR snd (E iv))"])
    (simp add: sdctr.simps[of E get put] Let_def split_beta; fail)+

lemma sdctr_roundtrip:
  "8 dvd length p \<Longrightarrow> sdctr E get put iv (snd (sdctr E get put iv p)) = (fst (sdctr E get put iv p), p)
    \<and> length (snd (sdctr E get put iv p)) = length p"
proof (induction p arbitrary: iv rule: measure_induct_rule[of length])
  case (less p)
  show ?case
  proof (cases "length p < 8")
    case False
    define b where "b = E iv"
    define r where "r = sdctr E get put (next_counter iv) (drop 8 p)"
    have e: "sdctr E get put iv p = (fst r, put (get p XOR fst b) @ put (get (drop 4 p) XOR snd b) @ snd r)"
      using False by (subst sdctr.simps) (simp add: b_def r_def Let_def split_beta)
    have ih: "sdctr E get put (next_counter iv) (snd r) = (fst r, drop 8 p)" "length (snd r) = length (drop 8 p)"
      using less.IH[of "drop 8 p" "next_counter iv"] False less.prems dvd_rest by (simp_all add: r_def)
    have "sdctr E get put iv (put (get p XOR fst b) @ put (get (drop 4 p) XOR snd b) @ snd r)
        = (fst r, put (get p) @ put (get (drop 4 p)) @ drop 8 p)"
      by (subst sdctr.simps) (simp only: put_parts get_put xor_twice ih b_def[symmetric] Let_def if_False fst_conv snd_conv prod.case)
    then show ?thesis unfolding e using False ih(2) by (simp add: put_got put_length)
  qed (use short_block[OF less.prems] in \<open>simp add: sdctr.simps\<close>)
qed

end

section \<open>Byte orders\<close>

lemma bytes_of_GET:
  assumes "4 \<le> length p"
  shows "PUT_32BIT_MSB_FIRST (GET_32BIT_MSB_FIRST p) = take 4 p" "PUT_32BIT_LSB_FIRST (GET_32BIT_LSB_FIRST p) = take 4 p"
proof -
  have four: "take 4 p = [p ! 0, p ! 1, p ! 2, p ! 3]"
    using assms by (cases p; cases "tl p"; cases "tl (tl p)"; cases "tl (tl (tl p))") (auto simp: numeral_eq_Suc)
  have lsb: "GET_32BIT_LSB_FIRST p = push_bit 24 (ucast (p ! 3)) OR push_bit 16 (ucast (p ! 2)) OR push_bit 8 (ucast (p ! 1)) OR ucast (p ! 0)"
    by (simp only: GET_32BIT_LSB_FIRST_def or.commute or.left_commute or.assoc)
  have b: "ucast (push_bit 24 (ucast a) OR push_bit 16 (ucast b) OR push_bit 8 (ucast c) OR ucast d :: 32 word) = d"
    "ucast (drop_bit 8 (push_bit 24 (ucast a) OR push_bit 16 (ucast b) OR push_bit 8 (ucast c) OR ucast d :: 32 word)) = c"
    "ucast (drop_bit 16 (push_bit 24 (ucast a) OR push_bit 16 (ucast b) OR push_bit 8 (ucast c) OR ucast d :: 32 word)) = b"
    "ucast (drop_bit 24 (push_bit 24 (ucast a) OR push_bit 16 (ucast b) OR push_bit 8 (ucast c) OR ucast d :: 32 word)) = a"
    for a b c d :: byte
    by (rule bit_word_eqI, auto simp: bit_unsigned_iff bit_drop_bit_eq bit_or_iff bit_push_bit_iff dest: bit_imp_le_length)+
  show "PUT_32BIT_MSB_FIRST (GET_32BIT_MSB_FIRST p) = take 4 p" "PUT_32BIT_LSB_FIRST (GET_32BIT_LSB_FIRST p) = take 4 p"
    unfolding PUT_32BIT_MSB_FIRST_def GET_32BIT_MSB_FIRST_def PUT_32BIT_LSB_FIRST_def lsb four b by (rule refl)+
qed

lemma GET_PUT_LSB: "GET_32BIT_LSB_FIRST (PUT_32BIT_LSB_FIRST w @ r) = w"
proof (rule bit_word_eqI)
  fix n assume n: "n < LENGTH(32)"
  then have "n < 8 \<or> 8 \<le> n \<and> n < 16 \<or> 16 \<le> n \<and> n < 24 \<or> 24 \<le> n" by linarith
  with n show "bit (GET_32BIT_LSB_FIRST (PUT_32BIT_LSB_FIRST w @ r)) n \<longleftrightarrow> bit w n"
    unfolding GET_32BIT_LSB_FIRST_def PUT_32BIT_LSB_FIRST_def
    by (elim disjE conjE) (auto simp: bit_or_iff bit_push_bit_iff bit_drop_bit_eq bit_ucast_iff)
qed

interpretation msb: word_order GET_32BIT_MSB_FIRST PUT_32BIT_MSB_FIRST
  by unfold_locales (simp_all add: bytes_of_GET)

interpretation lsb: word_order GET_32BIT_LSB_FIRST PUT_32BIT_LSB_FIRST
  by unfold_locales (rule GET_PUT_LSB bytes_of_GET | assumption | simp add: PUT_32BIT_LSB_FIRST_def)+

section \<open>Sessions\<close>

text \<open>
  One direction of a connection: the packets go through the same context one after the other.
  \<open>None\<close> is a failed assertion, for a length that is not a multiple of the block size.
\<close>

fun crypt_stream :: "('s \<Rightarrow> byte list \<Rightarrow> ('s \<times> byte list) option) \<Rightarrow> 's \<Rightarrow> byte list list \<Rightarrow> ('s \<times> byte list list) option" where
  "crypt_stream f s [] = Some (s, [])"
| "crypt_stream f s (p # ps) = do { (s1, c) \<leftarrow> f s p; (s2, cs) \<leftarrow> crypt_stream f s1 ps; Some (s2, c # cs) }"

text \<open>A pair of functions that undo each other packet by packet, leaving equal contexts.\<close>

definition packets_in_step :: "(byte list \<Rightarrow> bool) \<Rightarrow> ('s \<Rightarrow> byte list \<Rightarrow> ('s \<times> byte list) option) \<Rightarrow> ('s \<Rightarrow> byte list \<Rightarrow> ('s \<times> byte list) option) \<Rightarrow> bool" where
  "packets_in_step ok enc dec \<longleftrightarrow> (\<forall>s p. ok p \<longrightarrow> (\<exists>s' c. enc s p = Some (s', c) \<and> length c = length p \<and> dec s c = Some (s', p)))"

lemma in_stepI:
  "(\<And>s p. ok p \<Longrightarrow> \<exists>s' c. enc s p = Some (s', c) \<and> length c = length p \<and> dec s c = Some (s', p)) \<Longrightarrow> packets_in_step ok enc dec"
  by (simp add: packets_in_step_def)

lemma in_stepE:
  assumes "packets_in_step ok enc dec" "ok p"
  obtains s' c where "enc s p = Some (s', c)" "dec s c = Some (s', p)" "length c = length p"
  using assms unfolding packets_in_step_def by blast

lemma modes_in_step:
  assumes "\<And>s p. enc s p = (if length p mod 8 \<noteq> 0 then None else Some (W s (fst (e s p)), snd (e s p)))"
    and "\<And>s p. dec s p = (if length p mod 8 \<noteq> 0 then None else Some (W s (fst (d s p)), snd (d s p)))"
    and "\<And>p s. 8 dvd length p \<Longrightarrow> d s (snd (e s p)) = (fst (e s p), p) \<and> length (snd (e s p)) = length p"
  shows "packets_in_step (\<lambda>p. length p mod 8 = 0) enc dec"
  using assms by (simp add: packets_in_step_def mod_eq_0_iff_dvd)

text \<open>Pieces of whole blocks, one call for each, are treated as their concatenation.\<close>

definition composes :: "(byte list \<Rightarrow> bool) \<Rightarrow> ('s \<Rightarrow> byte list \<Rightarrow> ('s \<times> byte list) option) \<Rightarrow> bool" where
  "composes ok f \<longleftrightarrow> (\<forall>s p q. ok p \<longrightarrow> f s (p @ q) = do { (s1, c) \<leftarrow> f s p; (s2, d) \<leftarrow> f s1 q; Some (s2, c @ d) })"

lemma modes_compose:
  assumes f: "\<And>s p. f s p = (if length p mod 8 \<noteq> 0 then None else Some (W s (fst (e s (V s) p)), snd (e s (V s) p)))"
    and w: "\<And>s iv. V (W s iv) = iv" "\<And>s iv iv'. W (W s iv) iv' = W s iv'" "\<And>s iv. e (W s iv) = e s"
    and e: "\<And>p s iv q. 8 dvd length p \<Longrightarrow> e s iv (p @ q) = (fst (e s (fst (e s iv p)) q), snd (e s iv p) @ snd (e s (fst (e s iv p)) q))"
  shows "composes (\<lambda>p. length p mod 8 = 0) f"
  unfolding composes_def
proof (intro allI impI)
  fix s and p q :: "byte list" assume p: "length p mod 8 = 0"
  have "length (p @ q) mod 8 = length q mod 8" using p by (auto simp: mod_eq_0_iff_dvd elim: dvdE)
  then show "f s (p @ q) = do { (s1, c) \<leftarrow> f s p; (s2, d) \<leftarrow> f s1 q; Some (s2, c @ d) }"
    using p e[of p s "V s" q] by (simp add: f w mod_eq_0_iff_dvd)
qed

lemma stream_concat:
  assumes "composes ok f" "\<And>s. f s [] = Some (s, [])" "\<forall>p\<in>set ps. ok p"
  shows "map_option (map_prod id concat) (crypt_stream f s ps) = f s (concat ps)"
  using assms(3)
proof (induction ps arbitrary: s)
  case (Cons p ps)
  have ih: "f s1 (concat ps) = map_option (map_prod id concat) (crypt_stream f s1 ps)" for s1
    using Cons.prems by (intro Cons.IH[symmetric]) simp
  have "f s (concat (p # ps)) = do { (s1, c) \<leftarrow> f s p; (s2, d) \<leftarrow> f s1 (concat ps); Some (s2, c @ d) }"
    using assms(1) Cons.prems by (simp add: composes_def)
  also have "\<dots> = do { (s1, c) \<leftarrow> f s p; (s2, d) \<leftarrow> map_option (map_prod id concat) (crypt_stream f s1 ps); Some (s2, c @ d) }"
    by (simp only: ih)
  finally show ?case by (cases "f s p") (auto simp: split_beta map_option_case split: option.splits)
qed (simp add: assms(2))

lemma stream_in_step:
  assumes "packets_in_step ok enc dec" "\<forall>p\<in>set ps. ok p"
  shows "\<exists>s' cs. crypt_stream enc s ps = Some (s', cs) \<and> crypt_stream dec s cs = Some (s', ps)"
  using assms(2)
proof (induction ps arbitrary: s)
  case (Cons p ps)
  obtain s1 c where 1: "enc s p = Some (s1, c)" "dec s c = Some (s1, p)"
    using in_stepE[OF assms(1), of p s] Cons.prems by (metis list.set_intros(1))
  obtain s2 cs where 2: "crypt_stream enc s1 ps = Some (s2, cs)" "crypt_stream dec s1 cs = Some (s2, ps)"
    using Cons.IH[of s1] Cons.prems by (meson list.set_intros(2))
  have "crypt_stream enc s (p # ps) = Some (s2, c # cs)" "crypt_stream dec s (c # cs) = Some (s2, p # ps)"
    using 1 2 by simp_all
  then show ?case by blast
qed simp

end
