(* ===== verification/Sshdes.thy ===== *)
theory Sshdes
  imports Cipher
begin

text \<open>
  \<open>putty/sshdes.c\<close>: DES in the optimised form of the source (the S-boxes with the permutation \<open>P\<close>
  applied and turned by one bit, the initial permutation by swaps of bits), triple DES with inner
  and outer chaining, the counter mode, and the uses for key files and X authorisation.  The
  lemmas show that the two directions undo each other for every key schedule.
\<close>

unbundle bit_operations_syntax

section \<open>Key schedule\<close>

record DESContext =
  k0246 :: "32 word list"
  k1357 :: "32 word list"
  iv0 :: "32 word"
  iv1 :: "32 word"

definition rotl :: "32 word \<Rightarrow> nat \<Rightarrow> 32 word" where
  "rotl x c = push_bit c x OR drop_bit (32 - c) x"

definition rotl28 :: "32 word \<Rightarrow> nat \<Rightarrow> 32 word" where
  "rotl28 x c = (push_bit c x OR drop_bit (28 - c) x) AND 0x0FFFFFFF"

definition bitsel :: "32 word list \<Rightarrow> int list \<Rightarrow> 32 word" where
  "bitsel inp bitnums = foldl (\<lambda>ret bitpos.
     let r = push_bit 1 ret
     in if bitpos \<ge> 0 then r OR (1 AND drop_bit (nat (bitpos mod 32)) (inp ! nat (bitpos div 32))) else r) 0 bitnums"

definition PC1_Cbits :: "int list" where
  "PC1_Cbits =
    [7, 15, 23, 31, 39, 47, 55, 63, 6, 14, 22, 30, 38, 46,
     54, 62, 5, 13, 21, 29, 37, 45, 53, 61, 4, 12, 20, 28]"

definition PC1_Dbits :: "int list" where
  "PC1_Dbits =
    [1, 9, 17, 25, 33, 41, 49, 57, 2, 10, 18, 26, 34, 42,
     50, 58, 3, 11, 19, 27, 35, 43, 51, 59, 36, 44, 52, 60]"

definition PC2_0246 :: "int list" where
  "PC2_0246 =
    [49, 36, 59, 55, - 1, - 1, 37, 41, 48, 56, 34, 52, - 1, - 1, 15, 4,
     25, 19, 9, 1, - 1, - 1, 12, 7, 17, 0, 22, 3, - 1, - 1, 46, 43]"

definition PC2_1357 :: "int list" where
  "PC2_1357 =
    [- 1, - 1, 57, 32, 45, 54, 39, 50, - 1, - 1, 44, 53, 33, 40, 47, 58,
     - 1, - 1, 26, 16, 5, 11, 23, 8, - 1, - 1, 10, 14, 6, 20, 27, 24]"

definition leftshifts :: "nat list" where
  "leftshifts = [1, 1, 2, 2, 2, 2, 2, 2, 1, 2, 2, 2, 2, 2, 2, 1]"

text \<open>The loop over the sixteen rounds: \<open>C\<close>, \<open>D\<close> and the two lists of subkeys so far.\<close>

definition des_key_loop :: "32 word \<Rightarrow> 32 word \<Rightarrow> 32 word list \<times> 32 word list" where
  "des_key_loop C0 D0 = snd (foldl (\<lambda>((C, D), (ks, ls)) n.
     let C' = rotl28 C n; D' = rotl28 D n; buf = [D', C']
     in ((C', D'), (ks @ [bitsel buf PC2_0246], ls @ [bitsel buf PC2_1357]))) ((C0, D0), ([], [])) leftshifts)"

definition des_key_setup :: "32 word \<Rightarrow> 32 word \<Rightarrow> DESContext" where
  "des_key_setup key_msw key_lsw =
     (let buf = [key_lsw, key_msw];
          (ks, ls) = des_key_loop (bitsel buf PC1_Cbits) (bitsel buf PC1_Dbits)
      in \<lparr>k0246 = ks, k1357 = ls, iv0 = 0, iv1 = 0\<rparr>)"

section \<open>The cipher\<close>

definition SPboxes :: "32 word list list" where
  "SPboxes =
    [[0x01010400, 0x00000000, 0x00010000, 0x01010404, 0x01010004, 0x00010404,
      0x00000004, 0x00010000, 0x00000400, 0x01010400, 0x01010404, 0x00000400,
      0x01000404, 0x01010004, 0x01000000, 0x00000004, 0x00000404, 0x01000400,
      0x01000400, 0x00010400, 0x00010400, 0x01010000, 0x01010000, 0x01000404,
      0x00010004, 0x01000004, 0x01000004, 0x00010004, 0x00000000, 0x00000404,
      0x00010404, 0x01000000, 0x00010000, 0x01010404, 0x00000004, 0x01010000,
      0x01010400, 0x01000000, 0x01000000, 0x00000400, 0x01010004, 0x00010000,
      0x00010400, 0x01000004, 0x00000400, 0x00000004, 0x01000404, 0x00010404,
      0x01010404, 0x00010004, 0x01010000, 0x01000404, 0x01000004, 0x00000404,
      0x00010404, 0x01010400, 0x00000404, 0x01000400, 0x01000400, 0x00000000,
      0x00010004, 0x00010400, 0x00000000, 0x01010004],
     [0x80108020, 0x80008000, 0x00008000, 0x00108020, 0x00100000, 0x00000020,
      0x80100020, 0x80008020, 0x80000020, 0x80108020, 0x80108000, 0x80000000,
      0x80008000, 0x00100000, 0x00000020, 0x80100020, 0x00108000, 0x00100020,
      0x80008020, 0x00000000, 0x80000000, 0x00008000, 0x00108020, 0x80100000,
      0x00100020, 0x80000020, 0x00000000, 0x00108000, 0x00008020, 0x80108000,
      0x80100000, 0x00008020, 0x00000000, 0x00108020, 0x80100020, 0x00100000,
      0x80008020, 0x80100000, 0x80108000, 0x00008000, 0x80100000, 0x80008000,
      0x00000020, 0x80108020, 0x00108020, 0x00000020, 0x00008000, 0x80000000,
      0x00008020, 0x80108000, 0x00100000, 0x80000020, 0x00100020, 0x80008020,
      0x80000020, 0x00100020, 0x00108000, 0x00000000, 0x80008000, 0x00008020,
      0x80000000, 0x80100020, 0x80108020, 0x00108000],
     [0x00000208, 0x08020200, 0x00000000, 0x08020008, 0x08000200, 0x00000000,
      0x00020208, 0x08000200, 0x00020008, 0x08000008, 0x08000008, 0x00020000,
      0x08020208, 0x00020008, 0x08020000, 0x00000208, 0x08000000, 0x00000008,
      0x08020200, 0x00000200, 0x00020200, 0x08020000, 0x08020008, 0x00020208,
      0x08000208, 0x00020200, 0x00020000, 0x08000208, 0x00000008, 0x08020208,
      0x00000200, 0x08000000, 0x08020200, 0x08000000, 0x00020008, 0x00000208,
      0x00020000, 0x08020200, 0x08000200, 0x00000000, 0x00000200, 0x00020008,
      0x08020208, 0x08000200, 0x08000008, 0x00000200, 0x00000000, 0x08020008,
      0x08000208, 0x00020000, 0x08000000, 0x08020208, 0x00000008, 0x00020208,
      0x00020200, 0x08000008, 0x08020000, 0x08000208, 0x00000208, 0x08020000,
      0x00020208, 0x00000008, 0x08020008, 0x00020200],
     [0x00802001, 0x00002081, 0x00002081, 0x00000080, 0x00802080, 0x00800081,
      0x00800001, 0x00002001, 0x00000000, 0x00802000, 0x00802000, 0x00802081,
      0x00000081, 0x00000000, 0x00800080, 0x00800001, 0x00000001, 0x00002000,
      0x00800000, 0x00802001, 0x00000080, 0x00800000, 0x00002001, 0x00002080,
      0x00800081, 0x00000001, 0x00002080, 0x00800080, 0x00002000, 0x00802080,
      0x00802081, 0x00000081, 0x00800080, 0x00800001, 0x00802000, 0x00802081,
      0x00000081, 0x00000000, 0x00000000, 0x00802000, 0x00002080, 0x00800080,
      0x00800081, 0x00000001, 0x00802001, 0x00002081, 0x00002081, 0x00000080,
      0x00802081, 0x00000081, 0x00000001, 0x00002000, 0x00800001, 0x00002001,
      0x00802080, 0x00800081, 0x00002001, 0x00002080, 0x00800000, 0x00802001,
      0x00000080, 0x00800000, 0x00002000, 0x00802080],
     [0x00000100, 0x02080100, 0x02080000, 0x42000100, 0x00080000, 0x00000100,
      0x40000000, 0x02080000, 0x40080100, 0x00080000, 0x02000100, 0x40080100,
      0x42000100, 0x42080000, 0x00080100, 0x40000000, 0x02000000, 0x40080000,
      0x40080000, 0x00000000, 0x40000100, 0x42080100, 0x42080100, 0x02000100,
      0x42080000, 0x40000100, 0x00000000, 0x42000000, 0x02080100, 0x02000000,
      0x42000000, 0x00080100, 0x00080000, 0x42000100, 0x00000100, 0x02000000,
      0x40000000, 0x02080000, 0x42000100, 0x40080100, 0x02000100, 0x40000000,
      0x42080000, 0x02080100, 0x40080100, 0x00000100, 0x02000000, 0x42080000,
      0x42080100, 0x00080100, 0x42000000, 0x42080100, 0x02080000, 0x00000000,
      0x40080000, 0x42000000, 0x00080100, 0x02000100, 0x40000100, 0x00080000,
      0x00000000, 0x40080000, 0x02080100, 0x40000100],
     [0x20000010, 0x20400000, 0x00004000, 0x20404010, 0x20400000, 0x00000010,
      0x20404010, 0x00400000, 0x20004000, 0x00404010, 0x00400000, 0x20000010,
      0x00400010, 0x20004000, 0x20000000, 0x00004010, 0x00000000, 0x00400010,
      0x20004010, 0x00004000, 0x00404000, 0x20004010, 0x00000010, 0x20400010,
      0x20400010, 0x00000000, 0x00404010, 0x20404000, 0x00004010, 0x00404000,
      0x20404000, 0x20000000, 0x20004000, 0x00000010, 0x20400010, 0x00404000,
      0x20404010, 0x00400000, 0x00004010, 0x20000010, 0x00400000, 0x20004000,
      0x20000000, 0x00004010, 0x20000010, 0x20404010, 0x00404000, 0x20400000,
      0x00404010, 0x20404000, 0x00000000, 0x20400010, 0x00000010, 0x00004000,
      0x20400000, 0x00404010, 0x00004000, 0x00400010, 0x20004010, 0x00000000,
      0x20404000, 0x20000000, 0x00400010, 0x20004010],
     [0x00200000, 0x04200002, 0x04000802, 0x00000000, 0x00000800, 0x04000802,
      0x00200802, 0x04200800, 0x04200802, 0x00200000, 0x00000000, 0x04000002,
      0x00000002, 0x04000000, 0x04200002, 0x00000802, 0x04000800, 0x00200802,
      0x00200002, 0x04000800, 0x04000002, 0x04200000, 0x04200800, 0x00200002,
      0x04200000, 0x00000800, 0x00000802, 0x04200802, 0x00200800, 0x00000002,
      0x04000000, 0x00200800, 0x04000000, 0x00200800, 0x00200000, 0x04000802,
      0x04000802, 0x04200002, 0x04200002, 0x00000002, 0x00200002, 0x04000000,
      0x04000800, 0x00200000, 0x04200800, 0x00000802, 0x00200802, 0x04200800,
      0x00000802, 0x04000002, 0x04200802, 0x04200000, 0x00200800, 0x00000000,
      0x00000002, 0x04200802, 0x00000000, 0x00200802, 0x04200000, 0x00000800,
      0x04000002, 0x04000800, 0x00000800, 0x00200002],
     [0x10001040, 0x00001000, 0x00040000, 0x10041040, 0x10000000, 0x10001040,
      0x00000040, 0x10000000, 0x00040040, 0x10040000, 0x10041040, 0x00041000,
      0x10041000, 0x00041040, 0x00001000, 0x00000040, 0x10040000, 0x10000040,
      0x10001000, 0x00001040, 0x00041000, 0x00040040, 0x10040040, 0x10041000,
      0x00001040, 0x00000000, 0x00000000, 0x10040040, 0x10000040, 0x10001000,
      0x00041040, 0x00040000, 0x00041040, 0x00040000, 0x10041000, 0x00001000,
      0x00000040, 0x10040040, 0x00001000, 0x00041040, 0x10001000, 0x00000040,
      0x10000040, 0x10040000, 0x10040040, 0x10000000, 0x00040000, 0x10001040,
      0x00000000, 0x10041040, 0x00040040, 0x10000040, 0x10040000, 0x10001000,
      0x10001040, 0x00000000, 0x10041040, 0x00041000, 0x00041000, 0x00001040,
      0x00001040, 0x00040040, 0x10000000, 0x10041000]]"

definition box :: "nat \<Rightarrow> 32 word \<Rightarrow> 32 word" where
  "box i s = SPboxes ! i ! unat (s AND 0x3F)"

definition f :: "32 word \<Rightarrow> 32 word \<Rightarrow> 32 word \<Rightarrow> 32 word" where
  "f R K0246 K1357 =
     (let s0246 = R XOR K0246; s1357 = R XOR K1357; s0246 = rotl s0246 28
      in box 0 (drop_bit 24 s0246) OR box 1 (drop_bit 24 s1357) OR box 2 (drop_bit 16 s0246) OR box 3 (drop_bit 16 s1357)
         OR box 4 (drop_bit 8 s0246) OR box 5 (drop_bit 8 s1357) OR box 6 s0246 OR box 7 s1357)"

definition bitswap :: "nat \<Rightarrow> 32 word \<Rightarrow> block \<Rightarrow> block" where
  "bitswap n m = (\<lambda>(L, R). let swap = m AND (drop_bit n R XOR L) in (L XOR swap, R XOR push_bit n swap))"

definition IP :: "block \<Rightarrow> block" where
  "IP = (\<lambda>(L, R).
     let (R, L) = bitswap 4 0x0F0F0F0F (R, L); (R, L) = bitswap 16 0x0000FFFF (R, L);
         (L, R) = bitswap 2 0x33333333 (L, R); (L, R) = bitswap 8 0x00FF00FF (L, R);
         (R, L) = bitswap 1 0x55555555 (R, L)
     in (L, R))"

definition FP :: "block \<Rightarrow> block" where
  "FP = (\<lambda>(L, R).
     let (R, L) = bitswap 1 0x55555555 (R, L); (L, R) = bitswap 8 0x00FF00FF (L, R);
         (L, R) = bitswap 2 0x33333333 (L, R); (R, L) = bitswap 16 0x0000FFFF (R, L);
         (R, L) = bitswap 4 0x0F0F0F0F (R, L)
     in (L, R))"

text \<open>Two rounds, under the subkeys with the numbers \<open>i\<close> and \<open>j\<close>.\<close>

definition des_rounds :: "DESContext \<Rightarrow> block \<Rightarrow> (nat \<times> nat) list \<Rightarrow> block" where
  "des_rounds sched = foldl (\<lambda>(L, R) (i, j).
     let L' = L XOR f R (k0246 sched ! i) (k1357 sched ! i);
         R' = R XOR f L' (k0246 sched ! j) (k1357 sched ! j)
     in (L', R'))"

definition des_crypt :: "(nat \<times> nat) list \<Rightarrow> DESContext \<Rightarrow> block \<Rightarrow> block" where
  "des_crypt order sched b =
     (let (L, R) = IP b; (L, R) = des_rounds sched (rotl L 1, rotl R 1) order;
          L = rotl L 31; R = rotl R 31
      in FP (R, L))"

definition des_encipher :: "DESContext \<Rightarrow> block \<Rightarrow> block" where
  "des_encipher = des_crypt [(0, 1), (2, 3), (4, 5), (6, 7), (8, 9), (10, 11), (12, 13), (14, 15)]"

definition des_decipher :: "DESContext \<Rightarrow> block \<Rightarrow> block" where
  "des_decipher = des_crypt [(15, 14), (13, 12), (11, 10), (9, 8), (7, 6), (5, 4), (3, 2), (1, 0)]"

section \<open>Modes\<close>

definition with_iv :: "DESContext \<Rightarrow> block \<times> byte list \<Rightarrow> DESContext \<times> byte list" where
  "with_iv sched = (\<lambda>(iv, blk). (sched\<lparr>iv0 := fst iv, iv1 := snd iv\<rparr>, blk))"

definition iv_of :: "DESContext \<Rightarrow> block" where
  "iv_of sched = (iv0 sched, iv1 sched)"

definition des_cbc_encrypt :: "DESContext \<Rightarrow> byte list \<Rightarrow> (DESContext \<times> byte list) option" where
  "des_cbc_encrypt sched blk =
     (if length blk mod 8 \<noteq> 0 then None
      else Some (with_iv sched (cbc_encrypt (des_encipher sched) GET_32BIT_MSB_FIRST PUT_32BIT_MSB_FIRST (iv_of sched) blk)))"

definition des_cbc_decrypt :: "DESContext \<Rightarrow> byte list \<Rightarrow> (DESContext \<times> byte list) option" where
  "des_cbc_decrypt sched blk =
     (if length blk mod 8 \<noteq> 0 then None
      else Some (with_iv sched (cbc_decrypt (des_decipher sched) GET_32BIT_MSB_FIRST PUT_32BIT_MSB_FIRST (iv_of sched) blk)))"

type_synonym des3 = "DESContext \<times> DESContext \<times> DESContext"

definition des_3cbc_encrypt :: "des3 \<Rightarrow> byte list \<Rightarrow> (des3 \<times> byte list) option" where
  "des_3cbc_encrypt = (\<lambda>(s0, s1, s2) blk0. do {
     (s0', blk1) \<leftarrow> des_cbc_encrypt s0 blk0;
     (s1', blk2) \<leftarrow> des_cbc_decrypt s1 blk1;
     (s2', blk3) \<leftarrow> des_cbc_encrypt s2 blk2;
     Some ((s0', s1', s2'), blk3) })"

definition des_3cbc_decrypt :: "des3 \<Rightarrow> byte list \<Rightarrow> (des3 \<times> byte list) option" where
  "des_3cbc_decrypt = (\<lambda>(s0, s1, s2) blk0. do {
     (s2', blk1) \<leftarrow> des_cbc_decrypt s2 blk0;
     (s1', blk2) \<leftarrow> des_cbc_encrypt s1 blk1;
     (s0', blk3) \<leftarrow> des_cbc_decrypt s0 blk2;
     Some ((s0', s1', s2'), blk3) })"

text \<open>Three ciphers in a row on each block, as in the loops with outer chaining.\<close>

definition des3_encipher :: "des3 \<Rightarrow> block \<Rightarrow> block" where
  "des3_encipher = (\<lambda>(s0, s1, s2) b. des_encipher s2 (des_decipher s1 (des_encipher s0 b)))"

definition des3_decipher :: "des3 \<Rightarrow> block \<Rightarrow> block" where
  "des3_decipher = (\<lambda>(s0, s1, s2) b. des_decipher s0 (des_encipher s1 (des_decipher s2 b)))"

definition with_iv3 :: "des3 \<Rightarrow> block \<times> byte list \<Rightarrow> des3 \<times> byte list" where
  "with_iv3 = (\<lambda>(s0, s1, s2) r. case with_iv s0 r of (s0', blk) \<Rightarrow> ((s0', s1, s2), blk))"

definition des_cbc3_encrypt :: "des3 \<Rightarrow> byte list \<Rightarrow> (des3 \<times> byte list) option" where
  "des_cbc3_encrypt scheds blk =
     (if length blk mod 8 \<noteq> 0 then None
      else Some (with_iv3 scheds (cbc_encrypt (des3_encipher scheds) GET_32BIT_MSB_FIRST PUT_32BIT_MSB_FIRST (iv_of (fst scheds)) blk)))"

definition des_cbc3_decrypt :: "des3 \<Rightarrow> byte list \<Rightarrow> (des3 \<times> byte list) option" where
  "des_cbc3_decrypt scheds blk =
     (if length blk mod 8 \<noteq> 0 then None
      else Some (with_iv3 scheds (cbc_decrypt (des3_decipher scheds) GET_32BIT_MSB_FIRST PUT_32BIT_MSB_FIRST (iv_of (fst scheds)) blk)))"

definition des_sdctr3 :: "des3 \<Rightarrow> byte list \<Rightarrow> (des3 \<times> byte list) option" where
  "des_sdctr3 scheds blk =
     (if length blk mod 8 \<noteq> 0 then None
      else Some (with_iv3 scheds (sdctr (des3_encipher scheds) GET_32BIT_MSB_FIRST PUT_32BIT_MSB_FIRST (iv_of (fst scheds)) blk)))"

section \<open>Keys\<close>

definition des_key_at :: "byte list \<Rightarrow> nat \<Rightarrow> DESContext" where
  "des_key_at key i = des_key_setup (GET_32BIT_MSB_FIRST (drop i key)) (GET_32BIT_MSB_FIRST (drop (i + 4) key))"

definition des3_key :: "byte list \<Rightarrow> des3" where
  "des3_key key = (des_key_at key 0, des_key_at key 8, des_key_at key 16)"

definition des_set_iv :: "DESContext \<Rightarrow> byte list \<Rightarrow> DESContext" where
  "des_set_iv s key = s\<lparr>iv0 := GET_32BIT_MSB_FIRST key, iv1 := GET_32BIT_MSB_FIRST (drop 4 key)\<rparr>"

definition des3_iv :: "des3 \<Rightarrow> byte list \<Rightarrow> des3" where
  "des3_iv = (\<lambda>(s0, s1, s2) key. (des_set_iv s0 key, s1, s2))"

definition des_key :: "byte list \<Rightarrow> DESContext" where
  "des_key key = des_key_at key 0"

text \<open>SSH-1: the contexts of the two directions, from the same session key.\<close>

definition des3_sesskey :: "byte list \<Rightarrow> des3 \<times> des3" where
  "des3_sesskey key = (des3_key key, des3_key key)"

definition des3_encrypt_blk :: "des3 \<times> des3 \<Rightarrow> byte list \<Rightarrow> ((des3 \<times> des3) \<times> byte list) option" where
  "des3_encrypt_blk = (\<lambda>(out, inp) blk. do { (out', c) \<leftarrow> des_3cbc_encrypt out blk; Some ((out', inp), c) })"

definition des3_decrypt_blk :: "des3 \<times> des3 \<Rightarrow> byte list \<Rightarrow> ((des3 \<times> des3) \<times> byte list) option" where
  "des3_decrypt_blk = (\<lambda>(out, inp) blk. do { (inp', p) \<leftarrow> des_3cbc_decrypt inp blk; Some ((out, inp'), p) })"

definition pubkey_keys :: "byte list \<Rightarrow> des3" where
  "pubkey_keys key = (des_key_at key 0, des_key_at key 8, des_key_at key 0)"

definition des3_decrypt_pubkey :: "byte list \<Rightarrow> byte list \<Rightarrow> byte list option" where
  "des3_decrypt_pubkey key blk = do { (_, p) \<leftarrow> des_3cbc_decrypt (pubkey_keys key) blk; Some p }"

definition des3_encrypt_pubkey :: "byte list \<Rightarrow> byte list \<Rightarrow> byte list option" where
  "des3_encrypt_pubkey key blk = do { (_, c) \<leftarrow> des_3cbc_encrypt (pubkey_keys key) blk; Some c }"

definition des3_decrypt_pubkey_ossh :: "byte list \<Rightarrow> byte list \<Rightarrow> byte list \<Rightarrow> byte list option" where
  "des3_decrypt_pubkey_ossh key iv blk = do { (_, p) \<leftarrow> des_cbc3_decrypt (des3_iv (des3_key key) iv) blk; Some p }"

definition des3_encrypt_pubkey_ossh :: "byte list \<Rightarrow> byte list \<Rightarrow> byte list \<Rightarrow> byte list option" where
  "des3_encrypt_pubkey_ossh key iv blk = do { (_, c) \<leftarrow> des_cbc3_encrypt (des3_iv (des3_key key) iv) blk; Some c }"

text \<open>
  X authorisation: 56 bits of key in seven bytes, spread to eight with the parity bits zero.  The
  arguments of the loop are \<open>bits\<close>, \<open>nbits\<close> and the key data that are left.
\<close>

fun xdmauth_loop :: "nat \<Rightarrow> 32 word \<Rightarrow> nat \<Rightarrow> byte list \<Rightarrow> byte list" where
  "xdmauth_loop 0 bits nbits keydata = []"
| "xdmauth_loop (Suc n) bits nbits keydata =
     (let (bits, nbits, keydata) =
            (if nbits < 7 then (push_bit 8 bits OR ucast (hd keydata), nbits + 8, tl keydata) else (bits, nbits, keydata))
      in ucast (push_bit 1 (drop_bit (nbits - 7) bits))
           # xdmauth_loop n (bits AND NOT (push_bit (nbits - 7) 0x7F)) (nbits - 7) keydata)"

definition des_keysetup_xdmauth :: "byte list \<Rightarrow> DESContext" where
  "des_keysetup_xdmauth keydata = des_key_at (xdmauth_loop 8 0 0 keydata) 0"

definition des_encrypt_xdmauth :: "byte list \<Rightarrow> byte list \<Rightarrow> byte list option" where
  "des_encrypt_xdmauth keydata blk = do { (_, c) \<leftarrow> des_cbc_encrypt (des_keysetup_xdmauth keydata) blk; Some c }"

definition des_decrypt_xdmauth :: "byte list \<Rightarrow> byte list \<Rightarrow> byte list option" where
  "des_decrypt_xdmauth keydata blk = do { (_, p) \<leftarrow> des_cbc_decrypt (des_keysetup_xdmauth keydata) blk; Some p }"

section \<open>The two directions\<close>

lemma drop_push_masked:
  fixes m :: "32 word"
  assumes "drop_bit n (push_bit n m) = m"
  shows "drop_bit n (push_bit n (m AND t)) = m AND t"
proof (rule bit_word_eqI)
  fix i assume "i < LENGTH(32)"
  have "bit m i = bit (drop_bit n (push_bit n m)) i" by (simp only: assms)
  then show "bit (drop_bit n (push_bit n (m AND t))) i = bit (m AND t) i"
    by (auto simp: bit_drop_bit_eq bit_push_bit_iff bit_and_iff)
qed

lemma word_xor_cancel: "(x XOR y) XOR y = x" "x XOR (x XOR y) = y" for x y :: "32 word"
  by (simp_all add: xor.assoc flip: xor.assoc[of x x])

lemma bitswap_pair: "bitswap n m (L, R) = (L XOR (m AND (drop_bit n R XOR L)), R XOR push_bit n (m AND (drop_bit n R XOR L)))"
  by (simp add: bitswap_def Let_def)

lemma bitswap_twice:
  assumes "drop_bit n (push_bit n m) = m"
  shows "bitswap n m (bitswap n m b) = b"
proof -
  define s where "s = m AND (drop_bit n (snd b) XOR fst b)"
  have b: "bitswap n m b = (fst b XOR s, snd b XOR push_bit n s)" by (simp add: bitswap_def s_def Let_def split_beta)
  have "drop_bit n (push_bit n s) = s" unfolding s_def by (rule drop_push_masked[OF assms])
  then have "drop_bit n (snd b XOR push_bit n s) XOR (fst b XOR s) = drop_bit n (snd b) XOR fst b"
    by (simp add: drop_bit_xor xor.assoc xor.left_commute xor.commute)
  then have "m AND (drop_bit n (snd b XOR push_bit n s) XOR (fst b XOR s)) = s" by (simp only: s_def)
  then show ?thesis unfolding b bitswap_pair by (simp only: word_xor_cancel prod.collapse)
qed

lemma swaps: "bitswap 4 0x0F0F0F0F (bitswap 4 0x0F0F0F0F b) = b" "bitswap 16 0x0000FFFF (bitswap 16 0x0000FFFF b) = b"
  "bitswap 2 0x33333333 (bitswap 2 0x33333333 b) = b" "bitswap 8 0x00FF00FF (bitswap 8 0x00FF00FF b) = b"
  "bitswap 1 0x55555555 (bitswap 1 0x55555555 b) = b"
  by (rule bitswap_twice, simp)+

text \<open>With the pairs turned round where the roles of \<open>L\<close> and \<open>R\<close> change, the permutations are compositions.\<close>

lemma IP_swaps: "IP b = prod.swap (bitswap 1 0x55555555 (prod.swap (bitswap 8 0x00FF00FF (bitswap 2 0x33333333
    (prod.swap (bitswap 16 0x0000FFFF (bitswap 4 0x0F0F0F0F (prod.swap b))))))))"
  by (simp add: IP_def Let_def split_beta prod.swap_def)

lemma FP_swaps: "FP b = prod.swap (bitswap 4 0x0F0F0F0F (bitswap 16 0x0000FFFF (prod.swap (bitswap 2 0x33333333
    (bitswap 8 0x00FF00FF (prod.swap (bitswap 1 0x55555555 (prod.swap b))))))))"
  by (simp add: FP_def Let_def split_beta prod.swap_def)

lemma IP_FP: "IP (FP b) = b" "FP (IP b) = b"
  by (simp_all only: IP_swaps FP_swaps swap_swap swaps)

lemma bit_rotl: "0 < c \<Longrightarrow> c < 32 \<Longrightarrow> k < 32 \<Longrightarrow> bit (rotl x c) k \<longleftrightarrow> bit x (if c \<le> k then k - c else k + 32 - c)"
  by (auto simp: rotl_def bit_or_iff bit_push_bit_iff bit_drop_bit_eq add.commute dest: bit_imp_le_length)

lemma rotl_rotl: "rotl (rotl x 1) 31 = x" "rotl (rotl x 31) 1 = x"
proof -
  have "bit (rotl (rotl x 1) 31) k = bit x k" "bit (rotl (rotl x 31) 1) k = bit x k" if "k < 32" for k
  proof -
    have "k = 31 \<or> k < 31" using that by linarith
    then show "bit (rotl (rotl x 1) 31) k = bit x k" by (auto simp: bit_rotl)
    have "k = 0 \<or> (1 \<le> k \<and> k - 1 < 31)" using that by linarith
    then show "bit (rotl (rotl x 31) 1) k = bit x k" using that by (auto simp: bit_rotl)
  qed
  then show "rotl (rotl x 1) 31 = x" "rotl (rotl x 31) 1 = x" by (auto intro!: bit_word_eqI)
qed

lemma rounds_back:
  "des_rounds s (prod.swap (des_rounds s b ks)) (rev (map prod.swap ks)) = prod.swap b"
proof (induction ks arbitrary: b)
  case (Cons k ks)
  obtain i j where k: "k = (i, j)" by force
  obtain L R where b: "b = (L, R)" by force
  let ?L = "L XOR f R (k0246 s ! i) (k1357 s ! i)"
  let ?R = "R XOR f ?L (k0246 s ! j) (k1357 s ! j)"
  have "des_rounds s b (k # ks) = des_rounds s (?L, ?R) ks" by (simp add: des_rounds_def k b Let_def)
  then have "des_rounds s (prod.swap (des_rounds s b (k # ks))) (rev (map prod.swap (k # ks)))
      = des_rounds s (des_rounds s (prod.swap (des_rounds s (?L, ?R) ks)) (rev (map prod.swap ks))) [(j, i)]"
    by (simp add: des_rounds_def k)
  also have "\<dots> = des_rounds s (?R, ?L) [(j, i)]" by (simp only: Cons.IH swap_simp)
  also have "\<dots> = prod.swap b" by (simp add: des_rounds_def b word_xor_cancel)
  finally show ?case .
qed (simp add: des_rounds_def)

lemma crypt_back: "des_crypt (rev (map prod.swap ks)) s (des_crypt ks s b) = b"
proof -
  obtain L R where b: "IP b = (L, R)" by force
  obtain L' R' where r: "des_rounds s (rotl L 1, rotl R 1) ks = (L', R')" by force
  have "des_rounds s (R', L') (rev (map prod.swap ks)) = (rotl R 1, rotl L 1)"
    using rounds_back[of s "(rotl L 1, rotl R 1)" ks] by (simp only: r swap_simp)
  then have "des_crypt (rev (map prod.swap ks)) s (FP (rotl R' 31, rotl L' 31)) = FP (L, R)"
    by (simp add: des_crypt_def IP_FP rotl_rotl del: One_nat_def)
  moreover have "des_crypt ks s b = FP (rotl R' 31, rotl L' 31)" by (simp add: des_crypt_def b r del: One_nat_def)
  moreover have "FP (L, R) = b" by (simp only: b[symmetric] IP_FP)
  ultimately show ?thesis by (simp only:)
qed

lemma des_back: "des_decipher s (des_encipher s b) = b" "des_encipher s (des_decipher s b) = b"
  using crypt_back[of "[(0, 1), (2, 3), (4, 5), (6, 7), (8, 9), (10, 11), (12, 13), (14, 15)]" s b]
    crypt_back[of "[(15, 14), (13, 12), (11, 10), (9, 8), (7, 6), (5, 4), (3, 2), (1, 0)]" s b]
  by (simp_all add: des_encipher_def des_decipher_def)

interpretation des: cipher_modes "des_encipher s" "des_decipher s" GET_32BIT_MSB_FIRST PUT_32BIT_MSB_FIRST for s
  by unfold_locales (rule des_back)+

interpretation des3: cipher_modes "des3_encipher s" "des3_decipher s" GET_32BIT_MSB_FIRST PUT_32BIT_MSB_FIRST for s
  by unfold_locales (simp_all add: des3_encipher_def des3_decipher_def des_back split_beta)

lemma rekeyed: "des_encipher (s\<lparr>iv0 := a, iv1 := b\<rparr>) = des_encipher s" "des_decipher (s\<lparr>iv0 := a, iv1 := b\<rparr>) = des_decipher s"
  by (simp_all add: fun_eq_iff des_encipher_def des_decipher_def des_crypt_def des_rounds_def)

section \<open>In step\<close>

text \<open>Whole blocks.\<close>

abbreviation blocks8 :: "byte list \<Rightarrow> bool" where
  "blocks8 p \<equiv> length p mod 8 = 0"

definition put_iv :: "DESContext \<Rightarrow> block \<Rightarrow> DESContext" where
  "put_iv s iv = s\<lparr>iv0 := fst iv, iv1 := snd iv\<rparr>"

definition put_iv3 :: "des3 \<Rightarrow> block \<Rightarrow> des3" where
  "put_iv3 = (\<lambda>(s0, s1, s2) iv. (put_iv s0 iv, s1, s2))"

lemma des_cbc_in_step: "packets_in_step blocks8 des_cbc_encrypt des_cbc_decrypt" "packets_in_step blocks8 des_cbc_decrypt des_cbc_encrypt"
proof -
  have e: "des_cbc_encrypt s p = (if length p mod 8 \<noteq> 0 then None else
      Some (put_iv s (fst (cbc_encrypt (des_encipher s) GET_32BIT_MSB_FIRST PUT_32BIT_MSB_FIRST (iv_of s) p)),
        snd (cbc_encrypt (des_encipher s) GET_32BIT_MSB_FIRST PUT_32BIT_MSB_FIRST (iv_of s) p)))" for s p
    by (simp add: des_cbc_encrypt_def with_iv_def put_iv_def split_beta)
  have d: "des_cbc_decrypt s p = (if length p mod 8 \<noteq> 0 then None else
      Some (put_iv s (fst (cbc_decrypt (des_decipher s) GET_32BIT_MSB_FIRST PUT_32BIT_MSB_FIRST (iv_of s) p)),
        snd (cbc_decrypt (des_decipher s) GET_32BIT_MSB_FIRST PUT_32BIT_MSB_FIRST (iv_of s) p)))" for s p
    by (simp add: des_cbc_decrypt_def with_iv_def put_iv_def split_beta)
  show "packets_in_step blocks8 des_cbc_encrypt des_cbc_decrypt" by (rule modes_in_step[OF e d des.cbc_roundtrip])
  show "packets_in_step blocks8 des_cbc_decrypt des_cbc_encrypt" by (rule modes_in_step[OF d e des.cbc_roundtrip_back])
qed

lemma des_cbc3_in_step: "packets_in_step blocks8 des_cbc3_encrypt des_cbc3_decrypt" "packets_in_step blocks8 des_sdctr3 des_sdctr3"
proof -
  have w: "with_iv3 s r = (put_iv3 s (fst r), snd r)" for s r
    by (simp add: with_iv3_def with_iv_def put_iv3_def put_iv_def split_beta)
  show "packets_in_step blocks8 des_cbc3_encrypt des_cbc3_decrypt"
    by (rule modes_in_step[OF des_cbc3_encrypt_def[unfolded w] des_cbc3_decrypt_def[unfolded w] des3.cbc_roundtrip])
  show "packets_in_step blocks8 des_sdctr3 des_sdctr3"
    by (rule modes_in_step[OF des_sdctr3_def[unfolded w] des_sdctr3_def[unfolded w] des3.sdctr_roundtrip])
qed

lemma des_composes: "composes blocks8 des_cbc_encrypt" "composes blocks8 des_cbc_decrypt"
proof -
  have w: "with_iv s r = (put_iv s (fst r), snd r)" for s r by (simp add: with_iv_def put_iv_def split_beta)
  have v: "iv_of (put_iv s iv) = iv" "put_iv (put_iv s iv) iv' = put_iv s iv'" "des_encipher (put_iv s iv) = des_encipher s"
    "des_decipher (put_iv s iv) = des_decipher s" for s iv iv'
    by (simp_all add: iv_of_def put_iv_def rekeyed)
  show "composes blocks8 des_cbc_encrypt"
    by (rule modes_compose[where V = iv_of, OF des_cbc_encrypt_def[unfolded w] v(1,2) _ des.cbc_encrypt_append]) (simp_all add: v)
  show "composes blocks8 des_cbc_decrypt"
    by (rule modes_compose[where V = iv_of, OF des_cbc_decrypt_def[unfolded w] v(1,2) _ des.cbc_decrypt_append]) (simp_all add: v)
qed

lemma des3_composes: "composes blocks8 des_cbc3_encrypt" "composes blocks8 des_cbc3_decrypt" "composes blocks8 des_sdctr3"
proof -
  have w: "with_iv3 s r = (put_iv3 s (fst r), snd r)" for s r
    by (simp add: with_iv3_def with_iv_def put_iv3_def put_iv_def split_beta)
  have v: "iv_of (fst (put_iv3 s iv)) = iv" "put_iv3 (put_iv3 s iv) iv' = put_iv3 s iv'" "des3_encipher (put_iv3 s iv) = des3_encipher s"
    "des3_decipher (put_iv3 s iv) = des3_decipher s" for s iv iv'
    by (simp_all add: iv_of_def put_iv3_def put_iv_def rekeyed des3_encipher_def des3_decipher_def split_beta)
  show "composes blocks8 des_cbc3_encrypt"
    by (rule modes_compose[where V = "\<lambda>s. iv_of (fst s)", OF des_cbc3_encrypt_def[unfolded w] v(1,2) _ des3.cbc_encrypt_append]) (simp_all add: v)
  show "composes blocks8 des_cbc3_decrypt"
    by (rule modes_compose[where V = "\<lambda>s. iv_of (fst s)", OF des_cbc3_decrypt_def[unfolded w] v(1,2) _ des3.cbc_decrypt_append]) (simp_all add: v)
  show "composes blocks8 des_sdctr3"
    by (rule modes_compose[where V = "\<lambda>s. iv_of (fst s)", OF des_sdctr3_def[unfolded w] v(1,2) _ des3.sdctr_append]) (simp_all add: v)
qed

lemma des_3cbc_in_step: "packets_in_step blocks8 des_3cbc_encrypt des_3cbc_decrypt"
proof (rule in_stepI)
  fix s :: des3 and p :: "byte list" assume p: "blocks8 p"
  obtain s0 s1 s2 where s: "s = (s0, s1, s2)" by (cases s) auto
  obtain t0 c0 where 0: "des_cbc_encrypt s0 p = Some (t0, c0)" "des_cbc_decrypt s0 c0 = Some (t0, p)" "length c0 = length p"
    using in_stepE[OF des_cbc_in_step(1), of p s0] p by metis
  obtain t1 c1 where 1: "des_cbc_decrypt s1 c0 = Some (t1, c1)" "des_cbc_encrypt s1 c1 = Some (t1, c0)" "length c1 = length p"
    using in_stepE[OF des_cbc_in_step(2), of c0 s1] p 0 by metis
  obtain t2 c2 where 2: "des_cbc_encrypt s2 c1 = Some (t2, c2)" "des_cbc_decrypt s2 c2 = Some (t2, c1)" "length c2 = length p"
    using in_stepE[OF des_cbc_in_step(1), of c1 s2] p 1 by metis
  show "\<exists>s' c. des_3cbc_encrypt s p = Some (s', c) \<and> length c = length p \<and> des_3cbc_decrypt s c = Some (s', p)"
    using 0 1 2 by (simp add: des_3cbc_encrypt_def des_3cbc_decrypt_def s)
qed

end
