(* ===== verification/Ssharcf.thy ===== *)
theory Ssharcf
  imports Cipher "HOL-Library.Multiset"
begin

text \<open>
  \<open>putty/ssharcf.c\<close>: Arcfour with its key set-up and the stirring of the SSH-2 methods.  The state
  is a permutation of the 256 bytes, whatever the key; encryption is its own inverse.
\<close>

unbundle bit_operations_syntax

record ArcfourContext =
  arc_i :: byte
  arc_j :: byte
  arc_s :: "byte list"

text \<open>One round of the loop: the new indices and table, and the byte of the key stream.\<close>

definition exchange :: "byte \<Rightarrow> byte \<Rightarrow> byte list \<Rightarrow> byte list" where
  "exchange i j s = (let tmp = s ! unat i; s = s[unat i := s ! unat j] in s[unat j := tmp])"

definition arcfour_round :: "ArcfourContext \<Rightarrow> ArcfourContext \<times> byte" where
  "arcfour_round ctx =
     (let i = arc_i ctx + 1; j = arc_j ctx + arc_s ctx ! unat i; s = exchange i j (arc_s ctx)
      in (\<lparr>arc_i = i, arc_j = j, arc_s = s\<rparr>, s ! unat (s ! unat i + s ! unat j)))"

fun arcfour_block :: "ArcfourContext \<Rightarrow> byte list \<Rightarrow> ArcfourContext \<times> byte list" where
  "arcfour_block ctx [] = (ctx, [])"
| "arcfour_block ctx (b # blk) =
     (let (ctx1, k) = arcfour_round ctx; (ctx2, rest) = arcfour_block ctx1 blk in (ctx2, (b XOR k) # rest))"

text \<open>The second loop of the key set-up; \<open>j\<close> is kept below 256 by the mask.\<close>

fun setkey_loop :: "byte list \<Rightarrow> byte list \<Rightarrow> byte \<Rightarrow> byte list \<Rightarrow> byte list" where
  "setkey_loop s k j [] = s"
| "setkey_loop s k j (i # is) =
     (let j' = j + s ! unat i + k ! unat i in setkey_loop (exchange i j' s) k j' is)"

definition bytes256 :: "byte list" where
  "bytes256 = map of_nat [0..<256]"

definition arcfour_setkey :: "byte list \<Rightarrow> ArcfourContext option" where
  "arcfour_setkey key =
     (if \<not> length key \<le> 256 then None
      else let k = map (\<lambda>i. key ! (i mod length key)) [0..<256]
           in Some \<lparr>arc_i = 0, arc_j = 0, arc_s = setkey_loop bytes256 k 0 bytes256\<rparr>)"

definition arcfour_stir :: "ArcfourContext \<Rightarrow> ArcfourContext" where
  "arcfour_stir ctx = fst (arcfour_block ctx (replicate 1536 0))"

definition arcfour128_key :: "byte list \<Rightarrow> ArcfourContext option" where
  "arcfour128_key key = map_option arcfour_stir (arcfour_setkey (take 16 key))"

definition arcfour256_key :: "byte list \<Rightarrow> ArcfourContext option" where
  "arcfour256_key key = map_option arcfour_stir (arcfour_setkey (take 32 key))"

section \<open>The table\<close>

text \<open>The table holds each byte once; so it has 256 entries, and no index is out of range.\<close>

definition arc_ok :: "ArcfourContext \<Rightarrow> bool" where
  "arc_ok ctx \<longleftrightarrow> length (arc_s ctx) = 256 \<and> distinct (arc_s ctx)"

lemma exchange_table:
  "length s = 256 \<Longrightarrow> length (exchange i j s) = 256 \<and> mset (exchange i j s) = mset s"
proof -
  have i: "unat i < 256" "unat j < 256" using unsigned_less[where w = i and 'a = nat] unsigned_less[where w = j and 'a = nat] by simp_all
  have e: "exchange i j s = s[unat i := s ! unat j, unat j := s ! unat i]" by (simp add: exchange_def Let_def)
  show "length s = 256 \<Longrightarrow> ?thesis" unfolding e using i mset_swap[of "unat j" s "unat i"] by simp
qed

lemma exchange_distinct: "length s = 256 \<Longrightarrow> distinct s \<Longrightarrow> distinct (exchange i j s)"
  using exchange_table[of s i j] by (metis mset_eq_imp_distinct_iff)

lemma arcfour_round_ok: "arc_ok ctx \<Longrightarrow> arc_ok (fst (arcfour_round ctx))"
  by (simp add: arc_ok_def arcfour_round_def Let_def exchange_table exchange_distinct)

lemma arcfour_block_ok: "arc_ok ctx \<Longrightarrow> arc_ok (fst (arcfour_block ctx blk))"
  by (induction blk arbitrary: ctx) (simp_all add: Let_def split_beta arcfour_round_ok)

lemma setkey_loop_ok: "length s = 256 \<Longrightarrow> distinct s \<Longrightarrow> length (setkey_loop s k j is) = 256 \<and> distinct (setkey_loop s k j is)"
  by (induction s k j "is" rule: setkey_loop.induct) (simp_all add: Let_def exchange_table exchange_distinct)

lemma bytes256_ok: "length bytes256 = 256" "distinct bytes256"
proof -
  have "inj_on (of_nat :: nat \<Rightarrow> byte) {0..<256}"
    by (rule inj_on_inverseI[of _ unat]) (simp add: unsigned_of_nat take_bit_nat_eq_self_iff)
  then show "distinct bytes256" by (simp add: bytes256_def distinct_map)
qed (simp add: bytes256_def)

lemma arcfour_keys_ok: "arcfour_setkey key = Some ctx \<Longrightarrow> arc_ok ctx"
  using setkey_loop_ok[OF bytes256_ok] by (auto simp: arcfour_setkey_def arc_ok_def Let_def split: if_splits)

lemma arcfour_stir_ok: "arc_ok ctx \<Longrightarrow> arc_ok (arcfour_stir ctx)"
  by (simp add: arcfour_stir_def arcfour_block_ok)

section \<open>The stream\<close>

lemma arcfour_twice:
  "arcfour_block ctx (snd (arcfour_block ctx p)) = (fst (arcfour_block ctx p), p) \<and> length (snd (arcfour_block ctx p)) = length p"
proof (induction p arbitrary: ctx)
  case (Cons b p)
  have "(b XOR k) XOR k = b" for k :: byte by (simp add: xor.assoc)
  then show ?case using Cons by (simp add: Let_def split_beta)
qed simp

lemma arcfour_append:
  "arcfour_block ctx (p @ q) = (let (ctx1, c) = arcfour_block ctx p; (ctx2, d) = arcfour_block ctx1 q in (ctx2, c @ d))"
  by (induction p arbitrary: ctx) (simp_all add: Let_def split_beta)

lemma arcfour_in_step: "packets_in_step (\<lambda>p. True) (\<lambda>ctx p. Some (arcfour_block ctx p)) (\<lambda>ctx p. Some (arcfour_block ctx p))"
proof (rule in_stepI)
  fix ctx p
  have "arcfour_block ctx p = (fst (arcfour_block ctx p), snd (arcfour_block ctx p))" by simp
  then show "\<exists>s' c. Some (arcfour_block ctx p) = Some (s', c) \<and> length c = length p \<and> Some (arcfour_block ctx c) = Some (s', p)"
    using arcfour_twice[of ctx p] by blast
qed

end
