(* ===== verification/Cipher_Props.thy ===== *)
theory Cipher_Props
  imports Sshdes Sshblowf Ssharcf
begin

text \<open>
  The ciphers as the transport layers use them: two ends with equal contexts understand each other
  packet after packet, pieces of whole blocks may be encrypted one by one, and the table of
  Arcfour stays a permutation.
\<close>

section \<open>Packets\<close>

text \<open>
  Claim C20: for DES and triple DES (inner chaining of SSH-1, outer chaining and counter mode of
  SSH-2) and Blowfish (either byte order, and counter mode), under every key schedule: a sender
  and a receiver whose contexts are equal treat any sequence of packets of whole blocks without a
  failed assertion, the receiver gets exactly the packets that were sent, and the contexts are
  equal again at the end.
\<close>

theorem cipher_streams_in_step:
  assumes "\<forall>p\<in>set ps. length p mod 8 = 0"
  shows "(\<exists>s' cs. crypt_stream des_cbc_encrypt s ps = Some (s', cs) \<and> crypt_stream des_cbc_decrypt s cs = Some (s', ps))
    \<and> (\<exists>t' cs. crypt_stream des_3cbc_encrypt t ps = Some (t', cs) \<and> crypt_stream des_3cbc_decrypt t cs = Some (t', ps))
    \<and> (\<exists>t' cs. crypt_stream des_cbc3_encrypt t ps = Some (t', cs) \<and> crypt_stream des_cbc3_decrypt t cs = Some (t', ps))
    \<and> (\<exists>t' cs. crypt_stream des_sdctr3 t ps = Some (t', cs) \<and> crypt_stream des_sdctr3 t cs = Some (t', ps))
    \<and> (\<exists>b' cs. crypt_stream blowfish_lsb_encrypt_cbc b ps = Some (b', cs) \<and> crypt_stream blowfish_lsb_decrypt_cbc b cs = Some (b', ps))
    \<and> (\<exists>b' cs. crypt_stream blowfish_msb_encrypt_cbc b ps = Some (b', cs) \<and> crypt_stream blowfish_msb_decrypt_cbc b cs = Some (b', ps))
    \<and> (\<exists>b' cs. crypt_stream blowfish_msb_sdctr b ps = Some (b', cs) \<and> crypt_stream blowfish_msb_sdctr b cs = Some (b', ps))"
  by (intro conjI stream_in_step[OF _ assms] des_cbc_in_step des_3cbc_in_step des_cbc3_in_step blowfish_in_step)

theorem cipher_streams_in_step_witness:
  "\<exists>s' cs. crypt_stream des_cbc_encrypt (des_key [1, 2, 3, 4, 5, 6, 7, 8]) [replicate 16 7, [], replicate 8 9] = Some (s', cs)
    \<and> crypt_stream des_cbc_decrypt (des_key [1, 2, 3, 4, 5, 6, 7, 8]) cs = Some (s', [replicate 16 7, [], replicate 8 9])"
proof -
  have "\<forall>p\<in>set [replicate 16 7, [], replicate 8 9]. length (p :: byte list) mod 8 = 0" by simp
  from cipher_streams_in_step[OF this, of "des_key [1, 2, 3, 4, 5, 6, 7, 8]"] show ?thesis by (rule conjunct1)
qed

text \<open>
  Claim C23: how a message of whole blocks is cut into calls makes no difference: the ciphers with
  outer chaining and the counter modes give the concatenation of the results, and the same
  context, as one call with all the data.
\<close>

theorem cipher_calls_concatenate:
  assumes "\<forall>p\<in>set ps. length p mod 8 = 0"
  shows "map_option (map_prod id concat) (crypt_stream des_cbc_encrypt s ps) = des_cbc_encrypt s (concat ps)
    \<and> map_option (map_prod id concat) (crypt_stream des_cbc_decrypt s ps) = des_cbc_decrypt s (concat ps)
    \<and> map_option (map_prod id concat) (crypt_stream des_cbc3_encrypt t ps) = des_cbc3_encrypt t (concat ps)
    \<and> map_option (map_prod id concat) (crypt_stream des_cbc3_decrypt t ps) = des_cbc3_decrypt t (concat ps)
    \<and> map_option (map_prod id concat) (crypt_stream des_sdctr3 t ps) = des_sdctr3 t (concat ps)
    \<and> map_option (map_prod id concat) (crypt_stream blowfish_msb_encrypt_cbc b ps) = blowfish_msb_encrypt_cbc b (concat ps)
    \<and> map_option (map_prod id concat) (crypt_stream blowfish_msb_decrypt_cbc b ps) = blowfish_msb_decrypt_cbc b (concat ps)
    \<and> map_option (map_prod id concat) (crypt_stream blowfish_msb_sdctr b ps) = blowfish_msb_sdctr b (concat ps)"
proof -
  note empty = cbc_encrypt.simps cbc_decrypt.simps sdctr.simps
  have "des_cbc_encrypt s [] = Some (s, [])" "des_cbc_decrypt s [] = Some (s, [])" for s
    by (simp_all add: des_cbc_encrypt_def des_cbc_decrypt_def with_iv_def iv_of_def empty)
  moreover have "des_cbc3_encrypt s [] = Some (s, [])" "des_cbc3_decrypt s [] = Some (s, [])" "des_sdctr3 s [] = Some (s, [])" for s
    by (simp_all add: des_cbc3_encrypt_def des_cbc3_decrypt_def des_sdctr3_def with_iv3_def with_iv_def iv_of_def empty split_beta)
  moreover have "blowfish_msb_encrypt_cbc s [] = Some (s, [])" "blowfish_msb_decrypt_cbc s [] = Some (s, [])" "blowfish_msb_sdctr s [] = Some (s, [])" for s
    by (simp_all add: blowfish_msb_encrypt_cbc_def blowfish_msb_decrypt_cbc_def blowfish_msb_sdctr_def bf_put_iv_def bf_iv_of_def empty)
  ultimately show ?thesis
    by (intro conjI stream_concat[OF _ _ assms] des_composes des3_composes blowfish_composes)
qed

theorem cipher_calls_concatenate_witness:
  "map_option (map_prod id concat) (crypt_stream des_cbc_encrypt (des_key [1, 2, 3, 4, 5, 6, 7, 8]) [replicate 16 7, [], replicate 8 9])
    = des_cbc_encrypt (des_key [1, 2, 3, 4, 5, 6, 7, 8]) (concat [replicate 16 7, [], replicate 8 9])"
proof -
  have "\<forall>p\<in>set [replicate 16 7, [], replicate 8 9]. length (p :: byte list) mod 8 = 0" by simp
  from cipher_calls_concatenate[OF this, of "des_key [1, 2, 3, 4, 5, 6, 7, 8]"] show ?thesis by (rule conjunct1)
qed

section \<open>Key files\<close>

lemma key_files_recovered:
  assumes "length p mod 8 = 0"
  shows "Option.bind (des3_encrypt_pubkey key p) (des3_decrypt_pubkey key) = Some p"
    and "Option.bind (des3_encrypt_pubkey_ossh key iv p) (des3_decrypt_pubkey_ossh key iv) = Some p"
    and "Option.bind (des_encrypt_xdmauth key p) (des_decrypt_xdmauth key) = Some p"
proof -
  obtain s c where "des_3cbc_encrypt (pubkey_keys key) p = Some (s, c)" "des_3cbc_decrypt (pubkey_keys key) c = Some (s, p)"
    using in_stepE[OF des_3cbc_in_step assms] by metis
  then show "Option.bind (des3_encrypt_pubkey key p) (des3_decrypt_pubkey key) = Some p"
    by (simp add: des3_encrypt_pubkey_def des3_decrypt_pubkey_def)
  obtain s c where "des_cbc3_encrypt (des3_iv (des3_key key) iv) p = Some (s, c)" "des_cbc3_decrypt (des3_iv (des3_key key) iv) c = Some (s, p)"
    using in_stepE[OF des_cbc3_in_step(1) assms] by metis
  then show "Option.bind (des3_encrypt_pubkey_ossh key iv p) (des3_decrypt_pubkey_ossh key iv) = Some p"
    by (simp add: des3_encrypt_pubkey_ossh_def des3_decrypt_pubkey_ossh_def)
  obtain s c where "des_cbc_encrypt (des_keysetup_xdmauth key) p = Some (s, c)" "des_cbc_decrypt (des_keysetup_xdmauth key) c = Some (s, p)"
    using in_stepE[OF des_cbc_in_step(1) assms] by metis
  then show "Option.bind (des_encrypt_xdmauth key p) (des_decrypt_xdmauth key) = Some p"
    by (simp add: des_encrypt_xdmauth_def des_decrypt_xdmauth_def)
qed

section \<open>Arcfour\<close>

text \<open>
  Claim C22: from either key set-up and after any data, the table of Arcfour holds each of the 256
  bytes exactly once, so that no index ever leaves it; a second pass over the output with the same
  context gives back the data and the same context; and the data may be cut anywhere.
\<close>

theorem arcfour_table_and_stream:
  assumes "arcfour128_key key = Some ctx0 \<or> arcfour256_key key = Some ctx0" "ctx = fst (arcfour_block ctx0 used)"
  shows "length (arc_s ctx) = 256 \<and> set (arc_s ctx) = UNIV \<and> distinct (arc_s ctx)
    \<and> arcfour_block ctx (snd (arcfour_block ctx p)) = (fst (arcfour_block ctx p), p)
    \<and> arcfour_block ctx (p @ q) = (let (ctx1, c) = arcfour_block ctx p; (ctx2, d) = arcfour_block ctx1 q in (ctx2, c @ d))"
proof -
  have "arc_ok ctx0" using assms(1) arcfour_keys_ok arcfour_stir_ok by (auto simp: arcfour128_key_def arcfour256_key_def)
  then have k: "arc_ok ctx" unfolding assms(2) by (rule arcfour_block_ok)
  have "card (set (arc_s ctx)) = CARD(byte)" using k by (simp add: arc_ok_def distinct_card card_word)
  then have "set (arc_s ctx) = UNIV" by (intro card_subset_eq) simp_all
  then show ?thesis using k arcfour_twice[of ctx p] arcfour_append[of ctx p q] by (simp add: arc_ok_def)
qed

theorem arcfour_table_and_stream_witness:
  "\<exists>ctx0. arcfour128_key (replicate 16 5) = Some ctx0
    \<and> arcfour_block ctx0 (snd (arcfour_block ctx0 [1, 2, 3])) = (fst (arcfour_block ctx0 [1, 2, 3]), [1, 2, 3])"
proof -
  obtain ctx0 where k: "arcfour128_key (replicate 16 5) = Some ctx0"
    by (simp add: arcfour128_key_def arcfour_setkey_def Let_def)
  then have "arcfour128_key (replicate 16 5) = Some ctx0 \<or> arcfour256_key (replicate 16 5) = Some ctx0" "ctx0 = fst (arcfour_block ctx0 [])"
    by simp_all
  from arcfour_table_and_stream[OF this, of "[1, 2, 3]" "[]"] k show ?thesis by blast
qed

end
