(* ===== verification/Spec2Isabelle.thy ===== *)
theory Spec2Isabelle
  imports Tree234_Props Conf_Props Wildcard_Facts Bufchain Base64 Telnet_Props Telnet_Replies Int64 Crc32 Ldisc_Props Termline_Props Wcwidth Term_Props Term_Text Term_Frame Term_Alt Ldiscucs Hash_Props Cipher_Props
begin

text \<open>
  This is a verification library for the core of the terminal emulator in \<open>src/putty\<close>: the
  PuTTY code that the Android application is built around.  It models the containers and
  stores (\<open>tree234.c\<close>, \<open>conf.c\<close>, the buffer chains of \<open>misc.c\<close>), the helpers for wildcards, base64,
  64-bit numbers, CRC and character widths, the telnet backend, the line discipline with its
  wide-character side, the hash functions, message authentication codes and ciphers of the SSH code, and
  the terminal emulator proper: its screen, its scrollback and the interpreter of everything
  that the host sends.

  \<^bold>\<open>How the parts interact.\<close>  Keys reach \<open>luni_send\<close> and \<open>ldisc_send\<close>, which edit and echo and hand bytes
  and special commands to a backend; the telnet backend escapes them and negotiates options
  with the server; what the server sends reaches \<open>term_out\<close>, which interprets it character by
  character, changes the screen and the modes, and answers through the line discipline.  Lines
  that scroll off are kept compressed.  Options are looked up in the configuration store, which
  is a sorted 2-3-4 tree; received and printed data wait in buffer chains.

  \<^bold>\<open>Conventions.\<close>  A C structure is a record, an enumeration or tagged union a datatype, a
  function of the same name a definition or \<open>fun\<close>.  \<open>unsigned char\<close>, \<open>unsigned long\<close> and the like are words
  of 8, 16 and 32 bits; an \<open>int\<close> is an integer, wrapped (\<open>wrap32\<close>) where the input can make it
  overflow.  State is passed explicitly; the calls to the front end, the socket and the log are
  events, appended in order.  A result \<open>None\<close> stands for a failed assertion, a null pointer that is
  dereferenced, or an access outside an array; a theorem that a result is \<open>Some\<close> is therefore a
  safety theorem.  Errors that the code reports are values.  Loops are structural recursion, or
  functions with a proved termination; fuel is used in \<open>print_flush_loop\<close> and \<open>print_finish_loop\<close> (the size
  of the buffer: each round takes a byte), \<open>back_tabs\<close> (the column: each round moves left), \<open>cc_chars\<close> and
  the other walks along the lists of combining characters (the length of the line: the
  invariant makes the lists acyclic), and in \<open>term_out_loop\<close> a byte is read again once, after which no
  UTF-8 sequence is pending; the theorems show that this is enough.

  \<^bold>\<open>Theories.\<close>

  \<^item> \<open>Prelude\<close>, \<open>Misc\<close>: types, lists, C strings, big-endian fields (\<open>misc.h\<close>).

  \<^item> \<open>Tree234\<close>, \<open>Tree234_Del\<close> (\<open>tree234.c\<close>): nodes with counts, insertion with splitting on the way up,
  lookup by index and by relation, deletion with borrowing and joining.  \<open>Tree234_Facts\<close> and
  \<open>Tree234_Del_Facts\<close> prove them over the list of the elements in order, under the invariant
  \<open>full234\<close> (what \<open>verifytree\<close> of the source checks); the locale \<open>cmp_order\<close> is the contract of a comparison
  function.  \<open>Tree234_Props\<close> has the properties, one of them of whole histories of calls against a
  sorted list, with the depth.

  \<^item> \<open>Store\<close>: the locale \<open>keyed_store\<close>, an ordered collection with one element for each key, as the clients
  of the tree rely on it.  \<open>Conf\<close> (\<open>conf.c\<close> and the option table of \<open>putty.h\<close>) is such a client:
  \<open>Conf_Facts\<close> interprets \<open>cmp_order\<close> and \<open>keyed_store\<close> on its comparison function and on the tree
  operations and derives an abstract map; \<open>Conf_Props\<close> has setters, deletions, copying, and reading and
  writing of the serialised form, also from arbitrary bytes: the reader keeps the bytes, the
  pointer and \<open>maxsize\<close> apart, and a read outside the bytes is \<open>None\<close>.

  \<^item> \<open>Wildcard\<close>, \<open>Wildcard_Facts\<close> (\<open>wildcard.c\<close>): the matcher decides the language of the documented syntax.

  \<^item> \<open>Bufchain\<close> (\<open>misc.c\<close>): granules with their free room; the locale \<open>byte_queue\<close> is the promise of a queue of
  bytes, interpreted on the buffer chain.  \<open>Base64\<close>, \<open>Int64\<close>, \<open>Crc32\<close> (\<open>misc.c\<close>, \<open>int64.c\<close>, \<open>sshcrc.c\<close>) relate
  table-driven and half-word arithmetic to words and polynomials.

  \<^item> \<open>Telnet\<close> (\<open>telnet.c\<close>): the record \<open>telnet\<close> with the option states, the sub-negotiation buffer and the
  emitted events; the receiving state machine, negotiation, sending, special commands.
  \<open>Telnet_Chunks\<close>: the result does not depend on how the stream is cut.  \<open>Telnet_Inv\<close>: the operations
  as an inductive step relation and its invariant.  \<open>Telnet_Props\<close>: the properties.  \<open>Telnet_Replies\<close>: the
  number of commands that any negotiation makes the client write.

  \<^item> \<open>Ldisc\<close>, \<open>Ldisc_Props\<close> (\<open>ldisc.c\<close>) and \<open>Ldiscucs\<close> (\<open>ldiscucs.c\<close>, the surrogate macros of \<open>putty.h\<close>): local editing and
  echo, direct sending, and UTF-16 to UTF-8.  The echo is judged on a line of a display (\<open>tty\<close>) against
  the usual form of each byte (\<open>visible\<close>).  They compose with \<open>Telnet\<close> (a typed line on the wire)
  and with the decoder of the terminal (typed text read back).

  \<^item> \<open>Termline\<close> (first part of \<open>terminal.c\<close>): a line is an array of cells whose combining characters are
  linked lists within the array.  \<open>Termline_CC\<close>: its invariant and the refinement of every operation to
  abstract cells (character, attribute, list of combining characters).  \<open>Termline_Codec\<close>,
  \<open>Termline_Rle\<close>, \<open>Termline_Props\<close>: the compressed form; the locales \<open>literal_maker\<close> and \<open>literal_codec\<close> are run-length
  encoding over any kind of literal, interpreted three times (characters, attributes,
  combining characters).  \<open>Wcwidth\<close> (\<open>wcwidth.c\<close>): tables and binary search.

  \<^item> \<open>Term_State\<close> (\<open>terminal.h\<close>): the state, with the fields of \<open>terminal_tag\<close> grouped into records as its text
  says.  \<open>Term_Screen\<close>: printing, scrolling, the cursor, erasing, inserting.  \<open>Term_Modes\<close>: the
  alternate screen, \<open>power_on\<close>, \<open>term_clrsb\<close>, \<open>term_size\<close>, mode switches, OSC strings.  \<open>Term_Out\<close>: decoding, control
  and graphic characters.  \<open>Term_Esc\<close>: every ESC, CSI, OSC and VT52 sequence, the dispatch and the
  loop \<open>term_out\<close>.  \<open>Term_Life\<close>: \<open>term_init\<close> and the first \<open>term_size\<close>.

  \<^item> \<open>Term_Lines\<close>, \<open>Term_Inv\<close>, \<open>Term_Screen_Inv\<close>, \<open>Term_Modes_Inv\<close>, \<open>Term_Whole_Inv\<close>, \<open>Term_Out_Inv\<close>, \<open>Term_Esc_Inv\<close>, \<open>Term_Safety\<close>: the invariant
  \<open>term_ok\<close> (cursor and margins on the screen, every line well-formed, every stored line
  readable, the arguments and strings of a sequence within their arrays, and so on), and one
  lemma for each operation that it does not fail and keeps the invariant.  \<open>sat m Q\<close> says that \<open>m\<close> does
  not fail and its result satisfies \<open>Q\<close>; the bundles \<open>step_then\<close> and \<open>ok_then\<close> compose the steps.

  \<^item> \<open>Term_Sample\<close>, \<open>Term_Parse\<close>, \<open>Term_Text\<close>, \<open>Term_Props\<close>: concrete terminals, control sequences as a whole, text
  and scrollback, and whole sessions.  \<open>Term_Frame\<close>: one lemma for each operation that it leaves alone
  what stands behind the alternate screen (\<open>backdrop\<close>); \<open>Term_Alt\<close>: going there and back.

  \<^item> \<open>Hash\<close>: what the hash functions share (collecting blocks, counting in limbs of 32 bits, padding), the
  HMAC wrapper that each of them repeats, and \<open>smemeq\<close>; the locale \<open>streaming_hash\<close> is the interface \<open>ssh_hash\<close>:
  a hash holds the bytes it was fed and its result depends on them alone.  \<open>Sshmd5\<close>, \<open>Sshsha\<close>, \<open>Sshsh256\<close>,
  \<open>Sshsh512\<close> (the files of these names) interpret it, the last one twice.  \<open>Hash_Props\<close>: digests of messages
  in pieces, RFC 2104, and the refinement of SHA-512 on 32-bit halves to 64-bit words.

  \<^item> \<open>Cipher\<close>: chaining and counter mode over any block cipher and byte order; the locale \<open>block_cipher\<close> (two
  functions on blocks that undo each other) and \<open>cipher_modes\<close>, which adds a \<open>word_order\<close>, are the contracts of the
  ciphers.  \<open>Sshdes\<close>, \<open>Sshblowf\<close>, \<open>Ssharcf\<close> (the files of these names) with interpretations for DES, triple DES
  and Blowfish under every key schedule.  \<open>Cipher_Props\<close>: sessions of packets.

  \<^bold>\<open>Bounds.\<close>  A terminal has from 1 row and 2 columns up to \<open>2 ^ 31 - 1\<close> of each (\<open>good_size\<close>): with one column the
  code itself fails on a double-width character.  A piece of a hashed message is shorter than
  \<open>2 ^ 31\<close> bytes, the length being an \<open>int\<close>.  Arguments of control sequences
  must not exceed an \<open>int\<close> in the safety theorem (\<open>numbers_fit\<close>): beyond it the code does fail, as the theorem on ECH shows.

  \<^bold>\<open>Not modelled.\<close>  Drawing (\<open>do_paint\<close>, \<open>minibidi.c\<close>), selection with the mouse, the clipboard, keyboard
  translation, text search and the session log of the terminal; the SSH protocol, AES and the public-key code, the rlogin,
  raw and serial backends, the ADB and zmodem code; the Windows and Android front ends, which are calls to
  their systems; the vendored libraries (\<open>curl\<close>, \<open>libevent\<close>, \<open>libpng\<close> and others).  Memory management is
  not part of the models: values are never shared or freed.  Conversions between code pages,
  the answers of the front end, the clock, the contents of uninitialised memory
  (\<open>junk\<close>) and the sockets are parameters.
\<close>

end
